(* ===== verification/Prelude.thy ===== *)
theory Prelude
  imports Main "HOL-Library.Sublist" "HOL-Library.Word"
begin

text \<open>
  Shared vocabulary of the development: the result type that stands for Rust's
  \<open>Result\<close>, its sequencing operator (the \<open>?\<close> operator of the source), the
  contract of a self-delimiting codec that several wire formats satisfy, and
  the generic lemmas on lists that the components share.
\<close>

named_theorems http_defs \<open>definitions of the network components unfolded by evaluation\<close>
named_theorems keeps \<open>facts that an operation keeps a component's invariant\<close>

section \<open>Results\<close>

text \<open>\<open>Result<T, E>\<close> is \<open>'e + 't\<close> with \<open>Inl\<close> the error, and \<open>rbind\<close> is the
  propagation of an error by the \<open>?\<close> operator.\<close>

type_synonym ('t, 'e) rresult = "'e + 't"

fun rbind :: "('e + 'a) \<Rightarrow> ('a \<Rightarrow> 'e + 'b) \<Rightarrow> 'e + 'b" where
  "rbind (Inl e) f = Inl e"
| "rbind (Inr x) f = f x"

fun map_err :: "('e \<Rightarrow> 'f) \<Rightarrow> ('e + 'a) \<Rightarrow> 'f + 'a" where
  "map_err f (Inl e) = Inl (f e)"
| "map_err f (Inr x) = Inr x"

lemma rbind_eq_Inr [simp]: "rbind r f = Inr y \<longleftrightarrow> (\<exists>x. r = Inr x \<and> f x = Inr y)"
  by (cases r) auto

lemma rbind_assoc [simp]: "rbind (rbind r f) g = rbind r (\<lambda>x. rbind (f x) g)"
  by (cases r) auto

lemma map_err_eq_Inr [simp]: "map_err f r = Inr x \<longleftrightarrow> r = Inr x"
  by (cases r) auto

lemma rbind_cong [fundef_cong]:
  "r = r' \<Longrightarrow> (\<And>x. r' = Inr x \<Longrightarrow> f x = f' x) \<Longrightarrow> rbind r f = rbind r' f'"
  by (cases r') auto

section \<open>Lists\<close>

lemma takeWhile_neq_append [simp]:
  "c \<notin> set xs \<Longrightarrow> takeWhile (\<lambda>x. x \<noteq> c) (xs @ c # ys) = xs"
  by (induction xs) auto

lemma dropWhile_neq_append [simp]:
  "c \<notin> set xs \<Longrightarrow> dropWhile (\<lambda>x. x \<noteq> c) (xs @ c # ys) = c # ys"
  by (induction xs) auto

lemma takeWhile_neq_id [simp]: "c \<notin> set xs \<Longrightarrow> takeWhile (\<lambda>x. x \<noteq> c) xs = xs"
  by (induction xs) auto

lemma dropWhile_neq_Nil [simp]: "c \<notin> set xs \<Longrightarrow> dropWhile (\<lambda>x. x \<noteq> c) xs = []"
  by (induction xs) auto

lemma takeWhile_not_in: "c \<notin> set (takeWhile (\<lambda>x. x \<noteq> c) xs)"
  by (auto dest: set_takeWhileD)

lemma dropWhile_neq_Cons:
  "dropWhile (\<lambda>x. x \<noteq> c) xs = y # ys \<Longrightarrow> y = c \<and> xs = takeWhile (\<lambda>x. x \<noteq> c) xs @ c # ys"
  by (induction xs) (auto split: if_splits)

lemma length_dropWhile_Cons_less:
  "dropWhile P xs = y # ys \<Longrightarrow> length ys < length xs"
  by (metis Suc_le_eq length_Cons length_dropWhile_le)

lemma filter_filter_disj:
  "filter (\<lambda>x. \<not> P x) (filter Q xs) = filter (\<lambda>x. Q x \<and> \<not> P x) xs"
  by (simp add: conj_commute)

lemma distinct_map_filterI: "distinct (map f xs) \<Longrightarrow> distinct (map f (filter P xs))"
  by (induction xs) auto

lemma find_Some_in: "List.find P xs = Some x \<Longrightarrow> x \<in> set xs \<and> P x"
  by (auto simp: find_Some_iff)

section \<open>Self-delimiting codecs\<close>

text \<open>
  A wire format is \<^emph>\<open>self-delimiting\<close> when decoding an encoded item gives the item back
  and leaves exactly what followed it.  The law is stated once here; every consequence
  (an encoding is never empty where decoding consumes input, encodings of valid items are
  unambiguous, a concatenation of encodings decodes item by item) is proved once
  and used by the formats of the network stack that satisfy it.
\<close>

locale codec =
  fixes enc :: "'a \<Rightarrow> 'b list"
    and dec :: "'b list \<Rightarrow> ('a \<times> 'b list) option"
    and ok :: "'a \<Rightarrow> bool"
  assumes dec_enc: "ok x \<Longrightarrow> dec (enc x @ rest) = Some (x, rest)"
begin

lemma dec_enc_exact: "ok x \<Longrightarrow> dec (enc x) = Some (x, [])"
  using dec_enc [of x "[]"] by simp

lemma enc_prefix_free:
  assumes "ok x" "ok y" "enc x @ r = enc y @ s"
  shows "x = y \<and> r = s"
proof -
  have "Some (x, r) = dec (enc y @ s)"
    using dec_enc [OF assms(1)] unfolding assms(3) [symmetric] by (rule sym)
  also have "\<dots> = Some (y, s)"
    by (rule dec_enc [OF assms(2)])
  finally show ?thesis by simp
qed

lemma enc_injective: "ok x \<Longrightarrow> ok y \<Longrightarrow> enc x = enc y \<Longrightarrow> x = y"
  using enc_prefix_free [of x y "[]" "[]"] by simp

lemma concat_enc_injective:
  assumes "\<forall>x\<in>set xs. ok x" "\<forall>y\<in>set ys. ok y" "length xs = length ys"
    and "concat (map enc xs) @ r = concat (map enc ys) @ s"
  shows "xs = ys \<and> r = s"
  using assms(3,1,2,4)
proof (induction xs ys rule: list_induct2)
  case Nil
  then show ?case by simp
next
  case (Cons x xs y ys)
  have "x = y \<and> concat (map enc xs) @ r = concat (map enc ys) @ s"
    by (rule enc_prefix_free) (use Cons.prems in auto)
  with Cons.IH Cons.prems show ?case by auto
qed

end

end
