(* ===== verification/RustStd.thy ===== *)
theory RustStd
  imports Prelude
begin

text \<open>
  The part of Rust's standard library that the network stack uses.  A \<open>str\<close> is the list
  of its UTF-8 bytes (an Isabelle \<open>char\<close> is one byte), so \<open>len\<close>, indexing and the
  ASCII operations are exact; \<open>trim\<close> strips the UTF-8 encodings of the characters with the
  Unicode property White\_Space.  Integer parsing, \<open>IpAddr\<close> parsing, UTF-8 validation and
  \<open>SystemTime\<close> arithmetic follow the library's documented behaviour on a 64-bit Unix
  target (\<open>usize\<close> has 64 bits, \<open>SystemTime\<close> counts signed 64-bit seconds).
\<close>

section \<open>Bytes and ASCII characters\<close>

type_synonym u8 = "8 word"

abbreviation byte :: "char \<Rightarrow> nat" where
  "byte c \<equiv> of_char c"

definition bytes_of_str :: "string \<Rightarrow> u8 list" where
  "bytes_of_str s = map (\<lambda>c. word_of_nat (byte c)) s"

definition str_of_bytes :: "u8 list \<Rightarrow> string" where
  "str_of_bytes bs = map (\<lambda>b. char_of (unat b)) bs"

definition is_ascii_digit :: "char \<Rightarrow> bool" where
  "is_ascii_digit c \<longleftrightarrow> 48 \<le> byte c \<and> byte c \<le> 57"

definition is_ascii_alphabetic :: "char \<Rightarrow> bool" where
  "is_ascii_alphabetic c \<longleftrightarrow> 65 \<le> byte c \<and> byte c \<le> 90 \<or> 97 \<le> byte c \<and> byte c \<le> 122"

definition is_ascii_alphanumeric :: "char \<Rightarrow> bool" where
  "is_ascii_alphanumeric c \<longleftrightarrow> is_ascii_digit c \<or> is_ascii_alphabetic c"

definition is_ascii_hexdigit :: "char \<Rightarrow> bool" where
  "is_ascii_hexdigit c \<longleftrightarrow>
     is_ascii_digit c \<or> 65 \<le> byte c \<and> byte c \<le> 70 \<or> 97 \<le> byte c \<and> byte c \<le> 102"

definition to_lower :: "char \<Rightarrow> char" where
  "to_lower c =
     (if 65 \<le> byte c \<and> byte c \<le> 90
      then case c of Char b0 b1 b2 b3 b4 b5 b6 b7 \<Rightarrow> Char b0 b1 b2 b3 b4 True b6 b7
      else c)"

definition to_upper :: "char \<Rightarrow> char" where
  "to_upper c =
     (if 97 \<le> byte c \<and> byte c \<le> 122
      then case c of Char b0 b1 b2 b3 b4 b5 b6 b7 \<Rightarrow> Char b0 b1 b2 b3 b4 False b6 b7
      else c)"

definition to_ascii_lowercase :: "string \<Rightarrow> string" where
  "to_ascii_lowercase s = map to_lower s"

definition to_ascii_uppercase :: "string \<Rightarrow> string" where
  "to_ascii_uppercase s = map to_upper s"

definition eq_ignore_ascii_case :: "string \<Rightarrow> string \<Rightarrow> bool" where
  "eq_ignore_ascii_case a b \<longleftrightarrow> to_ascii_lowercase a = to_ascii_lowercase b"

section \<open>String operations\<close>

definition starts_with :: "string \<Rightarrow> string \<Rightarrow> bool" where
  "starts_with s p \<longleftrightarrow> prefix p s"

definition ends_with :: "string \<Rightarrow> string \<Rightarrow> bool" where
  "ends_with s p \<longleftrightarrow> suffix p s"

definition strip_prefix :: "string \<Rightarrow> string \<Rightarrow> string option" where
  "strip_prefix p s = (if prefix p s then Some (drop (length p) s) else None)"

definition strip_suffix :: "string \<Rightarrow> string \<Rightarrow> string option" where
  "strip_suffix p s = (if suffix p s then Some (take (length s - length p) s) else None)"

definition trim_matches :: "(char \<Rightarrow> bool) \<Rightarrow> string \<Rightarrow> string" where
  "trim_matches P s = rev (dropWhile P (rev (dropWhile P s)))"

definition trim_end_matches :: "(char \<Rightarrow> bool) \<Rightarrow> string \<Rightarrow> string" where
  "trim_end_matches P s = rev (dropWhile P (rev s))"

fun split_on :: "(char \<Rightarrow> bool) \<Rightarrow> string \<Rightarrow> string list" where
  "split_on P [] = [[]]"
| "split_on P (c # cs) =
     (if P c then [] # split_on P cs
      else case split_on P cs of [] \<Rightarrow> [[c]] | w # ws \<Rightarrow> (c # w) # ws)"

definition split_char :: "char \<Rightarrow> string \<Rightarrow> string list" where
  "split_char d s = split_on (\<lambda>c. c = d) s"

definition split_once :: "char \<Rightarrow> string \<Rightarrow> (string \<times> string) option" where
  "split_once d s =
     (case dropWhile (\<lambda>c. c \<noteq> d) s of
        [] \<Rightarrow> None
      | _ # r \<Rightarrow> Some (takeWhile (\<lambda>c. c \<noteq> d) s, r))"

fun join :: "string \<Rightarrow> string list \<Rightarrow> string" where
  "join sep [] = []"
| "join sep [w] = w"
| "join sep (w # ws) = w @ sep @ join sep ws"

text \<open>Length in bytes of the whitespace character a string starts with (0 for none), given
  the codes of its first three bytes; and the same for the character it ends with, given
  the codes of its last three bytes in reverse.\<close>

definition ws3 :: "nat \<Rightarrow> nat \<Rightarrow> nat \<Rightarrow> bool" where
  "ws3 a b c \<longleftrightarrow>
     a = 0xE1 \<and> b = 0x9A \<and> c = 0x80
   \<or> a = 0xE2 \<and> b = 0x80 \<and> (0x80 \<le> c \<and> c \<le> 0x8A \<or> c = 0xA8 \<or> c = 0xA9 \<or> c = 0xAF)
   \<or> a = 0xE2 \<and> b = 0x81 \<and> c = 0x9F
   \<or> a = 0xE3 \<and> b = 0x80 \<and> c = 0x80"

definition ws2 :: "nat \<Rightarrow> nat \<Rightarrow> bool" where
  "ws2 a b \<longleftrightarrow> a = 0xC2 \<and> (b = 0x85 \<or> b = 0xA0)"

definition ws1 :: "nat \<Rightarrow> bool" where
  "ws1 a \<longleftrightarrow> 9 \<le> a \<and> a \<le> 13 \<or> a = 32"

fun trim_start :: "string \<Rightarrow> string" where
  "trim_start [] = []"
| "trim_start (x # xs) =
     (if ws1 (byte x) then trim_start xs
      else case xs of
        [] \<Rightarrow> x # xs
      | y # ys \<Rightarrow>
          if ws2 (byte x) (byte y) then trim_start ys
          else (case ys of
            [] \<Rightarrow> x # xs
          | z # zs \<Rightarrow> if ws3 (byte x) (byte y) (byte z) then trim_start zs else x # xs))"

fun trim_rev :: "string \<Rightarrow> string" where
  "trim_rev [] = []"
| "trim_rev (x # xs) =
     (if ws1 (byte x) then trim_rev xs
      else case xs of
        [] \<Rightarrow> x # xs
      | y # ys \<Rightarrow>
          if ws2 (byte y) (byte x) then trim_rev ys
          else (case ys of
            [] \<Rightarrow> x # xs
          | z # zs \<Rightarrow> if ws3 (byte z) (byte y) (byte x) then trim_rev zs else x # xs))"

definition trim_end :: "string \<Rightarrow> string" where
  "trim_end s = rev (trim_rev (rev s))"

definition trim :: "string \<Rightarrow> string" where
  "trim s = trim_end (trim_start s)"

section \<open>Integers\<close>

definition u16_max :: nat where "u16_max = 2 ^ 16 - 1"
definition u64_max :: nat where "u64_max = 2 ^ 64 - 1"

definition to_digit :: "nat \<Rightarrow> char \<Rightarrow> nat option" where
  "to_digit radix c =
     (let d = (if is_ascii_digit c then byte c - 48
               else if 97 \<le> byte c \<and> byte c \<le> 122 then byte c - 97 + 10
               else if 65 \<le> byte c \<and> byte c \<le> 90 then byte c - 65 + 10
               else radix)
      in if d < radix then Some d else None)"

fun parse_digits :: "nat \<Rightarrow> nat \<Rightarrow> nat \<Rightarrow> string \<Rightarrow> nat option" where
  "parse_digits radix mx acc [] = Some acc"
| "parse_digits radix mx acc (c # cs) =
     (case to_digit radix c of
        None \<Rightarrow> None
      | Some d \<Rightarrow>
          if acc * radix + d \<le> mx then parse_digits radix mx (acc * radix + d) cs else None)"

text \<open>\<open>from_str_radix\<close> of an unsigned type with maximum \<open>mx\<close>: a leading \<open>+\<close> is accepted
  when something follows it; an empty string, a foreign character and an overflow are errors.\<close>

definition parse_uint :: "nat \<Rightarrow> nat \<Rightarrow> string \<Rightarrow> nat option" where
  "parse_uint radix mx s =
     (case s of
        [] \<Rightarrow> None
      | c # cs \<Rightarrow>
          if c = CHR ''+'' \<and> cs \<noteq> [] then parse_digits radix mx 0 cs
          else parse_digits radix mx 0 s)"

definition parse_i64 :: "string \<Rightarrow> int option" where
  "parse_i64 s =
     (case s of
        [] \<Rightarrow> None
      | c # cs \<Rightarrow>
          if c = CHR ''-'' \<and> cs \<noteq> [] then map_option (\<lambda>n. - int n) (parse_digits 10 (2 ^ 63) 0 cs)
          else if c = CHR ''+'' \<and> cs \<noteq> [] then map_option int (parse_digits 10 (2 ^ 63 - 1) 0 cs)
          else map_option int (parse_digits 10 (2 ^ 63 - 1) 0 s))"

text \<open>\<open>to_string\<close> of an unsigned integer.\<close>

fun show_nat :: "nat \<Rightarrow> string" where
  "show_nat n = (if n < 10 then [char_of (48 + n)] else show_nat (n div 10) @ [char_of (48 + n mod 10)])"

declare show_nat.simps [simp del]

section \<open>UTF-8 validation\<close>

definition cont :: "nat \<Rightarrow> bool" where
  "cont b \<longleftrightarrow> 0x80 \<le> b \<and> b \<le> 0xBF"

fun utf8_valid :: "nat list \<Rightarrow> bool" where
  "utf8_valid [] = True"
| "utf8_valid (a # r) =
     (if a < 0x80 then utf8_valid r
      else if 0xC2 \<le> a \<and> a \<le> 0xDF then
        (case r of b # r' \<Rightarrow> cont b \<and> utf8_valid r' | _ \<Rightarrow> False)
      else if 0xE0 \<le> a \<and> a \<le> 0xEF then
        (case r of b # c # r' \<Rightarrow>
             (if a = 0xE0 then 0xA0 \<le> b \<and> b \<le> 0xBF else if a = 0xED then 0x80 \<le> b \<and> b \<le> 0x9F else cont b)
             \<and> cont c \<and> utf8_valid r'
         | _ \<Rightarrow> False)
      else if 0xF0 \<le> a \<and> a \<le> 0xF4 then
        (case r of b # c # d # r' \<Rightarrow>
             (if a = 0xF0 then 0x90 \<le> b \<and> b \<le> 0xBF else if a = 0xF4 then 0x80 \<le> b \<and> b \<le> 0x8F else cont b)
             \<and> cont c \<and> cont d \<and> utf8_valid r'
         | _ \<Rightarrow> False)
      else False)"

definition from_utf8 :: "u8 list \<Rightarrow> string option" where
  "from_utf8 bs = (if utf8_valid (map unat bs) then Some (str_of_bytes bs) else None)"

section \<open>IP addresses\<close>

datatype ip_addr = V4 "nat list" | V6 "nat list"

text \<open>The recursive-descent parser of \<open>std::net\<close>: a failing alternative gives the input back.\<close>

fun read_digits :: "nat \<Rightarrow> nat \<Rightarrow> nat \<Rightarrow> nat \<Rightarrow> string \<Rightarrow> (nat \<times> nat \<times> string) option" where
  "read_digits radix max_digits acc count [] = Some (acc, count, [])"
| "read_digits radix max_digits acc count (c # cs) =
     (case to_digit radix c of
        None \<Rightarrow> Some (acc, count, c # cs)
      | Some d \<Rightarrow>
          if Suc count > max_digits then None
          else read_digits radix max_digits (acc * radix + d) (Suc count) cs)"

definition read_number :: "nat \<Rightarrow> nat \<Rightarrow> bool \<Rightarrow> nat \<Rightarrow> string \<Rightarrow> (nat \<times> string) option" where
  "read_number radix max_digits allow_zero_prefix mx s =
     (case read_digits radix max_digits 0 0 s of
        None \<Rightarrow> None
      | Some (n, count, r) \<Rightarrow>
          if count = 0 then None
          else if \<not> allow_zero_prefix \<and> s \<noteq> [] \<and> hd s = CHR ''0'' \<and> count > 1 then None
          else if n \<le> mx then Some (n, r) else None)"

definition read_separator :: "char \<Rightarrow> nat \<Rightarrow> (string \<Rightarrow> ('a \<times> string) option) \<Rightarrow> string \<Rightarrow> ('a \<times> string) option" where
  "read_separator sep index inner s =
     (if index > 0 then (case s of c # cs \<Rightarrow> if c = sep then inner cs else None | [] \<Rightarrow> None)
      else inner s)"

text \<open>The first argument lists the group indices still to be read.\<close>

fun read_v4_groups :: "nat list \<Rightarrow> string \<Rightarrow> (nat list \<times> string) option" where
  "read_v4_groups [] s = Some ([], s)"
| "read_v4_groups (i # is) s =
     (case read_separator CHR ''.'' i (read_number 10 3 False 255) s of
        None \<Rightarrow> None
      | Some (g, r) \<Rightarrow>
          (case read_v4_groups is r of
             None \<Rightarrow> None
           | Some (gs, r') \<Rightarrow> Some (g # gs, r')))"

definition read_ipv4_addr :: "string \<Rightarrow> (nat list \<times> string) option" where
  "read_ipv4_addr s = read_v4_groups [0, 1, 2, 3] s"

text \<open>The flag of the result tells that an embedded IPv4 address ended the run; such an address
  needs two groups, so it is tried only where a further index is left.\<close>

fun read_groups :: "nat list \<Rightarrow> string \<Rightarrow> nat list \<times> bool \<times> string" where
  "read_groups [] s = ([], False, s)"
| "read_groups (i # is) s =
     (case (if is \<noteq> [] then read_separator CHR '':'' i read_ipv4_addr s else None) of
        Some (v4, r) \<Rightarrow>
          ([v4 ! 0 * 256 + v4 ! 1, v4 ! 2 * 256 + v4 ! 3], True, r)
      | None \<Rightarrow>
          (case read_separator CHR '':'' i (read_number 16 4 True 65535) s of
             None \<Rightarrow> ([], False, s)
           | Some (g, r) \<Rightarrow>
               (let (gs, b, r') = read_groups is r in (g # gs, b, r'))))"

definition read_ipv6_addr :: "string \<Rightarrow> (nat list \<times> string) option" where
  "read_ipv6_addr s =
     (let (head, head_ipv4, r) = read_groups [0, 1, 2, 3, 4, 5, 6, 7] s in
      if length head = 8 then Some (head, r)
      else if head_ipv4 then None
      else case r of
        c1 # c2 # r2 \<Rightarrow>
          if c1 = CHR '':'' \<and> c2 = CHR '':'' then
            (let limit = 8 - (length head + 1);
                 (tail, _, r3) = read_groups (take limit [0, 1, 2, 3, 4, 5, 6]) r2
             in Some (head @ replicate (8 - length head - length tail) 0 @ tail, r3))
          else None
      | _ \<Rightarrow> None)"

definition parse_ip :: "string \<Rightarrow> ip_addr option" where
  "parse_ip s =
     (case read_ipv4_addr s of
        Some (v4, r) \<Rightarrow> if r = [] then Some (V4 v4) else None
      | None \<Rightarrow>
          (case read_ipv6_addr s of
             Some (v6, r) \<Rightarrow> if r = [] then Some (V6 v6) else None
           | None \<Rightarrow> None))"

fun is_loopback :: "ip_addr \<Rightarrow> bool" where
  "is_loopback (V4 gs) \<longleftrightarrow> hd gs = 127"
| "is_loopback (V6 gs) \<longleftrightarrow> gs = [0, 0, 0, 0, 0, 0, 0, 1]"

lemmas std_eval =
  is_ascii_digit_def is_ascii_alphabetic_def is_ascii_alphanumeric_def is_ascii_hexdigit_def
  to_lower_def to_upper_def to_ascii_lowercase_def to_ascii_uppercase_def eq_ignore_ascii_case_def
  starts_with_def ends_with_def strip_prefix_def strip_suffix_def trim_matches_def
  trim_end_matches_def split_char_def split_once_def ws1_def ws2_def ws3_def trim_end_def trim_def
  u16_max_def u64_max_def to_digit_def parse_uint_def parse_i64_def cont_def
  from_utf8_def str_of_bytes_def bytes_of_str_def
  suffix_to_prefix read_number_def read_separator_def read_ipv4_addr_def read_ipv6_addr_def parse_ip_def

section \<open>System time\<close>

text \<open>A \<open>SystemTime\<close> is a number of nanoseconds since the Unix epoch whose whole seconds fit a
  signed 64-bit integer; a \<open>Duration\<close> is a number of nanoseconds.\<close>

type_synonym system_time = int

definition nanos :: int where "nanos = 1000000000"

definition systime_checked_add :: "system_time \<Rightarrow> int \<Rightarrow> system_time option" where
  "systime_checked_add t d = (if t + d < 2 ^ 63 * nanos then Some (t + d) else None)"

definition systime_checked_sub :: "system_time \<Rightarrow> int \<Rightarrow> system_time option" where
  "systime_checked_sub t d = (if - (2 ^ 63) * nanos \<le> t - d then Some (t - d) else None)"

end
