(* ===== verification/HttpUrl.thy ===== *)
theory HttpUrl
  imports RustStd
begin

text \<open>
  \<open>src/http/url.rs\<close> and \<open>src/http/site.rs\<close>: the URL value every network component
  passes around, its parsing, printing and resolution, and the schemeful site of a URL.
  The WHATWG parser (crate \<open>url\<close>) and the public suffix list (crate \<open>psl\<close>) are
  parameters: the record \<open>url_crate\<close> holds the operations of the former that the
  source calls, the record \<open>psl_crate\<close> those of the latter.
\<close>

section \<open>Parameters\<close>

datatype url_crate_error = CrateEmptyHost | CrateInvalidPort | CrateOther

datatype url_crate_host = HostDomain string | HostIpv4 "nat list" | HostIpv6 "nat list"

text \<open>\<open>uc_origin\<close> gives the serialized tuple origin, or \<open>None\<close> for an opaque one (an opaque
  origin is equal to no other origin).\<close>

record 'u url_crate =
  uc_parse :: "string \<Rightarrow> url_crate_error + 'u"
  uc_join :: "'u \<Rightarrow> string \<Rightarrow> url_crate_error + 'u"
  uc_scheme :: "'u \<Rightarrow> string"
  uc_host :: "'u \<Rightarrow> url_crate_host option"
  uc_port_or_known_default :: "'u \<Rightarrow> 16 word option"
  uc_path :: "'u \<Rightarrow> string"
  uc_query :: "'u \<Rightarrow> string option"
  uc_as_str :: "'u \<Rightarrow> string"
  uc_origin :: "'u \<Rightarrow> string option"
  uc_clear_fragment :: "'u \<Rightarrow> 'u"
  uc_clear_username :: "'u \<Rightarrow> 'u"
  uc_clear_password :: "'u \<Rightarrow> 'u"

record psl_crate =
  psl_suffix_str :: "string \<Rightarrow> string option"
  psl_domain_str :: "string \<Rightarrow> string option"

section \<open>Printing of addresses\<close>

definition show_ipv4 :: "nat list \<Rightarrow> string" where
  "show_ipv4 gs = join ''.'' (map show_nat gs)"

fun show_hex :: "nat \<Rightarrow> string" where
  "show_hex n =
     (let d = (\<lambda>k::nat. char_of (if k < 10 then 48 + k else 87 + k)) in
      if n < 16 then [d n] else show_hex (n div 16) @ [d (n mod 16)])"

declare show_hex.simps [simp del]

text \<open>The first longest run of zero groups, as start and length; the accumulator holds the
  current run and the longest run seen.\<close>

fun zero_span :: "nat \<Rightarrow> nat list \<Rightarrow> nat \<times> nat \<Rightarrow> nat \<times> nat \<Rightarrow> nat \<times> nat" where
  "zero_span i [] cur best = best"
| "zero_span i (g # gs) (cs, cl) (bs, bl) =
     (if g = 0 then
        (let cs' = (if cl = 0 then i else cs); cl' = cl + 1
         in zero_span (i + 1) gs (cs', cl') (if cl' > bl then (cs', cl') else (bs, bl)))
      else zero_span (i + 1) gs (0, 0) (bs, bl))"

definition show_ipv6 :: "nat list \<Rightarrow> string" where
  "show_ipv6 gs =
     (if take 6 gs = [0, 0, 0, 0, 0, 65535]
      then ''::ffff:'' @ show_ipv4 [gs ! 6 div 256, gs ! 6 mod 256, gs ! 7 div 256, gs ! 7 mod 256]
      else
        (let (s, l) = zero_span 0 gs (0, 0) (0, 0);
             part = (\<lambda>xs. join '':'' (map show_hex xs))
         in if l > 1 then part (take s gs) @ ''::'' @ part (drop (s + l) gs) else part gs))"

section \<open>URLs\<close>

record Url =
  u_scheme :: string
  u_host :: string
  u_port :: "16 word"
  u_path :: string
  u_query :: "string option"

definition default_port_for :: "string \<Rightarrow> 16 word" where
  "default_port_for scheme = (if scheme = ''https'' then 443 else 80)"

definition authority :: "Url \<Rightarrow> string" where
  "authority u =
     (if u_port u = default_port_for (u_scheme u) then u_host u
      else u_host u @ '':'' @ show_nat (unat (u_port u)))"

definition request_target :: "Url \<Rightarrow> string" where
  "request_target u = (case u_query u of Some q \<Rightarrow> u_path u @ ''?'' @ q | None \<Rightarrow> u_path u)"

definition url_to_string :: "Url \<Rightarrow> string" where
  "url_to_string u = u_scheme u @ ''://'' @ authority u @ request_target u"

datatype UrlParseError = UnsupportedScheme | MissingSchemeSeparator | EmptyHost | InvalidPort | InvalidUrl

fun url_parse_error_to_string :: "UrlParseError \<Rightarrow> string" where
  "url_parse_error_to_string UnsupportedScheme = ''unsupported or missing URL scheme''"
| "url_parse_error_to_string MissingSchemeSeparator = ''missing '' @ [CHR 0x27] @ ''://'' @ [CHR 0x27] @ '' in URL''"
| "url_parse_error_to_string EmptyHost = ''empty host in URL''"
| "url_parse_error_to_string InvalidPort = ''invalid port number''"
| "url_parse_error_to_string InvalidUrl = ''invalid URL''"

fun map_parse_error :: "url_crate_error \<Rightarrow> UrlParseError" where
  "map_parse_error CrateEmptyHost = EmptyHost"
| "map_parse_error CrateInvalidPort = InvalidPort"
| "map_parse_error CrateOther = InvalidUrl"

definition from_standard :: "'u url_crate \<Rightarrow> 'u \<Rightarrow> UrlParseError + Url" where
  "from_standard uc parsed =
     (if uc_scheme uc parsed \<notin> {''http'', ''https''} then Inl UnsupportedScheme
      else
        rbind (case uc_host uc parsed of
                 Some (HostDomain d) \<Rightarrow> Inr d
               | Some (HostIpv4 ip) \<Rightarrow> Inr (show_ipv4 ip)
               | Some (HostIpv6 ip) \<Rightarrow> Inr (''['' @ show_ipv6 ip @ '']'')
               | None \<Rightarrow> Inl EmptyHost)
          (\<lambda>host.
        rbind (case uc_port_or_known_default uc parsed of Some p \<Rightarrow> Inr p | None \<Rightarrow> Inl InvalidPort)
          (\<lambda>port.
        Inr \<lparr>u_scheme = uc_scheme uc parsed, u_host = host, u_port = port,
             u_path = uc_path uc parsed,
             u_query = (case uc_query uc parsed of
                          Some q \<Rightarrow> if q = [] then None else Some q | None \<Rightarrow> None)\<rparr>)))"

text \<open>\<open>split_once("://")\<close>: the first occurrence of the separator.\<close>

fun split_once_str :: "string \<Rightarrow> string \<Rightarrow> (string \<times> string) option" where
  "split_once_str p s =
     (if prefix p s then Some ([], drop (length p) s)
      else case s of [] \<Rightarrow> None | c # cs \<Rightarrow> map_option (apfst ((#) c)) (split_once_str p cs))"

declare split_once_str.simps [simp del]

definition url_from_str :: "'u url_crate \<Rightarrow> string \<Rightarrow> UrlParseError + Url" where
  "url_from_str uc s =
     (let input = filter (\<lambda>c. c \<notin> {CHR 0x09, CHR 0x0D, CHR 0x0A})
                    (trim_matches (\<lambda>c. byte c \<le> 32) s) in
      case split_once_str ''://'' input of
        None \<Rightarrow> Inl MissingSchemeSeparator
      | Some (scheme, authority_and_path) \<Rightarrow>
          if to_ascii_lowercase scheme \<notin> {''http'', ''https''} then Inl UnsupportedScheme
          else if authority_and_path = [] \<or> starts_with authority_and_path ''/'' then Inl EmptyHost
          else rbind (map_err map_parse_error (uc_parse uc input)) (from_standard uc))"

definition resolve_url :: "'u url_crate \<Rightarrow> Url \<Rightarrow> string \<Rightarrow> UrlParseError + Url" where
  "resolve_url uc base reference =
     rbind (map_err map_parse_error (uc_parse uc (url_to_string base)))
       (\<lambda>parsed_base.
     rbind (map_err map_parse_error (uc_join uc parsed_base reference)) (from_standard uc))"

section \<open>Schemeful sites\<close>

record SchemefulSite =
  ss_scheme :: string
  ss_domain :: string

definition site_from_parts :: "psl_crate \<Rightarrow> string \<Rightarrow> string \<Rightarrow> SchemefulSite" where
  "site_from_parts psl scheme host0 =
     (let host = trim_matches (\<lambda>c. c = CHR ''['' \<or> c = CHR '']'') host0;
          domain = (if parse_ip host \<noteq> None then host
                    else case psl_domain_str psl host of Some d \<Rightarrow> d | None \<Rightarrow> host)
      in \<lparr>ss_scheme = to_ascii_lowercase scheme, ss_domain = to_ascii_lowercase domain\<rparr>)"

definition site_from_url :: "psl_crate \<Rightarrow> Url \<Rightarrow> SchemefulSite" where
  "site_from_url psl u = site_from_parts psl (u_scheme u) (u_host u)"

definition is_schemelessly_same_site :: "SchemefulSite \<Rightarrow> SchemefulSite \<Rightarrow> bool" where
  "is_schemelessly_same_site a b \<longleftrightarrow> ss_domain a = ss_domain b"

section \<open>Lemmas\<close>

lemma from_standard_scheme:
  "from_standard uc p = Inr u \<Longrightarrow> u_scheme u \<in> {''http'', ''https''} \<and> u_query u \<noteq> Some []"
  by (auto simp: from_standard_def split: if_splits option.splits url_crate_host.splits)

lemma url_from_str_scheme:
  "url_from_str uc s = Inr u \<Longrightarrow> u_scheme u \<in> {''http'', ''https''} \<and> u_query u \<noteq> Some []"
  by (auto simp: url_from_str_def Let_def split: if_splits option.splits dest!: from_standard_scheme)

lemma resolve_url_scheme:
  "resolve_url uc b r = Inr u \<Longrightarrow> u_scheme u \<in> {''http'', ''https''} \<and> u_query u \<noteq> Some []"
  by (auto simp: resolve_url_def dest!: from_standard_scheme)

end
