(* ===== verification/CookieDate.thy ===== *)
theory CookieDate
  imports RustStd
begin

text \<open>
  The date parser of \<open>src/http/cookie.rs\<close> (\<open>parse_http_date\<close>): the token scan of
  RFC 6265 section 5.1.1 and the constant-time conversion of a civil date to days since the
  epoch.  The conversion is related to a reference calendar that counts the days of
  every year and month, and the parser to the IMF-fixdate printer.
\<close>

section \<open>The model\<close>

record date_acc =
  da_day :: "nat option"
  da_month :: "nat option"
  da_year :: "int option"
  da_time :: "(nat \<times> nat \<times> nat) option"

definition parse_time :: "string \<Rightarrow> (nat \<times> nat \<times> nat) option" where
  "parse_time token =
     (let parts = split_char CHR '':'' token in
      if length parts = 3 \<and> list_all (\<lambda>p. p \<noteq> [] \<and> length p \<le> 2) parts then
        (case (parse_uint 10 255 (parts ! 0), parse_uint 10 255 (parts ! 1), parse_uint 10 255 (parts ! 2)) of
           (Some h, Some m, Some s) \<Rightarrow> Some (h, m, s)
         | _ \<Rightarrow> None)
      else None)"

definition month_of_token :: "string \<Rightarrow> nat option" where
  "month_of_token token =
     (let m = to_ascii_lowercase (take 3 token) in
      if m = ''jan'' then Some 1 else if m = ''feb'' then Some 2 else if m = ''mar'' then Some 3
      else if m = ''apr'' then Some 4 else if m = ''may'' then Some 5 else if m = ''jun'' then Some 6
      else if m = ''jul'' then Some 7 else if m = ''aug'' then Some 8 else if m = ''sep'' then Some 9
      else if m = ''oct'' then Some 10 else if m = ''nov'' then Some 11 else if m = ''dec'' then Some 12
      else None)"

text \<open>One turn of the token loop; each \<open>continue\<close> of the source is a branch that returns.\<close>

definition date_token :: "date_acc \<Rightarrow> string \<Rightarrow> date_acc" where
  "date_token a token =
     (if token = [] then a
      else case (if da_time a = None then parse_time token else None) of
        Some t \<Rightarrow> a\<lparr>da_time := Some t\<rparr>
      | None \<Rightarrow>
          if da_day a = None \<and> 1 \<le> length token \<and> length token \<le> 2 \<and> list_all is_ascii_digit token
          then a\<lparr>da_day := parse_uint 10 255 token\<rparr>
          else (case (if da_month a = None \<and> 3 \<le> length token then month_of_token token else None) of
            Some m \<Rightarrow> a\<lparr>da_month := Some m\<rparr>
          | None \<Rightarrow>
              if da_year a = None \<and> 2 \<le> length token \<and> length token \<le> 4 \<and> list_all is_ascii_digit token
              then a\<lparr>da_year := parse_i64 token\<rparr>
              else a))"

definition scan_date :: "string \<Rightarrow> date_acc" where
  "scan_date s =
     foldl date_token \<lparr>da_day = None, da_month = None, da_year = None, da_time = None\<rparr>
       (split_on (\<lambda>c. \<not> is_ascii_alphanumeric c \<and> c \<noteq> CHR '':'') s)"

definition is_leap_year :: "int \<Rightarrow> bool" where
  "is_leap_year y \<longleftrightarrow> y mod 4 = 0 \<and> y mod 100 \<noteq> 0 \<or> y mod 400 = 0"

definition month_days :: "int \<Rightarrow> nat list" where
  "month_days y = [31, if is_leap_year y then 29 else 28, 31, 30, 31, 30, 31, 31, 30, 31, 30, 31]"

text \<open>Civil date to days since 1970-01-01.\<close>

definition days_from_civil :: "int \<Rightarrow> nat \<Rightarrow> nat \<Rightarrow> int" where
  "days_from_civil year month day =
     (let adjusted_year = year - (if month \<le> 2 then 1 else 0);
          era = adjusted_year div 400;
          year_of_era = adjusted_year - era * 400;
          shifted_month = int month + (if month > 2 then -3 else 9);
          day_of_year = (153 * shifted_month + 2) div 5 + int day - 1;
          year_of_era_day = year_of_era * 365 + year_of_era div 4 - year_of_era div 100 + day_of_year
      in era * 146097 + year_of_era_day - 719468)"

definition full_year :: "int \<Rightarrow> int" where
  "full_year year =
     (if 0 \<le> year \<and> year \<le> 69 then year + 2000
      else if 70 \<le> year \<and> year \<le> 99 then year + 1900
      else year)"

definition parse_http_date :: "string \<Rightarrow> system_time option" where
  "parse_http_date s =
     (let a = scan_date s in
      case (da_day a, da_month a, da_year a, da_time a) of
        (Some day, Some month, Some year0, Some (hour, minute, sec)) \<Rightarrow>
          (let year = full_year year0 in
           if year < 1601 \<or> hour > 23 \<or> minute > 59 \<or> sec > 59 then None
           else if day = 0 \<or> day > month_days year ! (month - 1) then None
           else
             (let seconds = days_from_civil year month day * 86400
                            + int hour * 3600 + int minute * 60 + int sec
              in if seconds \<ge> 0 then systime_checked_add 0 (seconds * nanos)
                 else systime_checked_sub 0 (\<bar>seconds\<bar> * nanos)))
      | _ \<Rightarrow> None)"

lemmas date_eval = parse_time_def month_of_token_def date_token_def scan_date_def is_leap_year_def
  month_days_def days_from_civil_def full_year_def parse_http_date_def nanos_def
  systime_checked_add_def systime_checked_sub_def

section \<open>The reference calendar\<close>

definition year_len :: "int \<Rightarrow> int" where
  "year_len y = (if is_leap_year y then 366 else 365)"

definition days_before_year :: "int \<Rightarrow> int" where
  "days_before_year y =
     (if 1970 \<le> y then sum_list (map year_len [1970..y - 1])
      else - sum_list (map year_len [y..1969]))"

definition calendar_days :: "int \<Rightarrow> nat \<Rightarrow> nat \<Rightarrow> int" where
  "calendar_days y m d =
     days_before_year y + int (sum_list (take (m - 1) (month_days y))) + int d - 1"

lemma days_before_year_1970 [simp]: "days_before_year 1970 = 0"
  by (simp add: days_before_year_def)

lemma days_before_year_Suc: "days_before_year (y + 1) = days_before_year y + year_len y"
proof -
  consider "1970 \<le> y" | "y = 1969" | "y < 1969" by linarith
  then show ?thesis
  proof cases
    case 1
    then have "[1970..y] = [1970..y - 1] @ [y]" by (rule upto_rec2)
    with 1 show ?thesis by (simp add: days_before_year_def)
  next
    case 2
    then show ?thesis by (simp add: days_before_year_def)
  next
    case 3
    then have "[y..1969] = y # [y + 1..1969]" by (intro upto_rec1) simp
    then have "sum_list (map year_len [y..1969]) = year_len y + sum_list (map year_len [y + 1..1969])"
      by (simp only: list.map sum_list.Cons)
    with 3 show ?thesis by (simp add: days_before_year_def)
  qed
qed

text \<open>Dividing consecutive numbers; the leap-year rule as a difference of such quotients.\<close>

lemma div_pred:
  assumes "0 < (k::int)"
  shows "y div k = (y - 1) div k + (if y mod k = 0 then 1 else 0)"
proof (cases "y mod k = 0")
  case True
  have "y - 1 = k * (y div k - 1) + (k - 1)"
    using True mult_div_mod_eq [of k y] by (simp add: algebra_simps)
  then have "(y - 1) div k = y div k - 1"
    by (rule int_div_pos_eq) (use assms in auto)
  with True show ?thesis by simp
next
  case False
  have "y - 1 = k * (y div k) + (y mod k - 1)"
    using mult_div_mod_eq [of k y] by (simp add: algebra_simps)
  moreover have "0 < y mod k" and "y mod k < k"
    using False assms pos_mod_sign [OF assms, of y] pos_mod_bound [OF assms, of y] by linarith+
  ultimately have "(y - 1) div k = y div k"
    by (intro int_div_pos_eq [of _ _ _ "y mod k - 1"]) auto
  with False show ?thesis by simp
qed

lemma mod_100_400:
  "(y::int) mod 100 = 0 \<Longrightarrow> y mod 4 = 0" "(y::int) mod 400 = 0 \<Longrightarrow> y mod 100 = 0"
  using dvd_trans [of 4 100 y] dvd_trans [of 100 400 y] by (simp_all add: mod_eq_0_iff_dvd)

text \<open>Leap days of the years up to \<open>a\<close>, kept folded so that linear arithmetic sees no division.\<close>

definition leaps :: "int \<Rightarrow> int" where
  "leaps a = a div 4 - a div 100 + a div 400"

lemma leap_arith:
  assumes "q4 = p4 + (if A then 1 else 0)" "q100 = p100 + (if B then 1 else 0)"
    and "q400 = p400 + (if C then 1 else 0)" and "B \<Longrightarrow> A" and "C \<Longrightarrow> B"
  shows "q4 - q100 + q400 = (p4 - p100 + p400) + (if A \<and> \<not> B \<or> C then 1 else (0::int))"
  using assms by auto

lemma leaps_step: "leaps y = leaps (y - 1) + (if is_leap_year y then 1 else 0)"
  unfolding leaps_def is_leap_year_def
  by (rule leap_arith [OF div_pred div_pred div_pred mod_100_400]) simp_all

text \<open>The day number in closed form: an era of 400 years has 146097 days.\<close>

lemma era_closed:
  "(a div 400) * 146097 + ((a - a div 400 * 400) * 365 + (a - a div 400 * 400) div 4
     - (a - a div 400 * 400) div 100 + k) = 365 * a + leaps a + (k::int)"
proof -
  have "(a - a div 400 * 400) div 4 = a div 4 - 100 * (a div 400)"
    using div_mult_self1 [of 4 a "- (100 * (a div 400))"] by simp
  moreover have "(a - a div 400 * 400) div 100 = a div 100 - 4 * (a div 400)"
    using div_mult_self1 [of 100 a "- (4 * (a div 400))"] by simp
  ultimately show ?thesis by (simp add: leaps_def)
qed

lemma civil_closed:
  "days_from_civil y m d =
     365 * (y - (if m \<le> 2 then 1 else 0)) + leaps (y - (if m \<le> 2 then 1 else 0))
     + ((153 * (int m + (if m > 2 then -3 else 9)) + 2) div 5 + int d - 1) - 719468"
  unfolding days_from_civil_def Let_def era_closed by (rule refl)

lemma civil_jan1: "days_from_civil y 1 1 = 365 * (y - 1) + leaps (y - 1) - 719162"
  by (simp add: civil_closed)

lemma civil_jan1_Suc: "days_from_civil (y + 1) 1 1 = days_from_civil y 1 1 + year_len y"
  using leaps_step [of y] by (simp add: civil_jan1 [unfolded One_nat_def] year_len_def)

lemma civil_jan1_calendar: "days_from_civil y 1 1 = days_before_year y"
proof (induction y rule: int_induct [where k = 1970])
  case base
  show ?case by (simp add: civil_jan1 [unfolded One_nat_def] leaps_def)
next
  case (step1 i)
  then show ?case by (simp only: civil_jan1_Suc days_before_year_Suc)
next
  case (step2 i)
  then show ?case
    using civil_jan1_Suc [of "i - 1"] days_before_year_Suc [of "i - 1"] by simp
qed

text \<open>The offset of a month against January 1st of the same year.\<close>

lemma civil_to_feb:
  assumes "m = 1 \<or> m = 2"
  shows "days_from_civil y m d = days_from_civil y 1 1 + (if m = 2 then 31 else 0) + int d - 1"
  using assms by (auto simp: civil_closed)

lemma month_1_12:
  assumes "1 \<le> m" "m \<le> (12::nat)"
  shows "m = 1 \<or> m = 2 \<or> m = 3 \<or> m = 4 \<or> m = 5 \<or> m = 6 \<or> m = 7 \<or> m = 8 \<or> m = 9 \<or> m = 10 \<or> m = 11 \<or> m = 12"
  using assms by arith

lemma civil_month_offset:
  assumes "3 \<le> m" "m \<le> 12"
  shows "(153 * (int m - 3) + 2) div 5 + 59 + (if is_leap_year y then 1 else 0)
       = int (sum_list (take (m - 1) (month_days y)))"
  using month_1_12 [of m] assms by (auto simp: month_days_def)

lemma days_from_civil_calendar:
  assumes "1 \<le> m" "m \<le> 12"
  shows "days_from_civil y m d = calendar_days y m d"
proof (cases "m \<le> 2")
  case True
  with assms have "m = 1 \<or> m = 2" by arith
  then show ?thesis
    by (auto simp: civil_to_feb civil_jan1_calendar [unfolded One_nat_def] calendar_days_def month_days_def)
next
  case False
  define off where "off = (153 * (int m - 3) + 2) div 5"
  have "int (sum_list (take (m - 1) (month_days y))) = off + 59 + (if is_leap_year y then 1 else 0)"
    using civil_month_offset [of m y] assms False by (simp add: off_def)
  moreover have "days_from_civil y m d = 365 * y + leaps y + (off + int d - 1) - 719468"
    using False by (simp add: civil_closed off_def)
  ultimately show ?thesis
    using civil_jan1_calendar [of y] civil_jan1 [of y] leaps_step [of y]
    by (simp add: calendar_days_def)
qed

section \<open>The scan finds a date of the calendar\<close>

definition valid_datetime :: "int \<Rightarrow> nat \<Rightarrow> nat \<Rightarrow> nat \<Rightarrow> nat \<Rightarrow> nat \<Rightarrow> bool" where
  "valid_datetime y m d h mi se \<longleftrightarrow>
     1601 \<le> y \<and> y \<le> 9999 \<and> 1 \<le> m \<and> m \<le> 12 \<and> 1 \<le> d \<and> d \<le> month_days y ! (m - 1)
     \<and> h \<le> 23 \<and> mi \<le> 59 \<and> se \<le> 59"

definition datetime_nanos :: "int \<Rightarrow> nat \<Rightarrow> nat \<Rightarrow> nat \<Rightarrow> nat \<Rightarrow> nat \<Rightarrow> system_time" where
  "datetime_nanos y m d h mi se =
     (calendar_days y m d * 86400 + int h * 3600 + int mi * 60 + int se) * nanos"

lemma leaps_bounds:
  assumes "0 \<le> a"
  shows "0 \<le> leaps a \<and> leaps a \<le> a"
proof -
  have "a div 100 \<le> a div 4" "a div 400 \<le> a div 100" "a div 4 \<le> a div 1"
    using assms by (auto intro!: zdiv_mono2)
  moreover have "0 \<le> a div 400" using assms by simp
  ultimately show ?thesis unfolding leaps_def by (simp only: div_by_1) linarith
qed

text \<open>The result never leaves the range of \<open>SystemTime\<close>, so the checked additions succeed.\<close>

lemma calendar_days_bounds:
  assumes "1601 \<le> y" "y \<le> 9999" "1 \<le> m" "m \<le> 12" "d \<le> 255"
  shows "-1000000 \<le> calendar_days y m d \<and> calendar_days y m d \<le> 4000000"
proof -
  have m: "0 \<le> sum_list (take (m - 1) (month_days y)) \<and> sum_list (take (m - 1) (month_days y)) \<le> 366"
    using month_1_12 [of m] assms by (auto simp: month_days_def)
  have "days_before_year y = 365 * (y - 1) + leaps (y - 1) - 719162"
    using civil_jan1_calendar [of y] civil_jan1 [of y] by simp
  with m leaps_bounds [of "y - 1"] assms show ?thesis
    by (simp add: calendar_days_def)
qed

lemma month_of_token_range: "month_of_token t = Some m \<Longrightarrow> 1 \<le> m \<and> m \<le> 12"
  by (auto simp: month_of_token_def Let_def split: if_splits)

text \<open>What every turn of the scan keeps.\<close>

definition date_acc_ok :: "date_acc \<Rightarrow> bool" where
  "date_acc_ok a \<longleftrightarrow>
     (\<forall>d. da_day a = Some d \<longrightarrow> d \<le> 255) \<and> (\<forall>m. da_month a = Some m \<longrightarrow> 1 \<le> m \<and> m \<le> 12)
   \<and> (\<forall>y. da_year a = Some y \<longrightarrow> 0 \<le> y \<and> y \<le> 9999)"

lemma parse_digits_le: "parse_digits r mx acc s = Some n \<Longrightarrow> acc \<le> mx \<Longrightarrow> n \<le> mx"
  by (induction s arbitrary: acc) (auto split: option.splits if_splits)

lemma parse_uint_le: "parse_uint r mx s = Some n \<Longrightarrow> n \<le> mx"
  by (auto simp: parse_uint_def simp del: parse_digits.simps
      split: list.splits if_splits dest: parse_digits_le)

lemma to_digit_less: "to_digit r c = Some d \<Longrightarrow> d < r"
  by (auto simp: to_digit_def Let_def split: if_splits)

text \<open>A run of \<open>k\<close> digits is less than \<open>radix ^ k\<close>.\<close>

lemma parse_digits_lt_power:
  "parse_digits r mx acc s = Some n \<Longrightarrow> n < (acc + 1) * r ^ length s"
proof (induction s arbitrary: acc)
  case Nil
  then show ?case by simp
next
  case (Cons c s)
  then obtain d where d: "to_digit r c = Some d" and n: "parse_digits r mx (acc * r + d) s = Some n"
    by (auto split: option.splits if_splits)
  from Cons.IH [OF n] have "n < (acc * r + d + 1) * r ^ length s" by simp
  also have "\<dots> \<le> (acc * r + r) * r ^ length s"
    using to_digit_less [OF d] by (intro mult_right_mono) auto
  finally show ?case by (simp add: algebra_simps)
qed

lemma parse_i64_digits:
  assumes "list_all is_ascii_digit s" "parse_i64 s = Some y"
  shows "0 \<le> y \<and> y < 10 ^ length s"
proof -
  obtain c cs where s: "s = c # cs" using assms(2) by (cases s) (auto simp: parse_i64_def)
  with assms(1) have "c \<noteq> CHR ''-''" "c \<noteq> CHR ''+''" by (auto simp: is_ascii_digit_def)
  with assms(2) s obtain n where "parse_digits 10 (2 ^ 63 - 1) 0 s = Some n" "y = int n"
    by (auto simp: parse_i64_def)
  with parse_digits_lt_power [of 10 _ 0 s n] show ?thesis
    by simp
qed

text \<open>Each turn keeps the accumulator or fills exactly one of its fields.\<close>

lemma date_token_cases:
  obtains (keep) "date_token a t = a"
  | (time) x where "date_token a t = a\<lparr>da_time := Some x\<rparr>"
  | (day) "date_token a t = a\<lparr>da_day := parse_uint 10 255 t\<rparr>"
  | (month) m where "date_token a t = a\<lparr>da_month := Some m\<rparr>" "month_of_token t = Some m"
  | (year) "date_token a t = a\<lparr>da_year := parse_i64 t\<rparr>" "length t \<le> 4" "list_all is_ascii_digit t"
proof (cases "if da_time a = None then parse_time t else None")
  case (Some x)
  then have "date_token a t = (if t = [] then a else a\<lparr>da_time := Some x\<rparr>)"
    by (simp add: date_token_def)
  then show ?thesis using keep time by (cases "t = []") auto
next
  case no_time: None
  let ?day = "da_day a = None \<and> 1 \<le> length t \<and> length t \<le> 2 \<and> list_all is_ascii_digit t"
  show ?thesis
  proof (cases "if da_month a = None \<and> 3 \<le> length t then month_of_token t else None")
    case None
    let ?yr = "da_year a = None \<and> 2 \<le> length t \<and> length t \<le> 4 \<and> list_all is_ascii_digit t"
    have "date_token a t = (if t = [] then a else if ?day then a\<lparr>da_day := parse_uint 10 255 t\<rparr>
        else if ?yr then a\<lparr>da_year := parse_i64 t\<rparr> else a)"
      unfolding date_token_def no_time None by simp
    then show ?thesis using keep day year by (cases "t = []"; cases ?day; cases ?yr) auto
  next
    case (Some m)
    have "date_token a t = (if t = [] then a else if ?day then a\<lparr>da_day := parse_uint 10 255 t\<rparr>
        else a\<lparr>da_month := Some m\<rparr>)"
      unfolding date_token_def no_time Some by simp
    moreover have "month_of_token t = Some m" using Some by (simp split: if_splits)
    ultimately show ?thesis using keep day month by (cases "t = []"; cases ?day) auto
  qed
qed

lemma date_year_range:
  assumes "list_all is_ascii_digit t" "length t \<le> 4" "parse_i64 t = Some y"
  shows "0 \<le> y \<and> y \<le> 9999"
proof -
  have "(10::int) ^ length t \<le> 10 ^ 4" using assms(2) by (intro power_increasing) auto
  with parse_i64_digits [OF assms(1,3)] show ?thesis by simp
qed

lemma date_token_ok: "date_acc_ok a \<Longrightarrow> date_acc_ok (date_token a t)"
  by (rule date_token_cases [of a t])
    (auto simp: date_acc_ok_def dest: parse_uint_le month_of_token_range date_year_range)

lemma scan_date_ok: "date_acc_ok (scan_date s)"
proof -
  have step: "date_acc_ok a \<Longrightarrow> date_acc_ok (foldl date_token a ts)" for a ts
    by (induction ts arbitrary: a) (auto intro: date_token_ok)
  show ?thesis unfolding scan_date_def by (rule step) (simp add: date_acc_ok_def)
qed

text \<open>The conversion at the end of the parser, for components in range.\<close>

lemma checked_epoch_offset:
  assumes "-1000000 \<le> k" "k \<le> 4000000" "h \<le> 23" "mi \<le> 59" "se \<le> 59"
    and "sec = k * 86400 + int h * 3600 + int mi * 60 + int se"
  shows "(if sec \<ge> 0 then systime_checked_add 0 (sec * nanos)
          else systime_checked_sub 0 (\<bar>sec\<bar> * nanos)) = Some (sec * nanos)"
  using assms by (auto simp: systime_checked_add_def systime_checked_sub_def nanos_def)

lemma parse_http_date_components:
  assumes "scan_date s = \<lparr>da_day = Some d, da_month = Some m, da_year = Some y0, da_time = Some (h, mi, se)\<rparr>"
  shows "parse_http_date s =
     (if valid_datetime (full_year y0) m d h mi se
      then Some (datetime_nanos (full_year y0) m d h mi se) else None)"
proof -
  let ?y = "full_year y0"
  have ok: "d \<le> 255" "1 \<le> m" "m \<le> 12" "0 \<le> y0" "y0 \<le> 9999"
    using scan_date_ok [of s] assms by (auto simp: date_acc_ok_def)
  then have y: "?y \<le> 9999" by (auto simp: full_year_def)
  show ?thesis
  proof (cases "valid_datetime ?y m d h mi se")
    case True
    then have b: "-1000000 \<le> calendar_days ?y m d \<and> calendar_days ?y m d \<le> 4000000"
      using ok by (intro calendar_days_bounds) (auto simp: valid_datetime_def)
    with True ok show ?thesis
      by (simp add: parse_http_date_def assms Let_def valid_datetime_def datetime_nanos_def
          days_from_civil_calendar checked_epoch_offset [OF _ _ _ _ _ refl] del: of_nat_less_0_iff)
  next
    case False
    with ok y show ?thesis
      by (auto simp: parse_http_date_def assms Let_def valid_datetime_def)
  qed
qed

section \<open>Round trip with the IMF-fixdate format\<close>

definition digit_char :: "nat \<Rightarrow> char" where
  "digit_char k = char_of (48 + k)"

definition two_digits :: "nat \<Rightarrow> string" where
  "two_digits n = [digit_char (n div 10), digit_char (n mod 10)]"

definition four_digits :: "nat \<Rightarrow> string" where
  "four_digits n = two_digits (n div 100) @ two_digits (n mod 100)"

definition month_name :: "nat \<Rightarrow> string" where
  "month_name m = [''Jan'', ''Feb'', ''Mar'', ''Apr'', ''May'', ''Jun'', ''Jul'', ''Aug'', ''Sep'',
     ''Oct'', ''Nov'', ''Dec''] ! (m - 1)"

definition time_str :: "nat \<Rightarrow> nat \<Rightarrow> nat \<Rightarrow> string" where
  "time_str h mi se = two_digits h @ '':'' @ two_digits mi @ '':'' @ two_digits se"

definition imf_fixdate :: "string \<Rightarrow> nat \<Rightarrow> nat \<Rightarrow> nat \<Rightarrow> nat \<Rightarrow> nat \<Rightarrow> nat \<Rightarrow> string" where
  "imf_fixdate wd y m d h mi se =
     wd @ '', '' @ two_digits d @ '' '' @ month_name m @ '' '' @ four_digits y @ '' ''
     @ time_str h mi se @ '' GMT''"

lemma byte_digit_char [simp]: "k < 10 \<Longrightarrow> byte (digit_char k) = 48 + k"
  by (simp add: digit_char_def)

lemma is_digit_digit_char [simp]: "k < 10 \<Longrightarrow> is_ascii_digit (digit_char k)"
  by (simp add: is_ascii_digit_def)

lemma to_digit_digit_char [simp]: "k < 10 \<Longrightarrow> to_digit 10 (digit_char k) = Some k"
  by (simp add: to_digit_def)

lemma digit_char_no_digit: "k < 10 \<Longrightarrow> byte c < 48 \<or> 57 < byte c \<Longrightarrow> digit_char k \<noteq> c"
  using byte_digit_char [of k] by (metis add_less_cancel_left is_digit_digit_char is_ascii_digit_def not_less)

lemma digit_char_neq [simp]:
  assumes "k < 10"
  shows "digit_char k \<noteq> CHR '':''" "digit_char k \<noteq> CHR ''+''" "digit_char k \<noteq> CHR ''-''"
  using assms by (simp_all add: digit_char_no_digit)

lemma div_mod_10_less [simp]: "n < 100 \<Longrightarrow> n div 10 < 10" for n :: nat
  by simp

lemma parse_uint_two [simp]: "n < 100 \<Longrightarrow> parse_uint 10 255 (two_digits n) = Some n"
  by (simp add: parse_uint_def two_digits_def)

lemma parse_i64_four: "y < 10000 \<Longrightarrow> parse_i64 (four_digits y) = Some (int y)"
proof -
  assume "y < 10000"
  then have "y div 100 < 100" "y mod 100 < 100" by auto
  moreover have "(((y div 100 div 10) * 10 + y div 100 mod 10) * 10 + y mod 100 div 10) * 10 + y mod 100 mod 10 = y"
    using div_mult_mod_eq [of "y div 100" 10] div_mult_mod_eq [of "y mod 100" 10]
      div_mult_mod_eq [of y 100] by (simp only: add_mult_distrib add.assoc mult.assoc)
  moreover have "y div 100 * 10 + y mod 100 div 10 \<le> 9223372036854775807"
    and "y div 100 div 10 \<le> 9223372036854775807"
  proof -
    have "y mod 100 div 10 < 10" "y div 100 < 100" using \<open>y < 10000\<close> by auto
    then show "y div 100 * 10 + y mod 100 div 10 \<le> 9223372036854775807" by linarith
    show "y div 100 div 10 \<le> 9223372036854775807" using \<open>y < 10000\<close> by auto
  qed
  ultimately show ?thesis
    using \<open>y < 10000\<close> by (simp add: parse_i64_def four_digits_def two_digits_def)
qed

lemma split_on_append:
  "P c \<Longrightarrow> \<forall>x\<in>set w. \<not> P x \<Longrightarrow> split_on P (w @ c # r) = w # split_on P r"
  by (induction w) auto

lemma split_on_single: "\<forall>x\<in>set w. \<not> P x \<Longrightarrow> split_on P w = [w]"
  by (induction w) auto

lemma parse_time_str:
  assumes "h < 100" "mi < 100" "se < 100"
  shows "parse_time (time_str h mi se) = Some (h, mi, se)"
proof -
  have c: "\<forall>x\<in>set (two_digits n). x \<noteq> CHR '':''" if "n < 100" for n
    using that by (simp add: two_digits_def)
  have "split_char CHR '':'' (time_str h mi se) = [two_digits h, two_digits mi, two_digits se]"
    using split_on_append [where P = "\<lambda>x. x = CHR '':''" and c = "CHR '':''"] c [OF assms(1)]
      c [OF assms(2)] split_on_single [where P = "\<lambda>x. x = CHR '':''", OF c [OF assms(3)]]
    by (simp add: split_char_def time_str_def)
  moreover have "list_all (\<lambda>p. p \<noteq> [] \<and> length p \<le> 2) [two_digits h, two_digits mi, two_digits se]"
    by (simp add: two_digits_def)
  ultimately show ?thesis
    using assms by (simp add: parse_time_def)
qed

text \<open>A token without a colon is no time of day.\<close>

lemma parse_time_no_colon: "CHR '':'' \<notin> set t \<Longrightarrow> parse_time t = None"
proof -
  assume "CHR '':'' \<notin> set t"
  then have "split_on (\<lambda>x. x = CHR '':'') t = [t]" by (intro split_on_single) auto
  then show ?thesis by (simp add: parse_time_def split_char_def)
qed

lemma scan_tokens:
  assumes wd: "wd \<in> {''Mon'', ''Tue'', ''Wed'', ''Thu'', ''Fri'', ''Sat'', ''Sun''}"
    and b: "d < 100" "1 \<le> m" "m \<le> 12" "y < 10000" "h < 100" "mi < 100" "se < 100"
  shows "foldl date_token \<lparr>da_day = None, da_month = None, da_year = None, da_time = None\<rparr>
      [wd, [], two_digits d, month_name m, four_digits y, time_str h mi se, ''GMT'']
    = \<lparr>da_day = Some d, da_month = Some m, da_year = Some (int y), da_time = Some (h, mi, se)\<rparr>"
proof -
  have dig: "list_all is_ascii_digit (two_digits n)" "length (two_digits n) = 2" "two_digits n \<noteq> []"
    "CHR '':'' \<notin> set (two_digits n)" if "n < 100" for n
    using that digit_char_neq(1) [symmetric] by (auto simp: two_digits_def)
  have y: "y div 100 < 100" "y mod 100 < 100" using b by auto
  have dig4: "list_all is_ascii_digit (four_digits y)" "length (four_digits y) = 4"
      "CHR '':'' \<notin> set (four_digits y)" "four_digits y \<noteq> []"
    using dig y by (auto simp: four_digits_def)
  have mon: "month_of_token (month_name m) = Some m" "length (month_name m) = 3"
      "CHR '':'' \<notin> set (month_name m)" "\<not> list_all is_ascii_digit (month_name m)" "month_name m \<noteq> []"
    using month_1_12 [OF b(2,3)]
    by (auto simp: month_name_def month_of_token_def std_eval)
  have w: "month_of_token wd = None" "length wd = 3" "CHR '':'' \<notin> set wd"
      "\<not> list_all is_ascii_digit wd" "wd \<noteq> []"
    using wd by (auto simp: month_of_token_def std_eval)
  have gmt: "date_token a ''GMT'' = a" if "da_time a \<noteq> None" "da_month a \<noteq> None" for a
    using that by (auto simp: date_token_def is_ascii_digit_def)
  have "time_str h mi se \<noteq> []" by (simp add: time_str_def two_digits_def)
  then show ?thesis
    using b by (simp add: date_token_def [of _ wd] date_token_def [of _ "[]"]
        date_token_def [of _ "two_digits d"] date_token_def [of _ "month_name m"]
        date_token_def [of _ "four_digits y"] date_token_def [of _ "time_str h mi se"]
        gmt w dig dig4 mon parse_time_no_colon parse_i64_four parse_time_str)
qed

lemma alnum_digit_char [simp]: "k < 10 \<Longrightarrow> is_ascii_alphanumeric (digit_char k)"
  by (simp add: is_ascii_alphanumeric_def)

lemma scan_imf:
  assumes wd: "wd \<in> {''Mon'', ''Tue'', ''Wed'', ''Thu'', ''Fri'', ''Sat'', ''Sun''}"
    and b: "d < 100" "1 \<le> m" "m \<le> 12" "y < 10000" "h < 100" "mi < 100" "se < 100"
  shows "scan_date (imf_fixdate wd y m d h mi se)
    = \<lparr>da_day = Some d, da_month = Some m, da_year = Some (int y), da_time = Some (h, mi, se)\<rparr>"
proof -
  let ?P = "\<lambda>c. \<not> is_ascii_alphanumeric c \<and> c \<noteq> CHR '':''"
  have two: "\<forall>x\<in>set (two_digits n). \<not> ?P x" if "n < 100" for n
    using that by (simp add: two_digits_def)
  have y: "y div 100 < 100" "y mod 100 < 100" using b by auto
  have four: "\<forall>x\<in>set (four_digits y). \<not> ?P x"
    using two [OF y(1)] two [OF y(2)] by (auto simp: four_digits_def)
  have time: "\<forall>x\<in>set (time_str h mi se). \<not> ?P x"
    using two b by (auto simp: time_str_def)
  have mon: "\<forall>x\<in>set (month_name m). \<not> ?P x"
    using month_1_12 [OF b(2,3)] by (auto simp: month_name_def std_eval)
  have w: "\<forall>x\<in>set wd. \<not> ?P x"
    using wd by (auto simp: std_eval)
  have sep: "?P CHR '' ''" "?P CHR '',''" by (auto simp: std_eval)
  have "split_on ?P (imf_fixdate wd y m d h mi se)
      = [wd, [], two_digits d, month_name m, four_digits y, time_str h mi se, ''GMT'']"
    unfolding imf_fixdate_def
    using split_on_append [OF sep(2) w] split_on_append [OF sep(1) two [OF b(1)]]
      split_on_append [OF sep(1) mon] split_on_append [OF sep(1) four]
      split_on_append [OF sep(1) time] sep
    by (simp add: std_eval)
  with scan_tokens [OF assms] show ?thesis by (simp add: scan_date_def)
qed

section \<open>Properties\<close>

text \<open>The constant-time conversion of a civil date agrees, for every year and month, with the
  calendar that counts every year from 1970 and every month of the year.\<close>

theorem civil_conversion_is_calendar:
  assumes "1 \<le> m" "m \<le> 12"
  shows "days_from_civil y m d = calendar_days y m d"
  using assms by (rule days_from_civil_calendar)

theorem civil_conversion_is_calendar_witness:
  "days_from_civil 2000 3 1 = calendar_days 2000 3 1 \<and> days_from_civil 2000 3 1 = 11017"
  using civil_conversion_is_calendar [of 3 2000 1] by (simp add: days_from_civil_def)

text \<open>For every input, the parser answers exactly when the token scan finds a day, a month, a
  year and a time of day that exist in the calendar (years 1601 to 9999), and the answer is the
  instant the reference calendar gives them; no arithmetic of the parser leaves the range of
  \<open>SystemTime\<close>.\<close>

theorem parse_http_date_correct:
  "parse_http_date s =
     (case (da_day (scan_date s), da_month (scan_date s), da_year (scan_date s), da_time (scan_date s)) of
        (Some d, Some m, Some y, Some (h, mi, se)) \<Rightarrow>
          if valid_datetime (full_year y) m d h mi se
          then Some (datetime_nanos (full_year y) m d h mi se) else None
      | _ \<Rightarrow> None)"
proof (cases "scan_date s")
  case (fields day month year time)
  show ?thesis
  proof (cases "day = None \<or> month = None \<or> year = None \<or> time = None")
    case True
    with fields show ?thesis
      by (auto simp: parse_http_date_def Let_def split: option.splits)
  next
    case False
    then obtain d m y h mi se
      where "scan_date s = \<lparr>da_day = Some d, da_month = Some m, da_year = Some y, da_time = Some (h, mi, se)\<rparr>"
      using fields by auto
    then show ?thesis by (simp add: parse_http_date_components)
  qed
qed

text \<open>Printing any instant of the years 1601 to 9999 as an IMF-fixdate and parsing it gives the
  instant back.\<close>

theorem imf_fixdate_roundtrip:
  assumes "valid_datetime (int y) m d h mi se"
    and "wd \<in> {''Mon'', ''Tue'', ''Wed'', ''Thu'', ''Fri'', ''Sat'', ''Sun''}"
  shows "parse_http_date (imf_fixdate wd y m d h mi se) = Some (datetime_nanos (int y) m d h mi se)"
proof -
  have "month_days (int y) ! (m - 1) \<le> 31"
    using assms(1) month_1_12 [of m] by (auto simp: valid_datetime_def month_days_def)
  then have "scan_date (imf_fixdate wd y m d h mi se)
    = \<lparr>da_day = Some d, da_month = Some m, da_year = Some (int y), da_time = Some (h, mi, se)\<rparr>"
    using assms by (intro scan_imf) (auto simp: valid_datetime_def)
  moreover have "full_year (int y) = int y"
    using assms(1) by (auto simp: valid_datetime_def full_year_def)
  ultimately show ?thesis
    using assms(1) by (simp add: parse_http_date_components)
qed

theorem imf_fixdate_roundtrip_witness:
  "parse_http_date (imf_fixdate ''Sun'' 1994 11 6 8 49 37) = Some (datetime_nanos 1994 11 6 8 49 37)"
  using imf_fixdate_roundtrip [of 1994 11 6 8 49 37 "''Sun''"]
  by (simp add: valid_datetime_def month_days_def)

end
