(* ===== verification/Cookie.thy ===== *)
theory Cookie
  imports HttpUrl CookieDate
begin

text \<open>
  The cookie itself, from \<open>src/http/cookie.rs\<close>: parsing of a \<open>Set-Cookie\<close> value, expiry,
  the domain, path and transport checks, and the policy a cookie passes before
  it is stored (\<open>prepare_cookie_for_storage\<close>).  Every reading of the system clock is an
  argument.
\<close>

section \<open>Data\<close>

datatype SameSite = SameSite_None | Lax | Strict

record Cookie =
  c_name :: string
  c_value :: string
  c_domain :: "string option"
  c_host_only :: bool
  c_path :: "string option"
  c_created_at :: system_time
  c_received_at :: system_time
  c_expires :: "system_time option"
  c_max_age :: "int option"
  c_secure :: bool
  c_http_only :: bool
  c_same_site :: SameSite
  c_partitioned :: bool
  c_partition_key :: "SchemefulSite option"

record CookieAccessContext =
  ca_top_level_site :: "SchemefulSite option"
  ca_unpartitioned :: bool

section \<open>Parsing\<close>

text \<open>One turn of the attribute loop of \<open>Cookie::parse\<close>.\<close>

definition parse_attribute :: "Cookie \<Rightarrow> string \<Rightarrow> Cookie" where
  "parse_attribute cookie attr0 =
     (let attr = trim attr0 in
      if attr = [] then cookie
      else case split_once CHR ''='' attr of
        Some (n, v) \<Rightarrow>
          (let attr_name = to_ascii_lowercase (trim n); attr_value = trim v in
           if attr_name = ''partitioned'' then cookie\<lparr>c_partitioned := True\<rparr>
           else if attr_name = ''domain'' then
             (let d = (case strip_prefix ''.'' attr_value of Some r \<Rightarrow> r | None \<Rightarrow> attr_value)
              in cookie\<lparr>c_domain := Some (to_ascii_lowercase d), c_host_only := False\<rparr>)
           else if attr_name = ''path'' then cookie\<lparr>c_path := Some attr_value\<rparr>
           else if attr_name = ''expires'' then cookie\<lparr>c_expires := parse_http_date attr_value\<rparr>
           else if attr_name = ''max-age'' then cookie\<lparr>c_max_age := parse_i64 attr_value\<rparr>
           else if attr_name = ''samesite'' then
             (let s = to_ascii_lowercase attr_value
              in cookie\<lparr>c_same_site :=
                   (if s = ''strict'' then Strict else if s = ''none'' then SameSite_None else Lax)\<rparr>)
           else cookie)
      | None \<Rightarrow>
          (let a = to_ascii_lowercase attr in
           if a = ''secure'' then cookie\<lparr>c_secure := True\<rparr>
           else if a = ''httponly'' then cookie\<lparr>c_http_only := True\<rparr>
           else if a = ''partitioned'' then cookie\<lparr>c_partitioned := True\<rparr>
           else cookie))"

text \<open>The arguments \<open>t1\<close> and \<open>t2\<close> are the two readings of the clock (creation and reception).\<close>

definition cookie_parse :: "system_time \<Rightarrow> system_time \<Rightarrow> string \<Rightarrow> Cookie option" where
  "cookie_parse t1 t2 header_value =
     (let (first, rest) =
        (case split_once CHR '';'' header_value of
           Some (a, b) \<Rightarrow> (a, Some b) | None \<Rightarrow> (header_value, None)) in
      case split_once CHR ''='' (trim first) of
        None \<Rightarrow> None
      | Some (n, v) \<Rightarrow>
          (let name = trim n; value = trim v in
           if name = [] then None
           else
             (let cookie = \<lparr>c_name = name, c_value = value, c_domain = None, c_host_only = True,
                    c_path = None, c_created_at = t1, c_received_at = t2, c_expires = None,
                    c_max_age = None, c_secure = False, c_http_only = False, c_same_site = Lax,
                    c_partitioned = False, c_partition_key = None\<rparr>
              in case rest of
                   None \<Rightarrow> Some cookie
                 | Some attrs_str \<Rightarrow> Some (foldl parse_attribute cookie (split_char CHR '';'' attrs_str)))))"

section \<open>Expiry\<close>

definition expiration_time :: "Cookie \<Rightarrow> system_time option" where
  "expiration_time c =
     (case c_max_age c of
        Some a \<Rightarrow>
          if a \<le> 0 then Some (c_received_at c)
          else systime_checked_add (c_received_at c) (a * nanos)
      | None \<Rightarrow> c_expires c)"

definition is_expired :: "Cookie \<Rightarrow> system_time \<Rightarrow> bool" where
  "is_expired c now \<longleftrightarrow>
     (case c_max_age c of Some a \<Rightarrow> a \<le> 0 | None \<Rightarrow> False)
     \<or> (case expiration_time c of Some e \<Rightarrow> now \<ge> e | None \<Rightarrow> False)"

section \<open>Domain, path and transport\<close>

definition brackets :: "char \<Rightarrow> bool" where
  "brackets c \<longleftrightarrow> c = CHR ''['' \<or> c = CHR '']''"

definition domain_matches :: "string \<Rightarrow> string \<Rightarrow> bool" where
  "domain_matches host0 domain0 \<longleftrightarrow>
     (let host = to_ascii_lowercase host0; domain = to_ascii_lowercase domain0 in
      if host = domain then True
      else if parse_ip (trim_matches brackets host) \<noteq> None then False
      else ends_with host (''.'' @ domain))"

definition is_public_suffix :: "psl_crate \<Rightarrow> string \<Rightarrow> bool" where
  "is_public_suffix psl domain \<longleftrightarrow> parse_ip domain = None \<and> psl_suffix_str psl domain = Some domain"

definition same_site :: "psl_crate \<Rightarrow> Url \<Rightarrow> Url \<Rightarrow> bool" where
  "same_site psl a b \<longleftrightarrow> site_from_url psl a = site_from_url psl b"

definition secure_cookie_transport :: "Url \<Rightarrow> bool" where
  "secure_cookie_transport url \<longleftrightarrow>
     (if u_scheme url = ''https'' then True
      else u_scheme url = ''http''
        \<and> (eq_ignore_ascii_case (u_host url) ''localhost''
           \<or> (case parse_ip (trim_matches brackets (u_host url)) of
                Some a \<Rightarrow> is_loopback a | None \<Rightarrow> False)))"

definition path_matches :: "string \<Rightarrow> string \<Rightarrow> bool" where
  "path_matches request_path cookie_path \<longleftrightarrow>
     (if request_path = cookie_path then True
      else if starts_with request_path cookie_path then
        (if ends_with cookie_path ''/'' then True
         else length cookie_path < length request_path
           \<and> request_path ! length cookie_path = CHR ''/'')
      else False)"

definition default_path :: "string \<Rightarrow> string" where
  "default_path request_path =
     (if \<not> starts_with request_path ''/'' then ''/''
      else
        (let before_last = rev (tl (dropWhile (\<lambda>c. c \<noteq> CHR ''/'') (rev request_path)))
         in if before_last = [] then ''/'' else before_last))"

definition matches_url :: "Cookie \<Rightarrow> Url \<Rightarrow> bool" where
  "matches_url c url \<longleftrightarrow>
     (case c_domain c of
        Some domain \<Rightarrow>
          if c_host_only c then eq_ignore_ascii_case (u_host url) domain
          else domain_matches (u_host url) domain
      | None \<Rightarrow> True)
     \<and> (case c_path c of Some p \<Rightarrow> path_matches (u_path url) p | None \<Rightarrow> True)
     \<and> (c_secure c \<longrightarrow> secure_cookie_transport url)"

section \<open>Access contexts and the storage policy\<close>

definition first_party :: "psl_crate \<Rightarrow> Url \<Rightarrow> CookieAccessContext" where
  "first_party psl url =
     \<lparr>ca_top_level_site = Some (site_from_url psl url), ca_unpartitioned = True\<rparr>"

definition permits :: "CookieAccessContext \<Rightarrow> Cookie \<Rightarrow> bool" where
  "permits access cookie \<longleftrightarrow>
     (if c_partitioned cookie
      then ca_top_level_site access \<noteq> None \<and> c_partition_key cookie = ca_top_level_site access
      else ca_unpartitioned access)"

text \<open>The partition step, the scope step and the checks of \<open>prepare_cookie_for_storage\<close>; the
  result is the normalised cookie, or \<open>None\<close> where the source returns \<open>false\<close>.\<close>

definition prepare_partition :: "CookieAccessContext \<Rightarrow> Cookie \<Rightarrow> Cookie option" where
  "prepare_partition access cookie =
     (if c_partitioned cookie then
        (if \<not> c_secure cookie \<or> ca_top_level_site access = None then None
         else Some (cookie\<lparr>c_partition_key := ca_top_level_site access\<rparr>))
      else if \<not> ca_unpartitioned access then None
      else Some cookie)"

definition prepare_scope :: "psl_crate \<Rightarrow> Url \<Rightarrow> Cookie \<Rightarrow> Cookie option" where
  "prepare_scope psl origin_url cookie =
     (let origin_domain = to_ascii_lowercase (u_host origin_url) in
      case (case c_domain cookie of
              Some domain \<Rightarrow>
                if domain = [] \<or> \<not> domain_matches origin_domain domain then None
                else if is_public_suffix psl domain then
                  (if domain \<noteq> origin_domain then None else Some True)
                else Some False
            | None \<Rightarrow> Some True) of
        None \<Rightarrow> None
      | Some host_only \<Rightarrow>
          (let c1 = cookie\<lparr>c_host_only := host_only\<rparr>;
               c2 = (if host_only then c1\<lparr>c_domain := Some origin_domain\<rparr> else c1);
               c3 = (if (case c_path c2 of None \<Rightarrow> True | Some p \<Rightarrow> \<not> starts_with p ''/'')
                     then c2\<lparr>c_path := Some (default_path (u_path origin_url))\<rparr> else c2)
           in Some c3))"

definition prepare_policy ::
  "psl_crate \<Rightarrow> Url \<Rightarrow> Url \<Rightarrow> bool \<Rightarrow> bool \<Rightarrow> bool \<Rightarrow> Cookie \<Rightarrow> bool" where
  "prepare_policy psl origin_url site_for_cookies top_level_navigation from_http explicit_root_path c \<longleftrightarrow>
     (let lower_name = to_ascii_lowercase (c_name c) in
      \<not> (c_secure c \<and> \<not> secure_cookie_transport origin_url)
      \<and> \<not> (\<not> from_http \<and> c_http_only c)
      \<and> \<not> (c_same_site c = SameSite_None \<and> \<not> c_secure c)
      \<and> \<not> (\<not> same_site psl origin_url site_for_cookies \<and> c_same_site c \<noteq> SameSite_None
            \<and> (\<not> from_http \<or> \<not> top_level_navigation))
      \<and> \<not> (starts_with lower_name ''__secure-'' \<and> \<not> c_secure c)
      \<and> \<not> (starts_with lower_name ''__host-''
            \<and> (\<not> c_secure c \<or> \<not> c_host_only c \<or> c_path c \<noteq> Some ''/'' \<or> \<not> explicit_root_path)))"

definition prepare_cookie_for_storage ::
  "psl_crate \<Rightarrow> Url \<Rightarrow> Url \<Rightarrow> bool \<Rightarrow> bool \<Rightarrow> bool \<Rightarrow> CookieAccessContext \<Rightarrow> Cookie \<Rightarrow> Cookie option" where
  "prepare_cookie_for_storage psl origin_url site_for_cookies top_level_navigation from_http
     explicit_root_path access cookie =
     (case prepare_partition access cookie of
        None \<Rightarrow> None
      | Some c1 \<Rightarrow>
          (case prepare_scope psl origin_url c1 of
             None \<Rightarrow> None
           | Some c2 \<Rightarrow>
               if prepare_policy psl origin_url site_for_cookies top_level_navigation from_http
                    explicit_root_path c2
               then Some c2 else None))"

lemmas cookie_eval = parse_attribute_def cookie_parse_def expiration_time_def is_expired_def
  brackets_def domain_matches_def is_public_suffix_def same_site_def secure_cookie_transport_def
  path_matches_def default_path_def matches_url_def first_party_def permits_def
  prepare_partition_def prepare_scope_def prepare_policy_def prepare_cookie_for_storage_def
  site_from_url_def site_from_parts_def

section \<open>Path and domain matching\<close>

lemma path_matches_iff:
  "path_matches r c \<longleftrightarrow>
     r = c \<or> (\<exists>rest. r = c @ rest \<and> rest \<noteq> [] \<and> (c \<noteq> [] \<and> last c = CHR ''/'' \<or> hd rest = CHR ''/''))"
proof -
  have "suffix ''/'' c \<longleftrightarrow> c \<noteq> [] \<and> last c = CHR ''/''"
    by (cases c rule: rev_cases) auto
  then show ?thesis
    by (auto simp: path_matches_def starts_with_def ends_with_def prefix_def nth_append hd_conv_nth)
qed

lemma path_matches_refl [simp]: "path_matches p p"
  by (simp add: path_matches_def)

lemma default_path_split:
  assumes "starts_with p ''/''"
  obtains before after where "p = before @ CHR ''/'' # after" "CHR ''/'' \<notin> set after"
    "default_path p = (if before = [] then ''/'' else before)"
proof -
  let ?r = "rev p"
  have "CHR ''/'' \<in> set ?r" using assms by (auto simp: starts_with_def prefix_def)
  then have "dropWhile (\<lambda>c. c \<noteq> CHR ''/'') ?r \<noteq> []"
    by (simp only: dropWhile_eq_Nil_conv) blast
  then obtain y ys where d: "dropWhile (\<lambda>c. c \<noteq> CHR ''/'') ?r = y # ys"
    unfolding neq_Nil_conv by blast
  define tw where "tw = takeWhile (\<lambda>c. c \<noteq> CHR ''/'') ?r"
  have "rev p = tw @ CHR ''/'' # ys" using dropWhile_neq_Cons [OF d] unfolding tw_def by blast
  then have "rev (rev p) = rev (tw @ CHR ''/'' # ys)" by (rule arg_cong)
  then have "p = rev ys @ CHR ''/'' # rev tw" by simp
  moreover have "CHR ''/'' \<notin> set (rev tw)"
    using takeWhile_not_in by (simp add: tw_def)
  moreover have "default_path p = (if rev ys = [] then ''/'' else rev ys)"
    using assms d by (simp add: default_path_def)
  ultimately show ?thesis using that by blast
qed

lemma default_path_slash: "starts_with (default_path p) ''/''"
proof (cases "starts_with p ''/''")
  case True
  from default_path_split [OF this] obtain b a where
    "p = b @ CHR ''/'' # a" "default_path p = (if b = [] then ''/'' else b)" by metis
  with True show ?thesis by (cases b) (auto simp: starts_with_def)
qed (simp add: default_path_def starts_with_def)

lemma default_path_matches:
  assumes "starts_with p ''/''"
  shows "path_matches p (default_path p)"
proof -
  from default_path_split [OF assms] obtain b a where
    "p = b @ CHR ''/'' # a" "default_path p = (if b = [] then ''/'' else b)" by metis
  then show ?thesis by (auto simp: path_matches_iff)
qed

lemma to_lower_idem [simp]: "to_lower (to_lower c) = to_lower c"
proof (cases c)
  case (Char b0 b1 b2 b3 b4 b5 b6 b7)
  then show ?thesis by (cases b5; cases b6; cases b7) (auto simp: to_lower_def)
qed

lemma to_ascii_lowercase_idem [simp]:
  "to_ascii_lowercase (to_ascii_lowercase s) = to_ascii_lowercase s"
  by (simp add: to_ascii_lowercase_def)

lemma domain_matches_lower [simp]: "domain_matches (to_ascii_lowercase h) d = domain_matches h d"
  by (simp add: domain_matches_def)

lemma eq_ignore_lower [simp]: "eq_ignore_ascii_case h (to_ascii_lowercase h)"
  by (simp add: eq_ignore_ascii_case_def)

section \<open>What storage guarantees of a cookie\<close>

definition cookie_wf :: "psl_crate \<Rightarrow> Cookie \<Rightarrow> bool" where
  "cookie_wf psl c \<longleftrightarrow>
     (\<exists>d. c_domain c = Some d \<and> (\<not> c_host_only c \<longrightarrow> \<not> is_public_suffix psl d))
   \<and> (\<exists>p. c_path c = Some p \<and> starts_with p ''/'')
   \<and> (c_partitioned c \<longrightarrow> c_secure c) \<and> (c_partitioned c \<longleftrightarrow> c_partition_key c \<noteq> None)
   \<and> (c_same_site c = SameSite_None \<longrightarrow> c_secure c)
   \<and> (starts_with (to_ascii_lowercase (c_name c)) ''__secure-'' \<longrightarrow> c_secure c)
   \<and> (starts_with (to_ascii_lowercase (c_name c)) ''__host-'' \<longrightarrow>
        c_secure c \<and> c_host_only c \<and> c_path c = Some ''/'')"

text \<open>Preparation changes only the scope and the partition key of a cookie.\<close>

definition same_content :: "Cookie \<Rightarrow> Cookie \<Rightarrow> bool" where
  "same_content a b \<longleftrightarrow>
     c_name a = c_name b \<and> c_value a = c_value b \<and> c_created_at a = c_created_at b
   \<and> c_received_at a = c_received_at b \<and> c_expires a = c_expires b \<and> c_max_age a = c_max_age b
   \<and> c_secure a = c_secure b \<and> c_http_only a = c_http_only b \<and> c_same_site a = c_same_site b
   \<and> c_partitioned a = c_partitioned b"

lemma same_content_expired: "same_content a b \<Longrightarrow> is_expired a now = is_expired b now"
  by (auto simp: same_content_def is_expired_def expiration_time_def split: option.splits)

lemma prepare_partition_facts:
  assumes "prepare_partition access c = Some c'" "c_partition_key c = None"
  shows "same_content c' c" "c_domain c' = c_domain c" "c_path c' = c_path c"
    "c_partitioned c' \<Longrightarrow> c_secure c'" "c_partitioned c' \<longleftrightarrow> c_partition_key c' \<noteq> None" "permits access c'"
  using assms by (auto simp: prepare_partition_def permits_def same_content_def split: if_splits)

lemma prepare_scope_facts:
  assumes "prepare_scope psl u c = Some c'"
  shows "same_content c' c" "c_partition_key c' = c_partition_key c"
    and "\<exists>d. c_domain c' = Some d \<and> (\<not> c_host_only c' \<longrightarrow> \<not> is_public_suffix psl d)
          \<and> (if c_host_only c' then d = to_ascii_lowercase (u_host u)
             else c_domain c = Some d \<and> domain_matches (u_host u) d)"
    and "\<exists>p. c_path c' = Some p \<and> starts_with p ''/''
          \<and> (p = default_path (u_path u) \<or> c_path c = Some p)"
  using assms default_path_slash [of "u_path u"]
  by (auto simp: prepare_scope_def Let_def same_content_def split: if_splits option.splits)

lemma prepare_cookie_split:
  assumes "prepare_cookie_for_storage psl ou s nav http root access c = Some c'"
  obtains c1 where "prepare_partition access c = Some c1" "prepare_scope psl ou c1 = Some c'"
    "prepare_policy psl ou s nav http root c'"
  using assms by (auto simp: prepare_cookie_for_storage_def split: option.splits if_splits)

lemma prepare_cookie_facts:
  assumes "prepare_cookie_for_storage psl ou s nav http root access c = Some c'" "c_partition_key c = None"
  shows "same_content c' c" "cookie_wf psl c'" "permits access c'"
    "prepare_policy psl ou s nav http root c'"
proof -
  obtain c1 where p: "prepare_partition access c = Some c1" and s: "prepare_scope psl ou c1 = Some c'"
    and pol: "prepare_policy psl ou s nav http root c'"
    using prepare_cookie_split [OF assms(1)] by blast
  note P = prepare_partition_facts [OF p assms(2)] and S = prepare_scope_facts [OF s]
  show "same_content c' c" using P(1) S(1) by (simp add: same_content_def)
  show "permits access c'" using P(6) S(1,2) by (simp add: permits_def same_content_def)
  show "prepare_policy psl ou s nav http root c'" by (rule pol)
  have sec: "c_partitioned c' \<longrightarrow> c_secure c'" "c_partitioned c' \<longleftrightarrow> c_partition_key c' \<noteq> None"
    using P(4,5) S(1,2) by (auto simp: same_content_def)
  moreover have "\<exists>d. c_domain c' = Some d \<and> (\<not> c_host_only c' \<longrightarrow> \<not> is_public_suffix psl d)"
    and "\<exists>p. c_path c' = Some p \<and> starts_with p ''/''"
    using S(3,4) by blast+
  moreover have "c_same_site c' = SameSite_None \<longrightarrow> c_secure c'"
    and "starts_with (to_ascii_lowercase (c_name c')) ''__secure-'' \<longrightarrow> c_secure c'"
    and "starts_with (to_ascii_lowercase (c_name c')) ''__host-'' \<longrightarrow>
        c_secure c' \<and> c_host_only c' \<and> c_path c' = Some ''/''"
    using pol unfolding prepare_policy_def Let_def by blast+
  ultimately show "cookie_wf psl c'" unfolding cookie_wf_def by blast
qed

text \<open>A parsed cookie carries no partition key yet.\<close>

lemma parse_attribute_key [simp]: "c_partition_key (parse_attribute c a) = c_partition_key c"
  by (simp add: parse_attribute_def Let_def split: option.splits prod.splits)

lemma cookie_parse_key: "cookie_parse t1 t2 h = Some c \<Longrightarrow> c_partition_key c = None"
proof -
  have "c_partition_key (foldl parse_attribute c as) = c_partition_key c" for c as
    by (induction as arbitrary: c) simp_all
  then show "cookie_parse t1 t2 h = Some c \<Longrightarrow> c_partition_key c = None"
    by (auto simp: cookie_parse_def Let_def split: option.splits prod.splits if_splits)
qed

end
