(* ===== verification/CookieChanges.thy ===== *)
theory CookieChanges
  imports Prelude
begin

text \<open>
  \<open>src/http/cookie/changes.rs\<close>: the coalesced host wakeups of a cookie jar.  A subscription
  handle and the jar share one \<open>ChangeSignal\<close>; the jar holds it weakly, so the signal is live
  as long as a clone of the handle exists.  The model keeps the signals in the jar's
  list, gives each a handle number in place of its address, and counts the calls of the waker.
  The atomic \<open>swap\<close> of the pending flag is one step.
\<close>

record ChangeSignal =
  sig_handle :: nat
  sig_live :: bool
  sig_pending :: bool
  sig_wakes :: nat

record ChangeSubscriptions =
  cs_signals :: "ChangeSignal list"
  cs_next :: nat

definition subscriptions_default :: ChangeSubscriptions where
  "subscriptions_default = \<lparr>cs_signals = [], cs_next = 0\<rparr>"

text \<open>A copied jar notifies nobody.\<close>

definition clone_subscriptions :: "ChangeSubscriptions \<Rightarrow> ChangeSubscriptions" where
  "clone_subscriptions s = subscriptions_default"

definition subscribe :: "ChangeSubscriptions \<Rightarrow> ChangeSubscriptions \<times> nat" where
  "subscribe s =
     (s\<lparr>cs_signals := filter sig_live (cs_signals s)
          @ [\<lparr>sig_handle = cs_next s, sig_live = True, sig_pending = False, sig_wakes = 0\<rparr>],
        cs_next := Suc (cs_next s)\<rparr>,
      cs_next s)"

definition notify_signal :: "ChangeSignal \<Rightarrow> ChangeSignal" where
  "notify_signal sig =
     (if \<not> sig_pending sig then sig\<lparr>sig_pending := True, sig_wakes := Suc (sig_wakes sig)\<rparr>
      else sig\<lparr>sig_pending := True\<rparr>)"

definition notify :: "ChangeSubscriptions \<Rightarrow> ChangeSubscriptions" where
  "notify s = s\<lparr>cs_signals := map notify_signal (filter sig_live (cs_signals s))\<rparr>"

definition find_signal :: "nat \<Rightarrow> ChangeSubscriptions \<Rightarrow> ChangeSignal option" where
  "find_signal h s = List.find (\<lambda>sig. sig_handle sig = h) (cs_signals s)"

definition update_signal :: "nat \<Rightarrow> (ChangeSignal \<Rightarrow> ChangeSignal) \<Rightarrow> ChangeSubscriptions \<Rightarrow> ChangeSubscriptions" where
  "update_signal h f s =
     s\<lparr>cs_signals := map (\<lambda>sig. if sig_handle sig = h then f sig else sig) (cs_signals s)\<rparr>"

text \<open>\<open>take_changed\<close> on the handle of a live subscription, and the drop of its last clone.\<close>

definition take_changed :: "nat \<Rightarrow> ChangeSubscriptions \<Rightarrow> ChangeSubscriptions \<times> bool" where
  "take_changed h s =
     (update_signal h (\<lambda>sig. sig\<lparr>sig_pending := False\<rparr>) s,
      case find_signal h s of Some sig \<Rightarrow> sig_pending sig | None \<Rightarrow> False)"

definition drop_subscription :: "nat \<Rightarrow> ChangeSubscriptions \<Rightarrow> ChangeSubscriptions" where
  "drop_subscription h s = update_signal h (\<lambda>sig. sig\<lparr>sig_live := False\<rparr>) s"

section \<open>Runs\<close>

text \<open>A run interleaves the host's calls with the jar's notifications; the second component
  counts, per handle, the acknowledgements that reported a change.\<close>

datatype sub_event = Subscribe | Notify | Take nat | Drop nat

type_synonym sub_state = "ChangeSubscriptions \<times> (nat \<Rightarrow> nat)"

inductive sub_step :: "sub_state \<Rightarrow> sub_event \<Rightarrow> sub_state \<Rightarrow> bool" where
  step_subscribe: "sub_step (s, acks) Subscribe (fst (subscribe s), acks)"
| step_notify: "sub_step (s, acks) Notify (notify s, acks)"
| step_take: "find_signal h s = Some sig \<Longrightarrow> sig_live sig \<Longrightarrow>
     sub_step (s, acks) (Take h)
       (fst (take_changed h s), if snd (take_changed h s) then acks(h := Suc (acks h)) else acks)"
| step_drop: "find_signal h s = Some sig \<Longrightarrow> sub_step (s, acks) (Drop h) (drop_subscription h s, acks)"

inductive_cases sub_stepE: "sub_step st e st'"

inductive sub_reach :: "sub_state \<Rightarrow> bool" where
  reach_init: "sub_reach (subscriptions_default, \<lambda>_. 0)"
| reach_step: "sub_reach st \<Longrightarrow> sub_step st e st' \<Longrightarrow> sub_reach st'"

definition sub_inv :: "sub_state \<Rightarrow> bool" where
  "sub_inv st \<longleftrightarrow>
     distinct (map sig_handle (cs_signals (fst st)))
   \<and> (\<forall>sig\<in>set (cs_signals (fst st)).
        sig_handle sig < cs_next (fst st)
      \<and> sig_wakes sig = snd st (sig_handle sig) + (if sig_pending sig then 1 else 0))
   \<and> (\<forall>h\<ge>cs_next (fst st). snd st h = 0)"

lemma notify_signal_simps [simp]:
  "sig_handle (notify_signal sig) = sig_handle sig" "sig_live (notify_signal sig) = sig_live sig"
  "sig_pending (notify_signal sig)"
  "sig_wakes (notify_signal sig) = sig_wakes sig + (if sig_pending sig then 0 else 1)"
  by (simp_all add: notify_signal_def)

lemma find_signal_Some: "find_signal h s = Some sig \<Longrightarrow> sig \<in> set (cs_signals s) \<and> sig_handle sig = h"
  unfolding find_signal_def by (drule find_Some_in) simp

lemma find_signal_unique:
  assumes "distinct (map sig_handle (cs_signals s))" "sig \<in> set (cs_signals s)"
  shows "find_signal (sig_handle sig) s = Some sig"
proof -
  have "distinct (map sig_handle xs) \<Longrightarrow> sig \<in> set xs \<Longrightarrow>
      List.find (\<lambda>x. sig_handle x = sig_handle sig) xs = Some sig" for xs
    by (induction xs) force+
  then show ?thesis using assms by (simp add: find_signal_def)
qed

lemma map_sig_handle_update:
  assumes "\<And>sig. sig_handle (f sig) = sig_handle sig"
  shows "map sig_handle (cs_signals (update_signal h f s)) = map sig_handle (cs_signals s)"
  by (simp add: update_signal_def assms o_def if_distrib [of sig_handle] cong: if_cong)

lemma sub_inv_notify [keeps]: "sub_inv (s, acks) \<Longrightarrow> sub_inv (notify s, acks)"
  by (auto simp: sub_inv_def notify_def o_def intro: distinct_map_filterI)

lemma sub_inv_subscribe [keeps]: "sub_inv (s, acks) \<Longrightarrow> sub_inv (fst (subscribe s), acks)"
  by (fastforce simp: sub_inv_def subscribe_def intro: distinct_map_filterI)

lemma sub_inv_drop [keeps]: "sub_inv (s, acks) \<Longrightarrow> sub_inv (drop_subscription h s, acks)"
  unfolding drop_subscription_def
  by (auto simp: sub_inv_def map_sig_handle_update) (auto simp: update_signal_def)

lemma sub_inv_take [keeps]:
  assumes "sub_inv (s, acks)"
  shows "sub_inv (fst (take_changed h s), if snd (take_changed h s) then acks(h := Suc (acks h)) else acks)"
proof (cases "find_signal h s")
  case None
  then have "\<forall>sig\<in>set (cs_signals s). sig_handle sig \<noteq> h"
    by (auto simp: find_signal_def find_None_iff)
  then have "map (\<lambda>sig. if sig_handle sig = h then f sig else sig) (cs_signals s) = cs_signals s" for f
    by (auto intro: map_idI)
  with assms None show ?thesis by (simp add: take_changed_def update_signal_def)
next
  case (Some sig)
  note sig = find_signal_Some [OF Some]
  have uniq: "x = sig" if "x \<in> set (cs_signals s)" "sig_handle x = h" for x
    using find_signal_unique [of s x] that assms Some by (auto simp: sub_inv_def)
  show ?thesis
    using assms Some sig uniq
    by (auto simp: sub_inv_def take_changed_def map_sig_handle_update)
      (auto simp: update_signal_def dest: uniq)
qed

lemma sub_reach_inv: "sub_reach st \<Longrightarrow> sub_inv st"
proof (induction rule: sub_reach.induct)
  case reach_init
  show ?case by (simp add: sub_inv_def subscriptions_default_def)
next
  case (reach_step st e st')
  from reach_step.hyps(2) reach_step.IH show ?case
    by (cases rule: sub_step.cases)
      (simp_all only: sub_inv_notify sub_inv_subscribe sub_inv_drop sub_inv_take)
qed

section \<open>Properties\<close>

text \<open>In every interleaving of subscriptions, notifications, acknowledgements and drops, the
  waker of a subscription has been called exactly once per acknowledged batch of changes,
  plus once if a batch is still pending: no wakeup is lost and none is duplicated.\<close>

theorem wakeups_coalesced:
  assumes "sub_reach (s, acks)" "sig \<in> set (cs_signals s)"
  shows "sig_wakes sig = acks (sig_handle sig) + (if sig_pending sig then 1 else 0)"
  using sub_reach_inv [OF assms(1)] assms(2) by (auto simp: sub_inv_def)

theorem wakeups_coalesced_witness:
  "\<exists>s sig acks. sub_reach (s, acks) \<and> sig \<in> set (cs_signals s) \<and> sig_pending sig
     \<and> sig_wakes sig = acks (sig_handle sig) + 1"
proof -
  let ?s = "notify (notify (fst (subscribe subscriptions_default)))"
  let ?sig = "\<lparr>sig_handle = 0, sig_live = True, sig_pending = True, sig_wakes = 1\<rparr>"
  have r: "sub_reach (?s, \<lambda>_. 0)"
    by (rule reach_step [OF reach_step [OF reach_step [OF reach_init step_subscribe] step_notify] step_notify])
  have m: "?sig \<in> set (cs_signals ?s)"
    by (simp add: notify_def subscribe_def subscriptions_default_def notify_signal_def)
  from wakeups_coalesced [OF r m] r m show ?thesis
    by (intro exI [of _ ?s] exI [of _ ?sig] exI [of _ "\<lambda>_. 0"]) simp
qed

end
