(* ===== verification/CookieJar.thy ===== *)
theory CookieJar
  imports Cookie CookieChanges "HOL-Library.Product_Lexorder"
begin

text \<open>
  The cookie jar of \<open>src/http/cookie.rs\<close>: storing from HTTP, from \<open>document.cookie\<close> and from the
  Cookie Store API, selection for requests and scripts, the bounded log of script-visible
  changes, expiry, and the subscriptions of Service Worker registrations.
\<close>

section \<open>State\<close>

datatype Method = Get | Post | Head | Put | Delete | Options | Patch

record CookieStoreSubscription =
  sub_name :: "string option"
  sub_url :: string

record ActiveCookieSubscription =
  as_entry :: CookieStoreSubscription
  as_after_sequence :: nat

record RegistrationCookieSubscriptions =
  rg_id :: nat
  rg_entries :: "ActiveCookieSubscription list"

record RecordedCookieChange =
  rc_sequence :: nat
  rc_cookie :: Cookie
  rc_deleted :: bool
  rc_individual_event :: bool

record CookieStoreChange =
  sc_name :: string
  sc_value :: "string option"
  sc_deleted :: bool
  sc_individual_event :: bool

record CookieStoreWrite =
  cw_name :: string
  cw_value :: string
  cw_domain :: "string option"
  cw_path :: string
  cw_expires :: "system_time option"
  cw_max_age :: "int option"
  cw_same_site :: SameSite
  cw_partitioned :: bool

record CookieJar =
  j_cookies :: "(Cookie \<times> string) list"
  j_service_worker_subscriptions :: "string \<times> SchemefulSite \<rightharpoonup> RegistrationCookieSubscriptions"
  j_next_registration_id :: nat
  j_changes :: "RecordedCookieChange list"
  j_change_sequence :: nat
  j_change_subscriptions :: ChangeSubscriptions

definition jar_new :: CookieJar where
  "jar_new = \<lparr>j_cookies = [], j_service_worker_subscriptions = Map.empty,
     j_next_registration_id = 1, j_changes = [], j_change_sequence = 0,
     j_change_subscriptions = subscriptions_default\<rparr>"

definition subscribe_changes :: "CookieJar \<Rightarrow> CookieJar \<times> nat" where
  "subscribe_changes jar =
     (let (subs, handle) = subscribe (j_change_subscriptions jar)
      in (jar\<lparr>j_change_subscriptions := subs\<rparr>, handle))"

section \<open>Service Worker registrations\<close>

definition service_worker_subscriptions :: "CookieJar \<Rightarrow> string \<Rightarrow> SchemefulSite \<Rightarrow> CookieStoreSubscription list" where
  "service_worker_subscriptions jar scope site =
     (case j_service_worker_subscriptions jar (scope, site) of
        Some r \<Rightarrow> map as_entry (rg_entries r) | None \<Rightarrow> [])"

text \<open>\<open>None\<close> is the panic on an exhausted 64-bit identity.\<close>

definition register_service_worker_scope :: "CookieJar \<Rightarrow> string \<Rightarrow> SchemefulSite \<Rightarrow> (CookieJar \<times> nat) option" where
  "register_service_worker_scope jar scope site =
     (case j_service_worker_subscriptions jar (scope, site) of
        Some r \<Rightarrow> Some (jar, rg_id r)
      | None \<Rightarrow>
          (let ident = j_next_registration_id jar in
           if ident + 1 > u64_max then None
           else Some (jar\<lparr>j_next_registration_id := ident + 1,
                  j_service_worker_subscriptions :=
                    (j_service_worker_subscriptions jar)((scope, site) \<mapsto> \<lparr>rg_id = ident, rg_entries = []\<rparr>)\<rparr>,
                ident)))"

definition service_worker_registration_id :: "CookieJar \<Rightarrow> string \<Rightarrow> SchemefulSite \<Rightarrow> nat option" where
  "service_worker_registration_id jar scope site =
     map_option rg_id (j_service_worker_subscriptions jar (scope, site))"

definition has_service_worker_scope :: "CookieJar \<Rightarrow> string \<Rightarrow> SchemefulSite \<Rightarrow> bool" where
  "has_service_worker_scope jar scope site \<longleftrightarrow> service_worker_registration_id jar scope site \<noteq> None"

definition update_entry :: "nat \<Rightarrow> bool \<Rightarrow> ActiveCookieSubscription list \<Rightarrow> CookieStoreSubscription \<Rightarrow> ActiveCookieSubscription list" where
  "update_entry sequence subscr entries entry =
     (if subscr then
        (if list_ex (\<lambda>cur. as_entry cur = entry) entries then entries
         else entries @ [\<lparr>as_entry = entry, as_after_sequence = sequence\<rparr>])
      else filter (\<lambda>cur. as_entry cur \<noteq> entry) entries)"

definition update_service_worker_subscriptions ::
  "CookieJar \<Rightarrow> string \<Rightarrow> SchemefulSite \<Rightarrow> CookieStoreSubscription list \<Rightarrow> bool \<Rightarrow> CookieJar" where
  "update_service_worker_subscriptions jar scope site entries subscr =
     (case j_service_worker_subscriptions jar (scope, site) of
        None \<Rightarrow> jar
      | Some r \<Rightarrow>
          jar\<lparr>j_service_worker_subscriptions := (j_service_worker_subscriptions jar)((scope, site) \<mapsto>
            r\<lparr>rg_entries := foldl (update_entry (j_change_sequence jar) subscr) (rg_entries r) entries\<rparr>)\<rparr>)"

definition clear_service_worker_subscriptions :: "CookieJar \<Rightarrow> string \<Rightarrow> SchemefulSite \<Rightarrow> CookieJar" where
  "clear_service_worker_subscriptions jar scope site =
     jar\<lparr>j_service_worker_subscriptions := (j_service_worker_subscriptions jar)((scope, site) := None)\<rparr>"

section \<open>The change log and expiry\<close>

definition record_change :: "Cookie \<Rightarrow> bool \<Rightarrow> bool \<Rightarrow> CookieJar \<Rightarrow> CookieJar" where
  "record_change cookie deleted individual_event jar =
     (if c_http_only cookie then jar
      else
        (let sequence = min u64_max (j_change_sequence jar + 1);
             changes = j_changes jar @ [\<lparr>rc_sequence = sequence, rc_cookie = cookie,
                         rc_deleted = deleted, rc_individual_event = individual_event\<rparr>]
         in jar\<lparr>j_change_sequence := sequence,
              j_changes := (if length changes > 4096 then tl changes else changes),
              j_change_subscriptions := notify (j_change_subscriptions jar)\<rparr>))"

definition record_deletions :: "Cookie list \<Rightarrow> CookieJar \<Rightarrow> CookieJar" where
  "record_deletions cs jar = foldl (\<lambda>j c. record_change c True False j) jar cs"

definition evict_expired_at :: "system_time \<Rightarrow> CookieJar \<Rightarrow> CookieJar \<times> nat" where
  "evict_expired_at now jar =
     (let expired = map fst (filter (\<lambda>(c, _). is_expired c now) (j_cookies jar));
          kept = filter (\<lambda>(c, _). \<not> is_expired c now) (j_cookies jar)
      in (record_deletions expired (jar\<lparr>j_cookies := kept\<rparr>), length expired))"

definition next_expiry_delay_at :: "system_time \<Rightarrow> CookieJar \<Rightarrow> int option" where
  "next_expiry_delay_at now jar =
     (case map (\<lambda>e. max 0 (e - now)) (List.map_filter (\<lambda>(c, _). expiration_time c) (j_cookies jar)) of
        [] \<Rightarrow> None
      | d # ds \<Rightarrow> Some (foldl min d ds))"

definition delete_associated_cookies :: "psl_crate \<Rightarrow> Url \<Rightarrow> system_time \<Rightarrow> CookieJar \<Rightarrow> CookieJar" where
  "delete_associated_cookies psl url now jar =
     (let access = first_party psl url;
          gone = (\<lambda>c. permits access c \<and> \<not> is_expired c now \<and> matches_url c url)
      in record_deletions (map fst (filter (\<lambda>(c, _). gone c) (j_cookies jar)))
           (jar\<lparr>j_cookies := filter (\<lambda>(c, _). \<not> gone c) (j_cookies jar)\<rparr>))"

section \<open>Storing\<close>

text \<open>The key under which a cookie replaces an older one.\<close>

definition same_key :: "Cookie \<Rightarrow> Cookie \<Rightarrow> bool" where
  "same_key a b \<longleftrightarrow> c_partition_key a = c_partition_key b \<and> c_name a = c_name b
     \<and> c_domain a = c_domain b \<and> c_path a = c_path b \<and> c_host_only a = c_host_only b"

text \<open>An insecure origin may not shadow a secure cookie.\<close>

definition overlays_secure :: "Cookie \<Rightarrow> Cookie \<Rightarrow> bool" where
  "overlays_secure cookie old \<longleftrightarrow>
     c_partition_key old = c_partition_key cookie \<and> c_secure old \<and> c_name old = c_name cookie
     \<and> (case (c_domain old, c_domain cookie) of
          (Some a, Some b) \<Rightarrow> domain_matches a b \<or> domain_matches b a | _ \<Rightarrow> False)
     \<and> (case (c_path old, c_path cookie) of
          (Some old_path, Some new_path) \<Rightarrow> path_matches new_path old_path | _ \<Rightarrow> False)"

text \<open>A non-HTTP write may not collide with an HttpOnly cookie.\<close>

definition collides_http_only :: "Cookie \<Rightarrow> Cookie \<Rightarrow> bool" where
  "collides_http_only cookie old \<longleftrightarrow>
     c_partition_key old = c_partition_key cookie \<and> c_http_only old \<and> c_name old = c_name cookie
     \<and> c_domain old = c_domain cookie \<and> c_path old = c_path cookie"

definition unchanged :: "system_time \<Rightarrow> Cookie \<Rightarrow> Cookie \<Rightarrow> bool" where
  "unchanged now cookie old \<longleftrightarrow>
     \<not> is_expired old now \<and> c_value old = c_value cookie \<and> c_secure old = c_secure cookie
     \<and> c_http_only old = c_http_only cookie \<and> c_same_site old = c_same_site cookie
     \<and> c_expires old = c_expires cookie \<and> c_max_age old = c_max_age cookie"

text \<open>The tail of \<open>store_cookie\<close>: replacing the cookie \<open>replaced\<close> by the final \<open>cookie\<close>.\<close>

definition commit_cookie ::
  "system_time \<Rightarrow> bool \<Rightarrow> string \<Rightarrow> Cookie option \<Rightarrow> Cookie \<Rightarrow> CookieJar \<Rightarrow> CookieJar" where
  "commit_cookie now individual_event origin_domain replaced cookie jar =
     (let jar1 = jar\<lparr>j_cookies := filter (\<lambda>(c, _). \<not> same_key c cookie) (j_cookies jar)\<rparr> in
      if is_expired cookie now then record_change cookie True individual_event jar1
      else
        (let same = (case replaced of Some old \<Rightarrow> unchanged now cookie old | None \<Rightarrow> False);
             jar2 = (case replaced of
                       Some old \<Rightarrow>
                         if c_http_only cookie \<and> \<not> is_expired old now
                         then record_change old True individual_event jar1 else jar1
                     | None \<Rightarrow> jar1);
             jar3 = (if \<not> same then record_change cookie False individual_event jar2 else jar2)
         in jar3\<lparr>j_cookies := j_cookies jar3 @ [(cookie, origin_domain)]\<rparr>))"

definition store_cookie ::
  "psl_crate \<Rightarrow> system_time \<Rightarrow> Url \<Rightarrow> Url \<Rightarrow> bool \<Rightarrow> bool \<Rightarrow> bool \<Rightarrow> bool \<Rightarrow> CookieAccessContext
     \<Rightarrow> Cookie \<Rightarrow> CookieJar \<Rightarrow> CookieJar" where
  "store_cookie psl now origin_url site_for_cookies top_level_navigation from_http
     explicit_root_path individual_event access cookie0 jar0 =
     (case prepare_cookie_for_storage psl origin_url site_for_cookies top_level_navigation from_http
             explicit_root_path access cookie0 of
        None \<Rightarrow> jar0
      | Some cookie \<Rightarrow>
          (let origin_domain = to_ascii_lowercase (u_host origin_url);
               secure_origin = secure_cookie_transport origin_url;
               jar = fst (evict_expired_at now jar0)
           in if \<not> secure_origin \<and> \<not> c_secure cookie
                 \<and> list_ex (\<lambda>(old, _). overlays_secure cookie old) (j_cookies jar)
              then jar
              else if \<not> from_http \<and> list_ex (\<lambda>(old, _). collides_http_only cookie old) (j_cookies jar)
              then jar
              else
                (case map_option fst (List.find (\<lambda>(old, _). same_key old cookie) (j_cookies jar)) of
                   Some old \<Rightarrow>
                     if \<not> from_http \<and> c_http_only old then jar
                     else commit_cookie now individual_event origin_domain (Some old)
                            (cookie\<lparr>c_created_at := c_created_at old\<rparr>) jar
                 | None \<Rightarrow> commit_cookie now individual_event origin_domain None cookie jar)))"

text \<open>The three readings of the clock of one \<open>add_with_context\<close>: two by the parser, one by the store.\<close>

type_synonym clock = "system_time \<times> system_time \<times> system_time"

definition explicit_root_path :: "string \<Rightarrow> bool" where
  "explicit_root_path header_value \<longleftrightarrow>
     list_ex (\<lambda>attribute.
        case split_once CHR ''='' (trim attribute) of
          Some (name, value) \<Rightarrow> eq_ignore_ascii_case (trim name) ''path'' \<and> trim value = ''/''
        | None \<Rightarrow> False)
       (drop 1 (split_char CHR '';'' header_value))"

definition add_with_context ::
  "psl_crate \<Rightarrow> clock \<Rightarrow> string \<Rightarrow> Url \<Rightarrow> Url \<Rightarrow> bool \<Rightarrow> bool \<Rightarrow> CookieAccessContext \<Rightarrow> CookieJar \<Rightarrow> CookieJar" where
  "add_with_context psl clk header_value origin_url site_for_cookies top_level_navigation from_http access jar =
     (let (t1, t2, t3) = clk in
      case cookie_parse t1 t2 header_value of
        None \<Rightarrow> jar
      | Some cookie \<Rightarrow>
          store_cookie psl t3 origin_url site_for_cookies top_level_navigation from_http
            (explicit_root_path header_value) (\<not> from_http) access cookie jar)"

definition add_from_header_for_url :: "psl_crate \<Rightarrow> clock \<Rightarrow> string \<Rightarrow> Url \<Rightarrow> CookieJar \<Rightarrow> CookieJar" where
  "add_from_header_for_url psl clk header_value origin_url jar =
     add_with_context psl clk header_value origin_url origin_url True True (first_party psl origin_url) jar"

text \<open>\<open>None\<close> is the panic on an origin domain that is no URL host.\<close>

definition add_from_header ::
  "'u url_crate \<Rightarrow> psl_crate \<Rightarrow> clock \<Rightarrow> string \<Rightarrow> string \<Rightarrow> CookieJar \<Rightarrow> CookieJar option" where
  "add_from_header uc psl clk header_value origin_domain jar =
     (case url_from_str uc (''http://'' @ origin_domain @ ''/'') of
        Inl _ \<Rightarrow> None
      | Inr origin_url \<Rightarrow> Some (add_from_header_for_url psl clk header_value origin_url jar))"

definition add_from_header_for_request_with_access ::
  "psl_crate \<Rightarrow> clock \<Rightarrow> string \<Rightarrow> Url \<Rightarrow> Url \<Rightarrow> bool \<Rightarrow> CookieAccessContext \<Rightarrow> CookieJar \<Rightarrow> CookieJar" where
  "add_from_header_for_request_with_access psl clk header_value origin_url site_for_cookies
     top_level_navigation access jar =
     add_with_context psl clk header_value origin_url site_for_cookies top_level_navigation True access jar"

definition add_from_header_for_request ::
  "psl_crate \<Rightarrow> clock \<Rightarrow> string \<Rightarrow> Url \<Rightarrow> Url \<Rightarrow> bool \<Rightarrow> CookieJar \<Rightarrow> CookieJar" where
  "add_from_header_for_request psl clk header_value origin_url site_for_cookies top_level_navigation jar =
     add_from_header_for_request_with_access psl clk header_value origin_url site_for_cookies
       top_level_navigation
       (first_party psl (if top_level_navigation then origin_url else site_for_cookies)) jar"

definition add_from_document_with_access ::
  "psl_crate \<Rightarrow> clock \<Rightarrow> string \<Rightarrow> Url \<Rightarrow> Url \<Rightarrow> CookieAccessContext \<Rightarrow> CookieJar \<Rightarrow> CookieJar" where
  "add_from_document_with_access psl clk value document_url site_for_cookies access jar =
     add_with_context psl clk value document_url site_for_cookies False False access jar"

definition add_from_document :: "psl_crate \<Rightarrow> clock \<Rightarrow> string \<Rightarrow> Url \<Rightarrow> Url \<Rightarrow> CookieJar \<Rightarrow> CookieJar" where
  "add_from_document psl clk value document_url site_for_cookies jar =
     add_from_document_with_access psl clk value document_url site_for_cookies
       (first_party psl site_for_cookies) jar"

text \<open>The checks of the Cookie Store API, in the order of the source.\<close>

definition blank :: "char \<Rightarrow> bool" where
  "blank c \<longleftrightarrow> c = CHR '' '' \<or> c = CHR 0x09"

definition control :: "char \<Rightarrow> bool" where
  "control c \<longleftrightarrow> byte c \<le> 31 \<and> c \<noteq> CHR 0x09 \<or> byte c = 127"

definition cookie_store_cookie ::
  "psl_crate \<Rightarrow> system_time \<Rightarrow> CookieStoreWrite \<Rightarrow> Url \<Rightarrow> string + Cookie" where
  "cookie_store_cookie psl now options url =
     (let name = trim_matches blank (cw_name options);
          value = trim_matches blank (cw_value options);
          domain = map_option to_ascii_lowercase (cw_domain options);
          lower_name = to_ascii_lowercase name;
          lower_value = to_ascii_lowercase value;
          path = (if cw_path options = [] then default_path (u_path url) else cw_path options)
      in
      if cw_expires options \<noteq> None \<and> cw_max_age options \<noteq> None
      then Inl ''expires and maxAge cannot both be set''
      else if CHR ''='' \<in> set name \<or> length name + length value > 4096
          \<or> list_ex (\<lambda>c. c = CHR '';'' \<or> control c) name \<or> list_ex (\<lambda>c. c = CHR '';'' \<or> control c) value
          \<or> name = [] \<and> (value = [] \<or> CHR ''='' \<in> set value)
      then Inl ''Invalid cookie name or value''
      else if starts_with lower_name ''__http-'' \<or> starts_with lower_name ''__host-http-''
          \<or> name = [] \<and> list_ex (\<lambda>p. starts_with lower_value p) [''__host-'', ''__host-http-'', ''__http-'', ''__secure-'']
      then Inl ''Cookie name requires HTTP-only privileges''
      else if (case domain of
                 None \<Rightarrow> False
               | Some d \<Rightarrow> starts_with d ''.'' \<or> d = [] \<or> length d > 1024 \<or> \<not> domain_matches (u_host url) d
                   \<or> is_public_suffix psl d \<and> \<not> eq_ignore_ascii_case d (u_host url)
                   \<or> starts_with lower_name ''__host-'')
      then Inl ''Invalid cookie domain''
      else if \<not> starts_with path ''/'' \<or> length path > 1024
          \<or> starts_with lower_name ''__host-'' \<and> path \<noteq> ''/''
          \<or> CHR '';'' \<in> set path \<or> list_ex control path
      then Inl ''Invalid cookie path''
      else Inr \<lparr>c_name = name, c_value = value, c_domain = domain, c_host_only = True,
             c_path = Some path, c_created_at = now, c_received_at = now,
             c_expires = cw_expires options, c_max_age = cw_max_age options, c_secure = True,
             c_http_only = False, c_same_site = cw_same_site options,
             c_partitioned = cw_partitioned options, c_partition_key = None\<rparr>)"

text \<open>\<open>t1\<close> is the clock at the creation of the cookie, \<open>t3\<close> the clock of the store.\<close>

definition set_from_cookie_store_with_access ::
  "psl_crate \<Rightarrow> system_time \<Rightarrow> system_time \<Rightarrow> CookieStoreWrite \<Rightarrow> Url \<Rightarrow> Url \<Rightarrow> CookieAccessContext
     \<Rightarrow> CookieJar \<Rightarrow> (string + unit) \<times> CookieJar" where
  "set_from_cookie_store_with_access psl t1 t3 options url site_for_cookies access jar =
     (case cookie_store_cookie psl t1 options url of
        Inl e \<Rightarrow> (Inl e, jar)
      | Inr cookie \<Rightarrow>
          (Inr (), store_cookie psl t3 url site_for_cookies False False (c_path cookie = Some ''/'')
                     True access cookie jar))"

section \<open>Selection\<close>

definition path_len :: "Cookie \<Rightarrow> nat" where
  "path_len c = length (case c_path c of Some p \<Rightarrow> p | None \<Rightarrow> ''/'')"

text \<open>The stable sort: longer paths first, older cookies first among equal lengths.\<close>

definition cookie_order :: "Cookie \<Rightarrow> int \<times> system_time" where
  "cookie_order c = (- int (path_len c), c_created_at c)"

definition selects ::
  "psl_crate \<Rightarrow> system_time \<Rightarrow> Url \<Rightarrow> Url \<Rightarrow> bool \<Rightarrow> Method \<Rightarrow> bool \<Rightarrow> CookieAccessContext \<Rightarrow> Cookie \<Rightarrow> bool" where
  "selects psl now url site_for_cookies top_level_navigation method non_http access c \<longleftrightarrow>
     (let same_site = same_site psl url site_for_cookies;
          safe_navigation = top_level_navigation \<and> (method = Get \<or> method = Head \<or> method = Options)
      in permits access c \<and> \<not> is_expired c now \<and> matches_url c url
         \<and> (\<not> non_http \<or> \<not> c_http_only c)
         \<and> (same_site \<or> c_same_site c = SameSite_None
            \<or> \<not> non_http \<and> c_same_site c = Lax \<and> safe_navigation))"

definition matching_cookies ::
  "psl_crate \<Rightarrow> system_time \<Rightarrow> Url \<Rightarrow> Url \<Rightarrow> bool \<Rightarrow> Method \<Rightarrow> bool \<Rightarrow> CookieAccessContext \<Rightarrow> CookieJar \<Rightarrow> Cookie list" where
  "matching_cookies psl now url site_for_cookies top_level_navigation method non_http access jar =
     sort_key cookie_order
       (filter (selects psl now url site_for_cookies top_level_navigation method non_http access)
         (map fst (j_cookies jar)))"

definition cookie_string ::
  "psl_crate \<Rightarrow> system_time \<Rightarrow> Url \<Rightarrow> Url \<Rightarrow> bool \<Rightarrow> Method \<Rightarrow> bool \<Rightarrow> CookieAccessContext \<Rightarrow> CookieJar \<Rightarrow> string option" where
  "cookie_string psl now url site_for_cookies top_level_navigation method non_http access jar =
     (let pairs = map (\<lambda>c. c_name c @ ''='' @ c_value c)
        (matching_cookies psl now url site_for_cookies top_level_navigation method non_http access jar)
      in if pairs = [] then None else Some (join ''; '' pairs))"

definition cookie_header_for_request_with_access ::
  "psl_crate \<Rightarrow> system_time \<Rightarrow> Url \<Rightarrow> Url \<Rightarrow> bool \<Rightarrow> Method \<Rightarrow> CookieAccessContext \<Rightarrow> CookieJar \<Rightarrow> string option" where
  "cookie_header_for_request_with_access psl now url site_for_cookies top_level_navigation method access jar =
     cookie_string psl now url site_for_cookies top_level_navigation method False access jar"

definition cookie_header_for_request ::
  "psl_crate \<Rightarrow> system_time \<Rightarrow> Url \<Rightarrow> Url \<Rightarrow> bool \<Rightarrow> Method \<Rightarrow> CookieJar \<Rightarrow> string option" where
  "cookie_header_for_request psl now url site_for_cookies top_level_navigation method jar =
     cookie_header_for_request_with_access psl now url site_for_cookies top_level_navigation method
       (first_party psl (if top_level_navigation then url else site_for_cookies)) jar"

definition cookie_header :: "psl_crate \<Rightarrow> system_time \<Rightarrow> Url \<Rightarrow> CookieJar \<Rightarrow> string option" where
  "cookie_header psl now url jar = cookie_header_for_request psl now url url True Get jar"

definition document_cookie_with_access ::
  "psl_crate \<Rightarrow> system_time \<Rightarrow> Url \<Rightarrow> Url \<Rightarrow> CookieAccessContext \<Rightarrow> CookieJar \<Rightarrow> string" where
  "document_cookie_with_access psl now url site_for_cookies access jar =
     (case cookie_string psl now url site_for_cookies False Get True access jar of
        Some s \<Rightarrow> s | None \<Rightarrow> [])"

definition document_cookie :: "psl_crate \<Rightarrow> system_time \<Rightarrow> Url \<Rightarrow> Url \<Rightarrow> CookieJar \<Rightarrow> string" where
  "document_cookie psl now url site_for_cookies jar =
     document_cookie_with_access psl now url site_for_cookies (first_party psl site_for_cookies) jar"

definition script_visible_cookie_pairs_with_access ::
  "psl_crate \<Rightarrow> system_time \<Rightarrow> Url \<Rightarrow> Url \<Rightarrow> CookieAccessContext \<Rightarrow> CookieJar \<Rightarrow> (string \<times> string) list" where
  "script_visible_cookie_pairs_with_access psl now url site_for_cookies access jar =
     map (\<lambda>c. (c_name c, c_value c))
       (matching_cookies psl now url site_for_cookies False Get True access jar)"

section \<open>Reading the change log\<close>

definition store_change :: "RecordedCookieChange \<Rightarrow> CookieStoreChange" where
  "store_change ch =
     \<lparr>sc_name = c_name (rc_cookie ch),
      sc_value = (if \<not> rc_deleted ch then Some (c_value (rc_cookie ch)) else None),
      sc_deleted = rc_deleted ch, sc_individual_event = rc_individual_event ch\<rparr>"

definition script_visible_changes_since_with_access ::
  "psl_crate \<Rightarrow> nat \<Rightarrow> Url \<Rightarrow> Url \<Rightarrow> CookieAccessContext \<Rightarrow> CookieJar \<Rightarrow> nat \<times> CookieStoreChange list" where
  "script_visible_changes_since_with_access psl sequence url site_for_cookies access jar =
     (j_change_sequence jar,
      map store_change
        (filter (\<lambda>ch. permits access (rc_cookie ch) \<and> \<not> c_http_only (rc_cookie ch)
             \<and> matches_url (rc_cookie ch) url
             \<and> (same_site psl url site_for_cookies \<or> c_same_site (rc_cookie ch) = SameSite_None))
          (filter (\<lambda>ch. rc_sequence ch > sequence) (j_changes jar))))"

definition subscription_sees ::
  "psl_crate \<Rightarrow> Url \<Rightarrow> RecordedCookieChange \<Rightarrow> ActiveCookieSubscription \<times> Url \<Rightarrow> bool" where
  "subscription_sees psl site_for_cookies ch su \<longleftrightarrow>
     (let (s, url) = su in
      rc_sequence ch > as_after_sequence s
      \<and> (case sub_name (as_entry s) of Some n \<Rightarrow> n = c_name (rc_cookie ch) | None \<Rightarrow> True)
      \<and> matches_url (rc_cookie ch) url
      \<and> (same_site psl url site_for_cookies \<or> c_same_site (rc_cookie ch) = SameSite_None))"

definition service_worker_changes_since_with_access ::
  "'u url_crate \<Rightarrow> psl_crate \<Rightarrow> nat \<Rightarrow> string \<Rightarrow> SchemefulSite \<Rightarrow> Url \<Rightarrow> bool \<Rightarrow> CookieJar \<Rightarrow> nat \<times> CookieStoreChange list" where
  "service_worker_changes_since_with_access uc psl sequence scope site site_for_cookies unpartitioned jar =
     (let access = \<lparr>ca_top_level_site = Some site, ca_unpartitioned = unpartitioned\<rparr>;
          subscriptions =
            List.map_filter
              (\<lambda>s. case url_from_str uc (sub_url (as_entry s)) of Inr url \<Rightarrow> Some (s, url) | Inl _ \<Rightarrow> None)
              (case j_service_worker_subscriptions jar (scope, site) of Some r \<Rightarrow> rg_entries r | None \<Rightarrow> [])
      in (j_change_sequence jar,
          map store_change
            (filter (\<lambda>ch. permits access (rc_cookie ch)
                 \<and> list_ex (subscription_sees psl site_for_cookies ch) subscriptions)
              (filter (\<lambda>ch. rc_sequence ch > sequence) (j_changes jar)))))"

end
