(* ===== verification/JarInvariant.thy ===== *)
theory JarInvariant
  imports CookieJar
begin

text \<open>
  The invariant of the cookie jar and its preservation by every operation, over all
  sequences of operations; the frame properties of the operations (what they leave alone)
  that the security properties rest on.
\<close>

section \<open>The invariant\<close>

definition ckey :: "Cookie \<Rightarrow> SchemefulSite option \<times> string \<times> string option \<times> string option \<times> bool" where
  "ckey c = (c_partition_key c, c_name c, c_domain c, c_path c, c_host_only c)"

lemma same_key_ckey: "same_key a b \<longleftrightarrow> ckey a = ckey b"
  by (auto simp: same_key_def ckey_def)

definition cookies_wf :: "psl_crate \<Rightarrow> CookieJar \<Rightarrow> bool" where
  "cookies_wf psl jar \<longleftrightarrow>
     distinct (map (\<lambda>(c, _). ckey c) (j_cookies jar))
   \<and> (\<forall>(c, _)\<in>set (j_cookies jar). cookie_wf psl c)"

definition log_wf :: "CookieJar \<Rightarrow> bool" where
  "log_wf jar \<longleftrightarrow>
     length (j_changes jar) \<le> 4096
   \<and> j_change_sequence jar \<le> u64_max
   \<and> (\<forall>ch\<in>set (j_changes jar). \<not> c_http_only (rc_cookie ch) \<and> rc_sequence ch \<le> j_change_sequence jar)
   \<and> (j_change_sequence jar < u64_max \<longrightarrow> sorted_wrt (<) (map rc_sequence (j_changes jar)))"

definition registrations_ok ::
  "(string \<times> SchemefulSite \<rightharpoonup> RegistrationCookieSubscriptions) \<Rightarrow> nat \<Rightarrow> nat \<Rightarrow> bool" where
  "registrations_ok m next_id sequence \<longleftrightarrow>
     (\<forall>k r. m k = Some r \<longrightarrow>
        rg_id r < next_id \<and> distinct (map as_entry (rg_entries r))
      \<and> (\<forall>s\<in>set (rg_entries r). as_after_sequence s \<le> sequence))
   \<and> (\<forall>k k' r r'. m k = Some r \<longrightarrow> m k' = Some r' \<longrightarrow> rg_id r = rg_id r' \<longrightarrow> k = k')"

definition registrations_wf :: "CookieJar \<Rightarrow> bool" where
  "registrations_wf jar \<longleftrightarrow>
     registrations_ok (j_service_worker_subscriptions jar) (j_next_registration_id jar) (j_change_sequence jar)"

definition jar_wf :: "psl_crate \<Rightarrow> CookieJar \<Rightarrow> bool" where
  "jar_wf psl jar \<longleftrightarrow> cookies_wf psl jar \<and> log_wf jar \<and> registrations_wf jar"

section \<open>The change log\<close>

lemma u64_max_pos [simp]: "0 < u64_max"
  by (simp add: u64_max_def)

lemma record_change_frame [simp]:
  "j_cookies (record_change c d i jar) = j_cookies jar"
  "j_service_worker_subscriptions (record_change c d i jar) = j_service_worker_subscriptions jar"
  "j_next_registration_id (record_change c d i jar) = j_next_registration_id jar"
  by (simp_all add: record_change_def Let_def)

lemma record_change_cookies_update [simp]:
  "(record_change c d i jar)\<lparr>j_cookies := cs\<rparr> = record_change c d i (jar\<lparr>j_cookies := cs\<rparr>)"
  by (simp add: record_change_def Let_def)

lemma record_change_sequence:
  "log_wf jar \<Longrightarrow> j_change_sequence jar \<le> j_change_sequence (record_change c d i jar)"
  by (simp add: record_change_def Let_def log_wf_def)

lemma sorted_wrt_tl: "sorted_wrt P xs \<Longrightarrow> sorted_wrt P (tl xs)"
  by (cases xs) auto

lemma set_tl_subset: "set (tl xs) \<subseteq> set xs"
  by (cases xs) auto

lemma record_change_log [keeps]:
  assumes "log_wf jar"
  shows "log_wf (record_change c d i jar)"
proof (cases "c_http_only c")
  case True
  with assms show ?thesis by (simp add: record_change_def)
next
  case False
  let ?seq = "min u64_max (j_change_sequence jar + 1)"
  let ?new = "\<lparr>rc_sequence = ?seq, rc_cookie = c, rc_deleted = d, rc_individual_event = i\<rparr>"
  let ?chs = "j_changes jar @ [?new]"
  let ?chs' = "if length ?chs > 4096 then tl ?chs else ?chs"
  from assms have w: "length (j_changes jar) \<le> 4096" "j_change_sequence jar \<le> u64_max"
    "\<forall>ch\<in>set (j_changes jar). \<not> c_http_only (rc_cookie ch) \<and> rc_sequence ch \<le> j_change_sequence jar"
    "j_change_sequence jar < u64_max \<longrightarrow> sorted_wrt (<) (map rc_sequence (j_changes jar))"
    by (auto simp: log_wf_def)
  have all: "\<forall>ch\<in>set ?chs. \<not> c_http_only (rc_cookie ch) \<and> rc_sequence ch \<le> ?seq"
    using w False by auto
  have sorted: "?seq < u64_max \<longrightarrow> sorted_wrt (<) (map rc_sequence ?chs)"
    using w by (auto simp: sorted_wrt_append)
  have "set ?chs' \<subseteq> set ?chs" using set_tl_subset [of ?chs] by (simp only: split: if_split) blast
  moreover have "?seq < u64_max \<longrightarrow> sorted_wrt (<) (map rc_sequence ?chs')"
    using sorted by (auto simp: map_tl intro: sorted_wrt_tl)
  moreover have "length ?chs' \<le> 4096" using w(1) by simp
  ultimately show ?thesis
    using False all unfolding record_change_def Let_def log_wf_def by (auto simp del: set_append)
qed

lemma log_wf_cookies [simp]: "log_wf (jar\<lparr>j_cookies := cs\<rparr>) = log_wf jar"
  by (simp add: log_wf_def)

text \<open>Registrations only look at the change sequence, which never decreases.\<close>

lemma registrations_mono:
  assumes "registrations_wf jar" "j_change_sequence jar \<le> j_change_sequence jar'"
    and "j_service_worker_subscriptions jar' = j_service_worker_subscriptions jar"
    and "j_next_registration_id jar' = j_next_registration_id jar"
  shows "registrations_wf jar'"
  using assms unfolding registrations_wf_def registrations_ok_def by (metis order_trans)

lemma record_change_registrations [keeps]:
  "log_wf jar \<Longrightarrow> registrations_wf jar \<Longrightarrow> registrations_wf (record_change c d i jar)"
  by (rule registrations_mono) (auto intro: record_change_sequence)

section \<open>What one cookie operation does to a jar\<close>

text \<open>Every cookie operation changes the cookies to a given list and appends to the log; the relation
  \<open>logs jar jar'\<close> says that \<open>jar'\<close> is \<open>jar\<close> after some changes were recorded.\<close>

inductive logs :: "CookieJar \<Rightarrow> CookieJar \<Rightarrow> bool" where
  logs_refl: "logs jar jar"
| logs_record: "logs jar jar' \<Longrightarrow> logs jar (record_change c d i jar')"

lemma logs_frame:
  "logs jar jar' \<Longrightarrow> j_cookies jar' = j_cookies jar
     \<and> j_service_worker_subscriptions jar' = j_service_worker_subscriptions jar
     \<and> j_next_registration_id jar' = j_next_registration_id jar"
  by (induction rule: logs.induct) auto

lemma logs_wf: "logs jar jar' \<Longrightarrow> log_wf jar \<Longrightarrow> registrations_wf jar \<Longrightarrow> log_wf jar' \<and> registrations_wf jar'"
  by (induction rule: logs.induct) (auto intro: keeps)

lemma logs_trans: "logs b c \<Longrightarrow> logs a b \<Longrightarrow> logs a c"
  by (induction rule: logs.induct) (auto intro: logs.intros)

lemma logs_deletions: "logs jar (record_deletions cs jar)"
proof -
  have "logs jar jar' \<Longrightarrow> logs jar (record_deletions cs jar')" for jar'
    unfolding record_deletions_def
    by (induction cs arbitrary: jar') (auto intro: logs.intros)
  then show ?thesis by (auto intro: logs.intros)
qed

lemma logs_jar_wf:
  assumes "logs (jar\<lparr>j_cookies := cs\<rparr>) jar'" "jar_wf psl jar"
    and "distinct (map (\<lambda>(c, _). ckey c) cs)" "\<forall>(c, _)\<in>set cs. cookie_wf psl c"
  shows "jar_wf psl jar'"
proof -
  have "registrations_wf (jar\<lparr>j_cookies := cs\<rparr>)"
    using assms(2) by (auto simp: jar_wf_def intro: registrations_mono)
  then have "log_wf jar' \<and> registrations_wf jar'"
    using assms(2) by (intro logs_wf [OF assms(1)]) (auto simp: jar_wf_def)
  moreover have "j_cookies jar' = cs" using logs_frame [OF assms(1)] by simp
  ultimately show ?thesis using assms(3,4) by (simp add: jar_wf_def cookies_wf_def)
qed

lemma evict_logs:
  "logs (jar\<lparr>j_cookies := filter (\<lambda>(c, _). \<not> is_expired c now) (j_cookies jar)\<rparr>) (fst (evict_expired_at now jar))"
  by (simp add: evict_expired_at_def Let_def logs_deletions)

lemma evict_cookies [simp]:
  "j_cookies (fst (evict_expired_at now jar)) = filter (\<lambda>(c, _). \<not> is_expired c now) (j_cookies jar)"
  using logs_frame [OF evict_logs] by simp

lemma filter_cookies_wf:
  assumes "cookies_wf psl jar"
  shows "distinct (map (\<lambda>(c, _). ckey c) (filter P (j_cookies jar)))"
    "\<forall>(c, _)\<in>set (filter P (j_cookies jar)). cookie_wf psl c"
  using assms by (auto simp: cookies_wf_def intro: distinct_map_filterI)

lemma evict_jar_wf [keeps]: "jar_wf psl jar \<Longrightarrow> jar_wf psl (fst (evict_expired_at now jar))"
  using evict_logs [where jar = jar and now = now] filter_cookies_wf [of psl jar] by (metis logs_jar_wf jar_wf_def)

lemma delete_associated_logs:
  "\<exists>P. logs (jar\<lparr>j_cookies := filter P (j_cookies jar)\<rparr>) (delete_associated_cookies psl url now jar)"
  unfolding delete_associated_cookies_def Let_def by (rule exI, rule logs_deletions)

lemma delete_associated_jar_wf [keeps]:
  "jar_wf psl jar \<Longrightarrow> jar_wf psl (delete_associated_cookies psl' url now jar)"
  using delete_associated_logs [of jar psl' url now] filter_cookies_wf [of psl jar]
  by (metis logs_jar_wf jar_wf_def)

lemma commit_logs:
  "logs (jar\<lparr>j_cookies := filter (\<lambda>(c, _). \<not> same_key c cookie) (j_cookies jar)
            @ (if is_expired cookie now then [] else [(cookie, odom)])\<rparr>)
     (commit_cookie now ie odom replaced cookie jar)"
  by (auto simp: commit_cookie_def Let_def intro: logs.intros split: option.splits)

lemma commit_cookies:
  "j_cookies (commit_cookie now ie odom replaced cookie jar) =
     filter (\<lambda>(c, _). \<not> same_key c cookie) (j_cookies jar)
     @ (if is_expired cookie now then [] else [(cookie, odom)])"
  using logs_frame [OF commit_logs [where jar = jar and cookie = cookie and now = now and odom = odom
      and ie = ie and replaced = replaced]] by simp

lemma commit_jar_wf:
  assumes "jar_wf psl jar" "cookie_wf psl cookie"
  shows "jar_wf psl (commit_cookie now ie odom replaced cookie jar)"
proof (rule logs_jar_wf [OF commit_logs assms(1)])
  have w: "cookies_wf psl jar" using assms(1) by (simp add: jar_wf_def)
  show "distinct (map (\<lambda>(c, _). ckey c) (filter (\<lambda>(c, _). \<not> same_key c cookie) (j_cookies jar)
      @ (if is_expired cookie now then [] else [(cookie, odom)])))"
    using filter_cookies_wf(1) [OF w] by (auto simp: same_key_ckey)
  show "\<forall>(c, _)\<in>set (filter (\<lambda>(c, _). \<not> same_key c cookie) (j_cookies jar)
      @ (if is_expired cookie now then [] else [(cookie, odom)])). cookie_wf psl c"
    using filter_cookies_wf(2) [OF w] assms(2) by auto
qed

text \<open>The three ways a store can end: refused, stopped after the eviction, or committed.\<close>

lemma store_cookie_cases:
  obtains (refused) "store_cookie psl now ou s nav http root ie access c jar = jar"
    | (stopped) "store_cookie psl now ou s nav http root ie access c jar = fst (evict_expired_at now jar)"
    | (committed) c' replaced t where
        "prepare_cookie_for_storage psl ou s nav http root access c = Some c'"
        "store_cookie psl now ou s nav http root ie access c jar =
           commit_cookie now ie (to_ascii_lowercase (u_host ou)) replaced (c'\<lparr>c_created_at := t\<rparr>)
             (fst (evict_expired_at now jar))"
        "\<not> http \<Longrightarrow> \<forall>(old, _)\<in>set (j_cookies (fst (evict_expired_at now jar))). \<not> collides_http_only c' old"
        "\<not> secure_cookie_transport ou \<Longrightarrow> \<not> c_secure c' \<Longrightarrow>
           \<forall>(old, _)\<in>set (j_cookies (fst (evict_expired_at now jar))). \<not> overlays_secure c' old"
        "case map_option fst (List.find (\<lambda>(old, _). same_key old c') (j_cookies (fst (evict_expired_at now jar)))) of
           Some old \<Rightarrow> replaced = Some old \<and> t = c_created_at old | None \<Rightarrow> replaced = None \<and> t = c_created_at c'"
proof (cases "prepare_cookie_for_storage psl ou s nav http root access c")
  case None
  then show ?thesis using refused by (simp add: store_cookie_def)
next
  case (Some c')
  define jar1 where "jar1 = fst (evict_expired_at now jar)"
  define found where "found = map_option fst (List.find (\<lambda>(old, _). same_key old c') (j_cookies jar1))"
  let ?over = "\<not> secure_cookie_transport ou \<and> \<not> c_secure c' \<and> list_ex (\<lambda>(old, _). overlays_secure c' old) (j_cookies jar1)"
  let ?coll = "\<not> http \<and> list_ex (\<lambda>(old, _). collides_http_only c' old) (j_cookies jar1)"
  have eq: "store_cookie psl now ou s nav http root ie access c jar =
      (if ?over then jar1 else if ?coll then jar1 else
       (case found of
          Some old \<Rightarrow> if \<not> http \<and> c_http_only old then jar1
            else commit_cookie now ie (to_ascii_lowercase (u_host ou)) (Some old) (c'\<lparr>c_created_at := c_created_at old\<rparr>) jar1
        | None \<Rightarrow> commit_cookie now ie (to_ascii_lowercase (u_host ou)) None c' jar1))"
    unfolding store_cookie_def Some found_def jar1_def Let_def option.simps by (rule refl)
  show ?thesis
  proof (cases "?over \<or> ?coll")
    case True
    then have "store_cookie psl now ou s nav http root ie access c jar = jar1" by (auto simp: eq)
    then show ?thesis using stopped by (simp add: jar1_def)
  next
    case False
    then have no: "\<not> http \<Longrightarrow> \<forall>(old, _)\<in>set (j_cookies jar1). \<not> collides_http_only c' old"
      "\<not> secure_cookie_transport ou \<Longrightarrow> \<not> c_secure c' \<Longrightarrow> \<forall>(old, _)\<in>set (j_cookies jar1). \<not> overlays_secure c' old"
      by (auto simp: list_ex_iff)
    show ?thesis
    proof (cases found)
      case None
      then have "store_cookie psl now ou s nav http root ie access c jar =
          commit_cookie now ie (to_ascii_lowercase (u_host ou)) None (c'\<lparr>c_created_at := c_created_at c'\<rparr>) jar1"
        using False unfolding eq by auto
      from committed [OF Some this [unfolded jar1_def] no [unfolded jar1_def]] None show ?thesis
        by (simp add: found_def jar1_def)
    next
      case old: (Some old)
      show ?thesis
      proof (cases "\<not> http \<and> c_http_only old")
        case True
        then have "store_cookie psl now ou s nav http root ie access c jar = jar1"
          using False old True unfolding eq by auto
        then show ?thesis using stopped by (simp add: jar1_def)
      next
        case ok: False
        then have "store_cookie psl now ou s nav http root ie access c jar =
          commit_cookie now ie (to_ascii_lowercase (u_host ou)) (Some old) (c'\<lparr>c_created_at := c_created_at old\<rparr>) jar1"
          using False old ok unfolding eq by auto
        from committed [OF Some this [unfolded jar1_def] no [unfolded jar1_def]] old show ?thesis
          by (auto simp: found_def jar1_def)
      qed
    qed
  qed
qed

lemma cookie_wf_created [simp]: "cookie_wf psl (c\<lparr>c_created_at := t\<rparr>) = cookie_wf psl c"
  by (simp add: cookie_wf_def)

lemma same_key_created [simp]: "same_key c (c'\<lparr>c_created_at := t\<rparr>) = same_key c c'"
  by (simp add: same_key_def)

lemma is_expired_created [simp]: "is_expired (c\<lparr>c_created_at := t\<rparr>) now = is_expired c now"
  by (simp add: is_expired_def expiration_time_def split: option.split)

lemma store_cookie_jar_wf [keeps]:
  assumes "jar_wf psl jar" "c_partition_key c = None"
  shows "jar_wf psl (store_cookie psl now ou s nav http root ie access c jar)"
proof (cases rule: store_cookie_cases [of psl now ou s nav http root ie access c jar])
  case (committed c' replaced t)
  then show ?thesis
    using assms prepare_cookie_facts(2) [OF committed(1) assms(2)]
    by (simp add: commit_jar_wf evict_jar_wf)
qed (use assms in \<open>simp_all add: evict_jar_wf\<close>)

lemma add_with_context_jar_wf [keeps]:
  "jar_wf psl jar \<Longrightarrow> jar_wf psl (add_with_context psl clk h ou s nav http access jar)"
  by (auto simp: add_with_context_def Let_def split: prod.splits option.splits
      intro: store_cookie_jar_wf dest: cookie_parse_key)

lemma cookie_store_cookie_key: "cookie_store_cookie psl t opts url = Inr c \<Longrightarrow> c_partition_key c = None"
  by (auto simp: cookie_store_cookie_def Let_def split: if_splits)

lemma set_from_cookie_store_jar_wf [keeps]:
  "jar_wf psl jar \<Longrightarrow> jar_wf psl (snd (set_from_cookie_store_with_access psl t1 t3 opts url s access jar))"
  by (auto simp: set_from_cookie_store_with_access_def split: sum.splits
      intro: store_cookie_jar_wf dest: cookie_store_cookie_key)

section \<open>Registrations\<close>

lemma update_entry_facts:
  assumes "distinct (map as_entry es)" "\<forall>s\<in>set es. as_after_sequence s \<le> q"
  shows "distinct (map as_entry (update_entry q b es e))"
    "\<forall>s\<in>set (update_entry q b es e). as_after_sequence s \<le> q"
  using assms by (auto simp: update_entry_def list_ex_iff intro: distinct_map_filterI)

lemma update_entries_facts:
  assumes "distinct (map as_entry es)" "\<forall>s\<in>set es. as_after_sequence s \<le> q"
  shows "distinct (map as_entry (foldl (update_entry q b) es xs))
    \<and> (\<forall>s\<in>set (foldl (update_entry q b) es xs). as_after_sequence s \<le> q)"
  using assms
proof (induction xs arbitrary: es)
  case (Cons x xs)
  from Cons.IH [OF update_entry_facts [OF Cons.prems]] show ?case by simp
qed simp

lemma jar_wf_registrations:
  "jar_wf psl (jar\<lparr>j_service_worker_subscriptions := m, j_next_registration_id := n\<rparr>) \<longleftrightarrow>
     cookies_wf psl jar \<and> log_wf jar
     \<and> registrations_wf (jar\<lparr>j_service_worker_subscriptions := m, j_next_registration_id := n\<rparr>)"
  by (simp add: jar_wf_def cookies_wf_def log_wf_def)

lemma registrations_new:
  assumes "registrations_ok m n q"
  shows "registrations_ok (m(k \<mapsto> \<lparr>rg_id = n, rg_entries = []\<rparr>)) (Suc n) q"
proof -
  from assms have "m k' = Some r \<longrightarrow> rg_id r < n" for k' r
    unfolding registrations_ok_def by blast
  then have "m k' = Some r \<Longrightarrow> rg_id r < Suc n \<and> rg_id r \<noteq> n" for k' r
    by (metis less_SucI less_irrefl)
  then show ?thesis using assms
    by (auto simp: registrations_ok_def simp del: split_paired_All split: if_splits)
qed

lemma register_jar_wf [keeps]:
  assumes "jar_wf psl jar" "register_service_worker_scope jar scope site = Some (jar', i)"
  shows "jar_wf psl jar'"
proof (cases "j_service_worker_subscriptions jar (scope, site)")
  case None
  with assms(2) have j: "i = j_next_registration_id jar"
      "jar' = jar\<lparr>j_service_worker_subscriptions := (j_service_worker_subscriptions jar)
        ((scope, site) \<mapsto> \<lparr>rg_id = i, rg_entries = []\<rparr>), j_next_registration_id := i + 1\<rparr>"
    by (auto simp: register_service_worker_scope_def Let_def split: if_splits)
  from assms(1) have r: "registrations_wf jar" by (simp add: jar_wf_def)
  have "registrations_wf jar'"
    using registrations_new [OF r [unfolded registrations_wf_def], of "(scope, site)"]
    by (simp add: j registrations_wf_def)
  with assms(1) show ?thesis unfolding j(2) jar_wf_registrations by (simp add: jar_wf_def)
qed (use assms in \<open>auto simp: register_service_worker_scope_def\<close>)

lemma update_registrations_wf:
  assumes "registrations_wf jar" "j_service_worker_subscriptions jar k = Some r"
    and "distinct (map as_entry es)" "\<forall>s\<in>set es. as_after_sequence s \<le> j_change_sequence jar"
  shows "registrations_wf (jar\<lparr>j_service_worker_subscriptions :=
     (j_service_worker_subscriptions jar)(k \<mapsto> r\<lparr>rg_entries := es\<rparr>)\<rparr>)"
  using assms unfolding registrations_wf_def registrations_ok_def by auto

lemma update_subscriptions_jar_wf [keeps]:
  assumes "jar_wf psl jar"
  shows "jar_wf psl (update_service_worker_subscriptions jar scope site entries b)"
proof (cases "j_service_worker_subscriptions jar (scope, site)")
  case (Some r)
  from assms have w: "registrations_wf jar" by (simp add: jar_wf_def)
  with Some have "distinct (map as_entry (rg_entries r))"
    "\<forall>s\<in>set (rg_entries r). as_after_sequence s \<le> j_change_sequence jar"
    unfolding registrations_wf_def registrations_ok_def by blast+
  note u = update_registrations_wf [OF w Some, of "foldl (update_entry (j_change_sequence jar) b) (rg_entries r) entries"]
    update_entries_facts [OF this, of b entries]
  with assms Some show ?thesis
    by (simp add: update_service_worker_subscriptions_def jar_wf_def cookies_wf_def log_wf_def)
qed (use assms in \<open>simp add: update_service_worker_subscriptions_def\<close>)

lemma clear_subscriptions_jar_wf [keeps]:
  "jar_wf psl jar \<Longrightarrow> jar_wf psl (clear_service_worker_subscriptions jar scope site)"
  by (auto simp: clear_service_worker_subscriptions_def jar_wf_def cookies_wf_def log_wf_def registrations_wf_def registrations_ok_def)

lemma subscribe_changes_jar_wf [keeps]: "jar_wf psl jar \<Longrightarrow> jar_wf psl (fst (subscribe_changes jar))"
  by (simp add: subscribe_changes_def jar_wf_def cookies_wf_def log_wf_def registrations_wf_def split: prod.split)

section \<open>Runs of a jar\<close>

text \<open>One step is one call of a method that changes the jar, with any arguments.\<close>

inductive jar_step :: "psl_crate \<Rightarrow> CookieJar \<Rightarrow> CookieJar \<Rightarrow> bool" for psl where
  step_header: "jar_step psl jar (add_from_header_for_request_with_access psl clk h ou s nav access jar)"
| step_document: "jar_step psl jar (add_from_document_with_access psl clk v ou s access jar)"
| step_cookie_store: "jar_step psl jar (snd (set_from_cookie_store_with_access psl t1 t3 opts ou s access jar))"
| step_evict: "jar_step psl jar (fst (evict_expired_at now jar))"
| step_delete_associated: "jar_step psl jar (delete_associated_cookies psl ou now jar)"
| step_register: "register_service_worker_scope jar scope site = Some (jar', i) \<Longrightarrow> jar_step psl jar jar'"
| step_update: "jar_step psl jar (update_service_worker_subscriptions jar scope site entries b)"
| step_clear: "jar_step psl jar (clear_service_worker_subscriptions jar scope site)"
| step_subscribe: "jar_step psl jar (fst (subscribe_changes jar))"

inductive jar_reach :: "psl_crate \<Rightarrow> CookieJar \<Rightarrow> bool" for psl where
  jar_init: "jar_reach psl jar_new"
| jar_next: "jar_reach psl jar \<Longrightarrow> jar_step psl jar jar' \<Longrightarrow> jar_reach psl jar'"

lemma jar_step_wf: "jar_step psl jar jar' \<Longrightarrow> jar_wf psl jar \<Longrightarrow> jar_wf psl jar'"
  by (induction rule: jar_step.induct)
    (auto simp: add_from_header_for_request_with_access_def add_from_document_with_access_def intro: keeps)

lemma jar_new_wf [keeps]: "jar_wf psl jar_new"
  by (simp add: jar_wf_def cookies_wf_def log_wf_def registrations_wf_def registrations_ok_def jar_new_def)

lemma jar_reach_wf: "jar_reach psl jar \<Longrightarrow> jar_wf psl jar"
  by (induction rule: jar_reach.induct) (auto intro: keeps jar_step_wf)

end
