(* ===== verification/JarSecurity.thy ===== *)
theory JarSecurity
  imports JarInvariant "HOL-Library.Multiset"
begin

text \<open>
  The guarantees of the cookie jar that its callers rely on: the invariant on every reachable
  jar, integrity of HttpOnly, Secure and partitioned cookies against writes that may not touch
  them, non-interference of the reads, the round trip from \<open>Set-Cookie\<close> to \<open>Cookie\<close>, the expiry
  timer and the tokens of the change log.
\<close>

section \<open>What a write leaves alone\<close>

text \<open>\<open>kept now P jar jar'\<close>: of the cookies that satisfy \<open>P\<close>, \<open>jar'\<close> has those of \<open>jar\<close>, in their
  order, except for expired ones that an eviction at \<open>now\<close> removed.\<close>

definition kept :: "system_time \<Rightarrow> (Cookie \<Rightarrow> bool) \<Rightarrow> CookieJar \<Rightarrow> CookieJar \<Rightarrow> bool" where
  "kept now P jar jar' \<longleftrightarrow>
     filter (\<lambda>(c, _). P c) (j_cookies jar') = filter (\<lambda>(c, _). P c) (j_cookies jar)
   \<or> filter (\<lambda>(c, _). P c) (j_cookies jar') = filter (\<lambda>(c, _). P c \<and> \<not> is_expired c now) (j_cookies jar)"

lemma kept_refl [simp]: "kept now P jar jar"
  by (simp add: kept_def)

lemma evict_kept [simp]: "kept now P jar (fst (evict_expired_at now jar))"
  by (simp add: kept_def case_prod_unfold conj_commute)

lemma commit_kept:
  assumes "\<not> P cookie"
    and "\<And>c d. (c, d) \<in> set (j_cookies jar) \<Longrightarrow> \<not> is_expired c now \<Longrightarrow> P c \<Longrightarrow> \<not> same_key c cookie"
  shows "kept now P jar (commit_cookie now ie odom replaced cookie (fst (evict_expired_at now jar)))"
proof -
  have "filter (\<lambda>(c, _). P c) (j_cookies (commit_cookie now ie odom replaced cookie (fst (evict_expired_at now jar))))
      = filter (\<lambda>x. P (fst x) \<and> \<not> same_key (fst x) cookie \<and> \<not> is_expired (fst x) now) (j_cookies jar)"
    using assms(1) by (simp add: commit_cookies case_prod_unfold conj_ac)
  also have "\<dots> = filter (\<lambda>(c, _). P c \<and> \<not> is_expired c now) (j_cookies jar)"
    by (rule filter_cong) (use assms(2) in auto)
  finally show ?thesis by (simp add: kept_def)
qed

lemma store_cookie_kept:
  assumes jar: "jar_wf psl jar"
    and new: "\<And>c' t. prepare_cookie_for_storage psl ou s nav http root access c = Some c' \<Longrightarrow>
                \<not> P (c'\<lparr>c_created_at := t\<rparr>)"
    and old: "\<And>c' c0. prepare_cookie_for_storage psl ou s nav http root access c = Some c' \<Longrightarrow>
                P c0 \<Longrightarrow> cookie_wf psl c0 \<Longrightarrow> same_key c0 c' \<Longrightarrow>
                \<not> http \<and> collides_http_only c' c0
                \<or> \<not> secure_cookie_transport ou \<and> \<not> c_secure c' \<and> overlays_secure c' c0"
  shows "kept now P jar (store_cookie psl now ou s nav http root ie access c jar)"
proof (cases rule: store_cookie_cases [of psl now ou s nav http root ie access c jar])
  case (committed c' replaced t)
  have "\<not> same_key c0 (c'\<lparr>c_created_at := t\<rparr>)"
    if "(c0, d) \<in> set (j_cookies jar)" "\<not> is_expired c0 now" "P c0" for c0 d
  proof -
    have "cookie_wf psl c0" using jar that(1) by (auto simp: jar_wf_def cookies_wf_def)
    then show ?thesis
      using old [OF committed(1) that(3)] committed(3,4) that(1,2) by fastforce
  qed
  then show ?thesis
    unfolding committed(2) using new [OF committed(1)] by (intro commit_kept) auto
qed simp_all

lemma add_with_context_kept:
  assumes "\<And>c. cookie_parse t1 t2 h = Some c \<Longrightarrow>
    kept now P jar (store_cookie psl now ou s nav http (explicit_root_path h) (\<not> http) access c jar)"
  shows "kept now P jar (add_with_context psl (t1, t2, now) h ou s nav http access jar)"
  using assms by (auto simp: add_with_context_def split: option.split)

lemma cookie_store_kept:
  assumes "\<And>c. cookie_store_cookie psl t1 opts ou = Inr c \<Longrightarrow>
    kept now P jar (store_cookie psl now ou s False False (c_path c = Some ''/'') True access c jar)"
  shows "kept now P jar (snd (set_from_cookie_store_with_access psl t1 now opts ou s access jar))"
  using assms by (auto simp: set_from_cookie_store_with_access_def split: sum.split)

lemma script_store_kept:
  assumes "jar_wf psl jar"
  shows "kept now c_http_only jar (store_cookie psl now ou s nav False root ie access c jar)"
proof (rule store_cookie_kept [OF assms])
  fix c' t
  assume "prepare_cookie_for_storage psl ou s nav False root access c = Some c'"
  then show "\<not> c_http_only (c'\<lparr>c_created_at := t\<rparr>)"
    by (auto elim!: prepare_cookie_split simp: prepare_policy_def)
qed (auto simp: collides_http_only_def same_key_def)

lemma domain_matches_refl [simp]: "domain_matches d d"
  by (simp add: domain_matches_def)

lemma overlays_same_key:
  "cookie_wf psl c0 \<Longrightarrow> same_key c0 c' \<Longrightarrow> c_secure c0 \<Longrightarrow> overlays_secure c' c0"
  by (auto simp: overlays_secure_def same_key_def cookie_wf_def)

lemma insecure_store_kept:
  assumes "jar_wf psl jar" "\<not> secure_cookie_transport ou"
  shows "kept now c_secure jar (store_cookie psl now ou s nav http root ie access c jar)"
proof (rule store_cookie_kept [OF assms(1)])
  fix c' assume p: "prepare_cookie_for_storage psl ou s nav http root access c = Some c'"
  then have n: "\<not> c_secure c'" using assms(2) by (auto elim!: prepare_cookie_split simp: prepare_policy_def)
  then show "\<not> c_secure (c'\<lparr>c_created_at := t\<rparr>)" for t by simp
  show "\<not> http \<and> collides_http_only c' c0 \<or> \<not> secure_cookie_transport ou \<and> \<not> c_secure c' \<and> overlays_secure c' c0"
    if "c_secure c0" "cookie_wf psl c0" "same_key c0 c'" for c0
    using overlays_same_key that n assms(2) by blast
qed

text \<open>The cookies outside a context: those of another partition, and the unpartitioned ones when the
  context has no access to them.\<close>

lemma partition_store_kept:
  assumes "jar_wf psl jar" "c_partition_key c = None"
  shows "kept now (\<lambda>c. \<not> permits access c) jar (store_cookie psl now ou s nav http root ie access c jar)"
proof (rule store_cookie_kept [OF assms(1)])
  fix c' assume p: "prepare_cookie_for_storage psl ou s nav http root access c = Some c'"
  note F = prepare_cookie_facts [OF p assms(2)]
  then show "\<not> \<not> permits access (c'\<lparr>c_created_at := t\<rparr>)" for t by (simp add: permits_def)
  show "\<not> http \<and> collides_http_only c' c0 \<or> \<not> secure_cookie_transport ou \<and> \<not> c_secure c' \<and> overlays_secure c' c0"
    if "\<not> permits access c0" "cookie_wf psl c0" "same_key c0 c'" for c0
    using F that by (auto simp: permits_def cookie_wf_def same_key_def split: if_splits)
qed

section \<open>Non-interference of reads\<close>

lemma matching_cookies_restrict:
  assumes "filter (\<lambda>(c, _). P c) (j_cookies jar) = filter (\<lambda>(c, _). P c) (j_cookies jar')"
    and "\<And>c. selects psl now url s nav m nh access c \<Longrightarrow> P c"
  shows "matching_cookies psl now url s nav m nh access jar = matching_cookies psl now url s nav m nh access jar'"
proof -
  let ?sel = "selects psl now url s nav m nh access"
  have r: "filter ?sel (map fst j) = filter ?sel (map fst (filter (\<lambda>(c, _). P c) j))" for j :: "(Cookie \<times> string) list"
    using assms(2) by (induction j) auto
  show ?thesis unfolding matching_cookies_def r [of "j_cookies jar"] r [of "j_cookies jar'"] assms(1) ..
qed

lemma selects_script: "selects psl now url s nav m True access c \<Longrightarrow> \<not> c_http_only c"
  by (simp add: selects_def Let_def)

lemma selects_permits: "selects psl now url s nav m nh access c \<Longrightarrow> permits access c"
  by (simp add: selects_def Let_def)

lemma selects_secure: "selects psl now url s nav m nh access c \<Longrightarrow> c_secure c \<Longrightarrow> secure_cookie_transport url"
  by (simp add: selects_def Let_def matches_url_def)

lemma selects_cross_site:
  assumes "selects psl now url s nav m nh access c" "\<not> same_site psl url s"
    and "\<not> (nav \<and> m \<in> {Get, Head, Options})"
  shows "c_same_site c = SameSite_None"
  using assms by (auto simp: selects_def Let_def)

lemma matching_cookies_in:
  "c \<in> set (matching_cookies psl now url s nav m nh access jar) \<longleftrightarrow>
     c \<in> fst ` set (j_cookies jar) \<and> selects psl now url s nav m nh access c"
  by (auto simp: matching_cookies_def)

section \<open>The round trip of a cookie\<close>

text \<open>A cookie that passed preparation and meets no blocking cookie is stored, under its key,
  with the creation time of the cookie it replaces.\<close>

definition creation_of :: "CookieJar \<Rightarrow> system_time \<Rightarrow> Cookie \<Rightarrow> system_time" where
  "creation_of jar now c =
     (case List.find (\<lambda>(old, _). same_key old c \<and> \<not> is_expired old now) (j_cookies jar) of
        Some (old, _) \<Rightarrow> c_created_at old | None \<Rightarrow> c_created_at c)"

lemma find_filter: "List.find P (filter Q xs) = List.find (\<lambda>x. P x \<and> Q x) xs"
  by (induction xs) auto

lemma http_store_commits:
  assumes "prepare_cookie_for_storage psl ou s nav True root access c = Some c'"
    and "secure_cookie_transport ou" "\<not> is_expired c' now"
  shows "(c'\<lparr>c_created_at := creation_of jar now c'\<rparr>, to_ascii_lowercase (u_host ou))
    \<in> set (j_cookies (store_cookie psl now ou s nav True root ie access c jar))"
proof -
  let ?find = "List.find (\<lambda>(old, _). same_key old c') (j_cookies (fst (evict_expired_at now jar)))"
  have "creation_of jar now c' = (case ?find of Some (old, _) \<Rightarrow> c_created_at old | None \<Rightarrow> c_created_at c')"
    by (simp add: creation_of_def find_filter case_prod_unfold)
  then show ?thesis
    using assms by (cases ?find) (auto simp: store_cookie_def Let_def commit_cookies)
qed

lemma prepared_matches_origin:
  assumes "prepare_cookie_for_storage psl ou s nav http root access c = Some c'" "c_partition_key c = None"
    and "c_path c = None" "starts_with (u_path ou) ''/''"
  shows "matches_url c' ou"
proof -
  obtain c1 where p: "prepare_partition access c = Some c1" and s: "prepare_scope psl ou c1 = Some c'"
    and pol: "prepare_policy psl ou s nav http root c'"
    using prepare_cookie_split [OF assms(1)] by blast
  have "c_path c1 = None" using prepare_partition_facts(3) [OF p assms(2)] assms(3) by simp
  then have "c_path c' = Some (default_path (u_path ou))"
    using prepare_scope_facts(4) [OF s] by auto
  moreover from prepare_scope_facts(3) [OF s] obtain d where "c_domain c' = Some d"
    "if c_host_only c' then d = to_ascii_lowercase (u_host ou) else domain_matches (u_host ou) d" by metis
  moreover have "c_secure c' \<longrightarrow> secure_cookie_transport ou" using pol by (auto simp: prepare_policy_def)
  ultimately show ?thesis
    using default_path_matches [OF assms(4)] by (auto simp: matches_url_def)
qed

section \<open>Expiry\<close>

lemma is_expired_iff: "\<not> (\<exists>a. c_max_age c = Some a \<and> a \<le> 0) \<Longrightarrow>
    is_expired c now \<longleftrightarrow> (\<exists>e. expiration_time c = Some e \<and> e \<le> now)"
  by (auto simp: is_expired_def split: option.splits)

lemma live_expires_later:
  "\<not> is_expired c now \<Longrightarrow> is_expired c later \<longleftrightarrow> (\<exists>e. expiration_time c = Some e \<and> now < e \<and> e \<le> later)"
  by (auto simp: is_expired_def split: option.splits)

lemma foldl_min_is_Min: "foldl min d ds = Min (set (d # ds))" for d :: int
  by (simp only: foldl_conv_fold Min.set_eq_fold min.commute)

lemma next_expiry_delay_None:
  "next_expiry_delay_at now jar = None \<longleftrightarrow> (\<forall>(c, _)\<in>set (j_cookies jar). expiration_time c = None)"
proof -
  have "next_expiry_delay_at now jar = None \<longleftrightarrow> List.map_filter (\<lambda>(c, _). expiration_time c) (j_cookies jar) = []"
    by (cases "List.map_filter (\<lambda>(c, _). expiration_time c) (j_cookies jar)") (simp_all add: next_expiry_delay_at_def)
  then show ?thesis by (auto simp: List.map_filter_def filter_empty_conv)
qed

lemma next_expiry_delay_Some:
  assumes "next_expiry_delay_at now jar = Some d"
  shows "\<exists>(c, _)\<in>set (j_cookies jar). \<exists>e. expiration_time c = Some e \<and> d = max 0 (e - now)"
    and "\<forall>(c, _)\<in>set (j_cookies jar). \<forall>e. expiration_time c = Some e \<longrightarrow> d \<le> max 0 (e - now)"
proof -
  let ?ds = "map (\<lambda>e. max 0 (e - now)) (List.map_filter (\<lambda>(c, _). expiration_time c) (j_cookies jar))"
  from assms have ne: "?ds \<noteq> []" and d: "d = Min (set ?ds)"
    by (auto simp: next_expiry_delay_at_def foldl_min_is_Min split: list.splits)
  have mem: "x \<in> set ?ds \<longleftrightarrow> (\<exists>(c, _)\<in>set (j_cookies jar). \<exists>e. expiration_time c = Some e \<and> x = max 0 (e - now))" for x
    by (force simp: List.map_filter_def case_prod_unfold image_iff)
  have "d \<in> set ?ds" unfolding d using ne by (intro Min_in) auto
  then show "\<exists>(c, _)\<in>set (j_cookies jar). \<exists>e. expiration_time c = Some e \<and> d = max 0 (e - now)"
    unfolding mem .
  have "\<forall>x\<in>set ?ds. d \<le> x" unfolding d by simp
  then show "\<forall>(c, _)\<in>set (j_cookies jar). \<forall>e. expiration_time c = Some e \<longrightarrow> d \<le> max 0 (e - now)"
    using mem by blast
qed

lemma evict_count:
  "snd (evict_expired_at now jar) + length (j_cookies (fst (evict_expired_at now jar))) = length (j_cookies jar)"
  using sum_length_filter_compl [of "\<lambda>(c, _). is_expired c now" "j_cookies jar"]
  unfolding evict_cookies by (simp add: evict_expired_at_def Let_def case_prod_unfold)

lemma evict_count_0: "snd (evict_expired_at t j) = 0 \<longleftrightarrow> (\<forall>(c, _)\<in>set (j_cookies j). \<not> is_expired c t)"
  by (auto simp: evict_expired_at_def Let_def filter_empty_conv)

text \<open>The timer on a jar without expired cookies.\<close>

lemma timer_on_live_jar:
  assumes live: "\<forall>(c, _)\<in>set (j_cookies jar). \<not> is_expired c now"
  shows "case next_expiry_delay_at now jar of
         None \<Rightarrow> \<forall>later. snd (evict_expired_at later jar) = 0
       | Some d \<Rightarrow> 0 < d \<and> 0 < snd (evict_expired_at (now + d) jar)
           \<and> (\<forall>later < now + d. snd (evict_expired_at later jar) = 0)"
proof (cases "next_expiry_delay_at now jar")
  case None
  then have "\<not> is_expired c later" if "(c, x) \<in> set (j_cookies jar)" for c x later
    using that live live_expires_later [of c now later] unfolding next_expiry_delay_None by fastforce
  then show ?thesis using None by (auto simp: evict_count_0)
next
  case (Some d)
  note D = next_expiry_delay_Some [OF Some]
  from D(1) obtain c x e where c: "(c, x) \<in> set (j_cookies jar)" "expiration_time c = Some e" "d = max 0 (e - now)"
    by blast
  have "now < e" using c live by (force simp: is_expired_def)
  then have d: "d = e - now" "0 < d" using c(3) by auto
  have "is_expired c (now + d)" using c(2) d by (simp add: is_expired_def)
  then have "0 < snd (evict_expired_at (now + d) jar)" using c(1) evict_count_0 [of "now + d" jar] by fastforce
  moreover have "\<not> is_expired c' later" if "(c', y) \<in> set (j_cookies jar)" "later < now + d" for c' y later
  proof
    assume "is_expired c' later"
    moreover have "\<not> is_expired c' now" using that(1) live by auto
    ultimately obtain e' where e': "expiration_time c' = Some e'" "now < e'" "e' \<le> later"
      using live_expires_later by blast
    with D(2) that(1) have "d \<le> max 0 (e' - now)" by blast
    with e' that(2) show False by simp
  qed
  ultimately show ?thesis using Some d(2) by (auto simp: evict_count_0)
qed

section \<open>The change log\<close>

text \<open>Recording one change appends it to the changes after a token, and the bound of the log drops
  none of them as long as fewer than 4096 are after the token.\<close>

lemma filter_tl_hd: "xs \<noteq> [] \<Longrightarrow> \<not> P (hd xs) \<Longrightarrow> filter P (tl xs) = filter P xs"
  by (cases xs) auto

lemma sorted_filter_hd:
  assumes "sorted_wrt (<) (map f xs)" "length (filter (\<lambda>x. f x > (q::nat)) xs) < length xs"
  shows "xs \<noteq> [] \<and> f (hd xs) \<le> q"
proof (cases xs)
  case (Cons x ys)
  show ?thesis
  proof (rule ccontr)
    assume "\<not> ?thesis"
    then have "f x > q" using Cons by simp
    moreover have "\<forall>y\<in>set ys. f x < f y" using assms(1) Cons by simp
    ultimately have "filter (\<lambda>x. f x > q) xs = xs" using Cons by (intro filter_True) auto
    then show False using assms(2) by simp
  qed
qed (use assms in simp)

lemma record_change_after_token:
  assumes "log_wf jar" "j_change_sequence jar < u64_max" "q \<le> j_change_sequence jar"
    and "length (filter (\<lambda>ch. rc_sequence ch > q) (j_changes jar)) < 4096"
  shows "filter (\<lambda>ch. rc_sequence ch > q) (j_changes (record_change c d i jar)) =
     filter (\<lambda>ch. rc_sequence ch > q) (j_changes jar)
     @ (if c_http_only c then [] else [\<lparr>rc_sequence = j_change_sequence jar + 1, rc_cookie = c,
          rc_deleted = d, rc_individual_event = i\<rparr>])"
proof (cases "c_http_only c \<or> length (j_changes jar) < 4096")
  case True
  then show ?thesis using assms(2,3) by (auto simp: record_change_def Let_def)
next
  case False
  then have len: "length (j_changes jar) = 4096" and nh: "\<not> c_http_only c"
    using assms(1) by (auto simp: log_wf_def)
  have "sorted_wrt (<) (map rc_sequence (j_changes jar))" using assms(1,2) by (simp add: log_wf_def)
  then have "j_changes jar \<noteq> []" "\<not> rc_sequence (hd (j_changes jar)) > q"
    using sorted_filter_hd [of rc_sequence "j_changes jar" q] assms(4) len by auto
  then show ?thesis
    using nh len assms(2,3)
    by (simp add: record_change_def Let_def filter_tl_hd [of "j_changes jar"])
qed

definition record_all :: "(Cookie \<times> bool \<times> bool) list \<Rightarrow> CookieJar \<Rightarrow> CookieJar" where
  "record_all xs jar = foldl (\<lambda>j (c, d, i). record_change c d i j) jar xs"

lemma record_all_after_token:
  assumes "log_wf jar" "length xs \<le> 4096" "j_change_sequence jar + length xs < u64_max"
  shows "log_wf (record_all xs jar)
    \<and> j_change_sequence jar \<le> j_change_sequence (record_all xs jar)
    \<and> j_change_sequence (record_all xs jar) \<le> j_change_sequence jar + length xs
    \<and> map (\<lambda>ch. (rc_cookie ch, rc_deleted ch, rc_individual_event ch))
        (filter (\<lambda>ch. rc_sequence ch > j_change_sequence jar) (j_changes (record_all xs jar))) =
      filter (\<lambda>(c, _). \<not> c_http_only c) xs"
  using assms(2,3)
proof (induction xs rule: rev_induct)
  case Nil
  then show ?case using assms(1) by (auto simp: record_all_def log_wf_def filter_empty_conv not_less)
next
  case (snoc x xs)
  obtain c d i where x: "x = (c, d, i)" by (metis prod_cases3)
  let ?j = "record_all xs jar"
  have IH: "log_wf ?j" "j_change_sequence jar \<le> j_change_sequence ?j"
    "j_change_sequence ?j \<le> j_change_sequence jar + length xs"
    "map (\<lambda>ch. (rc_cookie ch, rc_deleted ch, rc_individual_event ch))
        (filter (\<lambda>ch. rc_sequence ch > j_change_sequence jar) (j_changes ?j)) = filter (\<lambda>(c, _). \<not> c_http_only c) xs"
    using snoc by auto
  have "length (filter (\<lambda>ch. rc_sequence ch > j_change_sequence jar) (j_changes ?j)) \<le> length xs"
    using arg_cong [OF IH(4), of length] length_filter_le [of "\<lambda>(c, _). \<not> c_http_only c" xs] by simp
  then have "filter (\<lambda>ch. rc_sequence ch > j_change_sequence jar) (j_changes (record_change c d i ?j)) =
     filter (\<lambda>ch. rc_sequence ch > j_change_sequence jar) (j_changes ?j)
     @ (if c_http_only c then [] else [\<lparr>rc_sequence = j_change_sequence ?j + 1, rc_cookie = c,
          rc_deleted = d, rc_individual_event = i\<rparr>])"
    using snoc.prems IH by (intro record_change_after_token) auto
  moreover have "record_all (xs @ [x]) jar = record_change c d i ?j" by (simp add: record_all_def x)
  moreover have "j_change_sequence (record_change c d i ?j) \<le> j_change_sequence ?j + 1"
    by (simp add: record_change_def Let_def)
  ultimately show ?case
    using IH record_change_log [OF IH(1)] record_change_sequence [OF IH(1), of c d i] x by auto
qed

section \<open>Properties\<close>

text \<open>C1: in every jar that any sequence of its operations can reach (HTTP, script and Cookie Store
  writes, evictions, deletions, registrations and subscriptions), no two cookies share a key, every
  cookie satisfies the attribute rules (a public suffix only host-only, partitioned and
  \<open>SameSite=None\<close> cookies Secure, the \<open>__Secure-\<close> and \<open>__Host-\<close> prefixes honoured), the change log is bounded,
  ordered and free of HttpOnly cookies, and registration identities are unique.\<close>

theorem jar_reachable_wf: "jar_reach psl jar \<Longrightarrow> jar_wf psl jar"
  by (rule jar_reach_wf)

definition demo_psl :: psl_crate where
  "demo_psl = \<lparr>psl_suffix_str = (\<lambda>d. Some (rev (takeWhile (\<lambda>c. c \<noteq> CHR ''.'') (rev d)))), psl_domain_str = (\<lambda>d. Some d)\<rparr>"

definition demo_url :: "string \<Rightarrow> string \<Rightarrow> Url" where
  "demo_url scheme path = \<lparr>u_scheme = scheme, u_host = ''a.com'', u_port = 443, u_path = path, u_query = None\<rparr>"

lemmas demo_eval = demo_psl_def demo_url_def std_eval cookie_eval

definition demo_jar :: CookieJar where
  "demo_jar = add_from_header_for_url demo_psl (0, 0, 0) ''k=v; HttpOnly'' (demo_url ''https'' ''/x/y'')
     (add_from_header_for_url demo_psl (0, 0, 0) ''s=t; Max-Age=5'' (demo_url ''https'' ''/x/y'') jar_new)"

lemma demo_jar_reach: "jar_reach demo_psl demo_jar"
  unfolding demo_jar_def add_from_header_for_url_def
  by (rule jar_next [OF jar_next [OF jar_init step_header [unfolded add_from_header_for_request_with_access_def]]
        step_header [unfolded add_from_header_for_request_with_access_def]])

theorem jar_reachable_wf_witness: "jar_wf demo_psl demo_jar"
  by (rule jar_reachable_wf [OF demo_jar_reach])

text \<open>C2: no script can create, change or delete an HttpOnly cookie, neither through \<open>document.cookie\<close> nor
  through the Cookie Store API: after the write the HttpOnly cookies are those of before, in order,
  except for expired ones.\<close>

theorem script_cannot_touch_http_only:
  assumes "jar_wf psl jar"
  shows "kept now c_http_only jar (add_from_document_with_access psl (t1, t2, now) v ou s access jar)
    \<and> kept now c_http_only jar (snd (set_from_cookie_store_with_access psl t1 now opts ou s access jar))"
  unfolding add_from_document_with_access_def
  by (intro conjI add_with_context_kept cookie_store_kept script_store_kept assms)

theorem script_cannot_touch_http_only_witness:
  "kept 0 c_http_only demo_jar
     (add_from_document_with_access demo_psl (0, 0, 0) ''k=evil'' (demo_url ''https'' ''/x/y'')
        (demo_url ''https'' ''/x/y'') (first_party demo_psl (demo_url ''https'' ''/x/y'')) demo_jar)"
  using script_cannot_touch_http_only [OF jar_reach_wf [OF demo_jar_reach]] by blast

text \<open>A response or script of an origin without a secure transport can neither create, change nor delete
  a Secure cookie.\<close>

theorem insecure_origin_cannot_touch_secure:
  assumes "jar_wf psl jar" "\<not> secure_cookie_transport ou"
  shows "kept now c_secure jar (add_with_context psl (t1, t2, now) v ou s nav http access jar)
    \<and> kept now c_secure jar (snd (set_from_cookie_store_with_access psl t1 now opts ou s access jar))"
  by (intro conjI add_with_context_kept cookie_store_kept insecure_store_kept assms)

theorem insecure_origin_cannot_touch_secure_witness:
  "kept 0 c_secure demo_jar
     (add_with_context demo_psl (0, 0, 0) ''k=evil'' (demo_url ''http'' ''/x/y'')
        (demo_url ''http'' ''/x/y'') True True (first_party demo_psl (demo_url ''http'' ''/x/y'')) demo_jar)"
proof -
  have "\<not> secure_cookie_transport (demo_url ''http'' ''/x/y'')" by (simp add: demo_eval)
  from insecure_origin_cannot_touch_secure [OF jar_reach_wf [OF demo_jar_reach] this] show ?thesis by blast
qed

text \<open>C17: partitions are isolated in both directions: a write under an access context leaves every cookie outside the
  context alone, and a read under it depends only on the cookies inside the context.\<close>

theorem partitions_isolated:
  assumes "jar_wf psl jar"
    and "filter (\<lambda>(c, _). permits access c) (j_cookies jar) = filter (\<lambda>(c, _). permits access c) (j_cookies jar')"
  shows "kept now (\<lambda>c. \<not> permits access c) jar (add_with_context psl (t1, t2, now) v ou s nav http access jar)
    \<and> kept now (\<lambda>c. \<not> permits access c) jar (snd (set_from_cookie_store_with_access psl t1 now opts ou s access jar))
    \<and> matching_cookies psl now ou s nav m nh access jar = matching_cookies psl now ou s nav m nh access jar'"
  by (intro conjI add_with_context_kept cookie_store_kept partition_store_kept assms(1))
    (auto dest: cookie_parse_key cookie_store_cookie_key selects_permits intro: matching_cookies_restrict [OF assms(2)])

theorem partitions_isolated_witness:
  "matching_cookies demo_psl 0 (demo_url ''https'' ''/'') (demo_url ''https'' ''/'') False Get False
     \<lparr>ca_top_level_site = None, ca_unpartitioned = False\<rparr> demo_jar =
   matching_cookies demo_psl 0 (demo_url ''https'' ''/'') (demo_url ''https'' ''/'') False Get False
     \<lparr>ca_top_level_site = None, ca_unpartitioned = False\<rparr> jar_new"
proof -
  have "filter (\<lambda>(c, _). permits \<lparr>ca_top_level_site = None, ca_unpartitioned = False\<rparr> c) (j_cookies demo_jar)
      = filter (\<lambda>(c, _). permits \<lparr>ca_top_level_site = None, ca_unpartitioned = False\<rparr> c) (j_cookies jar_new)"
    by (auto simp: permits_def jar_new_def filter_empty_conv split: if_splits)
  from partitions_isolated [OF jar_reach_wf [OF demo_jar_reach] this] show ?thesis by blast
qed

text \<open>What a script reads does not depend on the HttpOnly cookies: two jars that agree on the other cookies give
  the same \<open>document.cookie\<close> and the same Cookie Store pairs.\<close>

theorem script_reads_ignore_http_only:
  assumes "filter (\<lambda>(c, _). \<not> c_http_only c) (j_cookies jar) = filter (\<lambda>(c, _). \<not> c_http_only c) (j_cookies jar')"
  shows "document_cookie_with_access psl now url s access jar = document_cookie_with_access psl now url s access jar'
    \<and> script_visible_cookie_pairs_with_access psl now url s access jar =
      script_visible_cookie_pairs_with_access psl now url s access jar'"
proof -
  have "matching_cookies psl now url s False Get True access jar = matching_cookies psl now url s False Get True access jar'"
    by (rule matching_cookies_restrict [OF assms]) (rule selects_script)
  then show ?thesis
    by (simp only: document_cookie_with_access_def cookie_string_def script_visible_cookie_pairs_with_access_def)
qed

definition secret :: Cookie where
  "secret = \<lparr>c_name = ''id'', c_value = ''7'', c_domain = Some ''a.com'', c_host_only = True, c_path = Some ''/'',
     c_created_at = 0, c_received_at = 0, c_expires = None, c_max_age = None, c_secure = True, c_http_only = True,
     c_same_site = Lax, c_partitioned = False, c_partition_key = None\<rparr>"

theorem script_reads_ignore_http_only_witness:
  "document_cookie_with_access demo_psl 0 (demo_url ''https'' ''/'') (demo_url ''https'' ''/'')
     (first_party demo_psl (demo_url ''https'' ''/'')) (jar_new\<lparr>j_cookies := [(secret, ''a.com'')]\<rparr>) = []"
proof -
  have "filter (\<lambda>(c, _). \<not> c_http_only c) (j_cookies (jar_new\<lparr>j_cookies := [(secret, ''a.com'')]\<rparr>))
      = filter (\<lambda>(c, _). \<not> c_http_only c) (j_cookies jar_new)"
    by (simp add: jar_new_def secret_def)
  then have "document_cookie_with_access psl now url s access (jar_new\<lparr>j_cookies := [(secret, ''a.com'')]\<rparr>)
      = document_cookie_with_access psl now url s access jar_new" for psl now url s access
    using script_reads_ignore_http_only by blast
  then show ?thesis
    by (simp add: document_cookie_with_access_def cookie_string_def matching_cookies_def [of _ _ _ _ _ _ _ _ jar_new]) (simp add: jar_new_def)
qed

text \<open>C18: a cross-site request that is no safe top-level navigation carries only \<open>SameSite=None\<close> cookies, and none at all over
  an insecure transport.\<close>

theorem cross_site_requests:
  assumes "jar_wf psl jar" "\<not> same_site psl url s" "\<not> (nav \<and> m \<in> {Get, Head, Options})"
  shows "(\<forall>c\<in>set (matching_cookies psl now url s nav m nh access jar). c_same_site c = SameSite_None)
    \<and> (\<not> secure_cookie_transport url \<longrightarrow>
         cookie_header_for_request_with_access psl now url s nav m access jar = None)"
proof -
  have n: "\<forall>c\<in>set (matching_cookies psl now url s nav m nh access jar). c_same_site c = SameSite_None" for nh
    using selects_cross_site [OF _ assms(2,3)] by (auto simp: matching_cookies_in)
  have "secure_cookie_transport url" if c: "c \<in> set (matching_cookies psl now url s nav m False access jar)" for c
  proof -
    have "cookie_wf psl c" using c assms(1) by (auto simp: matching_cookies_in jar_wf_def cookies_wf_def)
    then have "c_secure c" using n c unfolding cookie_wf_def by blast
    then show ?thesis using c selects_secure unfolding matching_cookies_in by blast
  qed
  then have "\<not> secure_cookie_transport url \<Longrightarrow> matching_cookies psl now url s nav m False access jar = []"
    by (metis list.set_intros(1) neq_Nil_conv)
  then show ?thesis using n
    by (simp add: cookie_header_for_request_with_access_def cookie_string_def)
qed

theorem cross_site_requests_witness:
  "cookie_header_for_request_with_access demo_psl 0 (demo_url ''http'' ''/x/y'') (demo_url ''https'' ''/'') False Post
     (first_party demo_psl (demo_url ''https'' ''/'')) demo_jar = None"
proof -
  have "\<not> same_site demo_psl (demo_url ''http'' ''/x/y'') (demo_url ''https'' ''/'')"
    "\<not> secure_cookie_transport (demo_url ''http'' ''/x/y'')" by (simp_all add: demo_eval)
  with cross_site_requests [OF jar_reach_wf [OF demo_jar_reach], where nav = False and m = Post] show ?thesis by blast
qed

text \<open>The cookies of a request come longest path first, then oldest first, and each selected cookie of the jar appears
  exactly as often as the jar has it.\<close>

theorem matching_cookies_ordered:
  "sorted_wrt (\<lambda>a b. path_len b < path_len a \<or> path_len a = path_len b \<and> c_created_at a \<le> c_created_at b)
      (matching_cookies psl now url s nav m nh access jar)
    \<and> mset (matching_cookies psl now url s nav m nh access jar) =
       filter_mset (selects psl now url s nav m nh access) (image_mset fst (mset (j_cookies jar)))"
proof -
  have "sorted (map cookie_order (matching_cookies psl now url s nav m nh access jar))"
    by (simp add: matching_cookies_def)
  then have "sorted_wrt (\<lambda>a b. cookie_order a \<le> cookie_order b) (matching_cookies psl now url s nav m nh access jar)"
    by (simp add: sorted_wrt_map)
  moreover have "cookie_order a \<le> cookie_order b \<longleftrightarrow>
      path_len b < path_len a \<or> path_len a = path_len b \<and> c_created_at a \<le> c_created_at b" for a b
    by (auto simp: cookie_order_def)
  ultimately show ?thesis by (simp add: matching_cookies_def mset_filter)
qed

text \<open>a cookie that a response of a secure origin sets without a \<open>Path\<close> attribute, and that the storage policy accepts, is sent back with
  the next same-site request to that URL, with its value, and with the creation time of the cookie it replaced.\<close>

theorem set_cookie_then_sent:
  assumes "cookie_parse t1 t2 h = Some c" "c_path c = None" "starts_with (u_path ou) ''/''"
    and "secure_cookie_transport ou"
    and "prepare_cookie_for_storage psl ou ou True True (explicit_root_path h) (first_party psl ou) c = Some c'"
    and "\<not> is_expired c' now"
  shows "\<exists>sent\<in>set (matching_cookies psl now ou ou nav m False (first_party psl ou)
             (add_from_header_for_url psl (t1, t2, now) h ou jar)).
           c_name sent = c_name c \<and> c_value sent = c_value c \<and> c_created_at sent = creation_of jar now c'"
proof -
  let ?c = "c'\<lparr>c_created_at := creation_of jar now c'\<rparr>"
  note key = cookie_parse_key [OF assms(1)]
  note F = prepare_cookie_facts [OF assms(5) key]
  have "(?c, to_ascii_lowercase (u_host ou)) \<in> set (j_cookies (add_from_header_for_url psl (t1, t2, now) h ou jar))"
    using http_store_commits [OF assms(5,4,6)] assms(1)
    by (simp add: add_from_header_for_url_def add_with_context_def)
  moreover have "matches_url ?c ou"
    using prepared_matches_origin [OF assms(5) key assms(2,3)] by (simp add: matches_url_def split: option.splits)
  moreover have "permits (first_party psl ou) ?c" using F(3) by (simp add: permits_def)
  ultimately have "?c \<in> set (matching_cookies psl now ou ou nav m False (first_party psl ou)
             (add_from_header_for_url psl (t1, t2, now) h ou jar))"
    using assms(6) by (force simp: matching_cookies_in selects_def same_site_def Let_def)
  then show ?thesis using F(1) by (intro bexI [of _ ?c]) (auto simp: same_content_def)
qed

definition demo_cookie :: Cookie where
  "demo_cookie = \<lparr>c_name = ''k'', c_value = ''v'', c_domain = None, c_host_only = True, c_path = None,
     c_created_at = 9, c_received_at = 9, c_expires = None, c_max_age = None, c_secure = False, c_http_only = False,
     c_same_site = Lax, c_partitioned = False, c_partition_key = None\<rparr>"

theorem set_cookie_then_sent_witness:
  "\<exists>sent\<in>set (matching_cookies demo_psl 9 (demo_url ''https'' ''/x/y'') (demo_url ''https'' ''/x/y'') False Get False
      (first_party demo_psl (demo_url ''https'' ''/x/y''))
      (add_from_header_for_url demo_psl (9, 9, 9) ''k=v'' (demo_url ''https'' ''/x/y'') jar_new)).
     c_name sent = ''k'' \<and> c_value sent = ''v'' \<and> c_created_at sent = 9"
proof -
  let ?u = "demo_url ''https'' ''/x/y''"
  let ?c' = "demo_cookie\<lparr>c_domain := Some ''a.com'', c_path := Some ''/x''\<rparr>"
  have p: "cookie_parse 9 9 ''k=v'' = Some demo_cookie" by (simp add: demo_eval demo_cookie_def)
  have "prepare_cookie_for_storage demo_psl ?u ?u True True (explicit_root_path ''k=v'') (first_party demo_psl ?u) demo_cookie
      = Some ?c'" by (simp add: demo_eval demo_cookie_def)
  moreover have "\<not> is_expired ?c' 9" "c_path demo_cookie = None" "starts_with (u_path ?u) ''/''" "secure_cookie_transport ?u"
    by (simp_all add: demo_eval demo_cookie_def)
  moreover have "creation_of jar_new 9 ?c' = 9" by (simp add: creation_of_def jar_new_def demo_cookie_def)
  moreover have "c_name demo_cookie = ''k''" "c_value demo_cookie = ''v''" by (simp_all add: demo_cookie_def)
  ultimately show ?thesis
    using set_cookie_then_sent [OF p, where psl = demo_psl and ou = ?u and c' = ?c' and now = 9 and jar = jar_new
        and nav = False and m = Get] by auto
qed

text \<open>Eviction removes exactly the expired cookies and reports their number; afterwards the delay of the expiry timer is positive,
  nothing expires before it has passed, and something expires when it has.\<close>

theorem expiry_timer_exact:
  assumes "jar' = fst (evict_expired_at now jar)"
  shows "j_cookies jar' = filter (\<lambda>(c, _). \<not> is_expired c now) (j_cookies jar)
    \<and> snd (evict_expired_at now jar) + length (j_cookies jar') = length (j_cookies jar)
    \<and> (case next_expiry_delay_at now jar' of
         None \<Rightarrow> \<forall>later. snd (evict_expired_at later jar') = 0
       | Some d \<Rightarrow> 0 < d \<and> 0 < snd (evict_expired_at (now + d) jar')
           \<and> (\<forall>later < now + d. snd (evict_expired_at later jar') = 0))"
proof -
  have "\<forall>(c, _)\<in>set (j_cookies jar'). \<not> is_expired c now" by (auto simp: assms)
  note t = timer_on_live_jar [OF this]
  show ?thesis by (intro conjI t) (simp_all only: assms evict_count, simp only: evict_cookies)
qed

theorem expiry_timer_exact_witness:
  "next_expiry_delay_at 9 (jar_new\<lparr>j_cookies := [(demo_cookie\<lparr>c_expires := Some 12\<rparr>, ''a.com'')]\<rparr>) = Some 3
   \<and> 0 < snd (evict_expired_at 12 (jar_new\<lparr>j_cookies := [(demo_cookie\<lparr>c_expires := Some 12\<rparr>, ''a.com'')]\<rparr>))"
proof -
  let ?jar = "jar_new\<lparr>j_cookies := [(demo_cookie\<lparr>c_expires := Some 12\<rparr>, ''a.com'')]\<rparr>"
  have e: "fst (evict_expired_at 9 ?jar) = ?jar"
    by (simp add: evict_expired_at_def record_deletions_def demo_cookie_def jar_new_def cookie_eval)
  have n: "next_expiry_delay_at 9 ?jar = Some 3"
    by (simp add: next_expiry_delay_at_def demo_cookie_def jar_new_def cookie_eval List.map_filter_def)
  from conjunct2 [OF conjunct2 [OF expiry_timer_exact [OF e [symmetric], unfolded n]]] n show ?thesis by simp
qed

text \<open>A poll of the change log with the token of an earlier poll returns exactly the script-visible changes recorded since,
  in order, each once, as long as at most 4096 were recorded.\<close>

theorem change_log_poll_exact:
  assumes "log_wf jar" "length xs \<le> 4096" "j_change_sequence jar + length xs < u64_max"
  shows "snd (script_visible_changes_since_with_access psl (j_change_sequence jar) url s access (record_all xs jar)) =
    map (\<lambda>(c, d, i). \<lparr>sc_name = c_name c, sc_value = (if d then None else Some (c_value c)), sc_deleted = d, sc_individual_event = i\<rparr>)
      (filter (\<lambda>(c, _). permits access c \<and> \<not> c_http_only c \<and> matches_url c url
                 \<and> (same_site psl url s \<or> c_same_site c = SameSite_None)) xs)"
proof -
  let ?f = "\<lambda>ch. (rc_cookie ch, rc_deleted ch, rc_individual_event ch)"
  let ?g = "\<lambda>(c, d, i). \<lparr>sc_name = c_name c, sc_value = (if d then None else Some (c_value c)), sc_deleted = d, sc_individual_event = i\<rparr>"
  let ?P = "\<lambda>c. permits access c \<and> \<not> c_http_only c \<and> matches_url c url \<and> (same_site psl url s \<or> c_same_site c = SameSite_None)"
  let ?since = "filter (\<lambda>ch. rc_sequence ch > j_change_sequence jar) (j_changes (record_all xs jar))"
  have since: "map ?f ?since = filter (\<lambda>(c, _). \<not> c_http_only c) xs"
    using record_all_after_token [OF assms] by blast
  have "map store_change (filter (\<lambda>ch. ?P (rc_cookie ch)) chs) = map ?g (filter (\<lambda>(c, _). ?P c) (map ?f chs))" for chs
    by (induction chs) (auto simp: store_change_def)
  then have "map store_change (filter (\<lambda>ch. ?P (rc_cookie ch)) ?since) =
      map ?g (filter (\<lambda>(c, _). ?P c) (filter (\<lambda>(c, _). \<not> c_http_only c) xs))" using since by (simp only:)
  also have "filter (\<lambda>(c, _). ?P c) (filter (\<lambda>(c, _). \<not> c_http_only c) xs) = filter (\<lambda>(c, _). ?P c) xs"
    by (induction xs) auto
  finally show ?thesis by (simp only: script_visible_changes_since_with_access_def snd_conv)
qed

theorem change_log_poll_exact_witness:
  "snd (script_visible_changes_since_with_access demo_psl 0 (demo_url ''https'' ''/'') (demo_url ''https'' ''/'')
      (first_party demo_psl (demo_url ''https'' ''/'')) (record_all [(demo_cookie, False, True), (secret, False, False)] jar_new)) =
   [\<lparr>sc_name = ''k'', sc_value = Some ''v'', sc_deleted = False, sc_individual_event = True\<rparr>]"
proof -
  have "log_wf jar_new" "j_change_sequence jar_new = 0" by (simp_all add: log_wf_def jar_new_def)
  then show ?thesis
    using change_log_poll_exact [of jar_new "[(demo_cookie, False, True), (secret, False, False)]" demo_psl
        "demo_url ''https'' ''/''" "demo_url ''https'' ''/''" "first_party demo_psl (demo_url ''https'' ''/'')"]
    by (simp add: u64_max_def demo_cookie_def secret_def matches_url_def permits_def first_party_def same_site_def)
qed

end
