(* ===== verification/Referrer.thy ===== *)
theory Referrer
  imports HttpUrl
begin

text \<open>
  \<open>src/http/referrer.rs\<close>: referrer policies and the reduction of a source URL to the \<open>Referer\<close> of
  one destination.  Parsed URLs belong to the \<open>url\<close> crate, so they are values of the
  parameter \<open>'u\<close>.
\<close>

datatype ReferrerPolicy =
    NoReferrer | NoReferrerWhenDowngrade | SameOrigin | Origin | StrictOrigin
  | OriginWhenCrossOrigin | StrictOriginWhenCrossOrigin | UnsafeUrl

definition default_referrer_policy :: ReferrerPolicy where
  "default_referrer_policy = StrictOriginWhenCrossOrigin"

definition referrer_policy_parse :: "string \<Rightarrow> ReferrerPolicy option" where
  "referrer_policy_parse value =
     (let v = to_ascii_lowercase (trim value) in
      if v = ''no-referrer'' then Some NoReferrer
      else if v = ''no-referrer-when-downgrade'' then Some NoReferrerWhenDowngrade
      else if v = ''same-origin'' then Some SameOrigin
      else if v = ''origin'' then Some Origin
      else if v = ''strict-origin'' then Some StrictOrigin
      else if v = ''origin-when-cross-origin'' then Some OriginWhenCrossOrigin
      else if v = ''strict-origin-when-cross-origin'' then Some StrictOriginWhenCrossOrigin
      else if v = ''unsafe-url'' then Some UnsafeUrl
      else None)"

definition referrer_policy_parse_meta :: "string \<Rightarrow> ReferrerPolicy option" where
  "referrer_policy_parse_meta value =
     (if value \<noteq> trim value then None
      else
        (let v = to_ascii_lowercase value in
         if v = ''never'' then Some NoReferrer
         else if v = ''default'' then Some default_referrer_policy
         else if v = ''always'' then Some UnsafeUrl
         else if v = ''origin-when-crossorigin'' then Some OriginWhenCrossOrigin
         else referrer_policy_parse v))"

definition response_referrer_policy :: "(string \<times> string) list \<Rightarrow> ReferrerPolicy option" where
  "response_referrer_policy headers =
     (let policies = List.map_filter referrer_policy_parse
        (concat (map (\<lambda>(_, value). split_char CHR '','' value)
          (filter (\<lambda>(name, _). eq_ignore_ascii_case name ''referrer-policy'') headers)))
      in if policies = [] then None else Some (last policies))"

definition is_potentially_trustworthy :: "'u url_crate \<Rightarrow> 'u \<Rightarrow> bool" where
  "is_potentially_trustworthy uc url \<longleftrightarrow>
     (if uc_scheme uc url = ''https'' then True
      else if uc_scheme uc url \<noteq> ''http'' then False
      else case uc_host uc url of
        Some (HostDomain host) \<Rightarrow>
          host = ''localhost'' \<or> host = ''localhost.'' \<or> ends_with host ''.localhost'' \<or> ends_with host ''.localhost.''
      | Some (HostIpv4 address) \<Rightarrow> address ! 0 = 127
      | Some (HostIpv6 address) \<Rightarrow> is_loopback (V6 address)
      | None \<Rightarrow> False)"

definition same_crate_origin :: "'u url_crate \<Rightarrow> 'u \<Rightarrow> 'u \<Rightarrow> bool" where
  "same_crate_origin uc a b \<longleftrightarrow> uc_origin uc a \<noteq> None \<and> uc_origin uc a = uc_origin uc b"

definition ascii_serialization :: "'u url_crate \<Rightarrow> 'u \<Rightarrow> string" where
  "ascii_serialization uc u = (case uc_origin uc u of Some s \<Rightarrow> s | None \<Rightarrow> ''null'')"

definition strip_url :: "'u url_crate \<Rightarrow> 'u \<Rightarrow> 'u" where
  "strip_url uc u = uc_clear_password uc (uc_clear_username uc (uc_clear_fragment uc u))"

fun apply_policy :: "bool \<Rightarrow> bool \<Rightarrow> string \<Rightarrow> string \<Rightarrow> ReferrerPolicy \<Rightarrow> string" where
  "apply_policy same_origin downgrade origin full NoReferrer = []"
| "apply_policy same_origin downgrade origin full NoReferrerWhenDowngrade = (if downgrade then [] else full)"
| "apply_policy same_origin downgrade origin full SameOrigin = (if same_origin then full else [])"
| "apply_policy same_origin downgrade origin full Origin = origin"
| "apply_policy same_origin downgrade origin full StrictOrigin = (if downgrade then [] else origin)"
| "apply_policy same_origin downgrade origin full OriginWhenCrossOrigin = (if same_origin then full else origin)"
| "apply_policy same_origin downgrade origin full StrictOriginWhenCrossOrigin =
     (if same_origin then full else if downgrade then [] else origin)"
| "apply_policy same_origin downgrade origin full UnsafeUrl = full"

definition navigation_referrer_with_policy :: "'u url_crate \<Rightarrow> string \<Rightarrow> string \<Rightarrow> ReferrerPolicy \<Rightarrow> string" where
  "navigation_referrer_with_policy uc source0 destination0 policy =
     (case (uc_parse uc source0, uc_parse uc destination0) of
        (Inr source1, Inr destination) \<Rightarrow>
          if uc_scheme uc source1 \<notin> {''http'', ''https''} then []
          else
            (let source = strip_url uc source1 in
             if uc_scheme uc destination \<notin> {''http'', ''https''} then []
             else
               (let same_origin = same_crate_origin uc source destination;
                    downgrade = is_potentially_trustworthy uc source \<and> \<not> is_potentially_trustworthy uc destination;
                    origin = ascii_serialization uc source @ ''/'';
                    full = (if length (uc_as_str uc source) > 4096 then origin else uc_as_str uc source)
                in apply_policy same_origin downgrade origin full policy))
      | _ \<Rightarrow> [])"

lemmas referrer_eval = navigation_referrer_with_policy_def strip_url_def ascii_serialization_def
  same_crate_origin_def is_potentially_trustworthy_def response_referrer_policy_def
  referrer_policy_parse_def referrer_policy_parse_meta_def default_referrer_policy_def

section \<open>What a referrer can disclose\<close>

text \<open>Policies under which another origin learns at most the source's origin, and policies under which
  an insecure destination learns nothing from a trustworthy source.\<close>

definition hides_path :: "ReferrerPolicy \<Rightarrow> bool" where
  "hides_path p \<longleftrightarrow> p \<notin> {NoReferrerWhenDowngrade, UnsafeUrl}"

definition hides_on_downgrade :: "ReferrerPolicy \<Rightarrow> bool" where
  "hides_on_downgrade p \<longleftrightarrow> p \<notin> {Origin, OriginWhenCrossOrigin, UnsafeUrl}"

lemma apply_policy_values:
  "apply_policy so dg origin full p \<in> {[], origin, full}
   \<and> (hides_path p \<and> \<not> so \<longrightarrow> apply_policy so dg origin full p \<in> {[], origin})
   \<and> (hides_on_downgrade p \<and> \<not> so \<and> dg \<longrightarrow> apply_policy so dg origin full p = [])"
  by (cases p) (auto simp: hides_path_def hides_on_downgrade_def)

text \<open>Tokens of the wire: every policy has a name that parses back to it, also when it is spelled in
  upper case inside blanks.\<close>

fun policy_name :: "ReferrerPolicy \<Rightarrow> string" where
  "policy_name NoReferrer = ''no-referrer''"
| "policy_name NoReferrerWhenDowngrade = ''no-referrer-when-downgrade''"
| "policy_name SameOrigin = ''same-origin''"
| "policy_name Origin = ''origin''"
| "policy_name StrictOrigin = ''strict-origin''"
| "policy_name OriginWhenCrossOrigin = ''origin-when-cross-origin''"
| "policy_name StrictOriginWhenCrossOrigin = ''strict-origin-when-cross-origin''"
| "policy_name UnsafeUrl = ''unsafe-url''"

lemma policy_name_parses: "referrer_policy_parse (policy_name p) = Some p"
  by (cases p) (simp_all add: referrer_policy_parse_def std_eval)

section \<open>Properties\<close>

text \<open>C19: a computed \<open>Referer\<close> is empty, the source's origin with a slash, or the source URL without
  fragment, user name and password (and at most 4096 bytes of it); towards another origin every policy but
  \<open>no-referrer-when-downgrade\<close> and \<open>unsafe-url\<close> reveals at most the origin, and every policy but
  \<open>origin\<close>, \<open>origin-when-cross-origin\<close> and \<open>unsafe-url\<close> reveals nothing to an untrustworthy destination of another
  origin when the source is trustworthy.\<close>

theorem referrer_disclosure:
  assumes "uc_parse uc s = Inr src" "uc_parse uc d = Inr dst"
    and "r = navigation_referrer_with_policy uc s d p"
  shows "r \<in> {[], ascii_serialization uc (strip_url uc src) @ ''/'', uc_as_str uc (strip_url uc src)}
    \<and> (r = uc_as_str uc (strip_url uc src) \<longrightarrow>
         length r \<le> 4096 \<or> r = ascii_serialization uc (strip_url uc src) @ ''/'')
    \<and> (\<not> same_crate_origin uc (strip_url uc src) dst \<and> hides_path p \<longrightarrow>
         r \<in> {[], ascii_serialization uc (strip_url uc src) @ ''/''})
    \<and> (\<not> same_crate_origin uc (strip_url uc src) dst \<and> hides_on_downgrade p
         \<and> is_potentially_trustworthy uc (strip_url uc src) \<and> \<not> is_potentially_trustworthy uc dst \<longrightarrow> r = [])"
proof (cases "uc_scheme uc src \<in> {''http'', ''https''} \<and> uc_scheme uc dst \<in> {''http'', ''https''}")
  case True
  let ?so = "same_crate_origin uc (strip_url uc src) dst"
  let ?dg = "is_potentially_trustworthy uc (strip_url uc src) \<and> \<not> is_potentially_trustworthy uc dst"
  let ?o = "ascii_serialization uc (strip_url uc src) @ ''/''"
  let ?f = "if length (uc_as_str uc (strip_url uc src)) > 4096 then ?o else uc_as_str uc (strip_url uc src)"
  have "r = apply_policy ?so ?dg ?o ?f p"
    using assms True unfolding navigation_referrer_with_policy_def Let_def by auto
  then show ?thesis
    using apply_policy_values [of ?so ?dg ?o ?f p] by (auto split: if_splits)
next
  case False
  then have "r = []" using assms unfolding navigation_referrer_with_policy_def Let_def by auto
  then show ?thesis by simp
qed

definition demo_crate :: "(string \<times> string) url_crate" where
  "demo_crate = \<lparr>uc_parse = (\<lambda>s. if prefix ''https://'' s then Inr (''https'', drop 8 s)
        else if prefix ''http://'' s then Inr (''http'', drop 7 s) else Inl CrateOther),
     uc_join = (\<lambda>u r. Inr (fst u, r)), uc_scheme = fst,
     uc_host = (\<lambda>u. Some (HostDomain (takeWhile (\<lambda>c. c \<noteq> CHR ''/'') (snd u)))),
     uc_port_or_known_default = (\<lambda>u. Some (if fst u = ''https'' then 443 else 80)),
     uc_path = (\<lambda>u. dropWhile (\<lambda>c. c \<noteq> CHR ''/'') (snd u)), uc_query = (\<lambda>u. None),
     uc_as_str = (\<lambda>u. fst u @ ''://'' @ snd u),
     uc_origin = (\<lambda>u. Some (fst u @ ''://'' @ takeWhile (\<lambda>c. c \<noteq> CHR ''/'') (snd u))),
     uc_clear_fragment = (\<lambda>u. u), uc_clear_username = (\<lambda>u. u), uc_clear_password = (\<lambda>u. u)\<rparr>"

lemmas demo_crate_eval = demo_crate_def std_eval referrer_eval

theorem referrer_disclosure_witness:
  "navigation_referrer_with_policy demo_crate ''https://a.com/p'' ''http://b.com/'' StrictOriginWhenCrossOrigin = []"
proof -
  have p: "uc_parse demo_crate ''https://a.com/p'' = Inr (''https'', ''a.com/p'')"
    "uc_parse demo_crate ''http://b.com/'' = Inr (''http'', ''b.com/'')"
    by (simp_all add: demo_crate_def)
  have "\<not> same_crate_origin demo_crate (strip_url demo_crate (''https'', ''a.com/p'')) (''http'', ''b.com/'')"
    "is_potentially_trustworthy demo_crate (strip_url demo_crate (''https'', ''a.com/p''))"
    "\<not> is_potentially_trustworthy demo_crate (''http'', ''b.com/'')"
    by (simp_all add: demo_crate_eval)
  with referrer_disclosure [OF p refl, of StrictOriginWhenCrossOrigin] show ?thesis
    by (simp add: hides_on_downgrade_def)
qed

end
