(* ===== verification/Language.thy ===== *)
theory Language
  imports RustStd
begin

text \<open>\<open>src/language.rs\<close>: the language preferences of the host, as exposed to pages and sent in the
  \<open>Accept-Language\<close> header of every request.  The locales reported by the operating system are
  an argument.\<close>

definition normalize_part :: "string \<Rightarrow> string" where
  "normalize_part part =
     (if length part = 2 \<and> list_all is_ascii_alphabetic part then to_ascii_uppercase part
      else if length part = 4 \<and> list_all is_ascii_alphabetic part
      then to_upper (hd part) # to_ascii_lowercase (tl part)
      else to_ascii_lowercase part)"

definition normalize_locale :: "string \<Rightarrow> string option" where
  "normalize_locale raw0 =
     (let raw = trim raw0 in
      if raw = [] \<or> eq_ignore_ascii_case raw ''c'' \<or> eq_ignore_ascii_case raw ''posix'' then None
      else
        (let without_suffix = hd (split_on (\<lambda>c. c = CHR ''.'' \<or> c = CHR ''@'') raw);
             parts = filter (\<lambda>p. p \<noteq> []) (split_on (\<lambda>c. c = CHR ''-'' \<or> c = CHR ''_'') without_suffix)
         in case parts of
              [] \<Rightarrow> None
            | language # rest \<Rightarrow>
                if \<not> list_all is_ascii_alphabetic language then None
                else if \<not> list_all (list_all is_ascii_alphanumeric) rest then None
                else Some (join ''-'' (to_ascii_lowercase language # map normalize_part rest))))"

definition push_new :: "string list \<Rightarrow> string \<Rightarrow> string list" where
  "push_new languages locale = (if locale \<in> set languages then languages else languages @ [locale])"

definition from_locales :: "string list \<Rightarrow> string list" where
  "from_locales locales =
     (let languages = foldl push_new [] (List.map_filter normalize_locale locales);
          languages1 = (if languages = [] then [''en-US''] else languages);
          language = hd (split_char CHR ''-'' (hd languages1))
      in if language \<in> set languages1 then languages1 else languages1 @ [language])"

definition quality :: "nat \<Rightarrow> nat" where
  "quality index = max (10 - index) 1"

definition accept_language :: "string list \<Rightarrow> string" where
  "accept_language languages =
     join '','' (map (\<lambda>(index, language).
        if index = 0 then language else language @ '';q=0.'' @ show_nat (quality index))
      (enumerate 0 languages))"

text \<open>The preferences are never empty and have no duplicates, and a quality is a single digit.\<close>

lemma push_new_distinct: "distinct xs \<Longrightarrow> distinct (push_new xs x)"
  by (simp add: push_new_def)

lemma foldl_push_new_distinct: "distinct xs \<Longrightarrow> distinct (foldl push_new xs ys)"
  by (induction ys arbitrary: xs) (simp_all add: push_new_distinct)

lemma from_locales_distinct: "from_locales ls \<noteq> [] \<and> distinct (from_locales ls)"
  using foldl_push_new_distinct [of "[]"] by (auto simp: from_locales_def Let_def)

end
