(* ===== verification/WireText.thy ===== *)
theory WireText
  imports HttpUrl
begin

text \<open>
  Shared facts on the texts of the wire formats: decimal and hexadecimal numbers read back what
  was printed, visible ASCII text survives \<open>trim\<close>, splitting and UTF-8 validation.
\<close>

section \<open>Numbers\<close>

lemma parse_digits_append:
  "parse_digits radix mx acc (xs @ [c]) =
     (case parse_digits radix mx acc xs of
        None \<Rightarrow> None
      | Some n \<Rightarrow>
          (case to_digit radix c of
             None \<Rightarrow> None
           | Some d \<Rightarrow> if n * radix + d \<le> mx then Some (n * radix + d) else None))"
  by (induction xs arbitrary: acc) (auto split: option.splits)

lemma to_digit_decimal: "k < 10 \<Longrightarrow> to_digit 10 (char_of (48 + k)) = Some k"
  by (simp add: to_digit_def is_ascii_digit_def)

lemma parse_digits_show_nat: "n \<le> mx \<Longrightarrow> parse_digits 10 mx 0 (show_nat n) = Some n"
proof (induction n rule: less_induct)
  case (less n)
  show ?case
  proof (cases "n < 10")
    case True
    then show ?thesis using less.prems by (simp add: show_nat.simps [of n] to_digit_decimal)
  next
    case False
    then have "n div 10 < n" "n div 10 \<le> mx" using less.prems by auto
    then have "parse_digits 10 mx 0 (show_nat (n div 10)) = Some (n div 10)" by (rule less.IH)
    moreover have "n div 10 * 10 + n mod 10 = n" by simp
    moreover have "to_digit 10 (char_of (48 + n mod 10)) = Some (n mod 10)" by (rule to_digit_decimal) simp
    ultimately show ?thesis
      using False less.prems unfolding show_nat.simps [of n] by (simp only: parse_digits_append if_False option.case if_True)
  qed
qed

definition hex_digit :: "nat \<Rightarrow> char" where
  "hex_digit k = char_of (if k < 10 then 48 + k else 87 + k)"

lemma show_hex_unfold: "show_hex n = (if n < 16 then [hex_digit n] else show_hex (n div 16) @ [hex_digit (n mod 16)])"
  by (subst show_hex.simps) (simp add: hex_digit_def Let_def)

lemma to_digit_hex: "k < 16 \<Longrightarrow> to_digit 16 (hex_digit k) = Some k"
  by (auto simp: to_digit_def is_ascii_digit_def hex_digit_def)

lemma hex_digit_is_hex: "k < 16 \<Longrightarrow> is_ascii_hexdigit (hex_digit k)"
  by (auto simp: is_ascii_hexdigit_def is_ascii_digit_def hex_digit_def)

lemma parse_digits_show_hex: "n \<le> mx \<Longrightarrow> parse_digits 16 mx 0 (show_hex n) = Some n"
proof (induction n rule: less_induct)
  case (less n)
  show ?case
  proof (cases "n < 16")
    case True
    then show ?thesis using less.prems by (simp add: show_hex_unfold [of n] to_digit_hex)
  next
    case False
    then have "n div 16 < n" "n div 16 \<le> mx" using less.prems by auto
    then have "parse_digits 16 mx 0 (show_hex (n div 16)) = Some (n div 16)" by (rule less.IH)
    moreover have "n div 16 * 16 + n mod 16 = n" by simp
    moreover have "to_digit 16 (hex_digit (n mod 16)) = Some (n mod 16)" by (rule to_digit_hex) simp
    ultimately show ?thesis
      using False less.prems unfolding show_hex_unfold [of n] by (simp only: parse_digits_append if_False option.case if_True)
  qed
qed

lemma show_hex_chars: "c \<in> set (show_hex n) \<Longrightarrow> is_ascii_hexdigit c"
proof (induction n arbitrary: c rule: less_induct)
  case (less n)
  show ?case
  proof (cases "n < 16")
    case True
    then show ?thesis using less.prems hex_digit_is_hex by (simp add: show_hex_unfold [of n])
  next
    case False
    then have "c \<in> set (show_hex (n div 16)) \<or> c = hex_digit (n mod 16)"
      using less.prems by (auto simp: show_hex_unfold [of n])
    then show ?thesis using less.IH [of "n div 16" c] False hex_digit_is_hex [of "n mod 16"] by auto
  qed
qed

lemma show_hex_ne [simp]: "show_hex n \<noteq> []"
  by (subst show_hex_unfold) simp

lemma show_nat_ne [simp]: "show_nat n \<noteq> []"
  by (subst show_nat.simps) simp

lemma show_nat_digits: "c \<in> set (show_nat n) \<Longrightarrow> is_ascii_digit c"
proof (induction n arbitrary: c rule: less_induct)
  case (less n)
  show ?case
  proof (cases "n < 10")
    case True
    then have "c = char_of (48 + n)" using less.prems by (simp add: show_nat.simps)
    then show ?thesis using True by (simp add: is_ascii_digit_def)
  next
    case False
    then have "c \<in> set (show_nat (n div 10)) \<or> c = char_of (48 + n mod 10)"
      using less.prems by (auto simp: show_nat.simps [of n])
    then show ?thesis
    proof
      assume "c \<in> set (show_nat (n div 10))"
      then show ?thesis using less.IH [of "n div 10" c] False by simp
    next
      assume c: "c = char_of (48 + n mod 10)"
      have "n mod 10 < 10" by simp
      then have "48 + n mod 10 < 256" by linarith
      then show ?thesis unfolding c is_ascii_digit_def by simp
    qed
  qed
qed

lemma parse_uint_no_plus: "s \<noteq> [] \<Longrightarrow> hd s \<noteq> CHR ''+'' \<Longrightarrow> parse_uint r mx s = parse_digits r mx 0 s"
  by (cases s) (auto simp: parse_uint_def)

lemma hex_not_plus: "is_ascii_hexdigit c \<Longrightarrow> c \<noteq> CHR ''+''"
  by (auto simp: is_ascii_hexdigit_def is_ascii_digit_def)

lemma digit_is_hex: "is_ascii_digit c \<Longrightarrow> is_ascii_hexdigit c"
  by (simp add: is_ascii_hexdigit_def)

lemma parse_show_hex: "n \<le> mx \<Longrightarrow> parse_uint 16 mx (show_hex n) = Some n"
  using hex_not_plus [OF show_hex_chars [of "hd (show_hex n)" n]]
  by (simp add: parse_uint_no_plus parse_digits_show_hex)

lemma parse_show_nat: "n \<le> mx \<Longrightarrow> parse_uint 10 mx (show_nat n) = Some n"
  using hex_not_plus [OF digit_is_hex [OF show_nat_digits [of "hd (show_nat n)" n]]]
  by (simp add: parse_uint_no_plus parse_digits_show_nat)

section \<open>Visible text\<close>

definition visible :: "char \<Rightarrow> bool" where
  "visible c \<longleftrightarrow> 32 < byte c \<and> byte c < 127"

lemma hex_visible: "is_ascii_hexdigit c \<Longrightarrow> visible c \<and> c \<noteq> CHR '';'' \<and> c \<noteq> CHR '','' \<and> c \<noteq> CHR '' ''"
  by (auto simp: is_ascii_hexdigit_def is_ascii_digit_def visible_def)

lemma trim_start_visible: "s \<noteq> [] \<Longrightarrow> visible (hd s) \<Longrightarrow> trim_start s = s"
  by (cases s) (auto simp: visible_def ws1_def ws2_def ws3_def split: list.split)

lemma trim_rev_visible: "s \<noteq> [] \<Longrightarrow> visible (hd s) \<Longrightarrow> trim_rev s = s"
  by (cases s) (auto simp: visible_def ws1_def ws2_def ws3_def split: list.split)

lemma trim_visible: "s \<noteq> [] \<Longrightarrow> visible (hd s) \<Longrightarrow> visible (last s) \<Longrightarrow> trim s = s"
  by (simp add: trim_def trim_end_def trim_start_visible trim_rev_visible hd_rev)

lemma split_on_none: "\<forall>c\<in>set s. \<not> P c \<Longrightarrow> split_on P s = [s]"
  by (induction s) auto

lemma split_char_none: "d \<notin> set s \<Longrightarrow> split_char d s = [s]"
  unfolding split_char_def by (rule split_on_none) auto

section \<open>ASCII bytes\<close>

definition ascii :: "string \<Rightarrow> bool" where
  "ascii s \<longleftrightarrow> (\<forall>c\<in>set s. byte c < 128)"

lemma utf8_ascii: "\<forall>b\<in>set bs. b < 128 \<Longrightarrow> utf8_valid bs"
  by (induction bs) auto

lemma unat_byte [simp]: "unat (word_of_nat (byte c) :: u8) = byte c"
  by (simp add: unat_of_nat)

lemma from_utf8_ascii: "ascii s \<Longrightarrow> from_utf8 (bytes_of_str s) = Some s"
proof -
  assume a: "ascii s"
  have "map unat (bytes_of_str s) = map byte s" by (simp add: bytes_of_str_def)
  then have "utf8_valid (map unat (bytes_of_str s))"
    using a by (auto simp: ascii_def intro!: utf8_ascii)
  moreover have "str_of_bytes (bytes_of_str s) = s"
    by (simp add: str_of_bytes_def bytes_of_str_def map_idI)
  ultimately show ?thesis by (simp add: from_utf8_def)
qed

lemma bytes_of_str_append [simp]: "bytes_of_str (a @ b) = bytes_of_str a @ bytes_of_str b"
  by (simp add: bytes_of_str_def)

lemma bytes_of_str_Cons: "bytes_of_str (c # s) = word_of_nat (byte c) # bytes_of_str s"
  by (simp add: bytes_of_str_def)

lemma byte_word_inj [simp]: "(word_of_nat (byte c) :: u8) = word_of_nat (byte d) \<longleftrightarrow> c = d"
  by (metis unat_byte of_char_eq_iff)

lemma bytes_of_str_in: "word_of_nat (byte c) \<in> set (bytes_of_str s) \<longleftrightarrow> c \<in> set s"
  by (auto simp: bytes_of_str_def)

lemma str_of_bytes_of_str [simp]: "str_of_bytes (bytes_of_str s) = s"
  by (simp add: str_of_bytes_def bytes_of_str_def map_idI)

end
