(* ===== verification/Request.thy ===== *)
theory Request
  imports CookieJar Referrer Language WireText
begin

text \<open>
  \<open>src/http/request.rs\<close>: HTTP requests, their headers and cookie context, serialization to the
  wire, header validation and the redirect filter.  What the process reads from its
  environment (operating system, crate version, locales) is the record \<open>host_env\<close>.
\<close>

section \<open>Data\<close>

record host_env =
  env_os :: string
  env_version :: string
  env_locales :: "string list"

definition compatibility_platform :: "string \<Rightarrow> string" where
  "compatibility_platform os =
     (if os = ''macos'' then ''Macintosh; Intel Mac OS X 10.15; rv:140.0''
      else if os = ''windows'' then ''Windows NT 10.0; Win64; x64; rv:140.0''
      else ''X11; Linux x86_64; rv:140.0'')"

definition default_user_agent :: "host_env \<Rightarrow> string" where
  "default_user_agent env =
     ''Mozilla/5.0 ('' @ compatibility_platform (env_os env) @ '') Gecko/20100101 Firefox/140.0 Omoikane/'' @ env_version env"

fun method_as_str :: "Method \<Rightarrow> string" where
  "method_as_str Get = ''GET''"
| "method_as_str Post = ''POST''"
| "method_as_str Head = ''HEAD''"
| "method_as_str Put = ''PUT''"
| "method_as_str Delete = ''DELETE''"
| "method_as_str Options = ''OPTIONS''"
| "method_as_str Patch = ''PATCH''"

type_synonym headers = "(string \<times> string) list"

record HttpRequest =
  r_method :: Method
  r_url :: Url
  r_headers :: headers
  r_body :: "u8 list option"
  r_require_public_ip :: bool
  r_site_for_cookies :: "Url option"
  r_cookie_top_level_site :: "SchemefulSite option"
  r_top_level_navigation :: bool
  r_referrer_source :: "(string \<times> ReferrerPolicy) option"
  r_storage_access_eligible :: bool
  r_cross_site_ancestry :: bool

record CookieRequestContext =
  x_site_for_cookies :: "Url option"
  x_granted_origin :: "Url option"
  x_top_level_site :: "SchemefulSite option"
  x_cross_site_ancestry :: bool

section \<open>Validation\<close>

definition is_tchar :: "char \<Rightarrow> bool" where
  "is_tchar c \<longleftrightarrow> is_ascii_alphanumeric c \<or>
     c \<in> {CHR ''!'', CHR ''#'', CHR ''$'', CHR ''%'', CHR ''&'', CHR 0x27, CHR ''*'', CHR ''+'', CHR ''-'',
          CHR ''.'', CHR ''^'', CHR ''_'', CHR 0x60, CHR ''|'', CHR ''~''}"

definition is_http_token :: "string \<Rightarrow> bool" where
  "is_http_token v \<longleftrightarrow> v \<noteq> [] \<and> list_all is_tchar v"

definition is_valid_header :: "string \<Rightarrow> string \<Rightarrow> bool" where
  "is_valid_header name value \<longleftrightarrow>
     is_http_token name \<and> list_all (\<lambda>c. c = CHR 0x09 \<or> byte c \<ge> 32 \<and> byte c \<noteq> 127) value"

definition is_forbidden_request_header :: "string \<Rightarrow> string \<Rightarrow> bool" where
  "is_forbidden_request_header name0 value \<longleftrightarrow>
     (let name = to_ascii_lowercase name0 in
      starts_with name ''proxy-'' \<or> starts_with name ''sec-''
      \<or> name \<in> set [''accept-charset'', ''accept-encoding'', ''access-control-request-headers'',
            ''access-control-request-method'', ''connection'', ''content-length'', ''cookie'', ''cookie2'',
            ''date'', ''dnt'', ''expect'', ''host'', ''keep-alive'', ''origin'', ''referer'', ''set-cookie'',
            ''te'', ''trailer'', ''transfer-encoding'', ''upgrade'', ''via'']
      \<or> name \<in> set [''x-http-method'', ''x-http-method-override'', ''x-method-override'']
        \<and> list_ex (\<lambda>m. to_ascii_uppercase (trim m) \<in> set [''CONNECT'', ''TRACE'', ''TRACK''])
            (split_char CHR '','' value))"

definition copy_header_on_redirect :: "string \<Rightarrow> bool \<Rightarrow> bool \<Rightarrow> bool" where
  "copy_header_on_redirect name preserve_body same_origin =
     (if list_ex (eq_ignore_ascii_case name) [''host'', ''cookie'', ''content-length'', ''origin''] then False
      else if eq_ignore_ascii_case name ''referer'' then same_origin
      else if \<not> same_origin \<and> list_ex (eq_ignore_ascii_case name) [''authorization'', ''proxy-authorization'']
      then False
      else preserve_body
        \<or> \<not> list_ex (eq_ignore_ascii_case name)
              [''content-encoding'', ''content-language'', ''content-location'', ''content-type''])"

section \<open>Headers\<close>

definition header :: "HttpRequest \<Rightarrow> string \<Rightarrow> string option" where
  "header req name =
     map_option snd (List.find (\<lambda>(header_name, _). eq_ignore_ascii_case header_name name) (r_headers req))"

definition try_add_header :: "string \<Rightarrow> string \<Rightarrow> HttpRequest \<Rightarrow> HttpRequest \<times> bool" where
  "try_add_header name value req =
     (if \<not> is_valid_header name value then (req, False)
      else (req\<lparr>r_headers := r_headers req @ [(name, value)]\<rparr>, True))"

definition add_header :: "string \<Rightarrow> string \<Rightarrow> HttpRequest \<Rightarrow> HttpRequest" where
  "add_header name value req = fst (try_add_header name value req)"

definition remove_header :: "string \<Rightarrow> HttpRequest \<Rightarrow> HttpRequest" where
  "remove_header name req =
     req\<lparr>r_headers := filter (\<lambda>(header_name, _). \<not> eq_ignore_ascii_case header_name name) (r_headers req)\<rparr>"

definition try_set_header :: "string \<Rightarrow> string \<Rightarrow> HttpRequest \<Rightarrow> HttpRequest \<times> bool" where
  "try_set_header name value req =
     (if \<not> is_valid_header name value then (req, False)
      else
        (let kept = filter (\<lambda>(header_name, _). \<not> eq_ignore_ascii_case header_name name) (r_headers req)
         in (req\<lparr>r_headers := kept @ [(name, value)]\<rparr>, True)))"

definition set_header :: "string \<Rightarrow> string \<Rightarrow> HttpRequest \<Rightarrow> HttpRequest" where
  "set_header name value req = fst (try_set_header name value req)"

definition set_body :: "u8 list \<Rightarrow> HttpRequest \<Rightarrow> HttpRequest" where
  "set_body body req =
     req\<lparr>r_headers := filter (\<lambda>(k, _). \<not> eq_ignore_ascii_case k ''content-length'') (r_headers req)
           @ [(''Content-Length'', show_nat (length body))],
         r_body := Some body\<rparr>"

definition set_referrer_source :: "'u url_crate \<Rightarrow> string \<Rightarrow> ReferrerPolicy \<Rightarrow> HttpRequest \<Rightarrow> HttpRequest" where
  "set_referrer_source uc source policy req =
     (let value = navigation_referrer_with_policy uc source (url_to_string (r_url req)) policy;
          req1 = remove_header ''Referer'' (req\<lparr>r_referrer_source := Some (source, policy)\<rparr>)
      in if value \<noteq> [] then set_header ''Referer'' value req1 else req1)"

section \<open>Construction\<close>

definition request_new :: "host_env \<Rightarrow> Method \<Rightarrow> Url \<Rightarrow> HttpRequest" where
  "request_new env method url =
     \<lparr>r_method = method, r_url = url,
      r_headers = [(''Host'', authority url), (''User-Agent'', default_user_agent env),
        (''Accept-Language'', accept_language (from_locales (env_locales env))), (''Accept-Encoding'', ''gzip'')],
      r_body = None, r_require_public_ip = False, r_site_for_cookies = None, r_cookie_top_level_site = None,
      r_top_level_navigation = True, r_referrer_source = None, r_storage_access_eligible = False,
      r_cross_site_ancestry = False\<rparr>"

definition request_get :: "host_env \<Rightarrow> 'u url_crate \<Rightarrow> string \<Rightarrow> UrlParseError + HttpRequest" where
  "request_get env uc url = rbind (url_from_str uc url) (\<lambda>u. Inr (request_new env Get u))"

definition request_post :: "host_env \<Rightarrow> 'u url_crate \<Rightarrow> string \<Rightarrow> u8 list \<Rightarrow> UrlParseError + HttpRequest" where
  "request_post env uc url body =
     rbind (url_from_str uc url) (\<lambda>u. Inr (set_body body (request_new env Post u)))"

definition require_public_ip :: "HttpRequest \<Rightarrow> HttpRequest" where
  "require_public_ip req = req\<lparr>r_require_public_ip := True\<rparr>"

definition set_cookie_context :: "psl_crate \<Rightarrow> Url \<Rightarrow> bool \<Rightarrow> HttpRequest \<Rightarrow> HttpRequest" where
  "set_cookie_context psl site_for_cookies top_level_navigation req =
     req\<lparr>r_cookie_top_level_site := Some (site_from_url psl site_for_cookies),
         r_site_for_cookies := Some site_for_cookies, r_top_level_navigation := top_level_navigation\<rparr>"

definition copy_cookie_partition_from :: "HttpRequest \<Rightarrow> HttpRequest \<Rightarrow> HttpRequest" where
  "copy_cookie_partition_from source req = req\<lparr>r_cookie_top_level_site := r_cookie_top_level_site source\<rparr>"

definition cookie_access_context :: "psl_crate \<Rightarrow> HttpRequest \<Rightarrow> bool \<Rightarrow> CookieAccessContext" where
  "cookie_access_context psl req unpartitioned =
     \<lparr>ca_top_level_site = (if r_top_level_navigation req then Some (site_from_url psl (r_url req))
         else r_cookie_top_level_site req),
      ca_unpartitioned = unpartitioned\<rparr>"

section \<open>The captured cookie context\<close>

definition context_new :: "psl_crate \<Rightarrow> Url option \<Rightarrow> Url option \<Rightarrow> bool \<Rightarrow> CookieRequestContext" where
  "context_new psl site_for_cookies granted_origin cross_site_ancestry =
     \<lparr>x_site_for_cookies = site_for_cookies, x_granted_origin = granted_origin,
      x_top_level_site = map_option (site_from_url psl) site_for_cookies,
      x_cross_site_ancestry = cross_site_ancestry\<rparr>"

definition with_top_level_site :: "SchemefulSite option \<Rightarrow> CookieRequestContext \<Rightarrow> CookieRequestContext" where
  "with_top_level_site site ctx = ctx\<lparr>x_top_level_site := site\<rparr>"

definition for_navigation :: "CookieRequestContext option \<Rightarrow> CookieRequestContext \<Rightarrow> CookieRequestContext" where
  "for_navigation source ctx =
     ctx\<lparr>x_granted_origin := (case source of Some src \<Rightarrow> x_granted_origin src | None \<Rightarrow> None)\<rparr>"

definition for_worker_internal :: "CookieRequestContext \<Rightarrow> CookieRequestContext" where
  "for_worker_internal ctx =
     ctx\<lparr>x_granted_origin := None,
         x_cross_site_ancestry := (x_cross_site_ancestry ctx \<or> x_site_for_cookies ctx = None)\<rparr>"

definition with_cross_site_ancestry :: "CookieRequestContext \<Rightarrow> CookieRequestContext" where
  "with_cross_site_ancestry ctx = ctx\<lparr>x_granted_origin := None, x_cross_site_ancestry := True\<rparr>"

definition apply_context :: "psl_crate \<Rightarrow> CookieRequestContext \<Rightarrow> HttpRequest \<Rightarrow> HttpRequest" where
  "apply_context psl ctx req =
     (let eligible = (case x_granted_origin ctx of
            Some origin \<Rightarrow> u_scheme origin = u_scheme (r_url req) \<and> u_host origin = u_host (r_url req)
                \<and> u_port origin = u_port (r_url req)
          | None \<Rightarrow> False);
          req1 = set_cookie_context psl
            (case x_site_for_cookies ctx of Some s \<Rightarrow> s | None \<Rightarrow> r_url req) False req
      in req1\<lparr>r_cookie_top_level_site := x_top_level_site ctx, r_storage_access_eligible := eligible,
              r_cross_site_ancestry := x_cross_site_ancestry ctx\<rparr>)"

definition apply_websocket :: "psl_crate \<Rightarrow> CookieRequestContext \<Rightarrow> HttpRequest \<Rightarrow> HttpRequest" where
  "apply_websocket psl ctx req =
     (let req1 = apply_context psl ctx req in
      if (case x_granted_origin ctx of
            Some origin \<Rightarrow> u_scheme origin = u_scheme (r_url req1) \<and> u_host origin = u_host (r_url req1)
          | None \<Rightarrow> False)
      then req1\<lparr>r_storage_access_eligible := True\<rparr> else req1)"

section \<open>Serialization\<close>

abbreviation crlf :: string where "crlf \<equiv> [CHR 0x0D, CHR 0x0A]"

definition header_line :: "string \<times> string \<Rightarrow> string" where
  "header_line h = fst h @ '': '' @ snd h @ crlf"

definition request_head :: "HttpRequest \<Rightarrow> string" where
  "request_head req =
     method_as_str (r_method req) @ '' '' @ request_target (r_url req) @ '' HTTP/1.1'' @ crlf
     @ concat (map header_line (r_headers req)) @ crlf"

definition serialize :: "HttpRequest \<Rightarrow> u8 list" where
  "serialize req = bytes_of_str (request_head req) @ (case r_body req of Some body \<Rightarrow> body | None \<Rightarrow> [])"

section \<open>The header map\<close>

text \<open>The contract of a header map as its clients use it: reading after setting and after removing,
  names compared without case; a refused header changes nothing.\<close>

locale header_map =
  fixes get :: "'r \<Rightarrow> string \<Rightarrow> string option"
    and put :: "string \<Rightarrow> string \<Rightarrow> 'r \<Rightarrow> 'r"
    and del :: "string \<Rightarrow> 'r \<Rightarrow> 'r"
    and valid :: "string \<Rightarrow> string \<Rightarrow> bool"
  assumes get_put: "valid n v \<Longrightarrow> get (put n v r) m = (if eq_ignore_ascii_case n m then Some v else get r m)"
    and put_refused: "\<not> valid n v \<Longrightarrow> put n v r = r"
    and get_del: "get (del n r) m = (if eq_ignore_ascii_case n m then None else get r m)"
begin

definition put_all :: "(string \<times> string) list \<Rightarrow> 'r \<Rightarrow> 'r" where
  "put_all hs r = fold (\<lambda>(n, v). put n v) hs r"

text \<open>The last valid setting of a name wins.\<close>

lemma get_put_all:
  "get (put_all hs r) m =
     (case List.find (\<lambda>(n, v). valid n v \<and> eq_ignore_ascii_case n m) (rev hs) of
        Some (_, v) \<Rightarrow> Some v | None \<Rightarrow> get r m)"
proof (induction hs rule: rev_induct)
  case (snoc h hs)
  obtain n v where h: "h = (n, v)" by force
  have "get (put_all (hs @ [h]) r) m = get (put n v (put_all hs r)) m" by (simp add: put_all_def h)
  also have "\<dots> = (if valid n v \<and> eq_ignore_ascii_case n m then Some v else get (put_all hs r) m)"
    using get_put put_refused by (cases "valid n v") auto
  finally show ?case using snoc.IH h by simp
qed (simp add: put_all_def)

lemma del_put: "valid n v \<Longrightarrow> eq_ignore_ascii_case n m \<Longrightarrow> get (del m (put n v r)) k = get (del m r) k"
  by (auto simp: get_del get_put eq_ignore_ascii_case_def)

end

lemma find_filter_other:
  "(\<And>x. P x \<Longrightarrow> Q x) \<Longrightarrow> List.find P (filter Q xs) = List.find P xs"
  by (induction xs) auto

lemma find_append: "List.find P (xs @ ys) = (case List.find P xs of Some x \<Rightarrow> Some x | None \<Rightarrow> List.find P ys)"
  by (induction xs) auto

lemma find_filter_none:
  "(\<And>x. P x \<Longrightarrow> \<not> Q x) \<Longrightarrow> List.find P (filter Q xs) = None"
  by (induction xs) auto

lemma header_remove:
  "header (remove_header n req) m = (if eq_ignore_ascii_case n m then None else header req m)"
proof (cases "eq_ignore_ascii_case n m")
  case True
  then have "List.find (\<lambda>(k, _). eq_ignore_ascii_case k m)
      (filter (\<lambda>(k, _). \<not> eq_ignore_ascii_case k n) (r_headers req)) = None"
    by (intro find_filter_none) (auto simp: eq_ignore_ascii_case_def)
  then show ?thesis using True by (simp add: header_def remove_header_def)
next
  case False
  then have "List.find (\<lambda>(k, _). eq_ignore_ascii_case k m)
      (filter (\<lambda>(k, _). \<not> eq_ignore_ascii_case k n) (r_headers req)) = List.find (\<lambda>(k, _). eq_ignore_ascii_case k m) (r_headers req)"
    by (intro find_filter_other) (auto simp: eq_ignore_ascii_case_def)
  then show ?thesis using False by (simp add: header_def remove_header_def)
qed

lemma header_set:
  assumes "is_valid_header n v"
  shows "header (set_header n v req) m = (if eq_ignore_ascii_case n m then Some v else header req m)"
proof -
  have "header (set_header n v req) m =
      (case header (remove_header n req) m of Some x \<Rightarrow> Some x | None \<Rightarrow> if eq_ignore_ascii_case n m then Some v else None)"
    using assms by (auto simp: header_def set_header_def try_set_header_def remove_header_def find_append split: option.splits)
  then show ?thesis by (simp add: header_remove split: option.splits)
qed

interpretation request_headers: header_map header set_header remove_header is_valid_header
  by unfold_locales (simp_all add: header_set header_remove, simp add: set_header_def try_set_header_def)

section \<open>Reading a request back\<close>

text \<open>The reference reader of a serialized request: a header ends at the first CR LF, its name at the first
  colon and blank; the head ends at an empty line.\<close>

definition read_header :: "string \<Rightarrow> ((string \<times> string) \<times> string) option" where
  "read_header s =
     (case split_once_str crlf s of
        None \<Rightarrow> None
      | Some (line, rest) \<Rightarrow>
          (case split_once_str '': '' line of None \<Rightarrow> None | Some h \<Rightarrow> Some (h, rest)))"

fun read_headers :: "nat \<Rightarrow> string \<Rightarrow> (headers \<times> string) option" where
  "read_headers 0 s = None"
| "read_headers (Suc fuel) s =
     (if prefix crlf s then Some ([], drop 2 s)
      else case read_header s of
        None \<Rightarrow> None
      | Some (h, rest) \<Rightarrow> map_option (apfst ((#) h)) (read_headers fuel rest))"

definition read_request :: "string \<Rightarrow> (string \<times> string \<times> headers \<times> string) option" where
  "read_request s =
     (case split_once CHR '' '' s of
        None \<Rightarrow> None
      | Some (m, s1) \<Rightarrow>
          (case split_once CHR '' '' s1 of
             None \<Rightarrow> None
           | Some (target, s2) \<Rightarrow>
               (case strip_prefix (''HTTP/1.1'' @ crlf) s2 of
                  None \<Rightarrow> None
                | Some s3 \<Rightarrow>
                    map_option (\<lambda>(hs, rest). (m, target, hs, rest)) (read_headers (length s3) s3))))"

lemma split_once_str_append:
  "p \<noteq> [] \<Longrightarrow> hd p \<notin> set a \<Longrightarrow> split_once_str p (a @ p @ b) = Some (a, b)"
proof (induction a)
  case Nil
  then show ?case by (simp add: split_once_str.simps [of p "p @ b"])
next
  case (Cons c a)
  then have "\<not> prefix p (c # a @ p @ b)" by (cases p) auto
  with Cons show ?case by (simp add: split_once_str.simps [of p "c # a @ p @ b"])
qed

lemma split_once_append: "d \<notin> set a \<Longrightarrow> split_once d (a @ d # b) = Some (a, b)"
  by (simp add: split_once_def)

definition valid_header :: "string \<times> string \<Rightarrow> bool" where
  "valid_header h \<longleftrightarrow> is_valid_header (fst h) (snd h)"

lemma tchar_visible: "is_tchar c \<Longrightarrow> c \<noteq> CHR 0x0D \<and> c \<noteq> CHR 0x0A \<and> c \<noteq> CHR '':''"
  by (auto simp: is_tchar_def std_eval)

lemma valid_header_chars:
  assumes "valid_header h"
  shows "CHR 0x0D \<notin> set (fst h)" "CHR 0x0A \<notin> set (fst h)" "CHR '':'' \<notin> set (fst h)" "fst h \<noteq> []"
    "CHR 0x0D \<notin> set (snd h)" "CHR 0x0A \<notin> set (snd h)"
proof -
  from assms have t: "\<forall>c\<in>set (fst h). is_tchar c" and n: "fst h \<noteq> []"
    and v: "\<forall>c\<in>set (snd h). c = CHR 0x09 \<or> byte c \<ge> 32 \<and> byte c \<noteq> 127"
    by (auto simp: valid_header_def is_valid_header_def is_http_token_def list_all_iff)
  show "CHR 0x0D \<notin> set (fst h)" "CHR 0x0A \<notin> set (fst h)" "CHR '':'' \<notin> set (fst h)" "fst h \<noteq> []"
    using t n tchar_visible by blast+
  show "CHR 0x0D \<notin> set (snd h)" "CHR 0x0A \<notin> set (snd h)" using v by fastforce+
qed

lemma read_header_line: "valid_header h \<Longrightarrow> read_header (header_line h @ rest) = Some (h, rest)"
  using split_once_str_append [of crlf "fst h @ '': '' @ snd h" rest]
    split_once_str_append [of "'': ''" "fst h" "snd h"] valid_header_chars [of h]
  by (simp add: read_header_def header_line_def)

interpretation header_codec: codec header_line read_header valid_header
  by unfold_locales (rule read_header_line)

lemma header_line_not_crlf: "valid_header h \<Longrightarrow> \<not> prefix crlf (header_line h @ s)"
  using valid_header_chars [of h] by (cases "fst h") (auto simp: header_line_def)

lemma read_headers_concat:
  "\<forall>h\<in>set hs. valid_header h \<Longrightarrow> length hs < fuel \<Longrightarrow>
     read_headers fuel (concat (map header_line hs) @ crlf @ rest) = Some (hs, rest)"
proof (induction hs arbitrary: fuel)
  case Nil
  then show ?case by (cases fuel) auto
next
  case (Cons h hs)
  then obtain f where f: "fuel = Suc f" "length hs < f" by (cases fuel) auto
  have "\<not> prefix crlf (header_line h @ concat (map header_line hs) @ crlf @ rest)"
    using Cons.prems by (intro header_line_not_crlf) simp
  moreover have "read_header (header_line h @ concat (map header_line hs) @ crlf @ rest)
      = Some (h, concat (map header_line hs) @ crlf @ rest)"
    using Cons.prems by (intro header_codec.dec_enc) simp
  ultimately show ?case using Cons.IH [of f] Cons.prems f by simp
qed

lemma length_concat_headers: "length hs \<le> length (concat (map header_line hs))"
  by (induction hs) (auto simp: header_line_def)

section \<open>Every request that can be built\<close>

text \<open>The requests a caller can build: a new request followed by any of the methods that change headers or body.\<close>

inductive built :: "host_env \<Rightarrow> 'u url_crate \<Rightarrow> HttpRequest \<Rightarrow> bool" for env uc where
  built_new: "built env uc (request_new env m u)"
| built_add: "built env uc req \<Longrightarrow> built env uc (add_header n v req)"
| built_set: "built env uc req \<Longrightarrow> built env uc (set_header n v req)"
| built_remove: "built env uc req \<Longrightarrow> built env uc (remove_header n req)"
| built_body: "built env uc req \<Longrightarrow> built env uc (set_body b req)"
| built_referrer: "built env uc req \<Longrightarrow> built env uc (set_referrer_source uc source p req)"
| built_context: "built env uc req \<Longrightarrow> built env uc (apply_context psl ctx req)"

definition headers_valid :: "HttpRequest \<Rightarrow> bool" where
  "headers_valid req \<longleftrightarrow> (\<forall>h\<in>set (r_headers req). valid_header h)"

text \<open>What the environment and the URL must supply for the four initial headers to be valid.\<close>

definition env_valid :: "host_env \<Rightarrow> Url \<Rightarrow> bool" where
  "env_valid env u \<longleftrightarrow>
     valid_header (''Host'', authority u) \<and> valid_header (''User-Agent'', default_user_agent env)
     \<and> valid_header (''Accept-Language'', accept_language (from_locales (env_locales env)))"

lemma content_length_valid: "valid_header (''Content-Length'', show_nat n)"
proof -
  have "is_ascii_digit c \<Longrightarrow> c = CHR 0x09 \<or> byte c \<ge> 32 \<and> byte c \<noteq> 127" for c
    by (auto simp: is_ascii_digit_def)
  then show ?thesis
    by (auto simp: valid_header_def is_valid_header_def is_http_token_def is_tchar_def list_all_iff std_eval
        dest!: show_nat_digits)
qed

lemma add_header_valid [keeps]: "headers_valid req \<Longrightarrow> headers_valid (add_header n v req)"
  by (auto simp: headers_valid_def add_header_def try_add_header_def valid_header_def)

lemma remove_header_valid [keeps]: "headers_valid req \<Longrightarrow> headers_valid (remove_header n req)"
  by (auto simp: headers_valid_def remove_header_def)

lemma set_header_valid [keeps]: "headers_valid req \<Longrightarrow> headers_valid (set_header n v req)"
  by (auto simp: headers_valid_def set_header_def try_set_header_def valid_header_def)

lemma set_body_valid [keeps]: "headers_valid req \<Longrightarrow> headers_valid (set_body b req)"
  using content_length_valid by (auto simp: headers_valid_def set_body_def)

lemma set_referrer_valid [keeps]: "headers_valid req \<Longrightarrow> headers_valid (set_referrer_source uc src p req)"
  by (auto simp: set_referrer_source_def Let_def intro!: set_header_valid remove_header_valid)
    (auto simp: headers_valid_def)

lemma apply_context_valid [keeps]: "headers_valid req \<Longrightarrow> headers_valid (apply_context psl ctx req)"
  by (simp add: headers_valid_def apply_context_def Let_def set_cookie_context_def)

lemma request_new_valid: "env_valid env u \<Longrightarrow> headers_valid (request_new env m u)"
  by (auto simp: env_valid_def headers_valid_def request_new_def valid_header_def is_valid_header_def
      is_http_token_def is_tchar_def std_eval)

lemma request_url_frame [simp]:
  "r_url (add_header n v req) = r_url req" "r_url (set_header n v req) = r_url req"
  "r_url (remove_header n req) = r_url req" "r_url (set_body b req) = r_url req"
  "r_url (set_referrer_source uc src p req) = r_url req" "r_url (apply_context psl ctx req) = r_url req"
  by (simp_all add: add_header_def try_add_header_def set_header_def try_set_header_def remove_header_def
      set_body_def set_referrer_source_def apply_context_def set_cookie_context_def Let_def)

lemma built_valid: "built env uc req \<Longrightarrow> env_valid env (r_url req) \<Longrightarrow> headers_valid req"
proof (induction rule: built.induct)
  case (built_new m u)
  then show ?case by (simp add: request_new_def request_new_valid [unfolded request_new_def])
qed (auto intro: keeps)

section \<open>Properties\<close>

text \<open>C7: no header name or value, however it was supplied, can split or forge a request: whatever sequence of header, body and
  referrer methods built the request, its bytes read back as exactly its method, target and
  headers, followed by its body.\<close>

theorem request_wire_roundtrip:
  assumes "built env uc req" "env_valid env (r_url req)" "CHR '' '' \<notin> set (request_target (r_url req))"
  shows "read_request (str_of_bytes (serialize req)) =
    Some (method_as_str (r_method req), request_target (r_url req), r_headers req,
      str_of_bytes (case r_body req of Some b \<Rightarrow> b | None \<Rightarrow> []))"
proof -
  let ?hs = "concat (map header_line (r_headers req))"
  let ?body = "str_of_bytes (case r_body req of Some b \<Rightarrow> b | None \<Rightarrow> [])"
  have v: "\<forall>h\<in>set (r_headers req). valid_header h"
    using built_valid [OF assms(1,2)] by (simp add: headers_valid_def)
  have m: "CHR '' '' \<notin> set (method_as_str (r_method req))" by (cases "r_method req") auto
  have "str_of_bytes (serialize req) = request_head req @ ?body"
    by (simp add: serialize_def str_of_bytes_def [of "_ @ _"]) (simp add: str_of_bytes_def [symmetric])
  also have "\<dots> = method_as_str (r_method req) @ CHR '' '' # (request_target (r_url req)
      @ CHR '' '' # ((''HTTP/1.1'' @ crlf) @ ?hs @ crlf @ ?body))"
    by (simp add: request_head_def)
  finally have s: "str_of_bytes (serialize req) = \<dots>" .
  have "length (r_headers req) < length (?hs @ crlf @ ?body)"
    using length_concat_headers [of "r_headers req"] by simp
  note h = read_headers_concat [OF v this, of ?body]
  have p: "strip_prefix (''HTTP/1.1'' @ crlf) ((''HTTP/1.1'' @ crlf) @ ?hs @ crlf @ ?body) = Some (?hs @ crlf @ ?body)"
    by (simp add: strip_prefix_def)
  show ?thesis
    unfolding s read_request_def
    by (simp only: split_once_append [OF m] split_once_append [OF assms(3)] p h option.simps prod.simps)
qed

definition demo_env :: host_env where
  "demo_env = \<lparr>env_os = ''linux'', env_version = ''1'', env_locales = [''C'']\<rparr>"

definition demo_target :: Url where
  "demo_target = \<lparr>u_scheme = ''http'', u_host = ''a.com'', u_port = 80, u_path = ''/p'', u_query = None\<rparr>"

lemma demo_env_valid: "env_valid demo_env demo_target"
  by (simp add: demo_env_def demo_target_def env_valid_def valid_header_def is_valid_header_def is_http_token_def is_tchar_def
      authority_def default_port_for_def default_user_agent_def compatibility_platform_def accept_language_def from_locales_def
      normalize_locale_def List.map_filter_def quality_def show_nat.simps std_eval)

theorem request_wire_roundtrip_witness:
  "map_option (\<lambda>(m, t, hs, b). (m, t, length hs, b))
     (read_request (str_of_bytes (serialize (add_header ''X'' [CHR 0x0D, CHR 0x0A] (request_new demo_env Get demo_target)))))
   = Some (''GET'', ''/p'', 4, [])"
proof -
  let ?r = "add_header ''X'' [CHR 0x0D, CHR 0x0A] (request_new demo_env Get demo_target)"
  have b: "built demo_env demo_crate ?r" by (intro built.intros)
  have r: "?r = request_new demo_env Get demo_target"
    by (simp add: add_header_def try_add_header_def is_valid_header_def)
  have "r_url ?r = demo_target" by (simp add: request_new_def)
  moreover have "CHR '' '' \<notin> set (request_target demo_target)" by (simp add: request_target_def demo_target_def)
  ultimately have "read_request (str_of_bytes (serialize ?r)) = Some (method_as_str (r_method ?r), request_target (r_url ?r),
      r_headers ?r, str_of_bytes (case r_body ?r of Some b \<Rightarrow> b | None \<Rightarrow> []))"
    using request_wire_roundtrip [OF b] demo_env_valid by simp
  then show ?thesis unfolding r by (simp add: request_new_def str_of_bytes_def request_target_def demo_target_def)
qed

end
