(* ===== verification/Response.thy ===== *)
theory Response
  imports Request
begin

text \<open>
  \<open>src/http/response.rs\<close>: reading an HTTP/1.1 response from a stream.  A stream is the bytes the peer
  sends before it stops, together with the way it stops (end of file, or an I/O error of the
  next read).  The gzip decoder (crate \<open>flate2\<close>) is a parameter that turns bytes into such
  a stream.
\<close>

section \<open>Streams\<close>

datatype ErrorKind =
    TimedOut | WouldBlock | UnexpectedEof | InvalidData | InvalidInput | PermissionDenied
  | AddrNotAvailable | WriteZero | ConnectionRefused | OtherKind

datatype io_error = IoError (io_kind: ErrorKind) (io_message: string)

datatype HttpParseError =
    Io io_error | InvalidStatusLine | InvalidStatusCode | InvalidHeader | InvalidChunkSize
  | BodyTooLarge | TooManyRedirects | MissingLocation

fun is_timeout :: "HttpParseError \<Rightarrow> bool" where
  "is_timeout (Io e) \<longleftrightarrow> io_kind e = TimedOut \<or> io_kind e = WouldBlock"
| "is_timeout _ \<longleftrightarrow> False"

fun http_parse_error_to_string :: "HttpParseError \<Rightarrow> string" where
  "http_parse_error_to_string (Io e) = ''I/O error: '' @ io_message e"
| "http_parse_error_to_string InvalidStatusLine = ''invalid HTTP status line''"
| "http_parse_error_to_string InvalidStatusCode = ''invalid HTTP status code''"
| "http_parse_error_to_string InvalidHeader = ''invalid HTTP header''"
| "http_parse_error_to_string InvalidChunkSize = ''invalid chunk size in chunked encoding''"
| "http_parse_error_to_string BodyTooLarge = ''HTTP response body exceeds configured limit''"
| "http_parse_error_to_string TooManyRedirects = ''too many redirects''"
| "http_parse_error_to_string MissingLocation = ''redirect response missing Location header''"

record reader =
  rd_bytes :: "u8 list"
  rd_end :: "io_error option"

definition eof_error :: io_error where
  "eof_error = IoError UnexpectedEof ''unexpected end of file''"

definition utf8_error :: io_error where
  "utf8_error = IoError InvalidData ''stream did not contain valid UTF-8''"

text \<open>The operations of \<open>std::io\<close> the parser uses.  \<open>read_line\<close> keeps the line feed; an empty
  result is the end of the stream.\<close>

definition read_line :: "reader \<Rightarrow> io_error + (string \<times> reader)" where
  "read_line r =
     (let taken = takeWhile (\<lambda>b. b \<noteq> 10) (rd_bytes r);
          rest = dropWhile (\<lambda>b. b \<noteq> 10) (rd_bytes r)
      in case rest of
           [] \<Rightarrow>
             (case rd_end r of
                Some e \<Rightarrow> Inl e
              | None \<Rightarrow>
                  (case from_utf8 taken of None \<Rightarrow> Inl utf8_error | Some s \<Rightarrow> Inr (s, r\<lparr>rd_bytes := []\<rparr>)))
         | _ # rest' \<Rightarrow>
             (case from_utf8 (taken @ [10]) of
                None \<Rightarrow> Inl utf8_error
              | Some s \<Rightarrow> Inr (s, r\<lparr>rd_bytes := rest'\<rparr>)))"

definition read_exact :: "nat \<Rightarrow> reader \<Rightarrow> io_error + (u8 list \<times> reader)" where
  "read_exact n r =
     (if n \<le> length (rd_bytes r) then Inr (take n (rd_bytes r), r\<lparr>rd_bytes := drop n (rd_bytes r)\<rparr>)
      else case rd_end r of Some e \<Rightarrow> Inl e | None \<Rightarrow> Inl eof_error)"

definition take_read_to_end :: "nat \<Rightarrow> reader \<Rightarrow> io_error + (u8 list \<times> reader)" where
  "take_read_to_end n r =
     (if n \<le> length (rd_bytes r) then Inr (take n (rd_bytes r), r\<lparr>rd_bytes := drop n (rd_bytes r)\<rparr>)
      else case rd_end r of Some e \<Rightarrow> Inl e | None \<Rightarrow> Inr (rd_bytes r, r\<lparr>rd_bytes := []\<rparr>))"

section \<open>Responses\<close>

record HttpResponse =
  p_status_code :: nat
  p_reason :: string
  p_headers :: headers
  p_body :: "u8 list"
  p_effective_url :: "Url option"
  p_redirect_count :: nat
  p_final_request_referrer :: "string option"

datatype HeaderLineHandling = StrictLines | SkipNonFieldLines

definition response_new :: "nat \<Rightarrow> string \<Rightarrow> headers \<Rightarrow> u8 list \<Rightarrow> HttpResponse" where
  "response_new status_code reason hs body =
     \<lparr>p_status_code = status_code, p_reason = reason, p_headers = hs, p_body = body,
      p_effective_url = None, p_redirect_count = 0, p_final_request_referrer = None\<rparr>"

definition response_header :: "HttpResponse \<Rightarrow> string \<Rightarrow> string option" where
  "response_header resp name =
     map_option snd (List.find (\<lambda>(k, _). eq_ignore_ascii_case k name) (p_headers resp))"

definition default_max_response_body_bytes :: nat where
  "default_max_response_body_bytes = 64 * 1024 * 1024"

text \<open>The argument is the value of the environment variable, when it is set to valid Unicode.\<close>

definition response_body_limit :: "string option \<Rightarrow> nat" where
  "response_body_limit var =
     (case Option.bind var (parse_uint 10 u64_max) of Some n \<Rightarrow> n | None \<Rightarrow> default_max_response_body_bytes)"

section \<open>Lines\<close>

definition crlf_char :: "char \<Rightarrow> bool" where
  "crlf_char c \<longleftrightarrow> c = CHR 0x0D \<or> c = CHR 0x0A"

definition parse_status_line :: "string \<Rightarrow> HttpParseError + (nat \<times> string)" where
  "parse_status_line line =
     (case split_once CHR '' '' line of
        None \<Rightarrow> Inl InvalidStatusLine
      | Some (_, rest) \<Rightarrow>
          (let (code_str, reason) = (case split_once CHR '' '' rest of Some (a, b) \<Rightarrow> (a, b) | None \<Rightarrow> (rest, []))
           in case parse_uint 10 u16_max code_str of
                None \<Rightarrow> Inl InvalidStatusCode
              | Some status_code \<Rightarrow> Inr (status_code, reason)))"

definition parse_header_line :: "string \<Rightarrow> HttpParseError + (string \<times> string)" where
  "parse_header_line line =
     (case split_once CHR '':'' line of
        None \<Rightarrow> Inl InvalidHeader
      | Some (name, value) \<Rightarrow> Inr (trim name, trim value))"

lemma read_line_shrinks:
  "read_line r = Inr (s, r') \<Longrightarrow> s \<noteq> [] \<Longrightarrow> length (rd_bytes r') < length (rd_bytes r)"
proof -
  assume a: "read_line r = Inr (s, r')" "s \<noteq> []"
  show ?thesis
  proof (cases "dropWhile (\<lambda>b. b \<noteq> 10) (rd_bytes r)")
    case Nil
    from a(1) have "s = str_of_bytes (takeWhile (\<lambda>b. b \<noteq> 10) (rd_bytes r))" "rd_bytes r' = []"
      unfolding read_line_def Let_def Nil by (auto simp: from_utf8_def split: option.splits if_splits)
    with a(2) show ?thesis by (auto simp: str_of_bytes_def)
  next
    case (Cons b bs)
    from a(1) have "rd_bytes r' = bs" unfolding read_line_def Let_def Cons by (auto split: option.splits)
    then show ?thesis using length_dropWhile_Cons_less [OF Cons] by simp
  qed
qed

function read_header_lines :: "HeaderLineHandling \<Rightarrow> reader \<Rightarrow> HttpParseError + (headers \<times> reader)" where
  "read_header_lines handling r =
     rbind (map_err Io (read_line r)) (\<lambda>(line, r').
       if line = [] then Inl InvalidHeader
       else
         (let trimmed = trim_end_matches crlf_char line in
          if trimmed = [] then Inr ([], r')
          else if handling = SkipNonFieldLines \<and> CHR '':'' \<notin> set trimmed then read_header_lines handling r'
          else rbind (parse_header_line trimmed) (\<lambda>h.
               rbind (read_header_lines handling r') (\<lambda>(hs, r''). Inr (h # hs, r'')))))"
  by pat_completeness auto
termination
  by (relation "measure (\<lambda>(_, r). length (rd_bytes r))") (auto dest: read_line_shrinks)

declare read_header_lines.simps [simp del]

section \<open>Bodies\<close>

definition read_bounded_to_end :: "reader \<Rightarrow> nat \<Rightarrow> HttpParseError + u8 list" where
  "read_bounded_to_end r max_body_bytes =
     rbind (map_err Io (take_read_to_end (min u64_max (max_body_bytes + 1)) r)) (\<lambda>(body, _).
       if length body > max_body_bytes then Inl BodyTooLarge else Inr body)"

type_synonym gunzip = "u8 list \<Rightarrow> reader"

definition decode_gzip :: "gunzip \<Rightarrow> u8 list \<Rightarrow> nat \<Rightarrow> HttpParseError + u8 list" where
  "decode_gzip gz body max_body_bytes = read_bounded_to_end (gz body) max_body_bytes"

definition decode_content_encoding :: "gunzip \<Rightarrow> headers \<Rightarrow> u8 list \<Rightarrow> nat \<Rightarrow> HttpParseError + u8 list" where
  "decode_content_encoding gz hs body max_body_bytes =
     (case map_option snd (List.find (\<lambda>(k, _). eq_ignore_ascii_case k ''content-encoding'') hs) of
        None \<Rightarrow> Inr body
      | Some encoding \<Rightarrow>
          if \<not> list_ex (\<lambda>v. eq_ignore_ascii_case (trim v) ''gzip'') (split_char CHR '','' encoding) then Inr body
          else decode_gzip gz body max_body_bytes)"

text \<open>The payload of a chunk is read in blocks of at most 8192 bytes.\<close>

function read_chunk_data :: "nat \<Rightarrow> reader \<Rightarrow> u8 list \<Rightarrow> HttpParseError + (u8 list \<times> reader)" where
  "read_chunk_data remaining r body =
     (if remaining = 0 then Inr (body, r)
      else
        (let count = min remaining 8192 in
         rbind (map_err Io (read_exact count r)) (\<lambda>(block, r').
           read_chunk_data (remaining - count) r' (body @ block))))"
  by pat_completeness auto
termination by (relation "measure (\<lambda>(n, _, _). n)") auto

declare read_chunk_data.simps [simp del]

definition read_chunk_size :: "reader \<Rightarrow> HttpParseError + (nat \<times> reader)" where
  "read_chunk_size r =
     rbind (map_err Io (read_line r)) (\<lambda>(size_line, r').
       case strip_suffix crlf size_line of
         None \<Rightarrow> Inl InvalidChunkSize
       | Some line \<Rightarrow>
           (let size_str = trim (hd (split_char CHR '';'' line)) in
            if size_str = [] \<or> \<not> list_all is_ascii_hexdigit size_str then Inl InvalidChunkSize
            else case parse_uint 16 u64_max size_str of
              None \<Rightarrow> Inl InvalidChunkSize
            | Some n \<Rightarrow> Inr (n, r')))"

function read_trailers :: "reader \<Rightarrow> HttpParseError + reader" where
  "read_trailers r =
     rbind (map_err Io (read_line r)) (\<lambda>(trailing, r').
       if trailing = [] then Inl InvalidHeader
       else if trailing = crlf then Inr r'
       else case strip_suffix crlf trailing of
         None \<Rightarrow> Inl InvalidHeader
       | Some line \<Rightarrow> rbind (parse_header_line line) (\<lambda>_. read_trailers r'))"
  by pat_completeness auto
termination by (relation "measure (\<lambda>r. length (rd_bytes r))") (auto dest: read_line_shrinks)

declare read_trailers.simps [simp del]

lemma read_exact_length: "read_exact n r = Inr (b, r') \<Longrightarrow> length (rd_bytes r) = n + length (rd_bytes r')"
  by (auto simp: read_exact_def split: if_splits option.splits)

lemma read_chunk_data_shrinks:
  "read_chunk_data n r body = Inr (body', r') \<Longrightarrow> length (rd_bytes r') \<le> length (rd_bytes r)"
proof (induction n r body rule: read_chunk_data.induct)
  case (1 n r body)
  show ?case
  proof (cases "n = 0")
    case False
    with "1.prems" [unfolded read_chunk_data.simps [of n r body]] obtain a r1 where
      r: "read_exact (min n 8192) r = Inr (a, r1)" "read_chunk_data (n - min n 8192) r1 (body @ a) = Inr (body', r')"
      by (auto simp: Let_def)
    from "1.IH" [OF False refl _ refl r(2)] read_exact_length [OF r(1)] r(1) show ?thesis by simp
  qed (use "1.prems" in \<open>simp add: read_chunk_data.simps\<close>)
qed

lemma read_chunk_size_shrinks: "read_chunk_size r = Inr (n, r') \<Longrightarrow> length (rd_bytes r') < length (rd_bytes r)"
  by (auto simp: read_chunk_size_def Let_def strip_suffix_def split: option.splits if_splits
      intro!: read_line_shrinks)

function read_chunked_body :: "nat \<Rightarrow> reader \<Rightarrow> u8 list \<Rightarrow> HttpParseError + u8 list \<times> reader" where
  "read_chunked_body max_body_bytes r body =
     rbind (read_chunk_size r) (\<lambda>(chunk_size, r1).
       if chunk_size = 0 then rbind (read_trailers r1) (\<lambda>r2. Inr (body, r2))
       else if chunk_size > max_body_bytes - length body then Inl BodyTooLarge
       else rbind (read_chunk_data chunk_size r1 body) (\<lambda>(body', r2).
            rbind (map_err Io (read_exact 2 r2)) (\<lambda>(cr, r3).
              if cr \<noteq> [13, 10] then Inl InvalidChunkSize
              else read_chunked_body max_body_bytes r3 body')))"
  by pat_completeness auto
termination
  by (relation "measure (\<lambda>(_, r, _). length (rd_bytes r))")
    (auto dest!: read_chunk_size_shrinks read_chunk_data_shrinks read_exact_length)

declare read_chunked_body.simps [simp del]

definition header_values :: "string \<Rightarrow> headers \<Rightarrow> string list" where
  "header_values name hs =
     concat (map (\<lambda>(_, value). map trim (split_char CHR '','' value))
       (filter (\<lambda>(k, _). eq_ignore_ascii_case k name) hs))"

text \<open>The codings of all Transfer-Encoding fields, in order; an empty one is an error.\<close>

definition transfer_codings :: "headers \<Rightarrow> HttpParseError + string list" where
  "transfer_codings hs =
     (let codings = header_values ''transfer-encoding'' hs
      in if [] \<in> set codings then Inl InvalidHeader else Inr codings)"

fun decode_codings :: "gunzip \<Rightarrow> nat \<Rightarrow> string list \<Rightarrow> u8 list \<Rightarrow> HttpParseError + u8 list" where
  "decode_codings gz max_body_bytes [] body = Inr body"
| "decode_codings gz max_body_bytes (coding # codings) body =
     (if \<not> eq_ignore_ascii_case coding ''gzip'' then Inl InvalidHeader
      else rbind (decode_gzip gz body max_body_bytes) (decode_codings gz max_body_bytes codings))"

fun scan_lengths :: "nat option \<Rightarrow> string list \<Rightarrow> HttpParseError + nat option" where
  "scan_lengths content_length [] = Inr content_length"
| "scan_lengths content_length (l # ls) =
     (if l = [] \<or> \<not> list_all is_ascii_digit l then Inl InvalidHeader
      else case parse_uint 10 u64_max l of
        None \<Rightarrow> Inl InvalidHeader
      | Some n \<Rightarrow>
          if (case content_length of Some previous \<Rightarrow> previous \<noteq> n | None \<Rightarrow> False) then Inl InvalidHeader
          else scan_lengths (Some n) ls)"

definition read_body :: "gunzip \<Rightarrow> headers \<Rightarrow> reader \<Rightarrow> nat \<Rightarrow> HttpParseError + u8 list" where
  "read_body gz hs r max_body_bytes =
     rbind (transfer_codings hs) (\<lambda>codings.
       if codings \<noteq> [] then
         (if \<not> eq_ignore_ascii_case (last codings) ''chunked'' then Inl InvalidHeader
          else rbind (read_chunked_body max_body_bytes r []) (\<lambda>(body, _).
               decode_codings gz max_body_bytes (rev (butlast codings)) body))
       else
         rbind (scan_lengths None (header_values ''content-length'' hs)) (\<lambda>content_length.
           case content_length of
             Some len \<Rightarrow>
               if len > max_body_bytes then Inl BodyTooLarge
               else rbind (map_err Io (take_read_to_end len r)) (\<lambda>(body, _).
                      if length body \<noteq> len then Inl (Io eof_error) else Inr body)
           | None \<Rightarrow> read_bounded_to_end r max_body_bytes))"

section \<open>Whole responses\<close>

text \<open>The argument \<open>turns\<close> is what is left of the sixteen turns of the loop over informational responses.\<close>

fun parse_responses :: "gunzip \<Rightarrow> nat \<Rightarrow> Method \<Rightarrow> nat \<Rightarrow> HeaderLineHandling \<Rightarrow> reader \<Rightarrow> HttpParseError + HttpResponse" where
  "parse_responses gz 0 meth max_body_bytes header_lines r = Inl InvalidStatusLine"
| "parse_responses gz (Suc turns) meth max_body_bytes header_lines r =
     rbind (map_err Io (read_line r)) (\<lambda>(status_line, r1).
          rbind (parse_status_line (trim_end_matches crlf_char status_line)) (\<lambda>(status_code, reason).
          rbind (read_header_lines header_lines r1) (\<lambda>(hs, r2).
            if 100 \<le> status_code \<and> status_code < 200 \<and> status_code \<noteq> 101
            then parse_responses gz turns meth max_body_bytes header_lines r2
            else
              rbind (if meth = Head \<or> status_code \<in> {101, 204, 304} then Inr []
                     else rbind (read_body gz hs r2 max_body_bytes) (\<lambda>body.
                          decode_content_encoding gz hs body max_body_bytes))
                (\<lambda>body. Inr (response_new status_code reason hs body)))))"

definition parse_for_method_with_limit ::
  "gunzip \<Rightarrow> reader \<Rightarrow> Method \<Rightarrow> nat \<Rightarrow> HeaderLineHandling \<Rightarrow> HttpParseError + HttpResponse" where
  "parse_for_method_with_limit gz r meth max_body_bytes header_lines =
     parse_responses gz 16 meth max_body_bytes header_lines r"

definition parse_with_limit :: "gunzip \<Rightarrow> reader \<Rightarrow> nat \<Rightarrow> HttpParseError + HttpResponse" where
  "parse_with_limit gz r max_body_bytes = parse_for_method_with_limit gz r Get max_body_bytes StrictLines"

definition parse_response :: "gunzip \<Rightarrow> string option \<Rightarrow> reader \<Rightarrow> HttpParseError + HttpResponse" where
  "parse_response gz var r = parse_with_limit gz r (response_body_limit var)"

definition parse_for_browser_with_limit :: "gunzip \<Rightarrow> reader \<Rightarrow> nat \<Rightarrow> HttpParseError + HttpResponse" where
  "parse_for_browser_with_limit gz r max_body_bytes =
     parse_for_method_with_limit gz r Get max_body_bytes SkipNonFieldLines"

definition parse_for_browser :: "gunzip \<Rightarrow> string option \<Rightarrow> reader \<Rightarrow> HttpParseError + HttpResponse" where
  "parse_for_browser gz var r = parse_for_browser_with_limit gz r (response_body_limit var)"

definition parse_for_method :: "gunzip \<Rightarrow> string option \<Rightarrow> reader \<Rightarrow> Method \<Rightarrow> HttpParseError + HttpResponse" where
  "parse_for_method gz var r meth =
     parse_for_method_with_limit gz r meth (response_body_limit var) SkipNonFieldLines"

section \<open>Bounds\<close>

lemma read_bounded_length: "read_bounded_to_end r m = Inr body \<Longrightarrow> length body \<le> m"
  by (auto simp: read_bounded_to_end_def split: if_splits)

lemma decode_gzip_length: "decode_gzip gz b m = Inr body \<Longrightarrow> length body \<le> m"
  unfolding decode_gzip_def by (rule read_bounded_length)

lemma decode_codings_length:
  "decode_codings gz m cs b = Inr body \<Longrightarrow> length b \<le> m \<Longrightarrow> length body \<le> m"
  by (induction cs arbitrary: b) (auto split: if_splits dest: decode_gzip_length)

lemma decode_content_encoding_length:
  "decode_content_encoding gz hs b m = Inr body \<Longrightarrow> length b \<le> m \<Longrightarrow> length body \<le> m"
  by (auto simp: decode_content_encoding_def split: option.splits if_splits dest: decode_gzip_length)

text \<open>Reading in blocks is one exact read.\<close>

lemma read_chunk_data_eq:
  "read_chunk_data n r body =
     (if n \<le> length (rd_bytes r) then Inr (body @ take n (rd_bytes r), r\<lparr>rd_bytes := drop n (rd_bytes r)\<rparr>)
      else Inl (Io (case rd_end r of Some e \<Rightarrow> e | None \<Rightarrow> eof_error)))"
proof (induction n r body rule: read_chunk_data.induct)
  case (1 n r body)
  show ?case
  proof (cases "n = 0")
    case False
    let ?c = "min n 8192"
    show ?thesis
    proof (cases "?c \<le> length (rd_bytes r)")
      case True
      then have r: "read_exact ?c r = Inr (take ?c (rd_bytes r), r\<lparr>rd_bytes := drop ?c (rd_bytes r)\<rparr>)"
        by (simp add: read_exact_def)
      let ?r = "r\<lparr>rd_bytes := drop ?c (rd_bytes r)\<rparr>" and ?b = "body @ take ?c (rd_bytes r)"
      have step: "read_chunk_data n r body = read_chunk_data (n - ?c) ?r ?b"
        using False r by (subst read_chunk_data.simps) (simp add: Let_def)
      have IH: "read_chunk_data (n - ?c) ?r ?b =
          (if n - ?c \<le> length (rd_bytes ?r) then Inr (?b @ take (n - ?c) (rd_bytes ?r), ?r\<lparr>rd_bytes := drop (n - ?c) (rd_bytes ?r)\<rparr>)
           else Inl (Io (case rd_end ?r of Some e \<Rightarrow> e | None \<Rightarrow> eof_error)))"
        by (rule "1.IH" [OF False refl _ refl]) (simp add: r)
      have n: "n = ?c + (n - ?c)" by simp
      have "take n (rd_bytes r) = take ?c (rd_bytes r) @ take (n - ?c) (drop ?c (rd_bytes r))"
        by (subst n) (rule take_add)
      moreover have "drop (n - ?c) (drop ?c (rd_bytes r)) = drop n (rd_bytes r)" by simp
      moreover have "n - ?c \<le> length (rd_bytes ?r) \<longleftrightarrow> n \<le> length (rd_bytes r)" using True by auto
      ultimately show ?thesis unfolding step IH by simp
    next
      case short: False
      with False show ?thesis
        by (subst read_chunk_data.simps) (auto simp: Let_def read_exact_def split: option.splits)
    qed
  qed (simp add: read_chunk_data.simps)
qed

lemma read_chunked_body_length:
  "read_chunked_body m r body = Inr (out, r') \<Longrightarrow> length body \<le> m \<Longrightarrow> length out \<le> m"
proof (induction m r body rule: read_chunked_body.induct)
  case (1 m r body)
  note run = "1.prems"(1) [unfolded read_chunked_body.simps [of m r body]]
  from run obtain n r1 where s: "read_chunk_size r = Inr (n, r1)" by auto
  show ?case
  proof (cases "n = 0")
    case True
    with run "1.prems"(2) s show ?thesis by auto
  next
    case False
    from run s False obtain b1 r2 cr r3 where d: "\<not> n > m - length body"
      "read_chunk_data n r1 body = Inr (b1, r2)" "read_exact 2 r2 = Inr (cr, r3)" "cr = [13, 10]"
      "read_chunked_body m r3 b1 = Inr (out, r')"
      by (auto split: if_splits)
    then have "length b1 \<le> m" using "1.prems"(2) by (auto simp: read_chunk_data_eq split: if_splits)
    with "1.IH" [OF s refl False d(1,2) refl _ refl] d show ?thesis by auto
  qed
qed

lemma read_body_cases:
  assumes "read_body gz hs r m = Inr body"
  obtains (chunked) codings b r' where "transfer_codings hs = Inr codings" "codings \<noteq> []"
      "eq_ignore_ascii_case (last codings) ''chunked''" "read_chunked_body m r [] = Inr (b, r')"
      "decode_codings gz m (rev (butlast codings)) b = Inr body"
    | (sized) len where "transfer_codings hs = Inr []" "scan_lengths None (header_values ''content-length'' hs) = Inr (Some len)"
      "len \<le> m" "length body = len" "body = take len (rd_bytes r)"
    | (to_end) "transfer_codings hs = Inr []" "scan_lengths None (header_values ''content-length'' hs) = Inr None"
      "read_bounded_to_end r m = Inr body"
proof -
  from assms obtain codings where c: "transfer_codings hs = Inr codings" by (auto simp: read_body_def)
  show ?thesis
  proof (cases "codings = []")
    case False
    from assms c False obtain b r' where "eq_ignore_ascii_case (last codings) ''chunked''"
      "read_chunked_body m r [] = Inr (b, r')" "decode_codings gz m (rev (butlast codings)) b = Inr body"
      by (auto simp: read_body_def split: if_splits)
    then show ?thesis using chunked c False by blast
  next
    case True
    from assms c True obtain cl where l: "scan_lengths None (header_values ''content-length'' hs) = Inr cl"
      by (auto simp: read_body_def)
    show ?thesis
    proof (cases cl)
      case None
      then show ?thesis using assms c True l to_end by (simp add: read_body_def)
    next
      case (Some len)
      with assms c True l have "len \<le> m" "length body = len" "body = take len (rd_bytes r)"
        by (auto simp: read_body_def take_read_to_end_def split: if_splits option.splits)
      then show ?thesis using sized c True l Some by blast
    qed
  qed
qed

section \<open>Reading printed lines\<close>

lemma lf_word: "(10 :: u8) = word_of_nat (byte CHR 0x0A)"
  by simp

lemma read_line_ascii:
  assumes "ascii s" "CHR 0x0A \<notin> set s"
  shows "read_line \<lparr>rd_bytes = bytes_of_str (s @ [CHR 0x0A]) @ rest, rd_end = e\<rparr>
    = Inr (s @ [CHR 0x0A], \<lparr>rd_bytes = rest, rd_end = e\<rparr>)"
proof -
  have n: "10 \<notin> set (bytes_of_str s)" unfolding lf_word bytes_of_str_in by (rule assms(2))
  have b: "bytes_of_str (s @ [CHR 0x0A]) = bytes_of_str s @ [10]" by (simp add: bytes_of_str_def)
  have "from_utf8 (bytes_of_str s @ [10]) = Some (s @ [CHR 0x0A])"
    using from_utf8_ascii [of "s @ [CHR 0x0A]"] assms(1) unfolding b by (simp add: ascii_def)
  then show ?thesis unfolding read_line_def b Let_def using n by simp
qed

lemma read_line_crlf:
  assumes "ascii s" "CHR 0x0A \<notin> set s"
  shows "read_line \<lparr>rd_bytes = bytes_of_str (s @ crlf) @ rest, rd_end = e\<rparr>
    = Inr (s @ crlf, \<lparr>rd_bytes = rest, rd_end = e\<rparr>)"
  using read_line_ascii [of "s @ [CHR 0x0D]" rest e] assms by (simp add: ascii_def)

lemma trim_end_crlf:
  assumes "CHR 0x0A \<notin> set s" "CHR 0x0D \<notin> set s"
  shows "trim_end_matches crlf_char (s @ crlf) = s"
proof -
  have "dropWhile crlf_char (rev s) = rev s"
    using assms by (cases s rule: rev_cases) (auto simp: crlf_char_def)
  then show ?thesis by (simp add: trim_end_matches_def crlf_char_def [abs_def] del: dropWhile_eq_Nil_conv) 
qed

section \<open>The chunked coding\<close>

definition chunk_wire :: "u8 list \<Rightarrow> u8 list" where
  "chunk_wire d = bytes_of_str (show_hex (length d) @ crlf) @ d @ [13, 10]"

definition chunked_wire :: "u8 list list \<Rightarrow> u8 list" where
  "chunked_wire ds = concat (map chunk_wire ds) @ bytes_of_str (''0'' @ crlf @ crlf)"

lemma hex_line_facts:
  "ascii (show_hex n)" "CHR 0x0A \<notin> set (show_hex n)" "CHR '';'' \<notin> set (show_hex n)" "trim (show_hex n) = show_hex n"
  "list_all is_ascii_hexdigit (show_hex n)"
proof -
  have v: "c \<in> set (show_hex n) \<Longrightarrow> visible c \<and> c \<noteq> CHR '';''" for c
    using hex_visible [OF show_hex_chars] by blast
  show "ascii (show_hex n)" using v by (force simp: ascii_def visible_def)
  show "CHR 0x0A \<notin> set (show_hex n)" using v by (force simp: visible_def)
  show "CHR '';'' \<notin> set (show_hex n)" using v by blast
  show "trim (show_hex n) = show_hex n" using v by (intro trim_visible) auto
  show "list_all is_ascii_hexdigit (show_hex n)" using show_hex_chars by (auto simp: list_all_iff)
qed

lemma read_chunk_size_wire:
  assumes "n \<le> u64_max"
  shows "read_chunk_size \<lparr>rd_bytes = bytes_of_str (show_hex n @ crlf) @ rest, rd_end = e\<rparr>
    = Inr (n, \<lparr>rd_bytes = rest, rd_end = e\<rparr>)"
  unfolding read_chunk_size_def read_line_crlf [OF hex_line_facts(1,2)]
  using hex_line_facts [of n] parse_show_hex [OF assms] split_char_none [of "CHR '';''" "show_hex n"]
  by (simp add: strip_suffix_def suffix_def)

lemma read_chunked_step:
  assumes "length (body @ d) \<le> m" "m \<le> u64_max" "d \<noteq> []"
  shows "read_chunked_body m \<lparr>rd_bytes = chunk_wire d @ rest, rd_end = e\<rparr> body
    = read_chunked_body m \<lparr>rd_bytes = rest, rd_end = e\<rparr> (body @ d)"
proof -
  have "read_chunk_size \<lparr>rd_bytes = chunk_wire d @ rest, rd_end = e\<rparr>
      = Inr (length d, \<lparr>rd_bytes = d @ [13, 10] @ rest, rd_end = e\<rparr>)"
    using read_chunk_size_wire [of "length d" "d @ [13, 10] @ rest" e] assms by (simp add: chunk_wire_def)
  then show ?thesis using assms
    by (subst read_chunked_body.simps) (auto simp: read_chunk_data_eq read_exact_def)
qed

lemma read_chunked_concat:
  assumes "length (body @ concat ds) \<le> m" "m \<le> u64_max" "[] \<notin> set ds"
  shows "read_chunked_body m \<lparr>rd_bytes = concat (map chunk_wire ds) @ rest, rd_end = e\<rparr> body
    = read_chunked_body m \<lparr>rd_bytes = rest, rd_end = e\<rparr> (body @ concat ds)"
  using assms
proof (induction ds arbitrary: body)
  case (Cons d ds)
  then have "read_chunked_body m \<lparr>rd_bytes = chunk_wire d @ concat (map chunk_wire ds) @ rest, rd_end = e\<rparr> body
      = read_chunked_body m \<lparr>rd_bytes = concat (map chunk_wire ds) @ rest, rd_end = e\<rparr> (body @ d)"
    by (intro read_chunked_step) auto
  also have "\<dots> = read_chunked_body m \<lparr>rd_bytes = rest, rd_end = e\<rparr> ((body @ d) @ concat ds)"
    using Cons.prems by (intro Cons.IH) auto
  finally show ?case by simp
qed simp

lemma read_chunked_last:
  "read_chunked_body m \<lparr>rd_bytes = bytes_of_str (''0'' @ crlf @ crlf) @ rest, rd_end = e\<rparr> body
    = Inr (body, \<lparr>rd_bytes = rest, rd_end = e\<rparr>)"
proof -
  have h: "show_hex 0 = ''0''" by (simp add: show_hex_unfold hex_digit_def char_of_def bit_0)
  have "read_chunk_size \<lparr>rd_bytes = bytes_of_str (''0'' @ crlf @ crlf) @ rest, rd_end = e\<rparr>
      = Inr (0, \<lparr>rd_bytes = bytes_of_str crlf @ rest, rd_end = e\<rparr>)"
    using read_chunk_size_wire [of 0 "bytes_of_str crlf @ rest" e] unfolding h by (simp add: bytes_of_str_def)
  moreover have "read_trailers \<lparr>rd_bytes = bytes_of_str crlf @ rest, rd_end = e\<rparr> = Inr \<lparr>rd_bytes = rest, rd_end = e\<rparr>"
    using read_line_crlf [of "[]" rest e] by (subst read_trailers.simps) (simp add: ascii_def)
  ultimately show ?thesis by (subst read_chunked_body.simps) simp
qed

lemma scan_lengths_agree:
  "scan_lengths prev ls = Inr (Some n) \<Longrightarrow>
     (\<forall>l\<in>set ls. parse_uint 10 u64_max l = Some n) \<and> (prev = None \<or> prev = Some n)"
  by (induction ls arbitrary: prev) (auto split: if_splits option.splits)

lemma scan_lengths_None: "scan_lengths prev ls = Inr None \<Longrightarrow> ls = [] \<and> prev = None"
  by (induction ls arbitrary: prev) (auto split: if_splits option.splits)

section \<open>Properties of bodies\<close>

text \<open>What a body is read from, and the bytes each reader leaves.\<close>

lemma read_line_suffix: "read_line r = Inr (s, r') \<Longrightarrow> suffix (rd_bytes r') (rd_bytes r)"
proof -
  assume run: "read_line r = Inr (s, r')"
  let ?d = "dropWhile (\<lambda>b. b \<noteq> 10) (rd_bytes r)"
  have d: "suffix ?d (rd_bytes r)" by (rule suffix_dropWhile)
  show ?thesis
  proof (cases ?d)
    case Nil
    show ?thesis using run unfolding read_line_def Let_def Nil by (auto split: option.splits)
  next
    case (Cons c bs)
    have "rd_bytes r' = bs" using run unfolding read_line_def Let_def Cons by (auto split: option.splits)
    then show ?thesis using d Cons by (metis suffix_ConsD)
  qed
qed

lemma read_header_lines_suffix: "read_header_lines hl r = Inr (hs, r') \<Longrightarrow> suffix (rd_bytes r') (rd_bytes r)"
proof (induction hl r arbitrary: hs rule: read_header_lines.induct)
  case (1 hl r)
  from "1.prems" [unfolded read_header_lines.simps [of hl r]] obtain line r1 where l: "read_line r = Inr (line, r1)" by auto
  note s = read_line_suffix [OF l]
  show ?case
  proof (cases "trim_end_matches crlf_char line = []")
    case True
    then show ?thesis using "1.prems" [unfolded read_header_lines.simps [of hl r]] l s by (auto split: if_splits)
  next
    case False
    then have ne: "line \<noteq> []" by (auto simp: trim_end_matches_def)
    note run = "1.prems" [unfolded read_header_lines.simps [of hl r]]
    have "suffix (rd_bytes r') (rd_bytes r1)"
    proof (cases "hl = SkipNonFieldLines \<and> CHR '':'' \<notin> set (trim_end_matches crlf_char line)")
      case True
      then have "read_header_lines hl r1 = Inr (hs, r')" using run l False ne by (simp add: Let_def)
      then show ?thesis using "1.IH"(1) [of "(line, r1)" line r1, OF _ refl ne refl False True] l by simp
    next
      case field: False
      then obtain h hs' where h: "parse_header_line (trim_end_matches crlf_char line) = Inr h" "read_header_lines hl r1 = Inr (hs', r')"
        using run l False ne by (auto simp: Let_def split: if_splits)
      then show ?thesis using "1.IH"(2) [of "(line, r1)" line r1, OF _ refl ne refl False field h] l by simp
    qed
    then show ?thesis using s by (rule suffix_order.trans)
  qed
qed

lemma read_exact_suffix: "read_exact n r = Inr (b, r') \<Longrightarrow> suffix (rd_bytes r') (rd_bytes r)"
  by (auto simp: read_exact_def suffix_drop split: if_splits option.splits)

lemma read_chunk_size_suffix: "read_chunk_size r = Inr (n, r') \<Longrightarrow> suffix (rd_bytes r') (rd_bytes r)"
  by (auto simp: read_chunk_size_def Let_def split: option.splits if_splits dest: read_line_suffix)

lemma subseq_suffix: "subseq xs ys \<Longrightarrow> suffix ys zs \<Longrightarrow> subseq xs zs"
  by (auto simp: suffix_def)

lemma read_chunked_subseq:
  "read_chunked_body m r body = Inr (out, r') \<Longrightarrow> \<exists>x. out = body @ x \<and> subseq x (rd_bytes r)"
proof (induction m r body rule: read_chunked_body.induct)
  case (1 m r body)
  note run = "1.prems" [unfolded read_chunked_body.simps [of m r body]]
  from run obtain n r1 where s: "read_chunk_size r = Inr (n, r1)" by auto
  show ?case
  proof (cases "n = 0")
    case True
    with run s show ?thesis by auto
  next
    case False
    from run s False obtain b1 r2 cr r3 where d: "\<not> n > m - length body"
      "read_chunk_data n r1 body = Inr (b1, r2)" "read_exact 2 r2 = Inr (cr, r3)" "cr = [13, 10]"
      "read_chunked_body m r3 b1 = Inr (out, r')"
      by (auto split: if_splits)
    then obtain x where x: "out = b1 @ x" "subseq x (rd_bytes r3)"
      using "1.IH" [OF s refl False d(1,2) refl _ refl] by auto
    have b: "b1 = body @ take n (rd_bytes r1)" "rd_bytes r2 = drop n (rd_bytes r1)"
      using d(2) by (auto simp: read_chunk_data_eq split: if_splits)
    have "subseq x (drop n (rd_bytes r1))" using subseq_suffix [OF x(2) read_exact_suffix [OF d(3)]] b(2) by simp
    then have "subseq (take n (rd_bytes r1) @ x) (take n (rd_bytes r1) @ drop n (rd_bytes r1))"
      by (rule subseq_append' [THEN iffD2])
    then have "subseq (take n (rd_bytes r1) @ x) (rd_bytes r)"
      using subseq_suffix [OF _ read_chunk_size_suffix [OF s]] by simp
    then show ?thesis using x(1) b(1) by auto
  qed
qed

text \<open>The stages of a body: the payload on the wire and the result of each decoding step, none longer than the limit; every stage is what
  the gzip decoder yields for the stage before it.\<close>

definition body_stages :: "gunzip \<Rightarrow> nat \<Rightarrow> u8 list list \<Rightarrow> bool" where
  "body_stages gz m stages \<longleftrightarrow> stages \<noteq> [] \<and> (\<forall>b\<in>set stages. length b \<le> m)
     \<and> successively (\<lambda>a b. prefix b (rd_bytes (gz a))) stages"

lemma read_bounded_prefix: "read_bounded_to_end r m = Inr body \<Longrightarrow> prefix body (rd_bytes r)"
  by (auto simp: read_bounded_to_end_def take_read_to_end_def take_is_prefix split: if_splits option.splits)

lemma body_stages_snoc:
  "body_stages gz m stages \<Longrightarrow> decode_gzip gz (last stages) m = Inr b \<Longrightarrow> body_stages gz m (stages @ [b])"
  by (auto simp: body_stages_def successively_append_iff decode_gzip_length decode_gzip_def read_bounded_prefix)

lemma decode_codings_stages:
  "decode_codings gz m cs (last stages) = Inr body \<Longrightarrow> body_stages gz m stages
     \<Longrightarrow> \<exists>more. body_stages gz m (stages @ more) \<and> last (stages @ more) = body"
proof (induction cs arbitrary: stages)
  case Nil
  then show ?case by (intro exI [of _ "[]"]) simp
next
  case (Cons c cs)
  then obtain b where b: "decode_gzip gz (last stages) m = Inr b" "decode_codings gz m cs b = Inr body"
    by (auto split: if_splits)
  from Cons.IH [of "stages @ [b]"] b(2) body_stages_snoc [OF Cons.prems(2) b(1)] obtain more where
    "body_stages gz m (stages @ b # more)" "last (stages @ b # more) = body" by auto
  then show ?case by blast
qed

lemma body_stages_single: "length b \<le> m \<Longrightarrow> body_stages gz m [b]"
  by (simp add: body_stages_def)

lemma read_body_stages:
  assumes "read_body gz hs r m = Inr body"
  shows "\<exists>stages. body_stages gz m stages \<and> last stages = body \<and> subseq (hd stages) (rd_bytes r)"
  using assms
proof (cases rule: read_body_cases)
  case (chunked codings b r')
  have "body_stages gz m [b]" using read_chunked_body_length [OF chunked(4)] by (simp add: body_stages_single)
  with decode_codings_stages [of gz m "rev (butlast codings)" "[b]"] chunked(5) obtain more where
    "body_stages gz m (b # more)" "last (b # more) = body" by auto
  then show ?thesis using read_chunked_subseq [OF chunked(4)] by (intro exI [of _ "b # more"]) auto
next
  case (sized len)
  then show ?thesis
    by (intro exI [of _ "[body]"]) (auto simp: body_stages_single prefix_imp_subseq take_is_prefix)
next
  case to_end
  then show ?thesis
    using read_bounded_length [OF to_end(3)] read_bounded_prefix [OF to_end(3)]
    by (intro exI [of _ "[body]"]) (auto simp: body_stages_single prefix_imp_subseq)
qed

lemma decode_content_encoding_cases:
  "decode_content_encoding gz hs b m = Inr x \<Longrightarrow> x = b \<or> decode_gzip gz b m = Inr x"
  unfolding decode_content_encoding_def
  by (cases "map_option snd (List.find (\<lambda>(k, _). eq_ignore_ascii_case k ''content-encoding'') hs)") (simp_all split: if_splits)

lemma parse_responses_stages:
  "parse_responses gz n meth m hl r = Inr resp
     \<Longrightarrow> \<exists>stages. body_stages gz m stages \<and> last stages = p_body resp \<and> subseq (hd stages) (rd_bytes r)"
proof (induction n arbitrary: r)
  case (Suc n)
  obtain line r1 where l1: "read_line r = Inr (line, r1)" using Suc.prems by (cases "read_line r") auto
  obtain code reason where l2: "parse_status_line (trim_end_matches crlf_char line) = Inr (code, reason)"
    using Suc.prems l1 by (cases "parse_status_line (trim_end_matches crlf_char line)") auto
  obtain hs r2 where l3: "read_header_lines hl r1 = Inr (hs, r2)"
    using Suc.prems l1 l2 by (cases "read_header_lines hl r1") auto
  have suf: "suffix (rd_bytes r2) (rd_bytes r)"
    by (rule suffix_order.trans [OF read_header_lines_suffix [OF l3] read_line_suffix [OF l1]])
  have run: "(if 100 \<le> code \<and> code < 200 \<and> code \<noteq> 101 then parse_responses gz n meth m hl r2
      else rbind (if meth = Head \<or> code \<in> {101, 204, 304} then Inr []
             else rbind (read_body gz hs r2 m) (\<lambda>body. decode_content_encoding gz hs body m))
           (\<lambda>body. Inr (response_new code reason hs body))) = Inr resp"
    using Suc.prems unfolding parse_responses.simps l1 l2 l3 map_err.simps rbind.simps prod.case .
  show ?case
  proof (cases "100 \<le> code \<and> code < 200 \<and> code \<noteq> 101")
    case True
    then have "parse_responses gz n meth m hl r2 = Inr resp" using run by simp
    from Suc.IH [OF this] obtain stages where
      "body_stages gz m stages" "last stages = p_body resp" "subseq (hd stages) (rd_bytes r2)" by blast
    then show ?thesis using subseq_suffix [OF _ suf] by blast
  next
    case final: False
    show ?thesis
    proof (cases "meth = Head \<or> code \<in> {101, 204, 304}")
      case True
      then have "p_body resp = []" using run unfolding if_not_P [OF final] if_P [OF True] by (auto simp: response_new_def)
      then show ?thesis by (intro exI [of _ "[[]]"]) (simp add: body_stages_single)
    next
      case False
      then obtain b where b: "read_body gz hs r2 m = Inr b" "decode_content_encoding gz hs b m = Inr (p_body resp)"
        using run unfolding if_not_P [OF final] if_not_P [OF False] by (auto simp: response_new_def)
      from read_body_stages [OF b(1)] obtain stages where
        s: "body_stages gz m stages" "last stages = b" "subseq (hd stages) (rd_bytes r2)" by blast
      have h: "subseq (hd stages) (rd_bytes r)" by (rule subseq_suffix [OF s(3) suf])
      from b(2) consider "p_body resp = b" | "decode_gzip gz b m = Inr (p_body resp)"
        using decode_content_encoding_cases by blast
      then show ?thesis
      proof cases
        case 1
        show ?thesis by (rule exI [of _ stages]) (simp add: s 1 h)
      next
        case 2
        then have "body_stages gz m (stages @ [p_body resp])" using body_stages_snoc [OF s(1)] s(2) by simp
        moreover have "stages \<noteq> []" using s(1) by (simp add: body_stages_def)
        ultimately show ?thesis using h by (intro exI [of _ "stages @ [p_body resp]"]) simp
      qed
    qed
  qed
qed simp

text \<open>C16: no body grows past the limit at any stage.  The body of every accepted response comes from a payload that was taken from the bytes of the
  stream (sized, chunked or up to the end) by undoing transfer and content codings one after the other; the payload itself, the result of
  every step between and the final body are all at most as long as the limit.\<close>

theorem response_body_bounded:
  assumes "parse_for_method_with_limit gz r meth m handling = Inr resp"
  shows "\<exists>stages. stages \<noteq> [] \<and> subseq (hd stages) (rd_bytes r) \<and> last stages = p_body resp
    \<and> successively (\<lambda>encoded decoded. prefix decoded (rd_bytes (gz encoded))) stages
    \<and> (\<forall>stage\<in>set stages. length stage \<le> m)"
  using parse_responses_stages [OF assms [unfolded parse_for_method_with_limit_def]] unfolding body_stages_def by blast

text \<open>a body cut into any non-empty chunks arrives as their concatenation, and exactly the bytes after the last chunk are
  left on the stream.\<close>

theorem chunked_body_roundtrip:
  assumes "[] \<notin> set ds" "length (concat ds) \<le> m" "m \<le> u64_max"
  shows "read_chunked_body m \<lparr>rd_bytes = chunked_wire ds @ rest, rd_end = e\<rparr> []
    = Inr (concat ds, \<lparr>rd_bytes = rest, rd_end = e\<rparr>)"
  using read_chunked_concat [of "[]" ds m "bytes_of_str (''0'' @ crlf @ crlf) @ rest" e] assms
    read_chunked_last [of m rest e "concat ds"]
  by (simp add: chunked_wire_def)

theorem chunked_body_roundtrip_witness:
  "read_chunked_body 5 \<lparr>rd_bytes = chunked_wire [[104, 105], [33]] @ [7], rd_end = None\<rparr> []
    = Inr ([104, 105, 33], \<lparr>rd_bytes = [7], rd_end = None\<rparr>)"
  using chunked_body_roundtrip [of "[[104, 105], [33]]" 5 "[7]" None] by (simp add: u64_max_def)

text \<open>A message with conflicting lengths is never accepted: when no transfer coding is present, an accepted body has exactly the
  length that every element of every \<open>Content-Length\<close> field states.\<close>

theorem content_lengths_agree:
  assumes "read_body gz hs r m = Inr body" "transfer_codings hs = Inr []"
    and "v \<in> set (header_values ''content-length'' hs)"
  shows "parse_uint 10 u64_max v = Some (length body) \<and> body = take (length body) (rd_bytes r)"
  using assms(1)
proof (cases rule: read_body_cases)
  case (sized len)
  with scan_lengths_agree [OF sized(2)] assms(3) show ?thesis by auto
qed (use assms(2,3) scan_lengths_None in \<open>force+\<close>)

theorem content_lengths_agree_witness:
  "parse_uint 10 u64_max ''2'' = Some (length [104, 105 :: u8])"
proof -
  let ?hs = "[(''Content-Length'', ''2''), (''content-length'', ''2, 2'')]"
  let ?r = "\<lparr>rd_bytes = [104, 105, 33], rd_end = None\<rparr>"
  have "read_body (\<lambda>_. ?r) ?hs ?r 9 = Inr [104, 105]"
    by (simp add: read_body_def transfer_codings_def header_values_def take_read_to_end_def std_eval)
  moreover have "transfer_codings ?hs = Inr []" "''2'' \<in> set (header_values ''content-length'' ?hs)"
    by (simp_all add: transfer_codings_def header_values_def std_eval)
  ultimately show ?thesis using content_lengths_agree by blast
qed

section \<open>Whole messages\<close>

text \<open>The bytes of a response: status line, header lines, an empty line and the body.\<close>

definition response_wire :: "nat \<Rightarrow> string \<Rightarrow> headers \<Rightarrow> u8 list" where
  "response_wire code reason hs =
     bytes_of_str (''HTTP/1.1 '' @ show_nat code @ '' '' @ reason @ crlf
       @ concat (map header_line hs) @ crlf)"

text \<open>A header that a sender may print and that reads back unchanged: a valid one of ASCII text whose value
  does not begin or end with a blank.\<close>

definition plain_header :: "string \<times> string \<Rightarrow> bool" where
  "plain_header h \<longleftrightarrow> valid_header h \<and> ascii (snd h) \<and> (snd h = [] \<or> visible (hd (snd h)) \<and> visible (last (snd h)))"

definition plain_text :: "string \<Rightarrow> bool" where
  "plain_text s \<longleftrightarrow> ascii s \<and> CHR 0x0A \<notin> set s \<and> CHR 0x0D \<notin> set s"

lemma tchar_is_visible: "is_tchar c \<Longrightarrow> visible c"
  by (auto simp: is_tchar_def visible_def std_eval)

lemma trim_start_blank: "trim_start (CHR '' '' # s) = trim_start s"
  by (simp add: ws1_def)

lemma plain_header_line:
  assumes "plain_header h"
  shows "ascii (fst h @ '': '' @ snd h)" "CHR 0x0A \<notin> set (fst h @ '': '' @ snd h)"
    "CHR 0x0D \<notin> set (fst h @ '': '' @ snd h)" "parse_header_line (fst h @ '': '' @ snd h) = Inr h"
proof -
  from assms have v: "valid_header h" and a: "ascii (snd h)" by (simp_all add: plain_header_def)
  note C = valid_header_chars [OF v]
  have t: "\<forall>c\<in>set (fst h). visible c"
    using v tchar_is_visible by (auto simp: valid_header_def is_valid_header_def is_http_token_def list_all_iff)
  show "ascii (fst h @ '': '' @ snd h)" using a t by (force simp: ascii_def visible_def)
  show "CHR 0x0A \<notin> set (fst h @ '': '' @ snd h)" "CHR 0x0D \<notin> set (fst h @ '': '' @ snd h)" using C by auto
  have "trim (fst h) = fst h" using C(4) t by (intro trim_visible) auto
  moreover have "trim (CHR '' '' # snd h) = snd h"
  proof (cases "snd h = []")
    case False
    then show ?thesis
      using assms trim_visible [of "snd h"] by (simp only: trim_def trim_start_blank plain_header_def) simp
  qed (simp add: trim_def trim_end_def ws1_def)
  moreover have "split_once CHR '':'' (fst h @ CHR '':'' # CHR '' '' # snd h) = Some (fst h, CHR '' '' # snd h)"
    using C(3) by (intro split_once_append)
  ultimately show "parse_header_line (fst h @ '': '' @ snd h) = Inr h" by (simp add: parse_header_line_def)
qed

lemma read_header_lines_wire:
  assumes "\<forall>h\<in>set hs. plain_header h"
  shows "read_header_lines hl \<lparr>rd_bytes = bytes_of_str (concat (map header_line hs) @ crlf) @ rest, rd_end = e\<rparr>
    = Inr (hs, \<lparr>rd_bytes = rest, rd_end = e\<rparr>)"
  using assms
proof (induction hs)
  case Nil
  have "read_line \<lparr>rd_bytes = bytes_of_str crlf @ rest, rd_end = e\<rparr> = Inr (crlf, \<lparr>rd_bytes = rest, rd_end = e\<rparr>)"
    using read_line_crlf [of "[]" rest e] by (simp add: ascii_def)
  then show ?case by (subst read_header_lines.simps) (simp add: trim_end_matches_def crlf_char_def)
next
  case (Cons h hs)
  let ?line = "fst h @ '': '' @ snd h"
  let ?rest = "bytes_of_str (concat (map header_line hs) @ crlf) @ rest"
  have h: "plain_header h" using Cons.prems by simp
  note L = plain_header_line [OF h]
  have "read_line \<lparr>rd_bytes = bytes_of_str (?line @ crlf) @ ?rest, rd_end = e\<rparr>
      = Inr (?line @ crlf, \<lparr>rd_bytes = ?rest, rd_end = e\<rparr>)"
    by (rule read_line_crlf [OF L(1,2)])
  moreover have "bytes_of_str (concat (map header_line (h # hs)) @ crlf) @ rest = bytes_of_str (?line @ crlf) @ ?rest"
    by (simp add: header_line_def bytes_of_str_def)
  ultimately have r: "read_line \<lparr>rd_bytes = bytes_of_str (concat (map header_line (h # hs)) @ crlf) @ rest, rd_end = e\<rparr>
      = Inr (?line @ crlf, \<lparr>rd_bytes = ?rest, rd_end = e\<rparr>)" by (simp only:)
  have tr: "trim_end_matches crlf_char (?line @ crlf) = ?line" by (rule trim_end_crlf [OF L(2,3)])
  have ne: "?line \<noteq> []" "?line @ crlf \<noteq> []" "CHR '':'' \<in> set ?line" by auto
  have IH: "read_header_lines hl \<lparr>rd_bytes = ?rest, rd_end = e\<rparr> = Inr (hs, \<lparr>rd_bytes = rest, rd_end = e\<rparr>)"
    by (rule Cons.IH) (use Cons.prems in simp)
  show ?case
    by (subst read_header_lines.simps) (simp only: r tr ne L(4) IH map_err.simps rbind.simps prod.case Let_def
        if_False simp_thms)
qed

lemma parse_status_line_wire:
  assumes "code \<le> u16_max"
  shows "parse_status_line (''HTTP/1.1 '' @ show_nat code @ '' '' @ reason) = Inr (code, reason)"
proof -
  have "CHR '' '' \<notin> set (show_nat code)" using show_nat_digits by (force simp: is_ascii_digit_def)
  then have "split_once CHR '' '' (show_nat code @ CHR '' '' # reason) = Some (show_nat code, reason)"
    by (rule split_once_append)
  moreover have "split_once CHR '' '' (''HTTP/1.1'' @ CHR '' '' # show_nat code @ '' '' @ reason)
      = Some (''HTTP/1.1'', show_nat code @ '' '' @ reason)" by (rule split_once_append) simp
  ultimately show ?thesis by (simp add: parse_status_line_def parse_show_nat [OF assms])
qed

lemma status_line_plain:
  assumes "plain_text reason"
  shows "plain_text (''HTTP/1.1 '' @ show_nat code @ '' '' @ reason)"
proof -
  have "is_ascii_digit c \<Longrightarrow> byte c < 128 \<and> c \<noteq> CHR 0x0A \<and> c \<noteq> CHR 0x0D" for c
    by (auto simp: is_ascii_digit_def)
  then show ?thesis using assms show_nat_digits [of _ code] by (fastforce simp: plain_text_def ascii_def)
qed

text \<open>One turn of the loop on a printed response.\<close>

lemma parse_responses_wire:
  assumes "code \<le> u16_max" "plain_text reason" "\<forall>h\<in>set hs. plain_header h"
  shows "parse_responses gz (Suc turns) meth m hl \<lparr>rd_bytes = response_wire code reason hs @ rest, rd_end = e\<rparr> =
    (if 100 \<le> code \<and> code < 200 \<and> code \<noteq> 101
     then parse_responses gz turns meth m hl \<lparr>rd_bytes = rest, rd_end = e\<rparr>
     else rbind (if meth = Head \<or> code \<in> {101, 204, 304} then Inr []
                 else rbind (read_body gz hs \<lparr>rd_bytes = rest, rd_end = e\<rparr> m) (\<lambda>body.
                      decode_content_encoding gz hs body m))
            (\<lambda>body. Inr (response_new code reason hs body)))"
proof -
  let ?line = "''HTTP/1.1 '' @ show_nat code @ '' '' @ reason"
  let ?rest = "bytes_of_str (concat (map header_line hs) @ crlf) @ rest"
  have p: "ascii ?line" "CHR 0x0A \<notin> set ?line" "CHR 0x0D \<notin> set ?line"
    using status_line_plain [OF assms(2), of code] unfolding plain_text_def by blast+
  have w: "response_wire code reason hs @ rest = bytes_of_str (?line @ crlf) @ ?rest"
    by (simp add: response_wire_def bytes_of_str_def)
  show ?thesis
    unfolding parse_responses.simps w read_line_crlf [OF p(1,2)] map_err.simps rbind.simps prod.case
      trim_end_crlf [OF p(2,3)] parse_status_line_wire [OF assms(1)] read_header_lines_wire [OF assms(3)] ..
qed

definition interim_wire :: "u8 list" where
  "interim_wire = response_wire 100 ''Continue'' []"

lemma parse_interim:
  "parse_responses gz (turns + n) meth m hl \<lparr>rd_bytes = concat (replicate n interim_wire) @ rest, rd_end = e\<rparr>
    = parse_responses gz turns meth m hl \<lparr>rd_bytes = rest, rd_end = e\<rparr>"
proof (induction n)
  case (Suc n)
  have "plain_text ''Continue''" by (simp add: plain_text_def ascii_def)
  then show ?case
    using parse_responses_wire [of 100 "''Continue''" "[]" gz "turns + n" meth m hl
        "concat (replicate n interim_wire) @ rest" e] Suc.IH
    by (simp add: interim_wire_def u16_max_def)
qed simp

text \<open>C15: a printed response with a \<open>Content-Length\<close>, after up to fifteen interim \<open>100 Continue\<close> responses, is parsed to its status, reason,
  headers and body, whatever follows it on the stream; with sixteen interim responses it is refused.\<close>

theorem response_wire_roundtrip:
  assumes "200 \<le> code" "code \<le> u16_max" "code \<notin> {204, 304}" "plain_text reason" "\<forall>h\<in>set hs. plain_header h"
    and "header_values ''transfer-encoding'' hs = []" "header_values ''content-length'' hs = [show_nat (length body)]"
    and "List.find (\<lambda>(k, _). eq_ignore_ascii_case k ''content-encoding'') hs = None"
    and "length body \<le> m" "m \<le> u64_max" "meth \<noteq> Head"
    and "n \<le> 16"
  shows "parse_for_method_with_limit gz
      \<lparr>rd_bytes = concat (replicate n interim_wire) @ response_wire code reason hs @ body @ rest, rd_end = e\<rparr> meth m hl
      = (if n < 16 then Inr (response_new code reason hs body) else Inl InvalidStatusLine)"
proof -
  let ?w = "response_wire code reason hs @ body @ rest"
  have len: "scan_lengths None [show_nat (length body)] = Inr (Some (length body))"
    using show_nat_digits [of _ "length body"] assms(9,10)
    by (simp add: parse_show_nat list_all_iff)
  have b: "read_body gz hs \<lparr>rd_bytes = body @ rest, rd_end = e\<rparr> m = Inr body"
    using assms(9) by (simp add: read_body_def transfer_codings_def assms(6,7) len take_read_to_end_def del: scan_lengths.simps)
  have d: "decode_content_encoding gz hs body m = Inr body"
    by (simp add: decode_content_encoding_def assms(8))
  show ?thesis
  proof (cases "n < 16")
    case True
    then have t: "16 = Suc (15 - n) + n" by simp
    show ?thesis
      unfolding parse_for_method_with_limit_def
      by (subst t) (use True assms(1,3,11) b d in \<open>simp only: parse_interim parse_responses_wire [OF assms(2,4,5)], simp\<close>)
  next
    case False
    with assms(12) have "n = 16" by simp
    with parse_interim [of gz 0 16 meth m hl ?w e] show ?thesis by (simp add: parse_for_method_with_limit_def)
  qed
qed

theorem response_wire_roundtrip_witness:
  "parse_for_method_with_limit (\<lambda>_. \<lparr>rd_bytes = [], rd_end = None\<rparr>)
     \<lparr>rd_bytes = concat (replicate 2 interim_wire) @ response_wire 200 ''OK'' [(''Content-Length'', ''2'')] @ [104, 105] @ [9],
      rd_end = None\<rparr> Get 100 StrictLines = Inr (response_new 200 ''OK'' [(''Content-Length'', ''2'')] [104, 105])"
proof -
  have s: "show_nat (length [104, 105 :: u8]) = ''2''" by (simp add: show_nat.simps char_of_def bit_0)
  have "plain_header (''Content-Length'', ''2'')"
    by (simp add: plain_header_def valid_header_def is_valid_header_def is_http_token_def is_tchar_def ascii_def visible_def std_eval)
  with s show ?thesis
    using response_wire_roundtrip [where code = 200 and reason = "''OK''" and hs = "[(''Content-Length'', ''2'')]" and body = "[104, 105]"
      and m = 100 and n = 2 and meth = Get and hl = StrictLines and e = None and rest = "[9]"
      and gz = "\<lambda>_. \<lparr>rd_bytes = [], rd_end = None\<rparr>"]
    by (simp add: header_values_def u16_max_def u64_max_def plain_text_def ascii_def std_eval)
qed

theorem response_body_bounded_witness:
  "\<exists>stages. stages \<noteq> [] \<and> last stages = [104, 105 :: u8] \<and> (\<forall>stage\<in>set stages. length stage \<le> 2)"
proof -
  let ?gz = "\<lambda>_ :: u8 list. \<lparr>rd_bytes = [], rd_end = None\<rparr>"
  have p: "plain_text ''OK''" by (simp add: plain_text_def ascii_def)
  have b: "read_body ?gz [] \<lparr>rd_bytes = [104, 105], rd_end = None\<rparr> 2 = Inr [104, 105]"
    by (simp add: read_body_def transfer_codings_def header_values_def read_bounded_to_end_def take_read_to_end_def u64_max_def)
  have d: "decode_content_encoding ?gz [] [104, 105] 2 = Inr [104, 105]" by (simp add: decode_content_encoding_def)
  have t: "(16 :: nat) = Suc 15" by simp
  have "parse_for_method_with_limit ?gz \<lparr>rd_bytes = response_wire 200 ''OK'' [] @ [104, 105], rd_end = None\<rparr> Get 2 StrictLines
      = Inr (response_new 200 ''OK'' [] [104, 105])"
    unfolding parse_for_method_with_limit_def t
    by (subst parse_responses_wire [OF _ p]) (simp_all add: u16_max_def b d)
  from response_body_bounded [OF this] show ?thesis by (auto simp: response_new_def)
qed

end
