(* ===== verification/Client.thy ===== *)
theory Client
  imports JarSecurity Response
begin

text \<open>
  \<open>src/http/client.rs\<close>: the client that attaches and stores cookies and follows redirects.  The
  network is a parameter: one exchange maps the state of the network and the shared cookie
  stores to a result and a new state, so another client may change a shared store
  during the exchange (no lock is held then).  A shared store is named by its
  address.  The system clock and the monotonic clock are oracles read in order.  The state also keeps the list of requests
  handed to the network, which no operation reads.
\<close>

section \<open>State\<close>

record Client =
  cl_cookie_jar :: CookieJar
  cl_shared_cookie_store :: "nat option"
  cl_max_redirects :: nat
  cl_user_agent :: string
  cl_insecure :: bool
  cl_transport :: bool
  cl_error_reporter :: bool

record 't net_state =
  st_client :: Client
  st_stores :: "nat \<Rightarrow> CookieJar"
  st_net :: 't
  st_tick :: nat
  st_reports :: "string list"
  st_sent :: "HttpRequest list"

text \<open>What lies outside the client.  The first two arguments of \<open>e_exchange\<close> select the injected transport and
  tell whether certificate checks are off; \<open>e_tls_error\<close> tells whether an error was caused by the
  TLS library; \<open>e_reset_pool\<close> empties the connection pool.\<close>

record ('u, 't) net_env =
  e_uc :: "'u url_crate"
  e_psl :: psl_crate
  e_host :: host_env
  e_clock :: "nat \<Rightarrow> system_time"
  e_instant :: "nat \<Rightarrow> int"
  e_exchange :: "bool \<Rightarrow> bool \<Rightarrow> HttpRequest \<Rightarrow> int option \<Rightarrow> (nat \<Rightarrow> CookieJar) \<Rightarrow> 't
      \<Rightarrow> (HttpParseError + HttpResponse) \<times> (nat \<Rightarrow> CookieJar) \<times> 't"
  e_tls_error :: "io_error \<Rightarrow> bool"
  e_reset_pool :: "'t \<Rightarrow> 't"

definition client_new :: "host_env \<Rightarrow> Client" where
  "client_new env = \<lparr>cl_cookie_jar = jar_new, cl_shared_cookie_store = None, cl_max_redirects = 10,
     cl_user_agent = default_user_agent env, cl_insecure = False, cl_transport = False, cl_error_reporter = False\<rparr>"

definition fork_for_reporting :: "Client \<Rightarrow> Client" where
  "fork_for_reporting c =
     c\<lparr>cl_cookie_jar := (cl_cookie_jar c)\<lparr>j_change_subscriptions :=
         clone_subscriptions (j_change_subscriptions (cl_cookie_jar c))\<rparr>\<rparr>"

definition fork_for_worker :: "Client \<Rightarrow> Client" where
  "fork_for_worker c = fork_for_reporting c"

definition set_shared_cookie_store :: "nat \<Rightarrow> Client \<Rightarrow> Client" where
  "set_shared_cookie_store a c = c\<lparr>cl_shared_cookie_store := Some a\<rparr>"

definition clear_shared_cookie_store :: "Client \<Rightarrow> Client" where
  "clear_shared_cookie_store c = c\<lparr>cl_shared_cookie_store := None\<rparr>"

definition set_max_redirects :: "nat \<Rightarrow> Client \<Rightarrow> Client" where
  "set_max_redirects n c = c\<lparr>cl_max_redirects := n\<rparr>"

definition set_insecure :: "bool \<Rightarrow> Client \<Rightarrow> Client" where
  "set_insecure b c = c\<lparr>cl_insecure := b\<rparr>"

definition set_error_reporter :: "Client \<Rightarrow> Client" where
  "set_error_reporter c = c\<lparr>cl_error_reporter := True\<rparr>"

definition set_transport :: "('u, 't) net_env \<Rightarrow> bool \<Rightarrow> 't net_state \<Rightarrow> 't net_state" where
  "set_transport env injected st =
     st\<lparr>st_net := e_reset_pool env (st_net st), st_client := (st_client st)\<lparr>cl_transport := injected\<rparr>\<rparr>"

definition set_user_agent :: "string \<Rightarrow> Client \<Rightarrow> Client" where
  "set_user_agent ua c = c\<lparr>cl_user_agent := ua\<rparr>"

section \<open>Reporting\<close>

fun failure_code :: "(io_error \<Rightarrow> bool) \<Rightarrow> HttpParseError \<Rightarrow> string" where
  "failure_code tls TooManyRedirects = ''HTTP_REDIRECT_FAILED''"
| "failure_code tls MissingLocation = ''HTTP_REDIRECT_FAILED''"
| "failure_code tls (Io io) =
     (if tls io then ''HTTP_TLS_FAILED''
      else if io_kind io = InvalidInput then ''HTTP_REQUEST_FAILED''
      else ''HTTP_TRANSPORT_FAILED'')"
| "failure_code tls _ = ''HTTP_RESPONSE_FAILED''"

definition report_code :: "string \<Rightarrow> 't net_state \<Rightarrow> 't net_state" where
  "report_code code st =
     (if cl_error_reporter (st_client st) then st\<lparr>st_reports := st_reports st @ [code]\<rparr> else st)"

definition report_failure :: "('u, 't) net_env \<Rightarrow> HttpParseError \<Rightarrow> 't net_state \<Rightarrow> 't net_state" where
  "report_failure env e st = report_code (failure_code (e_tls_error env) e) st"

definition report_resource_failure :: "'t net_state \<Rightarrow> 't net_state" where
  "report_resource_failure st = report_code ''HTTP_RESOURCE_LOAD_FAILED'' st"

section \<open>Redirects\<close>

definition is_redirect :: "nat \<Rightarrow> bool" where
  "is_redirect status \<longleftrightarrow> status \<in> {301, 302, 303, 307, 308}"

definition redirect_method :: "nat \<Rightarrow> Method \<Rightarrow> Method" where
  "redirect_method status original =
     (if (status = 301 \<or> status = 302) \<and> original = Post then Get
      else if status = 303 \<and> original \<noteq> Get \<and> original \<noteq> Head then Get
      else original)"

definition invalid_input :: "UrlParseError \<Rightarrow> HttpParseError" where
  "invalid_input e = Io (IoError InvalidInput (url_parse_error_to_string e))"

definition resolve_redirect_url :: "'u url_crate \<Rightarrow> Url \<Rightarrow> string \<Rightarrow> HttpParseError + Url" where
  "resolve_redirect_url uc base location = map_err invalid_input (resolve_url uc base location)"

definition same_url_origin :: "Url \<Rightarrow> Url \<Rightarrow> bool" where
  "same_url_origin a b \<longleftrightarrow>
     u_scheme a = u_scheme b \<and> eq_ignore_ascii_case (u_host a) (u_host b) \<and> u_port a = u_port b"

text \<open>The tail of the redirect loop: the request for the next hop.\<close>

definition copy_headers :: "(string \<times> string \<Rightarrow> bool) \<Rightarrow> headers \<Rightarrow> HttpRequest \<Rightarrow> HttpRequest" where
  "copy_headers P hs req = foldl (\<lambda>r (n, v). if P (n, v) then add_header n v r else r) req hs"

definition redirect_request ::
  "('u, 't) net_env \<Rightarrow> HttpRequest \<Rightarrow> HttpResponse \<Rightarrow> Url \<Rightarrow> HttpRequest" where
  "redirect_request env request response new_url =
     (let new_method = redirect_method (p_status_code response) (r_method request);
          same_origin = same_url_origin (r_url request) new_url;
          preserve_body = (new_method = r_method request);
          source = map_option (\<lambda>(_, policy). (header request ''Referer'',
            case response_referrer_policy (p_headers response) of Some p \<Rightarrow> p | None \<Rightarrow> policy)) (r_referrer_source request);
          r0 = request_new (e_host env) new_method new_url;
          r1 = (if r_require_public_ip request then require_public_ip r0 else r0);
          r2 = (case r_site_for_cookies request of
                  Some site \<Rightarrow> copy_cookie_partition_from request
                    (set_cookie_context (e_psl env) site (r_top_level_navigation request) r1)
                | None \<Rightarrow> r1);
          r3 = r2\<lparr>r_storage_access_eligible := (same_origin \<and> r_storage_access_eligible request),
                  r_cross_site_ancestry := r_cross_site_ancestry request\<rparr>;
          r4 = copy_headers (\<lambda>(name, _). \<not> (source \<noteq> None \<and> eq_ignore_ascii_case name ''Referer'')
                 \<and> copy_header_on_redirect name preserve_body same_origin) (r_headers request) r3;
          r5 = (case source of Some (Some src, policy) \<Rightarrow> set_referrer_source (e_uc env) src policy r4 | _ \<Rightarrow> r4)
      in if preserve_body then (case r_body request of Some body \<Rightarrow> set_body body r5 | None \<Rightarrow> r5) else r5)"

section \<open>Cookies of one exchange\<close>

definition unpartitioned_cookie_access_allowed :: "psl_crate \<Rightarrow> HttpRequest \<Rightarrow> bool" where
  "unpartitioned_cookie_access_allowed psl request \<longleftrightarrow>
     (if r_top_level_navigation request then True
      else
        (let same_site = (case r_site_for_cookies request of
               None \<Rightarrow> True | Some site \<Rightarrow> site_from_url psl site = site_from_url psl (r_url request))
         in \<not> r_cross_site_ancestry request \<and> same_site \<or> r_storage_access_eligible request))"

definition apply_user_agent :: "host_env \<Rightarrow> string \<Rightarrow> HttpRequest \<Rightarrow> HttpRequest" where
  "apply_user_agent env user_agent request =
     (if (case header request ''user-agent'' of None \<Rightarrow> True | Some v \<Rightarrow> v = default_user_agent env)
      then set_header ''User-Agent'' user_agent request else request)"

definition jar_of :: "nat option \<Rightarrow> 't net_state \<Rightarrow> CookieJar" where
  "jar_of shared st = (case shared of Some a \<Rightarrow> st_stores st a | None \<Rightarrow> cl_cookie_jar (st_client st))"

definition put_jar :: "nat option \<Rightarrow> CookieJar \<Rightarrow> 't net_state \<Rightarrow> 't net_state" where
  "put_jar shared jar st =
     (case shared of
        Some a \<Rightarrow> st\<lparr>st_stores := (st_stores st)(a := jar)\<rparr>
      | None \<Rightarrow> st\<lparr>st_client := (st_client st)\<lparr>cl_cookie_jar := jar\<rparr>\<rparr>)"

definition request_site :: "HttpRequest \<Rightarrow> Url" where
  "request_site request = (case r_site_for_cookies request of Some s \<Rightarrow> s | None \<Rightarrow> r_url request)"

text \<open>Attaching the jar's cookies reads the clock once.\<close>

definition attach_cookies ::
  "('u, 't) net_env \<Rightarrow> nat option \<Rightarrow> CookieAccessContext \<Rightarrow> HttpRequest \<Rightarrow> 't net_state \<Rightarrow> HttpRequest \<times> 't net_state" where
  "attach_cookies env shared access request st =
     (let cookie_header = cookie_header_for_request_with_access (e_psl env) (e_clock env (st_tick st))
            (r_url request) (request_site request) (r_top_level_navigation request) (r_method request)
            access (jar_of shared st);
          st' = st\<lparr>st_tick := st_tick st + 1\<rparr>
      in (case cookie_header of Some v \<Rightarrow> add_header ''Cookie'' v request | None \<Rightarrow> request, st'))"

text \<open>Storing one header reads the clock up to three times; the model always advances it by three.\<close>

definition store_set_cookie ::
  "('u, 't) net_env \<Rightarrow> CookieAccessContext \<Rightarrow> HttpRequest \<Rightarrow> CookieJar \<times> nat \<Rightarrow> string \<times> string \<Rightarrow> CookieJar \<times> nat" where
  "store_set_cookie env access request acc h =
     (let (jar, t) = acc; (name, value) = h in
      if eq_ignore_ascii_case name ''set-cookie'' then
        (add_from_header_for_request_with_access (e_psl env)
           (e_clock env t, e_clock env (t + 1), e_clock env (t + 2)) value (r_url request)
           (request_site request) (r_top_level_navigation request) access jar, t + 3)
      else acc)"

definition store_cookies ::
  "('u, 't) net_env \<Rightarrow> nat option \<Rightarrow> CookieAccessContext \<Rightarrow> HttpRequest \<Rightarrow> HttpResponse \<Rightarrow> 't net_state \<Rightarrow> 't net_state" where
  "store_cookies env shared access request response st =
     (let (jar, t) = foldl (store_set_cookie env access request) (jar_of shared st, st_tick st) (p_headers response)
      in put_jar shared jar (st\<lparr>st_tick := t\<rparr>))"

text \<open>One exchange with the injected transport or the connection pool.\<close>

definition exchange ::
  "('u, 't) net_env \<Rightarrow> int option \<Rightarrow> HttpRequest \<Rightarrow> 't net_state \<Rightarrow> (HttpParseError + HttpResponse) \<times> 't net_state" where
  "exchange env timeout request st =
     (let (result, stores, net) =
        e_exchange env (cl_transport (st_client st)) (cl_insecure (st_client st)) request timeout (st_stores st) (st_net st)
      in (result, st\<lparr>st_stores := stores, st_net := net, st_sent := st_sent st @ [request]\<rparr>))"

section \<open>The redirect loop\<close>

type_synonym 't observer = "HttpRequest \<Rightarrow> HttpResponse \<Rightarrow> 't \<Rightarrow> bool \<times> 't"

definition observed :: "'t observer option \<Rightarrow> HttpRequest \<Rightarrow> HttpResponse \<Rightarrow> 't net_state \<Rightarrow> bool \<times> 't net_state" where
  "observed observe request response st =
     (case observe of
        None \<Rightarrow> (True, st)
      | Some f \<Rightarrow> (let (go, net) = f request response (st_net st) in (go, st\<lparr>st_net := net\<rparr>)))"

definition prepare_request :: "('u, 't) net_env \<Rightarrow> HttpRequest \<Rightarrow> 't net_state \<Rightarrow> HttpRequest \<times> CookieAccessContext" where
  "prepare_request env request0 st =
     (let request = apply_user_agent (e_host env) (cl_user_agent (st_client st)) request0;
          cookie_access = unpartitioned_cookie_access_allowed (e_psl env) request;
          access = cookie_access_context (e_psl env) request cookie_access
      in (if \<not> cookie_access then remove_header ''cookie'' request else request, access))"

fun send_loop ::
  "('u, 't) net_env \<Rightarrow> nat option \<Rightarrow> 't observer option \<Rightarrow> nat \<Rightarrow> HttpRequest \<Rightarrow> 't net_state
     \<Rightarrow> (HttpParseError + HttpResponse option) \<times> 't net_state" where
  "send_loop env shared observe redirects_remaining request0 st0 =
     (let (request1, access) = prepare_request env request0 st0;
          (request, st1) = attach_cookies env shared access request1 st0
      in case exchange env None request st1 of
           (Inl e, st2) \<Rightarrow> (Inl e, st2)
         | (Inr response, st2) \<Rightarrow>
             (let st3 = store_cookies env shared access request response st2;
                  (go, st4) = observed observe request response st3
              in if \<not> go then (Inr None, st4)
                 else if \<not> is_redirect (p_status_code response) then
                   (Inr (Some (response\<lparr>p_effective_url := Some (r_url request),
                      p_redirect_count := cl_max_redirects (st_client st4) - redirects_remaining,
                      p_final_request_referrer := header request ''Referer''\<rparr>)), st4)
                 else case redirects_remaining of
                   0 \<Rightarrow> (Inl TooManyRedirects, st4)
                 | Suc remaining \<Rightarrow>
                     (case response_header response ''location'' of
                        None \<Rightarrow> (Inl MissingLocation, st4)
                      | Some location \<Rightarrow>
                          (case resolve_redirect_url (e_uc env) (r_url request) location of
                             Inl e \<Rightarrow> (Inl e, st4)
                           | Inr new_url \<Rightarrow>
                               send_loop env shared observe remaining
                                 (redirect_request env request response new_url) st4))))"

declare send_loop.simps [simp del]

definition send_with_cookie_store ::
  "('u, 't) net_env \<Rightarrow> HttpRequest \<Rightarrow> nat option \<Rightarrow> 't observer option \<Rightarrow> 't net_state
     \<Rightarrow> (HttpParseError + HttpResponse option) \<times> 't net_state" where
  "send_with_cookie_store env request shared observe st =
     (let request1 = (if r_site_for_cookies request = None
            then set_cookie_context (e_psl env) (r_url request) (r_top_level_navigation request) request else request)
      in send_loop env shared observe (cl_max_redirects (st_client st)) request1 st)"

text \<open>\<open>expect\<close> on an absent response is a panic, \<open>None\<close> here.\<close>

definition unobserved ::
  "('u, 't) net_env \<Rightarrow> (HttpParseError + HttpResponse option) \<times> 't net_state
     \<Rightarrow> (HttpParseError + HttpResponse) option \<times> 't net_state" where
  "unobserved env rs =
     (case rs of
        (Inl e, st) \<Rightarrow> (Some (Inl e), report_failure env e st)
      | (Inr (Some response), st) \<Rightarrow> (Some (Inr response), st)
      | (Inr None, st) \<Rightarrow> (None, st))"

definition send ::
  "('u, 't) net_env \<Rightarrow> HttpRequest \<Rightarrow> 't net_state \<Rightarrow> (HttpParseError + HttpResponse) option \<times> 't net_state" where
  "send env request st =
     unobserved env (send_with_cookie_store env request (cl_shared_cookie_store (st_client st)) None st)"

definition send_with_shared_cookies ::
  "('u, 't) net_env \<Rightarrow> HttpRequest \<Rightarrow> nat \<Rightarrow> 't net_state \<Rightarrow> (HttpParseError + HttpResponse) option \<times> 't net_state" where
  "send_with_shared_cookies env request cookies st =
     unobserved env (send_with_cookie_store env request (Some cookies) None st)"

definition send_observing_navigation ::
  "('u, 't) net_env \<Rightarrow> HttpRequest \<Rightarrow> 't observer \<Rightarrow> 't net_state
     \<Rightarrow> (HttpParseError + HttpResponse option) \<times> 't net_state" where
  "send_observing_navigation env request observe st =
     (case send_with_cookie_store env request (cl_shared_cookie_store (st_client st)) (Some observe) st of
        (Inl e, st') \<Rightarrow> (Inl e, report_failure env e st')
      | (Inr r, st') \<Rightarrow> (Inr r, st'))"

definition client_get ::
  "('u, 't) net_env \<Rightarrow> string \<Rightarrow> 't net_state \<Rightarrow> (HttpParseError + HttpResponse) option \<times> 't net_state" where
  "client_get env url st =
     (case request_get (e_host env) (e_uc env) url of
        Inl e \<Rightarrow> (Some (Inl (invalid_input e)), report_failure env (invalid_input e) st)
      | Inr request \<Rightarrow> send env request st)"

definition client_get_public ::
  "('u, 't) net_env \<Rightarrow> string \<Rightarrow> 't net_state \<Rightarrow> (HttpParseError + HttpResponse) option \<times> 't net_state" where
  "client_get_public env url st =
     (case request_get (e_host env) (e_uc env) url of
        Inl e \<Rightarrow> (Some (Inl (invalid_input e)), report_failure env (invalid_input e) st)
      | Inr request \<Rightarrow> send env (require_public_ip request) st)"

section \<open>A single exchange\<close>

definition send_once_with_timeout ::
  "('u, 't) net_env \<Rightarrow> HttpRequest \<Rightarrow> bool \<Rightarrow> int option \<Rightarrow> 't net_state
     \<Rightarrow> (HttpParseError + HttpResponse) \<times> 't net_state" where
  "send_once_with_timeout env request0 credentials timeout st0 =
     (let request1 = remove_header ''cookie''
            (apply_user_agent (e_host env) (cl_user_agent (st_client st0)) request0);
          shared = cl_shared_cookie_store (st_client st0);
          cookie_access = (credentials \<and> unpartitioned_cookie_access_allowed (e_psl env) request1);
          access = cookie_access_context (e_psl env) request1 cookie_access;
          (request, st1) = (if credentials then attach_cookies env shared access request1 st0 else (request1, st0))
      in case exchange env timeout request st1 of
           (Inl e, st2) \<Rightarrow> (Inl e, report_failure env e st2)
         | (Inr response, st2) \<Rightarrow>
             (Inr response, if credentials then store_cookies env shared access request response st2 else st2))"

end
