(* ===== verification/ClientProps.thy ===== *)
theory ClientProps
  imports Client
begin

text \<open>
  What a caller of the client can rely on: the redirect chain is bounded, confines credentials to their origin and keeps the
  policy flags of the first request; the jars stay well formed; a credential-less exchange neither
  sends nor stores cookies; and \<open>send\<close> never panics.
\<close>

section \<open>Headers of derived requests\<close>

lemma header_None_iff: "header req m = None \<longleftrightarrow> (\<forall>(n, v)\<in>set (r_headers req). \<not> eq_ignore_ascii_case n m)"
  by (auto simp: header_def find_None_iff)

lemma header_add: "header (add_header n v req) m =
    (if header req m = None \<and> is_valid_header n v \<and> eq_ignore_ascii_case n m then Some v else header req m)"
  by (auto simp: header_def add_header_def try_add_header_def find_append split: option.splits)

lemma header_set_other: "\<not> eq_ignore_ascii_case n m \<Longrightarrow> header (set_header n v req) m = header req m"
  by (cases "is_valid_header n v") (simp_all add: header_set request_headers.put_refused)

lemma header_set_body_other:
  "\<not> eq_ignore_ascii_case ''content-length'' m \<Longrightarrow> header (set_body b req) m = header req m"
proof -
  assume n: "\<not> eq_ignore_ascii_case ''content-length'' m"
  then have "List.find (\<lambda>(k, _). eq_ignore_ascii_case k m)
      (filter (\<lambda>(k, _). \<not> eq_ignore_ascii_case k ''content-length'') (r_headers req)) = List.find (\<lambda>(k, _). eq_ignore_ascii_case k m) (r_headers req)"
    by (intro find_filter_other) (auto simp: eq_ignore_ascii_case_def)
  moreover have "\<not> eq_ignore_ascii_case ''Content-Length'' m" using n by (simp add: std_eval)
  ultimately show ?thesis by (simp add: header_def set_body_def find_append split: option.split)
qed

lemma header_referrer_other:
  "\<not> eq_ignore_ascii_case ''Referer'' m \<Longrightarrow> header (set_referrer_source uc src p req) m = header req m"
  by (simp add: set_referrer_source_def Let_def header_set_other header_remove) (simp add: header_def)

lemma header_copy_None:
  assumes "header req m = None" "\<And>n v. P (n, v) \<Longrightarrow> \<not> eq_ignore_ascii_case n m"
  shows "header (copy_headers P hs req) m = None"
  using assms(1) unfolding copy_headers_def
  by (induction hs arbitrary: req) (auto simp: header_add assms(2))

text \<open>Everything but the headers is untouched by header operations.\<close>

definition same_context :: "HttpRequest \<Rightarrow> HttpRequest \<Rightarrow> bool" where
  "same_context a b \<longleftrightarrow> r_headers_update (\<lambda>_. []) a = r_headers_update (\<lambda>_. []) b"

lemma same_context_fields:
  "same_context a b \<Longrightarrow> r_method a = r_method b \<and> r_url a = r_url b \<and> r_body a = r_body b
     \<and> r_require_public_ip a = r_require_public_ip b \<and> r_site_for_cookies a = r_site_for_cookies b
     \<and> r_cookie_top_level_site a = r_cookie_top_level_site b \<and> r_top_level_navigation a = r_top_level_navigation b
     \<and> r_storage_access_eligible a = r_storage_access_eligible b \<and> r_cross_site_ancestry a = r_cross_site_ancestry b"
  by (cases a; cases b) (simp add: same_context_def)

lemma same_context_refl [simp]: "same_context a a"
  by (simp add: same_context_def)

lemma same_context_headers [simp]:
  "same_context (add_header n v r) s = same_context r s" "same_context (set_header n v r) s = same_context r s"
  "same_context (remove_header n r) s = same_context r s"
  by (simp_all add: same_context_def add_header_def try_add_header_def set_header_def try_set_header_def remove_header_def)

lemma same_context_copy: "same_context (copy_headers P hs r) r"
proof -
  have "same_context r' r \<Longrightarrow> same_context (foldl (\<lambda>r (n, v). if P (n, v) then add_header n v r else r) r' hs) r" for r'
    by (induction hs arbitrary: r') auto
  then show ?thesis by (simp add: copy_headers_def)
qed

lemma same_context_user_agent: "same_context (apply_user_agent env ua r) r"
  by (simp add: apply_user_agent_def)

section \<open>One hop\<close>

text \<open>What the request after a redirect keeps of, and must not take from, the request before it.\<close>

definition hop_ok :: "HttpRequest \<Rightarrow> HttpRequest \<Rightarrow> bool" where
  "hop_ok a b \<longleftrightarrow>
     r_require_public_ip b = r_require_public_ip a
   \<and> r_site_for_cookies b = r_site_for_cookies a
   \<and> r_cookie_top_level_site b = r_cookie_top_level_site a
   \<and> r_top_level_navigation b = r_top_level_navigation a
   \<and> r_cross_site_ancestry b = r_cross_site_ancestry a
   \<and> r_method b \<in> {r_method a, Get}
   \<and> r_body b = (if r_method b = r_method a then r_body a else None)
   \<and> (r_storage_access_eligible b \<longrightarrow> r_storage_access_eligible a \<and> same_url_origin (r_url a) (r_url b))
   \<and> (\<not> same_url_origin (r_url a) (r_url b) \<longrightarrow>
        header b ''authorization'' = None \<and> header b ''proxy-authorization'' = None)"

text \<open>A turn of the loop: the request that is handed to the network and the state before its cookies are attached.\<close>

type_synonym 't turn = "HttpRequest \<times> 't net_state"

text \<open>The cookies of a request are those that the jar of its turn selects at that time for its own URL and context.\<close>

definition cookies_selected :: "('u, 't) net_env \<Rightarrow> nat option \<Rightarrow> 't turn \<Rightarrow> bool" where
  "cookies_selected env shared = (\<lambda>(b, s).
     header b ''cookie'' =
       (case cookie_header_for_request_with_access (e_psl env) (e_clock env (st_tick s)) (r_url b) (request_site b)
               (r_top_level_navigation b) (r_method b)
               (cookie_access_context (e_psl env) b (unpartitioned_cookie_access_allowed (e_psl env) b)) (jar_of shared s) of
          Some v \<Rightarrow> if is_valid_header ''Cookie'' v then Some v else None
        | None \<Rightarrow> None))"

text \<open>The turn \<open>(b, s')\<close> follows \<open>(a, s)\<close>: \<open>a\<close> was answered with a redirect to the URL of \<open>b\<close>, and \<open>s'\<close> has the cookies of that
  response in its jar.\<close>

definition redirected_turn :: "('u, 't) net_env \<Rightarrow> nat option \<Rightarrow> 't turn \<Rightarrow> 't turn \<Rightarrow> bool" where
  "redirected_turn env shared = (\<lambda>(a, s) (b, s').
     \<exists>resp s2 location. exchange env None a (s\<lparr>st_tick := st_tick s + 1\<rparr>) = (Inr resp, s2) \<and> is_redirect (p_status_code resp)
       \<and> response_header resp ''location'' = Some location \<and> resolve_redirect_url (e_uc env) (r_url a) location = Inr (r_url b)
       \<and> r_method b = redirect_method (p_status_code resp) (r_method a)
       \<and> s' = store_cookies env shared
           (cookie_access_context (e_psl env) a (unpartitioned_cookie_access_allowed (e_psl env) a)) a resp s2)"

lemma redirect_request_fields:
  assumes "r_site_for_cookies a = Some site" "b = redirect_request env a resp url"
  shows "r_require_public_ip b = r_require_public_ip a" "r_site_for_cookies b = r_site_for_cookies a"
    "r_cookie_top_level_site b = r_cookie_top_level_site a" "r_top_level_navigation b = r_top_level_navigation a"
    "r_cross_site_ancestry b = r_cross_site_ancestry a" "r_url b = url"
    "r_method b = redirect_method (p_status_code resp) (r_method a)"
    "r_body b = (if r_method b = r_method a then r_body a else None)"
    "r_storage_access_eligible b = (same_url_origin (r_url a) url \<and> r_storage_access_eligible a)"
proof -
  have body: "r_url (set_body x r) = r_url r \<and> r_method (set_body x r) = r_method r \<and> r_require_public_ip (set_body x r) = r_require_public_ip r
     \<and> r_site_for_cookies (set_body x r) = r_site_for_cookies r \<and> r_cookie_top_level_site (set_body x r) = r_cookie_top_level_site r
     \<and> r_top_level_navigation (set_body x r) = r_top_level_navigation r \<and> r_body (set_body x r) = Some x
     \<and> r_storage_access_eligible (set_body x r) = r_storage_access_eligible r \<and> r_cross_site_ancestry (set_body x r) = r_cross_site_ancestry r" for x r
    by (simp add: set_body_def)
  have ref: "same_context (set_referrer_source uc s p r) (r\<lparr>r_referrer_source := Some (s, p)\<rparr>)" for uc :: "'a url_crate" and s p r
    by (simp add: set_referrer_source_def Let_def)
  note F = same_context_fields [OF same_context_copy] same_context_fields [OF ref]
  show "r_require_public_ip b = r_require_public_ip a" "r_site_for_cookies b = r_site_for_cookies a"
    "r_cookie_top_level_site b = r_cookie_top_level_site a" "r_top_level_navigation b = r_top_level_navigation a"
    "r_cross_site_ancestry b = r_cross_site_ancestry a" "r_url b = url"
    "r_method b = redirect_method (p_status_code resp) (r_method a)"
    "r_body b = (if r_method b = r_method a then r_body a else None)"
    "r_storage_access_eligible b = (same_url_origin (r_url a) url \<and> r_storage_access_eligible a)"
    unfolding assms(2) redirect_request_def Let_def
    by (auto simp: assms(1) body F request_new_def require_public_ip_def set_cookie_context_def
        copy_cookie_partition_from_def split: option.splits)
qed

lemma redirect_request_header_None:
  assumes "\<And>n pb. eq_ignore_ascii_case n m \<Longrightarrow> \<not> copy_header_on_redirect n pb (same_url_origin (r_url a) url)"
    and "\<not> eq_ignore_ascii_case ''Referer'' m" "\<not> eq_ignore_ascii_case ''content-length'' m"
    and "list_all (\<lambda>n. \<not> eq_ignore_ascii_case n m) [''Host'', ''User-Agent'', ''Accept-Language'', ''Accept-Encoding'']"
  shows "header (redirect_request env a resp url) m = None"
proof -
  define start where "start = (let r0 = request_new (e_host env) (redirect_method (p_status_code resp) (r_method a)) url;
          r1 = (if r_require_public_ip a then require_public_ip r0 else r0);
          r2 = (case r_site_for_cookies a of
                  Some site \<Rightarrow> copy_cookie_partition_from a (set_cookie_context (e_psl env) site (r_top_level_navigation a) r1)
                | None \<Rightarrow> r1) in r2)"
  have "r_headers start = r_headers (request_new (e_host env) (redirect_method (p_status_code resp) (r_method a)) url)"
    by (auto simp: start_def Let_def require_public_ip_def copy_cookie_partition_from_def set_cookie_context_def split: option.splits)
  then have "header (start\<lparr>r_storage_access_eligible := x, r_cross_site_ancestry := y\<rparr>) m = None" for x y
    using assms(4) by (auto simp: header_None_iff request_new_def)
  then have copied: "header (copy_headers P hs (start\<lparr>r_storage_access_eligible := x, r_cross_site_ancestry := y\<rparr>)) m = None"
    if "\<And>n v. P (n, v) \<Longrightarrow> \<exists>pb. copy_header_on_redirect n pb (same_url_origin (r_url a) url)" for P hs x y
    using assms(1) that by (intro header_copy_None) (simp, blast)
  show ?thesis
    unfolding redirect_request_def Let_def start_def [unfolded Let_def, symmetric]
    by (auto simp: header_set_body_other header_referrer_other assms(2,3) intro!: copied split: option.split)
qed

lemma redirect_drops_cookie: "header (redirect_request env a resp url) ''cookie'' = None"
  by (rule redirect_request_header_None) (auto simp: copy_header_on_redirect_def std_eval)

lemma redirect_drops_credentials:
  assumes "\<not> same_url_origin (r_url a) url" "m \<in> {''authorization'', ''proxy-authorization''}"
  shows "header (redirect_request env a resp url) m = None"
  using assms by (intro redirect_request_header_None) (auto simp: copy_header_on_redirect_def std_eval)

text \<open>The request that is handed to the network for the request \<open>request0\<close> of a turn of the loop.\<close>

definition sent :: "('u, 't) net_env \<Rightarrow> nat option \<Rightarrow> HttpRequest \<Rightarrow> 't net_state \<Rightarrow> HttpRequest \<times> 't net_state" where
  "sent env shared request0 st =
     attach_cookies env shared (snd (prepare_request env request0 st)) (fst (prepare_request env request0 st)) st"

definition derived :: "HttpRequest \<Rightarrow> HttpRequest \<Rightarrow> bool" where
  "derived req r0 \<longleftrightarrow> same_context req r0 \<and>
     (\<forall>m. \<not> eq_ignore_ascii_case ''user-agent'' m \<longrightarrow> \<not> eq_ignore_ascii_case ''cookie'' m \<longrightarrow> header req m = header r0 m)"

lemma eq_ignore_names [simp]:
  "eq_ignore_ascii_case ''User-Agent'' m = eq_ignore_ascii_case ''user-agent'' m"
  "eq_ignore_ascii_case ''Cookie'' m = eq_ignore_ascii_case ''cookie'' m"
  by (simp_all add: std_eval)

lemma user_agent_header:
  "\<not> eq_ignore_ascii_case ''user-agent'' m \<Longrightarrow> header (apply_user_agent env ua r) m = header r m"
  by (simp add: apply_user_agent_def header_set_other)

lemma prepare_derived: "derived (fst (prepare_request env r st)) r"
  by (auto simp: derived_def prepare_request_def Let_def user_agent_header header_remove same_context_user_agent)

lemma sent_derived: "derived (fst (sent env shared r st)) r"
  using prepare_derived [of env r st]
  by (auto simp: derived_def sent_def attach_cookies_def Let_def header_add split: option.splits)

lemma sent_state [simp]:
  "st_sent (snd (sent env shared r st)) = st_sent st" "st_client (snd (sent env shared r st)) = st_client st"
  "st_stores (snd (sent env shared r st)) = st_stores st"
  by (simp_all add: sent_def attach_cookies_def Let_def)

lemma request_site_context: "same_context a b \<Longrightarrow> request_site a = request_site b"
  by (simp add: request_site_def same_context_fields split: option.split)

lemma access_context:
  "same_context a b \<Longrightarrow> unpartitioned_cookie_access_allowed psl a = unpartitioned_cookie_access_allowed psl b"
  "same_context a b \<Longrightarrow> cookie_access_context psl a u = cookie_access_context psl b u"
  by (simp_all add: unpartitioned_cookie_access_allowed_def cookie_access_context_def same_context_fields split: option.split)

lemma prepare_access:
  "snd (prepare_request env r st) = cookie_access_context (e_psl env) r (unpartitioned_cookie_access_allowed (e_psl env) r)"
  by (simp add: prepare_request_def Let_def access_context [OF same_context_user_agent])

lemma prepare_no_cookie:
  "header r ''cookie'' = None \<or> \<not> unpartitioned_cookie_access_allowed (e_psl env) r \<Longrightarrow> header (fst (prepare_request env r st)) ''cookie'' = None"
  by (auto simp: prepare_request_def Let_def header_remove user_agent_header std_eval access_context [OF same_context_user_agent])

lemma sent_tick: "snd (sent env shared r st) = st\<lparr>st_tick := st_tick st + 1\<rparr>"
  by (simp add: sent_def attach_cookies_def Let_def)

lemma sent_context: "same_context (fst (sent env shared r st)) r"
  using sent_derived [of env shared r st] by (simp add: derived_def)

lemma sent_access:
  "snd (prepare_request env r st)
     = cookie_access_context (e_psl env) (fst (sent env shared r st)) (unpartitioned_cookie_access_allowed (e_psl env) (fst (sent env shared r st)))"
  unfolding prepare_access access_context(1) [OF sent_context] access_context(2) [OF sent_context] ..

lemma sent_cookies:
  assumes "header r ''cookie'' = None \<or> \<not> unpartitioned_cookie_access_allowed (e_psl env) r"
  shows "cookies_selected env shared (fst (sent env shared r st), st)"
proof -
  let ?p = "fst (prepare_request env r st)" and ?b = "fst (sent env shared r st)"
  define jh where "jh = cookie_header_for_request_with_access (e_psl env) (e_clock env (st_tick st))
            (r_url r) (request_site r) (r_top_level_navigation r) (r_method r)
            (cookie_access_context (e_psl env) r (unpartitioned_cookie_access_allowed (e_psl env) r)) (jar_of shared st)"
  have p: "same_context ?p r" using prepare_derived [of env r st] by (simp add: derived_def)
  have s: "?b = (case jh of Some v \<Rightarrow> add_header ''Cookie'' v ?p | None \<Rightarrow> ?p)"
    using same_context_fields [OF p] request_site_context [OF p]
    by (simp add: sent_def attach_cookies_def Let_def prepare_access jh_def)
  have "header ?b ''cookie'' = (case jh of Some v \<Rightarrow> if is_valid_header ''Cookie'' v then Some v else None | None \<Rightarrow> None)"
    using prepare_no_cookie [OF assms, of st] by (simp add: s header_add split: option.split) (simp add: std_eval)
  moreover have c: "same_context ?b r" by (rule sent_context)
  ultimately show ?thesis
    using same_context_fields [OF c] request_site_context [OF c] access_context [OF c] by (simp add: cookies_selected_def jh_def)
qed

lemma derived_hop:
  assumes "derived b (redirect_request env a resp url)" "r_site_for_cookies a \<noteq> None"
  shows "hop_ok a b"
proof -
  let ?r = "redirect_request env a resp url"
  obtain site where site: "r_site_for_cookies a = Some site" using assms(2) by blast
  note R = redirect_request_fields [OF site refl, of env resp url]
  from assms(1) have c: "same_context b ?r" and h: "header b ''authorization'' = header ?r ''authorization''"
    "header b ''proxy-authorization'' = header ?r ''proxy-authorization''"
    by (simp_all add: derived_def std_eval)
  note F = same_context_fields [OF c]
  have "redirect_method s m \<in> {m, Get}" for s m by (simp add: redirect_method_def)
  then show ?thesis
    using F R h redirect_drops_credentials [of a url _ env resp]
    unfolding hop_ok_def by (intro conjI) auto
qed

text \<open>A redirected request starts from the built-in \<open>User-Agent\<close> and only appends the copied headers, so a
  \<open>User-Agent\<close> the caller had set on the request is shadowed, and replaced by the client's when the hop is sent.\<close>

lemma header_copy_Some: "header req m = Some v \<Longrightarrow> header (copy_headers P hs req) m = Some v"
  unfolding copy_headers_def by (induction hs arbitrary: req) (auto simp: header_add)

lemma request_new_user_agent:
  "\<exists>me url. r_headers r = r_headers (request_new henv me url) \<Longrightarrow>
     header (copy_headers P hs r) ''user-agent'' = Some (default_user_agent henv)"
  by (rule header_copy_Some) (auto simp: header_def request_new_def std_eval)

lemma redirect_resets_user_agent:
  "header (redirect_request env a resp url) ''user-agent'' = Some (default_user_agent (e_host env))"
  unfolding redirect_request_def Let_def
  by (auto simp: header_set_body_other header_referrer_other require_public_ip_def copy_cookie_partition_from_def
      set_cookie_context_def eq_ignore_ascii_case_def to_ascii_lowercase_def to_lower_def
      split: option.split intro!: request_new_user_agent) (rule exI, rule exI, rule refl)+

section \<open>The chain of requests\<close>

lemma exchange_state:
  assumes "exchange env t req st = (res, st')"
  shows "st_sent st' = st_sent st @ [req]" "st_client st' = st_client st"
  using assms by (auto simp: exchange_def Let_def split: prod.splits)

lemma put_jar_state [simp]:
  "st_sent (put_jar shared jar st) = st_sent st"
  "cl_max_redirects (st_client (put_jar shared jar st)) = cl_max_redirects (st_client st)"
  by (simp_all add: put_jar_def split: option.split)

lemma store_cookies_state [simp]:
  "st_sent (store_cookies env shared access req resp st) = st_sent st"
  "cl_max_redirects (st_client (store_cookies env shared access req resp st)) = cl_max_redirects (st_client st)"
  by (simp_all add: store_cookies_def Let_def split: prod.split)

lemma observed_state:
  assumes "observed ob req resp st = (go, st')"
  shows "st_sent st' = st_sent st" "st_client st' = st_client st" "st_stores st' = st_stores st" "ob = None \<Longrightarrow> go"
  using assms by (auto simp: observed_def Let_def split: option.splits prod.splits)

text \<open>The outcomes of one turn of the loop.\<close>

lemma send_loop_cases:
  fixes env :: "('u, 't) net_env"
  assumes "send_loop env shared ob n r st = (res, st')"
  defines "req \<equiv> fst (sent env shared r st)"
  obtains (failed) e where "exchange env None req (snd (sent env shared r st)) = (Inl e, st')" "res = Inl e"
    | (answered) resp st2 go st4 where
        "exchange env None req (snd (sent env shared r st)) = (Inr resp, st2)"
        "observed ob req resp (store_cookies env shared (snd (prepare_request env r st)) req resp st2) = (go, st4)"
        "st' = st4"
        "\<not> go \<and> res = Inr None
         \<or> go \<and> \<not> is_redirect (p_status_code resp) \<and>
            res = Inr (Some (resp\<lparr>p_effective_url := Some (r_url req), p_redirect_count := cl_max_redirects (st_client st4) - n,
              p_final_request_referrer := header req ''Referer''\<rparr>))
         \<or> go \<and> is_redirect (p_status_code resp) \<and> (\<exists>e. res = Inl e) \<and> (n = 0 \<longrightarrow> res = Inl TooManyRedirects)"
    | (redirected) resp st2 st4 m url where
        "exchange env None req (snd (sent env shared r st)) = (Inr resp, st2)"
        "observed ob req resp (store_cookies env shared (snd (prepare_request env r st)) req resp st2) = (True, st4)"
        "is_redirect (p_status_code resp)" "n = Suc m"
        "send_loop env shared ob m (redirect_request env req resp url) st4 = (res, st')"
        "\<exists>l. response_header resp ''location'' = Some l \<and> resolve_redirect_url (e_uc env) (r_url req) l = Inr url"
proof -
  obtain a access where p: "prepare_request env r st = (a, access)" by force
  obtain b st1 where b: "attach_cookies env shared access a st = (b, st1)" by force
  have s: "sent env shared r st = (b, st1)" by (simp add: sent_def p b)
  obtain x st2 where x: "exchange env None b st1 = (x, st2)" by force
  show ?thesis
  proof (cases x)
    case (Inl e)
    with assms(1) p b x have "res = Inl e" "st' = st2" by (subst (asm) send_loop.simps, simp)+
    then show ?thesis using failed x Inl by (simp add: req_def s)
  next
    case (Inr resp)
    obtain go st4 where o4: "observed ob b resp (store_cookies env shared access b resp st2) = (go, st4)" by force
    note run = assms(1) [unfolded send_loop.simps [of env shared ob n r st] Let_def p prod.case b x Inr sum.case o4]
    show ?thesis
    proof (cases "go \<and> is_redirect (p_status_code resp) \<and> n \<noteq> 0")
      case False
      with run have "st' = st4" "\<not> go \<and> res = Inr None
         \<or> go \<and> \<not> is_redirect (p_status_code resp) \<and>
            res = Inr (Some (resp\<lparr>p_effective_url := Some (r_url b), p_redirect_count := cl_max_redirects (st_client st4) - n,
              p_final_request_referrer := header b ''Referer''\<rparr>))
         \<or> go \<and> is_redirect (p_status_code resp) \<and> (\<exists>e. res = Inl e) \<and> (n = 0 \<longrightarrow> res = Inl TooManyRedirects)"
        by (auto split: if_splits nat.splits)
      then show ?thesis using answered [of resp st2 go st4] x Inr o4 by (simp add: req_def s p)
    next
      case True
      then obtain m where m: "n = Suc m" "go" "is_redirect (p_status_code resp)" by (cases n) auto
      show ?thesis
      proof (cases "\<exists>l url. response_header resp ''location'' = Some l \<and> resolve_redirect_url (e_uc env) (r_url b) l = Inr url")
        case True
        then obtain url where "send_loop env shared ob m (redirect_request env b resp url) st4 = (res, st')"
          "\<exists>l. response_header resp ''location'' = Some l \<and> resolve_redirect_url (e_uc env) (r_url b) l = Inr url"
          using run m by auto
        then show ?thesis using redirected [of resp st2 st4 m url] x Inr o4 m by (simp add: req_def s p)
      next
        case False
        with run m have "st' = st4" "\<exists>e. res = Inl e" by (auto split: option.splits sum.splits)
        then show ?thesis using answered [of resp st2 go st4] x Inr o4 m by (auto simp: req_def s p)
      qed
    qed
  qed
qed

text \<open>A chain of turns for the request \<open>r\<close> with at most \<open>n\<close> redirects.  The first request may carry cookies that the caller has set.\<close>

definition chain_ok :: "('u, 't) net_env \<Rightarrow> nat option \<Rightarrow> HttpRequest \<Rightarrow> nat \<Rightarrow> 't turn list \<Rightarrow> bool" where
  "chain_ok env shared r n turns \<longleftrightarrow>
     turns \<noteq> [] \<and> length turns \<le> Suc n \<and> derived (fst (hd turns)) r
   \<and> (header r ''cookie'' = None \<or> \<not> unpartitioned_cookie_access_allowed (e_psl env) r \<longrightarrow> cookies_selected env shared (hd turns))
   \<and> (\<forall>b\<in>set (tl turns). cookies_selected env shared b)
   \<and> successively (\<lambda>a b. hop_ok (fst a) (fst b) \<and> redirected_turn env shared a b) turns"

lemma chain_ok_single: "chain_ok env shared r n [(fst (sent env shared r st), st)]"
  by (auto simp: chain_ok_def sent_derived intro!: sent_cookies)

lemma derived_turn:
  assumes "derived b (redirect_request env a resp url)" "r_site_for_cookies a \<noteq> None"
    and "exchange env None a (s\<lparr>st_tick := st_tick s + 1\<rparr>) = (Inr resp, s2)" "is_redirect (p_status_code resp)"
    and "response_header resp ''location'' = Some l" "resolve_redirect_url (e_uc env) (r_url a) l = Inr url"
    and "s' = store_cookies env shared (cookie_access_context (e_psl env) a (unpartitioned_cookie_access_allowed (e_psl env) a)) a resp s2"
  shows "redirected_turn env shared (a, s) (b, s')"
proof -
  obtain site where site: "r_site_for_cookies a = Some site" using assms(2) by blast
  have c: "same_context b (redirect_request env a resp url)" using assms(1) by (simp add: derived_def)
  have "r_url b = url" "r_method b = redirect_method (p_status_code resp) (r_method a)"
    using same_context_fields [OF c] redirect_request_fields [OF site refl, of env resp url] by simp_all
  then show ?thesis using assms(3-7) by (auto simp: redirected_turn_def)
qed

lemma chain_ok_Cons:
  assumes "r_site_for_cookies r \<noteq> None" "chain_ok env shared (redirect_request env (fst (sent env shared r st)) resp url) n turns"
    and "\<And>b. b = fst (hd turns) \<Longrightarrow> derived b (redirect_request env (fst (sent env shared r st)) resp url)
           \<Longrightarrow> redirected_turn env shared (fst (sent env shared r st), st) (hd turns)"
  shows "chain_ok env shared r (Suc n) ((fst (sent env shared r st), st) # turns)"
proof -
  let ?b = "fst (sent env shared r st)"
  have site: "r_site_for_cookies ?b \<noteq> None"
    using assms(1) sent_derived [of env shared r st] same_context_fields [of ?b r] by (auto simp: derived_def)
  have d: "turns \<noteq> []" "derived (fst (hd turns)) (redirect_request env ?b resp url)" using assms(2) by (simp_all add: chain_ok_def)
  have "hop_ok ?b (fst (hd turns))" by (rule derived_hop [OF d(2) site])
  moreover have "redirected_turn env shared (?b, st) (hd turns)" using assms(3) [OF refl d(2)] .
  moreover have "cookies_selected env shared (hd turns)" using assms(2) by (simp add: chain_ok_def redirect_drops_cookie)
  ultimately show ?thesis
    using assms(2) chain_ok_single [of env shared r 0 st] by (cases turns) (auto simp: chain_ok_def successively_Cons)
qed

lemma send_loop_chain:
  assumes "send_loop env shared None n r st = (res, st')" "r_site_for_cookies r \<noteq> None"
    and "n \<le> cl_max_redirects (st_client st)"
  shows "\<exists>turns. st_sent st' = st_sent st @ map fst turns \<and> chain_ok env shared r n turns \<and> snd (hd turns) = st
    \<and> (\<forall>resp. res = Inr (Some resp) \<longrightarrow>
         p_effective_url resp = Some (r_url (fst (last turns))) \<and> \<not> is_redirect (p_status_code resp)
       \<and> p_redirect_count resp + n + 1 = cl_max_redirects (st_client st) + length turns)"
  using assms
proof (induction n arbitrary: r st rule: less_induct)
  case (less n)
  let ?req = "fst (sent env shared r st)" and ?turn = "(fst (sent env shared r st), st)"
  note one = chain_ok_single [of env shared r n st]
  from less.prems(1) show ?case
  proof (cases rule: send_loop_cases)
    case (failed e)
    then show ?thesis using one exchange_state [OF failed(1)] by (intro exI [of _ "[?turn]"]) simp
  next
    case (answered resp st2 go st4)
    note X = exchange_state [OF answered(1)] observed_state [OF answered(2)]
    then have "st_sent st' = st_sent st @ [?req]" "cl_max_redirects (st_client st4) = cl_max_redirects (st_client st)"
      using answered(3) by simp_all
    then show ?thesis
      using answered(4) less.prems(3) one by (intro exI [of _ "[?turn]"]) auto
  next
    case (redirected resp st2 st4 m url)
    note X = exchange_state [OF redirected(1)] observed_state [OF redirected(2)]
    let ?r = "redirect_request env ?req resp url"
    have st4: "st4 = store_cookies env shared (snd (prepare_request env r st)) ?req resp st2"
      using redirected(2) by (simp add: observed_def)
    have "r_site_for_cookies ?req = r_site_for_cookies r"
      using sent_derived [of env shared r st] same_context_fields [of ?req r] unfolding derived_def by blast
    with less.prems(2) obtain y where y: "r_site_for_cookies ?req = Some y" by auto
    have site: "r_site_for_cookies ?r \<noteq> None"
      using redirect_request_fields(2) [OF y refl, of env resp url] y by simp
    have max4: "cl_max_redirects (st_client st4) = cl_max_redirects (st_client st)" using X by simp
    then have m: "m < n" "m \<le> cl_max_redirects (st_client st4)" using redirected(4) less.prems(3) by simp_all
    from less.IH [OF m(1) redirected(5) site m(2)] obtain turns where
      c: "st_sent st' = st_sent st4 @ map fst turns" "chain_ok env shared ?r m turns" "snd (hd turns) = st4"
      "\<forall>rs. res = Inr (Some rs) \<longrightarrow> p_effective_url rs = Some (r_url (fst (last turns))) \<and> \<not> is_redirect (p_status_code rs)
        \<and> p_redirect_count rs + m + 1 = cl_max_redirects (st_client st4) + length turns" by blast
    obtain l where l: "response_header resp ''location'' = Some l" "resolve_redirect_url (e_uc env) (r_url ?req) l = Inr url"
      using redirected(6) by blast
    have turn: "redirected_turn env shared ?turn (hd turns)" if "b = fst (hd turns)" "derived b ?r" for b
      using derived_turn [OF that(2) _ redirected(1) [unfolded sent_tick] redirected(3) l st4 [unfolded sent_access [of env r st shared]]]
        that(1) y c(3) by (cases "hd turns") simp
    have ok: "chain_ok env shared r n (?turn # turns)"
      using chain_ok_Cons [OF less.prems(2) c(2) turn] redirected(4) by simp
    have ne: "turns \<noteq> []" using c(2) by (simp add: chain_ok_def)
    show ?thesis
      using c ok ne X max4 redirected(4) by (intro exI [of _ "?turn # turns"]) auto
  qed
qed

section \<open>Jars stay well formed\<close>

text \<open>The contract between the client and a cookie store: reading gives the cookies of a request, adding a \<open>Set-Cookie\<close>
  value keeps the store's invariant.\<close>

locale cookie_store =
  fixes add :: "'ctx \<Rightarrow> string \<Rightarrow> 's \<Rightarrow> 's"
    and inv :: "'s \<Rightarrow> bool"
  assumes add_inv: "inv s \<Longrightarrow> inv (add ctx v s)"
begin

lemma add_all_inv: "inv s \<Longrightarrow> inv (foldl (\<lambda>s (ctx, v). add ctx v s) s xs)"
  by (induction xs arbitrary: s) (auto intro: add_inv)

end

interpretation jar_store: cookie_store
  "\<lambda>(clk, ou, site, nav, access) v. add_from_header_for_request_with_access psl clk v ou site nav access" "jar_wf psl"
  by unfold_locales (auto simp: add_from_header_for_request_with_access_def intro: add_with_context_jar_wf)

lemma store_set_cookie_wf: "jar_wf (e_psl env) (fst acc) \<Longrightarrow> jar_wf (e_psl env) (fst (store_set_cookie env access req acc h))"
  using jar_store.add_inv [of "e_psl env" "fst acc" "(_, _, _, _, _)"]
  by (auto simp: store_set_cookie_def Let_def split: prod.splits)

lemma store_fold_wf:
  "jar_wf (e_psl env) (fst acc) \<Longrightarrow> jar_wf (e_psl env) (fst (foldl (store_set_cookie env access req) acc hs))"
  by (induction hs arbitrary: acc) (simp_all add: store_set_cookie_wf)

definition jars_wf :: "psl_crate \<Rightarrow> 't net_state \<Rightarrow> bool" where
  "jars_wf psl st \<longleftrightarrow> jar_wf psl (cl_cookie_jar (st_client st)) \<and> (\<forall>a. jar_wf psl (st_stores st a))"

lemma store_cookies_wf: "jars_wf (e_psl env) st \<Longrightarrow> jars_wf (e_psl env) (store_cookies env shared access req resp st)"
  using store_fold_wf [of env "(jar_of shared st, st_tick st)" access req "p_headers resp"]
  by (auto simp: jars_wf_def store_cookies_def Let_def put_jar_def jar_of_def split: prod.splits option.splits)

text \<open>The other clients of a shared store keep it well formed too.\<close>

definition exchange_keeps_wf :: "('u, 't) net_env \<Rightarrow> bool" where
  "exchange_keeps_wf env \<longleftrightarrow>
     (\<forall>tr ins req t stores net. (\<forall>a. jar_wf (e_psl env) (stores a)) \<longrightarrow>
        (\<forall>a. jar_wf (e_psl env) (fst (snd (e_exchange env tr ins req t stores net)) a)))"

lemma exchange_wf:
  "exchange_keeps_wf env \<Longrightarrow> jars_wf (e_psl env) st \<Longrightarrow> exchange env t req st = (res, st') \<Longrightarrow> jars_wf (e_psl env) st'"
proof -
  assume k: "exchange_keeps_wf env" and w: "jars_wf (e_psl env) st" and x: "exchange env t req st = (res, st')"
  let ?x = "e_exchange env (cl_transport (st_client st)) (cl_insecure (st_client st)) req t (st_stores st) (st_net st)"
  have "st_client st' = st_client st" "st_stores st' = fst (snd ?x)"
    using x by (auto simp: exchange_def Let_def case_prod_unfold)
  moreover have "\<forall>a. jar_wf (e_psl env) (fst (snd ?x) a)"
    using k w unfolding exchange_keeps_wf_def jars_wf_def by blast
  ultimately show ?thesis using w by (simp add: jars_wf_def)
qed

lemma sent_wf: "jars_wf psl st \<Longrightarrow> jars_wf psl (snd (sent env shared r st))"
  by (simp add: jars_wf_def)

lemma send_loop_wf:
  assumes "exchange_keeps_wf env" "send_loop env shared ob n r st = (res, st')" "jars_wf (e_psl env) st"
  shows "jars_wf (e_psl env) st'"
  using assms(2,3)
proof (induction n arbitrary: r st rule: less_induct)
  case (less n)
  have step: "jars_wf (e_psl env) st4"
    if "exchange env None req (snd (sent env shared r st)) = (Inr resp, st2)"
      "observed ob req resp (store_cookies env shared access req resp st2) = (go, st4)" for req resp st2 access go st4
    using store_cookies_wf [OF exchange_wf [OF assms(1) sent_wf [OF less.prems(2)] that(1)], of shared access req resp]
      observed_state(2,3) [OF that(2)] by (simp add: jars_wf_def)
  from less.prems(1) show ?case
  proof (cases rule: send_loop_cases)
    case (failed e)
    then show ?thesis using exchange_wf [OF assms(1) sent_wf [OF less.prems(2)]] by blast
  next
    case (answered resp st2 go st4)
    then show ?thesis using step by blast
  next
    case (redirected resp st2 st4 m url)
    show ?thesis by (rule less.IH [OF _ redirected(5) step [OF redirected(1,2)]]) (simp add: redirected(4))
  qed
qed

section \<open>The state after sending\<close>

lemma report_failure_state [simp]:
  "st_sent (report_failure env e st) = st_sent st" "st_client (report_failure env e st) = st_client st"
  "st_stores (report_failure env e st) = st_stores st"
  by (simp_all add: report_failure_def report_code_def)

lemma send_loop_unobserved: "send_loop env shared None n r st = (res, st') \<Longrightarrow> res \<noteq> Inr None"
proof (induction n arbitrary: r st rule: less_induct)
  case (less n)
  from less.prems show ?case
  proof (cases rule: send_loop_cases)
    case (answered resp st2 go st4)
    then show ?thesis using observed_state(4) [OF answered(2)] by auto
  next
    case (redirected resp st2 st4 m url)
    then show ?thesis using less.IH [of m] by blast
  qed simp
qed

lemma unobserved_cases:
  assumes "unobserved env rs = (out, st')"
  obtains e st where "rs = (Inl e, st)" "out = Some (Inl e)" "st' = report_failure env e st"
    | resp where "rs = (Inr (Some resp), st')" "out = Some (Inr resp)"
    | "rs = (Inr None, st')" "out = None"
  using assms by (auto simp: unobserved_def split: prod.splits sum.splits option.splits)

text \<open>The request the loop starts with.\<close>

definition with_cookie_site :: "psl_crate \<Rightarrow> HttpRequest \<Rightarrow> HttpRequest" where
  "with_cookie_site psl request =
     (if r_site_for_cookies request = None
      then set_cookie_context psl (r_url request) (r_top_level_navigation request) request else request)"

lemma with_cookie_site: "r_site_for_cookies (with_cookie_site psl r) \<noteq> None"
  by (simp add: with_cookie_site_def set_cookie_context_def)

lemma send_with_cookie_store_loop:
  "send_with_cookie_store env request shared ob st =
     send_loop env shared ob (cl_max_redirects (st_client st)) (with_cookie_site (e_psl env) request) st"
  by (simp add: send_with_cookie_store_def with_cookie_site_def Let_def)

section \<open>Properties\<close>

text \<open>C3: \<open>send\<close> hands at least one and at most \<open>max_redirects + 1\<close> requests to the network, each after the first because
  the request before it was answered with a redirect to its URL.  Along the chain the public-address
  restriction, the cookie site, the partition and the ancestry never change, the method only becomes GET (and then the body is
  dropped), and a cross-origin hop carries no \<open>Authorization\<close> and no storage-access grant.  The cookies of every later
  request (and of the first, unless the caller has set a \<open>Cookie\<close> header) are exactly those that the jar in use selects for its own URL at the
  time of the hop, where the jar holds the cookies of the responses before; nothing of an earlier hop's cookies is carried over.
  A returned response is no redirect, its effective URL is that of the last request and its
  redirect count the number of hops.\<close>

theorem redirect_chain_confined:
  assumes "send env request st = (out, st')"
  shows "\<exists>turns. st_sent st' = st_sent st @ map fst turns \<and> snd (hd turns) = st
    \<and> chain_ok env (cl_shared_cookie_store (st_client st)) (with_cookie_site (e_psl env) request) (cl_max_redirects (st_client st)) turns
    \<and> (\<forall>resp. out = Some (Inr resp) \<longrightarrow>
         p_effective_url resp = Some (r_url (fst (last turns))) \<and> \<not> is_redirect (p_status_code resp)
       \<and> p_redirect_count resp + 1 = length turns)"
proof -
  let ?shared = "cl_shared_cookie_store (st_client st)" and ?n = "cl_max_redirects (st_client st)"
  let ?r = "with_cookie_site (e_psl env) request"
  obtain res st1 where l: "send_loop env ?shared None ?n ?r st = (res, st1)" by force
  from send_loop_chain [OF l with_cookie_site order_refl] obtain turns where
    c: "st_sent st1 = st_sent st @ map fst turns" "snd (hd turns) = st" "chain_ok env ?shared ?r ?n turns"
    "\<forall>resp. res = Inr (Some resp) \<longrightarrow> p_effective_url resp = Some (r_url (fst (last turns))) \<and> \<not> is_redirect (p_status_code resp)
       \<and> p_redirect_count resp + ?n + 1 = ?n + length turns" by blast
  have "unobserved env (res, st1) = (out, st')"
    using assms by (simp add: send_def send_with_cookie_store_loop l)
  then show ?thesis
    by (cases rule: unobserved_cases) (use c in \<open>auto intro!: exI [of _ turns]\<close>)
qed

text \<open>\<open>send\<close> and its shared-store variant always return a result: the \<open>expect\<close> on the response of an
  unobserved request cannot panic.\<close>

theorem send_never_panics:
  "fst (send env request st) \<noteq> None \<and> fst (send_with_shared_cookies env request a st) \<noteq> None"
proof -
  have "fst (unobserved env (send_loop env shared None n r s)) \<noteq> None" for shared n r s
  proof -
    obtain res s' where l: "send_loop env shared None n r s = (res, s')" by force
    then show ?thesis
      using send_loop_unobserved [OF l] by (auto simp: unobserved_def split: sum.splits option.splits)
  qed
  then show ?thesis by (simp add: send_def send_with_shared_cookies_def send_with_cookie_store_loop)
qed

text \<open>Whatever responses arrive and however many redirects are followed, the client's jar and the shared stores stay well formed,
  provided the other users of the shared stores keep them well formed during an exchange.\<close>

theorem send_keeps_jars_wf:
  assumes "exchange_keeps_wf env" "jars_wf (e_psl env) st"
  shows "jars_wf (e_psl env) (snd (send env request st))"
proof -
  obtain res st1 where l: "send_with_cookie_store env request (cl_shared_cookie_store (st_client st)) None st = (res, st1)"
    by force
  then have w: "jars_wf (e_psl env) st1"
    using send_loop_wf [OF assms(1) _ assms(2)] by (simp add: send_with_cookie_store_loop)
  obtain out st' where s: "unobserved env (res, st1) = (out, st')" by force
  then have "jars_wf (e_psl env) st'"
    by (cases rule: unobserved_cases) (use w in \<open>auto simp: jars_wf_def\<close>)
  then show ?thesis using s by (simp add: send_def l)
qed

text \<open>An exchange without credentials carries no \<open>Cookie\<close> header, whatever headers the caller set, and stores nothing: the client's
  jar is untouched and the shared stores are those the network left.\<close>

theorem credentialless_exchange:
  assumes "send_once_with_timeout env request False timeout st = (res, st')"
  shows "\<exists>req. st_sent st' = st_sent st @ [req] \<and> header req ''cookie'' = None
    \<and> st_client st' = st_client st
    \<and> st_stores st' = fst (snd (e_exchange env (cl_transport (st_client st)) (cl_insecure (st_client st)) req timeout (st_stores st) (st_net st)))"
proof -
  let ?req = "remove_header ''cookie'' (apply_user_agent (e_host env) (cl_user_agent (st_client st)) request)"
  obtain x st2 where x: "exchange env timeout ?req st = (x, st2)" by force
  then have "st' = st2 \<or> (\<exists>e. st' = report_failure env e st2)"
    using assms by (auto simp: send_once_with_timeout_def Let_def split: sum.splits)
  moreover have "header ?req ''cookie'' = None" by (simp add: header_remove eq_ignore_ascii_case_def)
  moreover have "st_stores st2 = fst (snd (e_exchange env (cl_transport (st_client st)) (cl_insecure (st_client st)) ?req timeout (st_stores st) (st_net st)))"
    using x by (auto simp: exchange_def Let_def case_prod_unfold)
  ultimately show ?thesis using exchange_state [OF x] by auto
qed

text \<open>The request sent after a redirect always carries the client-wide \<open>User-Agent\<close>, also when the caller had set another one on
  the original request.\<close>

theorem redirect_overrides_user_agent:
  assumes "is_valid_header ''User-Agent'' (cl_user_agent (st_client st))"
  shows "header (fst (prepare_request env (redirect_request env a resp url) st)) ''user-agent'' = Some (cl_user_agent (st_client st))"
  using assms redirect_resets_user_agent [of env a resp url]
  by (simp add: prepare_request_def Let_def apply_user_agent_def header_remove header_set std_eval)

section \<open>A concrete network\<close>

text \<open>A network that answers the first exchange with a redirect to another host and every later one with a document
  that sets a cookie; the state counts the exchanges.\<close>

definition demo_net :: "((string \<times> string), nat) net_env" where
  "demo_net = \<lparr>e_uc = demo_crate, e_psl = demo_psl, e_host = demo_env, e_clock = (\<lambda>_. 0), e_instant = (\<lambda>_. 0),
     e_exchange = (\<lambda>tr ins req t stores n.
       (Inr (if n = 0 then response_new 302 ''Found'' [(''Location'', ''b.com/q'')] []
             else response_new 200 ''OK'' [(''Set-Cookie'', ''k=v'')] [104, 105]), stores, n + 1)),
     e_tls_error = (\<lambda>_. False), e_reset_pool = (\<lambda>n. n)\<rparr>"

definition demo_request :: HttpRequest where
  "demo_request = add_header ''Authorization'' ''secret'' (request_new demo_env Get demo_target)"

definition demo_state :: "nat net_state" where
  "demo_state = \<lparr>st_client = client_new demo_env, st_stores = (\<lambda>_. jar_new), st_net = 0, st_tick = 0, st_reports = [], st_sent = []\<rparr>"

theorem redirect_chain_confined_witness:
  "\<exists>turns. st_sent (snd (send demo_net demo_request demo_state)) = map fst turns
     \<and> chain_ok demo_net None (with_cookie_site demo_psl demo_request) 10 turns"
  using redirect_chain_confined [of demo_net demo_request demo_state "fst (send demo_net demo_request demo_state)"
      "snd (send demo_net demo_request demo_state)"]
  by (auto simp: demo_net_def demo_state_def client_new_def)

theorem send_keeps_jars_wf_witness: "jars_wf demo_psl (snd (send demo_net demo_request demo_state))"
proof -
  have p: "e_psl demo_net = demo_psl" by (simp add: demo_net_def)
  have "exchange_keeps_wf demo_net" by (simp add: exchange_keeps_wf_def demo_net_def)
  moreover have "jars_wf (e_psl demo_net) demo_state"
    by (simp add: jars_wf_def demo_state_def client_new_def jar_new_wf)
  ultimately show ?thesis using send_keeps_jars_wf [of demo_net demo_state demo_request] unfolding p by blast
qed

theorem credentialless_exchange_witness:
  "st_client (snd (send_once_with_timeout demo_net (add_header ''Cookie'' ''a=b'' demo_request) False None demo_state)) = client_new demo_env"
  using credentialless_exchange [of demo_net "add_header ''Cookie'' ''a=b'' demo_request" None demo_state
      "fst (send_once_with_timeout demo_net (add_header ''Cookie'' ''a=b'' demo_request) False None demo_state)"
      "snd (send_once_with_timeout demo_net (add_header ''Cookie'' ''a=b'' demo_request) False None demo_state)"]
  by (auto simp: demo_state_def)

theorem redirect_overrides_user_agent_witness:
  "header (fst (prepare_request demo_net (redirect_request demo_net (set_header ''User-Agent'' ''mine'' demo_request)
      (response_new 302 ''Found'' [] []) demo_target) demo_state)) ''user-agent'' = Some (default_user_agent demo_env)"
proof -
  have "is_valid_header ''User-Agent'' (cl_user_agent (st_client demo_state))"
    using demo_env_valid by (simp add: env_valid_def valid_header_def demo_state_def client_new_def)
  from redirect_overrides_user_agent [OF this] show ?thesis by (simp add: demo_state_def client_new_def)
qed

end
