(* ===== verification/Corp.thy ===== *)
theory Corp
  imports Response
begin

text \<open>
  \<open>src/http/corp.rs\<close> and the tuple origin of \<open>src/http/cors.rs\<close>: the
  Cross-Origin-Resource-Policy check of an opaque response, combined with the embedder policies
  of the requesting environment.
\<close>

section \<open>Origins\<close>

record Origin =
  o_tuple :: "(string \<times> string \<times> 16 word) option"

definition origin_from_url :: "Url \<Rightarrow> Origin" where
  "origin_from_url url = \<lparr>o_tuple = Some (to_ascii_lowercase (u_scheme url), to_ascii_lowercase (u_host url), u_port url)\<rparr>"

definition opaque_origin :: Origin where
  "opaque_origin = \<lparr>o_tuple = None\<rparr>"

definition origin_serialize :: "Origin \<Rightarrow> string" where
  "origin_serialize origin =
     (case o_tuple origin of
        None \<Rightarrow> ''null''
      | Some (scheme, host, port) \<Rightarrow>
          if scheme = ''http'' \<and> port = 80 \<or> scheme = ''https'' \<and> port = 443
          then scheme @ ''://'' @ host
          else scheme @ ''://'' @ host @ '':'' @ show_nat (unat port))"

definition is_same_origin :: "Origin \<Rightarrow> Url \<Rightarrow> bool" where
  "is_same_origin origin url \<longleftrightarrow> o_tuple origin \<noteq> None \<and> origin = origin_from_url url"

definition is_same_site_for_corp :: "psl_crate \<Rightarrow> Origin \<Rightarrow> Url \<Rightarrow> bool" where
  "is_same_site_for_corp psl origin url \<longleftrightarrow>
     (case o_tuple origin of
        None \<Rightarrow> False
      | Some (scheme, host, _) \<Rightarrow>
          is_schemelessly_same_site (site_from_parts psl scheme host) (site_from_url psl url)
          \<and> (scheme = ''https'' \<or> u_scheme url \<noteq> ''https''))"

section \<open>The check\<close>

datatype EmbedderPolicyValue = UnsafeNone | RequireCorp | Credentialless

datatype ResourcePolicy = CorpSameOrigin | CorpSameSite | CorpCrossOrigin

record PolicyCheck =
  pc_blocked :: bool
  pc_report_only_violation :: bool
  pc_enforced_violation :: bool

definition resource_policy :: "headers \<Rightarrow> ResourcePolicy option" where
  "resource_policy hs =
     (case map (\<lambda>(_, value). trim_matches (\<lambda>c. c = CHR '' '' \<or> c = CHR 0x09) value)
         (filter (\<lambda>(name, _). eq_ignore_ascii_case name ''cross-origin-resource-policy'') hs) of
        [value] \<Rightarrow>
          if value = ''same-origin'' then Some CorpSameOrigin
          else if value = ''same-site'' then Some CorpSameSite
          else if value = ''cross-origin'' then Some CorpCrossOrigin
          else None
      | _ \<Rightarrow> None)"

fun effective_policy :: "ResourcePolicy option \<Rightarrow> EmbedderPolicyValue \<Rightarrow> bool \<Rightarrow> bool \<Rightarrow> ResourcePolicy option" where
  "effective_policy (Some p) _ _ _ = Some p"
| "effective_policy None UnsafeNone _ _ = None"
| "effective_policy None RequireCorp _ _ = Some CorpSameOrigin"
| "effective_policy None Credentialless request_includes_credentials for_nav =
     (if request_includes_credentials \<or> for_nav then Some CorpSameOrigin else None)"

definition allows_response ::
  "psl_crate \<Rightarrow> Origin \<Rightarrow> Url \<Rightarrow> headers \<Rightarrow> EmbedderPolicyValue \<Rightarrow> bool \<Rightarrow> bool \<Rightarrow> bool" where
  "allows_response psl origin response_url hs embedder_policy request_includes_credentials for_nav \<longleftrightarrow>
     (if for_nav \<and> embedder_policy = UnsafeNone then True
      else case effective_policy (resource_policy hs) embedder_policy request_includes_credentials for_nav of
        None \<Rightarrow> True
      | Some CorpCrossOrigin \<Rightarrow> True
      | Some CorpSameOrigin \<Rightarrow> is_same_origin origin response_url
      | Some CorpSameSite \<Rightarrow> is_same_site_for_corp psl origin response_url)"

definition check_response ::
  "psl_crate \<Rightarrow> Origin \<Rightarrow> Url \<Rightarrow> headers \<Rightarrow> EmbedderPolicyValue \<Rightarrow> EmbedderPolicyValue \<Rightarrow> bool \<Rightarrow> bool \<Rightarrow> PolicyCheck" where
  "check_response psl origin response_url hs enforced report_only request_includes_credentials for_nav =
     (if \<not> allows_response psl origin response_url hs UnsafeNone request_includes_credentials for_nav
      then \<lparr>pc_blocked = True, pc_report_only_violation = False, pc_enforced_violation = False\<rparr>
      else
        (let report_only_violation =
               \<not> allows_response psl origin response_url hs report_only request_includes_credentials for_nav;
             enforced_violation =
               \<not> allows_response psl origin response_url hs enforced request_includes_credentials for_nav
         in \<lparr>pc_blocked = enforced_violation, pc_report_only_violation = report_only_violation,
              pc_enforced_violation = enforced_violation\<rparr>))"

section \<open>Strictness\<close>

fun strictness :: "EmbedderPolicyValue \<Rightarrow> nat" where
  "strictness UnsafeNone = 0"
| "strictness Credentialless = 1"
| "strictness RequireCorp = 2"

lemma effective_policy_None:
  "effective_policy None p c n = None \<or> effective_policy None p c n = Some CorpSameOrigin"
  by (cases p) auto

lemma allows_response_mono:
  assumes "strictness p \<le> strictness q" "allows_response psl origin url hs q creds nav"
  shows "allows_response psl origin url hs p creds nav"
proof (cases "resource_policy hs")
  case None
  then show ?thesis using assms by (cases p; cases q) (auto simp: allows_response_def split: if_splits)
next
  case (Some r)
  then show ?thesis using assms by (cases p; cases q; cases r) (auto simp: allows_response_def split: if_splits)
qed

section \<open>Properties\<close>

text \<open>A response is blocked exactly when its own policy or the enforced embedder policy refuses it; an embedder
  violation is reported only for a response that its own policy admits; and whatever a stricter embedder policy
  admits, a laxer one admits too.\<close>

theorem corp_check_sound:
  assumes "chk = check_response psl origin url hs enforced report_only creds nav"
  shows "(pc_blocked chk \<longleftrightarrow> \<not> allows_response psl origin url hs UnsafeNone creds nav
             \<or> \<not> allows_response psl origin url hs enforced creds nav)
    \<and> (pc_enforced_violation chk \<or> pc_report_only_violation chk \<longrightarrow> allows_response psl origin url hs UnsafeNone creds nav)
    \<and> (pc_enforced_violation chk \<longrightarrow> pc_blocked chk)
    \<and> (strictness p \<le> strictness enforced \<and> \<not> pc_blocked chk \<longrightarrow> allows_response psl origin url hs p creds nav)"
  using allows_response_mono [of p enforced psl origin url hs creds nav] assms
  by (auto simp: check_response_def Let_def split: if_splits)

theorem corp_check_sound_witness:
  "pc_blocked (check_response \<lparr>psl_suffix_str = (\<lambda>_. None), psl_domain_str = (\<lambda>_. None)\<rparr>
     (origin_from_url (demo_target\<lparr>u_host := ''b.com''\<rparr>)) demo_target [] RequireCorp UnsafeNone False False)"
proof -
  have "\<not> allows_response \<lparr>psl_suffix_str = (\<lambda>_. None), psl_domain_str = (\<lambda>_. None)\<rparr>
     (origin_from_url (demo_target\<lparr>u_host := ''b.com''\<rparr>)) demo_target [] RequireCorp False False"
    by (simp add: allows_response_def resource_policy_def is_same_origin_def origin_from_url_def demo_target_def std_eval)
  then show ?thesis using corp_check_sound [OF refl] by blast
qed

end
