(* ===== verification/Cors.thy ===== *)
theory Cors
  imports ClientProps Corp "HOL-Library.List_Lexorder" "HOL-Library.Char_ord"
begin

text \<open>
  \<open>src/http/cors.rs\<close>: Fetch's origin, credentials, preflight and redirect policy on top of the
  client's single exchange.  \<open>Instant\<close> is a number of nanoseconds of the monotonic
  clock; the preflight cache is a map from keys to expiry instants.
\<close>

section \<open>Data\<close>

datatype RequestMode = ModeSameOrigin | ModeCors | ModeNoCors
datatype CredentialsMode = CredOmit | CredSameOrigin | CredInclude
datatype RedirectMode = RedirectFollow | RedirectError | RedirectManual
datatype ResponseType = TypeBasic | TypeCors | TypeOpaque | TypeOpaqueRedirect

datatype CorsError =
    NetworkFailure string | TimeoutFailure | SameOriginModeFailure | CorsCheckFailure | CorpCheckFailure
  | RequestPolicyFailure | PreflightFailure | RedirectFailure | TooManyRedirectsFailure

fun cors_error_to_string :: "CorsError \<Rightarrow> string" where
  "cors_error_to_string (NetworkFailure e) = e"
| "cors_error_to_string TimeoutFailure = ''network request timed out''"
| "cors_error_to_string SameOriginModeFailure = ''cross-origin request blocked by same-origin mode''"
| "cors_error_to_string CorsCheckFailure = ''CORS response check failed''"
| "cors_error_to_string CorpCheckFailure = ''CORP response check failed''"
| "cors_error_to_string RequestPolicyFailure = ''redirect blocked by request policy''"
| "cors_error_to_string PreflightFailure = ''CORS preflight failed''"
| "cors_error_to_string RedirectFailure = ''redirect disallowed by request redirect mode''"
| "cors_error_to_string TooManyRedirectsFailure = ''too many redirects''"

record PreflightCacheKey =
  k_request_origin :: Origin
  k_target_origin :: Origin
  k_method :: string
  k_unsafe_header_names :: "string list"
  k_credentialed :: bool

type_synonym PreflightCache = "PreflightCacheKey \<rightharpoonup> int"

record FetchResponse =
  f_response :: HttpResponse
  f_response_type :: ResponseType
  f_redirected :: bool

record CorpViolation =
  v_blocked_url :: string
  v_report_only :: bool
  v_enforced :: bool

section \<open>The preflight cache\<close>

definition retain_fresh :: "PreflightCache \<Rightarrow> int \<Rightarrow> PreflightCache" where
  "retain_fresh entries now =
     (\<lambda>k. case entries k of Some expires \<Rightarrow> if expires > now then Some expires else None | None \<Rightarrow> None)"

definition merge_cache :: "PreflightCache \<Rightarrow> PreflightCache \<Rightarrow> int \<Rightarrow> PreflightCache" where
  "merge_cache self other now =
     (\<lambda>k. case (retain_fresh self now k, retain_fresh other now k) of
        (Some current, Some expires) \<Rightarrow> Some (max current expires)
      | (Some current, None) \<Rightarrow> Some current
      | (None, e) \<Rightarrow> e)"

definition contains_fresh :: "PreflightCache \<Rightarrow> PreflightCacheKey \<Rightarrow> int \<Rightarrow> PreflightCache \<times> bool" where
  "contains_fresh cache key now = (let c = retain_fresh cache now in (c, c key \<noteq> None))"

definition insert_cache :: "PreflightCacheKey \<Rightarrow> int \<Rightarrow> PreflightCache \<Rightarrow> PreflightCache" where
  "insert_cache key expires cache = cache(key \<mapsto> expires)"

section \<open>Classification of headers\<close>

definition is_cors_safelisted_method :: "Method \<Rightarrow> bool" where
  "is_cors_safelisted_method m \<longleftrightarrow> m = Get \<or> m = Head \<or> m = Post"

definition is_automatic_header :: "string \<Rightarrow> bool" where
  "is_automatic_header name \<longleftrightarrow>
     list_ex (eq_ignore_ascii_case name)
       [''host'', ''user-agent'', ''accept-language'', ''accept-encoding'', ''content-length'', ''origin'']"

definition is_cors_safelisted_header :: "string \<Rightarrow> string \<Rightarrow> bool" where
  "is_cors_safelisted_header name value \<longleftrightarrow>
     (if eq_ignore_ascii_case name ''accept'' \<or> eq_ignore_ascii_case name ''accept-language''
         \<or> eq_ignore_ascii_case name ''content-language'' then length value \<le> 128
      else if eq_ignore_ascii_case name ''content-type'' then
        (let mime = trim (hd (split_char CHR '';'' value))
         in list_ex (eq_ignore_ascii_case mime)
              [''application/x-www-form-urlencoded'', ''multipart/form-data'', ''text/plain''])
      else False)"

definition cors_unsafe_header_names :: "HttpRequest \<Rightarrow> string list" where
  "cors_unsafe_header_names request =
     remdups_adj (sort (map (\<lambda>(name, _). to_ascii_lowercase name)
       (filter (\<lambda>(name, value). \<not> is_automatic_header name \<and> \<not> is_cors_safelisted_header name value)
         (r_headers request))))"

definition is_cors_safelisted_response_header :: "string \<Rightarrow> bool" where
  "is_cors_safelisted_response_header name \<longleftrightarrow>
     list_ex (eq_ignore_ascii_case name)
       [''cache-control'', ''content-language'', ''content-length'', ''content-type'', ''expires'', ''last-modified'', ''pragma'']"

definition header_tokens :: "HttpResponse \<Rightarrow> string \<Rightarrow> string list" where
  "header_tokens response name =
     filter (\<lambda>v. v \<noteq> [])
       (concat (map (\<lambda>(_, value). map trim (split_char CHR '','' value))
         (filter (\<lambda>(h, _). eq_ignore_ascii_case h name) (p_headers response))))"

definition exposed_response_headers :: "HttpResponse \<Rightarrow> ResponseType \<Rightarrow> CredentialsMode \<Rightarrow> headers" where
  "exposed_response_headers response response_type credentials =
     (if response_type = TypeOpaque \<or> response_type = TypeOpaqueRedirect then []
      else
        (let exposed = header_tokens response ''access-control-expose-headers''
         in filter (\<lambda>(name, _).
              \<not> eq_ignore_ascii_case name ''set-cookie'' \<and> \<not> eq_ignore_ascii_case name ''set-cookie2''
              \<and> (response_type = TypeBasic \<or> is_cors_safelisted_response_header name
                 \<or> list_ex (\<lambda>allowed. eq_ignore_ascii_case allowed name
                      \<or> allowed = ''*'' \<and> credentials \<noteq> CredInclude) exposed)) (p_headers response)))"

section \<open>Response checks\<close>

definition cors_check :: "HttpResponse \<Rightarrow> Origin \<Rightarrow> CredentialsMode \<Rightarrow> CorsError + unit" where
  "cors_check response origin credentials =
     (case response_header response ''access-control-allow-origin'' of
        None \<Rightarrow> Inl CorsCheckFailure
      | Some allow_origin \<Rightarrow>
          if allow_origin \<noteq> origin_serialize origin \<and> \<not> (allow_origin = ''*'' \<and> credentials \<noteq> CredInclude)
          then Inl CorsCheckFailure
          else if credentials = CredInclude
              \<and> \<not> (case response_header response ''access-control-allow-credentials'' of
                    Some value \<Rightarrow> eq_ignore_ascii_case value ''true'' | None \<Rightarrow> False)
          then Inl CorsCheckFailure
          else Inr ())"

definition allowed_token_matches :: "string \<Rightarrow> string \<Rightarrow> bool \<Rightarrow> bool" where
  "allowed_token_matches allowed value credentialed \<longleftrightarrow>
     allowed = ''*'' \<and> \<not> credentialed \<or> eq_ignore_ascii_case allowed value"

definition allows_method :: "HttpResponse \<Rightarrow> string \<Rightarrow> bool \<Rightarrow> bool" where
  "allows_method response m credentialed \<longleftrightarrow>
     list_ex (\<lambda>allowed. allowed_token_matches allowed m credentialed)
       (header_tokens response ''access-control-allow-methods'')"

definition allows_headers :: "HttpResponse \<Rightarrow> string list \<Rightarrow> bool \<Rightarrow> bool" where
  "allows_headers response names credentialed \<longleftrightarrow>
     list_all (\<lambda>name. list_ex (\<lambda>allowed. allowed_token_matches allowed name credentialed)
       (header_tokens response ''access-control-allow-headers'')) names"

definition validate_preflight_response ::
  "HttpResponse \<Rightarrow> Origin \<Rightarrow> CredentialsMode \<Rightarrow> string \<Rightarrow> string list \<Rightarrow> CorsError + unit" where
  "validate_preflight_response response origin credentials m unsafe_header_names =
     (if \<not> (200 \<le> p_status_code response \<and> p_status_code response < 300) then Inl PreflightFailure
      else rbind (map_err (\<lambda>_. PreflightFailure) (cors_check response origin credentials)) (\<lambda>_.
        let credentialed = (credentials = CredInclude) in
        if \<not> allows_method response m credentialed \<or> \<not> allows_headers response unsafe_header_names credentialed
        then Inl PreflightFailure else Inr ()))"

text \<open>In nanoseconds.\<close>

definition preflight_max_age :: "HttpResponse \<Rightarrow> int" where
  "preflight_max_age response =
     int (min (case Option.bind (response_header response ''access-control-max-age'') (parse_uint 10 u64_max) of
                 Some n \<Rightarrow> n | None \<Rightarrow> 5) 86400) * nanos"

section \<open>Preflight\<close>

definition transport_error :: "HttpParseError \<Rightarrow> CorsError" where
  "transport_error e = (if is_timeout e then TimeoutFailure else NetworkFailure (http_parse_error_to_string e))"

definition preflight_request :: "host_env \<Rightarrow> HttpRequest \<Rightarrow> Origin \<Rightarrow> string list \<Rightarrow> HttpRequest" where
  "preflight_request henv request origin unsafe_header_names =
     (let p0 = request_new henv Options (r_url request);
          p1 = (if r_require_public_ip request then require_public_ip p0 else p0);
          p2 = set_header ''Origin'' (origin_serialize origin) p1;
          p3 = set_header ''Access-Control-Request-Method'' (method_as_str (r_method request)) p2
      in if unsafe_header_names \<noteq> [] then set_header ''Access-Control-Request-Headers'' (join '', '' unsafe_header_names) p3
         else p3)"

definition ensure_preflight ::
  "('u, 't) net_env \<Rightarrow> HttpRequest \<Rightarrow> Origin \<Rightarrow> CredentialsMode \<Rightarrow> int option \<Rightarrow> PreflightCache \<Rightarrow> 't net_state
     \<Rightarrow> (CorsError + unit) \<times> PreflightCache \<times> 't net_state" where
  "ensure_preflight env request origin credentials timeout cache st =
     (let unsafe_headers = cors_unsafe_header_names request in
      if is_cors_safelisted_method (r_method request) \<and> unsafe_headers = [] then (Inr (), cache, st)
      else
        (let m = method_as_str (r_method request);
             key = \<lparr>k_request_origin = origin, k_target_origin = origin_from_url (r_url request), k_method = m,
                    k_unsafe_header_names = unsafe_headers, k_credentialed = (credentials = CredInclude)\<rparr>;
             now = e_instant env (st_tick st);
             st1 = st\<lparr>st_tick := st_tick st + 1\<rparr>;
             (cache1, fresh) = contains_fresh cache key now
         in if fresh then (Inr (), cache1, st1)
            else
              (case send_once_with_timeout env (preflight_request (e_host env) request origin unsafe_headers) False timeout st1 of
                 (Inl e, st2) \<Rightarrow> (Inl (transport_error e), cache1, st2)
               | (Inr response, st2) \<Rightarrow>
                   (case validate_preflight_response response origin credentials m unsafe_headers of
                      Inl e \<Rightarrow> (Inl e, cache1, st2)
                    | Inr _ \<Rightarrow> (Inr (), insert_cache key (now + preflight_max_age response) cache1, st2)))))"

section \<open>The fetch loop\<close>

definition redirected_request ::
  "('u, 't) net_env \<Rightarrow> HttpRequest \<Rightarrow> nat \<Rightarrow> Url \<Rightarrow> Origin option \<Rightarrow> HttpRequest" where
  "redirected_request env request status next_url unrestricted_origin =
     (let same = (origin_from_url (r_url request) = origin_from_url next_url);
          m = redirect_method status (r_method request);
          preserve_body = (m = r_method request);
          n0 = request_new (e_host env) m next_url;
          n1 = (if r_require_public_ip request
                   \<or> (case unrestricted_origin of Some initial \<Rightarrow> initial \<noteq> origin_from_url next_url | None \<Rightarrow> False)
                then require_public_ip n0 else n0);
          n2 = (case r_site_for_cookies request of
                  Some site \<Rightarrow> copy_cookie_partition_from request
                    (set_cookie_context (e_psl env) site (r_top_level_navigation request) n1)
                | None \<Rightarrow> n1);
          n3 = n2\<lparr>r_storage_access_eligible := (same \<and> r_storage_access_eligible request),
                  r_cross_site_ancestry := r_cross_site_ancestry request\<rparr>;
          n4 = copy_headers (\<lambda>(name, _). copy_header_on_redirect name preserve_body same) (r_headers request) n3
      in if preserve_body then (case r_body request of Some body \<Rightarrow> set_body body n4 | None \<Rightarrow> n4) else n4)"

record 't fetch_params =
  q_origin :: Origin
  q_mode :: RequestMode
  q_credentials :: CredentialsMode
  q_redirect_mode :: RedirectMode
  q_embedder_policy :: EmbedderPolicyValue
  q_report_only_embedder_policy :: EmbedderPolicyValue
  q_timeout :: "int option"
  q_unrestricted_origin :: "Origin option"
  q_initial_url :: string
  q_check_redirect :: "(Url \<Rightarrow> nat \<Rightarrow> 't \<Rightarrow> bool \<times> 't) option"

record 't fetch_state =
  s_cache :: PreflightCache
  s_violations :: "CorpViolation list"
  s_net :: "'t net_state"

definition max_redirects :: nat where "max_redirects = 10"

definition check_target :: "'t fetch_params \<Rightarrow> nat \<Rightarrow> Url \<Rightarrow> 't fetch_state \<Rightarrow> bool \<times> 't fetch_state" where
  "check_target q redirect_count url s =
     (if redirect_count = 0 then (True, s)
      else case q_check_redirect q of
        None \<Rightarrow> (True, s)
      | Some check \<Rightarrow>
          (let (go, net) = check url redirect_count (st_net (s_net s))
           in (go, s\<lparr>s_net := (s_net s)\<lparr>st_net := net\<rparr>\<rparr>)))"

definition strip_unsafe_headers :: "HttpRequest \<Rightarrow> HttpRequest" where
  "strip_unsafe_headers request = foldl (\<lambda>r name. remove_header name r) request (cors_unsafe_header_names request)"

definition send_credentials :: "'t fetch_params \<Rightarrow> bool \<Rightarrow> bool" where
  "send_credentials q cross_origin_seen \<longleftrightarrow>
     (case q_credentials q of CredOmit \<Rightarrow> False | CredSameOrigin \<Rightarrow> \<not> cross_origin_seen | CredInclude \<Rightarrow> True)
     \<and> \<not> (q_mode q = ModeNoCors \<and> cross_origin_seen \<and> q_embedder_policy q = Credentialless)"

text \<open>The request of one turn: headers of the mode, then the preflight.\<close>

definition hop_request :: "'t fetch_params \<Rightarrow> bool \<Rightarrow> bool \<Rightarrow> Origin \<Rightarrow> HttpRequest \<Rightarrow> HttpRequest" where
  "hop_request q cross_origin cross_origin_seen cors_origin request =
     (let r1 = (if cross_origin \<and> q_mode q = ModeNoCors then strip_unsafe_headers request else request)
      in if q_mode q = ModeCors \<and> (cross_origin_seen \<or> \<not> (r_method r1 = Get \<or> r_method r1 = Head))
         then set_header ''Origin'' (origin_serialize cors_origin) r1 else r1)"

definition hop_preflight ::
  "('u, 't) net_env \<Rightarrow> 't fetch_params \<Rightarrow> bool \<Rightarrow> Origin \<Rightarrow> HttpRequest \<Rightarrow> 't fetch_state \<Rightarrow> (CorsError + unit) \<times> 't fetch_state" where
  "hop_preflight env q cross_origin_seen cors_origin request s =
     (if cross_origin_seen \<and> q_mode q = ModeCors then
        (let (r, cache, net) = ensure_preflight env request cors_origin (q_credentials q) (q_timeout q) (s_cache s) (s_net s)
         in (r, s\<lparr>s_cache := cache, s_net := net\<rparr>))
      else (Inr (), s))"

text \<open>The resource policy of an opaque response; the result tells whether the response is blocked.\<close>

definition hop_corp ::
  "('u, 't) net_env \<Rightarrow> 't fetch_params \<Rightarrow> bool \<Rightarrow> HttpRequest \<Rightarrow> HttpResponse \<Rightarrow> 't fetch_state \<Rightarrow> bool \<times> 't fetch_state" where
  "hop_corp env q cross_origin_seen request response s =
     (if q_mode q = ModeNoCors \<and> cross_origin_seen then
        (let check = check_response (e_psl env) (q_origin q) (r_url request) (p_headers response)
               (q_embedder_policy q) (q_report_only_embedder_policy q) (send_credentials q cross_origin_seen) False
         in (pc_blocked check,
             if pc_report_only_violation check \<or> pc_enforced_violation check
             then s\<lparr>s_violations := s_violations s @ [\<lparr>v_blocked_url = q_initial_url q,
                    v_report_only = pc_report_only_violation check, v_enforced = pc_enforced_violation check\<rparr>]\<rparr>
             else s))
      else (False, s))"

definition hop_cors_check :: "'t fetch_params \<Rightarrow> bool \<Rightarrow> Origin \<Rightarrow> HttpResponse \<Rightarrow> CorsError + unit" where
  "hop_cors_check q cross_origin_seen cors_origin response =
     (if cross_origin_seen \<and> q_mode q = ModeCors then cors_check response cors_origin (q_credentials q) else Inr ())"

definition response_type_of :: "'t fetch_params \<Rightarrow> bool \<Rightarrow> ResponseType" where
  "response_type_of q cross_origin_seen =
     (if cross_origin_seen \<and> q_mode q = ModeNoCors then TypeOpaque
      else if cross_origin_seen \<and> q_mode q = ModeCors then TypeCors
      else TypeBasic)"

definition finish_response :: "HttpResponse \<Rightarrow> Url \<Rightarrow> nat \<Rightarrow> HttpResponse" where
  "finish_response response url redirect_count =
     response\<lparr>p_effective_url := Some url, p_redirect_count := redirect_count\<rparr>"

text \<open>The loop; \<open>left\<close> is the number of redirects that may still be followed, so \<open>redirect_count\<close> is
  \<open>max_redirects - left\<close>.\<close>

fun fetch_loop ::
  "('u, 't) net_env \<Rightarrow> 't fetch_params \<Rightarrow> nat \<Rightarrow> HttpRequest \<Rightarrow> bool \<Rightarrow> bool \<Rightarrow> Origin \<Rightarrow> 't fetch_state
     \<Rightarrow> (CorsError + FetchResponse) \<times> 't fetch_state" where
  "fetch_loop env q left request0 redirected seen0 cors_origin s0 =
     (let redirect_count = max_redirects - left;
          (go, s1) = check_target q redirect_count (r_url request0) s0
      in if \<not> go then (Inl RequestPolicyFailure, s1)
         else
           (let cross_origin = (\<not> is_same_origin (q_origin q) (r_url request0));
                seen = (seen0 \<or> cross_origin)
            in if cross_origin \<and> q_mode q = ModeSameOrigin then (Inl SameOriginModeFailure, s1)
               else
                 (let request = hop_request q cross_origin seen cors_origin request0 in
                  case hop_preflight env q seen cors_origin request s1 of
                    (Inl e, s2) \<Rightarrow> (Inl e, s2)
                  | (Inr _, s2) \<Rightarrow>
                      (case send_once_with_timeout env request (send_credentials q seen) (q_timeout q) (s_net s2) of
                         (Inl e, net) \<Rightarrow> (Inl (transport_error e), s2\<lparr>s_net := net\<rparr>)
                       | (Inr response, net) \<Rightarrow>
                           (let (blocked, s3) = hop_corp env q seen request response (s2\<lparr>s_net := net\<rparr>) in
                            if blocked then (Inl CorpCheckFailure, s3)
                            else case hop_cors_check q seen cors_origin response of
                              Inl e \<Rightarrow> (Inl e, s3)
                            | Inr _ \<Rightarrow>
                                if is_redirect (p_status_code response) then
                                  (case q_redirect_mode q of
                                     RedirectError \<Rightarrow> (Inl RedirectFailure, s3)
                                   | RedirectManual \<Rightarrow>
                                       (Inr \<lparr>f_response = finish_response response (r_url request) redirect_count,
                                             f_response_type = TypeOpaqueRedirect, f_redirected = False\<rparr>, s3)
                                   | RedirectFollow \<Rightarrow>
                                       (case left of
                                          0 \<Rightarrow> (Inl TooManyRedirectsFailure, s3)
                                        | Suc remaining \<Rightarrow>
                                            (case response_header response ''location'' of
                                               None \<Rightarrow> (Inl RedirectFailure, s3)
                                             | Some location \<Rightarrow>
                                                 (case resolve_redirect_url (e_uc env) (r_url request) location of
                                                    Inl e \<Rightarrow> (Inl (NetworkFailure (http_parse_error_to_string e)), s3)
                                                  | Inr next_url \<Rightarrow>
                                                      fetch_loop env q remaining
                                                        (redirected_request env request (p_status_code response) next_url
                                                           (q_unrestricted_origin q))
                                                        True seen
                                                        (if \<not> is_same_origin (q_origin q) (r_url request)
                                                            \<and> origin_from_url (r_url request) \<noteq> origin_from_url next_url
                                                         then opaque_origin else cors_origin) s3))))
                                else
                                  (Inr \<lparr>f_response = finish_response response (r_url request) redirect_count,
                                        f_response_type = response_type_of q seen, f_redirected = redirected\<rparr>, s3))))))"

declare fetch_loop.simps [simp del]

definition fetch_with_policy ::
  "('u, 't) net_env \<Rightarrow> HttpRequest \<Rightarrow> Origin \<Rightarrow> RequestMode \<Rightarrow> CredentialsMode \<Rightarrow> RedirectMode
     \<Rightarrow> EmbedderPolicyValue \<Rightarrow> EmbedderPolicyValue \<Rightarrow> int option \<Rightarrow> bool \<Rightarrow> (Url \<Rightarrow> nat \<Rightarrow> 't \<Rightarrow> bool \<times> 't) option
     \<Rightarrow> 't fetch_state \<Rightarrow> (CorsError + FetchResponse) \<times> 't fetch_state" where
  "fetch_with_policy env request origin mode credentials redirect_mode embedder_policy report_only
     timeout restrict_redirects check_redirect s =
     (let q = \<lparr>q_origin = origin, q_mode = mode, q_credentials = credentials, q_redirect_mode = redirect_mode,
            q_embedder_policy = embedder_policy, q_report_only_embedder_policy = report_only, q_timeout = timeout,
            q_unrestricted_origin = (if restrict_redirects then Some (origin_from_url (r_url request)) else None),
            q_initial_url = url_to_string (r_url request), q_check_redirect = check_redirect\<rparr>
      in fetch_loop env q max_redirects request False False origin s)"

text \<open>The entry points; those without a violation list drop what the loop collected.\<close>

definition keep_violations ::
  "CorpViolation list \<Rightarrow> 'r \<times> 't fetch_state \<Rightarrow> 'r \<times> 't fetch_state" where
  "keep_violations vs rs = (fst rs, (snd rs)\<lparr>s_violations := vs\<rparr>)"

definition fetch_with_timeout where
  "fetch_with_timeout env request origin mode credentials redirect_mode timeout s =
     keep_violations (s_violations s)
       (fetch_with_policy env request origin mode credentials redirect_mode UnsafeNone UnsafeNone timeout False None
          (s\<lparr>s_violations := []\<rparr>))"

definition fetch where
  "fetch env request origin mode credentials redirect_mode s =
     fetch_with_timeout env request origin mode credentials redirect_mode None s"

definition fetch_with_timeout_restricting_redirects where
  "fetch_with_timeout_restricting_redirects env request origin mode credentials redirect_mode timeout s =
     keep_violations (s_violations s)
       (fetch_with_policy env request origin mode credentials redirect_mode UnsafeNone UnsafeNone timeout True None
          (s\<lparr>s_violations := []\<rparr>))"

definition fetch_with_timeout_restricting_redirects_checked where
  "fetch_with_timeout_restricting_redirects_checked env request origin mode credentials redirect_mode timeout check s =
     keep_violations (s_violations s)
       (fetch_with_policy env request origin mode credentials redirect_mode UnsafeNone UnsafeNone timeout True (Some check)
          (s\<lparr>s_violations := []\<rparr>))"

definition fetch_with_embedder_policy where
  "fetch_with_embedder_policy env request origin mode credentials redirect_mode embedder_policy timeout s =
     keep_violations (s_violations s)
       (fetch_with_policy env request origin mode credentials redirect_mode embedder_policy UnsafeNone timeout True None
          (s\<lparr>s_violations := []\<rparr>))"

definition fetch_with_embedder_policy_checked where
  "fetch_with_embedder_policy_checked env request origin mode credentials redirect_mode embedder_policy timeout check s =
     keep_violations (s_violations s)
       (fetch_with_policy env request origin mode credentials redirect_mode embedder_policy UnsafeNone timeout True (Some check)
          (s\<lparr>s_violations := []\<rparr>))"

definition fetch_with_embedder_policy_reporting where
  "fetch_with_embedder_policy_reporting env request origin mode credentials redirect_mode embedder_policy report_only timeout s =
     fetch_with_policy env request origin mode credentials redirect_mode embedder_policy report_only timeout False None s"

definition fetch_with_embedder_policy_reporting_checked where
  "fetch_with_embedder_policy_reporting_checked env request origin mode credentials redirect_mode embedder_policy report_only
     timeout check s =
     fetch_with_policy env request origin mode credentials redirect_mode embedder_policy report_only timeout False (Some check) s"

end
