(* ===== verification/CorsProps.thy ===== *)
theory CorsProps
  imports Cors
begin

text \<open>
  The guarantees of the fetch layer: which requests reach the network under each mode and credentials mode, what a
  returned response has been checked for, when a preflight is sent, and what scripts may see of the headers.
\<close>

section \<open>Single exchanges and preflights\<close>

lemma send_once_sent:
  assumes "send_once_with_timeout env r cred t st = (res, st')"
  shows "\<exists>req. st_sent st' = st_sent st @ [req] \<and> same_context req r \<and> (\<not> cred \<longrightarrow> header req ''cookie'' = None)"
proof -
  define r1 where "r1 = remove_header ''cookie'' (apply_user_agent (e_host env) (cl_user_agent (st_client st)) r)"
  define access where "access = cookie_access_context (e_psl env) r1 (cred \<and> unpartitioned_cookie_access_allowed (e_psl env) r1)"
  obtain req st1 where a: "(if cred then attach_cookies env (cl_shared_cookie_store (st_client st)) access r1 st else (r1, st)) = (req, st1)"
    by force
  obtain x st2 where x: "exchange env t req st1 = (x, st2)" by force
  have "st_sent st' = st_sent st2"
    using assms unfolding send_once_with_timeout_def Let_def r1_def [symmetric] access_def [symmetric] a
    by (auto simp: x split: sum.splits)
  moreover have "same_context r1 r" by (simp add: r1_def same_context_user_agent)
  then have "same_context req r" "st_sent st1 = st_sent st"
    using a by (auto simp: attach_cookies_def Let_def split: if_splits option.splits)
  moreover have "\<not> cred \<Longrightarrow> header req ''cookie'' = None"
    using a by (auto simp: r1_def header_remove eq_ignore_ascii_case_def)
  ultimately show ?thesis using exchange_state(1) [OF x] by auto
qed

lemma preflight_request_context:
  "r_url (preflight_request henv r o1 ns) = r_url r" "r_method (preflight_request henv r o1 ns) = Options"
  "r_require_public_ip (preflight_request henv r o1 ns) = r_require_public_ip r"
proof -
  define p1 where "p1 = (if r_require_public_ip r then require_public_ip (request_new henv Options (r_url r))
    else request_new henv Options (r_url r))"
  have "same_context (preflight_request henv r o1 ns) p1"
    by (simp add: preflight_request_def Let_def p1_def)
  from same_context_fields [OF this] show
    "r_url (preflight_request henv r o1 ns) = r_url r" "r_method (preflight_request henv r o1 ns) = Options"
    "r_require_public_ip (preflight_request henv r o1 ns) = r_require_public_ip r"
    by (auto simp: p1_def require_public_ip_def request_new_def)
qed

text \<open>A preflight of a request: an \<open>OPTIONS\<close> request to the same URL without cookies and under the same address restriction.\<close>

definition is_preflight_of :: "HttpRequest \<Rightarrow> HttpRequest \<Rightarrow> bool" where
  "is_preflight_of r p \<longleftrightarrow> r_url p = r_url r \<and> r_method p = Options \<and> header p ''cookie'' = None
     \<and> r_require_public_ip p = r_require_public_ip r"

lemma preflight_sent:
  assumes "send_once_with_timeout env (preflight_request henv r o1 ns) False t st = (res, st')"
  shows "\<exists>p. st_sent st' = st_sent st @ [p] \<and> is_preflight_of r p"
proof -
  from send_once_sent [OF assms] obtain p where
    p: "st_sent st' = st_sent st @ [p]" "same_context p (preflight_request henv r o1 ns)" "header p ''cookie'' = None" by blast
  then have "is_preflight_of r p"
    using same_context_fields [OF p(2)] preflight_request_context [of henv r o1 ns] by (auto simp: is_preflight_of_def)
  with p(1) show ?thesis by blast
qed

definition preflight_key :: "HttpRequest \<Rightarrow> Origin \<Rightarrow> CredentialsMode \<Rightarrow> PreflightCacheKey" where
  "preflight_key r origin credentials =
     \<lparr>k_request_origin = origin, k_target_origin = origin_from_url (r_url r), k_method = method_as_str (r_method r),
      k_unsafe_header_names = cors_unsafe_header_names r, k_credentialed = (credentials = CredInclude)\<rparr>"

lemma ensure_preflight_eq:
  "ensure_preflight env r origin credentials t cache st =
     (let names = cors_unsafe_header_names r;
          now = e_instant env (st_tick st); c = retain_fresh cache now; key = preflight_key r origin credentials;
          st1 = st\<lparr>st_tick := st_tick st + 1\<rparr>
      in if is_cors_safelisted_method (r_method r) \<and> names = [] then (Inr (), cache, st)
         else if c key \<noteq> None then (Inr (), c, st1)
         else case send_once_with_timeout env (preflight_request (e_host env) r origin names) False t st1 of
            (Inl e, st2) \<Rightarrow> (Inl (transport_error e), c, st2)
          | (Inr resp, st2) \<Rightarrow>
              (case validate_preflight_response resp origin credentials (method_as_str (r_method r)) names of
                 Inl e \<Rightarrow> (Inl e, c, st2)
               | Inr _ \<Rightarrow> (Inr (), c(key \<mapsto> now + preflight_max_age resp), st2)))"
  unfolding ensure_preflight_def Let_def contains_fresh_def preflight_key_def insert_cache_def prod.case by (rule refl)

lemma ensure_preflight_cases:
  assumes eq: "ensure_preflight env r origin credentials t cache st = (res, cache', st')"
  obtains (simple) "is_cors_safelisted_method (r_method r)" "cors_unsafe_header_names r = []" "res = Inr ()"
      "cache' = cache" "st' = st"
    | (fresh) "retain_fresh cache (e_instant env (st_tick st)) (preflight_key r origin credentials) \<noteq> None" "res = Inr ()"
      "cache' = retain_fresh cache (e_instant env (st_tick st))" "st' = st\<lparr>st_tick := st_tick st + 1\<rparr>"
    | (failed) p e where "st_sent st' = st_sent st @ [p]" "is_preflight_of r p" "res = Inl e"
      "cache' = retain_fresh cache (e_instant env (st_tick st))"
    | (approved) p resp where "st_sent st' = st_sent st @ [p]" "is_preflight_of r p" "res = Inr ()"
      "validate_preflight_response resp origin credentials (method_as_str (r_method r)) (cors_unsafe_header_names r) = Inr ()"
      "cache' = (retain_fresh cache (e_instant env (st_tick st)))
         (preflight_key r origin credentials \<mapsto> e_instant env (st_tick st) + preflight_max_age resp)"
proof -
  let ?c = "retain_fresh cache (e_instant env (st_tick st))" and ?st1 = "st\<lparr>st_tick := st_tick st + 1\<rparr>"
  let ?names = "cors_unsafe_header_names r"
  obtain x st2 where x: "send_once_with_timeout env (preflight_request (e_host env) r origin ?names) False t ?st1 = (x, st2)"
    by force
  from preflight_sent [OF x] obtain p where p: "st_sent st2 = st_sent st @ [p]" "is_preflight_of r p" by auto
  consider (A) "is_cors_safelisted_method (r_method r) \<and> ?names = []"
    | (B) "\<not> (is_cors_safelisted_method (r_method r) \<and> ?names = [])" "?c (preflight_key r origin credentials) \<noteq> None"
    | (D) e where "\<not> (is_cors_safelisted_method (r_method r) \<and> ?names = [])" "?c (preflight_key r origin credentials) = None"
        "x = Inl e"
    | (E) resp where "\<not> (is_cors_safelisted_method (r_method r) \<and> ?names = [])" "?c (preflight_key r origin credentials) = None"
        "x = Inr resp" by (metis sum.exhaust)
  then show ?thesis
  proof cases
    case A
    then have "res = Inr () \<and> cache' = cache \<and> st' = st"
      using eq unfolding ensure_preflight_eq Let_def if_P [OF A] by simp
    with A show ?thesis using simple by blast
  next
    case B
    then have "res = Inr () \<and> cache' = ?c \<and> st' = ?st1"
      using eq unfolding ensure_preflight_eq Let_def if_not_P [OF B(1)] if_P [OF B(2)] by simp
    with B show ?thesis using fresh by blast
  next
    case D
    then have "res = Inl (transport_error e) \<and> cache' = ?c \<and> st' = st2"
      using eq unfolding ensure_preflight_eq Let_def if_not_P [OF D(1)] x by simp
    then show ?thesis using failed p by blast
  next
    case E
    show ?thesis
    proof (cases "validate_preflight_response resp origin credentials (method_as_str (r_method r)) ?names")
      case (Inl e)
      then have "res = Inl e \<and> cache' = ?c \<and> st' = st2"
        using eq E(2,3) unfolding ensure_preflight_eq Let_def if_not_P [OF E(1)] x by simp
      then show ?thesis using failed p by blast
    next
      case (Inr u)
      then have "res = Inr () \<and> st' = st2
          \<and> cache' = ?c(preflight_key r origin credentials \<mapsto> e_instant env (st_tick st) + preflight_max_age resp)"
        using eq E(2,3) unfolding ensure_preflight_eq Let_def if_not_P [OF E(1)] x by simp
      then show ?thesis using approved p Inr by simp
    qed
  qed
qed

text \<open>The exchange behind a preflight.\<close>

lemma send_once_exchange:
  assumes "send_once_with_timeout env r False t st = (res, st')"
  shows "\<exists>p x stores net. st_sent st' = st_sent st @ [p] \<and> same_context p r \<and> header p ''cookie'' = None
    \<and> e_exchange env (cl_transport (st_client st)) (cl_insecure (st_client st)) p t (st_stores st) (st_net st) = (x, stores, net)
    \<and> res = x"
proof -
  let ?p = "remove_header ''cookie'' (apply_user_agent (e_host env) (cl_user_agent (st_client st)) r)"
  obtain x stores net where x: "e_exchange env (cl_transport (st_client st)) (cl_insecure (st_client st)) ?p t (st_stores st) (st_net st)
      = (x, stores, net)" by (metis prod.exhaust)
  have "st_sent st' = st_sent st @ [?p] \<and> res = x"
    using assms by (auto simp: send_once_with_timeout_def exchange_def x Let_def split: sum.splits)
  moreover have "header ?p ''cookie'' = None" by (simp add: header_remove std_eval)
  moreover have "same_context ?p r" by (simp add: same_context_user_agent)
  ultimately show ?thesis using x by blast
qed

section \<open>One turn of the fetch loop\<close>

lemma same_context_hop: "same_context (hop_request q cross seen co r) r"
proof -
  have "same_context (foldl (\<lambda>r name. remove_header name r) r' ns) r" if "same_context r' r" for r' ns
    using that by (induction ns arbitrary: r') auto
  then show ?thesis by (simp add: hop_request_def Let_def strip_unsafe_headers_def)
qed

lemma hop_request_fields [simp]:
  "r_url (hop_request q cross seen co r) = r_url r"
  "r_require_public_ip (hop_request q cross seen co r) = r_require_public_ip r"
  using same_context_fields [OF same_context_hop [of q cross seen co r]] by simp_all

lemma check_target_sent: "check_target q n url s = (go, s') \<Longrightarrow> st_sent (s_net s') = st_sent (s_net s)"
  by (auto simp: check_target_def Let_def split: if_splits option.splits prod.splits)

lemma hop_corp_sent: "hop_corp env q seen r resp s = (b, s') \<Longrightarrow> s_net s' = s_net s"
  by (auto simp: hop_corp_def Let_def split: if_splits)

lemma hop_corp_passed:
  assumes "hop_corp env q seen r resp s = (False, s')" "q_mode q = ModeNoCors" seen
  shows "allows_response (e_psl env) (q_origin q) (r_url r) (p_headers resp) UnsafeNone (send_credentials q seen) False"
    "allows_response (e_psl env) (q_origin q) (r_url r) (p_headers resp) (q_embedder_policy q) (send_credentials q seen) False"
  using assms by (auto simp: hop_corp_def check_response_def Let_def split: if_splits)

text \<open>Requests a turn may put on the wire before its own: nothing, or one preflight of it.\<close>

definition preflights :: "'t fetch_params \<Rightarrow> bool \<Rightarrow> HttpRequest \<Rightarrow> HttpRequest list \<Rightarrow> bool" where
  "preflights q seen r ps \<longleftrightarrow> ps = [] \<or> q_mode q = ModeCors \<and> seen \<and> (\<exists>p. ps = [p] \<and> is_preflight_of r p)"

lemma hop_preflight_sent:
  assumes "hop_preflight env q seen co r s = (x, s')"
  shows "\<exists>ps. st_sent (s_net s') = st_sent (s_net s) @ ps \<and> preflights q seen r ps"
proof (cases "seen \<and> q_mode q = ModeCors")
  case True
  obtain a c n where e: "ensure_preflight env r co (q_credentials q) (q_timeout q) (s_cache s) (s_net s) = (a, c, n)"
    by (metis prod_cases3)
  with assms True have s': "s' = s\<lparr>s_cache := c, s_net := n\<rparr>" by (simp add: hop_preflight_def)
  have "\<exists>ps. st_sent n = st_sent (s_net s) @ ps \<and> (ps = [] \<or> (\<exists>p. ps = [p] \<and> is_preflight_of r p))"
    using e by (cases rule: ensure_preflight_cases) auto
  with True s' show ?thesis by (auto simp: preflights_def)
qed (use assms in \<open>auto simp: hop_preflight_def preflights_def\<close>)

lemma fetch_loop_cases:
  fixes q :: "'t fetch_params" and env :: "('u, 't) net_env"
  assumes run: "fetch_loop env q left r0 red seen0 co s = (res, s')"
  defines "cross \<equiv> \<not> is_same_origin (q_origin q) (r_url r0)"
  defines "seen \<equiv> seen0 \<or> cross"
  defines "r \<equiv> hop_request q cross seen co r0"
  obtains (refused) e where "res = Inl e" "st_sent (s_net s') = st_sent (s_net s)"
    | (preflight) ps e where "res = Inl e" "st_sent (s_net s') = st_sent (s_net s) @ ps" "preflights q seen r ps"
        "\<not> (cross \<and> q_mode q = ModeSameOrigin)"
    | (failed) ps req e where "res = Inl e" "st_sent (s_net s') = st_sent (s_net s) @ ps @ [req]" "preflights q seen r ps"
        "same_context req r" "\<not> send_credentials q seen \<Longrightarrow> header req ''cookie'' = None"
        "\<not> (cross \<and> q_mode q = ModeSameOrigin)"
    | (answered) ps req resp s2 s3 where "st_sent (s_net s3) = st_sent (s_net s) @ ps @ [req]" "preflights q seen r ps"
        "same_context req r" "\<not> send_credentials q seen \<Longrightarrow> header req ''cookie'' = None"
        "\<not> (cross \<and> q_mode q = ModeSameOrigin)"
        "hop_corp env q seen r resp s2 = (False, s3)" "hop_cors_check q seen co resp = Inr ()"
        "\<not> is_redirect (p_status_code resp) \<and> s' = s3
           \<and> res = Inr \<lparr>f_response = finish_response resp (r_url r) (max_redirects - left),
                f_response_type = response_type_of q seen, f_redirected = red\<rparr>
         \<or> is_redirect (p_status_code resp) \<and> q_redirect_mode q = RedirectManual \<and> s' = s3
           \<and> res = Inr \<lparr>f_response = finish_response resp (r_url r) (max_redirects - left),
                f_response_type = TypeOpaqueRedirect, f_redirected = False\<rparr>
         \<or> (\<exists>m url. is_redirect (p_status_code resp) \<and> left = Suc m
             \<and> fetch_loop env q m (redirected_request env r (p_status_code resp) url (q_unrestricted_origin q)) True seen
                 (if cross \<and> origin_from_url (r_url r) \<noteq> origin_from_url url then opaque_origin else co) s3 = (res, s'))"
proof -
  obtain go s1 where t: "check_target q (max_redirects - left) (r_url r0) s = (go, s1)" by force
  obtain x s2 where p: "hop_preflight env q seen co r s1 = (x, s2)" by force
  obtain y net where y: "send_once_with_timeout env r (send_credentials q seen) (q_timeout q) (s_net s2) = (y, net)" by force
  have s1: "st_sent (s_net s1) = st_sent (s_net s)" by (rule check_target_sent [OF t])
  from hop_preflight_sent [OF p] obtain ps where
    ps: "st_sent (s_net s2) = st_sent (s_net s) @ ps" "preflights q seen r ps" unfolding s1 by blast
  from send_once_sent [OF y] obtain req where req: "st_sent net = st_sent (s_net s) @ ps @ [req]" "same_context req r"
    "\<not> send_credentials q seen \<Longrightarrow> header req ''cookie'' = None" unfolding ps(1) by auto
  note run1 = run [unfolded fetch_loop.simps [of env q left r0 red seen0 co s] Let_def t prod.case
      cross_def [symmetric] seen_def [symmetric] r_def [symmetric] p y]
  show ?thesis
  proof (cases "\<not> go \<or> cross \<and> q_mode q = ModeSameOrigin")
    case True
    with run1 have "\<exists>e. res = Inl e" "s' = s1" by (auto split: if_splits)
    with refused s1 show ?thesis by blast
  next
    case go: False
    show ?thesis
    proof (cases x)
      case (Inl e)
      with run1 go have "res = Inl e" "s' = s2" by auto
      with preflight ps go show ?thesis by blast
    next
      case x: (Inr u)
      show ?thesis
      proof (cases y)
        case (Inl e)
        with run1 go x have "res = Inl (transport_error e)" "s' = s2\<lparr>s_net := net\<rparr>" by auto
        with failed ps req go show ?thesis by simp
      next
        case y': (Inr resp)
        obtain b s3 where b: "hop_corp env q seen r resp (s2\<lparr>s_net := net\<rparr>) = (b, s3)" by force
        have s3: "st_sent (s_net s3) = st_sent (s_net s) @ ps @ [req]" using hop_corp_sent [OF b] req(1) by simp
        note run2 = run1 [unfolded x y' sum.case b prod.case]
        have u: "a = Inr ()" if "a = Inr v" for a :: "CorsError + unit" and v using that by simp
        consider (blocked) "b \<or> (\<exists>e. hop_cors_check q seen co resp = Inl e)"
          | (pass) "\<not> b" "hop_cors_check q seen co resp = Inr ()" by (metis sum.exhaust u)
        then show ?thesis
        proof cases
          case blocked
          with run2 go have "\<exists>e. res = Inl e" "s' = s3" by (auto split: if_splits)
          with failed ps req go s3 show ?thesis by blast
        next
          case pass
          have pb: "hop_corp env q seen r resp (s2\<lparr>s_net := net\<rparr>) = (False, s3)" using b pass(1) by simp
          note run3 = run2 [unfolded pass(2) sum.case]
          have fin: "res = Inl e \<Longrightarrow> s' = s3 \<Longrightarrow> ?thesis" for e using failed ps req go s3 by blast
          consider (n) "\<not> is_redirect (p_status_code resp)"
            | (m) "is_redirect (p_status_code resp)" "q_redirect_mode q = RedirectManual"
            | (e) "is_redirect (p_status_code resp)" "q_redirect_mode q = RedirectError"
            | (f) "is_redirect (p_status_code resp)" "q_redirect_mode q = RedirectFollow"
            by (cases "q_redirect_mode q") auto
          then show ?thesis
          proof cases
            case n
            with run3 go pass(1) show ?thesis using answered [OF s3 ps(2) req(2,3) _ pb pass(2)] by auto
          next
            case m
            with run3 go pass(1) show ?thesis using answered [OF s3 ps(2) req(2,3) _ pb pass(2)] by auto
          next
            case e
            with run3 go pass(1) show ?thesis using fin by auto
          next
            case f
            show ?thesis
            proof (cases "\<exists>m l url. left = Suc m \<and> response_header resp ''location'' = Some l
                \<and> resolve_redirect_url (e_uc env) (r_url r) l = Inr url")
              case True
              then obtain m l url where hop: "left = Suc m" "response_header resp ''location'' = Some l"
                "resolve_redirect_url (e_uc env) (r_url r) l = Inr url" by blast
              have "\<not> is_same_origin (q_origin q) (r_url r) \<longleftrightarrow> cross" by (simp add: r_def cross_def)
              then have "fetch_loop env q m (redirected_request env r (p_status_code resp) url (q_unrestricted_origin q)) True seen
                 (if cross \<and> origin_from_url (r_url r) \<noteq> origin_from_url url then opaque_origin else co) s3 = (res, s')"
                using run3 go pass(1) f hop by (cases cross) simp_all
              then show ?thesis using answered [OF s3 ps(2) req(2,3) _ pb pass(2)] f(1) hop(1) go by blast
            next
              case False
              with f run3 go pass(1) show ?thesis using fin by (auto split: nat.splits option.splits sum.splits)
            qed
          qed
        qed
      qed
    qed
  qed
qed

lemma redirected_request_fields [simp]:
  "r_url (redirected_request env r status url u) = url"
  "r_require_public_ip (redirected_request env r status url u) \<longleftrightarrow>
     r_require_public_ip r \<or> (case u of Some initial \<Rightarrow> initial \<noteq> origin_from_url url | None \<Rightarrow> False)"
proof -
  define n1 where "n1 = (if r_require_public_ip r \<or> (case u of Some initial \<Rightarrow> initial \<noteq> origin_from_url url | None \<Rightarrow> False)
     then require_public_ip (request_new (e_host env) (redirect_method status (r_method r)) url)
     else request_new (e_host env) (redirect_method status (r_method r)) url)"
  define n3 where "n3 = (case r_site_for_cookies r of
      Some site \<Rightarrow> copy_cookie_partition_from r (set_cookie_context (e_psl env) site (r_top_level_navigation r) n1)
    | None \<Rightarrow> n1)\<lparr>r_storage_access_eligible := (origin_from_url (r_url r) = origin_from_url url \<and> r_storage_access_eligible r),
        r_cross_site_ancestry := r_cross_site_ancestry r\<rparr>"
  have n3: "r_url n3 = url" "r_require_public_ip n3 = (r_require_public_ip r
      \<or> (case u of Some initial \<Rightarrow> initial \<noteq> origin_from_url url | None \<Rightarrow> False))"
    by (auto simp: n3_def n1_def copy_cookie_partition_from_def set_cookie_context_def require_public_ip_def request_new_def
        split: option.splits)
  have "\<exists>P body. redirected_request env r status url u \<in> {copy_headers P (r_headers r) n3, set_body body (copy_headers P (r_headers r) n3)}"
    unfolding redirected_request_def Let_def n1_def [symmetric] n3_def [symmetric] by (cases "r_body r") auto
  then obtain P body where e: "redirected_request env r status url u = copy_headers P (r_headers r) n3
      \<or> redirected_request env r status url u = set_body body (copy_headers P (r_headers r) n3)" by blast
  have c: "r_url (copy_headers P (r_headers r) n3) = url"
    "r_require_public_ip (copy_headers P (r_headers r) n3) = r_require_public_ip n3"
    using same_context_fields [OF same_context_copy [of P "r_headers r" n3]] n3(1) by simp_all
  show "r_url (redirected_request env r status url u) = url"
    "r_require_public_ip (redirected_request env r status url u) \<longleftrightarrow>
     r_require_public_ip r \<or> (case u of Some initial \<Rightarrow> initial \<noteq> origin_from_url url | None \<Rightarrow> False)"
    using e c n3 by (auto simp: set_body_def)
qed

section \<open>Requests on the wire\<close>

text \<open>What a fetch may put on the wire, in order: under \<open>same-origin\<close> mode only requests to the client's origin;
  no cookies when they are omitted; cookies under \<open>same-origin\<close> credentials only while no other origin was contacted; and,
  when the first origin is privileged, every request to another one is confined to public addresses.\<close>

definition wire_ok :: "'t fetch_params \<Rightarrow> HttpRequest list \<Rightarrow> bool" where
  "wire_ok q new \<longleftrightarrow>
     (q_mode q = ModeSameOrigin \<longrightarrow> (\<forall>r\<in>set new. is_same_origin (q_origin q) (r_url r)))
   \<and> (q_credentials q = CredOmit \<longrightarrow> (\<forall>r\<in>set new. header r ''cookie'' = None))
   \<and> (q_credentials q = CredSameOrigin \<longrightarrow>
        (\<exists>xs ys. new = xs @ ys \<and> (\<forall>r\<in>set xs. is_same_origin (q_origin q) (r_url r)) \<and> (\<forall>r\<in>set ys. header r ''cookie'' = None)))
   \<and> (\<forall>initial r. q_unrestricted_origin q = Some initial \<longrightarrow> r \<in> set new \<longrightarrow>
        origin_from_url (r_url r) = initial \<or> r_require_public_ip r)"

definition turn_ok :: "'t fetch_params \<Rightarrow> bool \<Rightarrow> HttpRequest \<Rightarrow> HttpRequest \<Rightarrow> bool" where
  "turn_ok q seen r0 r \<longleftrightarrow> r_url r = r_url r0 \<and> r_require_public_ip r = r_require_public_ip r0
     \<and> (\<not> send_credentials q seen \<longrightarrow> header r ''cookie'' = None)"

lemma turn_ok_sent: "same_context req r \<Longrightarrow> r_url r = r_url r0 \<Longrightarrow> r_require_public_ip r = r_require_public_ip r0 \<Longrightarrow>
    (\<not> send_credentials q seen \<Longrightarrow> header req ''cookie'' = None) \<Longrightarrow> turn_ok q seen r0 req"
  by (auto simp: turn_ok_def dest: same_context_fields)

lemma turn_ok_preflights:
  "preflights q seen (hop_request q c seen co r0) ps \<Longrightarrow> p \<in> set ps \<Longrightarrow> turn_ok q seen r0 p"
  by (auto simp: preflights_def turn_ok_def is_preflight_of_def)

text \<open>A turn to a request under the conditions of the loop, then the rest of the fetch.\<close>

definition target_ok :: "'t fetch_params \<Rightarrow> HttpRequest \<Rightarrow> bool" where
  "target_ok q r0 \<longleftrightarrow> (\<forall>initial. q_unrestricted_origin q = Some initial \<longrightarrow>
     origin_from_url (r_url r0) = initial \<or> r_require_public_ip r0)"

lemma wire_ok_turn:
  assumes ts: "\<forall>r\<in>set ts. turn_ok q seen r0 r" and t: "target_ok q r0"
    and m: "\<not> (\<not> is_same_origin (q_origin q) (r_url r0) \<and> q_mode q = ModeSameOrigin)"
    and seen: "seen \<longleftrightarrow> seen0 \<or> \<not> is_same_origin (q_origin q) (r_url r0)"
    and rest: "wire_ok q rest" "seen \<Longrightarrow> q_credentials q = CredSameOrigin \<Longrightarrow> \<forall>r\<in>set rest. header r ''cookie'' = None"
  shows "wire_ok q (ts @ rest)"
proof -
  have url: "\<And>r. r \<in> set ts \<Longrightarrow> r_url r = r_url r0 \<and> r_require_public_ip r = r_require_public_ip r0"
    using ts by (auto simp: turn_ok_def)
  have ck: "header r ''cookie'' = None" if "r \<in> set ts" "\<not> send_credentials q seen" for r
    using ts that by (auto simp: turn_ok_def)
  have "\<exists>xs ys. ts @ rest = xs @ ys \<and> (\<forall>r\<in>set xs. is_same_origin (q_origin q) (r_url r)) \<and> (\<forall>r\<in>set ys. header r ''cookie'' = None)"
    if cs: "q_credentials q = CredSameOrigin"
  proof (cases seen)
    case True
    then have "\<forall>r\<in>set (ts @ rest). header r ''cookie'' = None" using rest(2) cs ck by (auto simp: send_credentials_def)
    then show ?thesis by (metis append_Nil empty_iff empty_set)
  next
    case False
    then have "\<forall>r\<in>set ts. is_same_origin (q_origin q) (r_url r)" using url seen by simp
    moreover obtain xs ys where "rest = xs @ ys" "\<forall>r\<in>set xs. is_same_origin (q_origin q) (r_url r)"
      "\<forall>r\<in>set ys. header r ''cookie'' = None" using rest(1) cs by (auto simp: wire_ok_def)
    ultimately have "ts @ rest = (ts @ xs) @ ys \<and> (\<forall>r\<in>set (ts @ xs). is_same_origin (q_origin q) (r_url r))
      \<and> (\<forall>r\<in>set ys. header r ''cookie'' = None)" by auto
    then show ?thesis by blast
  qed
  moreover have "q_credentials q = CredOmit \<Longrightarrow> \<forall>r\<in>set (ts @ rest). header r ''cookie'' = None"
    using ck rest(1) by (auto simp: send_credentials_def wire_ok_def)
  moreover have "q_mode q = ModeSameOrigin \<Longrightarrow> \<forall>r\<in>set (ts @ rest). is_same_origin (q_origin q) (r_url r)"
    using url m rest(1) by (auto simp: wire_ok_def)
  moreover have "origin_from_url (r_url r) = initial \<or> r_require_public_ip r"
    if "q_unrestricted_origin q = Some initial" "r \<in> set (ts @ rest)" for initial r
    using that url t rest(1) by (auto simp: wire_ok_def target_ok_def)
  ultimately show ?thesis by (simp add: wire_ok_def)
qed

lemma wire_ok_Nil [simp]: "wire_ok q []"
  by (simp add: wire_ok_def)

lemma preflights_length: "preflights q seen r ps \<Longrightarrow> length ps \<le> 1"
  by (auto simp: preflights_def)

lemma fetch_loop_wire:
  "fetch_loop env q left r0 red seen0 co s = (res, s') \<Longrightarrow> target_ok q r0 \<Longrightarrow>
     \<exists>new. st_sent (s_net s') = st_sent (s_net s) @ new \<and> wire_ok q new \<and> length new \<le> 2 * (left + 1)
       \<and> (seen0 \<and> q_credentials q = CredSameOrigin \<longrightarrow> (\<forall>r\<in>set new. header r ''cookie'' = None))"
proof (induction left arbitrary: r0 red seen0 co s rule: less_induct)
  case (less left)
  let ?cross = "\<not> is_same_origin (q_origin q) (r_url r0)"
  let ?seen = "seen0 \<or> ?cross"
  let ?r = "hop_request q ?cross ?seen co r0"
  have sc: "\<not> send_credentials q ?seen" if "seen0" "q_credentials q = CredSameOrigin"
    using that by (simp add: send_credentials_def)
  have turn: "\<forall>r\<in>set (ps @ [req]). turn_ok q ?seen r0 r"
    if "preflights q ?seen ?r ps" "same_context req ?r" "\<not> send_credentials q ?seen \<Longrightarrow> header req ''cookie'' = None" for ps req
    using turn_ok_preflights [OF that(1)] turn_ok_sent [OF that(2), of r0 q ?seen] that(3) by auto
  have nocookie: "\<forall>r\<in>set ts. turn_ok q ?seen r0 r \<Longrightarrow> seen0 \<Longrightarrow> q_credentials q = CredSameOrigin
      \<Longrightarrow> \<forall>r\<in>set ts. header r ''cookie'' = None" for ts
    using sc by (auto simp: turn_ok_def)
  have stop: ?case if ts: "st_sent (s_net s') = st_sent (s_net s) @ ts" "\<forall>r\<in>set ts. turn_ok q ?seen r0 r" "length ts \<le> 2"
      "\<not> (?cross \<and> q_mode q = ModeSameOrigin)" for ts
  proof -
    have "wire_ok q ts" using wire_ok_turn [OF ts(2) less.prems(2) ts(4), of seen0 "[]"] by simp
    moreover have "length ts \<le> 2 * (left + 1)" using ts(3) by simp
    ultimately show ?thesis using ts(1) nocookie [OF ts(2)] by blast
  qed
  from less.prems(1) show ?case
  proof (cases rule: fetch_loop_cases)
    case (refused e)
    then show ?thesis by (intro exI [of _ "[]"]) simp
  next
    case (preflight ps e)
    then show ?thesis using stop [of ps] turn_ok_preflights [OF preflight(3)] preflights_length [OF preflight(3)] by simp
  next
    case (failed ps req e)
    then show ?thesis using stop [of "ps @ [req]"] turn [OF failed(3,4,5)] preflights_length [OF failed(3)] by simp
  next
    case (answered ps req resp s2 s3)
    have ts: "\<forall>r\<in>set (ps @ [req]). turn_ok q ?seen r0 r" by (rule turn [OF answered(2,3,4)])
    consider (final) "s' = s3" | (hop) m url co' where "left = Suc m"
        "fetch_loop env q m (redirected_request env ?r (p_status_code resp) url (q_unrestricted_origin q)) True ?seen co' s3 = (res, s')"
      using answered(8) by blast
    then show ?thesis
    proof cases
      case final
      then show ?thesis using stop [OF _ ts] preflights_length [OF answered(2)] answered(1,5) by simp
    next
      case hop
      have "target_ok q (redirected_request env ?r (p_status_code resp) url (q_unrestricted_origin q))"
        by (auto simp: target_ok_def)
      from less.IH [OF _ hop(2) this] hop(1) obtain rest where
        rest: "st_sent (s_net s') = st_sent (s_net s3) @ rest" "wire_ok q rest" "length rest \<le> 2 * (m + 1)"
          "?seen \<and> q_credentials q = CredSameOrigin \<longrightarrow> (\<forall>r\<in>set rest. header r ''cookie'' = None)" by auto
      have "wire_ok q ((ps @ [req]) @ rest)"
        using wire_ok_turn [OF ts less.prems(2) answered(5) refl rest(2)] rest(4) by blast
      moreover have "length ((ps @ [req]) @ rest) \<le> 2 * (left + 1)"
        using rest(3) hop(1) preflights_length [OF answered(2)] by simp
      moreover have "st_sent (s_net s') = st_sent (s_net s) @ (ps @ [req]) @ rest" using rest(1) answered(1) by simp
      moreover have "seen0 \<and> q_credentials q = CredSameOrigin \<longrightarrow> (\<forall>r\<in>set ((ps @ [req]) @ rest). header r ''cookie'' = None)"
        using nocookie [OF ts] rest(4) by auto
      ultimately show ?thesis by blast
    qed
  qed
qed

section \<open>Responses handed to the caller\<close>

definition response_ok :: "('u, 't) net_env \<Rightarrow> 't fetch_params \<Rightarrow> FetchResponse \<Rightarrow> HttpRequest list \<Rightarrow> bool" where
  "response_ok env q fr new \<longleftrightarrow>
     p_redirect_count (f_response fr) \<le> max_redirects
   \<and> (is_redirect (p_status_code (f_response fr)) \<longleftrightarrow> f_response_type fr = TypeOpaqueRedirect)
   \<and> (case f_response_type fr of
        TypeBasic \<Rightarrow> \<forall>r\<in>set new. is_same_origin (q_origin q) (r_url r)
      | TypeCors \<Rightarrow> q_mode q = ModeCors
          \<and> (cors_check (f_response fr) (q_origin q) (q_credentials q) = Inr ()
             \<or> f_redirected fr \<and> cors_check (f_response fr) opaque_origin (q_credentials q) = Inr ())
      | TypeOpaque \<Rightarrow> q_mode q = ModeNoCors
          \<and> (\<exists>url. p_effective_url (f_response fr) = Some url
              \<and> (\<forall>policy\<in>{UnsafeNone, q_embedder_policy q}. allows_response (e_psl env) (q_origin q) url
                    (p_headers (f_response fr)) policy (send_credentials q True) False))
      | TypeOpaqueRedirect \<Rightarrow> q_redirect_mode q = RedirectManual)"

lemma finish_response_fields [simp]:
  "p_status_code (finish_response resp url n) = p_status_code resp" "p_headers (finish_response resp url n) = p_headers resp"
  "p_effective_url (finish_response resp url n) = Some url" "p_redirect_count (finish_response resp url n) = n"
  "response_header (finish_response resp url n) name = response_header resp name"
  by (simp_all add: finish_response_def response_header_def)

lemma cors_check_finish [simp]: "cors_check (finish_response resp url n) co cred = cors_check resp co cred"
  unfolding cors_check_def finish_response_fields by (rule refl)

lemma response_ok_final:
  assumes "hop_corp env q seen r resp s2 = (False, s3)" "hop_cors_check q seen co resp = Inr ()"
    "\<not> is_redirect (p_status_code resp)" "co = q_origin q \<or> red \<and> co = opaque_origin"
    "q_mode q = ModeSameOrigin \<Longrightarrow> \<not> seen" "\<not> seen \<Longrightarrow> \<forall>r\<in>set new. is_same_origin (q_origin q) (r_url r)"
  shows "response_ok env q \<lparr>f_response = finish_response resp (r_url r) (max_redirects - left),
    f_response_type = response_type_of q seen, f_redirected = red\<rparr> new"
proof (cases seen)
  case False
  then show ?thesis using assms by (simp add: response_ok_def response_type_of_def)
next
  case True
  then show ?thesis using assms hop_corp_passed [OF assms(1)]
    by (cases "q_mode q") (auto simp: response_ok_def response_type_of_def hop_cors_check_def)
qed

lemma response_ok_append:
  "response_ok env q fr rest \<Longrightarrow> (f_response_type fr = TypeBasic \<Longrightarrow> \<forall>r\<in>set ts. is_same_origin (q_origin q) (r_url r)) \<Longrightarrow>
     response_ok env q fr (ts @ rest)"
  by (auto simp: response_ok_def split: ResponseType.splits)

lemma fetch_loop_response:
  "fetch_loop env q left r0 red seen0 co s = (Inr fr, s') \<Longrightarrow> co = q_origin q \<or> red \<and> co = opaque_origin \<Longrightarrow>
   (q_mode q = ModeSameOrigin \<Longrightarrow> \<not> seen0) \<Longrightarrow>
     \<exists>new. st_sent (s_net s') = st_sent (s_net s) @ new \<and> response_ok env q fr new \<and> (f_response_type fr = TypeBasic \<longrightarrow> \<not> seen0)"
proof (induction left arbitrary: r0 red seen0 co s rule: less_induct)
  case (less left)
  let ?cross = "\<not> is_same_origin (q_origin q) (r_url r0)"
  let ?seen = "seen0 \<or> ?cross"
  let ?r = "hop_request q ?cross ?seen co r0"
  from less.prems(1) show ?case
  proof (cases rule: fetch_loop_cases)
    case (answered ps req resp s2 s3)
    have same: "\<not> ?seen \<Longrightarrow> \<forall>r\<in>set (ps @ [req]). is_same_origin (q_origin q) (r_url r)"
      using answered(2) same_context_fields [OF answered(3)] by (auto simp: preflights_def)
    have mode: "q_mode q = ModeSameOrigin \<Longrightarrow> \<not> ?seen" using answered(5) less.prems(3) by blast
    from answered(8) consider
      (plain) "\<not> is_redirect (p_status_code resp)" "s' = s3"
        "fr = \<lparr>f_response = finish_response resp (r_url ?r) (max_redirects - left), f_response_type = response_type_of q ?seen, f_redirected = red\<rparr>"
      | (manual) "is_redirect (p_status_code resp)" "q_redirect_mode q = RedirectManual" "s' = s3"
        "fr = \<lparr>f_response = finish_response resp (r_url ?r) (max_redirects - left), f_response_type = TypeOpaqueRedirect, f_redirected = False\<rparr>"
      | (hop) m url where "left = Suc m"
        "fetch_loop env q m (redirected_request env ?r (p_status_code resp) url (q_unrestricted_origin q)) True ?seen
          (if ?cross \<and> origin_from_url (r_url ?r) \<noteq> origin_from_url url then opaque_origin else co) s3 = (Inr fr, s')"
      by blast
    then show ?thesis
    proof cases
      case plain
      have "response_ok env q fr (ps @ [req])"
        unfolding plain(3) by (rule response_ok_final [OF answered(6,7) plain(1) less.prems(2) mode same])
      moreover have "f_response_type fr = TypeBasic \<longrightarrow> \<not> seen0"
        using mode by (cases "q_mode q") (auto simp: plain(3) response_type_of_def)
      ultimately show ?thesis using answered(1) plain(2) by blast
    next
      case manual
      then have "response_ok env q fr (ps @ [req])" by (simp add: response_ok_def)
      then show ?thesis using answered(1) manual by auto
    next
      case hop
      have "\<exists>rest. st_sent (s_net s') = st_sent (s_net s3) @ rest \<and> response_ok env q fr rest \<and> (f_response_type fr = TypeBasic \<longrightarrow> \<not> ?seen)"
        by (rule less.IH [OF _ hop(2)]) (use hop(1) less.prems(2) mode in auto)
      then obtain rest where rest: "st_sent (s_net s') = st_sent (s_net s3) @ rest" "response_ok env q fr rest"
        "f_response_type fr = TypeBasic \<longrightarrow> \<not> ?seen" by blast
      have "response_ok env q fr ((ps @ [req]) @ rest)" by (rule response_ok_append [OF rest(2)]) (use rest(3) same in blast)
      moreover have "st_sent (s_net s') = st_sent (s_net s) @ (ps @ [req]) @ rest" using rest(1) answered(1) by simp
      ultimately show ?thesis using rest(3) by blast
    qed
  qed simp_all
qed

section \<open>Properties\<close>

text \<open>The parameters a call of \<open>fetch_with_policy\<close> fixes for its loop.\<close>

definition policy_params where
  "policy_params request origin mode credentials redirect_mode embedder_policy report_only timeout restrict_redirects check_redirect =
     \<lparr>q_origin = origin, q_mode = mode, q_credentials = credentials, q_redirect_mode = redirect_mode,
      q_embedder_policy = embedder_policy, q_report_only_embedder_policy = report_only, q_timeout = timeout,
      q_unrestricted_origin = (if restrict_redirects then Some (origin_from_url (r_url request)) else None),
      q_initial_url = url_to_string (r_url request), q_check_redirect = check_redirect\<rparr>"

lemma fetch_with_policy_loop:
  "fetch_with_policy env request origin mode credentials redirect_mode ep ro timeout restrict chk s =
     fetch_loop env (policy_params request origin mode credentials redirect_mode ep ro timeout restrict chk)
       max_redirects request False False origin s"
  by (simp add: fetch_with_policy_def policy_params_def)

lemma policy_params_fields [simp]:
  "q_origin (policy_params r origin mode cred rm ep ro t restr chk) = origin"
  "q_mode (policy_params r origin mode cred rm ep ro t restr chk) = mode"
  "q_credentials (policy_params r origin mode cred rm ep ro t restr chk) = cred"
  "q_redirect_mode (policy_params r origin mode cred rm ep ro t restr chk) = rm"
  "q_embedder_policy (policy_params r origin mode cred rm ep ro t restr chk) = ep"
  "q_unrestricted_origin (policy_params r origin mode cred rm ep ro t restr chk) =
     (if restr then Some (origin_from_url (r_url r)) else None)"
  by (simp_all add: policy_params_def)

text \<open>C4: whatever a fetch returns and however the servers redirect it, it puts at most twenty-two requests on the
  wire; in same-origin mode all of them go to the client's origin; with credentials omitted none carries cookies, and with
  same-origin credentials cookies are carried only before the first request to another origin; and when redirects are
  restricted, a request to an origin other than the first is confined to public addresses.\<close>

theorem fetch_requests_confined:
  "\<exists>new. st_sent (s_net (snd (fetch_with_policy env request origin mode credentials redirect_mode ep ro timeout restrict chk s)))
       = st_sent (s_net s) @ new
     \<and> length new \<le> 22
     \<and> (mode = ModeSameOrigin \<longrightarrow> (\<forall>r\<in>set new. is_same_origin origin (r_url r)))
     \<and> (credentials = CredOmit \<longrightarrow> (\<forall>r\<in>set new. header r ''cookie'' = None))
     \<and> (credentials = CredSameOrigin \<longrightarrow> (\<exists>xs ys. new = xs @ ys
          \<and> (\<forall>r\<in>set xs. is_same_origin origin (r_url r)) \<and> (\<forall>r\<in>set ys. header r ''cookie'' = None)))
     \<and> (restrict \<longrightarrow> (\<forall>r\<in>set new. origin_from_url (r_url r) = origin_from_url (r_url request) \<or> r_require_public_ip r))"
proof -
  let ?q = "policy_params request origin mode credentials redirect_mode ep ro timeout restrict chk"
  obtain res s' where run: "fetch_loop env ?q max_redirects request False False origin s = (res, s')" by force
  have "target_ok ?q request" by (simp add: target_ok_def)
  from fetch_loop_wire [OF run this] obtain new where
    "st_sent (s_net s') = st_sent (s_net s) @ new" "wire_ok ?q new" "length new \<le> 2 * (max_redirects + 1)" by blast
  then show ?thesis unfolding fetch_with_policy_loop run wire_ok_def
    by (intro exI [of _ new]) (auto simp: max_redirects_def split: if_splits)
qed

text \<open>C5: a response a fetch hands to its caller followed at most ten redirects and is itself a redirect only as an opaque
  redirect in manual mode; a basic one comes from a chain that never left the client's origin; a CORS one passed
  the CORS check for the client's origin or, after a redirect, for the opaque origin; and an opaque one is admitted by its own resource
  policy and by the enforced embedder policy.\<close>

theorem fetch_response_checked:
  assumes "fetch_with_policy env request origin mode credentials redirect_mode ep ro timeout restrict chk s = (Inr fr, s')"
  shows "p_redirect_count (f_response fr) \<le> 10
     \<and> (is_redirect (p_status_code (f_response fr)) \<longleftrightarrow> f_response_type fr = TypeOpaqueRedirect)
     \<and> (case f_response_type fr of
          TypeBasic \<Rightarrow> \<exists>new. st_sent (s_net s') = st_sent (s_net s) @ new \<and> (\<forall>r\<in>set new. is_same_origin origin (r_url r))
        | TypeCors \<Rightarrow> mode = ModeCors
            \<and> (cors_check (f_response fr) origin credentials = Inr ()
               \<or> f_redirected fr \<and> cors_check (f_response fr) opaque_origin credentials = Inr ())
        | TypeOpaque \<Rightarrow> mode = ModeNoCors
            \<and> (\<exists>url creds. p_effective_url (f_response fr) = Some url
               \<and> allows_response (e_psl env) origin url (p_headers (f_response fr)) UnsafeNone creds False
               \<and> allows_response (e_psl env) origin url (p_headers (f_response fr)) ep creds False)
        | TypeOpaqueRedirect \<Rightarrow> redirect_mode = RedirectManual)"
proof -
  let ?q = "policy_params request origin mode credentials redirect_mode ep ro timeout restrict chk"
  from fetch_loop_response [OF assms [unfolded fetch_with_policy_loop]] obtain new where
    "st_sent (s_net s') = st_sent (s_net s) @ new" "response_ok env ?q fr new" by auto
  then show ?thesis by (auto simp: response_ok_def max_redirects_def split: ResponseType.splits)
qed

text \<open>What the answer to a preflight must say.\<close>

definition preflight_grants :: "HttpRequest \<Rightarrow> Origin \<Rightarrow> CredentialsMode \<Rightarrow> HttpResponse \<Rightarrow> bool" where
  "preflight_grants r origin credentials resp \<longleftrightarrow>
     200 \<le> p_status_code resp \<and> p_status_code resp < 300 \<and> cors_check resp origin credentials = Inr ()
   \<and> allows_method resp (method_as_str (r_method r)) (credentials = CredInclude)
   \<and> allows_headers resp (cors_unsafe_header_names r) (credentials = CredInclude)"

lemma validate_preflight_grants:
  "(validate_preflight_response resp origin credentials (method_as_str (r_method r)) (cors_unsafe_header_names r) = Inr ())
     \<longleftrightarrow> preflight_grants r origin credentials resp"
  by (auto simp: validate_preflight_response_def preflight_grants_def Let_def split: sum.splits)

text \<open>C6: a preflight step succeeds without an exchange only for a request that needs no preflight or for one that a fresh entry of the cache covers.
  In every other case exactly one \<open>OPTIONS\<close> request without cookies goes to the same URL, and the answer of the network to this very request decides: the step
  succeeds if and only if the answer has a status of the 200s, passes the CORS check and allows the method and the unsafe headers; only then the cache
  learns the key of the request, for the \<open>Access-Control-Max-Age\<close> of that answer (five seconds without it, a day at most).  No expired entry
  survives a step that looks at the cache.\<close>

theorem preflight_required:
  assumes "ensure_preflight env r origin credentials t cache st = (res, cache', st')"
  shows "(is_cors_safelisted_method (r_method r) \<and> cors_unsafe_header_names r = []
            \<and> res = Inr () \<and> cache' = cache \<and> st_sent st' = st_sent st)
     \<or> \<not> (is_cors_safelisted_method (r_method r) \<and> cors_unsafe_header_names r = [])
       \<and> (\<exists>fresh. fresh = (\<lambda>k. case cache k of Some e \<Rightarrow> if e > e_instant env (st_tick st) then Some e else None | None \<Rightarrow> None)
        \<and> (if fresh (preflight_key r origin credentials) \<noteq> None then res = Inr () \<and> cache' = fresh \<and> st_sent st' = st_sent st
           else (\<exists>p x stores net. st_sent st' = st_sent st @ [p] \<and> is_preflight_of r p
                 \<and> e_exchange env (cl_transport (st_client st)) (cl_insecure (st_client st)) p t (st_stores st) (st_net st) = (x, stores, net)
                 \<and> (case x of
                      Inl e \<Rightarrow> res = Inl (transport_error e) \<and> cache' = fresh
                    | Inr resp \<Rightarrow>
                        if preflight_grants r origin credentials resp then
                          res = Inr () \<and> cache' = fresh(preflight_key r origin credentials \<mapsto> e_instant env (st_tick st)
                            + int (min (case Option.bind (response_header resp ''access-control-max-age'') (parse_uint 10 u64_max) of
                                          Some n \<Rightarrow> n | None \<Rightarrow> 5) 86400) * 1000000000)
                        else (\<exists>e. res = Inl e) \<and> cache' = fresh))))"
proof -
  let ?now = "e_instant env (st_tick st)" and ?key = "preflight_key r origin credentials" and ?names = "cors_unsafe_header_names r"
  let ?st1 = "st\<lparr>st_tick := st_tick st + 1\<rparr>"
  have fresh: "(\<lambda>k. case cache k of Some e \<Rightarrow> if e > ?now then Some e else None | None \<Rightarrow> None) = retain_fresh cache ?now"
    by (simp add: retain_fresh_def fun_eq_iff split: option.split)
  obtain y st2 where y: "send_once_with_timeout env (preflight_request (e_host env) r origin ?names) False t ?st1 = (y, st2)" by force
  from send_once_exchange [OF y] obtain p stores net where
    p: "st_sent st2 = st_sent st @ [p]" "same_context p (preflight_request (e_host env) r origin ?names)" "header p ''cookie'' = None"
    "e_exchange env (cl_transport (st_client st)) (cl_insecure (st_client st)) p t (st_stores st) (st_net st) = (y, stores, net)" by auto
  have pre: "is_preflight_of r p"
    using same_context_fields [OF p(2)] preflight_request_context [of "e_host env" r origin ?names] p(3) by (simp add: is_preflight_of_def)
  note run = assms [unfolded ensure_preflight_eq Let_def y]
  show ?thesis
  proof (cases "is_cors_safelisted_method (r_method r) \<and> ?names = []")
    case True
    then show ?thesis using run by simp
  next
    case simple: False
    show ?thesis
    proof (cases "retain_fresh cache ?now ?key = None")
      case False
      then show ?thesis using run simple unfolding fresh by auto
    next
      case True
      note run = run [unfolded if_not_P [OF simple], unfolded True]
      show ?thesis
      proof (cases y)
        case (Inl e)
        then show ?thesis using run simple True p(1,4) pre unfolding fresh by (intro disjI2) auto
      next
        case (Inr resp)
        have age: "preflight_max_age resp = int (min (case Option.bind (response_header resp ''access-control-max-age'') (parse_uint 10 u64_max) of
            Some n \<Rightarrow> n | None \<Rightarrow> 5) 86400) * 1000000000" by (simp add: preflight_max_age_def nanos_def)
        have g: "validate_preflight_response resp origin credentials (method_as_str (r_method r)) ?names = Inr () \<longleftrightarrow> preflight_grants r origin credentials resp"
          by (rule validate_preflight_grants)
        have x: "e_exchange env (cl_transport (st_client st)) (cl_insecure (st_client st)) p t (st_stores st) (st_net st) = (Inr resp, stores, net)"
          using p(4) Inr by simp
        show ?thesis
        proof (cases "preflight_grants r origin credentials resp")
          case True
          then show ?thesis
            using run simple \<open>retain_fresh cache ?now ?key = None\<close> p(1) pre x Inr g unfolding fresh by (intro disjI2) (auto simp: age)
        next
          case False
          then obtain e where v: "validate_preflight_response resp origin credentials (method_as_str (r_method r)) ?names = Inl e"
            using g by (cases "validate_preflight_response resp origin credentials (method_as_str (r_method r)) ?names") auto
          show ?thesis
            using run simple \<open>retain_fresh cache ?now ?key = None\<close> p(1) pre x Inr False unfolding fresh by (intro disjI2) (auto simp: v)
        qed
      qed
    qed
  qed
qed

text \<open>Merging two preflight caches does not depend on their order, keeps exactly the keys that are fresh in one of them, each
  with its later expiry, and merging a cache again changes nothing.\<close>

theorem merge_cache_laws:
  "merge_cache a b now = merge_cache b a now
   \<and> merge_cache (merge_cache a b now) b now = merge_cache a b now
   \<and> (\<forall>k e. merge_cache a b now k = Some e \<longleftrightarrow>
        now < e \<and> (a k = Some e \<or> b k = Some e) \<and> (\<forall>e'. a k = Some e' \<or> b k = Some e' \<longrightarrow> e' \<le> e))"
proof (intro conjI allI)
  show "merge_cache a b now = merge_cache b a now"
    by (auto simp: merge_cache_def fun_eq_iff split: option.splits)
  show "merge_cache (merge_cache a b now) b now = merge_cache a b now"
    by (auto simp: merge_cache_def retain_fresh_def fun_eq_iff max_def split: option.splits if_splits)
  show "merge_cache a b now k = Some e \<longleftrightarrow>
        now < e \<and> (a k = Some e \<or> b k = Some e) \<and> (\<forall>e'. a k = Some e' \<or> b k = Some e' \<longrightarrow> e' \<le> e)" for k e
    by (cases "a k"; cases "b k") (auto simp: merge_cache_def retain_fresh_def max_def split: option.splits if_splits)
qed

text \<open>A script never sees \<open>Set-Cookie\<close> or \<open>Set-Cookie2\<close>, sees nothing of an opaque response, and of a CORS response to a
  credentialed request only safelisted headers and those the server names.\<close>

theorem exposed_headers_filtered:
  assumes "(name, value) \<in> set (exposed_response_headers response response_type credentials)"
  shows "(name, value) \<in> set (p_headers response)
    \<and> to_ascii_lowercase name \<noteq> ''set-cookie'' \<and> to_ascii_lowercase name \<noteq> ''set-cookie2''
    \<and> response_type \<in> {TypeBasic, TypeCors}
    \<and> (response_type = TypeCors \<and> credentials = CredInclude \<longrightarrow> is_cors_safelisted_response_header name
         \<or> (\<exists>t\<in>set (header_tokens response ''access-control-expose-headers''). eq_ignore_ascii_case t name))"
  using assms by (cases response_type)
    (auto simp: exposed_response_headers_def Let_def list_ex_iff eq_ignore_ascii_case_def to_ascii_lowercase_def to_lower_def split: if_splits)

section \<open>A concrete fetch\<close>

text \<open>A server that allows every origin, the method \<open>PUT\<close> and one header, asked from the opaque origin.\<close>

definition cors_response :: HttpResponse where
  "cors_response = response_new 200 ''OK'' [(''Access-Control-Allow-Origin'', ''*''), (''Access-Control-Allow-Methods'', ''PUT''),
     (''Set-Cookie'', ''k=v''), (''Content-Type'', ''text/plain'')] []"

definition cors_net :: "((string \<times> string), nat) net_env" where
  "cors_net = demo_net\<lparr>e_exchange := (\<lambda>tr ins req t stores n. (Inr cors_response, stores, n + 1))\<rparr>"

definition cors_state :: "nat fetch_state" where
  "cors_state = \<lparr>s_cache = Map.empty, s_violations = [], s_net = demo_state\<rparr>"

definition cors_request :: HttpRequest where
  "cors_request = request_new demo_env Get demo_target"

lemma cors_exchange: "exchange cors_net t req st = (Inr cors_response, st\<lparr>st_net := st_net st + 1, st_sent := st_sent st @ [req]\<rparr>)"
  by (simp add: exchange_def cors_net_def)

lemma cors_send_once: "fst (send_once_with_timeout cors_net r False t st) = Inr cors_response"
  by (simp add: send_once_with_timeout_def Let_def cors_exchange)

definition cors_run :: "(CorsError + FetchResponse) \<times> nat fetch_state" where
  "cors_run = fetch_with_policy cors_net cors_request opaque_origin ModeCors CredOmit RedirectFollow UnsafeNone UnsafeNone None True None cors_state"

lemma cors_request_simple:
  "cors_unsafe_header_names (set_header ''Origin'' ''null'' cors_request) = []"
  by (simp add: cors_unsafe_header_names_def cors_request_def request_new_def set_header_def try_set_header_def is_automatic_header_def
      is_cors_safelisted_header_def std_eval)

theorem fetch_requests_confined_witness:
  "\<exists>new. st_sent (s_net (snd cors_run)) = new \<and> length new \<le> 22 \<and> (\<forall>r\<in>set new. header r ''cookie'' = None)"
  using fetch_requests_confined [of cors_net cors_request opaque_origin ModeCors CredOmit RedirectFollow UnsafeNone UnsafeNone None True None cors_state]
  by (auto simp: cors_run_def cors_state_def demo_state_def)

lemma cors_run_result:
  "fst cors_run = Inr \<lparr>f_response = finish_response cors_response demo_target 0, f_response_type = TypeCors, f_redirected = False\<rparr>"
proof -
  let ?r = "set_header ''Origin'' ''null'' cors_request"
  obtain st where st: "send_once_with_timeout cors_net ?r False None demo_state = (Inr cors_response, st)"
    using cors_send_once [of ?r None demo_state] by (metis prod.collapse)
  have m: "r_method cors_request = Get" "r_method ?r = Get" "r_url cors_request = demo_target" "r_url ?r = demo_target"
    by (simp_all add: cors_request_def request_new_def set_header_def try_set_header_def)
  have o1: "origin_serialize opaque_origin = ''null''" "\<not> is_same_origin opaque_origin u" for u
    by (simp_all add: origin_serialize_def opaque_origin_def is_same_origin_def)
  have c: "cors_check cors_response opaque_origin CredOmit = Inr ()"
    by (simp add: cors_check_def cors_response_def response_new_def response_header_def std_eval)
  show ?thesis
    unfolding cors_run_def fetch_with_policy_def Let_def
    by (simp add: fetch_loop.simps [of cors_net _ max_redirects] check_target_def m o1 hop_request_def hop_preflight_def ensure_preflight_def
        cors_request_simple is_cors_safelisted_method_def send_credentials_def cors_state_def st hop_corp_def hop_cors_check_def c
        response_type_of_def is_redirect_def)
      (simp add: cors_response_def response_new_def is_redirect_def response_type_of_def m)
qed

theorem fetch_response_checked_witness:
  "f_response_type (projr (fst cors_run)) = TypeCors
   \<and> cors_check (f_response (projr (fst cors_run))) opaque_origin CredOmit = Inr ()"
  using fetch_response_checked [of cors_net cors_request opaque_origin ModeCors CredOmit RedirectFollow UnsafeNone UnsafeNone None True None
      cors_state "projr (fst cors_run)" "snd cors_run"] cors_run_result
  by (simp add: cors_run_def [symmetric] prod_eq_iff)

theorem preflight_required_witness:
  "\<exists>p. st_sent (snd (snd (ensure_preflight cors_net (cors_request\<lparr>r_method := Put\<rparr>) opaque_origin CredOmit None Map.empty demo_state))) = [p]
     \<and> is_preflight_of (cors_request\<lparr>r_method := Put\<rparr>) p"
  using preflight_required [of cors_net "cors_request\<lparr>r_method := Put\<rparr>" opaque_origin CredOmit None Map.empty demo_state
    "fst (ensure_preflight cors_net (cors_request\<lparr>r_method := Put\<rparr>) opaque_origin CredOmit None Map.empty demo_state)"
    "fst (snd (ensure_preflight cors_net (cors_request\<lparr>r_method := Put\<rparr>) opaque_origin CredOmit None Map.empty demo_state))"
    "snd (snd (ensure_preflight cors_net (cors_request\<lparr>r_method := Put\<rparr>) opaque_origin CredOmit None Map.empty demo_state))"]
  by (auto simp: is_cors_safelisted_method_def demo_state_def)

theorem merge_cache_laws_witness:
  "merge_cache [preflight_key cors_request opaque_origin CredOmit \<mapsto> 5] [preflight_key cors_request opaque_origin CredOmit \<mapsto> 9] 1
     (preflight_key cors_request opaque_origin CredOmit) = Some 9"
  using merge_cache_laws [of "[preflight_key cors_request opaque_origin CredOmit \<mapsto> 5]"
    "[preflight_key cors_request opaque_origin CredOmit \<mapsto> 9]" 1, THEN conjunct2, THEN conjunct2, rule_format,
    of "preflight_key cors_request opaque_origin CredOmit" 9] by simp

theorem exposed_headers_filtered_witness:
  "to_ascii_lowercase ''Content-Type'' \<noteq> ''set-cookie''
   \<and> (''Content-Type'', ''text/plain'') \<in> set (exposed_response_headers cors_response TypeCors CredInclude)"
proof -
  have "(''Content-Type'', ''text/plain'') \<in> set (exposed_response_headers cors_response TypeCors CredInclude)"
    by (simp add: exposed_response_headers_def Let_def header_tokens_def cors_response_def response_new_def
        is_cors_safelisted_response_header_def std_eval)
  with exposed_headers_filtered [OF this] show ?thesis by blast
qed

end
