(* ===== verification/DomChildren.thy ===== *)
theory DomChildren
  imports Prelude
begin

text \<open>
  \<open>src/dom/children.rs\<close>: the children of one node, kept in slots of a vector that are linked
  both ways in sibling order, with the free slots linked through their \<open>next\<close> field.  A
  \<open>usize\<close> index is a natural number and \<open>NONE\<close> is \<open>usize::MAX\<close>.  Indexing out of range, \<open>expect\<close>
  and \<open>assert!\<close> are the panic \<open>None\<close>.  \<open>insert_between\<close> also writes the slot into the inserted node
  (\<open>parent_slot\<close>), so the operations thread the map of these fields.
\<close>

section \<open>Data\<close>

definition NONE :: nat where "NONE = 2 ^ 64 - 1"

record 'n Slot =
  sl_node :: "'n option"
  sl_previous :: nat
  sl_next :: nat

record 'n Storage =
  g_slots :: "'n Slot list"
  g_first :: nat
  g_last :: nat
  g_free :: nat
  g_len :: nat

type_synonym 'n Children = "'n Storage option"

definition storage_default :: "'n Storage" where
  "storage_default = \<lparr>g_slots = [], g_first = NONE, g_last = NONE, g_free = NONE, g_len = 0\<rparr>"

section \<open>Reading\<close>

definition nth_opt :: "'a list \<Rightarrow> nat \<Rightarrow> 'a option" where
  "nth_opt xs i = (if i < length xs then Some (xs ! i) else None)"

definition children_len :: "'n Children \<Rightarrow> nat" where
  "children_len c = (case c of None \<Rightarrow> 0 | Some storage \<Rightarrow> g_len storage)"

definition get_slot :: "'n Children \<Rightarrow> nat \<Rightarrow> 'n option" where
  "get_slot c slot = Option.bind c (\<lambda>storage. Option.bind (nth_opt (g_slots storage) slot) sl_node)"

definition children_first :: "'n Children \<Rightarrow> 'n option" where
  "children_first c = Option.bind c (\<lambda>storage. get_slot c (g_first storage))"

definition children_last :: "'n Children \<Rightarrow> 'n option" where
  "children_last c = Option.bind c (\<lambda>storage. get_slot c (g_last storage))"

definition adjacent :: "'n Children \<Rightarrow> nat \<Rightarrow> bool \<Rightarrow> 'n option" where
  "adjacent c slot previous =
     Option.bind c (\<lambda>storage. Option.bind (nth_opt (g_slots storage) slot) (\<lambda>entry.
       Option.bind (sl_node entry) (\<lambda>_. get_slot c (if previous then sl_previous entry else sl_next entry))))"

section \<open>Writing\<close>

text \<open>\<open>slots[i].next = n\<close> and \<open>slots[i].previous = p\<close>.\<close>

definition set_next :: "nat \<Rightarrow> nat \<Rightarrow> 'n Slot list \<Rightarrow> 'n Slot list option" where
  "set_next i n ss = (if i < length ss then Some (ss[i := (ss ! i)\<lparr>sl_next := n\<rparr>]) else None)"

definition set_previous :: "nat \<Rightarrow> nat \<Rightarrow> 'n Slot list \<Rightarrow> 'n Slot list option" where
  "set_previous i p ss = (if i < length ss then Some (ss[i := (ss ! i)\<lparr>sl_previous := p\<rparr>]) else None)"

text \<open>The slot for a new child, and the free list without it.\<close>

definition take_slot :: "'n Storage \<Rightarrow> (nat \<times> nat) option" where
  "take_slot storage =
     (if g_free storage = NONE then Some (length (g_slots storage), NONE)
      else Option.bind (nth_opt (g_slots storage) (g_free storage)) (\<lambda>s. Some (g_free storage, sl_next s)))"

text \<open>Linking the neighbours of \<open>index\<close>; the shared tail of insertion, and with \<open>index\<close> read twice also of removal.\<close>

definition link_previous :: "nat \<Rightarrow> nat \<Rightarrow> 'n Storage \<Rightarrow> 'n Storage option" where
  "link_previous previous n storage =
     (if previous = NONE then Some (storage\<lparr>g_first := n\<rparr>)
      else Option.bind (set_next previous n (g_slots storage)) (\<lambda>ss. Some (storage\<lparr>g_slots := ss\<rparr>)))"

definition link_next :: "nat \<Rightarrow> nat \<Rightarrow> 'n Storage \<Rightarrow> 'n Storage option" where
  "link_next next_slot p storage =
     (if next_slot = NONE then Some (storage\<lparr>g_last := p\<rparr>)
      else Option.bind (set_previous next_slot p (g_slots storage)) (\<lambda>ss. Some (storage\<lparr>g_slots := ss\<rparr>)))"

definition insert_between ::
  "'n \<Rightarrow> nat \<Rightarrow> nat \<Rightarrow> ('n \<Rightarrow> nat) \<times> 'n Storage \<Rightarrow> (('n \<Rightarrow> nat) \<times> 'n Storage) option" where
  "insert_between node previous next_slot st =
     (let (parent_slot, storage) = st in
      Option.bind (take_slot storage) (\<lambda>(index, free).
        let entry = \<lparr>sl_node = Some node, sl_previous = previous, sl_next = next_slot\<rparr>;
            slots = (if index = length (g_slots storage) then g_slots storage @ [entry] else (g_slots storage)[index := entry])
        in Option.bind (link_previous previous index (storage\<lparr>g_free := free, g_slots := slots\<rparr>)) (\<lambda>s1.
             Option.bind (link_next next_slot index s1) (\<lambda>s2.
               Some (parent_slot(node := index), s2\<lparr>g_len := g_len s2 + 1\<rparr>)))))"

definition push :: "'n \<Rightarrow> ('n \<Rightarrow> nat) \<times> 'n Children \<Rightarrow> (('n \<Rightarrow> nat) \<times> 'n Children) option" where
  "push node st =
     (let (parent_slot, c) = st; storage = (case c of None \<Rightarrow> storage_default | Some s \<Rightarrow> s)
      in map_option (\<lambda>(ps, s). (ps, Some s)) (insert_between node (g_last storage) NONE (parent_slot, storage)))"

definition insert_before :: "'n \<Rightarrow> nat \<Rightarrow> ('n \<Rightarrow> nat) \<times> 'n Children \<Rightarrow> (('n \<Rightarrow> nat) \<times> 'n Children) option" where
  "insert_before node reference st =
     (let (parent_slot, c) = st in
      Option.bind c (\<lambda>storage. Option.bind (nth_opt (g_slots storage) reference) (\<lambda>entry.
        if sl_node entry = None then None
        else map_option (\<lambda>(ps, s). (ps, Some s)) (insert_between node (sl_previous entry) reference (parent_slot, storage)))))"

definition remove :: "nat \<Rightarrow> 'n Children \<Rightarrow> ('n \<times> 'n Children) option" where
  "remove slot c =
     Option.bind c (\<lambda>storage. Option.bind (nth_opt (g_slots storage) slot) (\<lambda>entry.
       Option.bind (sl_node entry) (\<lambda>node.
         let s0 = storage\<lparr>g_slots := (g_slots storage)[slot := entry\<lparr>sl_node := None, sl_next := g_free storage\<rparr>], g_free := slot\<rparr>
         in Option.bind (link_previous (sl_previous entry) (sl_next entry) s0) (\<lambda>s1.
              Option.bind (link_next (sl_next entry) (sl_previous entry) s1) (\<lambda>s2.
                if g_len s2 = 0 then None else Some (node, Some (s2\<lparr>g_len := g_len s2 - 1\<rparr>)))))))"

section \<open>Iteration\<close>

record 'n Iter =
  it_slots :: "'n Slot list"
  it_first :: nat
  it_last :: nat
  it_remaining :: nat

definition iter :: "'n Children \<Rightarrow> 'n Iter" where
  "iter c =
     (case c of
        None \<Rightarrow> \<lparr>it_slots = [], it_first = NONE, it_last = NONE, it_remaining = 0\<rparr>
      | Some s \<Rightarrow> \<lparr>it_slots = g_slots s, it_first = g_first s, it_last = g_last s, it_remaining = g_len s\<rparr>)"

definition iter_next :: "'n Iter \<Rightarrow> ('n option \<times> 'n Iter) option" where
  "iter_next it =
     (if it_remaining it = 0 then Some (None, it)
      else Option.bind (nth_opt (it_slots it) (it_first it)) (\<lambda>slot.
        Option.bind (sl_node slot) (\<lambda>node.
          Some (Some node, it\<lparr>it_first := sl_next slot, it_remaining := it_remaining it - 1\<rparr>))))"

definition iter_next_back :: "'n Iter \<Rightarrow> ('n option \<times> 'n Iter) option" where
  "iter_next_back it =
     (if it_remaining it = 0 then Some (None, it)
      else Option.bind (nth_opt (it_slots it) (it_last it)) (\<lambda>slot.
        Option.bind (sl_node slot) (\<lambda>node.
          Some (Some node, it\<lparr>it_last := sl_previous slot, it_remaining := it_remaining it - 1\<rparr>))))"

definition size_hint :: "'n Iter \<Rightarrow> nat \<times> nat option" where
  "size_hint it = (it_remaining it, Some (it_remaining it))"

section \<open>The order of the children\<close>

text \<open>\<open>linked ss p q is\<close>: the slots \<open>is\<close> hold nodes and are linked in this order, the first one back to \<open>p\<close> and the last one on to \<open>q\<close>;
  \<open>freed ss f fs\<close>: the free slots reached from \<open>f\<close> are \<open>fs\<close>.\<close>

definition hd_or :: "nat list \<Rightarrow> nat \<Rightarrow> nat" where
  "hd_or xs d = (case xs of [] \<Rightarrow> d | x # _ \<Rightarrow> x)"

definition last_or :: "nat list \<Rightarrow> nat \<Rightarrow> nat" where
  "last_or xs d = (if xs = [] then d else last xs)"

lemma hd_or_simps [simp]: "hd_or [] d = d" "hd_or (x # xs) d = x" "last_or [] d = d" "last_or (x # xs) d = last_or xs x"
    "last_or (xs @ [x]) d = x" "hd_or (xs @ ys) d = hd_or xs (hd_or ys d)" "last_or (xs @ ys) d = last_or ys (last_or xs d)"
  by (auto simp: hd_or_def last_or_def split: list.split)

fun linked :: "'n Slot list \<Rightarrow> nat \<Rightarrow> nat \<Rightarrow> nat list \<Rightarrow> bool" where
  "linked ss p q [] \<longleftrightarrow> True"
| "linked ss p q (i # is) \<longleftrightarrow> i < length ss \<and> sl_node (ss ! i) \<noteq> None \<and> sl_previous (ss ! i) = p
     \<and> sl_next (ss ! i) = hd_or is q \<and> linked ss i q is"

fun freed :: "'n Slot list \<Rightarrow> nat \<Rightarrow> nat list \<Rightarrow> bool" where
  "freed ss f [] \<longleftrightarrow> f = NONE"
| "freed ss f (i # is) \<longleftrightarrow> f = i \<and> i < length ss \<and> sl_node (ss ! i) = None \<and> freed ss (sl_next (ss ! i)) is"

fun walk :: "'n Slot list \<Rightarrow> nat \<Rightarrow> nat \<Rightarrow> nat list" where
  "walk ss i 0 = []"
| "walk ss i (Suc n) = i # walk ss (sl_next (ss ! i)) n"

fun walk_free :: "'n Slot list \<Rightarrow> nat \<Rightarrow> nat \<Rightarrow> nat list" where
  "walk_free ss i 0 = []"
| "walk_free ss i (Suc n) = (if i = NONE then [] else i # walk_free ss (sl_next (ss ! i)) n)"

definition storage_ok :: "'n Storage \<Rightarrow> nat list \<Rightarrow> nat list \<Rightarrow> bool" where
  "storage_ok s is fs \<longleftrightarrow> linked (g_slots s) NONE NONE is \<and> freed (g_slots s) (g_free s) fs
     \<and> g_first s = hd_or is NONE \<and> g_last s = last_or is NONE \<and> g_len s = length is
     \<and> distinct (is @ fs) \<and> set (is @ fs) = {..<length (g_slots s)} \<and> length (g_slots s) \<le> NONE"

text \<open>The children of a node in order, each with its slot.\<close>

definition slot_seq :: "'n Children \<Rightarrow> (nat \<times> 'n) list" where
  "slot_seq c =
     (case c of None \<Rightarrow> []
      | Some s \<Rightarrow> map (\<lambda>i. (i, the (sl_node (g_slots s ! i)))) (walk (g_slots s) (g_first s) (g_len s)))"

definition children_ok :: "'n Children \<Rightarrow> bool" where
  "children_ok c \<longleftrightarrow> (case c of None \<Rightarrow> True | Some s \<Rightarrow> \<exists>is fs. storage_ok s is fs)"

lemma linked_append:
  "linked ss p q (xs @ ys) \<longleftrightarrow> linked ss p (hd_or ys q) xs \<and> linked ss (last_or xs p) q ys"
  by (induction xs arbitrary: p) auto

lemma linked_cong:
  "linked ss p q is \<Longrightarrow> length ss \<le> length ss' \<Longrightarrow> (\<And>i. i \<in> set is \<Longrightarrow> ss' ! i = ss ! i) \<Longrightarrow> linked ss' p q is"
  by (induction "is" arbitrary: p) auto

lemma freed_cong:
  "freed ss f fs \<Longrightarrow> length ss \<le> length ss' \<Longrightarrow> (\<And>i. i \<in> set fs \<Longrightarrow> ss' ! i = ss ! i) \<Longrightarrow> freed ss' f fs"
  by (induction fs arbitrary: f) auto

lemma linked_range: "linked ss p q is \<Longrightarrow> set is \<subseteq> {..<length ss}"
  by (induction "is" arbitrary: p) auto

lemma linked_nodes: "linked ss p q is \<Longrightarrow> i \<in> set is \<Longrightarrow> sl_node (ss ! i) \<noteq> None"
  by (induction "is" arbitrary: p) auto

lemma freed_nodes: "freed ss f fs \<Longrightarrow> i \<in> set fs \<Longrightarrow> sl_node (ss ! i) = None"
  by (induction fs arbitrary: f) auto

lemma linked_walk: "linked ss p q is \<Longrightarrow> walk ss (hd_or is q) (length is) = is"
  by (induction "is" arbitrary: p) auto

lemma nth_update_outside: "j \<in> A \<Longrightarrow> i \<notin> A \<Longrightarrow> xs[i := x] ! j = xs ! j"
  by (metis nth_list_update_neq)

text \<open>Redirecting the links into a list from outside.\<close>

lemma linked_set_next:
  assumes "linked ss p q (xs @ [i])" "distinct (xs @ [i])"
  shows "linked (ss[i := (ss ! i)\<lparr>sl_next := n\<rparr>]) p n (xs @ [i])"
proof -
  from assms(1) have x: "linked ss p i xs" and i: "i < length ss" "sl_node (ss ! i) \<noteq> None" "sl_previous (ss ! i) = last_or xs p"
    by (auto simp: linked_append)
  have "linked (ss[i := (ss ! i)\<lparr>sl_next := n\<rparr>]) p i xs"
    by (rule linked_cong [OF x]) (use assms(2) in \<open>auto intro: nth_update_outside\<close>)
  with i show ?thesis by (simp add: linked_append)
qed

lemma linked_set_previous:
  assumes "linked ss p q (i # xs)" "distinct (i # xs)"
  shows "linked (ss[i := (ss ! i)\<lparr>sl_previous := n\<rparr>]) n q (i # xs)"
proof -
  have "linked (ss[i := (ss ! i)\<lparr>sl_previous := n\<rparr>]) i q xs"
    by (rule linked_cong [of ss]) (use assms in \<open>auto intro: nth_update_outside\<close>)
  with assms(1) show ?thesis by simp
qed

text \<open>Relinking leaves every node where it is, and every slot outside the list as it is.\<close>

lemma link_previous_ok:
  assumes "linked (g_slots s) p q xs" "distinct xs" "set xs \<subseteq> {..<NONE}"
  obtains s1 where "link_previous (last_or xs NONE) n s = Some s1" "linked (g_slots s1) p n xs"
    "length (g_slots s1) = length (g_slots s)" "\<And>i. i \<notin> set xs \<Longrightarrow> g_slots s1 ! i = g_slots s ! i"
    "\<And>i. sl_node (g_slots s1 ! i) = sl_node (g_slots s ! i)"
    "g_first s1 = (if xs = [] then n else g_first s)" "g_last s1 = g_last s" "g_free s1 = g_free s" "g_len s1 = g_len s"
proof (cases xs rule: rev_cases)
  case Nil
  then show ?thesis using that [of "s\<lparr>g_first := n\<rparr>"] by (simp add: link_previous_def)
next
  case (snoc ys i)
  then have i: "i < length (g_slots s)" "i \<noteq> NONE" using assms(1,3) by (auto simp: linked_append)
  let ?s = "s\<lparr>g_slots := (g_slots s)[i := (g_slots s ! i)\<lparr>sl_next := n\<rparr>]\<rparr>"
  have "linked (g_slots ?s) p n xs" using linked_set_next [of "g_slots s" p q ys i n] assms snoc by simp
  moreover have "link_previous (last_or xs NONE) n s = Some ?s" using snoc i by (simp add: link_previous_def set_next_def)
  ultimately show ?thesis using that [of ?s] snoc i by (auto simp: nth_list_update)
qed

lemma link_next_ok:
  assumes "linked (g_slots s) p q ys" "distinct ys" "set ys \<subseteq> {..<NONE}"
  obtains s1 where "link_next (hd_or ys NONE) n s = Some s1" "linked (g_slots s1) n q ys"
    "length (g_slots s1) = length (g_slots s)" "\<And>i. i \<notin> set ys \<Longrightarrow> g_slots s1 ! i = g_slots s ! i"
    "\<And>i. sl_node (g_slots s1 ! i) = sl_node (g_slots s ! i)"
    "g_last s1 = (if ys = [] then n else g_last s)" "g_first s1 = g_first s" "g_free s1 = g_free s" "g_len s1 = g_len s"
proof (cases ys)
  case Nil
  then show ?thesis using that [of "s\<lparr>g_last := n\<rparr>"] by (simp add: link_next_def)
next
  case (Cons i zs)
  then have i: "i < length (g_slots s)" "i \<noteq> NONE" using assms(1,3) by auto
  let ?s = "s\<lparr>g_slots := (g_slots s)[i := (g_slots s ! i)\<lparr>sl_previous := n\<rparr>]\<rparr>"
  have "linked (g_slots ?s) n q ys" using linked_set_previous [of "g_slots s" p q i zs n] assms Cons by simp
  moreover have "link_next (hd_or ys NONE) n s = Some ?s" using Cons i by (simp add: link_next_def set_previous_def)
  ultimately show ?thesis using that [of ?s] Cons i by (auto simp: nth_list_update)
qed

lemma storage_okI:
  "linked (g_slots s) NONE NONE is \<Longrightarrow> freed (g_slots s) (g_free s) fs \<Longrightarrow> distinct (is @ fs) \<Longrightarrow>
   set (is @ fs) = {..<length (g_slots s)} \<Longrightarrow> g_first s = hd_or is NONE \<Longrightarrow> g_last s = last_or is NONE \<Longrightarrow>
   g_len s = length is \<Longrightarrow> length (g_slots s) \<le> NONE \<Longrightarrow> storage_ok s is fs"
  by (simp add: storage_ok_def)

lemma storage_okD:
  assumes "storage_ok s is fs"
  shows "g_first s = hd_or is NONE" "g_last s = last_or is NONE" "g_len s = length is" "length (g_slots s) \<le> NONE"
    "linked (g_slots s) NONE NONE is" "freed (g_slots s) (g_free s) fs" "distinct (is @ fs)" "set (is @ fs) = {..<length (g_slots s)}"
  using assms unfolding storage_ok_def by blast+

lemma storage_ok_range:
  assumes "storage_ok s is fs" "i \<in> set is \<or> i \<in> set fs"
  shows "i < length (g_slots s)" "i < NONE"
proof -
  have "i \<in> set (is @ fs)" using assms(2) by auto
  also have "set (is @ fs) = {..<length (g_slots s)}" using assms(1) unfolding storage_ok_def by blast
  finally show "i < length (g_slots s)" by simp
  also have "\<dots> \<le> NONE" using assms(1) unfolding storage_ok_def by blast
  finally show "i < NONE" .
qed

lemma take_slot_ok:
  assumes "storage_ok s is fs" "length (g_slots s) < NONE"
  obtains idx free fs' where "take_slot s = Some (idx, free)" "idx \<notin> set is" "idx \<le> length (g_slots s)" "idx < NONE" "idx \<notin> set fs'"
    "freed (g_slots s) free fs'" "set fs' \<subseteq> set fs" "distinct fs'"
    "insert idx (set is \<union> set fs') = {..<max (length (g_slots s)) (Suc idx)}"
proof (cases fs)
  case Nil
  then have f: "g_free s = NONE" "set is = {..<length (g_slots s)}" using assms(1) by (auto simp: storage_ok_def)
  show ?thesis
  proof (rule that [of "length (g_slots s)" NONE "[]"])
    show "take_slot s = Some (length (g_slots s), NONE)" using f(1) by (simp add: take_slot_def)
    show "insert (length (g_slots s)) (set is \<union> set []) = {..<max (length (g_slots s)) (Suc (length (g_slots s)))}"
      unfolding f(2) by (simp add: lessThan_Suc max_def)
  qed (use f(2) assms(2) in simp_all)
next
  case (Cons f fs')
  then have f: "g_free s = f" "f < length (g_slots s)" "freed (g_slots s) (sl_next (g_slots s ! f)) fs'" "f < NONE"
    using assms(1) storage_ok_range [OF assms(1), of f] by (auto simp: storage_ok_def)
  have d: "distinct (is @ f # fs')" "set (is @ f # fs') = {..<length (g_slots s)}"
    using assms(1) Cons unfolding storage_ok_def by blast+
  show ?thesis
  proof (rule that [of f "sl_next (g_slots s ! f)" fs'])
    show "take_slot s = Some (f, sl_next (g_slots s ! f))" using f by (simp add: take_slot_def nth_opt_def)
    have "max (length (g_slots s)) (Suc f) = length (g_slots s)" using f(2) by simp
    then show "insert f (set is \<union> set fs') = {..<max (length (g_slots s)) (Suc f)}" using d(2) by auto
  qed (use f d(1) Cons in auto)
qed

text \<open>Insertion at any position of the order.\<close>

lemma insert_between_ok:
  assumes ok: "storage_ok s (xs @ ys) fs" and room: "length (g_slots s) < NONE"
  obtains idx fs' s' where "insert_between n (last_or xs NONE) (hd_or ys NONE) (ps, s) = Some (ps(n := idx), s')"
    "storage_ok s' (xs @ idx # ys) fs'" "idx \<notin> set (xs @ ys)" "sl_node (g_slots s' ! idx) = Some n"
    "\<And>i. i \<in> set (xs @ ys) \<Longrightarrow> sl_node (g_slots s' ! i) = sl_node (g_slots s ! i)"
    "length (g_slots s') \<le> Suc (length (g_slots s))"
proof -
  obtain idx free fs' where t: "take_slot s = Some (idx, free)" "idx \<notin> set (xs @ ys)" "idx \<le> length (g_slots s)" "idx < NONE" "idx \<notin> set fs'"
    "freed (g_slots s) free fs'" "set fs' \<subseteq> set fs" "distinct fs'"
    "insert idx (set (xs @ ys) \<union> set fs') = {..<max (length (g_slots s)) (Suc idx)}" by (rule take_slot_ok [OF ok room])
  define entry where "entry = \<lparr>sl_node = Some n, sl_previous = last_or xs NONE, sl_next = hd_or ys NONE\<rparr>"
  define ss where "ss = (if idx = length (g_slots s) then g_slots s @ [entry] else (g_slots s)[idx := entry])"
  define s0 where "s0 = s\<lparr>g_free := free, g_slots := ss\<rparr>"
  have ss: "length ss = max (length (g_slots s)) (Suc idx)" "ss ! idx = entry" "\<And>i. i \<noteq> idx \<Longrightarrow> i < length (g_slots s) \<Longrightarrow> ss ! i = g_slots s ! i"
    using t(3) by (auto simp: ss_def nth_append)
  from ok have l: "linked (g_slots s) NONE (hd_or ys NONE) xs" "linked (g_slots s) (last_or xs NONE) NONE ys"
    and d: "distinct xs" "distinct ys" "set xs \<inter> set ys = {}"
    by (auto simp: storage_ok_def linked_append)
  have rng: "set xs \<subseteq> {..<NONE}" "set ys \<subseteq> {..<NONE}" using storage_ok_range(2) [OF ok] by auto
  have old: "ss ! i = g_slots s ! i" if "i \<in> set xs \<or> i \<in> set ys" for i
  proof (rule ss(3))
    show "i \<noteq> idx" using that t(2) by auto
    show "i < length (g_slots s)" by (rule storage_ok_range(1) [OF ok]) (use that in auto)
  qed
  have lx: "linked (g_slots s0) NONE (hd_or ys NONE) xs"
    by (rule linked_cong [OF l(1)]) (use old ss(1) in \<open>auto simp: s0_def\<close>)
  have ly: "linked (g_slots s0) (last_or xs NONE) NONE ys"
    by (rule linked_cong [OF l(2)]) (use old ss(1) in \<open>auto simp: s0_def\<close>)
  from lx d(1) rng(1) obtain s1 where s1: "link_previous (last_or xs NONE) idx s0 = Some s1" "linked (g_slots s1) NONE idx xs"
    "length (g_slots s1) = length (g_slots s0)" "\<And>i. i \<notin> set xs \<Longrightarrow> g_slots s1 ! i = g_slots s0 ! i"
    "\<And>i. sl_node (g_slots s1 ! i) = sl_node (g_slots s0 ! i)"
    "g_first s1 = (if xs = [] then idx else g_first s0)" "g_last s1 = g_last s0" "g_free s1 = g_free s0" "g_len s1 = g_len s0"
    by (rule link_previous_ok [where n = idx]) blast
  have ly1: "linked (g_slots s1) (last_or xs NONE) NONE ys" by (rule linked_cong [OF ly]) (use s1(3,4) d(3) in auto)
  from ly1 d(2) rng(2) obtain s2 where s2: "link_next (hd_or ys NONE) idx s1 = Some s2" "linked (g_slots s2) idx NONE ys"
    "length (g_slots s2) = length (g_slots s1)" "\<And>i. i \<notin> set ys \<Longrightarrow> g_slots s2 ! i = g_slots s1 ! i"
    "\<And>i. sl_node (g_slots s2 ! i) = sl_node (g_slots s1 ! i)"
    "g_last s2 = (if ys = [] then idx else g_last s1)" "g_first s2 = g_first s1" "g_free s2 = g_free s1" "g_len s2 = g_len s1"
    by (rule link_next_ok [where n = idx]) blast
  let ?s' = "s2\<lparr>g_len := g_len s2 + 1\<rparr>"
  have run: "insert_between n (last_or xs NONE) (hd_or ys NONE) (ps, s) = Some (ps(n := idx), ?s')"
    by (simp add: insert_between_def t(1) entry_def [symmetric] ss_def [symmetric] s0_def [symmetric] s1(1) s2(1))
  have idx: "g_slots s2 ! idx = entry" using s2(4) s1(4) t(2) ss(2) by (simp add: s0_def)
  have out: "g_slots s2 ! i = g_slots s ! i" if "i \<in> set fs'" for i
  proof -
    have "i \<in> set fs" using that t(7) by blast
    then have "i \<notin> set xs" "i \<notin> set ys" "i < length (g_slots s)"
      using ok storage_ok_range(1) [OF ok] by (auto simp: storage_ok_def)
    then show ?thesis using s2(4) s1(4) ss(3) [of i] that t(5) by (auto simp: s0_def)
  qed
  have lens: "length (g_slots s2) = max (length (g_slots s)) (Suc idx)" using s2(3) s1(3) ss(1) by (simp add: s0_def)
  have "linked (g_slots s2) NONE idx xs" by (rule linked_cong [OF s1(2)]) (use s2(3,4) d(3) in auto)
  then have "linked (g_slots s2) NONE NONE (xs @ idx # ys)"
    using s2(2) idx lens by (simp add: linked_append entry_def)
  moreover have "freed (g_slots s2) free fs'" by (rule freed_cong [OF t(6)]) (use lens out in auto)
  then have "freed (g_slots s2) (g_free s2) fs'" using s1(8) s2(8) by (simp add: s0_def)
  moreover have "distinct (xs @ idx # ys @ fs')" using ok t(2,5,7,8) by (auto simp: storage_ok_def)
  moreover have "set (xs @ idx # ys @ fs') = {..<length (g_slots s2)}" using t(9) lens by auto
  moreover have "g_first s2 = hd_or (xs @ idx # ys) NONE" using storage_okD(1) [OF ok] s1(6) s2(7) by (cases xs) (simp_all add: s0_def)
  moreover have "g_last s2 = last_or (xs @ idx # ys) NONE"
    using storage_okD(2) [OF ok] s1(7) s2(6) by (cases ys rule: rev_cases) (simp_all add: s0_def)
  moreover have "g_len s2 + 1 = length (xs @ idx # ys)" using storage_okD(3) [OF ok] s1(9) s2(9) by (simp add: s0_def)
  moreover have "length (g_slots s2) \<le> NONE" using lens t(4) room by simp
  ultimately have "storage_ok ?s' (xs @ idx # ys) fs'" by (intro storage_okI) simp_all
  moreover have "sl_node (g_slots s2 ! i) = sl_node (g_slots s ! i)" if "i \<in> set (xs @ ys)" for i
    using that s2(5) s1(5) old by (auto simp: s0_def)
  ultimately show ?thesis using that [OF run] t(2,3) idx lens by (auto simp: entry_def)
qed

text \<open>Removal from any position of the order.\<close>

lemma remove_ok:
  assumes ok: "storage_ok s (xs @ i # ys) fs"
  obtains n s' where "remove i (Some s) = Some (n, Some s')" "sl_node (g_slots s ! i) = Some n" "storage_ok s' (xs @ ys) (i # fs)"
    "\<And>j. j \<in> set (xs @ ys) \<Longrightarrow> sl_node (g_slots s' ! j) = sl_node (g_slots s ! j)"
    "length (g_slots s') = length (g_slots s)"
proof -
  have i: "i < length (g_slots s)" using storage_ok_range(1) [OF ok] by simp
  from ok have l: "linked (g_slots s) NONE i xs" "linked (g_slots s) i NONE ys"
    and e: "sl_node (g_slots s ! i) \<noteq> None" "sl_previous (g_slots s ! i) = last_or xs NONE" "sl_next (g_slots s ! i) = hd_or ys NONE"
    and d: "distinct xs" "distinct ys" "set xs \<inter> set ys = {}" "i \<notin> set xs" "i \<notin> set ys" "i \<notin> set fs"
    by (auto simp: storage_ok_def linked_append)
  from e(1) obtain n where n: "sl_node (g_slots s ! i) = Some n" by blast
  have rng: "set xs \<subseteq> {..<NONE}" "set ys \<subseteq> {..<NONE}" using storage_ok_range(2) [OF ok] by auto
  define s0 where "s0 = s\<lparr>g_slots := (g_slots s)[i := (g_slots s ! i)\<lparr>sl_node := None, sl_next := g_free s\<rparr>], g_free := i\<rparr>"
  have lx: "linked (g_slots s0) NONE i xs"
    by (rule linked_cong [OF l(1)]) (use d(4) in \<open>auto simp: s0_def intro: nth_update_outside\<close>)
  have ly: "linked (g_slots s0) i NONE ys"
    by (rule linked_cong [OF l(2)]) (use d(5) in \<open>auto simp: s0_def intro: nth_update_outside\<close>)
  from lx d(1) rng(1) obtain s1 where s1: "link_previous (last_or xs NONE) (hd_or ys NONE) s0 = Some s1"
    "linked (g_slots s1) NONE (hd_or ys NONE) xs"
    "length (g_slots s1) = length (g_slots s0)" "\<And>j. j \<notin> set xs \<Longrightarrow> g_slots s1 ! j = g_slots s0 ! j"
    "\<And>j. sl_node (g_slots s1 ! j) = sl_node (g_slots s0 ! j)"
    "g_first s1 = (if xs = [] then hd_or ys NONE else g_first s0)" "g_last s1 = g_last s0" "g_free s1 = g_free s0" "g_len s1 = g_len s0"
    by (rule link_previous_ok [where n = "hd_or ys NONE"]) blast
  have ly1: "linked (g_slots s1) i NONE ys" by (rule linked_cong [OF ly]) (use s1(3,4) d(3) in auto)
  from ly1 d(2) rng(2) obtain s2 where s2: "link_next (hd_or ys NONE) (last_or xs NONE) s1 = Some s2"
    "linked (g_slots s2) (last_or xs NONE) NONE ys"
    "length (g_slots s2) = length (g_slots s1)" "\<And>j. j \<notin> set ys \<Longrightarrow> g_slots s2 ! j = g_slots s1 ! j"
    "\<And>j. sl_node (g_slots s2 ! j) = sl_node (g_slots s1 ! j)"
    "g_last s2 = (if ys = [] then last_or xs NONE else g_last s1)" "g_first s2 = g_first s1" "g_free s2 = g_free s1" "g_len s2 = g_len s1"
    by (rule link_next_ok [where n = "last_or xs NONE"]) blast
  let ?s' = "s2\<lparr>g_len := g_len s2 - 1\<rparr>"
  have len: "g_len s2 = Suc (length xs + length ys)" using ok s1(9) s2(9) by (simp add: storage_ok_def s0_def)
  have run: "remove i (Some s) = Some (n, Some ?s')"
    using i n len by (simp add: remove_def nth_opt_def e(2,3) s0_def [symmetric] s1(1) s2(1))
  have lens: "length (g_slots s2) = length (g_slots s)" using s2(3) s1(3) by (simp add: s0_def)
  have at: "g_slots s2 ! i = (g_slots s ! i)\<lparr>sl_node := None, sl_next := g_free s\<rparr>"
    using s2(4) s1(4) d(4,5) i by (simp add: s0_def)
  have out: "g_slots s2 ! j = g_slots s ! j" if "j \<in> set fs" for j
  proof -
    have "j \<notin> set xs" "j \<notin> set ys" "j \<noteq> i" using that ok by (auto simp: storage_ok_def)
    then show ?thesis using s2(4) s1(4) by (simp add: s0_def)
  qed
  have "linked (g_slots s2) NONE (hd_or ys NONE) xs" by (rule linked_cong [OF s1(2)]) (use s2(3,4) d(3) in auto)
  then have "linked (g_slots s2) NONE NONE (xs @ ys)" using s2(2) by (simp add: linked_append)
  moreover have "freed (g_slots s) (g_free s) fs" using ok by (simp add: storage_ok_def)
  then have "freed (g_slots s2) (g_free s) fs" by (rule freed_cong) (use lens out in auto)
  then have "freed (g_slots s2) (g_free s2) (i # fs)" using at i lens s2(8) s1(8) by (simp add: s0_def)
  moreover have "set (xs @ ys @ i # fs) = {..<length (g_slots s2)}" using ok lens by (auto simp: storage_ok_def)
  moreover have "distinct (xs @ ys @ i # fs)" using ok by (auto simp: storage_ok_def)
  moreover have "g_first s2 = hd_or (xs @ ys) NONE" using storage_okD(1) [OF ok] s1(6) s2(7) by (cases xs) (simp_all add: s0_def)
  moreover have "g_last s2 = last_or (xs @ ys) NONE"
    using storage_okD(2) [OF ok] s1(7) s2(6) by (cases ys rule: rev_cases) (simp_all add: s0_def)
  moreover have "g_len s2 - 1 = length (xs @ ys)" using len by simp
  moreover have "length (g_slots s2) \<le> NONE" using lens storage_okD(4) [OF ok] by simp
  ultimately have "storage_ok ?s' (xs @ ys) (i # fs)" by (intro storage_okI) simp_all
  moreover have "sl_node (g_slots s2 ! j) = sl_node (g_slots s ! j)" if "j \<in> set (xs @ ys)" for j
  proof -
    have "j \<noteq> i" using that d(4,5) by auto
    then show ?thesis using s2(5) s1(5) by (simp add: s0_def)
  qed
  ultimately show ?thesis using that [OF run n] lens by simp
qed

section \<open>The sequence of children\<close>

definition tagged :: "'n Slot list \<Rightarrow> nat list \<Rightarrow> (nat \<times> 'n) list" where
  "tagged ss is = map (\<lambda>i. (i, the (sl_node (ss ! i)))) is"

lemma tagged_append [simp]: "tagged ss (xs @ ys) = tagged ss xs @ tagged ss ys"
  by (simp add: tagged_def)

lemma tagged_Cons [simp]: "tagged ss (i # is) = (i, the (sl_node (ss ! i))) # tagged ss is" "tagged ss [] = []"
  by (simp_all add: tagged_def)

lemma tagged_cong: "(\<And>i. i \<in> set is \<Longrightarrow> sl_node (ss' ! i) = sl_node (ss ! i)) \<Longrightarrow> tagged ss' is = tagged ss is"
  by (simp add: tagged_def)

lemma tagged_eq_append: "tagged ss is = xs @ (i, n) # ys \<Longrightarrow>
    \<exists>as bs. is = as @ i # bs \<and> xs = tagged ss as \<and> ys = tagged ss bs \<and> n = the (sl_node (ss ! i))"
  by (auto simp: tagged_def map_eq_append_conv map_eq_Cons_conv)

lemma slot_seq_ok:
  assumes "storage_ok s is fs"
  shows "slot_seq (Some s) = tagged (g_slots s) is"
  using linked_walk [OF storage_okD(5) [OF assms]] by (simp add: slot_seq_def tagged_def storage_okD [OF assms])

lemma children_okE:
  assumes "children_ok c"
  obtains "c = None" "slot_seq c = []"
    | s "is" fs where "c = Some s" "storage_ok s is fs" "slot_seq c = tagged (g_slots s) is"
proof (cases c)
  case None
  then show ?thesis using that(1) by (simp add: slot_seq_def)
next
  case (Some s)
  then obtain "is" fs where "storage_ok s is fs" using assms by (auto simp: children_ok_def)
  then show ?thesis using that(2) Some slot_seq_ok by blast
qed

lemma storage_default_ok: "storage_ok storage_default [] []"
  by (simp add: storage_ok_def storage_default_def)

lemma tagged_fst: "map fst (tagged ss is) = is"
  by (simp add: tagged_def comp_def)

text \<open>Room for one more slot: a vector never holds \<open>usize::MAX\<close> elements.\<close>

definition slot_count :: "'n Children \<Rightarrow> nat" where
  "slot_count c = (case c of None \<Rightarrow> 0 | Some s \<Rightarrow> length (g_slots s))"

definition children_room :: "'n Children \<Rightarrow> bool" where
  "children_room c \<longleftrightarrow> slot_count c < NONE"

lemma push_spec:
  assumes "children_ok c" "children_room c"
  shows "\<exists>i c'. push n (ps, c) = Some (ps(n := i), c') \<and> children_ok c' \<and> slot_seq c' = slot_seq c @ [(i, n)]
     \<and> slot_count c' \<le> Suc (slot_count c)"
proof -
  define s where "s = (case c of None \<Rightarrow> storage_default | Some s \<Rightarrow> s)"
  obtain "is" fs where ok: "storage_ok s is fs" and seq: "slot_seq c = tagged (g_slots s) is"
    using assms(1)
  proof (cases rule: children_okE)
    case 1
    then show ?thesis using that storage_default_ok by (fastforce simp: s_def)
  qed (use that in \<open>simp add: s_def\<close>)
  have room: "length (g_slots s) < NONE"
    using assms(2) by (auto simp: s_def children_room_def slot_count_def storage_default_def NONE_def split: option.splits)
  have ok': "storage_ok s (is @ []) fs" using ok by simp
  obtain i fs' s' where r: "insert_between n (last_or is NONE) (hd_or [] NONE) (ps, s) = Some (ps(n := i), s')"
    "storage_ok s' (is @ [i]) fs'" "sl_node (g_slots s' ! i) = Some n"
    "\<And>j. j \<in> set (is @ []) \<Longrightarrow> sl_node (g_slots s' ! j) = sl_node (g_slots s ! j)"
    "length (g_slots s') \<le> Suc (length (g_slots s))"
    by (rule insert_between_ok [OF ok' room, of n ps]) blast
  have "push n (ps, c) = Some (ps(n := i), Some s')"
    using r(1) by (simp add: push_def s_def [symmetric] storage_okD(2) [OF ok])
  moreover have "slot_seq (Some s') = slot_seq c @ [(i, n)]"
    using slot_seq_ok [OF r(2)] r(3) tagged_cong [of "is" "g_slots s'" "g_slots s"] r(4) seq by simp
  moreover have "slot_count (Some s') \<le> Suc (slot_count c)"
    using r(5) by (cases c) (simp_all add: slot_count_def s_def storage_default_def)
  ultimately show ?thesis using r(2) by (auto simp: children_ok_def)
qed

lemma insert_before_spec:
  assumes "children_ok c" "children_room c" "slot_seq c = xs @ (r, m) # ys"
  shows "\<exists>i c'. insert_before n r (ps, c) = Some (ps(n := i), c') \<and> children_ok c' \<and> slot_seq c' = xs @ (i, n) # (r, m) # ys
     \<and> slot_count c' \<le> Suc (slot_count c)"
  using assms(1)
proof (cases rule: children_okE)
  case (2 s "is" fs)
  from assms(3) 2(3) obtain as bs where i: "is = as @ r # bs" "xs = tagged (g_slots s) as" "ys = tagged (g_slots s) bs"
    "m = the (sl_node (g_slots s ! r))" using tagged_eq_append by metis
  have ok: "storage_ok s (as @ r # bs) fs" using 2(2) i(1) by simp
  have room: "length (g_slots s) < NONE" using assms(2) 2(1) by (simp add: children_room_def slot_count_def)
  have e: "sl_node (g_slots s ! r) \<noteq> None" "sl_previous (g_slots s ! r) = last_or as NONE" "r < length (g_slots s)"
    using storage_okD(5) [OF ok] by (auto simp: linked_append)
  obtain i fs' s' where r: "insert_between n (last_or as NONE) (hd_or (r # bs) NONE) (ps, s) = Some (ps(n := i), s')"
    "storage_ok s' (as @ i # r # bs) fs'" "sl_node (g_slots s' ! i) = Some n"
    "\<And>j. j \<in> set (as @ r # bs) \<Longrightarrow> sl_node (g_slots s' ! j) = sl_node (g_slots s ! j)"
    "length (g_slots s') \<le> Suc (length (g_slots s))"
    by (rule insert_between_ok [OF ok room, of n ps]) blast
  have "insert_before n r (ps, c) = Some (ps(n := i), Some s')"
    using r(1) e by (auto simp: insert_before_def 2(1) nth_opt_def)
  moreover have "tagged (g_slots s') as = xs" "tagged (g_slots s') bs = ys" "the (sl_node (g_slots s' ! r)) = m"
    using r(4) i by (auto intro!: tagged_cong)
  then have "slot_seq (Some s') = xs @ (i, n) # (r, m) # ys"
    using slot_seq_ok [OF r(2)] r(3) by simp
  ultimately show ?thesis using r(2,5) by (auto simp: children_ok_def slot_count_def 2(1))
qed (use assms(3) in simp)

lemma remove_spec:
  assumes "children_ok c" "slot_seq c = xs @ (r, m) # ys"
  shows "\<exists>c'. remove r c = Some (m, c') \<and> children_ok c' \<and> slot_seq c' = xs @ ys \<and> slot_count c' = slot_count c"
  using assms(1)
proof (cases rule: children_okE)
  case (2 s "is" fs)
  from assms(2) 2(3) obtain as bs where i: "is = as @ r # bs" "xs = tagged (g_slots s) as" "ys = tagged (g_slots s) bs"
    "m = the (sl_node (g_slots s ! r))" using tagged_eq_append by metis
  have ok: "storage_ok s (as @ r # bs) fs" using 2(2) i(1) by simp
  obtain n s' where r: "remove r (Some s) = Some (n, Some s')" "sl_node (g_slots s ! r) = Some n" "storage_ok s' (as @ bs) (r # fs)"
    "\<And>j. j \<in> set (as @ bs) \<Longrightarrow> sl_node (g_slots s' ! j) = sl_node (g_slots s ! j)"
    "length (g_slots s') = length (g_slots s)" by (rule remove_ok [OF ok]) blast
  have "tagged (g_slots s') as = xs" "tagged (g_slots s') bs = ys" using r(4) i by (auto intro!: tagged_cong)
  then have "slot_seq (Some s') = xs @ ys" using slot_seq_ok [OF r(3)] by simp
  then show ?thesis using r i(4) 2(1) by (auto simp: children_ok_def slot_count_def)
qed (use assms(2) in simp)

lemma get_slot_spec:
  assumes "children_ok c"
  shows "get_slot c i = Some n \<longleftrightarrow> (i, n) \<in> set (slot_seq c)"
  using assms
proof (cases rule: children_okE)
  case (2 s "is" fs)
  have "i \<in> set is" if "i < length (g_slots s)" "sl_node (g_slots s ! i) = Some n"
  proof -
    have "i \<in> set is \<or> i \<in> set fs" using that(1) storage_okD(8) [OF 2(2)] by auto
    then show ?thesis using freed_nodes [OF storage_okD(6) [OF 2(2)]] that(2) by auto
  qed
  moreover have "i \<in> set is \<Longrightarrow> i < length (g_slots s) \<and> sl_node (g_slots s ! i) \<noteq> None"
    using storage_ok_range(1) [OF 2(2)] linked_nodes [OF storage_okD(5) [OF 2(2)]] by blast
  ultimately show ?thesis using 2(1,3) by (auto simp: get_slot_def nth_opt_def tagged_def)
qed (simp add: get_slot_def)

lemma slot_seq_distinct: "children_ok c \<Longrightarrow> distinct (map fst (slot_seq c))"
  by (erule children_okE) (auto simp: tagged_fst storage_ok_def)

text \<open>The queries read the sequence.\<close>

lemma children_len_spec: "children_ok c \<Longrightarrow> children_len c = length (slot_seq c)"
  by (erule children_okE) (auto simp: children_len_def storage_okD tagged_def)

lemma get_slot_NONE: "children_ok c \<Longrightarrow> get_slot c NONE = None"
  by (erule children_okE) (auto simp: get_slot_def nth_opt_def dest: storage_okD(4))

lemma slot_seq_fst_lt: "children_ok c \<Longrightarrow> (i, n) \<in> set (slot_seq c) \<Longrightarrow> i < NONE"
  by (erule children_okE) (auto simp: tagged_def dest: storage_ok_range(2))

lemma children_ends_spec:
  assumes "children_ok c"
  shows "children_first c = (case slot_seq c of [] \<Rightarrow> None | x # _ \<Rightarrow> Some (snd x))"
    "children_last c = (if slot_seq c = [] then None else Some (snd (last (slot_seq c))))"
proof -
  have f: "get_slot c (hd_or (map fst (slot_seq c)) NONE) = (case slot_seq c of [] \<Rightarrow> None | x # _ \<Rightarrow> Some (snd x))"
    using get_slot_NONE [OF assms] get_slot_spec [OF assms] by (cases "slot_seq c") auto
  have l: "get_slot c (last_or (map fst (slot_seq c)) NONE) = (if slot_seq c = [] then None else Some (snd (last (slot_seq c))))"
    using get_slot_NONE [OF assms] get_slot_spec [OF assms] by (cases "slot_seq c" rule: rev_cases) auto
  show "children_first c = (case slot_seq c of [] \<Rightarrow> None | x # _ \<Rightarrow> Some (snd x))"
    "children_last c = (if slot_seq c = [] then None else Some (snd (last (slot_seq c))))"
    using assms
  proof (atomize (full), cases rule: children_okE)
    case (2 s "is" fs)
    then have "g_first s = hd_or (map fst (slot_seq c)) NONE" "g_last s = last_or (map fst (slot_seq c)) NONE"
      by (simp_all add: storage_okD tagged_fst)
    then show "children_first c = (case slot_seq c of [] \<Rightarrow> None | x # _ \<Rightarrow> Some (snd x))
      \<and> children_last c = (if slot_seq c = [] then None else Some (snd (last (slot_seq c))))"
      using f l unfolding children_first_def children_last_def 2(1) by simp
  qed (simp add: children_first_def children_last_def slot_seq_def)
qed

lemma adjacent_spec:
  assumes "children_ok c" "slot_seq c = xs @ (i, n) # ys"
  shows "adjacent c i True = (if xs = [] then None else Some (snd (last xs)))"
    "adjacent c i False = (case ys of [] \<Rightarrow> None | y # _ \<Rightarrow> Some (snd y))"
proof -
  from assms obtain s "is" fs where c: "c = Some s" "storage_ok s is fs" "slot_seq c = tagged (g_slots s) is"
    by (cases rule: children_okE) auto
  then obtain as bs where i: "is = as @ i # bs" "xs = tagged (g_slots s) as" "ys = tagged (g_slots s) bs"
    using assms(2) tagged_eq_append by metis
  have l: "linked (g_slots s) NONE NONE (as @ i # bs)" using storage_okD(5) [OF c(2)] i(1) by simp
  then have e: "sl_node (g_slots s ! i) \<noteq> None" "sl_previous (g_slots s ! i) = last_or as NONE" "i < length (g_slots s)"
    "sl_next (g_slots s ! i) = hd_or bs NONE" by (auto simp: linked_append)
  have g: "get_slot c j = Some (the (sl_node (g_slots s ! j)))" if "j \<in> set is" for j
    using that get_slot_spec [OF assms(1)] c(3) by (auto simp: tagged_def)
  show "adjacent c i True = (if xs = [] then None else Some (snd (last xs)))"
    using e get_slot_NONE [OF assms(1)] i g
    by (cases as rule: rev_cases) (auto simp: adjacent_def c(1) nth_opt_def)
  show "adjacent c i False = (case ys of [] \<Rightarrow> None | y # _ \<Rightarrow> Some (snd y))"
    using e get_slot_NONE [OF assms(1)] i g
    by (cases bs) (auto simp: adjacent_def c(1) nth_opt_def)
qed

section \<open>Iteration from both ends\<close>

definition iter_ok :: "'n Iter \<Rightarrow> nat list \<Rightarrow> bool" where
  "iter_ok it is \<longleftrightarrow> (\<exists>p q. linked (it_slots it) p q is) \<and> it_remaining it = length is
     \<and> (is \<noteq> [] \<longrightarrow> it_first it = hd is \<and> it_last it = last is)"

fun iter_run :: "bool list \<Rightarrow> 'n Iter \<Rightarrow> 'n option list option" where
  "iter_run [] it = Some []"
| "iter_run (front # ds) it =
     Option.bind (if front then iter_next it else iter_next_back it) (\<lambda>(x, it').
       map_option ((#) x) (iter_run ds it'))"

text \<open>The same calls on a list.\<close>

fun list_run :: "bool list \<Rightarrow> 'n list \<Rightarrow> 'n option list" where
  "list_run [] xs = []"
| "list_run (front # ds) xs =
     (if xs = [] then None # list_run ds xs
      else if front then Some (hd xs) # list_run ds (tl xs)
      else Some (last xs) # list_run ds (butlast xs))"

lemma iter_ok_iter: "children_ok c \<Longrightarrow> \<exists>is. iter_ok (iter c) is \<and> map snd (slot_seq c) = map (\<lambda>i. the (sl_node (it_slots (iter c) ! i))) is"
proof (erule children_okE)
  fix s "is" fs assume c: "c = Some s" "storage_ok s is fs" "slot_seq c = tagged (g_slots s) is"
  then have "iter_ok (iter c) is"
    using storage_okD(1,2,3,5) [OF c(2)] unfolding iter_ok_def by (cases "is") (auto simp: iter_def last_or_def)
  then show ?thesis using c by (auto simp: tagged_def iter_def)
qed (auto simp: iter_ok_def iter_def)

lemma iter_next_ok:
  assumes "iter_ok it is" "is \<noteq> []"
  shows "\<exists>it'. iter_next it = Some (Some (the (sl_node (it_slots it ! hd is))), it') \<and> iter_ok it' (tl is) \<and> it_slots it' = it_slots it"
    "\<exists>it'. iter_next_back it = Some (Some (the (sl_node (it_slots it ! last is))), it') \<and> iter_ok it' (butlast is) \<and> it_slots it' = it_slots it"
proof -
  obtain i xs where i: "is = i # xs" using assms(2) by (cases "is") auto
  from assms(1) i obtain p q where l: "linked (it_slots it) p q (i # xs)" and r: "it_remaining it = Suc (length xs)" "it_first it = i"
    by (auto simp: iter_ok_def)
  let ?it = "it\<lparr>it_first := sl_next (it_slots it ! i), it_remaining := it_remaining it - 1\<rparr>"
  have "it_last it = last (i # xs)" using assms(1) i by (simp add: iter_ok_def)
  moreover have "linked (it_slots it) i q xs" "sl_next (it_slots it ! i) = hd_or xs q" using l by simp_all
  ultimately have "iter_ok ?it xs" using r(1) unfolding iter_ok_def by (cases xs) auto
  then show "\<exists>it'. iter_next it = Some (Some (the (sl_node (it_slots it ! hd is))), it') \<and> iter_ok it' (tl is) \<and> it_slots it' = it_slots it"
    using l r i by (auto simp: iter_next_def nth_opt_def)
next
  obtain i xs where i: "is = xs @ [i]" using assms(2) by (cases "is" rule: rev_cases) auto
  from assms(1) i obtain p q where l: "linked (it_slots it) p q (xs @ [i])" and r: "it_remaining it = Suc (length xs)" "it_last it = i"
    by (auto simp: iter_ok_def)
  let ?it = "it\<lparr>it_last := sl_previous (it_slots it ! i), it_remaining := it_remaining it - 1\<rparr>"
  have "it_first it = hd (xs @ [i])" using assms(1) i by (simp add: iter_ok_def)
  moreover have "linked (it_slots it) p i xs" "sl_previous (it_slots it ! i) = last_or xs p" using l by (simp_all add: linked_append)
  ultimately have "iter_ok ?it xs" using r(1) unfolding iter_ok_def by (cases xs rule: rev_cases) (auto simp: hd_append)
  then show "\<exists>it'. iter_next_back it = Some (Some (the (sl_node (it_slots it ! last is))), it') \<and> iter_ok it' (butlast is) \<and> it_slots it' = it_slots it"
    using l r i by (auto simp: iter_next_back_def nth_opt_def linked_append)
qed

lemma iter_run_ok:
  "iter_ok it is \<Longrightarrow> iter_run ds it = Some (list_run ds (map (\<lambda>i. the (sl_node (it_slots it ! i))) is))"
proof (induction ds arbitrary: it "is")
  case (Cons d ds)
  show ?case
  proof (cases "is = []")
    case True
    then have "iter_next it = Some (None, it)" "iter_next_back it = Some (None, it)"
      using Cons.prems by (auto simp: iter_ok_def iter_next_def iter_next_back_def)
    then show ?thesis using Cons.IH [OF Cons.prems] True by auto
  next
    case False
    obtain it1 it2 where n: "iter_next it = Some (Some (the (sl_node (it_slots it ! hd is))), it1)" "iter_ok it1 (tl is)" "it_slots it1 = it_slots it"
      "iter_next_back it = Some (Some (the (sl_node (it_slots it ! last is))), it2)" "iter_ok it2 (butlast is)" "it_slots it2 = it_slots it"
      using iter_next_ok [OF Cons.prems False] by blast
    then show ?thesis using Cons.IH [OF n(2)] Cons.IH [OF n(5)] False
      by (auto simp: hd_map last_map map_tl map_butlast)
  qed
qed simp

section \<open>The contract of the storage\<close>

text \<open>What the tree of nodes relies on: a finite sequence of children with distinct slots, changed at one position by each operation.\<close>

locale sibling_store =
  fixes ok :: "'c \<Rightarrow> bool" and seq :: "'c \<Rightarrow> (nat \<times> 'n) list" and room :: "'c \<Rightarrow> bool"
    and push_child :: "'n \<Rightarrow> ('n \<Rightarrow> nat) \<times> 'c \<Rightarrow> (('n \<Rightarrow> nat) \<times> 'c) option"
    and insert_child :: "'n \<Rightarrow> nat \<Rightarrow> ('n \<Rightarrow> nat) \<times> 'c \<Rightarrow> (('n \<Rightarrow> nat) \<times> 'c) option"
    and remove_child :: "nat \<Rightarrow> 'c \<Rightarrow> ('n \<times> 'c) option" and slot :: "'c \<Rightarrow> nat \<Rightarrow> 'n option"
  assumes distinct_slots: "ok c \<Longrightarrow> distinct (map fst (seq c))"
    and slot_iff: "ok c \<Longrightarrow> slot c i = Some n \<longleftrightarrow> (i, n) \<in> set (seq c)"
    and push: "ok c \<Longrightarrow> room c \<Longrightarrow> \<exists>i c'. push_child n (ps, c) = Some (ps(n := i), c') \<and> ok c' \<and> seq c' = seq c @ [(i, n)]"
    and insert: "ok c \<Longrightarrow> room c \<Longrightarrow> seq c = xs @ (r, m) # ys \<Longrightarrow>
      \<exists>i c'. insert_child n r (ps, c) = Some (ps(n := i), c') \<and> ok c' \<and> seq c' = xs @ (i, n) # (r, m) # ys"
    and remove: "ok c \<Longrightarrow> seq c = xs @ (r, m) # ys \<Longrightarrow> \<exists>c'. remove_child r c = Some (m, c') \<and> ok c' \<and> seq c' = xs @ ys"
begin

text \<open>A child found through its slot splits the sequence there, once.\<close>

lemma slot_split: "ok c \<Longrightarrow> slot c i = Some n \<Longrightarrow> \<exists>xs ys. seq c = xs @ (i, n) # ys \<and> i \<notin> fst ` set (xs @ ys)"
proof -
  assume c: "ok c" "slot c i = Some n"
  then obtain xs ys where s: "seq c = xs @ (i, n) # ys" by (metis slot_iff split_list)
  then have "i \<notin> set (map fst (xs @ ys))" using distinct_slots [OF c(1)] by simp
  then show ?thesis using s by auto
qed

text \<open>Nodes that stay keep their slots.\<close>

lemma insert_keeps:
  assumes "ok c" "room c" "slot c r = Some m" "insert_child n r (ps, c) = Some (ps', c')"
  shows "ok c' \<and> set (seq c') = Set.insert (ps' n, n) (set (seq c)) \<and> ps' = ps(n := ps' n)"
proof -
  obtain xs ys where s: "seq c = xs @ (r, m) # ys" using slot_split [OF assms(1,3)] by blast
  then obtain i where i: "ps' = ps(n := i)" "seq c' = xs @ (i, n) # (r, m) # ys" "ok c'"
    using insert [OF assms(1,2) s, of n ps] assms(4) by auto
  then show ?thesis using s by auto
qed

lemma push_keeps:
  assumes "ok c" "room c" "push_child n (ps, c) = Some (ps', c')"
  shows "ok c' \<and> set (seq c') = Set.insert (ps' n, n) (set (seq c)) \<and> ps' = ps(n := ps' n)"
proof -
  obtain i where i: "ps' = ps(n := i)" "seq c' = seq c @ [(i, n)]" "ok c'" using push [OF assms(1,2), of n ps] assms(3) by auto
  then show ?thesis by auto
qed

lemma remove_slot: "ok c \<Longrightarrow> slot c r = Some m \<Longrightarrow> \<exists>c'. remove_child r c = Some (m, c') \<and> ok c'
    \<and> seq c' = filter (\<lambda>(i, _). i \<noteq> r) (seq c) \<and> slot c' r = None"
proof -
  assume c: "ok c" "slot c r = Some m"
  from slot_split [OF c] obtain xs ys where s: "seq c = xs @ (r, m) # ys" "r \<notin> fst ` set (xs @ ys)" by blast
  from remove [OF c(1) s(1)] obtain c' where c': "remove_child r c = Some (m, c')" "ok c'" "seq c' = xs @ ys" by blast
  moreover have "filter (\<lambda>(i, _). i \<noteq> r) (xs @ ys) = xs @ ys" using s(2) by (intro filter_True) force
  moreover have "slot c' r = None" using slot_iff [OF c'(2), of r] c'(3) s(2) by (cases "slot c' r") force+
  ultimately show ?thesis using s(1) by auto
qed

end

interpretation kids: sibling_store children_ok slot_seq children_room push insert_before remove get_slot
proof (unfold_locales, goal_cases)
  case (1 c) then show ?case by (rule slot_seq_distinct)
next
  case (2 c i n) then show ?case by (rule get_slot_spec)
next
  case (3 c n ps) then show ?case using push_spec by metis
next
  case (4 c xs r m ys n ps) then show ?case using insert_before_spec by metis
next
  case (5 c xs r m ys) then show ?case using remove_spec by metis
qed

section \<open>Histories\<close>

datatype 'n child_op = Push 'n | InsertBefore 'n nat | Remove nat

fun child_step :: "'n child_op \<Rightarrow> ('n \<Rightarrow> nat) \<times> 'n Children \<Rightarrow> (('n \<Rightarrow> nat) \<times> 'n Children) option" where
  "child_step (Push n) st = push n st"
| "child_step (InsertBefore n r) st = insert_before n r st"
| "child_step (Remove r) st = map_option (\<lambda>(_, c). (fst st, c)) (remove r (snd st))"

text \<open>The specification: a list of children with their slots, where only the choice of a new slot is left open.\<close>

fun seq_step :: "'n child_op \<Rightarrow> nat \<Rightarrow> (nat \<times> 'n) list \<Rightarrow> (nat \<times> 'n) list option" where
  "seq_step (Push n) i xs = Some (xs @ [(i, n)])"
| "seq_step (InsertBefore n r) i xs =
     (if r \<in> fst ` set xs then Some (takeWhile (\<lambda>x. fst x \<noteq> r) xs @ (i, n) # dropWhile (\<lambda>x. fst x \<noteq> r) xs) else None)"
| "seq_step (Remove r) i xs = (if r \<in> fst ` set xs then Some (filter (\<lambda>x. fst x \<noteq> r) xs) else None)"

lemma split_at_slot:
  assumes "distinct (map fst (xs @ (r, m) # ys))"
  shows "takeWhile (\<lambda>x. fst x \<noteq> r) (xs @ (r, m) # ys) = xs" "dropWhile (\<lambda>x. fst x \<noteq> r) (xs @ (r, m) # ys) = (r, m) # ys"
    "filter (\<lambda>x. fst x \<noteq> r) (xs @ (r, m) # ys) = xs @ ys"
proof -
  have "\<forall>x\<in>set xs. fst x \<noteq> r" "\<forall>y\<in>set ys. fst y \<noteq> r" using assms by auto
  then show "takeWhile (\<lambda>x. fst x \<noteq> r) (xs @ (r, m) # ys) = xs" "dropWhile (\<lambda>x. fst x \<noteq> r) (xs @ (r, m) # ys) = (r, m) # ys"
    "filter (\<lambda>x. fst x \<noteq> r) (xs @ (r, m) # ys) = xs @ ys"
    by (simp_all add: takeWhile_append2 dropWhile_append2)
qed

lemma dead_slot_panics:
  assumes "children_ok c" "r \<notin> fst ` set (slot_seq c)"
  shows "insert_before n r (ps, c) = None" "remove r c = None"
proof -
  have "get_slot c r = None" using get_slot_spec [OF assms(1), of r] assms(2) by (cases "get_slot c r") force+
  then show "insert_before n r (ps, c) = None" "remove r c = None"
    by (auto simp: insert_before_def remove_def get_slot_def split: Option.bind_split)
qed

lemma child_step_refines:
  assumes "children_ok c" "children_room c"
  shows "\<exists>i. map_option (slot_seq \<circ> snd) (child_step op (ps, c)) = seq_step op i (slot_seq c)"
    "child_step op (ps, c) = Some (ps', c') \<Longrightarrow> children_ok c' \<and> slot_count c' \<le> Suc (slot_count c)"
proof -
  have "(\<exists>i. map_option (slot_seq \<circ> snd) (child_step op (ps, c)) = seq_step op i (slot_seq c))
    \<and> (\<forall>ps' c'. child_step op (ps, c) = Some (ps', c') \<longrightarrow> children_ok c' \<and> slot_count c' \<le> Suc (slot_count c))"
  proof (cases op)
    case (Push n)
    then show ?thesis using push_spec [OF assms, of n ps] by auto
  next
    case (InsertBefore n r)
    show ?thesis
    proof (cases "r \<in> fst ` set (slot_seq c)")
      case True
      then obtain m xs ys where s: "slot_seq c = xs @ (r, m) # ys" by (metis (no_types) image_iff prod.collapse split_list)
      show ?thesis using insert_before_spec [OF assms s, of n ps] split_at_slot [of xs r m ys] slot_seq_distinct [OF assms(1)] s True
        by (auto simp: InsertBefore)
    qed (use dead_slot_panics(1) [OF assms(1)] InsertBefore in auto)
  next
    case (Remove r)
    show ?thesis
    proof (cases "r \<in> fst ` set (slot_seq c)")
      case True
      then obtain m xs ys where s: "slot_seq c = xs @ (r, m) # ys" by (metis (no_types) image_iff prod.collapse split_list)
      show ?thesis using remove_spec [OF assms(1) s] split_at_slot [of xs r m ys] slot_seq_distinct [OF assms(1)] s True
        by (auto simp: Remove)
    qed (use dead_slot_panics(2) [OF assms(1)] Remove in auto)
  qed
  then show "\<exists>i. map_option (slot_seq \<circ> snd) (child_step op (ps, c)) = seq_step op i (slot_seq c)"
    "child_step op (ps, c) = Some (ps', c') \<Longrightarrow> children_ok c' \<and> slot_count c' \<le> Suc (slot_count c)" by blast+
qed

fun child_run :: "'n child_op list \<Rightarrow> ('n \<Rightarrow> nat) \<times> 'n Children \<Rightarrow> (('n \<Rightarrow> nat) \<times> 'n Children) option" where
  "child_run [] st = Some st"
| "child_run (op # ops) st = Option.bind (child_step op st) (child_run ops)"

fun seq_run :: "('n child_op \<times> nat) list \<Rightarrow> (nat \<times> 'n) list \<Rightarrow> (nat \<times> 'n) list option" where
  "seq_run [] xs = Some xs"
| "seq_run ((op, i) # ops) xs = Option.bind (seq_step op i xs) (seq_run ops)"

lemma child_run_refines:
  "children_ok c \<Longrightarrow> slot_count c + length ops \<le> NONE \<Longrightarrow>
     (\<exists>is. length is = length ops \<and> map_option (slot_seq \<circ> snd) (child_run ops (ps, c)) = seq_run (zip ops is) (slot_seq c))
   \<and> (\<forall>ps' c'. child_run ops (ps, c) = Some (ps', c') \<longrightarrow> children_ok c')"
proof (induction ops arbitrary: ps c)
  case (Cons op ops)
  have room: "children_room c" using Cons.prems(2) by (simp add: children_room_def)
  obtain i where i: "map_option (slot_seq \<circ> snd) (child_step op (ps, c)) = seq_step op i (slot_seq c)"
    using child_step_refines(1) [OF Cons.prems(1) room] by blast
  show ?case
  proof (cases "child_step op (ps, c)")
    case None
    then have "seq_step op i (slot_seq c) = None" using i by simp
    then have "seq_run (zip (op # ops) (i # replicate (length ops) 0)) (slot_seq c) = None" by simp
    then show ?thesis using None by (intro conjI exI [of _ "i # replicate (length ops) 0"]) simp_all
  next
    case (Some st)
    obtain ps1 c1 where st: "st = (ps1, c1)" by force
    have c1: "children_ok c1" "slot_count c1 \<le> Suc (slot_count c)"
      using child_step_refines(2) [OF Cons.prems(1) room] Some st by auto
    obtain "is" where IH: "length is = length ops"
      "map_option (slot_seq \<circ> snd) (child_run ops (ps1, c1)) = seq_run (zip ops is) (slot_seq c1)"
      "\<forall>ps' c'. child_run ops (ps1, c1) = Some (ps', c') \<longrightarrow> children_ok c'"
    proof -
      have "slot_count c1 + length ops \<le> NONE" using c1(2) Cons.prems(2) by simp
      from Cons.IH [OF c1(1) this, of ps1] that show ?thesis by blast
    qed
    have "seq_step op i (slot_seq c) = Some (slot_seq c1)" using i Some st by simp
    then show ?thesis using IH Some st by (intro conjI exI [of _ "i # is"]) (simp_all add: comp_def)
  qed
qed simp

section \<open>Properties\<close>

text \<open>C12: every history of insertions and removals on the slot storage of a node behaves as on a plain list of children: the storage panics
  exactly where the list operation names a slot that is not live, and otherwise its sequence of slots and nodes is the list, whatever
  slots were reused; the list operations choose nothing but the slots of the new children.\<close>

theorem children_refine_list:
  assumes "length ops < NONE"
  shows "\<exists>is. length is = length ops \<and> map_option (slot_seq \<circ> snd) (child_run ops (ps, None)) = seq_run (zip ops is) []"
  using child_run_refines [of None ops ps] assms by (auto simp: children_ok_def slot_count_def slot_seq_def)

text \<open>After every history, the queries read the list: its length, first and last child, the neighbours of the child in a slot and the child
  of a slot, each in a fixed number of reads; and any mix of calls from both ends of an iterator yields the children from
  both ends without panic until they are used up.\<close>

theorem children_queries_read_list:
  assumes "length ops < NONE" "child_run ops (ps, None) = Some (ps', c)"
  shows "children_len c = length (slot_seq c) \<and> distinct (map fst (slot_seq c))
    \<and> children_first c = (case slot_seq c of [] \<Rightarrow> None | x # _ \<Rightarrow> Some (snd x))
    \<and> children_last c = (if slot_seq c = [] then None else Some (snd (last (slot_seq c))))
    \<and> (\<forall>i n. get_slot c i = Some n \<longleftrightarrow> (i, n) \<in> set (slot_seq c))
    \<and> (\<forall>xs i n ys. slot_seq c = xs @ (i, n) # ys \<longrightarrow>
          adjacent c i True = (if xs = [] then None else Some (snd (last xs)))
        \<and> adjacent c i False = (case ys of [] \<Rightarrow> None | y # _ \<Rightarrow> Some (snd y)))
    \<and> (\<forall>ds. iter_run ds (iter c) = Some (list_run ds (map snd (slot_seq c))))"
proof -
  have ok: "children_ok c"
    using child_run_refines [of None ops ps] assms by (auto simp: children_ok_def slot_count_def)
  obtain "is" where it: "iter_ok (iter c) is" "map snd (slot_seq c) = map (\<lambda>i. the (sl_node (it_slots (iter c) ! i))) is"
    using iter_ok_iter [OF ok] by blast
  show ?thesis
    using children_len_spec [OF ok] slot_seq_distinct [OF ok] children_ends_spec [OF ok] get_slot_spec [OF ok] adjacent_spec [OF ok]
      iter_run_ok [OF it(1)] it(2) by (intro conjI allI impI) simp_all
qed

text \<open>Three children, the middle one removed, its slot reused for a child before the first.\<close>

definition demo_ops :: "string child_op list" where
  "demo_ops = [Push ''a'', Push ''b'', Push ''c'', Remove 1, InsertBefore ''d'' 0]"

lemma demo_children:
  "\<exists>c. child_run demo_ops (\<lambda>_. 0, None) = Some ((\<lambda>_. 0)(''a'' := 0, ''b'' := 1, ''c'' := 2, ''d'' := 1), c)
     \<and> slot_seq c = [(1, ''d''), (0, ''a''), (2, ''c'')]"
proof -
  have "NONE \<noteq> 0" "NONE \<noteq> Suc 0" "NONE \<noteq> Suc (Suc 0)" "NONE \<noteq> Suc (Suc (Suc 0))" by (simp_all add: NONE_def)
  note [simp] = this this [symmetric]
  show ?thesis
    by (simp add: demo_ops_def push_def insert_before_def remove_def insert_between_def take_slot_def link_previous_def link_next_def
      set_next_def set_previous_def nth_opt_def storage_default_def slot_seq_def Let_def numeral_3_eq_3 numeral_2_eq_2)
qed

theorem children_refine_list_witness:
  "\<exists>is. length is = 5 \<and> seq_run (zip demo_ops is) [] = Some [(1, ''d''), (0, ''a''), (2, ''c'')]"
proof -
  have "length demo_ops < NONE" "length demo_ops = 5" by (simp_all add: demo_ops_def NONE_def)
  then show ?thesis using children_refine_list [of demo_ops "\<lambda>_. 0"] demo_children by fastforce
qed

theorem children_queries_read_list_witness:
  "\<exists>c. child_run demo_ops (\<lambda>_. 0, None) = Some ((\<lambda>_. 0)(''a'' := 0, ''b'' := 1, ''c'' := 2, ''d'' := 1), c)
     \<and> children_first c = Some ''d'' \<and> adjacent c 0 False = Some ''c''
     \<and> iter_run [True, False, True, True] (iter c) = Some [Some ''d'', Some ''c'', Some ''a'', None]"
proof -
  obtain c where c: "child_run demo_ops (\<lambda>_. 0, None) = Some ((\<lambda>_. 0)(''a'' := 0, ''b'' := 1, ''c'' := 2, ''d'' := 1), c)"
    "slot_seq c = [(1, ''d'')] @ (0, ''a'') # [(2, ''c'')]" using demo_children by auto
  have "length demo_ops < NONE" by (simp add: demo_ops_def NONE_def)
  note Q = children_queries_read_list [OF this c(1)]
  have "adjacent c 0 False = Some ''c''" using Q c(2) by (metis (no_types, lifting) list.simps(5) snd_conv)
  moreover have "children_first c = Some ''d''" using Q c(2) by simp
  moreover have "iter_run [True, False, True, True] (iter c) = Some (list_run [True, False, True, True] (map snd (slot_seq c)))"
    using Q by blast
  ultimately show ?thesis using c by auto
qed

end
