(* ===== verification/DomTree.thy ===== *)
theory DomTree
  imports DomChildren RustStd
begin

text \<open>
  The node tree of \<open>src/dom/mod.rs\<close>: parent links and child storage of the nodes of one
  thread, the operations that move nodes and the state they reset on the way.  A \<open>NodeHandle\<close> is the
  identity of its node, which is never reused; the heap maps the identities of the nodes that are
  still alive to their contents.  Parent links and shadow hosts are weak: they name a node that may be gone.  A panic or a
  recursion that never ends is \<open>None\<close>; recursion is cut at a depth that only a cyclic structure exceeds.
  The records hold the fields that these operations read or write; the values that the setters return to
  the style system are left out.
\<close>

section \<open>Nodes\<close>

type_synonym node = nat

text \<open>\<open>f32\<close> by its bits; both zeros equal \<open>0.0\<close>.\<close>

type_synonym f32 = "32 word"

definition f32_is_zero :: "f32 \<Rightarrow> bool" where
  "f32_is_zero x \<longleftrightarrow> x = 0 \<or> x = 0x80000000"

definition is_origin :: "f32 \<times> f32 \<Rightarrow> bool" where
  "is_origin p \<longleftrightarrow> f32_is_zero (fst p) \<and> f32_is_zero (snd p)"

record Element =
  e_tag_name :: string
  e_namespace_uri :: "string option"
  e_prefix :: "string option"
  e_local_name :: string
  e_html :: bool
  e_scroll_offset :: "f32 \<times> f32"
  e_template_content :: "node option"
  e_shadow_root :: "node option"
  e_popover_open :: bool
  e_picker_open :: bool
  e_modal_dialog :: bool
  e_fullscreen :: bool
  e_top_layer_order :: "nat option"

datatype NodeData =
    DocumentData | DocumentFragmentData | ShadowRootData node | ElementData Element
  | TextData string | CommentData string | ProcessingInstructionData string string | DocumentTypeData string

record NodeInner =
  n_parent :: "node option"
  n_parent_revision :: nat
  n_mutation_revision :: nat
  n_parent_slot :: nat
  n_children :: "node Children"
  n_data :: NodeData

text \<open>The heap with the thread-local counters and epochs.\<close>

record Dom =
  d_nodes :: "node \<rightharpoonup> NodeInner"
  d_next_id :: nat
  d_slot_epoch :: nat
  d_tree_epoch :: nat
  d_live_epoch :: nat
  d_scrolled :: nat
  d_modal :: nat
  d_next_order :: nat

datatype DomError = ChildNotFound | ReferenceChildNotFound | HierarchyRequest

definition put :: "node \<Rightarrow> NodeInner \<Rightarrow> Dom \<Rightarrow> Dom" where
  "put n i d = d\<lparr>d_nodes := (d_nodes d)(n \<mapsto> i)\<rparr>"

section \<open>Creation\<close>

definition inner_new :: "NodeData \<Rightarrow> NodeInner" where
  "inner_new data = \<lparr>n_parent = None, n_parent_revision = 0, n_mutation_revision = 0, n_parent_slot = 0, n_children = None, n_data = data\<rparr>"

definition node_new :: "NodeData \<Rightarrow> Dom \<Rightarrow> node \<times> Dom" where
  "node_new data d = (d_next_id d, (put (d_next_id d) (inner_new data) d)\<lparr>d_next_id := d_next_id d + 1\<rparr>)"

definition element_record :: "string \<Rightarrow> string option \<Rightarrow> string option \<Rightarrow> string \<Rightarrow> bool \<Rightarrow> node option \<Rightarrow> Element" where
  "element_record tag_name namespace_uri ns_prefix local_name html template_content =
     \<lparr>e_tag_name = tag_name, e_namespace_uri = namespace_uri, e_prefix = ns_prefix, e_local_name = local_name, e_html = html,
      e_scroll_offset = (0, 0), e_template_content = template_content, e_shadow_root = None, e_popover_open = False,
      e_picker_open = False, e_modal_dialog = False, e_fullscreen = False, e_top_layer_order = None\<rparr>"

text \<open>An element, after the contents fragment that a template owns.\<close>

definition element_node :: "bool \<Rightarrow> (node option \<Rightarrow> Element) \<Rightarrow> Dom \<Rightarrow> node \<times> Dom" where
  "element_node template element d =
     (if template
      then (let (content, d1) = node_new DocumentFragmentData d in node_new (ElementData (element (Some content))) d1)
      else node_new (ElementData (element None)) d)"

definition new_element :: "string \<Rightarrow> Dom \<Rightarrow> node \<times> Dom" where
  "new_element tag d =
     (let tag_name = to_ascii_lowercase tag
      in element_node (tag_name = ''template'') (element_record tag_name None None [] True) d)"

definition new_named :: "string \<Rightarrow> string option \<Rightarrow> string option \<Rightarrow> string \<Rightarrow> bool \<Rightarrow> Dom \<Rightarrow> node \<times> Dom" where
  "new_named tag_name namespace_uri ns_prefix local_name html d =
     element_node (html \<and> eq_ignore_ascii_case local_name ''template'') (element_record tag_name namespace_uri ns_prefix local_name html) d"

definition element_with_name :: "string \<Rightarrow> string option \<Rightarrow> string option \<Rightarrow> bool \<Rightarrow> Dom \<Rightarrow> node \<times> Dom" where
  "element_with_name local_name namespace_uri ns_prefix html d =
     new_named (case ns_prefix of None \<Rightarrow> local_name | Some p \<Rightarrow> p @ '':'' @ local_name) namespace_uri ns_prefix local_name html d"

definition name_parts :: "string \<Rightarrow> string option \<times> string" where
  "name_parts tag_name = (case split_once CHR '':'' tag_name of Some (ns_prefix, local) \<Rightarrow> (Some ns_prefix, local) | None \<Rightarrow> (None, tag_name))"

definition xml_element :: "string \<Rightarrow> string option \<Rightarrow> Dom \<Rightarrow> node \<times> Dom" where
  "xml_element tag_name namespace_uri d =
     (let (ns_prefix, local_name) = name_parts tag_name in new_named tag_name namespace_uri ns_prefix local_name False d)"

definition html_element_ns :: "string \<Rightarrow> string \<Rightarrow> Dom \<Rightarrow> node \<times> Dom" where
  "html_element_ns tag_name namespace_uri d =
     (let (ns_prefix, local_name) = name_parts tag_name
      in element_node (eq_ignore_ascii_case local_name ''template'') (element_record tag_name (Some namespace_uri) ns_prefix local_name True) d)"

definition attach_shadow :: "node \<Rightarrow> Dom \<Rightarrow> (node option \<times> Dom) option" where
  "attach_shadow host d =
     Option.bind (d_nodes d host) (\<lambda>inner.
       case n_data inner of
         ElementData element \<Rightarrow>
           if e_shadow_root element \<noteq> None then Some (None, d)
           else
             (let (root, d1) = node_new (ShadowRootData host) d
              in Some (Some root, put host (inner\<lparr>n_data := ElementData (element\<lparr>e_shadow_root := Some root\<rparr>)\<rparr>) d1))
       | _ \<Rightarrow> Some (None, d))"

definition set_template_content :: "node \<Rightarrow> node \<Rightarrow> Dom \<Rightarrow> bool \<times> Dom" where
  "set_template_content n content d =
     (case d_nodes d n of
        Some inner \<Rightarrow>
          (case n_data inner of
             ElementData element \<Rightarrow>
               if eq_ignore_ascii_case (e_tag_name element) ''template''
               then (True, put n (inner\<lparr>n_data := ElementData (element\<lparr>e_template_content := Some content\<rparr>)\<rparr>) d)
               else (False, d)
           | _ \<Rightarrow> (False, d))
      | None \<Rightarrow> (False, d))"

section \<open>Reading\<close>

definition element_of :: "Dom \<Rightarrow> node \<Rightarrow> Element option" where
  "element_of d n = Option.bind (d_nodes d n) (\<lambda>i. case n_data i of ElementData e \<Rightarrow> Some e | _ \<Rightarrow> None)"

definition template_content :: "Dom \<Rightarrow> node \<Rightarrow> node option" where
  "template_content d n = Option.bind (element_of d n) e_template_content"

definition shadow_root :: "Dom \<Rightarrow> node \<Rightarrow> node option" where
  "shadow_root d n = Option.bind (element_of d n) e_shadow_root"

definition shadow_host :: "Dom \<Rightarrow> node \<Rightarrow> node option" where
  "shadow_host d n = Option.bind (d_nodes d n) (\<lambda>i.
     case n_data i of ShadowRootData h \<Rightarrow> if d_nodes d h = None then None else Some h | _ \<Rightarrow> None)"

definition parent_node :: "Dom \<Rightarrow> node \<Rightarrow> node option" where
  "parent_node d n = Option.bind (d_nodes d n) (\<lambda>i.
     Option.bind (n_parent i) (\<lambda>p. if d_nodes d p = None then None else Some p))"

definition children_of :: "Dom \<Rightarrow> node \<Rightarrow> node Children" where
  "children_of d n = (case d_nodes d n of Some i \<Rightarrow> n_children i | None \<Rightarrow> None)"

primrec iter_collect :: "nat \<Rightarrow> 'n Iter \<Rightarrow> 'n list option" where
  "iter_collect 0 it = None"
| "iter_collect (Suc k) it =
     Option.bind (iter_next it) (\<lambda>(x, it').
       case x of None \<Rightarrow> Some [] | Some n \<Rightarrow> map_option ((#) n) (iter_collect k it'))"

definition child_nodes :: "Dom \<Rightarrow> node \<Rightarrow> node list option" where
  "child_nodes d n = iter_collect (Suc (children_len (children_of d n))) (iter (children_of d n))"

definition child_slot :: "Dom \<Rightarrow> node \<Rightarrow> node \<Rightarrow> nat option" where
  "child_slot d parent child =
     Option.bind (d_nodes d child) (\<lambda>i.
       if get_slot (children_of d parent) (n_parent_slot i) = Some child then Some (n_parent_slot i) else None)"

definition first_child :: "Dom \<Rightarrow> node \<Rightarrow> node option" where
  "first_child d n = children_first (children_of d n)"

definition last_child :: "Dom \<Rightarrow> node \<Rightarrow> node option" where
  "last_child d n = children_last (children_of d n)"

definition adjacent_sibling :: "Dom \<Rightarrow> node \<Rightarrow> bool \<Rightarrow> node option" where
  "adjacent_sibling d n previous =
     Option.bind (parent_node d n) (\<lambda>parent.
       Option.bind (child_slot d parent n) (\<lambda>slot. adjacent (children_of d parent) slot previous))"

definition next_sibling :: "Dom \<Rightarrow> node \<Rightarrow> node option" where
  "next_sibling d n = adjacent_sibling d n False"

definition previous_sibling :: "Dom \<Rightarrow> node \<Rightarrow> node option" where
  "previous_sibling d n = adjacent_sibling d n True"

text \<open>The ancestor loop visits each live node once.\<close>

primrec ancestor_loop :: "nat \<Rightarrow> Dom \<Rightarrow> node \<Rightarrow> node option \<Rightarrow> bool option" where
  "ancestor_loop 0 d self current = None"
| "ancestor_loop (Suc k) d self current =
     (case current of None \<Rightarrow> Some False
      | Some node \<Rightarrow> if node = self then Some True else ancestor_loop k d self (parent_node d node))"

definition is_inclusive_ancestor_of :: "Dom \<Rightarrow> node \<Rightarrow> node \<Rightarrow> bool option" where
  "is_inclusive_ancestor_of d self other = ancestor_loop (d_next_id d + 2) d self (Some other)"

section \<open>Element state\<close>

definition set_element :: "node \<Rightarrow> (Element \<Rightarrow> Element) \<Rightarrow> Dom \<Rightarrow> Dom" where
  "set_element n f d =
     (case d_nodes d n of
        Some i \<Rightarrow> (case n_data i of ElementData e \<Rightarrow> put n (i\<lparr>n_data := ElementData (f e)\<rparr>) d | _ \<Rightarrow> d)
      | None \<Rightarrow> d)"

definition sat_step :: "bool \<Rightarrow> nat \<Rightarrow> nat" where
  "sat_step up count = (if up then min u64_max (count + 1) else count - 1)"

definition set_popover_open :: "node \<Rightarrow> bool \<Rightarrow> Dom \<Rightarrow> Dom" where
  "set_popover_open n opened d =
     (case element_of d n of
        None \<Rightarrow> d
      | Some e \<Rightarrow>
          if opened \<and> e_top_layer_order e = None then
            (set_element n (\<lambda>e. e\<lparr>e_popover_open := opened, e_top_layer_order := Some (d_next_order d)\<rparr>) d)\<lparr>d_next_order := d_next_order d + 1\<rparr>
          else if \<not> opened \<and> \<not> e_modal_dialog e \<and> \<not> e_fullscreen e then
            set_element n (\<lambda>e. e\<lparr>e_popover_open := opened, e_top_layer_order := None\<rparr>) d
          else set_element n (\<lambda>e. e\<lparr>e_popover_open := opened\<rparr>) d)"

definition element_local_name :: "Element \<Rightarrow> string" where
  "element_local_name e = (if e_local_name e = [] then e_tag_name e else e_local_name e)"

definition set_picker_open :: "node \<Rightarrow> bool \<Rightarrow> Dom \<Rightarrow> Dom" where
  "set_picker_open n opened d =
     (case element_of d n of
        None \<Rightarrow> d
      | Some e \<Rightarrow>
          if \<not> (e_html e \<or> e_namespace_uri e = Some ''http://www.w3.org/1999/xhtml'')
             \<or> element_local_name e \<notin> {''input'', ''select''} \<or> e_picker_open e = opened then d
          else set_element n (\<lambda>e. e\<lparr>e_picker_open := opened\<rparr>) d)"

definition set_modal_dialog :: "node \<Rightarrow> bool \<Rightarrow> Dom \<Rightarrow> Dom" where
  "set_modal_dialog n modal d0 =
     (case element_of d0 n of
        None \<Rightarrow> d0
      | Some e \<Rightarrow>
          (let d = (if e_modal_dialog e \<noteq> modal then d0\<lparr>d_modal := sat_step modal (d_modal d0)\<rparr> else d0) in
           if modal \<and> e_top_layer_order e = None then
             (set_element n (\<lambda>e. e\<lparr>e_modal_dialog := modal, e_top_layer_order := Some (d_next_order d)\<rparr>) d)\<lparr>d_next_order := d_next_order d + 1\<rparr>
           else if \<not> modal \<and> \<not> e_popover_open e \<and> \<not> e_fullscreen e then
             set_element n (\<lambda>e. e\<lparr>e_modal_dialog := modal, e_top_layer_order := None\<rparr>) d
           else set_element n (\<lambda>e. e\<lparr>e_modal_dialog := modal\<rparr>) d))"

definition set_fullscreen :: "node \<Rightarrow> bool \<Rightarrow> Dom \<Rightarrow> Dom" where
  "set_fullscreen n fullscreen d =
     (case element_of d n of
        None \<Rightarrow> d
      | Some e \<Rightarrow>
          if fullscreen \<and> e_top_layer_order e = None then
            (set_element n (\<lambda>e. e\<lparr>e_fullscreen := fullscreen, e_top_layer_order := Some (d_next_order d)\<rparr>) d)\<lparr>d_next_order := d_next_order d + 1\<rparr>
          else if \<not> fullscreen \<and> \<not> e_popover_open e \<and> \<not> e_modal_dialog e then
            set_element n (\<lambda>e. e\<lparr>e_fullscreen := fullscreen, e_top_layer_order := None\<rparr>) d
          else set_element n (\<lambda>e. e\<lparr>e_fullscreen := fullscreen\<rparr>) d)"

definition scroll_offset :: "Dom \<Rightarrow> node \<Rightarrow> f32 \<times> f32" where
  "scroll_offset d n = (case element_of d n of Some e \<Rightarrow> e_scroll_offset e | None \<Rightarrow> (0, 0))"

definition set_scroll_offset :: "node \<Rightarrow> f32 \<Rightarrow> f32 \<Rightarrow> Dom \<Rightarrow> Dom" where
  "set_scroll_offset n x y d =
     (case element_of d n of
        None \<Rightarrow> d
      | Some e \<Rightarrow>
          (let was_scrolled = (\<not> is_origin (e_scroll_offset e)); is_scrolled = (\<not> is_origin (x, y));
               d1 = set_element n (\<lambda>e. e\<lparr>e_scroll_offset := (x, y)\<rparr>) d
           in if was_scrolled \<noteq> is_scrolled then d1\<lparr>d_scrolled := sat_step is_scrolled (d_scrolled d1)\<rparr> else d1))"

definition any_element_scrolled :: "Dom \<Rightarrow> bool" where
  "any_element_scrolled d \<longleftrightarrow> d_scrolled d > 0"

text \<open>The two walks over the subtree of a detached node, with its template contents and shadow trees.\<close>

primrec fold_opt :: "('a \<Rightarrow> 's \<Rightarrow> 's option) \<Rightarrow> 'a list \<Rightarrow> 's \<Rightarrow> 's option" where
  "fold_opt f [] s = Some s"
| "fold_opt f (x # xs) s = Option.bind (f x s) (fold_opt f xs)"

definition inner_nodes :: "Dom \<Rightarrow> node \<Rightarrow> node list" where
  "inner_nodes d n = (case template_content d n of Some c \<Rightarrow> [c] | None \<Rightarrow> []) @ (case shadow_root d n of Some r \<Rightarrow> [r] | None \<Rightarrow> [])"

primrec clear_top_layer_state :: "nat \<Rightarrow> node \<Rightarrow> Dom \<Rightarrow> Dom option" where
  "clear_top_layer_state 0 n d = None"
| "clear_top_layer_state (Suc depth) n d =
     (let d1 = set_fullscreen n False (set_modal_dialog n False (set_picker_open n False (set_popover_open n False d)))
      in Option.bind (fold_opt (clear_top_layer_state depth) (inner_nodes d1 n) d1) (\<lambda>d2.
           Option.bind (child_nodes d2 n) (\<lambda>cs. fold_opt (clear_top_layer_state depth) cs d2)))"

primrec clear_scroll_offsets :: "nat \<Rightarrow> node \<Rightarrow> Dom \<Rightarrow> Dom option" where
  "clear_scroll_offsets 0 n d = None"
| "clear_scroll_offsets (Suc depth) n d =
     (let d1 = (if \<not> is_origin (scroll_offset d n) then set_scroll_offset n 0 0 d else d)
      in Option.bind (fold_opt (clear_scroll_offsets depth) (inner_nodes d1 n) d1) (\<lambda>d2.
           Option.bind (child_nodes d2 n) (\<lambda>cs. fold_opt (clear_scroll_offsets depth) cs d2)))"

section \<open>Moving nodes\<close>

definition checked_succ :: "nat \<Rightarrow> nat option" where
  "checked_succ k = (if k + 1 > u64_max then None else Some (k + 1))"

definition bump_mutation_revision :: "node \<Rightarrow> Dom \<Rightarrow> Dom option" where
  "bump_mutation_revision n d =
     Option.bind (d_nodes d n) (\<lambda>i. Option.bind (checked_succ (n_mutation_revision i)) (\<lambda>r.
       Some (put n (i\<lparr>n_mutation_revision := r\<rparr>) d)))"

definition invalidate_slot_assignments :: "Dom \<Rightarrow> Dom option" where
  "invalidate_slot_assignments d =
     Option.bind (checked_succ (d_slot_epoch d)) (\<lambda>s. Option.bind (checked_succ (d_tree_epoch d)) (\<lambda>t.
       Option.bind (checked_succ (d_live_epoch d)) (\<lambda>l.
         Some (d\<lparr>d_slot_epoch := s, d_tree_epoch := t, d_live_epoch := l\<rparr>))))"

definition set_parent_link :: "node \<Rightarrow> node option \<Rightarrow> Dom \<Rightarrow> Dom option" where
  "set_parent_link n parent d =
     Option.bind (d_nodes d n) (\<lambda>i. Option.bind (checked_succ (n_parent_revision i)) (\<lambda>r.
       Some (put n (i\<lparr>n_parent := parent, n_parent_slot := (if parent = None then 0 else n_parent_slot i), n_parent_revision := r\<rparr>) d)))"

definition slots_of :: "Dom \<Rightarrow> node \<Rightarrow> nat" where
  "slots_of d n = (case d_nodes d n of Some i \<Rightarrow> n_parent_slot i | None \<Rightarrow> 0)"

text \<open>Writing back the child storage of a parent and the slot of the inserted child.\<close>

definition put_children :: "node \<Rightarrow> node \<Rightarrow> (node \<Rightarrow> nat) \<times> node Children \<Rightarrow> Dom \<Rightarrow> Dom option" where
  "put_children self child r d =
     Option.bind (d_nodes d child) (\<lambda>ci.
       let d1 = put child (ci\<lparr>n_parent_slot := fst r child\<rparr>) d
       in Option.bind (d_nodes d1 self) (\<lambda>si. Some (put self (si\<lparr>n_children := snd r\<rparr>) d1)))"

definition remove_child :: "node \<Rightarrow> node \<Rightarrow> Dom \<Rightarrow> ((DomError + node) \<times> Dom) option" where
  "remove_child self child d =
     (case child_slot d self child of
        None \<Rightarrow> Some (Inl ChildNotFound, d)
      | Some index \<Rightarrow>
          Option.bind (d_nodes d self) (\<lambda>si. Option.bind (remove index (n_children si)) (\<lambda>(removed, c).
            let d1 = put self (si\<lparr>n_children := c\<rparr>) d in
            Option.bind (bump_mutation_revision self d1) (\<lambda>d2.
            Option.bind (set_parent_link removed None d2) (\<lambda>d3.
            Option.bind (clear_top_layer_state (d_next_id d3 + 1) removed d3) (\<lambda>d4.
            Option.bind (invalidate_slot_assignments d4) (\<lambda>d5.
              if any_element_scrolled d5
              then map_option (\<lambda>d6. (Inr removed, d6)) (clear_scroll_offsets (d_next_id d5 + 1) removed d5)
              else Some (Inr removed, d5))))))))"

definition detach_from_parent :: "node \<Rightarrow> Dom \<Rightarrow> Dom option" where
  "detach_from_parent child d =
     (case parent_node d child of None \<Rightarrow> Some d | Some p \<Rightarrow> map_option snd (remove_child p child d))"

definition append_child :: "node \<Rightarrow> node \<Rightarrow> Dom \<Rightarrow> Dom option" where
  "append_child self child d =
     Option.bind (is_inclusive_ancestor_of d child self) (\<lambda>ancestor.
       if ancestor then Some d
       else
         Option.bind (detach_from_parent child d) (\<lambda>d1.
         Option.bind (set_parent_link child (Some self) d1) (\<lambda>d2.
         Option.bind (push child (slots_of d2, children_of d2 self)) (\<lambda>r.
         Option.bind (put_children self child r d2) (\<lambda>d3.
         Option.bind (bump_mutation_revision self d3) invalidate_slot_assignments)))))"

definition dom_insert_before :: "node \<Rightarrow> node \<Rightarrow> node \<Rightarrow> Dom \<Rightarrow> ((DomError + unit) \<times> Dom) option" where
  "dom_insert_before self new_child reference_child d =
     Option.bind (is_inclusive_ancestor_of d new_child self) (\<lambda>ancestor.
       if ancestor then Some (Inl HierarchyRequest, d)
       else case child_slot d self reference_child of
         None \<Rightarrow> Some (Inl ReferenceChildNotFound, d)
       | Some reference_index \<Rightarrow>
           (let reference_after_move =
                  (if new_child = reference_child then adjacent (children_of d self) reference_index False
                   else Some reference_child)
            in Option.bind (detach_from_parent new_child d) (\<lambda>d1.
                 case (case reference_after_move of None \<Rightarrow> Inr None
                       | Some reference \<Rightarrow> (case child_slot d1 self reference of
                                             None \<Rightarrow> Inl ReferenceChildNotFound | Some slot \<Rightarrow> Inr (Some slot))) of
                   Inl e \<Rightarrow> Some (Inl e, d1)
                 | Inr reference_slot \<Rightarrow>
                     Option.bind (set_parent_link new_child (Some self) d1) (\<lambda>d2.
                     Option.bind (case reference_slot of
                         Some slot \<Rightarrow> insert_before new_child slot (slots_of d2, children_of d2 self)
                       | None \<Rightarrow> push new_child (slots_of d2, children_of d2 self)) (\<lambda>r.
                     Option.bind (put_children self new_child r d2) (\<lambda>d3.
                     Option.bind (bump_mutation_revision self d3) (\<lambda>d4.
                       map_option (\<lambda>d5. (Inr (), d5)) (invalidate_slot_assignments d4))))))))"

section \<open>Declarative shadow roots\<close>

text \<open>
  What the parser of \<open>src/html/tree_builder.rs\<close> does with a template that it has inserted and that declares a shadow
  root of its parent: the contents of the template become the new root, so that what follows is inserted there,
  and the template leaves the tree.  Of the settings of the root only the manual assignment of slots has an effect here; the
  list of created nodes is left out.
\<close>

definition declare_shadow_root :: "node \<Rightarrow> node \<Rightarrow> bool \<Rightarrow> Dom \<Rightarrow> Dom option" where
  "declare_shadow_root host template manual_slot_assignment d =
     Option.bind (attach_shadow host d) (\<lambda>(root, d0).
       case root of
         None \<Rightarrow> Some d0
       | Some root \<Rightarrow>
           Option.bind (if manual_slot_assignment then invalidate_slot_assignments d0 else Some d0) (\<lambda>d1.
             let (changed, d2) = set_template_content template root d1
             in if \<not> changed then Some d2
                else case parent_node d2 template of
                  None \<Rightarrow> Some d2
                | Some parent \<Rightarrow> map_option snd (remove_child parent template d2)))"

end
