(* ===== verification/DomInvariant.thy ===== *)
theory DomInvariant
  imports DomTree
begin

text \<open>
  The tree invariant: child storage and parent links of the live nodes describe the same forest.
  It depends only on the links of the nodes, so operations on other state keep it for free.
\<close>

section \<open>Links\<close>

type_synonym links = "node \<rightharpoonup> node option \<times> nat \<times> node Children"

definition link_of :: "NodeInner \<Rightarrow> node option \<times> nat \<times> node Children" where
  "link_of i = (n_parent i, n_parent_slot i, n_children i)"

definition links :: "Dom \<Rightarrow> links" where
  "links d n = map_option link_of (d_nodes d n)"

definition parent_in :: "links \<Rightarrow> node \<Rightarrow> node option" where
  "parent_in L n = (case L n of Some (Some p, _, _) \<Rightarrow> if L p = None then None else Some p | _ \<Rightarrow> None)"

definition up :: "links \<Rightarrow> (node \<times> node) set" where
  "up L = {(n, p). parent_in L n = Some p}"

definition wf_links :: "links \<Rightarrow> nat \<Rightarrow> bool" where
  "wf_links L k \<longleftrightarrow>
     (\<forall>n p s c. L n = Some (p, s, c) \<longrightarrow> n < k \<and> children_ok c \<and> (\<forall>q. p = Some q \<longrightarrow> q < k)
        \<and> (\<forall>i m. (i, m) \<in> set (slot_seq c) \<longrightarrow> (\<exists>c'. L m = Some (Some n, i, c'))))
   \<and> (\<forall>m p s c x. L m = Some (Some p, s, c) \<longrightarrow> L p = Some x \<longrightarrow> (s, m) \<in> set (slot_seq (snd (snd x))))
   \<and> acyclic (up L)"

definition dom_wf :: "Dom \<Rightarrow> bool" where
  "dom_wf d \<longleftrightarrow> wf_links (links d) (d_next_id d)"

definition same_links :: "Dom \<Rightarrow> Dom \<Rightarrow> bool" where
  "same_links d d' \<longleftrightarrow> links d' = links d \<and> d_next_id d' = d_next_id d"

lemma same_links_refl [simp]: "same_links d d"
  by (simp add: same_links_def)

lemma same_links_trans [trans]: "same_links a b \<Longrightarrow> same_links b c \<Longrightarrow> same_links a c"
  by (simp add: same_links_def)

lemma same_links_wf: "same_links d d' \<Longrightarrow> dom_wf d \<Longrightarrow> dom_wf d'"
  by (simp add: same_links_def dom_wf_def)

lemma links_Some: "links d n = Some x \<longleftrightarrow> (\<exists>i. d_nodes d n = Some i \<and> x = link_of i)"
  by (auto simp: links_def)

lemma links_None: "links d n = None \<longleftrightarrow> d_nodes d n = None"
  by (simp add: links_def)

lemma links_put [simp]: "links (put n i d) = (links d)(n \<mapsto> link_of i)"
  by (auto simp: links_def put_def fun_eq_iff)

lemma put_next_id [simp]: "d_next_id (put n i d) = d_next_id d"
  by (simp add: put_def)

lemma parent_node_links: "parent_node d n = parent_in (links d) n"
  by (auto simp: parent_node_def parent_in_def links_def link_of_def split: option.splits)

lemma children_of_links: "children_of d n = (case links d n of Some (_, _, c) \<Rightarrow> c | None \<Rightarrow> None)"
  by (auto simp: children_of_def links_def link_of_def split: option.splits)

lemma slots_of_links: "slots_of d n = (case links d n of Some (_, s, _) \<Rightarrow> s | None \<Rightarrow> 0)"
  by (auto simp: slots_of_def links_def link_of_def split: option.splits)

lemma same_links_queries:
  assumes "same_links d d'"
  shows "parent_node d' n = parent_node d n" "children_of d' n = children_of d n" "child_slot d' p n = child_slot d p n"
    "child_nodes d' n = child_nodes d n" "d_nodes d' n = None \<longleftrightarrow> d_nodes d n = None"
proof -
  have L: "links d' = links d" using assms by (simp add: same_links_def)
  then show "parent_node d' n = parent_node d n" "children_of d' n = children_of d n"
    by (simp_all add: parent_node_links children_of_links)
  then show "child_nodes d' n = child_nodes d n" by (simp add: child_nodes_def)
  show "d_nodes d' n = None \<longleftrightarrow> d_nodes d n = None" using L links_None by metis
  have cs: "child_slot e p n = (case links e n of Some (_, s, _) \<Rightarrow> if get_slot (children_of e p) s = Some n then Some s else None | None \<Rightarrow> None)" for e
    by (auto simp: child_slot_def links_def link_of_def split: option.splits)
  have co: "children_of d' p = children_of d p" by (simp add: children_of_links L)
  show "child_slot d' p n = child_slot d p n" unfolding cs co L ..
qed

section \<open>Operations that keep the links\<close>

named_theorems keeps_links

lemma same_links_put [keeps_links]: "d_nodes d n = Some i \<Longrightarrow> link_of j = link_of i \<Longrightarrow> same_links d (put n j d)"
  by (auto simp: same_links_def links_def fun_eq_iff put_def)

lemma same_links_set_element [keeps_links]: "same_links d (set_element n f d)"
  by (auto simp: set_element_def link_of_def intro!: same_links_put split: option.splits NodeData.splits)

lemma same_links_counters [simp]:
  "same_links d (e\<lparr>d_scrolled := a\<rparr>) = same_links d e" "same_links d (e\<lparr>d_modal := a\<rparr>) = same_links d e"
  "same_links d (e\<lparr>d_next_order := a\<rparr>) = same_links d e" "same_links d (e\<lparr>d_slot_epoch := a\<rparr>) = same_links d e"
  "same_links d (e\<lparr>d_tree_epoch := a\<rparr>) = same_links d e" "same_links d (e\<lparr>d_live_epoch := a\<rparr>) = same_links d e"
  by (simp_all add: same_links_def links_def fun_eq_iff)

lemma same_links_counters_left [simp]: "same_links (d\<lparr>d_modal := a\<rparr>) e = same_links d e"
  by (simp add: same_links_def links_def fun_eq_iff)

lemma same_links_setters [keeps_links]:
  "same_links d (set_popover_open n b d)" "same_links d (set_picker_open n b d)" "same_links d (set_modal_dialog n b d)"
  "same_links d (set_fullscreen n b d)" "same_links d (set_scroll_offset n x y d)"
  using same_links_set_element [of "d\<lparr>d_modal := sat_step b (d_modal d)\<rparr>"]
  by (auto simp: set_popover_open_def set_picker_open_def set_modal_dialog_def set_fullscreen_def set_scroll_offset_def Let_def
      intro: same_links_set_element split: option.splits)

lemma fold_opt_same_links:
  assumes "\<And>x s s'. f x s = Some s' \<Longrightarrow> same_links s s'"
  shows "fold_opt f xs s = Some s' \<Longrightarrow> same_links s s'"
  by (induction xs arbitrary: s) (auto dest!: assms intro: same_links_trans split: Option.bind_splits)

lemma clear_top_layer_links: "clear_top_layer_state k n d = Some d' \<Longrightarrow> same_links d d'"
proof (induction k arbitrary: n d d')
  case (Suc k)
  define d1 where "d1 = set_fullscreen n False (set_modal_dialog n False (set_picker_open n False (set_popover_open n False d)))"
  have d1: "same_links d d1" unfolding d1_def
    by (rule same_links_trans [OF same_links_setters(1) same_links_trans [OF same_links_setters(2)
      same_links_trans [OF same_links_setters(3) same_links_setters(4)]]])
  from Suc.prems obtain d2 cs where d2: "fold_opt (clear_top_layer_state k) (inner_nodes d1 n) d1 = Some d2"
    "fold_opt (clear_top_layer_state k) cs d2 = Some d'"
    by (auto simp: d1_def [symmetric] Let_def split: Option.bind_splits)
  show ?case by (rule same_links_trans [OF d1 same_links_trans [OF fold_opt_same_links [OF Suc.IH d2(1)] fold_opt_same_links [OF Suc.IH d2(2)]]])
qed simp

lemma clear_scroll_links: "clear_scroll_offsets k n d = Some d' \<Longrightarrow> same_links d d'"
proof (induction k arbitrary: n d d')
  case (Suc k)
  define d1 where "d1 = (if \<not> is_origin (scroll_offset d n) then set_scroll_offset n 0 0 d else d)"
  have d1: "same_links d d1" by (simp add: d1_def same_links_setters)
  from Suc.prems obtain d2 cs where d2: "fold_opt (clear_scroll_offsets k) (inner_nodes d1 n) d1 = Some d2"
    "fold_opt (clear_scroll_offsets k) cs d2 = Some d'"
    by (auto simp: d1_def [symmetric] Let_def split: Option.bind_splits)
  show ?case by (rule same_links_trans [OF d1 same_links_trans [OF fold_opt_same_links [OF Suc.IH d2(1)] fold_opt_same_links [OF Suc.IH d2(2)]]])
qed simp

lemma same_links_bump [keeps_links]: "bump_mutation_revision n d = Some d' \<Longrightarrow> same_links d d'"
  by (auto simp: bump_mutation_revision_def link_of_def intro!: same_links_put split: Option.bind_splits)

lemma same_links_invalidate [keeps_links]: "invalidate_slot_assignments d = Some d' \<Longrightarrow> same_links d d'"
  by (auto simp: invalidate_slot_assignments_def split: Option.bind_splits)

section \<open>Unlinking and linking\<close>

lemma wf_linksD:
  assumes "wf_links L k"
  shows "L n = Some (p, s, c) \<Longrightarrow> n < k \<and> children_ok c" "L n = Some (Some q, s, c) \<Longrightarrow> q < k"
    "L n = Some (p, s, c) \<Longrightarrow> (i, m) \<in> set (slot_seq c) \<Longrightarrow> \<exists>c'. L m = Some (Some n, i, c')"
    "L m = Some (Some p', s, c) \<Longrightarrow> L p' = Some (a, b, e) \<Longrightarrow> (s, m) \<in> set (slot_seq e)"
    "acyclic (up L)"
proof -
  note W = assms [unfolded wf_links_def]
  show "L n = Some (p, s, c) \<Longrightarrow> n < k \<and> children_ok c" using W by blast
  show "L n = Some (Some q, s, c) \<Longrightarrow> q < k" using W by blast
  show "L n = Some (p, s, c) \<Longrightarrow> (i, m) \<in> set (slot_seq c) \<Longrightarrow> \<exists>c'. L m = Some (Some n, i, c')" using W by blast
  assume a: "L m = Some (Some p', s, c)" "L p' = Some (a, b, e)"
  from W have "(s, m) \<in> set (slot_seq (snd (snd (a, b, e))))" using a by blast
  then show "(s, m) \<in> set (slot_seq e)" by simp
next
  show "acyclic (up L)" using assms unfolding wf_links_def by blast
qed

lemma wf_linksI:
  assumes "\<And>n p s c. L n = Some (p, s, c) \<Longrightarrow> n < k \<and> children_ok c" "\<And>n q s c. L n = Some (Some q, s, c) \<Longrightarrow> q < k"
    "\<And>n p s c i m. L n = Some (p, s, c) \<Longrightarrow> (i, m) \<in> set (slot_seq c) \<Longrightarrow> \<exists>c'. L m = Some (Some n, i, c')"
    "\<And>m p s c a b e. L m = Some (Some p, s, c) \<Longrightarrow> L p = Some (a, b, e) \<Longrightarrow> (s, m) \<in> set (slot_seq e)"
    "acyclic (up L)"
  shows "wf_links L k"
  unfolding wf_links_def
proof (intro conjI allI impI)
  fix m p s c x assume "L m = Some (Some p, s, c)" "L p = Some x"
  then show "(s, m) \<in> set (slot_seq (snd (snd x)))" using assms(4) by (cases x) simp
next
  fix n p s c i m assume "L n = Some (p, s, c)" "(i, m) \<in> set (slot_seq c)"
  then show "\<exists>c'. L m = Some (Some n, i, c')" by (rule assms(3))
next
  fix n p s c q assume "L n = Some (p, s, c)" "p = Some q"
  then show "q < k" using assms(2) by blast
qed (use assms(1,5) in blast)+

lemma slot_of_child:
  assumes "wf_links L k" "L m = Some (Some p, s, c)" "L p = Some (a, b, e)"
  shows "get_slot e s = Some m" "(i, m) \<in> set (slot_seq e) \<Longrightarrow> i = s"
proof -
  have "children_ok e" using wf_linksD(1) [OF assms(1,3)] by blast
  then show "get_slot e s = Some m" using wf_linksD(4) [OF assms] get_slot_spec [of e s m] by simp
  assume "(i, m) \<in> set (slot_seq e)"
  then obtain c' where "L m = Some (Some p, i, c')" using wf_linksD(3) [OF assms(1,3)] by blast
  then show "i = s" using assms(2) by simp
qed

text \<open>A node without a live parent is nobody's child.\<close>

lemma orphan_no_child:
  "wf_links L k \<Longrightarrow> parent_in L m = None \<Longrightarrow> L n = Some (p, s, c) \<Longrightarrow> (i, m) \<notin> set (slot_seq c)"
proof
  assume L: "wf_links L k" "parent_in L m = None" "L n = Some (p, s, c)" "(i, m) \<in> set (slot_seq c)"
  then obtain c' where "L m = Some (Some n, i, c')" using wf_linksD(3) by blast
  with L(2,3) show False by (simp add: parent_in_def)
qed

lemma parent_neq:
  assumes "wf_links L k" "L m = Some (Some p, s, e)" "L p = Some x"
  shows "p \<noteq> m"
proof
  assume "p = m"
  then have "(m, m) \<in> up L" using assms(2) by (simp add: up_def parent_in_def)
  then show False using wf_linksD(5) [OF assms(1)] by (auto simp: acyclic_def)
qed

lemma up_unlink:
  "L p = Some (a, b, c) \<Longrightarrow> L m = Some x \<Longrightarrow> up (L(p \<mapsto> (a, b, c'), m \<mapsto> (None, s, e))) \<subseteq> up L"
  by (auto simp: up_def parent_in_def split: if_splits option.splits)

text \<open>Taking a child out of its parent.\<close>

lemma wf_unlink:
  assumes wf: "wf_links L k" and p: "L p = Some (a, b, c)" and m: "L m = Some (Some p, s, e)"
    and c': "children_ok c'" "slot_seq c' = filter (\<lambda>(i, _). i \<noteq> s) (slot_seq c)"
  shows "wf_links (L(p \<mapsto> (a, b, c'), m \<mapsto> (None, 0, e))) k"
proof -
  let ?L = "L(p \<mapsto> (a, b, c'), m \<mapsto> (None, 0, e))"
  have pm: "p \<noteq> m" by (rule parent_neq [OF wf m p])
  have up: "up ?L \<subseteq> up L" by (rule up_unlink [OF p m])
  have kids: "(i, n) \<in> set (slot_seq c) \<and> n \<noteq> m" if "(i, n) \<in> set (slot_seq c')" for i n
    using that c'(2) slot_of_child(2) [OF wf m p, of i] by auto
  show ?thesis
  proof (rule wf_linksI)
    show "n < k \<and> children_ok x" if "?L n = Some (q, t, x)" for n q t x
      using that wf_linksD(1) [OF wf] p m c'(1) by (auto split: if_splits)
    show "q < k" if "?L n = Some (Some q, t, x)" for n q t x
      using that wf_linksD(2) [OF wf] p by (auto split: if_splits)
    show "\<exists>y. ?L n' = Some (Some n, i, y)" if "?L n = Some (q, t, x)" "(i, n') \<in> set (slot_seq x)" for n q t x i n'
    proof (cases "n = p")
      case True
      then have "(i, n') \<in> set (slot_seq c)" "n' \<noteq> m" using that pm kids by auto
      then show ?thesis using wf_linksD(3) [OF wf p] True pm p by (cases "n' = p") fastforce+
    next
      case False
      then have "\<exists>q t. L n = Some (q, t, x)" using that(1) m by (auto split: if_splits)
      then have "\<exists>y. L n' = Some (Some n, i, y)" using wf_linksD(3) [OF wf] that(2) by blast
      then obtain y where y: "L n' = Some (Some n, i, y)" by blast
      then have "n' \<noteq> m" using m False by auto
      then show ?thesis using y p by (cases "n' = p") auto
    qed
    show "(t, n) \<in> set (slot_seq z)" if "?L n = Some (Some q, t, x)" "?L q = Some (u, v, z)" for n q t x u v z
    proof -
      have n: "n \<noteq> m" using that(1) by auto
      then have "\<exists>x'. L n = Some (Some q, t, x')" using that(1) p by (cases "n = p") auto
      then obtain x' where x': "L n = Some (Some q, t, x')" by blast
      have "\<exists>u' v' z'. L q = Some (u', v', z')" using that(2) p m by (cases "q = p"; cases "q = m") auto
      then obtain u' v' z' where z': "L q = Some (u', v', z')" by blast
      have mem: "(t, n) \<in> set (slot_seq z')" by (rule wf_linksD(4) [OF wf x' z'])
      show ?thesis
      proof (cases "q = p")
        case True
        then have z: "z = c'" "z' = c" using that(2) pm z' p by auto
        have "t \<noteq> s" using mem z(2) wf_linksD(4) [OF wf m p] n slot_of_child(1) [OF wf m p] slot_of_child(1) [OF wf x' z'] by auto
        then show ?thesis using mem z c'(2) by auto
      next
        case False
        then have "z = z'" using that(2) z' m by (cases "q = m") auto
        then show ?thesis using mem by simp
      qed
    qed
    show "acyclic (up ?L)" by (rule acyclic_subset [OF wf_linksD(5) [OF wf] up])
  qed
qed

text \<open>Putting an orphan under a node that is not below it.\<close>

lemma up_link:
  assumes "parent_in L m = None" "L p = Some (a, b, c)" "L m = Some x" "m \<noteq> p"
  shows "up (L(p \<mapsto> (a, b, c'), m \<mapsto> (Some p, i, e))) = insert (m, p) (up L)"
  using assms by (auto simp: up_def parent_in_def split: if_splits option.splits)

lemma wf_link:
  assumes wf: "wf_links L k" and p: "L p = Some (a, b, c)" and m: "L m = Some (q0, s0, e)" "parent_in L m = None"
    and below: "(p, m) \<notin> (up L)\<^sup>*"
    and c': "children_ok c'" "set (slot_seq c') = insert (i, m) (set (slot_seq c))"
  shows "wf_links (L(p \<mapsto> (a, b, c'), m \<mapsto> (Some p, i, e))) k"
proof -
  let ?L = "L(p \<mapsto> (a, b, c'), m \<mapsto> (Some p, i, e))"
  have pm: "m \<noteq> p" using below by blast
  have orphan: "(j, m) \<notin> set (slot_seq x)" if "L n = Some (q, t, x)" for j n q t x
    by (rule orphan_no_child [OF wf m(2) that])
  show ?thesis
  proof (rule wf_linksI)
    show "n < k \<and> children_ok x" if "?L n = Some (q, t, x)" for n q t x
      using that wf_linksD(1) [OF wf] p m c'(1) by (auto split: if_splits)
    show "q < k" if "?L n = Some (Some q, t, x)" for n q t x
      using that wf_linksD(1,2) [OF wf] p by (auto split: if_splits)
    show "\<exists>y. ?L n' = Some (Some n, j, y)" if x: "?L n = Some (q, t, x)" "(j, n') \<in> set (slot_seq x)" for n q t x j n'
    proof (cases "n = p \<and> j = i \<and> n' = m")
      case True
      then show ?thesis by simp
    next
      case False
      then have "\<exists>q t z. L n = Some (q, t, z) \<and> (j, n') \<in> set (slot_seq z)"
        using x p m(1) c'(2) pm by (auto split: if_splits)
      then obtain q' t' z where z: "L n = Some (q', t', z)" "(j, n') \<in> set (slot_seq z)" by blast
      then obtain y where y: "L n' = Some (Some n, j, y)" using wf_linksD(3) [OF wf] by blast
      have "n' \<noteq> m" using orphan [OF z(1)] z(2) by auto
      then show ?thesis using y p by (cases "n' = p") auto
    qed
    show "(t, n) \<in> set (slot_seq z)" if x: "?L n = Some (Some q, t, x)" "?L q = Some (u, v, z)" for n q t x u v z
    proof (cases "n = m")
      case True
      then have "q = p" "t = i" using x(1) by auto
      then show ?thesis using x(2) pm c'(2) True by auto
    next
      case False
      then have "\<exists>x'. L n = Some (Some q, t, x')" using x(1) p by (cases "n = p") auto
      then obtain x' where x': "L n = Some (Some q, t, x')" by blast
      have "\<exists>u' v' z'. L q = Some (u', v', z') \<and> set (slot_seq z') \<subseteq> set (slot_seq z)"
        using x(2) p m(1) c'(2) by (cases "q = p"; cases "q = m") auto
      then obtain u' v' z' where z': "L q = Some (u', v', z')" "set (slot_seq z') \<subseteq> set (slot_seq z)" by blast
      then show ?thesis using wf_linksD(4) [OF wf x' z'(1)] by blast
    qed
    have "acyclic (insert (m, p) (up L))" using wf_linksD(5) [OF wf] below by (simp add: acyclic_insert)
    then show "acyclic (up ?L)" using up_link [OF m(2) p m(1) pm] by simp
  qed
qed

section \<open>The ancestor loop\<close>

lemma up_step: "(n, m) \<in> (up L)\<^sup>* \<longleftrightarrow> n = m \<or> (\<exists>p. parent_in L n = Some p \<and> (p, m) \<in> (up L)\<^sup>*)"
  by (auto simp: up_def elim: converse_rtranclE intro: converse_rtrancl_into_rtrancl)

lemma ancestors_finite:
  assumes "wf_links L k"
  shows "{m. (n, m) \<in> (up L)\<^sup>*} \<subseteq> insert n {..<k}"
proof
  fix m assume "m \<in> {m. (n, m) \<in> (up L)\<^sup>*}"
  then have "(n, m) \<in> (up L)\<^sup>*" by simp
  then show "m \<in> insert n {..<k}"
  proof (cases rule: rtranclE)
    case (step y)
    then have "\<exists>x. L m = Some x" by (auto simp: up_def parent_in_def split: option.splits if_splits)
    then show ?thesis using wf_linksD(1) [OF assms] by fastforce
  qed simp
qed

lemma ancestor_loop_spec:
  assumes "acyclic (up (links d))" "\<And>n. finite {m. (n, m) \<in> (up (links d))\<^sup>*}"
  shows "card {m. (n, m) \<in> (up (links d))\<^sup>*} < k \<Longrightarrow> ancestor_loop k d self (Some n) = Some ((n, self) \<in> (up (links d))\<^sup>*)"
proof (induction k arbitrary: n)
  case (Suc k)
  let ?U = "up (links d)"
  show ?case
  proof (cases "n = self \<or> parent_node d n = None")
    case True
    have "card {m. (n, m) \<in> ?U\<^sup>*} > 0" using assms(2) [of n] by (auto simp: card_gt_0_iff)
    then obtain k' where "k = Suc k'" using Suc.prems by (cases k) auto
    then show ?thesis using True up_step [of n self "links d"] by (auto simp: parent_node_links)
  next
    case False
    then obtain p where p: "parent_node d n = Some p" "n \<noteq> self" by blast
    then have np: "(n, p) \<in> ?U" by (simp add: up_def parent_node_links)
    have "n \<notin> {m. (p, m) \<in> ?U\<^sup>*}"
    proof
      assume "n \<in> {m. (p, m) \<in> ?U\<^sup>*}"
      then have "(n, n) \<in> ?U\<^sup>+" using np by (simp add: rtrancl_into_trancl2)
      then show False using assms(1) by (simp add: acyclic_def)
    qed
    moreover have "{m. (p, m) \<in> ?U\<^sup>*} \<subseteq> {m. (n, m) \<in> ?U\<^sup>*}" using np by (auto intro: converse_rtrancl_into_rtrancl)
    ultimately have "{m. (p, m) \<in> ?U\<^sup>*} \<subset> {m. (n, m) \<in> ?U\<^sup>*}" by blast
    then have "card {m. (p, m) \<in> ?U\<^sup>*} < k" using psubset_card_mono [OF assms(2)] Suc.prems by (meson less_Suc_eq_le order_less_le_trans)
    from Suc.IH [OF this] show ?thesis using p up_step [of n self "links d"] by (auto simp: parent_node_links)
  qed
qed simp

lemma is_inclusive_ancestor_spec:
  assumes "dom_wf d"
  shows "is_inclusive_ancestor_of d self other = Some ((other, self) \<in> (up (links d))\<^sup>*)"
proof -
  have wf: "wf_links (links d) (d_next_id d)" using assms by (simp add: dom_wf_def)
  have fin: "finite {m. (n, m) \<in> (up (links d))\<^sup>*}" for n
    by (rule finite_subset [OF ancestors_finite [OF wf]]) simp
  have "card {m. (other, m) \<in> (up (links d))\<^sup>*} \<le> card (insert other {..<d_next_id d})"
    by (rule card_mono) (use ancestors_finite [OF wf] in auto)
  also have "\<dots> < d_next_id d + 2" by (simp add: card_insert_if)
  finally show ?thesis unfolding is_inclusive_ancestor_of_def
    by (rule ancestor_loop_spec [OF wf_linksD(5) [OF wf] fin])
qed

section \<open>Effects on the links\<close>

lemma dom_wf_links: "dom_wf d \<Longrightarrow> wf_links (links d) (d_next_id d)"
  by (simp add: dom_wf_def)

lemma child_slot_iff:
  assumes "dom_wf d"
  shows "child_slot d p m = Some s \<longleftrightarrow> (\<exists>e. links d m = Some (Some p, s, e)) \<and> links d p \<noteq> None"
proof -
  note wf = dom_wf_links [OF assms]
  have cs: "child_slot d p m = Some s \<longleftrightarrow> (\<exists>q e. links d m = Some (q, s, e)) \<and> get_slot (children_of d p) s = Some m"
    by (auto simp: child_slot_def links_def link_of_def split: option.splits Option.bind_splits)
  show ?thesis
  proof
    assume "child_slot d p m = Some s"
    then have g: "get_slot (children_of d p) s = Some m" using cs by blast
    then obtain a b c where p: "links d p = Some (a, b, c)" "children_of d p = c"
      by (auto simp: children_of_links get_slot_def split: option.splits)
    have "(s, m) \<in> set (slot_seq c)" using g p wf_linksD(1) [OF wf p(1)] get_slot_spec [of c s m] by simp
    then show "(\<exists>e. links d m = Some (Some p, s, e)) \<and> links d p \<noteq> None" using wf_linksD(3) [OF wf p(1)] p(1) by blast
  next
    assume a: "(\<exists>e. links d m = Some (Some p, s, e)) \<and> links d p \<noteq> None"
    then obtain e a b c where L: "links d m = Some (Some p, s, e)" "links d p = Some (a, b, c)" by (cases "links d p") auto
    then have "get_slot (children_of d p) s = Some m" using slot_of_child(1) [OF wf L] by (simp add: children_of_links)
    then show "child_slot d p m = Some s" using L(1) cs by blast
  qed
qed

lemma set_parent_link_links:
  "set_parent_link n q d = Some d' \<Longrightarrow> \<exists>p s c. links d n = Some (p, s, c)
     \<and> links d' = (links d)(n \<mapsto> (q, if q = None then 0 else s, c)) \<and> d_next_id d' = d_next_id d"
  by (auto simp: set_parent_link_def links_def link_of_def split: Option.bind_splits if_splits)

lemma remove_child_links:
  assumes wf: "dom_wf d" and run: "remove_child self child d = Some (res, d')"
  obtains (missing) "child_slot d self child = None" "res = Inl ChildNotFound" "d' = d"
    | (removed) s a b c c' e where "child_slot d self child = Some s" "res = Inr child" "links d self = Some (a, b, c)"
        "links d child = Some (Some self, s, e)" "children_ok c'" "slot_seq c' = filter (\<lambda>(i, _). i \<noteq> s) (slot_seq c)"
        "links d' = (links d)(self \<mapsto> (a, b, c'), child \<mapsto> (None, 0, e))" "d_next_id d' = d_next_id d" "self \<noteq> child"
        "slot_count c' = slot_count c"
proof (cases "child_slot d self child")
  case None
  then have "res = Inl ChildNotFound" "d' = d" using run by (simp_all add: remove_child_def)
  with None show ?thesis by (rule missing)
next
  case (Some s)
  note W = dom_wf_links [OF wf]
  obtain e a b c where L: "links d child = Some (Some self, s, e)" "links d self = Some (a, b, c)"
    using Some child_slot_iff [OF wf] by (cases "links d self") auto
  obtain si where si: "d_nodes d self = Some si" "link_of si = (a, b, c)" using L(2) by (auto simp: links_Some)
  have ok: "children_ok c" using wf_linksD(1) [OF W L(2)] by blast
  obtain c' where c': "remove s c = Some (child, c')" "children_ok c'" "slot_seq c' = filter (\<lambda>(i, _). i \<noteq> s) (slot_seq c)"
    using kids.remove_slot [OF ok slot_of_child(1) [OF W L]] by blast
  have count: "slot_count c' = slot_count c"
  proof -
    obtain xs ys where "slot_seq c = xs @ (s, child) # ys" using kids.slot_split [OF ok slot_of_child(1) [OF W L]] by blast
    from remove_spec [OF ok this] c'(1) show ?thesis by auto
  qed
  have neq: "self \<noteq> child" by (rule parent_neq [OF W L])
  have cn: "n_children si = c" using si(2) by (simp add: link_of_def)
  define d1 where "d1 = put self (si\<lparr>n_children := c'\<rparr>) d"
  from run obtain d2 d3 d4 d5 where ops: "bump_mutation_revision self d1 = Some d2" "set_parent_link child None d2 = Some d3"
    "clear_top_layer_state (d_next_id d3 + 1) child d3 = Some d4" "invalidate_slot_assignments d4 = Some d5"
    "res = Inr child" "d' = d5 \<or> clear_scroll_offsets (d_next_id d5 + 1) child d5 = Some d'"
    unfolding remove_child_def Some option.case si(1) Option.bind.bind_lunit cn c'(1) prod.case Let_def d1_def [symmetric]
    by (auto split: Option.bind_splits if_splits)
  have l1: "links d1 = (links d)(self \<mapsto> (a, b, c'))" "d_next_id d1 = d_next_id d"
    using si(2) by (simp_all add: d1_def link_of_def)
  have l2: "links d2 = links d1" "d_next_id d2 = d_next_id d1" using same_links_bump [OF ops(1)] by (simp_all add: same_links_def)
  have l3: "links d3 = (links d)(self \<mapsto> (a, b, c'), child \<mapsto> (None, 0, e))" "d_next_id d3 = d_next_id d"
    using set_parent_link_links [OF ops(2)] l1 l2 L(1) neq by auto
  have "same_links d3 d'"
    using clear_top_layer_links [OF ops(3)] same_links_invalidate [OF ops(4)] ops(6) clear_scroll_links same_links_trans by blast
  then have "links d' = links d3" "d_next_id d' = d_next_id d3" by (simp_all add: same_links_def)
  then show ?thesis using removed [OF Some ops(5) L(2,1) c'(2,3)] l3 neq count by simp
qed

lemma remove_child_wf:
  assumes wf: "dom_wf d" and run: "remove_child self child d = Some (res, d')"
  shows "dom_wf d'"
  using assms
proof (cases rule: remove_child_links)
  case (removed s a b c c' e)
  then show ?thesis using wf_unlink [OF dom_wf_links [OF wf] removed(3,4,5,6)] by (simp add: dom_wf_def)
qed (use wf in simp)

text \<open>Detaching leaves an orphan and no new ancestry.\<close>

lemma detach_links:
  assumes wf: "dom_wf d" and run: "detach_from_parent child d = Some d1" and live: "links d child = Some (q, s, e)"
  obtains "dom_wf d1" "parent_in (links d1) child = None" "d_next_id d1 = d_next_id d" "up (links d1) \<subseteq> up (links d)"
    "\<exists>q s. links d1 child = Some (q, s, e)"
    "\<And>n. n \<noteq> child \<Longrightarrow> map_option (\<lambda>(a, b, _). (a, b)) (links d1 n) = map_option (\<lambda>(a, b, _). (a, b)) (links d n)"
    "\<And>n. slot_seq (children_of d1 n) = filter (\<lambda>(_, m). m \<noteq> child) (slot_seq (children_of d n))"
    "\<And>n. slot_count (children_of d1 n) = slot_count (children_of d n)"
proof (cases "parent_node d child")
  case None
  then have d1: "d1 = d" using run by (simp add: detach_from_parent_def)
  have "filter (\<lambda>(_, m). m \<noteq> child) (slot_seq (children_of d n)) = slot_seq (children_of d n)" for n
  proof (cases "links d n")
    case (Some x)
    then show ?thesis using orphan_no_child [OF dom_wf_links [OF wf]] None
      by (cases x) (force simp: parent_node_links children_of_links intro!: filter_True)
  qed (simp add: children_of_links slot_seq_def)
  then show ?thesis using that wf live None d1 by (simp add: parent_node_links)
next
  case (Some p)
  then obtain res where r: "remove_child p child d = Some (res, d1)" using run by (auto simp: detach_from_parent_def)
  have pl: "links d child = Some (Some p, s, e)" "links d p \<noteq> None"
    using Some live by (auto simp: parent_node_links parent_in_def split: option.splits if_splits)
  then have cs: "child_slot d p child = Some s" using child_slot_iff [OF wf] by blast
  from wf r show ?thesis
  proof (cases rule: remove_child_links)
    case (removed s' a b c c' e')
    have s': "s' = s" "e' = e" using removed(4) pl(1) by auto
    note L = removed(7) [unfolded s']
    have W: "wf_links (links d) (d_next_id d)" by (rule dom_wf_links [OF wf])
    have f: "filter (\<lambda>(i, _). i \<noteq> s) (slot_seq c) = filter (\<lambda>(_, m). m \<noteq> child) (slot_seq c)"
    proof (rule filter_cong [OF refl])
      fix x assume x: "x \<in> set (slot_seq c)"
      obtain i m where im: "x = (i, m)" by force
      have "i = s \<longleftrightarrow> m = child"
      proof
        assume "i = s" then show "m = child" using x im slot_of_child(1) [OF W pl(1) removed(3)]
            get_slot_spec [of c s m] wf_linksD(1) [OF W removed(3)] by simp
      qed (use slot_of_child(2) [OF W pl(1) removed(3)] x im in blast)
      then show "(case x of (i, _) \<Rightarrow> i \<noteq> s) = (case x of (_, m) \<Rightarrow> m \<noteq> child)" using im by simp
    qed
    have other: "filter (\<lambda>(_, m). m \<noteq> child) (slot_seq (children_of d n)) = slot_seq (children_of d n)" if "n \<noteq> p" for n
    proof (cases "links d n")
      case (Some x)
      obtain a' b' c'' where x: "x = (a', b', c'')" by (cases x) auto
      have "(i, child) \<notin> set (slot_seq c'')" for i using wf_linksD(3) [OF W Some [unfolded x], of i child] pl(1) that by auto
      then show ?thesis using Some x by (auto simp: children_of_links intro!: filter_True)
    qed (simp add: children_of_links slot_seq_def)
    have "slot_seq (children_of d1 n) = filter (\<lambda>(_, m). m \<noteq> child) (slot_seq (children_of d n))" for n
    proof (cases "n = p")
      case True
      then show ?thesis using L removed(3,6,9) f s' by (simp add: children_of_links)
    next
      case False
      then have "children_of d1 n = children_of d n" using L pl(1) by (cases "n = child") (simp_all add: children_of_links)
      then show ?thesis using other [OF False] by simp
    qed
    moreover have "up (links d1) \<subseteq> up (links d)" unfolding L by (rule up_unlink [OF removed(3) pl(1)])
    moreover have "slot_count (children_of d1 n) = slot_count (children_of d n)" for n
      using L removed(3,9,10) pl(1) s' by (cases "n = p"; cases "n = child") (simp_all add: children_of_links)
    moreover have "dom_wf d1" by (rule remove_child_wf [OF wf r])
    ultimately show ?thesis using that L removed(3,8,9) by (simp add: parent_in_def)
  qed (use cs in simp)
qed

text \<open>The common end of the two insertions.\<close>

lemma link_child:
  assumes wf: "dom_wf d1" and orphan: "parent_in (links d1) child = None" and L: "links d1 child = Some (q, s, e)" "links d1 self = Some (a, b, c)"
    and below: "(self, child) \<notin> (up (links d1))\<^sup>*" and sp: "set_parent_link child (Some self) d1 = Some d2"
    and c': "children_ok c'" "set (slot_seq c') = insert (ps child, child) (set (slot_seq c))"
    and pc: "put_children self child (ps, c') d2 = Some d3" and tail: "bump_mutation_revision self d3 = Some d4" "invalidate_slot_assignments d4 = Some d5"
  shows "links d5 = (links d1)(self \<mapsto> (a, b, c'), child \<mapsto> (Some self, ps child, e))" "dom_wf d5" "d_next_id d5 = d_next_id d1"
proof -
  have neq: "self \<noteq> child" using below by blast
  have l2: "links d2 = (links d1)(child \<mapsto> (Some self, s, e))" "d_next_id d2 = d_next_id d1" using set_parent_link_links [OF sp] L by auto
  have l3: "links d3 = (links d2)(child \<mapsto> (Some self, ps child, e), self \<mapsto> (a, b, c'))" "d_next_id d3 = d_next_id d2"
  proof -
    obtain ci where ci: "d_nodes d2 child = Some ci" "link_of ci = (Some self, s, e)"
    proof -
      have "links d2 child = Some (Some self, s, e)" using l2(1) by simp
      then show ?thesis using that by (metis links_Some)
    qed
    have "links d2 self = Some (a, b, c)" using l2(1) L(2) neq by simp
    then obtain si where si: "d_nodes d2 self = Some si" "link_of si = (a, b, c)" by (metis links_Some)
    have "d3 = put self (si\<lparr>n_children := c'\<rparr>) (put child (ci\<lparr>n_parent_slot := ps child\<rparr>) d2)"
      using pc ci(1) si(1) neq by (simp add: put_children_def put_def)
    then show "links d3 = (links d2)(child \<mapsto> (Some self, ps child, e), self \<mapsto> (a, b, c'))" "d_next_id d3 = d_next_id d2"
      using ci(2) si(2) by (simp_all add: link_of_def)
  qed
  have "same_links d3 d5" using same_links_bump [OF tail(1)] same_links_invalidate [OF tail(2)] same_links_trans by blast
  then show l5: "links d5 = (links d1)(self \<mapsto> (a, b, c'), child \<mapsto> (Some self, ps child, e))" "d_next_id d5 = d_next_id d1"
    using l3 l2 neq by (auto simp: same_links_def fun_upd_twist)
  show "dom_wf d5" using wf_link [OF dom_wf_links [OF wf] L(2,1) orphan below c'] l5 by (simp add: dom_wf_def)
qed

definition kids_of :: "Dom \<Rightarrow> node \<Rightarrow> node list" where
  "kids_of d n = map snd (slot_seq (children_of d n))"

lemma kids_filter: "map snd (filter (\<lambda>(_, m). m \<noteq> child) xs) = filter (\<lambda>m. m \<noteq> child) (map snd xs)"
  by (induction xs) auto

text \<open>\<open>moved\<close>: the node \<open>child\<close> went from wherever it was to a new place among the children of \<open>self\<close>, and nothing else moved.\<close>

definition moved :: "Dom \<Rightarrow> Dom \<Rightarrow> node \<Rightarrow> node \<Rightarrow> node list \<Rightarrow> bool" where
  "moved d d' self child ks \<longleftrightarrow> kids_of d' self = ks \<and> parent_node d' child = Some self
     \<and> (\<forall>n. n \<noteq> self \<longrightarrow> kids_of d' n = filter (\<lambda>m. m \<noteq> child) (kids_of d n))
     \<and> (\<forall>n. n \<noteq> child \<longrightarrow> parent_node d' n = parent_node d n)
     \<and> (\<forall>n. d_nodes d' n = None \<longleftrightarrow> d_nodes d n = None)"

lemma parent_in_cong:
  assumes "map_option fst (L' n) = map_option fst (L n)" "\<And>m. L' m = None \<longleftrightarrow> L m = None"
  shows "parent_in L' n = parent_in L n"
proof (cases "L n")
  case None
  then show ?thesis using assms(2) [of n] by (simp add: parent_in_def)
next
  case (Some x)
  then obtain y where y: "L' n = Some y" "fst y = fst x" using assms(1) by (cases "L' n") auto
  then show ?thesis using Some assms(2) by (cases x; cases y) (auto simp: parent_in_def split: option.splits)
qed

lemma moved_by_link:
  assumes wf: "dom_wf d" and live: "links d child = Some (q, s, e)" and self: "links d self = Some (a0, b0, c0)"
    and det: "detach_from_parent child d = Some d1"
    and L5: "links d5 = (links d1)(self \<mapsto> (a, b, c'), child \<mapsto> (Some self, i, e))" "links d1 self = Some (a, b, c)" "self \<noteq> child"
  shows "moved d d5 self child (map snd (slot_seq c'))"
  using wf det live
proof (rule detach_links)
  assume D: "parent_in (links d1) child = None" "\<exists>q s. links d1 child = Some (q, s, e)"
    "\<And>n. n \<noteq> child \<Longrightarrow> map_option (\<lambda>(a, b, _). (a, b)) (links d1 n) = map_option (\<lambda>(a, b, _). (a, b)) (links d n)"
    "\<And>n. slot_seq (children_of d1 n) = filter (\<lambda>(_, m). m \<noteq> child) (slot_seq (children_of d n))"
  have dead: "links d5 n = None \<longleftrightarrow> links d n = None" for n
    using L5 D(2) D(3) [of n] live self by (cases "n = child"; cases "n = self") (auto simp: map_option_case split: option.splits)
  have kids: "kids_of d5 n = filter (\<lambda>m. m \<noteq> child) (kids_of d n)" if "n \<noteq> self" for n
  proof -
    have "children_of d5 n = children_of d1 n" using that L5 D(2) by (cases "n = child") (auto simp: children_of_links)
    then show ?thesis using D(4) [of n] by (simp add: kids_of_def kids_filter)
  qed
  have par: "parent_node d5 n = parent_node d n" if "n \<noteq> child" for n
  proof -
    have "map_option (\<lambda>(a, b, _). (a, b)) (links d5 n) = map_option (\<lambda>(a, b, _). (a, b)) (links d n)"
      using D(3) [OF that] that L5 by (cases "n = self") auto
    then have "map_option fst (links d5 n) = map_option fst (links d n)"
      by (cases "links d5 n"; cases "links d n") auto
    then show ?thesis using dead by (auto simp: parent_node_links intro: parent_in_cong)
  qed
  show ?thesis unfolding moved_def
    using kids par dead L5 by (auto simp: kids_of_def children_of_links parent_node_links parent_in_def links_None [symmetric])
qed

section \<open>The insertions\<close>

definition dom_room :: "Dom \<Rightarrow> bool" where
  "dom_room d \<longleftrightarrow> (\<forall>n. children_room (children_of d n))"

lemma detach_room: "dom_wf d \<Longrightarrow> links d child = Some x \<Longrightarrow> detach_from_parent child d = Some d1 \<Longrightarrow> dom_room d \<Longrightarrow> dom_room d1"
  by (cases x) (auto simp: dom_room_def children_room_def elim: detach_links)

lemma rtrancl_mono_not: "(a, b) \<notin> R\<^sup>* \<Longrightarrow> S \<subseteq> R \<Longrightarrow> (a, b) \<notin> S\<^sup>*"
  using rtrancl_mono by blast

lemma append_child_spec:
  assumes wf: "dom_wf d" and room: "dom_room d" and live: "links d self \<noteq> None" "links d child = Some (q, s, e)"
    and run: "append_child self child d = Some d'"
  shows "dom_wf d' \<and> (if (self, child) \<in> (up (links d))\<^sup>* then d' = d
      else moved d d' self child (filter (\<lambda>m. m \<noteq> child) (kids_of d self) @ [child]))"
proof (cases "(self, child) \<in> (up (links d))\<^sup>*")
  case True
  then show ?thesis using run wf is_inclusive_ancestor_spec [OF wf, of child self] by (simp add: append_child_def)
next
  case False
  then have neq: "self \<noteq> child" by blast
  from run False obtain d1 d2 r d3 d4 where ops: "detach_from_parent child d = Some d1" "set_parent_link child (Some self) d1 = Some d2"
    "push child (slots_of d2, children_of d2 self) = Some r" "put_children self child r d2 = Some d3"
    "bump_mutation_revision self d3 = Some d4" "invalidate_slot_assignments d4 = Some d'"
    using is_inclusive_ancestor_spec [OF wf, of child self]
    by (auto simp: append_child_def split: Option.bind_splits)
  obtain ps c' where r: "r = (ps, c')" by force
  from wf ops(1) live(2) show ?thesis
  proof (rule detach_links)
    assume D: "dom_wf d1" "parent_in (links d1) child = None" "up (links d1) \<subseteq> up (links d)" "\<exists>q s. links d1 child = Some (q, s, e)"
      "\<And>n. n \<noteq> child \<Longrightarrow> map_option (\<lambda>(a, b, _). (a, b)) (links d1 n) = map_option (\<lambda>(a, b, _). (a, b)) (links d n)"
      "\<And>n. slot_seq (children_of d1 n) = filter (\<lambda>(_, m). m \<noteq> child) (slot_seq (children_of d n))"
    obtain q1 s1 where L1: "links d1 child = Some (q1, s1, e)" using D(4) by blast
    obtain a b c where L2: "links d1 self = Some (a, b, c)" using D(5) [OF neq] live(1) by (cases "links d1 self") auto
    have c2: "children_of d2 self = c" using set_parent_link_links [OF ops(2)] L2 neq by (auto simp: children_of_links)
    have ok: "children_ok c" using wf_linksD(1) [OF dom_wf_links [OF D(1)] L2] by blast
    have rm: "children_room c" using detach_room [OF wf live(2) ops(1) room] L2 by (auto simp: dom_room_def children_of_links split: option.splits)
    obtain i where p: "ps = (slots_of d2)(child := i)" "children_ok c'" "slot_seq c' = slot_seq c @ [(i, child)]"
      using kids.push [OF ok rm, of child "slots_of d2"] ops(3) r c2 by auto
    have ins: "set (slot_seq c') = insert (ps child, child) (set (slot_seq c))" using p by auto
    note K = link_child [OF D(1,2) L1 L2 rtrancl_mono_not [OF False D(3)] ops(2) p(2) ins ops(4) [unfolded r] ops(5,6)]
    obtain a0 b0 c0 where L0: "links d self = Some (a0, b0, c0)" using live(1) by (cases "links d self") auto
    have "map snd (slot_seq c') = filter (\<lambda>m. m \<noteq> child) (kids_of d self) @ [child]"
      using D(6) [of self] p(3) L2 kids_filter [of child "slot_seq (children_of d self)"] by (simp add: kids_of_def children_of_links)
    then show ?thesis using moved_by_link [OF wf live(2) L0 ops(1) K(1) L2 neq] K(2) False by simp
  qed
qed

text \<open>The place of an insertion: before the reference, or where the reference was when it is itself the node that moves.\<close>

definition place_before :: "node \<Rightarrow> node \<Rightarrow> node list \<Rightarrow> node list" where
  "place_before new ref ks =
     (if new = ref then ks
      else takeWhile (\<lambda>m. m \<noteq> ref) (filter (\<lambda>m. m \<noteq> new) ks) @ new # dropWhile (\<lambda>m. m \<noteq> ref) (filter (\<lambda>m. m \<noteq> new) ks))"

lemma kids_distinct:
  assumes wf: "wf_links L k" and L: "L n = Some (a, b, c)"
  shows "distinct (map snd (slot_seq c))"
proof -
  have "inj_on snd (set (slot_seq c))"
  proof (rule inj_onI)
    fix x y assume xy: "x \<in> set (slot_seq c)" "y \<in> set (slot_seq c)" "snd x = snd y"
    obtain i j m where e: "x = (i, m)" "y = (j, m)" using xy(3) by (metis prod.collapse)
    obtain c1 c2 where "L m = Some (Some n, i, c1)" "L m = Some (Some n, j, c2)"
      using wf_linksD(3) [OF wf L] xy(1,2) e by blast
    then show "x = y" using e by simp
  qed
  moreover have "distinct (slot_seq c)" using slot_seq_distinct [of c] wf_linksD(1) [OF wf L] by (simp add: distinct_map)
  ultimately show ?thesis by (simp add: distinct_map)
qed

lemma split_filter: "filter (\<lambda>(_, m). m \<noteq> n) xs = ys @ (i, r) # zs \<Longrightarrow> distinct (map snd xs) \<Longrightarrow>
    takeWhile (\<lambda>m. m \<noteq> r) (filter (\<lambda>m. m \<noteq> n) (map snd xs)) = map snd ys
  \<and> dropWhile (\<lambda>m. m \<noteq> r) (filter (\<lambda>m. m \<noteq> n) (map snd xs)) = r # map snd zs"
proof -
  assume f: "filter (\<lambda>(_, m). m \<noteq> n) xs = ys @ (i, r) # zs" and d: "distinct (map snd xs)"
  have e: "filter (\<lambda>m. m \<noteq> n) (map snd xs) = map snd ys @ r # map snd zs"
    using kids_filter [of n xs] f by simp
  have "distinct (map snd ys @ r # map snd zs)" using d e distinct_filter by metis
  then have "\<And>x. x \<in> set (map snd ys) \<Longrightarrow> x \<noteq> r" by auto
  then show ?thesis unfolding e
    using takeWhile_append2 [of "map snd ys" "\<lambda>m. m \<noteq> r"] dropWhile_append2 [of "map snd ys" "\<lambda>m. m \<noteq> r"] by simp
qed

text \<open>The reference that insertion uses after the move is a child, and marks the place.\<close>

lemma reference_place:
  assumes wf: "dom_wf d" and cs: "child_slot d self ref = Some t"
    and det: "\<And>n. slot_seq (children_of d1 n) = filter (\<lambda>(_, m). m \<noteq> new) (slot_seq (children_of d n))"
    and ram: "ram = (if new = ref then adjacent (children_of d self) t False else Some ref)"
  shows "case ram of
      None \<Rightarrow> place_before new ref (kids_of d self) = map snd (slot_seq (children_of d1 self)) @ [new]
    | Some r \<Rightarrow> \<exists>xs i ys. slot_seq (children_of d1 self) = xs @ (i, r) # ys
        \<and> place_before new ref (kids_of d self) = map snd xs @ new # r # map snd ys"
proof -
  obtain e a b c where L: "links d ref = Some (Some self, t, e)" "links d self = Some (a, b, c)"
    using cs child_slot_iff [OF wf] by (cases "links d self") auto
  note W = dom_wf_links [OF wf]
  have ok: "children_ok c" and co: "children_of d self = c" using wf_linksD(1) [OF W L(2)] L(2) by (simp_all add: children_of_links)
  obtain xs ys where s: "slot_seq c = xs @ (t, ref) # ys" using kids.slot_split [OF ok slot_of_child(1) [OF W L]] by blast
  have dist: "distinct (map snd (slot_seq c))" by (rule kids_distinct [OF W L(2)])
  show ?thesis
  proof (cases "new = ref")
    case True
    have ref: "\<forall>x\<in>set xs. snd x \<noteq> ref" "\<forall>x\<in>set ys. snd x \<noteq> ref" using dist s by auto
    then have "filter (\<lambda>(_, m). m \<noteq> new) xs = xs" "filter (\<lambda>(_, m). m \<noteq> new) ys = ys"
      using True by (auto simp: case_prod_beta intro!: filter_True)
    then have f: "filter (\<lambda>(_, m). m \<noteq> new) (slot_seq c) = xs @ ys" using s True by simp
    have adj: "ram = (case ys of [] \<Rightarrow> None | y # _ \<Rightarrow> Some (snd y))" using ram True adjacent_spec(2) [OF ok s] co by simp
    have "place_before new ref (kids_of d self) = map snd xs @ new # map snd ys" using True s co by (simp add: place_before_def kids_of_def)
    then show ?thesis using adj f det [of self] co by (cases ys) (auto, metis)
  next
    case False
    have "(t, ref) \<in> set (filter (\<lambda>(_, m). m \<noteq> new) (slot_seq c))" using s False by auto
    then obtain us vs where f: "filter (\<lambda>(_, m). m \<noteq> new) (slot_seq c) = us @ (t, ref) # vs" by (meson split_list)
    then show ?thesis using ram False split_filter [OF f dist] det [of self] co by (auto simp: place_before_def kids_of_def)
  qed
qed

lemma place_child:
  assumes ok: "children_ok c" "children_room c"
    and ks: "case ram of None \<Rightarrow> ks = map snd (slot_seq c) @ [new]
      | Some r \<Rightarrow> \<exists>xs i ys. slot_seq c = xs @ (i, r) # ys \<and> ks = map snd xs @ new # r # map snd ys"
    and rs: "case rs of None \<Rightarrow> ram = None | Some i \<Rightarrow> \<exists>r. ram = Some r \<and> (i, r) \<in> set (slot_seq c)"
    and dist: "distinct (map snd (slot_seq c))"
    and run: "(case rs of Some slot \<Rightarrow> insert_before new slot (p, c) | None \<Rightarrow> push new (p, c)) = Some (ps, c')"
  shows "children_ok c' \<and> set (slot_seq c') = insert (ps new, new) (set (slot_seq c)) \<and> map snd (slot_seq c') = ks"
proof (cases rs)
  case None
  then show ?thesis using kids.push [OF ok, of new p] run ks rs by auto
next
  case (Some i)
  then obtain r where r: "ram = Some r" "(i, r) \<in> set (slot_seq c)" using rs by auto
  then obtain xs j ys where x: "slot_seq c = xs @ (j, r) # ys" "ks = map snd xs @ new # r # map snd ys" using ks by auto
  have "i = j"
  proof -
    have "inj_on snd (set (slot_seq c))" using dist by (simp add: distinct_map)
    then show ?thesis using r(2) x(1) inj_onD [of snd "set (slot_seq c)" "(i, r)" "(j, r)"] by simp
  qed
  then show ?thesis using kids.insert [OF ok x(1), of new p] run Some x by auto
qed

lemma insert_before_spec':
  assumes wf: "dom_wf d" and room: "dom_room d" and live: "links d self \<noteq> None" "links d new = Some (q, s, e)"
    and run: "dom_insert_before self new ref d = Some (res, d')"
  shows "dom_wf d' \<and> (if (self, new) \<in> (up (links d))\<^sup>* then res = Inl HierarchyRequest \<and> d' = d
      else if ref \<notin> set (kids_of d self) then res = Inl ReferenceChildNotFound \<and> d' = d
      else res = Inr () \<and> moved d d' self new (place_before new ref (kids_of d self)))"
proof (cases "(self, new) \<in> (up (links d))\<^sup>*")
  case True
  then show ?thesis using run wf is_inclusive_ancestor_spec [OF wf, of new self] by (simp add: dom_insert_before_def)
next
  case anc: False
  then have neq: "self \<noteq> new" by blast
  note W = dom_wf_links [OF wf]
  obtain a0 b0 c0 where L0: "links d self = Some (a0, b0, c0)" using live(1) by (cases "links d self") auto
  have kid: "ref \<in> set (kids_of d self) \<longleftrightarrow> child_slot d self ref \<noteq> None"
  proof -
    have "(\<exists>t. (t, ref) \<in> set (slot_seq c0)) \<longleftrightarrow> (\<exists>t e. links d ref = Some (Some self, t, e))"
      using wf_linksD(3) [OF W L0] wf_linksD(4) [OF W _ L0] by blast
    then show ?thesis using child_slot_iff [OF wf, of self ref] L0 by (force simp: kids_of_def children_of_links)
  qed
  show ?thesis
  proof (cases "child_slot d self ref")
    case None
    then show ?thesis using run wf anc kid is_inclusive_ancestor_spec [OF wf, of new self] by (simp add: dom_insert_before_def)
  next
    case (Some t)
    define ram where "ram = (if new = ref then adjacent (children_of d self) t False else Some ref)"
    from run anc Some obtain d1 where d1: "detach_from_parent new d = Some d1"
      using is_inclusive_ancestor_spec [OF wf, of new self] by (auto simp: dom_insert_before_def split: Option.bind_splits)
    from wf d1 live(2) show ?thesis
    proof (rule detach_links)
      assume D: "dom_wf d1" "parent_in (links d1) new = None" "up (links d1) \<subseteq> up (links d)" "\<exists>q s. links d1 new = Some (q, s, e)"
        "\<And>n. n \<noteq> new \<Longrightarrow> map_option (\<lambda>(a, b, _). (a, b)) (links d1 n) = map_option (\<lambda>(a, b, _). (a, b)) (links d n)"
        "\<And>n. slot_seq (children_of d1 n) = filter (\<lambda>(_, m). m \<noteq> new) (slot_seq (children_of d n))"
      note R = reference_place [OF wf Some D(6) ram_def]
      obtain q1 s1 where L1: "links d1 new = Some (q1, s1, e)" using D(4) by blast
      obtain a b c where L2: "links d1 self = Some (a, b, c)" using D(5) [OF neq] live(1) by (cases "links d1 self") auto
      have c1: "children_of d1 self = c" using L2 by (simp add: children_of_links)
      have ok: "children_ok c" using wf_linksD(1) [OF dom_wf_links [OF D(1)] L2] by blast
      have rm: "children_room c" using detach_room [OF wf live(2) d1 room] c1 by (auto simp: dom_room_def)
      have slot: "\<exists>i. child_slot d1 self r = Some i \<and> (i, r) \<in> set (slot_seq c)" if r: "ram = Some r" for r
      proof -
        obtain xs i ys where i: "slot_seq c = xs @ (i, r) # ys" using R r c1 by auto
        then have "(i, r) \<in> set (slot_seq c)" by simp
        then show ?thesis using wf_linksD(3) [OF dom_wf_links [OF D(1)] L2] child_slot_iff [OF D(1)] L2 by blast
      qed
      obtain rs where rs: "(case ram of None \<Rightarrow> Inr None | Some reference \<Rightarrow> (case child_slot d1 self reference of
            None \<Rightarrow> Inl ReferenceChildNotFound | Some slot \<Rightarrow> Inr (Some slot))) = (Inr rs :: DomError + nat option)"
        "case rs of None \<Rightarrow> ram = None | Some i \<Rightarrow> \<exists>r. ram = Some r \<and> (i, r) \<in> set (slot_seq c)"
      proof (cases ram)
        case None
        then show ?thesis using that [of None] by simp
      next
        case r: (Some r)
        then obtain i where "child_slot d1 self r = Some i" "(i, r) \<in> set (slot_seq c)" using slot by blast
        then show ?thesis using that [of "Some i"] r by simp
      qed
      have run': "Option.bind (set_parent_link new (Some self) d1) (\<lambda>d2.
            Option.bind (case rs of Some slot \<Rightarrow> insert_before new slot (slots_of d2, children_of d2 self)
                | None \<Rightarrow> push new (slots_of d2, children_of d2 self)) (\<lambda>r.
              Option.bind (put_children self new r d2) (\<lambda>d3. Option.bind (bump_mutation_revision self d3) (\<lambda>d4.
                map_option (\<lambda>d5. (Inr (), d5)) (invalidate_slot_assignments d4))))) = Some (res, d')"
        using run anc Some d1 is_inclusive_ancestor_spec [OF wf, of new self] rs(1)
        by (simp add: dom_insert_before_def Let_def ram_def [symmetric])
      then obtain d2 where d2: "set_parent_link new (Some self) d1 = Some d2" by (auto split: Option.bind_splits)
      have c2: "children_of d2 self = c" using set_parent_link_links [OF d2] L2 neq by (auto simp: children_of_links)
      from run' [unfolded d2 Option.bind.bind_lunit c2] obtain r d3 d4 where
        ops: "(case rs of Some slot \<Rightarrow> insert_before new slot (slots_of d2, c) | None \<Rightarrow> push new (slots_of d2, c)) = Some r"
        "put_children self new r d2 = Some d3" "bump_mutation_revision self d3 = Some d4" "invalidate_slot_assignments d4 = Some d'" "res = Inr ()"
        by (auto split: Option.bind_splits)
      obtain ps c' where r: "r = (ps, c')" by force
      have new: "children_ok c' \<and> set (slot_seq c') = insert (ps new, new) (set (slot_seq c))
          \<and> map snd (slot_seq c') = place_before new ref (kids_of d self)"
        by (rule place_child [OF ok rm R [unfolded c1] rs(2) kids_distinct [OF dom_wf_links [OF D(1)] L2] ops(1) [unfolded r]])
      have K: "links d' = (links d1)(self \<mapsto> (a, b, c'), new \<mapsto> (Some self, ps new, e))" "dom_wf d'"
        using link_child [OF D(1,2) L1 L2 rtrancl_mono_not [OF anc D(3)] d2 _ _ ops(2) [unfolded r] ops(3,4)] new by blast+
      have "moved d d' self new (place_before new ref (kids_of d self))"
        using moved_by_link [OF wf live(2) L0 d1 K(1) L2 neq] new by simp
      then show ?thesis using K(2) anc kid Some ops(5) by simp
    qed
  qed
qed

end
