(* ===== verification/DomWalk.thy ===== *)
theory DomWalk
  imports DomInvariant
begin

text \<open>
  The walks over a detached subtree: what they visit, that they keep the tree, and when they
  return.  The edges of a walk lead from a node to its template contents, its shadow root and its
  children.
\<close>

section \<open>The edges of a walk\<close>

definition edges :: "Dom \<Rightarrow> (node \<times> node) set" where
  "edges d = {(n, m). m \<in> set (inner_nodes d n) \<or> m \<in> set (kids_of d n)}"

definition same_shape :: "Dom \<Rightarrow> Dom \<Rightarrow> bool" where
  "same_shape d d' \<longleftrightarrow> same_links d d' \<and> (\<forall>n. inner_nodes d' n = inner_nodes d n)"

lemma same_shape_refl [simp]: "same_shape d d"
  by (simp add: same_shape_def)

lemma same_shape_trans [trans]: "same_shape a b \<Longrightarrow> same_shape b c \<Longrightarrow> same_shape a c"
  by (auto simp: same_shape_def intro: same_links_trans)

lemma same_shape_kids: "same_shape d d' \<Longrightarrow> kids_of d' n = kids_of d n"
  using same_links_queries(2) [of d d' n] by (simp add: same_shape_def kids_of_def)

lemma same_shape_edges: "same_shape d d' \<Longrightarrow> edges d' = edges d"
  by (simp add: edges_def same_shape_kids) (simp add: same_shape_def)

lemma same_shape_wf: "same_shape d d' \<Longrightarrow> dom_wf d \<Longrightarrow> dom_wf d'"
  using same_links_wf [of d d'] by (simp add: same_shape_def)

lemma iter_collect_ok:
  "iter_ok it is \<Longrightarrow> iter_collect (Suc (length is)) it = Some (map (\<lambda>i. the (sl_node (it_slots it ! i))) is)"
proof (induction "is" arbitrary: it)
  case Nil
  then show ?case by (simp add: iter_ok_def iter_next_def)
next
  case (Cons i xs)
  obtain it' where "iter_next it = Some (Some (the (sl_node (it_slots it ! i))), it')" "iter_ok it' xs" "it_slots it' = it_slots it"
    using iter_next_ok(1) [OF Cons.prems] by auto
  then show ?case using Cons.IH [of it'] by simp
qed

lemma child_nodes_kids:
  assumes "dom_wf d"
  shows "child_nodes d n = Some (kids_of d n)"
proof -
  have ok: "children_ok (children_of d n)"
  proof (cases "links d n")
    case (Some x)
    then show ?thesis using wf_linksD(1) [OF dom_wf_links [OF assms]] by (cases x) (auto simp: children_of_links)
  qed (simp add: children_of_links children_ok_def)
  obtain "is" where i: "iter_ok (iter (children_of d n)) is"
    "map snd (slot_seq (children_of d n)) = map (\<lambda>i. the (sl_node (it_slots (iter (children_of d n)) ! i))) is"
    using iter_ok_iter [OF ok] by blast
  have "length is = children_len (children_of d n)"
    using children_len_spec [OF ok] i(2) by (metis length_map)
  then show ?thesis using iter_collect_ok [OF i(1)] i(2) by (simp add: child_nodes_def kids_of_def)
qed

section \<open>Walks in general\<close>

text \<open>\<open>visit\<close> is what a walk does at a node, \<open>done_at\<close> what it leaves behind there.\<close>

locale subtree_walk =
  fixes visit :: "node \<Rightarrow> Dom \<Rightarrow> Dom" and walk :: "nat \<Rightarrow> node \<Rightarrow> Dom \<Rightarrow> Dom option" and done_at :: "Dom \<Rightarrow> node \<Rightarrow> bool"
  assumes walk_0: "walk 0 n d = None"
    and walk_Suc: "walk (Suc k) n d =
      Option.bind (fold_opt (walk k) (inner_nodes (visit n d) n) (visit n d)) (\<lambda>d2.
        Option.bind (child_nodes d2 n) (\<lambda>cs. fold_opt (walk k) cs d2))"
    and visit_shape: "same_shape d (visit n d)"
    and visit_done: "done_at (visit n d) n"
    and visit_keeps: "done_at d m \<Longrightarrow> done_at (visit n d) m"
begin

lemma walk_parts:
  assumes "walk (Suc k) n d = Some d'"
  obtains d2 cs where "fold_opt (walk k) (inner_nodes d n) (visit n d) = Some d2" "child_nodes d2 n = Some cs"
    "fold_opt (walk k) cs d2 = Some d'"
proof -
  have "inner_nodes (visit n d) n = inner_nodes d n" using visit_shape [of d n] by (simp add: same_shape_def)
  then show ?thesis using assms that by (auto simp: walk_Suc split: Option.bind_splits)
qed

text \<open>What every visit does, a walk does.\<close>

lemma walk_rel:
  assumes R: "\<And>d. R d d" "\<And>a b c. R a b \<Longrightarrow> R b c \<Longrightarrow> R a c" "\<And>n d. R d (visit n d)"
  shows "walk k n d = Some d' \<Longrightarrow> R d d'" "fold_opt (walk k) xs d = Some d' \<Longrightarrow> R d d'"
proof -
  have fold: "fold_opt (walk j) xs d = Some d' \<longrightarrow> R d d'" if w: "\<forall>x s s'. walk j x s = Some s' \<longrightarrow> R s s'" for j xs d d'
  proof (induction xs arbitrary: d)
    case (Cons x xs)
    show ?case
    proof
      assume "fold_opt (walk j) (x # xs) d = Some d'"
      then obtain e where e: "walk j x d = Some e" "fold_opt (walk j) xs e = Some d'" by (auto split: Option.bind_splits)
      then show "R d d'" using w Cons.IH R(2) by blast
    qed
  qed (simp add: R(1))
  have all: "\<forall>n d d'. walk j n d = Some d' \<longrightarrow> R d d'" for j
  proof (induction j)
    case (Suc j)
    show ?case
    proof (intro allI impI)
      fix n d d' assume "walk (Suc j) n d = Some d'"
      then obtain d2 cs where d2: "fold_opt (walk j) (inner_nodes d n) (visit n d) = Some d2" "fold_opt (walk j) cs d2 = Some d'"
        by (rule walk_parts)
      then show "R d d'" using fold [OF Suc] R(2,3) by blast
    qed
  qed (simp add: walk_0)
  show "walk k n d = Some d' \<Longrightarrow> R d d'" using all by blast
  show "fold_opt (walk k) xs d = Some d' \<Longrightarrow> R d d'" using fold [OF all] by blast
qed

lemma walk_shape: "walk k n d = Some d' \<Longrightarrow> same_shape d d'"
  by (rule walk_rel(1) [where R = same_shape]) (blast intro: same_shape_refl same_shape_trans visit_shape)+

lemma fold_walk_shape: "fold_opt (walk k) xs d = Some d' \<Longrightarrow> same_shape d d'"
  by (rule walk_rel(2) [where R = same_shape]) (blast intro: same_shape_refl same_shape_trans visit_shape)+

lemma fold_walk_keeps: "fold_opt (walk k) xs d = Some d' \<Longrightarrow> done_at d m \<Longrightarrow> done_at d' m"
  using walk_rel(2) [of "\<lambda>a b. \<forall>m. done_at a m \<longrightarrow> done_at b m"] visit_keeps by blast

lemma walk_SucE:
  assumes "dom_wf d" "walk (Suc k) n d = Some d'"
  obtains d2 where "fold_opt (walk k) (inner_nodes d n) (visit n d) = Some d2" "fold_opt (walk k) (kids_of d n) d2 = Some d'"
    "same_shape d (visit n d)" "same_shape d d2"
proof -
  obtain d2 cs where d2: "fold_opt (walk k) (inner_nodes d n) (visit n d) = Some d2" "child_nodes d2 n = Some cs"
    "fold_opt (walk k) cs d2 = Some d'" using assms(2) by (rule walk_parts)
  have sh: "same_shape d d2" by (rule same_shape_trans [OF visit_shape fold_walk_shape [OF d2(1)]])
  have "cs = kids_of d n" using d2(2) child_nodes_kids [OF same_shape_wf [OF sh assms(1)]] same_shape_kids [OF sh] by simp
  then show ?thesis using that d2 visit_shape sh by blast
qed

lemma fold_reaches:
  assumes "x \<in> set xs" "fold_opt (walk k) xs d = Some d'"
  shows "\<exists>s s'. same_shape d s \<and> walk k x s = Some s' \<and> (\<forall>m. done_at s' m \<longrightarrow> done_at d' m)"
  using assms
proof (induction xs arbitrary: d)
  case (Cons y xs)
  from Cons.prems(2) obtain e where e: "walk k y d = Some e" "fold_opt (walk k) xs e = Some d'" by (auto split: Option.bind_splits)
  show ?case
  proof (cases "x = y")
    case True
    then show ?thesis using e fold_walk_keeps [OF e(2)] same_shape_refl by blast
  next
    case False
    then have "x \<in> set xs" using Cons.prems(1) by simp
    from Cons.IH [OF this e(2)] show ?thesis using walk_shape [OF e(1)] same_shape_trans by blast
  qed
qed simp

text \<open>A walk that returns has visited everything below its node.\<close>

lemma walk_reaches: "dom_wf d \<Longrightarrow> walk k n d = Some d' \<Longrightarrow> (n, m) \<in> (edges d)\<^sup>* \<Longrightarrow> done_at d' m"
proof (induction k arbitrary: n d d')
  case 0
  then show ?case by (simp add: walk_0)
next
  case (Suc k)
  from Suc.prems(1,2) obtain d2 where d2: "fold_opt (walk k) (inner_nodes d n) (visit n d) = Some d2"
    "fold_opt (walk k) (kids_of d n) d2 = Some d'" "same_shape d (visit n d)" "same_shape d d2" by (rule walk_SucE)
  from Suc.prems(3) show ?case
  proof (cases rule: converse_rtranclE)
    case base
    then show ?thesis using fold_walk_keeps [OF d2(2)] fold_walk_keeps [OF d2(1)] visit_done by blast
  next
    case (step x)
    have below: "done_at s' m" if "same_shape d s" "walk k x s = Some s'" for s s'
      using Suc.IH [OF same_shape_wf [OF that(1) Suc.prems(1)] that(2)] step(2) same_shape_edges [OF that(1)] by simp
    from step(1) consider "x \<in> set (inner_nodes d n)" | "x \<in> set (kids_of d n)" by (auto simp: edges_def)
    then show ?thesis
    proof cases
      case 1
      obtain s s' where s: "same_shape (visit n d) s" "walk k x s = Some s'" "\<forall>m. done_at s' m \<longrightarrow> done_at d2 m"
        using fold_reaches [OF 1 d2(1)] by blast
      then have "done_at d2 m" using below [OF same_shape_trans [OF d2(3) s(1)] s(2)] by blast
      then show ?thesis using fold_walk_keeps [OF d2(2)] by blast
    next
      case 2
      obtain s s' where s: "same_shape d2 s" "walk k x s = Some s'" "\<forall>m. done_at s' m \<longrightarrow> done_at d' m"
        using fold_reaches [OF 2 d2(2)] by blast
      then show ?thesis using below [OF same_shape_trans [OF d2(4) s(1)] s(2)] by blast
    qed
  qed
qed

text \<open>A walk that returns follows every edge; where each node of a set has an edge into the set, it never returns.\<close>

lemma walk_step:
  assumes "dom_wf d" "walk (Suc k) n d = Some d'" "(n, x) \<in> edges d"
  shows "\<exists>s s'. same_shape d s \<and> walk k x s = Some s'"
proof -
  from assms(1,2) obtain d2 where d2: "fold_opt (walk k) (inner_nodes d n) (visit n d) = Some d2"
    "fold_opt (walk k) (kids_of d n) d2 = Some d'" "same_shape d (visit n d)" "same_shape d d2" by (rule walk_SucE)
  from assms(3) consider "x \<in> set (inner_nodes d n)" | "x \<in> set (kids_of d n)" by (auto simp: edges_def)
  then show ?thesis
    using fold_reaches [OF _ d2(1), of x] fold_reaches [OF _ d2(2), of x] same_shape_trans d2(3,4) by cases blast+
qed

lemma walk_diverges:
  assumes "dom_wf d" "\<And>y. y \<in> S \<Longrightarrow> \<exists>z\<in>S. (y, z) \<in> edges d"
  shows "same_shape d s \<Longrightarrow> n \<in> S \<Longrightarrow> walk k n s = None"
proof (induction k arbitrary: n s)
  case 0
  then show ?case by (simp add: walk_0)
next
  case (Suc k)
  show ?case
  proof (rule ccontr)
    assume "walk (Suc k) n s \<noteq> None"
    then obtain s' where s': "walk (Suc k) n s = Some s'" by blast
    obtain z where z: "z \<in> S" "(n, z) \<in> edges d" using assms(2) Suc.prems(2) by blast
    then have "(n, z) \<in> edges s" using same_shape_edges [OF Suc.prems(1)] by simp
    from walk_step [OF same_shape_wf [OF Suc.prems(1) assms(1)] s' this] obtain t t' where
      t: "same_shape s t" "walk k z t = Some t'" by blast
    have "walk k z t = None" by (rule Suc.IH [OF same_shape_trans [OF Suc.prems(1) t(1)] z(1)])
    then show False using t(2) by simp
  qed
qed

lemma fold_returns:
  assumes "\<And>x s. x \<in> set xs \<Longrightarrow> same_shape d s \<Longrightarrow> \<exists>s'. walk k x s = Some s'"
  shows "\<exists>d'. fold_opt (walk k) xs d = Some d'"
proof -
  have "\<And>e. same_shape d e \<Longrightarrow> (\<And>x. x \<in> set ys \<Longrightarrow> x \<in> set xs) \<Longrightarrow> \<exists>d'. fold_opt (walk k) ys e = Some d'" for ys
  proof (induction ys)
    case (Cons y ys)
    obtain e' where e': "walk k y e = Some e'" using assms [of y e] Cons.prems by auto
    then have "same_shape d e'" using walk_shape same_shape_trans Cons.prems(1) by blast
    then show ?case using Cons.IH Cons.prems(2) e' by fastforce
  qed simp
  then show ?thesis using same_shape_refl by blast
qed

text \<open>A walk returns when nothing below its node lies on a cycle.\<close>

lemma walk_returns:
  assumes fin: "\<And>n. finite {m. (n, m) \<in> E\<^sup>*}"
  shows "dom_wf d \<Longrightarrow> edges d = E \<Longrightarrow> (\<And>m. (n, m) \<in> E\<^sup>* \<Longrightarrow> (m, m) \<notin> E\<^sup>+) \<Longrightarrow> card {m. (n, m) \<in> E\<^sup>*} < Suc k \<Longrightarrow>
    \<exists>d'. walk (Suc k) n d = Some d'"
proof (induction k arbitrary: n d)
  case 0
  then have "{m. (n, m) \<in> E\<^sup>*} = {}" using fin by auto
  then show ?case by blast
next
  case (Suc k)
  have below: "\<exists>s'. walk (Suc k) x s = Some s'" if x: "(n, x) \<in> E" and s: "same_shape d s" for x s
  proof (rule Suc.IH)
    show "dom_wf s" by (rule same_shape_wf [OF s Suc.prems(1)])
    show "edges s = E" using same_shape_edges [OF s] Suc.prems(2) by simp
    show "(m, m) \<notin> E\<^sup>+" if "(x, m) \<in> E\<^sup>*" for m by (rule Suc.prems(3)) (use x that in \<open>meson converse_rtrancl_into_rtrancl\<close>)
    have "n \<notin> {m. (x, m) \<in> E\<^sup>*}" using Suc.prems(3) [of n] x by (auto dest: rtrancl_into_trancl2)
    moreover have "{m. (x, m) \<in> E\<^sup>*} \<subseteq> {m. (n, m) \<in> E\<^sup>*}" using x by (auto intro: converse_rtrancl_into_rtrancl)
    ultimately have "{m. (x, m) \<in> E\<^sup>*} \<subset> {m. (n, m) \<in> E\<^sup>*}" by blast
    then show "card {m. (x, m) \<in> E\<^sup>*} < Suc k" using psubset_card_mono [OF fin] Suc.prems(4) by (meson less_Suc_eq_le order_less_le_trans)
  qed
  have E: "(n, x) \<in> E" if "x \<in> set (inner_nodes d n) \<or> x \<in> set (kids_of d n)" for x
    using that Suc.prems(2) by (auto simp: edges_def)
  have inner: "inner_nodes (visit n d) n = inner_nodes d n" using visit_shape [of d n] by (simp add: same_shape_def)
  obtain d2 where d2: "fold_opt (walk (Suc k)) (inner_nodes d n) (visit n d) = Some d2"
    using fold_returns [of "inner_nodes d n" "visit n d" "Suc k"] below E visit_shape same_shape_trans by metis
  have sh: "same_shape d d2" using fold_walk_shape [OF d2] visit_shape same_shape_trans by blast
  obtain d' where d': "fold_opt (walk (Suc k)) (kids_of d n) d2 = Some d'"
    using fold_returns [of "kids_of d n" d2 "Suc k"] below E sh same_shape_trans by metis
  have "child_nodes d2 n = Some (kids_of d n)" using child_nodes_kids [OF same_shape_wf [OF sh Suc.prems(1)]] same_shape_kids [OF sh] by simp
  then show ?case using d2 d' by (simp add: walk_Suc inner)
qed

end

end
