(* ===== verification/DomResets.thy ===== *)
theory DomResets
  imports DomWalk
begin

text \<open>
  What the walks over a detached subtree reset, and the count of scrolled elements that lets
  removal skip the second one.
\<close>

section \<open>Setters are local\<close>

lemma element_of_put: "element_of (put n i d) m = (if m = n then (case n_data i of ElementData e \<Rightarrow> Some e | _ \<Rightarrow> None) else element_of d m)"
  by (simp add: element_of_def put_def)

lemma element_of_set_element [simp]:
  "element_of (set_element n f d) m = (if m = n then map_option f (element_of d n) else element_of d m)"
  by (auto simp: set_element_def put_def element_of_def split: option.splits NodeData.splits)

lemma element_of_counters [simp]:
  "element_of (d\<lparr>d_scrolled := a\<rparr>) m = element_of d m" "element_of (d\<lparr>d_modal := a\<rparr>) m = element_of d m"
  "element_of (d\<lparr>d_next_order := a\<rparr>) m = element_of d m" "element_of (d\<lparr>d_slot_epoch := a\<rparr>) m = element_of d m"
  "element_of (d\<lparr>d_tree_epoch := a\<rparr>) m = element_of d m" "element_of (d\<lparr>d_live_epoch := a\<rparr>) m = element_of d m"
  by (simp_all add: element_of_def)

lemmas setter_defs = set_popover_open_def set_picker_open_def set_modal_dialog_def set_fullscreen_def set_scroll_offset_def

lemma setters_local:
  "m \<noteq> n \<Longrightarrow> element_of (set_popover_open n b d) m = element_of d m"
  "m \<noteq> n \<Longrightarrow> element_of (set_picker_open n b d) m = element_of d m"
  "m \<noteq> n \<Longrightarrow> element_of (set_modal_dialog n b d) m = element_of d m"
  "m \<noteq> n \<Longrightarrow> element_of (set_fullscreen n b d) m = element_of d m"
  "m \<noteq> n \<Longrightarrow> element_of (set_scroll_offset n x y d) m = element_of d m"
  by (cases "element_of d n"; simp add: setter_defs Let_def)+

text \<open>What no setter touches: the links, the template contents, the shadow root, and what decides whether a picker may open.\<close>

definition has_picker :: "Element \<Rightarrow> bool" where
  "has_picker e \<longleftrightarrow> (e_html e \<or> e_namespace_uri e = Some ''http://www.w3.org/1999/xhtml'') \<and> element_local_name e \<in> {''input'', ''select''}"

definition stable :: "Element \<Rightarrow> string \<times> string option \<times> string option \<times> string \<times> bool \<times> node option \<times> node option" where
  "stable e = (e_tag_name e, e_namespace_uri e, e_prefix e, e_local_name e, e_html e, e_template_content e, e_shadow_root e)"

lemma inner_nodes_stable:
  "map_option stable (element_of d' n) = map_option stable (element_of d n) \<Longrightarrow> inner_nodes d' n = inner_nodes d n"
  by (cases "element_of d n"; cases "element_of d' n") (simp_all add: inner_nodes_def template_content_def shadow_root_def stable_def)

lemma has_picker_stable: "stable e' = stable e \<Longrightarrow> has_picker e' = has_picker e"
  by (simp add: stable_def has_picker_def element_local_name_def)

lemma setters_stable:
  "map_option stable (element_of (set_popover_open n b d) m) = map_option stable (element_of d m)"
  "map_option stable (element_of (set_picker_open n b d) m) = map_option stable (element_of d m)"
  "map_option stable (element_of (set_modal_dialog n b d) m) = map_option stable (element_of d m)"
  "map_option stable (element_of (set_fullscreen n b d) m) = map_option stable (element_of d m)"
  "map_option stable (element_of (set_scroll_offset n x y d) m) = map_option stable (element_of d m)"
  by (cases "m = n"; cases "element_of d n"; simp add: setter_defs Let_def stable_def)+

lemma shapeI: "same_links d d' \<Longrightarrow> (\<And>m. map_option stable (element_of d' m) = map_option stable (element_of d m)) \<Longrightarrow> same_shape d d'"
  unfolding same_shape_def using inner_nodes_stable by blast

lemma setters_shape:
  "same_shape d (set_popover_open n b d)" "same_shape d (set_picker_open n b d)" "same_shape d (set_modal_dialog n b d)"
  "same_shape d (set_fullscreen n b d)" "same_shape d (set_scroll_offset n x y d)"
  by (simp_all add: shapeI same_links_setters setters_stable)

section \<open>The top layer walk\<close>

definition visit_top :: "node \<Rightarrow> Dom \<Rightarrow> Dom" where
  "visit_top n d = set_fullscreen n False (set_modal_dialog n False (set_picker_open n False (set_popover_open n False d)))"

definition top_clear :: "Dom \<Rightarrow> node \<Rightarrow> bool" where
  "top_clear d n \<longleftrightarrow> (\<forall>e. element_of d n = Some e \<longrightarrow>
     \<not> e_popover_open e \<and> \<not> e_modal_dialog e \<and> \<not> e_fullscreen e \<and> e_top_layer_order e = None \<and> (has_picker e \<longrightarrow> \<not> e_picker_open e))"

lemma visit_top_local: "m \<noteq> n \<Longrightarrow> element_of (visit_top n d) m = element_of d m"
  by (simp add: visit_top_def setters_local)

lemma visit_top_shape: "same_shape d (visit_top n d)"
  unfolding visit_top_def by (meson same_shape_trans setters_shape)

lemma visit_top_element:
  assumes "element_of d n = Some e"
  shows "\<exists>e'. element_of (visit_top n d) n = Some e' \<and> \<not> e_popover_open e' \<and> \<not> e_modal_dialog e' \<and> \<not> e_fullscreen e'
    \<and> e_top_layer_order e' = None \<and> (has_picker e' \<longrightarrow> \<not> e_picker_open e') \<and> e_scroll_offset e' = e_scroll_offset e"
proof -
  let ?d1 = "set_popover_open n False d" and ?d2 = "set_picker_open n False (set_popover_open n False d)"
  have "\<exists>a. element_of ?d1 n = Some a \<and> \<not> e_popover_open a \<and> e_scroll_offset a = e_scroll_offset e"
    using assms by (simp add: set_popover_open_def)
  then have "\<exists>b. element_of ?d2 n = Some b \<and> \<not> e_popover_open b \<and> (has_picker b \<longrightarrow> \<not> e_picker_open b) \<and> e_scroll_offset b = e_scroll_offset e"
    by (elim exE) (auto simp: set_picker_open_def has_picker_def element_local_name_def)
  then have "\<exists>c. element_of (set_modal_dialog n False ?d2) n = Some c \<and> \<not> e_popover_open c \<and> \<not> e_modal_dialog c
      \<and> (has_picker c \<longrightarrow> \<not> e_picker_open c) \<and> e_scroll_offset c = e_scroll_offset e"
    by (elim exE) (simp add: set_modal_dialog_def Let_def has_picker_def element_local_name_def)
  then show ?thesis
    by (elim exE) (simp add: visit_top_def set_fullscreen_def has_picker_def element_local_name_def)
qed

lemma visit_top_none: "element_of (visit_top n d) n = None \<longleftrightarrow> element_of d n = None"
proof -
  have "map_option stable (element_of (visit_top n d) n) = map_option stable (element_of d n)"
    by (simp add: visit_top_def setters_stable)
  then show ?thesis by (metis option.map_disc_iff)
qed

lemma visit_top_done: "top_clear (visit_top n d) n"
  using visit_top_element [of d n] visit_top_none [of n d] by (cases "element_of d n") (auto simp: top_clear_def)

lemma top_clear_local: "element_of d' m = element_of d m \<Longrightarrow> top_clear d' m = top_clear d m"
  by (simp add: top_clear_def)

interpretation top_walk: subtree_walk visit_top clear_top_layer_state top_clear
proof unfold_locales
  fix n m d
  assume "top_clear d m"
  then show "top_clear (visit_top n d) m"
    using visit_top_done visit_top_local top_clear_local by (cases "m = n") blast+
qed (simp_all add: visit_top_def [symmetric] visit_top_shape visit_top_done Let_def)

section \<open>The scroll walk\<close>

definition visit_scroll :: "node \<Rightarrow> Dom \<Rightarrow> Dom" where
  "visit_scroll n d = (if \<not> is_origin (scroll_offset d n) then set_scroll_offset n 0 0 d else d)"

definition unscrolled :: "Dom \<Rightarrow> node \<Rightarrow> bool" where
  "unscrolled d n \<longleftrightarrow> is_origin (scroll_offset d n)"

lemma origin [simp]: "is_origin (0, 0)"
  by (simp add: is_origin_def f32_is_zero_def)

lemma scroll_offset_set: "scroll_offset (set_scroll_offset n x y d) m = (if m = n \<and> element_of d n \<noteq> None then (x, y) else scroll_offset d m)"
  by (simp add: scroll_offset_def set_scroll_offset_def Let_def split: option.splits)

interpretation scroll_walk: subtree_walk visit_scroll clear_scroll_offsets unscrolled
proof unfold_locales
  fix n d
  show "same_shape d (visit_scroll n d)" by (simp add: visit_scroll_def setters_shape)
  have "element_of d n = None \<Longrightarrow> is_origin (scroll_offset d n)" by (simp add: scroll_offset_def)
  then show "unscrolled (visit_scroll n d) n" by (auto simp: unscrolled_def visit_scroll_def scroll_offset_set)
next
  fix n m d
  show "unscrolled d m \<Longrightarrow> unscrolled (visit_scroll n d) m" by (auto simp: unscrolled_def visit_scroll_def scroll_offset_set)
qed (simp_all add: visit_scroll_def Let_def)

end
