(* ===== verification/DomReach.thy ===== *)
theory DomReach
  imports DomResets
begin

text \<open>
  The states that the operations on nodes reach, and what holds in all of them: the tree invariant, that
  template contents and shadow roots belong to one element and have no parent, that only
  pickers are open, and that the count of scrolled elements never undercounts.
\<close>

section \<open>Invariants beside the tree\<close>

definition is_container :: "NodeData \<Rightarrow> bool" where
  "is_container data \<longleftrightarrow> (case data of DocumentFragmentData \<Rightarrow> True | ShadowRootData _ \<Rightarrow> True | _ \<Rightarrow> False)"

definition container :: "Dom \<Rightarrow> node \<Rightarrow> bool" where
  "container d n \<longleftrightarrow> (\<exists>i. d_nodes d n = Some i \<and> is_container (n_data i))"

text \<open>The element that a shadow root names as its host, and the templates whose contents are a shadow root.\<close>

definition root_host :: "Dom \<Rightarrow> node \<Rightarrow> node option" where
  "root_host d m = Option.bind (d_nodes d m) (\<lambda>i. case n_data i of ShadowRootData h \<Rightarrow> Some h | _ \<Rightarrow> None)"

definition declarative :: "Dom \<Rightarrow> node \<Rightarrow> bool" where
  "declarative d n \<longleftrightarrow> (\<exists>c h. template_content d n = Some c \<and> root_host d c = Some h)"

lemma inner_nodes_iff: "m \<in> set (inner_nodes d n) \<longleftrightarrow> template_content d n = Some m \<or> shadow_root d n = Some m"
  by (auto simp: inner_nodes_def split: option.splits)

definition inner_ok :: "Dom \<Rightarrow> bool" where
  "inner_ok d \<longleftrightarrow>
     (\<forall>n m. m \<in> set (inner_nodes d n) \<longrightarrow> container d m \<and> parent_node d m = None)
     \<and> (\<forall>n n' m. template_content d n = Some m \<longrightarrow> template_content d n' = Some m \<longrightarrow> n' = n)
     \<and> (\<forall>n m. shadow_root d n = Some m \<longrightarrow> root_host d m = Some n)"

definition declared_ok :: "Dom \<Rightarrow> bool" where
  "declared_ok d \<longleftrightarrow> (\<forall>n. declarative d n \<longrightarrow> parent_node d n = None)"

lemma inner_okD:
  assumes "inner_ok d"
  shows "m \<in> set (inner_nodes d n) \<Longrightarrow> container d m" "m \<in> set (inner_nodes d n) \<Longrightarrow> parent_node d m = None"
    "template_content d n = Some m \<Longrightarrow> template_content d n' = Some m \<Longrightarrow> n' = n"
    "shadow_root d n = Some m \<Longrightarrow> root_host d m = Some n"
  using assms unfolding inner_ok_def by blast+

text \<open>Beside these templates, every inner node has one owner.\<close>

lemma inner_owner:
  assumes "inner_ok d" "m \<in> set (inner_nodes d n)" "m \<in> set (inner_nodes d n')" "\<not> declarative d n" "\<not> declarative d n'"
  shows "n' = n"
proof -
  have t: "\<not> (template_content d x = Some m \<and> shadow_root d y = Some m)" if "\<not> declarative d x" for x y
    using that inner_okD(4) [OF assms(1), of y m] by (auto simp: declarative_def)
  consider "template_content d n = Some m" "template_content d n' = Some m" | "shadow_root d n = Some m" "shadow_root d n' = Some m"
    using assms(2,3) t [OF assms(4), of n'] t [OF assms(5), of n] unfolding inner_nodes_iff by blast
  then show ?thesis
  proof cases
    case 1
    then show ?thesis by (rule inner_okD(3) [OF assms(1)])
  next
    case 2
    then show ?thesis using inner_okD(4) [OF assms(1), of n m] inner_okD(4) [OF assms(1), of n' m] by simp
  qed
qed

lemma declarative_element: "declarative d n \<Longrightarrow> \<not> container d n"
  by (auto simp: declarative_def template_content_def element_of_def container_def is_container_def
      split: Option.bind_splits NodeData.splits)

definition picker_ok :: "Dom \<Rightarrow> bool" where
  "picker_ok d \<longleftrightarrow> (\<forall>n e. element_of d n = Some e \<longrightarrow> e_picker_open e \<longrightarrow> has_picker e)"

definition scrolled :: "Dom \<Rightarrow> node set" where
  "scrolled d = {n. \<not> unscrolled d n}"

definition scroll_ok :: "Dom \<Rightarrow> bool" where
  "scroll_ok d \<longleftrightarrow> (\<forall>n. d_nodes d n \<noteq> None \<longrightarrow> n < d_next_id d) \<and> (d_next_id d \<le> u64_max \<longrightarrow> card (scrolled d) \<le> d_scrolled d)"

definition settled :: "Dom \<Rightarrow> Dom \<Rightarrow> bool" where
  "settled d d' \<longleftrightarrow> (\<forall>m. container d' m = container d m) \<and> (\<forall>m. root_host d' m = root_host d m) \<and> d_next_id d' = d_next_id d
     \<and> (\<forall>m. map_option stable (element_of d' m) = map_option stable (element_of d m))
     \<and> (picker_ok d \<longrightarrow> picker_ok d') \<and> (scroll_ok d \<longrightarrow> scroll_ok d')"

lemma settled_refl [simp]: "settled d d"
  by (simp add: settled_def)

lemma settled_trans [trans]: "settled a b \<Longrightarrow> settled b c \<Longrightarrow> settled a c"
  by (simp add: settled_def)

lemma settled_inner: "settled d d' \<Longrightarrow> inner_nodes d' n = inner_nodes d n"
  by (simp add: settled_def inner_nodes_stable [of d' n d])

lemma settled_owners:
  assumes "settled d d'"
  shows "template_content d' n = template_content d n" "shadow_root d' n = shadow_root d n" "declarative d' n = declarative d n"
proof -
  have st: "map_option stable (element_of d' k) = map_option stable (element_of d k)" for k using assms by (simp add: settled_def)
  have "template_content d' k = template_content d k \<and> shadow_root d' k = shadow_root d k" for k
    using st [of k] by (cases "element_of d k"; cases "element_of d' k") (simp_all add: template_content_def shadow_root_def stable_def)
  then show "template_content d' n = template_content d n" "shadow_root d' n = shadow_root d n" "declarative d' n = declarative d n"
    using assms by (simp_all add: declarative_def settled_def)
qed

section \<open>Operations keep them\<close>

lemma scrolled_eq: "(\<And>m. element_of d' m = element_of d m) \<Longrightarrow> scrolled d' = scrolled d"
  by (simp add: scrolled_def unscrolled_def scroll_offset_def)

lemma settled_same_elements:
  assumes "\<And>m. element_of d' m = element_of d m" "\<And>m. container d' m = container d m" "\<And>m. root_host d' m = root_host d m"
    "d_next_id d' = d_next_id d" "\<And>m. d_nodes d' m = None \<longleftrightarrow> d_nodes d m = None" "d_scrolled d' = d_scrolled d"
  shows "settled d d'"
  using assms scrolled_eq [of d' d] by (simp add: settled_def picker_ok_def scroll_ok_def)

lemma settled_put: "d_nodes d n = Some i \<Longrightarrow> n_data j = n_data i \<Longrightarrow> settled d (put n j d)"
  by (rule settled_same_elements) (auto simp: element_of_def container_def root_host_def put_def)

lemma settled_epochs: "settled d (d\<lparr>d_slot_epoch := a, d_tree_epoch := b, d_live_epoch := c\<rparr>)"
  by (rule settled_same_elements) (simp_all add: container_def root_host_def)

lemma settled_links:
  "bump_mutation_revision n d = Some d' \<Longrightarrow> settled d d'" "set_parent_link n p d = Some d' \<Longrightarrow> settled d d'"
  "invalidate_slot_assignments d = Some d' \<Longrightarrow> settled d d'"
  by (auto simp: bump_mutation_revision_def set_parent_link_def invalidate_slot_assignments_def
      intro: settled_put settled_epochs split: Option.bind_splits)

lemma settled_put_children: "put_children self child r d = Some d' \<Longrightarrow> settled d d'"
  by (auto simp: put_children_def Let_def intro!: settled_trans [OF settled_put settled_put] split: Option.bind_splits)

lemma set_element_data: "container (set_element n f d) m = container d m" "d_nodes (set_element n f d) m = None \<longleftrightarrow> d_nodes d m = None"
  "d_next_id (set_element n f d) = d_next_id d" "d_scrolled (set_element n f d) = d_scrolled d"
  by (auto simp: set_element_def put_def container_def is_container_def split: option.splits NodeData.splits)

lemma set_element_host: "root_host (set_element n f d) m = root_host d m"
  by (auto simp: set_element_def put_def root_host_def split: option.splits NodeData.splits)

lemma container_counters [simp]:
  "container (d\<lparr>d_scrolled := a\<rparr>) m = container d m" "container (d\<lparr>d_modal := a\<rparr>) m = container d m"
  "container (d\<lparr>d_next_order := a\<rparr>) m = container d m"
  "root_host (d\<lparr>d_scrolled := a\<rparr>) m = root_host d m" "root_host (d\<lparr>d_modal := a\<rparr>) m = root_host d m"
  "root_host (d\<lparr>d_next_order := a\<rparr>) m = root_host d m"
  by (simp_all add: container_def root_host_def)

lemma settled_set_element:
  assumes f: "\<And>e. element_of d n = Some e \<Longrightarrow>
    stable (f e) = stable e \<and> e_scroll_offset (f e) = e_scroll_offset e \<and> (e_picker_open (f e) \<longrightarrow> e_picker_open e \<or> has_picker e)"
  shows "settled d (set_element n f d)"
proof -
  have stable: "map_option stable (element_of (set_element n f d) m) = map_option stable (element_of d m)" for m
    using f by (cases "element_of d n") auto
  have "scroll_offset (set_element n f d) m = scroll_offset d m" for m
    using f by (cases "element_of d n") (auto simp: scroll_offset_def)
  then have "scroll_ok d \<Longrightarrow> scroll_ok (set_element n f d)"
    by (simp add: scroll_ok_def scrolled_def unscrolled_def set_element_data)
  moreover have "picker_ok d \<Longrightarrow> picker_ok (set_element n f d)"
    using f has_picker_stable [of "f (the (element_of d n))" "the (element_of d n)"] by (auto simp: picker_ok_def)
  ultimately show ?thesis using stable by (simp add: settled_def set_element_data set_element_host)
qed

lemma settled_counters [simp]:
  "settled d (e\<lparr>d_modal := a\<rparr>) = settled d e" "settled d (e\<lparr>d_next_order := a\<rparr>) = settled d e" "settled (d\<lparr>d_modal := a\<rparr>) e = settled d e"
  by (simp_all add: settled_def picker_ok_def scroll_ok_def scrolled_def unscrolled_def scroll_offset_def)

lemma settled_setters:
  "settled d (set_popover_open n b d)" "settled d (set_picker_open n b d)" "settled d (set_modal_dialog n b d)"
  "settled d (set_fullscreen n b d)"
proof -
  have modal: "settled d (set_element n f (d\<lparr>d_modal := a\<rparr>))" if "settled (d\<lparr>d_modal := a\<rparr>) (set_element n f (d\<lparr>d_modal := a\<rparr>))" for a f
    using that by simp
  show "settled d (set_popover_open n b d)" "settled d (set_fullscreen n b d)"
    by (auto simp: set_popover_open_def set_fullscreen_def stable_def intro!: settled_set_element split: option.splits)
  show "settled d (set_modal_dialog n b d)"
    by (auto simp: set_modal_dialog_def Let_def stable_def intro!: modal settled_set_element split: option.splits)
  show "settled d (set_picker_open n b d)"
    by (auto simp: set_picker_open_def stable_def has_picker_def intro!: settled_set_element split: option.splits)
qed

lemma finite_scrolled:
  assumes "\<forall>n. d_nodes d n \<noteq> None \<longrightarrow> n < d_next_id d"
  shows "finite (scrolled d)" "card (scrolled d) \<le> d_next_id d"
proof -
  have "scrolled d \<subseteq> {..<d_next_id d}"
  proof
    fix n assume "n \<in> scrolled d"
    then have "element_of d n \<noteq> None" by (cases "element_of d n") (simp_all add: scrolled_def unscrolled_def scroll_offset_def)
    then have "d_nodes d n \<noteq> None" by (cases "d_nodes d n") (simp_all add: element_of_def)
    then show "n \<in> {..<d_next_id d}" using assms by simp
  qed
  then show "finite (scrolled d)" "card (scrolled d) \<le> d_next_id d"
    using finite_subset card_mono [of "{..<d_next_id d}"] by auto
qed

lemma settled_scroll: "settled d (set_scroll_offset n x y d)"
proof (cases "element_of d n")
  case None
  then show ?thesis by (simp add: set_scroll_offset_def)
next
  case (Some e)
  let ?d = "set_scroll_offset n x y d"
  have S: "scrolled ?d = (if is_origin (x, y) then scrolled d - {n} else insert n (scrolled d))"
    using Some by (auto simp: scrolled_def unscrolled_def scroll_offset_set)
  have mem: "n \<in> scrolled d \<longleftrightarrow> \<not> is_origin (e_scroll_offset e)" using Some by (simp add: scrolled_def unscrolled_def scroll_offset_def)
  have id: "d_next_id ?d = d_next_id d" "\<And>m. d_nodes ?d m = None \<longleftrightarrow> d_nodes d m = None" "\<And>m. container ?d m = container d m"
    "\<And>m. root_host ?d m = root_host d m"
    using Some by (simp_all add: set_scroll_offset_def Let_def set_element_data set_element_host)
  have cnt: "d_scrolled ?d = (if is_origin (e_scroll_offset e) = is_origin (x, y) then d_scrolled d
      else if is_origin (x, y) then d_scrolled d - 1 else min u64_max (d_scrolled d + 1))"
    using Some by (simp add: set_scroll_offset_def Let_def set_element_data sat_step_def)
  have scroll: "scroll_ok ?d" if ok: "scroll_ok d"
  proof -
    have live: "\<forall>n. d_nodes d n \<noteq> None \<longrightarrow> n < d_next_id d" using ok by (simp add: scroll_ok_def)
    then have live': "\<forall>n. d_nodes ?d n \<noteq> None \<longrightarrow> n < d_next_id ?d" using id by simp
    have "card (scrolled ?d) \<le> d_scrolled ?d" if le: "d_next_id d \<le> u64_max"
    proof -
      have c: "card (scrolled d) \<le> d_scrolled d" using ok le by (simp add: scroll_ok_def)
      have c': "card (scrolled ?d) \<le> u64_max" using finite_scrolled(2) [OF live'] id(1) le by simp
      show ?thesis
      proof (cases "is_origin (x, y)")
        case True
        then show ?thesis using c mem by (auto simp: S cnt)
      next
        case False
        then have "scrolled ?d = insert n (scrolled d)" by (simp add: S)
        then have "card (scrolled ?d) \<le> (if is_origin (e_scroll_offset e) then d_scrolled d + 1 else d_scrolled d)"
          using c mem finite_scrolled(1) [OF live] by (simp add: card_insert_if)
        then show ?thesis using False c' cnt by auto
      qed
    qed
    then show ?thesis using ok id by (simp add: scroll_ok_def)
  qed
  have "picker_ok ?d" if "picker_ok d"
    using that Some by (auto simp: picker_ok_def set_scroll_offset_def Let_def has_picker_def element_local_name_def split: if_splits)
  then show ?thesis using id scroll by (simp add: settled_def setters_stable)
qed

lemma settled_walks:
  "clear_top_layer_state k n d = Some d' \<Longrightarrow> settled d d'" "clear_scroll_offsets k n d = Some d' \<Longrightarrow> settled d d'"
proof -
  have top: "settled d (visit_top n d)" for n d
    unfolding visit_top_def by (meson settled_trans settled_setters)
  have scroll: "settled d (visit_scroll n d)" for n d
    by (simp add: visit_scroll_def settled_scroll)
  show "clear_top_layer_state k n d = Some d' \<Longrightarrow> settled d d'"
    by (rule top_walk.walk_rel(1) [where R = settled]) (blast intro: settled_refl settled_trans top)+
  show "clear_scroll_offsets k n d = Some d' \<Longrightarrow> settled d d'"
    by (rule scroll_walk.walk_rel(1) [where R = settled]) (blast intro: settled_refl settled_trans scroll)+
qed

text \<open>The stages of a removal.\<close>

lemma remove_child_stages:
  assumes "remove_child self child d = Some (Inr r, d')"
  obtains index si c d1 d2 d3 d4 where "child_slot d self child = Some index" "d_nodes d self = Some si" "remove index (n_children si) = Some (r, c)"
    "bump_mutation_revision self (put self (si\<lparr>n_children := c\<rparr>) d) = Some d1" "set_parent_link r None d1 = Some d2"
    "clear_top_layer_state (d_next_id d2 + 1) r d2 = Some d3" "invalidate_slot_assignments d3 = Some d4"
    "if any_element_scrolled d4 then clear_scroll_offsets (d_next_id d4 + 1) r d4 = Some d' else d' = d4"
  using assms by (auto simp: remove_child_def Let_def split: option.splits Option.bind_splits if_splits)

lemma settled_remove: "remove_child self child d = Some (res, d') \<Longrightarrow> settled d d'"
proof (cases res)
  case (Inl e)
  moreover assume "remove_child self child d = Some (res, d')"
  ultimately show ?thesis by (auto simp: remove_child_def Let_def split: option.splits Option.bind_splits if_splits)
next
  case (Inr r)
  moreover assume "remove_child self child d = Some (res, d')"
  ultimately have run: "remove_child self child d = Some (Inr r, d')" by simp
  obtain index si c d1 d2 d3 d4 where s: "d_nodes d self = Some si"
    "bump_mutation_revision self (put self (si\<lparr>n_children := c\<rparr>) d) = Some d1" "set_parent_link r None d1 = Some d2"
    "clear_top_layer_state (d_next_id d2 + 1) r d2 = Some d3" "invalidate_slot_assignments d3 = Some d4"
    "if any_element_scrolled d4 then clear_scroll_offsets (d_next_id d4 + 1) r d4 = Some d' else d' = d4"
    using run by (rule remove_child_stages)
  have "settled d (put self (si\<lparr>n_children := c\<rparr>) d)" using s(1) by (simp add: settled_put)
  also have "settled \<dots> d1" using s(2) by (rule settled_links)
  also have "settled d1 d2" using s(3) by (rule settled_links)
  also have "settled d2 d3" using s(4) by (rule settled_walks)
  also have "settled d3 d4" using s(5) by (rule settled_links)
  also have "settled d4 d'" using s(6) settled_walks(2) settled_refl by (cases "any_element_scrolled d4") metis+
  finally show ?thesis .
qed

lemma settled_detach: "detach_from_parent child d = Some d' \<Longrightarrow> settled d d'"
  by (auto simp: detach_from_parent_def intro: settled_remove split: option.splits)

lemma settled_attach:
  assumes "set_parent_link child (Some self) d1 = Some d2" "put_children self child r d2 = Some d3"
    "bump_mutation_revision self d3 = Some d4" "invalidate_slot_assignments d4 = Some d'"
  shows "settled d1 d'"
  using settled_links(2) [OF assms(1)] settled_put_children [OF assms(2)] settled_links(1) [OF assms(3)] settled_links(3) [OF assms(4)]
  by (blast intro: settled_trans)

lemma settled_append: "append_child self child d = Some d' \<Longrightarrow> settled d d'"
  by (auto simp: append_child_def intro: settled_trans [OF settled_detach settled_attach] split: Option.bind_splits if_splits)

lemma settled_insert: "dom_insert_before self child ref d = Some (res, d') \<Longrightarrow> settled d d'"
  by (auto simp: dom_insert_before_def Let_def intro: settled_detach settled_trans [OF settled_detach settled_attach]
      split: Option.bind_splits if_splits option.splits sum.splits)

section \<open>Steps\<close>

text \<open>Only nodes that no live node holds are released; contents fragments and shadow roots are not inserted themselves, nor
  is a template that the parser has taken out of the tree because its contents are a shadow root.\<close>

definition dom_init :: Dom where
  "dom_init = \<lparr>d_nodes = Map.empty, d_next_id = 1, d_slot_epoch = 0, d_tree_epoch = 0, d_live_epoch = 0, d_scrolled = 0,
     d_modal = 0, d_next_order = 1\<rparr>"

definition live :: "Dom \<Rightarrow> node \<Rightarrow> bool" where
  "live d n \<longleftrightarrow> d_nodes d n \<noteq> None"

definition held :: "Dom \<Rightarrow> node \<Rightarrow> bool" where
  "held d m \<longleftrightarrow> (\<exists>n. (n, m) \<in> edges d)"

definition release :: "node \<Rightarrow> Dom \<Rightarrow> Dom" where
  "release n d = d\<lparr>d_nodes := (d_nodes d)(n := None)\<rparr>"

inductive dom_step :: "Dom \<Rightarrow> Dom \<Rightarrow> bool" where
  create: "dom_step d (snd (node_new data d))" if "\<forall>e. data \<noteq> ElementData e" "\<forall>h. data \<noteq> ShadowRootData h"
| element: "dom_step d (snd (new_element tag d))"
| element_named: "dom_step d (snd (element_with_name local ns pre html d))"
| element_xml: "dom_step d (snd (xml_element tag ns d))"
| element_ns: "dom_step d (snd (html_element_ns tag uri d))"
| shadow: "dom_step d d'" if "attach_shadow host d = Some (r, d')"
| declared: "dom_step d d'" if "declare_shadow_root host template manual d = Some d'"
| append: "dom_step d d'" if "live d self" "live d child" "\<not> container d child" "\<not> declarative d child" "dom_room d"
    "append_child self child d = Some d'"
| insert: "dom_step d d'" if "live d self" "live d child" "\<not> container d child" "\<not> declarative d child" "dom_room d"
    "dom_insert_before self child ref d = Some (res, d')"
| remove: "dom_step d d'" if "remove_child self child d = Some (res, d')"
| popover: "dom_step d (set_popover_open n b d)"
| picker: "dom_step d (set_picker_open n b d)"
| modal: "dom_step d (set_modal_dialog n b d)"
| fullscreen: "dom_step d (set_fullscreen n b d)"
| scroll: "dom_step d (set_scroll_offset n x y d)"
| drop: "dom_step d (release n d)" if "\<not> held d n"

inductive dom_reachable :: "Dom \<Rightarrow> bool" where
  init: "dom_reachable dom_init"
| step: "dom_reachable d \<Longrightarrow> dom_step d d' \<Longrightarrow> dom_reachable d'"

definition dom_inv :: "Dom \<Rightarrow> bool" where
  "dom_inv d \<longleftrightarrow> dom_wf d \<and> inner_ok d \<and> declared_ok d \<and> picker_ok d \<and> scroll_ok d"

lemma dom_init_inv: "dom_inv dom_init"
  by (simp add: dom_inv_def dom_init_def dom_wf_def wf_links_def links_def up_def parent_in_def inner_ok_def inner_nodes_def
      declared_ok_def declarative_def template_content_def shadow_root_def element_of_def picker_ok_def scroll_ok_def scrolled_def unscrolled_def scroll_offset_def acyclic_def)

text \<open>Operations that keep the nodes and move at most one that is no container.\<close>

lemma settled_inner_ok:
  assumes s: "settled d d'" and parents: "\<And>m. container d m \<Longrightarrow> parent_node d m = None \<Longrightarrow> parent_node d' m = None"
  shows "inner_ok d \<Longrightarrow> inner_ok d'"
proof -
  have c: "container d' m = container d m" "root_host d' m = root_host d m" for m using s by (simp_all add: settled_def)
  show "inner_ok d \<Longrightarrow> inner_ok d'"
    unfolding inner_ok_def settled_inner [OF s] settled_owners [OF s] c using parents by blast
qed

lemma inv_settled:
  assumes inv: "dom_inv d" and s: "settled d d'" and wf: "dom_wf d'"
    and parents: "\<And>m. container d m \<or> declarative d m \<Longrightarrow> parent_node d m = None \<Longrightarrow> parent_node d' m = None"
  shows "dom_inv d'"
proof -
  have "inner_ok d'" using inv parents by (simp add: dom_inv_def settled_inner_ok [OF s])
  moreover have "declared_ok d'" using inv parents by (simp add: dom_inv_def declared_ok_def settled_owners [OF s])
  ultimately show ?thesis using inv s wf by (simp add: dom_inv_def settled_def)
qed

lemma inv_same_links: "dom_inv d \<Longrightarrow> settled d d' \<Longrightarrow> same_links d d' \<Longrightarrow> dom_inv d'"
  by (rule inv_settled) (simp_all add: dom_inv_def same_links_wf same_links_queries(1))

lemma inv_moved:
  assumes "dom_inv d" "settled d d'" "dom_wf d'" "\<not> container d child" "\<not> declarative d child"
    "d' = d \<or> moved d d' self child ks"
  shows "dom_inv d'"
  using assms(1-3)
proof (rule inv_settled)
  fix m assume m: "container d m \<or> declarative d m" "parent_node d m = None"
  then have "m \<noteq> child" using assms(4,5) by blast
  then show "parent_node d' m = None" using assms(6) m(2) by (auto simp: moved_def)
qed

lemma inv_append:
  assumes "dom_inv d" "live d self" "live d child" "\<not> container d child" "\<not> declarative d child" "dom_room d"
    "append_child self child d = Some d'"
  shows "dom_inv d'"
proof -
  obtain q s e where l: "links d child = Some (q, s, e)" using assms(3) by (cases "links d child") (auto simp: live_def links_None)
  have "dom_wf d' \<and> (if (self, child) \<in> (up (links d))\<^sup>* then d' = d else moved d d' self child (filter (\<lambda>m. m \<noteq> child) (kids_of d self) @ [child]))"
    by (rule append_child_spec [OF _ assms(6) _ l assms(7)]) (use assms(1,2) in \<open>simp_all add: dom_inv_def live_def links_None\<close>)
  then show ?thesis using inv_moved [OF assms(1) settled_append [OF assms(7)] _ assms(4,5)] by (meson)
qed

lemma inv_insert:
  assumes "dom_inv d" "live d self" "live d child" "\<not> container d child" "\<not> declarative d child" "dom_room d"
    "dom_insert_before self child ref d = Some (res, d')"
  shows "dom_inv d'"
proof -
  obtain q s e where l: "links d child = Some (q, s, e)" using assms(3) by (cases "links d child") (auto simp: live_def links_None)
  have "dom_wf d' \<and> (d' = d \<or> moved d d' self child (place_before child ref (kids_of d self)))"
    using insert_before_spec' [OF _ assms(6) _ l assms(7)] assms(1,2) by (simp add: dom_inv_def live_def links_None split: if_splits)
  then show ?thesis using inv_moved [OF assms(1) settled_insert [OF assms(7)] _ assms(4,5)] by meson
qed

lemma child_slot_parent: "dom_wf d \<Longrightarrow> parent_node d m = Some p \<Longrightarrow> child_slot d p m \<noteq> None"
  using child_slot_iff [of d p m] by (auto simp: parent_node_links parent_in_def split: option.splits if_splits)

lemma remove_child_parents:
  assumes wf: "dom_wf d" and run: "remove_child self child d = Some (res, d')"
  shows "parent_node d m = None \<Longrightarrow> parent_node d' m = None" "parent_node d child = Some self \<Longrightarrow> parent_node d' child = None"
proof -
  show "parent_node d' m = None" if m: "parent_node d m = None"
    using wf run
  proof (cases rule: remove_child_links)
    case missing
    then show ?thesis using m by simp
  next
    case (removed s a b c c' e)
    then show ?thesis using m by (auto simp: parent_node_links parent_in_def split: if_splits option.splits)
  qed
  show "parent_node d' child = None" if p: "parent_node d child = Some self"
    using wf run
  proof (cases rule: remove_child_links)
    case missing
    then show ?thesis using child_slot_parent [OF wf p] by simp
  next
    case (removed s a b c c' e)
    then show ?thesis by (simp add: parent_node_links parent_in_def)
  qed
qed

lemma inv_remove:
  assumes "dom_inv d" "remove_child self child d = Some (res, d')"
  shows "dom_inv d'"
proof -
  have wf: "dom_wf d" using assms(1) by (simp add: dom_inv_def)
  show ?thesis
    by (rule inv_settled [OF assms(1) settled_remove [OF assms(2)] remove_child_wf [OF wf assms(2)]])
      (rule remove_child_parents(1) [OF wf assms(2)])
qed

section \<open>Creation and release\<close>

lemma parent_in_fresh: "wf_links L k \<Longrightarrow> parent_in (L(k \<mapsto> (None, 0, None))) n = parent_in L n"
  using wf_linksD(2) [of L k n] wf_linksD(1) [of L k k] by (auto simp: parent_in_def split: option.splits)

lemma wf_fresh:
  assumes wf: "wf_links L k"
  shows "wf_links (L(k \<mapsto> (None, 0, None))) (k + 1)"
proof (rule wf_linksI)
  let ?L = "L(k \<mapsto> (None, 0, None))"
  have k: "L k = None" using wf_linksD(1) [OF wf, of k] by (cases "L k") auto
  have ok: "children_ok None" by (simp add: children_ok_def)
  have empty: "slot_seq (None :: node Children) = []" by (simp add: slot_seq_def)
  show "n < k + 1 \<and> children_ok c" if "?L n = Some (p, s, c)" for n p s c
    using that wf_linksD(1) [OF wf, of n p s c] ok by (cases "n = k") auto
  show "q < k + 1" if "?L n = Some (Some q, s, c)" for n q s c
    using that wf_linksD(2) [OF wf, of n q s c] by (cases "n = k") auto
  show "\<exists>c'. ?L m = Some (Some n, i, c')" if "?L n = Some (p, s, c)" "(i, m) \<in> set (slot_seq c)" for n p s c i m
  proof -
    have n: "L n = Some (p, s, c)" using that empty by (cases "n = k") auto
    then have "\<exists>c'. L m = Some (Some n, i, c')" using wf_linksD(3) [OF wf] that(2) by blast
    then show ?thesis using k by (cases "m = k") auto
  qed
  show "(s, m) \<in> set (slot_seq e)" if "?L m = Some (Some p, s, c)" "?L p = Some (a, b, e)" for m p s c a b e
  proof -
    have m: "L m = Some (Some p, s, c)" using that(1) by (cases "m = k") auto
    then have "p \<noteq> k" using wf_linksD(2) [OF wf] by blast
    then show ?thesis using wf_linksD(4) [OF wf m] that(2) by simp
  qed
  have "up ?L = up L" by (simp add: up_def parent_in_fresh [OF wf])
  then show "acyclic (up ?L)" using wf_linksD(5) [OF wf] by simp
qed

definition element_in :: "NodeData \<Rightarrow> Element option" where
  "element_in data = (case data of ElementData e \<Rightarrow> Some e | _ \<Rightarrow> None)"

definition inner_in :: "NodeData \<Rightarrow> node list" where
  "inner_in data = (case element_in data of
     Some e \<Rightarrow> (case e_template_content e of Some c \<Rightarrow> [c] | None \<Rightarrow> []) @ (case e_shadow_root e of Some r \<Rightarrow> [r] | None \<Rightarrow> [])
   | None \<Rightarrow> [])"

lemma inner_nodes_in: "inner_nodes d n = (case d_nodes d n of Some i \<Rightarrow> inner_in (n_data i) | None \<Rightarrow> [])"
  by (auto simp: inner_nodes_def template_content_def shadow_root_def element_of_def inner_in_def element_in_def split: option.splits NodeData.splits)

lemma dead_above: "dom_wf d \<Longrightarrow> d_next_id d \<le> n \<Longrightarrow> d_nodes d n = None"
  using wf_linksD(1) [OF dom_wf_links, of d n] links_None [of d n] by (cases "links d n") fastforce+

text \<open>A new node may own contents that nobody else has.\<close>

definition free_container :: "Dom \<Rightarrow> node \<Rightarrow> bool" where
  "free_container d c \<longleftrightarrow> container d c \<and> parent_node d c = None \<and> (\<forall>n. c \<notin> set (inner_nodes d n))"

lemma inv_node_new:
  assumes inv: "dom_inv d" and own: "\<And>c. c \<in> set (inner_in data) \<Longrightarrow> free_container d c"
    and e: "\<And>e. element_in data = Some e \<Longrightarrow> \<not> e_picker_open e \<and> is_origin (e_scroll_offset e) \<and> e_shadow_root e = None"
  shows "dom_inv (snd (node_new data d))" "is_container data \<Longrightarrow> free_container (snd (node_new data d)) (d_next_id d)"
proof -
  let ?k = "d_next_id d" and ?d = "snd (node_new data d)"
  have wf: "dom_wf d" using inv by (simp add: dom_inv_def)
  have fresh: "d_nodes d ?k = None" using dead_above [OF wf] by simp
  have nodes: "d_nodes ?d = (d_nodes d)(?k \<mapsto> inner_new data)" "d_next_id ?d = ?k + 1" "d_scrolled ?d = d_scrolled d"
    by (simp_all add: node_new_def put_def)
  have L: "links ?d = (links d)(?k \<mapsto> (None, 0, None))" by (auto simp: links_def nodes inner_new_def link_of_def fun_eq_iff)
  have elt: "element_of ?d m = (if m = ?k then element_in data else element_of d m)" for m
    by (simp add: element_of_def nodes inner_new_def element_in_def)
  have inner: "inner_nodes ?d m = (if m = ?k then inner_in data else inner_nodes d m)" for m
    by (simp add: inner_nodes_in nodes inner_new_def)
  have cont: "container ?d m = (if m = ?k then is_container data else container d m)" for m
    by (simp add: container_def nodes inner_new_def)
  have par: "parent_node ?d m = parent_node d m" for m
    by (simp add: parent_node_links L parent_in_fresh [OF dom_wf_links [OF wf]])
  have nk: "\<not> container d ?k" "root_host d ?k = None" using fresh by (simp_all add: container_def root_host_def)
  have host: "m \<noteq> ?k \<Longrightarrow> root_host ?d m = root_host d m" for m by (simp add: root_host_def nodes)
  have tc: "template_content ?d m = (if m = ?k then Option.bind (element_in data) e_template_content else template_content d m)" for m
    by (simp add: template_content_def elt)
  have sr: "shadow_root ?d m = (if m = ?k then None else shadow_root d m)" for m
    using e by (cases "element_in data") (simp_all add: shadow_root_def elt)
  have ok: "inner_ok d" using inv by (simp add: dom_inv_def)
  note I = inner_okD [OF ok]
  have new: "c \<in> set (inner_in data)" if "Option.bind (element_in data) e_template_content = Some c" for c
    using that by (cases "element_in data") (simp_all add: inner_in_def)
  have "inner_ok ?d"
    unfolding inner_ok_def inner cont par
  proof (intro conjI allI impI)
    fix n m assume m: "m \<in> set (if n = ?k then inner_in data else inner_nodes d n)"
    then have c: "container d m" "parent_node d m = None" using own I(1,2) by (auto simp: free_container_def split: if_splits)
    then show "if m = ?k then is_container data else container d m" using nk by auto
    show "parent_node d m = None" by (rule c(2))
  next
    fix n n' m assume t: "template_content ?d n = Some m" "template_content ?d n' = Some m"
    have "m \<notin> set (inner_nodes d x)" if "template_content ?d ?k = Some m" for x
      using own [OF new] that by (auto simp: tc free_container_def)
    then show "n' = n" using t I(3) [of n m n'] by (auto simp: tc inner_nodes_iff split: if_splits)
  next
    fix n m assume "shadow_root ?d n = Some m"
    then have "root_host d m = Some n" using I(4) by (simp add: sr split: if_splits)
    then show "root_host ?d m = Some n" using nk(2) host by (cases "m = ?k") auto
  qed
  moreover have "declared_ok ?d"
    unfolding declared_ok_def par
  proof (intro allI impI)
    fix n assume n: "declarative ?d n"
    show "parent_node d n = None"
    proof (cases "n = ?k")
      case True
      then show ?thesis using fresh by (simp add: parent_node_def)
    next
      case False
      then obtain c h where c: "template_content d n = Some c" "root_host ?d c = Some h"
        using n by (auto simp: declarative_def tc)
      then have "c \<noteq> ?k" using I(1) [of c n] nk(1) by (auto simp: inner_nodes_iff)
      then have "declarative d n" using c host by (auto simp: declarative_def)
      then show ?thesis using inv by (simp add: dom_inv_def declared_ok_def)
    qed
  qed
  moreover have "dom_wf ?d" using wf_fresh [OF dom_wf_links [OF wf]] by (simp add: dom_wf_def L nodes)
  moreover have "picker_ok ?d" using inv e by (auto simp: dom_inv_def picker_ok_def elt)
  moreover have "scroll_ok ?d"
  proof -
    have "element_of d ?k = None" using fresh by (simp add: element_of_def)
    then have "unscrolled ?d m = unscrolled d m" for m
      using e by (cases "element_in data") (auto simp: unscrolled_def scroll_offset_def elt)
    then have "scrolled ?d = scrolled d" by (simp add: scrolled_def)
    then show ?thesis using inv by (auto simp: dom_inv_def scroll_ok_def nodes less_Suc_eq)
  qed
  ultimately show "dom_inv ?d" by (simp add: dom_inv_def)
  have "parent_node d ?k = None" using fresh by (simp add: parent_node_def)
  moreover have "?k \<notin> set (inner_in data)" using own nk(1) by (auto simp: free_container_def)
  moreover have "?k \<notin> set (inner_nodes d n)" for n using I(1) nk(1) by blast
  ultimately show "is_container data \<Longrightarrow> free_container ?d ?k" by (simp add: free_container_def cont par inner)
qed

lemma inv_element_node:
  assumes "dom_inv d" "\<And>c. e_template_content (element c) = c" "\<And>c. e_shadow_root (element c) = None"
    "\<And>c. \<not> e_picker_open (element c) \<and> is_origin (e_scroll_offset (element c))"
  shows "dom_inv (snd (element_node template element d))"
proof -
  let ?d = "snd (node_new DocumentFragmentData d)"
  have frag: "dom_inv ?d" "free_container ?d (d_next_id d)"
    using inv_node_new [OF assms(1), of DocumentFragmentData] by (simp_all add: inner_in_def element_in_def is_container_def)
  have new: "dom_inv (snd (node_new (ElementData (element c)) e))" if "dom_inv e" "\<And>x. c = Some x \<Longrightarrow> free_container e x" for c e
    using inv_node_new(1) [OF that(1), of "ElementData (element c)"] that(2) assms(2-4)
    by (auto simp: inner_in_def element_in_def split: option.splits)
  have "fst (node_new DocumentFragmentData d) = d_next_id d" by (simp add: node_new_def)
  then show ?thesis using new [OF assms(1), of None] new [OF frag(1), of "Some (d_next_id d)"] frag(2)
    by (auto simp: element_node_def case_prod_beta)
qed

lemma inv_elements:
  assumes "dom_inv d"
  shows "dom_inv (snd (new_element tag d))" "dom_inv (snd (element_with_name loc ns pre html d))"
    "dom_inv (snd (xml_element tag ns d))" "dom_inv (snd (html_element_ns tag uri d))"
  by (auto simp: new_element_def element_with_name_def xml_element_def html_element_ns_def new_named_def element_record_def Let_def
      case_prod_beta intro!: inv_element_node [OF assms])

lemma inv_put_shadow:
  assumes inv: "dom_inv d" and i: "d_nodes d h = Some i" "n_data i = ElementData e" "e_shadow_root e = None" and r: "free_container d r" "root_host d r = Some h"
  shows "dom_inv (put h (i\<lparr>n_data := ElementData (e\<lparr>e_shadow_root := Some r\<rparr>)\<rparr>) d)" (is "dom_inv ?d")
proof -
  have links: "same_links d ?d" by (rule same_links_put [OF i(1)]) (simp add: link_of_def)
  have cont: "container ?d m = container d m" for m using i by (simp add: container_def put_def is_container_def)
  have elt: "element_of ?d m = (if m = h then Some (e\<lparr>e_shadow_root := Some r\<rparr>) else element_of d m)" "element_of d h = Some e" for m
    using i by (simp_all add: element_of_def put_def)
  have inner: "set (inner_nodes ?d m) = (if m = h then insert r (set (inner_nodes d h)) else set (inner_nodes d m))" for m
    using elt i(3) by (auto simp: inner_nodes_def template_content_def shadow_root_def split: option.splits)
  have host: "root_host ?d m = root_host d m" for m using i by (simp add: root_host_def put_def)
  have tc: "template_content ?d m = template_content d m" for m using elt by (simp add: template_content_def)
  have sr: "shadow_root ?d m = (if m = h then Some r else shadow_root d m)" for m using elt by (simp add: shadow_root_def)
  have decl: "declarative ?d m = declarative d m" for m by (simp add: declarative_def tc host)
  have I: "inner_ok d" using inv by (simp add: dom_inv_def)
  have "inner_ok ?d"
    unfolding inner_ok_def tc sr host inner cont same_links_queries(1) [OF links]
    using inner_okD [OF I] r by (auto simp: free_container_def split: if_splits)
  moreover have "declared_ok ?d"
    using inv by (simp add: dom_inv_def declared_ok_def decl same_links_queries(1) [OF links])
  moreover have "has_picker (e\<lparr>e_shadow_root := Some r\<rparr>) = has_picker e" by (simp add: has_picker_def element_local_name_def)
  then have "picker_ok ?d" using inv elt by (auto simp: dom_inv_def picker_ok_def)
  moreover have "scroll_ok ?d"
  proof -
    have "scroll_offset ?d m = scroll_offset d m" for m using elt by (simp add: scroll_offset_def)
    then show ?thesis using inv i(1) by (auto simp: dom_inv_def scroll_ok_def scrolled_def unscrolled_def put_def)
  qed
  ultimately show ?thesis using inv same_links_wf [OF links] by (simp add: dom_inv_def)
qed

text \<open>An attached root is new: nobody but its host owns it.\<close>

lemma attach_new:
  assumes inv: "dom_inv d" and run: "attach_shadow host d = Some (Some root, d')"
  shows "dom_inv d'" "container d' root" "parent_node d' root = None" "template_content d' n \<noteq> Some root"
proof -
  let ?d = "snd (node_new (ShadowRootData host) d)"
  obtain i where i0: "d_nodes d host = Some i" using run by (auto simp: attach_shadow_def split: Option.bind_splits)
  obtain e where e0: "n_data i = ElementData e" using run i0 by (cases "n_data i") (simp_all add: attach_shadow_def)
  have e1: "e_shadow_root e = None"
  proof (rule ccontr)
    assume "e_shadow_root e \<noteq> None"
    then show False using run i0 e0 by (simp add: attach_shadow_def)
  qed
  have i: "d_nodes d host = Some i" "n_data i = ElementData e" "e_shadow_root e = None"
    "d' = put host (i\<lparr>n_data := ElementData (e\<lparr>e_shadow_root := Some (d_next_id d)\<rparr>)\<rparr>) ?d" "root = d_next_id d"
    using run i0 e0 e1 by (auto simp: attach_shadow_def node_new_def Let_def)
  have new: "dom_inv ?d" "free_container ?d (d_next_id d)"
    using inv_node_new [OF inv, of "ShadowRootData host"] by (simp_all add: inner_in_def element_in_def is_container_def)
  have "d_nodes d (d_next_id d) = None" using dead_above [of d "d_next_id d"] inv by (simp add: dom_inv_def)
  then have h: "d_nodes ?d host = Some i" using i(1) by (auto simp: node_new_def put_def)
  have "root_host ?d (d_next_id d) = Some host" by (simp add: root_host_def node_new_def put_def inner_new_def)
  then show inv': "dom_inv d'" using inv_put_shadow [OF new(1) h i(2,3) new(2)] i(4) by simp
  have sr: "shadow_root d' host = Some root"
    by (simp add: i(4,5) shadow_root_def element_of_def put_def)
  have ok: "inner_ok d'" using inv' by (simp add: dom_inv_def)
  show "container d' root" "parent_node d' root = None"
    using inner_okD(1,2) [OF ok, of root host] sr by (simp_all add: inner_nodes_iff)
  have "template_content d' n = template_content ?d n"
    using h i(2) by (auto simp: i(4) template_content_def element_of_def put_def)
  then show "template_content d' n \<noteq> Some root"
    using new(2) i(5) by (auto simp: free_container_def inner_nodes_iff)
qed

lemma inv_shadow:
  assumes inv: "dom_inv d" and run: "attach_shadow host d = Some (r, d')"
  shows "dom_inv d'"
proof (cases r)
  case None
  then show ?thesis using inv run by (auto simp: attach_shadow_def Let_def split: Option.bind_splits NodeData.splits if_splits prod.splits)
next
  case (Some root)
  then show ?thesis using attach_new(1) [OF inv] run by simp
qed

lemma settings_kept:
  "(if manual then invalidate_slot_assignments d else Some d) = Some d' \<Longrightarrow> same_links d d' \<and> settled d d'"
  using same_links_invalidate settled_links(3) by (cases manual) auto

lemma attach_new_settings:
  assumes inv: "dom_inv d" and run: "attach_shadow host d = Some (Some root, d0)"
    and set: "(if manual then invalidate_slot_assignments d0 else Some d0) = Some d1"
  shows "dom_inv d1" "container d1 root" "parent_node d1 root = None" "template_content d1 n \<noteq> Some root"
proof -
  note A = attach_new [OF inv run]
  have k: "same_links d0 d1" "settled d0 d1" using settings_kept [OF set] by simp_all
  show "dom_inv d1" by (rule inv_same_links [OF A(1) k(2,1)])
  show "container d1 root" using A(2) k(2) by (simp add: settled_def)
  show "parent_node d1 root = None" using A(3) same_links_queries(1) [OF k(1)] by simp
  show "template_content d1 n \<noteq> Some root" using A(4) settled_owners(1) [OF k(2)] by simp
qed

text \<open>The contents of a template become a root that no other template has, and the template loses its parent.\<close>

lemma content_put:
  assumes ok: "inner_ok d" and i: "d_nodes d t = Some i" "n_data i = ElementData e"
    and c: "container d c" "parent_node d c = None" "\<And>n. template_content d n \<noteq> Some c"
  defines "d' \<equiv> put t (i\<lparr>n_data := ElementData (e\<lparr>e_template_content := Some c\<rparr>)\<rparr>) d"
  shows "same_links d d'" "inner_ok d'" "picker_ok d \<Longrightarrow> picker_ok d'" "scroll_ok d \<Longrightarrow> scroll_ok d'"
    "n \<noteq> t \<Longrightarrow> declarative d' n = declarative d n"
proof -
  show links: "same_links d d'" unfolding d'_def by (rule same_links_put [OF i(1)]) (simp add: link_of_def)
  have cont: "container d' m = container d m" for m using i by (simp add: d'_def container_def put_def is_container_def)
  have host: "root_host d' m = root_host d m" for m using i by (simp add: d'_def root_host_def put_def)
  have elt: "element_of d' m = (if m = t then Some (e\<lparr>e_template_content := Some c\<rparr>) else element_of d m)" "element_of d t = Some e" for m
    using i by (simp_all add: d'_def element_of_def put_def)
  have tc: "template_content d' m = (if m = t then Some c else template_content d m)" for m using elt by (simp add: template_content_def)
  have sr: "shadow_root d' m = shadow_root d m" for m using elt by (simp add: shadow_root_def)
  show "inner_ok d'"
    unfolding inner_ok_def inner_nodes_iff tc sr host cont same_links_queries(1) [OF links]
    using inner_okD [OF ok] c by (auto simp: inner_nodes_iff split: if_splits)
  have "has_picker (e\<lparr>e_template_content := Some c\<rparr>) = has_picker e" by (simp add: has_picker_def element_local_name_def)
  then show "picker_ok d \<Longrightarrow> picker_ok d'" using elt by (auto simp: picker_ok_def)
  have "scroll_offset d' m = scroll_offset d m" for m using elt by (simp add: scroll_offset_def)
  then show "scroll_ok d \<Longrightarrow> scroll_ok d'"
    using i(1) by (auto simp: scroll_ok_def scrolled_def unscrolled_def d'_def put_def)
  show "n \<noteq> t \<Longrightarrow> declarative d' n = declarative d n" by (simp add: declarative_def tc host)
qed

lemma inv_declare:
  assumes inv: "dom_inv d" and run: "declare_shadow_root host t manual d = Some d'"
  shows "dom_inv d'"
proof -
  obtain r d0 where d0: "attach_shadow host d = Some (r, d0)" using run by (auto simp: declare_shadow_root_def split: Option.bind_splits)
  show ?thesis
  proof (cases r)
    case None
    then have "d' = d0" using run d0 by (simp add: declare_shadow_root_def)
    then show ?thesis using inv_shadow [OF inv d0] by simp
  next
    case (Some root)
    obtain d1 where d1: "(if manual then invalidate_slot_assignments d0 else Some d0) = Some d1"
      using run d0 Some by (auto simp: declare_shadow_root_def split: Option.bind_splits)
    have run': "(let (changed, d2) = set_template_content t root d1
        in if \<not> changed then Some d2
           else case parent_node d2 t of None \<Rightarrow> Some d2 | Some parent \<Rightarrow> map_option snd (remove_child parent t d2)) = Some d'"
      using run d0 Some d1 by (simp add: declare_shadow_root_def del: if_split)
    note A = attach_new_settings [OF inv d0 [unfolded Some] d1]
    show ?thesis
    proof (cases "\<exists>i e. d_nodes d1 t = Some i \<and> n_data i = ElementData e \<and> eq_ignore_ascii_case (e_tag_name e) ''template''")
      case False
      then have "set_template_content t root d1 = (False, d1)"
        by (cases "d_nodes d1 t") (auto simp: set_template_content_def split: NodeData.split)
      then show ?thesis using run' A(1) by simp
    next
      case True
      then obtain i e where t: "d_nodes d1 t = Some i" "n_data i = ElementData e" "eq_ignore_ascii_case (e_tag_name e) ''template''"
        by blast
      define d2 where "d2 = put t (i\<lparr>n_data := ElementData (e\<lparr>e_template_content := Some root\<rparr>)\<rparr>) d1"
      have ok1: "inner_ok d1" "dom_wf d1" "picker_ok d1" "scroll_ok d1" "declared_ok d1" using A(1) by (simp_all add: dom_inv_def)
      note C = content_put [OF ok1(1) t(1,2) A(2,3,4), folded d2_def]
      have wf2: "dom_wf d2" by (rule same_links_wf [OF C(1) ok1(2)])
      have decl: "declarative d2 n \<Longrightarrow> n \<noteq> t \<Longrightarrow> parent_node d2 n = None" for n
        using ok1(5) C(5) same_links_queries(1) [OF C(1)] by (simp add: declared_ok_def)
      have s2: "set_template_content t root d1 = (True, d2)" using t by (simp add: set_template_content_def d2_def)
      show ?thesis
      proof (cases "parent_node d2 t")
        case None
        then have "d' = d2" using run' s2 by simp
        moreover have "declared_ok d2" using decl None by (auto simp: declared_ok_def)
        ultimately show ?thesis using C wf2 ok1 by (simp add: dom_inv_def)
      next
        case (Some p)
        then obtain res where rm: "remove_child p t d2 = Some (res, d')" using run' s2 by auto
        have st: "settled d2 d'" by (rule settled_remove [OF rm])
        note P = remove_child_parents [OF wf2 rm]
        have "inner_ok d'" by (rule settled_inner_ok [OF st P(1) C(2)])
        moreover have "declared_ok d'"
          unfolding declared_ok_def settled_owners [OF st] using decl P(1) P(2) [OF Some] by blast
        moreover have "picker_ok d'" "scroll_ok d'" using st C(3) [OF ok1(3)] C(4) [OF ok1(4)] by (simp_all add: settled_def)
        ultimately show ?thesis using remove_child_wf [OF wf2 rm] by (simp add: dom_inv_def)
      qed
    qed
  qed
qed

lemma inv_release:
  assumes inv: "dom_inv d" and free: "\<not> held d n"
  shows "dom_inv (release n d)"
proof -
  let ?d = "release n d"
  have wf: "dom_wf d" using inv by (simp add: dom_inv_def)
  have nodes: "d_nodes ?d = (d_nodes d)(n := None)" "d_next_id ?d = d_next_id d" "d_scrolled ?d = d_scrolled d" by (simp_all add: release_def)
  have L: "links ?d = (links d)(n := None)" by (auto simp: links_def nodes fun_eq_iff)
  have nokid: "(i, n) \<notin> set (slot_seq c)" if "links d m = Some (p, s, c)" for m p s c i
  proof
    assume "(i, n) \<in> set (slot_seq c)"
    then have "n \<in> set (kids_of d m)" using that by (force simp: kids_of_def children_of_links)
    then show False using free by (auto simp: held_def edges_def)
  qed
  have noinner: "n \<notin> set (inner_nodes d m)" for m using free by (auto simp: held_def edges_def)
  have up: "up (links ?d) \<subseteq> up (links d)" by (auto simp: L up_def parent_in_def split: option.splits if_splits)
  note W = dom_wf_links [OF wf]
  have "wf_links (links ?d) (d_next_id d)"
  proof (rule wf_linksI)
    show "m < d_next_id d \<and> children_ok c" if "links ?d m = Some (p, s, c)" for m p s c
      using that wf_linksD(1) [OF W] by (auto simp: L split: if_splits)
    show "q < d_next_id d" if "links ?d m = Some (Some q, s, c)" for m q s c
      using that wf_linksD(2) [OF W] by (auto simp: L split: if_splits)
    show "\<exists>c'. links ?d m' = Some (Some m, i, c')" if "links ?d m = Some (p, s, c)" "(i, m') \<in> set (slot_seq c)" for m p s c i m'
    proof -
      have m: "links d m = Some (p, s, c)" using that(1) by (auto simp: L split: if_splits)
      then show ?thesis using wf_linksD(3) [OF W m that(2)] nokid [OF m] that(2) by (auto simp: L)
    qed
    show "(s, m) \<in> set (slot_seq e)" if "links ?d m = Some (Some p, s, c)" "links ?d p = Some (a, b, e)" for m p s c a b e
      using that wf_linksD(4) [OF W] by (auto simp: L split: if_splits)
    show "acyclic (up (links ?d))" by (rule acyclic_subset [OF wf_linksD(5) [OF W] up])
  qed
  then have "dom_wf ?d" by (simp add: dom_wf_def nodes)
  moreover have elt: "element_of ?d m = (if m = n then None else element_of d m)" for m by (simp add: element_of_def nodes)
  have par: "parent_node ?d m = None" if "parent_node d m = None" for m
    using that by (auto simp: parent_node_links L parent_in_def split: option.splits if_splits)
  have sub: "m \<in> set (inner_nodes d k)" if "m \<in> set (inner_nodes ?d k)" for m k
    using that by (cases "k = n") (simp_all add: inner_nodes_in nodes)
  have tc: "template_content ?d k = (if k = n then None else template_content d k)" for k by (simp add: template_content_def elt)
  have sr: "shadow_root ?d k = (if k = n then None else shadow_root d k)" for k by (simp add: shadow_root_def elt)
  have host: "root_host ?d k = (if k = n then None else root_host d k)" for k by (simp add: root_host_def nodes)
  have I: "inner_ok d" using inv by (simp add: dom_inv_def)
  have "inner_ok ?d"
    unfolding inner_ok_def
  proof (intro conjI allI impI)
    fix k m assume "m \<in> set (inner_nodes ?d k)"
    then have k: "m \<in> set (inner_nodes d k)" by (rule sub)
    then have m: "m \<noteq> n" "container d m" "parent_node d m = None"
      using inner_okD(1,2) [OF I] noinner by blast+
    show "container ?d m" using m(1,2) by (simp add: container_def nodes)
    show "parent_node ?d m = None" by (rule par [OF m(3)])
  next
    fix k k' m assume "template_content ?d k = Some m" "template_content ?d k' = Some m"
    then show "k' = k" using inner_okD(3) [OF I, of k m k'] by (simp add: tc split: if_splits)
  next
    fix k m assume "shadow_root ?d k = Some m"
    then have "shadow_root d k = Some m" by (simp add: sr split: if_splits)
    then show "root_host ?d m = Some k" using inner_okD(4) [OF I] noinner [of k] by (auto simp: host inner_nodes_iff)
  qed
  moreover have "declared_ok ?d"
  proof -
    have "declarative ?d k \<Longrightarrow> declarative d k" for k by (auto simp: declarative_def tc host split: if_splits)
    then show ?thesis using inv par by (auto simp: dom_inv_def declared_ok_def)
  qed
  moreover have "picker_ok ?d" using inv by (simp add: dom_inv_def picker_ok_def elt)
  moreover have "scroll_ok ?d"
  proof -
    have live: "\<forall>m. d_nodes d m \<noteq> None \<longrightarrow> m < d_next_id d" using inv by (simp add: dom_inv_def scroll_ok_def)
    have "scrolled ?d \<subseteq> scrolled d" by (auto simp: scrolled_def unscrolled_def scroll_offset_def elt split: if_splits)
    then have "card (scrolled ?d) \<le> card (scrolled d)" by (rule card_mono [OF finite_scrolled(1) [OF live]])
    then show ?thesis using inv live by (auto simp: dom_inv_def scroll_ok_def nodes)
  qed
  ultimately show ?thesis by (simp add: dom_inv_def)
qed

lemma dom_step_inv: "dom_step d d' \<Longrightarrow> dom_inv d \<Longrightarrow> dom_inv d'"
proof (induction rule: dom_step.induct)
  case (create data d)
  have none: "element_in data = None" using create(1) by (cases data) (auto simp: element_in_def)
  show ?case by (rule inv_node_new(1) [OF create(3)]) (use none in \<open>simp_all add: inner_in_def\<close>)
next
  case (declared host template manual d d')
  show ?case by (rule inv_declare [OF declared(2,1)])
qed (blast intro: inv_elements inv_shadow inv_append inv_insert inv_remove inv_release
      inv_same_links settled_setters settled_scroll same_links_setters)+

lemma dom_reachable_inv: "dom_reachable d \<Longrightarrow> dom_inv d"
  by (induction rule: dom_reachable.induct) (blast intro: dom_init_inv dom_step_inv)+

end
