(* ===== verification/DomReturns.thy ===== *)
theory DomReturns
  imports DomReach
begin

text \<open>
  The operations on nodes return: the walks over a detached subtree end because every node in it has
  one holder there (a template whose contents are a shadow root is a second one, but it is outside every other node),
  and no counter overflows while it has room.
\<close>

section \<open>Nothing below a node without holder lies on a cycle\<close>

lemma below_acyclic:
  assumes sv: "\<And>x y m. (n, x) \<in> E\<^sup>* \<Longrightarrow> (n, y) \<in> E\<^sup>* \<Longrightarrow> (x, m) \<in> E \<Longrightarrow> (y, m) \<in> E \<Longrightarrow> x = y" and top: "\<And>x. (x, n) \<notin> E" and m: "(n, m) \<in> E\<^sup>*"
  shows "(m, m) \<notin> E\<^sup>+"
  using m
proof (induction rule: rtrancl_induct)
  case base
  then show ?case using top by (meson tranclD2)
next
  case (step y z)
  show ?case
  proof
    assume "(z, z) \<in> E\<^sup>+"
    then obtain w where "(z, w) \<in> E\<^sup>*" "(w, z) \<in> E" by (meson tranclD2)
    moreover have "(n, w) \<in> E\<^sup>*" using step(1,2) \<open>(z, w) \<in> E\<^sup>*\<close> by (meson rtrancl_into_rtrancl rtrancl_trans)
    ultimately have "(z, y) \<in> E\<^sup>*" using sv [of w y z] step(1,2) by simp
    then have "(y, y) \<in> E\<^sup>+" using step(2) by (meson rtrancl_into_trancl2)
    then show False using step.IH by blast
  qed
qed

lemma kid_parent: "dom_wf d \<Longrightarrow> m \<in> set (kids_of d n) \<Longrightarrow> parent_node d m = Some n \<and> d_nodes d m \<noteq> None"
proof -
  assume wf: "dom_wf d" and m: "m \<in> set (kids_of d n)"
  then obtain i where i: "(i, m) \<in> set (slot_seq (children_of d n))" by (auto simp: kids_of_def)
  then obtain p s c where n: "links d n = Some (p, s, c)" "children_of d n = c"
    by (cases "links d n") (auto simp: children_of_links slot_seq_def)
  then obtain c' where "links d m = Some (Some n, i, c')" using wf_linksD(3) [OF dom_wf_links [OF wf]] i by blast
  then show ?thesis using n(1) links_None [of d m] by (auto simp: parent_node_links parent_in_def)
qed

lemma edge_cases:
  assumes "dom_inv d" "(x, m) \<in> edges d"
  obtains "m \<in> set (inner_nodes d x)" "parent_node d m = None" "d_nodes d m \<noteq> None"
    | "m \<in> set (kids_of d x)" "parent_node d m = Some x" "d_nodes d m \<noteq> None"
proof -
  from assms(2) consider "m \<in> set (inner_nodes d x)" | "m \<in> set (kids_of d x)" by (auto simp: edges_def)
  then show ?thesis
  proof cases
    case 1
    have "inner_ok d" using assms(1) by (simp add: dom_inv_def)
    then have "container d m" "parent_node d m = None" using 1 inner_okD(1,2) by blast+
    then show ?thesis using that(1) 1 by (auto simp: container_def)
  next
    case 2
    then show ?thesis using that(2) kid_parent [of d m x] assms(1) by (auto simp: dom_inv_def)
  qed
qed

lemma one_holder:
  assumes d: "dom_inv d" "(x, m) \<in> edges d" "(y, m) \<in> edges d" and t: "\<not> declarative d x" "\<not> declarative d y"
  shows "x = y"
proof -
  have ok: "inner_ok d" using d(1) by (simp add: dom_inv_def)
  from d(1,2) show ?thesis
  proof (cases rule: edge_cases)
    case 1
    from d(1,3) show ?thesis by (cases rule: edge_cases) (use 1 inner_owner [OF ok _ _ t(2,1)] in auto)
  next
    case 2
    from d(1,3) show ?thesis by (cases rule: edge_cases) (use 2 in auto)
  qed
qed

lemma live_below: "dom_inv d \<Longrightarrow> d_nodes d n \<noteq> None \<Longrightarrow> n < d_next_id d"
  by (simp add: dom_inv_def scroll_ok_def)

lemma below_live: "dom_inv d \<Longrightarrow> (n, m) \<in> (edges d)\<^sup>* \<Longrightarrow> m = n \<or> m < d_next_id d"
proof (erule rtranclE)
  fix y assume d: "dom_inv d" "(y, m) \<in> edges d"
  from d show ?thesis by (cases rule: edge_cases) (simp_all add: live_below [OF d(1)])
qed simp

lemma below_finite: "dom_inv d \<Longrightarrow> finite {m. (n, m) \<in> (edges d)\<^sup>*}"
  by (rule finite_subset [of _ "insert n {..<d_next_id d}"]) (use below_live in auto)

lemma below_card: "dom_inv d \<Longrightarrow> n < d_next_id d \<Longrightarrow> card {m. (n, m) \<in> (edges d)\<^sup>*} < Suc (d_next_id d)"
proof -
  assume d: "dom_inv d" "n < d_next_id d"
  have "{m. (n, m) \<in> (edges d)\<^sup>*} \<subseteq> {..<d_next_id d}" using below_live [OF d(1)] d(2) by auto
  then show ?thesis using card_mono [of "{..<d_next_id d}"] by (simp add: less_Suc_eq_le)
qed

text \<open>A node without edges is on no cycle, and paths to other nodes avoid it.\<close>

lemma avoids_leaf: "(x, m) \<in> E\<^sup>* \<Longrightarrow> m \<noteq> r \<Longrightarrow> (\<And>y. (r, y) \<notin> E) \<Longrightarrow> (x, m) \<in> {(y, z) \<in> E. z \<noteq> r}\<^sup>*"
proof (induction rule: rtrancl_induct)
  case (step y z)
  then have "y \<noteq> r" by blast
  then have "(x, y) \<in> {(y, z) \<in> E. z \<noteq> r}\<^sup>*" using step by blast
  then show ?case using step(2,4) by (auto intro: rtrancl_into_rtrancl)
qed simp

lemma below_leaf_acyclic:
  assumes leaf: "\<And>y. (r, y) \<notin> E" and top: "\<And>x. (x, n) \<notin> E" and m: "(n, m) \<in> E\<^sup>*" and n: "n \<noteq> r"
    and sv: "\<And>x y k. (n, x) \<in> E\<^sup>* \<Longrightarrow> (n, y) \<in> E\<^sup>* \<Longrightarrow> (x, k) \<in> E \<Longrightarrow> (y, k) \<in> E \<Longrightarrow> k \<noteq> r \<Longrightarrow> x = y"
  shows "(m, m) \<notin> E\<^sup>+"
proof (cases "m = r")
  case True
  then show ?thesis using leaf by (meson tranclD)
next
  case False
  let ?E = "{(y, z) \<in> E. z \<noteq> r}"
  have sub: "(n, x) \<in> ?E\<^sup>* \<Longrightarrow> (n, x) \<in> E\<^sup>*" for x by (erule rtrancl_mono [THEN subsetD, rotated]) auto
  have "(m, m) \<notin> ?E\<^sup>+"
    by (rule below_acyclic [OF _ _ avoids_leaf [OF m False leaf]]) (use sv sub top in auto)
  moreover have "(m, m) \<in> ?E\<^sup>+" if loop: "(m, m) \<in> E\<^sup>+"
  proof -
    obtain y where y: "(m, y) \<in> E\<^sup>*" "(y, m) \<in> E" using tranclD2 [OF loop] by blast
    then have "y \<noteq> r" using leaf by blast
    then have "(m, y) \<in> ?E\<^sup>*" using avoids_leaf [OF y(1) _ leaf] by blast
    then show ?thesis using y(2) False by (auto intro: rtrancl_into_trancl1)
  qed
  ultimately show ?thesis by blast
qed

text \<open>Both walks return from a node that nobody holds, also from a template whose contents are a shadow root that is
  still empty.\<close>

definition empty_contents :: "Dom \<Rightarrow> node \<Rightarrow> bool" where
  "empty_contents d n \<longleftrightarrow> (\<exists>r. template_content d n = Some r \<and> (\<forall>x. (r, x) \<notin> edges d))"

lemma one_holder_beside_contents:
  assumes d: "dom_inv d" "(x, m) \<in> edges d" "(y, m) \<in> edges d" and x: "template_content d x \<noteq> Some m"
    and y: "\<not> declarative d y"
  shows "x = y"
proof -
  have ok: "inner_ok d" using d(1) by (simp add: dom_inv_def)
  from d(1,2) show ?thesis
  proof (cases rule: edge_cases)
    case 1
    then have s: "shadow_root d x = Some m" using x by (simp add: inner_nodes_iff)
    then have h: "root_host d m = Some x" by (rule inner_okD(4) [OF ok])
    from d(1,3) show ?thesis
    proof (cases rule: edge_cases)
      case 1
      then have "shadow_root d y = Some m" using h y by (auto simp: inner_nodes_iff declarative_def)
      then show ?thesis using inner_okD(4) [OF ok, of y m] h by simp
    next
      case 2
      then show ?thesis using 1 by simp
    qed
  next
    case 2
    from d(1,3) show ?thesis by (cases rule: edge_cases) (use 2 in auto)
  qed
qed

lemma below_declarative:
  assumes inv: "dom_inv d" and m: "(n, m) \<in> (edges d)\<^sup>*" "m \<noteq> n"
  shows "\<not> declarative d m"
proof -
  have ok: "inner_ok d" "declared_ok d" using inv by (simp_all add: dom_inv_def)
  obtain y where "(y, m) \<in> edges d" using m by (blast elim: rtranclE)
  with inv show ?thesis
  proof (cases rule: edge_cases)
    case 1
    then show ?thesis using inner_okD(1) [OF ok(1)] declarative_element by blast
  next
    case 2
    then show ?thesis using ok(2) by (auto simp: declared_ok_def)
  qed
qed

lemma acyclic_below:
  assumes inv: "dom_inv d" and top: "\<not> held d n" and t: "declarative d n \<Longrightarrow> empty_contents d n" and m: "(n, m) \<in> (edges d)\<^sup>*"
  shows "(m, m) \<notin> (edges d)\<^sup>+"
proof (cases "declarative d n")
  case False
  have decl: "\<not> declarative d x" if "(n, x) \<in> (edges d)\<^sup>*" for x
    using below_declarative [OF inv that] False by blast
  show ?thesis
  proof (rule below_acyclic [OF _ _ m])
    show "x = y" if "(n, x) \<in> (edges d)\<^sup>*" "(n, y) \<in> (edges d)\<^sup>*" "(x, k) \<in> edges d" "(y, k) \<in> edges d" for x y k
      by (rule one_holder [OF inv that(3,4)]) (use that(1,2) decl in blast)+
    show "(x, n) \<notin> edges d" for x using top by (simp add: held_def)
  qed
next
  case True
  then obtain r where r: "template_content d n = Some r" "\<And>x. (r, x) \<notin> edges d" using t by (auto simp: empty_contents_def)
  have "(n, r) \<in> edges d" using r(1) by (simp add: edges_def inner_nodes_iff)
  then have nr: "n \<noteq> r" using r(2) by blast
  have sv: "x = y" if xy: "(n, x) \<in> (edges d)\<^sup>*" "(n, y) \<in> (edges d)\<^sup>*" "(x, k) \<in> edges d" "(y, k) \<in> edges d" "k \<noteq> r" for x y k
  proof -
    have n: "template_content d n \<noteq> Some k" using r(1) xy(5) by simp
    consider "x = n" "y = n" | "x = n" "\<not> declarative d y" | "y = n" "\<not> declarative d x" | "\<not> declarative d x" "\<not> declarative d y"
      using below_declarative [OF inv xy(1)] below_declarative [OF inv xy(2)] by blast
    then show ?thesis
    proof cases
      case 2
      then show ?thesis using one_holder_beside_contents [OF inv xy(3,4)] n by blast
    next
      case 3
      then show ?thesis using one_holder_beside_contents [OF inv xy(4,3)] n by blast
    next
      case 4
      then show ?thesis using one_holder [OF inv xy(3,4)] by blast
    qed simp
  qed
  show ?thesis
    by (rule below_leaf_acyclic [OF r(2) _ m nr]) (use top sv in \<open>auto simp: held_def\<close>)
qed

lemma walks_return:
  assumes inv: "dom_inv d" and top: "\<not> held d n" "declarative d n \<Longrightarrow> empty_contents d n" "d_nodes d n \<noteq> None" and s: "same_shape d s"
  shows "\<exists>d'. clear_top_layer_state (d_next_id s + 1) n s = Some d'" "\<exists>d'. clear_scroll_offsets (d_next_id s + 1) n s = Some d'"
proof -
  have n: "n < d_next_id d" using inv top(3) by (simp add: dom_inv_def scroll_ok_def)
  have id: "d_next_id s = d_next_id d" using s by (simp add: same_shape_def same_links_def)
  have wf: "dom_wf s" "edges s = edges d" using same_shape_wf [OF s] same_shape_edges [OF s] inv by (simp_all add: dom_inv_def)
  have acyc: "(m, m) \<notin> (edges d)\<^sup>+" if "(n, m) \<in> (edges d)\<^sup>*" for m
    by (rule acyclic_below [OF inv top(1,2) that])
  show "\<exists>d'. clear_top_layer_state (d_next_id s + 1) n s = Some d'"
    using top_walk.walk_returns [OF below_finite [OF inv] wf acyc below_card [OF inv n]] id by simp
  show "\<exists>d'. clear_scroll_offsets (d_next_id s + 1) n s = Some d'"
    using scroll_walk.walk_returns [OF below_finite [OF inv] wf acyc below_card [OF inv n]] id by simp
qed

section \<open>Counters with room\<close>

definition budget :: "nat \<Rightarrow> Dom \<Rightarrow> bool" where
  "budget k d \<longleftrightarrow> (\<forall>n i. d_nodes d n = Some i \<longrightarrow> n_mutation_revision i + k \<le> u64_max \<and> n_parent_revision i + k \<le> u64_max)
     \<and> d_slot_epoch d + k \<le> u64_max \<and> d_tree_epoch d + k \<le> u64_max \<and> d_live_epoch d + k \<le> u64_max"

definition frugal :: "Dom \<Rightarrow> Dom \<Rightarrow> bool" where
  "frugal d d' \<longleftrightarrow> (\<forall>k. budget k d \<longrightarrow> budget k d')"

lemma frugal_refl [simp]: "frugal d d"
  by (simp add: frugal_def)

lemma frugal_trans [trans]: "frugal a b \<Longrightarrow> frugal b c \<Longrightarrow> frugal a c"
  by (simp add: frugal_def)

lemma frugal_put: "d_nodes d n = Some i \<Longrightarrow> n_mutation_revision j = n_mutation_revision i \<Longrightarrow> n_parent_revision j = n_parent_revision i \<Longrightarrow> frugal d (put n j d)"
  by (auto simp: frugal_def budget_def put_def)

lemma frugal_counters [simp]:
  "frugal d (e\<lparr>d_scrolled := a\<rparr>) = frugal d e" "frugal d (e\<lparr>d_modal := a\<rparr>) = frugal d e" "frugal d (e\<lparr>d_next_order := a\<rparr>) = frugal d e"
  "frugal (d\<lparr>d_modal := a\<rparr>) e = frugal d e"
  by (simp_all add: frugal_def budget_def)

lemma frugal_set_element: "frugal d (set_element n f d)"
  by (auto simp: set_element_def intro: frugal_put split: option.splits NodeData.splits)

lemma frugal_setters:
  "frugal d (set_popover_open n b d)" "frugal d (set_picker_open n b d)" "frugal d (set_modal_dialog n b d)"
  "frugal d (set_fullscreen n b d)" "frugal d (set_scroll_offset n x y d)"
  using frugal_set_element [of "d\<lparr>d_modal := sat_step b (d_modal d)\<rparr>"]
  by (auto simp: setter_defs Let_def intro: frugal_set_element split: option.splits)

lemma frugal_walks:
  "clear_top_layer_state k n d = Some d' \<Longrightarrow> frugal d d'" "clear_scroll_offsets k n d = Some d' \<Longrightarrow> frugal d d'"
proof -
  have top: "frugal d (visit_top n d)" for n d
    unfolding visit_top_def by (meson frugal_trans frugal_setters)
  have scroll: "frugal d (visit_scroll n d)" for n d
    by (simp add: visit_scroll_def frugal_setters)
  show "clear_top_layer_state k n d = Some d' \<Longrightarrow> frugal d d'"
    by (rule top_walk.walk_rel(1) [where R = frugal]) (blast intro: frugal_refl frugal_trans top)+
  show "clear_scroll_offsets k n d = Some d' \<Longrightarrow> frugal d d'"
    by (rule scroll_walk.walk_rel(1) [where R = frugal]) (blast intro: frugal_refl frugal_trans scroll)+
qed

lemma budget_mono: "budget k d \<Longrightarrow> j \<le> k \<Longrightarrow> budget j d"
  unfolding budget_def by (meson add_le_mono le_trans order_refl)

lemma bump_returns: "budget (Suc k) d \<Longrightarrow> d_nodes d n \<noteq> None \<Longrightarrow> \<exists>d'. bump_mutation_revision n d = Some d' \<and> budget k d'"
  by (fastforce simp: budget_def bump_mutation_revision_def checked_succ_def put_def)

lemma set_parent_link_returns: "budget (Suc k) d \<Longrightarrow> d_nodes d n \<noteq> None \<Longrightarrow> \<exists>d'. set_parent_link n p d = Some d' \<and> budget k d'"
  by (fastforce simp: budget_def set_parent_link_def checked_succ_def put_def)

lemma invalidate_returns: "budget (Suc k) d \<Longrightarrow> \<exists>d'. invalidate_slot_assignments d = Some d' \<and> budget k d'"
  by (fastforce simp: budget_def invalidate_slot_assignments_def checked_succ_def)

section \<open>Moving returns\<close>

text \<open>The invariant, but for the parent of one template, which the parser has not taken out of the tree yet.\<close>

definition dom_inv_but :: "node \<Rightarrow> Dom \<Rightarrow> bool" where
  "dom_inv_but t d \<longleftrightarrow> dom_wf d \<and> inner_ok d \<and> (\<forall>n. n \<noteq> t \<longrightarrow> declarative d n \<longrightarrow> parent_node d n = None) \<and> picker_ok d \<and> scroll_ok d"

lemma dom_inv_but: "dom_inv d \<Longrightarrow> dom_inv_but t d"
  by (simp add: dom_inv_def dom_inv_but_def declared_ok_def)

lemma inv_child_not_declarative: "dom_inv d \<Longrightarrow> child_slot d self child = Some s \<Longrightarrow> \<not> declarative d child"
proof -
  assume inv: "dom_inv d" and s: "child_slot d self child = Some s"
  then have "parent_node d child = Some self"
    using child_slot_iff [of d self child] by (auto simp: dom_inv_def parent_node_links parent_in_def)
  then show ?thesis using inv by (auto simp: dom_inv_def declared_ok_def)
qed

text \<open>The state in which a removal starts to walk: the child is detached and nobody holds it.\<close>

lemma unlinked_state:
  assumes inv: "dom_inv_but child d" and slot: "child_slot d self child = Some s" and si: "d_nodes d self = Some si"
    and rem: "remove s (n_children si) = Some (r, c)"
    and d1: "bump_mutation_revision self (put self (si\<lparr>n_children := c\<rparr>) d) = Some d1" and d2: "set_parent_link r None d1 = Some d2"
  shows "r = child" "dom_inv d2" "\<not> held d2 child" "d_nodes d2 child \<noteq> None" "declarative d2 child = declarative d child"
    "edges d2 \<subseteq> edges d" "template_content d2 n = template_content d n"
proof -
  have wf: "dom_wf d" using inv by (simp add: dom_inv_but_def)
  note W = dom_wf_links [OF wf]
  obtain a b e where L: "links d self = Some (a, b, n_children si)" "links d child = Some (Some self, s, e)"
    using slot child_slot_iff [OF wf] si by (auto simp: links_def link_of_def)
  have ok: "children_ok (n_children si)" using wf_linksD(1) [OF W L(1)] by blast
  have r: "r = child" "children_ok c" "slot_seq c = filter (\<lambda>(i, _). i \<noteq> s) (slot_seq (n_children si))"
    using kids.remove_slot [OF ok slot_of_child(1) [OF W L(2,1)]] rem by auto
  show "r = child" by (rule r(1))
  have neq: "self \<noteq> child" by (rule parent_neq [OF W L(2,1)])
  let ?d0 = "put self (si\<lparr>n_children := c\<rparr>) d"
  have "link_of si = (a, b, n_children si)" using L(1) si by (simp add: links_def)
  then have l0: "links ?d0 = (links d)(self \<mapsto> (a, b, c))" by (simp add: link_of_def)
  have l1: "links d1 = links ?d0" "d_next_id d1 = d_next_id d" using same_links_bump [OF d1] by (simp_all add: same_links_def)
  have l2: "links d2 = (links d)(self \<mapsto> (a, b, c), child \<mapsto> (None, 0, e))" and id: "d_next_id d2 = d_next_id d"
    using set_parent_link_links [OF d2 [unfolded r(1)]] l1 l0 L(2) neq by auto
  have wf2: "dom_wf d2" using wf_unlink [OF W L(1,2) r(2,3)] by (simp add: dom_wf_def l2 id)
  have "settled d ?d0" using si by (simp add: settled_put)
  then have set2: "settled d d2" using settled_links(1) [OF d1] settled_links(2) [OF d2] settled_trans by blast
  have par: "parent_node d child = Some self" "parent_node d2 child = None" using L by (simp_all add: parent_node_links parent_in_def l2)
  have none: "parent_node d2 m = None" if "parent_node d m = None" for m
    using that up_unlink [OF L(1,2), of c 0 e] by (cases "parent_node d2 m") (auto simp: parent_node_links up_def l2)
  have ok: "inner_ok d" "picker_ok d" "scroll_ok d" using inv by (simp_all add: dom_inv_but_def)
  have "declared_ok d2"
    unfolding declared_ok_def settled_owners [OF set2]
    using inv none par(2) by (metis dom_inv_but_def)
  then show inv2: "dom_inv d2"
    using settled_inner_ok [OF set2 none ok(1)] set2 ok(2,3) wf2 by (simp add: dom_inv_def settled_def)
  show "\<not> held d2 child"
  proof
    assume "held d2 child"
    then obtain x where "(x, child) \<in> edges d2" by (auto simp: held_def)
    with inv2 show False
    proof (cases rule: edge_cases)
      case 1
      then have "parent_node d child = None" using inner_okD(2) [OF ok(1)] settled_inner [OF set2] by metis
      then show False using par by simp
    qed (use par in simp)
  qed
  show "declarative d2 child = declarative d child" "template_content d2 n = template_content d n"
    by (simp_all add: settled_owners [OF set2])
  have "set (kids_of d2 m) \<subseteq> set (kids_of d m)" for m
    using L r(3) neq by (auto simp: kids_of_def children_of_links l2 split: if_splits)
  then show "edges d2 \<subseteq> edges d" by (auto simp: edges_def settled_inner [OF set2])
  show "d_nodes d2 child \<noteq> None" using l2 links_None [of d2 child] by auto
qed

lemma remove_returns_but:
  assumes inv: "dom_inv_but child d" and t: "declarative d child \<Longrightarrow> empty_contents d child" and b: "budget (Suc (Suc (Suc k))) d"
  shows "\<exists>res d'. remove_child self child d = Some (res, d') \<and> budget k d'"
proof (cases "child_slot d self child")
  case None
  then show ?thesis using b by (force simp: remove_child_def budget_def)
next
  case (Some s)
  have wf: "dom_wf d" using inv by (simp add: dom_inv_but_def)
  note W = dom_wf_links [OF wf]
  obtain e a t c where L: "links d child = Some (Some self, s, e)" "links d self = Some (a, t, c)"
    using Some child_slot_iff [OF wf] by (cases "links d self") auto
  obtain si where si: "d_nodes d self = Some si" "n_children si = c" using L(2) by (auto simp: links_Some link_of_def)
  have ok: "children_ok c" using wf_linksD(1) [OF W L(2)] by blast
  obtain c' where c': "remove s (n_children si) = Some (child, c')" using kids.remove_slot [OF ok slot_of_child(1) [OF W L]] si(2) by blast
  let ?d0 = "put self (si\<lparr>n_children := c'\<rparr>) d"
  have b0: "budget (Suc (Suc (Suc k))) ?d0" using frugal_put [OF si(1), of "si\<lparr>n_children := c'\<rparr>"] b by (simp add: frugal_def)
  obtain d1 where d1: "bump_mutation_revision self ?d0 = Some d1" "budget (Suc (Suc k)) d1"
    using bump_returns [OF b0, of self] by (auto simp: put_def)
  have "d_nodes d1 child \<noteq> None"
    using same_links_queries(5) [OF same_links_bump [OF d1(1)], of child] L(1) links_None [of d child] by (auto simp: put_def)
  then obtain d2 where d2: "set_parent_link child None d1 = Some d2" "budget (Suc k) d2"
    using set_parent_link_returns [OF d1(2)] by blast
  note L = unlinked_state [OF inv Some si(1) c' d1(1) d2(1)]
  have "empty_contents d2 child" if "declarative d2 child"
    using t that L(5,6) L(7) [of child] by (auto simp: empty_contents_def)
  note U = L(2,3) this L(4)
  obtain d3 where d3: "clear_top_layer_state (d_next_id d2 + 1) child d2 = Some d3" using walks_return(1) [OF U same_shape_refl] by blast
  have b3: "budget (Suc k) d3" using frugal_walks(1) [OF d3] d2(2) by (simp add: frugal_def)
  obtain d4 where d4: "invalidate_slot_assignments d3 = Some d4" "budget k d4" using invalidate_returns [OF b3] by blast
  have "same_shape d3 d4"
    using same_links_invalidate [OF d4(1)] settled_inner [OF settled_links(3) [OF d4(1)]] by (simp add: same_shape_def)
  then have sh: "same_shape d2 d4" using top_walk.walk_shape [OF d3] same_shape_trans by blast
  obtain d5 where d5: "clear_scroll_offsets (d_next_id d4 + 1) child d4 = Some d5" using walks_return(2) [OF U sh] by blast
  have b5: "budget k d5" using frugal_walks(2) [OF d5] d4(2) by (simp add: frugal_def)
  show ?thesis
  proof (cases "any_element_scrolled d4")
    case True
    then have "remove_child self child d = Some (Inr child, d5)"
      unfolding remove_child_def Some option.case si(1) Option.bind.bind_lunit c' prod.case Let_def d1(1) d2(1) d3 d4(1) d5 by simp
    then show ?thesis using b5 by blast
  next
    case False
    then have "remove_child self child d = Some (Inr child, d4)"
      unfolding remove_child_def Some option.case si(1) Option.bind.bind_lunit c' prod.case Let_def d1(1) d2(1) d3 d4(1) by simp
    then show ?thesis using d4(2) by blast
  qed
qed

lemma remove_returns:
  assumes inv: "dom_inv d" and b: "budget (Suc (Suc (Suc k))) d"
  shows "\<exists>res d'. remove_child self child d = Some (res, d') \<and> budget k d'"
proof (cases "declarative d child")
  case True
  then have "child_slot d self child = None" using inv_child_not_declarative [OF inv] by (cases "child_slot d self child") auto
  then show ?thesis using b by (force simp: remove_child_def budget_def)
next
  case False
  then show ?thesis using remove_returns_but [OF dom_inv_but [OF inv] _ b] by blast
qed

lemma detach_returns: "dom_inv d \<Longrightarrow> budget (Suc (Suc (Suc k))) d \<Longrightarrow> \<exists>d'. detach_from_parent child d = Some d' \<and> budget k d'"
proof (cases "parent_node d child")
  case None
  assume "budget (Suc (Suc (Suc k))) d"
  then have "budget k d" by (rule budget_mono) simp
  then show ?thesis using None by (simp add: detach_from_parent_def)
next
  case (Some p)
  assume "dom_inv d" "budget (Suc (Suc (Suc k))) d"
  from remove_returns [OF this] obtain res d' where "remove_child p child d = Some (res, d')" "budget k d'" by blast
  then show ?thesis using Some by (auto simp: detach_from_parent_def)
qed

lemma attach_returns:
  assumes b: "budget (k + 3) d1" and live: "d_nodes d1 self \<noteq> None" "d_nodes d1 child \<noteq> None"
    and place: "\<And>d2. set_parent_link child (Some self) d1 = Some d2 \<Longrightarrow> \<exists>r. place d2 = Some r"
  shows "\<exists>d2 r d3 d4 d5. set_parent_link child (Some self) d1 = Some d2 \<and> place d2 = Some r \<and> put_children self child r d2 = Some d3
    \<and> bump_mutation_revision self d3 = Some d4 \<and> invalidate_slot_assignments d4 = Some d5 \<and> budget k d5"
proof -
  have b3: "budget (Suc (Suc (Suc k))) d1" using b by (simp add: eval_nat_numeral)
  obtain d2 where d2: "set_parent_link child (Some self) d1 = Some d2" "budget (Suc (Suc k)) d2"
    using set_parent_link_returns [OF b3 live(2)] by blast
  obtain r where r: "place d2 = Some r" using place [OF d2(1)] by blast
  obtain q s c where L2: "links d2 = (links d1)(child \<mapsto> (q, s, c))" using set_parent_link_links [OF d2(1)] by auto
  have dead: "links d1 self \<noteq> None" using live(1) links_None by simp
  have live2: "links d2 self \<noteq> None" "links d2 child \<noteq> None" using dead by (auto simp: L2)
  obtain ci where ci: "d_nodes d2 child = Some ci" using live2(2) links_None [of d2 child] by auto
  let ?d = "put child (ci\<lparr>n_parent_slot := fst r child\<rparr>) d2"
  have "links ?d self \<noteq> None" using live2(1) by (simp add: link_of_def)
  then obtain si where si: "d_nodes ?d self = Some si" using links_None [of ?d self] by auto
  let ?d3 = "put self (si\<lparr>n_children := snd r\<rparr>) ?d"
  have d3: "put_children self child r d2 = Some ?d3" by (simp add: put_children_def ci Let_def si)
  have "frugal d2 ?d" using ci by (rule frugal_put) simp_all
  also have "frugal ?d ?d3" using si by (rule frugal_put) simp_all
  finally have b4: "budget (Suc (Suc k)) ?d3" using d2(2) by (simp add: frugal_def)
  obtain d4 where d4: "bump_mutation_revision self ?d3 = Some d4" "budget (Suc k) d4" using bump_returns [OF b4, of self] by (auto simp: put_def)
  obtain d5 where "invalidate_slot_assignments d4 = Some d5" "budget k d5" using invalidate_returns [OF d4(2)] by blast
  then show ?thesis using d2(1) r d3 d4(1) by blast
qed

text \<open>After the detachment, the parent still has room for the child.\<close>

lemma detached_place:
  assumes inv: "dom_inv d" and room: "dom_room d" and live: "live d self" "live d child" and neq: "self \<noteq> child"
    and d1: "detach_from_parent child d = Some d1"
  shows "d_nodes d1 self \<noteq> None" "d_nodes d1 child \<noteq> None" "dom_wf d1" "children_room (children_of d1 self)"
    "\<And>d2. set_parent_link child (Some self) d1 = Some d2 \<Longrightarrow> children_of d2 self = children_of d1 self"
    "children_ok (children_of d1 self)"
proof -
  have wf: "dom_wf d" using inv by (simp add: dom_inv_def)
  obtain q s e where l: "links d child = Some (q, s, e)" using live(2) by (cases "links d child") (auto simp: live_def links_None)
  have D: "dom_wf d1" "\<exists>q s. links d1 child = Some (q, s, e)"
    "map_option (\<lambda>(a, b, _). (a, b)) (links d1 self) = map_option (\<lambda>(a, b, _). (a, b)) (links d self)"
    by (rule detach_links [OF wf d1 l]; use neq in blast)+
  have self: "links d1 self \<noteq> None" using D(3) live(1) links_None [of d self] by (auto simp: live_def)
  then show "d_nodes d1 self \<noteq> None" using links_None by simp
  show "d_nodes d1 child \<noteq> None" using D(2) links_None [of d1 child] by auto
  show "dom_wf d1" by (rule D(1))
  show "children_room (children_of d1 self)" using detach_room [OF wf l d1 room] by (simp add: dom_room_def)
  obtain a b c where L: "links d1 self = Some (a, b, c)" using self by (cases "links d1 self") auto
  then show "children_ok (children_of d1 self)" using wf_linksD(1) [OF dom_wf_links [OF D(1)] L] by (simp add: children_of_links)
  show "children_of d2 self = children_of d1 self" if "set_parent_link child (Some self) d1 = Some d2" for d2
    using set_parent_link_links [OF that] neq by (auto simp: children_of_links)
qed

lemma append_returns:
  assumes inv: "dom_inv d" and room: "dom_room d" and live: "live d self" "live d child" and b: "budget (k + 6) d"
  shows "\<exists>d'. append_child self child d = Some d' \<and> budget k d'"
proof (cases "(self, child) \<in> (up (links d))\<^sup>*")
  case True
  then show ?thesis using is_inclusive_ancestor_spec [of d child self] inv budget_mono [OF b, of k] by (simp add: append_child_def dom_inv_def)
next
  case False
  then have neq: "self \<noteq> child" by blast
  have "budget (Suc (Suc (Suc (k + 3)))) d" using b by (simp add: eval_nat_numeral)
  then obtain d1 where d1: "detach_from_parent child d = Some d1" "budget (k + 3) d1" using detach_returns [OF inv] by blast
  note D = detached_place [OF inv room live neq d1(1)]
  have "\<exists>r. push child (slots_of d2, children_of d2 self) = Some r" if "set_parent_link child (Some self) d1 = Some d2" for d2
    using kids.push [OF D(6,4), of child "slots_of d2"] D(5) [OF that] by auto
  from attach_returns [OF d1(2) D(1,2) this] show ?thesis
    using is_inclusive_ancestor_spec [of d child self] inv False d1(1) by (fastforce simp: append_child_def dom_inv_def)
qed

lemma insert_returns:
  assumes inv: "dom_inv d" and room: "dom_room d" and live: "live d self" "live d new" and b: "budget 6 d"
  shows "\<exists>res d'. dom_insert_before self new ref d = Some (res, d')"
proof (cases "(self, new) \<in> (up (links d))\<^sup>* \<or> child_slot d self ref = None")
  case True
  then show ?thesis using is_inclusive_ancestor_spec [of d new self] inv by (auto simp: dom_insert_before_def dom_inv_def)
next
  case False
  then have neq: "self \<noteq> new" by blast
  obtain t where t: "child_slot d self ref = Some t" using False by blast
  have "budget (Suc (Suc (Suc (0 + 3)))) d" using b by (simp add: eval_nat_numeral)
  then obtain d1 where d1: "detach_from_parent new d = Some d1" "budget (0 + 3) d1" using detach_returns [OF inv] by blast
  note D = detached_place [OF inv room live neq d1(1)]
  define ram where "ram = (if new = ref then adjacent (children_of d self) t False else Some ref)"
  define rs :: "DomError + nat option" where "rs = (case ram of None \<Rightarrow> Inr None | Some reference \<Rightarrow> (case child_slot d1 self reference of
    None \<Rightarrow> Inl ReferenceChildNotFound | Some slot \<Rightarrow> Inr (Some slot)))"
  have run: "dom_insert_before self new ref d = (case rs of Inl e \<Rightarrow> Some (Inl e, d1)
      | Inr reference_slot \<Rightarrow> Option.bind (set_parent_link new (Some self) d1) (\<lambda>d2.
          Option.bind (case reference_slot of Some slot \<Rightarrow> insert_before new slot (slots_of d2, children_of d2 self)
              | None \<Rightarrow> push new (slots_of d2, children_of d2 self)) (\<lambda>r.
            Option.bind (put_children self new r d2) (\<lambda>d3. Option.bind (bump_mutation_revision self d3) (\<lambda>d4.
              map_option (\<lambda>d5. (Inr (), d5)) (invalidate_slot_assignments d4))))))"
    using is_inclusive_ancestor_spec [of d new self] inv False t d1(1)
    by (simp add: dom_insert_before_def dom_inv_def Let_def ram_def [symmetric] rs_def [symmetric])
  show ?thesis
  proof (cases rs)
    case (Inl e)
    then show ?thesis using run by simp
  next
    case (Inr slot)
    define place where "place d2 = (case slot of Some i \<Rightarrow> insert_before new i (slots_of d2, children_of d2 self)
        | None \<Rightarrow> push new (slots_of d2, children_of d2 self))" for d2
    have "\<exists>r. place d2 = Some r" if d2: "set_parent_link new (Some self) d1 = Some d2" for d2
    proof (cases slot)
      case None
      then show ?thesis using kids.push [OF D(6,4), of new "slots_of d2"] D(5) [OF d2] by (auto simp: place_def)
    next
      case (Some i)
      then obtain r where "child_slot d1 self r = Some i" using Inr by (auto simp: rs_def split: option.splits)
      then have "get_slot (children_of d1 self) i = Some r" by (auto simp: child_slot_def split: Option.bind_splits if_splits)
      then obtain xs ys where "slot_seq (children_of d1 self) = xs @ (i, r) # ys" using kids.slot_split [OF D(6)] by blast
      then show ?thesis using kids.insert [OF D(6,4), of xs i r ys new "slots_of d2"] D(5) [OF d2] Some by (auto simp: place_def)
    qed
    from attach_returns [of 0 d1 self new place, OF d1(2) D(1,2) this] obtain d2 r d3 d4 d5 where
      "set_parent_link new (Some self) d1 = Some d2" "place d2 = Some r" "put_children self new r d2 = Some d3"
      "bump_mutation_revision self d3 = Some d4" "invalidate_slot_assignments d4 = Some d5" by blast
    then show ?thesis unfolding run Inr place_def by simp
  qed
qed

text \<open>Declaring a shadow root returns, wherever the template is: the new root is empty when the template is detached.\<close>

lemma budget_new: "budget k d \<Longrightarrow> budget k (snd (node_new data d))"
  by (auto simp: budget_def node_new_def put_def inner_new_def)

lemma budget_put: "budget k d \<Longrightarrow> d_nodes d n = Some i \<Longrightarrow> budget k (put n (i\<lparr>n_data := x\<rparr>) d)"
  using frugal_put [of d n i "i\<lparr>n_data := x\<rparr>"] by (simp add: frugal_def)

lemma attach_returns_root:
  assumes inv: "dom_inv d" and live: "live d host" and b: "budget k d"
  shows "\<exists>r d'. attach_shadow host d = Some (r, d') \<and> budget k d' \<and> (\<forall>root. r = Some root \<longrightarrow> (\<forall>x. (root, x) \<notin> edges d'))"
proof -
  obtain i where i: "d_nodes d host = Some i" using live by (auto simp: live_def)
  show ?thesis
  proof (cases "\<exists>e. n_data i = ElementData e \<and> e_shadow_root e = None")
    case False
    then have "attach_shadow host d = Some (None, d)" using i by (auto simp: attach_shadow_def split: NodeData.split)
    then show ?thesis using b by blast
  next
    case True
    then obtain e where e: "n_data i = ElementData e" "e_shadow_root e = None" by blast
    let ?k = "d_next_id d" and ?d1 = "snd (node_new (ShadowRootData host) d)"
    let ?d = "put host (i\<lparr>n_data := ElementData (e\<lparr>e_shadow_root := Some ?k\<rparr>)\<rparr>) ?d1"
    have run: "attach_shadow host d = Some (Some ?k, ?d)" using i e by (simp add: attach_shadow_def node_new_def Let_def)
    have fresh: "d_nodes d ?k = None" using dead_above [of d ?k] inv by (simp add: dom_inv_def)
    then have h: "host \<noteq> ?k" "d_nodes ?d1 host = Some i" using i by (auto simp: node_new_def put_def)
    have k: "d_nodes ?d ?k = Some (inner_new (ShadowRootData host))" using h(1) by (simp add: node_new_def put_def)
    have "kids_of ?d ?k = []" using k by (simp add: kids_of_def children_of_def inner_new_def slot_seq_def)
    moreover have "inner_nodes ?d ?k = []" using k by (simp add: inner_nodes_in inner_new_def inner_in_def element_in_def)
    ultimately have "(?k, x) \<notin> edges ?d" for x by (simp add: edges_def)
    moreover have "budget k ?d" by (rule budget_put [OF budget_new [OF b] h(2)])
    ultimately show ?thesis using run by blast
  qed
qed

lemma declare_returns:
  assumes inv: "dom_inv d" and live: "live d host" and b: "budget (Suc (Suc (Suc (Suc k)))) d"
  shows "\<exists>d'. declare_shadow_root host t manual d = Some d'"
proof -
  obtain r d0 where d0: "attach_shadow host d = Some (r, d0)" "budget (Suc (Suc (Suc (Suc k)))) d0"
    and leaf: "\<And>root x. r = Some root \<Longrightarrow> (root, x) \<notin> edges d0"
    using attach_returns_root [OF inv live b] by blast
  show ?thesis
  proof (cases r)
    case None
    then show ?thesis using d0(1) by (simp add: declare_shadow_root_def)
  next
    case (Some root)
    have "budget (Suc (Suc (Suc k))) d0" by (rule budget_mono [OF d0(2)]) simp
    then obtain d1 where d1: "(if manual then invalidate_slot_assignments d0 else Some d0) = Some d1" "budget (Suc (Suc (Suc k))) d1"
      using invalidate_returns [OF d0(2)] by (cases manual) auto
    have run: "declare_shadow_root host t manual d = (let (changed, d2) = set_template_content t root d1
        in if \<not> changed then Some d2
           else case parent_node d2 t of None \<Rightarrow> Some d2 | Some parent \<Rightarrow> map_option snd (remove_child parent t d2))"
      using d0(1) Some d1(1) by (simp add: declare_shadow_root_def del: if_split)
    note A = attach_new_settings [OF inv d0(1) [unfolded Some] d1(1)]
    show ?thesis
    proof (cases "\<exists>i e. d_nodes d1 t = Some i \<and> n_data i = ElementData e \<and> eq_ignore_ascii_case (e_tag_name e) ''template''")
      case False
      then have "set_template_content t root d1 = (False, d1)"
        by (cases "d_nodes d1 t") (auto simp: set_template_content_def split: NodeData.split)
      then show ?thesis unfolding run by simp
    next
      case True
      then obtain i e where t: "d_nodes d1 t = Some i" "n_data i = ElementData e" "eq_ignore_ascii_case (e_tag_name e) ''template''"
        by blast
      define d2 where "d2 = put t (i\<lparr>n_data := ElementData (e\<lparr>e_template_content := Some root\<rparr>)\<rparr>) d1"
      have ok1: "inner_ok d1" "dom_wf d1" "picker_ok d1" "scroll_ok d1" "declared_ok d1" using A(1) by (simp_all add: dom_inv_def)
      note C = content_put [OF ok1(1) t(1,2) A(2,3,4), folded d2_def]
      have inv2: "dom_inv_but t d2"
        using C same_links_wf [OF C(1) ok1(2)] ok1(3-5) same_links_queries(1) [OF C(1)] by (simp add: dom_inv_but_def declared_ok_def)
      have tc: "template_content d2 t = Some root" by (simp add: d2_def template_content_def element_of_def put_def)
      have nr: "t \<noteq> root" using A(2) t(1,2) by (auto simp: container_def is_container_def)
      have k: "same_links d0 d1" "settled d0 d1" using settings_kept [OF d1(1)] by simp_all
      have "inner_nodes d2 root = inner_nodes d1 root" using nr by (simp add: inner_nodes_in d2_def put_def)
      then have "inner_nodes d2 root = inner_nodes d0 root" using settled_inner [OF k(2)] by simp
      then have "(root, x) \<notin> edges d2" for x
        using leaf [OF Some, of x] same_links_queries(2) [OF C(1)] same_links_queries(2) [OF k(1)] by (simp add: edges_def kids_of_def)
      then have "empty_contents d2 t" using tc by (auto simp: empty_contents_def)
      moreover have "budget (Suc (Suc (Suc k))) d2" unfolding d2_def by (rule budget_put [OF d1(2) t(1)])
      ultimately have "\<exists>res d3. remove_child p t d2 = Some (res, d3)" for p
        using remove_returns_but [OF inv2] by blast
      moreover have "set_template_content t root d1 = (True, d2)" using t by (simp add: set_template_content_def d2_def)
      ultimately show ?thesis unfolding run by (cases "parent_node d2 t") fastforce+
    qed
  qed
qed

text \<open>What the guard on insertions is for: once such a template is inserted again, removing it does not return when the host
  is inside its own shadow tree, where the moves allow it; the walk has no bound that suffices.\<close>

lemma declared_template_walk_diverges:
  assumes "dom_wf d" "template_content d t = Some r" "shadow_root d h = Some r" "parent_node d h = Some r"
  shows "clear_top_layer_state k t d = None" "clear_scroll_offsets k t d = None"
proof -
  obtain s c a b e where L: "links d h = Some (Some r, s, c)" "links d r = Some (a, b, e)"
    using assms(4) by (auto simp: parent_node_links parent_in_def split: option.splits if_splits)
  have "(s, h) \<in> set (slot_seq e)" by (rule wf_linksD(4) [OF dom_wf_links [OF assms(1)] L])
  then have "h \<in> set (kids_of d r)" using L(2) by (force simp: kids_of_def children_of_links)
  then have E: "(t, r) \<in> edges d" "(r, h) \<in> edges d" "(h, r) \<in> edges d"
    using assms(2,3) by (simp_all add: edges_def inner_nodes_iff)
  have S: "\<exists>z\<in>{t, r, h}. (y, z) \<in> edges d" if "y \<in> {t, r, h}" for y using that E by blast
  show "clear_top_layer_state k t d = None" by (rule top_walk.walk_diverges [OF assms(1) S same_shape_refl]) simp_all
  show "clear_scroll_offsets k t d = None" by (rule scroll_walk.walk_diverges [OF assms(1) S same_shape_refl]) simp_all
qed

end
