(* ===== verification/DomProps.thy ===== *)
theory DomProps
  imports DomReturns
begin

text \<open>
  The properties of the node tree: the forest that all reachable states describe, the effect of every move,
  that moves return, and what a removal resets.
\<close>

section \<open>The forest\<close>

lemma kids_of_parent:
  assumes wf: "dom_wf d"
  shows "m \<in> set (kids_of d p) \<longleftrightarrow> parent_node d m = Some p"
proof
  assume "m \<in> set (kids_of d p)"
  then show "parent_node d m = Some p" using kid_parent [OF wf] by blast
next
  assume "parent_node d m = Some p"
  then obtain s c a b e where L: "links d m = Some (Some p, s, c)" "links d p = Some (a, b, e)"
    by (auto simp: parent_node_links parent_in_def split: option.splits if_splits)
  have "(s, m) \<in> set (slot_seq e)" by (rule wf_linksD(4) [OF dom_wf_links [OF wf] L])
  then show "m \<in> set (kids_of d p)" using L(2) by (force simp: kids_of_def children_of_links)
qed

lemma children_of_ok: "dom_wf d \<Longrightarrow> children_ok (children_of d p)"
  using wf_linksD(1) [OF dom_wf_links] by (cases "links d p") (fastforce simp: children_of_links children_ok_def)+

lemma siblings:
  assumes wf: "dom_wf d" and ks: "kids_of d p = xs @ m # ys"
  shows "next_sibling d m = (case ys of [] \<Rightarrow> None | y # _ \<Rightarrow> Some y)" "previous_sibling d m = (if xs = [] then None else Some (last xs))"
proof -
  have par: "parent_node d m = Some p" using kids_of_parent [OF wf, of m p] ks by simp
  obtain us i vs where u: "slot_seq (children_of d p) = us @ (i, m) # vs" "xs = map snd us" "ys = map snd vs"
    using ks by (auto simp: kids_of_def map_eq_append_conv map_eq_Cons_conv)
  obtain a b c where L: "links d p = Some (a, b, c)" "children_of d p = c"
    using u(1) by (cases "links d p") (auto simp: children_of_links slot_seq_def)
  have "(i, m) \<in> set (slot_seq c)" using u(1) L(2) by simp
  then have "child_slot d p m = Some i" using wf_linksD(3) [OF dom_wf_links [OF wf] L(1)] child_slot_iff [OF wf] L(1) by blast
  then show "next_sibling d m = (case ys of [] \<Rightarrow> None | y # _ \<Rightarrow> Some y)" "previous_sibling d m = (if xs = [] then None else Some (last xs))"
    using par adjacent_spec [OF children_of_ok [OF wf] u(1)] u(2,3)
    by (auto simp: next_sibling_def previous_sibling_def adjacent_sibling_def last_map split: list.splits)
qed

text \<open>
  C8: In every reachable state, declarative shadow roots included, children and parent links describe the same
  forest: the children of a node are distinct and are exactly the nodes whose parent it is, the sibling queries
  follow their order, ancestry has no cycle, template contents and shadow roots are containers without parent, a
  container is the contents of at most one template and the shadow root of at most one element, both at
  once only where the template is one that the parser took out of the tree for it: it has no parent
  and is held by no node. The count of scrolled elements is at least their number.  The states are those of moves that
  do not insert such a template again.
\<close>

theorem dom_reachable_forest:
  assumes "dom_reachable d"
  shows "(\<forall>p. \<exists>ks. child_nodes d p = Some ks \<and> distinct ks \<and> (\<forall>m. m \<in> set ks \<longleftrightarrow> parent_node d m = Some p)
        \<and> first_child d p = (case ks of [] \<Rightarrow> None | k # _ \<Rightarrow> Some k) \<and> last_child d p = (if ks = [] then None else Some (last ks))
        \<and> (\<forall>xs m ys. ks = xs @ m # ys \<longrightarrow> next_sibling d m = (case ys of [] \<Rightarrow> None | y # _ \<Rightarrow> Some y)
              \<and> previous_sibling d m = (if xs = [] then None else Some (last xs))))
    \<and> acyclic {(n, p). parent_node d n = Some p}
    \<and> (\<forall>n m. template_content d n = Some m \<or> shadow_root d n = Some m \<longrightarrow> container d m \<and> parent_node d m = None)
    \<and> (\<forall>n n' m. template_content d n = Some m \<and> template_content d n' = Some m \<longrightarrow> n' = n)
    \<and> (\<forall>n n' m. shadow_root d n = Some m \<and> shadow_root d n' = Some m \<longrightarrow> n' = n)
    \<and> (\<forall>t h m. template_content d t = Some m \<and> shadow_root d h = Some m \<longrightarrow>
          parent_node d t = None \<and> (\<forall>n. template_content d n \<noteq> Some t \<and> shadow_root d n \<noteq> Some t))
    \<and> (d_next_id d \<le> u64_max \<longrightarrow> card {n. \<not> is_origin (scroll_offset d n)} \<le> d_scrolled d)"
proof -
  have inv: "dom_inv d" using assms by (rule dom_reachable_inv)
  then have wf: "dom_wf d" by (simp add: dom_inv_def)
  have inner: "m \<in> set (inner_nodes d n) \<longleftrightarrow> template_content d n = Some m \<or> shadow_root d n = Some m" for n m
    by (rule inner_nodes_iff)
  have dist: "distinct (kids_of d p)" for p
    using kids_distinct [OF dom_wf_links [OF wf], of p] by (cases "links d p") (auto simp: kids_of_def children_of_links slot_seq_def)
  have ends: "first_child d p = (case kids_of d p of [] \<Rightarrow> None | k # _ \<Rightarrow> Some k)"
    "last_child d p = (if kids_of d p = [] then None else Some (last (kids_of d p)))" for p
    using children_ends_spec [OF children_of_ok [OF wf, of p]]
    by (auto simp: first_child_def last_child_def kids_of_def last_map split: list.splits)
  have acyc: "acyclic {(n, p). parent_node d n = Some p}"
    using wf_linksD(5) [OF dom_wf_links [OF wf]] by (simp add: up_def parent_node_links)
  have ok: "inner_ok d" "declared_ok d" using inv by (simp_all add: dom_inv_def)
  have own: "\<forall>n m. template_content d n = Some m \<or> shadow_root d n = Some m \<longrightarrow> container d m \<and> parent_node d m = None"
    "\<forall>n n' m. template_content d n = Some m \<and> template_content d n' = Some m \<longrightarrow> n' = n"
    "\<forall>n n' m. shadow_root d n = Some m \<and> shadow_root d n' = Some m \<longrightarrow> n' = n"
    using inner_okD [OF ok(1)] unfolding inner by (blast, blast, metis option.inject)
  have decl: "\<forall>t h m. template_content d t = Some m \<and> shadow_root d h = Some m \<longrightarrow>
      parent_node d t = None \<and> (\<forall>n. template_content d n \<noteq> Some t \<and> shadow_root d n \<noteq> Some t)"
  proof (intro allI impI)
    fix t h m assume t: "template_content d t = Some m \<and> shadow_root d h = Some m"
    then have "declarative d t" using inner_okD(4) [OF ok(1), of h m] by (auto simp: declarative_def)
    moreover from this have "\<not> container d t" by (rule declarative_element)
    ultimately show "parent_node d t = None \<and> (\<forall>n. template_content d n \<noteq> Some t \<and> shadow_root d n \<noteq> Some t)"
      using ok(2) own(1) by (auto simp: declared_ok_def)
  qed
  have "\<forall>p. \<exists>ks. child_nodes d p = Some ks \<and> distinct ks \<and> (\<forall>m. m \<in> set ks \<longleftrightarrow> parent_node d m = Some p)
        \<and> first_child d p = (case ks of [] \<Rightarrow> None | k # _ \<Rightarrow> Some k) \<and> last_child d p = (if ks = [] then None else Some (last ks))
        \<and> (\<forall>xs m ys. ks = xs @ m # ys \<longrightarrow> next_sibling d m = (case ys of [] \<Rightarrow> None | y # _ \<Rightarrow> Some y)
              \<and> previous_sibling d m = (if xs = [] then None else Some (last xs)))"
  proof
    fix p
    have "child_nodes d p = Some (kids_of d p)" by (rule child_nodes_kids [OF wf])
    then show "\<exists>ks. child_nodes d p = Some ks \<and> distinct ks \<and> (\<forall>m. m \<in> set ks \<longleftrightarrow> parent_node d m = Some p)
        \<and> first_child d p = (case ks of [] \<Rightarrow> None | k # _ \<Rightarrow> Some k) \<and> last_child d p = (if ks = [] then None else Some (last ks))
        \<and> (\<forall>xs m ys. ks = xs @ m # ys \<longrightarrow> next_sibling d m = (case ys of [] \<Rightarrow> None | y # _ \<Rightarrow> Some y)
              \<and> previous_sibling d m = (if xs = [] then None else Some (last xs)))"
      using dist kids_of_parent [OF wf] ends siblings [OF wf] by blast
  qed
  moreover have "d_next_id d \<le> u64_max \<longrightarrow> card {n. \<not> is_origin (scroll_offset d n)} \<le> d_scrolled d"
    using inv by (simp add: dom_inv_def scroll_ok_def scrolled_def unscrolled_def)
  ultimately show ?thesis using acyc own decl by (intro conjI)
qed

section \<open>Moves\<close>

text \<open>The node \<open>child\<close> ends up below \<open>self\<close>, whose children are \<open>ks\<close>; nothing else changes place.\<close>

definition moved_to :: "Dom \<Rightarrow> Dom \<Rightarrow> node \<Rightarrow> node \<Rightarrow> node list \<Rightarrow> bool" where
  "moved_to d d' self child ks \<longleftrightarrow> child_nodes d' self = Some ks \<and> parent_node d' child = Some self
     \<and> (\<forall>n. n \<noteq> self \<longrightarrow> child_nodes d' n = map_option (filter (\<lambda>m. m \<noteq> child)) (child_nodes d n))
     \<and> (\<forall>n. n \<noteq> child \<longrightarrow> parent_node d' n = parent_node d n)"

lemma moved_to: "dom_wf d \<Longrightarrow> dom_wf d' \<Longrightarrow> moved d d' self child ks \<Longrightarrow> moved_to d d' self child ks"
  by (simp add: moved_def moved_to_def child_nodes_kids)

text \<open>
  C9: In every reachable state, appending and inserting either reject a node that is an ancestor of the target (silently, or with
  a hierarchy error) or a reference that is no child, and then change nothing, or move exactly this
  node: to the end, or before the reference, or nowhere when it is its own reference.
\<close>

theorem dom_moves:
  assumes "dom_reachable d" "dom_room d" "live d self" "live d child" "child_nodes d self = Some ks"
  shows "(append_child self child d = Some d' \<longrightarrow>
      (if (self, child) \<in> {(n, p). parent_node d n = Some p}\<^sup>* then d' = d
       else moved_to d d' self child (filter (\<lambda>m. m \<noteq> child) ks @ [child])))
    \<and> (dom_insert_before self child ref d = Some (res, d') \<longrightarrow>
      (if (self, child) \<in> {(n, p). parent_node d n = Some p}\<^sup>* then res = Inl HierarchyRequest \<and> d' = d
       else if ref \<notin> set ks then res = Inl ReferenceChildNotFound \<and> d' = d
       else res = Inr () \<and> moved_to d d' self child (place_before child ref ks)))"
proof -
  have wf: "dom_wf d" using dom_reachable_inv [OF assms(1)] by (simp add: dom_inv_def)
  have ks: "ks = kids_of d self" using assms(5) child_nodes_kids [OF wf] by simp
  have up: "up (links d) = {(n, p). parent_node d n = Some p}" by (simp add: up_def parent_node_links)
  obtain q s e where l: "links d child = Some (q, s, e)" using assms(4) by (cases "links d child") (auto simp: live_def links_None)
  have l': "links d self \<noteq> None" using assms(3) by (simp add: live_def links_None)
  have "(append_child self child d = Some d' \<longrightarrow>
      (if (self, child) \<in> {(n, p). parent_node d n = Some p}\<^sup>* then d' = d
       else moved_to d d' self child (filter (\<lambda>m. m \<noteq> child) ks @ [child])))"
    using append_child_spec [OF wf assms(2) l' l] moved_to [OF wf] by (simp add: ks up)
  moreover have "(dom_insert_before self child ref d = Some (res, d') \<longrightarrow>
      (if (self, child) \<in> {(n, p). parent_node d n = Some p}\<^sup>* then res = Inl HierarchyRequest \<and> d' = d
       else if ref \<notin> set ks then res = Inl ReferenceChildNotFound \<and> d' = d
       else res = Inr () \<and> moved_to d d' self child (place_before child ref ks)))"
    using insert_before_spec' [OF wf assms(2) l' l] moved_to [OF wf] by (simp add: ks up)
  ultimately show ?thesis ..
qed

text \<open>
  C10: In every reachable state whose counters are not nearly exhausted, removal, appending, insertion and the declaration of
  a shadow root by the parser return, even when template contents or a shadow tree hold the element that owns them.
  The states are those of moves that insert no template whose contents are a shadow root: such a template
  would be a second way into the shadow tree, and \<open>declared_template_walk_diverges\<close> shows that the walk over it need
  not end.
\<close>

theorem dom_moves_return:
  assumes "dom_reachable d" "budget 6 d"
  shows "(\<exists>res d'. remove_child self child d = Some (res, d'))
    \<and> (live d self \<longrightarrow> (\<exists>d'. declare_shadow_root self child manual d = Some d'))
    \<and> (live d self \<and> live d child \<and> dom_room d \<longrightarrow>
         (\<exists>d'. append_child self child d = Some d') \<and> (\<exists>res d'. dom_insert_before self child ref d = Some (res, d')))"
proof -
  have inv: "dom_inv d" using assms(1) by (rule dom_reachable_inv)
  have b: "budget (Suc (Suc (Suc 3))) d" using assms(2) by (simp add: eval_nat_numeral)
  have "budget (Suc (Suc (Suc (Suc 2)))) d" using assms(2) by (simp add: eval_nat_numeral)
  then have "live d self \<longrightarrow> (\<exists>d'. declare_shadow_root self child manual d = Some d')" using declare_returns [OF inv] by blast
  then show ?thesis using b remove_returns [OF inv] append_returns [OF inv, of _ _ 0] insert_returns [OF inv] assms(2)
    by (metis add_0)
qed

section \<open>What a removal resets\<close>

lemma removal_clears:
  assumes inv: "dom_inv d" and id: "d_next_id d \<le> u64_max" and run: "remove_child self child d = Some (Inr r, d')" and m: "(child, m) \<in> (edges d')\<^sup>*"
  shows "top_clear d' m" "unscrolled d' m"
proof -
  have inv': "dom_inv d'" by (rule inv_remove [OF inv run])
  obtain index si c d1 d2 d3 d4 where s: "child_slot d self child = Some index" "d_nodes d self = Some si" "remove index (n_children si) = Some (r, c)"
    "bump_mutation_revision self (put self (si\<lparr>n_children := c\<rparr>) d) = Some d1" "set_parent_link r None d1 = Some d2"
    "clear_top_layer_state (d_next_id d2 + 1) r d2 = Some d3" "invalidate_slot_assignments d3 = Some d4"
    "if any_element_scrolled d4 then clear_scroll_offsets (d_next_id d4 + 1) r d4 = Some d' else d' = d4"
    using run by (rule remove_child_stages)
  note U = unlinked_state [OF dom_inv_but [OF inv] s(1-5)]
  have wf2: "dom_wf d2" using U(2) by (simp add: dom_inv_def)
  have sh3: "same_shape d2 d3" using s(6) by (rule top_walk.walk_shape)
  have sh4: "same_shape d3 d4" using same_links_invalidate [OF s(7)] settled_inner [OF settled_links(3) [OF s(7)]] by (simp add: same_shape_def)
  have sh5: "same_shape d4 d'" using s(8) scroll_walk.walk_shape [of _ r d4 d'] same_shape_refl by (cases "any_element_scrolled d4") metis+
  have E: "edges d' = edges d2" "edges d' = edges d4"
    using same_shape_edges [OF sh3] same_shape_edges [OF sh4] same_shape_edges [OF sh5] by simp_all
  have e4: "element_of d4 n = element_of d3 n" for n
    using s(7) by (auto simp: invalidate_slot_assignments_def split: Option.bind_splits)
  have "top_clear d3 m" using top_walk.walk_reaches [OF wf2 s(6)] m U(1) E(1) by simp
  then have t4: "top_clear d4 m" using top_clear_local [OF e4] by simp
  have wf4: "dom_wf d4" using same_shape_wf sh3 sh4 wf2 by blast
  show "unscrolled d' m"
  proof (cases "any_element_scrolled d4")
    case True
    then have walk: "clear_scroll_offsets (d_next_id d4 + 1) r d4 = Some d'" using s(8) by presburger
    show ?thesis by (rule scroll_walk.walk_reaches [OF wf4 walk]) (use m U(1) E(2) in simp)
  next
    case False
    then have d: "d' = d4" using s(8) by simp
    have next_id: "d_next_id d' \<le> u64_max" using settled_remove [OF run] id by (simp add: settled_def)
    have ok: "scroll_ok d'" using inv' by (simp add: dom_inv_def)
    then have live: "\<forall>n. d_nodes d' n \<noteq> None \<longrightarrow> n < d_next_id d'" unfolding scroll_ok_def by blast
    have "card (scrolled d') \<le> d_scrolled d'" using ok next_id by (simp add: scroll_ok_def)
    then have "scrolled d' = {}" using False d finite_scrolled(1) [OF live] by (simp add: any_element_scrolled_def)
    then show ?thesis by (auto simp: scrolled_def)
  qed
  show "top_clear d' m"
  proof (cases "any_element_scrolled d4")
    case True
    have keep: "\<forall>n. top_clear d4 n \<longrightarrow> top_clear d' n"
    proof (rule scroll_walk.walk_rel(1) [where R = "\<lambda>a b. \<forall>n. top_clear a n \<longrightarrow> top_clear b n"])
      show "clear_scroll_offsets (d_next_id d4 + 1) r d4 = Some d'" using s(8) True by simp
      show "\<forall>k. top_clear e k \<longrightarrow> top_clear (visit_scroll n e) k" for n e
        by (auto simp: top_clear_def visit_scroll_def set_scroll_offset_def Let_def has_picker_def element_local_name_def split: option.splits if_splits)
    qed auto
    then show ?thesis using t4 by blast
  qed (use t4 s(8) in simp)
qed

text \<open>
  C11: Everything below a removed node (its template contents and shadow trees included) is out of the top layer, has no open popover, picker, modal or
  fullscreen state and no scroll offset, although the walk that resets the offsets is skipped when no element counts as scrolled.
\<close>

theorem remove_child_resets:
  assumes "dom_reachable d" "d_next_id d \<le> u64_max" "remove_child self child d = Some (Inr r, d')"
    "(child, m) \<in> {(x, y). parent_node d' y = Some x \<or> template_content d' x = Some y \<or> shadow_root d' x = Some y}\<^sup>*" "element_of d' m = Some e"
  shows "r = child \<and> parent_node d' child = None \<and> \<not> e_popover_open e \<and> \<not> e_picker_open e \<and> \<not> e_modal_dialog e \<and> \<not> e_fullscreen e
    \<and> e_top_layer_order e = None \<and> is_origin (e_scroll_offset e)"
proof -
  have inv: "dom_inv d" using assms(1) by (rule dom_reachable_inv)
  then have wf: "dom_wf d" by (simp add: dom_inv_def)
  have inv': "dom_inv d'" by (rule inv_remove [OF inv assms(3)])
  then have wf': "dom_wf d'" by (simp add: dom_inv_def)
  have "{(x, y). parent_node d' y = Some x \<or> template_content d' x = Some y \<or> shadow_root d' x = Some y} = edges d'"
    using kids_of_parent [OF wf'] by (auto simp: edges_def inner_nodes_def split: option.splits)
  then have m: "(child, m) \<in> (edges d')\<^sup>*" using assms(4) by simp
  note C = removal_clears [OF inv assms(2,3) m]
  have "r = child \<and> parent_node d' child = None"
    using wf assms(3) by (cases rule: remove_child_links) (auto simp: parent_node_links parent_in_def)
  moreover have "has_picker e \<or> \<not> e_picker_open e" using inv' assms(5) by (auto simp: dom_inv_def picker_ok_def)
  ultimately show ?thesis using C assms(5) by (auto simp: top_clear_def unscrolled_def scroll_offset_def)
qed

section \<open>A small tree\<close>

definition demo_tree :: Dom where
  "demo_tree = snd (new_element ''span'' (snd (new_element ''div'' (snd (node_new DocumentData dom_init)))))"

lemma demo_tree_reachable: "dom_reachable demo_tree"
proof -
  have "dom_reachable (snd (node_new DocumentData dom_init))" by (rule dom_reachable.step [OF dom_reachable.init dom_step.create]) simp_all
  from dom_reachable.step [OF dom_reachable.step [OF this dom_step.element] dom_step.element] show ?thesis by (simp add: demo_tree_def)
qed

lemma demo_tree_nodes:
  "d_nodes demo_tree = [1 \<mapsto> inner_new DocumentData, 2 \<mapsto> inner_new (ElementData (element_record ''div'' None None [] True None)),
     3 \<mapsto> inner_new (ElementData (element_record ''span'' None None [] True None))]"
  "d_next_id demo_tree = 4" "d_slot_epoch demo_tree = 0" "d_tree_epoch demo_tree = 0" "d_live_epoch demo_tree = 0" "d_scrolled demo_tree = 0"
  by (simp_all add: demo_tree_def new_element_def element_node_def node_new_def put_def dom_init_def Let_def std_eval eval_nat_numeral)

lemma demo_tree_budget: "budget 18 demo_tree"
  by (auto simp: budget_def demo_tree_nodes inner_new_def u64_max_def)

lemma demo_room: "dom_room demo_tree"
  by (simp add: dom_room_def children_of_def demo_tree_nodes inner_new_def children_room_def slot_count_def NONE_def)

theorem dom_moves_return_witness:
  "(\<exists>res d'. remove_child 1 2 demo_tree = Some (res, d')) \<and> (\<exists>d'. append_child 1 2 demo_tree = Some d')
     \<and> (\<exists>res d'. dom_insert_before 1 2 3 demo_tree = Some (res, d'))"
proof -
  have "budget 6 demo_tree" by (rule budget_mono [OF demo_tree_budget]) simp
  from dom_moves_return [OF demo_tree_reachable this, of 1 2 False 3] show ?thesis
    by (simp add: demo_room live_def demo_tree_nodes)
qed

lemma demo_links: "parent_node demo_tree n = None" "child_nodes demo_tree n = Some []" "live demo_tree 1" "live demo_tree 2"
  by (auto simp: demo_tree_nodes inner_new_def parent_node_def child_nodes_def children_of_def children_len_def iter_def iter_next_def live_def
      split: option.splits)

lemma demo_appended:
  obtains d where "append_child 1 2 demo_tree = Some d" "dom_reachable d" "budget 12 d" "d_next_id d = 4" "parent_node d 2 = Some 1"
    "element_of d 2 \<noteq> None"
proof -
  have inv: "dom_inv demo_tree" by (rule dom_reachable_inv [OF demo_tree_reachable])
  obtain d where d: "append_child 1 2 demo_tree = Some d" "budget 12 d"
    using append_returns [OF inv demo_room demo_links(3,4), of 12] demo_tree_budget by auto
  have "\<not> container demo_tree 2" "\<not> declarative demo_tree 2"
    by (simp_all add: container_def declarative_def template_content_def element_of_def demo_tree_nodes inner_new_def is_container_def
        element_record_def)
  then have r: "dom_reachable d" using dom_reachable.step [OF demo_tree_reachable dom_step.append] demo_links(3,4) demo_room d(1) by blast
  have id: "d_next_id d = 4" "element_of d 2 \<noteq> None"
  proof -
    have set: "settled demo_tree d" by (rule settled_append [OF d(1)])
    then show "d_next_id d = 4" by (simp add: settled_def demo_tree_nodes)
    have "map_option stable (element_of d 2) = map_option stable (element_of demo_tree 2)" using set by (simp add: settled_def)
    then show "element_of d 2 \<noteq> None" by (auto simp: element_of_def demo_tree_nodes inner_new_def)
  qed
  have wf: "dom_wf demo_tree" using inv by (simp add: dom_inv_def)
  obtain q s e where l: "links demo_tree 2 = Some (q, s, e)" using demo_links(4) by (cases "links demo_tree 2") (auto simp: live_def links_None)
  have no: "(1, 2) \<notin> (up (links demo_tree))\<^sup>*" by (subst up_step) (simp add: parent_node_links [symmetric] demo_links)
  have "links demo_tree 1 \<noteq> None" using demo_links(3) by (simp add: live_def links_None)
  from append_child_spec [OF wf demo_room this l d(1)] no have "parent_node d 2 = Some 1" by (simp add: moved_def)
  then show ?thesis using that d r id by blast
qed

theorem dom_moves_witness:
  "\<exists>d. append_child 1 2 demo_tree = Some d \<and> child_nodes d 1 = Some [2] \<and> parent_node d 2 = Some 1"
proof -
  obtain d where d: "append_child 1 2 demo_tree = Some d" using demo_appended by blast
  have no: "(1, 2) \<notin> {(n, p). parent_node demo_tree n = Some p}\<^sup>*" by (simp add: demo_links)
  from dom_moves [OF demo_tree_reachable demo_room demo_links(3,4,2), of d 3 "Inr ()"] d no show ?thesis
    by (auto simp: moved_to_def)
qed

theorem dom_reachable_forest_witness:
  "\<exists>d ks. append_child 1 2 demo_tree = Some d \<and> child_nodes d 1 = Some ks \<and> 2 \<in> set ks \<and> distinct ks \<and> first_child d 1 \<noteq> None"
proof -
  obtain d where d: "append_child 1 2 demo_tree = Some d" "dom_reachable d" "parent_node d 2 = Some 1" using demo_appended by blast
  obtain ks where ks: "child_nodes d 1 = Some ks" "distinct ks" "\<forall>m. m \<in> set ks \<longleftrightarrow> parent_node d m = Some 1"
    "first_child d 1 = (case ks of [] \<Rightarrow> None | k # _ \<Rightarrow> Some k)" using dom_reachable_forest [OF d(2)] by blast
  then have "2 \<in> set ks" using d(3) by blast
  moreover then have "first_child d 1 \<noteq> None" using ks(4) by (auto split: list.splits)
  ultimately show ?thesis using d(1) ks by blast
qed

text \<open>The element that is removed was scrolled and an open popover.\<close>

theorem remove_child_resets_witness:
  "\<exists>d d' e. append_child 1 2 demo_tree = Some d \<and> remove_child 1 2 (set_popover_open 2 True (set_scroll_offset 2 1 0 d)) = Some (Inr 2, d')
     \<and> element_of d' 2 = Some e \<and> \<not> e_popover_open e \<and> e_top_layer_order e = None \<and> is_origin (e_scroll_offset e)"
proof -
  obtain d where d: "append_child 1 2 demo_tree = Some d" "dom_reachable d" "budget 12 d" "d_next_id d = 4" "parent_node d 2 = Some 1"
    "element_of d 2 \<noteq> None" by (rule demo_appended)
  define s where "s = set_popover_open 2 True (set_scroll_offset 2 1 0 d)"
  have r: "dom_reachable s" unfolding s_def using d(2) dom_step.scroll dom_step.popover dom_reachable.step by blast
  have inv: "dom_inv s" by (rule dom_reachable_inv [OF r])
  then have wf: "dom_wf s" by (simp add: dom_inv_def)
  have sl: "same_links d s" unfolding s_def using same_links_setters same_links_trans by blast
  have "budget (Suc (Suc (Suc 9))) s"
    using frugal_trans [OF frugal_setters(5) [of d 2 1 0] frugal_setters(1) [of _ 2 True]] d(3) by (simp add: frugal_def s_def)
  then obtain res d' where d': "remove_child 1 2 s = Some (res, d')" using remove_returns [OF inv] by blast
  have slot: "child_slot s 1 2 \<noteq> None" by (rule child_slot_parent [OF wf]) (simp add: same_links_queries(1) [OF sl] d(5))
  from wf d' have res: "res = Inr 2" by (cases rule: remove_child_links) (use slot in auto)
  have st: "settled s d'" "settled d s" using settled_remove [OF d'] settled_scroll settled_setters settled_trans unfolding s_def by blast+
  have "map_option stable (element_of d' 2) = map_option stable (element_of d 2)" using st by (simp add: settled_def)
  then obtain e where e: "element_of d' 2 = Some e" using d(6) by (cases "element_of d' 2") auto
  have id: "d_next_id s \<le> u64_max" using st(2) d(4) by (simp add: settled_def u64_max_def)
  from remove_child_resets [OF r id d' [unfolded res] rtrancl_refl e] show ?thesis
    using d(1) d' res e unfolding s_def by blast
qed

end
