(* ===== verification/ResourceWorker.thy ===== *)
theory ResourceWorker
  imports Prelude RustStd "HOL-Library.Multiset"
begin

text \<open>
  The pool of resource workers (\<open>src/resource_worker.rs\<close>): submission, the shared priority queue, the worker loop with its
  condition variable, cancellation by scope, and the shutdown when the last handle goes.  Everything a
  thread does between two lock operations, token reads or channel operations is one step.  Thread creation and the results of
  jobs are arguments.  A scope is named by a number; its flag is gone when the scope was dropped.
\<close>

section \<open>Data\<close>

datatype ResourcePriority = Background | Normal | Critical

datatype ResourceKind = Stylesheet | Font | Image | Script | Other

datatype 'a ResourceOutcome = Complete 'a | Cancelled | Panicked

datatype ResourceError = QueueStopped | SpawnFailed | IdentityExhausted

text \<open>The derived order of priorities.\<close>

fun priority_rank :: "ResourcePriority \<Rightarrow> nat" where
  "priority_rank Background = 0"
| "priority_rank Normal = 1"
| "priority_rank Critical = 2"

instantiation ResourcePriority :: linorder
begin

definition less_eq_ResourcePriority :: "ResourcePriority \<Rightarrow> ResourcePriority \<Rightarrow> bool" where
  "less_eq_ResourcePriority a b \<longleftrightarrow> priority_rank a \<le> priority_rank b"

definition less_ResourcePriority :: "ResourcePriority \<Rightarrow> ResourcePriority \<Rightarrow> bool" where
  "less_ResourcePriority a b \<longleftrightarrow> priority_rank a < priority_rank b"

instance
proof
  fix a b :: ResourcePriority
  show "a \<le> b \<Longrightarrow> b \<le> a \<Longrightarrow> a = b" by (cases a; cases b) (simp_all add: less_eq_ResourcePriority_def)
qed (auto simp: less_eq_ResourcePriority_def less_ResourcePriority_def)

end

text \<open>A queued job with what its closure captures: the token, the waker and, by its identity, the sender.\<close>

record Queued =
  q_priority :: ResourcePriority
  q_id :: nat
  q_scope :: nat
  q_waker :: bool

record State =
  s_jobs :: "Queued list"
  s_next_id :: nat
  s_started :: bool
  s_stopped :: bool

record ResourceTask =
  t_id :: nat
  t_kind :: ResourceKind

text \<open>Where a worker thread is: before the lock, in the condition variable, in the three parts of a job, or returned.\<close>

datatype worker = Ready | Waiting | Starting Queued | Working Queued | Waking Queued | Exited

record 'a Pool =
  p_state :: State
  p_workers :: nat
  p_threads :: "worker list"
  p_notify :: nat
  p_notify_all :: bool
  p_draining :: "Queued list"
  p_scopes :: nat
  p_live :: "nat \<Rightarrow> bool option"
  p_channel :: "nat \<Rightarrow> 'a ResourceOutcome list"
  p_received :: "(nat \<times> 'a ResourceOutcome) list"
  p_woken :: "nat list"

section \<open>The queue order\<close>

definition queued_less :: "Queued \<Rightarrow> Queued \<Rightarrow> bool" where
  "queued_less a b \<longleftrightarrow> q_priority a < q_priority b \<or> (q_priority a = q_priority b \<and> q_id b < q_id a)"

text \<open>\<open>BinaryHeap::pop\<close> takes a greatest element.\<close>

fun heap_max :: "Queued \<Rightarrow> Queued list \<Rightarrow> Queued" where
  "heap_max q [] = q"
| "heap_max q (x # xs) = heap_max (if queued_less q x then x else q) xs"

definition heap_pop :: "Queued list \<Rightarrow> (Queued \<times> Queued list) option" where
  "heap_pop h = (case h of [] \<Rightarrow> None | q # qs \<Rightarrow> (let top = heap_max q qs in Some (top, remove1 top h)))"

definition heap_push :: "Queued \<Rightarrow> Queued list \<Rightarrow> Queued list" where
  "heap_push q h = h @ [q]"

section \<open>Scopes\<close>

definition cancel_scope :: "nat \<Rightarrow> 'a Pool \<Rightarrow> 'a Pool" where
  "cancel_scope sc p = p\<lparr>p_live := (p_live p)(sc := map_option (\<lambda>_. False) (p_live p sc))\<rparr>"

definition drop_scope :: "nat \<Rightarrow> 'a Pool \<Rightarrow> 'a Pool" where
  "drop_scope sc p = (cancel_scope sc p)\<lparr>p_live := (p_live (cancel_scope sc p))(sc := None)\<rparr>"

definition scope_default :: "'a Pool \<Rightarrow> nat \<times> 'a Pool" where
  "scope_default p = (p_scopes p, p\<lparr>p_live := (p_live p)(p_scopes p \<mapsto> True), p_scopes := p_scopes p + 1\<rparr>)"

definition is_cancelled :: "'a Pool \<Rightarrow> nat \<Rightarrow> bool" where
  "is_cancelled p sc = (case p_live p sc of None \<Rightarrow> True | Some live \<Rightarrow> \<not> live)"

section \<open>Submission\<close>

definition queue_new :: "nat \<Rightarrow> 'a Pool" where
  "queue_new workers = \<lparr>p_state = \<lparr>s_jobs = [], s_next_id = 0, s_started = False, s_stopped = False\<rparr>, p_workers = workers,
     p_threads = [], p_notify = 0, p_notify_all = False, p_draining = [], p_scopes = 0, p_live = (\<lambda>_. None), p_channel = (\<lambda>_. []), p_received = [],
     p_woken = []\<rparr>"

text \<open>The threads that start until the first failure.\<close>

primrec spawn_workers :: "(nat \<Rightarrow> bool) \<Rightarrow> nat \<Rightarrow> nat \<Rightarrow> nat \<times> bool" where
  "spawn_workers spawn index 0 = (0, True)"
| "spawn_workers spawn index (Suc k) =
     (if spawn index then (case spawn_workers spawn (index + 1) k of (n, ok) \<Rightarrow> (Suc n, ok)) else (0, False))"

definition wake_all :: "worker list \<Rightarrow> worker list" where
  "wake_all ts = map (\<lambda>t. if t = Waiting then Ready else t) ts"

definition start_workers :: "(nat \<Rightarrow> bool) \<Rightarrow> 'a Pool \<Rightarrow> bool \<times> 'a Pool" where
  "start_workers spawn p =
     (if s_started (p_state p) then (True, p)
      else case spawn_workers spawn 0 (p_workers p) of (n, ok) \<Rightarrow>
        let p1 = p\<lparr>p_state := (p_state p)\<lparr>s_started := True\<rparr>, p_threads := p_threads p @ replicate n Ready\<rparr>
        in if ok then (True, p1)
           else (False, p1\<lparr>p_state := (p_state p1)\<lparr>s_stopped := True\<rparr>, p_threads := wake_all (p_threads p1)\<rparr>))"

definition submit_inner ::
    "(nat \<Rightarrow> bool) \<Rightarrow> nat \<Rightarrow> ResourcePriority \<Rightarrow> ResourceKind \<Rightarrow> bool \<Rightarrow> 'a Pool \<Rightarrow> (ResourceError + ResourceTask) \<times> 'a Pool" where
  "submit_inner spawn sc priority kind waker p =
     (if s_stopped (p_state p) then (Inl QueueStopped, p)
      else case start_workers spawn p of (ok, p1) \<Rightarrow>
        if \<not> ok then (Inl SpawnFailed, p1)
        else
          (let id = s_next_id (p_state p1) in
           if id + 1 > u64_max then (Inl IdentityExhausted, p1)
           else
             (let q = \<lparr>q_priority = priority, q_id = id, q_scope = sc, q_waker = waker\<rparr>;
                  st = (p_state p1)\<lparr>s_next_id := id + 1, s_jobs := heap_push q (s_jobs (p_state p1))\<rparr>
              in (Inr \<lparr>t_id = id, t_kind = kind\<rparr>, p1\<lparr>p_state := st, p_notify := p_notify p1 + 1\<rparr>))))"

section \<open>Jobs and workers\<close>

definition send_outcome :: "Queued \<Rightarrow> 'a ResourceOutcome \<Rightarrow> 'a Pool \<Rightarrow> 'a Pool" where
  "send_outcome q outcome p = p\<lparr>p_channel := (p_channel p)(q_id q := p_channel p (q_id q) @ [outcome])\<rparr>"

definition wake_owner :: "Queued \<Rightarrow> 'a Pool \<Rightarrow> 'a Pool" where
  "wake_owner q p = (if q_waker q then p\<lparr>p_woken := p_woken p @ [q_id q]\<rparr> else p)"

definition set_thread :: "nat \<Rightarrow> worker \<Rightarrow> 'a Pool \<Rightarrow> 'a Pool" where
  "set_thread i t p = p\<lparr>p_threads := (p_threads p)[i := t]\<rparr>"

text \<open>The locked part of the worker loop.\<close>

definition worker_lock :: "nat \<Rightarrow> 'a Pool \<Rightarrow> 'a Pool" where
  "worker_lock i p =
     (let st = p_state p in
      if s_jobs st = [] \<and> \<not> s_stopped st then set_thread i Waiting p
      else if s_stopped st then set_thread i Exited p
      else case heap_pop (s_jobs st) of
        None \<Rightarrow> p
      | Some (job, rest) \<Rightarrow> set_thread i (Starting job) (p\<lparr>p_state := st\<lparr>s_jobs := rest\<rparr>\<rparr>))"

text \<open>The parts of the closure: the first look at the token, the end of the work (\<open>None\<close> for a panic) and the waker.\<close>

definition job_check :: "nat \<Rightarrow> Queued \<Rightarrow> 'a Pool \<Rightarrow> 'a Pool" where
  "job_check i q p =
     (if is_cancelled p (q_scope q) then set_thread i (Waking q) (send_outcome q Cancelled p) else set_thread i (Working q) p)"

definition job_outcome :: "bool \<Rightarrow> 'a option \<Rightarrow> 'a ResourceOutcome" where
  "job_outcome cancelled result =
     (case result of Some v \<Rightarrow> if \<not> cancelled then Complete v else Cancelled | None \<Rightarrow> Panicked)"

definition job_finish :: "nat \<Rightarrow> Queued \<Rightarrow> 'a option \<Rightarrow> 'a Pool \<Rightarrow> 'a Pool" where
  "job_finish i q result p = set_thread i (Waking q) (send_outcome q (job_outcome (is_cancelled p (q_scope q)) result) p)"

definition job_wake :: "nat \<Rightarrow> Queued \<Rightarrow> 'a Pool \<Rightarrow> 'a Pool" where
  "job_wake i q p = set_thread i Ready (wake_owner q p)"

section \<open>Shutdown and receiving\<close>

definition drop_pool :: "'a Pool \<Rightarrow> 'a Pool" where
  "drop_pool p = p\<lparr>p_state := (p_state p)\<lparr>s_stopped := True, s_jobs := []\<rparr>, p_draining := p_draining p @ s_jobs (p_state p), p_notify_all := True\<rparr>"

definition drain_one :: "Queued \<Rightarrow> Queued list \<Rightarrow> 'a Pool \<Rightarrow> 'a Pool" where
  "drain_one q rest p = wake_owner q (send_outcome q Cancelled (p\<lparr>p_draining := rest\<rparr>))"

datatype TryRecvError = Empty | Disconnected

definition held_by :: "worker \<Rightarrow> Queued list" where
  "held_by t = (case t of Starting q \<Rightarrow> [q] | Working q \<Rightarrow> [q] | Waking q \<Rightarrow> [q] | _ \<Rightarrow> [])"

definition sender_alive :: "'a Pool \<Rightarrow> nat \<Rightarrow> bool" where
  "sender_alive p job \<longleftrightarrow> job \<in> set (map q_id (s_jobs (p_state p) @ p_draining p @ concat (map held_by (p_threads p))))"

definition try_recv :: "ResourceTask \<Rightarrow> 'a Pool \<Rightarrow> (TryRecvError + 'a ResourceOutcome) \<times> 'a Pool" where
  "try_recv t p =
     (case p_channel p (t_id t) of
        x # xs \<Rightarrow> (Inr x, p\<lparr>p_channel := (p_channel p)(t_id t := xs), p_received := p_received p @ [(t_id t, x)]\<rparr>)
      | [] \<Rightarrow> (Inl (if sender_alive p (t_id t) then Empty else Disconnected), p))"

section \<open>Interleavings\<close>

text \<open>What the threads of the pool do on their own.\<close>

inductive pool_progress :: "'a Pool \<Rightarrow> 'a Pool \<Rightarrow> bool" where
  lock: "pool_progress p (worker_lock i p)" if "i < length (p_threads p)" "p_threads p ! i = Ready"
| check: "pool_progress p (job_check i q p)" if "i < length (p_threads p)" "p_threads p ! i = Starting q"
| finish: "pool_progress p (job_finish i q r p)" if "i < length (p_threads p)" "p_threads p ! i = Working q"
| wake: "pool_progress p (job_wake i q p)" if "i < length (p_threads p)" "p_threads p ! i = Waking q"
| notify: "pool_progress p (set_thread i Ready (p\<lparr>p_notify := n\<rparr>))" if "p_notify p = Suc n" "i < length (p_threads p)" "p_threads p ! i = Waiting"
| notify_none: "pool_progress p (p\<lparr>p_notify := n\<rparr>)" if "p_notify p = Suc n" "Waiting \<notin> set (p_threads p)"
| notify_all: "pool_progress p (p\<lparr>p_notify_all := False, p_threads := wake_all (p_threads p)\<rparr>)" if "p_notify_all p"
| drain: "pool_progress p (drain_one q qs p)" if "p_draining p = q # qs"

text \<open>What owners of queues, scopes and tasks do, and spurious wakeups.\<close>

inductive pool_event :: "'a Pool \<Rightarrow> 'a Pool \<Rightarrow> bool" where
  submit: "pool_event p (snd (submit_inner spawn sc priority kind waker p))"
| scope: "pool_event p (snd (scope_default p))"
| cancel: "pool_event p (cancel_scope sc p)"
| drop_scope: "pool_event p (drop_scope sc p)"
| drop_pool: "pool_event p (drop_pool p)"
| recv: "pool_event p (snd (try_recv t p))"
| spurious: "pool_event p (set_thread i Ready p)" if "i < length (p_threads p)" "p_threads p ! i = Waiting"

inductive pool_reachable :: "'a Pool \<Rightarrow> bool" where
  start: "0 < workers \<Longrightarrow> pool_reachable (queue_new workers)"
| progress: "pool_reachable p \<Longrightarrow> pool_progress p p' \<Longrightarrow> pool_reachable p'"
| event: "pool_reachable p \<Longrightarrow> pool_event p p' \<Longrightarrow> pool_reachable p'"

end
