(* ===== verification/ResourceProps.thy ===== *)
theory ResourceProps
  imports ResourceWorker
begin

text \<open>
  The resource pool settles: in every interleaving each accepted job gets exactly one outcome, the
  threads cannot get stuck while a job waits, and jobs start in the order of priority and age.
\<close>

section \<open>Priority queues\<close>

locale priority_queue =
  fixes before :: "'q \<Rightarrow> 'q \<Rightarrow> bool" and elems :: "'h \<Rightarrow> 'q multiset" and insert_job :: "'q \<Rightarrow> 'h \<Rightarrow> 'h" and take_max :: "'h \<Rightarrow> ('q \<times> 'h) option"
  assumes take_none: "take_max h = None \<longleftrightarrow> elems h = {#}"
    and take_some: "take_max h = Some (q, h') \<Longrightarrow> elems h = add_mset q (elems h') \<and> (\<forall>x\<in>#elems h'. \<not> before q x)"
    and insert_elems: "elems (insert_job q h) = add_mset q (elems h)"
begin

lemma take_ex: "elems h \<noteq> {#} \<Longrightarrow> \<exists>q h'. take_max h = Some (q, h')"
  using take_none [of h] by (cases "take_max h") auto

end

lemma queued_less_trans: "queued_less a b \<Longrightarrow> queued_less b c \<Longrightarrow> queued_less a c"
  by (auto simp: queued_less_def)

lemma queued_less_irrefl: "\<not> queued_less a a"
  by (simp add: queued_less_def)

lemma not_queued_less_trans: "\<not> queued_less a b \<Longrightarrow> \<not> queued_less b c \<Longrightarrow> \<not> queued_less a c"
  by (auto simp: queued_less_def)

lemma heap_max_in: "heap_max q xs \<in> set (q # xs)"
proof (induction xs arbitrary: q)
  case (Cons x xs)
  then show ?case using Cons.IH [of x] Cons.IH [of q] by (cases "queued_less q x") auto
qed simp

lemma heap_max_ge: "x \<in> set (q # xs) \<Longrightarrow> \<not> queued_less (heap_max q xs) x"
proof (induction xs arbitrary: q x)
  case Nil
  then show ?case by (simp add: queued_less_irrefl)
next
  case (Cons y ys)
  let ?m = "if queued_less q y then y else q"
  have top: "\<not> queued_less (heap_max ?m ys) ?m" by (rule Cons.IH) simp
  show ?case
  proof (cases "x \<in> set ys")
    case True
    then show ?thesis using Cons.IH [of x ?m] by simp
  next
    case False
    then have "x = q \<or> x = y" using Cons.prems by simp
    then have "\<not> queued_less ?m x" using queued_less_irrefl queued_less_trans by (metis (full_types))
    then show ?thesis using not_queued_less_trans [OF top] by simp
  qed
qed

interpretation heap: priority_queue queued_less mset heap_push heap_pop
proof unfold_locales
  fix h
  show "heap_pop h = None \<longleftrightarrow> mset h = {#}" by (cases h) (simp_all add: heap_pop_def Let_def)
  fix q h' assume "heap_pop h = Some (q, h')"
  then obtain x xs where h: "h = x # xs" "q = heap_max x xs" "h' = remove1 q h" by (cases h) (auto simp: heap_pop_def Let_def)
  have q: "q \<in> set h" using heap_max_in h by metis
  have "\<not> queued_less q y" if "y \<in># mset h'" for y
    using that heap_max_ge [of y x xs] h by (metis in_set_remove1 notin_set_remove1 set_mset_mset)
  then show "mset h = add_mset q (mset h') \<and> (\<forall>y\<in>#mset h'. \<not> queued_less q y)" using q h(3) by simp
qed (simp add: heap_push_def)

section \<open>One outcome per job\<close>

definition busy :: "worker \<Rightarrow> Queued list" where
  "busy t = (case t of Starting q \<Rightarrow> [q] | Working q \<Rightarrow> [q] | _ \<Rightarrow> [])"

definition waking :: "worker \<Rightarrow> Queued list" where
  "waking t = (case t of Waking q \<Rightarrow> [q] | _ \<Rightarrow> [])"

lemma busy_simps [simp]: "busy Ready = []" "busy Waiting = []" "busy (Starting q) = [q]" "busy (Working q) = [q]" "busy (Waking q) = []" "busy Exited = []"
  by (simp_all add: busy_def)

lemma waking_simps [simp]:
  "waking Ready = []" "waking Waiting = []" "waking (Starting q) = []" "waking (Working q) = []" "waking (Waking q) = [q]" "waking Exited = []"
  by (simp_all add: waking_def)

definition ids :: "(worker \<Rightarrow> Queued list) \<Rightarrow> worker list \<Rightarrow> nat multiset" where
  "ids f ts = mset (map q_id (concat (map f ts)))"

lemma ids_update: "k < length ts \<Longrightarrow> ids f (ts[k := t]) + mset (map q_id (f (ts ! k))) = ids f ts + mset (map q_id (f t))"
  by (induction ts arbitrary: k) (auto simp: ids_def ac_simps split: nat.splits)

lemma ids_set: "k < length ts \<Longrightarrow> count (ids f (ts[k := t])) j = count (ids f ts) j + count (mset (map q_id (f t))) j - count (mset (map q_id (f (ts ! k)))) j"
  using ids_update [of k ts f t] by (metis add_diff_cancel_right' count_union)

lemma ids_nth: "k < length ts \<Longrightarrow> count (mset (map q_id (f (ts ! k)))) j \<le> count (ids f ts) j"
  using ids_update [of k ts f "ts ! k"] by (induction ts arbitrary: k) (auto simp: ids_def less_Suc_eq_0_disj intro: trans_le_add2)

lemma ids_wake_all: "ids busy (wake_all ts) = ids busy ts" "ids waking (wake_all ts) = ids waking ts"
  by (induction ts) (auto simp: ids_def wake_all_def)

lemma ids_append [simp]: "ids f (ts @ us) = ids f ts + ids f us"
  by (simp add: ids_def)

lemma ids_replicate [simp]: "f Ready = [] \<Longrightarrow> ids f (replicate n Ready) = {#}"
  by (induction n) (simp_all add: ids_def)

definition pending :: "'a Pool \<Rightarrow> nat multiset" where
  "pending p = mset (map q_id (s_jobs (p_state p))) + mset (map q_id (p_draining p)) + ids busy (p_threads p)"

definition outcomes :: "'a Pool \<Rightarrow> nat \<Rightarrow> 'a ResourceOutcome list" where
  "outcomes p j = map snd (filter (\<lambda>x. fst x = j) (p_received p)) @ p_channel p j"

definition ids_inv :: "'a Pool \<Rightarrow> bool" where
  "ids_inv p \<longleftrightarrow> (\<forall>j. count (pending p) j + length (outcomes p j) = (if j < s_next_id (p_state p) then 1 else 0))
     \<and> (\<forall>j. count (ids waking (p_threads p)) j + count (mset (p_woken p)) j \<le> length (outcomes p j))"

lemma outcomes_simps [simp]:
  "outcomes (set_thread i t p) = outcomes p" "outcomes (p\<lparr>p_state := st\<rparr>) = outcomes p" "outcomes (p\<lparr>p_notify := n\<rparr>) = outcomes p"
  "outcomes (p\<lparr>p_notify_all := b\<rparr>) = outcomes p" "outcomes (p\<lparr>p_threads := ts\<rparr>) = outcomes p" "outcomes (p\<lparr>p_draining := qs\<rparr>) = outcomes p"
  "outcomes (p\<lparr>p_live := l\<rparr>) = outcomes p" "outcomes (p\<lparr>p_scopes := n\<rparr>) = outcomes p" "outcomes (p\<lparr>p_woken := w\<rparr>) = outcomes p"
  "outcomes (wake_owner q p) = outcomes p"
  by (simp_all add: outcomes_def fun_eq_iff set_thread_def wake_owner_def)

lemma outcomes_send [simp]: "length (outcomes (send_outcome q x p) j) = length (outcomes p j) + (if j = q_id q then 1 else 0)"
  by (simp add: outcomes_def send_outcome_def)

lemma ids_invD:
  assumes "ids_inv p"
  shows "count (pending p) j + length (outcomes p j) = (if j < s_next_id (p_state p) then 1 else 0)"
    "count (ids waking (p_threads p)) j + count (mset (p_woken p)) j \<le> length (outcomes p j)"
  using assms by (simp_all add: ids_inv_def)

lemma ids_inv_cong:
  assumes "ids_inv p" "pending p' = pending p" "\<And>j. length (outcomes p' j) = length (outcomes p j)" "s_next_id (p_state p') = s_next_id (p_state p)"
    "ids waking (p_threads p') = ids waking (p_threads p)" "p_woken p' = p_woken p"
  shows "ids_inv p'"
  using assms by (simp add: ids_inv_def)

lemma ids_same: "k < length ts \<Longrightarrow> f t = f (ts ! k) \<Longrightarrow> ids f (ts[k := t]) = ids f ts"
  using ids_update [of k ts f t] by simp

lemma ids_worker_lock:
  assumes inv: "ids_inv p" and i: "i < length (p_threads p)" "p_threads p ! i = Ready"
  shows "ids_inv (worker_lock i p)"
proof -
  have idle: "ids_inv (set_thread i t p)" if "busy t = []" "waking t = []" for t
    using that i by (intro ids_inv_cong [OF inv]) (simp_all add: pending_def set_thread_def ids_same outcomes_def)
  show ?thesis
  proof (cases "heap_pop (s_jobs (p_state p))")
    case None
    then show ?thesis using inv idle by (simp add: worker_lock_def Let_def)
  next
    case (Some x)
    obtain q rest where x: "x = (q, rest)" by (cases x)
    let ?p = "set_thread i (Starting q) (p\<lparr>p_state := (p_state p)\<lparr>s_jobs := rest\<rparr>\<rparr>)"
    have jobs: "mset (s_jobs (p_state p)) = add_mset q (mset rest)" using heap.take_some [OF Some [unfolded x]] by blast
    have "mset (map q_id (s_jobs (p_state p))) = add_mset (q_id q) (mset (map q_id rest))" by (simp add: jobs)
    moreover have "ids busy ((p_threads p)[i := Starting q]) = add_mset (q_id q) (ids busy (p_threads p))"
      using ids_update [OF i(1), of busy "Starting q"] i(2) by simp
    ultimately have "pending ?p = pending p" by (simp add: pending_def set_thread_def)
    then have "ids_inv ?p" using i by (intro ids_inv_cong [OF inv]) (simp_all add: set_thread_def ids_same outcomes_def)
    then show ?thesis using idle Some x by (simp add: worker_lock_def Let_def)
  qed
qed

text \<open>A job that ends moves its identity from the pending ones to the outcomes.\<close>

lemma ids_sent:
  assumes inv: "ids_inv p" and pend: "pending p = add_mset (q_id q) (pending p')" and out: "\<And>j. length (outcomes p' j) = length (outcomes p j) + (if j = q_id q then 1 else 0)"
    and nid: "s_next_id (p_state p') = s_next_id (p_state p)"
    and wk: "\<And>j. count (ids waking (p_threads p')) j + count (mset (p_woken p')) j
      \<le> count (ids waking (p_threads p)) j + count (mset (p_woken p)) j + (if j = q_id q then 1 else 0)"
  shows "ids_inv p'"
  unfolding ids_inv_def
proof (intro conjI allI)
  fix j
  show "count (pending p') j + length (outcomes p' j) = (if j < s_next_id (p_state p') then 1 else 0)"
    using ids_invD(1) [OF inv, of j] by (auto simp: pend out nid split: if_splits)
  show "count (ids waking (p_threads p')) j + count (mset (p_woken p')) j \<le> length (outcomes p' j)"
    using ids_invD(2) [OF inv, of j] wk [of j] by (simp add: out split: if_splits)
qed

lemma ids_send_thread:
  assumes inv: "ids_inv p" and i: "i < length (p_threads p)" "busy (p_threads p ! i) = [q]" "waking (p_threads p ! i) = []"
  shows "ids_inv (set_thread i (Waking q) (send_outcome q x p))"
proof (rule ids_sent [OF inv])
  have "ids busy (p_threads p) = add_mset (q_id q) (ids busy ((p_threads p)[i := Waking q]))"
    using ids_update [OF i(1), of busy "Waking q"] i(2) by simp
  then show "pending p = add_mset (q_id q) (pending (set_thread i (Waking q) (send_outcome q x p)))"
    by (simp add: pending_def set_thread_def send_outcome_def)
  have "ids waking ((p_threads p)[i := Waking q]) = add_mset (q_id q) (ids waking (p_threads p))"
    using ids_update [OF i(1), of waking "Waking q"] i(3) by simp
  then show "count (ids waking (p_threads (set_thread i (Waking q) (send_outcome q x p)))) j + count (mset (p_woken (set_thread i (Waking q) (send_outcome q x p)))) j
      \<le> count (ids waking (p_threads p)) j + count (mset (p_woken p)) j + (if j = q_id q then 1 else 0)" for j
    by (simp add: set_thread_def send_outcome_def)
qed (simp_all add: set_thread_def send_outcome_def, simp add: outcomes_def)

lemma ids_progress: "pool_progress p p' \<Longrightarrow> ids_inv p \<Longrightarrow> ids_inv p'"
proof (induction rule: pool_progress.induct)
  case (lock i p)
  then show ?case by (simp add: ids_worker_lock)
next
  case (check i p q)
  have "ids_inv (set_thread i (Working q) p)"
    using check by (intro ids_inv_cong [OF check(3)]) (simp_all add: pending_def set_thread_def ids_same outcomes_def)
  then show ?case using check ids_send_thread [OF check(3,1)] by (simp add: job_check_def)
next
  case (finish i p q r)
  then show ?case using ids_send_thread [OF finish(3,1)] by (simp add: job_finish_def)
next
  case (wake i p q)
  let ?p = "job_wake i q p"
  have w: "ids waking (p_threads p) = add_mset (q_id q) (ids waking ((p_threads p)[i := Ready]))"
    using ids_update [OF wake(1), of waking Ready] wake(2) by simp
  have sel: "p_threads ?p = (p_threads p)[i := Ready]" "p_state ?p = p_state p" "p_draining ?p = p_draining p"
    "mset (p_woken ?p) = (if q_waker q then add_mset (q_id q) (mset (p_woken p)) else mset (p_woken p))" "outcomes ?p = outcomes p"
    by (simp_all add: job_wake_def wake_owner_def set_thread_def outcomes_def fun_eq_iff)
  have pend: "pending ?p = pending p" using wake by (simp add: pending_def sel ids_same)
  have "count (ids waking (p_threads ?p)) j + count (mset (p_woken ?p)) j \<le> length (outcomes ?p j)" for j
    using ids_invD(2) [OF wake(3), of j] w by (auto simp: sel split: if_splits)
  then show ?case using ids_invD(1) [OF wake(3)] by (simp add: ids_inv_def pend sel)
next
  case (notify p n i)
  then show ?case by (intro ids_inv_cong [OF notify(4)]) (simp_all add: pending_def set_thread_def ids_same outcomes_def)
next
  case (notify_none p n)
  then show ?case by (intro ids_inv_cong [OF notify_none(3)]) (simp_all add: pending_def)
next
  case (notify_all p)
  then show ?case by (intro ids_inv_cong [OF notify_all(2)]) (simp_all add: pending_def ids_wake_all)
next
  case (drain p q qs)
  let ?p = "drain_one q qs p"
  have sel: "p_threads ?p = p_threads p" "p_state ?p = p_state p" "p_draining ?p = qs"
    "mset (p_woken ?p) = (if q_waker q then add_mset (q_id q) (mset (p_woken p)) else mset (p_woken p))"
    by (simp_all add: drain_one_def wake_owner_def send_outcome_def)
  show ?case
    by (rule ids_sent [OF drain(2), of q]) (simp_all add: sel pending_def drain(1), simp add: drain_one_def)
qed

lemma ids_submit: "ids_inv p \<Longrightarrow> ids_inv (snd (submit_inner spawn sc priority kind waker p))"
proof -
  assume inv: "ids_inv p"
  obtain ok p1 where p1: "start_workers spawn p = (ok, p1)" by force
  have sel: "s_jobs (p_state p1) = s_jobs (p_state p)" "s_next_id (p_state p1) = s_next_id (p_state p)" "p_draining p1 = p_draining p"
    "p_woken p1 = p_woken p" "ids busy (p_threads p1) = ids busy (p_threads p)" "ids waking (p_threads p1) = ids waking (p_threads p)"
    "outcomes p1 = outcomes p"
    using p1 by (auto simp: start_workers_def Let_def ids_wake_all split: if_splits prod.splits)
  then have inv1: "ids_inv p1" by (intro ids_inv_cong [OF inv]) (simp_all add: pending_def)
  have new: "ids_inv (p1\<lparr>p_state := (p_state p1)\<lparr>s_next_id := s_next_id (p_state p1) + 1, s_jobs := heap_push q (s_jobs (p_state p1))\<rparr>, p_notify := n\<rparr>)"
    (is "ids_inv ?p") if "q_id q = s_next_id (p_state p1)" for q n
  proof -
    have "pending ?p = add_mset (s_next_id (p_state p1)) (pending p1)" using that by (simp add: pending_def heap_push_def)
    then show ?thesis using ids_invD [OF inv1] by (auto simp: ids_inv_def less_Suc_eq)
  qed
  show ?thesis using inv inv1 new by (simp add: submit_inner_def p1 Let_def)
qed

lemma ids_event: "pool_event p p' \<Longrightarrow> ids_inv p \<Longrightarrow> ids_inv p'"
proof (induction rule: pool_event.induct)
  case (submit p spawn sc priority kind waker)
  then show ?case by (rule ids_submit)
next
  case (drop_pool p)
  then show ?case by (intro ids_inv_cong [OF drop_pool]) (simp_all add: drop_pool_def pending_def)
next
  case (recv p t)
  then show ?case
    by (intro ids_inv_cong [OF recv]) (auto simp: try_recv_def pending_def outcomes_def split: list.splits)
next
  case (spurious i p)
  then show ?case by (intro ids_inv_cong [OF spurious(3)]) (simp_all add: pending_def set_thread_def ids_same outcomes_def)
qed (erule ids_inv_cong; simp add: scope_default_def cancel_scope_def drop_scope_def pending_def)+

section \<open>No lost wakeup\<close>

definition flow_inv :: "'a Pool \<Rightarrow> bool" where
  "flow_inv p \<longleftrightarrow> (s_stopped (p_state p) \<longrightarrow> s_jobs (p_state p) = []) \<and> (\<not> s_started (p_state p) \<longrightarrow> p_threads p = [] \<and> s_jobs (p_state p) = [])
     \<and> (s_started (p_state p) \<and> \<not> s_stopped (p_state p) \<longrightarrow> length (p_threads p) = p_workers p)
     \<and> length (p_threads p) \<le> p_workers p \<and> 0 < p_workers p \<and> (\<not> s_stopped (p_state p) \<longrightarrow> Exited \<notin> set (p_threads p))
     \<and> (s_jobs (p_state p) \<noteq> [] \<and> \<not> s_stopped (p_state p) \<longrightarrow> 0 < p_notify p \<or> (\<exists>t\<in>set (p_threads p). t \<noteq> Waiting))"

lemma flow_set_thread:
  assumes "flow_inv p" "i < length (p_threads p)" "t \<noteq> Waiting" "t \<noteq> Exited"
    "s_stopped (p_state p') = s_stopped (p_state p)" "s_started (p_state p') = s_started (p_state p)" "p_workers p' = p_workers p"
    "p_threads p' = (p_threads p)[i := t]" "s_jobs (p_state p) = [] \<longrightarrow> s_jobs (p_state p') = []"
  shows "flow_inv p'"
proof -
  have "t \<in> set (p_threads p')" using assms(2,8) by (simp add: set_update_memI)
  moreover have "Exited \<in> set (p_threads p') \<Longrightarrow> Exited \<in> set (p_threads p)"
    using assms(4,8) set_update_subset_insert [of "p_threads p" i t] by auto
  ultimately show ?thesis using assms by (auto simp: flow_inv_def)
qed

lemma flow_worker_lock:
  assumes inv: "flow_inv p" and i: "i < length (p_threads p)"
  shows "flow_inv (worker_lock i p)"
proof (cases "s_jobs (p_state p) = [] \<or> s_stopped (p_state p)")
  case True
  have "Exited \<in> set ((p_threads p)[i := Waiting]) \<Longrightarrow> Exited \<in> set (p_threads p)"
    using set_update_subset_insert [of "p_threads p" i Waiting] by auto
  moreover have "(p_threads p)[i := t] = [] \<longleftrightarrow> p_threads p = []" for t by simp
  ultimately show ?thesis
  proof (cases "s_stopped (p_state p)")
    case True
    then show ?thesis using inv by (simp add: worker_lock_def flow_inv_def set_thread_def)
  next
    case running: False
    then have "s_jobs (p_state p) = []" using True by blast
    then show ?thesis using running inv \<open>Exited \<in> set _ \<Longrightarrow> _\<close> by (simp add: worker_lock_def flow_inv_def set_thread_def) blast
  qed
next
  case False
  then obtain q rest where q: "heap_pop (s_jobs (p_state p)) = Some (q, rest)" using heap.take_ex [of "s_jobs (p_state p)"] by auto
  show ?thesis
    by (rule flow_set_thread [OF inv i, of "Starting q"]) (use False q in \<open>simp_all add: worker_lock_def Let_def set_thread_def\<close>)
qed

lemma flow_progress: "pool_progress p p' \<Longrightarrow> flow_inv p \<Longrightarrow> flow_inv p'"
proof (induction rule: pool_progress.induct)
  case (lock i p)
  then show ?case by (simp add: flow_worker_lock)
next
  case (check i p q)
  show ?case
  proof (cases "is_cancelled p (q_scope q)")
    case True
    then show ?thesis by (intro flow_set_thread [OF check(3,1), of "Waking q"]) (simp_all add: job_check_def set_thread_def send_outcome_def)
  next
    case False
    then show ?thesis by (intro flow_set_thread [OF check(3,1), of "Working q"]) (simp_all add: job_check_def set_thread_def)
  qed
next
  case (finish i p q r)
  then show ?case by (intro flow_set_thread [OF finish(3,1), of "Waking q"]) (simp_all add: job_finish_def set_thread_def send_outcome_def)
next
  case (wake i p q)
  then show ?case by (intro flow_set_thread [OF wake(3,1), of Ready]) (simp_all add: job_wake_def wake_owner_def set_thread_def)
next
  case (notify p n i)
  then show ?case by (intro flow_set_thread [OF notify(4,2), of Ready]) (simp_all add: set_thread_def)
next
  case (notify_none p n)
  have "\<exists>t\<in>set (p_threads p). t \<noteq> Waiting" if "s_jobs (p_state p) \<noteq> []" "\<not> s_stopped (p_state p)"
  proof -
    have "p_threads p \<noteq> []" using notify_none(3) that by (auto simp: flow_inv_def)
    then show ?thesis using notify_none(2) by (cases "p_threads p") auto
  qed
  then show ?case using notify_none(3) by (auto simp: flow_inv_def)
next
  case (notify_all p)
  then show ?case by (auto simp: flow_inv_def wake_all_def)
next
  case (drain p q qs)
  then show ?case by (auto simp: flow_inv_def drain_one_def wake_owner_def send_outcome_def)
qed

lemma spawn_workers_count: "spawn_workers spawn i k = (n, ok) \<Longrightarrow> n \<le> k \<and> (ok \<longrightarrow> n = k)"
  by (induction k arbitrary: i n ok) (auto split: if_splits prod.splits)

lemma flow_start: "flow_inv p \<Longrightarrow> \<not> s_stopped (p_state p) \<Longrightarrow> start_workers spawn p = (ok, p1) \<Longrightarrow>
  flow_inv p1 \<and> s_stopped (p_state p1) = (\<not> ok) \<and> s_started (p_state p1)"
  using spawn_workers_count [of spawn 0 "p_workers p"]
  by (auto simp: start_workers_def Let_def flow_inv_def wake_all_def split: if_splits prod.splits)

lemma flow_submit: "flow_inv p \<Longrightarrow> flow_inv (snd (submit_inner spawn sc priority kind waker p))"
proof -
  assume inv: "flow_inv p"
  obtain ok p1 where p1: "start_workers spawn p = (ok, p1)" by force
  show ?thesis
  proof (cases "s_stopped (p_state p)")
    case False
    from flow_start [OF inv False p1] show ?thesis
      by (auto simp: submit_inner_def False p1 Let_def flow_inv_def)
  qed (simp add: submit_inner_def inv)
qed

lemma flow_event: "pool_event p p' \<Longrightarrow> flow_inv p \<Longrightarrow> flow_inv p'"
proof (induction rule: pool_event.induct)
  case (submit p spawn sc priority kind waker)
  then show ?case by (rule flow_submit)
next
  case (recv p t)
  then show ?case by (simp add: try_recv_def flow_inv_def split: list.splits)
next
  case (spurious i p)
  then show ?case by (intro flow_set_thread [OF spurious(3,1), of Ready]) (simp_all add: set_thread_def)
qed (simp_all add: flow_inv_def drop_pool_def scope_default_def cancel_scope_def drop_scope_def)

lemma pool_inv: "pool_reachable p \<Longrightarrow> ids_inv p \<and> flow_inv p"
proof (induction rule: pool_reachable.induct)
  case (start workers)
  then show ?case by (simp add: queue_new_def ids_inv_def flow_inv_def pending_def outcomes_def ids_def)
qed (blast intro: ids_progress ids_event flow_progress flow_event)+

section \<open>Progress\<close>

definition weight :: "worker \<Rightarrow> nat" where
  "weight t = (case t of Ready \<Rightarrow> 1 | Starting q \<Rightarrow> 4 | Working q \<Rightarrow> 3 | Waking q \<Rightarrow> 2 | _ \<Rightarrow> 0)"

definition work_left :: "'a Pool \<Rightarrow> nat" where
  "work_left p = 4 * length (s_jobs (p_state p)) + sum_list (map weight (p_threads p)) + 2 * p_notify p
     + (if p_notify_all p then Suc (length (p_threads p)) else 0) + length (p_draining p)"

lemma weight_update: "i < length ts \<Longrightarrow> sum_list (map weight (ts[i := t])) + weight (ts ! i) = sum_list (map weight ts) + weight t"
  by (induction ts arbitrary: i) (auto split: nat.splits)

lemma weight_wake_all: "sum_list (map weight (wake_all ts)) \<le> sum_list (map weight ts) + length ts"
proof (induction ts)
  case (Cons t ts)
  have "weight (if t = Waiting then Ready else t) \<le> Suc (weight t)" by (simp add: weight_def)
  then show ?case using Cons by (simp add: wake_all_def)
qed (simp add: wake_all_def)

lemma progress_decreases: "pool_progress p p' \<Longrightarrow> flow_inv p \<Longrightarrow> work_left p' < work_left p"
proof (induction rule: pool_progress.induct)
  case (lock i p)
  note W = weight_update [OF lock(1)]
  show ?case
  proof (cases "heap_pop (s_jobs (p_state p))")
    case None
    then have "s_jobs (p_state p) = []" using heap.take_none [of "s_jobs (p_state p)"] by simp
    then show ?thesis using W [of Waiting] W [of Exited] lock(2) by (simp add: worker_lock_def Let_def set_thread_def work_left_def weight_def)
  next
    case (Some x)
    obtain q rest where x: "x = (q, rest)" by (cases x)
    have "size (mset (s_jobs (p_state p))) = Suc (size (mset rest))" using heap.take_some [OF Some [unfolded x]] by simp
    then have len: "length (s_jobs (p_state p)) = Suc (length rest)" by simp
    then show ?thesis using W [of "Starting q"] W [of Exited] lock(2) Some x
      by (auto simp: worker_lock_def Let_def set_thread_def work_left_def weight_def)
  qed
next
  case (check i p q)
  then show ?case using weight_update [OF check(1), of "Waking q"] weight_update [OF check(1), of "Working q"]
    by (simp add: job_check_def set_thread_def send_outcome_def work_left_def weight_def)
next
  case (finish i p q r)
  then show ?case using weight_update [OF finish(1), of "Waking q"]
    by (simp add: job_finish_def set_thread_def send_outcome_def work_left_def weight_def)
next
  case (wake i p q)
  then show ?case using weight_update [OF wake(1), of Ready]
    by (simp add: job_wake_def set_thread_def wake_owner_def work_left_def weight_def)
next
  case (notify p n i)
  then show ?case using weight_update [OF notify(2), of Ready] by (simp add: set_thread_def work_left_def weight_def)
next
  case (notify_none p n)
  then show ?case by (simp add: work_left_def)
next
  case (notify_all p)
  then show ?case using weight_wake_all [of "p_threads p"] by (simp add: work_left_def)
next
  case (drain p q qs)
  then show ?case by (simp add: drain_one_def wake_owner_def send_outcome_def work_left_def)
qed

lemma progress_next_id: "pool_progress p p' \<Longrightarrow> s_next_id (p_state p') = s_next_id (p_state p)"
  by (induction rule: pool_progress.induct)
    (auto simp: worker_lock_def job_check_def job_finish_def job_wake_def drain_one_def send_outcome_def wake_owner_def set_thread_def Let_def
      split: option.splits)

text \<open>When no thread can move, nothing is pending.\<close>

lemma quiet_threads:
  assumes quiet: "\<And>p'. \<not> pool_progress p p'" and t: "t \<in> set (p_threads p)"
  shows "t = Waiting \<or> t = Exited"
proof -
  obtain i where i: "i < length (p_threads p)" "p_threads p ! i = t" using t by (auto simp: in_set_conv_nth)
  then show ?thesis using quiet pool_progress.intros(1-4) [of i p] by (cases t) metis+
qed

lemma quiet_pending:
  assumes flow: "flow_inv p" and quiet: "\<And>p'. \<not> pool_progress p p'"
  shows "pending p = {#}"
proof -
  note T = quiet_threads [OF quiet]
  have "busy t = []" if "t \<in> set (p_threads p)" for t using T [OF that] by auto
  then have busy: "ids busy (p_threads p) = {#}" by (simp add: ids_def)
  have drain: "p_draining p = []" using quiet pool_progress.drain by (cases "p_draining p") blast+
  have notify: "p_notify p = 0"
  proof (cases "p_notify p")
    case (Suc n)
    show ?thesis
    proof (cases "Waiting \<in> set (p_threads p)")
      case True
      then obtain i where "i < length (p_threads p)" "p_threads p ! i = Waiting" by (auto simp: in_set_conv_nth)
      then show ?thesis using quiet pool_progress.notify [OF Suc] by blast
    next
      case False
      then show ?thesis using quiet pool_progress.notify_none [OF Suc] by blast
    qed
  qed
  have "s_jobs (p_state p) = []"
  proof (rule ccontr)
    assume jobs: "s_jobs (p_state p) \<noteq> []"
    then have run: "\<not> s_stopped (p_state p)" using flow by (auto simp: flow_inv_def)
    then obtain t where "t \<in> set (p_threads p)" "t \<noteq> Waiting" using flow jobs notify by (auto simp: flow_inv_def)
    then have "Exited \<in> set (p_threads p)" using T by blast
    then show False using flow run by (simp add: flow_inv_def)
  qed
  then show ?thesis using busy drain by (simp add: pending_def)
qed

lemma settles:
  assumes "ids_inv p" "flow_inv p"
  shows "\<exists>p'. pool_progress\<^sup>*\<^sup>* p p' \<and> ids_inv p' \<and> pending p' = {#} \<and> s_next_id (p_state p') = s_next_id (p_state p)"
  using assms
proof (induction "work_left p" arbitrary: p rule: less_induct)
  case less
  show ?case
  proof (cases "\<exists>p'. pool_progress p p'")
    case True
    then obtain p' where p': "pool_progress p p'" by blast
    note inv = ids_progress [OF p' less.prems(1)] flow_progress [OF p' less.prems(2)]
    from less.hyps [OF progress_decreases [OF p' less.prems(2)] inv] obtain p'' where
      "pool_progress\<^sup>*\<^sup>* p' p''" "ids_inv p''" "pending p'' = {#}" "s_next_id (p_state p'') = s_next_id (p_state p')" by blast
    then show ?thesis using p' progress_next_id [OF p'] by (metis converse_rtranclp_into_rtranclp)
  next
    case False
    then show ?thesis using quiet_pending [OF less.prems(2)] less.prems(1) by blast
  qed
qed

text \<open>C13: However submissions, cancellations, shutdown and threads interleave, a job gets at most one outcome and wakes its
  owner at most once, and only after the outcome.  Left alone, the threads stop after finitely many steps, they stop only when every
  accepted job has its outcome, and so every accepted job can always still settle: no wakeup is lost.\<close>

theorem resource_jobs_settle:
  assumes "pool_reachable p"
  shows "(\<forall>j. length (outcomes p j) \<le> 1 \<and> count (mset (p_woken p)) j \<le> length (outcomes p j))
    \<and> (\<forall>p'. pool_progress p p' \<longrightarrow> work_left p' < work_left p)
    \<and> ((\<forall>p'. \<not> pool_progress p p') \<longrightarrow> (\<forall>j. length (outcomes p j) = (if j < s_next_id (p_state p) then 1 else 0)))
    \<and> (\<exists>p'. pool_progress\<^sup>*\<^sup>* p p' \<and> (\<forall>j < s_next_id (p_state p). length (outcomes p' j) = 1))"
proof -
  have inv: "ids_inv p" "flow_inv p" using pool_inv [OF assms] by simp_all
  have one: "length (outcomes p j) \<le> 1 \<and> count (mset (p_woken p)) j \<le> length (outcomes p j)" for j
    using ids_invD [OF inv(1), of j] by (auto split: if_splits)
  have all: "length (outcomes p j) = (if j < s_next_id (p_state p) then 1 else 0)" if "\<forall>p'. \<not> pool_progress p p'" for j
    using quiet_pending [OF inv(2)] that ids_invD(1) [OF inv(1), of j] by simp
  have "\<exists>p'. pool_progress\<^sup>*\<^sup>* p p' \<and> (\<forall>j < s_next_id (p_state p). length (outcomes p' j) = 1)"
  proof -
    obtain p' where p': "pool_progress\<^sup>*\<^sup>* p p'" "ids_inv p'" "pending p' = {#}" "s_next_id (p_state p') = s_next_id (p_state p)"
      using settles [OF inv] by blast
    then show ?thesis using ids_invD(1) [OF p'(2)] by auto
  qed
  then show ?thesis using one all progress_decreases [OF _ inv(2)] by blast
qed

text \<open>A worker takes a queued job of the highest priority, the oldest among those, and no more jobs are under way than
  the pool has workers.\<close>

theorem resource_dispatch_order:
  assumes "pool_reachable p" "i < length (p_threads p)" "p_threads p ! i = Ready" "p_threads (worker_lock i p) ! i = Starting q"
  shows "q \<in> set (s_jobs (p_state p)) \<and> length (filter (\<lambda>t. held_by t \<noteq> []) (p_threads (worker_lock i p))) \<le> p_workers p
    \<and> (\<forall>x\<in>set (s_jobs (p_state (worker_lock i p))). q_priority x < q_priority q \<or> (q_priority x = q_priority q \<and> q_id q < q_id x))"
proof -
  have inv: "ids_inv p" "flow_inv p" using pool_inv [OF assms(1)] by simp_all
  have run: "s_jobs (p_state p) \<noteq> []" "\<not> s_stopped (p_state p)"
    using assms(2-4) by (auto simp: worker_lock_def Let_def set_thread_def split: if_splits)
  then obtain q' rest where pop: "heap_pop (s_jobs (p_state p)) = Some (q', rest)" using heap.take_ex [of "s_jobs (p_state p)"] by auto
  have lock: "worker_lock i p = set_thread i (Starting q') (p\<lparr>p_state := (p_state p)\<lparr>s_jobs := rest\<rparr>\<rparr>)"
    using run pop by (simp add: worker_lock_def Let_def)
  then have q: "q' = q" using assms(2,4) by (simp add: set_thread_def)
  have heap: "mset (s_jobs (p_state p)) = add_mset q (mset rest)" "\<forall>x\<in>#mset rest. \<not> queued_less q x"
    using heap.take_some [OF pop] q by blast+
  have "q_id x \<noteq> q_id q" if x: "x \<in> set rest" for x
  proof
    assume e: "q_id x = q_id q"
    have "mset (map q_id (s_jobs (p_state p))) = add_mset (q_id q) (mset (map q_id rest))" using heap(1) by simp
    moreover have "q_id q \<in># mset (map q_id rest)" using x e by (metis image_eqI list.set_map set_mset_mset)
    ultimately have "2 \<le> count (pending p) (q_id q)" by (simp add: pending_def Suc_leI)
    then show False using ids_invD(1) [OF inv(1), of "q_id q"] by (auto split: if_splits)
  qed
  then have ord: "q_priority x < q_priority q \<or> (q_priority x = q_priority q \<and> q_id q < q_id x)" if "x \<in> set rest" for x
    using heap(2) that by (fastforce simp: queued_less_def not_less)
  have "q \<in> set (s_jobs (p_state p))" using heap(1) by (metis set_mset_mset union_single_eq_member)
  moreover have "length (filter (\<lambda>t. held_by t \<noteq> []) (p_threads (worker_lock i p))) \<le> p_workers p"
    using inv(2) by (intro order_trans [OF length_filter_le]) (simp add: lock set_thread_def flow_inv_def)
  ultimately show ?thesis using ord by (simp add: lock set_thread_def)
qed

text \<open>A background job, then a critical one, for a pool of one worker.\<close>

definition demo_pool :: "nat Pool" where
  "demo_pool = snd (submit_inner (\<lambda>_. True) 0 Critical Script False
     (snd (submit_inner (\<lambda>_. True) 0 Background Image True (snd (scope_default (queue_new 1))))))"

lemma demo_pool_reachable: "pool_reachable demo_pool"
proof -
  have "pool_reachable (snd (scope_default (queue_new 1)))" by (rule pool_reachable.event [OF pool_reachable.start pool_event.scope]) simp
  then show ?thesis unfolding demo_pool_def by (intro pool_reachable.event [OF _ pool_event.submit])
qed

lemma demo_pool_eval:
  "p_state demo_pool = \<lparr>s_jobs = [\<lparr>q_priority = Background, q_id = 0, q_scope = 0, q_waker = True\<rparr>,
       \<lparr>q_priority = Critical, q_id = 1, q_scope = 0, q_waker = False\<rparr>], s_next_id = 2, s_started = True, s_stopped = False\<rparr>"
  "p_threads demo_pool = [Ready]" "p_workers demo_pool = 1"
  by (simp_all add: demo_pool_def submit_inner_def start_workers_def scope_default_def queue_new_def Let_def u64_max_def heap_push_def)

theorem resource_jobs_settle_witness:
  "\<exists>p'. pool_progress\<^sup>*\<^sup>* demo_pool p' \<and> length (outcomes p' 0) = 1 \<and> length (outcomes p' 1) = 1"
proof -
  obtain p' where "pool_progress\<^sup>*\<^sup>* demo_pool p'" "\<forall>j < s_next_id (p_state demo_pool). length (outcomes p' j) = 1"
    using resource_jobs_settle [OF demo_pool_reachable] by blast
  then show ?thesis by (auto simp: demo_pool_eval)
qed

theorem resource_dispatch_order_witness:
  "p_threads (worker_lock 0 demo_pool) = [Starting \<lparr>q_priority = Critical, q_id = 1, q_scope = 0, q_waker = False\<rparr>]
     \<and> length (filter (\<lambda>t. held_by t \<noteq> []) (p_threads (worker_lock 0 demo_pool))) \<le> 1
     \<and> \<lparr>q_priority = Critical, q_id = 1, q_scope = 0, q_waker = False\<rparr> \<in> set (s_jobs (p_state demo_pool))"
proof -
  have t: "p_threads (worker_lock 0 demo_pool) = [Starting \<lparr>q_priority = Critical, q_id = 1, q_scope = 0, q_waker = False\<rparr>]"
    by (simp add: worker_lock_def demo_pool_eval heap_pop_def Let_def queued_less_def less_ResourcePriority_def set_thread_def)
  from resource_dispatch_order [OF demo_pool_reachable, of 0] t show ?thesis by (simp add: demo_pool_eval)
qed

end
