(* ===== verification/Http2.thy ===== *)
theory Http2
  imports Request Response
begin

text \<open>
  The HTTP/2 transport (\<open>src/http/http2.rs\<close>): frames, the HPACK subset, flow-control
  counters and the exchange of one request over a byte stream.  Machine integers are naturals and integers with the wrap-around of a release build written
  out (in a debug build the same overflows panic).  The TLS session, its ALPN choice and the sockets are not modelled: the connection
  works on a stream of incoming bytes and a writer that may start to fail.
\<close>

unbundle bit_operations_syntax

section \<open>Results with a state\<close>

type_synonym ('s, 'a) io = "'s \<Rightarrow> (HttpParseError + 'a) \<times> 's"

definition io_bind :: "('s, 'a) io \<Rightarrow> ('a \<Rightarrow> ('s, 'b) io) \<Rightarrow> ('s, 'b) io" where
  "io_bind m f s = (case m s of (Inl e, s') \<Rightarrow> (Inl e, s') | (Inr x, s') \<Rightarrow> f x s')"

definition io_return :: "HttpParseError + 'a \<Rightarrow> ('s, 'a) io" where
  "io_return r s = (r, s)"

section \<open>Frames\<close>

definition connection_preface :: "u8 list" where
  "connection_preface = bytes_of_str (''PRI * HTTP/2.0'' @ [CHR 13, CHR 10, CHR 13, CHR 10] @ ''SM'' @ [CHR 13, CHR 10, CHR 13, CHR 10])"

definition default_window_size :: int where "default_window_size = 65535"

definition flag_end_stream :: nat where "flag_end_stream = 0x1"

definition flag_end_headers :: nat where "flag_end_headers = 0x4"

datatype FrameType = DataFrame | HeadersFrame | SettingsFrame | WindowUpdateFrame

fun frame_type_to_u8 :: "FrameType \<Rightarrow> nat" where
  "frame_type_to_u8 DataFrame = 0x0"
| "frame_type_to_u8 HeadersFrame = 0x1"
| "frame_type_to_u8 SettingsFrame = 0x4"
| "frame_type_to_u8 WindowUpdateFrame = 0x8"

definition frame_type_from_u8 :: "nat \<Rightarrow> HttpParseError + FrameType" where
  "frame_type_from_u8 v =
     (if v = 0x0 then Inr DataFrame else if v = 0x1 then Inr HeadersFrame else if v = 0x4 then Inr SettingsFrame
      else if v = 0x8 then Inr WindowUpdateFrame else Inl InvalidHeader)"

record Frame =
  f_type :: FrameType
  f_flags :: nat
  f_stream_id :: nat
  f_payload :: "u8 list"

text \<open>\<open>u32::to_be_bytes\<close> and \<open>from_be_bytes\<close>.\<close>

definition to_be_bytes :: "nat \<Rightarrow> u8 list" where
  "to_be_bytes v = [word_of_nat (v div 2 ^ 24), word_of_nat (v div 2 ^ 16), word_of_nat (v div 2 ^ 8), word_of_nat v]"

definition from_be_bytes :: "u8 list \<Rightarrow> nat" where
  "from_be_bytes bs = fold (\<lambda>b acc. acc * 256 + unat b) bs 0"

definition frame_encode :: "Frame \<Rightarrow> u8 list" where
  "frame_encode f =
     (let len = length (f_payload f) mod 2 ^ 32 in
      [word_of_nat (len div 2 ^ 16 mod 256), word_of_nat (len div 2 ^ 8 mod 256), word_of_nat (len mod 256),
       word_of_nat (frame_type_to_u8 (f_type f)), word_of_nat (f_flags f)]
      @ to_be_bytes (f_stream_id f mod 2 ^ 31) @ f_payload f)"

definition frame_read :: "reader \<Rightarrow> HttpParseError + (Frame \<times> reader)" where
  "frame_read r =
     rbind (map_err Io (read_exact 9 r)) (\<lambda>(header, r1).
       let len = unat (header ! 0) * 2 ^ 16 + unat (header ! 1) * 2 ^ 8 + unat (header ! 2)
       in rbind (frame_type_from_u8 (unat (header ! 3))) (\<lambda>frame_type.
            rbind (map_err Io (read_exact len r1)) (\<lambda>(payload, r2).
              Inr (\<lparr>f_type = frame_type, f_flags = unat (header ! 4),
                    f_stream_id = from_be_bytes (take 4 (drop 5 header)) mod 2 ^ 31, f_payload = payload\<rparr>, r2))))"

section \<open>HPACK\<close>

text \<open>\<open>None\<close> is the unreachable case of an empty output.\<close>

function encode_remaining :: "nat \<Rightarrow> u8 list" where
  "encode_remaining r = (if r \<ge> 128 then word_of_nat (r mod 128 + 128) # encode_remaining (r div 128) else [word_of_nat r])"
  by pat_completeness auto
termination by (relation "measure id") auto

definition encode_integer :: "u8 list \<Rightarrow> nat \<Rightarrow> nat \<Rightarrow> u8 list option" where
  "encode_integer out v prefix_bits =
     (let max_prefix = 2 ^ prefix_bits - 1 in
      if out = [] then None
      else if v < max_prefix then Some (butlast out @ [last out OR word_of_nat v])
      else Some (butlast out @ [last out OR word_of_nat max_prefix] @ encode_remaining (v - max_prefix)))"

definition encode_string_literal :: "u8 list \<Rightarrow> string \<Rightarrow> u8 list option" where
  "encode_string_literal out v =
     map_option (\<lambda>out1. out1 @ bytes_of_str v) (encode_integer (out @ [0]) (length v) 7)"

definition encode_literal :: "u8 list \<Rightarrow> string \<Rightarrow> string \<Rightarrow> u8 list option" where
  "encode_literal out name v =
     Option.bind (encode_string_literal (out @ [0]) name) (\<lambda>out1. encode_string_literal out1 v)"

text \<open>The fields of a request, in the order they are encoded.\<close>

definition request_fields :: "HttpRequest \<Rightarrow> headers" where
  "request_fields req =
     [('':method'', method_as_str (r_method req)), ('':scheme'', u_scheme (r_url req)), ('':authority'', authority (r_url req)),
      ('':path'', request_target (r_url req))]
     @ filter (\<lambda>(n, _). n \<noteq> ''host'') (map (\<lambda>(n, v). (to_ascii_lowercase n, v)) (r_headers req))"

primrec encode_fields :: "u8 list \<Rightarrow> headers \<Rightarrow> u8 list option" where
  "encode_fields out [] = Some out"
| "encode_fields out (h # hs) = Option.bind (encode_literal out (fst h) (snd h)) (\<lambda>out1. encode_fields out1 hs)"

definition encode_request :: "HttpRequest \<Rightarrow> u8 list option" where
  "encode_request req = encode_fields [] (request_fields req)"

text \<open>The continuation bytes of an integer: value, remaining input.\<close>

fun decode_remaining :: "u8 list \<Rightarrow> nat \<Rightarrow> nat \<Rightarrow> HttpParseError + (nat \<times> u8 list)" where
  "decode_remaining [] m v = Inl InvalidHeader"
| "decode_remaining (b # bs) m v =
     (let v1 = (v + (unat b mod 128 * 2 ^ (m mod 64)) mod 2 ^ 64) mod 2 ^ 64
      in if unat b < 128 then Inr (v1, bs) else decode_remaining bs (m + 7) v1)"

definition decode_integer :: "u8 list \<Rightarrow> nat \<Rightarrow> HttpParseError + (nat \<times> u8 list)" where
  "decode_integer input prefix_bits =
     (case input of [] \<Rightarrow> Inl InvalidHeader
      | b # bs \<Rightarrow> (let mask = 2 ^ prefix_bits - 1; v = unat b mod 2 ^ prefix_bits
                 in if v < mask then Inr (v, bs) else decode_remaining bs 0 v))"

definition decode_string :: "u8 list \<Rightarrow> HttpParseError + (string \<times> u8 list)" where
  "decode_string input =
     (case input of [] \<Rightarrow> Inl InvalidHeader
      | b # _ \<Rightarrow>
          if unat b \<ge> 128 then Inl InvalidHeader
          else rbind (decode_integer input 7) (\<lambda>(len, rest).
                 if len > length rest then Inl InvalidHeader
                 else case from_utf8 (take len rest) of None \<Rightarrow> Inl InvalidHeader | Some s \<Rightarrow> Inr (s, drop len rest)))"

definition indexed_name :: "nat \<Rightarrow> HttpParseError + string" where
  "indexed_name i =
     (if i = 1 then Inr '':authority'' else if i = 2 then Inr '':method'' else if i = 4 then Inr '':path'' else if i = 6 then Inr '':scheme''
      else if i = 8 then Inr '':status'' else if i = 28 then Inr ''content-length'' else if i = 31 then Inr ''content-type''
      else Inl InvalidHeader)"

definition indexed_header :: "nat \<Rightarrow> HttpParseError + string \<times> string" where
  "indexed_header i =
     (if i = 8 then Inr ('':status'', ''200'') else if i = 13 then Inr ('':status'', ''404'')
      else if i = 16 then Inr (''accept-encoding'', ''gzip, deflate'') else Inl InvalidHeader)"

lemma decode_remaining_shrinks: "decode_remaining bs m v = Inr (x, rest) \<Longrightarrow> length rest < length bs"
  by (induction bs m v rule: decode_remaining.induct) (auto simp: Let_def split: if_splits)

lemma decode_integer_shrinks: "decode_integer bs k = Inr (x, rest) \<Longrightarrow> length rest < length bs"
  by (auto simp: decode_integer_def Let_def dest: decode_remaining_shrinks split: list.splits if_splits)

lemma decode_string_shrinks: "decode_string bs = Inr (x, rest) \<Longrightarrow> length rest < length bs"
  by (auto simp: decode_string_def dest: decode_integer_shrinks split: list.splits if_splits option.splits)

definition decode_field :: "u8 list \<Rightarrow> HttpParseError + ((string \<times> string) \<times> u8 list)" where
  "decode_field block =
     (let first = hd block in
      if first AND 0x80 \<noteq> 0 then
        rbind (decode_integer block 7) (\<lambda>(index, rest). rbind (indexed_header index) (\<lambda>h. Inr (h, rest)))
      else if first AND 0x40 = 0x40 \<or> first AND 0x10 = 0x10 \<or> first = 0 then
        rbind (decode_integer block (if first AND 0x40 = 0x40 then 6 else 4)) (\<lambda>(name_index, rest).
          rbind (if name_index = 0 then decode_string rest else rbind (indexed_name name_index) (\<lambda>n. Inr (n, rest))) (\<lambda>(name, rest1).
            rbind (decode_string rest1) (\<lambda>(v, rest2). Inr ((name, v), rest2))))
      else Inl InvalidHeader)"

lemma decode_field_shrinks: "decode_field bs = Inr (h, rest) \<Longrightarrow> length rest < length bs"
  by (auto simp: decode_field_def Let_def dest!: decode_integer_shrinks decode_string_shrinks split: if_splits)

function decode_header_block :: "u8 list \<Rightarrow> HttpParseError + headers" where
  "decode_header_block block =
     (if block = [] then Inr []
      else case decode_field block of
        Inl e \<Rightarrow> Inl e
      | Inr (h, rest) \<Rightarrow> map_sum id ((#) h) (decode_header_block rest))"
  by pat_completeness auto
termination by (relation "measure length") (auto dest: decode_field_shrinks)

declare decode_header_block.simps [simp del]

section \<open>Connections\<close>

record Http2Connection =
  h_in :: reader
  h_out :: "u8 list"
  h_writes :: "nat option"
  h_write_error :: io_error
  h_next_stream_id :: nat
  h_connection_window :: int
  h_stream_windows :: "nat \<rightharpoonup> int"
  h_initialized :: bool

text \<open>\<open>i32\<close> arithmetic.\<close>

definition wrap_i32 :: "int \<Rightarrow> int" where
  "wrap_i32 x = (x + 2 ^ 31) mod 2 ^ 32 - 2 ^ 31"

definition http2_new :: "reader \<Rightarrow> nat option \<Rightarrow> io_error \<Rightarrow> Http2Connection" where
  "http2_new input writes e = \<lparr>h_in = input, h_out = [], h_writes = writes, h_write_error = e, h_next_stream_id = 1,
     h_connection_window = default_window_size, h_stream_windows = Map.empty, h_initialized = False\<rparr>"

text \<open>Writing and flushing fail after \<open>h_writes\<close> calls.\<close>

definition io_write :: "u8 list \<Rightarrow> (Http2Connection, unit) io" where
  "io_write bs c =
     (case h_writes c of
        Some 0 \<Rightarrow> (Inl (Io (h_write_error c)), c)
      | Some (Suc k) \<Rightarrow> (Inr (), c\<lparr>h_out := h_out c @ bs, h_writes := Some k\<rparr>)
      | None \<Rightarrow> (Inr (), c\<lparr>h_out := h_out c @ bs\<rparr>))"

definition write_frame :: "Frame \<Rightarrow> (Http2Connection, unit) io" where
  "write_frame f = io_write (frame_encode f)"

definition settings_frame :: "nat \<Rightarrow> Frame" where
  "settings_frame flags = \<lparr>f_type = SettingsFrame, f_flags = flags, f_stream_id = 0, f_payload = []\<rparr>"

definition window_of :: "Http2Connection \<Rightarrow> nat \<Rightarrow> int" where
  "window_of c sid = (case h_stream_windows c sid of Some w \<Rightarrow> w | None \<Rightarrow> default_window_size)"

definition spend_window :: "nat \<Rightarrow> nat \<Rightarrow> Http2Connection \<Rightarrow> Http2Connection" where
  "spend_window sid n c =
     c\<lparr>h_connection_window := wrap_i32 (h_connection_window c - wrap_i32 (int n)),
       h_stream_windows := (h_stream_windows c)(sid := map_option (\<lambda>w. wrap_i32 (w - wrap_i32 (int n))) (h_stream_windows c sid))\<rparr>"

definition write_data :: "nat \<Rightarrow> u8 list \<Rightarrow> bool \<Rightarrow> (Http2Connection, unit) io" where
  "write_data sid data end_stream c =
     (let allowed = nat (max 0 (min (h_connection_window c) (window_of c sid))) in
      if length data > allowed then (Inl (Io (IoError WriteZero ''HTTP/2 flow control window exhausted'')), c)
      else write_frame \<lparr>f_type = DataFrame, f_flags = (if end_stream then flag_end_stream else 0), f_stream_id = sid, f_payload = data\<rparr>
             (spend_window sid (length data) c))"

definition add_window :: "nat \<Rightarrow> nat \<Rightarrow> Http2Connection \<Rightarrow> Http2Connection" where
  "add_window sid n c =
     c\<lparr>h_stream_windows := (h_stream_windows c)(sid \<mapsto>
        wrap_i32 ((case h_stream_windows c sid of Some w \<Rightarrow> w | None \<Rightarrow> 0) + wrap_i32 (int n)))\<rparr>"

definition refresh_flow_control :: "nat \<Rightarrow> nat \<Rightarrow> (Http2Connection, unit) io" where
  "refresh_flow_control sid increment c =
     (Inr (), add_window sid increment (c\<lparr>h_connection_window := wrap_i32 (h_connection_window c + wrap_i32 (int increment))\<rparr>))"

definition parse_window_increment :: "u8 list \<Rightarrow> HttpParseError + nat" where
  "parse_window_increment payload = (if length payload \<noteq> 4 then Inl InvalidHeader else Inr (from_be_bytes payload mod 2 ^ 31))"

fun scan_status :: "headers \<Rightarrow> nat option \<Rightarrow> headers \<Rightarrow> nat option \<times> headers" where
  "scan_status [] status_code filtered = (status_code, filtered)"
| "scan_status ((n, v) # hs) status_code filtered =
     (if n = '':status'' then scan_status hs (parse_uint 10 u16_max v) filtered
      else scan_status hs status_code (filtered @ [(n, v)]))"

definition build_response :: "headers \<Rightarrow> u8 list \<Rightarrow> HttpParseError + HttpResponse" where
  "build_response hs body =
     (case scan_status hs None [] of
        (None, _) \<Rightarrow> Inl InvalidStatusCode
      | (Some status_code, filtered) \<Rightarrow> Inr (response_new status_code [] filtered body))"

record StreamState =
  ss_headers :: headers
  ss_body :: "u8 list"
  ss_ended :: bool

text \<open>What one frame does to the stream that is read.\<close>

definition handle_frame :: "nat \<Rightarrow> nat \<Rightarrow> Frame \<Rightarrow> StreamState \<Rightarrow> (Http2Connection, StreamState) io" where
  "handle_frame limit sid f st =
     (let ended = (ss_ended st \<or> odd (f_flags f)) in
      case f_type f of
        SettingsFrame \<Rightarrow>
          if even (f_flags f)
          then io_bind (write_frame (settings_frame 1)) (\<lambda>_. io_bind (io_write []) (\<lambda>_. io_return (Inr st)))
          else io_return (Inr st)
      | HeadersFrame \<Rightarrow>
          if f_stream_id f = sid
          then io_bind (io_return (decode_header_block (f_payload f))) (\<lambda>hs.
                 io_return (Inr (st\<lparr>ss_headers := ss_headers st @ hs, ss_ended := ended\<rparr>)))
          else io_return (Inr st)
      | DataFrame \<Rightarrow>
          if f_stream_id f = sid
          then if length (f_payload f) > limit - length (ss_body st) then io_return (Inl BodyTooLarge)
               else (\<lambda>c. io_bind (refresh_flow_control sid (length (f_payload f)))
                       (\<lambda>_. io_return (Inr (st\<lparr>ss_body := ss_body st @ f_payload f, ss_ended := ended\<rparr>)))
                       (spend_window sid (length (f_payload f)) c))
          else io_return (Inr st)
      | WindowUpdateFrame \<Rightarrow>
          io_bind (io_return (parse_window_increment (f_payload f))) (\<lambda>increment.
            if f_stream_id f = 0
            then (\<lambda>c. (Inr st, c\<lparr>h_connection_window := wrap_i32 (h_connection_window c + wrap_i32 (int increment))\<rparr>))
            else (\<lambda>c. (Inr st, add_window (f_stream_id f) increment c))))"

lemma frame_read_shrinks: "frame_read r = Inr (f, r') \<Longrightarrow> length (rd_bytes r') < length (rd_bytes r)"
  by (auto simp: frame_read_def Let_def dest!: read_exact_length)

lemma io_write_in: "io_write bs c = (r, c') \<Longrightarrow> h_in c' = h_in c"
  by (auto simp: io_write_def split: option.splits nat.splits)

lemma handle_frame_in: "handle_frame limit sid f st c = (r, c') \<Longrightarrow> h_in c' = h_in c"
  by (auto simp: handle_frame_def Let_def io_bind_def io_return_def write_frame_def refresh_flow_control_def spend_window_def add_window_def
      dest!: io_write_in split: FrameType.splits if_splits prod.splits sum.splits)

function read_response :: "nat \<Rightarrow> nat \<Rightarrow> StreamState \<Rightarrow> (Http2Connection, HttpResponse) io" where
  "read_response limit sid st c =
     (case frame_read (h_in c) of
        Inl e \<Rightarrow> (Inl e, c)
      | Inr (f, r) \<Rightarrow>
          (case handle_frame limit sid f st (c\<lparr>h_in := r\<rparr>) of
             (Inl e, c1) \<Rightarrow> (Inl e, c1)
           | (Inr st1, c1) \<Rightarrow>
               if ss_ended st1 \<and> ss_headers st1 \<noteq> [] then (build_response (ss_headers st1) (ss_body st1), c1)
               else read_response limit sid st1 c1))"
  by pat_completeness auto
termination
  by (relation "measure (\<lambda>(_, _, _, c). length (rd_bytes (h_in c)))") (auto dest!: frame_read_shrinks handle_frame_in [OF sym])

declare read_response.simps [simp del]

definition connection_init :: "(Http2Connection, unit) io" where
  "connection_init c =
     (if h_initialized c then (Inr (), c)
      else io_bind (io_write connection_preface) (\<lambda>_. io_bind (write_frame (settings_frame 0)) (\<lambda>_ c1. (Inr (), c1\<lparr>h_initialized := True\<rparr>))) c)"

text \<open>Up to the response; the unreachable case of the encoder does not arise.\<close>

definition send_head :: "HttpRequest \<Rightarrow> (Http2Connection, nat) io" where
  "send_head req =
     io_bind connection_init (\<lambda>_ c.
       (let sid = h_next_stream_id c;
            c1 = c\<lparr>h_next_stream_id := (sid + 2) mod 2 ^ 32, h_stream_windows := (h_stream_windows c)(sid \<mapsto> default_window_size)\<rparr>
        in case encode_request req of
             None \<Rightarrow> (Inl InvalidHeader, c1)
           | Some header_block \<Rightarrow>
               io_bind (write_frame \<lparr>f_type = HeadersFrame,
                   f_flags = (if r_body req = None then flag_end_headers + flag_end_stream else flag_end_headers),
                   f_stream_id = sid, f_payload = header_block\<rparr>) (\<lambda>_.
                 io_bind (case r_body req of Some body \<Rightarrow> write_data sid body True | None \<Rightarrow> io_return (Inr ())) (\<lambda>_.
                   io_bind (io_write []) (\<lambda>_. io_return (Inr sid)))) c1))"

definition send_request :: "string option \<Rightarrow> HttpRequest \<Rightarrow> (Http2Connection, HttpResponse) io" where
  "send_request var req =
     io_bind (send_head req) (\<lambda>sid.
       read_response (response_body_limit var) sid \<lparr>ss_headers = [], ss_body = [], ss_ended = False\<rparr>)"

end
