(* ===== verification/Http2Props.thy ===== *)
theory Http2Props
  imports Http2
begin

text \<open>
  The HTTP/2 encodings are self-delimiting, and what a connection writes for a request reads back as
  that request.
\<close>

unbundle bit_operations_syntax

section \<open>Integers\<close>

declare encode_remaining.simps [simp del]

lemma decode_encode_remaining:
  "m < 64 \<Longrightarrow> v + r * 2 ^ m < 2 ^ 64 \<Longrightarrow> decode_remaining (encode_remaining r @ rest) m v = Inr (v + r * 2 ^ m, rest)"
proof (induction r arbitrary: m v rule: encode_remaining.induct)
  case (1 r)
  show ?case
  proof (cases "r \<ge> 128")
    case False
    have u: "unat (word_of_nat r :: u8) = r" using False by (simp add: unat_of_nat)
    have "r * 2 ^ m < 2 ^ 64" using "1.prems"(2) by linarith
    then show ?thesis using False "1.prems" u by (simp add: encode_remaining.simps [of r] Let_def)
  next
    case True
    let ?b = "r mod 128"
    have u: "unat (word_of_nat (?b + 128) :: u8) = ?b + 128"
    proof -
      have "?b + 128 < 256" using mod_less_divisor [of 128 r] by simp
      then show ?thesis by (simp add: unat_of_nat del: of_nat_add)
    qed
    have "(b + 128 * q) * 2 ^ m = b * 2 ^ m + q * 2 ^ (m + 7)" for b q :: nat by (simp add: add_mult_distrib power_add)
    from this [of ?b "r div 128"] have mul: "r * 2 ^ m = ?b * 2 ^ m + r div 128 * 2 ^ (m + 7)" by (simp only: mod_mult_div_eq)
    have pos: "1 \<le> r div 128" using True by (simp add: Suc_leI div_greater_zero_iff)
    then have "2 ^ (m + 7) \<le> r div 128 * (2 ^ (m + 7) :: nat)" by simp
    then have "2 ^ (m + 7) < (2 ^ 64 :: nat)" using "1.prems"(2) mul by linarith
    then have m: "m + 7 < 64" by (rule power_less_imp_less_exp [rotated]) simp
    have small: "v + ?b * 2 ^ m < 2 ^ 64" "?b * 2 ^ m < 2 ^ 64" using "1.prems"(2) mul by linarith+
    have step: "decode_remaining (encode_remaining r @ rest) m v = decode_remaining (encode_remaining (r div 128) @ rest) (m + 7) (v + ?b * 2 ^ m)"
      using True u small "1.prems"(1) by (simp add: encode_remaining.simps [of r] Let_def)
    have "v + ?b * 2 ^ m + r div 128 * 2 ^ (m + 7) < 2 ^ 64" using "1.prems"(2) mul by linarith
    from "1.IH" [OF True m this] show ?thesis using step mul by simp
  qed
qed

text \<open>The encoding of an integer into a fresh byte.\<close>

definition integer_bytes :: "nat \<Rightarrow> u8 list" where
  "integer_bytes v = (if v < 127 then [word_of_nat v] else 127 # encode_remaining (v - 127))"

lemma encode_integer_fresh: "encode_integer (out @ [0]) v 7 = Some (out @ integer_bytes v)"
  by (simp add: encode_integer_def integer_bytes_def Let_def)

lemma decode_integer_bytes:
  assumes "v < 2 ^ 64"
  shows "decode_integer (integer_bytes v @ rest) 7 = Inr (v, rest)"
proof (cases "v < 127")
  case True
  then have "unat (word_of_nat v :: u8) = v" by (simp add: unat_of_nat)
  then show ?thesis using True by (simp add: integer_bytes_def decode_integer_def Let_def)
next
  case False
  have "decode_remaining (encode_remaining (v - 127) @ rest) 0 127 = Inr (127 + (v - 127) * 2 ^ 0, rest)"
    by (rule decode_encode_remaining) (use assms False in simp_all)
  then show ?thesis using False by (simp add: integer_bytes_def decode_integer_def Let_def)
qed

section \<open>Strings and fields\<close>

definition rust_str :: "string \<Rightarrow> bool" where
  "rust_str s \<longleftrightarrow> utf8_valid (map byte s) \<and> length s < 2 ^ 64"

lemma from_utf8_bytes: "rust_str s \<Longrightarrow> from_utf8 (bytes_of_str s) = Some s"
proof -
  have u: "unat (word_of_nat (byte c) :: u8) = byte c" for c by (simp add: unat_of_nat)
  assume "rust_str s"
  then show ?thesis by (simp add: rust_str_def from_utf8_def bytes_of_str_def str_of_bytes_def comp_def u)
qed

definition string_bytes :: "string \<Rightarrow> u8 list" where
  "string_bytes s = integer_bytes (length s) @ bytes_of_str s"

definition field_bytes :: "string \<times> string \<Rightarrow> u8 list" where
  "field_bytes h = 0 # string_bytes (fst h) @ string_bytes (snd h)"

lemma encode_literal_bytes: "encode_literal out n v = Some (out @ field_bytes (n, v))"
proof -
  have e: "encode_string_literal xs w = Some (xs @ string_bytes w)" for xs w
    by (simp add: encode_string_literal_def encode_integer_fresh string_bytes_def)
  show ?thesis by (simp add: encode_literal_def e field_bytes_def)
qed

lemma encode_fields_bytes: "encode_fields out hs = Some (out @ concat (map field_bytes hs))"
  by (induction hs arbitrary: out) (simp_all add: encode_literal_bytes)

lemma decode_string_bytes:
  assumes "rust_str s"
  shows "decode_string (string_bytes s @ rest) = Inr (s, rest)"
proof -
  have len: "length s < 2 ^ 64" using assms by (simp add: rust_str_def)
  obtain b bs where b: "integer_bytes (length s) = b # bs" "unat b < 128"
  proof (cases "length s < 127")
    case True
    then have "unat (word_of_nat (length s) :: u8) = length s" by (simp add: unat_of_nat)
    then show ?thesis using that True by (simp add: integer_bytes_def)
  next
    case False
    then show ?thesis using that by (simp add: integer_bytes_def)
  qed
  have d: "decode_integer (b # bs @ bytes_of_str s @ rest) 7 = Inr (length s, bytes_of_str s @ rest)"
    using decode_integer_bytes [OF len, of "bytes_of_str s @ rest"] b(1) by simp
  have l: "length (bytes_of_str s) = length s" by (simp add: bytes_of_str_def)
  show ?thesis using b d l from_utf8_bytes [OF assms] by (simp add: decode_string_def string_bytes_def)
qed

definition field_read :: "u8 list \<Rightarrow> ((string \<times> string) \<times> u8 list) option" where
  "field_read bs = (case decode_field bs of Inl _ \<Rightarrow> None | Inr r \<Rightarrow> Some r)"

lemma decode_field_bytes:
  assumes "rust_str n" "rust_str v"
  shows "decode_field (field_bytes (n, v) @ rest) = Inr ((n, v), rest)"
proof -
  have i: "decode_integer (0 # xs) 4 = Inr (0, xs)" for xs by (simp add: decode_integer_def Let_def)
  show ?thesis
    using decode_string_bytes [OF assms(1), of "string_bytes v @ rest"] decode_string_bytes [OF assms(2), of rest]
    by (simp add: decode_field_def field_bytes_def i Let_def)
qed

interpretation field_codec: codec field_bytes field_read "\<lambda>(n, v). rust_str n \<and> rust_str v"
  by unfold_locales (auto simp: field_read_def decode_field_bytes)

lemma decode_header_block_bytes:
  "\<forall>(n, v)\<in>set hs. rust_str n \<and> rust_str v \<Longrightarrow> decode_header_block (concat (map field_bytes hs)) = Inr hs"
proof (induction hs)
  case Nil
  then show ?case by (simp add: decode_header_block.simps)
next
  case (Cons h hs)
  obtain n v where h: "h = (n, v)" by force
  have ne: "field_bytes h @ xs \<noteq> []" for xs by (simp add: field_bytes_def)
  show ?case
    using decode_field_bytes [of n v "concat (map field_bytes hs)"] Cons h ne
    by (subst decode_header_block.simps) (simp del: append_is_Nil_conv)
qed

section \<open>Frames\<close>

definition frame_ok :: "Frame \<Rightarrow> bool" where
  "frame_ok f \<longleftrightarrow> length (f_payload f) < 2 ^ 24 \<and> f_flags f < 256 \<and> f_stream_id f < 2 ^ 31"

lemma unat_u8: "unat (word_of_nat k :: u8) = k mod 256"
  by (simp add: unat_of_nat)

lemma digits3: "v div 65536 * 65536 + v div 256 mod 256 * 256 + v mod 256 = (v :: nat)"
proof -
  have "v div 65536 = v div 256 div 256" by (simp add: div_mult2_eq [symmetric])
  moreover have "v div 256 div 256 * 256 + v div 256 mod 256 = v div 256" by (rule div_mult_mod_eq)
  ultimately have "v div 65536 * 65536 + v div 256 mod 256 * 256 = v div 256 * 256" by linarith
  then show ?thesis using div_mult_mod_eq [of v 256] by linarith
qed

lemma be_bytes_roundtrip: "v < 2 ^ 32 \<Longrightarrow> from_be_bytes (to_be_bytes v) = v"
proof -
  assume "v < 2 ^ 32"
  then have top: "v div 2 ^ 24 mod 256 = v div 65536 div 256" by (simp add: div_mult2_eq [symmetric])
  have "v div 65536 div 256 * 256 + v div 65536 mod 256 = v div 65536" by (rule div_mult_mod_eq)
  then have "((v div 65536 div 256 * 256 + v div 65536 mod 256) * 256 + v div 256 mod 256) * 256 + v mod 256 = v"
    using digits3 [of v] by simp
  then show ?thesis using top by (simp add: from_be_bytes_def to_be_bytes_def unat_u8)
qed

lemma frame_type_roundtrip: "frame_type_from_u8 (frame_type_to_u8 t mod 256) = Inr t"
  by (cases t) (simp_all add: frame_type_from_u8_def)

lemma frame_roundtrip:
  assumes "frame_ok f"
  shows "frame_read \<lparr>rd_bytes = frame_encode f @ rest, rd_end = e\<rparr> = Inr (f, \<lparr>rd_bytes = rest, rd_end = e\<rparr>)"
proof -
  let ?n = "length (f_payload f)" and ?s = "f_stream_id f"
  have n: "?n < 2 ^ 24" and s: "?s < 2 ^ 31" and fl: "f_flags f < 256" using assms by (simp_all add: frame_ok_def)
  have "?n div 65536 mod 256 = ?n div 65536" using n by simp
  then have len: "?n div 65536 mod 256 * 65536 + ?n div 256 mod 256 * 256 + ?n mod 256 = ?n" using digits3 [of ?n] by simp
  have be: "from_be_bytes (to_be_bytes ?s) = ?s" using be_bytes_roundtrip [of ?s] s by simp
  obtain b0 b1 b2 b3 where b: "to_be_bytes ?s = [b0, b1, b2, b3]" by (simp add: to_be_bytes_def)
  have ty: "frame_type_from_u8 (unat (word_of_nat (frame_type_to_u8 (f_type f)) :: u8)) = Inr (f_type f)"
    using frame_type_roundtrip by (simp only: unat_u8)
  have m: "?n mod 4294967296 = ?n" "?s mod 2147483648 = ?s" using n s by simp_all
  show ?thesis
    using len be n s fl ty
    by (simp add: frame_read_def frame_encode_def read_exact_def Let_def b m unat_u8)
qed

definition frame_dec :: "u8 list \<Rightarrow> (Frame \<times> u8 list) option" where
  "frame_dec bs = (case frame_read \<lparr>rd_bytes = bs, rd_end = None\<rparr> of Inl _ \<Rightarrow> None | Inr (f, r) \<Rightarrow> Some (f, rd_bytes r))"

interpretation frame_codec: codec frame_encode frame_dec frame_ok
  by unfold_locales (simp add: frame_dec_def frame_roundtrip)

primrec read_frames :: "nat \<Rightarrow> u8 list \<Rightarrow> (Frame list \<times> u8 list) option" where
  "read_frames 0 bs = Some ([], bs)"
| "read_frames (Suc n) bs = Option.bind (frame_dec bs) (\<lambda>(f, rest). map_option (\<lambda>(fs, rest). (f # fs, rest)) (read_frames n rest))"

lemma read_frames_encode: "\<forall>f\<in>set fs. frame_ok f \<Longrightarrow> read_frames (length fs) (concat (map frame_encode fs) @ rest) = Some (fs, rest)"
  by (induction fs) (simp_all add: frame_codec.dec_enc)

section \<open>What a connection writes\<close>

definition acks :: "nat \<Rightarrow> u8 list" where
  "acks k = concat (replicate k (frame_encode (settings_frame 1)))"

lemma acks_Suc: "frame_encode (settings_frame 1) @ acks k = acks (Suc k)"
  by (simp add: acks_def)

lemma io_write_out: "io_write bs c = (r, c') \<Longrightarrow> h_out c' = h_out c \<or> h_out c' = h_out c @ bs"
  by (auto simp: io_write_def split: option.splits nat.splits)

lemma settings_ack_out:
  assumes "io_bind (write_frame (settings_frame 1)) (\<lambda>_. io_bind (io_write []) (\<lambda>_. io_return (Inr st))) c = (r, c')"
  shows "h_out c' = h_out c \<or> h_out c' = h_out c @ frame_encode (settings_frame 1)"
  using assms
  by (auto simp: io_bind_def write_frame_def io_return_def dest!: io_write_out split: prod.splits sum.splits)

lemma handle_frame_out:
  assumes "handle_frame limit sid f st c = (r, c')"
  shows "\<exists>k. h_out c' = h_out c @ acks k"
proof -
  have "h_out c' = h_out c \<or> h_out c' = h_out c @ frame_encode (settings_frame 1)"
  proof (cases "f_type f")
    case SettingsFrame
    then show ?thesis using assms settings_ack_out [of st c r c'] by (auto simp: handle_frame_def io_return_def split: if_splits)
  qed (use assms in \<open>auto simp: handle_frame_def Let_def io_bind_def io_return_def refresh_flow_control_def spend_window_def add_window_def
      split: if_splits sum.splits prod.splits\<close>)
  then show ?thesis using acks_Suc [of 0] by (metis acks_def append_Nil2 concat.simps(1) replicate_0)
qed

lemma acks_add: "acks j @ acks k = acks (j + k)"
  by (simp add: acks_def replicate_add)

text \<open>Reading a response writes nothing but acknowledgements of settings: no window is ever granted to the peer.\<close>

lemma read_response_out: "read_response limit sid st c = (r, c') \<Longrightarrow> \<exists>k. h_out c' = h_out c @ acks k"
proof (induction limit sid st c rule: read_response.induct)
  case (1 limit sid st c)
  show ?case
  proof (cases "frame_read (h_in c)")
    case (Inl e)
    then show ?thesis using "1.prems" by (auto simp: read_response.simps [of limit sid st c] acks_def intro: exI [of _ 0])
  next
    case (Inr fr)
    obtain f rest where fr: "fr = (f, rest)" by force
    obtain res c1 where h: "handle_frame limit sid f st (c\<lparr>h_in := rest\<rparr>) = (res, c1)" by force
    obtain j where j: "h_out c1 = h_out c @ acks j" using handle_frame_out [OF h] by auto
    show ?thesis
    proof (cases "\<exists>st1. res = Inr st1 \<and> \<not> (ss_ended st1 \<and> ss_headers st1 \<noteq> [])")
      case True
      then obtain st1 where st1: "res = Inr st1" "\<not> (ss_ended st1 \<and> ss_headers st1 \<noteq> [])" by blast
      have "read_response limit sid st1 c1 = (r, c')"
        using "1.prems" Inr fr h st1 by (simp add: read_response.simps [of limit sid st c])
      from "1.IH" [OF Inr fr [symmetric] h [symmetric] st1(1,2) this] obtain k where "h_out c' = h_out c1 @ acks k" by blast
      then show ?thesis using j acks_add [of j k] by (metis append.assoc)
    next
      case False
      then have "c' = c1" using "1.prems" Inr fr h by (cases res) (auto simp: read_response.simps [of limit sid st c])
      then show ?thesis using j by blast
    qed
  qed
qed

text \<open>The writes of a fresh connection up to the response.\<close>

definition request_frames :: "HttpRequest \<Rightarrow> Frame list" where
  "request_frames req =
     [settings_frame 0, \<lparr>f_type = HeadersFrame, f_flags = (if r_body req = None then 5 else 4), f_stream_id = 1,
        f_payload = concat (map field_bytes (request_fields req))\<rparr>]
     @ (case r_body req of Some body \<Rightarrow> [\<lparr>f_type = DataFrame, f_flags = 1, f_stream_id = 1, f_payload = body\<rparr>] | None \<Rightarrow> [])"

lemma send_head_out:
  assumes "case r_body req of Some body \<Rightarrow> length body \<le> 65535 | None \<Rightarrow> True"
  shows "\<exists>c. send_head req (http2_new input None e) = (Inr 1, c) \<and> h_out c = connection_preface @ concat (map frame_encode (request_frames req))"
proof -
  have enc: "encode_request req = Some (concat (map field_bytes (request_fields req)))" by (simp add: encode_request_def encode_fields_bytes)
  show ?thesis
  proof (cases "r_body req")
    case None
    then show ?thesis
      by (simp add: send_head_def io_bind_def connection_init_def io_write_def write_frame_def http2_new_def io_return_def Let_def enc request_frames_def
          flag_end_headers_def flag_end_stream_def)
  next
    case (Some body)
    then have "length body \<le> 65535" using assms by simp
    then show ?thesis using Some
      by (simp add: send_head_def io_bind_def connection_init_def io_write_def write_frame_def http2_new_def io_return_def Let_def enc request_frames_def
          flag_end_headers_def flag_end_stream_def write_data_def window_of_def default_window_size_def spend_window_def)
  qed
qed

text \<open>C14: What a fresh HTTP/2 connection writes for a request (with any response coming back) is the preface and frames that read back, in order, as
  the settings, the headers and the body of the request, followed by acknowledgements of settings only; the header block decodes to the
  pseudo headers and the lower-cased headers of the request without Host.\<close>

theorem http2_request_roundtrip:
  assumes "\<forall>(n, v)\<in>set (request_fields req). rust_str n \<and> rust_str v" "length (concat (map field_bytes (request_fields req))) < 2 ^ 24"
    "case r_body req of Some body \<Rightarrow> length body \<le> 65535 | None \<Rightarrow> True" "send_request var req (http2_new input None e) = (res, c')"
  shows "\<exists>written k. h_out c' = connection_preface @ written
    \<and> read_frames (length (request_frames req)) written = Some (request_frames req, acks k)
    \<and> decode_header_block (f_payload (request_frames req ! 1)) = Inr (request_fields req)"
proof -
  obtain c where c: "send_head req (http2_new input None e) = (Inr 1, c)" "h_out c = connection_preface @ concat (map frame_encode (request_frames req))"
    using send_head_out [OF assms(3)] by blast
  have "read_response (response_body_limit var) 1 \<lparr>ss_headers = [], ss_body = [], ss_ended = False\<rparr> c = (res, c')"
    using assms(4) c(1) by (simp add: send_request_def io_bind_def)
  from read_response_out [OF this] obtain k where k: "h_out c' = h_out c @ acks k" by blast
  have "\<forall>f\<in>set (request_frames req). frame_ok f"
    using assms(2,3) by (auto simp: request_frames_def settings_frame_def frame_ok_def split: option.splits)
  note read_frames_encode [OF this, of "acks k"]
  moreover have "decode_header_block (f_payload (request_frames req ! 1)) = Inr (request_fields req)"
    using decode_header_block_bytes [OF assms(1)] by (simp add: request_frames_def)
  ultimately show ?thesis using c(2) k by (intro exI [of _ "concat (map frame_encode (request_frames req)) @ acks k"] exI [of _ k]) simp
qed

text \<open>Literal fields without indexing whose name is indexed (first byte \<open>0x01\<close> to \<open>0x0f\<close>) are refused, although the static table has their names.\<close>

lemma indexed_name_literal_refused:
  assumes "0 < k" "k < 16"
  shows "decode_header_block (word_of_nat k # rest) = Inl InvalidHeader"
proof -
  have "k = 1 \<or> k = 2 \<or> k = 3 \<or> k = 4 \<or> k = 5 \<or> k = 6 \<or> k = 7 \<or> k = 8 \<or> k = 9 \<or> k = 10 \<or> k = 11 \<or> k = 12 \<or> k = 13 \<or> k = 14 \<or> k = 15" using assms by presburger
  then have "(word_of_nat k :: u8) AND 0x80 = 0 \<and> (word_of_nat k :: u8) AND 0x40 = 0 \<and> (word_of_nat k :: u8) AND 0x10 = 0 \<and> (word_of_nat k :: u8) \<noteq> 0"
    by (elim disjE) simp_all
  then show ?thesis using assms by (simp add: decode_header_block.simps decode_field_def Let_def)
qed

section \<open>Bodies\<close>

lemma handle_frame_body:
  "handle_frame limit sid f st c = (Inr st1, c1) \<Longrightarrow> length (ss_body st) \<le> limit \<Longrightarrow> length (ss_body st1) \<le> limit"
  by (cases "f_type f") (auto simp: handle_frame_def Let_def io_bind_def io_return_def refresh_flow_control_def
      split: if_splits sum.splits prod.splits)

text \<open>The body of an accepted response respects the limit.\<close>

lemma read_response_body: "read_response limit sid st c = (Inr resp, c') \<Longrightarrow> length (ss_body st) \<le> limit \<Longrightarrow> length (p_body resp) \<le> limit"
proof (induction limit sid st c rule: read_response.induct)
  case (1 limit sid st c)
  obtain f rest where fr: "frame_read (h_in c) = Inr (f, rest)"
    using "1.prems"(1) by (cases "frame_read (h_in c)") (auto simp: read_response.simps [of limit sid st c])
  obtain st1 c1 where h: "handle_frame limit sid f st (c\<lparr>h_in := rest\<rparr>) = (Inr st1, c1)"
    using "1.prems"(1) fr by (auto simp: read_response.simps [of limit sid st c] split: prod.splits sum.splits)
  have body: "length (ss_body st1) \<le> limit" by (rule handle_frame_body [OF h "1.prems"(2)])
  show ?case
  proof (cases "ss_ended st1 \<and> ss_headers st1 \<noteq> []")
    case True
    then show ?thesis using "1.prems"(1) fr h body
      by (auto simp: read_response.simps [of limit sid st c] build_response_def response_new_def split: prod.splits option.splits)
  next
    case False
    have "read_response limit sid st1 c1 = (Inr resp, c')" using "1.prems"(1) fr h False by (simp add: read_response.simps [of limit sid st c])
    from "1.IH" [OF fr refl h [symmetric] refl False this body] show ?thesis .
  qed
qed

definition demo_h2_request :: HttpRequest where
  "demo_h2_request = \<lparr>r_method = Get, r_url = \<lparr>u_scheme = ''https'', u_host = ''a.example'', u_port = 443, u_path = ''/x'', u_query = Some ''q=1''\<rparr>,
     r_headers = [(''Host'', ''a.example''), (''Accept'', ''*/*'')], r_body = None, r_require_public_ip = False, r_site_for_cookies = None,
     r_cookie_top_level_site = None, r_top_level_navigation = False, r_referrer_source = None, r_storage_access_eligible = False,
     r_cross_site_ancestry = False\<rparr>"

lemma demo_h2_fields:
  "request_fields demo_h2_request = [('':method'', ''GET''), ('':scheme'', ''https''), ('':authority'', ''a.example''), ('':path'', ''/x?q=1''), (''accept'', ''*/*'')]"
  by (simp add: request_fields_def demo_h2_request_def authority_def request_target_def default_port_for_def std_eval)

theorem http2_request_roundtrip_witness:
  "\<exists>written k. h_out (snd (send_request None demo_h2_request (http2_new \<lparr>rd_bytes = [], rd_end = None\<rparr> None eof_error))) = connection_preface @ written
    \<and> read_frames 2 written = Some (request_frames demo_h2_request, acks k)"
proof -
  have strs: "\<forall>(n, v)\<in>set (request_fields demo_h2_request). rust_str n \<and> rust_str v"
    by (simp add: demo_h2_fields rust_str_def)
  have len: "length (concat (map field_bytes (request_fields demo_h2_request))) < 2 ^ 24"
    by (simp add: demo_h2_fields field_bytes_def string_bytes_def integer_bytes_def bytes_of_str_def)
  have body: "r_body demo_h2_request = None" by (simp add: demo_h2_request_def)
  have n: "length (request_frames demo_h2_request) = 2" by (simp add: request_frames_def body)
  from http2_request_roundtrip [OF strs len _ prod.collapse [symmetric], of None "\<lparr>rd_bytes = [], rd_end = None\<rparr>" eof_error] body n
  show ?thesis by auto
qed

end
