(* ===== verification/StorageState.thy ===== *)
theory StorageState
  imports HttpUrl
begin

text \<open>
  \<open>src/js/storage.rs\<close>: the state of the profile-wide storage manager, shared by every
  browsing session.  One record holds what the source's \<open>StorageState\<close> holds; the
  operations of each part (web storage, caches, the origin-private file system, web
  locks, visited links) are in theories of their own.  The mutex around the state makes every
  operation of the manager atomic, so an operation is a function from state to state.

  A \<open>HashMap\<close> is a map, except where the source iterates over it: there the model is an
  association list (the file system's directories, the file locks) or the operation takes
  the order of iteration as an argument (the lock requests).  A \<open>u64\<close> counter is
  a \<open>nat\<close> advanced by \<open>saturating_add\<close>.  The paths of the profile files
  and the weak handles to native scroll owners are identifiers.
\<close>

definition saturating_add :: "nat \<Rightarrow> nat \<Rightarrow> nat" where
  "saturating_add a b = min u64_max (a + b)"

section \<open>Origins and visited links\<close>

record StorageOrigin =
  so_scheme :: string
  so_host :: string
  so_port :: "16 word"

definition storage_origin_of_url :: "Url \<Rightarrow> StorageOrigin" where
  "storage_origin_of_url u =
     \<lparr>so_scheme = to_ascii_lowercase (u_scheme u), so_host = to_ascii_lowercase (u_host u),
      so_port = u_port u\<rparr>"

definition storage_origin_from_url :: "'u url_crate \<Rightarrow> string \<Rightarrow> StorageOrigin option" where
  "storage_origin_from_url uc url =
     (case url_from_str uc url of
        Inl _ \<Rightarrow> None
      | Inr parsed \<Rightarrow> Some (storage_origin_of_url parsed))"

text \<open>An opaque origin serializes as \<open>null\<close>.\<close>

definition storage_origin_from_document_url ::
  "'u url_crate \<Rightarrow> string \<Rightarrow> StorageOrigin option" where
  "storage_origin_from_document_url uc url =
     (case uc_parse uc url of
        Inl _ \<Rightarrow> None
      | Inr parsed \<Rightarrow>
          if uc_scheme uc parsed = ''blob''
          then storage_origin_from_url uc
                 (case uc_origin uc parsed of Some s \<Rightarrow> s | None \<Rightarrow> ''null'')
          else storage_origin_from_url uc url)"

definition storage_origin_serialize :: "StorageOrigin \<Rightarrow> string" where
  "storage_origin_serialize o1 =
     so_scheme o1 @ ''://'' @ so_host o1 @ '':'' @ show_nat (unat (so_port o1))"

definition storage_origin_schemeful_site :: "psl_crate \<Rightarrow> StorageOrigin \<Rightarrow> SchemefulSite" where
  "storage_origin_schemeful_site psl o1 = site_from_parts psl (so_scheme o1) (so_host o1)"

record VisitedLinkKey =
  vk_destination :: string
  vk_initiator_origin :: StorageOrigin
  vk_top_level_site :: SchemefulSite

record VisitSource =
  vs_origin :: StorageOrigin
  vs_top_level_site :: SchemefulSite
  vs_same_origin_with_top_level :: bool

section \<open>Web storage and caches\<close>

record StorageArea =
  entries :: "(string \<times> string) list"

record CacheEntrySnapshot =
  ce_id :: nat
  ce_request :: string
  ce_response :: string

record CacheNamespace =
  cn_name :: string
  cn_entries :: "CacheEntrySnapshot list"

record CacheStorageArea =
  cs_caches :: "CacheNamespace list"

section \<open>The origin-private file system\<close>

record OpfsFile =
  file_bytes :: "u8 list"
  file_modified :: nat

datatype OpfsEntry = Directory OpfsDirectory | File OpfsFile
  and OpfsDirectory = OpfsDirectory (dir_entries: "(string \<times> OpfsEntry) list")

datatype OpfsError =
  InvalidName | NotFound | TypeMismatch | NotEmpty | QuotaExceeded | OpfsIo | Locked

datatype OpfsLockMode = Siloed | OpfsExclusive

record OpfsLock =
  ol_id :: nat
  ol_owner :: nat
  ol_mode :: OpfsLockMode

section \<open>Web locks\<close>

datatype WebLockMode = WL_Exclusive | WL_Shared

datatype WebLockRequestState = WL_Pending | WL_Granted | WL_Held | WL_Stolen

record WebLockRequest =
  wr_origin :: StorageOrigin
  wr_name :: string
  wr_mode :: WebLockMode
  wr_client_id :: nat
  wr_state :: WebLockRequestState

record WebLockResource =
  held :: "nat list"
  pending :: "nat list"

type_synonym web_lock_key = "StorageOrigin \<times> string"

datatype WebLockRequestResult = RequestGranted nat | RequestPending nat | RequestUnavailable

datatype WebLockStartResult = StartHeld | StartPending | StartStolen | StartMissing

datatype WebLockNotificationKind = NotifyGranted | NotifyStolen

record WebLockNotification =
  wn_client_id :: nat
  wn_request_id :: nat
  wn_kind :: WebLockNotificationKind

record WebLockSnapshot =
  ws_name :: string
  ws_mode :: WebLockMode
  ws_client_id :: nat

section \<open>The manager's state\<close>

datatype StoragePersistencePolicy = PersistUnsupported | PersistDenied | PersistAllow

record StorageState =
  visited_links :: "VisitedLinkKey set"
  visited_generation :: nat
  visited_invalidators :: "nat list"
  local_areas :: "StorageOrigin \<rightharpoonup> StorageArea"
  session_areas :: "nat \<times> StorageOrigin \<rightharpoonup> StorageArea"
  next_session_id :: nat
  caches :: "StorageOrigin \<rightharpoonup> CacheStorageArea"
  next_cache_entry_id :: nat
  quota_bytes :: nat
  persistence_policy :: StoragePersistencePolicy
  persistence_path :: "string option"
  persisted_origins :: "StorageOrigin set"
  opfs_path :: "string option"
  opfs :: "string \<rightharpoonup> OpfsDirectory"
  opfs_locks :: "((StorageOrigin \<times> string list) \<times> OpfsLock list) list"
  next_opfs_lock_id :: nat
  web_locks :: "web_lock_key \<rightharpoonup> WebLockResource"
  web_lock_requests :: "nat \<rightharpoonup> WebLockRequest"
  next_web_lock_request_id :: nat

definition default_quota_bytes :: nat where
  "default_quota_bytes = 50 * 1024 * 1024"

definition storage_state_default :: StorageState where
  "storage_state_default =
     \<lparr>visited_links = {}, visited_generation = 0, visited_invalidators = [],
      local_areas = Map.empty, session_areas = Map.empty, next_session_id = 0,
      caches = Map.empty, next_cache_entry_id = 0,
      quota_bytes = default_quota_bytes, persistence_policy = PersistUnsupported,
      persistence_path = None, persisted_origins = {}, opfs_path = None,
      opfs = Map.empty, opfs_locks = [], next_opfs_lock_id = 1,
      web_locks = Map.empty, web_lock_requests = Map.empty, next_web_lock_request_id = 1\<rparr>"

definition with_policy :: "nat \<Rightarrow> StoragePersistencePolicy \<Rightarrow> StorageState" where
  "with_policy quota policy =
     storage_state_default\<lparr>quota_bytes := quota, persistence_policy := policy\<rparr>"

section \<open>Lemmas\<close>

lemma saturating_add_0 [simp]: "b \<le> u64_max \<Longrightarrow> saturating_add 0 b = b"
  by (simp add: saturating_add_def)

lemma saturating_add_le [simp]: "saturating_add a b \<le> u64_max"
  by (simp add: saturating_add_def)

lemma saturating_add_exact [simp]: "a + b \<le> u64_max \<Longrightarrow> saturating_add a b = a + b"
  by (simp add: saturating_add_def)

lemma saturating_add_Suc: "a < u64_max \<Longrightarrow> saturating_add a 1 = Suc a"
  by simp

lemma storage_origin_from_url_scheme:
  assumes "storage_origin_from_url uc url = Some o1"
  shows "so_scheme o1 \<in> {''http'', ''https''}"
  using assms url_from_str_scheme
  by (fastforce simp: storage_origin_from_url_def storage_origin_of_url_def to_ascii_lowercase_def
      to_lower_def split: sum.splits)

end
