(* ===== verification/WebLocks.thy ===== *)
theory WebLocks
  imports StorageState
begin

text \<open>
  The web locks of \<open>src/js/storage.rs\<close>.  A lock is named by an origin and a name; its
  resource lists the requests that hold it and the queue of those that wait.  Counters saturate,
  and the order in which a hash map yields the requests of a client is an argument.
\<close>

section \<open>Operations\<close>

text \<open>Clients are numbered by a process-wide atomic counter, whose \<open>fetch_add\<close> wraps.\<close>

definition create_web_lock_client :: "64 word \<Rightarrow> 64 word \<times> 64 word" where
  "create_web_lock_client next_client = (next_client, next_client + 1)"

definition resource_or_default :: "StorageState \<Rightarrow> web_lock_key \<Rightarrow> WebLockResource" where
  "resource_or_default s key =
     (case web_locks s key of Some r \<Rightarrow> r | None \<Rightarrow> \<lparr>held = [], pending = []\<rparr>)"

definition all_shared :: "(nat \<rightharpoonup> WebLockRequest) \<Rightarrow> nat list \<Rightarrow> bool" where
  "all_shared reqs is \<longleftrightarrow>
     list_all (\<lambda>i. case reqs i of Some q \<Rightarrow> wr_mode q = WL_Shared | None \<Rightarrow> False) is"

definition web_lock_is_immediately_grantable ::
  "StorageState \<Rightarrow> web_lock_key \<Rightarrow> WebLockMode \<Rightarrow> bool" where
  "web_lock_is_immediately_grantable s key mode \<longleftrightarrow>
     (case web_locks s key of
        None \<Rightarrow> True
      | Some r \<Rightarrow>
          if pending r \<noteq> [] then False
          else if held r = [] then True
          else mode = WL_Shared \<and> all_shared (web_lock_requests s) (held r))"

definition set_request_state :: "nat \<Rightarrow> WebLockRequestState \<Rightarrow> StorageState \<Rightarrow> StorageState" where
  "set_request_state i st s =
     (case web_lock_requests s i of
        None \<Rightarrow> s
      | Some q \<Rightarrow> s\<lparr>web_lock_requests := (web_lock_requests s)(i \<mapsto> q\<lparr>wr_state := st\<rparr>)\<rparr>)"

text \<open>The loop over the drained holders of a stolen lock.\<close>

fun steal_held ::
  "nat list \<Rightarrow> StorageState \<Rightarrow> WebLockNotification list \<Rightarrow> StorageState \<times> WebLockNotification list"
where
  "steal_held [] s ns = (s, ns)"
| "steal_held (i # is) s ns =
     (case web_lock_requests s i of
        None \<Rightarrow> steal_held is s ns
      | Some q \<Rightarrow>
          steal_held is (set_request_state i WL_Stolen s)
            (ns @ [\<lparr>wn_client_id = wr_client_id q, wn_request_id = i, wn_kind = NotifyStolen\<rparr>]))"

definition request_web_lock ::
  "StorageOrigin \<Rightarrow> nat \<Rightarrow> string \<Rightarrow> WebLockMode \<Rightarrow> bool \<Rightarrow> bool \<Rightarrow> StorageState \<Rightarrow>
   (WebLockRequestResult \<times> WebLockNotification list) \<times> StorageState" where
  "request_web_lock origin client_id name mode if_available steal s =
     (let key = (origin, name);
          grantable = web_lock_is_immediately_grantable s key mode
      in if if_available \<and> \<not> grantable then ((RequestUnavailable, []), s)
         else
           let request_id = next_web_lock_request_id s;
               s1 = s\<lparr>next_web_lock_request_id := saturating_add request_id 1,
                      web_lock_requests := (web_lock_requests s)(request_id \<mapsto>
                        \<lparr>wr_origin = origin, wr_name = name, wr_mode = mode,
                         wr_client_id = client_id, wr_state = WL_Pending\<rparr>)\<rparr>;
               r = resource_or_default s1 key
           in if steal then
                let (s2, ns) = steal_held (held r)
                      (s1\<lparr>web_locks := (web_locks s1)(key \<mapsto> r\<lparr>held := []\<rparr>)\<rparr>) [];
                    r2 = resource_or_default s2 key;
                    s3 = s2\<lparr>web_locks := (web_locks s2)(key \<mapsto> r2\<lparr>held := held r2 @ [request_id]\<rparr>)\<rparr>
                in ((RequestGranted request_id, ns), set_request_state request_id WL_Granted s3)
              else if grantable then
                ((RequestGranted request_id, []),
                 set_request_state request_id WL_Granted
                   (s1\<lparr>web_locks := (web_locks s1)(key \<mapsto> r\<lparr>held := held r @ [request_id]\<rparr>)\<rparr>))
              else
                ((RequestPending request_id, []),
                 s1\<lparr>web_locks := (web_locks s1)(key \<mapsto> r\<lparr>pending := pending r @ [request_id]\<rparr>)\<rparr>))"

definition start_web_lock :: "nat \<Rightarrow> StorageState \<Rightarrow> WebLockStartResult \<times> StorageState" where
  "start_web_lock request_id s =
     (case web_lock_requests s request_id of
        None \<Rightarrow> (StartMissing, s)
      | Some request \<Rightarrow>
          (case wr_state request of
             WL_Granted \<Rightarrow> (StartHeld, set_request_state request_id WL_Held s)
           | WL_Held \<Rightarrow> (StartHeld, s)
           | WL_Pending \<Rightarrow> (StartPending, s)
           | WL_Stolen \<Rightarrow> (StartStolen, s)))"

text \<open>The loop that grants waiting requests: it stops at a missing resource, at an empty queue
  (dropping a resource nobody holds), at a head that conflicts with the holders, and
  after granting an exclusive request; a queued id without a request is skipped.\<close>

function web_lock_advance ::
  "web_lock_key \<Rightarrow> StorageState \<Rightarrow> WebLockNotification list \<Rightarrow>
   WebLockNotification list \<times> StorageState" where
  "web_lock_advance key s ns =
     (case web_locks s key of
        None \<Rightarrow> (ns, s)
      | Some r \<Rightarrow>
          (case pending r of
             [] \<Rightarrow>
               (ns, if held r = [] then s\<lparr>web_locks := (web_locks s)(key := None)\<rparr> else s)
           | request_id # rest \<Rightarrow>
               (case web_lock_requests s request_id of
                  None \<Rightarrow>
                    web_lock_advance key
                      (s\<lparr>web_locks := (web_locks s)(key \<mapsto> r\<lparr>pending := rest\<rparr>)\<rparr>) ns
                | Some request \<Rightarrow>
                    if \<not> (held r = []
                          \<or> wr_mode request = WL_Shared \<and> all_shared (web_lock_requests s) (held r))
                    then (ns, s)
                    else
                      let s' = set_request_state request_id WL_Granted
                                 (s\<lparr>web_locks := (web_locks s)
                                     (key \<mapsto> r\<lparr>pending := rest, held := held r @ [request_id]\<rparr>)\<rparr>);
                          ns' = ns @ [\<lparr>wn_client_id = wr_client_id request,
                                       wn_request_id = request_id, wn_kind = NotifyGranted\<rparr>]
                      in if wr_mode request = WL_Exclusive then (ns', s')
                         else web_lock_advance key s' ns')))"
  by pat_completeness auto

lemma set_request_state_web_locks [simp]: "web_locks (set_request_state i st s) = web_locks s"
  by (simp add: set_request_state_def split: option.split)

termination web_lock_advance
  by (relation "measure (\<lambda>(key, s, _). case web_locks s key of None \<Rightarrow> 0 | Some r \<Rightarrow> length (pending r))")
    (auto simp: set_request_state_def)

declare web_lock_advance.simps [simp del]

definition web_lock_remove_request ::
  "nat \<Rightarrow> bool \<Rightarrow> StorageState \<Rightarrow> WebLockNotification list \<times> StorageState" where
  "web_lock_remove_request request_id advance s =
     (case web_lock_requests s request_id of
        None \<Rightarrow> ([], s)
      | Some request \<Rightarrow>
          let key = (wr_origin request, wr_name request);
              s1 = s\<lparr>web_lock_requests := (web_lock_requests s)(request_id := None)\<rparr>;
              s2 = (case web_locks s1 key of
                      None \<Rightarrow> s1
                    | Some r \<Rightarrow>
                        s1\<lparr>web_locks := (web_locks s1)(key \<mapsto>
                             r\<lparr>held := filter (\<lambda>i. i \<noteq> request_id) (held r),
                               pending := filter (\<lambda>i. i \<noteq> request_id) (pending r)\<rparr>)\<rparr>)
          in if advance then web_lock_advance key s2 [] else ([], s2))"

definition release_web_lock :: "nat \<Rightarrow> StorageState \<Rightarrow> WebLockNotification list \<times> StorageState" where
  "release_web_lock request_id s = web_lock_remove_request request_id True s"

definition cancel_web_lock ::
  "nat \<Rightarrow> StorageState \<Rightarrow> (bool \<times> WebLockNotification list) \<times> StorageState" where
  "cancel_web_lock request_id s =
     (let cancellable = (case web_lock_requests s request_id of
                           None \<Rightarrow> False
                         | Some request \<Rightarrow> wr_state request \<in> {WL_Pending, WL_Granted})
      in if \<not> cancellable then ((False, []), s)
         else let (ns, s') = web_lock_remove_request request_id True s in ((True, ns), s'))"

definition finish_stolen_web_lock :: "nat \<Rightarrow> StorageState \<Rightarrow> StorageState" where
  "finish_stolen_web_lock request_id s =
     (case web_lock_requests s request_id of
        None \<Rightarrow> s
      | Some request \<Rightarrow>
          if wr_state request = WL_Stolen
          then s\<lparr>web_lock_requests := (web_lock_requests s)(request_id := None)\<rparr> else s)"

fun remove_web_lock_requests ::
  "nat list \<Rightarrow> StorageState \<Rightarrow> WebLockNotification list \<Rightarrow> WebLockNotification list \<times> StorageState"
where
  "remove_web_lock_requests [] s ns = (ns, s)"
| "remove_web_lock_requests (i # is) s ns =
     (let (ns', s') = web_lock_remove_request i True s in remove_web_lock_requests is s' (ns @ ns'))"

text \<open>\<open>iter\<close> is the order in which the request table is iterated.\<close>

definition remove_web_lock_client ::
  "nat list \<Rightarrow> nat \<Rightarrow> StorageState \<Rightarrow> WebLockNotification list \<times> StorageState" where
  "remove_web_lock_client iter client_id s =
     (let request_ids = filter (\<lambda>i. case web_lock_requests s i of
                                      Some request \<Rightarrow> wr_client_id request = client_id
                                    | None \<Rightarrow> False) iter
      in remove_web_lock_requests request_ids s [])"

fun query_loop ::
  "StorageOrigin \<Rightarrow> (nat \<rightharpoonup> WebLockRequest) \<Rightarrow> nat list \<Rightarrow> WebLockSnapshot list \<Rightarrow>
   WebLockSnapshot list \<Rightarrow> WebLockSnapshot list \<times> WebLockSnapshot list" where
  "query_loop origin reqs [] hs ps = (hs, ps)"
| "query_loop origin reqs (i # is) hs ps =
     (case reqs i of
        None \<Rightarrow> query_loop origin reqs is hs ps
      | Some request \<Rightarrow>
          if wr_origin request \<noteq> origin then query_loop origin reqs is hs ps
          else
            let snapshot = \<lparr>ws_name = wr_name request, ws_mode = wr_mode request,
                            ws_client_id = wr_client_id request\<rparr>
            in (case wr_state request of
                  WL_Granted \<Rightarrow> query_loop origin reqs is (hs @ [snapshot]) ps
                | WL_Held \<Rightarrow> query_loop origin reqs is (hs @ [snapshot]) ps
                | WL_Pending \<Rightarrow> query_loop origin reqs is hs (ps @ [snapshot])
                | WL_Stolen \<Rightarrow> query_loop origin reqs is hs ps))"

definition query_web_locks ::
  "nat list \<Rightarrow> StorageOrigin \<Rightarrow> StorageState \<Rightarrow> WebLockSnapshot list \<times> WebLockSnapshot list" where
  "query_web_locks iter origin s = query_loop origin (web_lock_requests s) (sort iter) [] []"

end
