(* ===== verification/WebLockProps.thy ===== *)
theory WebLockProps
  imports WebLocks
begin

text \<open>
  Properties of the web locks: the granting loop against its reference, the invariant
  of the lock tables over every interleaving of requests, releases, cancellations, thefts
  and client removals, and what each release grants.
\<close>

section \<open>The granting loop grants a prefix of the queue\<close>

abbreviation wl_key :: "WebLockRequest \<Rightarrow> web_lock_key" where
  "wl_key q \<equiv> (wr_origin q, wr_name q)"

definition shared_in :: "(nat \<rightharpoonup> WebLockRequest) \<Rightarrow> nat \<Rightarrow> bool" where
  "shared_in reqs i \<longleftrightarrow> (case reqs i of Some q \<Rightarrow> wr_mode q = WL_Shared | None \<Rightarrow> False)"

lemma all_shared_iff: "all_shared reqs is \<longleftrightarrow> (\<forall>i\<in>set is. shared_in reqs i)"
  by (simp add: all_shared_def shared_in_def list_all_iff)

text \<open>The reference: the longest prefix of the queue that is compatible with the holders and
  with itself.  Only the modes of the requests matter.\<close>

fun grant_prefix :: "(nat \<Rightarrow> bool) \<Rightarrow> nat list \<Rightarrow> nat list \<Rightarrow> nat list" where
  "grant_prefix sh hs [] = []"
| "grant_prefix sh hs (p # ps) =
     (if hs = [] \<or> sh p \<and> list_all sh hs
      then p # (if sh p then grant_prefix sh (hs @ [p]) ps else [])
      else [])"

definition grant_all :: "nat list \<Rightarrow> (nat \<rightharpoonup> WebLockRequest) \<Rightarrow> nat \<rightharpoonup> WebLockRequest" where
  "grant_all is reqs =
     (\<lambda>i. if i \<in> set is then map_option (\<lambda>q. q\<lparr>wr_state := WL_Granted\<rparr>) (reqs i) else reqs i)"

definition granted_note :: "(nat \<rightharpoonup> WebLockRequest) \<Rightarrow> nat \<Rightarrow> WebLockNotification" where
  "granted_note reqs i =
     \<lparr>wn_client_id = (case reqs i of Some q \<Rightarrow> wr_client_id q | None \<Rightarrow> 0),
      wn_request_id = i, wn_kind = NotifyGranted\<rparr>"

definition put_resource :: "web_lock_key \<Rightarrow> WebLockResource \<Rightarrow> StorageState \<Rightarrow> StorageState" where
  "put_resource key r s =
     s\<lparr>web_locks := (web_locks s)(key := (if held r = [] \<and> pending r = [] then None else Some r))\<rparr>"

lemma grant_prefix_prefix: "prefix (grant_prefix sh hs ps) ps"
  by (induction sh hs ps rule: grant_prefix.induct) auto

lemma grant_prefix_drop: "grant_prefix sh hs ps @ drop (length (grant_prefix sh hs ps)) ps = ps"
  by (metis append_eq_conv_conj grant_prefix_prefix prefixE)

lemma grant_all_Nil [simp]: "grant_all [] reqs = reqs"
  by (simp add: grant_all_def)

lemma grant_all_shared [simp]: "shared_in (grant_all is reqs) = shared_in reqs"
  by (auto simp: fun_eq_iff grant_all_def shared_in_def split: option.split)

lemma grant_all_Cons: "grant_all is (grant_all [i] reqs) = grant_all (i # is) reqs"
  by (auto simp: grant_all_def fun_eq_iff option.map_comp comp_def)

lemma granted_note_grant_all [simp]: "granted_note (grant_all is reqs) = granted_note reqs"
  by (auto simp: fun_eq_iff granted_note_def grant_all_def split: option.split)

lemma set_request_state_granted:
  "web_lock_requests s i \<noteq> None \<Longrightarrow>
   set_request_state i WL_Granted s = s\<lparr>web_lock_requests := grant_all [i] (web_lock_requests s)\<rparr>"
  by (auto simp: set_request_state_def grant_all_def fun_eq_iff split: option.split)

lemma grant_all_dom [simp]: "grant_all is reqs i = None \<longleftrightarrow> reqs i = None"
  by (simp add: grant_all_def)

lemma record_order [simp]:
  "s\<lparr>web_lock_requests := a, web_locks := b\<rparr> = s\<lparr>web_locks := b, web_lock_requests := a\<rparr>"
  "r\<lparr>held := hs, pending := ps\<rparr> = r\<lparr>pending := ps, held := hs\<rparr>"
  by simp_all

lemma resource_eta: "held r = hs \<Longrightarrow> pending r = ps \<Longrightarrow> r\<lparr>held := hs, pending := ps\<rparr> = r"
  by auto

lemma put_resource_idem:
  "web_locks s key = Some r \<Longrightarrow> held r \<noteq> [] \<or> pending r \<noteq> [] \<Longrightarrow> put_resource key r s = s"
  by (auto simp: put_resource_def fun_upd_idem)

lemma put_resource_empty:
  "held r = [] \<Longrightarrow> pending r = [] \<Longrightarrow>
   put_resource key r s = s\<lparr>web_locks := (web_locks s)(key := None)\<rparr>"
  by (simp add: put_resource_def)

lemma web_lock_advance_None:
  "web_locks s key = None \<Longrightarrow> web_lock_advance key s ns = (ns, s)"
  by (simp add: web_lock_advance.simps)

lemma web_lock_advance_eq:
  assumes "web_locks s key = Some r" "pending r = ps" "\<forall>i\<in>set ps. web_lock_requests s i \<noteq> None"
  defines "g \<equiv> grant_prefix (shared_in (web_lock_requests s)) (held r) ps"
  shows "web_lock_advance key s ns =
    (ns @ map (granted_note (web_lock_requests s)) g,
     put_resource key (r\<lparr>held := held r @ g, pending := drop (length g) ps\<rparr>)
       (s\<lparr>web_lock_requests := grant_all g (web_lock_requests s)\<rparr>))"
  using assms(1-3) unfolding g_def
proof (induction ps arbitrary: s r ns)
  case Nil
  then have "put_resource key (r\<lparr>held := held r, pending := []\<rparr>) s =
    (if held r = [] then s\<lparr>web_locks := (web_locks s)(key := None)\<rparr> else s)"
    by (simp add: put_resource_idem resource_eta put_resource_empty)
  with Nil.prems(1,2) show ?case
    by (subst web_lock_advance.simps) simp
next
  case (Cons p ps)
  then obtain q where q: "web_lock_requests s p = Some q" by auto
  let ?reqs = "web_lock_requests s"
  have shq: "shared_in ?reqs p \<longleftrightarrow> wr_mode q = WL_Shared" by (simp add: shared_in_def q)
  have la: "list_all (shared_in ?reqs) (held r) = all_shared ?reqs (held r)"
    by (simp add: all_shared_iff list_all_iff)
  show ?case
  proof (cases "held r = [] \<or> wr_mode q = WL_Shared \<and> all_shared ?reqs (held r)")
    case False
    have "put_resource key (r\<lparr>held := held r, pending := p # ps\<rparr>) s = s"
      using Cons.prems(1,2) by (simp add: put_resource_idem resource_eta)
    with False Cons.prems(1,2) q show ?thesis
      by (subst web_lock_advance.simps) (auto simp: shq la)
  next
    case True
    let ?r' = "r\<lparr>pending := ps, held := held r @ [p]\<rparr>"
    let ?s' = "s\<lparr>web_locks := (web_locks s)(key \<mapsto> ?r'), web_lock_requests := grant_all [p] ?reqs\<rparr>"
    have step: "web_lock_advance key s ns =
      (if wr_mode q = WL_Exclusive then (ns @ [granted_note ?reqs p], ?s')
       else web_lock_advance key ?s' (ns @ [granted_note ?reqs p]))"
      using True Cons.prems q
      by (subst web_lock_advance.simps)
        (simp add: set_request_state_granted granted_note_def Let_def del: map_upd_eqD1)
    show ?thesis
    proof (cases "wr_mode q")
      case WL_Exclusive
      with step True show ?thesis
        by (simp add: shq la Cons.prems(2) put_resource_def)
    next
      case WL_Shared
      have IH: "web_lock_advance key ?s' (ns @ [granted_note ?reqs p]) =
        ((ns @ [granted_note ?reqs p]) @ map (granted_note (web_lock_requests ?s'))
           (grant_prefix (shared_in (web_lock_requests ?s')) (held ?r') ps),
         put_resource key (?r'\<lparr>held := held ?r' @ grant_prefix (shared_in (web_lock_requests ?s')) (held ?r') ps,
             pending := drop (length (grant_prefix (shared_in (web_lock_requests ?s')) (held ?r') ps)) ps\<rparr>)
           (?s'\<lparr>web_lock_requests := grant_all (grant_prefix (shared_in (web_lock_requests ?s')) (held ?r') ps)
               (web_lock_requests ?s')\<rparr>))"
        by (rule Cons.IH) (use Cons.prems q in auto)
      with step True WL_Shared show ?thesis
        by (simp add: shq la Cons.prems(2) put_resource_def grant_all_Cons cong: map_cong)
    qed
  qed
qed

section \<open>The invariant of the lock tables\<close>

text \<open>The queue and the holders of one resource: no id twice, every holder granted or
  held under this key, every waiter pending under this key and in the order of the
  requests, and several holders only if all are shared.\<close>

definition resource_ok :: "(nat \<rightharpoonup> WebLockRequest) \<Rightarrow> web_lock_key \<Rightarrow> WebLockResource \<Rightarrow> bool" where
  "resource_ok reqs k r \<longleftrightarrow>
     distinct (held r @ pending r)
   \<and> (\<forall>i\<in>set (held r). \<exists>q. reqs i = Some q \<and> wl_key q = k \<and> wr_state q \<in> {WL_Granted, WL_Held})
   \<and> (\<forall>i\<in>set (pending r). \<exists>q. reqs i = Some q \<and> wl_key q = k \<and> wr_state q = WL_Pending)
   \<and> (length (held r) \<le> 1 \<or> (\<forall>i\<in>set (held r). shared_in reqs i))
   \<and> sorted_wrt (<) (pending r)"

text \<open>No grant is overdue: the lock is held, and the head of the queue conflicts with a holder.\<close>

definition resource_settled :: "(nat \<rightharpoonup> WebLockRequest) \<Rightarrow> WebLockResource \<Rightarrow> bool" where
  "resource_settled reqs r \<longleftrightarrow>
     held r \<noteq> []
   \<and> (\<forall>p ps. pending r = p # ps \<longrightarrow> \<not> shared_in reqs p \<or> (\<exists>i\<in>set (held r). \<not> shared_in reqs i))"

text \<open>Every request that is not stolen stands in the list its state names.\<close>

definition placed :: "(web_lock_key \<rightharpoonup> WebLockResource) \<Rightarrow> nat \<Rightarrow> WebLockRequest \<Rightarrow> bool" where
  "placed wl i q \<longleftrightarrow>
     (case wr_state q of
        WL_Stolen \<Rightarrow> True
      | WL_Pending \<Rightarrow> (\<exists>r. wl (wl_key q) = Some r \<and> i \<in> set (pending r))
      | _ \<Rightarrow> (\<exists>r. wl (wl_key q) = Some r \<and> i \<in> set (held r)))"

definition wl_base :: "StorageState \<Rightarrow> bool" where
  "wl_base s \<longleftrightarrow>
     (\<forall>k r. web_locks s k = Some r \<longrightarrow> resource_ok (web_lock_requests s) k r)
   \<and> (\<forall>i q. web_lock_requests s i = Some q \<longrightarrow>
        i < next_web_lock_request_id s \<and> placed (web_locks s) i q)"

definition settled_at :: "StorageState \<Rightarrow> web_lock_key \<Rightarrow> bool" where
  "settled_at s k \<longleftrightarrow> (\<forall>r. web_locks s k = Some r \<longrightarrow> resource_settled (web_lock_requests s) r)"

definition wl_inv :: "StorageState \<Rightarrow> bool" where
  "wl_inv s \<longleftrightarrow> wl_base s \<and> (\<forall>k. settled_at s k)"

lemma grant_prefix_holders:
  assumes "length hs \<le> 1 \<or> list_all sh hs"
  shows "length (hs @ grant_prefix sh hs ps) \<le> 1 \<or> list_all sh (hs @ grant_prefix sh hs ps)"
  using assms
proof (induction sh hs ps rule: grant_prefix.induct)
  case (2 sh hs p ps)
  then show ?case by (cases hs) (auto split: if_splits)
qed simp

lemma grant_prefix_settled:
  assumes "hs \<noteq> [] \<or> ps \<noteq> []"
  shows "hs @ grant_prefix sh hs ps \<noteq> []
       \<and> (\<forall>p ps'. drop (length (grant_prefix sh hs ps)) ps = p # ps' \<longrightarrow>
           \<not> sh p \<or> (\<exists>i\<in>set (hs @ grant_prefix sh hs ps). \<not> sh i))"
  using assms
proof (induction sh hs ps rule: grant_prefix.induct)
  case (2 sh hs p ps)
  then show ?case by (cases "hs = []") (auto simp: list_all_iff split: if_splits)
qed simp

lemma resource_okD:
  assumes "resource_ok reqs k r"
  shows "distinct (held r)" "distinct (pending r)" "set (held r) \<inter> set (pending r) = {}"
    "i \<in> set (held r) \<Longrightarrow> \<exists>q. reqs i = Some q \<and> wl_key q = k \<and> wr_state q \<in> {WL_Granted, WL_Held}"
    "i \<in> set (pending r) \<Longrightarrow> \<exists>q. reqs i = Some q \<and> wl_key q = k \<and> wr_state q = WL_Pending"
    "length (held r) \<le> 1 \<or> (\<forall>i\<in>set (held r). shared_in reqs i)"
    "sorted_wrt (<) (pending r)"
  using assms unfolding resource_ok_def by auto

lemma resource_ok_cong:
  assumes "resource_ok reqs k r"
    and "\<And>i q. reqs i = Some q \<Longrightarrow> wl_key q = k \<Longrightarrow> reqs' i = Some q"
  shows "resource_ok reqs' k r"
proof -
  have "shared_in reqs' i = shared_in reqs i" if "i \<in> set (held r)" for i
    using resource_okD(4) [OF assms(1) that] assms(2) by (auto simp: shared_in_def)
  then show ?thesis
    using assms unfolding resource_ok_def by (smt (verit, best))
qed

lemma resource_settled_cong:
  assumes "resource_ok reqs k r" "resource_settled reqs r"
    and "\<And>i q. reqs i = Some q \<Longrightarrow> wl_key q = k \<Longrightarrow> reqs' i = Some q"
  shows "resource_settled reqs' r"
proof -
  have "shared_in reqs' i = shared_in reqs i" if "i \<in> set (held r) \<union> set (pending r)" for i
    using resource_okD(4,5) [OF assms(1), of i] assms(3) that by (auto simp: shared_in_def)
  then show ?thesis
    using assms(2) unfolding resource_settled_def by auto
qed

text \<open>Every operation touches the requests and the resource of one key.\<close>

lemma wl_change_at:
  assumes "wl_base s"
    and "\<And>k'. k' \<noteq> k \<Longrightarrow> web_locks s' k' = web_locks s k'"
    and "\<And>i q. wl_key q \<noteq> k \<Longrightarrow> web_lock_requests s' i = Some q \<longleftrightarrow> web_lock_requests s i = Some q"
    and "\<And>r. web_locks s' k = Some r \<Longrightarrow> resource_ok (web_lock_requests s') k r"
    and "\<And>i q. web_lock_requests s' i = Some q \<Longrightarrow> wl_key q = k \<Longrightarrow>
           i < next_web_lock_request_id s' \<and> placed (web_locks s') i q"
    and "next_web_lock_request_id s \<le> next_web_lock_request_id s'"
  shows "wl_base s'" "k' \<noteq> k \<Longrightarrow> settled_at s k' \<Longrightarrow> settled_at s' k'"
proof -
  have ok: "resource_ok (web_lock_requests s) j r" if "web_locks s' j = Some r" "j \<noteq> k" for j r
    using assms(1,2) that unfolding wl_base_def by metis
  have keep: "web_lock_requests s' i = Some q"
    if "web_lock_requests s i = Some q" "wl_key q = j" "j \<noteq> k" for i q j
    using assms(3) [of q i] that by simp
  have "resource_ok (web_lock_requests s') j r" if "web_locks s' j = Some r" for j r
    using assms(4) resource_ok_cong [OF ok] keep that by (cases "j = k") blast+
  moreover have "i < next_web_lock_request_id s' \<and> placed (web_locks s') i q"
    if "web_lock_requests s' i = Some q" for i q
  proof (cases "wl_key q = k")
    case False
    then have "i < next_web_lock_request_id s \<and> placed (web_locks s) i q"
      using assms(1,3) that unfolding wl_base_def by blast
    with False assms(2,6) show ?thesis
      by (auto simp: placed_def split: WebLockRequestState.splits)
  qed (use assms(5) that in blast)
  ultimately show "wl_base s'" unfolding wl_base_def by blast
  show "settled_at s' k'" if "k' \<noteq> k" "settled_at s k'"
    using resource_settled_cong [OF ok] keep assms(2) that unfolding settled_at_def by metis
qed

lemma wl_baseD:
  assumes "wl_base s"
  shows "web_locks s k = Some r \<Longrightarrow> resource_ok (web_lock_requests s) k r"
    "web_lock_requests s i = Some q \<Longrightarrow> i < next_web_lock_request_id s"
    "web_lock_requests s i = Some q \<Longrightarrow> placed (web_locks s) i q"
  using assms unfolding wl_base_def by blast+

lemma resource_ok_grant:
  assumes ok: "resource_ok reqs k r" and g: "g = grant_prefix (shared_in reqs) (held r) (pending r)"
  shows "resource_ok (grant_all g reqs) k (r\<lparr>held := held r @ g, pending := drop (length g) (pending r)\<rparr>)"
proof -
  obtain rest where rest: "pending r = g @ rest"
    using grant_prefix_prefix g by (metis prefixE)
  have "length (held r @ g) \<le> 1 \<or> list_all (shared_in reqs) (held r @ g)"
    unfolding g by (rule grant_prefix_holders) (use resource_okD(6) [OF ok] in \<open>simp add: list_all_iff\<close>)
  then have "length (held r @ g) \<le> 1 \<or> (\<forall>i\<in>set (held r @ g). shared_in reqs i)"
    by (simp add: list_all_iff)
  moreover have "\<exists>q. grant_all g reqs i = Some q \<and> wl_key q = k \<and> wr_state q \<in> {WL_Granted, WL_Held}"
    if "i \<in> set (held r @ g)" for i
    using resource_okD(4,5) [OF ok, of i] that rest by (force simp: grant_all_def)
  moreover have "\<exists>q. grant_all g reqs i = Some q \<and> wl_key q = k \<and> wr_state q = WL_Pending"
    if "i \<in> set rest" for i
  proof -
    have "i \<notin> set g" using resource_okD(2) [OF ok] that rest by auto
    then show ?thesis using resource_okD(5) [OF ok, of i] that rest by (simp add: grant_all_def)
  qed
  moreover have "distinct (held r @ g @ rest)" "sorted_wrt (<) rest"
    using ok rest unfolding resource_ok_def by (simp_all add: sorted_wrt_append)
  ultimately show ?thesis unfolding resource_ok_def by (simp add: rest)
qed

lemma resource_settled_grant:
  assumes "held r \<noteq> [] \<or> pending r \<noteq> []" and g: "g = grant_prefix (shared_in reqs) (held r) (pending r)"
  shows "resource_settled (grant_all g reqs) (r\<lparr>held := held r @ g, pending := drop (length g) (pending r)\<rparr>)"
  using grant_prefix_settled [OF assms(1), of "shared_in reqs"]
  unfolding resource_settled_def g by simp

lemma web_lock_advance_inv:
  assumes base: "wl_base s" and adv: "web_lock_advance k s [] = (ns, s')"
  shows "wl_base s'" "settled_at s' k" "k' \<noteq> k \<Longrightarrow> settled_at s k' \<Longrightarrow> settled_at s' k'"
proof -
  consider (none) "web_locks s k = None" "s' = s"
    | (some) r where "web_locks s k = Some r"
    using adv by (cases "web_locks s k") (auto simp: web_lock_advance_None)
  then have "wl_base s' \<and> settled_at s' k \<and> (k' \<noteq> k \<longrightarrow> settled_at s k' \<longrightarrow> settled_at s' k')"
  proof cases
    case none
    then show ?thesis using base by (simp add: settled_at_def)
  next
    case some
    let ?reqs = "web_lock_requests s"
    define g where "g = grant_prefix (shared_in ?reqs) (held r) (pending r)"
    note ok = wl_baseD(1) [OF base some]
    define r' where "r' = r\<lparr>held := held r @ g, pending := drop (length g) (pending r)\<rparr>"
    have s': "s' = put_resource k r' (s\<lparr>web_lock_requests := grant_all g ?reqs\<rparr>)"
      using web_lock_advance_eq [OF some refl, of "[]"] adv resource_okD(5) [OF ok]
      unfolding g_def r'_def by auto
    have ok': "resource_ok (grant_all g ?reqs) k r'"
      unfolding r'_def by (rule resource_ok_grant [OF ok g_def])
    have gk: "wl_key q = k" if "i \<in> set g" "?reqs i = Some q" for i q
      using resource_okD(5) [OF ok, of i] that grant_prefix_prefix set_mono_prefix
      unfolding g_def by fastforce
    have wl: "web_locks s' k = Some j \<Longrightarrow> j = r'" for j
      by (auto simp: s' put_resource_def split: if_splits)
    have settled: "settled_at s' k"
    proof (cases "held r = [] \<and> pending r = []")
      case True
      then show ?thesis by (simp add: settled_at_def s' put_resource_def r'_def g_def)
    next
      case False
      then show ?thesis
        using resource_settled_grant [of r g ?reqs] wl unfolding g_def [symmetric] settled_at_def
        by (auto simp: r'_def s' put_resource_def g_def)
    qed
    have p: "i < next_web_lock_request_id s' \<and> placed (web_locks s') i q"
      if rq: "web_lock_requests s' i = Some q" "wl_key q = k" for i q
    proof -
      obtain q0 where q0: "?reqs i = Some q0" "wl_key q0 = k"
          "q = (if i \<in> set g then q0\<lparr>wr_state := WL_Granted\<rparr> else q0)"
        using rq by (auto simp: s' put_resource_def grant_all_def split: if_splits)
      have pl: "placed (web_locks s) i q0" by (rule wl_baseD(3) [OF base q0(1)])
      have pend: "set (pending r) = set g \<union> set (pending r')"
        using arg_cong [where f = set, OF grant_prefix_drop [of "shared_in ?reqs" "held r" "pending r"]]
        by (simp add: r'_def g_def)
      have "placed [k \<mapsto> r'] i q"
        using pl some q0 pend
        by (auto simp: placed_def r'_def split: WebLockRequestState.splits if_splits)
      then have "placed (web_locks s') i q"
        using rq(2) by (auto simp: placed_def s' put_resource_def split: WebLockRequestState.splits)
      with wl_baseD(2) [OF base q0(1)] show ?thesis by (simp add: s' put_resource_def)
    qed
    have reqs': "web_lock_requests s' i = Some q \<longleftrightarrow> ?reqs i = Some q" if "wl_key q \<noteq> k" for i q
      using gk that by (auto simp: s' put_resource_def grant_all_def split: if_splits)
    have at: "resource_ok (web_lock_requests s') k j" if "web_locks s' k = Some j" for j
      using wl [OF that] ok' by (simp add: s' put_resource_def)
    have others: "web_locks s' j = web_locks s j" if "j \<noteq> k" for j
      using that by (simp add: s' put_resource_def)
    have "next_web_lock_request_id s \<le> next_web_lock_request_id s'" by (simp add: s' put_resource_def)
    note change = wl_change_at [OF base others reqs' at p this]
    show ?thesis using settled change by blast
  qed
  then show "wl_base s'" "settled_at s' k" "k' \<noteq> k \<Longrightarrow> settled_at s k' \<Longrightarrow> settled_at s' k'"
    by blast+
qed

section \<open>Every operation keeps the invariant\<close>

definition without_request :: "nat \<Rightarrow> WebLockResource \<Rightarrow> WebLockResource" where
  "without_request i r =
     r\<lparr>held := filter (\<lambda>j. j \<noteq> i) (held r), pending := filter (\<lambda>j. j \<noteq> i) (pending r)\<rparr>"

definition unlisted :: "nat \<Rightarrow> web_lock_key \<Rightarrow> StorageState \<Rightarrow> StorageState" where
  "unlisted i k s =
     s\<lparr>web_locks := (web_locks s)(k := map_option (without_request i) (web_locks s k)),
       web_lock_requests := (web_lock_requests s)(i := None)\<rparr>"

lemma web_lock_remove_request_eq:
  assumes "web_lock_requests s i = Some q"
  shows "web_lock_remove_request i True s = web_lock_advance (wl_key q) (unlisted i (wl_key q) s) []"
  using assms
  by (simp add: web_lock_remove_request_def unlisted_def without_request_def fun_upd_idem Let_def
      split: option.split)

lemma unlisted_sel [simp]:
  "web_locks (unlisted i k s) k' =
     (if k' = k then map_option (without_request i) (web_locks s k) else web_locks s k')"
  "web_lock_requests (unlisted i k s) j = (if j = i then None else web_lock_requests s j)"
  "next_web_lock_request_id (unlisted i k s) = next_web_lock_request_id s"
  by (simp_all add: unlisted_def)

lemma without_request_sel [simp]:
  "held (without_request i r) = filter (\<lambda>j. j \<noteq> i) (held r)"
  "pending (without_request i r) = filter (\<lambda>j. j \<noteq> i) (pending r)"
  by (simp_all add: without_request_def)

lemma without_request_id: "i \<notin> set (held r) \<union> set (pending r) \<Longrightarrow> without_request i r = r"
  unfolding without_request_def by (rule resource_eta) (rule filter_True [symmetric], auto)+

lemma unlisted_base:
  assumes base: "wl_base s" and q: "web_lock_requests s i = Some q" "wl_key q = k"
  shows "wl_base (unlisted i k s)" "k' \<noteq> k \<Longrightarrow> settled_at s k' \<Longrightarrow> settled_at (unlisted i k s) k'"
proof -
  have at: "resource_ok (web_lock_requests (unlisted i k s)) k j"
    if j: "web_locks (unlisted i k s) k = Some j" for j
  proof -
    obtain r where r: "web_locks s k = Some r" "j = without_request i r"
      using j by auto
    note ok = resource_okD [OF wl_baseD(1) [OF base r(1)]]
    have "length (held j) \<le> 1 \<or> (\<forall>i\<in>set (held r). shared_in (web_lock_requests s) i)"
      using ok(6) length_filter_le [of "\<lambda>j. j \<noteq> i" "held r"] unfolding r(2) without_request_sel
      by (meson le_trans)
    then have "length (held j) \<le> 1 \<or> (\<forall>j\<in>set (held j). shared_in (web_lock_requests (unlisted i k s)) j)"
      by (auto simp: r(2) shared_in_def)
    moreover have "distinct (held j @ pending j)" using ok(1-3) by (auto simp: r(2))
    moreover have "sorted_wrt (<) (pending j)" using ok(7) by (simp add: r(2) sorted_wrt_filter)
    ultimately show ?thesis
      using ok(4,5) unfolding resource_ok_def by (auto simp: r(2))
  qed
  have p: "j < next_web_lock_request_id (unlisted i k s) \<and> placed (web_locks (unlisted i k s)) j p"
    if "web_lock_requests (unlisted i k s) j = Some p" "wl_key p = k" for j p
  proof -
    have p: "web_lock_requests s j = Some p" "j \<noteq> i" using that(1) by (auto split: if_splits)
    show ?thesis
      using wl_baseD(2,3) [OF base p(1)] p(2) that(2)
      by (auto simp: placed_def split: WebLockRequestState.splits)
  qed
  have reqs: "web_lock_requests (unlisted i k s) j = Some p \<longleftrightarrow> web_lock_requests s j = Some p"
    if "wl_key p \<noteq> k" for j p
    using q that by auto
  note change = wl_change_at [OF base _ reqs at p, simplified]
  show "wl_base (unlisted i k s)" "k' \<noteq> k \<Longrightarrow> settled_at s k' \<Longrightarrow> settled_at (unlisted i k s) k'"
    using change by auto
qed

lemma remove_request_keeps [keeps]:
  assumes "wl_inv s" "web_lock_remove_request i True s = (ns, s')"
  shows "wl_inv s'"
proof (cases "web_lock_requests s i")
  case None
  then show ?thesis using assms by (simp add: web_lock_remove_request_def)
next
  case (Some q)
  let ?k = "wl_key q"
  have base: "wl_base s" and set: "settled_at s k" for k
    using assms(1) unfolding wl_inv_def by blast+
  note un = unlisted_base [OF base Some refl]
  have adv: "web_lock_advance ?k (unlisted i ?k s) [] = (ns, s')"
    using assms(2) web_lock_remove_request_eq [OF Some] by simp
  note inv = web_lock_advance_inv [OF un(1) adv]
  have "settled_at s' k" for k
    using inv(2,3) un(2) set by (cases "k = ?k") auto
  with inv(1) show ?thesis by (simp add: wl_inv_def)
qed

lemma remove_requests_keeps [keeps]:
  "wl_inv s \<Longrightarrow> remove_web_lock_requests is s ns = (ns', s') \<Longrightarrow> wl_inv s'"
proof (induction "is" s ns rule: remove_web_lock_requests.induct)
  case (2 i "is" s ns)
  then show ?case
    by (auto split: prod.splits dest: remove_request_keeps)
qed simp

text \<open>A change of a request's state that keeps it in the list it stands in.\<close>

lemma start_keeps [keeps]:
  assumes inv: "wl_inv s" and "start_web_lock i s = (res, s')"
  shows "wl_inv s'"
proof (cases "\<exists>q. web_lock_requests s i = Some q \<and> wr_state q = WL_Granted")
  case False
  then have "s' = s"
    using assms(2) by (auto simp: start_web_lock_def split: option.splits WebLockRequestState.splits)
  with inv show ?thesis by simp
next
  case True
  then obtain q where q: "web_lock_requests s i = Some q" "wr_state q = WL_Granted" by blast
  let ?f = "(web_lock_requests s)(i \<mapsto> q\<lparr>wr_state := WL_Held\<rparr>)"
  have s': "s' = s\<lparr>web_lock_requests := ?f\<rparr>"
    using assms(2) q by (simp add: start_web_lock_def set_request_state_def)
  have sh: "shared_in ?f = shared_in (web_lock_requests s)"
    using q(1) by (auto simp: fun_eq_iff shared_in_def)
  have ok: "resource_ok ?f k r" if "resource_ok (web_lock_requests s) k r" for k r
    using that q unfolding resource_ok_def sh by fastforce
  have "placed (web_locks s) j p" if "?f j = Some p" for j p
    using wl_baseD(3) [of s j] inv q that
    by (cases "j = i") (fastforce simp: wl_inv_def placed_def)+
  moreover have "j < next_web_lock_request_id s" if "?f j = Some p" for j p
    using wl_baseD(2) [of s] inv q that by (cases "j = i") (auto simp: wl_inv_def)
  ultimately have "wl_base s'"
    using ok inv unfolding wl_inv_def wl_base_def by (auto simp: s')
  then show ?thesis
    using inv by (simp add: wl_inv_def s' settled_at_def resource_settled_def sh)
qed

lemma finish_stolen_keeps [keeps]:
  assumes inv: "wl_inv s"
  shows "wl_inv (finish_stolen_web_lock i s)"
proof (cases "\<exists>q. web_lock_requests s i = Some q \<and> wr_state q = WL_Stolen")
  case False
  then have "finish_stolen_web_lock i s = s"
    by (auto simp: finish_stolen_web_lock_def split: option.splits)
  with inv show ?thesis by simp
next
  case True
  then obtain q where q: "web_lock_requests s i = Some q" "wr_state q = WL_Stolen" by blast
  have base: "wl_base s" using inv by (simp add: wl_inv_def)
  have out: "i \<notin> set (held r) \<union> set (pending r)" if "web_locks s k = Some r" for k r
    using resource_okD(4,5) [OF wl_baseD(1) [OF base that], of i] q by auto
  have eq: "finish_stolen_web_lock i s = unlisted i (wl_key q) s"
  proof -
    have "map_option (without_request i) (web_locks s (wl_key q)) = web_locks s (wl_key q)"
      using out by (cases "web_locks s (wl_key q)") (simp_all add: without_request_id)
    then have "(web_locks s)(wl_key q := map_option (without_request i) (web_locks s (wl_key q))) = web_locks s"
      by (simp add: fun_upd_idem)
    then show ?thesis using q by (simp add: finish_stolen_web_lock_def unlisted_def)
  qed
  have locks: "web_locks (unlisted i (wl_key q) s) = web_locks s"
    unfolding eq [symmetric] using q by (simp add: finish_stolen_web_lock_def)
  have sh: "shared_in (web_lock_requests (unlisted i (wl_key q) s)) j = shared_in (web_lock_requests s) j"
    if "j \<noteq> i" for j
    using that by (simp add: shared_in_def)
  have "resource_settled (web_lock_requests (unlisted i (wl_key q) s)) r"
    if r: "web_locks s k = Some r" for k r
  proof -
    have "resource_settled (web_lock_requests s) r"
      using inv r unfolding wl_inv_def settled_at_def by blast
    moreover have "shared_in (web_lock_requests (unlisted i (wl_key q) s)) j = shared_in (web_lock_requests s) j"
      if "j \<in> set (held r) \<union> set (pending r)" for j
      using sh out [OF r] that by metis
    ultimately show ?thesis unfolding resource_settled_def by auto
  qed
  then have "settled_at (unlisted i (wl_key q) s) k" for k
    unfolding settled_at_def locks by blast
  with unlisted_base [OF base q(1) refl] show ?thesis by (simp add: wl_inv_def eq)
qed

text \<open>The holders a theft removes.\<close>

definition steal_all :: "nat list \<Rightarrow> (nat \<rightharpoonup> WebLockRequest) \<Rightarrow> nat \<rightharpoonup> WebLockRequest" where
  "steal_all is reqs =
     (\<lambda>i. if i \<in> set is then map_option (\<lambda>q. q\<lparr>wr_state := WL_Stolen\<rparr>) (reqs i) else reqs i)"

definition stolen_note :: "(nat \<rightharpoonup> WebLockRequest) \<Rightarrow> nat \<Rightarrow> WebLockNotification" where
  "stolen_note reqs i =
     \<lparr>wn_client_id = (case reqs i of Some q \<Rightarrow> wr_client_id q | None \<Rightarrow> 0),
      wn_request_id = i, wn_kind = NotifyStolen\<rparr>"

lemma steal_all_Cons: "steal_all is (steal_all [i] reqs) = steal_all (i # is) reqs"
  by (auto simp: steal_all_def fun_eq_iff option.map_comp comp_def)

lemma stolen_note_steal_all [simp]: "stolen_note (steal_all is reqs) = stolen_note reqs"
  by (auto simp: fun_eq_iff stolen_note_def steal_all_def split: option.split)

lemma steal_all_dom [simp]: "steal_all is reqs i = None \<longleftrightarrow> reqs i = None"
  by (simp add: steal_all_def)

lemma steal_held_eq:
  assumes "\<forall>i\<in>set is. web_lock_requests s i \<noteq> None"
  shows "steal_held is s ns =
    (s\<lparr>web_lock_requests := steal_all is (web_lock_requests s)\<rparr>,
     ns @ map (stolen_note (web_lock_requests s)) is)"
  using assms
proof (induction "is" arbitrary: s ns)
  case Nil
  then show ?case by (simp add: steal_all_def)
next
  case (Cons i "is")
  then obtain q where q: "web_lock_requests s i = Some q" by auto
  let ?s = "s\<lparr>web_lock_requests := steal_all [i] (web_lock_requests s)\<rparr>"
  have "set_request_state i WL_Stolen s = ?s"
    using q by (auto simp: set_request_state_def steal_all_def fun_eq_iff)
  then have "steal_held (i # is) s ns = steal_held is ?s (ns @ [stolen_note (web_lock_requests s) i])"
    using q by (simp add: stolen_note_def)
  also have "\<dots> = (?s\<lparr>web_lock_requests := steal_all is (web_lock_requests ?s)\<rparr>,
      (ns @ [stolen_note (web_lock_requests s) i]) @ map (stolen_note (web_lock_requests ?s)) is)"
    by (rule Cons.IH) (use Cons.prems in simp)
  finally show ?case by (simp add: steal_all_Cons)
qed

text \<open>What a request does to the tables, on each of its four outcomes.\<close>

definition new_request ::
  "StorageOrigin \<Rightarrow> nat \<Rightarrow> string \<Rightarrow> WebLockMode \<Rightarrow> WebLockRequestState \<Rightarrow> WebLockRequest" where
  "new_request origin c name mode st =
     \<lparr>wr_origin = origin, wr_name = name, wr_mode = mode, wr_client_id = c, wr_state = st\<rparr>"

lemma new_request_sel [simp]:
  "wr_origin (new_request org c nm m st) = org" "wr_name (new_request org c nm m st) = nm"
  "wr_mode (new_request org c nm m st) = m" "wr_client_id (new_request org c nm m st) = c"
  "wr_state (new_request org c nm m st) = st"
  by (simp_all add: new_request_def)

definition with_lock ::
  "web_lock_key \<Rightarrow> WebLockResource \<Rightarrow> (nat \<rightharpoonup> WebLockRequest) \<Rightarrow> nat \<Rightarrow> StorageState \<Rightarrow> StorageState" where
  "with_lock k r reqs n s =
     s\<lparr>next_web_lock_request_id := n, web_locks := (web_locks s)(k \<mapsto> r), web_lock_requests := reqs\<rparr>"

lemma with_lock_sel [simp]:
  "web_locks (with_lock k r reqs n s) = (web_locks s)(k \<mapsto> r)"
  "web_lock_requests (with_lock k r reqs n s) = reqs"
  "next_web_lock_request_id (with_lock k r reqs n s) = n"
  by (simp_all add: with_lock_def)

lemma record_order_next [simp]:
  "s\<lparr>next_web_lock_request_id := n, web_lock_requests := a, web_locks := b\<rparr> =
   s\<lparr>next_web_lock_request_id := n, web_locks := b, web_lock_requests := a\<rparr>"
  by simp

lemma request_web_lock_granted:
  assumes "web_lock_is_immediately_grantable s (origin, name) mode" "\<not> steal"
  defines "n \<equiv> next_web_lock_request_id s"
  defines "r \<equiv> resource_or_default s (origin, name)"
  shows "request_web_lock origin c name mode ifav steal s =
    ((RequestGranted n, []),
     with_lock (origin, name) (r\<lparr>held := held r @ [n]\<rparr>)
       ((web_lock_requests s)(n \<mapsto> new_request origin c name mode WL_Granted)) (saturating_add n 1) s)"
  using assms(1,2)
  by (simp add: request_web_lock_def set_request_state_def with_lock_def new_request_def n_def r_def
      resource_or_default_def Let_def)

lemma request_web_lock_pending:
  assumes "\<not> web_lock_is_immediately_grantable s (origin, name) mode" "\<not> steal" "\<not> ifav"
  defines "n \<equiv> next_web_lock_request_id s"
  defines "r \<equiv> resource_or_default s (origin, name)"
  shows "request_web_lock origin c name mode ifav steal s =
    ((RequestPending n, []),
     with_lock (origin, name) (r\<lparr>pending := pending r @ [n]\<rparr>)
       ((web_lock_requests s)(n \<mapsto> new_request origin c name mode WL_Pending)) (saturating_add n 1) s)"
  using assms(1,2,3)
  by (simp add: request_web_lock_def with_lock_def new_request_def n_def r_def
      resource_or_default_def Let_def)

lemma steal_all_upd: "n \<notin> set is \<Longrightarrow> steal_all is (reqs(n \<mapsto> q)) = (steal_all is reqs)(n \<mapsto> q)"
  by (auto simp: steal_all_def fun_eq_iff)

lemma stolen_notes_upd:
  "n \<notin> set is \<Longrightarrow> map (stolen_note (reqs(n \<mapsto> q))) is = map (stolen_note reqs) is"
  by (rule map_cong) (auto simp: stolen_note_def)

lemma request_web_lock_stolen:
  fixes s origin name
  defines "n \<equiv> next_web_lock_request_id s"
  defines "r \<equiv> resource_or_default s (origin, name)"
  assumes "ifav \<longrightarrow> web_lock_is_immediately_grantable s (origin, name) mode"
  assumes "\<forall>i\<in>set (held r). web_lock_requests s i \<noteq> None" "n \<notin> set (held r)"
  shows "request_web_lock origin c name mode ifav True s =
    ((RequestGranted n, map (stolen_note (web_lock_requests s)) (held r)),
     with_lock (origin, name) (r\<lparr>held := [n]\<rparr>)
       ((steal_all (held r) (web_lock_requests s))(n \<mapsto> new_request origin c name mode WL_Granted))
       (saturating_add n 1) s)"
proof -
  let ?k = "(origin, name)"
  let ?p = "new_request origin c name mode WL_Pending"
  let ?s1 = "with_lock ?k (r\<lparr>held := []\<rparr>) ((web_lock_requests s)(n \<mapsto> ?p)) (saturating_add n 1) s"
  let ?s2 = "with_lock ?k (r\<lparr>held := []\<rparr>)
    ((steal_all (held r) (web_lock_requests s))(n \<mapsto> ?p)) (saturating_add n 1) s"
  have "steal_held (held r) ?s1 [] = (?s2, map (stolen_note (web_lock_requests s)) (held r))"
    using steal_held_eq [of "held r" ?s1 "[]"] assms(4,5)
    by (simp add: steal_all_upd stolen_notes_upd with_lock_def)
  moreover have "resource_or_default ?s2 ?k = r\<lparr>held := []\<rparr>"
    by (simp add: resource_or_default_def)
  moreover have "request_web_lock origin c name mode ifav True s =
    (let (s2, ns) = steal_held (held r) ?s1 [];
         r2 = resource_or_default s2 ?k;
         s3 = s2\<lparr>web_locks := (web_locks s2)(?k \<mapsto> r2\<lparr>held := held r2 @ [n]\<rparr>)\<rparr>
     in ((RequestGranted n, ns), set_request_state n WL_Granted s3))"
    using assms(3)
    by (cases ifav) (simp_all add: request_web_lock_def with_lock_def new_request_def n_def r_def
        resource_or_default_def Let_def)
  ultimately show ?thesis
    by (simp add: Let_def set_request_state_def with_lock_def new_request_def)
qed

lemma with_lock_keeps:
  assumes inv: "wl_inv s" and "next_web_lock_request_id s \<le> n"
    and "\<And>i q. wl_key q \<noteq> k \<Longrightarrow> reqs i = Some q \<longleftrightarrow> web_lock_requests s i = Some q"
    and "resource_ok reqs k r" "resource_settled reqs r"
    and "\<And>i q. reqs i = Some q \<Longrightarrow> wl_key q = k \<Longrightarrow> i < n \<and> placed [k \<mapsto> r] i q"
  shows "wl_inv (with_lock k r reqs n s)"
proof -
  let ?s = "with_lock k r reqs n s"
  have base: "wl_base s" and set: "settled_at s j" for j
    using inv unfolding wl_inv_def by blast+
  have p: "i < next_web_lock_request_id ?s \<and> placed (web_locks ?s) i q"
    if "web_lock_requests ?s i = Some q" "wl_key q = k" for i q
    using assms(6) [of i q] that by (auto simp: placed_def split: WebLockRequestState.splits)
  note change = wl_change_at [OF base, of k ?s, OF _ _ _ p]
  have "wl_base ?s" by (rule change(1)) (use assms in auto)
  moreover have "settled_at ?s j" for j
  proof (cases "j = k")
    case True
    then show ?thesis using assms(5) by (simp add: settled_at_def)
  next
    case False
    show ?thesis by (rule change(2) [OF _ _ _ _ _ _ False set]) (use assms in auto)
  qed
  ultimately show ?thesis by (simp add: wl_inv_def)
qed

lemma wl_inv_fresh:
  assumes "wl_base s"
  shows "web_lock_requests s (next_web_lock_request_id s) = None"
    "web_locks s k = Some r \<Longrightarrow> i \<in> set (held r) \<union> set (pending r) \<Longrightarrow> i < next_web_lock_request_id s"
proof -
  show "web_lock_requests s (next_web_lock_request_id s) = None"
    using wl_baseD(2) [OF assms] by fastforce
  assume "web_locks s k = Some r" "i \<in> set (held r) \<union> set (pending r)"
  then show "i < next_web_lock_request_id s"
    using resource_okD(4,5) [OF wl_baseD(1) [OF assms], of k r i] wl_baseD(2) [OF assms, of i] by blast
qed

text \<open>The resource of a key, absent or present, under the invariant.\<close>

lemma resource_or_default_ok:
  assumes "wl_base s"
  shows "resource_ok (web_lock_requests s) k (resource_or_default s k)"
    "i \<in> set (held (resource_or_default s k)) \<union> set (pending (resource_or_default s k)) \<Longrightarrow>
       i < next_web_lock_request_id s"
    "web_lock_requests s i = Some q \<Longrightarrow> wl_key q = k \<Longrightarrow> placed [k \<mapsto> resource_or_default s k] i q"
proof -
  let ?r = "resource_or_default s k"
  consider "web_locks s k = None" "?r = \<lparr>held = [], pending = []\<rparr>" | "web_locks s k = Some ?r"
    by (cases "web_locks s k") (auto simp: resource_or_default_def)
  note cases = this
  show "resource_ok (web_lock_requests s) k ?r"
    by (cases rule: cases) (use wl_baseD(1) [OF assms] in \<open>auto simp: resource_ok_def\<close>)
  show "i < next_web_lock_request_id s" if "i \<in> set (held ?r) \<union> set (pending ?r)"
    by (cases rule: cases) (use wl_inv_fresh(2) [OF assms _ that] that in auto)
  show "placed [k \<mapsto> ?r] i q" if q: "web_lock_requests s i = Some q" "wl_key q = k"
    by (cases rule: cases)
      (use wl_baseD(3) [OF assms q(1)] q(2) in
        \<open>auto simp: placed_def split: WebLockRequestState.splits\<close>)
qed

lemma shared_in_upd: "shared_in (reqs(n \<mapsto> q)) i = (if i = n then wr_mode q = WL_Shared else shared_in reqs i)"
  by (simp add: shared_in_def)

lemma shared_in_steal [simp]: "shared_in (steal_all is reqs) = shared_in reqs"
  by (auto simp: fun_eq_iff steal_all_def shared_in_def split: option.split)

lemma grantable_iff:
  "web_lock_is_immediately_grantable s k mode \<longleftrightarrow>
   pending (resource_or_default s k) = []
   \<and> (held (resource_or_default s k) = []
      \<or> mode = WL_Shared \<and> (\<forall>i\<in>set (held (resource_or_default s k)). shared_in (web_lock_requests s) i))"
  by (auto simp: web_lock_is_immediately_grantable_def resource_or_default_def all_shared_iff
      split: option.split)

lemma request_granted_keeps:
  fixes s origin name c mode
  defines "k \<equiv> (origin, name)" and "n \<equiv> next_web_lock_request_id s"
  defines "r \<equiv> resource_or_default s k"
  assumes inv: "wl_inv s" and gr: "web_lock_is_immediately_grantable s k mode" and "n < m"
  shows "wl_inv (with_lock k (r\<lparr>held := held r @ [n]\<rparr>)
    ((web_lock_requests s)(n \<mapsto> new_request origin c name mode WL_Granted)) m s)"
proof (rule with_lock_keeps [OF inv])
  let ?q = "new_request origin c name mode WL_Granted"
  let ?f = "(web_lock_requests s)(n \<mapsto> ?q)"
  have base: "wl_base s" using inv by (simp add: wl_inv_def)
  have ok: "resource_ok (web_lock_requests s) k r" and lt: "i \<in> set (held r) \<union> set (pending r) \<Longrightarrow> i < n" for i
    using resource_or_default_ok(1,2) [OF base] unfolding r_def n_def by blast+
  note okD = resource_okD [OF ok]
  have fresh: "web_lock_requests s n = None" unfolding n_def by (rule wl_inv_fresh(1) [OF base])
  have g: "pending r = []" "held r = [] \<or> mode = WL_Shared \<and> (\<forall>i\<in>set (held r). shared_in (web_lock_requests s) i)"
    using gr unfolding grantable_iff r_def by auto
  have neq: "i \<in> set (held r) \<Longrightarrow> i \<noteq> n" for i using lt [of i] by auto
  show "next_web_lock_request_id s \<le> m" using \<open>n < m\<close> by (simp add: n_def)
  show "?f i = Some q \<longleftrightarrow> web_lock_requests s i = Some q" if "wl_key q \<noteq> k" for i q
    using that fresh by (auto simp: k_def)
  have "\<exists>q. ?f i = Some q \<and> wl_key q = k \<and> wr_state q \<in> {WL_Granted, WL_Held}"
    if "i \<in> set (held r @ [n])" for i
    using okD(4) [of i] neq [of i] that by (cases "i = n") (auto simp: k_def)
  moreover have "length (held r @ [n]) \<le> 1 \<or> (\<forall>i\<in>set (held r @ [n]). shared_in ?f i)"
    using g(2) neq by (auto simp: shared_in_upd)
  moreover have "distinct (held r @ [n])" using okD(1) neq by auto
  ultimately show "resource_ok ?f k (r\<lparr>held := held r @ [n]\<rparr>)"
    unfolding resource_ok_def using g(1) by simp
  show "resource_settled ?f (r\<lparr>held := held r @ [n]\<rparr>)"
    using g(1) by (simp add: resource_settled_def)
  show "i < m \<and> placed [k \<mapsto> r\<lparr>held := held r @ [n]\<rparr>] i q"
    if fi: "?f i = Some q" "wl_key q = k" for i q
  proof (cases "i = n")
    case True
    with fi \<open>n < m\<close> show ?thesis by (auto simp: placed_def k_def)
  next
    case False
    with fi have i: "web_lock_requests s i = Some q" by simp
    from resource_or_default_ok(3) [OF base this fi(2)] wl_baseD(2) [OF base this] \<open>n < m\<close>
    show ?thesis
      unfolding n_def r_def by (auto simp: placed_def fi(2) split: WebLockRequestState.splits)
  qed
qed

lemma request_pending_keeps:
  fixes s origin name c mode
  defines "k \<equiv> (origin, name)" and "n \<equiv> next_web_lock_request_id s"
  defines "r \<equiv> resource_or_default s k"
  assumes inv: "wl_inv s" and gr: "\<not> web_lock_is_immediately_grantable s k mode" and "n < m"
  shows "wl_inv (with_lock k (r\<lparr>pending := pending r @ [n]\<rparr>)
    ((web_lock_requests s)(n \<mapsto> new_request origin c name mode WL_Pending)) m s)"
proof (rule with_lock_keeps [OF inv])
  let ?q = "new_request origin c name mode WL_Pending"
  let ?f = "(web_lock_requests s)(n \<mapsto> ?q)"
  have base: "wl_base s" and set: "settled_at s k" using inv unfolding wl_inv_def by blast+
  have ok: "resource_ok (web_lock_requests s) k r" and lt: "i \<in> set (held r) \<union> set (pending r) \<Longrightarrow> i < n" for i
    using resource_or_default_ok(1,2) [OF base] unfolding r_def n_def by blast+
  note okD = resource_okD [OF ok]
  have fresh: "web_lock_requests s n = None" unfolding n_def by (rule wl_inv_fresh(1) [OF base])
  have "web_locks s k = Some r"
    using gr by (cases "web_locks s k") (auto simp: r_def resource_or_default_def web_lock_is_immediately_grantable_def)
  with set have settled: "resource_settled (web_lock_requests s) r" by (simp add: settled_at_def)
  have neq: "i \<in> set (held r) \<union> set (pending r) \<Longrightarrow> i \<noteq> n" for i using lt [of i] by auto
  show "next_web_lock_request_id s \<le> m" using \<open>n < m\<close> by (simp add: n_def)
  show "?f i = Some q \<longleftrightarrow> web_lock_requests s i = Some q" if "wl_key q \<noteq> k" for i q
    using that fresh by (auto simp: k_def)
  have sh: "shared_in ?f i = shared_in (web_lock_requests s) i" if "i \<in> set (held r) \<union> set (pending r)" for i
    using neq that by (auto simp: shared_in_upd)
  have "\<exists>q. ?f i = Some q \<and> wl_key q = k \<and> wr_state q = WL_Pending"
    if "i \<in> set (pending r @ [n])" for i
    using okD(5) [of i] neq [of i] that by (cases "i = n") (auto simp: k_def)
  moreover have "\<exists>q. ?f i = Some q \<and> wl_key q = k \<and> wr_state q \<in> {WL_Granted, WL_Held}"
    if "i \<in> set (held r)" for i
    using okD(4) [of i] neq [of i] that by auto
  moreover have "length (held r) \<le> 1 \<or> (\<forall>i\<in>set (held r). shared_in ?f i)"
    using okD(6) sh by auto
  moreover have "distinct (held r @ pending r @ [n])" using okD(1,2,3) neq by auto
  moreover have "sorted_wrt (<) (pending r @ [n])" using okD(7) lt by (auto simp: sorted_wrt_append)
  ultimately show "resource_ok ?f k (r\<lparr>pending := pending r @ [n]\<rparr>)"
    unfolding resource_ok_def by simp
  show "resource_settled ?f (r\<lparr>pending := pending r @ [n]\<rparr>)"
  proof (cases "pending r")
    case Nil
    then have "held r \<noteq> []" "\<not> (mode = WL_Shared \<and> (\<forall>i\<in>set (held r). shared_in (web_lock_requests s) i))"
      using gr unfolding grantable_iff r_def by auto
    then show ?thesis using Nil neq by (auto simp: resource_settled_def shared_in_upd)
  next
    case (Cons p ps)
    then show ?thesis using settled neq sh by (auto simp: resource_settled_def)
  qed
  show "i < m \<and> placed [k \<mapsto> r\<lparr>pending := pending r @ [n]\<rparr>] i q"
    if fi: "?f i = Some q" "wl_key q = k" for i q
  proof (cases "i = n")
    case True
    with fi \<open>n < m\<close> show ?thesis by (auto simp: placed_def k_def)
  next
    case False
    with fi have i: "web_lock_requests s i = Some q" by simp
    from resource_or_default_ok(3) [OF base this fi(2)] wl_baseD(2) [OF base this] \<open>n < m\<close>
    show ?thesis
      unfolding n_def r_def by (auto simp: placed_def fi(2) split: WebLockRequestState.splits)
  qed
qed

lemma request_stolen_keeps:
  fixes s origin name c mode
  defines "k \<equiv> (origin, name)" and "n \<equiv> next_web_lock_request_id s"
  defines "r \<equiv> resource_or_default s k"
  assumes inv: "wl_inv s" and mode: "mode = WL_Exclusive" and "n < m"
  shows "wl_inv (with_lock k (r\<lparr>held := [n]\<rparr>)
    ((steal_all (held r) (web_lock_requests s))(n \<mapsto> new_request origin c name mode WL_Granted)) m s)"
proof (rule with_lock_keeps [OF inv])
  let ?q = "new_request origin c name mode WL_Granted"
  let ?f = "(steal_all (held r) (web_lock_requests s))(n \<mapsto> ?q)"
  have base: "wl_base s" using inv by (simp add: wl_inv_def)
  have ok: "resource_ok (web_lock_requests s) k r" and lt: "i \<in> set (held r) \<union> set (pending r) \<Longrightarrow> i < n" for i
    using resource_or_default_ok(1,2) [OF base] unfolding r_def n_def by blast+
  note okD = resource_okD [OF ok]
  have fresh: "web_lock_requests s n = None" unfolding n_def by (rule wl_inv_fresh(1) [OF base])
  have neq: "i \<in> set (pending r) \<Longrightarrow> i \<noteq> n \<and> i \<notin> set (held r)" for i
    using lt [of i] okD(3) by auto
  show "next_web_lock_request_id s \<le> m" using \<open>n < m\<close> by (simp add: n_def)
  show "?f i = Some q \<longleftrightarrow> web_lock_requests s i = Some q" if "wl_key q \<noteq> k" for i q
    using that fresh okD(4) [of i] by (auto simp: k_def steal_all_def)
  have "\<exists>q. ?f i = Some q \<and> wl_key q = k \<and> wr_state q = WL_Pending" if "i \<in> set (pending r)" for i
    using okD(5) [of i] neq [of i] that by (auto simp: steal_all_def)
  moreover have "n \<notin> set (pending r)" using neq by blast
  ultimately show "resource_ok ?f k (r\<lparr>held := [n]\<rparr>)"
    unfolding resource_ok_def using okD(2,7) by (simp add: k_def)
  show "resource_settled ?f (r\<lparr>held := [n]\<rparr>)"
    by (simp add: resource_settled_def shared_in_upd mode)
  show "i < m \<and> placed [k \<mapsto> r\<lparr>held := [n]\<rparr>] i q"
    if fi: "?f i = Some q" "wl_key q = k" for i q
  proof (cases "i = n")
    case True
    with fi \<open>n < m\<close> show ?thesis by (auto simp: placed_def k_def)
  next
    case False
    with fi obtain q0 where q0: "web_lock_requests s i = Some q0" "wl_key q0 = k"
        "q = (if i \<in> set (held r) then q0\<lparr>wr_state := WL_Stolen\<rparr> else q0)"
      by (auto simp: steal_all_def split: if_splits)
    from resource_or_default_ok(3) [OF base q0(1,2)] wl_baseD(2) [OF base q0(1)] \<open>n < m\<close> q0(2,3)
    show ?thesis
      unfolding n_def by (auto simp: placed_def r_def split: WebLockRequestState.splits if_splits)
  qed
qed

lemma request_keeps [keeps]:
  assumes inv: "wl_inv s" and room: "next_web_lock_request_id s < u64_max"
    and excl: "steal \<longrightarrow> mode = WL_Exclusive"
    and req: "request_web_lock origin c name mode ifav steal s = (res, s')"
  shows "wl_inv s'"
proof -
  let ?g = "web_lock_is_immediately_grantable s (origin, name) mode"
  let ?n = "next_web_lock_request_id s"
  have n: "?n < saturating_add ?n 1" using room by simp
  have base: "wl_base s" using inv by (simp add: wl_inv_def)
  consider (unavailable) "ifav" "\<not> ?g" | (stolen) "steal" "ifav \<longrightarrow> ?g"
    | (granted) "?g" "\<not> steal" | (queued) "\<not> ?g" "\<not> steal" "\<not> ifav" by blast
  then show ?thesis
  proof cases
    case unavailable
    then show ?thesis using req inv by (simp add: request_web_lock_def)
  next
    case stolen
    let ?r = "resource_or_default s (origin, name)"
    have "\<forall>i\<in>set (held ?r). web_lock_requests s i \<noteq> None"
      using resource_okD(4) [OF resource_or_default_ok(1) [OF base]] by fastforce
    moreover have "?n \<notin> set (held ?r)" using resource_or_default_ok(2) [OF base] by blast
    ultimately show ?thesis
      using req request_stolen_keeps [OF inv _ n] excl stolen request_web_lock_stolen [OF stolen(2)]
      by auto
  next
    case granted
    then show ?thesis
      using req request_granted_keeps [OF inv _ n] request_web_lock_granted by auto
  next
    case queued
    then show ?thesis
      using req request_pending_keeps [OF inv _ n] request_web_lock_pending by auto
  qed
qed

section \<open>Interleavings\<close>

text \<open>The operations of the lock manager as events; each yields the notifications it sends.
  A state is reachable by any sequence of them, interleaved with operations of
  the other parts of the manager, which leave the lock tables alone.  A theft is only ever asked
  for an exclusive lock (the caller in the page's bootstrap script refuses the others), and a request
  needs an id that has not been given out, which a 64-bit counter has for every
  feasible run.\<close>

datatype wl_event =
    WL_Request StorageOrigin nat string WebLockMode bool bool
  | WL_Start nat | WL_Release nat | WL_Cancel nat | WL_FinishStolen nat
  | WL_RemoveClient "nat list" nat

fun wl_allowed :: "wl_event \<Rightarrow> StorageState \<Rightarrow> bool" where
  "wl_allowed (WL_Request origin c name mode ifav steal) s \<longleftrightarrow>
     next_web_lock_request_id s < u64_max \<and> (steal \<longrightarrow> mode = WL_Exclusive)"
| "wl_allowed e s \<longleftrightarrow> True"

fun wl_step :: "wl_event \<Rightarrow> StorageState \<Rightarrow> WebLockNotification list \<times> StorageState" where
  "wl_step (WL_Request origin c name mode ifav steal) s =
     (case request_web_lock origin c name mode ifav steal s of ((res, ns), s') \<Rightarrow> (ns, s'))"
| "wl_step (WL_Start i) s = ([], snd (start_web_lock i s))"
| "wl_step (WL_Release i) s = release_web_lock i s"
| "wl_step (WL_Cancel i) s = (case cancel_web_lock i s of ((b, ns), s') \<Rightarrow> (ns, s'))"
| "wl_step (WL_FinishStolen i) s = ([], finish_stolen_web_lock i s)"
| "wl_step (WL_RemoveClient iter c) s = remove_web_lock_client iter c s"

definition same_locks :: "StorageState \<Rightarrow> StorageState \<Rightarrow> bool" where
  "same_locks s s' \<longleftrightarrow>
     web_locks s' = web_locks s \<and> web_lock_requests s' = web_lock_requests s
     \<and> next_web_lock_request_id s' = next_web_lock_request_id s"

inductive wl_reach :: "StorageState \<Rightarrow> bool" where
  initial: "wl_reach storage_state_default"
| step: "wl_reach s \<Longrightarrow> wl_allowed e s \<Longrightarrow> wl_reach (snd (wl_step e s))"
| other: "wl_reach s \<Longrightarrow> same_locks s s' \<Longrightarrow> wl_reach s'"

lemma wl_step_keeps [keeps]:
  assumes "wl_inv s" "wl_allowed e s"
  shows "wl_inv (snd (wl_step e s))"
proof (cases e)
  case (WL_Request origin c name mode ifav steal)
  then show ?thesis using assms request_keeps by (fastforce split: prod.split)
next
  case (WL_Start i)
  then show ?thesis using assms start_keeps by (cases "start_web_lock i s") simp
next
  case (WL_Release i)
  then show ?thesis
    using assms remove_request_keeps by (cases "release_web_lock i s") (simp add: release_web_lock_def)
next
  case (WL_Cancel i)
  then show ?thesis
    using assms remove_request_keeps [of s i]
    by (auto simp: cancel_web_lock_def Let_def split: prod.split)
next
  case (WL_FinishStolen i)
  then show ?thesis using assms finish_stolen_keeps by simp
next
  case (WL_RemoveClient iter c)
  then show ?thesis
    using assms remove_requests_keeps
    by (cases "remove_web_lock_client iter c s") (auto simp: remove_web_lock_client_def Let_def)
qed

lemma wl_reach_inv: "wl_reach s \<Longrightarrow> wl_inv s"
proof (induction rule: wl_reach.induct)
  case initial
  show ?case by (simp add: wl_inv_def wl_base_def settled_at_def storage_state_default_def)
next
  case (step s e)
  then show ?case by (simp add: wl_step_keeps)
next
  case (other s s')
  then show ?case by (simp add: same_locks_def wl_inv_def wl_base_def settled_at_def)
qed

section \<open>What a release does\<close>

text \<open>A release removes the request and then grants the compatible prefix of the queue, in the
  order of the queue, with one notification per grant.\<close>

lemma release_exact:
  assumes inv: "wl_inv s" and q: "web_lock_requests s i = Some q"
    and r: "web_locks s (wl_key q) = Some r"
  defines "reqs \<equiv> (web_lock_requests s)(i := None)"
  defines "g \<equiv> grant_prefix (shared_in reqs) (held (without_request i r)) (pending (without_request i r))"
  shows "release_web_lock i s =
    (map (granted_note reqs) g,
     put_resource (wl_key q)
       (r\<lparr>held := held (without_request i r) @ g, pending := drop (length g) (pending (without_request i r))\<rparr>)
       (s\<lparr>web_lock_requests := grant_all g reqs\<rparr>))"
proof -
  let ?k = "wl_key q" and ?u = "unlisted i (wl_key q) s"
  have base: "wl_base s" using inv by (simp add: wl_inv_def)
  have u: "web_locks ?u ?k = Some (without_request i r)" by (simp add: r)
  have ex: "\<forall>j\<in>set (pending (without_request i r)). web_lock_requests ?u j \<noteq> None"
    using resource_okD(5) [OF wl_baseD(1) [OF base r]] by fastforce
  have req: "web_lock_requests ?u = reqs" by (simp add: fun_eq_iff reqs_def)
  have put: "put_resource ?k r' (?u\<lparr>web_lock_requests := a\<rparr>) = put_resource ?k r' (s\<lparr>web_lock_requests := a\<rparr>)" for r' a
    by (simp add: put_resource_def unlisted_def)
  have res: "(without_request i r)\<lparr>held := hs, pending := ps\<rparr> = r\<lparr>held := hs, pending := ps\<rparr>" for hs ps
    by (simp add: without_request_def)
  have "release_web_lock i s = web_lock_advance ?k ?u []"
    unfolding release_web_lock_def by (rule web_lock_remove_request_eq [OF q])
  also have "\<dots> = (map (granted_note reqs) g, put_resource ?k
      ((without_request i r)\<lparr>held := held (without_request i r) @ g,
         pending := drop (length g) (pending (without_request i r))\<rparr>)
      (?u\<lparr>web_lock_requests := grant_all g reqs\<rparr>))"
    using web_lock_advance_eq [OF u refl ex, of "[]"] unfolding req g_def by simp
  finally show ?thesis unfolding put res .
qed

lemma wl_inv_pending:
  assumes "wl_inv s" "web_lock_requests s i = Some q" "wr_state q = WL_Pending"
  obtains r where "web_locks s (wl_key q) = Some r" "i \<in> set (pending r)" "held r \<noteq> []"
    "resource_ok (web_lock_requests s) (wl_key q) r"
proof -
  have base: "wl_base s" using assms(1) by (simp add: wl_inv_def)
  obtain r where r: "web_locks s (wl_key q) = Some r" "i \<in> set (pending r)"
    using wl_baseD(3) [OF base assms(2)] assms(3) by (auto simp: placed_def)
  have "held r \<noteq> []"
    using assms(1) r(1) unfolding wl_inv_def settled_at_def resource_settled_def by blast
  then show ?thesis by (rule that [OF r _ wl_baseD(1) [OF base r(1)]])
qed

text \<open>One release of a holder: a waiting request is granted, or it moves up.\<close>

definition waits_behind :: "StorageState \<Rightarrow> web_lock_key \<Rightarrow> nat \<Rightarrow> nat" where
  "waits_behind s k i =
     (case web_locks s k of
        None \<Rightarrow> 0
      | Some r \<Rightarrow> length (held r) + length (takeWhile (\<lambda>j. j \<noteq> i) (pending r)))"

lemma takeWhile_drop_prefix:
  assumes "x \<in> set ys" "x \<notin> set xs"
  shows "takeWhile (\<lambda>j. j \<noteq> x) (xs @ ys) = xs @ takeWhile (\<lambda>j. j \<noteq> x) ys"
  using assms by (subst takeWhile_append2) auto

lemma release_holder_progress:
  assumes inv: "wl_inv s" and q: "web_lock_requests s i = Some q" "wr_state q = WL_Pending"
    and r: "web_locks s (wl_key q) = Some r" and h: "h \<in> set (held r)"
    and s': "s' = snd (release_web_lock h s)"
  shows "web_lock_requests s' i = Some (q\<lparr>wr_state := WL_Granted\<rparr>)
    \<or> web_lock_requests s' i = Some q \<and> waits_behind s' (wl_key q) i < waits_behind s (wl_key q) i"
    and "web_lock_requests s' j = Some p \<Longrightarrow> \<exists>p'. web_lock_requests s j = Some p' \<and> wl_key p' = wl_key p"
proof -
  have base: "wl_base s" using inv by (simp add: wl_inv_def)
  note ok = resource_okD [OF wl_baseD(1) [OF base r]]
  obtain p where p: "web_lock_requests s h = Some p" "wl_key p = wl_key q" using ok(4) [OF h] by blast
  have i: "i \<in> set (pending r)"
    using wl_inv_pending [OF inv q] r by (metis option.inject)
  have neq: "i \<noteq> h" "h \<notin> set (pending r)" using i h ok(3) by auto
  define reqs where "reqs = (web_lock_requests s)(h := None)"
  define g where "g = grant_prefix (shared_in reqs) (held (without_request h r)) (pending r)"
  have pend: "filter (\<lambda>j. j \<noteq> h) (pending r) = pending r"
    by (rule filter_True) (use neq(2) in auto)
  have split: "pending r = g @ drop (length g) (pending r)"
    unfolding g_def by (simp add: grant_prefix_drop)
  have s'_eq: "s' = put_resource (wl_key q)
      (r\<lparr>held := held (without_request h r) @ g, pending := drop (length g) (pending r)\<rparr>)
      (s\<lparr>web_lock_requests := grant_all g reqs\<rparr>)"
    using release_exact [OF inv p(1)] r unfolding s' p(2) reqs_def g_def by (simp add: pend)
  have reqs': "web_lock_requests s' = grant_all g reqs" by (simp add: s'_eq put_resource_def)
  show "\<exists>p'. web_lock_requests s j = Some p' \<and> wl_key p' = wl_key p" if "web_lock_requests s' j = Some p" for p
    using that by (auto simp: reqs' grant_all_def reqs_def split: if_splits)
  show "web_lock_requests s' i = Some (q\<lparr>wr_state := WL_Granted\<rparr>)
    \<or> web_lock_requests s' i = Some q \<and> waits_behind s' (wl_key q) i < waits_behind s (wl_key q) i"
  proof (cases "i \<in> set g")
    case True
    then show ?thesis using q neq by (simp add: reqs' grant_all_def reqs_def)
  next
    case False
    have rest: "i \<in> set (drop (length g) (pending r))"
      using i False by (subst (asm) split) simp
    have "waits_behind s' (wl_key q) i =
      length (held (without_request h r)) + length g + length (takeWhile (\<lambda>j. j \<noteq> i) (drop (length g) (pending r)))"
      using rest by (auto simp: waits_behind_def s'_eq put_resource_def)
    also have "\<dots> = length (held (without_request h r)) + length (takeWhile (\<lambda>j. j \<noteq> i) (pending r))"
      using takeWhile_drop_prefix [OF rest False] split by simp
    also have "\<dots> < waits_behind s (wl_key q) i"
      using h length_filter_less [of h "held r" "\<lambda>j. j \<noteq> h"] by (simp add: waits_behind_def r)
    finally show ?thesis using q neq False by (simp add: reqs' grant_all_def reqs_def)
  qed
qed

definition release_all :: "nat list \<Rightarrow> StorageState \<Rightarrow> StorageState" where
  "release_all js s = fold (\<lambda>j s. snd (release_web_lock j s)) js s"

lemma release_keeps [keeps]: "wl_inv s \<Longrightarrow> wl_inv (snd (release_web_lock j s))"
  unfolding release_web_lock_def by (rule remove_request_keeps [OF _ prod.collapse [symmetric]])

lemma granted_in_turn:
  assumes "wl_inv s" "web_lock_requests s i = Some q" "wr_state q = WL_Pending"
  shows "\<exists>js. length js \<le> waits_behind s (wl_key q) i
    \<and> set js \<subseteq> {j. j \<noteq> i \<and> (\<exists>p. web_lock_requests s j = Some p \<and> wl_key p = wl_key q)}
    \<and> web_lock_requests (release_all js s) i = Some (q\<lparr>wr_state := WL_Granted\<rparr>)"
  using assms
proof (induction "waits_behind s (wl_key q) i" arbitrary: s rule: less_induct)
  case less
  obtain r h where r: "web_locks s (wl_key q) = Some r" "resource_ok (web_lock_requests s) (wl_key q) r"
      and i: "i \<in> set (pending r)" and h: "h \<in> set (held r)"
    by (rule wl_inv_pending [OF less.prems]) (use last_in_set in blast)
  define s' where "s' = snd (release_web_lock h s)"
  note prog = release_holder_progress [OF less.prems r(1) h s'_def]
  have hk: "h \<noteq> i" "\<exists>p. web_lock_requests s h = Some p \<and> wl_key p = wl_key q"
    using resource_okD(3,4) [OF r(2)] h i by auto
  have pos: "1 \<le> waits_behind s (wl_key q) i"
    using h r(1) by (cases "held r") (auto simp: waits_behind_def)
  from prog(1) consider "web_lock_requests s' i = Some (q\<lparr>wr_state := WL_Granted\<rparr>)"
    | "web_lock_requests s' i = Some q" "waits_behind s' (wl_key q) i < waits_behind s (wl_key q) i"
    by blast
  then show ?case
  proof cases
    case 1
    then show ?thesis
      using hk pos by (intro exI [of _ "[h]"]) (simp add: release_all_def s'_def)
  next
    case 2
    have "wl_inv s'" unfolding s'_def by (rule release_keeps [OF less.prems(1)])
    from less.hyps [OF 2(2) this 2(1) less.prems(3)] obtain js where js:
        "length js \<le> waits_behind s' (wl_key q) i"
        "set js \<subseteq> {j. j \<noteq> i \<and> (\<exists>p. web_lock_requests s' j = Some p \<and> wl_key p = wl_key q)}"
        "web_lock_requests (release_all js s') i = Some (q\<lparr>wr_state := WL_Granted\<rparr>)"
      by blast
    have "set (h # js) \<subseteq> {j. j \<noteq> i \<and> (\<exists>p. web_lock_requests s j = Some p \<and> wl_key p = wl_key q)}"
      using hk js(2) prog(2) by fastforce
    moreover have "web_lock_requests (release_all (h # js) s) i = Some (q\<lparr>wr_state := WL_Granted\<rparr>)"
      using js(3) by (simp add: release_all_def s'_def)
    moreover have "length (h # js) \<le> waits_behind s (wl_key q) i" using js(1) 2(2) by simp
    ultimately show ?thesis by blast
  qed
qed

section \<open>Removing a client\<close>

text \<open>What a removal may do to a request it does not remove: nothing, or grant it
  and notify its client.\<close>

definition moved_on :: "WebLockNotification list \<Rightarrow> nat \<Rightarrow> WebLockRequest \<Rightarrow> WebLockRequest \<Rightarrow> bool" where
  "moved_on ns j p p' \<longleftrightarrow>
     p' = p
   \<or> wr_state p = WL_Pending \<and> p' = p\<lparr>wr_state := WL_Granted\<rparr>
     \<and> \<lparr>wn_client_id = wr_client_id p, wn_request_id = j, wn_kind = NotifyGranted\<rparr> \<in> set ns"

lemma moved_on_trans:
  "moved_on ns j p p' \<Longrightarrow> moved_on ns' j p' p'' \<Longrightarrow> moved_on (ns @ ns') j p p''"
  by (auto simp: moved_on_def)

lemma moved_on_client: "moved_on ns j p p' \<Longrightarrow> wr_client_id p' = wr_client_id p"
  by (auto simp: moved_on_def)

lemma remove_request_others:
  assumes inv: "wl_inv s" and rm: "web_lock_remove_request i True s = (ns, s')"
  shows "web_lock_requests s' i = None"
    and "j \<noteq> i \<Longrightarrow> rel_option (moved_on ns j) (web_lock_requests s j) (web_lock_requests s' j)"
proof -
  have "web_lock_requests s' i = None
    \<and> (j \<noteq> i \<longrightarrow> rel_option (moved_on ns j) (web_lock_requests s j) (web_lock_requests s' j))"
  proof (cases "web_lock_requests s i")
    case None
    then show ?thesis
      using rm by (auto simp: web_lock_remove_request_def moved_on_def option.rel_refl)
  next
    case (Some q)
    show ?thesis
    proof (cases "web_locks s (wl_key q)")
      case None
      then have "web_lock_requests s' = (web_lock_requests s)(i := None)"
        using rm web_lock_remove_request_eq [OF Some]
        by (auto simp: web_lock_advance_None unlisted_def)
      then show ?thesis by (simp add: moved_on_def option.rel_refl)
    next
      case r: (Some r)
      define reqs where "reqs = (web_lock_requests s)(i := None)"
      define g where
        "g = grant_prefix (shared_in reqs) (held (without_request i r)) (pending (without_request i r))"
      have eq: "ns = map (granted_note reqs) g" "web_lock_requests s' = grant_all g reqs"
        using release_exact [OF inv Some r] rm
        by (auto simp: release_web_lock_def put_resource_def reqs_def g_def)
      have pend: "wr_state p = WL_Pending" if "j \<in> set g" "web_lock_requests s j = Some p" for p
      proof -
        have "j \<in> set (pending r)"
          using that(1) set_mono_prefix [OF grant_prefix_prefix] unfolding g_def by fastforce
        then show ?thesis
          using resource_okD(5) [OF wl_baseD(1), of s _ r j] inv r that(2) by (force simp: wl_inv_def)
      qed
      have sent: "\<lparr>wn_client_id = wr_client_id p, wn_request_id = j, wn_kind = NotifyGranted\<rparr> \<in> set ns"
        if "j \<in> set g" "j \<noteq> i" "web_lock_requests s j = Some p" for p
        using imageI [OF that(1), of "granted_note reqs"] that(2,3)
        by (simp add: eq granted_note_def reqs_def)
      show ?thesis
        using pend sent by (cases "web_lock_requests s j")
          (auto simp: eq(2) grant_all_def reqs_def moved_on_def)
    qed
  qed
  then show "web_lock_requests s' i = None"
    and "j \<noteq> i \<Longrightarrow> rel_option (moved_on ns j) (web_lock_requests s j) (web_lock_requests s' j)"
    by blast+
qed

lemma rel_option_trans_moved:
  assumes "rel_option (moved_on ns j) a b" "rel_option (moved_on ns' j) b c"
  shows "rel_option (moved_on (ns @ ns') j) a c"
  using assms by (cases a; cases b; cases c) (auto intro: moved_on_trans)

lemma remove_requests_others:
  assumes "wl_inv s" "remove_web_lock_requests is s ns = (ns', s')"
  shows "j \<in> set is \<or> web_lock_requests s j = None \<Longrightarrow> web_lock_requests s' j = None"
    and "j \<notin> set is \<Longrightarrow> \<exists>n. ns' = ns @ n \<and> rel_option (moved_on n j) (web_lock_requests s j) (web_lock_requests s' j)"
proof -
  have "(j \<in> set is \<or> web_lock_requests s j = None \<longrightarrow> web_lock_requests s' j = None)
    \<and> (j \<notin> set is \<longrightarrow>
        (\<exists>n. ns' = ns @ n \<and> rel_option (moved_on n j) (web_lock_requests s j) (web_lock_requests s' j)))"
    using assms
  proof (induction "is" arbitrary: s ns)
    case Nil
    then show ?case by (auto simp: moved_on_def option.rel_refl)
  next
    case (Cons i "is")
    obtain n1 s1 where rm: "web_lock_remove_request i True s = (n1, s1)" by fastforce
    have rest: "remove_web_lock_requests is s1 (ns @ n1) = (ns', s')"
      using Cons.prems(2) rm by simp
    note IH = Cons.IH [OF remove_request_keeps [OF Cons.prems(1) rm] rest]
    note oth = remove_request_others [OF Cons.prems(1) rm]
    have none: "web_lock_requests s1 j = None" if "web_lock_requests s j = None"
      using oth(1) oth(2) [of j] that by (cases "j = i") auto
    have "\<exists>n. ns' = ns @ n \<and> rel_option (moved_on n j) (web_lock_requests s j) (web_lock_requests s' j)"
      if "j \<notin> set (i # is)"
      using IH oth(2) [of j] that rel_option_trans_moved by fastforce
    then show ?case using IH none oth(1) by auto
  qed
  then show "j \<in> set is \<or> web_lock_requests s j = None \<Longrightarrow> web_lock_requests s' j = None"
    and "j \<notin> set is \<Longrightarrow> \<exists>n. ns' = ns @ n \<and> rel_option (moved_on n j) (web_lock_requests s j) (web_lock_requests s' j)"
    by blast+
qed

section \<open>A run\<close>

text \<open>Two clients share a lock and the first one asks for it exclusively.\<close>

definition demo_origin :: StorageOrigin where
  "demo_origin = \<lparr>so_scheme = ''https'', so_host = ''a.test'', so_port = 443\<rparr>"

definition demo_locks :: StorageState where
  "demo_locks =
     fold (\<lambda>e s. snd (wl_step e s))
       [WL_Request demo_origin 7 ''db'' WL_Shared False False,
        WL_Request demo_origin 8 ''db'' WL_Shared False False,
        WL_Request demo_origin 7 ''db'' WL_Exclusive False False]
       storage_state_default"

definition demo_lock_request :: "nat \<Rightarrow> WebLockMode \<Rightarrow> WebLockRequestState \<Rightarrow> WebLockRequest" where
  "demo_lock_request c mode st = new_request demo_origin c ''db'' mode st"

lemma demo_locks_eq:
  "demo_locks = storage_state_default\<lparr>
     web_locks := [(demo_origin, ''db'') \<mapsto> \<lparr>held = [1, 2], pending = [3]\<rparr>],
     web_lock_requests :=
       [1 \<mapsto> demo_lock_request 7 WL_Shared WL_Granted, 2 \<mapsto> demo_lock_request 8 WL_Shared WL_Granted,
        3 \<mapsto> demo_lock_request 7 WL_Exclusive WL_Pending],
     next_web_lock_request_id := 4\<rparr>"
  by (simp add: demo_locks_def request_web_lock_def web_lock_is_immediately_grantable_def
      resource_or_default_def set_request_state_def all_shared_def storage_state_default_def Let_def
      demo_lock_request_def new_request_def saturating_add_def u64_max_def)
    (simp add: numeral_2_eq_2 numeral_3_eq_3)

lemma demo_locks_sel [simp]:
  "web_lock_requests demo_locks =
     [1 \<mapsto> demo_lock_request 7 WL_Shared WL_Granted, 2 \<mapsto> demo_lock_request 8 WL_Shared WL_Granted,
      3 \<mapsto> demo_lock_request 7 WL_Exclusive WL_Pending]"
  "web_locks demo_locks = [(demo_origin, ''db'') \<mapsto> \<lparr>held = [1, 2], pending = [3]\<rparr>]"
  "next_web_lock_request_id demo_locks = 4"
  by (simp_all add: demo_locks_eq)

lemma demo_lock_request_sel [simp]:
  "wr_origin (demo_lock_request c m st) = demo_origin" "wr_name (demo_lock_request c m st) = ''db''"
  "wr_mode (demo_lock_request c m st) = m" "wr_client_id (demo_lock_request c m st) = c"
  "wr_state (demo_lock_request c m st) = st"
  by (simp_all add: demo_lock_request_def)

lemma demo_locks_reach: "wl_reach demo_locks"
proof -
  let ?e1 = "WL_Request demo_origin 7 ''db'' WL_Shared False False"
  let ?e2 = "WL_Request demo_origin 8 ''db'' WL_Shared False False"
  let ?e3 = "WL_Request demo_origin 7 ''db'' WL_Exclusive False False"
  let ?s1 = "snd (wl_step ?e1 storage_state_default)"
  let ?s2 = "snd (wl_step ?e2 ?s1)"
  have n1: "next_web_lock_request_id ?s1 = 2" and n2: "next_web_lock_request_id ?s2 = 3"
    by (simp_all add: request_web_lock_def web_lock_is_immediately_grantable_def
      resource_or_default_def set_request_state_def all_shared_def storage_state_default_def Let_def
      saturating_add_def u64_max_def)
  have "wl_reach ?s1"
    by (rule wl_reach.step [OF wl_reach.initial]) (simp add: storage_state_default_def u64_max_def)
  then have "wl_reach ?s2"
    by (rule wl_reach.step) (simp only: wl_allowed.simps n1, simp add: u64_max_def)
  then have "wl_reach (snd (wl_step ?e3 ?s2))"
    by (rule wl_reach.step) (simp only: wl_allowed.simps n2, simp add: u64_max_def)
  then show ?thesis by (simp add: demo_locks_def)
qed

section \<open>The properties\<close>

lemma holder_listed:
  assumes "wl_base s" "web_lock_requests s i = Some p" "wr_state p \<in> {WL_Granted, WL_Held}"
  shows "\<exists>r. web_locks s (wl_key p) = Some r \<and> i \<in> set (held r)"
  using wl_baseD(3) [OF assms(1,2)] assms(3) by (auto simp: placed_def)

lemma sorted_head: "sorted_wrt (<) (x # xs) \<Longrightarrow> y \<in> set (x # xs) \<Longrightarrow> x \<le> (y :: nat)"
  by auto

text \<open>
C20: In every reachable state of the lock manager a lock is exclusive: two requests that
  both hold the same lock (granted or held, same origin and name) are both shared.
\<close>

theorem web_locks_mutual_exclusion:
  assumes "wl_reach s"
    and "web_lock_requests s i = Some p" "web_lock_requests s j = Some q" "i \<noteq> j"
    and "wr_origin p = wr_origin q" "wr_name p = wr_name q"
    and "wr_state p \<in> {WL_Granted, WL_Held}" "wr_state q \<in> {WL_Granted, WL_Held}"
  shows "wr_mode p = WL_Shared \<and> wr_mode q = WL_Shared"
proof -
  have base: "wl_base s" using wl_reach_inv [OF assms(1)] by (simp add: wl_inv_def)
  obtain r where r: "web_locks s (wl_key p) = Some r" "i \<in> set (held r)" "j \<in> set (held r)"
    using holder_listed [OF base assms(2,7)] holder_listed [OF base assms(3,8)] assms(5,6) by auto
  then have "\<not> length (held r) \<le> 1"
    using \<open>i \<noteq> j\<close> by (cases "held r"; cases "tl (held r)") auto
  then have "shared_in (web_lock_requests s) i" "shared_in (web_lock_requests s) j"
    using resource_okD(6) [OF wl_baseD(1) [OF base r(1)]] r by blast+
  then show ?thesis using assms(2,3) by (simp add: shared_in_def)
qed

theorem web_locks_mutual_exclusion_witness:
  "web_lock_requests demo_locks 1 = Some (demo_lock_request 7 WL_Shared WL_Granted)
   \<and> web_lock_requests demo_locks 2 = Some (demo_lock_request 8 WL_Shared WL_Granted)
   \<and> wr_mode (demo_lock_request 7 WL_Shared WL_Granted) = WL_Shared"
  using web_locks_mutual_exclusion [OF demo_locks_reach, of 1 "demo_lock_request 7 WL_Shared WL_Granted"
      2 "demo_lock_request 8 WL_Shared WL_Granted"] by simp

text \<open>
C21: In every reachable state no grant is overdue: the oldest waiting request of a lock
  conflicts with a request that holds the lock at that moment.
\<close>

theorem web_locks_no_overdue_grant:
  assumes "wl_reach s"
    and "web_lock_requests s i = Some p" "wr_state p = WL_Pending"
    and oldest: "\<forall>j q. web_lock_requests s j = Some q \<and> wr_state q = WL_Pending
          \<and> wr_origin q = wr_origin p \<and> wr_name q = wr_name p \<longrightarrow> i \<le> j"
  shows "\<exists>h q. web_lock_requests s h = Some q \<and> wr_state q \<in> {WL_Granted, WL_Held}
      \<and> wr_origin q = wr_origin p \<and> wr_name q = wr_name p
      \<and> (wr_mode p = WL_Exclusive \<or> wr_mode q = WL_Exclusive)"
proof -
  have inv: "wl_inv s" by (rule wl_reach_inv [OF assms(1)])
  obtain r where r: "web_locks s (wl_key p) = Some r" "i \<in> set (pending r)" "held r \<noteq> []"
      "resource_ok (web_lock_requests s) (wl_key p) r"
    by (rule wl_inv_pending [OF inv assms(2,3)])
  note ok = resource_okD [OF r(4)]
  obtain x xs where x: "pending r = x # xs" using r(2) by (cases "pending r") auto
  have "x \<le> i" using ok(7) r(2) x sorted_head by metis
  moreover have "i \<le> x" using ok(5) [of x] oldest x by auto
  ultimately have "pending r = i # xs" using x by simp
  then have conf: "\<not> shared_in (web_lock_requests s) i \<or> (\<exists>h\<in>set (held r). \<not> shared_in (web_lock_requests s) h)"
    using inv r(1) unfolding wl_inv_def settled_at_def resource_settled_def by blast
  have mode: "m \<noteq> WL_Shared \<longleftrightarrow> m = WL_Exclusive" for m by (cases m) auto
  from conf obtain h where h: "h \<in> set (held r)"
      "\<not> shared_in (web_lock_requests s) i \<or> \<not> shared_in (web_lock_requests s) h"
    using last_in_set [OF r(3)] by blast
  obtain q where q: "web_lock_requests s h = Some q" "wl_key q = wl_key p"
      "wr_state q \<in> {WL_Granted, WL_Held}"
    using ok(4) [OF h(1)] by blast
  have "wr_mode p = WL_Exclusive \<or> wr_mode q = WL_Exclusive"
    using h(2) assms(2) q(1) by (simp add: shared_in_def mode)
  with q show ?thesis by auto
qed

theorem web_locks_no_overdue_grant_witness:
  "web_lock_requests demo_locks 3 = Some (demo_lock_request 7 WL_Exclusive WL_Pending)
   \<and> (\<exists>h q. web_lock_requests demo_locks h = Some q \<and> wr_state q \<in> {WL_Granted, WL_Held})"
  using web_locks_no_overdue_grant [OF demo_locks_reach, of 3 "demo_lock_request 7 WL_Exclusive WL_Pending"]
  by (auto split: if_splits)

text \<open>
Every waiting request is granted in its turn: from a reachable state there is a sequence
  of releases of other requests for the same lock, no longer than the number of requests
  that hold it or wait ahead, after which the request is granted.
\<close>

theorem web_lock_granted_in_turn:
  assumes "wl_reach s" "web_lock_requests s i = Some q" "wr_state q = WL_Pending"
  shows "\<exists>js. length js \<le> waits_behind s (wr_origin q, wr_name q) i
    \<and> set js \<subseteq> {j. j \<noteq> i \<and> (\<exists>p. web_lock_requests s j = Some p
                             \<and> wr_origin p = wr_origin q \<and> wr_name p = wr_name q)}
    \<and> web_lock_requests (release_all js s) i = Some (q\<lparr>wr_state := WL_Granted\<rparr>)"
  using granted_in_turn [OF wl_reach_inv [OF assms(1)] assms(2,3)] by simp

theorem web_lock_granted_in_turn_witness:
  "\<exists>js. length js \<le> 2 \<and> set js \<subseteq> {1, 2} \<and>
     web_lock_requests (release_all js demo_locks) 3 = Some (demo_lock_request 7 WL_Exclusive WL_Granted)"
proof -
  have "{j. j \<noteq> 3 \<and> (\<exists>p. web_lock_requests demo_locks j = Some p
      \<and> wr_origin p = demo_origin \<and> wr_name p = ''db'')} = {1, 2}"
    by (auto split: if_splits)
  then show ?thesis
    using web_lock_granted_in_turn [OF demo_locks_reach, of 3 "demo_lock_request 7 WL_Exclusive WL_Pending"]
    by (simp add: waits_behind_def) (simp add: demo_lock_request_def new_request_def numeral_2_eq_2)
qed

text \<open>
When a client goes away, whatever the order in which the request table is iterated, no
  request of the client is left, and a request of another client is untouched or has been
  granted with a notification to its client.
\<close>

theorem web_lock_client_removed:
  assumes "wl_reach s" "set iter = dom (web_lock_requests s)"
    and "remove_web_lock_client iter c s = (ns, s')"
    and "web_lock_requests s j = Some p"
  shows "if wr_client_id p = c then web_lock_requests s' j = None
    else web_lock_requests s' j = Some p
      \<or> wr_state p = WL_Pending \<and> web_lock_requests s' j = Some (p\<lparr>wr_state := WL_Granted\<rparr>)
        \<and> \<lparr>wn_client_id = wr_client_id p, wn_request_id = j, wn_kind = NotifyGranted\<rparr> \<in> set ns"
proof -
  let ?ids = "filter (\<lambda>i. case web_lock_requests s i of
      Some request \<Rightarrow> wr_client_id request = c | None \<Rightarrow> False) iter"
  have rm: "remove_web_lock_requests ?ids s [] = (ns, s')"
    using assms(3) by (simp add: remove_web_lock_client_def Let_def)
  note oth = remove_requests_others [OF wl_reach_inv [OF assms(1)] rm, of j]
  have ids: "j \<in> set ?ids \<longleftrightarrow> wr_client_id p = c" using assms(2,4) by auto
  show ?thesis
    using oth unfolding ids assms(4) by (auto simp: option_rel_Some1 moved_on_def)
qed

theorem web_lock_client_removed_witness:
  "\<exists>ns s'. remove_web_lock_client [3, 1, 2] 8 demo_locks = (ns, s')
     \<and> web_lock_requests s' 2 = None"
proof -
  obtain ns s' where rm: "remove_web_lock_client [3, 1, 2] 8 demo_locks = (ns, s')" by fastforce
  have "set [3, 1, 2] = dom (web_lock_requests demo_locks)" by (auto simp: dom_def)
  from web_lock_client_removed [OF demo_locks_reach this rm, of 2 "demo_lock_request 8 WL_Shared WL_Granted"] rm
  show ?thesis by simp
qed

end
