(* ===== verification/Opfs.thy ===== *)
theory Opfs
  imports StorageState "HOL-Library.AList" "HOL-Library.List_Lexorder" "HOL-Library.Char_ord"
begin

text \<open>
  The origin-private file system of \<open>src/js/storage.rs\<close>: one directory tree per origin,
  with file locks, a quota on writes and, for a durable profile, a file that every
  change is saved to before it counts.  The operations of the manager take the profile's
  file system and the faults of the one save they may run, and return them with the
  manager's state; JSON encoding (crate \<open>serde_json\<close>) is a parameter.
\<close>

section \<open>The profile's files\<close>

text \<open>What may go wrong while a file is replaced: the directory cannot be created, the write of
  the temporary file fails leaving some bytes behind, or the rename fails.\<close>

type_synonym profile_fs = "string \<rightharpoonup> u8 list"

record io_faults =
  fail_create_dir :: bool
  fail_write :: "u8 list option"
  fail_rename :: bool

record json_crate =
  json_string_field :: "string \<Rightarrow> string \<Rightarrow> string option"
  json_strings_to_vec :: "string list \<Rightarrow> (string + u8 list)"
  json_strings_from_slice :: "u8 list \<Rightarrow> string + string list"
  json_opfs_to_vec :: "(string \<rightharpoonup> OpfsDirectory) \<Rightarrow> string + u8 list"
  json_opfs_from_slice :: "u8 list \<Rightarrow> string + (string \<rightharpoonup> OpfsDirectory)"

text \<open>\<open>Path::with_extension\<close> and \<open>Path::with_file_name\<close> on a path that ends in a file name.\<close>

definition split_file_name :: "string \<Rightarrow> string \<times> string" where
  "split_file_name path =
     (let file = rev (takeWhile (\<lambda>c. c \<noteq> CHR ''/'') (rev path))
      in (take (length path - length file) path, file))"

definition file_stem :: "string \<Rightarrow> string" where
  "file_stem file =
     (let rest = dropWhile (\<lambda>c. c \<noteq> CHR ''.'') (rev file)
      in if length rest \<le> 1 then file else rev (tl rest))"

definition with_extension :: "string \<Rightarrow> string \<Rightarrow> string" where
  "with_extension path ext =
     (let (dir, file) = split_file_name path
      in if file \<in> {'''', ''..''} then path else dir @ file_stem file @ ''.'' @ ext)"

definition with_file_name :: "string \<Rightarrow> string \<Rightarrow> string" where
  "with_file_name path name = fst (split_file_name path) @ name"

text \<open>The common tail of the two savers: create the directory, write the temporary file, rename
  it over the target.\<close>

definition replace_file ::
  "string \<Rightarrow> string \<Rightarrow> u8 list \<Rightarrow> io_faults \<Rightarrow> profile_fs \<Rightarrow> bool \<times> profile_fs" where
  "replace_file path temporary bytes io fs =
     (if fail_create_dir io then (False, fs)
      else case fail_write io of
        Some junk \<Rightarrow> (False, fs(temporary \<mapsto> junk))
      | None \<Rightarrow>
          let fs' = fs(temporary \<mapsto> bytes)
          in if fail_rename io then (False, fs')
             else (True, (fs'(temporary := None))(path \<mapsto> bytes)))"

definition save_opfs ::
  "json_crate \<Rightarrow> string \<Rightarrow> (string \<rightharpoonup> OpfsDirectory) \<Rightarrow> io_faults \<Rightarrow> profile_fs \<Rightarrow> bool \<times> profile_fs" where
  "save_opfs js path tree io fs =
     (case json_opfs_to_vec js tree of
        Inl _ \<Rightarrow> (False, fs)
      | Inr bytes \<Rightarrow> replace_file path (with_extension path ''json.tmp'') bytes io fs)"

text \<open>A missing file is an empty file system; \<open>fs_read\<close> is a read that does not fail otherwise.\<close>

definition load_opfs :: "json_crate \<Rightarrow> string \<Rightarrow> profile_fs \<Rightarrow> string + (string \<rightharpoonup> OpfsDirectory)" where
  "load_opfs js path fs =
     (case fs path of
        Some bytes \<Rightarrow> json_opfs_from_slice js bytes
      | None \<Rightarrow> Inr Map.empty)"

type_synonym profile = "profile_fs \<times> StorageState"

definition persist_opfs_or_restore ::
  "json_crate \<Rightarrow> io_faults \<Rightarrow> profile \<Rightarrow> (string \<rightharpoonup> OpfsDirectory) \<Rightarrow> (OpfsError + unit) \<times> profile" where
  "persist_opfs_or_restore js io w old =
     (let (fs, s) = w in
      case opfs_path s of
        None \<Rightarrow> (Inr (), (fs, s))
      | Some path \<Rightarrow>
          (case save_opfs js path (opfs s) io fs of
             (False, fs') \<Rightarrow> (Inl OpfsIo, (fs', s\<lparr>opfs := old\<rparr>))
           | (True, fs') \<Rightarrow> (Inr (), (fs', s))))"

section \<open>Directories\<close>

definition validate_opfs_name :: "string \<Rightarrow> OpfsError + unit" where
  "validate_opfs_name name =
     (if name = [] \<or> name = ''.'' \<or> name = ''..'' \<or> CHR ''/'' \<in> set name \<or> CHR 0x5C \<in> set name
      then Inl InvalidName else Inr ())"

fun opfs_directory :: "OpfsDirectory \<Rightarrow> string list \<Rightarrow> OpfsError + OpfsDirectory" where
  "opfs_directory d [] = Inr d"
| "opfs_directory d (name # path) =
     (case map_of (dir_entries d) name of
        Some (Directory next) \<Rightarrow> opfs_directory next path
      | Some _ \<Rightarrow> Inl TypeMismatch
      | None \<Rightarrow> Inl NotFound)"

text \<open>\<open>opfs_directory_mut\<close> gives a mutable reference: \<open>use\<close> is what the caller does with the
  entries of the directory it leads to.\<close>

fun opfs_directory_mut ::
  "OpfsDirectory \<Rightarrow> string list \<Rightarrow>
   ((string \<times> OpfsEntry) list \<Rightarrow> OpfsError + 'a \<times> (string \<times> OpfsEntry) list) \<Rightarrow>
   OpfsError + 'a \<times> OpfsDirectory" where
  "opfs_directory_mut d [] use =
     rbind (use (dir_entries d)) (\<lambda>(a, es). Inr (a, OpfsDirectory es))"
| "opfs_directory_mut d (name # path) use =
     (case map_of (dir_entries d) name of
        Some (Directory next) \<Rightarrow>
          rbind (opfs_directory_mut next path use)
            (\<lambda>(a, next'). Inr (a, OpfsDirectory (AList.update name (Directory next') (dir_entries d))))
      | Some _ \<Rightarrow> Inl TypeMismatch
      | None \<Rightarrow> Inl NotFound)"

fun opfs_directory_usage :: "OpfsDirectory \<Rightarrow> nat" and opfs_entry_usage :: "OpfsEntry \<Rightarrow> nat" where
  "opfs_directory_usage (OpfsDirectory es) =
     foldl (\<lambda>usage (name, entry).
       saturating_add (saturating_add usage (length name)) (opfs_entry_usage entry)) 0 es"
| "opfs_entry_usage (Directory d) = opfs_directory_usage d"
| "opfs_entry_usage (File f) = length (file_bytes f)"

definition split_last :: "'a list \<Rightarrow> ('a \<times> 'a list) option" where
  "split_last xs = (if xs = [] then None else Some (last xs, butlast xs))"

section \<open>Operations\<close>

definition opfs_get_handle ::
  "json_crate \<Rightarrow> StorageOrigin \<Rightarrow> string list \<Rightarrow> string \<Rightarrow> bool \<Rightarrow> bool \<Rightarrow> io_faults \<Rightarrow> profile \<Rightarrow>
   (OpfsError + unit) \<times> profile" where
  "opfs_get_handle js origin parent name directory create io w =
     (case validate_opfs_name name of
        Inl e \<Rightarrow> (Inl e, w)
      | Inr _ \<Rightarrow>
          let (fs, s) = w;
              old = opfs s;
              key = storage_origin_serialize origin;
              root = (case opfs s key of Some d \<Rightarrow> d | None \<Rightarrow> OpfsDirectory []);
              s1 = s\<lparr>opfs := (opfs s)(key \<mapsto> root)\<rparr>;
              use = (\<lambda>es. case map_of es name of
                       Some (Directory _) \<Rightarrow> if directory then Inr (False, es) else Inl TypeMismatch
                     | Some (File _) \<Rightarrow> if \<not> directory then Inr (False, es) else Inl TypeMismatch
                     | None \<Rightarrow>
                         if \<not> create then Inl NotFound
                         else Inr (True, AList.update name
                                (if directory then Directory (OpfsDirectory [])
                                 else File \<lparr>file_bytes = [], file_modified = 0\<rparr>) es))
          in case opfs_directory_mut root parent use of
               Inl e \<Rightarrow> (Inl e, (fs, s1))
             | Inr (created, root') \<Rightarrow>
                 if \<not> created then (Inr (), (fs, s1))
                 else persist_opfs_or_restore js io
                        (fs, s1\<lparr>opfs := (opfs s1)(key \<mapsto> root')\<rparr>) old)"

definition opfs_root ::
  "json_crate \<Rightarrow> StorageOrigin \<Rightarrow> io_faults \<Rightarrow> profile \<Rightarrow> (OpfsError + unit) \<times> profile" where
  "opfs_root js origin io w =
     (let (fs, s) = w; key = storage_origin_serialize origin
      in if opfs s key \<noteq> None then (Inr (), (fs, s))
         else persist_opfs_or_restore js io
                (fs, s\<lparr>opfs := (opfs s)(key \<mapsto> OpfsDirectory [])\<rparr>) (opfs s))"

definition opfs_list ::
  "StorageOrigin \<Rightarrow> string list \<Rightarrow> StorageState \<Rightarrow> OpfsError + (string \<times> string) list" where
  "opfs_list origin path s =
     (case opfs s (storage_origin_serialize origin) of
        None \<Rightarrow> Inl NotFound
      | Some root \<Rightarrow>
          rbind (opfs_directory root path) (\<lambda>d.
            Inr (sort_key fst (map (\<lambda>(name, entry).
              (name, case entry of Directory _ \<Rightarrow> ''directory'' | File _ \<Rightarrow> ''file'')) (dir_entries d)))))"

definition opfs_file ::
  "StorageOrigin \<Rightarrow> string list \<Rightarrow> StorageState \<Rightarrow> OpfsError + OpfsFile" where
  "opfs_file origin path s =
     (case split_last path of
        None \<Rightarrow> Inl TypeMismatch
      | Some (name, parent) \<Rightarrow>
          (case opfs s (storage_origin_serialize origin) of
             None \<Rightarrow> Inl NotFound
           | Some root \<Rightarrow>
               rbind (opfs_directory root parent) (\<lambda>d.
                 case map_of (dir_entries d) name of
                   Some (File file) \<Rightarrow> Inr file
                 | Some _ \<Rightarrow> Inl TypeMismatch
                 | None \<Rightarrow> Inl NotFound)))"

definition opfs_write ::
  "json_crate \<Rightarrow> StorageOrigin \<Rightarrow> string list \<Rightarrow> u8 list \<Rightarrow> nat \<Rightarrow> io_faults \<Rightarrow> profile \<Rightarrow>
   (OpfsError + unit) \<times> profile" where
  "opfs_write js origin path bytes modified io w =
     (let (fs, s) = w;
          old = opfs s;
          key = storage_origin_serialize origin
      in case opfs s key of
           None \<Rightarrow> (Inl NotFound, (fs, s))
         | Some root \<Rightarrow>
             (case split_last path of
                None \<Rightarrow> (Inl TypeMismatch, (fs, s))
              | Some (name, parent) \<Rightarrow>
                  (case opfs_directory_mut root parent (\<lambda>es.
                          case map_of es name of
                            Some (File _) \<Rightarrow>
                              Inr ((), AList.update name
                                (File \<lparr>file_bytes = bytes, file_modified = modified\<rparr>) es)
                          | Some _ \<Rightarrow> Inl TypeMismatch
                          | None \<Rightarrow> Inl NotFound) of
                     Inl e \<Rightarrow> (Inl e, (fs, s))
                   | Inr (_, root') \<Rightarrow>
                       let s1 = s\<lparr>opfs := (opfs s)(key \<mapsto> root')\<rparr>
                       in if opfs_directory_usage root' > quota_bytes s1
                          then (Inl QuotaExceeded, (fs, s1\<lparr>opfs := old\<rparr>))
                          else persist_opfs_or_restore js io (fs, s1) old)))"

definition opfs_path_has_lock :: "StorageState \<Rightarrow> StorageOrigin \<Rightarrow> string list \<Rightarrow> bool" where
  "opfs_path_has_lock s origin path \<longleftrightarrow>
     list_ex (\<lambda>((lock_origin, locked), _).
       lock_origin = origin \<and> length path \<le> length locked
       \<and> list_all (\<lambda>(l, r). l = r) (zip path locked)) (opfs_locks s)"

definition opfs_acquire_lock ::
  "nat \<Rightarrow> StorageOrigin \<Rightarrow> string list \<Rightarrow> OpfsLockMode \<Rightarrow> StorageState \<Rightarrow>
   (OpfsError + nat) \<times> StorageState" where
  "opfs_acquire_lock owner origin path mode s =
     (let key = (origin, path);
          locks = map_of (opfs_locks s) key;
          compatible = (mode = Siloed
            \<and> (case locks of None \<Rightarrow> True | Some ls \<Rightarrow> list_all (\<lambda>l. ol_mode l = Siloed) ls))
      in if locks \<noteq> None \<and> \<not> compatible then (Inl Locked, s)
         else
           let lock_id = next_opfs_lock_id s
           in (Inr lock_id,
               s\<lparr>next_opfs_lock_id := saturating_add lock_id 1,
                 opfs_locks := AList.update key
                   ((case locks of None \<Rightarrow> [] | Some ls \<Rightarrow> ls)
                      @ [\<lparr>ol_id = lock_id, ol_owner = owner, ol_mode = mode\<rparr>])
                   (opfs_locks s)\<rparr>))"

definition retain_locks :: "(OpfsLock \<Rightarrow> bool) \<Rightarrow> StorageState \<Rightarrow> StorageState" where
  "retain_locks keep s =
     s\<lparr>opfs_locks := filter (\<lambda>(_, ls). ls \<noteq> []) (map (\<lambda>(k, ls). (k, filter keep ls)) (opfs_locks s))\<rparr>"

definition opfs_release_lock :: "nat \<Rightarrow> StorageState \<Rightarrow> StorageState" where
  "opfs_release_lock lock_id s = retain_locks (\<lambda>l. ol_id l \<noteq> lock_id) s"

definition opfs_release_document_locks :: "nat \<Rightarrow> StorageState \<Rightarrow> StorageState" where
  "opfs_release_document_locks owner s = retain_locks (\<lambda>l. ol_owner l \<noteq> owner) s"

definition opfs_remove ::
  "json_crate \<Rightarrow> StorageOrigin \<Rightarrow> string list \<Rightarrow> string \<Rightarrow> bool \<Rightarrow> io_faults \<Rightarrow> profile \<Rightarrow>
   (OpfsError + unit) \<times> profile" where
  "opfs_remove js origin parent name recursive io w =
     (case validate_opfs_name name of
        Inl e \<Rightarrow> (Inl e, w)
      | Inr _ \<Rightarrow>
          let (fs, s) = w; key = storage_origin_serialize origin
          in if opfs_path_has_lock s origin (parent @ [name]) then (Inl Locked, w)
             else case opfs s key of
                    None \<Rightarrow> (Inl NotFound, w)
                  | Some root \<Rightarrow>
                      (case opfs_directory_mut root parent (\<lambda>es.
                              case map_of es name of
                                None \<Rightarrow> Inl NotFound
                              | Some entry \<Rightarrow>
                                  if \<not> recursive
                                     \<and> (case entry of Directory d \<Rightarrow> dir_entries d \<noteq> [] | File _ \<Rightarrow> False)
                                  then Inl NotEmpty
                                  else Inr ((), AList.delete name es)) of
                         Inl e \<Rightarrow> (Inl e, w)
                       | Inr (_, root') \<Rightarrow>
                           persist_opfs_or_restore js io
                             (fs, s\<lparr>opfs := (opfs s)(key \<mapsto> root')\<rparr>) (opfs s)))"

text \<open>The source is taken out before the destination is looked up: when the destination's
  directory is not found, the function returns with the source gone.\<close>

definition opfs_move_file ::
  "json_crate \<Rightarrow> StorageOrigin \<Rightarrow> string list \<Rightarrow> string list \<Rightarrow> string \<Rightarrow> io_faults \<Rightarrow> profile \<Rightarrow>
   (OpfsError + unit) \<times> profile" where
  "opfs_move_file js origin source destination_parent destination_name io w =
     (case validate_opfs_name destination_name of
        Inl e \<Rightarrow> (Inl e, w)
      | Inr _ \<Rightarrow>
          let (fs, s) = w; key = storage_origin_serialize origin; old = opfs s
          in if opfs_path_has_lock s origin source
                \<or> opfs_path_has_lock s origin (destination_parent @ [destination_name])
             then (Inl Locked, w)
             else case opfs s key of
                    None \<Rightarrow> (Inl NotFound, w)
                  | Some root \<Rightarrow>
                      (case split_last source of
                         None \<Rightarrow> (Inl TypeMismatch, w)
                       | Some (source_name, source_parent) \<Rightarrow>
                           (case opfs_directory_mut root source_parent (\<lambda>es.
                                   case map_of es source_name of
                                     None \<Rightarrow> Inl NotFound
                                   | Some entry \<Rightarrow> Inr (entry, AList.delete source_name es)) of
                              Inl e \<Rightarrow> (Inl e, w)
                            | Inr (Directory _, root1) \<Rightarrow>
                                (Inl TypeMismatch, (fs, s\<lparr>opfs := old\<rparr>))
                            | Inr (File file, root1) \<Rightarrow>
                                (case opfs_directory_mut root1 destination_parent (\<lambda>es.
                                        Inr ((), AList.update destination_name (File file) es)) of
                                   Inl e \<Rightarrow> (Inl e, (fs, s\<lparr>opfs := (opfs s)(key \<mapsto> root1)\<rparr>))
                                 | Inr (_, root2) \<Rightarrow>
                                     persist_opfs_or_restore js io
                                       (fs, s\<lparr>opfs := (opfs s)(key \<mapsto> root2)\<rparr>) old))))"

end
