(* ===== verification/WebStorage.thy ===== *)
theory WebStorage
  imports Opfs
begin

text \<open>
  The rest of the storage manager of \<open>src/js/storage.rs\<close>: the local and session storage areas,
  Cache Storage, the visited-link history, the persistence grants and the usage estimate.
\<close>

section \<open>Storage areas\<close>

definition area_get :: "StorageArea \<Rightarrow> string \<Rightarrow> string option" where
  "area_get area key = map_option snd (List.find (\<lambda>(name, _). name = key) (entries area))"

text \<open>\<open>set\<close> replaces the value of the first entry with the key in place, or appends one;
  \<open>remove\<close> takes out the first entry with the key.\<close>

fun set_entry :: "string \<Rightarrow> string \<Rightarrow> (string \<times> string) list \<Rightarrow> string option \<times> (string \<times> string) list" where
  "set_entry key v [] = (None, [(key, v)])"
| "set_entry key v ((name, current) # es) =
     (if name = key then (Some current, (name, v) # es)
      else let (old, es') = set_entry key v es in (old, (name, current) # es'))"

definition area_set :: "StorageArea \<Rightarrow> string \<Rightarrow> string \<Rightarrow> string option \<times> StorageArea" where
  "area_set area key v =
     (let (old, es) = set_entry key v (entries area) in (old, area\<lparr>entries := es\<rparr>))"

fun remove_entry :: "string \<Rightarrow> (string \<times> string) list \<Rightarrow> string option \<times> (string \<times> string) list" where
  "remove_entry key [] = (None, [])"
| "remove_entry key ((name, current) # es) =
     (if name = key then (Some current, es)
      else let (old, es') = remove_entry key es in (old, (name, current) # es'))"

definition area_remove :: "StorageArea \<Rightarrow> string \<Rightarrow> string option \<times> StorageArea" where
  "area_remove area key =
     (let (old, es) = remove_entry key (entries area) in (old, area\<lparr>entries := es\<rparr>))"

definition empty_area :: StorageArea where
  "empty_area = \<lparr>entries = []\<rparr>"

text \<open>\<open>with_area\<close> and \<open>with_area_mut\<close>: a missing area reads as absent and is created by a use
  that may change it.\<close>

definition with_area ::
  "nat \<Rightarrow> StorageOrigin \<Rightarrow> bool \<Rightarrow> (StorageArea option \<Rightarrow> 'r) \<Rightarrow> StorageState \<Rightarrow> 'r" where
  "with_area session_id origin local operation s =
     operation (if local then local_areas s origin else session_areas s (session_id, origin))"

definition with_area_mut ::
  "nat \<Rightarrow> StorageOrigin \<Rightarrow> bool \<Rightarrow> (StorageArea \<Rightarrow> 'r \<times> StorageArea) \<Rightarrow> StorageState \<Rightarrow>
   'r \<times> StorageState" where
  "with_area_mut session_id origin local operation s =
     (if local then
        let (r, area) = operation (case local_areas s origin of Some a \<Rightarrow> a | None \<Rightarrow> empty_area)
        in (r, s\<lparr>local_areas := (local_areas s)(origin \<mapsto> area)\<rparr>)
      else
        let (r, area) = operation (case session_areas s (session_id, origin) of Some a \<Rightarrow> a | None \<Rightarrow> empty_area)
        in (r, s\<lparr>session_areas := (session_areas s)((session_id, origin) \<mapsto> area)\<rparr>))"

definition storage_length :: "nat \<Rightarrow> StorageOrigin \<Rightarrow> bool \<Rightarrow> StorageState \<Rightarrow> nat" where
  "storage_length session origin local s =
     with_area session origin local
       (\<lambda>area. case area of Some a \<Rightarrow> length (entries a) | None \<Rightarrow> 0) s"

definition storage_key :: "nat \<Rightarrow> StorageOrigin \<Rightarrow> bool \<Rightarrow> nat \<Rightarrow> StorageState \<Rightarrow> string option" where
  "storage_key session origin local index s =
     with_area session origin local
       (\<lambda>area. case area of
          Some a \<Rightarrow> if index < length (entries a) then Some (fst (entries a ! index)) else None
        | None \<Rightarrow> None) s"

definition storage_get :: "nat \<Rightarrow> StorageOrigin \<Rightarrow> bool \<Rightarrow> string \<Rightarrow> StorageState \<Rightarrow> string option" where
  "storage_get session origin local key s =
     with_area session origin local
       (\<lambda>area. case area of Some a \<Rightarrow> area_get a key | None \<Rightarrow> None) s"

definition storage_set ::
  "nat \<Rightarrow> StorageOrigin \<Rightarrow> bool \<Rightarrow> string \<Rightarrow> string \<Rightarrow> StorageState \<Rightarrow> string option \<times> StorageState" where
  "storage_set session origin local key v s =
     with_area_mut session origin local (\<lambda>a. area_set a key v) s"

definition storage_remove ::
  "nat \<Rightarrow> StorageOrigin \<Rightarrow> bool \<Rightarrow> string \<Rightarrow> StorageState \<Rightarrow> string option \<times> StorageState" where
  "storage_remove session origin local key s =
     with_area_mut session origin local (\<lambda>a. area_remove a key) s"

definition storage_clear :: "nat \<Rightarrow> StorageOrigin \<Rightarrow> bool \<Rightarrow> StorageState \<Rightarrow> bool \<times> StorageState" where
  "storage_clear session origin local s =
     with_area_mut session origin local (\<lambda>a. (entries a \<noteq> [], a\<lparr>entries := []\<rparr>)) s"

definition create_session :: "StorageState \<Rightarrow> nat \<times> StorageState" where
  "create_session s =
     (let n = saturating_add (next_session_id s) 1 in (n, s\<lparr>next_session_id := n\<rparr>))"

definition remove_session :: "nat \<Rightarrow> StorageState \<Rightarrow> StorageState" where
  "remove_session session_id s =
     s\<lparr>session_areas := (\<lambda>(session, origin).
        if session \<noteq> session_id then session_areas s (session, origin) else None)\<rparr>"

section \<open>Cache Storage\<close>

text \<open>\<open>iter_mut().find(name)\<close>: the first cache with the name, updated in place.\<close>

fun update_cache ::
  "string \<Rightarrow> (CacheNamespace \<Rightarrow> CacheNamespace) \<Rightarrow> CacheNamespace list \<Rightarrow> CacheNamespace list" where
  "update_cache name f [] = []"
| "update_cache name f (c # cs) = (if cn_name c = name then f c # cs else c # update_cache name f cs)"

fun remove_first :: "('a \<Rightarrow> bool) \<Rightarrow> 'a list \<Rightarrow> 'a list" where
  "remove_first P [] = []"
| "remove_first P (x # xs) = (if P x then xs else x # remove_first P xs)"

definition cache_open :: "StorageOrigin \<Rightarrow> string \<Rightarrow> StorageState \<Rightarrow> bool \<times> StorageState" where
  "cache_open origin name s =
     (let storage = (case caches s origin of Some a \<Rightarrow> a | None \<Rightarrow> \<lparr>cs_caches = []\<rparr>)
      in if list_ex (\<lambda>c. cn_name c = name) (cs_caches storage)
         then (False, s\<lparr>caches := (caches s)(origin \<mapsto> storage)\<rparr>)
         else (True, s\<lparr>caches := (caches s)(origin \<mapsto> storage\<lparr>cs_caches :=
                 cs_caches storage @ [\<lparr>cn_name = name, cn_entries = []\<rparr>]\<rparr>)\<rparr>))"

definition cache_has :: "StorageOrigin \<Rightarrow> string \<Rightarrow> StorageState \<Rightarrow> bool" where
  "cache_has origin name s \<longleftrightarrow>
     (case caches s origin of
        Some storage \<Rightarrow> list_ex (\<lambda>c. cn_name c = name) (cs_caches storage)
      | None \<Rightarrow> False)"

definition cache_names :: "StorageOrigin \<Rightarrow> StorageState \<Rightarrow> string list" where
  "cache_names origin s =
     (case caches s origin of Some storage \<Rightarrow> map cn_name (cs_caches storage) | None \<Rightarrow> [])"

definition cache_delete :: "StorageOrigin \<Rightarrow> string \<Rightarrow> StorageState \<Rightarrow> bool \<times> StorageState" where
  "cache_delete origin name s =
     (case caches s origin of
        None \<Rightarrow> (False, s)
      | Some storage \<Rightarrow>
          if \<not> list_ex (\<lambda>c. cn_name c = name) (cs_caches storage) then (False, s)
          else (True, s\<lparr>caches := (caches s)(origin \<mapsto>
                 storage\<lparr>cs_caches := remove_first (\<lambda>c. cn_name c = name) (cs_caches storage)\<rparr>)\<rparr>))"

definition find_cache :: "StorageOrigin \<Rightarrow> string \<Rightarrow> StorageState \<Rightarrow> CacheNamespace option" where
  "find_cache origin name s =
     (case caches s origin of
        None \<Rightarrow> None
      | Some storage \<Rightarrow> List.find (\<lambda>c. cn_name c = name) (cs_caches storage))"

definition cache_entries :: "StorageOrigin \<Rightarrow> string \<Rightarrow> StorageState \<Rightarrow> CacheEntrySnapshot list option" where
  "cache_entries origin name s = map_option cn_entries (find_cache origin name s)"

text \<open>The URL without its fragment and the upper-case method of a request snapshot, or two empty
  strings when the snapshot does not have them.\<close>

definition cache_request_replacement_key :: "json_crate \<Rightarrow> string \<Rightarrow> string \<times> string" where
  "cache_request_replacement_key js request =
     (case json_string_field js request ''url'' of
        None \<Rightarrow> ([], [])
      | Some url \<Rightarrow>
          let canonical_url = (case split_once (CHR 0x23) url of None \<Rightarrow> url | Some (u, _) \<Rightarrow> u)
          in (case json_string_field js request ''method'' of
                None \<Rightarrow> ([], [])
              | Some m \<Rightarrow> (canonical_url, to_ascii_uppercase m)))"

fun replace_cache_entry ::
  "(CacheEntrySnapshot \<Rightarrow> bool) \<Rightarrow> string \<Rightarrow> string \<Rightarrow> CacheEntrySnapshot list \<Rightarrow> CacheEntrySnapshot list" where
  "replace_cache_entry P req resp [] = []"
| "replace_cache_entry P req resp (e # es) =
     (if P e then e\<lparr>ce_request := req, ce_response := resp\<rparr> # es
      else e # replace_cache_entry P req resp es)"

definition update_caches ::
  "StorageOrigin \<Rightarrow> string \<Rightarrow> (CacheEntrySnapshot list \<Rightarrow> CacheEntrySnapshot list) \<Rightarrow> StorageState \<Rightarrow> StorageState" where
  "update_caches origin name f s =
     (case caches s origin of
        None \<Rightarrow> s
      | Some storage \<Rightarrow>
          s\<lparr>caches := (caches s)(origin \<mapsto>
             storage\<lparr>cs_caches := update_cache name (\<lambda>c. c\<lparr>cn_entries := f (cn_entries c)\<rparr>) (cs_caches storage)\<rparr>)\<rparr>)"

definition cache_put ::
  "json_crate \<Rightarrow> StorageOrigin \<Rightarrow> string \<Rightarrow> string \<Rightarrow> string \<Rightarrow> StorageState \<Rightarrow> nat option \<times> StorageState" where
  "cache_put js origin name request response s =
     (let request_key = cache_request_replacement_key js request;
          same = (\<lambda>e. cache_request_replacement_key js (ce_request e) = request_key)
      in case find_cache origin name s of
           None \<Rightarrow> (None, s)
         | Some cache \<Rightarrow>
             (case (if fst request_key = [] \<and> snd request_key = [] then None
                    else List.find same (cn_entries cache)) of
                Some existing \<Rightarrow>
                  (Some (ce_id existing),
                   update_caches origin name (replace_cache_entry same request response) s)
              | None \<Rightarrow>
                  let entry_id = saturating_add (next_cache_entry_id s) 1;
                      s1 = s\<lparr>next_cache_entry_id := entry_id\<rparr>
                  in (Some entry_id,
                      update_caches origin name
                        (\<lambda>es. es @ [\<lparr>ce_id = entry_id, ce_request = request, ce_response = response\<rparr>]) s1)))"

definition cache_delete_entry :: "StorageOrigin \<Rightarrow> string \<Rightarrow> nat \<Rightarrow> StorageState \<Rightarrow> bool \<times> StorageState" where
  "cache_delete_entry origin name entry_id s =
     (case find_cache origin name s of
        None \<Rightarrow> (False, s)
      | Some cache \<Rightarrow>
          if \<not> list_ex (\<lambda>e. ce_id e = entry_id) (cn_entries cache) then (False, s)
          else (True, update_caches origin name (remove_first (\<lambda>e. ce_id e = entry_id)) s))"

section \<open>Usage and persistence\<close>

definition local_usage :: "StorageOrigin \<Rightarrow> StorageState \<Rightarrow> nat" where
  "local_usage origin s =
     (case local_areas s origin of
        None \<Rightarrow> 0
      | Some area \<Rightarrow>
          foldl (\<lambda>usage (key, v). saturating_add (saturating_add usage (length key)) (length v)) 0
            (entries area))"

definition caches_usage :: "StorageOrigin \<Rightarrow> StorageState \<Rightarrow> nat" where
  "caches_usage origin s =
     (case caches s origin of
        None \<Rightarrow> 0
      | Some storage \<Rightarrow>
          foldl (\<lambda>usage cache.
              foldl (\<lambda>usage entry.
                  saturating_add (saturating_add usage (length (ce_request entry))) (length (ce_response entry)))
                (saturating_add usage (length (cn_name cache))) (cn_entries cache)) 0
            (cs_caches storage))"

text \<open>The usage and the quota.\<close>

definition storage_estimate :: "StorageOrigin \<Rightarrow> StorageState \<Rightarrow> nat \<times> nat" where
  "storage_estimate origin s =
     (let opfs_usage = (case opfs s (storage_origin_serialize origin) of
                          None \<Rightarrow> 0 | Some d \<Rightarrow> opfs_directory_usage d)
      in (saturating_add (saturating_add (local_usage origin s) (caches_usage origin s)) opfs_usage,
          quota_bytes s))"

definition persisted :: "StorageOrigin \<Rightarrow> StorageState \<Rightarrow> bool" where
  "persisted origin s \<longleftrightarrow> origin \<in> persisted_origins s"

text \<open>\<open>iter\<close> is the order in which the set of granted origins is iterated; the result of the
  saver is whether every step succeeded.\<close>

definition save_persisted_origins ::
  "json_crate \<Rightarrow> string \<Rightarrow> StorageOrigin list \<Rightarrow> io_faults \<Rightarrow> profile_fs \<Rightarrow> bool \<times> profile_fs" where
  "save_persisted_origins js path iter io fs =
     (if fail_create_dir io then (False, fs)
      else case json_strings_to_vec js (sort (map storage_origin_serialize iter)) of
        Inl _ \<Rightarrow> (False, fs)
      | Inr encoded \<Rightarrow> replace_file path (with_extension path ''tmp'') encoded io fs)"

definition load_persisted_origins ::
  "json_crate \<Rightarrow> 'u url_crate \<Rightarrow> string \<Rightarrow> profile_fs \<Rightarrow> string + StorageOrigin set" where
  "load_persisted_origins js uc path fs =
     (case fs path of
        None \<Rightarrow> Inr {}
      | Some encoded \<Rightarrow>
          rbind (json_strings_from_slice js encoded)
            (\<lambda>values. Inr (set (List.map_filter (storage_origin_from_url uc) values))))"

text \<open>\<open>iter\<close> lists the set with the new origin in it, in the order of iteration.\<close>

definition persist ::
  "json_crate \<Rightarrow> StorageOrigin list \<Rightarrow> StorageOrigin \<Rightarrow> io_faults \<Rightarrow> profile \<Rightarrow> (unit + bool) \<times> profile" where
  "persist js iter origin io w =
     (let (fs, s) = w
      in if persistence_policy s \<noteq> PersistAllow then (Inr False, (fs, s))
         else if origin \<in> persisted_origins s then (Inr True, (fs, s))
         else
           let s1 = s\<lparr>persisted_origins := insert origin (persisted_origins s)\<rparr>
           in case persistence_path s of
                None \<Rightarrow> (Inr True, (fs, s1))
              | Some path \<Rightarrow>
                  (case save_persisted_origins js path iter io fs of
                     (True, fs') \<Rightarrow> (Inr True, (fs', s1))
                   | (False, fs') \<Rightarrow>
                       (Inl (), (fs', s1\<lparr>persisted_origins := persisted_origins s1 - {origin}\<rparr>))))"

definition with_profile ::
  "json_crate \<Rightarrow> 'u url_crate \<Rightarrow> string \<Rightarrow> nat \<Rightarrow> StoragePersistencePolicy \<Rightarrow> profile_fs \<Rightarrow>
   string + StorageState" where
  "with_profile js uc path quota policy fs =
     rbind (load_persisted_origins js uc path fs) (\<lambda>origins.
     rbind (load_opfs js (with_file_name path ''opfs.json'') fs) (\<lambda>tree.
       Inr (storage_state_default\<lparr>quota_bytes := quota, persistence_policy := policy,
              persistence_path := Some path, persisted_origins := origins,
              opfs_path := Some (with_file_name path ''opfs.json''), opfs := tree\<rparr>)))"

section \<open>Visited links\<close>

definition visit_source_new ::
  "'u url_crate \<Rightarrow> psl_crate \<Rightarrow> StorageOrigin \<Rightarrow> string \<Rightarrow> VisitSource option" where
  "visit_source_new uc psl origin top_level_url =
     (case url_from_str uc top_level_url of
        Inl _ \<Rightarrow> None
      | Inr top_url \<Rightarrow>
          let top_level_origin = storage_origin_of_url top_url
          in Some \<lparr>vs_origin = origin, vs_top_level_site = site_from_url psl top_url,
                  vs_same_origin_with_top_level = (origin = top_level_origin)\<rparr>)"

definition visited_link_key_new ::
  "'u url_crate \<Rightarrow> string \<Rightarrow> StorageOrigin \<Rightarrow> SchemefulSite \<Rightarrow> VisitedLinkKey option" where
  "visited_link_key_new uc destination initiator site =
     (case uc_parse uc destination of
        Inl _ \<Rightarrow> None
      | Inr parsed \<Rightarrow>
          if uc_scheme uc parsed \<notin> {''http'', ''https''} \<or> uc_host uc parsed = None then None
          else Some \<lparr>vk_destination = uc_as_str uc parsed, vk_initiator_origin = initiator,
                    vk_top_level_site = site\<rparr>)"

text \<open>\<open>live\<close> tells which native scroll owners are still alive.\<close>

definition register_native_scroll :: "(nat \<Rightarrow> bool) \<Rightarrow> nat \<Rightarrow> StorageState \<Rightarrow> StorageState" where
  "register_native_scroll live observer s =
     (let kept = filter live (visited_invalidators s)
      in s\<lparr>visited_invalidators :=
            (if live observer \<and> observer \<notin> set kept then kept @ [observer] else kept)\<rparr>)"

definition record_visited_link :: "(nat \<Rightarrow> bool) \<Rightarrow> VisitedLinkKey \<Rightarrow> StorageState \<Rightarrow> StorageState" where
  "record_visited_link live key s =
     (if key \<in> visited_links s then s
      else s\<lparr>visited_invalidators := filter live (visited_invalidators s),
             visited_links := insert key (visited_links s),
             visited_generation := saturating_add (visited_generation s) 1\<rparr>)"

definition record_key :: "(nat \<Rightarrow> bool) \<Rightarrow> VisitedLinkKey option \<Rightarrow> StorageState \<Rightarrow> StorageState" where
  "record_key live key s = (case key of Some k \<Rightarrow> record_visited_link live k s | None \<Rightarrow> s)"

definition record_page_navigation ::
  "'u url_crate \<Rightarrow> psl_crate \<Rightarrow> (nat \<Rightarrow> bool) \<Rightarrow> string \<Rightarrow> string \<Rightarrow> VisitSource \<Rightarrow> StorageState \<Rightarrow> StorageState"
where
  "record_page_navigation uc psl live requested committed source s =
     (let key_of = (\<lambda>destination. visited_link_key_new uc destination (vs_origin source) (vs_top_level_site source));
          s1 = record_key live (key_of committed) (record_key live (key_of requested) s)
      in if \<not> vs_same_origin_with_top_level source then s1
         else case storage_origin_from_url uc committed of
                None \<Rightarrow> s1
              | Some destination_origin \<Rightarrow>
                  record_key live
                    (visited_link_key_new uc committed destination_origin
                      (site_from_parts psl (so_scheme destination_origin) (so_host destination_origin))) s1)"

definition has_visited_link :: "VisitedLinkKey \<Rightarrow> StorageState \<Rightarrow> bool" where
  "has_visited_link key s \<longleftrightarrow> key \<in> visited_links s"

definition has_visited_url :: "'u url_crate \<Rightarrow> string \<Rightarrow> VisitSource \<Rightarrow> StorageState \<Rightarrow> bool" where
  "has_visited_url uc destination source s \<longleftrightarrow>
     (case visited_link_key_new uc destination (vs_origin source) (vs_top_level_site source) of
        None \<Rightarrow> False
      | Some key \<Rightarrow> has_visited_link key s)"

end
