(* ===== verification/OpfsProps.thy ===== *)
theory OpfsProps
  imports Opfs WireText
begin

text \<open>
  Properties of the origin-private file system.  The abstract view of an origin's tree is
  the flat map from paths to files; the operations are shown to be updates of that map,
  isolated between origins, bounded by the quota, and atomic towards the profile's file.
\<close>

section \<open>The flat view of a tree\<close>

fun file_of :: "OpfsDirectory \<Rightarrow> string list \<Rightarrow> OpfsFile option" where
  "file_of d [] = None"
| "file_of d (n # p) =
     (case map_of (dir_entries d) n of
        Some (Directory next) \<Rightarrow> file_of next p
      | Some (File f) \<Rightarrow> if p = [] then Some f else None
      | None \<Rightarrow> None)"

definition file_map :: "StorageState \<Rightarrow> StorageOrigin \<Rightarrow> string list \<rightharpoonup> OpfsFile" where
  "file_map s origin =
     (case opfs s (storage_origin_serialize origin) of None \<Rightarrow> Map.empty | Some root \<Rightarrow> file_of root)"

lemma file_of_append:
  "opfs_directory d p = Inr d' \<Longrightarrow> q \<noteq> [] \<Longrightarrow> file_of d (p @ q) = file_of d' q"
  by (induction d p rule: opfs_directory.induct) (auto split: option.splits OpfsEntry.splits)

lemma file_of_NoneI:
  "opfs_directory d p = Inl e \<Longrightarrow> q \<noteq> [] \<Longrightarrow> file_of d (p @ q) = None"
  by (induction d p rule: opfs_directory.induct) (auto split: option.splits OpfsEntry.splits)

lemma split_last_eq_Some: "split_last xs = Some (x, ys) \<longleftrightarrow> xs = ys @ [x]"
  by (auto simp: split_last_def)

lemma opfs_file_eq:
  "opfs_file origin path s = Inr f \<longleftrightarrow> file_map s origin path = Some f"
proof (cases path rule: rev_cases)
  case Nil
  then show ?thesis by (simp add: opfs_file_def split_last_def file_map_def split: option.split)
next
  case (snoc p n)
  have sl: "split_last path = Some (n, p)" by (simp add: split_last_eq_Some snoc)
  show ?thesis
  proof (cases "opfs s (storage_origin_serialize origin)")
    case None
    then show ?thesis by (simp add: opfs_file_def sl file_map_def)
  next
    case (Some root)
    show ?thesis
    proof (cases "opfs_directory root p")
      case (Inl e)
      then show ?thesis using file_of_NoneI [OF Inl, of "[n]"]
        by (simp add: opfs_file_def sl [unfolded snoc] file_map_def Some snoc)
    next
      case (Inr d)
      then show ?thesis using file_of_append [OF Inr, of "[n]"]
        by (auto simp: opfs_file_def sl [unfolded snoc] file_map_def Some snoc
            split: option.split OpfsEntry.split)
    qed
  qed
qed

text \<open>What a use of \<open>opfs_directory_mut\<close> changes: the directory the path leads to.\<close>

lemma opfs_directory_mut_Inr:
  assumes "opfs_directory_mut d p use = Inr (a, d')"
  obtains d1 es where "opfs_directory d p = Inr d1" "use (dir_entries d1) = Inr (a, es)"
    "opfs_directory d' p = Inr (OpfsDirectory es)"
    "\<And>q. \<not> strict_prefix p q \<Longrightarrow> file_of d' q = file_of d q"
proof -
  have "\<exists>d1 es. opfs_directory d p = Inr d1 \<and> use (dir_entries d1) = Inr (a, es)
    \<and> opfs_directory d' p = Inr (OpfsDirectory es) \<and> (\<forall>q. \<not> strict_prefix p q \<longrightarrow> file_of d' q = file_of d q)"
    using assms
  proof (induction p arbitrary: d d')
    case Nil
    then show ?case by (auto simp: strict_prefix_def)
  next
    case (Cons n p)
    then obtain next1 next2 where nx: "map_of (dir_entries d) n = Some (Directory next1)"
        "opfs_directory_mut next1 p use = Inr (a, next2)"
        "d' = OpfsDirectory (AList.update n (Directory next2) (dir_entries d))"
      by (auto split: option.splits OpfsEntry.splits)
    from Cons.IH [OF nx(2)] obtain d1 es where IH: "opfs_directory next1 p = Inr d1"
        "use (dir_entries d1) = Inr (a, es)" "opfs_directory next2 p = Inr (OpfsDirectory es)"
        "\<And>q. \<not> strict_prefix p q \<Longrightarrow> file_of next2 q = file_of next1 q"
      by blast
    have "file_of d' q = file_of d q" if "\<not> strict_prefix (n # p) q" for q
      using that IH(4) nx(1) by (cases q) (auto simp: nx(3) update_conv' strict_prefix_def)
    with IH nx show ?case by (auto simp: update_conv')
  qed
  with that show ?thesis by blast
qed

lemma opfs_directory_mut_Inl:
  "opfs_directory d p = Inl e \<Longrightarrow> opfs_directory_mut d p use = Inl e"
  by (induction d p rule: opfs_directory.induct) (auto split: option.splits OpfsEntry.splits)

text \<open>Setting or removing one entry, in the flat view.\<close>

definition entry_files :: "OpfsEntry option \<Rightarrow> string list \<Rightarrow> OpfsFile option" where
  "entry_files e r =
     (case e of
        Some (Directory d) \<Rightarrow> file_of d r
      | Some (File f) \<Rightarrow> if r = [] then Some f else None
      | None \<Rightarrow> None)"

lemma file_of_Cons: "file_of d (n # r) = entry_files (map_of (dir_entries d) n) r"
  by (simp add: entry_files_def split: option.split OpfsEntry.split)

lemma opfs_directory_mut_entry:
  assumes "opfs_directory_mut root p use = Inr (a, root')"
    and "\<And>es es'. use es = Inr (a, es') \<Longrightarrow> map_of es' = (map_of es)(n := e)"
  shows "file_of root' q = (if prefix (p @ [n]) q then entry_files e (drop (Suc (length p)) q) else file_of root q)"
proof -
  obtain d es where d: "opfs_directory root p = Inr d" "use (dir_entries d) = Inr (a, es)"
      "opfs_directory root' p = Inr (OpfsDirectory es)"
      "\<And>q. \<not> strict_prefix p q \<Longrightarrow> file_of root' q = file_of root q"
    using opfs_directory_mut_Inr [OF assms(1)] by metis
  note es = assms(2) [OF d(2)]
  show ?thesis
  proof (cases "strict_prefix p q")
    case False
    then show ?thesis using d(4) by (auto simp: strict_prefix_def prefix_def)
  next
    case True
    then obtain m r where q: "q = p @ m # r" by (auto elim!: strict_prefixE')
    have "file_of root' q = entry_files (map_of es m) r"
      using file_of_append [OF d(3), of "m # r"] by (simp add: q file_of_Cons del: file_of.simps)
    moreover have "file_of root q = entry_files (map_of (dir_entries d) m) r"
      using file_of_append [OF d(1), of "m # r"] by (simp add: q file_of_Cons del: file_of.simps)
    ultimately show ?thesis by (auto simp: q es)
  qed
qed

section \<open>Origins do not share a tree\<close>

lemma last_separator_unique:
  assumes "xs @ c # ys = xs' @ c # ys'" "c \<notin> set ys" "c \<notin> set ys'"
  shows "xs = xs' \<and> ys = ys'"
proof -
  have "rev ys @ c # rev xs = rev ys' @ c # rev xs'"
    using arg_cong [where f = rev, OF assms(1)] by simp
  moreover have "takeWhile (\<lambda>x. x \<noteq> c) (rev ys @ c # rev xs) = rev ys"
    "takeWhile (\<lambda>x. x \<noteq> c) (rev ys' @ c # rev xs') = rev ys'"
    using assms(2,3) by simp_all
  ultimately have "rev ys = rev ys'" by metis
  with assms(1) show ?thesis by simp
qed

lemma show_nat_inj: "show_nat m = show_nat n \<Longrightarrow> m = n"
  by (metis parse_digits_show_nat max.cobounded1 max.cobounded2 option.inject)

lemma show_nat_no_colon: "CHR '':'' \<notin> set (show_nat n)"
proof
  assume "CHR '':'' \<in> set (show_nat n)"
  then have "is_ascii_digit (CHR '':'')" by (rule show_nat_digits)
  then show False by (simp add: is_ascii_digit_def)
qed

text \<open>The serialization keys the trees; it is injective on the origins of HTTP URLs, for any
  host (an IPv6 host contains colons).\<close>

lemma serialize_injective:
  assumes "so_scheme a \<in> {''http'', ''https''}" "so_scheme b \<in> {''http'', ''https''}"
    and eq: "storage_origin_serialize a = storage_origin_serialize b"
  shows "a = b"
proof -
  have scheme: "so_scheme a = so_scheme b"
    using assms by (auto simp: storage_origin_serialize_def)
  then have "so_host a @ CHR '':'' # show_nat (unat (so_port a))
      = so_host b @ CHR '':'' # show_nat (unat (so_port b))"
    using eq by (simp add: storage_origin_serialize_def)
  from last_separator_unique [OF this show_nat_no_colon show_nat_no_colon]
  have "so_host a = so_host b" "unat (so_port a) = unat (so_port b)"
    by (auto dest: show_nat_inj)
  with scheme show ?thesis by (cases a; cases b) (simp add: word_unat_eq_iff)
qed

definition web_origin :: "StorageOrigin \<Rightarrow> bool" where
  "web_origin o1 \<longleftrightarrow> so_scheme o1 \<in> {''http'', ''https''}"

lemma file_map_put:
  "file_map (s\<lparr>opfs := (opfs s)(storage_origin_serialize origin \<mapsto> root)\<rparr>) origin' =
   (if storage_origin_serialize origin' = storage_origin_serialize origin then file_of root
    else file_map s origin')"
  by (simp add: file_map_def)

section \<open>Saving\<close>

lemma persist_cases:
  assumes "persist_opfs_or_restore js io (fs, s1) old = (res, (fs', s'))"
  shows "res = Inr () \<and> s' = s1 \<or> res = Inl OpfsIo \<and> s' = s1\<lparr>opfs := old\<rparr>"
  using assms by (auto simp: persist_opfs_or_restore_def split: option.splits prod.splits bool.splits)

section \<open>Operations as updates of the flat view\<close>

lemma file_at:
  assumes "opfs_directory root p = Inr d" "map_of (dir_entries d) n = Some (File f)"
  shows "file_of root (p @ [n]) = Some f" "q \<noteq> [] \<Longrightarrow> file_of root (p @ n # q) = None"
  using file_of_append [OF assms(1), of "n # q"] file_of_append [OF assms(1), of "[n]"] assms(2)
  by simp_all

text \<open>A write changes exactly the file it names, and leaves everything in place
  on every error.\<close>

definition write_use ::
  "string \<Rightarrow> OpfsFile \<Rightarrow> (string \<times> OpfsEntry) list \<Rightarrow> OpfsError + unit \<times> (string \<times> OpfsEntry) list" where
  "write_use name f es =
     (case map_of es name of
        Some (File _) \<Rightarrow> Inr ((), AList.update name (File f) es)
      | Some _ \<Rightarrow> Inl TypeMismatch
      | None \<Rightarrow> Inl NotFound)"

lemma write_use_Inr:
  "write_use name f es = Inr (u, es') \<longleftrightarrow>
   (\<exists>f0. map_of es name = Some (File f0)) \<and> es' = AList.update name (File f) es"
  by (auto simp: write_use_def split: option.splits OpfsEntry.splits)

lemma write_in_tree:
  assumes "opfs_directory_mut root p (write_use n f) = Inr ((), root')"
  shows "file_of root' = (file_of root)(p @ [n] \<mapsto> f)" "p @ [n] \<in> dom (file_of root)"
proof -
  obtain d es where d: "opfs_directory root p = Inr d" "write_use n f (dir_entries d) = Inr ((), es)"
    using opfs_directory_mut_Inr [OF assms] by metis
  then obtain f0 where f0: "map_of (dir_entries d) n = Some (File f0)" by (auto simp: write_use_Inr)
  note at = file_at [OF d(1) f0]
  show "p @ [n] \<in> dom (file_of root)" using at(1) by blast
  show "file_of root' = (file_of root)(p @ [n] \<mapsto> f)"
  proof
    fix q
    have "file_of root' q =
      (if prefix (p @ [n]) q then entry_files (Some (File f)) (drop (Suc (length p)) q) else file_of root q)"
      by (rule opfs_directory_mut_entry [OF assms]) (auto simp: write_use_Inr update_conv')
    then show "file_of root' q = ((file_of root)(p @ [n] \<mapsto> f)) q"
      using at(2) by (auto simp: entry_files_def elim!: prefixE)
  qed
qed

lemma opfs_write_cases:
  assumes "opfs_write js origin path bytes modified io (fs, s) = (res, (fs', s'))"
  defines "key \<equiv> storage_origin_serialize origin"
  defines "f \<equiv> \<lparr>file_bytes = bytes, file_modified = modified\<rparr>"
  shows "(\<exists>e. res = Inl e \<and> opfs s' = opfs s)
    \<or> (\<exists>root name parent root'. res = Inr () \<and> opfs s key = Some root \<and> path = parent @ [name]
        \<and> opfs_directory_mut root parent (write_use name f) = Inr ((), root')
        \<and> opfs_directory_usage root' \<le> quota_bytes s \<and> s' = s\<lparr>opfs := (opfs s)(key \<mapsto> root')\<rparr>
        \<and> persist_opfs_or_restore js io (fs, s') (opfs s) = (Inr (), (fs', s')))"
proof (cases "opfs s key")
  case None
  then show ?thesis using assms(1) by (auto simp: opfs_write_def key_def)
next
  case (Some root)
  show ?thesis
  proof (cases path rule: rev_cases)
    case Nil
    then show ?thesis using assms(1) Some by (auto simp: opfs_write_def key_def split_last_def)
  next
    case (snoc parent name)
    have sl: "split_last path = Some (name, parent)" by (simp add: snoc split_last_eq_Some)
    show ?thesis
    proof (cases "opfs_directory_mut root parent (write_use name f)")
      case (Inl e)
      then show ?thesis
        using assms(1) Some by (auto simp: opfs_write_def sl key_def f_def write_use_def [abs_def])
    next
      case (Inr a)
      then obtain root' where root': "opfs_directory_mut root parent (write_use name f) = Inr ((), root')"
        by (cases a) auto
      let ?s1 = "s\<lparr>opfs := (opfs s)(key \<mapsto> root')\<rparr>"
      have run: "opfs_write js origin path bytes modified io (fs, s) =
        (if opfs_directory_usage root' > quota_bytes s then (Inl QuotaExceeded, (fs, s))
         else persist_opfs_or_restore js io (fs, ?s1) (opfs s))"
        using Some root' by (simp add: opfs_write_def sl key_def f_def write_use_def [abs_def] Let_def)
      show ?thesis
      proof (cases "opfs_directory_usage root' > quota_bytes s")
        case True
        then show ?thesis using run assms(1) by simp
      next
        case False
        then have pe: "persist_opfs_or_restore js io (fs, ?s1) (opfs s) = (res, (fs', s'))"
          using run assms(1) by simp
        from persist_cases [OF pe] show ?thesis
        proof
          assume r: "res = Inr () \<and> s' = ?s1"
          have "persist_opfs_or_restore js io (fs, s') (opfs s) = (Inr (), fs', s')"
            using pe r by simp
          with r False Some root' snoc show ?thesis
            by (intro disjI2 exI [of _ root] exI [of _ name] exI [of _ parent] exI [of _ root']) simp
        next
          assume "res = Inl OpfsIo \<and> s' = ?s1\<lparr>opfs := opfs s\<rparr>"
          then show ?thesis by simp
        qed
      qed
    qed
  qed
qed

lemma opfs_write_spec:
  assumes "opfs_write js origin path bytes modified io (fs, s) = (Inr (), (fs', s'))"
  shows "file_map s' origin = (file_map s origin)(path \<mapsto> \<lparr>file_bytes = bytes, file_modified = modified\<rparr>)"
    "path \<in> dom (file_map s origin)"
    "storage_origin_serialize origin' \<noteq> storage_origin_serialize origin \<Longrightarrow>
       file_map s' origin' = file_map s origin'"
    "\<exists>root. opfs s' (storage_origin_serialize origin) = Some root \<and> opfs_directory_usage root \<le> quota_bytes s'"
proof -
  let ?f = "\<lparr>file_bytes = bytes, file_modified = modified\<rparr>"
  obtain root name parent root' where st: "opfs s (storage_origin_serialize origin) = Some root"
      "path = parent @ [name]" "opfs_directory_mut root parent (write_use name ?f) = Inr ((), root')"
      "opfs_directory_usage root' \<le> quota_bytes s"
      "s' = s\<lparr>opfs := (opfs s)(storage_origin_serialize origin \<mapsto> root')\<rparr>"
    using opfs_write_cases [OF assms] by auto
  note tree = write_in_tree [OF st(3), folded st(2)]
  have fm: "file_map s origin = file_of root" by (simp add: file_map_def st(1))
  show "file_map s' origin = (file_map s origin)(path \<mapsto> ?f)" "path \<in> dom (file_map s origin)"
    "storage_origin_serialize origin' \<noteq> storage_origin_serialize origin \<Longrightarrow>
       file_map s' origin' = file_map s origin'"
    using tree by (simp_all add: st(5) file_map_put fm)
  show "\<exists>root. opfs s' (storage_origin_serialize origin) = Some root \<and> opfs_directory_usage root \<le> quota_bytes s'"
    using st(4) by (simp add: st(5))
qed

text \<open>A removal takes out the entry and everything below it.\<close>

definition remove_use ::
  "string \<Rightarrow> bool \<Rightarrow> (string \<times> OpfsEntry) list \<Rightarrow> OpfsError + unit \<times> (string \<times> OpfsEntry) list" where
  "remove_use name recursive es =
     (case map_of es name of
        None \<Rightarrow> Inl NotFound
      | Some entry \<Rightarrow>
          if \<not> recursive \<and> (case entry of Directory d \<Rightarrow> dir_entries d \<noteq> [] | File _ \<Rightarrow> False)
          then Inl NotEmpty
          else Inr ((), AList.delete name es))"

lemma validate_cases: "validate_opfs_name n = Inr () \<or> validate_opfs_name n = Inl InvalidName"
  by (simp add: validate_opfs_name_def)

lemma opfs_remove_cases:
  assumes "opfs_remove js origin parent name recursive io (fs, s) = (res, (fs', s'))"
  defines "key \<equiv> storage_origin_serialize origin"
  shows "(\<exists>e. res = Inl e \<and> opfs s' = opfs s)
    \<or> (\<exists>root root'. res = Inr () \<and> opfs s key = Some root
        \<and> \<not> opfs_path_has_lock s origin (parent @ [name])
        \<and> opfs_directory_mut root parent (remove_use name recursive) = Inr ((), root')
        \<and> s' = s\<lparr>opfs := (opfs s)(key \<mapsto> root')\<rparr>)"
proof (cases "validate_opfs_name name = Inr () \<and> \<not> opfs_path_has_lock s origin (parent @ [name])")
  case False
  have "opfs_remove js origin parent name recursive io (fs, s) =
    (Inl (if validate_opfs_name name = Inr () then Locked else InvalidName), (fs, s))"
  proof (cases "validate_opfs_name name = Inr ()")
    case True
    with False show ?thesis by (simp add: opfs_remove_def)
  next
    case no: False
    then have "validate_opfs_name name = Inl InvalidName" using validate_cases by blast
    with no show ?thesis by (simp add: opfs_remove_def)
  qed
  then have "(\<exists>e. res = Inl e) \<and> s' = s" using assms(1) by auto
  then show ?thesis by blast
next
  case True
  show ?thesis
  proof (cases "opfs s key")
    case None
    then show ?thesis using assms(1) True by (auto simp: opfs_remove_def key_def)
  next
    case (Some root)
    show ?thesis
    proof (cases "opfs_directory_mut root parent (remove_use name recursive)")
      case (Inl e)
      then show ?thesis
        using assms(1) True Some by (auto simp: opfs_remove_def key_def remove_use_def [abs_def])
    next
      case (Inr a)
      then obtain root' where root': "opfs_directory_mut root parent (remove_use name recursive) = Inr ((), root')"
        by (cases a) auto
      then have "persist_opfs_or_restore js io (fs, s\<lparr>opfs := (opfs s)(key \<mapsto> root')\<rparr>) (opfs s) = (res, (fs', s'))"
        using assms(1) True Some by (simp add: opfs_remove_def key_def remove_use_def [abs_def] Let_def)
      from persist_cases [OF this] show ?thesis using True Some root' by auto
    qed
  qed
qed

lemma remove_in_tree:
  assumes "opfs_directory_mut root p (remove_use n rec) = Inr ((), root')"
  shows "file_of root' q = (if prefix (p @ [n]) q then None else file_of root q)"
proof -
  have "file_of root' q =
    (if prefix (p @ [n]) q then entry_files None (drop (Suc (length p)) q) else file_of root q)"
    by (rule opfs_directory_mut_entry [OF assms])
      (auto simp: remove_use_def delete_conv' split: option.splits if_splits)
  then show ?thesis by (simp add: entry_files_def)
qed

text \<open>A move takes the source out and then puts it under its new name.\<close>

definition take_use ::
  "string \<Rightarrow> (string \<times> OpfsEntry) list \<Rightarrow> OpfsError + OpfsEntry \<times> (string \<times> OpfsEntry) list" where
  "take_use name es =
     (case map_of es name of None \<Rightarrow> Inl NotFound | Some entry \<Rightarrow> Inr (entry, AList.delete name es))"

definition put_use ::
  "string \<Rightarrow> OpfsEntry \<Rightarrow> (string \<times> OpfsEntry) list \<Rightarrow> OpfsError + unit \<times> (string \<times> OpfsEntry) list" where
  "put_use name e es = Inr ((), AList.update name e es)"

lemma take_in_tree:
  assumes "opfs_directory_mut root p (take_use n) = Inr (e, root')"
  shows "file_of root' q = (if prefix (p @ [n]) q then None else file_of root q)"
    "e = File f \<Longrightarrow> file_of root (p @ [n]) = Some f"
    "e = File f \<Longrightarrow> q \<noteq> [] \<Longrightarrow> file_of root (p @ n # q) = None"
proof -
  have "file_of root' q =
    (if prefix (p @ [n]) q then entry_files None (drop (Suc (length p)) q) else file_of root q)"
    by (rule opfs_directory_mut_entry [OF assms])
      (auto simp: take_use_def delete_conv' split: option.splits)
  then show "file_of root' q = (if prefix (p @ [n]) q then None else file_of root q)"
    by (simp add: entry_files_def)
  obtain d es where d: "opfs_directory root p = Inr d" "take_use n (dir_entries d) = Inr (e, es)"
    using opfs_directory_mut_Inr [OF assms] by metis
  assume "e = File f"
  then have "map_of (dir_entries d) n = Some (File f)"
    using d(2) by (auto simp: take_use_def split: option.splits)
  note at = file_at [OF d(1) this]
  show "file_of root (p @ [n]) = Some f" by (rule at(1))
  show "file_of root (p @ n # q) = None" if "q \<noteq> []" using at(2) that by blast
qed

lemma put_in_tree:
  assumes "opfs_directory_mut root p (put_use n (File f)) = Inr ((), root')"
  shows "file_of root' q =
    (if q = p @ [n] then Some f else if prefix (p @ [n]) q then None else file_of root q)"
proof -
  have "file_of root' q =
    (if prefix (p @ [n]) q then entry_files (Some (File f)) (drop (Suc (length p)) q) else file_of root q)"
    by (rule opfs_directory_mut_entry [OF assms]) (auto simp: put_use_def update_conv')
  then show ?thesis by (auto simp: entry_files_def elim!: prefixE)
qed

text \<open>Taking a file out removes no directory.\<close>

lemma take_file_directories:
  assumes "opfs_directory_mut root p (take_use n) = Inr (File f, root')"
    and "opfs_directory root' q = Inr d"
  shows "\<exists>d0. opfs_directory root q = Inr d0"
  using assms
proof (induction p arbitrary: root root' q d)
  case Nil
  then have e: "map_of (dir_entries root) n = Some (File f)" "dir_entries root' = AList.delete n (dir_entries root)"
    by (auto simp: take_use_def split: option.splits)
  with Nil.prems(2) show ?case
    by (cases q) (auto simp: delete_conv' split: if_splits option.splits OpfsEntry.splits)
next
  case (Cons m p)
  then obtain next1 next2 where nx: "map_of (dir_entries root) m = Some (Directory next1)"
      "opfs_directory_mut next1 p (take_use n) = Inr (File f, next2)"
      "root' = OpfsDirectory (AList.update m (Directory next2) (dir_entries root))"
    by (auto split: option.splits OpfsEntry.splits)
  show ?case
  proof (cases q)
    case (Cons k r)
    then show ?thesis
      using Cons.prems(2) nx Cons.IH [OF nx(2), of r]
      by (auto simp: update_conv' split: if_splits option.splits OpfsEntry.splits)
  qed simp
qed

lemma take_file_keeps_directories:
  assumes "opfs_directory_mut root p (take_use n) = Inr (File f, root')"
    and "opfs_directory root q = Inr d0"
  shows "\<exists>d. opfs_directory root' q = Inr d"
  using assms
proof (induction p arbitrary: root root' q d0)
  case Nil
  then have e: "map_of (dir_entries root) n = Some (File f)" "dir_entries root' = AList.delete n (dir_entries root)"
    by (auto simp: take_use_def split: option.splits)
  with Nil.prems(2) show ?case
    by (cases q) (auto simp: delete_conv' split: if_splits option.splits OpfsEntry.splits)
next
  case (Cons m p)
  then obtain next1 next2 where nx: "map_of (dir_entries root) m = Some (Directory next1)"
      "opfs_directory_mut next1 p (take_use n) = Inr (File f, next2)"
      "root' = OpfsDirectory (AList.update m (Directory next2) (dir_entries root))"
    by (auto split: option.splits OpfsEntry.splits)
  show ?case
  proof (cases q)
    case (Cons k r)
    then show ?thesis
      using Cons.prems(2) nx Cons.IH [OF nx(2), of r]
      by (auto simp: update_conv' split: if_splits option.splits OpfsEntry.splits)
  qed simp
qed

lemma take_file_flat:
  assumes "opfs_directory_mut root sp (take_use sn) = Inr (File f, root1)"
  shows "file_of root1 = (file_of root)(sp @ [sn] := None)"
proof
  fix q
  show "file_of root1 q = ((file_of root)(sp @ [sn] := None)) q"
    using take_in_tree(1) [OF assms, of q] take_in_tree(3) [OF assms refl]
    by (auto elim!: prefixE) (metis append_Nil2)
qed

lemma take_file_exists:
  "file_of root (sp @ [sn]) = Some f \<Longrightarrow> \<exists>root1. opfs_directory_mut root sp (take_use sn) = Inr (File f, root1)"
proof (induction sp arbitrary: root)
  case Nil
  then show ?case by (auto simp: take_use_def split: option.splits OpfsEntry.splits)
next
  case (Cons m sp)
  then show ?case by (fastforce split: option.splits OpfsEntry.splits if_splits)
qed

lemma opfs_move_run:
  assumes "validate_opfs_name dn = Inr ()" "\<not> opfs_path_has_lock s origin (sp @ [sn])"
    "\<not> opfs_path_has_lock s origin (dp @ [dn])"
    and "opfs s (storage_origin_serialize origin) = Some root"
  shows "opfs_move_file js origin (sp @ [sn]) dp dn io (fs, s) =
    (case opfs_directory_mut root sp (take_use sn) of
       Inl e \<Rightarrow> (Inl e, (fs, s))
     | Inr (Directory _, root1) \<Rightarrow> (Inl TypeMismatch, (fs, s\<lparr>opfs := opfs s\<rparr>))
     | Inr (File f, root1) \<Rightarrow>
         (case opfs_directory_mut root1 dp (put_use dn (File f)) of
            Inl e \<Rightarrow> (Inl e, (fs, s\<lparr>opfs := (opfs s)(storage_origin_serialize origin \<mapsto> root1)\<rparr>))
          | Inr (_, root2) \<Rightarrow>
              persist_opfs_or_restore js io
                (fs, s\<lparr>opfs := (opfs s)(storage_origin_serialize origin \<mapsto> root2)\<rparr>) (opfs s)))"
proof -
  have "split_last (sp @ [sn]) = Some (sn, sp)" by (simp add: split_last_eq_Some)
  with assms show ?thesis
    unfolding take_use_def [abs_def] put_use_def [abs_def] by (simp add: opfs_move_file_def Let_def)
qed

lemma opfs_move_checks:
  assumes "opfs_move_file js origin src dp dn io (fs, s) = (Inr (), w')"
  shows "validate_opfs_name dn = Inr ()" "\<not> opfs_path_has_lock s origin src"
    "\<not> opfs_path_has_lock s origin (dp @ [dn])"
    "opfs s (storage_origin_serialize origin) \<noteq> None" "src \<noteq> []"
proof -
  show v: "validate_opfs_name dn = Inr ()"
    using assms validate_cases [of dn] by (auto simp: opfs_move_file_def)
  show l: "\<not> opfs_path_has_lock s origin src" "\<not> opfs_path_has_lock s origin (dp @ [dn])"
    using assms v by (auto simp: opfs_move_file_def Let_def split: if_splits)
  show r: "opfs s (storage_origin_serialize origin) \<noteq> None"
    using assms v l by (cases "opfs s (storage_origin_serialize origin)")
      (simp_all add: opfs_move_file_def Let_def)
  show "src \<noteq> []"
    using assms v l r by (auto simp: opfs_move_file_def Let_def split_last_def)
qed

lemma opfs_move_spec:
  assumes "opfs_move_file js origin src dp dn io (fs, s) = (Inr (), (fs', s'))"
  shows "\<exists>root2. s' = s\<lparr>opfs := (opfs s)(storage_origin_serialize origin \<mapsto> root2)\<rparr>
    \<and> file_map s origin src \<noteq> None
    \<and> file_of root2 = (\<lambda>q. if q = dp @ [dn] then file_map s origin src
         else if prefix (dp @ [dn]) q \<or> q = src then None else file_map s origin q)"
proof -
  note checks = opfs_move_checks [OF assms]
  obtain sp sn where src: "src = sp @ [sn]" using checks(5) by (cases src rule: rev_cases) auto
  obtain root where root: "opfs s (storage_origin_serialize origin) = Some root" using checks(4) by auto
  note run = opfs_move_run [OF checks(1) checks(2) [unfolded src] checks(3) root]
  obtain f root1 where t: "opfs_directory_mut root sp (take_use sn) = Inr (File f, root1)"
    using assms run src by (auto split: sum.splits OpfsEntry.splits)
  obtain root2 where p: "opfs_directory_mut root1 dp (put_use dn (File f)) = Inr ((), root2)"
    using assms run src t by (auto split: sum.splits)
  have "s' = s\<lparr>opfs := (opfs s)(storage_origin_serialize origin \<mapsto> root2)\<rparr>"
    using assms run src t p persist_cases by fastforce
  moreover have "file_of root2 q = (if q = dp @ [dn] then file_map s origin src
         else if prefix (dp @ [dn]) q \<or> q = src then None else file_map s origin q)" for q
  proof -
    have "file_of root1 = (file_of root)(src := None)"
      by (rule take_file_flat [OF t, folded src])
    then show ?thesis
      using put_in_tree [OF p, of q] take_in_tree(2) [OF t refl] src by (simp add: file_map_def root)
  qed
  moreover have "file_map s origin src \<noteq> None"
    using take_in_tree(2) [OF t refl] src by (simp add: file_map_def root)
  ultimately show ?thesis by blast
qed

text \<open>A handle that is created adds an empty file or directory.\<close>

definition handle_use ::
  "string \<Rightarrow> bool \<Rightarrow> bool \<Rightarrow> (string \<times> OpfsEntry) list \<Rightarrow> OpfsError + bool \<times> (string \<times> OpfsEntry) list" where
  "handle_use name directory create es =
     (case map_of es name of
        Some (Directory _) \<Rightarrow> if directory then Inr (False, es) else Inl TypeMismatch
      | Some (File _) \<Rightarrow> if \<not> directory then Inr (False, es) else Inl TypeMismatch
      | None \<Rightarrow>
          if \<not> create then Inl NotFound
          else Inr (True, AList.update name
                 (if directory then Directory (OpfsDirectory [])
                  else File \<lparr>file_bytes = [], file_modified = 0\<rparr>) es))"

abbreviation new_file :: OpfsFile where
  "new_file \<equiv> \<lparr>file_bytes = [], file_modified = 0\<rparr>"

lemma handle_in_tree:
  assumes "opfs_directory_mut root p (handle_use n dir create) = Inr (created, root')"
  shows "\<not> created \<Longrightarrow> dir \<or> p @ [n] \<in> dom (file_of root)"
    "created \<Longrightarrow> file_of root' = (if dir then file_of root else (file_of root)(p @ [n] \<mapsto> new_file))"
    "created \<Longrightarrow> p @ [n] \<notin> dom (file_of root)"
proof -
  obtain d es where d: "opfs_directory root p = Inr d"
      "handle_use n dir create (dir_entries d) = Inr (created, es)"
    using opfs_directory_mut_Inr [OF assms] by metis
  note below = file_of_append [OF d(1)]
  show "dir \<or> p @ [n] \<in> dom (file_of root)" if "\<not> created"
    using d(2) that below [of "[n]"]
    by (auto simp: handle_use_def split: option.splits OpfsEntry.splits if_splits)
  assume created
  then have none: "map_of (dir_entries d) n = None"
    using d(2) by (auto simp: handle_use_def split: option.splits OpfsEntry.splits if_splits)
  then show "p @ [n] \<notin> dom (file_of root)" using below [of "[n]"] by auto
  let ?e = "if dir then Directory (OpfsDirectory []) else File new_file"
  have "file_of root' q =
    (if prefix (p @ [n]) q then entry_files (Some ?e) (drop (Suc (length p)) q) else file_of root q)" for q
    by (rule opfs_directory_mut_entry [OF assms])
      (use \<open>created\<close> in \<open>auto simp: handle_use_def update_conv' split: option.splits OpfsEntry.splits if_splits\<close>)
  moreover have "file_of (OpfsDirectory []) q = None" for q by (cases q) auto
  moreover have "file_of root (p @ n # q) = None" for q using below [of "n # q"] none by simp
  ultimately show "file_of root' = (if dir then file_of root else (file_of root)(p @ [n] \<mapsto> new_file))"
    by (auto simp: fun_eq_iff entry_files_def elim!: prefixE)
qed

definition root_or_empty :: "StorageState \<Rightarrow> string \<Rightarrow> OpfsDirectory" where
  "root_or_empty s key = (case opfs s key of Some d \<Rightarrow> d | None \<Rightarrow> OpfsDirectory [])"

lemma file_of_empty [simp]: "file_of (OpfsDirectory []) q = None"
  by (cases q) auto

lemma file_map_root: "file_map s origin = file_of (root_or_empty s (storage_origin_serialize origin))"
  by (auto simp: file_map_def root_or_empty_def fun_eq_iff split: option.split)

lemma opfs_get_handle_run:
  fixes origin
  assumes "validate_opfs_name n = Inr ()"
  defines "key \<equiv> storage_origin_serialize origin"
  shows "opfs_get_handle js origin p n dir create io (fs, s) =
    (let s1 = s\<lparr>opfs := (opfs s)(key \<mapsto> root_or_empty s key)\<rparr>
     in case opfs_directory_mut (root_or_empty s key) p (handle_use n dir create) of
          Inl e \<Rightarrow> (Inl e, (fs, s1))
        | Inr (created, root') \<Rightarrow>
            if \<not> created then (Inr (), (fs, s1))
            else persist_opfs_or_restore js io (fs, s1\<lparr>opfs := (opfs s1)(key \<mapsto> root')\<rparr>) (opfs s))"
  using assms(1) unfolding handle_use_def [abs_def] root_or_empty_def key_def
  by (simp add: opfs_get_handle_def Let_def)

lemma opfs_get_handle_cases:
  assumes "opfs_get_handle js origin p n dir create io (fs, s) = (res, (fs', s'))"
  defines "key \<equiv> storage_origin_serialize origin"
  shows "(\<exists>e. res = Inl e \<and> (s' = s \<or> s' = s\<lparr>opfs := (opfs s)(key \<mapsto> root_or_empty s key)\<rparr>))
    \<or> (\<exists>root'. res = Inr () \<and> s' = s\<lparr>opfs := (opfs s)(key \<mapsto> root')\<rparr>
        \<and> file_of root' = (if dir \<or> p @ [n] \<in> dom (file_map s origin) then file_map s origin
                           else (file_map s origin)(p @ [n] \<mapsto> new_file)))"
proof (cases "validate_opfs_name n = Inr ()")
  case False
  then have "validate_opfs_name n = Inl InvalidName" using validate_cases by blast
  then have "res = Inl InvalidName \<and> s' = s" using assms(1) by (simp add: opfs_get_handle_def)
  then show ?thesis by blast
next
  case True
  let ?r = "root_or_empty s key"
  let ?s1 = "s\<lparr>opfs := (opfs s)(key \<mapsto> ?r)\<rparr>"
  note run = assms(1) [unfolded opfs_get_handle_run [OF True] Let_def, folded key_def]
  have fm: "file_map s origin = file_of ?r" by (simp add: file_map_root key_def)
  show ?thesis
  proof (cases "opfs_directory_mut ?r p (handle_use n dir create)")
    case (Inl e)
    then have "res = Inl e \<and> s' = ?s1" using run by simp
    then show ?thesis by blast
  next
    case (Inr a)
    obtain created root' where a: "a = (created, root')" by fastforce
    note tree = handle_in_tree [OF Inr [unfolded a]]
    show ?thesis
    proof (cases created)
      case False
      then have "res = Inr () \<and> s' = ?s1" using run Inr a by simp
      moreover have "dir \<or> p @ [n] \<in> dom (file_map s origin)" using tree(1) False fm by simp
      ultimately show ?thesis using fm by (intro disjI2 exI [of _ ?r]) simp
    next
      case True
      then have "persist_opfs_or_restore js io (fs, ?s1\<lparr>opfs := (opfs ?s1)(key \<mapsto> root')\<rparr>) (opfs s)
          = (res, (fs', s'))"
        using run Inr a by simp
      from persist_cases [OF this] show ?thesis
        using tree(2,3) True fm by auto
    qed
  qed
qed

section \<open>One contract for the mutating operations\<close>

datatype opfs_op =
    CreateEntry "string list" string bool
  | WriteFile "string list" "u8 list" nat
  | RemoveEntry "string list" string bool
  | MoveFile "string list" "string list" string

fun opfs_run ::
  "json_crate \<Rightarrow> StorageOrigin \<Rightarrow> opfs_op \<Rightarrow> io_faults \<Rightarrow> profile \<Rightarrow> (OpfsError + unit) \<times> profile" where
  "opfs_run js origin (CreateEntry p n dir) io w = opfs_get_handle js origin p n dir True io w"
| "opfs_run js origin (WriteFile path bytes modified) io w = opfs_write js origin path bytes modified io w"
| "opfs_run js origin (RemoveEntry p n rec) io w = opfs_remove js origin p n rec io w"
| "opfs_run js origin (MoveFile src dp dn) io w = opfs_move_file js origin src dp dn io w"

text \<open>The specification: the same operations on a flat map from paths to files.\<close>

fun flat_step :: "opfs_op \<Rightarrow> (string list \<rightharpoonup> OpfsFile) \<Rightarrow> string list \<rightharpoonup> OpfsFile" where
  "flat_step (CreateEntry p n dir) m =
     (if dir \<or> p @ [n] \<in> dom m then m else m(p @ [n] \<mapsto> new_file))"
| "flat_step (WriteFile path bytes modified) m =
     m(path \<mapsto> \<lparr>file_bytes = bytes, file_modified = modified\<rparr>)"
| "flat_step (RemoveEntry p n rec) m = (\<lambda>q. if prefix (p @ [n]) q then None else m q)"
| "flat_step (MoveFile src dp dn) m =
     (\<lambda>q. if q = dp @ [dn] then m src
          else if prefix (dp @ [dn]) q \<or> q = src then None else m q)"

lemma opfs_run_Inr:
  assumes "opfs_run js origin op io (fs, s) = (Inr (), (fs', s'))"
  shows "\<exists>root'. s' = s\<lparr>opfs := (opfs s)(storage_origin_serialize origin \<mapsto> root')\<rparr>
    \<and> file_of root' = flat_step op (file_map s origin)"
proof (cases op)
  case (CreateEntry p n dir)
  show ?thesis
    using opfs_get_handle_cases [OF assms [unfolded CreateEntry opfs_run.simps]] by (simp add: CreateEntry)
next
  case (WriteFile path bytes modified)
  let ?f = "\<lparr>file_bytes = bytes, file_modified = modified\<rparr>"
  obtain root name parent root' where st: "opfs s (storage_origin_serialize origin) = Some root"
      "path = parent @ [name]" "opfs_directory_mut root parent (write_use name ?f) = Inr ((), root')"
      "s' = s\<lparr>opfs := (opfs s)(storage_origin_serialize origin \<mapsto> root')\<rparr>"
    using opfs_write_cases [OF assms [unfolded WriteFile opfs_run.simps]] by auto
  have "file_map s origin = file_of root" by (simp add: file_map_def st(1))
  with write_in_tree(1) [OF st(3)] st(2,4) show ?thesis by (auto simp: WriteFile)
next
  case (RemoveEntry p n rec)
  obtain root root' where st: "opfs s (storage_origin_serialize origin) = Some root"
      "opfs_directory_mut root p (remove_use n rec) = Inr ((), root')"
      "s' = s\<lparr>opfs := (opfs s)(storage_origin_serialize origin \<mapsto> root')\<rparr>"
    using opfs_remove_cases [OF assms [unfolded RemoveEntry opfs_run.simps]] by auto
  have "file_map s origin = file_of root" by (simp add: file_map_def st(1))
  moreover have "file_of root' = (\<lambda>q. if prefix (p @ [n]) q then None else file_of root q)"
    using remove_in_tree [OF st(2)] by blast
  ultimately show ?thesis using st(3) by (auto simp: RemoveEntry)
next
  case (MoveFile src dp dn)
  show ?thesis
    using opfs_move_spec [OF assms [unfolded MoveFile opfs_run.simps]] by (auto simp: MoveFile)
qed

text \<open>What a successful operation presupposes.\<close>

fun flat_ready :: "opfs_op \<Rightarrow> (string list \<rightharpoonup> OpfsFile) \<Rightarrow> bool" where
  "flat_ready (CreateEntry p n dir) m = True"
| "flat_ready (WriteFile path bytes modified) m = (path \<in> dom m)"
| "flat_ready (RemoveEntry p n rec) m = True"
| "flat_ready (MoveFile src dp dn) m = (src \<in> dom m)"

lemma opfs_run_ready:
  assumes "opfs_run js origin op io (fs, s) = (Inr (), (fs', s'))"
  shows "flat_ready op (file_map s origin)"
proof (cases op)
  case (WriteFile path bytes modified)
  then show ?thesis using opfs_write_spec(2) [of js origin path bytes modified io fs s fs' s'] assms by simp
next
  case (MoveFile src dp dn)
  then show ?thesis using opfs_move_spec [of js origin src dp dn io fs s fs' s'] assms by auto
qed simp_all

definition directory_exists :: "StorageState \<Rightarrow> StorageOrigin \<Rightarrow> string list \<Rightarrow> bool" where
  "directory_exists s origin path \<longleftrightarrow>
     (\<exists>root d. opfs s (storage_origin_serialize origin) = Some root \<and> opfs_directory root path = Inr d)"

text \<open>The only trace an error can leave is that of a move whose destination directory is missing.\<close>

definition lost_by_move :: "opfs_op \<Rightarrow> StorageOrigin \<Rightarrow> StorageState \<Rightarrow> StorageState \<Rightarrow> bool" where
  "lost_by_move op origin s s' \<longleftrightarrow>
     (\<exists>src dp dn. op = MoveFile src dp dn \<and> \<not> directory_exists s origin dp
        \<and> (\<exists>root. s' = s\<lparr>opfs := (opfs s)(storage_origin_serialize origin \<mapsto> root)\<rparr> \<and> file_of root = (file_map s origin)(src := None)))"

lemma put_use_exists: "opfs_directory d p = Inr d' \<Longrightarrow> \<exists>x. opfs_directory_mut d p (put_use n e) = Inr x"
  by (induction d p rule: opfs_directory.induct) (auto simp: put_use_def split: option.splits OpfsEntry.splits)

lemma opfs_move_Inl:
  assumes run: "opfs_move_file js origin src dp dn io (fs, s) = (Inl e, (fs', s'))"
  shows "opfs s' = opfs s \<or> lost_by_move (MoveFile src dp dn) origin s s'"
proof (cases "validate_opfs_name dn = Inr () \<and> \<not> opfs_path_has_lock s origin src \<and> \<not> opfs_path_has_lock s origin (dp @ [dn])
    \<and> opfs s (storage_origin_serialize origin) \<noteq> None \<and> src \<noteq> []")
  case False
  then show ?thesis using run validate_cases [of dn]
    by (auto simp: opfs_move_file_def Let_def split_last_def split: if_splits option.splits)
next
  case True
  then obtain sp sn root where s: "src = sp @ [sn]" "opfs s (storage_origin_serialize origin) = Some root"
    by (cases src rule: rev_cases) auto
  have r: "opfs_move_file js origin (sp @ [sn]) dp dn io (fs, s) =
    (case opfs_directory_mut root sp (take_use sn) of
       Inl e \<Rightarrow> (Inl e, (fs, s))
     | Inr (Directory _, root1) \<Rightarrow> (Inl TypeMismatch, (fs, s\<lparr>opfs := opfs s\<rparr>))
     | Inr (File f, root1) \<Rightarrow>
         (case opfs_directory_mut root1 dp (put_use dn (File f)) of
            Inl e \<Rightarrow> (Inl e, (fs, s\<lparr>opfs := (opfs s)(storage_origin_serialize origin \<mapsto> root1)\<rparr>))
          | Inr (_, root2) \<Rightarrow>
              persist_opfs_or_restore js io
                (fs, s\<lparr>opfs := (opfs s)(storage_origin_serialize origin \<mapsto> root2)\<rparr>) (opfs s)))"
    using True s by (intro opfs_move_run) simp_all
  show ?thesis
  proof (cases "\<exists>f root1. opfs_directory_mut root sp (take_use sn) = Inr (File f, root1)")
    case no_file: False
    show ?thesis
    proof (cases "opfs_directory_mut root sp (take_use sn)")
      case (Inl e1)
      then show ?thesis using run r s(1) by simp
    next
      case (Inr x)
      obtain entry root1 where x: "x = (entry, root1)" by (cases x)
      then obtain d where "entry = Directory d" using no_file Inr by (cases entry) auto
      then have "opfs_move_file js origin src dp dn io (fs, s) = (Inl TypeMismatch, (fs, s\<lparr>opfs := opfs s\<rparr>))"
        unfolding s(1) r Inr x by simp
      then have "s' = s\<lparr>opfs := opfs s\<rparr>" using run by simp
      then show ?thesis by simp
    qed
  next
    case True
    then obtain f root1 where t: "opfs_directory_mut root sp (take_use sn) = Inr (File f, root1)" by blast
    show ?thesis
    proof (cases "opfs_directory_mut root1 dp (put_use dn (File f))")
      case (Inl e1)
      then have s': "s' = s\<lparr>opfs := (opfs s)(storage_origin_serialize origin \<mapsto> root1)\<rparr>" using run r s(1) t by simp
      have "\<not> directory_exists s origin dp"
      proof
        assume "directory_exists s origin dp"
        then obtain d where "opfs_directory root dp = Inr d" using s(2) by (auto simp: directory_exists_def)
        from take_file_keeps_directories [OF t this] obtain d1 where "opfs_directory root1 dp = Inr d1" ..
        from put_use_exists [OF this, of dn "File f"] Inl show False by simp
      qed
      moreover have "file_of root1 = (file_map s origin)(src := None)"
        using take_file_flat [OF t] s by (simp add: file_map_def)
      ultimately show ?thesis using s' by (auto simp: lost_by_move_def)
    next
      case (Inr x)
      obtain root2 where x: "x = ((), root2)" by (cases x) auto
      have "persist_opfs_or_restore js io (fs, s\<lparr>opfs := (opfs s)(storage_origin_serialize origin \<mapsto> root2)\<rparr>) (opfs s)
          = (Inl e, (fs', s'))" using run r s(1) t Inr x by simp
      from persist_cases [OF this] show ?thesis by auto
    qed
  qed
qed

lemma opfs_run_Inl:
  assumes "opfs_run js origin op io (fs, s) = (Inl e, (fs', s'))"
  shows "(\<forall>key. root_or_empty s' key = root_or_empty s key) \<or> lost_by_move op origin s s'"
proof (cases op)
  case (CreateEntry p n dir)
  have "s' = s \<or> s' = s\<lparr>opfs := (opfs s)(storage_origin_serialize origin \<mapsto>
      root_or_empty s (storage_origin_serialize origin))\<rparr>"
    using opfs_get_handle_cases [OF assms(1) [unfolded CreateEntry opfs_run.simps]] by simp
  then show ?thesis by (auto simp: root_or_empty_def)
next
  case (WriteFile path bytes modified)
  have "opfs s' = opfs s"
    using opfs_write_cases [OF assms(1) [unfolded WriteFile opfs_run.simps]] by simp
  then show ?thesis by (simp add: root_or_empty_def)
next
  case (RemoveEntry p n rec)
  have "opfs s' = opfs s"
    using opfs_remove_cases [OF assms(1) [unfolded RemoveEntry opfs_run.simps]] by simp
  then show ?thesis by (simp add: root_or_empty_def)
next
  case (MoveFile src dp dn)
  show ?thesis using opfs_move_Inl [of js origin src dp dn io fs s e fs' s'] assms by (auto simp: MoveFile root_or_empty_def)
qed

section \<open>Memory and disk\<close>

lemma replace_file_cases:
  assumes "replace_file path temporary bytes io fs = (b, fs')"
  shows "b \<Longrightarrow> fs' path = Some bytes" "\<not> b \<Longrightarrow> temporary \<noteq> path \<Longrightarrow> fs' path = fs path"
  using assms by (auto simp: replace_file_def Let_def split: if_splits option.splits)

text \<open>Every operation that changes files ends in the common save.\<close>

lemma opfs_run_persists:
  assumes "opfs_run js origin op io (fs, s) = (res, (fs', s'))"
  shows "(\<exists>s1. opfs_path s1 = opfs_path s \<and> persist_opfs_or_restore js io (fs, s1) (opfs s) = (res, (fs', s')))
    \<or> fs' = fs \<and> opfs_path s' = opfs_path s
      \<and> (res = Inr () \<longrightarrow> s' = s\<lparr>opfs := (opfs s)(storage_origin_serialize origin \<mapsto>
            root_or_empty s (storage_origin_serialize origin))\<rparr>)"
proof (cases op)
  case (CreateEntry p n dir)
  show ?thesis
  proof (cases "validate_opfs_name n = Inr ()")
    case True
    show ?thesis
      using assms(1) unfolding CreateEntry opfs_run.simps opfs_get_handle_run [OF True]
      by (auto simp: Let_def split: sum.splits prod.splits if_splits)
  next
    case False
    then have "validate_opfs_name n = Inl InvalidName" using validate_cases by blast
    then show ?thesis using assms(1) by (auto simp: CreateEntry opfs_get_handle_def)
  qed
next
  case (WriteFile path bytes modified)
  show ?thesis
    using assms(1)
    by (auto simp: WriteFile opfs_write_def Let_def split: option.splits sum.splits prod.splits if_splits)
next
  case (RemoveEntry p n rec)
  show ?thesis
    using assms(1)
    by (auto simp: RemoveEntry opfs_remove_def Let_def split: option.splits sum.splits prod.splits if_splits)
next
  case (MoveFile src dp dn)
  show ?thesis
    using assms(1)
    by (auto simp: MoveFile opfs_move_file_def Let_def
        split: option.splits sum.splits prod.splits if_splits OpfsEntry.splits)
qed

lemma persist_disk:
  assumes "persist_opfs_or_restore js io (fs, s1) old = (res, (fs', s'))" "opfs_path s1 = Some path"
    and json: "\<And>t b. json_opfs_to_vec js t = Inr b \<Longrightarrow> json_opfs_from_slice js b = Inr t"
    and tmp: "with_extension path ''json.tmp'' \<noteq> path"
  shows "res = Inr () \<Longrightarrow> load_opfs js path fs' = Inr (opfs s')"
    "res = Inl e \<Longrightarrow> load_opfs js path fs' = load_opfs js path fs \<and> opfs s' = old"
    "opfs_path s' = Some path"
proof -
  have run: "(case save_opfs js path (opfs s1) io fs of
       (False, fs') \<Rightarrow> (Inl OpfsIo, (fs', s1\<lparr>opfs := old\<rparr>))
     | (True, fs') \<Rightarrow> (Inr (), (fs', s1))) = (res, (fs', s'))"
    using assms(1,2) by (simp add: persist_opfs_or_restore_def)
  obtain b fs2 where sv: "save_opfs js path (opfs s1) io fs = (b, fs2)" by fastforce
  note rep = replace_file_cases [of path "with_extension path ''json.tmp''" _ io fs b fs2]
  show "load_opfs js path fs' = Inr (opfs s')" if "res = Inr ()"
    using run sv that rep(1) json
    by (auto simp: save_opfs_def load_opfs_def split: bool.splits sum.splits)
  show "load_opfs js path fs' = load_opfs js path fs \<and> opfs s' = old" if "res = Inl e"
    using run sv that rep(2) [OF _ _ tmp]
    by (auto simp: save_opfs_def load_opfs_def split: bool.splits sum.splits)
  show "opfs_path s' = Some path" using run sv assms(2) by (auto split: bool.splits)
qed

text \<open>The temporary file of a profile is not the file itself.\<close>

lemma profile_temporary_differs:
  "with_extension (with_file_name profile ''opfs.json'') ''json.tmp'' \<noteq> with_file_name profile ''opfs.json''"
proof -
  let ?x = "with_file_name profile ''opfs.json''"
  obtain d fname where sp: "split_file_name ?x = (d, fname)" by fastforce
  have rx: "rev ?x = CHR ''n'' # rev (fst (split_file_name profile) @ ''opfs.jso'')"
    by (simp add: with_file_name_def)
  have "fname = rev (takeWhile (\<lambda>c. c \<noteq> CHR ''/'') (rev ?x))"
    using sp by (simp add: split_file_name_def Let_def)
  then have "last fname = CHR ''n'' \<and> fname \<noteq> []" unfolding rx by simp
  then have "fname \<notin> {'''', ''..''}" by auto
  then have p: "last (with_extension ?x ''json.tmp'') = CHR ''p''"
    by (simp add: with_extension_def sp)
  have n: "last ?x = CHR ''n''" by (simp add: with_file_name_def)
  show ?thesis
  proof
    assume "with_extension ?x ''json.tmp'' = ?x"
    with p n have "CHR ''p'' = CHR ''n''" by (simp only:)
    then show False by simp
  qed
qed

text \<open>The profile's file decodes to the trees in memory; an origin that was only looked at has an empty tree in memory and
  none on disk.\<close>

definition tree_or_empty :: "(string \<rightharpoonup> OpfsDirectory) \<Rightarrow> string \<Rightarrow> OpfsDirectory" where
  "tree_or_empty t key = (case t key of Some d \<Rightarrow> d | None \<Rightarrow> OpfsDirectory [])"

definition disk_agrees :: "json_crate \<Rightarrow> string \<Rightarrow> profile \<Rightarrow> bool" where
  "disk_agrees js path w \<longleftrightarrow>
     (\<exists>t. load_opfs js path (fst w) = Inr t \<and> (\<forall>key. tree_or_empty t key = tree_or_empty (opfs (snd w)) key))"

lemma root_or_empty_tree: "root_or_empty s key = tree_or_empty (opfs s) key"
  by (simp add: root_or_empty_def tree_or_empty_def)

lemma opfs_run_disk:
  assumes run: "opfs_run js origin op io (fs, s) = (res, (fs', s'))"
    and path: "opfs_path s = Some path" "with_extension path ''json.tmp'' \<noteq> path"
    and json: "\<And>t b. json_opfs_to_vec js t = Inr b \<Longrightarrow> json_opfs_from_slice js b = Inr t"
    and agree: "disk_agrees js path (fs, s)"
    and op: "\<And>src dp dn. op = MoveFile src dp dn \<Longrightarrow> directory_exists s origin dp"
  shows "disk_agrees js path (fs', s') \<and> opfs_path s' = Some path"
  using opfs_run_persists [OF run]
proof
  assume "\<exists>s1. opfs_path s1 = opfs_path s \<and> persist_opfs_or_restore js io (fs, s1) (opfs s) = (res, (fs', s'))"
  then obtain s1 where s1: "opfs_path s1 = Some path"
      "persist_opfs_or_restore js io (fs, s1) (opfs s) = (res, (fs', s'))"
    using path(1) by auto
  note disk = persist_disk [OF s1(2,1) json path(2)]
  show ?thesis
  proof (cases res)
    case (Inl e)
    then have "load_opfs js path fs' = load_opfs js path fs" "opfs s' = opfs s" using disk(2) by auto
    then have "disk_agrees js path (fs', s')" using agree by (simp add: disk_agrees_def)
    then show ?thesis using disk(3) by simp
  next
    case (Inr u)
    then have "load_opfs js path fs' = Inr (opfs s')" using disk(1) by simp
    then have "disk_agrees js path (fs', s')" by (simp add: disk_agrees_def)
    then show ?thesis using disk(3) by simp
  qed
next
  assume r: "fs' = fs \<and> opfs_path s' = opfs_path s \<and> (res = Inr () \<longrightarrow> s' = s\<lparr>opfs := (opfs s)
      (storage_origin_serialize origin \<mapsto> root_or_empty s (storage_origin_serialize origin))\<rparr>)"
  have "root_or_empty s' key = root_or_empty s key" for key
  proof (cases res)
    case (Inl e)
    then show ?thesis using opfs_run_Inl [of js origin op io fs s e fs' s'] run op by (auto simp: lost_by_move_def)
  next
    case (Inr u)
    with r have "s' = s\<lparr>opfs := (opfs s)
      (storage_origin_serialize origin \<mapsto> root_or_empty s (storage_origin_serialize origin))\<rparr>" by simp
    then show ?thesis by (simp add: root_or_empty_def)
  qed
  then show ?thesis using r agree path(1) by (simp add: disk_agrees_def root_or_empty_tree)
qed

section \<open>File locks\<close>

text \<open>The lock operations as events, and the table they build: one key per locked file, never an
  empty list, and several locks on a file only if all are siloed.\<close>

datatype opfs_lock_event =
  AcquireLock nat StorageOrigin "string list" OpfsLockMode | ReleaseLock nat | ReleaseDocument nat

fun opfs_lock_step :: "opfs_lock_event \<Rightarrow> StorageState \<Rightarrow> StorageState" where
  "opfs_lock_step (AcquireLock owner origin path mode) s = snd (opfs_acquire_lock owner origin path mode s)"
| "opfs_lock_step (ReleaseLock i) s = opfs_release_lock i s"
| "opfs_lock_step (ReleaseDocument owner) s = opfs_release_document_locks owner s"

definition opfs_locks_ok :: "StorageState \<Rightarrow> bool" where
  "opfs_locks_ok s \<longleftrightarrow>
     distinct (map fst (opfs_locks s))
   \<and> (\<forall>k ls. map_of (opfs_locks s) k = Some ls \<longrightarrow>
        ls \<noteq> [] \<and> (length ls \<le> 1 \<or> (\<forall>l\<in>set ls. ol_mode l = Siloed)))"

lemma map_of_retain:
  assumes "distinct (map fst al)"
  shows "map_of (filter (\<lambda>(_, ls). ls \<noteq> []) (map (\<lambda>(k, ls). (k, filter keep ls)) al)) k =
    (case map_of al k of None \<Rightarrow> None | Some ls \<Rightarrow> if filter keep ls = [] then None else Some (filter keep ls))"
  using assms
proof (induction al)
  case (Cons a al)
  obtain k0 ls0 where a: "a = (k0, ls0)" by fastforce
  have "map_of al k0 = None" using Cons.prems by (simp add: a map_of_eq_None_iff)
  with Cons show ?case by (cases "k = k0") (simp_all add: a)
qed simp

lemma map_of_retain_locks:
  assumes "opfs_locks_ok s"
  shows "map_of (opfs_locks (retain_locks keep s)) k =
    (case map_of (opfs_locks s) k of None \<Rightarrow> None
     | Some ls \<Rightarrow> if filter keep ls = [] then None else Some (filter keep ls))"
  using map_of_retain [of "opfs_locks s" keep k] assms by (simp add: retain_locks_def opfs_locks_ok_def)

lemma retain_locks_ok [keeps]:
  assumes ok: "opfs_locks_ok s"
  shows "opfs_locks_ok (retain_locks keep s)"
proof -
  have "map fst (map (\<lambda>(k, ls). (k, filter keep ls)) (opfs_locks s)) = map fst (opfs_locks s)"
    by (rule nth_equalityI) (auto simp: case_prod_beta)
  then have "distinct (map fst (map (\<lambda>(k, ls). (k, filter keep ls)) (opfs_locks s)))"
    using ok by (simp only: opfs_locks_ok_def)
  moreover have eq: "opfs_locks (retain_locks keep s) =
      filter (\<lambda>(_, ls). ls \<noteq> []) (map (\<lambda>(k, ls). (k, filter keep ls)) (opfs_locks s))"
    by (simp add: retain_locks_def)
  ultimately have "distinct (map fst (opfs_locks (retain_locks keep s)))"
    using eq distinct_map_filterI by metis
  moreover have "ls' \<noteq> [] \<and> (length ls' \<le> 1 \<or> (\<forall>l\<in>set ls'. ol_mode l = Siloed))"
    if look: "map_of (opfs_locks (retain_locks keep s)) k = Some ls'" for k ls'
  proof -
    obtain ls where ls: "map_of (opfs_locks s) k = Some ls" "ls' = filter keep ls" "ls' \<noteq> []"
      using look unfolding map_of_retain_locks [OF ok] by (auto split: option.splits if_splits)
    have "length ls \<le> 1 \<or> (\<forall>l\<in>set ls. ol_mode l = Siloed)"
      using ok ls(1) unfolding opfs_locks_ok_def by blast
    moreover have "length ls' \<le> length ls" by (simp add: ls(2))
    moreover have "set ls' \<subseteq> set ls" by (simp add: ls(2))
    ultimately show ?thesis using ls(3) by (meson le_trans subsetD)
  qed
  ultimately show ?thesis unfolding opfs_locks_ok_def by blast
qed

lemma acquire_lock_cases:
  "opfs_acquire_lock owner origin path mode s = (Inl Locked, s)
   \<or> (\<exists>ls l. (ls = [] \<and> map_of (opfs_locks s) (origin, path) = None
          \<or> map_of (opfs_locks s) (origin, path) = Some ls \<and> mode = Siloed
            \<and> (\<forall>l\<in>set ls. ol_mode l = Siloed))
        \<and> l = \<lparr>ol_id = next_opfs_lock_id s, ol_owner = owner, ol_mode = mode\<rparr>
        \<and> opfs_acquire_lock owner origin path mode s =
            (Inr (next_opfs_lock_id s),
             s\<lparr>next_opfs_lock_id := saturating_add (next_opfs_lock_id s) 1,
               opfs_locks := AList.update (origin, path) (ls @ [l]) (opfs_locks s)\<rparr>))"
  by (cases "map_of (opfs_locks s) (origin, path)")
    (simp_all add: opfs_acquire_lock_def Let_def list_all_iff)

lemma acquire_lock_ok [keeps]:
  assumes ok: "opfs_locks_ok s"
  shows "opfs_locks_ok (snd (opfs_acquire_lock owner origin path mode s))"
  using acquire_lock_cases [of owner origin path mode s]
proof
  assume "opfs_acquire_lock owner origin path mode s = (Inl Locked, s)"
  then show ?thesis using ok by simp
next
  assume "\<exists>ls l. (ls = [] \<and> map_of (opfs_locks s) (origin, path) = None
          \<or> map_of (opfs_locks s) (origin, path) = Some ls \<and> mode = Siloed
            \<and> (\<forall>l\<in>set ls. ol_mode l = Siloed))
        \<and> l = \<lparr>ol_id = next_opfs_lock_id s, ol_owner = owner, ol_mode = mode\<rparr>
        \<and> opfs_acquire_lock owner origin path mode s =
            (Inr (next_opfs_lock_id s),
             s\<lparr>next_opfs_lock_id := saturating_add (next_opfs_lock_id s) 1,
               opfs_locks := AList.update (origin, path) (ls @ [l]) (opfs_locks s)\<rparr>)"
  then show ?thesis
  proof (elim exE conjE)
    fix ls l
    assume a: "ls = [] \<and> map_of (opfs_locks s) (origin, path) = None
          \<or> map_of (opfs_locks s) (origin, path) = Some ls \<and> mode = Siloed
            \<and> (\<forall>l\<in>set ls. ol_mode l = Siloed)"
      "l = \<lparr>ol_id = next_opfs_lock_id s, ol_owner = owner, ol_mode = mode\<rparr>"
      "opfs_acquire_lock owner origin path mode s =
            (Inr (next_opfs_lock_id s),
             s\<lparr>next_opfs_lock_id := saturating_add (next_opfs_lock_id s) 1,
               opfs_locks := AList.update (origin, path) (ls @ [l]) (opfs_locks s)\<rparr>)"
    have c: "ls = [] \<or> mode = Siloed \<and> (\<forall>l\<in>set ls. ol_mode l = Siloed)" using a(1) by blast
    show ?thesis
      using ok c unfolding opfs_locks_ok_def a(3) by (auto simp: distinct_update update_conv' a(2))
  qed
qed

lemma opfs_lock_step_ok [keeps]: "opfs_locks_ok s \<Longrightarrow> opfs_locks_ok (opfs_lock_step e s)"
  by (cases e) (simp_all add: acquire_lock_ok retain_locks_ok opfs_release_lock_def
      opfs_release_document_locks_def)

inductive opfs_lock_reach :: "StorageState \<Rightarrow> bool" where
  none: "opfs_locks s = [] \<Longrightarrow> opfs_lock_reach s"
| step: "opfs_lock_reach s \<Longrightarrow> opfs_lock_reach (opfs_lock_step e s)"
| other: "opfs_lock_reach s \<Longrightarrow> opfs_locks s' = opfs_locks s \<Longrightarrow> opfs_lock_reach s'"

lemma opfs_lock_reach_ok: "opfs_lock_reach s \<Longrightarrow> opfs_locks_ok s"
  by (induction rule: opfs_lock_reach.induct)
    (simp_all add: opfs_lock_step_ok, simp_all add: opfs_locks_ok_def)

text \<open>A lock stays until it or its document is released.\<close>

definition locked_by :: "StorageState \<Rightarrow> StorageOrigin \<Rightarrow> string list \<Rightarrow> OpfsLock \<Rightarrow> bool" where
  "locked_by s origin path l \<longleftrightarrow>
     (\<exists>ls. map_of (opfs_locks s) (origin, path) = Some ls \<and> l \<in> set ls)"

lemma retain_keeps_lock:
  "opfs_locks_ok s \<Longrightarrow> locked_by s origin path l \<Longrightarrow> keep l \<Longrightarrow> locked_by (retain_locks keep s) origin path l"
  by (auto simp: locked_by_def map_of_retain_locks filter_empty_conv)

lemma lock_step_keeps_lock:
  assumes "opfs_locks_ok s" "locked_by s origin path l"
    and "e \<noteq> ReleaseLock (ol_id l)" "e \<noteq> ReleaseDocument (ol_owner l)"
  shows "locked_by (opfs_lock_step e s) origin path l"
proof (cases e)
  case (AcquireLock owner o2 p2 mode)
  show ?thesis
    using acquire_lock_cases [of owner o2 p2 mode s] assms(2)
    by (auto simp: AcquireLock locked_by_def update_conv')
next
  case (ReleaseLock i)
  then show ?thesis using assms by (auto simp: opfs_release_lock_def intro: retain_keeps_lock)
next
  case (ReleaseDocument owner)
  then show ?thesis using assms by (auto simp: opfs_release_document_locks_def intro: retain_keeps_lock)
qed

lemma zip_prefix: "length p \<le> length q \<and> list_all (\<lambda>(l, r). l = r) (zip p q) \<longleftrightarrow> prefix p q"
proof (induction p arbitrary: q)
  case (Cons x p)
  then show ?case by (cases q) auto
qed simp

lemma locked_by_path:
  assumes "locked_by s origin locked l" "prefix path locked"
  shows "opfs_path_has_lock s origin path"
proof -
  obtain ls where "((origin, locked), ls) \<in> set (opfs_locks s)"
    using assms(1) by (auto simp: locked_by_def dest: map_of_SomeD)
  moreover have "length path \<le> length locked \<and> list_all (\<lambda>(l, r). l = r) (zip path locked)"
    using assms(2) zip_prefix by blast
  ultimately show ?thesis unfolding opfs_path_has_lock_def list_ex_iff by fastforce
qed

lemma acquire_locks:
  assumes "opfs_acquire_lock owner origin path mode s = (Inr i, s1)"
  shows "locked_by s1 origin path \<lparr>ol_id = i, ol_owner = owner, ol_mode = mode\<rparr>"
  using acquire_lock_cases [of owner origin path mode s] assms
  by (auto simp: locked_by_def update_conv')

lemma locked_refuses:
  assumes "opfs_path_has_lock s origin (parent @ [name])" "validate_opfs_name name = Inr ()"
  shows "opfs_remove js origin parent name recursive io (fs, s) = (Inl Locked, (fs, s))"
    "opfs_move_file js origin src parent name io (fs, s) = (Inl Locked, (fs, s))"
    "validate_opfs_name dn = Inr () \<Longrightarrow>
       opfs_move_file js origin (parent @ [name]) dp dn io (fs, s) = (Inl Locked, (fs, s))"
  using assms by (simp_all add: opfs_remove_def opfs_move_file_def)

section \<open>The properties\<close>

definition demo_site :: StorageOrigin where
  "demo_site = \<lparr>so_scheme = ''https'', so_host = ''a.test'', so_port = 443\<rparr>"

definition no_faults :: io_faults where
  "no_faults = \<lparr>fail_create_dir = False, fail_write = None, fail_rename = False\<rparr>"

definition demo_key :: string where
  "demo_key = storage_origin_serialize demo_site"

text \<open>A JSON encoder that knows one tree, enough for the witnesses.\<close>

definition demo_opfs_tree :: "string \<rightharpoonup> OpfsDirectory" where
  "demo_opfs_tree = [demo_key \<mapsto> OpfsDirectory [(''a'', File new_file)]]"

definition demo_json :: json_crate where
  "demo_json =
     \<lparr>json_string_field = (\<lambda>_ _. None),
      json_strings_to_vec = (\<lambda>_. Inl ''''), json_strings_from_slice = (\<lambda>_. Inl ''''),
      json_opfs_to_vec = (\<lambda>t. if t = demo_opfs_tree then Inr [1] else Inl ''''),
      json_opfs_from_slice = (\<lambda>_. Inr demo_opfs_tree)\<rparr>"

definition demo_opfs :: StorageState where
  "demo_opfs = storage_state_default\<lparr>opfs := demo_opfs_tree\<rparr>"

lemma demo_opfs_sel [simp]:
  "opfs demo_opfs = demo_opfs_tree" "opfs_locks demo_opfs = []" "opfs_path demo_opfs = None"
  "quota_bytes demo_opfs = default_quota_bytes"
  by (simp_all add: demo_opfs_def storage_state_default_def)

lemma demo_opfs_tree_at [simp]: "demo_opfs_tree demo_key = Some (OpfsDirectory [(''a'', File new_file)])"
  by (simp add: demo_opfs_tree_def)

lemma demo_valid [simp]: "validate_opfs_name ''a'' = Inr ()" "validate_opfs_name ''b'' = Inr ()"
  by (simp_all add: validate_opfs_name_def)

lemma demo_web [simp]: "web_origin demo_site"
  by (simp add: web_origin_def demo_site_def)

text \<open>
C24: The trees implement flat maps from paths to files, one per origin.  Creating an entry, writing a file, removing an entry and moving a
  file, when they succeed, do to the files of their origin what the same operation does to the map; when they fail, for whatever reason
  (a bad name, a lock, the quota, a failed save), every file is as before, with one exception: a move whose destination directory does
  not exist may have taken its source away.  The files of every other web origin stay as they are, and reading a path yields exactly what the map holds.
\<close>

theorem opfs_refines_flat_files:
  assumes "opfs_run js origin op io (fs, s) = (res, (fs', s'))"
    and "web_origin origin" "web_origin origin'"
  shows "(res = Inr () \<longrightarrow> flat_ready op (file_map s origin) \<and> file_map s' origin = flat_step op (file_map s origin))
    \<and> (\<forall>e. res = Inl e \<longrightarrow> file_map s' origin = file_map s origin
         \<or> (\<exists>src dp dn. op = MoveFile src dp dn \<and> \<not> directory_exists s origin dp
              \<and> file_map s' origin = (file_map s origin)(src := None)))
    \<and> (origin' \<noteq> origin \<longrightarrow> file_map s' origin' = file_map s origin')
    \<and> (\<forall>path f. opfs_file origin' path s' = Inr f \<longleftrightarrow> file_map s' origin' path = Some f)"
proof -
  have ser: "storage_origin_serialize origin' = storage_origin_serialize origin \<longleftrightarrow> origin' = origin"
    using serialize_injective assms(2,3) unfolding web_origin_def by blast
  show ?thesis
  proof (cases res)
    case (Inl e)
    from opfs_run_Inl [OF assms(1) [unfolded Inl]] show ?thesis
    proof
      assume "\<forall>key. root_or_empty s' key = root_or_empty s key"
      then show ?thesis using Inl by (simp add: file_map_root opfs_file_eq)
    next
      assume "lost_by_move op origin s s'"
      then obtain src dp dn root where l: "op = MoveFile src dp dn" "\<not> directory_exists s origin dp"
        "s' = s\<lparr>opfs := (opfs s)(storage_origin_serialize origin \<mapsto> root)\<rparr>" "file_of root = (file_map s origin)(src := None)"
        unfolding lost_by_move_def by blast
      have "file_map s' origin = (file_map s origin)(src := None)" using l(3,4) file_map_put by metis
      moreover have "origin' \<noteq> origin \<longrightarrow> file_map s' origin' = file_map s origin'" using l(3) ser file_map_put by metis
      ultimately show ?thesis using Inl l(1,2) by (simp add: opfs_file_eq)
    qed
  next
    case (Inr u)
    then have run: "opfs_run js origin op io (fs, s) = (Inr (), (fs', s'))" using assms(1) by simp
    obtain root' where r: "s' = s\<lparr>opfs := (opfs s)(storage_origin_serialize origin \<mapsto> root')\<rparr>"
        "file_of root' = flat_step op (file_map s origin)"
      using opfs_run_Inr [OF run] by blast
    have "file_map s' origin = flat_step op (file_map s origin)" using r file_map_put by metis
    moreover have "origin' \<noteq> origin \<longrightarrow> file_map s' origin' = file_map s origin'" using r(1) ser file_map_put by metis
    ultimately show ?thesis using Inr opfs_run_ready [OF run] by (simp add: opfs_file_eq)
  qed
qed

theorem opfs_refines_flat_files_witness:
  "\<exists>w. opfs_run demo_json demo_site (MoveFile [''a''] [] ''b'') no_faults (Map.empty, demo_opfs) = (Inr (), w)
     \<and> file_map (snd w) demo_site [''b''] = Some new_file
     \<and> file_map (snd w) demo_site [''a''] = None"
proof -
  let ?op = "MoveFile [''a''] [] ''b''"
  obtain res fs' s' where run: "opfs_run demo_json demo_site ?op no_faults (Map.empty, demo_opfs) = (res, (fs', s'))"
    by (metis surj_pair)
  have "res = Inr ()"
    using run by (simp add: opfs_move_file_def opfs_path_has_lock_def split_last_def
        persist_opfs_or_restore_def demo_key_def [symmetric])
  with run opfs_refines_flat_files [of demo_json demo_site ?op no_faults Map.empty demo_opfs res fs' s' demo_site]
  have "file_map s' demo_site = flat_step ?op (file_map demo_opfs demo_site)" by simp
  with run \<open>res = Inr ()\<close> show ?thesis by (auto simp: file_map_def demo_key_def [symmetric])
qed

text \<open>
C25: A write that succeeds is read back byte for byte with its modification time; the name was a
  file of the origin before, the origin's tree then fits the quota, and every other file, of this origin and of every other web origin,
  is read as before.
\<close>

theorem opfs_write_read_back:
  assumes "opfs_write js origin path bytes modified io (fs, s) = (Inr (), (fs', s'))"
  shows "opfs_file origin path s' = Inr \<lparr>file_bytes = bytes, file_modified = modified\<rparr>
    \<and> (\<exists>f. opfs_file origin path s = Inr f)
    \<and> (\<exists>root. opfs s' (storage_origin_serialize origin) = Some root
              \<and> opfs_directory_usage root \<le> quota_bytes s')
    \<and> (\<forall>origin' path' f. origin' = origin \<or> web_origin origin \<and> web_origin origin' \<longrightarrow> (origin', path') \<noteq> (origin, path) \<longrightarrow>
         (opfs_file origin' path' s' = Inr f \<longleftrightarrow> opfs_file origin' path' s = Inr f))"
proof -
  note spec = opfs_write_spec [OF assms(1)]
  have "file_map s' origin' path' = file_map s origin' path'" if "origin' = origin \<or> web_origin origin \<and> web_origin origin'" "(origin', path') \<noteq> (origin, path)" for origin' path'
  proof (cases "origin' = origin")
    case True
    then show ?thesis using that(2) spec(1) by simp
  next
    case False
    then have "storage_origin_serialize origin' \<noteq> storage_origin_serialize origin"
      using serialize_injective that(1) unfolding web_origin_def by blast
    then show ?thesis using spec(3) by simp
  qed
  then show ?thesis using spec(1,2,4) by (auto simp: opfs_file_eq)
qed

theorem opfs_write_read_back_witness:
  "\<exists>w. opfs_write demo_json demo_site [''a''] [7, 8] 9 no_faults (Map.empty, demo_opfs) = (Inr (), w)
     \<and> opfs_file demo_site [''a''] (snd w) = Inr \<lparr>file_bytes = [7, 8], file_modified = 9\<rparr>"
proof -
  obtain res fs' s' where run:
      "opfs_write demo_json demo_site [''a''] [7, 8] 9 no_faults (Map.empty, demo_opfs) = (res, (fs', s'))"
    by (metis surj_pair)
  have "res = Inr ()"
    using run by (simp add: opfs_write_def split_last_def persist_opfs_or_restore_def
        demo_key_def [symmetric] default_quota_bytes_def saturating_add_def u64_max_def)
  with run opfs_write_read_back [of demo_json demo_site "[''a'']" "[7, 8]" 9 no_faults Map.empty demo_opfs fs' s']
  show ?thesis by auto
qed

text \<open>A run of operations, each with its own faults.\<close>

fun opfs_run_all ::
  "json_crate \<Rightarrow> (StorageOrigin \<times> opfs_op \<times> io_faults) list \<Rightarrow> profile \<Rightarrow> profile" where
  "opfs_run_all js [] w = w"
| "opfs_run_all js ((origin, op, io) # ops) w = opfs_run_all js ops (snd (opfs_run js origin op io w))"

text \<open>Every move of a run goes into a directory that exists at its time.\<close>

fun moves_arrive :: "json_crate \<Rightarrow> (StorageOrigin \<times> opfs_op \<times> io_faults) list \<Rightarrow> profile \<Rightarrow> bool" where
  "moves_arrive js [] w = True"
| "moves_arrive js ((origin, op, io) # ops) w =
     ((case op of MoveFile src dp dn \<Rightarrow> directory_exists (snd w) origin dp | _ \<Rightarrow> True)
      \<and> moves_arrive js ops (snd (opfs_run js origin op io w)))"

text \<open>
C26: A durable profile survives a restart at any point: whatever sequence of creations,
  writes, removals and moves into existing directories ran, whether each succeeded or was refused, and whichever of their saves failed (no directory, a partial
  write of the temporary file, no rename), the file system loaded from the profile's
  file has exactly the directory trees that are in memory (an origin without a saved tree has the empty one).
\<close>

theorem opfs_survives_restart:
  assumes "\<forall>t b. json_opfs_to_vec js t = Inr b \<longrightarrow> json_opfs_from_slice js b = Inr t"
    and "path = with_file_name profile ''opfs.json''" "opfs_path (snd w) = Some path"
    and "disk_agrees js path w"
    and "moves_arrive js ops w"
  shows "disk_agrees js path (opfs_run_all js ops w)"
  using assms(3-5)
proof (induction ops arbitrary: w)
  case (Cons e ops)
  obtain origin op io where e: "e = (origin, op, io)" by (cases e) auto
  obtain fs s where w: "w = (fs, s)" by fastforce
  obtain res fs' s' where run: "opfs_run js origin op io (fs, s) = (res, (fs', s'))"
    by (metis surj_pair)
  have tmp: "with_extension path ''json.tmp'' \<noteq> path"
    unfolding assms(2) by (rule profile_temporary_differs)
  have op: "directory_exists s origin dp" if "op = MoveFile src dp dn" for src dp dn
    using Cons.prems(3) that by (simp add: e w)
  have path: "opfs_path s = Some path" "disk_agrees js path (fs, s)" using Cons.prems(1,2) by (simp_all add: w)
  have "disk_agrees js path (fs', s') \<and> opfs_path s' = Some path"
    by (rule opfs_run_disk [OF run path(1) tmp _ path(2) op]) (use assms(1) in auto)
  then have "disk_agrees js path (opfs_run_all js ops (fs', s'))"
    using Cons.IH [of "(fs', s')"] Cons.prems(3) by (simp add: e w run)
  then show ?case by (simp add: e w run)
qed simp

theorem opfs_survives_restart_witness:
  "\<exists>path. disk_agrees demo_json path
     (opfs_run_all demo_json
        [(demo_site, WriteFile [''a''] [7] 9, no_faults\<lparr>fail_write := Some [0]\<rparr>),
         (demo_site, RemoveEntry [] ''a'' False, no_faults\<lparr>fail_rename := True\<rparr>)]
        ([path \<mapsto> [1]], demo_opfs\<lparr>opfs_path := Some path\<rparr>))"
proof -
  let ?path = "with_file_name ''profile/origins.json'' ''opfs.json''"
  let ?w = "([?path \<mapsto> [1]], demo_opfs\<lparr>opfs_path := Some ?path\<rparr>)"
  have "\<forall>t b. json_opfs_to_vec demo_json t = Inr b \<longrightarrow> json_opfs_from_slice demo_json b = Inr t"
    by (auto simp: demo_json_def split: if_splits)
  moreover have "disk_agrees demo_json ?path ?w"
    by (auto simp: disk_agrees_def load_opfs_def demo_json_def)
  ultimately show ?thesis
    by (intro exI [of _ ?path] opfs_survives_restart [OF _ refl]) auto
qed

text \<open>
C27: A failed move is not atomic: when the source is an unlocked file and the destination's
  directory does not exist, the call reports an error, and the file is gone, under its old
  name and every other.
\<close>

theorem opfs_failed_move_loses_file:
  assumes "file_map s origin src = Some f"
    and "opfs s (storage_origin_serialize origin) = Some root" "opfs_directory root dp = Inl e"
    and "validate_opfs_name dn = Inr ()"
    and "\<not> opfs_path_has_lock s origin src" "\<not> opfs_path_has_lock s origin (dp @ [dn])"
  shows "\<exists>e' s'. opfs_move_file js origin src dp dn io (fs, s) = (Inl e', (fs, s'))
    \<and> file_map s' origin = (file_map s origin)(src := None)"
proof -
  have root: "file_of root src = Some f" using assms(1,2) by (simp add: file_map_def)
  obtain sp sn where src: "src = sp @ [sn]" using root by (cases src rule: rev_cases) auto
  note run = opfs_move_run [OF assms(4) assms(5) [unfolded src] assms(6,2)]
  obtain root1 where t: "opfs_directory_mut root sp (take_use sn) = Inr (File f, root1)"
    using take_file_exists [of root sp sn f] root src by blast
  have "\<exists>e'. opfs_directory root1 dp = Inl e'"
    using take_file_directories [OF t, of dp] assms(3) by (cases "opfs_directory root1 dp") auto
  then obtain e' where "opfs_directory_mut root1 dp (put_use dn (File f)) = Inl e'"
    using opfs_directory_mut_Inl by blast
  moreover have "file_of root1 = (file_of root)(src := None)"
    by (rule take_file_flat [OF t, folded src])
  ultimately show ?thesis
    using run t assms(2) by (simp add: src file_map_def)
qed

theorem opfs_failed_move_loses_file_witness:
  "\<exists>s'. opfs_move_file demo_json demo_site [''a''] [''missing''] ''b'' no_faults (Map.empty, demo_opfs)
     = (Inl NotFound, (Map.empty, s'))
   \<and> file_map demo_opfs demo_site [''a''] = Some new_file \<and> file_map s' demo_site [''a''] = None"
proof -
  have a: "file_map demo_opfs demo_site [''a''] = Some new_file"
    by (simp add: file_map_def demo_key_def [symmetric])
  obtain e' s' where r: "opfs_move_file demo_json demo_site [''a''] [''missing''] ''b'' no_faults (Map.empty, demo_opfs)
     = (Inl e', (Map.empty, s'))" "file_map s' demo_site = (file_map demo_opfs demo_site)([''a''] := None)"
    using opfs_failed_move_loses_file [OF a, of "OpfsDirectory [(''a'', File new_file)]" "[''missing'']" NotFound
        "''b''" demo_json no_faults Map.empty]
    by (auto simp: demo_key_def [symmetric] opfs_path_has_lock_def)
  have "e' = NotFound"
    using r(1) by (simp add: opfs_move_file_def opfs_path_has_lock_def split_last_def demo_key_def [symmetric])
  with r a show ?thesis by simp
qed

text \<open>
A file lock protects its path: after a lock is acquired, and through any later lock
  operations that release neither that lock nor its document, removing or moving the
  file or any directory above it is refused and changes nothing; and at any moment two
  different locks of one file are both siloed.
\<close>

theorem opfs_lock_protects:
  assumes "opfs_lock_reach s"
    and acquired: "opfs_acquire_lock owner origin path mode s = (Inr lock_id, s1)"
    and "ReleaseLock lock_id \<notin> set es" "ReleaseDocument owner \<notin> set es"
    and "prefix (parent @ [name]) path"
    and "validate_opfs_name name = Inr ()" "validate_opfs_name dn = Inr ()"
  defines "s2 \<equiv> fold opfs_lock_step es s1"
  shows "opfs_remove js origin parent name recursive io (fs, s2) = (Inl Locked, (fs, s2))
    \<and> opfs_move_file js origin src parent name io (fs, s2) = (Inl Locked, (fs, s2))
    \<and> opfs_move_file js origin (parent @ [name]) dp dn io (fs, s2) = (Inl Locked, (fs, s2))
    \<and> (locked_by s2 origin path l \<longrightarrow> locked_by s2 origin path l' \<longrightarrow> l \<noteq> l' \<longrightarrow>
         ol_mode l = Siloed \<and> ol_mode l' = Siloed)"
proof -
  let ?l = "\<lparr>ol_id = lock_id, ol_owner = owner, ol_mode = mode\<rparr>"
  have "s1 = opfs_lock_step (AcquireLock owner origin path mode) s" using acquired by simp
  then have "opfs_locks_ok s1" using opfs_lock_reach_ok [OF assms(1)] opfs_lock_step_ok by metis
  then have "opfs_locks_ok s2 \<and> locked_by s2 origin path ?l"
    using acquire_locks [OF acquired] assms(3,4) unfolding s2_def
  proof (induction es arbitrary: s1)
    case (Cons e es)
    have "opfs_locks_ok (opfs_lock_step e s1)" "locked_by (opfs_lock_step e s1) origin path ?l"
      using Cons.prems by (auto intro: opfs_lock_step_ok lock_step_keeps_lock)
    then show ?case using Cons by simp
  qed simp
  then have ok: "opfs_locks_ok s2" and "opfs_path_has_lock s2 origin (parent @ [name])"
    using locked_by_path assms(5) by blast+
  note refused = locked_refuses [OF this(2) assms(6)]
  have "ol_mode l = Siloed \<and> ol_mode l' = Siloed"
    if two: "locked_by s2 origin path l" "locked_by s2 origin path l'" "l \<noteq> l'"
  proof -
    obtain ls where ls: "map_of (opfs_locks s2) (origin, path) = Some ls" "l \<in> set ls" "l' \<in> set ls"
      using two(1,2) by (auto simp: locked_by_def)
    have "\<not> length ls \<le> 1" using ls(2,3) two(3) by (cases ls; cases "tl ls") auto
    with ok ls show ?thesis unfolding opfs_locks_ok_def by blast
  qed
  with refused assms(7) show ?thesis by blast
qed

theorem opfs_lock_protects_witness:
  "\<exists>i s1. opfs_acquire_lock 3 demo_site [''a''] OpfsExclusive demo_opfs = (Inr i, s1)
     \<and> opfs_remove demo_json demo_site [] ''a'' True no_faults (Map.empty, s1) = (Inl Locked, (Map.empty, s1))"
proof -
  have "opfs_lock_reach demo_opfs" by (rule opfs_lock_reach.none) simp
  moreover obtain s1 where "opfs_acquire_lock 3 demo_site [''a''] OpfsExclusive demo_opfs
      = (Inr (next_opfs_lock_id demo_opfs), s1)"
    by (simp add: opfs_acquire_lock_def Let_def)
  ultimately show ?thesis
    using opfs_lock_protects [of demo_opfs 3 demo_site "[''a'']" OpfsExclusive _ s1 "[]" "[]" "''a''" "''b''"
        demo_json True no_faults Map.empty] by auto
qed

end
