(* ===== verification/WebStorageProps.thy ===== *)
theory WebStorageProps
  imports WebStorage OpfsProps
begin

text \<open>
  Properties of the storage areas, of Cache Storage, of the visited-link history and of the
  persistence grants.  A keyed store (look up, put, delete) is an interface that the
  storage areas and the directories of the private file system both provide.
\<close>

section \<open>Keyed stores\<close>

datatype ('k, 'v) store_op = Put 'k 'v | Del 'k

fun map_step :: "('k, 'v) store_op \<Rightarrow> ('k \<rightharpoonup> 'v) \<Rightarrow> 'k \<rightharpoonup> 'v" where
  "map_step (Put k v) m = m(k \<mapsto> v)"
| "map_step (Del k) m = m(k := None)"

locale keyed_store =
  fixes look :: "'s \<Rightarrow> 'k \<Rightarrow> 'v option"
    and put :: "'k \<Rightarrow> 'v \<Rightarrow> 's \<Rightarrow> 's"
    and del :: "'k \<Rightarrow> 's \<Rightarrow> 's"
    and ok :: "'s \<Rightarrow> bool"
  assumes look_put: "ok s \<Longrightarrow> look (put k v s) = (look s)(k \<mapsto> v)"
    and look_del: "ok s \<Longrightarrow> look (del k s) = (look s)(k := None)"
    and ok_put: "ok s \<Longrightarrow> ok (put k v s)"
    and ok_del: "ok s \<Longrightarrow> ok (del k s)"
begin

definition step :: "('k, 'v) store_op \<Rightarrow> 's \<Rightarrow> 's" where
  "step op s = (case op of Put k v \<Rightarrow> put k v s | Del k \<Rightarrow> del k s)"

lemma step_refines: "ok s \<Longrightarrow> look (step op s) = map_step op (look s) \<and> ok (step op s)"
  by (cases op) (auto simp: step_def look_put look_del ok_put ok_del)

lemma run_refines: "ok s \<Longrightarrow> look (fold step ops s) = fold map_step ops (look s) \<and> ok (fold step ops s)"
proof (induction ops arbitrary: s)
  case (Cons op ops)
  then show ?case using step_refines by simp
qed simp

lemma put_put: "ok s \<Longrightarrow> look (put k v (put k w s)) = look (put k v s)"
  by (simp add: look_put ok_put)

lemma del_after_put: "ok s \<Longrightarrow> look (del k (put k v s)) = look (del k s)"
  by (simp add: look_put look_del ok_put)

end

section \<open>Storage areas are keyed stores\<close>

definition area_ok :: "StorageArea \<Rightarrow> bool" where
  "area_ok a \<longleftrightarrow> distinct (map fst (entries a))"

lemma find_key: "map_option snd (List.find (\<lambda>(name, _). name = key) es) = map_of es key"
  by (induction es) auto

lemma area_get_map: "area_get a = map_of (entries a)"
  by (rule ext) (simp add: area_get_def find_key)

lemma set_entry_map:
  "set_entry k v es = (old, es') \<Longrightarrow> old = map_of es k \<and> map_of es' = (map_of es)(k \<mapsto> v)
     \<and> map fst es' = map fst es @ (if k \<in> set (map fst es) then [] else [k])"
proof (induction es arbitrary: old es')
  case (Cons e es)
  obtain n c where e: "e = (n, c)" by fastforce
  obtain old1 es1 where r: "set_entry k v es = (old1, es1)" by fastforce
  show ?case using Cons.prems Cons.IH [OF r] r by (auto simp: e split: if_splits)
qed auto

lemma remove_entry_map:
  "remove_entry k es = (old, es') \<Longrightarrow> distinct (map fst es) \<Longrightarrow>
     old = map_of es k \<and> map_of es' = (map_of es)(k := None) \<and> map fst es' = filter (\<lambda>n. n \<noteq> k) (map fst es)"
proof (induction es arbitrary: old es')
  case (Cons e es)
  obtain n c where e: "e = (n, c)" by fastforce
  obtain old1 es1 where r: "remove_entry k es = (old1, es1)" by fastforce
  show ?case
  proof (cases "n = k")
    case True
    then have "k \<notin> fst ` set es" using Cons.prems(2) e by simp
    then have "map_of es k = None" "filter (\<lambda>n. n \<noteq> k) (map fst es) = map fst es"
      by (auto simp: map_of_eq_None_iff intro: filter_True)
    then show ?thesis using Cons.prems True by (auto simp: e fun_eq_iff)
  next
    case False
    then show ?thesis using Cons.prems Cons.IH [OF r] r by (auto simp: e)
  qed
qed simp

lemma area_set_map:
  assumes "area_set a k v = (old, a')"
  shows "old = area_get a k" "area_get a' = (area_get a)(k \<mapsto> v)" "area_ok a \<Longrightarrow> area_ok a'"
proof -
  obtain es where es: "set_entry k v (entries a) = (old, es)" "a' = a\<lparr>entries := es\<rparr>"
    using assms by (auto simp: area_set_def split: prod.splits)
  note m = set_entry_map [OF es(1)]
  show "old = area_get a k" "area_get a' = (area_get a)(k \<mapsto> v)"
    using m by (simp_all add: es(2) area_get_map)
  show "area_ok a'" if "area_ok a"
  proof -
    have "map fst (entries a') = map fst (entries a) @ (if k \<in> set (map fst (entries a)) then [] else [k])"
      using m by (simp add: es(2))
    then show ?thesis using that unfolding area_ok_def by simp
  qed
qed

lemma area_remove_map:
  assumes "area_remove a k = (old, a')" "area_ok a"
  shows "old = area_get a k" "area_get a' = (area_get a)(k := None)" "area_ok a'"
proof -
  obtain es where es: "remove_entry k (entries a) = (old, es)" "a' = a\<lparr>entries := es\<rparr>"
    using assms(1) by (auto simp: area_remove_def split: prod.splits)
  note m = remove_entry_map [OF es(1) assms(2) [unfolded area_ok_def]]
  show "old = area_get a k" "area_get a' = (area_get a)(k := None)"
    using m by (simp_all add: es(2) area_get_map)
  have "map fst (entries a') = filter (\<lambda>n. n \<noteq> k) (map fst (entries a))" using m by (simp add: es(2))
  then show "area_ok a'" using assms(2) unfolding area_ok_def by simp
qed

interpretation area: keyed_store area_get "\<lambda>k v a. snd (area_set a k v)" "\<lambda>k a. snd (area_remove a k)" area_ok
  by unfold_locales
    (use area_set_map area_remove_map in \<open>metis surjective_pairing\<close>)+

interpretation directory: keyed_store "map_of :: (string \<times> OpfsEntry) list \<Rightarrow> _" AList.update AList.delete "\<lambda>_. True"
  by unfold_locales (simp_all add: update_conv' delete_conv')

section \<open>All areas of a profile\<close>

datatype area_id = LocalArea StorageOrigin | SessionArea nat StorageOrigin

definition area_id_of :: "nat \<Rightarrow> StorageOrigin \<Rightarrow> bool \<Rightarrow> area_id" where
  "area_id_of session origin local = (if local then LocalArea origin else SessionArea session origin)"

definition area_at :: "StorageState \<Rightarrow> area_id \<Rightarrow> StorageArea option" where
  "area_at s i = (case i of LocalArea origin \<Rightarrow> local_areas s origin | SessionArea n origin \<Rightarrow> session_areas s (n, origin))"

definition contents :: "StorageState \<Rightarrow> area_id \<Rightarrow> string \<rightharpoonup> string" where
  "contents s i = (case area_at s i of Some a \<Rightarrow> area_get a | None \<Rightarrow> Map.empty)"

definition area_or_empty :: "StorageState \<Rightarrow> area_id \<Rightarrow> StorageArea" where
  "area_or_empty s i = (case area_at s i of Some a \<Rightarrow> a | None \<Rightarrow> empty_area)"

definition areas_ok :: "StorageState \<Rightarrow> bool" where
  "areas_ok s \<longleftrightarrow> (\<forall>i a. area_at s i = Some a \<longrightarrow> area_ok a)"

lemma contents_area: "contents s i = area_get (area_or_empty s i)"
  by (simp add: contents_def area_or_empty_def area_get_map empty_area_def split: option.split)

lemma area_or_empty_ok: "areas_ok s \<Longrightarrow> area_ok (area_or_empty s i)"
  by (auto simp: areas_ok_def area_or_empty_def empty_area_def area_ok_def split: option.split)

lemma with_area_mut_spec:
  assumes "with_area_mut session origin local f s = (r, s')"
    and "f (area_or_empty s (area_id_of session origin local)) = (r0, a)"
  shows "r = r0" "area_at s' = (area_at s)(area_id_of session origin local \<mapsto> a)"
  using assms
  by (auto simp: with_area_mut_def area_at_def area_id_of_def area_or_empty_def fun_eq_iff
      split: area_id.splits if_splits option.splits)

datatype storage_event =
    SetItem nat StorageOrigin bool string string
  | RemoveItem nat StorageOrigin bool string
  | ClearArea nat StorageOrigin bool
  | CloseSession nat

fun storage_step :: "storage_event \<Rightarrow> StorageState \<Rightarrow> StorageState" where
  "storage_step (SetItem n origin local k v) s = snd (storage_set n origin local k v s)"
| "storage_step (RemoveItem n origin local k) s = snd (storage_remove n origin local k s)"
| "storage_step (ClearArea n origin local) s = snd (storage_clear n origin local s)"
| "storage_step (CloseSession n) s = remove_session n s"

text \<open>The specification: one map per area.\<close>

fun spec_step :: "storage_event \<Rightarrow> (area_id \<Rightarrow> string \<rightharpoonup> string) \<Rightarrow> area_id \<Rightarrow> string \<rightharpoonup> string" where
  "spec_step (SetItem n origin local k v) m =
     (let i = area_id_of n origin local in m(i := (m i)(k \<mapsto> v)))"
| "spec_step (RemoveItem n origin local k) m =
     (let i = area_id_of n origin local in m(i := (m i)(k := None)))"
| "spec_step (ClearArea n origin local) m = m(area_id_of n origin local := Map.empty)"
| "spec_step (CloseSession n) m =
     (\<lambda>i. case i of SessionArea n' _ \<Rightarrow> if n' = n then Map.empty else m i | _ \<Rightarrow> m i)"

lemma area_update_spec:
  assumes "areas_ok s" "area_at s' = (area_at s)(i \<mapsto> a)" "area_ok a"
  shows "areas_ok s'" "contents s' = (contents s)(i := area_get a)"
  using assms by (auto simp: areas_ok_def contents_def fun_eq_iff)

lemma storage_step_refines:
  assumes ok: "areas_ok s"
  shows "contents (storage_step e s) = spec_step e (contents s) \<and> areas_ok (storage_step e s)"
proof (cases e)
  case (SetItem n origin local k v)
  let ?i = "area_id_of n origin local"
  obtain old a where a: "area_set (area_or_empty s ?i) k v = (old, a)" by fastforce
  obtain r s' where run: "with_area_mut n origin local (\<lambda>a. area_set a k v) s = (r, s')" by fastforce
  note w = with_area_mut_spec [OF run a]
  note m = area_set_map [OF a]
  from area_update_spec [OF ok w(2) m(3) [OF area_or_empty_ok [OF ok]]] run m(2)
  show ?thesis by (simp add: SetItem storage_set_def contents_area Let_def)
next
  case (RemoveItem n origin local k)
  let ?i = "area_id_of n origin local"
  obtain old a where a: "area_remove (area_or_empty s ?i) k = (old, a)" by fastforce
  obtain r s' where run: "with_area_mut n origin local (\<lambda>a. area_remove a k) s = (r, s')" by fastforce
  note w = with_area_mut_spec [OF run a]
  note m = area_remove_map [OF a area_or_empty_ok [OF ok]]
  from area_update_spec [OF ok w(2) m(3)] run m(2)
  show ?thesis by (simp add: RemoveItem storage_remove_def contents_area Let_def)
next
  case (ClearArea n origin local)
  let ?i = "area_id_of n origin local"
  let ?f = "\<lambda>a. (entries a \<noteq> [], a\<lparr>entries := []\<rparr>)"
  obtain r s' where run: "with_area_mut n origin local ?f s = (r, s')" by fastforce
  note w = with_area_mut_spec [OF run refl]
  have "area_ok ((area_or_empty s ?i)\<lparr>entries := []\<rparr>)" by (simp add: area_ok_def)
  from area_update_spec [OF ok w(2) this] run
  show ?thesis by (simp add: ClearArea storage_clear_def area_get_map)
next
  case (CloseSession n)
  have "area_at (remove_session n s) i = (case i of SessionArea n' _ \<Rightarrow> if n' = n then None else area_at s i | _ \<Rightarrow> area_at s i)" for i
    by (auto simp: area_at_def remove_session_def split: area_id.split)
  then show ?thesis
    using ok by (auto simp: CloseSession areas_ok_def contents_def fun_eq_iff split: area_id.splits if_splits)
qed

lemma storage_run_refines:
  "areas_ok s \<Longrightarrow> contents (fold storage_step es s) = fold spec_step es (contents s) \<and> areas_ok (fold storage_step es s)"
proof (induction es arbitrary: s)
  case (Cons e es)
  then show ?case using storage_step_refines by simp
qed simp

lemma areas_ok_default: "areas_ok (with_policy q p)" "contents (with_policy q p) = (\<lambda>_. Map.empty)"
  by (auto simp: areas_ok_def area_at_def contents_def with_policy_def storage_state_default_def fun_eq_iff
      split: area_id.splits)

lemma storage_get_contents: "storage_get n origin local k s = contents s (area_id_of n origin local) k"
  by (auto simp: storage_get_def with_area_def contents_def area_at_def area_id_of_def split: option.split)

lemma storage_length_contents:
  assumes "areas_ok s"
  shows "storage_length n origin local s = card (dom (contents s (area_id_of n origin local)))"
proof -
  let ?a = "area_or_empty s (area_id_of n origin local)"
  have "storage_length n origin local s = length (entries ?a)"
    by (auto simp: storage_length_def with_area_def area_or_empty_def area_at_def area_id_of_def empty_area_def
        split: option.split)
  moreover have "distinct (map fst (entries ?a))"
    using area_or_empty_ok [OF assms] by (simp add: area_ok_def)
  then have "length (entries ?a) = card (fst ` set (entries ?a))"
    by (metis distinct_card length_map list.set_map)
  ultimately show ?thesis by (simp add: contents_area area_get_map dom_map_of_conv_image_fst)
qed

section \<open>Cache Storage\<close>

abbreviation entry_key :: "json_crate \<Rightarrow> CacheEntrySnapshot \<Rightarrow> string \<times> string" where
  "entry_key js e \<equiv> cache_request_replacement_key js (ce_request e)"

text \<open>The entries of one cache: ids are different and have been given out, and no two entries share
  a replacement key.\<close>

definition entries_ok :: "json_crate \<Rightarrow> nat \<Rightarrow> CacheEntrySnapshot list \<Rightarrow> bool" where
  "entries_ok js n es \<longleftrightarrow>
     distinct (map ce_id es) \<and> (\<forall>e\<in>set es. ce_id e \<le> n)
     \<and> distinct (filter (\<lambda>k. k \<noteq> ([], [])) (map (entry_key js) es))"

definition caches_ok :: "json_crate \<Rightarrow> StorageState \<Rightarrow> bool" where
  "caches_ok js s \<longleftrightarrow>
     (\<forall>origin st. caches s origin = Some st \<longrightarrow>
        distinct (map cn_name (cs_caches st))
        \<and> (\<forall>c\<in>set (cs_caches st). entries_ok js (next_cache_entry_id s) (cn_entries c)))"

lemma update_cache_names [simp]:
  "(\<And>c. cn_name (f c) = cn_name c) \<Longrightarrow> map cn_name (update_cache name f cs) = map cn_name cs"
  by (induction cs) auto

lemma update_cache_all:
  assumes "\<forall>c\<in>set cs. P c"
    and "\<And>c. List.find (\<lambda>c. cn_name c = name) cs = Some c \<Longrightarrow> P (f c)"
  shows "\<forall>c\<in>set (update_cache name f cs). P c"
  using assms
proof (induction cs)
  case (Cons c cs)
  show ?case
  proof (cases "cn_name c = name")
    case True
    then show ?thesis using Cons.prems by simp
  next
    case False
    then have "\<forall>c\<in>set (update_cache name f cs). P c" using Cons by simp
    with False Cons.prems(1) show ?thesis by simp
  qed
qed simp

lemma find_update_cache:
  assumes "\<And>c. cn_name (f c) = cn_name c"
  shows "List.find (\<lambda>c. cn_name c = n') (update_cache n f cs) =
    (if n' = n then map_option f (List.find (\<lambda>c. cn_name c = n) cs) else List.find (\<lambda>c. cn_name c = n') cs)"
  by (induction cs) (auto simp: assms)

lemma find_update_caches:
  "find_cache o' n' (update_caches origin name f s) =
   (if o' = origin \<and> n' = name then map_option (\<lambda>c. c\<lparr>cn_entries := f (cn_entries c)\<rparr>) (find_cache origin name s)
    else find_cache o' n' s)"
  by (auto simp: find_cache_def update_caches_def find_update_cache split: option.split)

lemma update_caches_ok:
  assumes "caches_ok js s" "next_cache_entry_id s \<le> next_cache_entry_id s'" "caches s' = caches s"
    and "\<And>c. find_cache origin name s = Some c \<Longrightarrow> entries_ok js (next_cache_entry_id s) (cn_entries c) \<Longrightarrow>
           entries_ok js (next_cache_entry_id s') (f (cn_entries c))"
  shows "caches_ok js (update_caches origin name f s')"
proof (cases "caches s origin")
  case None
  then have "update_caches origin name f s' = s'" by (simp add: update_caches_def assms(3))
  then show ?thesis using assms(1-3) by (fastforce simp: caches_ok_def entries_ok_def)
next
  case (Some st)
  let ?f = "\<lambda>c. c\<lparr>cn_entries := f (cn_entries c)\<rparr>"
  have mono: "entries_ok js (next_cache_entry_id s) es \<Longrightarrow> entries_ok js (next_cache_entry_id s') es" for es
    using assms(2) by (auto simp: entries_ok_def)
  have st: "distinct (map cn_name (cs_caches st))"
      "\<forall>c\<in>set (cs_caches st). entries_ok js (next_cache_entry_id s) (cn_entries c)"
    using assms(1) Some by (auto simp: caches_ok_def)
  have all: "\<forall>c\<in>set (update_cache name ?f (cs_caches st)). entries_ok js (next_cache_entry_id s') (cn_entries c)"
  proof (rule update_cache_all)
    show "\<forall>c\<in>set (cs_caches st). entries_ok js (next_cache_entry_id s') (cn_entries c)"
      using st(2) mono by blast
    fix c
    assume c: "List.find (\<lambda>c. cn_name c = name) (cs_caches st) = Some c"
    then show "entries_ok js (next_cache_entry_id s') (cn_entries (?f c))"
      using assms(4) [of c] st(2) find_Some_in [OF c] by (simp add: find_cache_def Some)
  qed
  have upd: "caches (update_caches origin name f s') =
      (caches s)(origin \<mapsto> st\<lparr>cs_caches := update_cache name ?f (cs_caches st)\<rparr>)"
    "next_cache_entry_id (update_caches origin name f s') = next_cache_entry_id s'"
    by (simp_all add: update_caches_def assms(3) Some)
  show ?thesis
    unfolding caches_ok_def upd using all st(1) assms(1) mono by (auto simp: caches_ok_def)
qed

lemma replace_cache_entry_map:
  assumes "\<And>e. P e \<Longrightarrow> entry_key js e = cache_request_replacement_key js req"
  shows "map (entry_key js) (replace_cache_entry P req resp es) = map (entry_key js) es"
    "map ce_id (replace_cache_entry P req resp es) = map ce_id es"
  using assms by (induction es) auto

lemma entries_ok_cong:
  assumes "map ce_id es' = map ce_id es" "map (entry_key js) es' = map (entry_key js) es" "entries_ok js n es"
  shows "entries_ok js n es'"
proof -
  have "set (map ce_id es') = set (map ce_id es)" by (simp only: assms(1))
  then have "\<forall>e\<in>set es'. ce_id e \<le> n" using assms(3) by (auto simp: entries_ok_def) (metis imageE imageI)
  then show ?thesis using assms by (simp add: entries_ok_def)
qed

lemma set_remove_first: "set (remove_first P xs) \<subseteq> set xs"
  by (induction xs) auto

lemma distinct_remove_first: "distinct (map f xs) \<Longrightarrow> distinct (map f (remove_first P xs))"
  using set_remove_first by (induction xs) fastforce+

lemma distinct_filter_remove_first:
  "distinct (filter Q (map f xs)) \<Longrightarrow> distinct (filter Q (map f (remove_first P xs)))"
proof (induction xs)
  case (Cons x xs)
  have "f ` set (remove_first P xs) \<subseteq> f ` set xs" using set_remove_first by fast
  then show ?case using Cons by auto
qed simp

lemma entries_ok_remove: "entries_ok js n es \<Longrightarrow> entries_ok js n (remove_first P es)"
  using set_remove_first [of P es]
  by (auto simp: entries_ok_def distinct_remove_first distinct_filter_remove_first)

lemma entries_ok_append:
  assumes "entries_ok js n es" "n < m" "ce_id e = m"
    and "entry_key js e = ([], []) \<or> (\<forall>e'\<in>set es. entry_key js e' \<noteq> entry_key js e)"
  shows "entries_ok js m (es @ [e])"
proof -
  have "ce_id e' \<noteq> m \<and> ce_id e' \<le> m" if "e' \<in> set es" for e'
    using assms(1,2) that by (fastforce simp: entries_ok_def)
  then show ?thesis using assms by (auto simp: entries_ok_def)
qed

lemma cache_put_cases:
  assumes put: "cache_put js origin name request response s = (r, s')"
  defines "key \<equiv> cache_request_replacement_key js request"
  defines "same \<equiv> (\<lambda>e. entry_key js e = key)"
  shows "r = None \<and> s' = s \<and> find_cache origin name s = None
    \<or> (\<exists>c old. find_cache origin name s = Some c \<and> key \<noteq> ([], []) \<and> List.find same (cn_entries c) = Some old
        \<and> r = Some (ce_id old) \<and> s' = update_caches origin name (replace_cache_entry same request response) s)
    \<or> (\<exists>c i. find_cache origin name s = Some c \<and> (key = ([], []) \<or> (\<forall>e\<in>set (cn_entries c). \<not> same e))
        \<and> i = saturating_add (next_cache_entry_id s) 1 \<and> r = Some i
        \<and> s' = update_caches origin name
            (\<lambda>es. es @ [\<lparr>ce_id = i, ce_request = request, ce_response = response\<rparr>])
            (s\<lparr>next_cache_entry_id := i\<rparr>))"
proof (cases "find_cache origin name s")
  case None
  then show ?thesis using put by (auto simp: cache_put_def Let_def)
next
  case (Some c)
  let ?look = "if key = ([], []) then None else List.find same (cn_entries c)"
  have key: "fst key = [] \<and> snd key = [] \<longleftrightarrow> key = ([], [])" by (cases key) simp
  have run: "cache_put js origin name request response s =
    (case ?look of
       Some existing \<Rightarrow> (Some (ce_id existing), update_caches origin name (replace_cache_entry same request response) s)
     | None \<Rightarrow> (Some (saturating_add (next_cache_entry_id s) 1),
         update_caches origin name
           (\<lambda>es. es @ [\<lparr>ce_id = saturating_add (next_cache_entry_id s) 1, ce_request = request, ce_response = response\<rparr>])
           (s\<lparr>next_cache_entry_id := saturating_add (next_cache_entry_id s) 1\<rparr>)))"
    unfolding cache_put_def Let_def Some option.case key_def [symmetric] same_def [symmetric] key ..
  show ?thesis
  proof (cases ?look)
    case None
    then have "key = ([], []) \<or> (\<forall>e\<in>set (cn_entries c). \<not> same e)"
      by (auto simp: find_None_iff split: if_splits)
    then show ?thesis using run put Some None by auto
  next
    case (Some old)
    then have "key \<noteq> ([], [])" "List.find same (cn_entries c) = Some old" by (auto split: if_splits)
    then show ?thesis using run put \<open>find_cache origin name s = Some c\<close> by auto
  qed
qed

datatype cache_event =
    CacheOpen StorageOrigin string
  | CacheDelete StorageOrigin string
  | CachePut StorageOrigin string string string
  | CacheDeleteEntry StorageOrigin string nat

fun cache_step :: "json_crate \<Rightarrow> cache_event \<Rightarrow> StorageState \<Rightarrow> StorageState" where
  "cache_step js (CacheOpen origin name) s = snd (cache_open origin name s)"
| "cache_step js (CacheDelete origin name) s = snd (cache_delete origin name s)"
| "cache_step js (CachePut origin name req resp) s = snd (cache_put js origin name req resp s)"
| "cache_step js (CacheDeleteEntry origin name i) s = snd (cache_delete_entry origin name i s)"

lemma cache_put_ok [keeps]:
  assumes ok: "caches_ok js s" and room: "next_cache_entry_id s < u64_max"
    and put: "cache_put js origin name req resp s = (r, s')"
  shows "caches_ok js s'"
proof -
  let ?key = "cache_request_replacement_key js req"
  let ?same = "\<lambda>e. entry_key js e = ?key"
  consider "s' = s"
    | "s' = update_caches origin name (replace_cache_entry ?same req resp) s"
    | c i where "find_cache origin name s = Some c" "?key = ([], []) \<or> (\<forall>e\<in>set (cn_entries c). \<not> ?same e)"
      "i = saturating_add (next_cache_entry_id s) 1"
      "s' = update_caches origin name
            (\<lambda>es. es @ [\<lparr>ce_id = i, ce_request = req, ce_response = resp\<rparr>]) (s\<lparr>next_cache_entry_id := i\<rparr>)"
    using cache_put_cases [OF put] by blast
  then show ?thesis
  proof cases
    case 1
    then show ?thesis using ok by simp
  next
    case 2
    show ?thesis
      unfolding 2
    proof (rule update_caches_ok [OF ok])
      fix c
      assume "entries_ok js (next_cache_entry_id s) (cn_entries c)"
      then show "entries_ok js (next_cache_entry_id s) (replace_cache_entry ?same req resp (cn_entries c))"
        by (rule entries_ok_cong [rotated 2]) (simp_all add: replace_cache_entry_map)
    qed simp_all
  next
    case (3 c i)
    show ?thesis
      unfolding 3(4)
    proof (rule update_caches_ok [OF ok])
      show "next_cache_entry_id s \<le> next_cache_entry_id (s\<lparr>next_cache_entry_id := i\<rparr>)"
        using room 3(3) by simp
      fix c'
      assume "find_cache origin name s = Some c'" "entries_ok js (next_cache_entry_id s) (cn_entries c')"
      then show "entries_ok js (next_cache_entry_id (s\<lparr>next_cache_entry_id := i\<rparr>))
          (cn_entries c' @ [\<lparr>ce_id = i, ce_request = req, ce_response = resp\<rparr>])"
        using 3(1-3) room by (intro entries_ok_append) auto
    qed simp
  qed
qed

lemma cache_open_ok [keeps]:
  assumes "caches_ok js s"
  shows "caches_ok js (snd (cache_open origin name s))"
proof -
  have st: "caches s origin = Some st \<Longrightarrow> distinct (map cn_name (cs_caches st))
      \<and> (\<forall>c\<in>set (cs_caches st). entries_ok js (next_cache_entry_id s) (cn_entries c))" for st
    using assms by (simp add: caches_ok_def)
  then show ?thesis
    using assms
    by (cases "caches s origin")
      (auto simp: cache_open_def caches_ok_def Let_def list_ex_iff entries_ok_def)
qed

lemma cache_delete_ok [keeps]:
  assumes "caches_ok js s"
  shows "caches_ok js (snd (cache_delete origin name s))"
proof (cases "caches s origin")
  case (Some st)
  then have "distinct (map cn_name (cs_caches st))"
      "\<forall>c\<in>set (cs_caches st). entries_ok js (next_cache_entry_id s) (cn_entries c)"
    using assms by (auto simp: caches_ok_def)
  then have "distinct (map cn_name (remove_first P (cs_caches st)))"
      "\<forall>c\<in>set (remove_first P (cs_caches st)). entries_ok js (next_cache_entry_id s) (cn_entries c)" for P
    using set_remove_first [of P "cs_caches st"] by (auto intro: distinct_remove_first)
  then show ?thesis using assms Some by (auto simp: cache_delete_def caches_ok_def)
qed (use assms in \<open>simp add: cache_delete_def\<close>)

lemma cache_delete_entry_ok [keeps]:
  assumes "caches_ok js s"
  shows "caches_ok js (snd (cache_delete_entry origin name i s))"
proof -
  have "caches_ok js (update_caches origin name (remove_first (\<lambda>e. ce_id e = i)) s)"
    by (rule update_caches_ok [OF assms]) (simp_all add: entries_ok_remove)
  then show ?thesis using assms by (simp add: cache_delete_entry_def split: option.split)
qed

text \<open>Reachable cache tables: any sequence of cache operations on a fresh profile, with other
  operations of the manager in between; a put needs an id that has not been given out.\<close>

inductive cache_reach :: "json_crate \<Rightarrow> StorageState \<Rightarrow> bool" for js where
  initial: "caches s = Map.empty \<Longrightarrow> cache_reach js s"
| step: "cache_reach js s \<Longrightarrow> next_cache_entry_id s < u64_max \<Longrightarrow> cache_reach js (cache_step js e s)"
| other: "cache_reach js s \<Longrightarrow> caches s' = caches s \<Longrightarrow>
    next_cache_entry_id s' = next_cache_entry_id s \<Longrightarrow> cache_reach js s'"

lemma cache_reach_ok: "cache_reach js s \<Longrightarrow> caches_ok js s"
proof (induction rule: cache_reach.induct)
  case (step s e)
  then show ?case
    by (cases e) (simp_all add: cache_open_ok cache_delete_ok cache_delete_entry_ok
        cache_put_ok [OF _ _ prod.collapse [symmetric]])
qed (simp_all add: caches_ok_def)

lemma caches_ok_entries:
  assumes "caches_ok js s" "find_cache origin name s = Some c"
  shows "entries_ok js (next_cache_entry_id s) (cn_entries c)"
  using assms by (auto simp: caches_ok_def find_cache_def split: option.splits dest: find_Some_in)

lemma distinct_keys_unique:
  assumes "distinct (filter (\<lambda>k. k \<noteq> ([], [])) (map f es))" "a \<in> set es" "b \<in> set es"
    and "f b = f a" "f a \<noteq> ([], [])"
  shows "b = a"
  using assms
proof (induction es)
  case (Cons e es)
  then show ?case by (auto split: if_splits) (metis imageI)+
qed simp

lemma replace_filters:
  assumes "List.find P es = Some old" "distinct (map ce_id es)"
  shows "filter (\<lambda>e. ce_id e \<noteq> ce_id old) (replace_cache_entry P req resp es) = filter (\<lambda>e. ce_id e \<noteq> ce_id old) es"
    "filter (\<lambda>e. ce_id e = ce_id old) (replace_cache_entry P req resp es)
       = [\<lparr>ce_id = ce_id old, ce_request = req, ce_response = resp\<rparr>]"
proof -
  have "filter (\<lambda>e. ce_id e \<noteq> ce_id old) (replace_cache_entry P req resp es) = filter (\<lambda>e. ce_id e \<noteq> ce_id old) es
    \<and> filter (\<lambda>e. ce_id e = ce_id old) (replace_cache_entry P req resp es)
       = [\<lparr>ce_id = ce_id old, ce_request = req, ce_response = resp\<rparr>]"
    using assms
  proof (induction es)
    case (Cons e es)
    show ?case
    proof (cases "P e")
      case True
      then have "e = old" using Cons.prems(1) by simp
      moreover have "filter (\<lambda>e'. ce_id e' = ce_id e) es = []"
        using Cons.prems(2) by (simp add: filter_empty_conv) (metis imageI)
      ultimately show ?thesis using True by simp
    next
      case False
      then have "old \<in> set es" using Cons.prems(1) find_Some_in by fastforce
      then have "ce_id e \<noteq> ce_id old" using Cons.prems(2) by force
      with False Cons show ?thesis by simp
    qed
  qed simp
  then show "filter (\<lambda>e. ce_id e \<noteq> ce_id old) (replace_cache_entry P req resp es) = filter (\<lambda>e. ce_id e \<noteq> ce_id old) es"
    "filter (\<lambda>e. ce_id e = ce_id old) (replace_cache_entry P req resp es)
       = [\<lparr>ce_id = ce_id old, ce_request = req, ce_response = resp\<rparr>]"
    by blast+
qed

section \<open>Visited links\<close>

lemma visited_key_parts:
  "visited_link_key_new uc d i site = Some k \<Longrightarrow> vk_initiator_origin k = i \<and> vk_top_level_site k = site"
  by (auto simp: visited_link_key_new_def split: sum.splits if_splits)

lemma record_key_links:
  "visited_links (record_key live key s) = set_option key \<union> visited_links s"
  by (auto simp: record_key_def record_visited_link_def split: option.split)

definition history_ok :: "StorageState \<Rightarrow> bool" where
  "history_ok s \<longleftrightarrow> finite (visited_links s) \<and> visited_generation s = min u64_max (card (visited_links s))"

lemma record_key_history [keeps]: "history_ok s \<Longrightarrow> history_ok (record_key live key s)"
  by (auto simp: history_ok_def record_key_def record_visited_link_def saturating_add_def split: option.split)

lemma record_page_navigation_history [keeps]:
  "history_ok s \<Longrightarrow> history_ok (record_page_navigation uc psl live req com src s)"
  by (simp add: record_page_navigation_def Let_def record_key_history split: option.split)

section \<open>Grants and restarts\<close>

lemma persist_saved:
  assumes "persist js iter origin io (fs, s) = (res, (fs', s'))" "persistence_path s = Some path"
    and "persistence_policy s = PersistAllow" "origin \<notin> persisted_origins s"
  shows "(case save_persisted_origins js path iter io fs of
      (True, fs2) \<Rightarrow> res = Inr True \<and> fs' = fs2 \<and> persisted_origins s' = insert origin (persisted_origins s)
    | (False, fs2) \<Rightarrow> res = Inl () \<and> fs' = fs2 \<and> persisted_origins s' = persisted_origins s)"
  using assms by (auto simp: persist_def Let_def split: prod.splits bool.splits)

lemma map_filter_serialize:
  assumes "\<forall>x\<in>set xs. storage_origin_from_url uc (storage_origin_serialize x) = Some x"
  shows "List.map_filter (storage_origin_from_url uc) (map storage_origin_serialize xs) = xs"
  using assms by (induction xs) (simp_all add: List.map_filter_simps)

lemma set_map_filter: "set (List.map_filter f xs) = {y. \<exists>x\<in>set xs. f x = Some y}"
  by (induction xs) (auto simp: List.map_filter_simps split: option.split)

text \<open>A URL parser that reads every string as the demonstration site's root.\<close>

definition site_crate :: "unit url_crate" where
  "site_crate =
     \<lparr>uc_parse = (\<lambda>_. Inr ()), uc_join = (\<lambda>_ _. Inr ()), uc_scheme = (\<lambda>_. ''https''),
      uc_host = (\<lambda>_. Some (HostDomain ''a.test'')), uc_port_or_known_default = (\<lambda>_. Some 443),
      uc_path = (\<lambda>_. ''/''), uc_query = (\<lambda>_. None), uc_as_str = (\<lambda>_. ''https://a.test/''),
      uc_origin = (\<lambda>_. Some ''https://a.test''), uc_clear_fragment = (\<lambda>u. u),
      uc_clear_username = (\<lambda>u. u), uc_clear_password = (\<lambda>u. u)\<rparr>"

lemma demo_site_serialize: "storage_origin_serialize demo_site = ''https://a.test:443''"
  by code_simp

lemma site_crate_origin: "storage_origin_from_url site_crate ''https://a.test:443'' = Some demo_site"
  by (simp add: storage_origin_from_url_def url_from_str_def from_standard_def site_crate_def
      storage_origin_of_url_def demo_site_def to_ascii_lowercase_def to_lower_def Let_def
      split_once_str.simps trim_matches_def starts_with_def)

definition field_json :: json_crate where
  "field_json = demo_json\<lparr>json_string_field := (\<lambda>req f. Some (if f = ''url'' then req else ''get'')),
     json_strings_to_vec := (\<lambda>xs. if xs = [storage_origin_serialize demo_site] then Inr [1] else Inl ''unknown''),
     json_strings_from_slice := (\<lambda>_. Inr [storage_origin_serialize demo_site])\<rparr>"

section \<open>The properties\<close>

text \<open>
C28: The local and session storage of a fresh profile refine one map per area: after any sequence of
  writes, removals, clears and closed sessions, a read gives what that sequence left in the area
  of its own origin (and session), and the length is the number of its keys.  No area sees
  another's items, and a closed session loses exactly its own.
\<close>

theorem web_storage_refines_maps:
  "storage_get n origin local k (fold storage_step es (with_policy q p))
     = fold spec_step es (\<lambda>_. Map.empty) (area_id_of n origin local) k
   \<and> fst (storage_set n origin local k v (fold storage_step es (with_policy q p)))
     = fold spec_step es (\<lambda>_. Map.empty) (area_id_of n origin local) k
   \<and> storage_length n origin local (fold storage_step es (with_policy q p))
     = card (dom (fold spec_step es (\<lambda>_. Map.empty) (area_id_of n origin local)))"
proof -
  let ?s = "fold storage_step es (with_policy q p)"
  let ?i = "area_id_of n origin local"
  note run = storage_run_refines [OF areas_ok_default(1), of es q p, unfolded areas_ok_default(2)]
  obtain old a where a: "area_set (area_or_empty ?s ?i) k v = (old, a)" by fastforce
  obtain r s' where w: "with_area_mut n origin local (\<lambda>a. area_set a k v) ?s = (r, s')" by fastforce
  have "fst (storage_set n origin local k v ?s) = contents ?s ?i k"
    using with_area_mut_spec(1) [OF w a] area_set_map(1) [OF a] w by (simp add: storage_set_def contents_area)
  with run show ?thesis by (simp add: storage_get_contents storage_length_contents)
qed


text \<open>
A put into a reachable cache is read back: afterwards the cache has exactly one entry with the
  returned id, which is the request and the response, every other entry is as before, and
  no other entry has the same URL (without fragment) and method.
\<close>

theorem cache_put_then_read:
  assumes "cache_reach js s" "next_cache_entry_id s < u64_max"
    and put: "cache_put js origin name request response s = (Some i, s')"
  shows "\<exists>before after. cache_entries origin name s = Some before \<and> cache_entries origin name s' = Some after
    \<and> filter (\<lambda>e. ce_id e = i) after = [\<lparr>ce_id = i, ce_request = request, ce_response = response\<rparr>]
    \<and> filter (\<lambda>e. ce_id e \<noteq> i) after = filter (\<lambda>e. ce_id e \<noteq> i) before
    \<and> (cache_request_replacement_key js request \<noteq> ([], []) \<longrightarrow>
        (\<forall>e\<in>set after. cache_request_replacement_key js (ce_request e) = cache_request_replacement_key js request
           \<longrightarrow> ce_id e = i))"
proof -
  let ?key = "cache_request_replacement_key js request"
  let ?same = "\<lambda>e. entry_key js e = ?key"
  have ok: "caches_ok js s" by (rule cache_reach_ok [OF assms(1)])
  have ok': "caches_ok js s'" by (rule cache_put_ok [OF ok assms(2) put])
  obtain c where c: "find_cache origin name s = Some c" using cache_put_cases [OF put] by auto
  note before = caches_ok_entries [OF ok c]
  have main: "\<exists>after. cache_entries origin name s' = Some after
    \<and> filter (\<lambda>e. ce_id e = i) after = [\<lparr>ce_id = i, ce_request = request, ce_response = response\<rparr>]
    \<and> filter (\<lambda>e. ce_id e \<noteq> i) after = filter (\<lambda>e. ce_id e \<noteq> i) (cn_entries c)"
  proof (cases "\<exists>old. ?key \<noteq> ([], []) \<and> List.find ?same (cn_entries c) = Some old")
    case True
    then obtain old where old: "List.find ?same (cn_entries c) = Some old" "i = ce_id old"
        "s' = update_caches origin name (replace_cache_entry ?same request response) s"
      using cache_put_cases [OF put] c by (auto dest: find_Some_in)
    have "cache_entries origin name s' = Some (replace_cache_entry ?same request response (cn_entries c))"
      by (simp add: cache_entries_def old(3) find_update_caches c)
    then show ?thesis
      using replace_filters [OF old(1)] before by (simp add: old(2) entries_ok_def)
  next
    case False
    then have new: "i = saturating_add (next_cache_entry_id s) 1"
        "s' = update_caches origin name
            (\<lambda>es. es @ [\<lparr>ce_id = i, ce_request = request, ce_response = response\<rparr>]) (s\<lparr>next_cache_entry_id := i\<rparr>)"
      using cache_put_cases [OF put] c by auto
    have "find_cache origin name (s\<lparr>next_cache_entry_id := i\<rparr>) = Some c" using c by (simp add: find_cache_def)
    then have "cache_entries origin name s' =
        Some (cn_entries c @ [\<lparr>ce_id = i, ce_request = request, ce_response = response\<rparr>])"
      unfolding new(2) by (simp add: cache_entries_def find_update_caches)
    moreover have "\<forall>e\<in>set (cn_entries c). ce_id e \<noteq> i"
      using before assms(2) new(1) by (fastforce simp: entries_ok_def)
    ultimately show ?thesis by (simp add: filter_empty_conv)
  qed
  then obtain after where after: "cache_entries origin name s' = Some after"
      "filter (\<lambda>e. ce_id e = i) after = [\<lparr>ce_id = i, ce_request = request, ce_response = response\<rparr>]"
      "filter (\<lambda>e. ce_id e \<noteq> i) after = filter (\<lambda>e. ce_id e \<noteq> i) (cn_entries c)" by blast
  have keys: "distinct (filter (\<lambda>k. k \<noteq> ([], [])) (map (entry_key js) after))"
    using ok' after(1) caches_ok_entries by (fastforce simp: cache_entries_def entries_ok_def)
  have mine: "\<lparr>ce_id = i, ce_request = request, ce_response = response\<rparr> \<in> set after"
    using arg_cong [where f = set, OF after(2)] by auto
  have "ce_id e = i" if "?key \<noteq> ([], [])" "e \<in> set after" "entry_key js e = ?key" for e
    using distinct_keys_unique [OF keys mine that(2)] that(1,3) by simp
  with after c show ?thesis by (auto simp: cache_entries_def)
qed

theorem cache_put_then_read_witness:
  "\<exists>s' after. cache_put field_json demo_site ''v1'' ''/a#x'' ''body'' (snd (cache_open demo_site ''v1'' storage_state_default)) = (Some 1, s')
     \<and> cache_entries demo_site ''v1'' s' = Some after
     \<and> filter (\<lambda>e. ce_id e = 1) after = [\<lparr>ce_id = 1, ce_request = ''/a#x'', ce_response = ''body''\<rparr>]"
proof -
  let ?s = "snd (cache_open demo_site ''v1'' storage_state_default)"
  have reach: "cache_reach field_json ?s"
    using cache_reach.step [OF cache_reach.initial, of storage_state_default field_json "CacheOpen demo_site ''v1''"]
    by (simp add: storage_state_default_def u64_max_def)
  have next_id: "next_cache_entry_id ?s = 0"
    by (simp add: cache_open_def storage_state_default_def Let_def)
  have key: "cache_request_replacement_key field_json ''/a#x'' = (''/a'', ''GET'')"
    by (simp add: cache_request_replacement_key_def field_json_def split_once_def to_ascii_uppercase_def
        to_upper_def)
  obtain s' where put: "cache_put field_json demo_site ''v1'' ''/a#x'' ''body'' ?s = (Some 1, s')"
    by (simp add: cache_put_def find_cache_def cache_open_def storage_state_default_def Let_def u64_max_def key)
  show ?thesis
    using cache_put_then_read [OF reach _ put] put next_id by (auto simp: u64_max_def)
qed

text \<open>
The visited-link history is partitioned: a page navigation makes a link look visited only in
  the partition of the page that initiated it and, when that page is same-origin with its
  top-level page, in the destination's own first-party partition.  A third-party
  frame gives no other partition anything, and nothing is ever forgotten.
\<close>

theorem visited_links_partitioned:
  assumes "has_visited_link key (record_page_navigation uc psl live requested committed source s)"
    and "\<not> has_visited_link key s"
  shows "vk_initiator_origin key = vs_origin source \<and> vk_top_level_site key = vs_top_level_site source
    \<or> vs_same_origin_with_top_level source
      \<and> storage_origin_from_url uc committed = Some (vk_initiator_origin key)
      \<and> vk_top_level_site key = storage_origin_schemeful_site psl (vk_initiator_origin key)"
  using assms
  by (auto simp: record_page_navigation_def has_visited_link_def record_key_links Let_def
      storage_origin_schemeful_site_def dest: visited_key_parts
      split: if_splits option.splits)

theorem visited_links_partitioned_witness:
  "let source = \<lparr>vs_origin = demo_site, vs_top_level_site = \<lparr>ss_scheme = ''https'', ss_domain = ''b.test''\<rparr>,
                 vs_same_origin_with_top_level = False\<rparr>;
       key = \<lparr>vk_destination = ''https://a.test/'', vk_initiator_origin = demo_site,
              vk_top_level_site = vs_top_level_site source\<rparr>
   in has_visited_link key (record_page_navigation site_crate \<lparr>psl_suffix_str = (\<lambda>_. None), psl_domain_str = (\<lambda>_. None)\<rparr>
        (\<lambda>_. True) ''https://a.test/'' ''https://a.test/'' source storage_state_default)
      \<and> vk_initiator_origin key = vs_origin source"
proof -
  let ?source = "\<lparr>vs_origin = demo_site, vs_top_level_site = \<lparr>ss_scheme = ''https'', ss_domain = ''b.test''\<rparr>,
                 vs_same_origin_with_top_level = False\<rparr>"
  let ?key = "\<lparr>vk_destination = ''https://a.test/'', vk_initiator_origin = demo_site,
              vk_top_level_site = vs_top_level_site ?source\<rparr>"
  let ?psl = "\<lparr>psl_suffix_str = (\<lambda>_. None), psl_domain_str = (\<lambda>_. None)\<rparr>"
  have new: "has_visited_link ?key (record_page_navigation site_crate ?psl (\<lambda>_. True) ''https://a.test/''
      ''https://a.test/'' ?source storage_state_default)"
    by (simp add: has_visited_link_def record_page_navigation_def record_key_links visited_link_key_new_def
        site_crate_def Let_def)
  have "\<not> has_visited_link ?key storage_state_default"
    by (simp add: has_visited_link_def storage_state_default_def)
  from visited_links_partitioned [OF new this] new show ?thesis by (simp add: Let_def)
qed

text \<open>
A granted origin survives a restart: when \<open>persist\<close> reports that the grant is in place on a
  profile, the manager loaded from the profile's file has the same granted origins; when it
  reports an error, the grant is withdrawn and the file loads as before.
\<close>

theorem persist_survives_restart:
  assumes json: "\<forall>xs b. json_strings_to_vec js xs = Inr b \<longrightarrow> json_strings_from_slice js b = Inr xs"
    and parse: "\<forall>x\<in>insert origin (persisted_origins s).
          storage_origin_from_url uc (storage_origin_serialize x) = Some x"
    and path: "persistence_path s = Some path" "with_extension path ''tmp'' \<noteq> path"
    and "persistence_policy s = PersistAllow" "origin \<notin> persisted_origins s"
    and iter: "set iter = insert origin (persisted_origins s)"
    and run: "persist js iter origin io (fs, s) = (res, (fs', s'))"
  shows "if res = Inr True
    then persisted_origins s' = insert origin (persisted_origins s)
       \<and> load_persisted_origins js uc path fs' = Inr (persisted_origins s')
    else persisted_origins s' = persisted_origins s
       \<and> load_persisted_origins js uc path fs' = load_persisted_origins js uc path fs"
proof -
  obtain b fs2 where sv: "save_persisted_origins js path iter io fs = (b, fs2)" by fastforce
  note res = persist_saved [OF run path(1) assms(5,6)]
  show ?thesis
  proof (cases b)
    case False
    then have "fs2 path = fs path"
      using sv replace_file_cases(2) [OF _ _ path(2)]
      by (auto simp: save_persisted_origins_def split: if_splits sum.splits)
    then show ?thesis using res sv False by (simp add: load_persisted_origins_def)
  next
    case True
    then obtain bytes where bytes: "json_strings_to_vec js (sort (map storage_origin_serialize iter)) = Inr bytes"
        "replace_file path (with_extension path ''tmp'') bytes io fs = (True, fs2)"
      using sv by (auto simp: save_persisted_origins_def split: if_splits sum.splits)
    have "json_strings_from_slice js bytes = Inr (sort (map storage_origin_serialize iter))"
      using json bytes(1) by blast
    then have "load_persisted_origins js uc path fs2 =
        Inr {y. \<exists>x\<in>set iter. storage_origin_from_url uc (storage_origin_serialize x) = Some y}"
      using replace_file_cases(1) [OF bytes(2)] by (simp add: load_persisted_origins_def set_map_filter)
    also have "\<dots> = Inr (insert origin (persisted_origins s))" using parse iter by auto
    finally show ?thesis using res sv True by simp
  qed
qed

theorem persist_survives_restart_witness:
  "\<exists>s'. persist field_json [demo_site] demo_site no_faults
       (Map.empty, (with_policy 10 PersistAllow)\<lparr>persistence_path := Some ''p/origins.json''\<rparr>)
       = (Inr True, ([''p/origins.json'' \<mapsto> [1]], s'))
     \<and> load_persisted_origins field_json site_crate ''p/origins.json'' [''p/origins.json'' \<mapsto> [1]]
       = Inr (persisted_origins s')"
proof -
  let ?s = "(with_policy 10 PersistAllow)\<lparr>persistence_path := Some ''p/origins.json''\<rparr>"
  have tmp: "with_extension ''p/origins.json'' ''tmp'' = ''p/origins.tmp''"
    by (simp add: with_extension_def split_file_name_def file_stem_def Let_def)
  have run: "persist field_json [demo_site] demo_site no_faults (Map.empty, ?s)
      = (Inr True, ([''p/origins.json'' \<mapsto> [1]], ?s\<lparr>persisted_origins := {demo_site}\<rparr>))"
    by (auto simp: persist_def save_persisted_origins_def replace_file_def tmp field_json_def no_faults_def
        with_policy_def storage_state_default_def Let_def fun_eq_iff)
  have "if Inr True = (Inr True :: unit + bool)
    then persisted_origins (?s\<lparr>persisted_origins := {demo_site}\<rparr>) = insert demo_site (persisted_origins ?s)
       \<and> load_persisted_origins field_json site_crate ''p/origins.json'' [''p/origins.json'' \<mapsto> [1]]
         = Inr (persisted_origins (?s\<lparr>persisted_origins := {demo_site}\<rparr>))
    else persisted_origins (?s\<lparr>persisted_origins := {demo_site}\<rparr>) = persisted_origins ?s
       \<and> load_persisted_origins field_json site_crate ''p/origins.json'' [''p/origins.json'' \<mapsto> [1]]
         = load_persisted_origins field_json site_crate ''p/origins.json'' Map.empty"
    by (rule persist_survives_restart [OF _ _ _ _ _ _ _ run])
      (auto simp: field_json_def demo_site_serialize site_crate_origin tmp with_policy_def storage_state_default_def)
  with run show ?thesis by auto
qed

end
