(* ===== verification/ReportingEndpoints.thy ===== *)
theory ReportingEndpoints
  imports HttpUrl WireText
begin

text \<open>
  \<open>src/js/security_reporting/endpoints.rs\<close>: the parser of the \<open>Reporting-Endpoints\<close> response
  field (a dictionary of structured fields, RFC 9651) and the choice of the endpoints it defines;
  and \<open>is_secure_context_url\<close> of \<open>src/js/mod.rs\<close>, which decides what may be an endpoint.
  The state of the source's \<open>Parser\<close>, a position in the bytes of the field, is the list of the
  bytes from that position on.  The decoder of the \<open>base64\<close> crate is a parameter, and so is
  the \<open>url\<close> crate.
\<close>

section \<open>Secure contexts\<close>

text \<open>The part of a URL before its fragment, and an \<open>http\<close> authority that is the IPv6 loopback
  address with an optional port.\<close>

definition ipv6_loopback_authority :: "string \<Rightarrow> bool" where
  "ipv6_loopback_authority s =
     (case strip_prefix ''http://'' s of
        None \<Rightarrow> False
      | Some a \<Rightarrow>
          (case strip_prefix ''[::1]'' (takeWhile (\<lambda>c. c \<noteq> CHR ''/'' \<and> c \<noteq> CHR ''?'') a) of
             None \<Rightarrow> False
           | Some port \<Rightarrow>
               (case strip_prefix '':'' port of
                  None \<Rightarrow> True
                | Some v \<Rightarrow> v \<noteq> [] \<and> parse_uint 10 u16_max v \<noteq> None)))"

definition is_secure_context_url :: "'u url_crate \<Rightarrow> string \<Rightarrow> bool" where
  "is_secure_context_url uc url =
     (let lower_url = to_ascii_lowercase url;
          url_without_fragment =
            (case split_once (CHR ''#'') lower_url of None \<Rightarrow> lower_url | Some (p, _) \<Rightarrow> p)
      in if ipv6_loopback_authority url_without_fragment then True
         else
           case url_from_str uc url_without_fragment of
             Inl _ \<Rightarrow> False
           | Inr u \<Rightarrow>
               if eq_ignore_ascii_case (u_scheme u) ''https'' then True
               else if \<not> eq_ignore_ascii_case (u_scheme u) ''http'' then False
               else
                 let host = to_ascii_lowercase (u_host u) in
                 host = ''localhost''
                 \<or> (case read_ipv4_addr host of Some (a # _, []) \<Rightarrow> a = 127 | _ \<Rightarrow> False))"

section \<open>The parser\<close>

abbreviation quote :: char where "quote \<equiv> CHR 0x22"
abbreviation backslash :: char where "backslash \<equiv> CHR 0x5C"

definition sf_lower :: "char \<Rightarrow> bool" where
  "sf_lower c \<longleftrightarrow> 97 \<le> byte c \<and> byte c \<le> 122"

definition sf_eat :: "char \<Rightarrow> string \<Rightarrow> bool \<times> string" where
  "sf_eat b bs = (case bs of c # cs \<Rightarrow> if c = b then (True, cs) else (False, bs) | [] \<Rightarrow> (False, bs))"

definition sf_spaces :: "string \<Rightarrow> string" where
  "sf_spaces bs = dropWhile (\<lambda>c. c = CHR '' '') bs"

definition sf_ows :: "string \<Rightarrow> string" where
  "sf_ows bs = dropWhile (\<lambda>c. c = CHR '' '' \<or> c = CHR 0x09) bs"

definition sf_key_start :: "char \<Rightarrow> bool" where
  "sf_key_start c \<longleftrightarrow> sf_lower c \<or> c = CHR ''*''"

definition sf_key_char :: "char \<Rightarrow> bool" where
  "sf_key_char c \<longleftrightarrow> sf_lower c \<or> is_ascii_digit c \<or> c \<in> set ''_-.*''"

definition sf_key :: "string \<Rightarrow> (string \<times> string) option" where
  "sf_key bs =
     (case bs of
        c # cs \<Rightarrow> if sf_key_start c then Some (c # takeWhile sf_key_char cs, dropWhile sf_key_char cs) else None
      | [] \<Rightarrow> None)"

fun sf_string_body :: "string \<Rightarrow> string \<Rightarrow> (string \<times> string) option" where
  "sf_string_body result [] = None"
| "sf_string_body result (b # bs) =
     (if b = quote then Some (result, bs)
      else if b = backslash then
        (case bs of
           [] \<Rightarrow> None
         | e # es \<Rightarrow>
             if e \<noteq> quote \<and> e \<noteq> backslash then None else sf_string_body (result @ [e]) es)
      else if \<not> (0x20 \<le> byte b \<and> byte b \<le> 0x7E) then None
      else sf_string_body (result @ [b]) bs)"

definition sf_string :: "string \<Rightarrow> (string \<times> string) option" where
  "sf_string bs =
     (case sf_eat quote bs of (True, r) \<Rightarrow> sf_string_body [] r | (False, _) \<Rightarrow> None)"

definition sf_lower_hex_digit :: "string \<Rightarrow> (u8 \<times> string) option" where
  "sf_lower_hex_digit bs =
     (case bs of
        [] \<Rightarrow> None
      | c # cs \<Rightarrow>
          if is_ascii_digit c then Some (word_of_nat (byte c) - 48, cs)
          else if 97 \<le> byte c \<and> byte c \<le> 102 then Some (word_of_nat (byte c) - 97 + 10, cs)
          else None)"

fun sf_display_body :: "u8 list \<Rightarrow> string \<Rightarrow> string option" where
  "sf_display_body decoded [] = None"
| "sf_display_body decoded (b # bs) =
     (if b = quote then map_option (\<lambda>_. bs) (from_utf8 decoded)
      else if b = CHR ''%'' then
        (case bs of
           h # l # r \<Rightarrow>
             (case (sf_lower_hex_digit [h], sf_lower_hex_digit [l]) of
                (Some (high, _), Some (low, _)) \<Rightarrow> sf_display_body (decoded @ [high * 16 + low]) r
              | _ \<Rightarrow> None)
         | _ \<Rightarrow> None)
      else if 0x20 \<le> byte b \<and> byte b \<le> 0x7E then
        sf_display_body (decoded @ [word_of_nat (byte b)]) bs
      else None)"

definition sf_display_string :: "string \<Rightarrow> string option" where
  "sf_display_string bs =
     (case sf_eat (CHR ''%'') bs of
        (False, _) \<Rightarrow> None
      | (True, r) \<Rightarrow>
          (case sf_eat quote r of (False, _) \<Rightarrow> None | (True, r') \<Rightarrow> sf_display_body [] r'))"

definition sf_byte_sequence :: "(u8 list \<Rightarrow> u8 list option) \<Rightarrow> string \<Rightarrow> string option" where
  "sf_byte_sequence decode bs =
     (case sf_eat (CHR '':'') bs of
        (False, _) \<Rightarrow> None
      | (True, r) \<Rightarrow>
          let body_char = (\<lambda>c. is_ascii_alphanumeric c \<or> c \<in> set ''+/='');
              body = takeWhile body_char r
          in case sf_eat (CHR '':'') (dropWhile body_char r) of
               (False, _) \<Rightarrow> None
             | (True, r') \<Rightarrow> map_option (\<lambda>_. r') (decode (bytes_of_str body)))"

text \<open>Integers, decimals and dates: at most fifteen digits, or twelve before a decimal point
  and one to three after it.\<close>

definition sf_number :: "bool \<Rightarrow> string \<Rightarrow> string option" where
  "sf_number date bs =
     (let bs = snd (sf_eat (CHR ''-'') bs);
          digits = length (takeWhile is_ascii_digit bs);
          bs = dropWhile is_ascii_digit bs
      in if digits = 0 \<or> digits > 15 then None
         else
           case (if \<not> date then sf_eat (CHR ''.'') bs else (False, bs)) of
             (False, r) \<Rightarrow> Some r
           | (True, r) \<Rightarrow>
               if digits > 12 then None
               else
                 let fraction = length (takeWhile is_ascii_digit r) in
                 if \<not> (1 \<le> fraction \<and> fraction \<le> 3) then None
                 else Some (dropWhile is_ascii_digit r))"

definition sf_token_char :: "char \<Rightarrow> bool" where
  "sf_token_char c \<longleftrightarrow> is_ascii_alphanumeric c \<or> c \<in> set (''!#$%&'' @ CHR 0x27 # ''*+-.^_`|~:/'')"

definition sf_item :: "(u8 list \<Rightarrow> u8 list option) \<Rightarrow> string \<Rightarrow> (string option \<times> string) option" where
  "sf_item decode bs =
     (let peek = (\<lambda>s. case s of [] \<Rightarrow> None | c # _ \<Rightarrow> Some c) in
      if peek bs = Some quote then map_option (apfst Some) (sf_string bs)
      else if peek bs = Some (CHR ''%'') then map_option (Pair None) (sf_display_string bs)
      else if peek bs = Some (CHR ''?'') then
        (let r = tl bs in
         if fst (sf_eat (CHR ''0'') r) then Some (None, tl r)
         else if fst (sf_eat (CHR ''1'') r) then Some (None, tl r)
         else None)
      else if peek bs = Some (CHR '':'') then map_option (Pair None) (sf_byte_sequence decode bs)
      else
        let (date, r) = sf_eat (CHR ''@'') bs in
        if date \<or> (case peek r of None \<Rightarrow> False | Some c \<Rightarrow> c = CHR ''-'' \<or> is_ascii_digit c) then
          map_option (Pair None) (sf_number date r)
        else
          case r of
            [] \<Rightarrow> None
          | c # cs \<Rightarrow>
              if is_ascii_alphabetic c \<or> c = CHR ''*'' then Some (None, dropWhile sf_token_char cs)
              else None)"

text \<open>Every operation of the parser moves forward.\<close>

lemma sf_eat_shorter: "length (snd (sf_eat b bs)) \<le> length bs"
  by (cases bs) (auto simp: sf_eat_def)

lemma sf_eat_True: "sf_eat b bs = (True, r) \<longleftrightarrow> bs = b # r"
  by (cases bs) (auto simp: sf_eat_def)

lemma sf_eat_False: "sf_eat b bs = (False, r) \<longleftrightarrow> r = bs \<and> (bs = [] \<or> hd bs \<noteq> b)"
  by (cases bs) (auto simp: sf_eat_def)

lemma sf_spaces_shorter: "length (sf_spaces bs) \<le> length bs"
  by (simp add: sf_spaces_def length_dropWhile_le)

lemma sf_ows_shorter: "length (sf_ows bs) \<le> length bs"
  by (simp add: sf_ows_def length_dropWhile_le)

lemma sf_key_shorter: "sf_key bs = Some (k, r) \<Longrightarrow> length r < length bs"
  by (cases bs) (auto simp: sf_key_def less_Suc_eq_le length_dropWhile_le split: if_splits)

lemma sf_string_body_shorter: "sf_string_body acc bs = Some (v, r) \<Longrightarrow> length r < length bs"
  by (induction acc bs rule: sf_string_body.induct) (auto split: if_splits list.splits)

lemma sf_display_body_shorter: "sf_display_body acc bs = Some r \<Longrightarrow> length r < length bs"
proof (induction "length bs" arbitrary: acc bs rule: less_induct)
  case less
  show ?case
  proof (cases bs)
    case (Cons b cs)
    show ?thesis
    proof (cases "b = CHR ''%''")
      case True
      obtain h l q v where "cs = h # l # q" "sf_display_body v q = Some r"
        using less.prems True Cons by (auto split: list.splits option.splits)
      then show ?thesis using less.hyps [of q v] Cons by simp
    next
      case False
      then show ?thesis
        using less.prems less.hyps [of cs] Cons by (auto split: if_splits intro: less_SucI)
    qed
  qed (use less.prems in simp)
qed

lemma sf_number_shorter: "sf_number date bs = Some r \<Longrightarrow> length r < length bs"
proof -
  assume a: "sf_number date bs = Some r"
  define b1 where "b1 = snd (sf_eat (CHR ''-'') bs)"
  have digits: "length (takeWhile is_ascii_digit b1) \<noteq> 0"
    using a by (auto simp: sf_number_def Let_def b1_def split: if_splits)
  have "length (takeWhile is_ascii_digit b1) + length (dropWhile is_ascii_digit b1) = length b1"
    by (metis length_append takeWhile_dropWhile_id)
  then have l: "length (dropWhile is_ascii_digit b1) < length b1" using digits by linarith
  have "length r \<le> length (dropWhile is_ascii_digit b1)"
    using a
    by (auto simp: sf_number_def Let_def b1_def [symmetric] sf_eat_True sf_eat_False split: if_splits prod.splits bool.splits
          intro: le_trans [OF length_dropWhile_le])
  with l show ?thesis using sf_eat_shorter [of "CHR ''-''" bs] unfolding b1_def by linarith
qed

lemma sf_item_shorter: "sf_item decode bs = Some (v, r) \<Longrightarrow> length r < length bs"
proof -
  assume a: "sf_item decode bs = Some (v, r)"
  obtain c cs where bs: "bs = c # cs"
    using a by (cases bs) (auto simp: sf_item_def sf_eat_def)
  have b: "sf_byte_sequence decode bs = Some r \<Longrightarrow> length r < length bs"
    by (auto simp: sf_byte_sequence_def Let_def sf_eat_True bs split: prod.splits bool.splits
          dest!: length_dropWhile_Cons_less)
  have s: "sf_string bs = Some (w, r) \<Longrightarrow> length r < length bs" for w
    using sf_string_body_shorter [of "[]"]
    by (auto simp: sf_string_def sf_eat_True bs intro: less_SucI split: prod.splits bool.splits)
  have d: "sf_display_string bs = Some r \<Longrightarrow> length r < length bs"
    using sf_display_body_shorter [of "[]"]
    by (fastforce simp: sf_display_string_def sf_eat_True bs split: prod.splits bool.splits)
  have n: "sf_number date q = Some r \<Longrightarrow> length q \<le> length bs \<Longrightarrow> length r < length bs" for date q
    using sf_number_shorter by (meson less_le_trans)
  show ?thesis
  proof (cases "c \<in> {quote, CHR ''%'', CHR ''?'', CHR '':''}")
    case True
    then show ?thesis
      using a b s d by (auto simp: sf_item_def sf_eat_def bs split: if_splits list.splits)
  next
    case False
    obtain date q where e: "sf_eat (CHR ''@'') bs = (date, q)" by (metis surj_pair)
    then have q: "length q \<le> length bs" using sf_eat_shorter [of "CHR ''@''" bs] by simp
    show ?thesis
      using a False e q n [of date q]
      by (auto simp: sf_item_def Let_def bs less_Suc_eq_le split: if_splits list.splits option.splits
            intro: le_trans [OF length_dropWhile_le])
  qed
qed

lemma sf_parameter_shorter:
  assumes "(b, p) = sf_eat (CHR '';'') bs" "sf_key (sf_spaces p) = Some (k, q)" "(d, r) = sf_eat c q"
  shows "length r < length bs"
  using sf_key_shorter [OF assms(2)] sf_spaces_shorter [of p] sf_eat_shorter [of "CHR '';''" bs]
    sf_eat_shorter [of c q] by (simp flip: assms(1,3))

function sf_parameters :: "(u8 list \<Rightarrow> u8 list option) \<Rightarrow> string \<Rightarrow> string option" where
  "sf_parameters decode bs =
     (case sf_eat (CHR '';'') bs of
        (False, r) \<Rightarrow> Some r
      | (True, r) \<Rightarrow>
          (case sf_key (sf_spaces r) of
             None \<Rightarrow> None
           | Some (_, r) \<Rightarrow>
               (case sf_eat (CHR ''='') r of
                  (False, r) \<Rightarrow> sf_parameters decode r
                | (True, r) \<Rightarrow>
                    (case sf_item decode r of None \<Rightarrow> None | Some (_, r) \<Rightarrow> sf_parameters decode r))))"
  by pat_completeness auto

termination
  by (relation "measure (\<lambda>(decode, bs). length bs)")
    (auto intro: sf_parameter_shorter dest!: sf_item_shorter intro: less_trans)

declare sf_parameters.simps [simp del]

lemma sf_parameters_shorter: "sf_parameters decode bs = Some r \<Longrightarrow> length r \<le> length bs"
proof (induction "length bs" arbitrary: bs rule: less_induct)
  case less
  obtain b p where e: "sf_eat (CHR '';'') bs = (b, p)" by (metis surj_pair)
  show ?case
  proof (cases b)
    case True
    obtain k q where k: "sf_key (sf_spaces p) = Some (k, q)"
      using less.prems e True by (subst (asm) sf_parameters.simps) (auto split: option.splits)
    obtain d x where d: "sf_eat (CHR ''='') q = (d, x)" by (metis surj_pair)
    have x: "length x < length bs" by (rule sf_parameter_shorter [OF e [symmetric] k d [symmetric]])
    show ?thesis
    proof (cases d)
      case False
      then have "sf_parameters decode x = Some r"
        using less.prems e True k d by (subst (asm) sf_parameters.simps) simp
      then show ?thesis using less.hyps [OF x] x by simp
    next
      case dT: True
      obtain w y where i: "sf_item decode x = Some (w, y)" and y: "sf_parameters decode y = Some r"
        using less.prems e True k d dT by (subst (asm) sf_parameters.simps) (auto split: option.splits)
      have "length y < length bs" using sf_item_shorter [OF i] x by simp
      then show ?thesis using less.hyps y by fastforce
    qed
  next
    case False
    then show ?thesis
      using less.prems e sf_eat_shorter [of "CHR '';''" bs] by (subst (asm) sf_parameters.simps) simp
  qed
qed

lemma sf_inner_step_shorter:
  assumes "(b, p) = sf_eat c bs" "sf_item decode p = Some (v, q)" "sf_parameters decode q = Some r"
  shows "length (sf_spaces r) < length bs"
  using sf_item_shorter [OF assms(2)] sf_parameters_shorter [OF assms(3)] sf_spaces_shorter [of r]
    sf_eat_shorter [of c bs] by (simp flip: assms(1))

text \<open>The items of an inner list, after its opening parenthesis and up to its closing one.\<close>

function sf_inner_list :: "(u8 list \<Rightarrow> u8 list option) \<Rightarrow> string \<Rightarrow> string option" where
  "sf_inner_list decode bs =
     (case sf_eat (CHR '')'') bs of
        (True, r) \<Rightarrow> Some r
      | (False, bs) \<Rightarrow>
          (case sf_item decode bs of
             None \<Rightarrow> None
           | Some (_, r) \<Rightarrow>
               (case sf_parameters decode r of
                  None \<Rightarrow> None
                | Some r \<Rightarrow>
                    if r = [] \<or> hd r \<noteq> CHR '')'' \<and> hd r \<noteq> CHR '' '' then None
                    else sf_inner_list decode (sf_spaces r))))"
  by pat_completeness auto

termination
  by (relation "measure (\<lambda>(decode, bs). length bs)") (auto intro: sf_inner_step_shorter)

declare sf_inner_list.simps [simp del]

definition sf_member :: "(u8 list \<Rightarrow> u8 list option) \<Rightarrow> string \<Rightarrow> (string option \<times> string) option" where
  "sf_member decode bs =
     (case (case sf_eat (CHR ''('') bs of
              (True, r) \<Rightarrow> map_option (Pair None) (sf_inner_list decode (sf_spaces r))
            | (False, r) \<Rightarrow> sf_item decode r) of
        None \<Rightarrow> None
      | Some (value, r) \<Rightarrow> map_option (Pair value) (sf_parameters decode r))"


lemma sf_member_shorter: "sf_member decode bs = Some (v, r) \<Longrightarrow> length r \<le> length bs"
proof -
  have inner: "sf_inner_list decode cs = Some q \<Longrightarrow> length q \<le> length cs" for cs q
  proof (induction "length cs" arbitrary: cs rule: less_induct)
    case less
    show ?case
    proof (cases "sf_eat (CHR '')'') cs")
      case (Pair b p)
      show ?thesis
      proof (cases b)
        case True
        then show ?thesis
          using less.prems Pair sf_eat_shorter [of "CHR '')''" cs] by (subst (asm) sf_inner_list.simps) simp
      next
        case False
        obtain w x y where s: "sf_item decode p = Some (w, x)" "sf_parameters decode x = Some y"
          "sf_inner_list decode (sf_spaces y) = Some q"
          using less.prems Pair False
          by (subst (asm) sf_inner_list.simps) (auto split: option.splits if_splits)
        have l: "length (sf_spaces y) < length cs"
          by (rule sf_inner_step_shorter [OF Pair [symmetric] s(1,2)])
        then show ?thesis using less.hyps [OF l s(3)] by simp
      qed
    qed
  qed
  assume a: "sf_member decode bs = Some (v, r)"
  show ?thesis
  proof (cases "sf_eat (CHR ''('') bs")
    case (Pair b p)
    have p: "length p \<le> length bs" using sf_eat_shorter [of "CHR ''(''" bs] Pair by simp
    obtain q where q: "sf_parameters decode q = Some r"
      "b \<and> sf_inner_list decode (sf_spaces p) = Some q \<or> \<not> b \<and> sf_item decode p = Some (v, q)"
      using a Pair by (cases b) (auto simp: sf_member_def split: option.splits)
    from q(2) have "length q \<le> length p"
      using inner [of "sf_spaces p" q] sf_spaces_shorter [of p] sf_item_shorter [of decode p v q] by auto
    then show ?thesis using sf_parameters_shorter [OF q(1)] p by simp
  qed
qed

text \<open>One entry of a dictionary, and the entries up to the end of the field; a later entry
  replaces an earlier one of the same key.\<close>

definition sf_entry ::
  "(u8 list \<Rightarrow> u8 list option) \<Rightarrow> string \<Rightarrow> ((string \<times> string option) \<times> string) option" where
  "sf_entry decode bs =
     (case sf_key bs of
        None \<Rightarrow> None
      | Some (k, r) \<Rightarrow>
          map_option (apfst (Pair k))
            (case sf_eat (CHR ''='') r of
               (True, r) \<Rightarrow> sf_member decode r
             | (False, r) \<Rightarrow> map_option (Pair None) (sf_parameters decode r)))"

lemma sf_entry_shorter: "sf_entry decode bs = Some (e, r) \<Longrightarrow> length r < length bs"
proof -
  assume a: "sf_entry decode bs = Some (e, r)"
  obtain k q where k: "sf_key bs = Some (k, q)" using a by (auto simp: sf_entry_def split: option.splits)
  obtain b p where p: "sf_eat (CHR ''='') q = (b, p)" by (metis surj_pair)
  have "length r \<le> length p"
    using a k p by (cases b) (auto simp: sf_entry_def dest: sf_member_shorter sf_parameters_shorter)
  then show ?thesis using sf_key_shorter [OF k] sf_eat_shorter [of "CHR ''=''" q] p by simp
qed

lemma sf_entry_step_shorter:
  assumes "sf_entry decode bs = Some (e, q)" "(b, r) = sf_eat c (sf_ows q)"
  shows "length (sf_ows r) < length bs"
  using sf_entry_shorter [OF assms(1)] sf_eat_shorter [of c "sf_ows q"] sf_ows_shorter [of q] sf_ows_shorter [of r]
  by (simp flip: assms(2))

function sf_entries ::
  "(u8 list \<Rightarrow> u8 list option) \<Rightarrow> (string \<rightharpoonup> string option) \<Rightarrow> string \<Rightarrow> (string \<rightharpoonup> string option) option"
where
  "sf_entries decode result bs =
     (case sf_entry decode bs of
        None \<Rightarrow> None
      | Some ((key, value), r) \<Rightarrow>
          let result = result(key \<mapsto> value); r = sf_ows r in
          if r = [] then Some result
          else
            case sf_eat (CHR '','') r of
              (False, _) \<Rightarrow> None
            | (True, r) \<Rightarrow> sf_entries decode result (sf_ows r))"
  by pat_completeness auto

termination
  by (relation "measure (\<lambda>(decode, result, bs). length bs)") (auto intro: sf_entry_step_shorter)

declare sf_entries.simps [simp del]

definition sf_dictionary :: "(u8 list \<Rightarrow> u8 list option) \<Rightarrow> string \<Rightarrow> (string \<rightharpoonup> string option) option" where
  "sf_dictionary decode bs =
     (let bs = sf_spaces bs in if bs = [] then Some Map.empty else sf_entries decode Map.empty bs)"

section \<open>Endpoints\<close>

text \<open>The URL that a string item defines, against the URL of the document.\<close>

definition endpoint_url :: "'u url_crate \<Rightarrow> 'u \<Rightarrow> string \<Rightarrow> string option" where
  "endpoint_url uc base value =
     (case uc_join uc base value of
        Inl _ \<Rightarrow> None
      | Inr endpoint \<Rightarrow>
          if uc_scheme uc endpoint \<in> {''http'', ''https''}
             \<and> is_secure_context_url uc (uc_as_str uc endpoint)
          then Some (uc_as_str uc endpoint) else None)"

definition parse_reporting_endpoints ::
  "'u url_crate \<Rightarrow> (u8 list \<Rightarrow> u8 list option) \<Rightarrow> string \<Rightarrow> string \<Rightarrow> (string \<rightharpoonup> string)" where
  "parse_reporting_endpoints uc decode input base =
     (case uc_parse uc base of
        Inl _ \<Rightarrow> Map.empty
      | Inr base \<Rightarrow>
          if \<not> is_secure_context_url uc (uc_as_str uc base) then Map.empty
          else
            case sf_dictionary decode input of
              None \<Rightarrow> Map.empty
            | Some values \<Rightarrow>
                (\<lambda>name. case values name of
                   Some (Some value) \<Rightarrow> endpoint_url uc base value
                 | _ \<Rightarrow> None))"

section \<open>Printing a dictionary\<close>

text \<open>The reference printer of dictionaries whose items are strings.\<close>

definition sf_escape :: "char \<Rightarrow> string" where
  "sf_escape c = (if c = quote \<or> c = backslash then [backslash, c] else [c])"

definition show_sf_string :: "string \<Rightarrow> string" where
  "show_sf_string v = quote # concat (map sf_escape v) @ [quote]"

definition show_sf_entry :: "string \<times> string \<Rightarrow> string" where
  "show_sf_entry e = fst e @ ''='' @ show_sf_string (snd e)"

definition show_sf_dictionary :: "(string \<times> string) list \<Rightarrow> string" where
  "show_sf_dictionary es = join '', '' (map show_sf_entry es)"

fun sf_valid_key :: "string \<Rightarrow> bool" where
  "sf_valid_key [] = False"
| "sf_valid_key (c # cs) = (sf_key_start c \<and> list_all sf_key_char cs)"

definition sf_printable :: "string \<Rightarrow> bool" where
  "sf_printable v = list_all (\<lambda>c. 0x20 \<le> byte c \<and> byte c \<le> 0x7E) v"

lemma sf_string_body_escape:
  "sf_printable v \<Longrightarrow>
   sf_string_body acc (concat (map sf_escape v) @ quote # rest) = Some (acc @ v, rest)"
  by (induction v arbitrary: acc) (auto simp: sf_escape_def sf_printable_def)

interpretation sf_text: codec show_sf_string sf_string sf_printable
  by unfold_locales (simp add: show_sf_string_def sf_string_def sf_eat_def sf_string_body_escape)

lemma sf_key_show: "sf_valid_key k \<Longrightarrow> sf_key (k @ CHR ''='' # rest) = Some (k, CHR ''='' # rest)"
proof -
  assume a: "sf_valid_key k"
  then obtain c cs where k: "k = c # cs" "sf_key_start c" "list_all sf_key_char cs"
    by (cases k) auto
  have "\<not> sf_key_char (CHR ''='')" by (simp add: sf_key_char_def sf_lower_def is_ascii_digit_def)
  then show ?thesis using k by (simp add: sf_key_def list_all_iff takeWhile_append2 dropWhile_append2)
qed

lemma sf_entry_show:
  assumes "sf_valid_key k" "sf_printable v" "rest = [] \<or> hd rest \<noteq> CHR '';''"
  shows "sf_entry decode (show_sf_entry (k, v) @ rest) = Some ((k, Some v), rest)"
proof -
  have p: "sf_parameters decode rest = Some rest"
    using assms(3) by (subst sf_parameters.simps) (cases rest; simp add: sf_eat_def)
  obtain q where q: "show_sf_string v @ rest = quote # q" by (simp add: show_sf_string_def)
  have "sf_item decode (show_sf_string v @ rest) = Some (Some v, rest)"
    using sf_text.dec_enc [OF assms(2), of rest] unfolding q by (simp add: sf_item_def)
  moreover have "sf_eat (CHR ''('') (show_sf_string v @ rest) = (False, show_sf_string v @ rest)"
    by (simp add: sf_eat_def show_sf_string_def)
  ultimately have "sf_member decode (show_sf_string v @ rest) = Some (Some v, rest)"
    by (simp add: sf_member_def p)
  then show ?thesis
    by (simp add: sf_entry_def show_sf_entry_def sf_key_show [OF assms(1)] sf_eat_def)
qed

lemma show_sf_entry_start: "sf_valid_key (fst e) \<Longrightarrow> sf_ows (show_sf_entry e @ r) = show_sf_entry e @ r"
  by (cases "fst e") (auto simp: sf_ows_def show_sf_entry_def sf_key_start_def sf_lower_def)

lemma sf_entries_step:
  "sf_entry decode bs = Some ((k, v), r) \<Longrightarrow> sf_ows r = CHR '','' # q \<Longrightarrow>
   sf_entries decode m bs = sf_entries decode (m(k \<mapsto> v)) (sf_ows q)"
  by (subst sf_entries.simps) (simp add: sf_eat_def Let_def)

lemma sf_entries_show:
  assumes "es \<noteq> []" "\<forall>e\<in>set es. sf_valid_key (fst e) \<and> sf_printable (snd e)"
  shows "sf_entries decode m (show_sf_dictionary es) = Some (m ++ map_of (rev (map (apsnd Some) es)))"
  using assms
proof (induction es arbitrary: m rule: list_nonempty_induct)
  case (single e)
  obtain k v where e: "e = (k, v)" by (metis surj_pair)
  have "sf_entry decode (show_sf_entry (k, v)) = Some ((k, Some v), [])"
    using sf_entry_show [of k v "[]"] single e by simp
  then show ?case
    by (subst sf_entries.simps) (simp add: show_sf_dictionary_def e sf_ows_def)
next
  case (cons e es)
  obtain k v where e: "e = (k, v)" by (metis surj_pair)
  let ?r = "CHR '','' # CHR '' '' # show_sf_dictionary es"
  obtain f fs where es: "es = f # fs" using cons.hyps by (cases es) auto
  have d: "show_sf_dictionary (e # es) = show_sf_entry (k, v) @ ?r"
    by (simp add: show_sf_dictionary_def es e)
  have o: "sf_ows (show_sf_dictionary es) = show_sf_dictionary es"
    using show_sf_entry_start [of f "[]"] show_sf_entry_start [of f] cons.prems es
    by (cases fs) (auto simp: show_sf_dictionary_def)
  then have o': "sf_ows (CHR '' '' # show_sf_dictionary es) = show_sf_dictionary es"
    by (simp add: sf_ows_def)
  have "sf_entry decode (show_sf_entry (k, v) @ ?r) = Some ((k, Some v), ?r)"
    using sf_entry_show [of k v ?r] cons.prems e by simp
  moreover have "sf_ows ?r = ?r" by (simp add: sf_ows_def)
  moreover have "sf_entries decode (m(k \<mapsto> Some v)) (show_sf_dictionary es)
      = Some (m(k \<mapsto> Some v) ++ map_of (rev (map (apsnd Some) es)))"
    by (rule cons.IH) (use cons.prems in simp)
  ultimately show ?case
    unfolding d by (subst sf_entries_step) (auto simp: o' e)
qed


lemma sf_dictionary_show:
  assumes "\<forall>e\<in>set es. sf_valid_key (fst e) \<and> sf_printable (snd e)"
  shows "sf_dictionary decode (show_sf_dictionary es) = Some (map_of (rev (map (apsnd Some) es)))"
proof (cases es)
  case Nil
  then show ?thesis by (simp add: sf_dictionary_def show_sf_dictionary_def sf_spaces_def)
next
  case (Cons e fs)
  obtain c cs where "fst e = c # cs" "sf_key_start c"
    using assms Cons by (cases "fst e") auto
  then have "sf_spaces (show_sf_dictionary es) = show_sf_dictionary es \<and> show_sf_dictionary es \<noteq> []"
    by (cases fs) (auto simp: sf_spaces_def show_sf_dictionary_def show_sf_entry_def Cons sf_key_start_def sf_lower_def)
  then show ?thesis
    using sf_entries_show [OF _ assms, of decode Map.empty] Cons by (simp add: sf_dictionary_def)
qed

lemma map_of_apsnd_Some:
  "map_of (rev (map (apsnd Some) es)) k = map_option Some (map_of (rev es) k)"
  unfolding rev_map apsnd_def map_prod_def id_apply by (simp add: map_of_map)

section \<open>Secure contexts, as rules\<close>

text \<open>A URL in lower case and without its fragment that names a secure context: \<open>https\<close>, or \<open>http\<close> to the machine
  itself, by name, by an IPv4 loopback address or by the IPv6 one.\<close>

inductive local_or_encrypted :: "'u url_crate \<Rightarrow> string \<Rightarrow> bool" for uc v where
  encrypted: "url_from_str uc v = Inr u \<Longrightarrow> to_ascii_lowercase (u_scheme u) = ''https'' \<Longrightarrow> local_or_encrypted uc v"
| local_name: "url_from_str uc v = Inr u \<Longrightarrow> to_ascii_lowercase (u_scheme u) = ''http'' \<Longrightarrow>
    to_ascii_lowercase (u_host u) = ''localhost'' \<Longrightarrow> local_or_encrypted uc v"
| loopback4: "url_from_str uc v = Inr u \<Longrightarrow> to_ascii_lowercase (u_scheme u) = ''http'' \<Longrightarrow>
    read_ipv4_addr (to_ascii_lowercase (u_host u)) = Some (127 # octets, []) \<Longrightarrow> local_or_encrypted uc v"
| loopback6: "v = ''http://[::1]'' @ rest \<Longrightarrow> local_or_encrypted uc v"

lemma strip_prefix_SomeD: "strip_prefix p s = Some r \<Longrightarrow> s = p @ r"
  by (auto simp: strip_prefix_def prefix_def split: if_splits)

lemma ipv6_loopback_authority_prefix:
  assumes "ipv6_loopback_authority v"
  shows "\<exists>rest. v = ''http://[::1]'' @ rest"
proof -
  let ?P = "\<lambda>c. c \<noteq> CHR ''/'' \<and> c \<noteq> CHR ''?''"
  obtain a where a: "strip_prefix ''http://'' v = Some a"
    using assms by (auto simp: ipv6_loopback_authority_def split: option.splits)
  obtain b where "strip_prefix ''[::1]'' (takeWhile ?P a) = Some b"
    using assms a by (auto simp: ipv6_loopback_authority_def split: option.splits)
  then have "takeWhile ?P a = ''[::1]'' @ b" by (rule strip_prefix_SomeD)
  then have "a = (''[::1]'' @ b) @ dropWhile ?P a" by (metis takeWhile_dropWhile_id)
  then have "v = ''http://'' @ (''[::1]'' @ b) @ dropWhile ?P a" using strip_prefix_SomeD [OF a] by metis
  then show ?thesis by (intro exI [of _ "b @ dropWhile ?P a"]) simp
qed

lemma before_fragment:
  "(case split_once d s of None \<Rightarrow> s | Some (p, _) \<Rightarrow> p) = takeWhile (\<lambda>c. c \<noteq> d) s"
  by (auto simp: split_once_def dropWhile_eq_Nil_conv takeWhile_eq_all_conv split: list.split)

lemma is_secure_context_url_local:
  assumes "is_secure_context_url uc url"
  shows "local_or_encrypted uc (takeWhile (\<lambda>c. c \<noteq> CHR ''#'') (to_ascii_lowercase url))"
proof -
  let ?v = "takeWhile (\<lambda>c. c \<noteq> CHR ''#'') (to_ascii_lowercase url)"
  show ?thesis
  proof (cases "ipv6_loopback_authority ?v")
    case True
    then show ?thesis using ipv6_loopback_authority_prefix loopback6 by blast
  next
    case False
    then obtain u where u: "url_from_str uc ?v = Inr u"
      and s: "to_ascii_lowercase (u_scheme u) = ''https'' \<or> to_ascii_lowercase (u_scheme u) = ''http''
        \<and> (to_ascii_lowercase (u_host u) = ''localhost''
           \<or> (\<exists>octets. read_ipv4_addr (to_ascii_lowercase (u_host u)) = Some (127 # octets, [])))"
      using assms unfolding is_secure_context_url_def before_fragment Let_def
      by (auto simp: eq_ignore_ascii_case_def to_ascii_lowercase_def to_lower_def
          split: sum.splits if_splits option.splits prod.splits list.splits)
    then show ?thesis by (blast intro: local_or_encrypted.intros)
  qed
qed

section \<open>Properties\<close>

text \<open>C40: a \<open>Reporting-Endpoints\<close> field that lists names with quoted URLs, escapes included, defines
  exactly those names, each with the URL resolved against the document's and only where that is
  an \<open>http\<close> or \<open>https\<close> URL that \<open>is_secure_context_url\<close> accepts; of two entries with the same name the last one
  counts; in a document that is no secure context the field defines nothing.  Whatever it defines is
  reached over \<open>https\<close> or on the machine itself.\<close>

theorem reporting_endpoints_roundtrip:
  assumes "\<forall>e\<in>set es. sf_valid_key (fst e) \<and> sf_printable (snd e)" and "uc_parse uc base = Inr b"
  shows "parse_reporting_endpoints uc decode (show_sf_dictionary es) base k =
           (if is_secure_context_url uc (uc_as_str uc b)
            then case map_of (rev es) k of
                   None \<Rightarrow> None
                 | Some reference \<Rightarrow>
                     (case uc_join uc b reference of
                        Inl _ \<Rightarrow> None
                      | Inr u \<Rightarrow>
                          if (uc_scheme uc u = ''http'' \<or> uc_scheme uc u = ''https'')
                             \<and> is_secure_context_url uc (uc_as_str uc u)
                          then Some (uc_as_str uc u) else None)
            else None)
       \<and> (parse_reporting_endpoints uc decode (show_sf_dictionary es) base k = Some url \<longrightarrow>
            local_or_encrypted uc (takeWhile (\<lambda>c. c \<noteq> CHR ''#'') (to_ascii_lowercase url)))"
  (is "?p = ?r \<and> _")
proof (rule conjI)
  show e: "?p = ?r"
    using assms by (auto simp: parse_reporting_endpoints_def sf_dictionary_show map_of_apsnd_Some endpoint_url_def
        split: option.split sum.split)
  show "?p = Some url \<longrightarrow> local_or_encrypted uc (takeWhile (\<lambda>c. c \<noteq> CHR ''#'') (to_ascii_lowercase url))"
    unfolding e by (auto intro: is_secure_context_url_local split: option.splits sum.splits if_splits)
qed

definition demo_urls :: "string url_crate" where
  "demo_urls =
     \<lparr>uc_parse = Inr, uc_join = (\<lambda>b r. Inr (b @ r)), uc_scheme = (\<lambda>_. ''https''),
      uc_host = (\<lambda>_. Some (HostDomain ''a'')), uc_port_or_known_default = (\<lambda>_. Some 443),
      uc_path = (\<lambda>_. ''/''), uc_query = (\<lambda>_. None), uc_as_str = (\<lambda>u. u), uc_origin = Some,
      uc_clear_fragment = (\<lambda>u. u), uc_clear_username = (\<lambda>u. u), uc_clear_password = (\<lambda>u. u)\<rparr>"

lemma demo_urls_secure: "url_from_str demo_urls ''https://a/'' = Inr \<lparr>u_scheme = ''https'', u_host = ''a'', u_port = 443, u_path = ''/'', u_query = None\<rparr>"
  by (simp add: url_from_str_def from_standard_def demo_urls_def trim_matches_def split_once_str.simps
      starts_with_def to_ascii_lowercase_def to_lower_def)

lemma demo_urls_secure_context: "is_secure_context_url demo_urls ''https://a/''"
  by (simp add: is_secure_context_url_def ipv6_loopback_authority_def strip_prefix_def split_once_def
      to_ascii_lowercase_def to_lower_def demo_urls_secure eq_ignore_ascii_case_def)

lemma reporting_endpoints_roundtrip_witness:
  "parse_reporting_endpoints demo_urls Some (show_sf_dictionary [(''main'', ''x''), (''main'', '''')]) ''https://a/'' ''main''
     = Some ''https://a/''
   \<and> local_or_encrypted demo_urls ''https://a/''"
proof -
  let ?es = "[(''main'', ''x''), (''main'', '''')]"
  have v: "\<forall>e\<in>set ?es. sf_valid_key (fst e) \<and> sf_printable (snd e)"
    by (simp add: sf_key_start_def sf_key_char_def sf_lower_def sf_printable_def)
  have b: "uc_parse demo_urls ''https://a/'' = Inr ''https://a/''" by (simp add: demo_urls_def)
  have t: "takeWhile (\<lambda>c. c \<noteq> CHR ''#'') (to_ascii_lowercase ''https://a/'') = ''https://a/''"
    by (simp add: to_ascii_lowercase_def to_lower_def)
  have j: "uc_as_str demo_urls ''https://a/'' = ''https://a/''" "uc_join demo_urls ''https://a/'' '''' = Inr ''https://a/''"
    "uc_scheme demo_urls ''https://a/'' = ''https''"
    by (simp_all add: demo_urls_def)
  note p = reporting_endpoints_roundtrip [OF v b, of Some "''main''" "''https://a/''"]
  have "parse_reporting_endpoints demo_urls Some (show_sf_dictionary ?es) ''https://a/'' ''main'' = Some ''https://a/''"
    unfolding conjunct1 [OF p] by (simp add: j demo_urls_secure_context)
  with conjunct2 [OF p] show ?thesis unfolding t by simp
qed

end
