(* ===== verification/DataUri.thy ===== *)
theory DataUri
  imports WireText
begin

text \<open>
  \<open>src/http/data_uri.rs\<close>: percent-decoding and the parsing of \<open>data:\<close> URLs.  The decoder of
  the \<open>base64\<close> crate (no padding, trailing bits allowed) is a parameter.
\<close>

unbundle bit_operations_syntax

section \<open>Definitions\<close>

definition hex_value :: "u8 \<Rightarrow> u8 option" where
  "hex_value b =
     (if 48 \<le> b \<and> b \<le> 57 then Some (b - 48)
      else if 97 \<le> b \<and> b \<le> 102 then Some (b - 97 + 10)
      else if 65 \<le> b \<and> b \<le> 70 then Some (b - 65 + 10)
      else None)"

text \<open>A percent sign followed by two hexadecimal digits is one byte; everything else,
  malformed escapes included, stands for itself.\<close>

definition escaped_byte :: "u8 list \<Rightarrow> u8 option" where
  "escaped_byte bs =
     (case bs of
        b # h # l # _ \<Rightarrow>
          if b = 37 then
            (case (hex_value h, hex_value l) of
               (Some high, Some low) \<Rightarrow> Some (push_bit 4 high OR low)
             | _ \<Rightarrow> None)
          else None
      | _ \<Rightarrow> None)"

fun percent_decode :: "u8 list \<Rightarrow> u8 list" where
  "percent_decode [] = []"
| "percent_decode (b # bs) =
     (case escaped_byte (b # bs) of
        Some v \<Rightarrow> v # percent_decode (drop 2 bs)
      | None \<Rightarrow> b # percent_decode bs)"

definition percent_decode_bytes :: "string \<Rightarrow> u8 list" where
  "percent_decode_bytes input = percent_decode (bytes_of_str input)"

record DataUri =
  du_mime_type :: string
  du_data :: "u8 list"

definition rsplit_once :: "char \<Rightarrow> string \<Rightarrow> (string \<times> string) option" where
  "rsplit_once d s =
     (if d \<in> set s
      then let tail = rev (takeWhile (\<lambda>c. c \<noteq> d) (rev s))
           in Some (take (length s - length tail - 1) s, tail)
      else None)"

text \<open>The forgiving decoding of base64: white space is dropped, then the padding of a multiple of four.\<close>

definition decode_data_base64 :: "(u8 list \<Rightarrow> u8 list option) \<Rightarrow> u8 list \<Rightarrow> u8 list option" where
  "decode_data_base64 decode bytes =
     (let filtered = filter (\<lambda>b. b \<notin> {9, 10, 12, 13, 32}) bytes;
          stripped =
            (if length filtered mod 4 = 0 then
               if suffix [61, 61] filtered then take (length filtered - 2) filtered
               else if suffix [61] filtered then butlast filtered
               else filtered
             else filtered)
      in decode stripped)"

definition parse_data_uri :: "(u8 list \<Rightarrow> u8 list option) \<Rightarrow> string \<Rightarrow> DataUri option" where
  "parse_data_uri decode uri =
     (if \<not> (5 \<le> length uri \<and> eq_ignore_ascii_case (take 5 uri) ''data:'') then None
      else
        case split_once (CHR '','') (drop 5 uri) of
          None \<Rightarrow> None
        | Some (head, data_section) \<Rightarrow>
            let metadata = trim_matches (\<lambda>c. c = CHR '' '') head;
                media_type = takeWhile (\<lambda>c. c \<noteq> CHR '';'') metadata;
                mime_type = (if CHR ''/'' \<in> set media_type then trim media_type else ''text/plain'');
                is_base64 = (case rsplit_once (CHR '';'') metadata of
                               None \<Rightarrow> False
                             | Some (_, suff) \<Rightarrow>
                                 eq_ignore_ascii_case (dropWhile (\<lambda>c. c = CHR '' '') suff) ''base64'');
                percent_decoded = percent_decode_bytes data_section
            in map_option (\<lambda>data. \<lparr>du_mime_type = mime_type, du_data = data\<rparr>)
                 (if is_base64 then decode_data_base64 decode percent_decoded else Some percent_decoded))"

section \<open>Percent-encoding\<close>

text \<open>The reference encoder writes every byte as an escape.\<close>

definition hex_char :: "nat \<Rightarrow> u8" where
  "hex_char k = (if k < 10 then word_of_nat (48 + k) else word_of_nat (55 + k))"

definition percent_escape :: "u8 \<Rightarrow> u8 list" where
  "percent_escape b = [37, hex_char (unat b div 16), hex_char (unat b mod 16)]"

definition percent_encode :: "u8 list \<Rightarrow> u8 list" where
  "percent_encode bs = concat (map percent_escape bs)"

lemma hex_value_char: "k < 16 \<Longrightarrow> hex_value (hex_char k) = Some (word_of_nat k)"
proof -
  assume "k < 16"
  then have "k \<in> set [0..<16]" by simp
  moreover have "\<forall>k\<in>set [0..<16]. hex_value (hex_char k) = Some (word_of_nat k)"
    by (simp add: hex_value_def hex_char_def upt_rec)
  ultimately show ?thesis by blast
qed

lemma unat_lt2p_8: "unat (b :: u8) < 256"
proof -
  have "unat b < 2 ^ LENGTH(8)" by (rule unsigned_less)
  then show ?thesis by simp
qed

lemma nibbles: "push_bit 4 (word_of_nat (unat b div 16)) OR word_of_nat (unat b mod 16) = (b :: u8)"
proof -
  have u: "unat (16 :: u8) = 16" by simp
  have "(word_of_nat (unat b div 16) :: u8) = word_of_nat (unat (b div 16))"
    unfolding unat_div u ..
  then have d: "(word_of_nat (unat b div 16) :: u8) = drop_bit 4 b"
    by (simp add: drop_bit_eq_div)
  have "(word_of_nat (unat b mod 16) :: u8) = word_of_nat (unat (b mod 16))"
    unfolding unat_mod u ..
  then have m: "(word_of_nat (unat b mod 16) :: u8) = take_bit 4 b"
    by (simp add: take_bit_eq_mod)
  show ?thesis
    unfolding d m by (rule bit_word_eqI) (auto simp: bit_simps)
qed

lemma percent_decode_encode [simp]: "percent_decode (percent_encode bs) = bs"
proof (induction bs)
  case (Cons b bs)
  have "unat b < 256" using unat_lt2p_8 [of b] by simp
  then have "unat b div 16 < 16" by simp
  then have "escaped_byte (percent_escape b @ percent_encode bs) = Some b"
    by (simp add: escaped_byte_def percent_escape_def hex_value_char nibbles)
  with Cons show ?case by (simp add: percent_encode_def percent_escape_def)
qed (simp add: percent_encode_def)

lemma percent_decode_length: "length (percent_decode bs) \<le> length bs"
  by (induction bs rule: percent_decode.induct) (auto split: option.splits intro: le_SucI le_trans)

lemma percent_decode_plain: "37 \<notin> set bs \<Longrightarrow> percent_decode bs = bs"
proof (induction bs)
  case (Cons b bs)
  then have "escaped_byte (b # bs) = None" by (auto simp: escaped_byte_def split: list.split)
  with Cons show ?case by simp
qed simp


lemma bytes_of_str_of_bytes [simp]: "bytes_of_str (str_of_bytes bs) = bs"
proof -
  have "word_of_nat (byte (char_of (unat b) :: char)) = b" for b :: u8
  proof -
    have "byte (char_of (unat b) :: char) = unat b" using unat_lt2p_8 [of b] by simp
    then show ?thesis by (simp only: of_nat_unat ucast_id)
  qed
  then show ?thesis unfolding bytes_of_str_def str_of_bytes_def map_map by (intro map_idI) (simp only: o_apply)
qed

text \<open>A \<open>data:\<close> URL of a media type and percent-encoded bytes is read back.\<close>

theorem data_uri_roundtrip:
  assumes "mime \<noteq> []" "CHR ''/'' \<in> set mime" "\<forall>c\<in>set mime. visible c \<and> c \<noteq> CHR '','' \<and> c \<noteq> CHR '';''"
  shows "parse_data_uri decode (''data:'' @ mime @ '','' @ str_of_bytes (percent_encode bs))
           = Some \<lparr>du_mime_type = mime, du_data = bs\<rparr>"
proof -
  have t: "trim mime = mime" using assms by (intro trim_visible) simp_all
  have v: "CHR '' '' \<notin> set mime"
  proof
    assume "CHR '' '' \<in> set mime"
    then have "visible (CHR '' '')" using assms(3) by blast
    then show False by (simp add: visible_def)
  qed
  have d: "dropWhile (\<lambda>c. c = CHR '' '') w = w" if "set w \<subseteq> set mime" for w
    using that v by (cases w) auto
  have "trim_matches (\<lambda>c. c = CHR '' '') mime = mime"
    by (simp only: trim_matches_def d [of mime] d [of "rev mime"] set_rev subset_refl rev_rev_ident)
  moreover have "split_once (CHR '','') (mime @ '','' @ r) = Some (mime, r)" for r
  proof -
    have "CHR '','' \<notin> set mime" using assms(3) by blast
    then show ?thesis by (simp add: split_once_def)
  qed
  moreover have s: "CHR '';'' \<notin> set mime" using assms(3) by blast
  ultimately show ?thesis
    using assms(2) t by (simp add: parse_data_uri_def rsplit_once_def percent_decode_bytes_def eq_ignore_ascii_case_def)
qed

end
