(* ===== verification/Csp.thy ===== *)
theory Csp
  imports ReportingEndpoints DataUri
begin

text \<open>
  \<open>src/js/csp.rs\<close>: Content Security Policy.  The parser of policies and source expressions, the
  matching of URLs, inline sources, nonces and hashes against a policy, the policies of a
  document (response headers, then \<open>meta\<close> elements in document order) and the checks and
  violation lists that the page runtime asks for.  Directives are a map from names (the order of a
  \<open>BTreeMap\<close> is never observed).  The digests of the \<open>sha2\<close> crate and the encoder of
  \<open>base64\<close> are parameters, as are the decoder of \<open>base64\<close> and the \<open>url\<close> crate.
\<close>

section \<open>Data\<close>

datatype ResourceType = RtScript | RtWorker | RtStyle | RtConnect | RtFont | RtImage

text \<open>The first \<open>n\<close> characters (Unicode scalar values) of a text: a leading byte and the
  continuation bytes after it.\<close>

fun take_chars :: "nat \<Rightarrow> string \<Rightarrow> string" where
  "take_chars 0 s = []"
| "take_chars (Suc n) [] = []"
| "take_chars (Suc n) (c # cs) =
     c # takeWhile (\<lambda>x. cont (byte x)) cs @ take_chars n (dropWhile (\<lambda>x. cont (byte x)) cs)"

definition is_inline_reference :: "string \<Rightarrow> bool" where
  "is_inline_reference reference \<longleftrightarrow>
     reference = ''inline'' \<or> starts_with reference ''style-element:''
     \<or> starts_with reference ''style-attribute:''"

definition inline_report_sample :: "string \<Rightarrow> string" where
  "inline_report_sample source = take_chars 40 source"

fun rt_directive :: "ResourceType \<Rightarrow> string" where
  "rt_directive RtScript = ''script-src''"
| "rt_directive RtWorker = ''worker-src''"
| "rt_directive RtStyle = ''style-src''"
| "rt_directive RtConnect = ''connect-src''"
| "rt_directive RtFont = ''font-src''"
| "rt_directive RtImage = ''img-src''"

fun rt_label :: "ResourceType \<Rightarrow> string" where
  "rt_label RtScript = ''script''"
| "rt_label RtWorker = ''worker''"
| "rt_label RtStyle = ''style''"
| "rt_label RtConnect = ''connect''"
| "rt_label RtFont = ''font''"
| "rt_label RtImage = ''image''"

record PolicyViolation =
  pv_serialized :: string
  pv_report_sample :: bool

record ScriptRequest =
  sr_nonce :: "string option"
  sr_parser_inserted :: bool

datatype HashAlgorithm = Sha256 | Sha384 | Sha512

datatype SourceExpression =
    SeNone | SelfKeyword | UnsafeInline | UnsafeHashes | StrictDynamic
  | Nonce string | Hash HashAlgorithm string
  | UnsafeEval | WasmUnsafeEval | TrustedTypesEval | ReportSample | AnySource
  | SchemeSource string
  | HostSource (hs_scheme: "string option") (hs_host: string) (hs_port: "16 word option") (hs_path: "string option")

text \<open>The crates \<open>sha2\<close> and \<open>base64\<close>.\<close>

record hash_crates =
  hc_digest :: "HashAlgorithm \<Rightarrow> u8 list \<Rightarrow> u8 list"
  hc_encode :: "u8 list \<Rightarrow> string"

definition digest :: "hash_crates \<Rightarrow> HashAlgorithm \<Rightarrow> string \<Rightarrow> u8 list" where
  "digest hc algorithm source = hc_digest hc algorithm (bytes_of_str source)"

datatype InlineType =
    ItScript | ItDynamicScript | ItScriptAttribute | ItStyle | ItStyleAttribute | ItNavigation

fun it_resource_type :: "InlineType \<Rightarrow> ResourceType" where
  "it_resource_type ItStyle = RtStyle"
| "it_resource_type ItStyleAttribute = RtStyle"
| "it_resource_type _ = RtScript"

definition it_is_attribute :: "InlineType \<Rightarrow> bool" where
  "it_is_attribute k \<longleftrightarrow> k \<in> {ItScriptAttribute, ItStyleAttribute}"

definition permits_nonce :: "InlineType \<Rightarrow> bool" where
  "permits_nonce k \<longleftrightarrow> k \<in> {ItScript, ItDynamicScript, ItStyle}"

definition requires_unsafe_hashes :: "InlineType \<Rightarrow> bool" where
  "requires_unsafe_hashes k \<longleftrightarrow> k \<in> {ItScriptAttribute, ItStyleAttribute, ItNavigation}"

definition it_is_script :: "InlineType \<Rightarrow> bool" where
  "it_is_script k \<longleftrightarrow> k \<in> {ItScript, ItDynamicScript, ItScriptAttribute, ItNavigation}"

record TrustedTypesDirective =
  tt_names :: "string list"
  tt_wildcard :: bool
  tt_allow_duplicates :: bool

definition allows_policy :: "TrustedTypesDirective \<Rightarrow> string \<Rightarrow> bool \<Rightarrow> bool" where
  "allows_policy d name already_created \<longleftrightarrow>
     (\<not> already_created \<or> tt_allow_duplicates d)
     \<and> (tt_wildcard d \<or> list_ex (\<lambda>allowed. allowed = name) (tt_names d))"

record ParsedPolicy =
  pp_directives :: "string \<rightharpoonup> SourceExpression list"
  pp_trusted_types :: "TrustedTypesDirective option"
  pp_require_trusted_types_for_script :: bool
  pp_serialized :: string

record CspPolicy =
  cp_policies :: "ParsedPolicy list"
  cp_report_only :: "ParsedPolicy list"
  cp_reporting_endpoints :: "string \<rightharpoonup> string"
  cp_base_url :: "Url option"

section \<open>Parsing\<close>

abbreviation apostrophe :: char where "apostrophe \<equiv> CHR 0x27"

abbreviation quoted :: "string \<Rightarrow> string" where
  "quoted s \<equiv> apostrophe # s @ [apostrophe]"

definition base64_char :: "char \<Rightarrow> bool" where
  "base64_char c \<longleftrightarrow> is_ascii_alphanumeric c \<or> c \<in> set ''+/-_''"

fun hash_algorithm_of :: "string \<Rightarrow> HashAlgorithm option" where
  "hash_algorithm_of s =
     (if s = ''sha256'' then Some Sha256
      else if s = ''sha384'' then Some Sha384
      else if s = ''sha512'' then Some Sha512
      else None)"

declare hash_algorithm_of.simps [simp del]

definition normalize_alphabet :: "string \<Rightarrow> string" where
  "normalize_alphabet s =
     map (\<lambda>c. if c = CHR ''_'' then CHR ''/'' else c) (map (\<lambda>c. if c = CHR ''-'' then CHR ''+'' else c) s)"

definition parse_hash_source :: "string \<Rightarrow> SourceExpression option" where
  "parse_hash_source token =
     Option.bind (strip_prefix [apostrophe] token) (\<lambda>t.
     Option.bind (strip_suffix [apostrophe] t) (\<lambda>t.
     Option.bind (split_once (CHR ''-'') t) (\<lambda>(algorithm, value).
     Option.bind (hash_algorithm_of (to_ascii_lowercase algorithm)) (\<lambda>algorithm.
       let unpadded = trim_end_matches (\<lambda>c. c = CHR ''='') value in
       if unpadded = [] \<or> length value - length unpadded > 2 \<or> \<not> list_all base64_char unpadded
       then None
       else Some (Hash algorithm (normalize_alphabet value))))))"

definition parse_nonce_source :: "string \<Rightarrow> SourceExpression option" where
  "parse_nonce_source token =
     Option.bind (strip_prefix (apostrophe # ''nonce-'') token) (\<lambda>t.
     Option.bind (strip_suffix [apostrophe] t) (\<lambda>nonce.
       let core = trim_end_matches (\<lambda>c. c = CHR ''='') nonce in
       if core \<noteq> [] \<and> length nonce - length core \<le> 2 \<and> list_all base64_char core
       then Some (Nonce nonce) else None))"

text \<open>The keywords; \<open>None\<close> when the token is none of them.\<close>

definition parse_keyword :: "string \<Rightarrow> SourceExpression option option" where
  "parse_keyword token =
     (let lower = to_ascii_lowercase token in
      if lower = quoted ''none'' then Some (Some SeNone)
      else if lower = quoted ''self'' then Some (Some SelfKeyword)
      else if lower = quoted ''unsafe-inline'' then Some (Some UnsafeInline)
      else if lower = quoted ''unsafe-hashes'' then Some (Some UnsafeHashes)
      else if lower = quoted ''strict-dynamic'' then Some (Some StrictDynamic)
      else if lower = quoted ''unsafe-eval'' then Some (Some UnsafeEval)
      else if lower = quoted ''wasm-unsafe-eval'' then Some (Some WasmUnsafeEval)
      else if lower = quoted ''trusted-types-eval'' then Some (Some TrustedTypesEval)
      else if lower = quoted ''report-sample'' then
        Some (if token = quoted ''report-sample'' then Some ReportSample else None)
      else if lower = ''*'' then Some (Some AnySource)
      else None)"

definition parse_scheme_source :: "string \<Rightarrow> SourceExpression option" where
  "parse_scheme_source token =
     (case strip_suffix '':'' (to_ascii_lowercase token) of
        None \<Rightarrow> None
      | Some scheme \<Rightarrow>
          if scheme \<noteq> [] \<and> CHR ''/'' \<notin> set scheme \<and> CHR ''.'' \<notin> set scheme
          then Some (SchemeSource scheme) else None)"

text \<open>Host and port of a lower-case authority.\<close>

definition parse_host_port :: "string \<Rightarrow> (string \<times> 16 word option) option" where
  "parse_host_port authority_lower =
     (case strip_prefix ''['' authority_lower of
        Some bracketed \<Rightarrow>
          (case split_once (CHR '']'') bracketed of
             None \<Rightarrow> None
           | Some (host, r) \<Rightarrow>
               if r = [] then Some (host, None)
               else if starts_with r '':'' then
                 map_option (\<lambda>p. (host, Some (word_of_nat p))) (parse_uint 10 u16_max (tl r))
               else None)
      | None \<Rightarrow>
          (case rsplit_once (CHR '':'') authority_lower of
             Some (host, port) \<Rightarrow>
               if host = [] \<or> port = [] then None
               else map_option (\<lambda>p. (host, Some (word_of_nat p))) (parse_uint 10 u16_max port)
           | None \<Rightarrow> Some (authority_lower, None)))"

definition split_scheme :: "string \<Rightarrow> string option \<times> string" where
  "split_scheme token =
     (let lower = to_ascii_lowercase token in
      case split_once_str ''://'' lower of
        Some (s, _) \<Rightarrow> (Some (to_ascii_lowercase (take (length s) token)), drop (length s + 3) token)
      | None \<Rightarrow> if starts_with lower ''//'' then (None, drop 2 token) else (None, token))"

definition parse_host_source :: "string \<Rightarrow> SourceExpression option" where
  "parse_host_source token =
     (let (scheme, authority_and_path) = split_scheme token;
          (auth, path) =
            (case split_once (CHR ''/'') authority_and_path of
               None \<Rightarrow> (authority_and_path, None)
             | Some (a, p) \<Rightarrow> (a, Some (CHR ''/'' # p)))
      in if auth = [] then None
         else map_option (\<lambda>(host, port). HostSource scheme host port path)
                (parse_host_port (to_ascii_lowercase auth)))"

definition parse_source_expression :: "string \<Rightarrow> SourceExpression option" where
  "parse_source_expression token =
     (case parse_nonce_source token of
        Some e \<Rightarrow> Some e
      | None \<Rightarrow>
          (case parse_hash_source token of
             Some e \<Rightarrow> Some e
           | None \<Rightarrow>
               (case parse_keyword token of
                  Some r \<Rightarrow> r
                | None \<Rightarrow>
                    (case parse_scheme_source token of
                       Some e \<Rightarrow> Some e
                     | None \<Rightarrow> parse_host_source token))))"

definition trusted_type_name_char :: "char \<Rightarrow> bool" where
  "trusted_type_name_char c \<longleftrightarrow> is_ascii_alphanumeric c \<or> c \<in> set ''-#=_/@.%''"

definition parse_trusted_types_value :: "string \<Rightarrow> TrustedTypesDirective \<Rightarrow> TrustedTypesDirective" where
  "parse_trusted_types_value v d =
     (if v = ''*'' then d\<lparr>tt_wildcard := True\<rparr>
      else if v = quoted ''allow-duplicates'' then d\<lparr>tt_allow_duplicates := True\<rparr>
      else if v = quoted ''none'' then d
      else if v \<noteq> [] \<and> list_all trusted_type_name_char v then d\<lparr>tt_names := tt_names d @ [v]\<rparr>
      else d)"

definition parse_trusted_types_directive :: "string list \<Rightarrow> TrustedTypesDirective" where
  "parse_trusted_types_directive values =
     fold parse_trusted_types_value values
       \<lparr>tt_names = [], tt_wildcard = False, tt_allow_duplicates = False\<rparr>"

definition is_ascii_whitespace :: "char \<Rightarrow> bool" where
  "is_ascii_whitespace c \<longleftrightarrow> byte c \<in> {9, 10, 12, 13, 32}"

definition split_ascii_whitespace :: "string \<Rightarrow> string list" where
  "split_ascii_whitespace s = filter (\<lambda>w. w \<noteq> []) (split_on is_ascii_whitespace s)"

definition parse_directive :: "string \<Rightarrow> ParsedPolicy \<Rightarrow> ParsedPolicy" where
  "parse_directive directive policy =
     (case split_ascii_whitespace directive of
        [] \<Rightarrow> policy
      | name # values \<Rightarrow>
          let name = to_ascii_lowercase name in
          if pp_directives policy name \<noteq> None then policy
          else
            let policy =
                  (if name = ''trusted-types'' then
                     policy\<lparr>pp_trusted_types := Some (parse_trusted_types_directive values)\<rparr>
                   else if name = ''require-trusted-types-for'' then
                     policy\<lparr>pp_require_trusted_types_for_script := quoted ''script'' \<in> set values\<rparr>
                   else policy)
            in policy\<lparr>pp_directives :=
                 (pp_directives policy)(name \<mapsto> List.map_filter parse_source_expression values)\<rparr>)"

definition parse_policy :: "string \<Rightarrow> ParsedPolicy option" where
  "parse_policy input =
     (let policy = fold parse_directive (split_char (CHR '';'') input)
            \<lparr>pp_directives = Map.empty, pp_trusted_types = None,
             pp_require_trusted_types_for_script = False, pp_serialized = trim input\<rparr>
      in if pp_directives policy \<noteq> Map.empty then Some policy else None)"

section \<open>Matching URLs\<close>

record ResourceUrl =
  ru_scheme :: string
  ru_host :: string
  ru_port :: "16 word"
  ru_path :: string

definition resource_url_from :: "Url \<Rightarrow> ResourceUrl" where
  "resource_url_from u =
     \<lparr>ru_scheme = to_ascii_lowercase (u_scheme u), ru_host = to_ascii_lowercase (u_host u),
      ru_port = u_port u, ru_path = u_path u\<rparr>"

definition opaque_resource_scheme :: "string \<Rightarrow> string option" where
  "opaque_resource_scheme reference =
     (if length reference < 5 then None
      else if eq_ignore_ascii_case (take 5 reference) ''data:'' then Some ''data''
      else if eq_ignore_ascii_case (take 5 reference) ''blob:'' then Some ''blob''
      else None)"

definition resource_url_parse :: "'u url_crate \<Rightarrow> string \<Rightarrow> Url option \<Rightarrow> ResourceUrl option" where
  "resource_url_parse uc reference0 base_url =
     (let reference = trim reference0 in
      case opaque_resource_scheme reference of
        Some scheme \<Rightarrow> Some \<lparr>ru_scheme = scheme, ru_host = [], ru_port = 0, ru_path = []\<rparr>
      | None \<Rightarrow>
          let lower_reference = to_ascii_lowercase reference;
              original_scheme =
                (if starts_with lower_reference ''ws://'' then Some ''ws''
                 else if starts_with lower_reference ''wss://'' then Some ''wss'' else None);
              normalized =
                (if original_scheme = Some ''ws'' then ''http'' @ drop 2 reference
                 else if original_scheme = Some ''wss'' then ''https'' @ drop 3 reference
                 else reference);
              normalized_lower = to_ascii_lowercase normalized;
              url =
                (if starts_with normalized_lower ''http://'' \<or> starts_with normalized_lower ''https://''
                 then (case url_from_str uc normalized of Inl _ \<Rightarrow> None | Inr u \<Rightarrow> Some u)
                 else
                   case base_url of
                     None \<Rightarrow> None
                   | Some base \<Rightarrow> (case resolve_url uc base normalized of Inl _ \<Rightarrow> None | Inr u \<Rightarrow> Some u))
          in map_option
               (\<lambda>u. let resource = resource_url_from u in
                    case original_scheme of
                      Some scheme \<Rightarrow> resource\<lparr>ru_scheme := scheme\<rparr>
                    | None \<Rightarrow> resource) url)"

definition scheme_matches :: "string \<Rightarrow> string \<Rightarrow> bool" where
  "scheme_matches expected actual \<longleftrightarrow>
     eq_ignore_ascii_case expected actual
     \<or> (eq_ignore_ascii_case expected ''http'' \<and> eq_ignore_ascii_case actual ''ws'')
     \<or> (eq_ignore_ascii_case expected ''https'' \<and> eq_ignore_ascii_case actual ''wss'')"

definition origin_scheme_matches :: "string \<Rightarrow> string \<Rightarrow> bool" where
  "origin_scheme_matches left right \<longleftrightarrow> scheme_matches left right \<or> scheme_matches right left"

definition ru_same_origin :: "ResourceUrl \<Rightarrow> ResourceUrl \<Rightarrow> bool" where
  "ru_same_origin a b \<longleftrightarrow>
     origin_scheme_matches (ru_scheme a) (ru_scheme b)
     \<and> eq_ignore_ascii_case (ru_host a) (ru_host b) \<and> ru_port a = ru_port b"

definition host_matches :: "string \<Rightarrow> string \<Rightarrow> bool" where
  "host_matches expected actual =
     (let expected = to_ascii_lowercase expected; actual = to_ascii_lowercase actual in
      case strip_prefix ''*.'' expected of
        Some suff \<Rightarrow> actual \<noteq> suff \<and> ends_with actual (''.'' @ suff)
      | None \<Rightarrow> expected = actual)"

definition path_part_matches :: "string \<Rightarrow> string \<Rightarrow> bool" where
  "path_part_matches source target =
     (if source = [] \<or> (source = ''/'' \<and> target = []) then True
      else
        let exact = (\<not> ends_with source ''/'');
            source_parts = split_char (CHR ''/'') source;
            target_parts = split_char (CHR ''/'') target
        in if length source_parts > length target_parts
              \<or> (exact \<and> length source_parts \<noteq> length target_parts) then False
           else
             list_all (\<lambda>(l, r). percent_decode_bytes l = percent_decode_bytes r)
               (zip (if exact then source_parts else butlast source_parts) target_parts))"

section \<open>One policy\<close>

fun first_some :: "('a \<Rightarrow> 'b option) \<Rightarrow> 'a list \<Rightarrow> 'b option" where
  "first_some f [] = None"
| "first_some f (x # xs) = (case f x of Some y \<Rightarrow> Some y | None \<Rightarrow> first_some f xs)"

fun directive_fallbacks :: "ResourceType \<Rightarrow> bool \<Rightarrow> string list" where
  "directive_fallbacks RtScript False = [''script-src-elem'', ''script-src'', ''default-src'']"
| "directive_fallbacks RtScript True = [''script-src-attr'', ''script-src'', ''default-src'']"
| "directive_fallbacks RtWorker _ = [''worker-src'', ''child-src'', ''script-src'', ''default-src'']"
| "directive_fallbacks RtStyle False = [''style-src-elem'', ''style-src'', ''default-src'']"
| "directive_fallbacks RtStyle True = [''style-src-attr'', ''style-src'', ''default-src'']"
| "directive_fallbacks RtConnect _ = [''connect-src'', ''default-src'']"
| "directive_fallbacks RtFont _ = [''font-src'', ''default-src'']"
| "directive_fallbacks RtImage _ = [''img-src'', ''default-src'']"

definition sources_for :: "ParsedPolicy \<Rightarrow> ResourceType \<Rightarrow> bool \<Rightarrow> SourceExpression list option" where
  "sources_for p resource_type attribute =
     first_some (pp_directives p) (directive_fallbacks resource_type attribute)"

fun is_nonce_or_hash :: "SourceExpression \<Rightarrow> bool" where
  "is_nonce_or_hash (Nonce _) = True"
| "is_nonce_or_hash (Hash _ _) = True"
| "is_nonce_or_hash _ = False"

definition hash_matches :: "hash_crates \<Rightarrow> string \<Rightarrow> SourceExpression \<Rightarrow> bool" where
  "hash_matches hc source e =
     (case e of Hash algorithm expected \<Rightarrow> hc_encode hc (digest hc algorithm source) = expected | _ \<Rightarrow> False)"

definition pp_allows_inline_source ::
  "hash_crates \<Rightarrow> ParsedPolicy \<Rightarrow> InlineType \<Rightarrow> string option \<Rightarrow> string option \<Rightarrow> bool" where
  "pp_allows_inline_source hc p kind source nonce =
     (case sources_for p (it_resource_type kind) (it_is_attribute kind) of
        None \<Rightarrow> True
      | Some sources \<Rightarrow>
          let overrides_unsafe_inline =
                list_ex (\<lambda>e. is_nonce_or_hash e \<or> (it_is_script kind \<and> e = StrictDynamic)) sources
          in if \<not> overrides_unsafe_inline \<and> UnsafeInline \<in> set sources then True
             else if permits_nonce kind
                     \<and> (case nonce of None \<Rightarrow> False | Some n \<Rightarrow> list_ex (\<lambda>e. e = Nonce n) sources) then True
             else if kind = ItDynamicScript \<and> StrictDynamic \<in> set sources then True
             else
               case source of
                 None \<Rightarrow> False
               | Some source \<Rightarrow>
                   if requires_unsafe_hashes kind \<and> UnsafeHashes \<notin> set sources then False
                   else list_ex (hash_matches hc source) sources)"

definition pp_allows_inline :: "hash_crates \<Rightarrow> ParsedPolicy \<Rightarrow> ResourceType \<Rightarrow> bool \<Rightarrow> bool" where
  "pp_allows_inline hc p resource_type attribute =
     (if resource_type = RtScript then
        pp_allows_inline_source hc p (if attribute then ItScriptAttribute else ItScript) None None
      else if resource_type = RtStyle then
        pp_allows_inline_source hc p (if attribute then ItStyleAttribute else ItStyle) None None
      else False)"

definition allows_script_nonce :: "ParsedPolicy \<Rightarrow> string option \<Rightarrow> bool" where
  "allows_script_nonce p nonce =
     (case nonce of
        None \<Rightarrow> False
      | Some n \<Rightarrow>
          if n = [] then False
          else
            case sources_for p RtScript False of
              None \<Rightarrow> False
            | Some sources \<Rightarrow> list_ex (\<lambda>e. e = Nonce n) sources)"

fun source_allows_url :: "Url option \<Rightarrow> ResourceUrl \<Rightarrow> nat \<Rightarrow> SourceExpression \<Rightarrow> bool" where
  "source_allows_url base_url u redirects AnySource =
     (ru_scheme u \<in> {''http'', ''https'', ''ws'', ''wss''})"
| "source_allows_url base_url u redirects SelfKeyword =
     (case base_url of None \<Rightarrow> False | Some b \<Rightarrow> ru_same_origin (resource_url_from b) u)"
| "source_allows_url base_url u redirects (SchemeSource scheme) = scheme_matches scheme (ru_scheme u)"
| "source_allows_url base_url u redirects (HostSource scheme host port path) =
     (let expected_scheme =
            (case scheme of
               Some s \<Rightarrow> Some s
             | None \<Rightarrow> map_option (\<lambda>b. ru_scheme (resource_url_from b)) base_url)
      in if (case expected_scheme of None \<Rightarrow> False | Some e \<Rightarrow> \<not> scheme_matches e (ru_scheme u)) then False
         else if \<not> host_matches host (ru_host u) then False
         else if (case port of None \<Rightarrow> False | Some e \<Rightarrow> e \<noteq> ru_port u) then False
         else redirects > 0 \<or> (case path of None \<Rightarrow> True | Some s \<Rightarrow> path_part_matches s (ru_path u)))"
| "source_allows_url base_url u redirects _ = False"

definition pp_allows_url ::
  "ParsedPolicy \<Rightarrow> ResourceType \<Rightarrow> Url option \<Rightarrow> ResourceUrl \<Rightarrow> nat \<Rightarrow> bool" where
  "pp_allows_url p resource_type base_url u redirects =
     (case sources_for p resource_type False of
        None \<Rightarrow> True
      | Some sources \<Rightarrow>
          if \<not> list_ex (\<lambda>e. e \<noteq> SeNone) sources then False
          else list_ex (source_allows_url base_url u redirects) sources)"

definition pp_allows_script_request ::
  "ParsedPolicy \<Rightarrow> Url option \<Rightarrow> ResourceUrl option \<Rightarrow> nat \<Rightarrow> ScriptRequest \<Rightarrow> bool" where
  "pp_allows_script_request p base_url u redirects request =
     (case sources_for p RtScript False of
        None \<Rightarrow> True
      | Some sources \<Rightarrow>
          if allows_script_nonce p (sr_nonce request) then True
          else if StrictDynamic \<in> set sources then \<not> sr_parser_inserted request
          else case u of None \<Rightarrow> False | Some u \<Rightarrow> pp_allows_url p RtScript base_url u redirects)"

section \<open>Documents\<close>

text \<open>What the policy code reads of a document: the identity, element name and attributes
  of a node and its children in order.  The ancestors of a node, nearest first, are known
  from the way down to it.\<close>

record NodeFacts =
  nf_identity :: nat
  nf_is_element :: bool
  nf_tag_name :: "string option"
  nf_attributes :: "string \<rightharpoonup> string"

datatype DocNode = DocNode (dn_facts: NodeFacts) (dn_children: "DocNode list")

definition has_tag :: "string \<Rightarrow> NodeFacts \<Rightarrow> bool" where
  "has_tag t n = (case nf_tag_name n of None \<Rightarrow> False | Some tag \<Rightarrow> eq_ignore_ascii_case tag t)"

definition is_descendant_of_head :: "NodeFacts list \<Rightarrow> bool" where
  "is_descendant_of_head ancestors = list_ex (has_tag ''head'') ancestors"

definition csp_meta_content :: "NodeFacts list \<Rightarrow> NodeFacts \<Rightarrow> string option" where
  "csp_meta_content ancestors n =
     (if nf_is_element n \<and> has_tag ''meta'' n \<and> is_descendant_of_head ancestors
         \<and> (case nf_attributes n ''http-equiv'' of
              None \<Rightarrow> False
            | Some v \<Rightarrow> eq_ignore_ascii_case (trim v) ''content-security-policy'')
      then nf_attributes n ''content'' else None)"

fun collect_csp_meta_contents :: "NodeFacts list \<Rightarrow> DocNode \<Rightarrow> string list \<Rightarrow> string list" where
  "collect_csp_meta_contents ancestors (DocNode n children) out =
     fold (collect_csp_meta_contents (n # ancestors)) children
       (case csp_meta_content ancestors n of Some content \<Rightarrow> out @ [content] | None \<Rightarrow> out)"

record ParserMetaCounts =
  pm_total :: nat
  pm_before_script :: nat
  pm_found_script :: bool

definition count_node :: "NodeFacts list \<Rightarrow> NodeFacts \<Rightarrow> nat \<Rightarrow> ParserMetaCounts \<Rightarrow> ParserMetaCounts" where
  "count_node ancestors n script_id counts =
     (let counts = (if nf_identity n = script_id then counts\<lparr>pm_found_script := True\<rparr> else counts) in
      if (case csp_meta_content ancestors n of None \<Rightarrow> False | Some c \<Rightarrow> parse_policy c \<noteq> None) then
        (let counts = counts\<lparr>pm_total := pm_total counts + 1\<rparr> in
         if \<not> pm_found_script counts then counts\<lparr>pm_before_script := pm_before_script counts + 1\<rparr>
         else counts)
      else counts)"

fun count_parser_meta_policies ::
  "NodeFacts list \<Rightarrow> DocNode \<Rightarrow> nat \<Rightarrow> ParserMetaCounts \<Rightarrow> ParserMetaCounts" where
  "count_parser_meta_policies ancestors (DocNode n children) script_id counts =
     fold (\<lambda>c. count_parser_meta_policies (n # ancestors) c script_id) children
       (count_node ancestors n script_id counts)"

section \<open>The policies of a document\<close>

definition from_headers_and_document ::
  "'u url_crate \<Rightarrow> string list \<Rightarrow> DocNode \<Rightarrow> string \<Rightarrow> CspPolicy" where
  "from_headers_and_document uc headers document base_url =
     \<lparr>cp_policies = List.map_filter parse_policy headers
                    @ List.map_filter parse_policy (collect_csp_meta_contents [] document []),
      cp_report_only = [],
      cp_reporting_endpoints = Map.empty,
      cp_base_url = (case url_from_str uc base_url of Inl _ \<Rightarrow> None | Inr u \<Rightarrow> Some u)\<rparr>"

definition with_report_only_headers :: "CspPolicy \<Rightarrow> string list \<Rightarrow> CspPolicy" where
  "with_report_only_headers p headers =
     p\<lparr>cp_report_only := cp_report_only p @ List.map_filter parse_policy headers\<rparr>"

definition from_response_headers_and_document ::
  "'u url_crate \<Rightarrow> (u8 list \<Rightarrow> u8 list option) \<Rightarrow> (string \<times> string) list \<Rightarrow> DocNode \<Rightarrow> string \<Rightarrow> CspPolicy"
where
  "from_response_headers_and_document uc decode headers document base_url =
     (let values = (\<lambda>name. map snd (filter (\<lambda>(key, _). eq_ignore_ascii_case key name) headers));
          policy = with_report_only_headers
                     (from_headers_and_document uc (values ''content-security-policy'') document base_url)
                     (values ''content-security-policy-report-only'')
      in policy\<lparr>cp_reporting_endpoints :=
           parse_reporting_endpoints uc decode (join '', '' (values ''reporting-endpoints'')) base_url\<rparr>)"

definition reporting_endpoint :: "CspPolicy \<Rightarrow> string \<Rightarrow> string option" where
  "reporting_endpoint p name = cp_reporting_endpoints p name"

definition remove_reporting_endpoint :: "CspPolicy \<Rightarrow> string \<Rightarrow> CspPolicy" where
  "remove_reporting_endpoint p name =
     p\<lparr>cp_reporting_endpoints := (cp_reporting_endpoints p)(name := None)\<rparr>"

definition inherited_for_new_global :: "CspPolicy \<Rightarrow> CspPolicy" where
  "inherited_for_new_global p = p\<lparr>cp_reporting_endpoints := Map.empty\<rparr>"

definition inherited_for_opaque_document :: "CspPolicy \<Rightarrow> CspPolicy" where
  "inherited_for_opaque_document p = (inherited_for_new_global p)\<lparr>cp_base_url := None\<rparr>"

definition has_same_policy_rules :: "CspPolicy \<Rightarrow> CspPolicy \<Rightarrow> bool" where
  "has_same_policy_rules a b \<longleftrightarrow>
     cp_policies a = cp_policies b \<and> cp_report_only a = cp_report_only b \<and> cp_base_url a = cp_base_url b"

definition for_parser_script :: "CspPolicy \<Rightarrow> DocNode \<Rightarrow> nat \<Rightarrow> CspPolicy" where
  "for_parser_script p document script =
     (let counts = count_parser_meta_policies [] document script
            \<lparr>pm_total = 0, pm_before_script = 0, pm_found_script = False\<rparr>
      in if pm_found_script counts \<and> pm_total counts \<le> length (cp_policies p)
         then p\<lparr>cp_policies :=
                take (length (cp_policies p) - pm_total counts + pm_before_script counts) (cp_policies p)\<rparr>
         else p)"

definition use_parser_policies_from :: "CspPolicy \<Rightarrow> CspPolicy \<Rightarrow> CspPolicy" where
  "use_parser_policies_from p policy = p\<lparr>cp_policies := cp_policies policy\<rparr>"

definition with_document_meta :: "'u url_crate \<Rightarrow> CspPolicy \<Rightarrow> DocNode \<Rightarrow> string \<Rightarrow> CspPolicy" where
  "with_document_meta uc p document base_url =
     (let own = from_headers_and_document uc [] document base_url;
          combined = p\<lparr>cp_policies := cp_policies p @ cp_policies own\<rparr>
      in if cp_base_url combined = None then combined\<lparr>cp_base_url := cp_base_url own\<rparr> else combined)"

section \<open>Checks\<close>

definition csp_allows_inline :: "hash_crates \<Rightarrow> CspPolicy \<Rightarrow> ResourceType \<Rightarrow> bool" where
  "csp_allows_inline hc p resource_type =
     list_all (\<lambda>q. pp_allows_inline hc q resource_type False) (cp_policies p)"

definition allows_inline_source_with_nonce ::
  "hash_crates \<Rightarrow> CspPolicy \<Rightarrow> InlineType \<Rightarrow> string \<Rightarrow> string option \<Rightarrow> bool" where
  "allows_inline_source_with_nonce hc p kind source nonce =
     list_all (\<lambda>q. pp_allows_inline_source hc q kind (Some source) nonce) (cp_policies p)"

definition csp_allows_inline_source :: "hash_crates \<Rightarrow> CspPolicy \<Rightarrow> InlineType \<Rightarrow> string \<Rightarrow> bool" where
  "csp_allows_inline_source hc p kind source = allows_inline_source_with_nonce hc p kind source None"

definition allows_inline_attribute :: "hash_crates \<Rightarrow> CspPolicy \<Rightarrow> ResourceType \<Rightarrow> bool" where
  "allows_inline_attribute hc p resource_type =
     list_all (\<lambda>q. pp_allows_inline hc q resource_type True) (cp_policies p)"

definition allows_url_after_redirects :: "CspPolicy \<Rightarrow> ResourceType \<Rightarrow> Url \<Rightarrow> nat \<Rightarrow> bool" where
  "allows_url_after_redirects p resource_type u redirects =
     list_all (\<lambda>q. pp_allows_url q resource_type (cp_base_url p) (resource_url_from u) redirects) (cp_policies p)"

definition csp_allows_url :: "CspPolicy \<Rightarrow> ResourceType \<Rightarrow> Url \<Rightarrow> bool" where
  "csp_allows_url p resource_type u = allows_url_after_redirects p resource_type u 0"

definition allows_reference_after_redirects ::
  "'u url_crate \<Rightarrow> CspPolicy \<Rightarrow> ResourceType \<Rightarrow> string \<Rightarrow> nat \<Rightarrow> bool" where
  "allows_reference_after_redirects uc p resource_type reference redirects =
     (case resource_url_parse uc reference (cp_base_url p) of
        None \<Rightarrow> cp_policies p = []
      | Some u \<Rightarrow>
          list_all (\<lambda>q. pp_allows_url q resource_type (cp_base_url p) u redirects) (cp_policies p))"

definition allows_reference :: "'u url_crate \<Rightarrow> CspPolicy \<Rightarrow> ResourceType \<Rightarrow> string \<Rightarrow> bool" where
  "allows_reference uc p resource_type reference =
     allows_reference_after_redirects uc p resource_type reference 0"

section \<open>Violations\<close>

definition contains_report_sample :: "SourceExpression list option \<Rightarrow> bool" where
  "contains_report_sample s = (case s of None \<Rightarrow> False | Some sources \<Rightarrow> ReportSample \<in> set sources)"

definition violating_policy_texts ::
  "'u url_crate \<Rightarrow> hash_crates \<Rightarrow> CspPolicy \<Rightarrow> ParsedPolicy list \<Rightarrow> ResourceType \<Rightarrow> string \<Rightarrow> nat
   \<Rightarrow> ScriptRequest option \<Rightarrow> PolicyViolation list" where
  "violating_policy_texts uc hc p policies resource_type reference redirects script_request =
     (let inline = (script_request = None \<and> is_inline_reference reference);
          attribute = (resource_type = RtStyle \<and> starts_with reference ''style-attribute:'');
          u = resource_url_parse uc reference (cp_base_url p);
          violated = (\<lambda>q.
            if sources_for q resource_type attribute = None then False
            else if inline then \<not> pp_allows_inline hc q resource_type attribute
            else
              case script_request of
                Some request \<Rightarrow> \<not> pp_allows_script_request q (cp_base_url p) u redirects request
              | None \<Rightarrow>
                  (case u of
                     None \<Rightarrow> True
                   | Some u \<Rightarrow> \<not> pp_allows_url q resource_type (cp_base_url p) u redirects))
      in List.map_filter
           (\<lambda>q. if violated q
                then Some \<lparr>pv_serialized = pp_serialized q,
                           pv_report_sample =
                             (inline \<and> contains_report_sample (sources_for q resource_type attribute))\<rparr>
                else None) policies)"

definition report_only_policy_texts_after_redirects ::
  "'u url_crate \<Rightarrow> hash_crates \<Rightarrow> CspPolicy \<Rightarrow> ResourceType \<Rightarrow> string \<Rightarrow> nat \<Rightarrow> PolicyViolation list" where
  "report_only_policy_texts_after_redirects uc hc p resource_type reference redirects =
     violating_policy_texts uc hc p (cp_report_only p) resource_type reference redirects None"

definition report_only_policy_texts ::
  "'u url_crate \<Rightarrow> hash_crates \<Rightarrow> CspPolicy \<Rightarrow> ResourceType \<Rightarrow> string \<Rightarrow> PolicyViolation list" where
  "report_only_policy_texts uc hc p resource_type reference =
     report_only_policy_texts_after_redirects uc hc p resource_type reference 0"

definition blocking_policy_texts_after_redirects ::
  "'u url_crate \<Rightarrow> hash_crates \<Rightarrow> CspPolicy \<Rightarrow> ResourceType \<Rightarrow> string \<Rightarrow> nat \<Rightarrow> PolicyViolation list" where
  "blocking_policy_texts_after_redirects uc hc p resource_type reference redirects =
     violating_policy_texts uc hc p (cp_policies p) resource_type reference redirects None"

definition script_policy_violations ::
  "'u url_crate \<Rightarrow> hash_crates \<Rightarrow> CspPolicy \<Rightarrow> string \<Rightarrow> nat \<Rightarrow> ScriptRequest \<Rightarrow> bool \<Rightarrow> PolicyViolation list"
where
  "script_policy_violations uc hc p reference redirects request report_only =
     violating_policy_texts uc hc p (if report_only then cp_report_only p else cp_policies p)
       RtScript reference redirects (Some request)"

text \<open>The pairs of lists below are those of the enforced and of the report-only policies.\<close>

definition both_lists :: "(ParsedPolicy list \<Rightarrow> 'v list) \<Rightarrow> CspPolicy \<Rightarrow> 'v list \<times> 'v list" where
  "both_lists violations p = (violations (cp_policies p), violations (cp_report_only p))"

definition trusted_type_policy_creation_violations ::
  "CspPolicy \<Rightarrow> string \<Rightarrow> bool \<Rightarrow> PolicyViolation list \<times> PolicyViolation list" where
  "trusted_type_policy_creation_violations p name already_created =
     both_lists (\<lambda>policies.
       map (\<lambda>q. \<lparr>pv_serialized = pp_serialized q, pv_report_sample = True\<rparr>)
         (filter (\<lambda>q. case pp_trusted_types q of
                        None \<Rightarrow> False
                      | Some d \<Rightarrow> \<not> allows_policy d name already_created) policies)) p"

definition trusted_type_sink_violations ::
  "CspPolicy \<Rightarrow> PolicyViolation list \<times> PolicyViolation list" where
  "trusted_type_sink_violations p =
     both_lists (\<lambda>policies.
       map (\<lambda>q. \<lparr>pv_serialized = pp_serialized q, pv_report_sample = True\<rparr>)
         (filter pp_require_trusted_types_for_script policies)) p"

definition script_sources :: "ParsedPolicy \<Rightarrow> SourceExpression list option" where
  "script_sources q =
     (case pp_directives q ''script-src'' of
        Some s \<Rightarrow> Some s
      | None \<Rightarrow> pp_directives q ''default-src'')"

definition script_compilation_violations ::
  "CspPolicy \<Rightarrow> PolicyViolation list \<times> PolicyViolation list" where
  "script_compilation_violations p =
     (let trusted_types_required = list_ex pp_require_trusted_types_for_script (cp_policies p) in
      both_lists (List.map_filter (\<lambda>q.
        case script_sources q of
          None \<Rightarrow> None
        | Some sources \<Rightarrow>
            let allowed = (UnsafeEval \<in> set sources
                           \<or> (trusted_types_required \<and> TrustedTypesEval \<in> set sources))
            in if \<not> allowed
               then Some \<lparr>pv_serialized = pp_serialized q, pv_report_sample = ReportSample \<in> set sources\<rparr>
               else None)) p)"

definition wasm_compilation_violations ::
  "CspPolicy \<Rightarrow> PolicyViolation list \<times> PolicyViolation list" where
  "wasm_compilation_violations p =
     both_lists (List.map_filter (\<lambda>q.
       case script_sources q of
         None \<Rightarrow> None
       | Some sources \<Rightarrow>
           if \<not> (UnsafeEval \<in> set sources \<or> WasmUnsafeEval \<in> set sources)
           then Some \<lparr>pv_serialized = pp_serialized q, pv_report_sample = False\<rparr>
           else None)) p"

definition inline_policy_violations ::
  "hash_crates \<Rightarrow> CspPolicy \<Rightarrow> InlineType \<Rightarrow> string \<Rightarrow> string option
   \<Rightarrow> PolicyViolation list \<times> PolicyViolation list" where
  "inline_policy_violations hc p kind source nonce =
     both_lists (\<lambda>policies.
       map (\<lambda>q. \<lparr>pv_serialized = pp_serialized q,
                 pv_report_sample =
                   contains_report_sample (sources_for q (it_resource_type kind) (it_is_attribute kind))\<rparr>)
         (filter (\<lambda>q. \<not> pp_allows_inline_source hc q kind (Some source) nonce) policies)) p"

definition script_attribute_violations ::
  "hash_crates \<Rightarrow> CspPolicy \<Rightarrow> string \<Rightarrow> PolicyViolation list \<times> PolicyViolation list" where
  "script_attribute_violations hc p source = inline_policy_violations hc p ItScriptAttribute source None"

definition javascript_navigation_violations ::
  "hash_crates \<Rightarrow> CspPolicy \<Rightarrow> string \<Rightarrow> PolicyViolation list \<times> PolicyViolation list" where
  "javascript_navigation_violations hc p full_url = inline_policy_violations hc p ItNavigation full_url None"

end
