(* ===== verification/CspProps.thy ===== *)
theory CspProps
  imports Csp Request
begin

text \<open>
  What the Content Security Policy code guarantees: which \<open>meta\<close> policies are in force when a parser
  script runs, what redirects relax, that reports and enforcement agree, that the inline
  check is the algorithm of the standard, and that a printed policy is read back.
\<close>

section \<open>Policies of the elements before a script\<close>

text \<open>The nodes of a document in tree order, each with its ancestors.\<close>

fun tree_order :: "NodeFacts list \<Rightarrow> DocNode \<Rightarrow> (NodeFacts list \<times> NodeFacts) list" where
  "tree_order ancestors (DocNode n children) =
     (ancestors, n) # concat (map (tree_order (n # ancestors)) children)"

definition metas_of :: "(NodeFacts list \<times> NodeFacts) list \<Rightarrow> ParsedPolicy list" where
  "metas_of ns = List.map_filter parse_policy (List.map_filter (\<lambda>(a, n). csp_meta_content a n) ns)"

definition nodes_before :: "DocNode \<Rightarrow> nat \<Rightarrow> (NodeFacts list \<times> NodeFacts) list" where
  "nodes_before document script = takeWhile (\<lambda>(a, n). nf_identity n \<noteq> script) (tree_order [] document)"

definition in_document :: "DocNode \<Rightarrow> nat \<Rightarrow> bool" where
  "in_document document script \<longleftrightarrow> script \<in> set (map (\<lambda>(a, n). nf_identity n) (tree_order [] document))"

lemma metas_of_append [simp]: "metas_of (xs @ ys) = metas_of xs @ metas_of ys"
  by (simp add: metas_of_def map_filter_def)

lemma metas_of_Nil [simp]: "metas_of [] = []"
  by (simp add: metas_of_def map_filter_def)

lemma map_filter_append: "List.map_filter f (xs @ ys) = List.map_filter f xs @ List.map_filter f ys"
  by (simp add: map_filter_def)

lemma collect_tree_order:
  "collect_csp_meta_contents ancestors d out
     = out @ List.map_filter (\<lambda>(a, n). csp_meta_content a n) (tree_order ancestors d)"
proof (induction ancestors d out rule: collect_csp_meta_contents.induct)
  case (1 ancestors n children out)
  have "fold (collect_csp_meta_contents (n # ancestors)) cs start
      = start @ List.map_filter (\<lambda>(a, n). csp_meta_content a n) (concat (map (tree_order (n # ancestors)) cs))"
    if "set cs \<subseteq> set children" for cs start
    using that
    by (induction cs arbitrary: start) (simp_all add: 1 map_filter_append map_filter_simps(2))
  then show ?case by (simp add: map_filter_simps split: option.split)
qed

lemma count_tree_order:
  "count_parser_meta_policies ancestors d script counts
     = fold (\<lambda>(a, n). count_node a n script) (tree_order ancestors d) counts"
proof (induction ancestors d script counts rule: count_parser_meta_policies.induct)
  case (1 ancestors n children script counts)
  have "fold (\<lambda>c. count_parser_meta_policies (n # ancestors) c script) cs start
      = fold (\<lambda>(a, n). count_node a n script) (concat (map (tree_order (n # ancestors)) cs)) start"
    if "set cs \<subseteq> set children" for cs start
    using that by (induction cs arbitrary: start) (simp_all add: 1)
  then show ?case by simp
qed

lemma metas_of_single:
  "length (metas_of [(a, n)])
     = (if (case csp_meta_content a n of None \<Rightarrow> False | Some c \<Rightarrow> parse_policy c \<noteq> None) then 1 else 0)"
  by (simp add: metas_of_def map_filter_simps split: option.split)

lemma metas_of_Cons: "metas_of (x # xs) = metas_of [x] @ metas_of xs"
  using metas_of_append [of "[x]" xs] by simp

lemma count_node_fold:
  fixes counts :: ParserMetaCounts and script :: nat
  defines "r \<equiv> \<lambda>ns counts. fold (\<lambda>(a, n). count_node a n script) ns counts"
  shows "pm_total (r ns counts) = pm_total counts + length (metas_of ns)
    \<and> pm_before_script (r ns counts) = pm_before_script counts
        + (if pm_found_script counts then 0
           else length (metas_of (takeWhile (\<lambda>(a, n). nf_identity n \<noteq> script) ns)))
    \<and> pm_found_script (r ns counts) = (pm_found_script counts \<or> script \<in> set (map (\<lambda>(a, n). nf_identity n) ns))"
  unfolding r_def
proof (induction ns arbitrary: counts)
  case (Cons x ns)
  obtain a n where x: "x = (a, n)" by (metis surj_pair)
  have m: "length (metas_of (x # ys)) = length (metas_of [(a, n)]) + length (metas_of ys)" for ys
    by (subst metas_of_Cons) (simp add: x)
  show ?case
    using Cons.IH [of "count_node a n script counts"]
    by (cases "case csp_meta_content a n of None \<Rightarrow> False | Some c \<Rightarrow> parse_policy c \<noteq> None")
      (auto simp: x m [unfolded x] metas_of_single count_node_def Let_def)
qed simp

lemma metas_of_document:
  "List.map_filter parse_policy (collect_csp_meta_contents [] d []) = metas_of (tree_order [] d)"
  by (simp add: collect_tree_order metas_of_def)

lemma for_parser_script_policies:
  assumes "cp_policies p = inherited @ metas_of (tree_order [] d)" and "in_document d script"
  shows "cp_policies (for_parser_script p d script) = inherited @ metas_of (nodes_before d script)"
proof -
  let ?c = "count_parser_meta_policies [] d script
              \<lparr>pm_total = 0, pm_before_script = 0, pm_found_script = False\<rparr>"
  have c: "pm_total ?c = length (metas_of (tree_order [] d))"
    "pm_before_script ?c = length (metas_of (nodes_before d script))" "pm_found_script ?c"
    using assms(2) by (simp_all add: count_tree_order count_node_fold nodes_before_def in_document_def)
  have "metas_of (tree_order [] d) = metas_of (nodes_before d script)
      @ metas_of (dropWhile (\<lambda>(a, n). nf_identity n \<noteq> script) (tree_order [] d))"
    unfolding nodes_before_def by (simp flip: metas_of_append)
  then show ?thesis
    using c assms(1) by (simp add: for_parser_script_def)
qed

section \<open>Redirects\<close>

text \<open>The policies with the path of every host source taken away.\<close>

fun without_path :: "SourceExpression \<Rightarrow> SourceExpression" where
  "without_path (HostSource scheme host port path) = HostSource scheme host port None"
| "without_path e = e"

definition policy_without_paths :: "ParsedPolicy \<Rightarrow> ParsedPolicy" where
  "policy_without_paths q = q\<lparr>pp_directives := (\<lambda>d. map_option (map without_path) (pp_directives q d))\<rparr>"

definition without_paths :: "CspPolicy \<Rightarrow> CspPolicy" where
  "without_paths p = p\<lparr>cp_policies := map policy_without_paths (cp_policies p)\<rparr>"

lemma first_some_map: "first_some (\<lambda>x. map_option f (g x)) xs = map_option f (first_some g xs)"
  by (induction xs) (auto split: option.split)

lemma sources_for_without_paths [simp]:
  "sources_for (policy_without_paths q) rt a = map_option (map without_path) (sources_for q rt a)"
  by (simp add: sources_for_def policy_without_paths_def first_some_map)

lemma without_path_none [simp]: "without_path e = SeNone \<longleftrightarrow> e = SeNone"
  by (cases e) auto

lemma source_allows_without_path:
  "source_allows_url b u 0 (without_path e) = source_allows_url b u (Suc n) e"
  by (cases e) (auto simp: Let_def split: option.splits)

lemma source_allows_redirect:
  "source_allows_url b u 0 e \<Longrightarrow> source_allows_url b u n e"
  by (cases e) (auto simp: Let_def split: option.splits if_splits)

lemma pp_allows_url_without_paths:
  "pp_allows_url (policy_without_paths q) rt b u 0 = pp_allows_url q rt b u (Suc n)"
  by (simp add: pp_allows_url_def list_ex_iff source_allows_without_path [where n = n] split: option.split)

lemma pp_allows_url_redirect: "pp_allows_url q rt b u 0 \<Longrightarrow> pp_allows_url q rt b u n"
  by (auto simp: pp_allows_url_def list_ex_iff dest: source_allows_redirect split: option.splits if_splits)

lemma allows_reference_without_paths:
  "allows_reference uc (without_paths p) rt reference = allows_reference_after_redirects uc p rt reference (Suc n)"
  by (simp add: allows_reference_def allows_reference_after_redirects_def without_paths_def list_all_iff
      pp_allows_url_without_paths [where n = n] split: option.split)

section \<open>Reports\<close>

text \<open>The snapshot with only one of its policies.\<close>

abbreviation only :: "CspPolicy \<Rightarrow> ParsedPolicy \<Rightarrow> CspPolicy" where
  "only p q \<equiv> p\<lparr>cp_policies := [q]\<rparr>"

lemma map_filter_if: "List.map_filter (\<lambda>x. if P x then Some (f x) else None) xs = map f (filter P xs)"
  by (induction xs) (simp_all add: map_filter_simps)

lemma sources_for_attribute_irrelevant:
  "\<not> is_inline_reference reference \<Longrightarrow> \<not> starts_with reference ''style-attribute:''"
  by (simp add: is_inline_reference_def)

lemma pp_allows_url_ungoverned: "sources_for q rt False = None \<Longrightarrow> pp_allows_url q rt b u n"
  by (simp add: pp_allows_url_def)

lemma violating_policy_texts_reference:
  assumes "\<not> is_inline_reference reference"
  shows "map pv_serialized (violating_policy_texts uc hc p qs rt reference n None)
    = map pp_serialized (filter (\<lambda>q. sources_for q rt False \<noteq> None
        \<and> \<not> allows_reference_after_redirects uc (only p q) rt reference n) qs)"
  using assms sources_for_attribute_irrelevant [OF assms]
  by (auto simp: violating_policy_texts_def Let_def map_filter_if allows_reference_after_redirects_def
      comp_def intro!: arg_cong [where f = "map pp_serialized"] filter_cong split: option.splits)


section \<open>The inline check of the standard\<close>

text \<open>
  Section 6.7.3 of the standard scans a source list: \<^emph>\<open>does a source list allow all inline
  behavior\<close> returns at the first nonce, hash or (for scripts) \<open>'strict-dynamic'\<close>, and \<^emph>\<open>does an element
  match a source list\<close> tries this, then nonces, then hashes.  Neither algorithm lets \<open>'strict-dynamic'\<close> allow
  inline code; the rule by which the program does so for a script created by a script is stated beside it.
\<close>

fun allow_all_inline :: "InlineType \<Rightarrow> bool \<Rightarrow> SourceExpression list \<Rightarrow> bool" where
  "allow_all_inline kind allow [] = allow"
| "allow_all_inline kind allow (Nonce n # es) = False"
| "allow_all_inline kind allow (Hash a v # es) = False"
| "allow_all_inline kind allow (StrictDynamic # es) =
     (if it_is_script kind then False else allow_all_inline kind allow es)"
| "allow_all_inline kind allow (UnsafeInline # es) = allow_all_inline kind True es"
| "allow_all_inline kind allow (e # es) = allow_all_inline kind allow es"

inductive inline_matches :: "hash_crates \<Rightarrow> InlineType \<Rightarrow> string \<Rightarrow> string option \<Rightarrow> SourceExpression list \<Rightarrow> bool"
  for hc kind source nonce sources
where
  all_inline: "allow_all_inline kind False sources \<Longrightarrow> inline_matches hc kind source nonce sources"
| nonce_listed: "kind \<in> {ItScript, ItDynamicScript, ItStyle} \<Longrightarrow> nonce = Some n \<Longrightarrow> Nonce n \<in> set sources \<Longrightarrow>
     inline_matches hc kind source nonce sources"
| hash_listed: "kind \<in> {ItScript, ItDynamicScript, ItStyle} \<or> UnsafeHashes \<in> set sources \<Longrightarrow>
     Hash a v \<in> set sources \<Longrightarrow> hc_encode hc (hc_digest hc a (bytes_of_str source)) = v \<Longrightarrow>
     inline_matches hc kind source nonce sources"

lemma allow_all_inline_iff:
  "allow_all_inline kind allow es \<longleftrightarrow>
     (allow \<or> UnsafeInline \<in> set es)
     \<and> \<not> list_ex (\<lambda>e. is_nonce_or_hash e \<or> (it_is_script kind \<and> e = StrictDynamic)) es"
  by (induction kind allow es rule: allow_all_inline.induct) auto

lemma hash_matches_iff:
  "list_ex (hash_matches hc source) es \<longleftrightarrow>
     (\<exists>a v. Hash a v \<in> set es \<and> hc_encode hc (hc_digest hc a (bytes_of_str source)) = v)"
proof -
  have "hash_matches hc source e \<longleftrightarrow> (\<exists>a v. e = Hash a v \<and> hc_encode hc (hc_digest hc a (bytes_of_str source)) = v)" for e
    by (cases e) (auto simp: hash_matches_def digest_def)
  then show ?thesis by (auto simp: list_ex_iff)
qed

lemma pp_allows_inline_source_matches:
  "pp_allows_inline_source hc q kind (Some source) nonce \<longleftrightarrow>
     (case sources_for q (it_resource_type kind) (it_is_attribute kind) of
        None \<Rightarrow> True
      | Some sources \<Rightarrow> inline_matches hc kind source nonce sources
                     \<or> kind = ItDynamicScript \<and> StrictDynamic \<in> set sources)"
proof (cases "sources_for q (it_resource_type kind) (it_is_attribute kind)")
  case (Some sources)
  have k: "requires_unsafe_hashes kind \<longleftrightarrow> kind \<notin> {ItScript, ItDynamicScript, ItStyle}"
    by (cases kind) (auto simp: requires_unsafe_hashes_def)
  have n: "(case nonce of None \<Rightarrow> False | Some n \<Rightarrow> list_ex (\<lambda>e. e = Nonce n) sources)
      \<longleftrightarrow> (\<exists>n. nonce = Some n \<and> Nonce n \<in> set sources)"
    by (auto simp: list_ex_iff split: option.split)
  define overrides where
    "overrides = list_ex (\<lambda>e. is_nonce_or_hash e \<or> (it_is_script kind \<and> e = StrictDynamic)) sources"
  show ?thesis
    unfolding inline_matches.simps allow_all_inline_iff
    by (simp add: Some pp_allows_inline_source_def Let_def permits_nonce_def k n hash_matches_iff
        flip: overrides_def) blast
qed (simp add: pp_allows_inline_source_def)


section \<open>Printing policies\<close>

definition b64_text :: "string \<Rightarrow> bool" where
  "b64_text v =
     (let core = trim_end_matches (\<lambda>c. c = CHR ''='') v
      in core \<noteq> [] \<and> length v - length core \<le> 2 \<and> list_all base64_char core)"

fun hash_name :: "HashAlgorithm \<Rightarrow> string" where
  "hash_name Sha256 = ''sha256''"
| "hash_name Sha384 = ''sha384''"
| "hash_name Sha512 = ''sha512''"

definition host_char :: "char \<Rightarrow> bool" where
  "host_char c \<longleftrightarrow> sf_lower c \<or> is_ascii_digit c \<or> c \<in> set ''-.*_''"

definition scheme_char :: "char \<Rightarrow> bool" where
  "scheme_char c \<longleftrightarrow> sf_lower c \<or> is_ascii_digit c \<or> c = CHR ''+'' \<or> c = CHR ''-''"

definition path_char :: "char \<Rightarrow> bool" where
  "path_char c \<longleftrightarrow> visible c \<and> c \<noteq> CHR '':'' \<and> c \<noteq> CHR '';''"

text \<open>The source expressions that have a spelling of their own: the path of a host source is free of
  colons, and \<open>*\<close> alone is not a host.\<close>

fun printable_source :: "SourceExpression \<Rightarrow> bool" where
  "printable_source (Nonce n) = b64_text n"
| "printable_source (Hash a v) = (b64_text v \<and> CHR ''-'' \<notin> set v \<and> CHR ''_'' \<notin> set v)"
| "printable_source (SchemeSource s) = (s \<noteq> [] \<and> list_all scheme_char s)"
| "printable_source (HostSource scheme host port path) =
     ((case scheme of None \<Rightarrow> True | Some s \<Rightarrow> s \<noteq> [] \<and> list_all scheme_char s)
      \<and> host \<noteq> [] \<and> list_all host_char host
      \<and> (case path of None \<Rightarrow> True | Some p \<Rightarrow> starts_with p ''/'' \<and> list_all path_char p)
      \<and> \<not> (scheme = None \<and> host = ''*'' \<and> port = None \<and> path = None))"
| "printable_source _ = True"

definition show_opt :: "('a \<Rightarrow> string) \<Rightarrow> 'a option \<Rightarrow> string" where
  "show_opt f v = (case v of None \<Rightarrow> [] | Some x \<Rightarrow> f x)"

fun show_source :: "SourceExpression \<Rightarrow> string" where
  "show_source SeNone = quoted ''none''"
| "show_source SelfKeyword = quoted ''self''"
| "show_source UnsafeInline = quoted ''unsafe-inline''"
| "show_source UnsafeHashes = quoted ''unsafe-hashes''"
| "show_source StrictDynamic = quoted ''strict-dynamic''"
| "show_source UnsafeEval = quoted ''unsafe-eval''"
| "show_source WasmUnsafeEval = quoted ''wasm-unsafe-eval''"
| "show_source TrustedTypesEval = quoted ''trusted-types-eval''"
| "show_source ReportSample = quoted ''report-sample''"
| "show_source AnySource = ''*''"
| "show_source (Nonce n) = quoted (''nonce-'' @ n)"
| "show_source (Hash a v) = quoted (hash_name a @ ''-'' @ v)"
| "show_source (SchemeSource s) = s @ '':''"
| "show_source (HostSource scheme host port path) =
     show_opt (\<lambda>s. s @ ''://'') scheme @ host
     @ show_opt (\<lambda>p. CHR '':'' # show_nat (unat p)) port @ show_opt (\<lambda>p. p) path"

definition show_directive :: "string \<times> SourceExpression list \<Rightarrow> string" where
  "show_directive d = join '' '' (fst d # map show_source (snd d))"

definition show_policy :: "(string \<times> SourceExpression list) list \<Rightarrow> string" where
  "show_policy ds = join '';'' (map show_directive ds)"

definition directive_name :: "string \<Rightarrow> bool" where
  "directive_name n \<longleftrightarrow>
     n \<noteq> [] \<and> list_all (\<lambda>c. sf_lower c \<or> is_ascii_digit c \<or> c = CHR ''-'') n
     \<and> n \<notin> {''trusted-types'', ''require-trusted-types-for''}"

lemma to_lower_keeps: "\<not> (65 \<le> byte c \<and> byte c \<le> 90) \<Longrightarrow> to_lower c = c"
  unfolding to_lower_def by (rule if_not_P)

lemma to_lower_eq: "\<not> (97 \<le> byte d \<and> byte d \<le> 122) \<Longrightarrow> to_lower c = d \<longleftrightarrow> c = d \<and> \<not> (65 \<le> byte c \<and> byte c \<le> 90)"
proof (cases "65 \<le> byte c \<and> byte c \<le> 90")
  case True
  obtain b0 b1 b2 b3 b4 b5 b6 b7 where c: "c = Char b0 b1 b2 b3 b4 b5 b6 b7" by (cases c)
  have "\<not> b5 \<and> b6 \<and> \<not> b7"
    using True unfolding c
    by (cases b0; cases b1; cases b2; cases b3; cases b4; cases b5; cases b6; cases b7; simp)
  then have "byte (to_lower c) = byte c + 32" using True unfolding c by (simp add: to_lower_def)
  moreover assume "\<not> (97 \<le> byte d \<and> byte d \<le> 122)"
  ultimately show ?thesis using True by auto
qed (auto simp: to_lower_keeps)

lemma lower_text: "\<forall>c\<in>set s. \<not> (65 \<le> byte c \<and> byte c \<le> 90) \<Longrightarrow> to_ascii_lowercase s = s"
  unfolding to_ascii_lowercase_def by (rule map_idI) (simp add: to_lower_keeps)

lemma trim_end_chars: "c \<in> set v \<Longrightarrow> c \<in> set (trim_end_matches P v) \<or> P c"
proof -
  assume "c \<in> set v"
  then have "c \<in> set (takeWhile P (rev v)) \<union> set (dropWhile P (rev v))"
    by (metis set_append set_rev takeWhile_dropWhile_id)
  then show ?thesis by (auto simp: trim_end_matches_def dest: set_takeWhileD)
qed

lemma b64_text_chars: "b64_text v \<Longrightarrow> c \<in> set v \<Longrightarrow> base64_char c \<or> c = CHR ''=''"
  using trim_end_chars [of c v "\<lambda>c. c = CHR ''=''"] by (auto simp: b64_text_def Let_def list_all_iff)

text \<open>The printed sources are tokens.\<close>

definition token_char :: "char \<Rightarrow> bool" where
  "token_char c \<longleftrightarrow> \<not> is_ascii_whitespace c \<and> c \<noteq> CHR '';''"

definition token_text :: "string \<Rightarrow> bool" where
  "token_text t \<longleftrightarrow> t \<noteq> [] \<and> list_all token_char t"

lemma token_chars:
  "base64_char c \<or> host_char c \<or> scheme_char c \<or> path_char c \<or> is_ascii_digit c \<Longrightarrow> token_char c"
  by (auto simp: base64_char_def host_char_def scheme_char_def path_char_def visible_def sf_lower_def
      is_ascii_digit_def is_ascii_alphanumeric_def is_ascii_alphabetic_def is_ascii_whitespace_def token_char_def)

lemma token_parts [simp]:
  "b64_text n \<Longrightarrow> list_all token_char n"
  "list_all scheme_char s \<Longrightarrow> list_all token_char s"
  "list_all host_char s \<Longrightarrow> list_all token_char s"
  "list_all path_char s \<Longrightarrow> list_all token_char s"
  "list_all token_char (show_nat k)"
proof -
  show "b64_text n \<Longrightarrow> list_all token_char n"
    using token_chars b64_text_chars by (fastforce simp: list_all_iff token_char_def is_ascii_whitespace_def)
qed (auto simp: list_all_iff token_chars dest!: show_nat_digits)

lemma token_literals [simp]:
  "token_char apostrophe" "token_char (CHR ''-'')" "token_char (CHR '':'')" "token_char (CHR ''/'')" "list_all token_char (hash_name a)"
  by (cases a; simp add: token_char_def is_ascii_whitespace_def)+

lemma show_source_token: "printable_source e \<Longrightarrow> token_text (show_source e)"
  by (cases e) (simp_all add: token_text_def show_opt_def split: option.splits,
    simp_all add: token_char_def is_ascii_whitespace_def)

section \<open>Reading printed policies\<close>

lemma parse_quoted_keyword:
  "e \<in> {SeNone, SelfKeyword, UnsafeInline, UnsafeHashes, StrictDynamic, UnsafeEval, WasmUnsafeEval,
     TrustedTypesEval, ReportSample, AnySource} \<Longrightarrow> parse_source_expression (show_source e) = Some e"
  by (auto simp: parse_source_expression_def parse_nonce_source_def parse_hash_source_def strip_prefix_def
      strip_suffix_def split_once_def hash_algorithm_of.simps to_ascii_lowercase_def to_lower_def
      parse_keyword_def)

lemma parse_nonce: "b64_text n \<Longrightarrow> parse_source_expression (show_source (Nonce n)) = Some (Nonce n)"
  by (simp add: parse_source_expression_def parse_nonce_source_def strip_prefix_def strip_suffix_def
      b64_text_def Let_def)

lemma parse_hash_quoted:
  "parse_hash_source (quoted w) =
     Option.bind (split_once (CHR ''-'') w) (\<lambda>(algorithm, value).
     Option.bind (hash_algorithm_of (to_ascii_lowercase algorithm)) (\<lambda>algorithm.
       let unpadded = trim_end_matches (\<lambda>c. c = CHR ''='') value in
       if unpadded = [] \<or> length value - length unpadded > 2 \<or> \<not> list_all base64_char unpadded
       then None
       else Some (Hash algorithm (normalize_alphabet value))))"
  by (simp add: parse_hash_source_def strip_prefix_def strip_suffix_def)

lemma parse_hash:
  assumes "b64_text v" "CHR ''-'' \<notin> set v" "CHR ''_'' \<notin> set v"
  shows "parse_source_expression (show_source (Hash a v)) = Some (Hash a v)"
proof -
  have n: "normalize_alphabet v = v"
    using assms(2,3) unfolding normalize_alphabet_def map_map
    by (intro map_idI) auto
  have s: "split_once (CHR ''-'') (hash_name a @ ''-'' @ v) = Some (hash_name a, v)"
    using split_once_append [of "CHR ''-''" "hash_name a" v] by (cases a) simp_all
  have h: "hash_algorithm_of (to_ascii_lowercase (hash_name a)) = Some a"
    by (cases a) (simp_all add: hash_algorithm_of.simps to_ascii_lowercase_def to_lower_def)
  have "parse_nonce_source (quoted (hash_name a @ ''-'' @ v)) = None"
    by (cases a) (simp_all add: parse_nonce_source_def strip_prefix_def)
  moreover have "parse_hash_source (quoted (hash_name a @ ''-'' @ v)) = Some (Hash a v)"
    unfolding parse_hash_quoted s using assms(1) h n by (simp add: b64_text_def Let_def)
  ultimately show ?thesis by (simp add: parse_source_expression_def)
qed

text \<open>A token that does not start with an apostrophe is a keyword only if it is the asterisk.\<close>

lemma unquoted_token:
  assumes "t \<noteq> []" "hd t \<noteq> apostrophe" "t \<noteq> ''*''"
  shows "parse_nonce_source t = None" "parse_hash_source t = None" "parse_keyword t = None"
proof -
  obtain c cs where t: "t = c # cs" "c \<noteq> apostrophe" using assms by (cases t) auto
  show "parse_nonce_source t = None" "parse_hash_source t = None"
    using t by (simp_all add: parse_nonce_source_def parse_hash_source_def strip_prefix_def)
  have "to_lower c \<noteq> apostrophe" using t(2) by (simp add: to_lower_eq)
  moreover have "to_ascii_lowercase t \<noteq> ''*''"
    using t assms(3) by (auto simp: to_ascii_lowercase_def to_lower_eq)
  ultimately show "parse_keyword t = None"
    using t by (simp add: parse_keyword_def to_ascii_lowercase_def)
qed

lemma scheme_lower: "list_all scheme_char s \<Longrightarrow> to_ascii_lowercase s = s"
  by (rule lower_text) (auto simp: list_all_iff scheme_char_def sf_lower_def is_ascii_digit_def)

lemma host_lower: "list_all host_char s \<Longrightarrow> to_ascii_lowercase s = s"
  by (rule lower_text) (auto simp: list_all_iff host_char_def sf_lower_def is_ascii_digit_def)

lemma digits_lower: "to_ascii_lowercase (show_nat n) = show_nat n"
  by (rule lower_text) (auto dest!: show_nat_digits simp: is_ascii_digit_def)

lemma to_ascii_lowercase_Nil [simp]: "to_ascii_lowercase [] = []"
  by (simp add: to_ascii_lowercase_def)

lemma to_ascii_lowercase_append [simp]:
  "to_ascii_lowercase (a @ b) = to_ascii_lowercase a @ to_ascii_lowercase b"
  by (simp add: to_ascii_lowercase_def)

lemma parse_scheme:
  assumes "s \<noteq> []" "list_all scheme_char s"
  shows "parse_source_expression (show_source (SchemeSource s)) = Some (SchemeSource s)"
proof -
  have c: "scheme_char c \<Longrightarrow> c \<noteq> apostrophe \<and> c \<noteq> CHR ''/'' \<and> c \<noteq> CHR ''.''" for c
    by (auto simp: scheme_char_def sf_lower_def is_ascii_digit_def)
  have h: "hd s \<in> set s" using assms(1) by simp
  have t: "s @ '':'' \<noteq> []" "hd (s @ '':'') \<noteq> apostrophe" "s @ '':'' \<noteq> ''*''"
    using assms c h by (auto simp: list_all_iff hd_append)
  have "to_ascii_lowercase '':'' = '':''" by (simp add: to_ascii_lowercase_def to_lower_def)
  then have "parse_scheme_source (s @ '':'') = Some (SchemeSource s)"
    using assms c by (auto simp: parse_scheme_source_def scheme_lower strip_suffix_def list_all_iff)
  then show ?thesis by (simp add: parse_source_expression_def unquoted_token [OF t])
qed


lemma split_once_str_skip:
  "CHR '':'' \<notin> set a \<Longrightarrow>
   split_once_str ''://'' (a @ r) = map_option (apfst ((@) a)) (split_once_str ''://'' r)"
proof (induction a)
  case Nil
  then show ?case by (cases "split_once_str ''://'' r") auto
next
  case (Cons c a)
  then have "\<not> prefix ''://'' (c # a @ r)" by auto
  with Cons show ?case
    by (subst split_once_str.simps) (cases "split_once_str ''://'' r"; auto)
qed

lemma split_once_str_none: "CHR '':'' \<notin> set a \<Longrightarrow> split_once_str ''://'' a = None"
  using split_once_str_skip [of a "[]"] by (simp add: split_once_str.simps [of _ "[]"])

lemma rsplit_once_append: "d \<notin> set b \<Longrightarrow> rsplit_once d (a @ d # b) = Some (a, b)"
  by (simp add: rsplit_once_def)

text \<open>The parts of a host source.\<close>

definition show_port :: "16 word option \<Rightarrow> string" where
  "show_port port = show_opt (\<lambda>p. CHR '':'' # show_nat (unat p)) port"

lemma show_port_chars: "c \<in> set (show_port port) \<Longrightarrow> c = CHR '':'' \<or> is_ascii_digit c"
  by (auto simp: show_port_def show_opt_def dest: show_nat_digits split: option.splits)

lemma port_lower: "to_ascii_lowercase (show_port port) = show_port port"
  by (rule lower_text) (auto dest!: show_port_chars simp: is_ascii_digit_def)

lemma host_char_facts:
  "host_char c \<Longrightarrow> c \<noteq> apostrophe \<and> c \<noteq> CHR ''/'' \<and> c \<noteq> CHR '':'' \<and> c \<noteq> CHR ''['' \<and> \<not> (65 \<le> byte c \<and> byte c \<le> 90)"
  by (auto simp: host_char_def sf_lower_def is_ascii_digit_def)

lemma host_char_not [simp]:
  "\<not> host_char apostrophe" "\<not> host_char (CHR ''/'')" "\<not> host_char (CHR '':'')" "\<not> host_char (CHR ''['')"
  by (simp_all add: host_char_def sf_lower_def is_ascii_digit_def)

lemma parse_host_port_show:
  assumes "host \<noteq> []" "list_all host_char host"
  shows "parse_host_port (host @ show_port port) = Some (host, port)"
proof -
  have h: "\<not> prefix ''['' (host @ show_port port)"
    using assms host_char_facts by (cases host) auto
  show ?thesis
  proof (cases port)
    case None
    then have "rsplit_once (CHR '':'') (host @ show_port port) = None"
      using assms host_char_facts by (auto simp: rsplit_once_def show_port_def show_opt_def list_all_iff)
    then show ?thesis
      using h None by (simp add: parse_host_port_def strip_prefix_def show_port_def show_opt_def)
  next
    case (Some p)
    have "unat p < 2 ^ LENGTH(16)" by (rule unsigned_less)
    then have "parse_uint 10 u16_max (show_nat (unat p)) = Some (unat p)"
      by (intro parse_show_nat) (simp add: u16_max_def)
    moreover have "rsplit_once (CHR '':'') (host @ show_port port) = Some (host, show_nat (unat p))"
      unfolding Some show_port_def show_opt_def option.case
      by (rule rsplit_once_append) (auto dest: show_nat_digits simp: is_ascii_digit_def)
    ultimately show ?thesis
      using h Some assms(1) by (simp add: parse_host_port_def strip_prefix_def)
  qed
qed

lemma split_scheme_show:
  assumes "case scheme of None \<Rightarrow> True | Some s \<Rightarrow> s \<noteq> [] \<and> list_all scheme_char s"
    and "host \<noteq> []" "list_all host_char host"
    and "case path of None \<Rightarrow> True | Some p \<Rightarrow> starts_with p ''/'' \<and> list_all path_char p"
  shows "split_scheme (show_source (HostSource scheme host port path))
           = (scheme, host @ show_port port @ show_opt (\<lambda>p. p) path)"
proof (cases scheme)
  case (Some s)
  have c: "CHR '':'' \<notin> set s"
    using assms(1) Some by (auto simp: list_all_iff scheme_char_def sf_lower_def is_ascii_digit_def)
  have l: "to_ascii_lowercase s = s" using assms(1) Some by (intro scheme_lower) simp
  have "to_ascii_lowercase ''://'' = ''://''" by (simp add: to_ascii_lowercase_def to_lower_def)
  then have "to_ascii_lowercase (s @ ''://'' @ r) = s @ ''://'' @ to_ascii_lowercase r" for r
    unfolding to_ascii_lowercase_append l by (rule arg_cong)
  then have "split_scheme (s @ ''://'' @ r) = (Some s, r)" for r
    using split_once_str_append [of "''://''" s "to_ascii_lowercase r"] c l
    by (simp add: split_scheme_def)
  then show ?thesis by (simp add: Some show_opt_def show_port_def)
next
  case None
  let ?p = "show_opt (\<lambda>p. p) path"
  have p: "CHR '':'' \<notin> set (to_ascii_lowercase ?p)"
  proof
    assume "CHR '':'' \<in> set (to_ascii_lowercase ?p)"
    then have "\<exists>c\<in>set ?p. to_lower c = CHR '':''" by (auto simp: to_ascii_lowercase_def)
    then have c: "CHR '':'' \<in> set ?p" by (simp add: to_lower_eq)
    then show False using assms(4) by (auto simp: show_opt_def list_all_iff path_char_def split: option.splits)
  qed
  have h: "CHR '':'' \<notin> set host" using assms(3) host_char_facts by (auto simp: list_all_iff)
  have "split_once_str ''://'' (show_port port @ to_ascii_lowercase ?p) = None"
  proof (cases port)
    case None
    then show ?thesis using p by (simp add: show_port_def show_opt_def split_once_str_none)
  next
    case (Some q)
    obtain d ds where d: "show_nat (unat q) = d # ds" by (cases "show_nat (unat q)") auto
    then have "\<forall>c\<in>set (d # ds). is_ascii_digit c" by (metis show_nat_digits)
    then have "d \<noteq> CHR ''/''" "CHR '':'' \<notin> set (d # ds @ to_ascii_lowercase ?p)"
      using p by (auto simp: is_ascii_digit_def)
    then show ?thesis
      using d Some split_once_str_none [of "d # ds @ to_ascii_lowercase ?p"]
      by (simp add: show_port_def show_opt_def split_once_str.simps [of _ "CHR '':'' # _"])
  qed
  then have "split_once_str ''://'' (host @ show_port port @ to_ascii_lowercase ?p) = None"
    using h by (simp add: split_once_str_skip)
  moreover have lower: "to_ascii_lowercase (host @ show_port port @ ?p) = host @ show_port port @ to_ascii_lowercase ?p"
    by (auto simp: host_lower [OF assms(3)] intro!: lower_text dest!: show_port_chars simp: is_ascii_digit_def)
  moreover have "\<not> prefix ''//'' (host @ show_port port @ to_ascii_lowercase ?p)"
    using assms(2,3) host_char_facts by (cases host) auto
  moreover have t: "show_source (HostSource None host port path) = host @ show_port port @ ?p"
    by (simp add: show_opt_def show_port_def)
  ultimately show ?thesis
    unfolding None t split_scheme_def Let_def lower by (simp add: starts_with_def del: to_ascii_lowercase_append)
qed


lemma parse_host:
  assumes "printable_source (HostSource scheme host port path)"
  shows "parse_source_expression (show_source (HostSource scheme host port path))
           = Some (HostSource scheme host port path)"
proof -
  let ?t = "show_source (HostSource scheme host port path)"
  have a: "case scheme of None \<Rightarrow> True | Some s \<Rightarrow> s \<noteq> [] \<and> list_all scheme_char s"
    "host \<noteq> []" "list_all host_char host"
    "case path of None \<Rightarrow> True | Some p \<Rightarrow> starts_with p ''/'' \<and> list_all path_char p"
    using assms by simp_all
  have hp: "CHR ''/'' \<notin> set (host @ show_port port)"
    using a(3) by (auto simp: list_all_iff is_ascii_digit_def dest!: show_port_chars)
  have sc: "scheme_char c \<Longrightarrow> c \<noteq> apostrophe" for c
    by (auto simp: scheme_char_def sf_lower_def is_ascii_digit_def)
  have "hd ?t \<noteq> apostrophe"
  proof (cases scheme)
    case None
    then show ?thesis using a(2,3) by (cases host) (auto simp: show_opt_def)
  next
    case (Some w)
    then show ?thesis using a(1) sc by (cases w) (auto simp: show_opt_def)
  qed
  moreover have "?t \<noteq> ''*''"
  proof (cases scheme)
    case (Some w)
    then show ?thesis using a(1) by (cases w) (auto simp: show_opt_def)
  next
    case None
    obtain x xs where h: "host = x # xs" using a(2) by (cases host) auto
    have "port = None" if "show_port port = []" using that by (cases port) (auto simp: show_port_def show_opt_def)
    moreover have "path = None" if "show_opt (\<lambda>p. p) path = []"
      using that a(4) by (cases path) (auto simp: starts_with_def show_opt_def)
    ultimately show ?thesis using assms None h by (auto simp: show_port_def show_opt_def)
  qed
  moreover have ne: "?t \<noteq> []" using a(2) by simp
  ultimately have t: "?t \<noteq> []" "hd ?t \<noteq> apostrophe" "?t \<noteq> ''*''" by fast+
  have u: "parse_nonce_source ?t = None" "parse_hash_source ?t = None" "parse_keyword ?t = None"
    by (rule unquoted_token [OF t])+
  have "last ?t \<noteq> CHR '':''"
  proof -
    have "last ?t = last (host @ show_port port @ show_opt (\<lambda>p. p) path)"
      using a(2) by (simp add: show_opt_def show_port_def last_append split: option.split)
    also have "\<dots> \<noteq> CHR '':''"
    proof (cases "show_opt (\<lambda>p. p) path = []")
      case False
      then show ?thesis
        using a(4) last_in_set [OF False]
        by (auto simp: show_opt_def list_all_iff path_char_def split: option.splits)
    next
      case True
      have "last (show_nat n) \<noteq> CHR '':''" for n
        using show_nat_digits [of "last (show_nat n)" n] by (auto simp: is_ascii_digit_def)
      moreover have "host_char (last host)" using a(2,3) by (simp add: list_all_iff)
      ultimately show ?thesis
        using True a(2) by (auto simp: show_port_def show_opt_def is_ascii_digit_def split: option.split)
    qed
    finally show ?thesis .
  qed
  then have "last (to_ascii_lowercase ?t) \<noteq> CHR '':''"
    using ne by (simp add: to_ascii_lowercase_def last_map to_lower_eq del: show_source.simps)
  then have s: "parse_scheme_source ?t = None"
    by (auto simp: parse_scheme_source_def strip_suffix_def suffix_def)
  have "split_once (CHR ''/'') (host @ show_port port @ show_opt (\<lambda>p. p) path)
      = (case path of None \<Rightarrow> None | Some p \<Rightarrow> Some (host @ show_port port, tl p))"
  proof (cases path)
    case (Some p)
    then obtain q where "p = CHR ''/'' # q" using a(4) by (auto simp: starts_with_def prefix_def)
    then show ?thesis using split_once_append [OF hp] Some by (simp add: show_opt_def)
  qed (use hp in \<open>auto simp: split_once_def show_opt_def dropWhile_eq_Nil_conv\<close>)
  moreover have "path = Some p \<Longrightarrow> CHR ''/'' # tl p = p" for p
    using a(4) by (auto simp: starts_with_def prefix_def)
  moreover have "to_ascii_lowercase (host @ show_port port) = host @ show_port port"
    by (simp add: host_lower [OF a(3)] port_lower)
  ultimately have "parse_host_source ?t = Some (HostSource scheme host port path)"
    using a(2) parse_host_port_show [OF a(2,3)] unfolding parse_host_source_def split_scheme_show [OF a]
    by (cases path) (simp_all add: show_opt_def)
  then show ?thesis unfolding parse_source_expression_def u s by simp
qed

lemma parse_show_source: "printable_source e \<Longrightarrow> parse_source_expression (show_source e) = Some e"
  using parse_quoted_keyword parse_nonce parse_hash parse_scheme parse_host
  by (cases e) (simp_all del: show_source.simps add: parse_quoted_keyword)


lemma split_on_cons: "\<forall>c\<in>set w. \<not> P c \<Longrightarrow> P d \<Longrightarrow> split_on P (w @ d # r) = w # split_on P r"
  by (induction w) auto

lemma split_on_join:
  "ws \<noteq> [] \<Longrightarrow> \<forall>w\<in>set ws. \<forall>c\<in>set w. \<not> P c \<Longrightarrow> P d \<Longrightarrow> split_on P (join [d] ws) = ws"
proof (induction ws rule: list_nonempty_induct)
  case (cons w ws)
  then show ?case by (cases ws) (auto simp: split_on_cons)
qed (simp add: split_on_none)

lemma in_join: "c \<in> set (join s ws) \<Longrightarrow> c \<in> set s \<or> (\<exists>w\<in>set ws. c \<in> set w)"
  by (induction s ws rule: join.induct) auto

lemma directive_name_token: "directive_name n \<Longrightarrow> token_text n"
  by (auto simp: directive_name_def token_text_def list_all_iff token_char_def sf_lower_def is_ascii_digit_def
      is_ascii_whitespace_def)

lemma directive_name_lower: "directive_name n \<Longrightarrow> to_ascii_lowercase n = n"
  by (rule lower_text) (auto simp: directive_name_def list_all_iff sf_lower_def is_ascii_digit_def)

definition printable_directive :: "string \<times> SourceExpression list \<Rightarrow> bool" where
  "printable_directive d \<longleftrightarrow> directive_name (fst d) \<and> list_all printable_source (snd d)"

lemma directive_tokens: "printable_directive d \<Longrightarrow> w \<in> set (fst d # map show_source (snd d)) \<Longrightarrow> token_text w"
  by (auto simp: printable_directive_def list_all_iff directive_name_token show_source_token)

lemma split_show_directive:
  assumes "printable_directive d"
  shows "split_ascii_whitespace (show_directive d) = fst d # map show_source (snd d)"
proof -
  let ?ws = "fst d # map show_source (snd d)"
  have t: "\<forall>w\<in>set ?ws. token_text w" using directive_tokens [OF assms] by blast
  then have "split_on is_ascii_whitespace (join [CHR '' ''] ?ws) = ?ws"
    by (intro split_on_join) (auto simp: token_text_def token_char_def list_all_iff is_ascii_whitespace_def)
  then show ?thesis
    using t by (simp add: split_ascii_whitespace_def show_directive_def filter_id_conv token_text_def)
qed

lemma show_directive_no_semicolon: "printable_directive d \<Longrightarrow> CHR '';'' \<notin> set (show_directive d)"
proof
  assume d: "printable_directive d" and c: "CHR '';'' \<in> set (show_directive d)"
  have "\<exists>w\<in>set (fst d # map show_source (snd d)). CHR '';'' \<in> set w"
    using in_join [OF c [unfolded show_directive_def]] by (simp del: set_map)
  then obtain w where "w \<in> set (fst d # map show_source (snd d))" "CHR '';'' \<in> set w" by blast
  moreover from this(1) have "token_text w" by (rule directive_tokens [OF d])
  ultimately show False by (auto simp: token_text_def token_char_def list_all_iff)
qed

lemma map_filter_show: "list_all printable_source ss \<Longrightarrow>
  List.map_filter parse_source_expression (map show_source ss) = ss"
  by (induction ss) (simp_all add: map_filter_simps parse_show_source)

lemma parse_show_directive:
  assumes "printable_directive d" "pp_directives q (fst d) = None"
  shows "parse_directive (show_directive d) q = q\<lparr>pp_directives := (pp_directives q)(fst d \<mapsto> snd d)\<rparr>"
proof -
  have n: "directive_name (fst d)" "list_all printable_source (snd d)"
    using assms(1) by (simp_all add: printable_directive_def)
  then have "fst d \<noteq> ''trusted-types''" "fst d \<noteq> ''require-trusted-types-for''"
    unfolding directive_name_def by blast+
  then show ?thesis
    using assms(2) n(2)
    by (simp add: parse_directive_def split_show_directive [OF assms(1)] directive_name_lower [OF n(1)]
        map_filter_show Let_def)
qed

lemma parse_show_directives:
  "list_all printable_directive ds \<Longrightarrow> distinct (map fst ds) \<Longrightarrow> \<forall>d\<in>set ds. pp_directives q (fst d) = None \<Longrightarrow>
   fold parse_directive (map show_directive ds) q = q\<lparr>pp_directives := pp_directives q ++ map_of ds\<rparr>"
proof (induction ds arbitrary: q)
  case (Cons d ds)
  obtain n ss where d: "d = (n, ss)" by (metis surj_pair)
  let ?q = "q\<lparr>pp_directives := (pp_directives q)(n \<mapsto> ss)\<rparr>"
  have "parse_directive (show_directive d) q = ?q"
    using parse_show_directive [of d q] Cons.prems d by simp
  moreover have "fold parse_directive (map show_directive ds) ?q
      = ?q\<lparr>pp_directives := pp_directives ?q ++ map_of ds\<rparr>"
    by (rule Cons.IH) (use Cons.prems d in auto)
  moreover have "pp_directives ?q ++ map_of ds = pp_directives q ++ map_of (d # ds)"
    using Cons.prems(2) d
    by (auto simp: map_add_def fun_eq_iff split: option.split dest!: map_of_SomeD intro: rev_image_eqI)
  ultimately have "fold parse_directive (map show_directive (d # ds)) q
      = ?q\<lparr>pp_directives := pp_directives q ++ map_of (d # ds)\<rparr>"
    by (simp only: list.map fold_simps)
  moreover have "?q\<lparr>pp_directives := m\<rparr> = q\<lparr>pp_directives := m\<rparr>" for m by simp
  ultimately show ?case by (rule trans)
qed simp

lemma parse_show_policy:
  assumes "ds \<noteq> []" "distinct (map fst ds)" "list_all printable_directive ds"
  shows "parse_policy (show_policy ds)
    = Some \<lparr>pp_directives = map_of ds, pp_trusted_types = None,
            pp_require_trusted_types_for_script = False, pp_serialized = trim (show_policy ds)\<rparr>"
proof -
  have "split_char (CHR '';'') (show_policy ds) = map show_directive ds"
    unfolding split_char_def show_policy_def
    by (rule split_on_join) (use assms show_directive_no_semicolon in \<open>auto simp: list_all_iff\<close>)
  moreover have "map_of ds \<noteq> Map.empty" using assms(1) by (cases ds) auto
  ultimately show ?thesis
    using parse_show_directives [OF assms(3,2)] by (simp add: parse_policy_def)
qed

section \<open>IPv6 hosts\<close>

lemma parse_host_port_bracketed:
  assumes "parse_host_port (CHR ''['' # s) = Some (host, port)"
  shows "CHR '']'' \<notin> set host"
  using assms
  by (auto simp: parse_host_port_def strip_prefix_def split_once_def takeWhile_not_in split: option.splits list.splits if_splits)

lemma host_without_bracket:
  assumes "CHR '']'' \<notin> set host"
  shows "\<not> host_matches host (a @ '']'')"
proof
  assume m: "host_matches host (a @ '']'')"
  let ?h = "to_ascii_lowercase host"
  have b: "to_ascii_lowercase (a @ '']'') = to_ascii_lowercase a @ [CHR '']'']"
    by (simp add: to_ascii_lowercase_def to_lower_eq)
  have h: "CHR '']'' \<notin> set ?h" using assms by (auto simp: to_ascii_lowercase_def to_lower_eq dest: sym)
  have last: "CHR '']'' \<in> set s" if "suffix s (x @ [CHR '']''])" "s \<noteq> []" for s x
    using that by (auto simp: suffix_def append_eq_append_conv2 append_eq_Cons_conv Cons_eq_append_conv)
  show False
  proof (cases "strip_prefix ''*.'' ?h")
    case None
    then show ?thesis using m b h by (simp add: host_matches_def)
  next
    case (Some r)
    then have "?h = ''*.'' @ r" by (auto simp: strip_prefix_def prefix_def split: if_splits)
    moreover have "CHR '']'' \<in> set (''.'' @ r)"
      by (rule last [of _ "to_ascii_lowercase a"])
        (use m b Some in \<open>simp_all add: host_matches_def ends_with_def\<close>)
    ultimately show ?thesis using h by auto
  qed
qed


section \<open>Properties\<close>

text \<open>C29: while a parser-inserted script runs, the policies in force are those of the response headers (or the
  inherited ones) and those of exactly the \<open>meta\<close> elements that come before the script in tree order.\<close>

theorem csp_parser_script_policies:
  assumes "in_document document script"
  shows "cp_policies (for_parser_script (from_headers_and_document uc headers document base_url) document script)
           = List.map_filter parse_policy headers @ metas_of (nodes_before document script)
       \<and> cp_policies (for_parser_script (with_document_meta uc p document base_url) document script)
           = cp_policies p @ metas_of (nodes_before document script)"
proof
  show "cp_policies (for_parser_script (from_headers_and_document uc headers document base_url) document script)
          = List.map_filter parse_policy headers @ metas_of (nodes_before document script)"
    by (rule for_parser_script_policies [OF _ assms])
      (simp add: from_headers_and_document_def metas_of_document)
  show "cp_policies (for_parser_script (with_document_meta uc p document base_url) document script)
          = cp_policies p @ metas_of (nodes_before document script)"
    by (rule for_parser_script_policies [OF _ assms])
      (simp add: with_document_meta_def Let_def from_headers_and_document_def metas_of_document map_filter_simps)
qed

definition demo_node :: "nat \<Rightarrow> string \<Rightarrow> (string \<rightharpoonup> string) \<Rightarrow> NodeFacts" where
  "demo_node k tag attrs =
     \<lparr>nf_identity = k, nf_is_element = True, nf_tag_name = Some tag, nf_attributes = attrs\<rparr>"

definition demo_page :: DocNode where
  "demo_page = DocNode (demo_node 0 ''html'' Map.empty)
     [DocNode (demo_node 1 ''head'' Map.empty)
        [DocNode (demo_node 2 ''meta''
           [''http-equiv'' \<mapsto> ''content-security-policy'', ''content'' \<mapsto> ''img-src *'']) [],
         DocNode (demo_node 3 ''script'' Map.empty) [],
         DocNode (demo_node 4 ''meta''
           [''http-equiv'' \<mapsto> ''content-security-policy'', ''content'' \<mapsto> ''font-src *'']) []]]"

lemma csp_parser_script_policies_witness:
  "cp_policies (for_parser_script (from_headers_and_document demo_urls [] demo_page ''https://a/'') demo_page 3)
     = metas_of (nodes_before demo_page 3)
   \<and> length (nodes_before demo_page 3) = 3"
proof -
  have "in_document demo_page 3" by (simp add: in_document_def demo_page_def demo_node_def)
  from csp_parser_script_policies [OF this, where uc = demo_urls and headers = "[]" and base_url = "''https://a/''"]
  show ?thesis
    by (simp add: map_filter_simps) (simp add: nodes_before_def demo_page_def demo_node_def)
qed

text \<open>C30: a redirect relaxes exactly the paths: after one the check of a reference is the check of
  the policies without the paths of their host sources, and what was allowed stays allowed.\<close>

theorem csp_redirects_only_relax_paths:
  "allows_reference_after_redirects uc p rt reference (Suc n) = allows_reference uc (without_paths p) rt reference
   \<and> (allows_reference uc p rt reference \<longrightarrow> allows_reference_after_redirects uc p rt reference m)"
proof
  show "allows_reference_after_redirects uc p rt reference (Suc n) = allows_reference uc (without_paths p) rt reference"
    by (rule allows_reference_without_paths [symmetric])
  show "allows_reference uc p rt reference \<longrightarrow> allows_reference_after_redirects uc p rt reference m"
    by (auto simp: allows_reference_def allows_reference_after_redirects_def list_all_iff pp_allows_url_redirect
        split: option.splits)
qed

definition image_csp :: "SourceExpression list \<Rightarrow> CspPolicy" where
  "image_csp sources =
     \<lparr>cp_policies = [\<lparr>pp_directives = [''img-src'' \<mapsto> sources], pp_trusted_types = None,
        pp_require_trusted_types_for_script = False, pp_serialized = ''p''\<rparr>],
      cp_report_only = [], cp_reporting_endpoints = Map.empty, cp_base_url = None\<rparr>"

lemma demo_data_url:
  "resource_url_parse demo_urls ''data:x'' None = Some \<lparr>ru_scheme = ''data'', ru_host = [], ru_port = 0, ru_path = []\<rparr>"
proof -
  have t: "trim ''data:x'' = ''data:x''" by (rule trim_visible) (simp_all add: visible_def)
  show ?thesis by (simp add: resource_url_parse_def t opaque_resource_scheme_def eq_ignore_ascii_case_def)
qed

lemma csp_redirects_only_relax_paths_witness:
  "allows_reference_after_redirects demo_urls (image_csp [SchemeSource ''data'']) RtImage ''data:x'' 1
   \<and> \<not> allows_reference_after_redirects demo_urls (image_csp [SchemeSource ''blob'']) RtImage ''data:x'' 1"
proof -
  have "allows_reference demo_urls (image_csp [SchemeSource ''data'']) RtImage ''data:x''"
    by (simp add: allows_reference_def allows_reference_after_redirects_def image_csp_def demo_data_url
        sources_for_def pp_allows_url_def scheme_matches_def eq_ignore_ascii_case_def)
  moreover have "\<not> allows_reference demo_urls (without_paths (image_csp [SchemeSource ''blob''])) RtImage ''data:x''"
    by (simp add: allows_reference_def allows_reference_after_redirects_def image_csp_def demo_data_url
        sources_for_def pp_allows_url_def scheme_matches_def eq_ignore_ascii_case_def to_ascii_lowercase_def
        to_lower_def without_paths_def policy_without_paths_def)
  ultimately show ?thesis
    using csp_redirects_only_relax_paths [of demo_urls "image_csp [SchemeSource ''data'']" RtImage "''data:x''" 0 1]
      csp_redirects_only_relax_paths [of demo_urls "image_csp [SchemeSource ''blob'']" RtImage "''data:x''" 0 1]
    unfolding One_nat_def by blast
qed

text \<open>C31: reports and enforcement agree on every reference that is not one of the names the program gives to inline
  source (\<open>inline\<close>, \<open>style-element:\<close> and \<open>style-attribute:\<close> with anything after them).  Such a reference is allowed
  exactly when every policy on its own allows it; the violations name, in order, the policies that govern the
  resource and block it on their own, the report-only ones in the same way; and a blocked reference that is
  reported by no policy is one that has no URL.\<close>

theorem csp_reports_agree:
  assumes "reference \<noteq> ''inline''" and "\<not> starts_with reference ''style-element:''"
    and "\<not> starts_with reference ''style-attribute:''"
  shows "allows_reference_after_redirects uc p rt reference n
           = list_all (\<lambda>q. allows_reference_after_redirects uc (only p q) rt reference n) (cp_policies p)
       \<and> map pv_serialized (blocking_policy_texts_after_redirects uc hc p rt reference n)
           = map pp_serialized (filter (\<lambda>q. sources_for q rt False \<noteq> None
               \<and> \<not> allows_reference_after_redirects uc (only p q) rt reference n) (cp_policies p))
       \<and> map pv_serialized (report_only_policy_texts_after_redirects uc hc p rt reference n)
           = map pp_serialized (filter (\<lambda>q. sources_for q rt False \<noteq> None
               \<and> \<not> allows_reference_after_redirects uc (only p q) rt reference n) (cp_report_only p))
       \<and> (allows_reference_after_redirects uc p rt reference n
          \<or> blocking_policy_texts_after_redirects uc hc p rt reference n \<noteq> []
          \<or> resource_url_parse uc reference (cp_base_url p) = None)"
proof (intro conjI)
  show all: "allows_reference_after_redirects uc p rt reference n
      = list_all (\<lambda>q. allows_reference_after_redirects uc (only p q) rt reference n) (cp_policies p)"
    by (cases "cp_policies p") (simp_all add: allows_reference_after_redirects_def list_all_iff split: option.split)
  have "\<not> is_inline_reference reference" using assms by (simp add: is_inline_reference_def)
  note v = violating_policy_texts_reference [OF this]
  show b: "map pv_serialized (blocking_policy_texts_after_redirects uc hc p rt reference n)
      = map pp_serialized (filter (\<lambda>q. sources_for q rt False \<noteq> None
          \<and> \<not> allows_reference_after_redirects uc (only p q) rt reference n) (cp_policies p))"
    unfolding blocking_policy_texts_after_redirects_def by (rule v)
  show "map pv_serialized (report_only_policy_texts_after_redirects uc hc p rt reference n)
      = map pp_serialized (filter (\<lambda>q. sources_for q rt False \<noteq> None
          \<and> \<not> allows_reference_after_redirects uc (only p q) rt reference n) (cp_report_only p))"
    unfolding report_only_policy_texts_after_redirects_def by (rule v)
  show "allows_reference_after_redirects uc p rt reference n
      \<or> blocking_policy_texts_after_redirects uc hc p rt reference n \<noteq> []
      \<or> resource_url_parse uc reference (cp_base_url p) = None"
  proof (rule ccontr)
    assume c: "\<not> ?thesis"
    then obtain q where q: "q \<in> set (cp_policies p)"
      "\<not> allows_reference_after_redirects uc (only p q) rt reference n"
      unfolding all by (auto simp: list_all_iff)
    with c have "sources_for q rt False \<noteq> None"
      by (auto simp: allows_reference_after_redirects_def) (metis pp_allows_url_ungoverned not_None_eq)
    with b c q show False by (auto simp: filter_empty_conv)
  qed
qed

definition demo_hashes :: hash_crates where
  "demo_hashes = \<lparr>hc_digest = (\<lambda>_ bs. bs), hc_encode = str_of_bytes\<rparr>"

definition demo_csp :: CspPolicy where
  "demo_csp = image_csp [SeNone]"

lemma csp_reports_agree_witness:
  "map pv_serialized (blocking_policy_texts_after_redirects demo_urls demo_hashes demo_csp RtImage ''data:x'' 0) = [''p'']"
proof -
  have i: "''data:x'' \<noteq> ''inline''" "\<not> starts_with ''data:x'' ''style-element:''"
    "\<not> starts_with ''data:x'' ''style-attribute:''"
    by (simp_all add: starts_with_def)
  show ?thesis
    using csp_reports_agree [OF i, of demo_urls demo_csp RtImage 0 demo_hashes]
    by (simp add: demo_csp_def image_csp_def allows_reference_after_redirects_def demo_data_url sources_for_def
        pp_allows_url_def)
qed

text \<open>The excluded names: an image whose URL is spelled \<open>inline\<close> is reported by every policy that governs images,
  also by those that allow it.\<close>

lemma inline_named_image_is_reported:
  assumes "pp_directives q ''img-src'' = Some sources"
  shows "map pv_serialized (blocking_policy_texts_after_redirects uc hc (only p q) RtImage ''inline'' n)
    = [pp_serialized q]"
  using assms
  by (simp add: blocking_policy_texts_after_redirects_def violating_policy_texts_def is_inline_reference_def
      pp_allows_inline_def sources_for_def Let_def map_filter_simps)


text \<open>C32: the check of inline scripts, styles, event handler attributes and \<open>javascript:\<close> URLs allows what the
  algorithm of the standard allows under the directive that governs the sink in every policy, with one exception: a
  script that a script created is also allowed by a policy whose directive lists \<open>'strict-dynamic'\<close>, whatever
  its nonce and source.  For the other sinks the check is the standard's, and the violations of the enforced policies
  name, in order, exactly the policies that do not allow the source.\<close>

theorem csp_inline_check_meets_standard:
  "allows_inline_source_with_nonce hc p kind source nonce
     = (\<forall>q\<in>set (cp_policies p).
          (case sources_for q (it_resource_type kind) (it_is_attribute kind) of
             None \<Rightarrow> True
           | Some sources \<Rightarrow> inline_matches hc kind source nonce sources
                          \<or> kind = ItDynamicScript \<and> StrictDynamic \<in> set sources))
   \<and> map pv_serialized (fst (inline_policy_violations hc p kind source nonce))
     = map pp_serialized (filter (\<lambda>q.
          (case sources_for q (it_resource_type kind) (it_is_attribute kind) of
             None \<Rightarrow> False
           | Some sources \<Rightarrow> \<not> inline_matches hc kind source nonce sources
                          \<and> \<not> (kind = ItDynamicScript \<and> StrictDynamic \<in> set sources))) (cp_policies p))"
proof (rule conjI)
  show "map pv_serialized (fst (inline_policy_violations hc p kind source nonce))
     = map pp_serialized (filter (\<lambda>q.
          (case sources_for q (it_resource_type kind) (it_is_attribute kind) of
             None \<Rightarrow> False
           | Some sources \<Rightarrow> \<not> inline_matches hc kind source nonce sources
                          \<and> \<not> (kind = ItDynamicScript \<and> StrictDynamic \<in> set sources))) (cp_policies p))"
    by (auto simp: inline_policy_violations_def both_lists_def pp_allows_inline_source_matches comp_def
        intro!: arg_cong [where f = "map pp_serialized"] filter_cong split: option.split)
qed (simp add: allows_inline_source_with_nonce_def list_all_iff pp_allows_inline_source_matches)

lemma csp_inline_check_meets_standard_witness:
  "\<not> allows_inline_source_with_nonce demo_hashes
     \<lparr>cp_policies = [\<lparr>pp_directives = [''script-src'' \<mapsto> [UnsafeInline, Nonce ''abc'']], pp_trusted_types = None,
        pp_require_trusted_types_for_script = False, pp_serialized = ''p''\<rparr>],
      cp_report_only = [], cp_reporting_endpoints = Map.empty, cp_base_url = None\<rparr>
     ItScript ''x'' (Some ''abd'')"
  unfolding csp_inline_check_meets_standard [THEN conjunct1]
  by (auto simp: sources_for_def it_is_attribute_def inline_matches.simps)

text \<open>C33: a printed policy is read back: distinct directives whose sources are keywords, nonces, hashes,
  schemes and host sources (with wildcard, port and path) give the policy with exactly these directives.\<close>

theorem csp_policy_roundtrip:
  assumes "ds \<noteq> []" and "distinct (map fst ds)" and "list_all printable_directive ds"
  shows "parse_policy (show_policy ds)
    = Some \<lparr>pp_directives = map_of ds, pp_trusted_types = None,
            pp_require_trusted_types_for_script = False, pp_serialized = trim (show_policy ds)\<rparr>"
  using assms by (rule parse_show_policy)

lemma csp_policy_roundtrip_witness:
  "map_option (\<lambda>q. pp_directives q ''img-src'')
     (parse_policy (show_policy [(''img-src'', [SelfKeyword, HostSource None ''*.a.b'' (Some 80) (Some ''/X'')])]))
   = Some (Some [SelfKeyword, HostSource None ''*.a.b'' (Some 80) (Some ''/X'')])"
proof -
  have "printable_directive (''img-src'', [SelfKeyword, HostSource None ''*.a.b'' (Some 80) (Some ''/X'')])"
    by (simp add: printable_directive_def directive_name_def host_char_def path_char_def visible_def sf_lower_def
        is_ascii_digit_def starts_with_def)
  then show ?thesis by (subst csp_policy_roundtrip) simp_all
qed

text \<open>C36: a host source that names an IPv6 address in brackets never matches a URL of an
  IPv6 host: the source keeps the address without its brackets, the URL keeps them.\<close>

theorem ipv6_host_source_never_matches:
  assumes "parse_host_port (CHR ''['' # s) = Some (host, port)"
    and "from_standard uc parsed = Inr u" and "uc_host uc parsed = Some (HostIpv6 ip)"
  shows "\<not> source_allows_url base_url (resource_url_from u) redirects (HostSource scheme host port path)"
proof -
  have "u_host u = ''['' @ show_ipv6 ip @ '']''"
    using assms(2,3) by (auto simp: from_standard_def split: if_splits option.splits)
  then have "ru_host (resource_url_from u) = to_ascii_lowercase (''['' @ show_ipv6 ip) @ '']''"
    by (simp add: resource_url_from_def to_ascii_lowercase_def to_lower_eq)
  then have "\<not> host_matches host (ru_host (resource_url_from u))"
    using host_without_bracket [OF parse_host_port_bracketed [OF assms(1)]] by simp
  then show ?thesis by (simp add: Let_def)
qed

definition ipv6_urls :: "string url_crate" where
  "ipv6_urls = demo_urls\<lparr>uc_host := (\<lambda>_. Some (HostIpv6 [0, 0, 0, 0, 0, 0, 0, 1]))\<rparr>"

lemma ipv6_host_source_never_matches_witness:
  "parse_source_expression ''[::1]'' = Some (HostSource None ''::1'' None None)
   \<and> \<not> source_allows_url None (resource_url_from
        \<lparr>u_scheme = ''https'', u_host = ''['' @ show_ipv6 [0, 0, 0, 0, 0, 0, 0, 1] @ '']'', u_port = 443,
         u_path = ''/'', u_query = None\<rparr>) 0 (HostSource None ''::1'' None None)"
proof
  have h: "parse_host_port ''[::1]'' = Some (''::1'', None)"
    by (simp add: parse_host_port_def strip_prefix_def split_once_def)
  have l: "to_ascii_lowercase ''[::1]'' = ''[::1]''" by (simp add: to_ascii_lowercase_def to_lower_eq)
  have "parse_host_source ''[::1]'' = Some (HostSource None ''::1'' None None)"
    by (simp add: parse_host_source_def split_scheme_def l split_once_str.simps starts_with_def split_once_def h)
  moreover have "parse_scheme_source ''[::1]'' = None"
    by (simp add: parse_scheme_source_def l strip_suffix_def suffix_def append_eq_Cons_conv Cons_eq_append_conv)
  ultimately show "parse_source_expression ''[::1]'' = Some (HostSource None ''::1'' None None)"
    by (simp add: parse_source_expression_def unquoted_token)
  show "\<not> source_allows_url None (resource_url_from
        \<lparr>u_scheme = ''https'', u_host = ''['' @ show_ipv6 [0, 0, 0, 0, 0, 0, 0, 1] @ '']'', u_port = 443,
         u_path = ''/'', u_query = None\<rparr>) 0 (HostSource None ''::1'' None None)"
    by (rule ipv6_host_source_never_matches [OF h, where uc = ipv6_urls and parsed = "''''" and ip = "[0, 0, 0, 0, 0, 0, 0, 1]"])
      (simp_all add: from_standard_def ipv6_urls_def demo_urls_def)
qed

end
