(* ===== verification/EventLoop.thy ===== *)
theory EventLoop
  imports StorageState "HOL-Library.Product_Lexorder"
begin

text \<open>
  \<open>src/js/event_loop.rs\<close>: the task queues, timers and animation frames of one script runtime.
  Values and realms of the engine are the types \<open>'v\<close> and \<open>'r\<close>; what a task only carries for the
  host (navigation requests and their security snapshots, visit sources, referrer sources, form
  submissions, worker error reports) is of type \<open>'h\<close>.  Counters of type \<open>u64\<close> are numbers that
  saturate; the virtual clock counts milliseconds.
\<close>

section \<open>Tasks\<close>

datatype TaskSource =
    SrcTimer | SrcDomManipulation | SrcUserInteraction | SrcNetworking | SrcNavigation | SrcRendering
  | SrcPostedMessage | SrcFileReading | SrcFontLoading | SrcGeolocation | SrcWebLocks

definition task_sources :: "TaskSource list" where
  "task_sources =
     [SrcTimer, SrcDomManipulation, SrcUserInteraction, SrcNetworking, SrcNavigation, SrcRendering,
      SrcPostedMessage, SrcFileReading, SrcFontLoading, SrcGeolocation, SrcWebLocks]"

record ScriptSourceLocation =
  sl_file :: string
  sl_line :: nat
  sl_column :: nat

record TimerScheduleMetadata =
  tsm_source :: "ScriptSourceLocation option"

record TimerMetadata =
  tmd_id :: nat
  tmd_source :: "ScriptSourceLocation option"

datatype ('v, 'r, 'h) TimerPayload =
    PlSource string
  | PlCallback 'v "'v list"
  | PlResourceLoad nat
  | PlScriptResourceReady nat
  | PlImageResourceEvent nat nat string string bool "64 word"
  | PlJavascriptDocumentLoad nat nat
  | PlIframeNavigationReady nat nat
  | PlFormSubmission nat nat 'h nat "'h option" "'h option" 'h
  | PlGeolocationTimeout nat
  | PlRealm "('v, 'r, 'h) TimerPayload" 'r nat

datatype ('v, 'r, 'h) Task =
    TaskTimer "('v, 'r, 'h) TimerPayload" "nat option" "TimerMetadata option"
  | TaskGeolocation nat
  | TaskWebLock nat nat bool
  | TaskSecurityPolicyViolation nat "nat option" string
  | TaskNavigation 'h "'h option" "'h option"
  | TaskAuxiliaryNavigate nat string nat nat "'h option" "'h option" 'h
  | TaskPostedMessage 'v 'v
  | TaskWindowPostedMessage nat "(nat \<times> nat) option" "nat option" nat nat "nat option" "nat option"
      "'h option" string string string 'v
  | TaskBroadcastChannelMessage nat string string
  | TaskWorkerMessage nat string 'v
  | TaskServiceWorkerLifecycle nat bool bool
  | TaskServiceWorkerRegistrationRequest nat string string
  | TaskWorkerOwnerMessage nat 'v "'r option" string 'v
  | TaskSharedWorkerMessage nat string
  | TaskSharedWorkerOwnerMessage nat 'v string string
  | TaskWorkerError nat "'v option" "'r option" 'h

record ('v, 'r) AnimationFrameCallback =
  af_callback :: 'v
  af_realm :: "'r option"
  af_document_id :: "nat option"

record ('v, 'r, 'h) TimerTask =
  tt_id :: nat
  tt_payload :: "('v, 'r, 'h) TimerPayload"
  tt_owner_document_id :: "nat option"
  tt_metadata :: "TimerMetadata option"
  tt_next_run_at :: nat
  tt_interval_ms :: nat
  tt_repeat :: bool

type_synonym ('v, 'r, 'h) task_queues = "TaskSource \<rightharpoonup> (nat \<times> ('v, 'r, 'h) Task) list"

record ('v, 'r, 'h) EventLoop =
  el_next_task_id :: nat
  el_queues :: "('v, 'r, 'h) task_queues"
  el_order :: "(nat \<times> TaskSource) list"
  el_next_timer_id :: nat
  el_now_ms :: nat
  el_timers :: "('v, 'r, 'h) TimerTask list"
  el_next_animation_frame_id :: nat
  el_animation_frame_order :: "nat list"
  el_animation_frame_callbacks :: "nat \<rightharpoonup> ('v, 'r) AnimationFrameCallback"

definition event_loop_default :: "('v, 'r, 'h) EventLoop" where
  "event_loop_default =
     \<lparr>el_next_task_id = 1, el_queues = Map.empty, el_order = [], el_next_timer_id = 1, el_now_ms = 0,
      el_timers = [], el_next_animation_frame_id = 0, el_animation_frame_order = [],
      el_animation_frame_callbacks = Map.empty\<rparr>"

section \<open>Garbage collection roots\<close>

fun trace_timer_payload :: "('v, 'r, 'h) TimerPayload \<Rightarrow> 'v list" where
  "trace_timer_payload (PlCallback callback args) = callback # args"
| "trace_timer_payload (PlRealm payload _ _) = trace_timer_payload payload"
| "trace_timer_payload _ = []"

fun trace_task :: "('v, 'r, 'h) Task \<Rightarrow> 'v list" where
  "trace_task (TaskTimer payload _ _) = trace_timer_payload payload"
| "trace_task (TaskPostedMessage port data) = [port, data]"
| "trace_task (TaskWindowPostedMessage _ _ _ _ _ _ _ _ _ _ _ ports) = [ports]"
| "trace_task (TaskWorkerMessage _ _ ports) = [ports]"
| "trace_task (TaskWorkerOwnerMessage _ owner _ _ ports) = [owner, ports]"
| "trace_task (TaskSharedWorkerOwnerMessage _ port _ _) = [port]"
| "trace_task (TaskWorkerError _ (Some owner) _ _) = [owner]"
| "trace_task _ = []"

text \<open>A hash map visits its values in an order of its own: what is traced is a set.\<close>

definition trace_event_loop :: "('v, 'r, 'h) EventLoop \<Rightarrow> 'v set" where
  "trace_event_loop e =
     (\<Union>queue \<in> ran (el_queues e). \<Union>(_, task) \<in> set queue. set (trace_task task))
     \<union> (\<Union>timer \<in> set (el_timers e). set (trace_timer_payload (tt_payload timer)))
     \<union> af_callback ` ran (el_animation_frame_callbacks e)"

section \<open>Queueing\<close>

definition queue_of :: "('v, 'r, 'h) task_queues \<Rightarrow> TaskSource \<Rightarrow> (nat \<times> ('v, 'r, 'h) Task) list" where
  "queue_of q source = (case q source of Some ts \<Rightarrow> ts | None \<Rightarrow> [])"

definition el_enqueue ::
  "TaskSource \<Rightarrow> ('v, 'r, 'h) Task \<Rightarrow> ('v, 'r, 'h) EventLoop \<Rightarrow> ('v, 'r, 'h) EventLoop" where
  "el_enqueue source task e =
     (let i = el_next_task_id e in
      e\<lparr>el_next_task_id := saturating_add i 1,
        el_queues := (el_queues e)(source \<mapsto> queue_of (el_queues e) source @ [(i, task)]),
        el_order := el_order e @ [(i, source)]\<rparr>)"

fun timer_source :: "('v, 'r, 'h) TimerPayload \<Rightarrow> TaskSource" where
  "timer_source (PlResourceLoad _) = SrcNetworking"
| "timer_source (PlScriptResourceReady _) = SrcNetworking"
| "timer_source (PlJavascriptDocumentLoad _ _) = SrcNetworking"
| "timer_source (PlIframeNavigationReady _ _) = SrcNetworking"
| "timer_source (PlFormSubmission _ _ _ _ _ _ _) = SrcNetworking"
| "timer_source (PlImageResourceEvent _ _ _ _ _ _) = SrcDomManipulation"
| "timer_source (PlGeolocationTimeout _) = SrcGeolocation"
| "timer_source _ = SrcTimer"

definition enqueue_timer_for_document_with_metadata ::
  "('v, 'r, 'h) TimerPayload \<Rightarrow> nat option \<Rightarrow> TimerMetadata option \<Rightarrow> ('v, 'r, 'h) EventLoop \<Rightarrow> ('v, 'r, 'h) EventLoop"
where
  "enqueue_timer_for_document_with_metadata payload owner metadata =
     el_enqueue (timer_source payload) (TaskTimer payload owner metadata)"

definition enqueue_timer_for_document ::
  "('v, 'r, 'h) TimerPayload \<Rightarrow> nat option \<Rightarrow> ('v, 'r, 'h) EventLoop \<Rightarrow> ('v, 'r, 'h) EventLoop" where
  "enqueue_timer_for_document payload owner = enqueue_timer_for_document_with_metadata payload owner None"

definition enqueue_timer ::
  "('v, 'r, 'h) TimerPayload \<Rightarrow> ('v, 'r, 'h) EventLoop \<Rightarrow> ('v, 'r, 'h) EventLoop" where
  "enqueue_timer payload = enqueue_timer_for_document payload None"

definition enqueue_web_lock :: "nat \<Rightarrow> nat \<Rightarrow> bool \<Rightarrow> ('v, 'r, 'h) EventLoop \<Rightarrow> ('v, 'r, 'h) EventLoop" where
  "enqueue_web_lock document_id request_id stolen = el_enqueue SrcWebLocks (TaskWebLock document_id request_id stolen)"

definition enqueue_security_policy_violation ::
  "nat \<Rightarrow> nat option \<Rightarrow> string \<Rightarrow> ('v, 'r, 'h) EventLoop \<Rightarrow> ('v, 'r, 'h) EventLoop" where
  "enqueue_security_policy_violation document_id element_id payload =
     el_enqueue SrcNetworking (TaskSecurityPolicyViolation document_id element_id payload)"

definition enqueue_navigation_from_source ::
  "'h \<Rightarrow> 'h option \<Rightarrow> 'h option \<Rightarrow> ('v, 'r, 'h) EventLoop \<Rightarrow> ('v, 'r, 'h) EventLoop" where
  "enqueue_navigation_from_source request source security =
     el_enqueue SrcNavigation (TaskNavigation request source security)"

definition enqueue_navigation :: "'h \<Rightarrow> ('v, 'r, 'h) EventLoop \<Rightarrow> ('v, 'r, 'h) EventLoop" where
  "enqueue_navigation request = enqueue_navigation_from_source request None None"

definition enqueue_auxiliary_navigation ::
  "nat \<Rightarrow> string \<Rightarrow> nat \<Rightarrow> nat \<Rightarrow> 'h option \<Rightarrow> 'h option \<Rightarrow> 'h \<Rightarrow> ('v, 'r, 'h) EventLoop \<Rightarrow> ('v, 'r, 'h) EventLoop"
where
  "enqueue_auxiliary_navigation i url client group_id security source referrer =
     el_enqueue SrcNavigation (TaskAuxiliaryNavigate i url client group_id security source referrer)"

definition enqueue_file_reading ::
  "('v, 'r, 'h) TimerPayload \<Rightarrow> ('v, 'r, 'h) EventLoop \<Rightarrow> ('v, 'r, 'h) EventLoop" where
  "enqueue_file_reading payload = el_enqueue SrcFileReading (TaskTimer payload None None)"

definition enqueue_networking ::
  "('v, 'r, 'h) TimerPayload \<Rightarrow> ('v, 'r, 'h) EventLoop \<Rightarrow> ('v, 'r, 'h) EventLoop" where
  "enqueue_networking payload = el_enqueue SrcNetworking (TaskTimer payload None None)"

definition enqueue_networking_for_document ::
  "('v, 'r, 'h) TimerPayload \<Rightarrow> nat \<Rightarrow> ('v, 'r, 'h) EventLoop \<Rightarrow> ('v, 'r, 'h) EventLoop" where
  "enqueue_networking_for_document payload document = el_enqueue SrcNetworking (TaskTimer payload (Some document) None)"

definition enqueue_font_loading ::
  "('v, 'r, 'h) TimerPayload \<Rightarrow> nat \<Rightarrow> ('v, 'r, 'h) EventLoop \<Rightarrow> ('v, 'r, 'h) EventLoop" where
  "enqueue_font_loading payload document = el_enqueue SrcFontLoading (TaskTimer payload (Some document) None)"

definition enqueue_user_interaction ::
  "('v, 'r, 'h) TimerPayload \<Rightarrow> nat \<Rightarrow> ('v, 'r, 'h) EventLoop \<Rightarrow> ('v, 'r, 'h) EventLoop" where
  "enqueue_user_interaction payload document = el_enqueue SrcUserInteraction (TaskTimer payload (Some document) None)"

definition enqueue_dom_manipulation ::
  "('v, 'r, 'h) TimerPayload \<Rightarrow> ('v, 'r, 'h) EventLoop \<Rightarrow> ('v, 'r, 'h) EventLoop" where
  "enqueue_dom_manipulation payload = el_enqueue SrcDomManipulation (TaskTimer payload None None)"

definition enqueue_geolocation :: "nat \<Rightarrow> ('v, 'r, 'h) EventLoop \<Rightarrow> ('v, 'r, 'h) EventLoop" where
  "enqueue_geolocation request_id = el_enqueue SrcGeolocation (TaskGeolocation request_id)"

definition enqueue_posted_message :: "'v \<Rightarrow> 'v \<Rightarrow> ('v, 'r, 'h) EventLoop \<Rightarrow> ('v, 'r, 'h) EventLoop" where
  "enqueue_posted_message port data = el_enqueue SrcPostedMessage (TaskPostedMessage port data)"

definition enqueue_window_posted_message ::
  "('v, 'r, 'h) Task \<Rightarrow> ('v, 'r, 'h) EventLoop \<Rightarrow> ('v, 'r, 'h) EventLoop" where
  "enqueue_window_posted_message task = el_enqueue SrcPostedMessage task"

definition enqueue_broadcast_channel_message ::
  "nat \<Rightarrow> string \<Rightarrow> string \<Rightarrow> ('v, 'r, 'h) EventLoop \<Rightarrow> ('v, 'r, 'h) EventLoop" where
  "enqueue_broadcast_channel_message channel_id data origin =
     el_enqueue SrcPostedMessage (TaskBroadcastChannelMessage channel_id data origin)"

definition enqueue_worker_message :: "nat \<Rightarrow> string \<Rightarrow> 'v \<Rightarrow> ('v, 'r, 'h) EventLoop \<Rightarrow> ('v, 'r, 'h) EventLoop" where
  "enqueue_worker_message worker_id data ports = el_enqueue SrcPostedMessage (TaskWorkerMessage worker_id data ports)"

definition enqueue_service_worker_registration_request ::
  "nat \<Rightarrow> string \<Rightarrow> string \<Rightarrow> ('v, 'r, 'h) EventLoop \<Rightarrow> ('v, 'r, 'h) EventLoop" where
  "enqueue_service_worker_registration_request worker_id request operation =
     el_enqueue SrcDomManipulation (TaskServiceWorkerRegistrationRequest worker_id request operation)"

definition enqueue_service_worker_lifecycle ::
  "nat \<Rightarrow> bool \<Rightarrow> bool \<Rightarrow> ('v, 'r, 'h) EventLoop \<Rightarrow> ('v, 'r, 'h) EventLoop" where
  "enqueue_service_worker_lifecycle worker_id installing failed =
     el_enqueue SrcDomManipulation (TaskServiceWorkerLifecycle worker_id installing failed)"

definition enqueue_worker_owner_message ::
  "nat \<Rightarrow> 'v \<Rightarrow> 'r option \<Rightarrow> string \<Rightarrow> 'v \<Rightarrow> ('v, 'r, 'h) EventLoop \<Rightarrow> ('v, 'r, 'h) EventLoop" where
  "enqueue_worker_owner_message worker_id owner realm data ports =
     el_enqueue SrcPostedMessage (TaskWorkerOwnerMessage worker_id owner realm data ports)"

definition enqueue_shared_worker_message :: "nat \<Rightarrow> string \<Rightarrow> ('v, 'r, 'h) EventLoop \<Rightarrow> ('v, 'r, 'h) EventLoop" where
  "enqueue_shared_worker_message connection_id data =
     el_enqueue SrcPostedMessage (TaskSharedWorkerMessage connection_id data)"

definition enqueue_shared_worker_owner_message ::
  "nat \<Rightarrow> 'v \<Rightarrow> string \<Rightarrow> string \<Rightarrow> ('v, 'r, 'h) EventLoop \<Rightarrow> ('v, 'r, 'h) EventLoop" where
  "enqueue_shared_worker_owner_message connection_id port data origin =
     el_enqueue SrcPostedMessage (TaskSharedWorkerOwnerMessage connection_id port data origin)"

definition enqueue_worker_error ::
  "nat \<Rightarrow> 'v option \<Rightarrow> 'r option \<Rightarrow> 'h \<Rightarrow> ('v, 'r, 'h) EventLoop \<Rightarrow> ('v, 'r, 'h) EventLoop" where
  "enqueue_worker_error worker_id owner realm report =
     el_enqueue SrcDomManipulation (TaskWorkerError worker_id owner realm report)"

text \<open>The owner of errors that were queued before the worker's object existed.\<close>

fun bind_owner :: "nat \<Rightarrow> 'v \<Rightarrow> 'r option \<Rightarrow> ('v, 'r, 'h) Task \<Rightarrow> ('v, 'r, 'h) Task" where
  "bind_owner worker_id object realm (TaskWorkerError i None r report) =
     (if i = worker_id then TaskWorkerError i (Some object) realm report
      else TaskWorkerError i None r report)"
| "bind_owner worker_id object realm task = task"

definition bind_worker_error_owner ::
  "nat \<Rightarrow> 'v \<Rightarrow> 'r option \<Rightarrow> ('v, 'r, 'h) EventLoop \<Rightarrow> ('v, 'r, 'h) EventLoop" where
  "bind_worker_error_owner worker_id object realm e =
     (case el_queues e SrcDomManipulation of
        None \<Rightarrow> e
      | Some queue \<Rightarrow>
          e\<lparr>el_queues := (el_queues e)
              (SrcDomManipulation \<mapsto> map (apsnd (bind_owner worker_id object realm)) queue)\<rparr>)"

section \<open>Taking tasks\<close>

fun pop_loop ::
  "('v, 'r, 'h) task_queues \<Rightarrow> (nat \<times> TaskSource) list \<Rightarrow>
   (TaskSource \<times> ('v, 'r, 'h) Task) option \<times> ('v, 'r, 'h) task_queues \<times> (nat \<times> TaskSource) list" where
  "pop_loop q [] = (None, q, [])"
| "pop_loop q ((expected_id, source) # order) =
     (case q source of
        None \<Rightarrow> (None, q, order)
      | Some [] \<Rightarrow> pop_loop q order
      | Some ((i, task) # queue) \<Rightarrow> (Some (source, task), q(source \<mapsto> queue), order))"

definition pop_task ::
  "('v, 'r, 'h) EventLoop \<Rightarrow> (TaskSource \<times> ('v, 'r, 'h) Task) option \<times> ('v, 'r, 'h) EventLoop" where
  "pop_task e =
     (case pop_loop (el_queues e) (el_order e) of
        (result, q, order) \<Rightarrow> (result, e\<lparr>el_queues := q, el_order := order\<rparr>))"

fun is_navigation :: "('v, 'r, 'h) Task \<Rightarrow> bool" where
  "is_navigation (TaskNavigation _ _ _) = True"
| "is_navigation _ = False"

text \<open>The first element of a list that satisfies a predicate, and the list without it.\<close>

fun remove_position :: "('a \<Rightarrow> bool) \<Rightarrow> 'a list \<Rightarrow> ('a \<times> 'a list) option" where
  "remove_position P [] = None"
| "remove_position P (x # xs) =
     (if P x then Some (x, xs) else map_option (apsnd ((#) x)) (remove_position P xs))"

definition pop_navigation_task ::
  "('v, 'r, 'h) EventLoop \<Rightarrow> ('v, 'r, 'h) Task option \<times> ('v, 'r, 'h) EventLoop" where
  "pop_navigation_task e =
     (case el_queues e SrcNavigation of
        None \<Rightarrow> (None, e)
      | Some queue \<Rightarrow>
          (case remove_position (\<lambda>(_, task). is_navigation task) queue of
             None \<Rightarrow> (None, e)
           | Some ((i, task), queue) \<Rightarrow>
               let e = e\<lparr>el_queues := (el_queues e)(SrcNavigation \<mapsto> queue)\<rparr> in
               (case remove_position (\<lambda>(queued_id, _). queued_id = i) (el_order e) of
                  None \<Rightarrow> (None, e)
                | Some (_, order) \<Rightarrow> (Some task, e\<lparr>el_order := order\<rparr>))))"

section \<open>Timers\<close>

definition schedule_timer_with_metadata ::
  "('v, 'r, 'h) TimerPayload \<Rightarrow> nat \<Rightarrow> bool \<Rightarrow> nat option \<Rightarrow> TimerScheduleMetadata option \<Rightarrow>
   ('v, 'r, 'h) EventLoop \<Rightarrow> nat \<times> ('v, 'r, 'h) EventLoop" where
  "schedule_timer_with_metadata payload delay_ms repeat owner metadata e =
     (let i = el_next_timer_id e in
      (i, e\<lparr>el_next_timer_id := saturating_add i 1,
            el_timers := el_timers e @
              [\<lparr>tt_id = i, tt_payload = payload, tt_owner_document_id = owner,
                tt_metadata = map_option (\<lambda>m. \<lparr>tmd_id = i, tmd_source = tsm_source m\<rparr>) metadata,
                tt_next_run_at = saturating_add (el_now_ms e) delay_ms, tt_interval_ms = delay_ms,
                tt_repeat = repeat\<rparr>]\<rparr>))"

definition schedule_timer ::
  "('v, 'r, 'h) TimerPayload \<Rightarrow> nat \<Rightarrow> bool \<Rightarrow> nat option \<Rightarrow>
   ('v, 'r, 'h) EventLoop \<Rightarrow> nat \<times> ('v, 'r, 'h) EventLoop" where
  "schedule_timer payload delay_ms repeat owner = schedule_timer_with_metadata payload delay_ms repeat owner None"

definition schedule_script_timer ::
  "('v, 'r, 'h) TimerPayload \<Rightarrow> nat \<Rightarrow> bool \<Rightarrow> nat option \<Rightarrow> TimerScheduleMetadata option \<Rightarrow>
   ('v, 'r, 'h) EventLoop \<Rightarrow> nat \<times> ('v, 'r, 'h) EventLoop" where
  "schedule_script_timer = schedule_timer_with_metadata"

definition clear_timer :: "nat \<Rightarrow> ('v, 'r, 'h) EventLoop \<Rightarrow> ('v, 'r, 'h) EventLoop" where
  "clear_timer i e = e\<lparr>el_timers := filter (\<lambda>t. tt_id t \<noteq> i) (el_timers e)\<rparr>"

text \<open>The timers that are due, in the order in which they run.\<close>

definition ready_timers :: "nat \<Rightarrow> ('v, 'r, 'h) TimerTask list \<Rightarrow> ('v, 'r, 'h) TimerTask list" where
  "ready_timers now ts =
     sort_key (\<lambda>t. (tt_next_run_at t, tt_id t)) (filter (\<lambda>t. tt_next_run_at t \<le> now) ts)"

definition rescheduled :: "nat \<Rightarrow> ('v, 'r, 'h) TimerTask \<Rightarrow> ('v, 'r, 'h) TimerTask" where
  "rescheduled now t =
     (if tt_next_run_at t \<le> now \<and> tt_repeat t
      then t\<lparr>tt_next_run_at := saturating_add now (tt_interval_ms t)\<rparr> else t)"

definition advance :: "nat \<Rightarrow> ('v, 'r, 'h) EventLoop \<Rightarrow> ('v, 'r, 'h) EventLoop" where
  "advance elapsed_ms e =
     (let now = saturating_add (el_now_ms e) elapsed_ms;
          ready = ready_timers now (el_timers e);
          kept = filter (\<lambda>t. tt_repeat t \<or> tt_next_run_at t > now) (map (rescheduled now) (el_timers e))
      in fold (\<lambda>t. enqueue_timer_for_document_with_metadata (tt_payload t) (tt_owner_document_id t) (tt_metadata t))
           ready (e\<lparr>el_now_ms := now, el_timers := kept\<rparr>))"

definition next_timer_delay_ms :: "('v, 'r, 'h) EventLoop \<Rightarrow> nat option" where
  "next_timer_delay_ms e =
     (if el_order e \<noteq> [] then Some 0
      else
        case map (\<lambda>t. tt_next_run_at t - el_now_ms e) (el_timers e) of
          [] \<Rightarrow> None
        | d # ds \<Rightarrow> Some (fold min ds d))"

fun is_timer_task :: "('v, 'r, 'h) Task \<Rightarrow> bool" where
  "is_timer_task (TaskTimer _ _ _) = True"
| "is_timer_task _ = False"

definition has_pending_timers :: "('v, 'r, 'h) EventLoop \<Rightarrow> bool" where
  "has_pending_timers e \<longleftrightarrow>
     el_timers e \<noteq> []
     \<or> list_ex (\<lambda>s. list_ex (\<lambda>(_, task). is_timer_task task) (queue_of (el_queues e) s)) task_sources"

fun is_violation_task :: "('v, 'r, 'h) Task \<Rightarrow> bool" where
  "is_violation_task (TaskSecurityPolicyViolation _ _ _) = True"
| "is_violation_task _ = False"

definition has_pending_security_reporting_tasks :: "('v, 'r, 'h) EventLoop \<Rightarrow> bool" where
  "has_pending_security_reporting_tasks e =
     list_ex (\<lambda>(_, task). is_violation_task task) (queue_of (el_queues e) SrcNetworking)"

fun is_geolocation_task :: "('v, 'r, 'h) Task \<Rightarrow> bool" where
  "is_geolocation_task (TaskGeolocation _) = True"
| "is_geolocation_task _ = False"

definition has_pending_geolocation_tasks :: "('v, 'r, 'h) EventLoop \<Rightarrow> bool" where
  "has_pending_geolocation_tasks e =
     list_ex (\<lambda>(_, task). is_geolocation_task task) (queue_of (el_queues e) SrcGeolocation)"

section \<open>Animation frames\<close>

definition schedule_animation_frame_with_realm ::
  "'v \<Rightarrow> 'r option \<Rightarrow> nat option \<Rightarrow> ('v, 'r, 'h) EventLoop \<Rightarrow> nat \<times> ('v, 'r, 'h) EventLoop" where
  "schedule_animation_frame_with_realm callback realm document_id e =
     (let i = saturating_add (el_next_animation_frame_id e) 1 in
      (i, e\<lparr>el_next_animation_frame_id := i,
            el_animation_frame_order := el_animation_frame_order e @ [i],
            el_animation_frame_callbacks := (el_animation_frame_callbacks e)
              (i \<mapsto> \<lparr>af_callback = callback, af_realm = realm, af_document_id = document_id\<rparr>)\<rparr>))"

definition schedule_animation_frame ::
  "'v \<Rightarrow> nat option \<Rightarrow> ('v, 'r, 'h) EventLoop \<Rightarrow> nat \<times> ('v, 'r, 'h) EventLoop" where
  "schedule_animation_frame callback owner = schedule_animation_frame_with_realm callback None owner"

definition cancel_animation_frame :: "nat \<Rightarrow> ('v, 'r, 'h) EventLoop \<Rightarrow> ('v, 'r, 'h) EventLoop" where
  "cancel_animation_frame i e =
     e\<lparr>el_animation_frame_callbacks := (el_animation_frame_callbacks e)(i := None)\<rparr>"

text \<open>The time stamp is the clock; its conversion to a floating-point number is the caller's.\<close>

definition begin_animation_frame :: "('v, 'r, 'h) EventLoop \<Rightarrow> (nat \<times> nat list) \<times> ('v, 'r, 'h) EventLoop" where
  "begin_animation_frame e =
     ((el_now_ms e, el_animation_frame_order e), e\<lparr>el_animation_frame_order := []\<rparr>)"

definition take_animation_frame_callback ::
  "nat \<Rightarrow> ('v, 'r, 'h) EventLoop \<Rightarrow> ('v, 'r) AnimationFrameCallback option \<times> ('v, 'r, 'h) EventLoop" where
  "take_animation_frame_callback i e =
     (el_animation_frame_callbacks e i, cancel_animation_frame i e)"

definition has_pending_animation_frames :: "('v, 'r, 'h) EventLoop \<Rightarrow> bool" where
  "has_pending_animation_frames e \<longleftrightarrow> el_animation_frame_order e \<noteq> []"

section \<open>Cancellation\<close>

text \<open>The tasks that satisfy a predicate leave their queues, and their entries leave the order.\<close>

definition retain_queues ::
  "(('v, 'r, 'h) Task \<Rightarrow> bool) \<Rightarrow> ('v, 'r, 'h) task_queues \<Rightarrow> ('v, 'r, 'h) task_queues" where
  "retain_queues cancelled q = (\<lambda>s. map_option (filter (\<lambda>(_, task). \<not> cancelled task)) (q s))"

definition cancelled_ids ::
  "(('v, 'r, 'h) Task \<Rightarrow> bool) \<Rightarrow> ('v, 'r, 'h) task_queues \<Rightarrow> nat set" where
  "cancelled_ids cancelled q =
     set (concat (map (\<lambda>s. map fst (filter (\<lambda>(_, task). cancelled task) (queue_of q s))) task_sources))"

definition cancel_queued ::
  "(('v, 'r, 'h) Task \<Rightarrow> bool) \<Rightarrow> ('v, 'r, 'h) EventLoop \<Rightarrow> ('v, 'r, 'h) EventLoop" where
  "cancel_queued cancelled e =
     e\<lparr>el_queues := retain_queues cancelled (el_queues e),
       el_order := filter (\<lambda>(i, _). i \<notin> cancelled_ids cancelled (el_queues e)) (el_order e)\<rparr>"

fun loads_for_nodes :: "nat set \<Rightarrow> ('v, 'r, 'h) Task \<Rightarrow> bool" where
  "loads_for_nodes ns (TaskTimer (PlResourceLoad n) _ _) = (n \<in> ns)"
| "loads_for_nodes ns (TaskTimer (PlImageResourceEvent n _ _ _ _ _) _ _) = (n \<in> ns)"
| "loads_for_nodes ns (TaskTimer (PlFormSubmission n _ _ _ _ _ _) _ _) = (n \<in> ns)"
| "loads_for_nodes ns (TaskTimer (PlIframeNavigationReady n _) _ _) = (n \<in> ns)"
| "loads_for_nodes ns (TaskTimer (PlJavascriptDocumentLoad n _) _ _) = (n \<in> ns)"
| "loads_for_nodes ns _ = False"

definition cancel_resource_loads_for_nodes ::
  "nat set \<Rightarrow> ('v, 'r, 'h) EventLoop \<Rightarrow> ('v, 'r, 'h) EventLoop" where
  "cancel_resource_loads_for_nodes node_ids = cancel_queued (loads_for_nodes node_ids)"

fun owned_task :: "nat \<Rightarrow> ('v, 'r, 'h) Task \<Rightarrow> bool" where
  "owned_task d (TaskTimer _ owner _) = (owner = Some d)"
| "owned_task d (TaskWebLock d' _ _) = (d' = d)"
| "owned_task d (TaskSecurityPolicyViolation d' _ _) = (d' = d)"
| "owned_task d _ = False"

definition owned_frame :: "nat \<Rightarrow> ('v, 'r, 'h) EventLoop \<Rightarrow> nat \<Rightarrow> bool" where
  "owned_frame d e i =
     (case el_animation_frame_callbacks e i of None \<Rightarrow> False | Some c \<Rightarrow> af_document_id c = Some d)"

definition cancel_tasks_for_document :: "nat \<Rightarrow> ('v, 'r, 'h) EventLoop \<Rightarrow> ('v, 'r, 'h) EventLoop" where
  "cancel_tasks_for_document d e =
     (let e1 = cancel_queued (owned_task d) (e\<lparr>el_timers := filter (\<lambda>t. tt_owner_document_id t \<noteq> Some d) (el_timers e)\<rparr>)
      in e1\<lparr>el_animation_frame_callbacks :=
               (\<lambda>i. if owned_frame d e1 i then None else el_animation_frame_callbacks e1 i),
            el_animation_frame_order := filter (\<lambda>i. \<not> owned_frame d e1 i) (el_animation_frame_order e1)\<rparr>)"

end
