(* ===== verification/EventLoopProps.thy ===== *)
theory EventLoopProps
  imports EventLoop
begin

text \<open>
  Properties of the event loop.  The queues of all task sources together with the order of
  enqueueing stand for one list of tasks, the agenda; every operation is the obvious operation on that list.
\<close>

section \<open>The agenda\<close>

text \<open>The tasks in the order in which they were enqueued, each with its source.\<close>

definition agenda :: "('v, 'r, 'h) EventLoop \<Rightarrow> (TaskSource \<times> ('v, 'r, 'h) Task) list" where
  "agenda e = map (\<lambda>(i, s). (s, the (map_of (queue_of (el_queues e) s) i))) (el_order e)"

type_synonym ('v, 'r, 'h) agenda_entry = "nat \<times> TaskSource \<times> ('v, 'r, 'h) Task"

definition represents :: "('v, 'r, 'h) EventLoop \<Rightarrow> ('v, 'r, 'h) agenda_entry list \<Rightarrow> bool" where
  "represents e l \<longleftrightarrow>
     el_order e = map (\<lambda>(i, s, t). (i, s)) l
     \<and> (\<forall>s. queue_of (el_queues e) s = map (\<lambda>(i, s', t). (i, t)) (filter (\<lambda>(i, s', t). s' = s) l))
     \<and> distinct (map fst l)
     \<and> (\<forall>x\<in>set l. fst x < el_next_task_id e)"

lemma representsD:
  assumes "represents e l"
  shows "el_order e = map (\<lambda>(i, s, t). (i, s)) l"
    and "queue_of (el_queues e) s = map (\<lambda>(i, s', t). (i, t)) (filter (\<lambda>(i, s', t). s' = s) l)"
    and "distinct (map fst l)"
    and "x \<in> set l \<Longrightarrow> fst x < el_next_task_id e"
  using assms by (auto simp: represents_def)

lemma map_of_queue:
  "distinct (map fst l) \<Longrightarrow> (i, s, t) \<in> set l \<Longrightarrow>
   map_of (map (\<lambda>(i, s', t). (i, t)) (filter (\<lambda>(i, s', t). s' = s) l)) i = Some t"
proof (induction l)
  case (Cons x l)
  obtain j s' t' where x: "x = (j, s', t')" by (metis surj_pair)
  show ?case
  proof (cases "(i, s, t) = x")
    case False
    then have "(i, s, t) \<in> set l" using Cons.prems by auto
    moreover from this have "j \<noteq> i" using Cons.prems(1) x by (auto intro: rev_image_eqI)
    ultimately show ?thesis using Cons x by simp
  qed (simp add: x)
qed simp

lemma agenda_represents: "represents e l \<Longrightarrow> agenda e = map snd l"
  unfolding agenda_def representsD(1) map_map
proof (rule map_cong [OF refl])
  fix x
  assume r: "represents e l" and x: "x \<in> set l"
  obtain i s t where i: "x = (i, s, t)" by (metis surj_pair)
  have "map_of (queue_of (el_queues e) s) i = Some t"
    unfolding representsD(2) [OF r] by (rule map_of_queue [OF representsD(3) [OF r]]) (use x i in simp)
  then show "((\<lambda>(i, s). (s, the (map_of (queue_of (el_queues e) s) i))) \<circ> (\<lambda>(i, s, t). (i, s))) x = snd x"
    by (simp add: i)
qed

lemma represents_default: "represents event_loop_default []"
  by (simp add: represents_def event_loop_default_def queue_of_def)

text \<open>Operations that leave the queues alone.\<close>

lemma represents_cong:
  "el_order e' = el_order e \<Longrightarrow> el_queues e' = el_queues e \<Longrightarrow> el_next_task_id e' = el_next_task_id e \<Longrightarrow>
   represents e' l = represents e l"
  by (simp add: represents_def)

lemma queue_of_upd [simp]: "queue_of (q(s \<mapsto> ts)) s' = (if s' = s then ts else queue_of q s')"
  by (simp add: queue_of_def)

lemma represents_enqueue:
  assumes "represents e l" "el_next_task_id e < u64_max"
  shows "represents (el_enqueue s t e) (l @ [(el_next_task_id e, s, t)])"
    and "el_next_task_id (el_enqueue s t e) = Suc (el_next_task_id e)"
proof -
  have n: "saturating_add (el_next_task_id e) 1 = Suc (el_next_task_id e)"
    using assms(2) by (simp add: saturating_add_def)
  have "el_next_task_id e \<notin> set (map fst l)" using representsD(4) [OF assms(1)] by (metis imageE less_irrefl list.set_map)
  then show "represents (el_enqueue s t e) (l @ [(el_next_task_id e, s, t)])"
    using assms(1) by (auto simp: represents_def el_enqueue_def n [simplified] Let_def less_Suc_eq)
  show "el_next_task_id (el_enqueue s t e) = Suc (el_next_task_id e)" by (simp add: el_enqueue_def n [simplified] Let_def)
qed

lemma queue_of_Cons: "queue_of q s = x # xs \<longleftrightarrow> q s = Some (x # xs)"
  by (auto simp: queue_of_def split: option.split)

lemma represents_pop_Nil: "represents e [] \<Longrightarrow> pop_task e = (None, e)"
  by (simp add: represents_def pop_task_def)

lemma represents_pop_Cons:
  assumes "represents e ((i, s, t) # l)"
  shows "fst (pop_task e) = Some (s, t) \<and> represents (snd (pop_task e)) l"
proof -
  have "queue_of (el_queues e) s
      = (i, t) # map (\<lambda>(i, s', t). (i, t)) (filter (\<lambda>(i, s', t). s' = s) l)"
    using representsD(2) [OF assms] by simp
  then have q: "el_queues e s = Some ((i, t) # map (\<lambda>(i, s', t). (i, t)) (filter (\<lambda>(i, s', t). s' = s) l))"
    by (simp add: queue_of_Cons)
  then show ?thesis
    using assms by (auto simp: pop_task_def represents_def)
qed

lemma remove_position_None: "remove_position P xs = None \<longleftrightarrow> (\<forall>x\<in>set xs. \<not> P x)"
  by (induction xs) auto

lemma remove_position_Some:
  "remove_position P xs = Some (y, ys) \<longleftrightarrow>
     (\<exists>us vs. xs = us @ y # vs \<and> ys = us @ vs \<and> P y \<and> (\<forall>u\<in>set us. \<not> P u))"
proof (induction xs arbitrary: ys)
  case (Cons x xs)
  show ?case
  proof (cases "P x")
    case True
    then have "x # xs = us @ y # vs \<and> (\<forall>u\<in>set us. \<not> P u) \<and> P y \<longleftrightarrow> us = [] \<and> y = x \<and> vs = xs" for us vs
      by (cases us) auto
    then have "(\<exists>us vs. x # xs = us @ y # vs \<and> ys = us @ vs \<and> P y \<and> (\<forall>u\<in>set us. \<not> P u))
        \<longleftrightarrow> y = x \<and> ys = xs" by (metis append_Nil)
    then show ?thesis using True by auto
  next
    case False
    have "remove_position P (x # xs) = Some (y, ys) \<longleftrightarrow>
        (\<exists>zs. remove_position P xs = Some (y, zs) \<and> ys = x # zs)"
      using False by auto
    also have "\<dots> \<longleftrightarrow> (\<exists>us vs. x # xs = us @ y # vs \<and> ys = us @ vs \<and> P y \<and> (\<forall>u\<in>set us. \<not> P u))"
    proof
      assume "\<exists>zs. remove_position P xs = Some (y, zs) \<and> ys = x # zs"
      then obtain us vs where "xs = us @ y # vs" "ys = x # us @ vs" "P y" "\<forall>u\<in>set us. \<not> P u"
        by (auto simp: Cons.IH)
      then show "\<exists>us vs. x # xs = us @ y # vs \<and> ys = us @ vs \<and> P y \<and> (\<forall>u\<in>set us. \<not> P u)"
        using False by (intro exI [of _ "x # us"] exI [of _ vs]) simp
    next
      assume "\<exists>us vs. x # xs = us @ y # vs \<and> ys = us @ vs \<and> P y \<and> (\<forall>u\<in>set us. \<not> P u)"
      then obtain us vs where u: "x # xs = us @ y # vs" "ys = us @ vs" "P y" "\<forall>u\<in>set us. \<not> P u" by blast
      then obtain us' where w: "us = x # us'" using False by (cases us) auto
      have "remove_position P xs = Some (y, us' @ vs)"
        unfolding Cons.IH using u w by auto
      then show "\<exists>zs. remove_position P xs = Some (y, zs) \<and> ys = x # zs"
        using u(2) w by simp
    qed
    finally show ?thesis .
  qed
qed simp

text \<open>The first navigation of the agenda.\<close>

abbreviation navigates :: "('v, 'r, 'h) agenda_entry \<Rightarrow> bool" where
  "navigates x \<equiv> fst (snd x) = SrcNavigation \<and> is_navigation (snd (snd x))"

lemma represents_pop_navigation:
  assumes r: "represents e l"
  shows "(case remove_position navigates l of
            None \<Rightarrow> pop_navigation_task e = (None, e)
          | Some (x, l') \<Rightarrow> fst (pop_navigation_task e) = Some (snd (snd x)) \<and> represents (snd (pop_navigation_task e)) l')"
proof (cases "remove_position navigates l")
  case None
  then have "\<forall>x\<in>set l. \<not> navigates x" by (simp add: remove_position_None)
  then have "\<forall>(i, t)\<in>set (queue_of (el_queues e) SrcNavigation). \<not> is_navigation t"
    unfolding representsD(2) [OF r] by auto
  then have "el_queues e SrcNavigation = Some queue \<Longrightarrow>
      remove_position (\<lambda>(_, task). is_navigation task) queue = None" for queue
    by (auto simp: remove_position_None queue_of_def)
  then show ?thesis using None by (auto simp: pop_navigation_task_def split: option.split)
next
  case (Some p)
  obtain x l' where p: "p = (x, l')" by (metis surj_pair)
  obtain us vs where l: "l = us @ x # vs" "l' = us @ vs" "navigates x" "\<forall>u\<in>set us. \<not> navigates u"
    using Some p by (auto simp: remove_position_Some)
  obtain i t where x: "x = (i, SrcNavigation, t)" "is_navigation t" using l(3) by (metis surjective_pairing)
  let ?q = "\<lambda>l. map (\<lambda>(i, s', t). (i, t)) (filter (\<lambda>(i, s', t). s' = SrcNavigation) l)"
  have q: "queue_of (el_queues e) SrcNavigation = ?q us @ (i, t) # ?q vs"
    using representsD(2) [OF r, of SrcNavigation] l(1) x by simp
  then obtain queue where Q: "el_queues e SrcNavigation = Some queue" "queue = ?q us @ (i, t) # ?q vs"
    by (cases "el_queues e SrcNavigation") (auto simp: queue_of_def)
  have "remove_position (\<lambda>(_, task). is_navigation task) queue = Some ((i, t), ?q us @ ?q vs)"
    unfolding remove_position_Some Q(2) using x(2) l(4) by (intro exI conjI) fastforce+
  moreover have "remove_position (\<lambda>(queued_id, _). queued_id = i) (el_order e)
      = Some ((i, SrcNavigation), map (\<lambda>(i, s, t). (i, s)) us @ map (\<lambda>(i, s, t). (i, s)) vs)"
    unfolding remove_position_Some representsD(1) [OF r] l(1) x
    using representsD(3) [OF r] l(1) x by (intro exI conjI) (auto simp: rev_image_eqI)
  ultimately have "pop_navigation_task e = (Some t, e\<lparr>el_queues := (el_queues e)(SrcNavigation \<mapsto> ?q us @ ?q vs),
      el_order := map (\<lambda>(i, s, t). (i, s)) us @ map (\<lambda>(i, s, t). (i, s)) vs\<rparr>)"
    using Q(1) by (simp add: pop_navigation_task_def)
  moreover have "represents (e\<lparr>el_queues := (el_queues e)(SrcNavigation \<mapsto> ?q us @ ?q vs),
      el_order := map (\<lambda>(i, s, t). (i, s)) us @ map (\<lambda>(i, s, t). (i, s)) vs\<rparr>) l'"
    using r l x by (auto simp: represents_def)
  ultimately show ?thesis using Some p x by simp
qed

lemma in_task_sources [simp]: "s \<in> set task_sources"
  by (cases s) (simp_all add: task_sources_def)

lemma cancelled_ids_eq:
  assumes "represents e l"
  shows "cancelled_ids P (el_queues e) = fst ` {x \<in> set l. P (snd (snd x))}"
proof -
  have "cancelled_ids P (el_queues e)
      = (\<Union>s. fst ` {x \<in> set (queue_of (el_queues e) s). P (snd x)})"
    using in_task_sources by (fastforce simp: cancelled_ids_def image_iff)
  also have "\<dots> = fst ` {x \<in> set l. P (snd (snd x))}"
    unfolding representsD(2) [OF assms] by force
  finally show ?thesis .
qed

lemma queue_of_retain [simp]:
  "queue_of (retain_queues P q) s = filter (\<lambda>(_, task). \<not> P task) (queue_of q s)"
  by (simp add: queue_of_def retain_queues_def split: option.split)

lemma represents_cancel:
  assumes r: "represents e l"
  shows "represents (cancel_queued P e) (filter (\<lambda>x. \<not> P (snd (snd x))) l)"
proof -
  have d: "distinct (map fst l)" by (rule representsD(3) [OF r])
  have c: "fst x \<in> fst ` {x \<in> set l. P (snd (snd x))} \<longleftrightarrow> P (snd (snd x))" if "x \<in> set l" for x
    using that d by (auto simp: distinct_map dest: inj_onD)
  have "filter (\<lambda>(i, _). i \<notin> cancelled_ids P (el_queues e)) (el_order e)
      = map (\<lambda>(i, s, t). (i, s)) (filter (\<lambda>x. fst x \<notin> cancelled_ids P (el_queues e)) l)"
    unfolding representsD(1) [OF r] filter_map by (simp add: comp_def case_prod_unfold)
  also have "filter (\<lambda>x. fst x \<notin> cancelled_ids P (el_queues e)) l = filter (\<lambda>x. \<not> P (snd (snd x))) l"
    unfolding cancelled_ids_eq [OF r] by (rule filter_cong [OF refl]) (simp add: c)
  finally show ?thesis
    using r distinct_map_filterI [OF d]
    by (auto simp: represents_def cancel_queued_def filter_map comp_def case_prod_unfold conj_commute
        intro!: arg_cong [where f = "map _"] filter_cong)
qed

lemma bind_owner_facts [simp]:
  "is_navigation (bind_owner w x r t) = is_navigation t"
  "owned_task d (bind_owner w x r t) = owned_task d t"
  by (cases "(w, x, r, t)" rule: bind_owner.cases; simp)+

lemma represents_bind:
  assumes r: "represents e l"
  shows "represents (bind_worker_error_owner w x re e)
    (map (\<lambda>(i, s, t). (i, s, if s = SrcDomManipulation then bind_owner w x re t else t)) l)"
proof (cases "el_queues e SrcDomManipulation")
  case None
  then have "filter (\<lambda>(i, s', t). s' = SrcDomManipulation) l = []"
    using representsD(2) [OF r, of SrcDomManipulation] by (simp add: queue_of_def)
  then have "map (\<lambda>(i, s, t). (i, s, if s = SrcDomManipulation then bind_owner w x re t else t)) l = l"
    by (intro map_idI) (auto simp: filter_empty_conv)
  then show ?thesis using r None by (simp add: bind_worker_error_owner_def)
next
  case (Some queue)
  have "queue = map (\<lambda>(i, s', t). (i, t)) (filter (\<lambda>(i, s', t). s' = SrcDomManipulation) l)"
    using representsD(2) [OF r, of SrcDomManipulation] Some by (simp add: queue_of_def)
  then show ?thesis
    using r Some
    by (auto simp: represents_def bind_worker_error_owner_def filter_map comp_def case_prod_unfold
        intro!: arg_cong [where f = "map _"] filter_cong map_cong)
qed


section \<open>Due timers\<close>

definition timer_entry :: "('v, 'r, 'h) TimerTask \<Rightarrow> TaskSource \<times> ('v, 'r, 'h) Task" where
  "timer_entry t =
     (timer_source (tt_payload t), TaskTimer (tt_payload t) (tt_owner_document_id t) (tt_metadata t))"

abbreviation enqueue_due :: "('v, 'r, 'h) TimerTask \<Rightarrow> ('v, 'r, 'h) EventLoop \<Rightarrow> ('v, 'r, 'h) EventLoop" where
  "enqueue_due t \<equiv>
     enqueue_timer_for_document_with_metadata (tt_payload t) (tt_owner_document_id t) (tt_metadata t)"

lemma enqueue_fields [simp]:
  "el_timers (el_enqueue s t e) = el_timers e" "el_now_ms (el_enqueue s t e) = el_now_ms e"
  "el_next_timer_id (el_enqueue s t e) = el_next_timer_id e"
  "el_animation_frame_order (el_enqueue s t e) = el_animation_frame_order e"
  "el_animation_frame_callbacks (el_enqueue s t e) = el_animation_frame_callbacks e"
  "el_next_animation_frame_id (el_enqueue s t e) = el_next_animation_frame_id e"
  by (simp_all add: el_enqueue_def Let_def)

lemma enqueue_due_fields [simp]:
  "el_timers (fold enqueue_due ts e) = el_timers e" "el_now_ms (fold enqueue_due ts e) = el_now_ms e"
  "el_next_timer_id (fold enqueue_due ts e) = el_next_timer_id e"
  "el_animation_frame_order (fold enqueue_due ts e) = el_animation_frame_order e"
  "el_animation_frame_callbacks (fold enqueue_due ts e) = el_animation_frame_callbacks e"
  "el_next_animation_frame_id (fold enqueue_due ts e) = el_next_animation_frame_id e"
  by (induction ts arbitrary: e) (simp_all add: enqueue_timer_for_document_with_metadata_def)

lemma represents_enqueue_due:
  "represents e l \<Longrightarrow> el_next_task_id e + length ts \<le> u64_max \<Longrightarrow>
   \<exists>l'. represents (fold enqueue_due ts e) (l @ l') \<and> map snd l' = map timer_entry ts"
proof (induction ts arbitrary: e l)
  case (Cons t ts)
  let ?e = "enqueue_due t e"
  have r: "represents ?e (l @ [(el_next_task_id e, timer_entry t)])"
    "el_next_task_id ?e = Suc (el_next_task_id e)"
    using represents_enqueue [OF Cons.prems(1), of "fst (timer_entry t)" "snd (timer_entry t)"] Cons.prems(2)
    by (simp_all add: enqueue_timer_for_document_with_metadata_def timer_entry_def)
  obtain l' where "represents (fold enqueue_due ts ?e) ((l @ [(el_next_task_id e, timer_entry t)]) @ l')"
    "map snd l' = map timer_entry ts"
    using Cons.IH [OF r(1)] r(2) Cons.prems(2) by auto
  then show ?case by (intro exI [of _ "(el_next_task_id e, timer_entry t) # l'"]) simp
qed simp

lemma set_ready_timers: "set (ready_timers now ts) = {t \<in> set ts. tt_next_run_at t \<le> now}"
  by (simp add: ready_timers_def)

lemma length_ready_timers: "length (ready_timers now ts) \<le> length ts"
  by (simp add: ready_timers_def)

lemma represents_advance:
  assumes "represents e l" "el_next_task_id e + length (el_timers e) \<le> u64_max"
  shows "\<exists>l'. represents (advance elapsed e) (l @ l')
    \<and> map snd l' = map timer_entry (ready_timers (saturating_add (el_now_ms e) elapsed) (el_timers e))"
proof -
  let ?now = "saturating_add (el_now_ms e) elapsed"
  let ?e = "e\<lparr>el_now_ms := ?now,
      el_timers := filter (\<lambda>t. tt_repeat t \<or> tt_next_run_at t > ?now) (map (rescheduled ?now) (el_timers e))\<rparr>"
  have "represents ?e l" using assms(1) by (simp add: represents_def)
  from represents_enqueue_due [OF this, of "ready_timers ?now (el_timers e)"] show ?thesis
    using assms(2) length_ready_timers [of ?now "el_timers e"] by (simp add: advance_def Let_def)
qed

lemma advance_fields [simp]:
  "el_now_ms (advance k e) = saturating_add (el_now_ms e) k"
  "el_timers (advance k e) =
     (let now = saturating_add (el_now_ms e) k
      in filter (\<lambda>t. tt_repeat t \<or> tt_next_run_at t > now) (map (rescheduled now) (el_timers e)))"
  "el_next_timer_id (advance k e) = el_next_timer_id e"
  "el_animation_frame_order (advance k e) = el_animation_frame_order e"
  "el_animation_frame_callbacks (advance k e) = el_animation_frame_callbacks e"
  "el_next_animation_frame_id (advance k e) = el_next_animation_frame_id e"
  by (simp_all add: advance_def Let_def)

lemma kept_timers:
  "filter (\<lambda>t. tt_repeat t \<or> tt_next_run_at t > now) (map (rescheduled now) ts)
     = map (rescheduled now) (filter (\<lambda>t. tt_repeat t \<or> tt_next_run_at t > now) ts)"
  by (induction ts) (auto simp: rescheduled_def)

lemma rescheduled_fields [simp]:
  "tt_id (rescheduled now t) = tt_id t" "tt_repeat (rescheduled now t) = tt_repeat t"
  by (simp_all add: rescheduled_def)

section \<open>Reachable states\<close>

inductive el_step :: "('v, 'r, 'h) EventLoop \<Rightarrow> ('v, 'r, 'h) EventLoop \<Rightarrow> bool" where
  enqueued: "el_next_task_id e < u64_max \<Longrightarrow> el_step e (el_enqueue s t e)"
| bound: "el_step e (bind_worker_error_owner w x realm e)"
| popped: "el_step e (snd (pop_task e))"
| navigated: "el_step e (snd (pop_navigation_task e))"
| scheduled: "el_next_timer_id e < u64_max \<Longrightarrow>
    el_step e (snd (schedule_timer_with_metadata payload delay repeat owner metadata e))"
| cleared: "el_step e (clear_timer i e)"
| advanced: "el_next_task_id e + length (el_timers e) \<le> u64_max \<Longrightarrow> el_step e (advance k e)"
| loads_cancelled: "el_step e (cancel_resource_loads_for_nodes ns e)"
| document_cancelled: "el_step e (cancel_tasks_for_document d e)"
| frame_scheduled: "el_next_animation_frame_id e < u64_max \<Longrightarrow>
    el_step e (snd (schedule_animation_frame_with_realm callback realm owner e))"
| frame_cancelled: "el_step e (cancel_animation_frame i e)"
| frame_begun: "el_step e (snd (begin_animation_frame e))"
| frame_taken: "el_step e (snd (take_animation_frame_callback i e))"

inductive_cases el_stepE: "el_step e e'"

definition el_reach :: "('v, 'r, 'h) EventLoop \<Rightarrow> bool" where
  "el_reach = el_step\<^sup>*\<^sup>* event_loop_default"

definition el_ok :: "('v, 'r, 'h) EventLoop \<Rightarrow> bool" where
  "el_ok e \<longleftrightarrow>
     (\<exists>l. represents e l)
     \<and> el_now_ms e \<le> u64_max
     \<and> distinct (map tt_id (el_timers e))
     \<and> (\<forall>t\<in>set (el_timers e). tt_id t < el_next_timer_id e \<and> el_now_ms e \<le> tt_next_run_at t
          \<and> tt_next_run_at t \<le> u64_max)
     \<and> distinct (el_animation_frame_order e)
     \<and> (\<forall>i. i \<in> set (el_animation_frame_order e) \<or> i \<in> dom (el_animation_frame_callbacks e)
          \<longrightarrow> i \<le> el_next_animation_frame_id e)"

text \<open>An operation on the queues only.\<close>

definition same_timers :: "('v, 'r, 'h) EventLoop \<Rightarrow> ('v, 'r, 'h) EventLoop \<Rightarrow> bool" where
  "same_timers e e' \<longleftrightarrow>
     el_timers e' = el_timers e \<and> el_now_ms e' = el_now_ms e \<and> el_next_timer_id e' = el_next_timer_id e
     \<and> el_animation_frame_order e' = el_animation_frame_order e
     \<and> el_animation_frame_callbacks e' = el_animation_frame_callbacks e
     \<and> el_next_animation_frame_id e' = el_next_animation_frame_id e"

lemma el_ok_queues: "el_ok e \<Longrightarrow> same_timers e e' \<Longrightarrow> \<exists>l. represents e' l \<Longrightarrow> el_ok e'"
  by (simp add: el_ok_def same_timers_def)

lemma el_ok_timers:
  "el_ok e \<Longrightarrow> el_order e' = el_order e \<Longrightarrow> el_queues e' = el_queues e \<Longrightarrow> el_next_task_id e' = el_next_task_id e \<Longrightarrow>
   \<exists>l. represents e' l"
  using represents_cong by (metis el_ok_def)

lemma represents_pop: "represents e l \<Longrightarrow> \<exists>l'. represents (snd (pop_task e)) l'"
proof (cases l)
  case (Cons x l')
  obtain i s t where "x = (i, s, t)" by (metis surj_pair)
  then show "represents e l \<Longrightarrow> \<exists>l'. represents (snd (pop_task e)) l'"
    using represents_pop_Cons [of e i s t l'] Cons by blast
qed (auto simp: represents_pop_Nil)

lemma represents_nav: "represents e l \<Longrightarrow> \<exists>l'. represents (snd (pop_navigation_task e)) l'"
  using represents_pop_navigation [of e l]
  by (cases "remove_position navigates l") auto

lemma pop_same: "same_timers e (snd (pop_task e))" "same_timers e (snd (pop_navigation_task e))"
  by (auto simp: same_timers_def pop_task_def pop_navigation_task_def Let_def split: prod.splits option.splits)

lemma cancel_same: "same_timers e (cancel_queued P e)"
  by (simp add: same_timers_def cancel_queued_def)

lemma bind_same: "same_timers e (bind_worker_error_owner w x r e)"
  by (simp add: same_timers_def bind_worker_error_owner_def split: option.split)

lemma cancel_document_fields:
  "el_order (cancel_tasks_for_document d e) = el_order (cancel_queued (owned_task d) e)"
  "el_queues (cancel_tasks_for_document d e) = el_queues (cancel_queued (owned_task d) e)"
  "el_next_task_id (cancel_tasks_for_document d e) = el_next_task_id (cancel_queued (owned_task d) e)"
  "el_timers (cancel_tasks_for_document d e) = filter (\<lambda>t. tt_owner_document_id t \<noteq> Some d) (el_timers e)"
  "el_now_ms (cancel_tasks_for_document d e) = el_now_ms e"
  "el_next_timer_id (cancel_tasks_for_document d e) = el_next_timer_id e"
  "el_next_animation_frame_id (cancel_tasks_for_document d e) = el_next_animation_frame_id e"
  "el_animation_frame_callbacks (cancel_tasks_for_document d e)
     = (\<lambda>i. if owned_frame d e i then None else el_animation_frame_callbacks e i)"
  "el_animation_frame_order (cancel_tasks_for_document d e)
     = filter (\<lambda>i. \<not> owned_frame d e i) (el_animation_frame_order e)"
  by (simp_all add: cancel_tasks_for_document_def Let_def cancel_queued_def owned_frame_def [abs_def] cong: if_cong)


lemma represents_cancel_document:
  "represents e l \<Longrightarrow>
   represents (cancel_tasks_for_document d e) (filter (\<lambda>x. \<not> owned_task d (snd (snd x))) l)"
  using represents_cancel [of e l "owned_task d"] represents_cong
  by (metis cancel_document_fields(1-3))

lemma el_step_keeps: "el_step e e' \<Longrightarrow> el_ok e \<Longrightarrow> el_ok e'"
proof (induction rule: el_step.induct)
  case (enqueued e s t)
  then show ?case
    using represents_enqueue(1) [of e _ s t]
    by (intro el_ok_queues [OF enqueued.prems]) (auto simp: same_timers_def el_ok_def)
next
  case (bound e w x realm)
  then show ?case
    by (intro el_ok_queues [OF bound bind_same]) (auto simp: el_ok_def dest: represents_bind)
next
  case (popped e)
  then show ?case by (intro el_ok_queues [OF popped pop_same(1)]) (auto simp: el_ok_def dest: represents_pop)
next
  case (navigated e)
  then show ?case by (intro el_ok_queues [OF navigated pop_same(2)]) (auto simp: el_ok_def dest: represents_nav)
next
  case (scheduled e payload delay repeat owner metadata)
  let ?e = "snd (schedule_timer_with_metadata payload delay repeat owner metadata e)"
  have "\<exists>l. represents ?e l"
    by (rule el_ok_timers [OF scheduled.prems]) (simp_all add: schedule_timer_with_metadata_def Let_def)
  moreover have "tt_id t \<noteq> el_next_timer_id e" if "t \<in> set (el_timers e)" for t
    using that scheduled.prems by (auto simp: el_ok_def)
  ultimately show ?case
    using scheduled
    by (fastforce simp: el_ok_def schedule_timer_with_metadata_def Let_def saturating_add_def)
next
  case (cleared e i)
  have "\<exists>l. represents (clear_timer i e) l"
    by (rule el_ok_timers [OF cleared]) (simp_all add: clear_timer_def)
  then show ?case using cleared by (auto simp: el_ok_def clear_timer_def distinct_map_filterI)
next
  case (advanced e k)
  have "\<exists>l. represents (advance k e) l" using represents_advance advanced by (fastforce simp: el_ok_def)
  moreover have "distinct (map tt_id (map (rescheduled now) (filter P (el_timers e))))" for now P
    using advanced.prems by (simp add: el_ok_def comp_def distinct_map_filterI)
  moreover have "now \<le> u64_max \<Longrightarrow> t \<in> set (el_timers e) \<Longrightarrow> tt_repeat t \<or> now < tt_next_run_at t \<Longrightarrow>
      now \<le> tt_next_run_at (rescheduled now t) \<and> tt_next_run_at (rescheduled now t) \<le> u64_max" for now t
    using advanced.prems by (auto simp: el_ok_def rescheduled_def saturating_add_def)
  moreover have "saturating_add (el_now_ms e) k \<le> u64_max" by (simp add: saturating_add_def)
  ultimately show ?case
    using advanced.prems by (auto simp: el_ok_def Let_def kept_timers)
next
  case (loads_cancelled e ns)
  then show ?case
    unfolding cancel_resource_loads_for_nodes_def
    by (intro el_ok_queues [OF loads_cancelled cancel_same]) (auto simp: el_ok_def dest: represents_cancel)
next
  case (document_cancelled e d)
  have "\<exists>l. represents (cancel_tasks_for_document d e) l"
    using document_cancelled represents_cancel_document by (auto simp: el_ok_def)
  then show ?case
    using document_cancelled
    by (auto simp: el_ok_def cancel_document_fields distinct_map_filterI dom_def split: if_splits)
next
  case (frame_scheduled e callback realm owner)
  have "\<exists>l. represents (snd (schedule_animation_frame_with_realm callback realm owner e)) l"
    by (rule el_ok_timers [OF frame_scheduled.prems]) (simp_all add: schedule_animation_frame_with_realm_def Let_def)
  then show ?case
    using frame_scheduled
    by (fastforce simp: el_ok_def schedule_animation_frame_with_realm_def Let_def saturating_add_def)
next
  case (frame_cancelled e i)
  have "\<exists>l. represents (cancel_animation_frame i e) l"
    by (rule el_ok_timers [OF frame_cancelled]) (simp_all add: cancel_animation_frame_def)
  then show ?case using frame_cancelled by (auto simp: el_ok_def cancel_animation_frame_def)
next
  case (frame_begun e)
  have "\<exists>l. represents (snd (begin_animation_frame e)) l"
    by (rule el_ok_timers [OF frame_begun]) (simp_all add: begin_animation_frame_def)
  then show ?case using frame_begun by (auto simp: el_ok_def begin_animation_frame_def)
next
  case (frame_taken e i)
  have "\<exists>l. represents (cancel_animation_frame i e) l"
    by (rule el_ok_timers [OF frame_taken]) (simp_all add: cancel_animation_frame_def)
  then show ?case
    using frame_taken by (auto simp: el_ok_def take_animation_frame_callback_def cancel_animation_frame_def)
qed

lemma el_reach_ok: "el_reach e \<Longrightarrow> el_ok e"
  unfolding el_reach_def
proof (induction rule: rtranclp_induct)
  case base
  show ?case
    using represents_default by (auto simp: el_ok_def event_loop_default_def)
qed (rule el_step_keeps)


lemma remove_position_map:
  "remove_position P (map f xs) = map_option (map_prod f (map f)) (remove_position (P \<circ> f) xs)"
proof (induction xs)
  case (Cons x xs)
  then show ?case by (cases "remove_position (\<lambda>a. P (f a)) xs") (auto simp: comp_def)
qed simp

section \<open>Properties\<close>

text \<open>C37: the per-source queues and the order of enqueueing implement one first-in-first-out list of tasks,
  the agenda: enqueueing appends to it, the next task is its head, a navigation is taken out of its place, and
  cancellation removes exactly the tasks of the nodes or of the document.\<close>

theorem event_loop_is_fifo:
  assumes "el_reach e"
  shows "(el_next_task_id e < u64_max \<longrightarrow> agenda (el_enqueue s t e) = agenda e @ [(s, t)])
       \<and> (case agenda e of
            [] \<Rightarrow> pop_task e = (None, e)
          | x # xs \<Rightarrow> fst (pop_task e) = Some x \<and> agenda (snd (pop_task e)) = xs)
       \<and> (case remove_position (\<lambda>(s, t). s = SrcNavigation \<and> is_navigation t) (agenda e) of
            None \<Rightarrow> pop_navigation_task e = (None, e)
          | Some (x, xs) \<Rightarrow> fst (pop_navigation_task e) = Some (snd x) \<and> agenda (snd (pop_navigation_task e)) = xs)
       \<and> agenda (cancel_resource_loads_for_nodes ns e) = filter (\<lambda>(_, t). \<not> loads_for_nodes ns t) (agenda e)
       \<and> agenda (cancel_tasks_for_document d e) = filter (\<lambda>(_, t). \<not> owned_task d t) (agenda e)"
proof -
  obtain l where r: "represents e l" using el_reach_ok [OF assms] by (auto simp: el_ok_def)
  note a = agenda_represents [OF r]
  have enq: "el_next_task_id e < u64_max \<longrightarrow> agenda (el_enqueue s t e) = agenda e @ [(s, t)]"
    using represents_enqueue(1) [OF r] agenda_represents a by fastforce
  have pop: "case agenda e of [] \<Rightarrow> pop_task e = (None, e)
      | x # xs \<Rightarrow> fst (pop_task e) = Some x \<and> agenda (snd (pop_task e)) = xs"
  proof (cases l)
    case Nil
    then show ?thesis using a r represents_pop_Nil by auto
  next
    case (Cons x l')
    obtain i s t where "x = (i, s, t)" by (metis surj_pair)
    then show ?thesis using a r represents_pop_Cons [of e i s t l'] agenda_represents Cons by auto
  qed
  have "remove_position (\<lambda>(s, t). s = SrcNavigation \<and> is_navigation t) (agenda e)
      = map_option (map_prod snd (map snd)) (remove_position navigates l)"
    unfolding a remove_position_map by (simp add: comp_def case_prod_unfold)
  then have nav: "case remove_position (\<lambda>(s, t). s = SrcNavigation \<and> is_navigation t) (agenda e) of
      None \<Rightarrow> pop_navigation_task e = (None, e)
    | Some (x, xs) \<Rightarrow> fst (pop_navigation_task e) = Some (snd x) \<and> agenda (snd (pop_navigation_task e)) = xs"
    using represents_pop_navigation [OF r] agenda_represents
    by (cases "remove_position navigates l") auto
  have "agenda (cancel_resource_loads_for_nodes ns e) = filter (\<lambda>(_, t). \<not> loads_for_nodes ns t) (agenda e)"
    "agenda (cancel_tasks_for_document d e) = filter (\<lambda>(_, t). \<not> owned_task d t) (agenda e)"
    using agenda_represents [OF represents_cancel [OF r, of "loads_for_nodes ns"]]
      agenda_represents [OF represents_cancel_document [OF r, of d]]
    by (simp_all add: a cancel_resource_loads_for_nodes_def filter_map comp_def case_prod_unfold)
  with enq pop nav show ?thesis by blast
qed

text \<open>C38: when the virtual clock advances, exactly the due timers become tasks, after the tasks already
  queued and ordered by deadline and then by handle; a due timer that does not repeat is gone, a due timer that
  repeats is due again at the new time plus its interval (both clamped to 64 bits), the others are
  unchanged, in the order they had, and no deadline is left in the past.\<close>

theorem timers_fire_in_order:
  fixes e :: "('v, 'r, 'h) EventLoop" and elapsed :: nat
  assumes "el_reach e" and "el_next_task_id e + length (el_timers e) \<le> u64_max"
  defines "now \<equiv> min u64_max (el_now_ms e + elapsed)"
  shows "el_now_ms (advance elapsed e) = now
       \<and> (\<exists>ready. agenda (advance elapsed e) = agenda e @ map timer_entry ready
         \<and> set ready = {t \<in> set (el_timers e). tt_next_run_at t \<le> now}
         \<and> sorted_wrt (\<lambda>a b. (tt_next_run_at a, tt_id a) < (tt_next_run_at b, tt_id b)) ready)
       \<and> el_timers (advance elapsed e)
           = map (\<lambda>t. if tt_next_run_at t \<le> now
                       then t\<lparr>tt_next_run_at := min u64_max (now + tt_interval_ms t)\<rparr> else t)
               (filter (\<lambda>t. tt_repeat t \<or> now < tt_next_run_at t) (el_timers e))
       \<and> (\<forall>t\<in>set (el_timers (advance elapsed e)). now \<le> tt_next_run_at t)"
proof -
  let ?ready = "ready_timers now (el_timers e)"
  let ?key = "\<lambda>t :: ('v, 'r, 'h) TimerTask. (tt_next_run_at t, tt_id t)"
  have n: "now = saturating_add (el_now_ms e) elapsed" by (simp add: now_def saturating_add_def min.commute)
  have ok: "el_ok e" by (rule el_reach_ok [OF assms(1)])
  then obtain l where r: "represents e l" by (auto simp: el_ok_def)
  obtain l' where "represents (advance elapsed e) (l @ l')" "map snd l' = map timer_entry ?ready"
    using represents_advance [OF r assms(2)] unfolding n by blast
  then have "agenda (advance elapsed e) = agenda e @ map timer_entry ?ready"
    using agenda_represents [OF r] agenda_represents by fastforce
  moreover have "sorted_wrt (\<lambda>a b. ?key a < ?key b) ?ready"
  proof -
    have "distinct (map tt_id ?ready)"
      using ok by (simp add: ready_timers_def el_ok_def distinct_map distinct_sort inj_on_def)
    then have "distinct (map ?key ?ready)" by (auto simp: distinct_map inj_on_def)
    moreover have "sorted (map ?key ?ready)" by (simp add: ready_timers_def)
    ultimately have "sorted_wrt (<) (map ?key ?ready)" by (simp add: strict_sorted_iff)
    then show ?thesis by (simp add: sorted_wrt_map)
  qed
  moreover have t: "el_timers (advance elapsed e)
      = map (\<lambda>t. if tt_next_run_at t \<le> now then t\<lparr>tt_next_run_at := min u64_max (now + tt_interval_ms t)\<rparr> else t)
          (filter (\<lambda>t. tt_repeat t \<or> now < tt_next_run_at t) (el_timers e))"
    unfolding advance_fields Let_def kept_timers n [symmetric]
    by (rule map_cong [OF refl]) (auto simp: rescheduled_def saturating_add_def min.commute)
  moreover have "now \<le> u64_max" by (simp add: now_def)
  then have "\<forall>t\<in>set (el_timers (advance elapsed e)). now \<le> tt_next_run_at t" unfolding t by auto
  moreover have "el_now_ms (advance elapsed e) = now" by (simp add: n)
  ultimately show ?thesis by (intro conjI exI [of _ ?ready]) (auto simp: set_ready_timers)
qed


text \<open>The delay that the embedder may sleep is exact: with no task queued and a next deadline in
  \<open>delay\<close> milliseconds, advancing the clock by less queues nothing and advancing it by the delay queues a task.\<close>

theorem timer_delay_exact:
  assumes "el_reach e" and "agenda e = []" and "next_timer_delay_ms e = Some delay"
    and "el_next_task_id e + length (el_timers e) \<le> u64_max"
  shows "agenda (advance delay e) \<noteq> [] \<and> (k < delay \<longrightarrow> agenda (advance k e) = [])"
proof -
  have ok: "el_ok e" by (rule el_reach_ok [OF assms(1)])
  then obtain l where r: "represents e l" by (auto simp: el_ok_def)
  have ag: "agenda (advance j e) = map timer_entry (ready_timers (saturating_add (el_now_ms e) j) (el_timers e))" for j
  proof -
    obtain l' where "represents (advance j e) (l @ l')"
      "map snd l' = map timer_entry (ready_timers (saturating_add (el_now_ms e) j) (el_timers e))"
      using represents_advance [OF r assms(4)] by blast
    then show ?thesis using agenda_represents [OF r] agenda_represents assms(2) by fastforce
  qed
  let ?ds = "map (\<lambda>t. tt_next_run_at t - el_now_ms e) (el_timers e)"
  have "el_order e = []" using assms(2) by (simp add: agenda_def)
  then obtain x xs where x: "?ds = x # xs" "delay = fold min xs x"
    using assms(3) by (auto simp: next_timer_delay_ms_def split: list.splits)
  then have m: "?ds \<noteq> []" "delay = Min (set ?ds)" unfolding x(1) Min.set_eq_fold by simp_all
  have d: "delay \<in> set ?ds" "\<And>x. x \<in> set ?ds \<Longrightarrow> delay \<le> x"
    using m(1) Min_in [of "set ?ds"] unfolding m(2) by (blast intro: Min_le List.finite_set)+
  obtain t where t: "t \<in> set (el_timers e)" "delay = tt_next_run_at t - el_now_ms e" using d(1) by auto
  then have n: "saturating_add (el_now_ms e) delay = tt_next_run_at t"
    using ok by (auto simp: el_ok_def saturating_add_def)
  then have "t \<in> set (ready_timers (saturating_add (el_now_ms e) delay) (el_timers e))"
    using t(1) by (simp add: set_ready_timers)
  then have "agenda (advance delay e) \<noteq> []" unfolding ag by auto
  moreover have "agenda (advance k e) = []" if k: "k < delay"
  proof -
    have "\<not> tt_next_run_at u \<le> saturating_add (el_now_ms e) k" if "u \<in> set (el_timers e)" for u
    proof -
      have "delay \<le> tt_next_run_at u - el_now_ms e" using d(2) that by auto
      then show ?thesis using k by (auto simp: saturating_add_def)
    qed
    then have "set (ready_timers (saturating_add (el_now_ms e) k) (el_timers e)) = {}" by (auto simp: set_ready_timers)
    then show ?thesis unfolding ag by simp
  qed
  ultimately show ?thesis by blast
qed

text \<open>The values that the state retains, by the structure of its data.\<close>

definition retained_values :: "('v, 'r, 'h) EventLoop \<Rightarrow> 'v set" where
  "retained_values e =
     (\<Union>queue \<in> ran (el_queues e). \<Union>x \<in> set queue. set1_Task (snd x))
     \<union> (\<Union>timer \<in> set (el_timers e). set1_TimerPayload (tt_payload timer))
     \<union> af_callback ` ran (el_animation_frame_callbacks e)"

lemma trace_timer_payload_set: "set (trace_timer_payload p) = set1_TimerPayload p"
  by (induction p) auto

lemma trace_task_set: "set (trace_task t) = set1_Task t"
  by (cases t rule: trace_task.cases) (auto simp: trace_timer_payload_set)

text \<open>the tracer visits every value that the event loop retains, and no other: nothing that a task, a timer or an
  animation frame still needs is collected.\<close>

theorem event_loop_roots_traced:
  "trace_event_loop e = retained_values e"
  by (simp add: trace_event_loop_def retained_values_def trace_task_set trace_timer_payload_set case_prod_unfold)

section \<open>After the teardown of a document\<close>

text \<open>The tasks that run on behalf of a document, told by the document recorded in the task: timers, among them
  the payloads that carry events and callbacks of the document, grants and thefts of its locks, and its violation
  events.  A message addressed to its window and a navigation of a window it opened also name it,
  but they act on other owners' behalf and are checked when they run.\<close>

definition works_for :: "nat \<Rightarrow> ('v, 'r, 'h) Task \<Rightarrow> bool" where
  "works_for d t \<longleftrightarrow>
     (\<exists>payload metadata. t = TaskTimer payload (Some d) metadata)
     \<or> (\<exists>request stolen. t = TaskWebLock d request stolen)
     \<or> (\<exists>target event. t = TaskSecurityPolicyViolation d target event)"

lemma owned_task_works_for: "owned_task d t \<longleftrightarrow> works_for d t"
  by (cases "(d, t)" rule: owned_task.cases) (auto simp: works_for_def)

text \<open>The steps that start nothing new for a document.\<close>

inductive quiet_step :: "nat \<Rightarrow> ('v, 'r, 'h) EventLoop \<Rightarrow> ('v, 'r, 'h) EventLoop \<Rightarrow> bool" for d where
  quiet_enqueued: "\<not> works_for d t \<Longrightarrow> el_next_task_id e < u64_max \<Longrightarrow> quiet_step d e (el_enqueue s t e)"
| quiet_bound: "quiet_step d e (bind_worker_error_owner w x realm e)"
| quiet_popped: "quiet_step d e (snd (pop_task e))"
| quiet_navigated: "quiet_step d e (snd (pop_navigation_task e))"
| quiet_scheduled: "owner \<noteq> Some d \<Longrightarrow> el_next_timer_id e < u64_max \<Longrightarrow>
    quiet_step d e (snd (schedule_timer_with_metadata payload delay repeat owner metadata e))"
| quiet_cleared: "quiet_step d e (clear_timer i e)"
| quiet_advanced: "el_next_task_id e + length (el_timers e) \<le> u64_max \<Longrightarrow> quiet_step d e (advance k e)"
| quiet_loads_cancelled: "quiet_step d e (cancel_resource_loads_for_nodes ns e)"
| quiet_document_cancelled: "quiet_step d e (cancel_tasks_for_document d' e)"
| quiet_frame_scheduled: "owner \<noteq> Some d \<Longrightarrow> el_next_animation_frame_id e < u64_max \<Longrightarrow>
    quiet_step d e (snd (schedule_animation_frame_with_realm callback realm owner e))"
| quiet_frame_cancelled: "quiet_step d e (cancel_animation_frame i e)"
| quiet_frame_begun: "quiet_step d e (snd (begin_animation_frame e))"
| quiet_frame_taken: "quiet_step d e (snd (take_animation_frame_callback i e))"

lemma quiet_step_el_step: "quiet_step d e e' \<Longrightarrow> el_step e e'"
  by (induction rule: quiet_step.induct) (auto intro: el_step.intros)

text \<open>Nothing works for the document: no task, timer or frame.\<close>

definition silent :: "nat \<Rightarrow> ('v, 'r, 'h) EventLoop \<Rightarrow> bool" where
  "silent d e \<longleftrightarrow>
     (\<forall>x\<in>set (agenda e). \<not> works_for d (snd x))
     \<and> (\<forall>t\<in>set (el_timers e). tt_owner_document_id t \<noteq> Some d)
     \<and> (\<forall>c\<in>ran (el_animation_frame_callbacks e). af_document_id c \<noteq> Some d)"

text \<open>The agenda after each operation on the queues; the others leave it alone.\<close>

lemma agenda_same_queues:
  "el_order e' = el_order e \<Longrightarrow> el_queues e' = el_queues e \<Longrightarrow> agenda e' = agenda e"
  by (simp add: agenda_def)

lemma agenda_enqueue:
  assumes "el_ok e" "el_next_task_id e < u64_max"
  shows "agenda (el_enqueue s t e) = agenda e @ [(s, t)]"
proof -
  obtain l where r: "represents e l" using assms(1) by (auto simp: el_ok_def)
  show ?thesis
    unfolding agenda_represents [OF r] agenda_represents [OF represents_enqueue(1) [OF r assms(2)]] by simp
qed

lemma agenda_pop: "el_ok e \<Longrightarrow> set (agenda (snd (pop_task e))) \<subseteq> set (agenda e)"
proof -
  assume "el_ok e"
  then obtain l where r: "represents e l" by (auto simp: el_ok_def)
  show ?thesis
  proof (cases l)
    case (Cons x l')
    obtain i s t where x: "x = (i, s, t)" by (metis surj_pair)
    from represents_pop_Cons [of e i s t l'] r Cons x have r': "represents (snd (pop_task e)) l'" by simp
    show ?thesis unfolding agenda_represents [OF r'] agenda_represents [OF r] Cons by auto
  qed (use r represents_pop_Nil in fastforce)
qed

lemma pop_task_agenda: "el_ok e \<Longrightarrow> fst (pop_task e) = Some x \<Longrightarrow> x \<in> set (agenda e)"
proof -
  assume "el_ok e" and x: "fst (pop_task e) = Some x"
  then obtain l where r: "represents e l" by (auto simp: el_ok_def)
  then obtain i s t l' where l: "l = (i, s, t) # l'"
    using x represents_pop_Nil [of e] by (cases l) auto
  with represents_pop_Cons [of e i s t l'] r x have "x = (s, t)" by simp
  then show ?thesis using agenda_represents [OF r] l by simp
qed

lemma agenda_navigated: "el_ok e \<Longrightarrow> set (agenda (snd (pop_navigation_task e))) \<subseteq> set (agenda e)"
proof -
  assume "el_ok e"
  then obtain l where r: "represents e l" by (auto simp: el_ok_def)
  show ?thesis
  proof (cases "remove_position navigates l")
    case None
    then show ?thesis using represents_pop_navigation [OF r] by simp
  next
    case (Some p)
    obtain x l' where p: "p = (x, l')" by (metis surj_pair)
    then have r': "represents (snd (pop_navigation_task e)) l'" and sub: "set l' \<subseteq> set l"
      using represents_pop_navigation [OF r] Some by (auto simp: remove_position_Some)
    show ?thesis unfolding agenda_represents [OF r'] agenda_represents [OF r] using sub by auto
  qed
qed

lemma agenda_cancel:
  assumes "el_ok e"
  shows "agenda (cancel_queued P e) = filter (\<lambda>x. \<not> P (snd x)) (agenda e)"
    and "agenda (cancel_tasks_for_document d e) = filter (\<lambda>x. \<not> owned_task d (snd x)) (agenda e)"
proof -
  obtain l where r: "represents e l" using assms by (auto simp: el_ok_def)
  show c: "agenda (cancel_queued P e) = filter (\<lambda>x. \<not> P (snd x)) (agenda e)" for P
    using agenda_represents [OF represents_cancel [OF r, of P]] by (simp add: agenda_represents [OF r] filter_map comp_def)
  have "agenda (cancel_tasks_for_document d e) = agenda (cancel_queued (owned_task d) e)"
    by (rule agenda_same_queues) (simp_all add: cancel_document_fields)
  then show "agenda (cancel_tasks_for_document d e) = filter (\<lambda>x. \<not> owned_task d (snd x)) (agenda e)"
    by (simp add: c)
qed

lemma agenda_advance:
  assumes "el_ok e" "el_next_task_id e + length (el_timers e) \<le> u64_max"
  shows "set (agenda (advance k e)) \<subseteq> set (agenda e) \<union> timer_entry ` set (el_timers e)"
proof -
  obtain l where r: "represents e l" using assms(1) by (auto simp: el_ok_def)
  obtain l' where a: "represents (advance k e) (l @ l')"
    "map snd l' = map timer_entry (ready_timers (saturating_add (el_now_ms e) k) (el_timers e))"
    using represents_advance [OF r assms(2)] by blast
  show ?thesis unfolding agenda_represents [OF a(1)] agenda_represents [OF r] map_append a(2)
    by (auto simp: set_ready_timers)
qed

lemma agenda_bound:
  assumes "el_ok e"
  shows "set (map snd (agenda (bind_worker_error_owner w x realm e)))
    \<subseteq> set (map snd (agenda e)) \<union> bind_owner w x realm ` set (map snd (agenda e))"
proof -
  obtain l where r: "represents e l" using assms by (auto simp: el_ok_def)
  show ?thesis
    unfolding agenda_represents [OF r] agenda_represents [OF represents_bind [OF r]] by (auto simp: rev_image_eqI)
qed

lemma works_for_timer_entry: "works_for d (snd (timer_entry t)) \<longleftrightarrow> tt_owner_document_id t = Some d"
  by (simp add: works_for_def timer_entry_def)

lemma works_for_bind_owner: "works_for d (bind_owner w x realm t) \<longleftrightarrow> works_for d t"
  by (simp flip: owned_task_works_for)

lemma silent_subset:
  assumes "silent d e" "set (agenda e') \<subseteq> set (agenda e)" "set (el_timers e') \<subseteq> set (el_timers e)"
    "ran (el_animation_frame_callbacks e') \<subseteq> ran (el_animation_frame_callbacks e)"
  shows "silent d e'"
  using assms unfolding silent_def by blast

lemma silent_same:
  "silent d e \<Longrightarrow> same_timers e e' \<Longrightarrow> set (agenda e') \<subseteq> set (agenda e) \<Longrightarrow> silent d e'"
  by (rule silent_subset [of d e]) (simp_all add: same_timers_def)

lemma silent_quiet_step: "quiet_step d e e' \<Longrightarrow> el_ok e \<Longrightarrow> silent d e \<Longrightarrow> silent d e'"
proof (induction rule: quiet_step.induct)
  case (quiet_enqueued t e s)
  then show ?case by (simp add: silent_def agenda_enqueue)
next
  case (quiet_bound e w x realm)
  have "\<not> works_for d u" if "u \<in> set (map snd (agenda (bind_worker_error_owner w x realm e)))" for u
    using subsetD [OF agenda_bound [OF quiet_bound(1)] that] quiet_bound(2)
    by (auto simp: silent_def works_for_bind_owner)
  then show ?case using quiet_bound(2) bind_same [of e w x realm] unfolding silent_def same_timers_def by simp
next
  case (quiet_popped e)
  show ?case by (rule silent_same [OF quiet_popped(2) pop_same(1) agenda_pop [OF quiet_popped(1)]])
next
  case (quiet_navigated e)
  show ?case by (rule silent_same [OF quiet_navigated(2) pop_same(2) agenda_navigated [OF quiet_navigated(1)]])
next
  case (quiet_scheduled owner e payload delay repeat metadata)
  have "agenda (snd (schedule_timer_with_metadata payload delay repeat owner metadata e)) = agenda e"
    by (rule agenda_same_queues) (simp_all add: schedule_timer_with_metadata_def Let_def)
  then show ?case using quiet_scheduled by (auto simp: silent_def schedule_timer_with_metadata_def Let_def)
next
  case (quiet_cleared e i)
  have "agenda (clear_timer i e) = agenda e" by (rule agenda_same_queues) (simp_all add: clear_timer_def)
  then show ?case using quiet_cleared by (simp add: silent_def clear_timer_def)
next
  case (quiet_advanced e k)
  have "\<not> works_for d (snd u)" if "u \<in> set (agenda (advance k e))" for u
    using subsetD [OF agenda_advance [OF quiet_advanced(2,1)] that] quiet_advanced(3)
    by (auto simp: silent_def works_for_timer_entry)
  then show ?case using quiet_advanced(3) by (auto simp: silent_def Let_def rescheduled_def)
next
  case (quiet_loads_cancelled e ns)
  show ?case
    unfolding cancel_resource_loads_for_nodes_def
    by (rule silent_same [OF quiet_loads_cancelled(2) cancel_same])
      (simp add: agenda_cancel(1) [OF quiet_loads_cancelled(1)])
next
  case (quiet_document_cancelled e d')
  show ?case
    by (rule silent_subset [OF quiet_document_cancelled(2)])
      (auto simp: agenda_cancel(2) [OF quiet_document_cancelled(1)] cancel_document_fields ran_def split: if_splits)
next
  case (quiet_frame_scheduled owner e callback realm)
  have "agenda (snd (schedule_animation_frame_with_realm callback realm owner e)) = agenda e"
    by (rule agenda_same_queues) (simp_all add: schedule_animation_frame_with_realm_def Let_def)
  then show ?case using quiet_frame_scheduled
    by (auto simp: silent_def schedule_animation_frame_with_realm_def Let_def ran_def split: if_splits)
next
  case (quiet_frame_cancelled e i)
  have "agenda (cancel_animation_frame i e) = agenda e" by (rule agenda_same_queues) (simp_all add: cancel_animation_frame_def)
  then show ?case using quiet_frame_cancelled
    by (auto simp: silent_def cancel_animation_frame_def ran_def split: if_splits)
next
  case (quiet_frame_begun e)
  have "agenda (snd (begin_animation_frame e)) = agenda e" by (rule agenda_same_queues) (simp_all add: begin_animation_frame_def)
  then show ?case using quiet_frame_begun by (simp add: silent_def begin_animation_frame_def)
next
  case (quiet_frame_taken e i)
  have "agenda (snd (take_animation_frame_callback i e)) = agenda e"
    by (rule agenda_same_queues) (simp_all add: take_animation_frame_callback_def cancel_animation_frame_def)
  then show ?case using quiet_frame_taken
    by (auto simp: silent_def take_animation_frame_callback_def cancel_animation_frame_def ran_def split: if_splits)
qed

lemma quiet_run:
  assumes "(quiet_step d)\<^sup>*\<^sup>* e e'" "el_ok e" "silent d e"
  shows "el_ok e' \<and> silent d e'"
  using assms
proof (induction rule: rtranclp_induct)
  case (step e' e'')
  then show ?case using silent_quiet_step el_step_keeps [OF quiet_step_el_step] by blast
qed simp

lemma silent_torn_down: "el_ok e \<Longrightarrow> silent d (cancel_tasks_for_document d e)"
  by (auto simp: silent_def agenda_cancel(2) owned_task_works_for cancel_document_fields owned_frame_def ran_def
      split: if_splits)

text \<open>C39: once the tasks of a document are cancelled, nothing runs for it again: as long as nothing new is enqueued or
  scheduled for it, no task taken from the loop is a timer of it, a grant or theft of one of its locks
  or a violation event of it, and no animation frame callback of it can be taken, however the other operations
  follow one another and time advances.  Everything else is kept in its order: the tasks of other
  kinds, messages to its window among them, and the timers and frames of other owners.\<close>

theorem document_teardown_complete:
  assumes "el_reach e"
  shows "((quiet_step d)\<^sup>*\<^sup>* (cancel_tasks_for_document d e) e' \<longrightarrow>
           (\<forall>s payload owner metadata. fst (pop_task e') = Some (s, TaskTimer payload owner metadata) \<longrightarrow> owner \<noteq> Some d)
         \<and> (\<forall>s d' request stolen. fst (pop_task e') = Some (s, TaskWebLock d' request stolen) \<longrightarrow> d' \<noteq> d)
         \<and> (\<forall>s d' target event. fst (pop_task e') = Some (s, TaskSecurityPolicyViolation d' target event) \<longrightarrow> d' \<noteq> d)
         \<and> (\<forall>i c. fst (take_animation_frame_callback i e') = Some c \<longrightarrow> af_document_id c \<noteq> Some d))
       \<and> agenda (cancel_tasks_for_document d e) = filter (\<lambda>x. \<not> works_for d (snd x)) (agenda e)
       \<and> el_timers (cancel_tasks_for_document d e) = filter (\<lambda>t. tt_owner_document_id t \<noteq> Some d) (el_timers e)
       \<and> (\<forall>i. el_animation_frame_callbacks (cancel_tasks_for_document d e) i
               = (case el_animation_frame_callbacks e i of
                    None \<Rightarrow> None | Some c \<Rightarrow> if af_document_id c = Some d then None else Some c))"
proof (intro conjI impI)
  have ok: "el_ok e" by (rule el_reach_ok [OF assms])
  show "agenda (cancel_tasks_for_document d e) = filter (\<lambda>x. \<not> works_for d (snd x)) (agenda e)"
    by (simp add: agenda_cancel(2) [OF ok] owned_task_works_for)
  show "\<forall>i. el_animation_frame_callbacks (cancel_tasks_for_document d e) i
      = (case el_animation_frame_callbacks e i of
           None \<Rightarrow> None | Some c \<Rightarrow> if af_document_id c = Some d then None else Some c)"
    by (auto simp: cancel_document_fields owned_frame_def split: option.split)
  assume run: "(quiet_step d)\<^sup>*\<^sup>* (cancel_tasks_for_document d e) e'"
  have "el_ok (cancel_tasks_for_document d e)" by (rule el_step_keeps [OF document_cancelled ok])
  from quiet_run [OF run this silent_torn_down [OF ok]] have q: "el_ok e'" "silent d e'" by blast+
  have t: "\<not> works_for d t" if "fst (pop_task e') = Some (s, t)" for s t
    using pop_task_agenda [OF q(1) that] q(2) by (auto simp: silent_def)
  show "\<forall>s payload owner metadata. fst (pop_task e') = Some (s, TaskTimer payload owner metadata) \<longrightarrow> owner \<noteq> Some d"
    "\<forall>s d' request stolen. fst (pop_task e') = Some (s, TaskWebLock d' request stolen) \<longrightarrow> d' \<noteq> d"
    "\<forall>s d' target event. fst (pop_task e') = Some (s, TaskSecurityPolicyViolation d' target event) \<longrightarrow> d' \<noteq> d"
    using t unfolding works_for_def by blast+
  show "\<forall>i c. fst (take_animation_frame_callback i e') = Some c \<longrightarrow> af_document_id c \<noteq> Some d"
    using q(2) by (auto simp: silent_def take_animation_frame_callback_def ran_def)
qed (simp add: cancel_document_fields)

section \<open>An example run\<close>

definition demo_loop :: "(nat, nat, nat) EventLoop" where
  "demo_loop =
     snd (schedule_timer_with_metadata (PlSource ''x'') 5 False (Some 7) None
       (el_enqueue SrcNavigation (TaskNavigation 1 None None) event_loop_default))"

lemma demo_loop_reach: "el_reach demo_loop"
proof -
  have "el_step event_loop_default
      (el_enqueue SrcNavigation (TaskNavigation 1 None None) (event_loop_default :: (nat, nat, nat) EventLoop))"
    by (rule enqueued) (simp add: event_loop_default_def u64_max_def)
  moreover have "el_step (el_enqueue SrcNavigation (TaskNavigation 1 None None) event_loop_default) demo_loop"
    unfolding demo_loop_def by (rule scheduled) (simp add: event_loop_default_def u64_max_def)
  ultimately show ?thesis unfolding el_reach_def by (meson r_into_rtranclp rtranclp_trans)
qed

lemma demo_loop_eq:
  "demo_loop =
     \<lparr>el_next_task_id = 2, el_queues = [SrcNavigation \<mapsto> [(1, TaskNavigation 1 None None)]],
      el_order = [(1, SrcNavigation)], el_next_timer_id = 2, el_now_ms = 0,
      el_timers = [\<lparr>tt_id = 1, tt_payload = PlSource ''x'', tt_owner_document_id = Some 7, tt_metadata = None,
                    tt_next_run_at = 5, tt_interval_ms = 5, tt_repeat = False\<rparr>],
      el_next_animation_frame_id = 0, el_animation_frame_order = [], el_animation_frame_callbacks = Map.empty\<rparr>"
  by (simp add: demo_loop_def schedule_timer_with_metadata_def el_enqueue_def event_loop_default_def Let_def
      saturating_add_def u64_max_def queue_of_def)

lemma demo_loop_agenda: "agenda demo_loop = [(SrcNavigation, TaskNavigation 1 None None)]"
  by (simp add: agenda_def demo_loop_eq queue_of_def)

lemma event_loop_is_fifo_witness:
  "fst (pop_task demo_loop) = Some (SrcNavigation, TaskNavigation 1 None None) \<and> agenda (snd (pop_task demo_loop)) = []"
  using event_loop_is_fifo [OF demo_loop_reach] by (simp add: demo_loop_agenda)

lemma timers_fire_in_order_witness:
  "\<exists>ready. agenda (advance 5 demo_loop) = agenda demo_loop @ map timer_entry ready
     \<and> set ready = {t. t \<in> set (el_timers demo_loop) \<and> tt_next_run_at t \<le> 5}"
proof -
  have "el_next_task_id demo_loop + length (el_timers demo_loop) \<le> u64_max" by (simp add: demo_loop_eq u64_max_def)
  from timers_fire_in_order [OF demo_loop_reach this, of 5] show ?thesis
    by (auto simp: demo_loop_eq u64_max_def)
qed

lemma timer_delay_exact_witness:
  "agenda (advance 5 (snd (pop_task demo_loop))) \<noteq> []"
proof -
  have r: "el_reach (snd (pop_task demo_loop))"
    using demo_loop_reach unfolding el_reach_def by (meson popped rtranclp.rtrancl_into_rtrancl)
  have e: "agenda (snd (pop_task demo_loop)) = []" "next_timer_delay_ms (snd (pop_task demo_loop)) = Some 5"
    "el_next_task_id (snd (pop_task demo_loop)) + length (el_timers (snd (pop_task demo_loop))) \<le> u64_max"
    by (simp_all add: demo_loop_eq pop_task_def agenda_def next_timer_delay_ms_def u64_max_def)
  show ?thesis using timer_delay_exact [OF r e] by blast
qed

lemma document_teardown_complete_witness:
  "el_timers (cancel_tasks_for_document 7 demo_loop) = []
   \<and> agenda (cancel_tasks_for_document 7 demo_loop) = [(SrcNavigation, TaskNavigation 1 None None)]"
  using document_teardown_complete [OF demo_loop_reach, of 7]
  by (simp add: demo_loop_agenda works_for_def) (simp add: demo_loop_eq)

end
