(* ===== verification/HtmlInput.thy ===== *)
theory HtmlInput
  imports RustStd
begin

text \<open>
  The input side of the HTML tokenizer: \<open>src/html/tokenizer/input.rs\<close> (code points, the decoder of UTF-16
  writes, the text buffer), \<open>src/html/tokenizer/source_position.rs\<close> and \<open>src/dom/string.rs\<close>.  A Rust \<open>char\<close> is
  the number of its scalar value, a Rust \<open>String\<close> is the list of its scalar values and a UTF-16 code unit is
  a 16-bit word.
\<close>

section \<open>Scalar values and UTF-16\<close>

type_synonym scalar = nat
type_synonym u16 = "16 word"

definition asc :: "char \<Rightarrow> scalar" where
  "asc c = of_char c"

definition lit :: "string \<Rightarrow> scalar list" where
  "lit s = map asc s"

definition is_scalar_value :: "nat \<Rightarrow> bool" where
  "is_scalar_value n \<longleftrightarrow> n < 0xD800 \<or> 0xE000 \<le> n \<and> n < 0x110000"

definition sc_digit :: "scalar \<Rightarrow> bool" where
  "sc_digit c \<longleftrightarrow> 48 \<le> c \<and> c \<le> 57"

definition sc_alphabetic :: "scalar \<Rightarrow> bool" where
  "sc_alphabetic c \<longleftrightarrow> 65 \<le> c \<and> c \<le> 90 \<or> 97 \<le> c \<and> c \<le> 122"

definition sc_alphanumeric :: "scalar \<Rightarrow> bool" where
  "sc_alphanumeric c \<longleftrightarrow> sc_digit c \<or> sc_alphabetic c"

definition sc_lower :: "scalar \<Rightarrow> scalar" where
  "sc_lower c = (if 65 \<le> c \<and> c \<le> 90 then c + 32 else c)"

definition sc_eq_ignore_case :: "scalar list \<Rightarrow> scalar list \<Rightarrow> bool" where
  "sc_eq_ignore_case a b \<longleftrightarrow> map sc_lower a = map sc_lower b"

text \<open>The number of bytes of a scalar value in UTF-8, as \<open>String::len\<close> counts it.\<close>

definition len_utf8 :: "scalar \<Rightarrow> nat" where
  "len_utf8 c = (if c < 0x80 then 1 else if c < 0x800 then 2 else if c < 0x10000 then 3 else 4)"

definition len_utf16 :: "scalar \<Rightarrow> nat" where
  "len_utf16 c = (if c < 0x10000 then 1 else 2)"

definition encode_utf16 :: "scalar \<Rightarrow> u16 list" where
  "encode_utf16 c =
     (if c < 0x10000 then [word_of_nat c]
      else [word_of_nat (0xD800 + (c - 0x10000) div 0x400), word_of_nat (0xDC00 + (c - 0x10000) mod 0x400)])"

definition encode_text :: "scalar list \<Rightarrow> u16 list" where
  "encode_text s = concat (map encode_utf16 s)"

definition is_high :: "u16 \<Rightarrow> bool" where
  "is_high u \<longleftrightarrow> 0xD800 \<le> unat u \<and> unat u \<le> 0xDBFF"

definition is_low :: "u16 \<Rightarrow> bool" where
  "is_low u \<longleftrightarrow> 0xDC00 \<le> unat u \<and> unat u \<le> 0xDFFF"

definition surrogate_pair :: "u16 \<Rightarrow> u16 \<Rightarrow> scalar" where
  "surrogate_pair high low = 0x10000 + (unat high - 0xD800) * 0x400 + (unat low - 0xDC00)"

text \<open>\<open>char::decode_utf16\<close>: scalar values, and unpaired surrogates as errors.\<close>

fun decode_utf16 :: "u16 list \<Rightarrow> (u16 + scalar) list" where
  "decode_utf16 [] = []"
| "decode_utf16 [u] = [if is_high u \<or> is_low u then Inl u else Inr (unat u)]"
| "decode_utf16 (u # v # us) =
     (if is_high u \<and> is_low v then Inr (surrogate_pair u v) # decode_utf16 us
      else (if is_high u \<or> is_low u then Inl u else Inr (unat u)) # decode_utf16 (v # us))"

definition string_from_utf16 :: "u16 list \<Rightarrow> scalar list option" where
  "string_from_utf16 us =
     (let ps = decode_utf16 us in
      if list_all (\<lambda>p. case p of Inl _ \<Rightarrow> False | Inr _ \<Rightarrow> True) ps then Some (map projr ps) else None)"

definition string_from_utf16_lossy :: "u16 list \<Rightarrow> scalar list" where
  "string_from_utf16_lossy us = map (\<lambda>p. case p of Inl _ \<Rightarrow> 0xFFFD | Inr c \<Rightarrow> c) (decode_utf16 us)"

section \<open>Strings of the DOM\<close>

datatype DomString = DomScalar "scalar list" | DomUtf16 "u16 list"

definition dom_string_from_utf16 :: "u16 list \<Rightarrow> DomString" where
  "dom_string_from_utf16 us = (case string_from_utf16 us of Some s \<Rightarrow> DomScalar s | None \<Rightarrow> DomUtf16 us)"

fun into_parts :: "DomString \<Rightarrow> scalar list \<times> u16 list option" where
  "into_parts (DomScalar s) = (s, None)"
| "into_parts (DomUtf16 us) = (string_from_utf16_lossy us, Some us)"

fun dom_string_is_empty :: "DomString \<Rightarrow> bool" where
  "dom_string_is_empty (DomScalar s) = (s = [])"
| "dom_string_is_empty (DomUtf16 us) = (us = [])"

section \<open>Code points of the input\<close>

datatype InputCodePoint = PtScalar scalar | PtSurrogate u16

fun scalar_view :: "InputCodePoint \<Rightarrow> scalar" where
  "scalar_view (PtScalar c) = c"
| "scalar_view (PtSurrogate _) = 0xFFFD"

fun append_utf16 :: "InputCodePoint \<Rightarrow> u16 list \<Rightarrow> u16 list" where
  "append_utf16 (PtScalar c) out = out @ encode_utf16 c"
| "append_utf16 (PtSurrogate u) out = out @ [u]"

text \<open>The decoder is its pending high surrogate; the output is appended to.\<close>

record InputDecoder =
  pending_high :: "u16 option"

definition decoder_finish :: "InputDecoder \<times> InputCodePoint list \<Rightarrow> InputDecoder \<times> InputCodePoint list" where
  "decoder_finish = (\<lambda>(d, out).
     case pending_high d of
       Some high \<Rightarrow> (d\<lparr>pending_high := None\<rparr>, out @ [PtSurrogate high])
     | None \<Rightarrow> (d, out))"

definition decoder_push_str ::
  "scalar list \<Rightarrow> InputDecoder \<times> InputCodePoint list \<Rightarrow> InputDecoder \<times> InputCodePoint list" where
  "decoder_push_str s x =
     (if s = [] then x else let (d, out) = decoder_finish x in (d, out @ map PtScalar s))"

text \<open>A unit that does not complete a pair.\<close>

definition decoder_unit :: "u16 \<Rightarrow> InputDecoder \<times> InputCodePoint list \<Rightarrow> InputDecoder \<times> InputCodePoint list" where
  "decoder_unit u = (\<lambda>(d, out).
     if is_high u then (d\<lparr>pending_high := Some u\<rparr>, out)
     else if is_low u then (d, out @ [PtSurrogate u])
     else (d, out @ [PtScalar (unat u)]))"

definition decoder_push_unit :: "u16 \<Rightarrow> InputDecoder \<times> InputCodePoint list \<Rightarrow> InputDecoder \<times> InputCodePoint list" where
  "decoder_push_unit u = (\<lambda>(d, out).
     case pending_high d of
       None \<Rightarrow> decoder_unit u (d, out)
     | Some high \<Rightarrow>
         (let d = d\<lparr>pending_high := None\<rparr> in
          if is_low u then (d, out @ [PtScalar (surrogate_pair high u)])
          else decoder_unit u (d, out @ [PtSurrogate high])))"

definition decoder_push ::
  "u16 list \<Rightarrow> InputDecoder \<times> InputCodePoint list \<Rightarrow> InputDecoder \<times> InputCodePoint list" where
  "decoder_push us x = fold decoder_push_unit us x"

section \<open>Text buffers\<close>

type_synonym TextBuffer = DomString

definition text_buffer_default :: TextBuffer where
  "text_buffer_default = DomScalar []"

fun push_code_point :: "InputCodePoint \<Rightarrow> TextBuffer \<Rightarrow> TextBuffer" where
  "push_code_point (PtScalar c) (DomScalar s) = DomScalar (s @ [c])"
| "push_code_point (PtSurrogate u) (DomScalar s) = DomUtf16 (encode_text s @ [u])"
| "push_code_point p (DomUtf16 us) = DomUtf16 (append_utf16 p us)"

definition buf_push :: "scalar \<Rightarrow> TextBuffer \<Rightarrow> TextBuffer" where
  "buf_push c = push_code_point (PtScalar c)"

fun buf_push_str :: "scalar list \<Rightarrow> TextBuffer \<Rightarrow> TextBuffer" where
  "buf_push_str t (DomScalar s) = DomScalar (s @ t)"
| "buf_push_str t (DomUtf16 us) = DomUtf16 (us @ encode_text t)"

text \<open>\<open>take\<close> leaves the empty buffer behind: the second component is the buffer afterwards.\<close>

definition buf_take :: "TextBuffer \<Rightarrow> DomString option \<times> TextBuffer" where
  "buf_take b =
     (if dom_string_is_empty b then (None, b)
      else (Some (case b of DomScalar s \<Rightarrow> DomScalar s | DomUtf16 us \<Rightarrow> dom_string_from_utf16 us), text_buffer_default))"

definition taken_or_empty :: "TextBuffer \<Rightarrow> DomString" where
  "taken_or_empty b = (case fst (buf_take b) of Some s \<Rightarrow> s | None \<Rightarrow> DomScalar [])"

section \<open>Source positions\<close>

definition u32_max :: nat where "u32_max = 2 ^ 32 - 1"

definition sat32 :: "nat \<Rightarrow> nat" where
  "sat32 n = min n u32_max"

record SourcePosition =
  sp_line :: nat
  sp_column :: nat
  sp_after_cr :: bool

definition source_position_default :: SourcePosition where
  "source_position_default = \<lparr>sp_line = 1, sp_column = 1, sp_after_cr = False\<rparr>"

definition sp_advance :: "InputCodePoint \<Rightarrow> SourcePosition \<Rightarrow> SourcePosition" where
  "sp_advance p pos =
     (if p = PtScalar 13 then
        pos\<lparr>sp_line := sat32 (sp_line pos + 1), sp_column := 1, sp_after_cr := True\<rparr>
      else if p = PtScalar 10 then
        pos\<lparr>sp_line := (if sp_after_cr pos then sp_line pos else sat32 (sp_line pos + 1)), sp_column := 1,
            sp_after_cr := False\<rparr>
      else
        let width = (case p of PtScalar c \<Rightarrow> len_utf16 c | PtSurrogate _ \<Rightarrow> 1) in
        pos\<lparr>sp_column := sat32 (sp_column pos + width), sp_after_cr := False\<rparr>)"

end
