(* ===== verification/HtmlTokenizer.thy ===== *)
theory HtmlTokenizer
  imports HtmlInput
begin

text \<open>
  The HTML tokenizer of \<open>src/html/tokenizer.rs\<close> and \<open>src/html/tokenizer/processing_instruction.rs\<close>.  A step
  takes the code point \<open>p\<close> that the loop of \<open>drain\<close> has just consumed and the list \<open>r\<close> of code points behind it, and
  returns what the cursor has left: \<open>r\<close>, \<open>p # r\<close> when it reconsumes (the flag \<open>can_reconsume\<close>
  is set then, since a code point has just been consumed), or less when it looks ahead.  The local
  variables of \<open>drain\<close> are the fields of the tokenizer, extended by the tokens and errors of the call.
\<close>

section \<open>Tokens\<close>

record Attribute =
  at_name :: "scalar list"
  at_utf16 :: "u16 list option"
  at_value :: "scalar list"

definition attribute_from_owned :: "scalar list \<Rightarrow> DomString \<Rightarrow> Attribute" where
  "attribute_from_owned name data =
     (let (value, utf16) = into_parts data in \<lparr>at_name = name, at_utf16 = utf16, at_value = value\<rparr>)"

definition attribute_into_owned :: "Attribute \<Rightarrow> scalar list \<times> DomString" where
  "attribute_into_owned a =
     (at_name a, case at_utf16 a of None \<Rightarrow> DomScalar (at_value a) | Some us \<Rightarrow> DomUtf16 us)"

definition value_utf16 :: "Attribute \<Rightarrow> u16 list" where
  "value_utf16 a = (case at_utf16 a of Some us \<Rightarrow> us | None \<Rightarrow> encode_text (at_value a))"

record DoctypeToken =
  dt_name :: "scalar list option"
  dt_public_id :: "scalar list option"
  dt_system_id :: "scalar list option"
  dt_force_quirks :: bool

datatype Token =
    StartTag "scalar list" "Attribute list" bool
  | EndTag "scalar list"
  | CommentTok "scalar list"
  | CommentUtf16 "u16 list"
  | ProcessingInstructionUtf16 "scalar list" "u16 list"
  | ProcessingInstruction "scalar list" "scalar list"
  | DoctypeTok DoctypeToken
  | Character "scalar list"
  | SurrogateTok u16
  | EofTok

datatype HtmlParseError =
    UnexpectedEof | MissingTagName | InvalidCharacterReference | InvalidDoctype
  | InvalidProcessingInstructionTarget | DisallowedProcessingInstructionTarget

datatype State =
    Data | TagOpen | EndTagOpen | TagName
  | BeforeAttributeName | AttributeName | AfterAttributeName | BeforeAttributeValue
  | AttributeValueDoubleQuoted | AttributeValueSingleQuoted | AttributeValueUnquoted
  | AfterAttributeValueQuoted | SelfClosingStartTag
  | MarkupDeclarationOpen | CommentStart | CommentStartDash | Comment | CommentEndDash | CommentEnd | BogusComment
  | Doctype | BeforeDoctypeName | DoctypeName | AfterDoctypeName | AfterDoctypePublicKeyword
  | BeforeDoctypePublicIdentifier | DoctypePublicIdentifierDoubleQuoted | DoctypePublicIdentifierSingleQuoted
  | AfterDoctypePublicIdentifier | BetweenDoctypePublicAndSystemIdentifiers | AfterDoctypeSystemKeyword
  | BeforeDoctypeSystemIdentifier | DoctypeSystemIdentifierDoubleQuoted | DoctypeSystemIdentifierSingleQuoted
  | AfterDoctypeSystemIdentifier | BogusDoctype
  | RawText | RawTextLessThanSign | RawTextEndTagOpen | RawTextEndTagName
  | RcData | RcDataLessThanSign | RcDataEndTagOpen | RcDataEndTagName
  | ScriptData | ScriptDataLessThanSign | ScriptDataEndTagOpen | ScriptDataEndTagName
  | ScriptDataEscapeStart | ScriptDataEscapeStartDash | ScriptDataEscaped | ScriptDataEscapedDash
  | ScriptDataEscapedDashDash | ScriptDataEscapedLessThanSign | ScriptDataEscapedEndTagOpen
  | ScriptDataEscapedEndTagName | ScriptDataDoubleEscapeStart | ScriptDataDoubleEscaped
  | ScriptDataDoubleEscapedDash | ScriptDataDoubleEscapedDashDash | ScriptDataDoubleEscapedLessThanSign
  | ScriptDataDoubleEscapeEnd
  | PlainText

section \<open>The tokenizer and the locals of one drain\<close>

record IncrementalTokenizer =
  it_source_position :: SourcePosition
  it_script_source_positions :: "(nat \<times> SourcePosition) list"
  it_scripting_enabled :: bool
  it_pending :: "InputCodePoint list"
  it_input_decoder :: InputDecoder
  it_state :: State
  it_text_buffer :: TextBuffer
  it_current_tag_name :: "scalar list"
  it_current_end_tag_name :: "scalar list"
  it_current_attributes :: "Attribute list"
  it_current_attr_name :: "scalar list"
  it_current_attr_value :: TextBuffer
  it_current_self_closing :: bool
  it_current_comment :: TextBuffer
  it_doctype_name :: "scalar list"
  it_doctype_public_id :: "scalar list option"
  it_doctype_system_id :: "scalar list option"
  it_doctype_force_quirks :: bool
  it_temp_buffer :: "scalar list"
  it_last_start_tag_name :: "scalar list"

record Drain = IncrementalTokenizer +
  dr_tokens :: "Token list"
  dr_errors :: "HtmlParseError list"

definition incremental_tokenizer_new :: IncrementalTokenizer where
  "incremental_tokenizer_new =
     \<lparr>it_source_position = source_position_default, it_script_source_positions = [], it_scripting_enabled = True,
      it_pending = [], it_input_decoder = \<lparr>pending_high = None\<rparr>, it_state = Data,
      it_text_buffer = text_buffer_default, it_current_tag_name = [], it_current_end_tag_name = [],
      it_current_attributes = [], it_current_attr_name = [], it_current_attr_value = text_buffer_default,
      it_current_self_closing = False, it_current_comment = text_buffer_default, it_doctype_name = [],
      it_doctype_public_id = None, it_doctype_system_id = None, it_doctype_force_quirks = False,
      it_temp_buffer = [], it_last_start_tag_name = []\<rparr>"

definition push_input :: "scalar list \<Rightarrow> IncrementalTokenizer \<Rightarrow> IncrementalTokenizer" where
  "push_input s t =
     (let (d, out) = decoder_push_str s (it_input_decoder t, it_pending t)
      in t\<lparr>it_input_decoder := d, it_pending := out\<rparr>)"

definition push_input_utf16 :: "u16 list \<Rightarrow> IncrementalTokenizer \<Rightarrow> IncrementalTokenizer" where
  "push_input_utf16 us t =
     (let (d, out) = decoder_push us (it_input_decoder t, it_pending t)
      in t\<lparr>it_input_decoder := d, it_pending := out\<rparr>)"

definition finish_input_chunk :: "IncrementalTokenizer \<Rightarrow> IncrementalTokenizer" where
  "finish_input_chunk t =
     (let (d, out) = decoder_finish (it_input_decoder t, it_pending t)
      in t\<lparr>it_input_decoder := d, it_pending := out\<rparr>)"

definition take_pending_input_owned :: "IncrementalTokenizer \<Rightarrow> DomString \<times> IncrementalTokenizer" where
  "take_pending_input_owned t =
     (let t = finish_input_chunk t
      in (taken_or_empty (fold push_code_point (it_pending t) text_buffer_default), t\<lparr>it_pending := []\<rparr>))"

definition goto :: "State \<Rightarrow> Drain \<Rightarrow> Drain" where "goto s d = d\<lparr>it_state := s\<rparr>"
definition add_error :: "HtmlParseError \<Rightarrow> Drain \<Rightarrow> Drain" where "add_error e d = d\<lparr>dr_errors := dr_errors d @ [e]\<rparr>"
definition emit :: "Token \<Rightarrow> Drain \<Rightarrow> Drain" where "emit t d = d\<lparr>dr_tokens := dr_tokens d @ [t]\<rparr>"

definition text_point :: "InputCodePoint \<Rightarrow> Drain \<Rightarrow> Drain" where
  "text_point p d = d\<lparr>it_text_buffer := push_code_point p (it_text_buffer d)\<rparr>"
definition text_push :: "char \<Rightarrow> Drain \<Rightarrow> Drain" where
  "text_push c d = d\<lparr>it_text_buffer := buf_push (asc c) (it_text_buffer d)\<rparr>"
definition text_str :: "scalar list \<Rightarrow> Drain \<Rightarrow> Drain" where
  "text_str s d = d\<lparr>it_text_buffer := buf_push_str s (it_text_buffer d)\<rparr>"
definition attr_point :: "InputCodePoint \<Rightarrow> Drain \<Rightarrow> Drain" where
  "attr_point p d = d\<lparr>it_current_attr_value := push_code_point p (it_current_attr_value d)\<rparr>"
definition comment_point :: "InputCodePoint \<Rightarrow> Drain \<Rightarrow> Drain" where
  "comment_point p d = d\<lparr>it_current_comment := push_code_point p (it_current_comment d)\<rparr>"
definition comment_str :: "scalar list \<Rightarrow> Drain \<Rightarrow> Drain" where
  "comment_str s d = d\<lparr>it_current_comment := buf_push_str s (it_current_comment d)\<rparr>"

section \<open>Pieces of the state machine\<close>

definition is_tag_name_start :: "scalar \<Rightarrow> bool" where
  "is_tag_name_start c = sc_alphabetic c"

definition is_html_whitespace :: "scalar \<Rightarrow> bool" where
  "is_html_whitespace c \<longleftrightarrow> c \<in> {9, 10, 12, 13, 32}"

definition comment_token :: "TextBuffer \<Rightarrow> Token" where
  "comment_token b = (case taken_or_empty b of DomScalar s \<Rightarrow> CommentTok s | DomUtf16 us \<Rightarrow> CommentUtf16 us)"

text \<open>Runs of scalar values and single unpaired surrogates; \<open>acc\<close> is the run collected so far.\<close>

fun surrogate_runs :: "scalar list \<Rightarrow> (u16 + scalar) list \<Rightarrow> Token list" where
  "surrogate_runs acc [] = (if acc = [] then [] else [Character acc])"
| "surrogate_runs acc (Inr c # ps) = surrogate_runs (acc @ [c]) ps"
| "surrogate_runs acc (Inl u # ps) = (if acc = [] then [] else [Character acc]) @ SurrogateTok u # surrogate_runs [] ps"

definition text_tokens :: "TextBuffer \<Rightarrow> Token list" where
  "text_tokens b =
     (case fst (buf_take b) of
        None \<Rightarrow> []
      | Some (DomScalar s) \<Rightarrow> [Character s]
      | Some (DomUtf16 us) \<Rightarrow> surrogate_runs [] (decode_utf16 us))"

definition flush_text :: "Drain \<Rightarrow> Drain" where
  "flush_text d = d\<lparr>dr_tokens := dr_tokens d @ text_tokens (it_text_buffer d),
                   it_text_buffer := snd (buf_take (it_text_buffer d))\<rparr>"

definition push_attribute :: "Drain \<Rightarrow> Drain" where
  "push_attribute d =
     (if it_current_attr_name d = [] then d
      else d\<lparr>it_current_attributes := it_current_attributes d @
               [attribute_from_owned (it_current_attr_name d) (taken_or_empty (it_current_attr_value d))],
             it_current_attr_name := [],
             it_current_attr_value := snd (buf_take (it_current_attr_value d))\<rparr>)"

definition emit_tag :: "Drain \<Rightarrow> Drain" where
  "emit_tag d =
     (if it_current_end_tag_name d \<noteq> [] then emit (EndTag (it_current_end_tag_name d)) d
      else if it_current_tag_name d \<noteq> [] then
        (emit (StartTag (it_current_tag_name d) (it_current_attributes d) (it_current_self_closing d)) d)
          \<lparr>it_current_attributes := []\<rparr>
      else d)"

definition raw_next_state :: "scalar list \<Rightarrow> bool \<Rightarrow> bool \<Rightarrow> State" where
  "raw_next_state tag_name self_closing scripting_enabled =
     (if self_closing then Data
      else if tag_name = lit ''script'' then ScriptData
      else if tag_name \<in> {lit ''style'', lit ''xmp'', lit ''noembed'', lit ''noframes''} then RawText
      else if tag_name = lit ''noscript'' \<and> scripting_enabled then RawText
      else if tag_name \<in> {lit ''title'', lit ''textarea''} then RcData
      else if tag_name = lit ''plaintext'' then PlainText
      else Data)"

definition close_current_tag :: "Drain \<Rightarrow> Drain" where
  "close_current_tag d0 =
     (let d = emit_tag d0;
          next = raw_next_state (it_current_tag_name d) (it_current_self_closing d) (it_scripting_enabled d);
          d = (if it_current_end_tag_name d = [] then
                 goto next (if next \<noteq> Data then d\<lparr>it_last_start_tag_name := it_current_tag_name d\<rparr> else d)
               else goto Data d)
      in d\<lparr>it_current_tag_name := [], it_current_end_tag_name := [], it_current_attributes := [],
            it_current_self_closing := False\<rparr>)"

text \<open>The entity up to and including its semicolon; \<open>None\<close> when another character interrupts it.\<close>

fun scan_entity :: "InputCodePoint list \<Rightarrow> (scalar list \<times> InputCodePoint list) option" where
  "scan_entity [] = Some ([], [])"
| "scan_entity (p # r) =
     (let ch = scalar_view p in
      if ch = asc CHR '';'' then Some ([], r)
      else if \<not> (sc_alphanumeric ch \<or> ch = asc CHR ''#'') then None
      else map_option (apfst ((#) ch)) (scan_entity r))"

definition numeric_reference :: "nat \<Rightarrow> scalar list \<Rightarrow> scalar list option" where
  "numeric_reference radix digits =
     (case parse_uint radix u32_max (map char_of digits) of
        Some v \<Rightarrow> if is_scalar_value v then Some [v] else None
      | None \<Rightarrow> None)"

definition entity_value :: "scalar list \<Rightarrow> scalar list option" where
  "entity_value entity =
     (if entity = lit ''amp'' then Some (lit ''&'')
      else if entity = lit ''lt'' then Some (lit ''<'')
      else if entity = lit ''gt'' then Some (lit ''>'')
      else if entity = lit ''quot'' then Some (lit [CHR 0x22])
      else if entity = lit ''apos'' then Some (lit [CHR 0x27])
      else if entity = lit ''nbsp'' then Some [0xA0]
      else if take 2 entity = lit ''#x'' \<or> take 2 entity = lit ''#X'' then numeric_reference 16 (drop 2 entity)
      else if take 1 entity = lit ''#'' then numeric_reference 10 (drop 1 entity)
      else None)"

text \<open>On failure the cursor is where it was.\<close>

definition consume_character_reference ::
  "InputCodePoint list \<Rightarrow> (HtmlParseError + scalar list) \<times> InputCodePoint list" where
  "consume_character_reference r =
     (case scan_entity r of
        None \<Rightarrow> (Inl InvalidCharacterReference, r)
      | Some (entity, r') \<Rightarrow>
          (case if entity = [] then None else entity_value entity of
             None \<Rightarrow> (Inl InvalidCharacterReference, r)
           | Some s \<Rightarrow> (Inr s, r')))"

definition text_reference :: "InputCodePoint list \<Rightarrow> Drain \<Rightarrow> Drain \<times> InputCodePoint list" where
  "text_reference r d =
     (case consume_character_reference r of
        (Inr decoded, r') \<Rightarrow> (text_str decoded d, r')
      | (Inl e, r') \<Rightarrow> (text_push CHR ''&'' (add_error e d), r'))"

definition attr_reference :: "InputCodePoint list \<Rightarrow> Drain \<Rightarrow> Drain \<times> InputCodePoint list" where
  "attr_reference r d =
     (case consume_character_reference r of
        (Inr decoded, r') \<Rightarrow>
          (d\<lparr>it_current_attr_value := buf_push_str decoded (it_current_attr_value d)\<rparr>, r')
      | (Inl e, r') \<Rightarrow>
          ((add_error e d)\<lparr>it_current_attr_value := buf_push (asc CHR ''&'') (it_current_attr_value d)\<rparr>, r'))"


section \<open>Processing instructions\<close>

fun pi_bogus_data :: "TextBuffer \<Rightarrow> InputCodePoint list \<Rightarrow> TextBuffer \<times> InputCodePoint list" where
  "pi_bogus_data data [] = (data, [])"
| "pi_bogus_data data (p # r) =
     (if scalar_view p = asc CHR ''>'' then (data, r)
      else pi_bogus_data (if scalar_view p = 0 then buf_push 0xFFFD data else push_code_point p data) r)"

definition pi_bogus_comment :: "InputCodePoint list \<Rightarrow> scalar list \<Rightarrow> Token \<times> InputCodePoint list" where
  "pi_bogus_comment r target =
     (let (data, r') = pi_bogus_data (buf_push_str (asc CHR ''?'' # target) text_buffer_default) r
      in (comment_token data, r'))"

definition pi_name_char :: "scalar \<Rightarrow> bool" where
  "pi_name_char c \<longleftrightarrow> sc_alphanumeric c \<or> c = asc CHR ''-'' \<or> c = asc CHR ''_''"

fun pi_data :: "TextBuffer \<Rightarrow> InputCodePoint list \<Rightarrow> TextBuffer option \<times> InputCodePoint list" where
  "pi_data data [] = (None, [])"
| "pi_data data (p # r) =
     (let ch = scalar_view p in
      if ch = asc CHR ''>'' then (Some data, r)
      else
        case r of
          q # r' \<Rightarrow>
            if ch = asc CHR ''?'' \<and> scalar_view q = asc CHR ''>'' then (Some data, r')
            else pi_data (push_code_point p data) r
        | [] \<Rightarrow> pi_data (push_code_point p data) r)"

definition pi_token :: "scalar list \<Rightarrow> TextBuffer \<Rightarrow> Token" where
  "pi_token target data =
     (case taken_or_empty data of
        DomScalar s \<Rightarrow> ProcessingInstruction target s
      | DomUtf16 us \<Rightarrow> ProcessingInstructionUtf16 target us)"

text \<open>What follows the target.\<close>

definition pi_after_target ::
  "scalar list \<Rightarrow> InputCodePoint list \<Rightarrow> Drain \<Rightarrow> Drain \<times> InputCodePoint list" where
  "pi_after_target target r d =
     (case r of
        [] \<Rightarrow> (add_error UnexpectedEof d, r)
      | delimiter # _ \<Rightarrow>
          if \<not> is_html_whitespace (scalar_view delimiter)
             \<and> scalar_view delimiter \<notin> {asc CHR ''?'', asc CHR ''>''} then
            (let (t, r') = pi_bogus_comment r target in (emit t (add_error InvalidProcessingInstructionTarget d), r'))
          else if sc_eq_ignore_case target (lit ''xml'') \<or> sc_eq_ignore_case target (lit ''xml-stylesheet'') then
            (let (t, r') = pi_bogus_comment r target in
             (emit t (add_error DisallowedProcessingInstructionTarget d), r'))
          else
            (case pi_data text_buffer_default (dropWhile (\<lambda>p. is_html_whitespace (scalar_view p)) r) of
               (Some data, r') \<Rightarrow> (emit (pi_token target data) d, r')
             | (None, r') \<Rightarrow> (add_error UnexpectedEof d, r')))"

definition pi_consume :: "InputCodePoint list \<Rightarrow> Drain \<Rightarrow> Drain \<times> InputCodePoint list" where
  "pi_consume r d =
     (case r of
        [] \<Rightarrow> (add_error UnexpectedEof d, r)
      | first # _ \<Rightarrow>
          if \<not> sc_alphabetic (scalar_view first) \<and> scalar_view first \<noteq> asc CHR ''_'' then
            (let (t, r') = pi_bogus_comment r [] in (emit t (add_error InvalidProcessingInstructionTarget d), r'))
          else
            pi_after_target (map scalar_view (takeWhile (\<lambda>p. pi_name_char (scalar_view p)) r))
              (dropWhile (\<lambda>p. pi_name_char (scalar_view p)) r) d)"

section \<open>Steps outside raw text\<close>

definition step_content :: "InputCodePoint \<Rightarrow> InputCodePoint list \<Rightarrow> Drain \<Rightarrow> Drain \<times> InputCodePoint list" where
  "step_content p r d =
     (let ch = scalar_view p in
      case it_state d of
        Data \<Rightarrow>
          if ch = asc CHR ''<'' then (goto TagOpen (flush_text d), r)
          else if ch = asc CHR ''&'' then text_reference r d
          else (text_point p d, r)
      | PlainText \<Rightarrow> (text_point p d, r)
      | TagOpen \<Rightarrow>
          if ch = asc CHR ''/'' then (goto EndTagOpen (d\<lparr>it_current_end_tag_name := []\<rparr>), r)
          else if ch = asc CHR ''!'' then (goto MarkupDeclarationOpen d, r)
          else if ch = asc CHR ''?'' then apfst (goto Data) (pi_consume r d)
          else if is_tag_name_start ch then
            (goto TagName (d\<lparr>it_current_tag_name := [sc_lower ch], it_current_attributes := [],
                             it_current_self_closing := False\<rparr>), r)
          else (goto Data (text_point p (text_push CHR ''<'' (add_error MissingTagName d))), r)
      | EndTagOpen \<Rightarrow>
          if is_tag_name_start ch then (goto TagName (d\<lparr>it_current_end_tag_name := [sc_lower ch]\<rparr>), r)
          else if ch = asc CHR ''>'' then (goto Data (add_error MissingTagName d), r)
          else (goto Data (text_point p (text_str (lit ''</'') (add_error MissingTagName d))), r)
      | TagName \<Rightarrow>
          if is_html_whitespace ch then (goto BeforeAttributeName d, r)
          else if ch = asc CHR ''/'' then (goto SelfClosingStartTag d, r)
          else if ch = asc CHR ''>'' then (close_current_tag d, r)
          else if it_current_end_tag_name d = [] then
            (d\<lparr>it_current_tag_name := it_current_tag_name d @ [sc_lower ch]\<rparr>, r)
          else (d\<lparr>it_current_end_tag_name := it_current_end_tag_name d @ [sc_lower ch]\<rparr>, r)
      | _ \<Rightarrow> (d, r))"

definition attr_name_push :: "scalar \<Rightarrow> Drain \<Rightarrow> Drain" where
  "attr_name_push ch d = d\<lparr>it_current_attr_name := it_current_attr_name d @ [sc_lower ch]\<rparr>"

definition attr_clear :: "Drain \<Rightarrow> Drain" where
  "attr_clear d = d\<lparr>it_current_attr_name := [], it_current_attr_value := text_buffer_default\<rparr>"

definition step_attribute :: "InputCodePoint \<Rightarrow> InputCodePoint list \<Rightarrow> Drain \<Rightarrow> Drain \<times> InputCodePoint list" where
  "step_attribute p r d =
     (let ch = scalar_view p in
      case it_state d of
        BeforeAttributeName \<Rightarrow>
          if is_html_whitespace ch then (d, r)
          else if ch = asc CHR ''/'' then (goto SelfClosingStartTag d, r)
          else if ch = asc CHR ''>'' then (close_current_tag d, r)
          else (goto AttributeName (attr_name_push ch (attr_clear d)), r)
      | AttributeName \<Rightarrow>
          if is_html_whitespace ch then (goto AfterAttributeName d, r)
          else if ch = asc CHR ''='' then (goto BeforeAttributeValue d, r)
          else if ch = asc CHR ''/'' then (goto SelfClosingStartTag (push_attribute d), r)
          else if ch = asc CHR ''>'' then (close_current_tag (push_attribute d), r)
          else (attr_name_push ch d, r)
      | AfterAttributeName \<Rightarrow>
          if is_html_whitespace ch then (d, r)
          else if ch = asc CHR ''='' then (goto BeforeAttributeValue d, r)
          else if ch = asc CHR ''/'' then (goto SelfClosingStartTag (push_attribute d), r)
          else if ch = asc CHR ''>'' then (close_current_tag (push_attribute d), r)
          else (goto AttributeName (attr_name_push ch (push_attribute d)), r)
      | BeforeAttributeValue \<Rightarrow>
          if is_html_whitespace ch then (d, r)
          else if ch = asc CHR 0x22 then (goto AttributeValueDoubleQuoted d, r)
          else if ch = asc CHR 0x27 then (goto AttributeValueSingleQuoted d, r)
          else if ch = asc CHR ''>'' then (close_current_tag (push_attribute d), r)
          else (goto AttributeValueUnquoted (attr_point p d), r)
      | AttributeValueDoubleQuoted \<Rightarrow>
          if ch = asc CHR 0x22 then (goto AfterAttributeValueQuoted (push_attribute d), r)
          else if ch = asc CHR ''&'' then attr_reference r d
          else (attr_point p d, r)
      | AttributeValueSingleQuoted \<Rightarrow>
          if ch = asc CHR 0x27 then (goto AfterAttributeValueQuoted (push_attribute d), r)
          else if ch = asc CHR ''&'' then attr_reference r d
          else (attr_point p d, r)
      | AttributeValueUnquoted \<Rightarrow>
          if is_html_whitespace ch then (goto BeforeAttributeName (push_attribute d), r)
          else if ch = asc CHR ''&'' then attr_reference r d
          else if ch = asc CHR ''>'' then (close_current_tag (push_attribute d), r)
          else (attr_point p d, r)
      | AfterAttributeValueQuoted \<Rightarrow>
          if is_html_whitespace ch then (goto BeforeAttributeName d, r)
          else if ch = asc CHR ''/'' then (goto SelfClosingStartTag d, r)
          else if ch = asc CHR ''>'' then (close_current_tag d, r)
          else (goto BeforeAttributeName (attr_clear (add_error UnexpectedEof d)), p # r)
      | SelfClosingStartTag \<Rightarrow>
          if ch = asc CHR ''>'' then (close_current_tag (d\<lparr>it_current_self_closing := True\<rparr>), r)
          else (goto BeforeAttributeName d, p # r)
      | _ \<Rightarrow> (d, r))"

definition point_is :: "char \<Rightarrow> InputCodePoint \<Rightarrow> bool" where
  "point_is c p \<longleftrightarrow> scalar_view p = asc c"

text \<open>\<open>MarkupDeclarationOpen\<close>: \<open>--\<close>, the word \<open>doctype\<close>, or a bogus comment.\<close>

definition step_markup_declaration ::
  "InputCodePoint \<Rightarrow> InputCodePoint list \<Rightarrow> Drain \<Rightarrow> Drain \<times> InputCodePoint list" where
  "step_markup_declaration p r d =
     (if point_is CHR ''-'' p \<and> (case r of q # _ \<Rightarrow> point_is CHR ''-'' q | [] \<Rightarrow> False) then
        (goto CommentStart (d\<lparr>it_current_comment := text_buffer_default\<rparr>), tl r)
      else if sc_lower (scalar_view p) = asc CHR ''d'' then
        let taken = p # take 6 r;
            complete = length r \<ge> 6;
            lookahead_data = fold push_code_point taken text_buffer_default
        in if complete \<and> sc_eq_ignore_case (map scalar_view taken) (lit ''doctype'') then
             (goto Doctype (d\<lparr>it_doctype_name := [], it_doctype_public_id := None, it_doctype_system_id := None,
                             it_doctype_force_quirks := False\<rparr>), drop 6 r)
           else
             (goto BogusComment ((add_error InvalidDoctype d)\<lparr>it_current_comment := lookahead_data\<rparr>), drop 6 r)
      else (goto BogusComment (d\<lparr>it_current_comment := push_code_point p text_buffer_default\<rparr>), r))"

definition emit_comment :: "Drain \<Rightarrow> Drain" where
  "emit_comment d = (emit (comment_token (it_current_comment d)) d)\<lparr>it_current_comment := text_buffer_default\<rparr>"

definition step_comment :: "InputCodePoint \<Rightarrow> InputCodePoint list \<Rightarrow> Drain \<Rightarrow> Drain \<times> InputCodePoint list" where
  "step_comment p r d =
     (case it_state d of
        CommentStart \<Rightarrow>
          if point_is CHR ''-'' p then (goto CommentStartDash d, r)
          else if point_is CHR ''>'' p then (goto Data (emit (CommentTok []) d), r)
          else (goto Comment (comment_point p d), r)
      | CommentStartDash \<Rightarrow>
          if point_is CHR ''-'' p then (goto CommentEnd d, r)
          else if point_is CHR ''>'' p then (goto Data (emit (CommentTok []) d), r)
          else (goto Comment (comment_point p (comment_str (lit ''-'') d)), r)
      | Comment \<Rightarrow>
          if point_is CHR ''-'' p then (goto CommentEndDash d, r) else (comment_point p d, r)
      | CommentEndDash \<Rightarrow>
          if point_is CHR ''-'' p then (goto CommentEnd d, r)
          else (goto Comment (comment_point p (comment_str (lit ''-'') d)), r)
      | CommentEnd \<Rightarrow>
          if point_is CHR ''>'' p then (goto Data (emit_comment d), r)
          else if point_is CHR ''-'' p then (comment_str (lit ''-'') d, r)
          else (goto Comment (comment_point p (comment_str (lit ''--'') d)), r)
      | BogusComment \<Rightarrow>
          if point_is CHR ''>'' p then (goto Data (emit_comment d), r) else (comment_point p d, r)
      | _ \<Rightarrow> (d, r))"


section \<open>DOCTYPE\<close>

definition emit_doctype :: "Drain \<Rightarrow> Drain" where
  "emit_doctype d =
     (emit (DoctypeTok \<lparr>dt_name = Some (it_doctype_name d), dt_public_id = it_doctype_public_id d,
                        dt_system_id = it_doctype_system_id d, dt_force_quirks = it_doctype_force_quirks d\<rparr>) d)
       \<lparr>it_doctype_name := [], it_doctype_public_id := None, it_doctype_system_id := None,
        it_doctype_force_quirks := False\<rparr>"

definition missing_doctype :: Token where
  "missing_doctype =
     DoctypeTok \<lparr>dt_name = None, dt_public_id = None, dt_system_id = None, dt_force_quirks = True\<rparr>"

definition invalid_doctype :: "Drain \<Rightarrow> Drain" where
  "invalid_doctype d = add_error InvalidDoctype d"

definition force_quirks :: "Drain \<Rightarrow> Drain" where
  "force_quirks d = (invalid_doctype d)\<lparr>it_doctype_force_quirks := True\<rparr>"

definition name_push :: "scalar \<Rightarrow> Drain \<Rightarrow> Drain" where
  "name_push ch d = d\<lparr>it_doctype_name := it_doctype_name d @ [sc_lower ch]\<rparr>"

definition public_push :: "scalar \<Rightarrow> Drain \<Rightarrow> Drain" where
  "public_push ch d = d\<lparr>it_doctype_public_id := map_option (\<lambda>i. i @ [ch]) (it_doctype_public_id d)\<rparr>"

definition system_push :: "scalar \<Rightarrow> Drain \<Rightarrow> Drain" where
  "system_push ch d = d\<lparr>it_doctype_system_id := map_option (\<lambda>i. i @ [ch]) (it_doctype_system_id d)\<rparr>"

text \<open>The keyword is limited to six bytes; \<open>len\<close> counts those gathered so far.\<close>

fun scan_keyword :: "nat \<Rightarrow> InputCodePoint list \<Rightarrow> scalar list \<times> InputCodePoint list" where
  "scan_keyword len [] = ([], [])"
| "scan_keyword len (p # r) =
     (if len < 6 \<and> sc_alphabetic (scalar_view p)
      then apfst ((#) (scalar_view p)) (scan_keyword (len + 1) r) else ([], p # r))"

definition after_doctype_name ::
  "scalar \<Rightarrow> InputCodePoint list \<Rightarrow> Drain \<Rightarrow> Drain \<times> InputCodePoint list" where
  "after_doctype_name ch r d =
     (let (tail, r') = scan_keyword (len_utf8 ch) r; keyword = ch # tail in
      if sc_eq_ignore_case keyword (lit ''public'') then (goto AfterDoctypePublicKeyword d, r')
      else if sc_eq_ignore_case keyword (lit ''system'') then (goto AfterDoctypeSystemKeyword d, r')
      else (goto BogusDoctype (force_quirks d), r'))"

definition public_double :: "Drain \<Rightarrow> Drain" where
  "public_double d = goto DoctypePublicIdentifierDoubleQuoted (d\<lparr>it_doctype_public_id := Some []\<rparr>)"
definition public_single :: "Drain \<Rightarrow> Drain" where
  "public_single d = goto DoctypePublicIdentifierSingleQuoted (d\<lparr>it_doctype_public_id := Some []\<rparr>)"
definition system_double :: "Drain \<Rightarrow> Drain" where
  "system_double d = goto DoctypeSystemIdentifierDoubleQuoted (d\<lparr>it_doctype_system_id := Some []\<rparr>)"
definition system_single :: "Drain \<Rightarrow> Drain" where
  "system_single d = goto DoctypeSystemIdentifierSingleQuoted (d\<lparr>it_doctype_system_id := Some []\<rparr>)"

definition step_doctype_state :: "InputCodePoint \<Rightarrow> InputCodePoint list \<Rightarrow> Drain \<Rightarrow> Drain \<times> InputCodePoint list" where
  "step_doctype_state p r d =
     (let ch = scalar_view p; space = is_html_whitespace ch; gt = (ch = asc CHR ''>'');
          quote = (ch = asc CHR 0x22); apostrophe = (ch = asc CHR 0x27) in
      case it_state d of
        Doctype \<Rightarrow>
          if space then (goto BeforeDoctypeName d, r)
          else if gt then (goto Data (emit missing_doctype (invalid_doctype d)), r)
          else (goto DoctypeName (name_push ch (invalid_doctype d)), r)
      | BeforeDoctypeName \<Rightarrow>
          if space then (d, r)
          else if gt then (goto Data (emit missing_doctype (invalid_doctype d)), r)
          else (goto DoctypeName (name_push ch (d\<lparr>it_doctype_name := []\<rparr>)), r)
      | DoctypeName \<Rightarrow>
          if space then (goto AfterDoctypeName d, r)
          else if gt then (goto Data (emit_doctype d), r)
          else (name_push ch d, r)
      | AfterDoctypeName \<Rightarrow>
          if space then (d, r)
          else if gt then (goto Data (emit_doctype d), r)
          else after_doctype_name ch r d
      | AfterDoctypePublicKeyword \<Rightarrow>
          if space then (goto BeforeDoctypePublicIdentifier d, r)
          else if quote then (public_double d, r)
          else if apostrophe then (public_single d, r)
          else if gt then (goto Data (emit_doctype (force_quirks d)), r)
          else (goto BogusDoctype (force_quirks d), p # r)
      | BeforeDoctypePublicIdentifier \<Rightarrow>
          if space then (d, r)
          else if quote then (public_double d, r)
          else if apostrophe then (public_single d, r)
          else if gt then (goto Data (emit_doctype (force_quirks d)), r)
          else (goto BogusDoctype (force_quirks d), p # r)
      | DoctypePublicIdentifierDoubleQuoted \<Rightarrow>
          if quote then (goto AfterDoctypePublicIdentifier d, r)
          else if gt then (goto Data (emit_doctype (force_quirks d)), r)
          else (public_push ch d, r)
      | DoctypePublicIdentifierSingleQuoted \<Rightarrow>
          if apostrophe then (goto AfterDoctypePublicIdentifier d, r)
          else if gt then (goto Data (emit_doctype (force_quirks d)), r)
          else (public_push ch d, r)
      | AfterDoctypePublicIdentifier \<Rightarrow>
          if space then (goto BetweenDoctypePublicAndSystemIdentifiers d, r)
          else if gt then (goto Data (emit_doctype d), r)
          else if quote then (system_double (invalid_doctype d), r)
          else if apostrophe then (system_single (invalid_doctype d), r)
          else (goto BogusDoctype (force_quirks d), p # r)
      | BetweenDoctypePublicAndSystemIdentifiers \<Rightarrow>
          if space then (d, r)
          else if gt then (goto Data (emit_doctype d), r)
          else if quote then (system_double d, r)
          else if apostrophe then (system_single d, r)
          else (goto BogusDoctype (force_quirks d), p # r)
      | AfterDoctypeSystemKeyword \<Rightarrow>
          if space then (goto BeforeDoctypeSystemIdentifier d, r)
          else if quote then (system_double d, r)
          else if apostrophe then (system_single d, r)
          else if gt then (goto Data (emit_doctype (force_quirks d)), r)
          else (goto BogusDoctype (force_quirks d), p # r)
      | BeforeDoctypeSystemIdentifier \<Rightarrow>
          if space then (d, r)
          else if quote then (system_double d, r)
          else if apostrophe then (system_single d, r)
          else if gt then (goto Data (emit_doctype (force_quirks d)), r)
          else (goto BogusDoctype (force_quirks d), p # r)
      | DoctypeSystemIdentifierDoubleQuoted \<Rightarrow>
          if quote then (goto AfterDoctypeSystemIdentifier d, r)
          else if gt then (goto Data (emit_doctype (force_quirks d)), r)
          else (system_push ch d, r)
      | DoctypeSystemIdentifierSingleQuoted \<Rightarrow>
          if apostrophe then (goto AfterDoctypeSystemIdentifier d, r)
          else if gt then (goto Data (emit_doctype (force_quirks d)), r)
          else (system_push ch d, r)
      | AfterDoctypeSystemIdentifier \<Rightarrow>
          if space then (d, r)
          else if gt then (goto Data (emit_doctype d), r)
          else (goto BogusDoctype (invalid_doctype d), p # r)
      | BogusDoctype \<Rightarrow> if gt then (goto Data (emit_doctype d), r) else (d, r)
      | _ \<Rightarrow> (d, r))"

section \<open>Raw text and script data\<close>

text \<open>An appropriate end tag that is not complete yet: the text before it goes out.\<close>

definition begin_end_tag :: "State \<Rightarrow> Drain \<Rightarrow> Drain" where
  "begin_end_tag s d =
     goto s ((flush_text d)\<lparr>it_current_end_tag_name := map sc_lower (it_temp_buffer d), it_current_tag_name := [],
                            it_current_attributes := [], it_current_self_closing := False, it_temp_buffer := []\<rparr>)"

text \<open>\<open>None\<close> asks the caller to reconsume in the raw-content state.\<close>

definition raw_end_tag_name_step :: "scalar \<Rightarrow> Drain \<Rightarrow> bool \<times> Drain" where
  "raw_end_tag_name_step ch d =
     (let is_appropriate = sc_eq_ignore_case (it_temp_buffer d) (it_last_start_tag_name d) in
      if is_html_whitespace ch \<and> is_appropriate then (True, begin_end_tag BeforeAttributeName d)
      else if ch = asc CHR ''/'' \<and> is_appropriate then (True, begin_end_tag SelfClosingStartTag d)
      else if ch = asc CHR ''>'' \<and> is_appropriate then
        (True, goto Data ((emit (EndTag (map sc_lower (it_temp_buffer d))) (flush_text d))\<lparr>it_temp_buffer := []\<rparr>))
      else if sc_alphabetic ch then (True, d\<lparr>it_temp_buffer := it_temp_buffer d @ [ch]\<rparr>)
      else (False, (text_str (it_temp_buffer d) (text_push CHR ''/'' (text_push CHR ''<'' d)))\<lparr>it_temp_buffer := []\<rparr>))"

definition raw_less_than :: "State \<Rightarrow> State \<Rightarrow> InputCodePoint \<Rightarrow> InputCodePoint list \<Rightarrow> Drain \<Rightarrow> Drain \<times> InputCodePoint list" where
  "raw_less_than open base p r d =
     (if point_is CHR ''/'' p then (goto open (d\<lparr>it_temp_buffer := []\<rparr>), r)
      else (goto base (text_push CHR ''<'' d), p # r))"

definition raw_end_tag_open :: "State \<Rightarrow> State \<Rightarrow> InputCodePoint \<Rightarrow> InputCodePoint list \<Rightarrow> Drain \<Rightarrow> Drain \<times> InputCodePoint list" where
  "raw_end_tag_open name base p r d =
     (if sc_alphabetic (scalar_view p) then (goto name (d\<lparr>it_temp_buffer := []\<rparr>), p # r)
      else (goto base (text_push CHR ''/'' (text_push CHR ''<'' d)), p # r))"

definition raw_end_tag_name :: "State \<Rightarrow> InputCodePoint \<Rightarrow> InputCodePoint list \<Rightarrow> Drain \<Rightarrow> Drain \<times> InputCodePoint list" where
  "raw_end_tag_name base p r d =
     (case raw_end_tag_name_step (scalar_view p) d of
        (True, d') \<Rightarrow> (d', r)
      | (False, d') \<Rightarrow> (goto base d', p # r))"

definition step_raw :: "InputCodePoint \<Rightarrow> InputCodePoint list \<Rightarrow> Drain \<Rightarrow> Drain \<times> InputCodePoint list" where
  "step_raw p r d =
     (case it_state d of
        RawText \<Rightarrow> if point_is CHR ''<'' p then (goto RawTextLessThanSign d, r) else (text_point p d, r)
      | RawTextLessThanSign \<Rightarrow> raw_less_than RawTextEndTagOpen RawText p r d
      | RawTextEndTagOpen \<Rightarrow> raw_end_tag_open RawTextEndTagName RawText p r d
      | RawTextEndTagName \<Rightarrow> raw_end_tag_name RawText p r d
      | RcData \<Rightarrow>
          if point_is CHR ''&'' p then text_reference r d
          else if point_is CHR ''<'' p then (goto RcDataLessThanSign d, r)
          else (text_point p d, r)
      | RcDataLessThanSign \<Rightarrow> raw_less_than RcDataEndTagOpen RcData p r d
      | RcDataEndTagOpen \<Rightarrow> raw_end_tag_open RcDataEndTagName RcData p r d
      | RcDataEndTagName \<Rightarrow> raw_end_tag_name RcData p r d
      | _ \<Rightarrow> (d, r))"

text \<open>The name behind \<open><\<close> in an escaped script: \<open>script\<close> leads to \<open>yes\<close>, any other to \<open>no\<close>.\<close>

definition double_escape_name ::
  "State \<Rightarrow> State \<Rightarrow> State \<Rightarrow> InputCodePoint \<Rightarrow> InputCodePoint list \<Rightarrow> Drain \<Rightarrow> Drain \<times> InputCodePoint list" where
  "double_escape_name yes no back p r d =
     (let c = scalar_view p in
      if is_html_whitespace c \<or> c = asc CHR ''/'' \<or> c = asc CHR ''>'' then
        (goto (if sc_eq_ignore_case (it_temp_buffer d) (lit ''script'') then yes else no) (text_point (PtScalar c) d), r)
      else if sc_alphabetic c then
        (text_point (PtScalar c) (d\<lparr>it_temp_buffer := it_temp_buffer d @ [sc_lower c]\<rparr>), r)
      else (goto back d, p # r))"

definition step_script :: "InputCodePoint \<Rightarrow> InputCodePoint list \<Rightarrow> Drain \<Rightarrow> Drain \<times> InputCodePoint list" where
  "step_script p r d =
     (case it_state d of
        ScriptData \<Rightarrow> if point_is CHR ''<'' p then (goto ScriptDataLessThanSign d, r) else (text_point p d, r)
      | ScriptDataLessThanSign \<Rightarrow>
          if point_is CHR ''!'' p then
            (goto ScriptDataEscapeStart (text_push CHR ''!'' (text_push CHR ''<'' d)), r)
          else raw_less_than ScriptDataEndTagOpen ScriptData p r d
      | ScriptDataEndTagOpen \<Rightarrow> raw_end_tag_open ScriptDataEndTagName ScriptData p r d
      | ScriptDataEndTagName \<Rightarrow> raw_end_tag_name ScriptData p r d
      | ScriptDataEscapeStart \<Rightarrow>
          if point_is CHR ''-'' p then (goto ScriptDataEscapeStartDash (text_push CHR ''-'' d), r)
          else (goto ScriptData d, p # r)
      | ScriptDataEscapeStartDash \<Rightarrow>
          if point_is CHR ''-'' p then (goto ScriptDataEscapedDashDash (text_push CHR ''-'' d), r)
          else (goto ScriptData d, p # r)
      | ScriptDataEscaped \<Rightarrow>
          if point_is CHR ''-'' p then (goto ScriptDataEscapedDash (text_push CHR ''-'' d), r)
          else if point_is CHR ''<'' p then (goto ScriptDataEscapedLessThanSign d, r)
          else (text_point p d, r)
      | ScriptDataEscapedDash \<Rightarrow>
          if point_is CHR ''-'' p then (goto ScriptDataEscapedDashDash (text_push CHR ''-'' d), r)
          else if point_is CHR ''<'' p then (goto ScriptDataEscapedLessThanSign d, r)
          else (goto ScriptDataEscaped (text_point p d), r)
      | ScriptDataEscapedDashDash \<Rightarrow>
          if point_is CHR ''-'' p then (text_push CHR ''-'' d, r)
          else if point_is CHR ''<'' p then (goto ScriptDataEscapedLessThanSign d, r)
          else if point_is CHR ''>'' p then (goto ScriptData (text_push CHR ''>'' d), r)
          else (goto ScriptDataEscaped (text_point p d), r)
      | ScriptDataEscapedLessThanSign \<Rightarrow>
          if point_is CHR ''/'' p then (goto ScriptDataEscapedEndTagOpen (d\<lparr>it_temp_buffer := []\<rparr>), r)
          else if sc_alphabetic (scalar_view p) then
            (goto ScriptDataDoubleEscapeStart (text_push CHR ''<'' (d\<lparr>it_temp_buffer := []\<rparr>)), p # r)
          else (goto ScriptDataEscaped (text_push CHR ''<'' d), p # r)
      | ScriptDataEscapedEndTagOpen \<Rightarrow> raw_end_tag_open ScriptDataEscapedEndTagName ScriptDataEscaped p r d
      | ScriptDataEscapedEndTagName \<Rightarrow> raw_end_tag_name ScriptDataEscaped p r d
      | ScriptDataDoubleEscapeStart \<Rightarrow>
          double_escape_name ScriptDataDoubleEscaped ScriptDataEscaped ScriptDataEscaped p r d
      | ScriptDataDoubleEscaped \<Rightarrow>
          if point_is CHR ''-'' p then (goto ScriptDataDoubleEscapedDash (text_push CHR ''-'' d), r)
          else if point_is CHR ''<'' p then (goto ScriptDataDoubleEscapedLessThanSign (text_push CHR ''<'' d), r)
          else (text_point p d, r)
      | ScriptDataDoubleEscapedDash \<Rightarrow>
          if point_is CHR ''-'' p then (goto ScriptDataDoubleEscapedDashDash (text_push CHR ''-'' d), r)
          else if point_is CHR ''<'' p then (goto ScriptDataDoubleEscapedLessThanSign (text_push CHR ''<'' d), r)
          else (goto ScriptDataDoubleEscaped (text_point p d), r)
      | ScriptDataDoubleEscapedDashDash \<Rightarrow>
          if point_is CHR ''-'' p then (text_push CHR ''-'' d, r)
          else if point_is CHR ''<'' p then (goto ScriptDataDoubleEscapedLessThanSign (text_push CHR ''<'' d), r)
          else if point_is CHR ''>'' p then (goto ScriptData (text_push CHR ''>'' d), r)
          else (goto ScriptDataDoubleEscaped (text_point p d), r)
      | ScriptDataDoubleEscapedLessThanSign \<Rightarrow>
          if point_is CHR ''/'' p then
            (goto ScriptDataDoubleEscapeEnd (text_push CHR ''/'' (d\<lparr>it_temp_buffer := []\<rparr>)), r)
          else (goto ScriptDataDoubleEscaped d, p # r)
      | ScriptDataDoubleEscapeEnd \<Rightarrow>
          double_escape_name ScriptDataEscaped ScriptDataDoubleEscaped ScriptDataDoubleEscaped p r d
      | _ \<Rightarrow> (d, r))"


section \<open>One step and its progress\<close>

definition attribute_states :: "State set" where
  "attribute_states =
     {BeforeAttributeName, AttributeName, AfterAttributeName, BeforeAttributeValue, AttributeValueDoubleQuoted,
      AttributeValueSingleQuoted, AttributeValueUnquoted, AfterAttributeValueQuoted, SelfClosingStartTag}"

definition comment_states :: "State set" where
  "comment_states = {CommentStart, CommentStartDash, Comment, CommentEndDash, CommentEnd, BogusComment}"

definition raw_states :: "State set" where
  "raw_states =
     {RawText, RawTextLessThanSign, RawTextEndTagOpen, RawTextEndTagName, RcData, RcDataLessThanSign,
      RcDataEndTagOpen, RcDataEndTagName}"

definition content_states :: "State set" where
  "content_states = {Data, PlainText, TagOpen, EndTagOpen, TagName}"

definition doctype_states :: "State set" where
  "doctype_states =
     {Doctype, BeforeDoctypeName, DoctypeName, AfterDoctypeName, AfterDoctypePublicKeyword,
      BeforeDoctypePublicIdentifier, DoctypePublicIdentifierDoubleQuoted, DoctypePublicIdentifierSingleQuoted,
      AfterDoctypePublicIdentifier, BetweenDoctypePublicAndSystemIdentifiers, AfterDoctypeSystemKeyword,
      BeforeDoctypeSystemIdentifier, DoctypeSystemIdentifierDoubleQuoted, DoctypeSystemIdentifierSingleQuoted,
      AfterDoctypeSystemIdentifier, BogusDoctype}"

definition html_step :: "InputCodePoint \<Rightarrow> InputCodePoint list \<Rightarrow> Drain \<Rightarrow> Drain \<times> InputCodePoint list" where
  "html_step p r d =
     (let s = it_state d in
      if s \<in> content_states then step_content p r d
      else if s \<in> attribute_states then step_attribute p r d
      else if s = MarkupDeclarationOpen then step_markup_declaration p r d
      else if s \<in> comment_states then step_comment p r d
      else if s \<in> doctype_states then step_doctype_state p r d
      else if s \<in> raw_states then step_raw p r d
      else step_script p r d)"

text \<open>A state that reconsumes goes to one of lower rank, so the loop ends.\<close>

definition state_rank :: "State \<Rightarrow> nat" where
  "state_rank s =
     (if s \<in> {RawTextEndTagOpen, RcDataEndTagOpen, ScriptDataEndTagOpen, ScriptDataEscapedEndTagOpen,
             ScriptDataEscapedLessThanSign} then 2
      else if s \<in> {AfterAttributeValueQuoted, SelfClosingStartTag, AfterDoctypePublicKeyword,
             BeforeDoctypePublicIdentifier, AfterDoctypePublicIdentifier, BetweenDoctypePublicAndSystemIdentifiers,
             AfterDoctypeSystemKeyword, BeforeDoctypeSystemIdentifier, AfterDoctypeSystemIdentifier,
             RawTextLessThanSign, RawTextEndTagName, RcDataLessThanSign, RcDataEndTagName, ScriptDataLessThanSign,
             ScriptDataEndTagName, ScriptDataEscapeStart, ScriptDataEscapeStartDash, ScriptDataEscapedEndTagName,
             ScriptDataDoubleEscapeStart, ScriptDataDoubleEscapedLessThanSign, ScriptDataDoubleEscapeEnd} then 1
      else 0)"

text \<open>The result of a step has consumed the code point, or it has given it back and the rank went down.\<close>

definition progress :: "InputCodePoint \<Rightarrow> InputCodePoint list \<Rightarrow> Drain \<Rightarrow> Drain \<times> InputCodePoint list \<Rightarrow> bool" where
  "progress p r d x \<longleftrightarrow>
     suffix (snd x) r \<or> snd x = p # r \<and> state_rank (it_state (fst x)) < state_rank (it_state d)"

lemma progress_suffix [simp]: "suffix r' r \<Longrightarrow> progress p r d (d', r')"
  by (simp add: progress_def)

lemma progress_back: "state_rank (it_state d') < state_rank (it_state d) \<Longrightarrow> progress p r d (d', p # r)"
  by (simp add: progress_def)

lemma suffix_step [intro]: "suffix xs ys \<Longrightarrow> suffix xs (y # ys)"
  by (rule suffix_ConsI)

lemma scan_entity_suffix: "scan_entity r = Some (e, r') \<Longrightarrow> suffix r' r"
  by (induction r arbitrary: e) (auto simp: Let_def split: if_splits)

lemma character_reference_suffix: "consume_character_reference r = (x, r') \<Longrightarrow> suffix r' r"
  by (auto simp: consume_character_reference_def split: option.splits if_splits dest: scan_entity_suffix)

lemma progress_text_reference [simp]: "progress p r d (text_reference r d')"
  by (auto simp: text_reference_def split: prod.splits sum.splits dest: character_reference_suffix)

lemma progress_attr_reference [simp]: "progress p r d (attr_reference r d')"
  by (auto simp: attr_reference_def split: prod.splits sum.splits dest: character_reference_suffix)

lemma pi_bogus_data_suffix: "pi_bogus_data data r = (data', r') \<Longrightarrow> suffix r' r"
  by (induction r arbitrary: data) (auto split: if_splits)

lemma pi_data_suffix: "pi_data data r = (data', r') \<Longrightarrow> suffix r' r"
proof (induction r arbitrary: data)
  case Nil
  then show ?case by simp
next
  case (Cons p r)
  then show ?case by (cases r) (auto simp: Let_def split: if_splits)
qed

lemma pi_bogus_comment_suffix: "pi_bogus_comment r target = (t, r') \<Longrightarrow> suffix r' r"
  by (auto simp: pi_bogus_comment_def split: prod.splits dest: pi_bogus_data_suffix)

lemma pi_after_target_suffix: "suffix (snd (pi_after_target target r d)) r"
proof (cases r)
  case Nil
  then show ?thesis by (simp add: pi_after_target_def)
next
  case (Cons q r0)
  obtain t r1 where 1: "pi_bogus_comment r target = (t, r1)" by fastforce
  obtain dt r2 where 2: "pi_data text_buffer_default (dropWhile (\<lambda>p. is_html_whitespace (scalar_view p)) r) = (dt, r2)"
    by fastforce
  have "suffix r1 r" "suffix r2 r"
    using pi_bogus_comment_suffix [OF 1] pi_data_suffix [OF 2] suffix_dropWhile suffix_order.trans by blast+
  then show ?thesis
    unfolding pi_after_target_def 1 2 by (simp add: Cons split: option.split)
qed

lemma pi_consume_suffix: "suffix (snd (pi_consume r d)) r"
proof (cases r)
  case Nil
  then show ?thesis by (simp add: pi_consume_def)
next
  case (Cons q r0)
  obtain t r1 where 1: "pi_bogus_comment r [] = (t, r1)" by fastforce
  have a: "suffix (snd (pi_after_target tgt (dropWhile P r) d)) r" for tgt P
    using pi_after_target_suffix suffix_dropWhile suffix_order.trans by blast
  show ?thesis
    unfolding pi_consume_def 1 using pi_bogus_comment_suffix [OF 1] a
    by (simp add: Cons del: dropWhile.simps takeWhile.simps)
qed

lemma scan_keyword_suffix: "suffix (snd (scan_keyword len r)) r"
  by (induction r arbitrary: len) auto

lemmas state_sets =
  content_states_def attribute_states_def comment_states_def doctype_states_def raw_states_def

lemma step_content_progress: "it_state d \<in> content_states \<Longrightarrow> progress p r d (step_content p r d)"
  using pi_consume_suffix [of r d] unfolding content_states_def
  by (elim insertE emptyE; simp add: step_content_def Let_def apfst_def map_prod_def case_prod_unfold)

lemma step_attribute_progress: "it_state d \<in> attribute_states \<Longrightarrow> progress p r d (step_attribute p r d)"
  unfolding attribute_states_def
  by (elim insertE emptyE; simp add: step_attribute_def Let_def goto_def state_rank_def progress_back)

lemma step_markup_declaration_progress: "progress p r d (step_markup_declaration p r d)"
  by (simp add: step_markup_declaration_def Let_def suffix_drop suffix_tl)

lemma step_comment_progress: "it_state d \<in> comment_states \<Longrightarrow> progress p r d (step_comment p r d)"
  unfolding comment_states_def by (elim insertE emptyE; simp add: step_comment_def)

lemma step_doctype_progress: "it_state d \<in> doctype_states \<Longrightarrow> progress p r d (step_doctype_state p r d)"
  using scan_keyword_suffix [of "len_utf8 (scalar_view p)" r] unfolding doctype_states_def
  by (elim insertE emptyE; simp add: step_doctype_state_def after_doctype_name_def Let_def goto_def state_rank_def
      case_prod_unfold progress_back)

lemma raw_end_tag_open_progress:
  "state_rank name < state_rank (it_state d) \<Longrightarrow> state_rank base < state_rank (it_state d) \<Longrightarrow>
   progress p r d (raw_end_tag_open name base p r d)"
  by (auto simp: raw_end_tag_open_def goto_def intro!: progress_back)

lemma raw_less_than_progress:
  "state_rank base < state_rank (it_state d) \<Longrightarrow> progress p r d (raw_less_than open base p r d)"
  by (auto simp: raw_less_than_def goto_def intro!: progress_back)

lemma raw_end_tag_name_progress:
  "state_rank base < state_rank (it_state d) \<Longrightarrow> progress p r d (raw_end_tag_name base p r d)"
  by (auto simp: raw_end_tag_name_def goto_def intro!: progress_back split: prod.split bool.split)

lemma double_escape_name_progress:
  "state_rank back < state_rank (it_state d) \<Longrightarrow> progress p r d (double_escape_name yes no back p r d)"
  by (auto simp: double_escape_name_def goto_def Let_def intro!: progress_back)

lemmas raw_progress =
  raw_less_than_progress raw_end_tag_open_progress raw_end_tag_name_progress double_escape_name_progress

lemma step_raw_progress: "it_state d \<in> raw_states \<Longrightarrow> progress p r d (step_raw p r d)"
  unfolding raw_states_def by (elim insertE emptyE; simp add: step_raw_def raw_progress state_rank_def)

definition script_states :: "State set" where
  "script_states =
     {ScriptData, ScriptDataLessThanSign, ScriptDataEndTagOpen, ScriptDataEndTagName, ScriptDataEscapeStart,
      ScriptDataEscapeStartDash, ScriptDataEscaped, ScriptDataEscapedDash, ScriptDataEscapedDashDash,
      ScriptDataEscapedLessThanSign, ScriptDataEscapedEndTagOpen, ScriptDataEscapedEndTagName,
      ScriptDataDoubleEscapeStart, ScriptDataDoubleEscaped, ScriptDataDoubleEscapedDash,
      ScriptDataDoubleEscapedDashDash, ScriptDataDoubleEscapedLessThanSign, ScriptDataDoubleEscapeEnd}"

lemma state_partition:
  "s \<in> content_states \<or> s \<in> attribute_states \<or> s = MarkupDeclarationOpen \<or> s \<in> comment_states
   \<or> s \<in> doctype_states \<or> s \<in> raw_states \<or> s \<in> script_states"
  by (cases s) (simp_all add: state_sets script_states_def)

lemma step_script_progress: "it_state d \<in> script_states \<Longrightarrow> progress p r d (step_script p r d)"
  unfolding script_states_def
  by (elim insertE emptyE; simp add: step_script_def raw_progress state_rank_def progress_back goto_def)

lemma html_step_progress: "progress p r d (html_step p r d)"
  using state_partition [of "it_state d"] step_content_progress step_attribute_progress
    step_markup_declaration_progress step_comment_progress step_doctype_progress step_raw_progress step_script_progress
  by (auto simp: html_step_def Let_def)

lemma html_step_measure:
  "html_step p r d = (d', r') \<Longrightarrow> 3 * length r' + state_rank (it_state d') < 3 * length (p # r) + state_rank (it_state d)"
proof -
  assume s: "html_step p r d = (d', r')"
  have "state_rank (it_state d') \<le> 2" by (simp add: state_rank_def)
  moreover have "length r' \<le> length r \<or> r' = p # r \<and> state_rank (it_state d') < state_rank (it_state d)"
    using html_step_progress [of p r d] by (auto simp: s progress_def dest: suffix_length_le)
  ultimately show ?thesis by auto
qed


section \<open>Draining\<close>

text \<open>Lookahead that must not be cut off by the end of a write.\<close>

definition needs_more_input :: "State \<Rightarrow> InputCodePoint \<Rightarrow> InputCodePoint list \<Rightarrow> bool" where
  "needs_more_input s p r =
     (let ch = scalar_view p; remaining = p # r in
      if ch = asc CHR ''&''
         \<and> s \<in> {Data, RcData, AttributeValueDoubleQuoted, AttributeValueSingleQuoted, AttributeValueUnquoted} then
        list_all (\<lambda>q. sc_alphanumeric (scalar_view q) \<or> scalar_view q = asc CHR ''#'') r
      else if s = TagOpen \<and> ch = asc CHR ''?'' then PtScalar (asc CHR ''>'') \<notin> set remaining
      else if s = MarkupDeclarationOpen \<and> ch = asc CHR ''-'' then length remaining < 2
      else if s = MarkupDeclarationOpen \<and> sc_lower ch = asc CHR ''d'' then length remaining < 7
      else if s = AfterDoctypeName \<and> \<not> is_html_whitespace ch \<and> ch \<noteq> asc CHR ''>'' then
        length remaining < 6 \<and> list_all (\<lambda>q. sc_alphabetic (scalar_view q)) remaining
      else False)"

fun is_script_start :: "Token \<Rightarrow> bool" where
  "is_script_start (StartTag name _ _) = (name = lit ''script'')"
| "is_script_start _ = False"

fun is_script_end :: "Token \<Rightarrow> bool" where
  "is_script_end (EndTag name) = (name = lit ''script'')"
| "is_script_end _ = False"

text \<open>The positions of script start tags; \<open>consumed\<close> is what the step has taken, \<open>count\<close> the number of
  tokens before it.\<close>

definition record_position :: "InputCodePoint list \<Rightarrow> nat \<Rightarrow> Drain \<Rightarrow> Drain" where
  "record_position consumed count d =
     (let pos = fold sp_advance consumed (it_source_position d);
          d = d\<lparr>it_source_position := pos\<rparr>
      in if length (dr_tokens d) > count \<and> is_script_start (last (dr_tokens d)) then
           d\<lparr>it_script_source_positions := it_script_source_positions d @ [(length (dr_tokens d) - 1, pos)]\<rparr>
         else d)"

definition step_and_record :: "InputCodePoint \<Rightarrow> InputCodePoint list \<Rightarrow> Drain \<Rightarrow> Drain \<times> InputCodePoint list" where
  "step_and_record p r d =
     (let (d', r') = html_step p r d in
      (record_position (take (length (p # r) - length r') (p # r)) (length (dr_tokens d)) d', r'))"

lemma state_record_position [simp]: "it_state (record_position c n d) = it_state d"
  by (simp add: record_position_def Let_def)

function drain_loop :: "bool \<Rightarrow> bool \<Rightarrow> InputCodePoint list \<Rightarrow> Drain \<Rightarrow> Drain \<times> InputCodePoint list" where
  "drain_loop eof stop [] d = (d, [])"
| "drain_loop eof stop (p # r) d =
     (if \<not> eof \<and> needs_more_input (it_state d) p r then (d, p # r)
      else
        let (d', r') = step_and_record p r d in
        if stop \<and> length (dr_tokens d') > length (dr_tokens d) \<and> is_script_end (last (dr_tokens d')) then (d', r')
        else drain_loop eof stop r' d')"
  by pat_completeness auto

termination
  by (relation "measure (\<lambda>(_, _, r, d). 3 * length r + state_rank (it_state d))")
    (auto simp: step_and_record_def split: prod.splits dest: html_step_measure)

definition unexpected_eof_states :: "State set" where
  "unexpected_eof_states =
     (comment_states - {BogusComment}) \<union> {TagOpen, EndTagOpen, TagName, MarkupDeclarationOpen}
     \<union> attribute_states \<union> (doctype_states - {BogusDoctype})"

definition drain_start :: "bool \<Rightarrow> IncrementalTokenizer \<Rightarrow> Drain" where
  "drain_start eof t =
     (let t = (if eof then finish_input_chunk t else t) in
      IncrementalTokenizer.extend (t\<lparr>it_pending := [], it_script_source_positions := []\<rparr>) (Drain.fields [] []))"

definition drain ::
  "bool \<Rightarrow> bool \<Rightarrow> IncrementalTokenizer \<Rightarrow> (Token list \<times> HtmlParseError list) \<times> IncrementalTokenizer" where
  "drain eof stop t =
     (let input = it_pending (if eof then finish_input_chunk t else t);
          (d, rest) = drain_loop eof stop input (drain_start eof t);
          d = (flush_text d)\<lparr>it_pending := rest\<rparr>;
          tokens = dr_tokens d; errors = dr_errors d; s = it_state d
      in if \<not> eof \<or> rest \<noteq> [] \<or> stop \<and> tokens \<noteq> [] \<and> is_script_end (last tokens) then
           ((tokens, errors), IncrementalTokenizer.truncate d)
         else
           let errors = (if s \<in> unexpected_eof_states then errors @ [UnexpectedEof] else errors);
               (tokens, d) =
                 (if s = BogusComment then
                    (tokens @ [comment_token (it_current_comment d)], d\<lparr>it_current_comment := text_buffer_default\<rparr>)
                  else (tokens, d))
           in ((tokens @ [EofTok], errors), IncrementalTokenizer.truncate d))"

section \<open>Whole inputs\<close>

datatype InputSource = SrcScalar "scalar list" | SrcUtf16 "u16 list"

record Tokenizer =
  tz_input :: InputSource
  tz_scripting_enabled :: bool

definition tokenizer_new :: "scalar list \<Rightarrow> Tokenizer" where
  "tokenizer_new input = \<lparr>tz_input = SrcScalar input, tz_scripting_enabled = True\<rparr>"

definition tokenizer_from_utf16 :: "u16 list \<Rightarrow> Tokenizer" where
  "tokenizer_from_utf16 input = \<lparr>tz_input = SrcUtf16 input, tz_scripting_enabled = True\<rparr>"

definition with_scripting :: "bool \<Rightarrow> Tokenizer \<Rightarrow> Tokenizer" where
  "with_scripting enabled z = z\<lparr>tz_scripting_enabled := enabled\<rparr>"

definition push_source :: "Tokenizer \<Rightarrow> IncrementalTokenizer \<Rightarrow> IncrementalTokenizer" where
  "push_source z = (case tz_input z of SrcScalar s \<Rightarrow> push_input s | SrcUtf16 us \<Rightarrow> push_input_utf16 us)"

definition tokenize_with_script_positions ::
  "Tokenizer \<Rightarrow> Token list \<times> HtmlParseError list \<times> (nat \<times> SourcePosition) list" where
  "tokenize_with_script_positions z =
     (let t = push_source z (incremental_tokenizer_new\<lparr>it_scripting_enabled := tz_scripting_enabled z\<rparr>);
          ((tokens, errors), t) = drain True False t
      in (tokens, errors, it_script_source_positions t))"

definition tokenize_with_errors :: "Tokenizer \<Rightarrow> Token list \<times> HtmlParseError list" where
  "tokenize_with_errors z = (let (tokens, errors, _) = tokenize_with_script_positions z in (tokens, errors))"

definition tokenize :: "Tokenizer \<Rightarrow> Token list" where
  "tokenize z = fst (tokenize_with_errors z)"

definition tokenize_fragment_with_errors :: "Tokenizer \<Rightarrow> scalar list \<Rightarrow> Token list \<times> HtmlParseError list" where
  "tokenize_fragment_with_errors z context_name =
     (let name = map sc_lower context_name;
          s = raw_next_state name False (tz_scripting_enabled z);
          t = incremental_tokenizer_new\<lparr>it_scripting_enabled := tz_scripting_enabled z, it_state := s\<rparr>;
          t = (if s \<noteq> Data then t\<lparr>it_last_start_tag_name := name\<rparr> else t)
      in fst (drain True False (push_source z t)))"

end
