(* ===== verification/HtmlOutput.thy ===== *)
theory HtmlOutput
  imports HtmlTokenizer
begin

text \<open>
  What one step of the HTML tokenizer does to its output: the text that tokens and buffers carry as UTF-16 (\<open>flow\<close>, \<open>view\<close>), the
  part of the state that decides how a step acts (\<open>core\<close>), and one lemma over all states (\<open>html_step_effect\<close>): a step adds the
  same output, whatever has been put out before.
\<close>

section \<open>UTF-16\<close>

fun decoded_units :: "u16 + scalar \<Rightarrow> u16 list" where
  "decoded_units (Inl u) = [u]"
| "decoded_units (Inr c) = encode_utf16 c"

lemma encode_unit [simp]: "encode_utf16 (unat (u :: u16)) = [u]"
  using unsigned_less [of u] by (simp add: encode_utf16_def)

lemma encode_pair:
  assumes "is_high u" "is_low v"
  shows "encode_utf16 (surrogate_pair u v) = [u, v]"
proof -
  have u: "0xD800 \<le> unat u" "unat u - 0xD800 < 0x400" and v: "0xDC00 \<le> unat v" "unat v - 0xDC00 < 0x400"
    using assms by (auto simp: is_high_def is_low_def)
  let ?x = "(unat u - 0xD800) * 0x400 + (unat v - 0xDC00)"
  have "?x div 0x400 = unat u - 0xD800" "?x mod 0x400 = unat v - 0xDC00"
    using v(2) by (simp_all only: div_mult_self3 mod_mult_self3 div_less mod_less)
  then have "0xD800 + ?x div 0x400 = unat u" "0xDC00 + ?x mod 0x400 = unat v"
    using u v by simp_all
  moreover have "surrogate_pair u v - 0x10000 = ?x" "\<not> surrogate_pair u v < 0x10000"
    by (simp_all add: surrogate_pair_def)
  ultimately show ?thesis
    unfolding encode_utf16_def by (simp only: if_False of_nat_unat) simp
qed

lemma encode_decode [simp]: "concat (map decoded_units (decode_utf16 us)) = us"
  by (induction us rule: decode_utf16.induct) (auto simp: encode_pair)

lemma encode_text_append [simp]: "encode_text (s @ t) = encode_text s @ encode_text t"
  by (simp add: encode_text_def)

lemma encode_text_Nil [simp]: "encode_text [] = []"
  by (simp add: encode_text_def)

lemma encode_text_Cons [simp]: "encode_text (c # s) = encode_utf16 c @ encode_text s"
  by (simp add: encode_text_def)

lemma encode_utf16_ne [simp]: "encode_utf16 c \<noteq> []"
  by (simp add: encode_utf16_def)

lemma encode_text_eq_Nil [simp]: "encode_text s = [] \<longleftrightarrow> s = []"
  by (cases s) auto

section \<open>The text that tokens carry\<close>

fun token_flow :: "Token \<Rightarrow> (u16 + Token) list" where
  "token_flow (Character s) = map Inl (encode_text s)"
| "token_flow (SurrogateTok u) = [Inl u]"
| "token_flow t = [Inr t]"

definition flow :: "Token list \<Rightarrow> (u16 + Token) list" where
  "flow ts = concat (map token_flow ts)"

lemma flow_append [simp]: "flow (ts @ us) = flow ts @ flow us"
  by (simp add: flow_def)

lemma flow_Nil [simp]: "flow [] = []"
  by (simp add: flow_def)

lemma flow_Cons [simp]: "flow (t # ts) = token_flow t @ flow ts"
  by (simp add: flow_def)

fun buf_units :: "TextBuffer \<Rightarrow> u16 list" where
  "buf_units (DomScalar s) = encode_text s"
| "buf_units (DomUtf16 us) = us"

fun point_units :: "InputCodePoint \<Rightarrow> u16 list" where
  "point_units (PtScalar c) = encode_utf16 c"
| "point_units (PtSurrogate u) = [u]"

lemma units_push [simp]:
  "buf_units (push_code_point p b) = buf_units b @ point_units p"
  "buf_units (buf_push c b) = buf_units b @ encode_utf16 c"
  "buf_units (buf_push_str s b) = buf_units b @ encode_text s"
  by (cases p; cases b; simp) (cases b; simp add: buf_push_def)+

lemma units_default [simp]: "buf_units text_buffer_default = []"
  by (simp add: text_buffer_default_def)

lemma empty_iff_units [simp]: "dom_string_is_empty b \<longleftrightarrow> buf_units b = []"
  by (cases b) auto

lemma flow_surrogate_runs: "flow (surrogate_runs acc ps) = map Inl (encode_text acc @ concat (map decoded_units ps))"
  by (induction acc ps rule: surrogate_runs.induct) auto

lemma string_from_utf16_units: "string_from_utf16 us = Some s \<Longrightarrow> encode_text s = us"
proof -
  assume "string_from_utf16 us = Some s"
  then have a: "list_all (\<lambda>p. case p of Inl _ \<Rightarrow> False | Inr _ \<Rightarrow> True) (decode_utf16 us)"
    and s: "s = map projr (decode_utf16 us)"
    by (auto simp: string_from_utf16_def Let_def split: if_splits)
  have "list_all (\<lambda>p. case p of Inl _ \<Rightarrow> False | Inr _ \<Rightarrow> True) ps \<Longrightarrow>
        encode_text (map projr ps) = concat (map decoded_units ps)" for ps
    by (induction ps) (auto split: sum.splits)
  from this [OF a] show ?thesis by (simp add: s)
qed

lemma flow_text_tokens [simp]: "flow (text_tokens b) = map Inl (buf_units b)"
  by (auto simp: text_tokens_def buf_take_def dom_string_from_utf16_def flow_surrogate_runs
      split: DomString.splits option.splits dest: string_from_utf16_units)

lemma units_taken [simp]: "buf_units (snd (buf_take b)) = []"
  by (auto simp: buf_take_def)

fun is_text :: "Token \<Rightarrow> bool" where
  "is_text (Character _) = True"
| "is_text (SurrogateTok _) = True"
| "is_text _ = False"

lemma surrogate_runs_text: "t \<in> set (surrogate_runs acc ps) \<Longrightarrow> is_text t"
  by (induction acc ps rule: surrogate_runs.induct) (auto split: if_splits)

lemma text_tokens_text: "t \<in> set (text_tokens b) \<Longrightarrow> is_text t"
  by (cases "fst (buf_take b)"; cases "the (fst (buf_take b))")
    (auto simp: text_tokens_def dest: surrogate_runs_text)

lemma text_tokens_empty: "buf_units b = [] \<Longrightarrow> text_tokens b = []"
  by (simp add: text_tokens_def buf_take_def)


section \<open>What a step does to the output\<close>

lemmas primitive_defs =
  goto_def add_error_def emit_def text_point_def text_push_def text_str_def attr_point_def comment_point_def
  comment_str_def flush_text_def push_attribute_def attr_name_push_def attr_clear_def emit_comment_def
  emit_doctype_def invalid_doctype_def force_quirks_def name_push_def public_push_def system_push_def
  public_double_def public_single_def system_double_def system_single_def begin_end_tag_def

text \<open>The state without the output, the text in progress and the fields that belong to one drain.\<close>

definition core :: "Drain \<Rightarrow> Drain" where
  "core d =
     d\<lparr>it_script_source_positions := [], it_pending := [], it_input_decoder := \<lparr>pending_high = None\<rparr>,
       it_text_buffer := text_buffer_default, dr_tokens := [], dr_errors := []\<rparr>"

definition view :: "Drain \<Rightarrow> (u16 + Token) list" where
  "view d = flow (dr_tokens d) @ map Inl (buf_units (it_text_buffer d))"

definition running_text_states :: "State set" where
  "running_text_states = {Data, PlainText} \<union> raw_states \<union> script_states"

text \<open>Text is in progress in the content states only, so a markup token never overtakes it.\<close>

definition text_ok :: "Drain \<Rightarrow> bool" where
  "text_ok d \<longleftrightarrow> it_state d \<notin> running_text_states \<longrightarrow> buf_units (it_text_buffer d) = []"

text \<open>The last token when it is not text.\<close>

definition news :: "Token list \<Rightarrow> Token option" where
  "news ts = (if ts \<noteq> [] \<and> \<not> is_text (last ts) then Some (last ts) else None)"

lemma news_text_tokens [simp]: "news (text_tokens b) = None" "news [] = None"
  using text_tokens_text [of "last (text_tokens b)" b] by (cases "text_tokens b = []"; simp add: news_def)+

lemma news_snoc: "news (ts @ [t]) = (if is_text t then None else Some t)"
  by (simp add: news_def)

lemma script_no_text: "is_text t \<Longrightarrow> \<not> is_script_start t \<and> \<not> is_script_end t"
  by (cases t) auto

lemma core_fields [simp]:
  "it_state (core d) = it_state d" "it_scripting_enabled (core d) = it_scripting_enabled d"
  "it_current_tag_name (core d) = it_current_tag_name d" "it_current_end_tag_name (core d) = it_current_end_tag_name d"
  "it_current_attributes (core d) = it_current_attributes d" "it_current_attr_name (core d) = it_current_attr_name d"
  "it_current_attr_value (core d) = it_current_attr_value d" "it_current_self_closing (core d) = it_current_self_closing d"
  "it_current_comment (core d) = it_current_comment d" "it_doctype_name (core d) = it_doctype_name d"
  "it_doctype_public_id (core d) = it_doctype_public_id d" "it_doctype_system_id (core d) = it_doctype_system_id d"
  "it_doctype_force_quirks (core d) = it_doctype_force_quirks d" "it_temp_buffer (core d) = it_temp_buffer d"
  "it_last_start_tag_name (core d) = it_last_start_tag_name d" "it_source_position (core d) = it_source_position d"
  "it_text_buffer (core d) = text_buffer_default" "dr_tokens (core d) = []" "dr_errors (core d) = []"
  "it_script_source_positions (core d) = []"
  by (simp_all add: core_def)

definition no_text :: "Drain \<Rightarrow> bool" where
  "no_text d \<longleftrightarrow> buf_units (it_text_buffer d) = []"

text \<open>\<open>acts d x y\<close>: \<open>x\<close> has been computed from \<open>d\<close> as \<open>y\<close> from \<open>core d\<close>, and has added to the output of \<open>d\<close> what
  \<open>y\<close> has put out.\<close>

definition acts :: "Drain \<Rightarrow> Drain \<Rightarrow> Drain \<Rightarrow> bool" where
  "acts d x y \<longleftrightarrow>
     core x = core y \<and> view x = view d @ view y \<and> dr_errors x = dr_errors d @ dr_errors y
     \<and> it_script_source_positions x = it_script_source_positions d \<and> it_script_source_positions y = []
     \<and> (\<exists>ts. dr_tokens x = dr_tokens d @ ts \<and> news ts = news (dr_tokens y))
     \<and> (no_text x \<longrightarrow> no_text y) \<and> it_input_decoder x = it_input_decoder d"

lemma acts_start: "acts d d (core d)"
  by (simp add: acts_def view_def no_text_def core_def)

lemma core_eqD:
  assumes "core x = core y"
  shows
  "it_source_position y = it_source_position x"
  "it_scripting_enabled y = it_scripting_enabled x"
  "it_state y = it_state x"
  "it_current_tag_name y = it_current_tag_name x"
  "it_current_end_tag_name y = it_current_end_tag_name x"
  "it_current_attributes y = it_current_attributes x"
  "it_current_attr_name y = it_current_attr_name x"
  "it_current_attr_value y = it_current_attr_value x"
  "it_current_self_closing y = it_current_self_closing x"
  "it_current_comment y = it_current_comment x"
  "it_doctype_name y = it_doctype_name x"
  "it_doctype_public_id y = it_doctype_public_id x"
  "it_doctype_system_id y = it_doctype_system_id x"
  "it_doctype_force_quirks y = it_doctype_force_quirks x"
  "it_temp_buffer y = it_temp_buffer x"
  "it_last_start_tag_name y = it_last_start_tag_name x"
  using arg_cong [OF assms, of it_source_position]
    arg_cong [OF assms, of it_scripting_enabled]
    arg_cong [OF assms, of it_state]
    arg_cong [OF assms, of it_current_tag_name]
    arg_cong [OF assms, of it_current_end_tag_name]
    arg_cong [OF assms, of it_current_attributes]
    arg_cong [OF assms, of it_current_attr_name]
    arg_cong [OF assms, of it_current_attr_value]
    arg_cong [OF assms, of it_current_self_closing]
    arg_cong [OF assms, of it_current_comment]
    arg_cong [OF assms, of it_doctype_name]
    arg_cong [OF assms, of it_doctype_public_id]
    arg_cong [OF assms, of it_doctype_system_id]
    arg_cong [OF assms, of it_doctype_force_quirks]
    arg_cong [OF assms, of it_temp_buffer]
    arg_cong [OF assms, of it_last_start_tag_name]
  by simp_all

lemma acts_fields:
  assumes "acts d x y"
  shows
  "it_source_position y = it_source_position x"
  "it_scripting_enabled y = it_scripting_enabled x"
  "it_state y = it_state x"
  "it_current_tag_name y = it_current_tag_name x"
  "it_current_end_tag_name y = it_current_end_tag_name x"
  "it_current_attributes y = it_current_attributes x"
  "it_current_attr_name y = it_current_attr_name x"
  "it_current_attr_value y = it_current_attr_value x"
  "it_current_self_closing y = it_current_self_closing x"
  "it_current_comment y = it_current_comment x"
  "it_doctype_name y = it_doctype_name x"
  "it_doctype_public_id y = it_doctype_public_id x"
  "it_doctype_system_id y = it_doctype_system_id x"
  "it_doctype_force_quirks y = it_doctype_force_quirks x"
  "it_temp_buffer y = it_temp_buffer x"
  "it_last_start_tag_name y = it_last_start_tag_name x"
proof -
  have c: "core x = core y" using assms by (simp only: acts_def)
  show
  "it_source_position y = it_source_position x"
  "it_scripting_enabled y = it_scripting_enabled x"
  "it_state y = it_state x"
  "it_current_tag_name y = it_current_tag_name x"
  "it_current_end_tag_name y = it_current_end_tag_name x"
  "it_current_attributes y = it_current_attributes x"
  "it_current_attr_name y = it_current_attr_name x"
  "it_current_attr_value y = it_current_attr_value x"
  "it_current_self_closing y = it_current_self_closing x"
  "it_current_comment y = it_current_comment x"
  "it_doctype_name y = it_doctype_name x"
  "it_doctype_public_id y = it_doctype_public_id x"
  "it_doctype_system_id y = it_doctype_system_id x"
  "it_doctype_force_quirks y = it_doctype_force_quirks x"
  "it_temp_buffer y = it_temp_buffer x"
  "it_last_start_tag_name y = it_last_start_tag_name x"
    by (rule core_eqD [OF c])+
qed

lemma core_upd:
  "core (x\<lparr>it_source_position := v1\<rparr>) = (core x)\<lparr>it_source_position := v1\<rparr>"
  "core (x\<lparr>it_scripting_enabled := v2\<rparr>) = (core x)\<lparr>it_scripting_enabled := v2\<rparr>"
  "core (x\<lparr>it_state := v3\<rparr>) = (core x)\<lparr>it_state := v3\<rparr>"
  "core (x\<lparr>it_current_tag_name := v4\<rparr>) = (core x)\<lparr>it_current_tag_name := v4\<rparr>"
  "core (x\<lparr>it_current_end_tag_name := v5\<rparr>) = (core x)\<lparr>it_current_end_tag_name := v5\<rparr>"
  "core (x\<lparr>it_current_attributes := v6\<rparr>) = (core x)\<lparr>it_current_attributes := v6\<rparr>"
  "core (x\<lparr>it_current_attr_name := v7\<rparr>) = (core x)\<lparr>it_current_attr_name := v7\<rparr>"
  "core (x\<lparr>it_current_attr_value := v8\<rparr>) = (core x)\<lparr>it_current_attr_value := v8\<rparr>"
  "core (x\<lparr>it_current_self_closing := v9\<rparr>) = (core x)\<lparr>it_current_self_closing := v9\<rparr>"
  "core (x\<lparr>it_current_comment := v10\<rparr>) = (core x)\<lparr>it_current_comment := v10\<rparr>"
  "core (x\<lparr>it_doctype_name := v11\<rparr>) = (core x)\<lparr>it_doctype_name := v11\<rparr>"
  "core (x\<lparr>it_doctype_public_id := v12\<rparr>) = (core x)\<lparr>it_doctype_public_id := v12\<rparr>"
  "core (x\<lparr>it_doctype_system_id := v13\<rparr>) = (core x)\<lparr>it_doctype_system_id := v13\<rparr>"
  "core (x\<lparr>it_doctype_force_quirks := v14\<rparr>) = (core x)\<lparr>it_doctype_force_quirks := v14\<rparr>"
  "core (x\<lparr>it_temp_buffer := v15\<rparr>) = (core x)\<lparr>it_temp_buffer := v15\<rparr>"
  "core (x\<lparr>it_last_start_tag_name := v16\<rparr>) = (core x)\<lparr>it_last_start_tag_name := v16\<rparr>"
  by (simp_all add: core_def)

lemma acts_upd:
  assumes "acts d x y"
  shows
  "acts d (x\<lparr>it_source_position := v1\<rparr>) (y\<lparr>it_source_position := v1\<rparr>)"
  "acts d (x\<lparr>it_scripting_enabled := v2\<rparr>) (y\<lparr>it_scripting_enabled := v2\<rparr>)"
  "acts d (x\<lparr>it_state := v3\<rparr>) (y\<lparr>it_state := v3\<rparr>)"
  "acts d (x\<lparr>it_current_tag_name := v4\<rparr>) (y\<lparr>it_current_tag_name := v4\<rparr>)"
  "acts d (x\<lparr>it_current_end_tag_name := v5\<rparr>) (y\<lparr>it_current_end_tag_name := v5\<rparr>)"
  "acts d (x\<lparr>it_current_attributes := v6\<rparr>) (y\<lparr>it_current_attributes := v6\<rparr>)"
  "acts d (x\<lparr>it_current_attr_name := v7\<rparr>) (y\<lparr>it_current_attr_name := v7\<rparr>)"
  "acts d (x\<lparr>it_current_attr_value := v8\<rparr>) (y\<lparr>it_current_attr_value := v8\<rparr>)"
  "acts d (x\<lparr>it_current_self_closing := v9\<rparr>) (y\<lparr>it_current_self_closing := v9\<rparr>)"
  "acts d (x\<lparr>it_current_comment := v10\<rparr>) (y\<lparr>it_current_comment := v10\<rparr>)"
  "acts d (x\<lparr>it_doctype_name := v11\<rparr>) (y\<lparr>it_doctype_name := v11\<rparr>)"
  "acts d (x\<lparr>it_doctype_public_id := v12\<rparr>) (y\<lparr>it_doctype_public_id := v12\<rparr>)"
  "acts d (x\<lparr>it_doctype_system_id := v13\<rparr>) (y\<lparr>it_doctype_system_id := v13\<rparr>)"
  "acts d (x\<lparr>it_doctype_force_quirks := v14\<rparr>) (y\<lparr>it_doctype_force_quirks := v14\<rparr>)"
  "acts d (x\<lparr>it_temp_buffer := v15\<rparr>) (y\<lparr>it_temp_buffer := v15\<rparr>)"
  "acts d (x\<lparr>it_last_start_tag_name := v16\<rparr>) (y\<lparr>it_last_start_tag_name := v16\<rparr>)"
  using assms unfolding acts_def view_def no_text_def by (simp_all add: core_upd)

lemma acts_emit: "acts d x y \<Longrightarrow> no_text x \<Longrightarrow> acts d (emit t x) (emit t y)"
  unfolding acts_def view_def no_text_def emit_def
  by (auto simp: core_def news_snoc)

lemma acts_error: "acts d x y \<Longrightarrow> acts d (add_error e x) (add_error e y)"
  unfolding acts_def view_def no_text_def add_error_def
  by (auto simp: core_def)

lemma acts_text: "acts d x y \<Longrightarrow> (\<And>b. buf_units (f b) = buf_units b @ u) \<Longrightarrow>
   acts d (x\<lparr>it_text_buffer := f (it_text_buffer x)\<rparr>) (y\<lparr>it_text_buffer := f (it_text_buffer y)\<rparr>)"
  unfolding acts_def view_def no_text_def
  by (auto simp: core_def)

lemma acts_flush: "acts d (flush_text d) (flush_text (core d))"
proof -
  have "dr_tokens (flush_text d) = dr_tokens d @ text_tokens (it_text_buffer d)" by (simp add: flush_text_def)
  moreover have t: "dr_tokens (flush_text (core d)) = []" by (simp add: flush_text_def text_tokens_empty)
  moreover have "news (text_tokens (it_text_buffer d)) = news []" by simp
  ultimately have n: "\<exists>ts. dr_tokens (flush_text d) = dr_tokens d @ ts \<and> news ts = news (dr_tokens (flush_text (core d)))"
    by metis
  have c: "core (flush_text d) = core (flush_text (core d))" by (simp add: flush_text_def core_def)
  have v: "view (flush_text d) = view d @ view (flush_text (core d))"
    unfolding view_def t by (simp add: flush_text_def)
  show ?thesis unfolding acts_def using n c v by (simp add: flush_text_def no_text_def)
qed

lemma acts_goto: "acts d x y \<Longrightarrow> acts d (goto s x) (goto s y)"
  by (simp add: goto_def acts_upd)

lemma acts_text_ops:
  assumes "acts d x y"
  shows "acts d (text_point p x) (text_point p y)" "acts d (text_push c x) (text_push c y)" "acts d (text_str s x) (text_str s y)"
  unfolding text_point_def text_push_def text_str_def by (rule acts_text [OF assms], rule units_push)+

lemma acts_attr_ops:
  assumes "acts d x y"
  shows "acts d (attr_point p x) (attr_point p y)" "acts d (comment_point p x) (comment_point p y)"
    "acts d (comment_str s x) (comment_str s y)" "acts d (attr_name_push c x) (attr_name_push c y)"
    "acts d (attr_clear x) (attr_clear y)" "acts d (name_push c x) (name_push c y)"
    "acts d (public_push c x) (public_push c y)" "acts d (system_push c x) (system_push c y)"
    "acts d (public_double x) (public_double y)" "acts d (public_single x) (public_single y)"
    "acts d (system_double x) (system_double y)" "acts d (system_single x) (system_single y)"
  using assms
  by (simp_all add: attr_point_def comment_point_def comment_str_def attr_name_push_def attr_clear_def name_push_def
      public_push_def system_push_def public_double_def public_single_def system_double_def system_single_def
      acts_fields [OF assms] acts_upd acts_goto)

lemma acts_push_attribute: "acts d x y \<Longrightarrow> acts d (push_attribute x) (push_attribute y)"
  by (simp add: push_attribute_def acts_fields [of d x y] acts_upd)

lemma acts_doctype_errors:
  assumes "acts d x y"
  shows "acts d (invalid_doctype x) (invalid_doctype y)" "acts d (force_quirks x) (force_quirks y)"
  using assms by (simp_all add: invalid_doctype_def force_quirks_def acts_error acts_upd)

lemma no_text_ops [simp]:
  "no_text (goto s x) = no_text x" "no_text (add_error e x) = no_text x" "no_text (emit t x) = no_text x"
  "no_text (attr_point p x) = no_text x" "no_text (comment_point p x) = no_text x"
  "no_text (comment_str s' x) = no_text x" "no_text (attr_name_push c x) = no_text x" "no_text (attr_clear x) = no_text x"
  "no_text (name_push c x) = no_text x" "no_text (public_push c x) = no_text x" "no_text (system_push c x) = no_text x"
  "no_text (public_double x) = no_text x" "no_text (public_single x) = no_text x"
  "no_text (system_double x) = no_text x" "no_text (system_single x) = no_text x"
  "no_text (push_attribute x) = no_text x" "no_text (invalid_doctype x) = no_text x"
  "no_text (force_quirks x) = no_text x" "no_text (emit_tag x) = no_text x" "no_text (close_current_tag x) = no_text x"
  "no_text (emit_doctype x) = no_text x" "no_text (emit_comment x) = no_text x" "no_text (flush_text x)"
  by (simp_all add: no_text_def primitive_defs close_current_tag_def emit_tag_def Let_def)

lemma no_text_upd [simp]:
  "no_text (x\<lparr>it_current_tag_name := a\<rparr>) = no_text x" "no_text (x\<lparr>it_current_end_tag_name := a\<rparr>) = no_text x"
  "no_text (x\<lparr>it_current_attributes := as\<rparr>) = no_text x" "no_text (x\<lparr>it_current_self_closing := b\<rparr>) = no_text x"
  "no_text (x\<lparr>it_current_comment := c\<rparr>) = no_text x" "no_text (x\<lparr>it_current_attr_value := c\<rparr>) = no_text x"
  "no_text (x\<lparr>it_doctype_name := a\<rparr>) = no_text x" "no_text (x\<lparr>it_doctype_public_id := o1\<rparr>) = no_text x"
  "no_text (x\<lparr>it_doctype_system_id := o1\<rparr>) = no_text x" "no_text (x\<lparr>it_doctype_force_quirks := b\<rparr>) = no_text x"
  "no_text (x\<lparr>it_temp_buffer := a\<rparr>) = no_text x" "no_text (x\<lparr>it_last_start_tag_name := a\<rparr>) = no_text x"
  by (simp_all add: no_text_def)

lemma acts_emit_tag: "acts d x y \<Longrightarrow> no_text x \<Longrightarrow> acts d (emit_tag x) (emit_tag y)"
  by (simp add: emit_tag_def acts_fields [of d x y] acts_upd acts_emit)

lemma acts_close_current_tag:
  assumes "acts d x y" "no_text x"
  shows "acts d (close_current_tag x) (close_current_tag y)"
proof -
  have s: "acts d (emit_tag x) (emit_tag y)" by (rule acts_emit_tag [OF assms])
  show ?thesis
    unfolding close_current_tag_def Let_def acts_fields [OF s] using s by (simp add: acts_upd acts_goto)
qed

lemma acts_emit_doctype: "acts d x y \<Longrightarrow> no_text x \<Longrightarrow> acts d (emit_doctype x) (emit_doctype y)"
  by (simp add: emit_doctype_def acts_fields [of d x y] acts_upd acts_emit)

lemma acts_emit_comment: "acts d x y \<Longrightarrow> no_text x \<Longrightarrow> acts d (emit_comment x) (emit_comment y)"
  by (simp add: emit_comment_def acts_fields [of d x y] acts_upd acts_emit)

lemmas acts_rules =
  acts_start acts_goto acts_upd acts_error acts_emit acts_text_ops acts_attr_ops acts_push_attribute acts_doctype_errors acts_close_current_tag
  acts_emit_doctype acts_emit_comment acts_flush

lemma no_text_markup: "text_ok d \<Longrightarrow> it_state d \<notin> running_text_states \<Longrightarrow> no_text d"
  by (simp add: text_ok_def no_text_def)

lemma text_ok_no_text: "no_text d \<Longrightarrow> text_ok d"
  by (simp add: text_ok_def no_text_def)

definition same_effect ::
  "Drain \<Rightarrow> (Drain \<Rightarrow> Drain \<times> InputCodePoint list) \<Rightarrow> bool" where
  "same_effect d f \<longleftrightarrow>
     acts d (fst (f d)) (fst (f (core d))) \<and> snd (f d) = snd (f (core d)) \<and> text_ok (fst (f d))"

lemma reference_effects [simp]:
  "acts d (fst (attr_reference r d)) (fst (attr_reference r (core d)))"
  "snd (attr_reference r (core d)) = snd (attr_reference r d)"
  "no_text (fst (attr_reference r d)) = no_text d"
  "acts d (fst (text_reference r d)) (fst (text_reference r (core d)))"
  "snd (text_reference r (core d)) = snd (text_reference r d)"
  "it_state (fst (text_reference r d)) = it_state d"
  by (cases "consume_character_reference r"; cases "fst (consume_character_reference r)";
      simp add: attr_reference_def text_reference_def acts_rules; simp add: primitive_defs no_text_def)+

lemma text_ok_state: "it_state d \<in> running_text_states \<Longrightarrow> text_ok d"
  by (simp add: text_ok_def)

lemmas script_sets = running_text_states_def raw_states_def script_states_def

lemma state_ops [simp]:
  "it_state (goto s x) = s" "it_state (text_point p x) = it_state x" "it_state (text_push c x) = it_state x"
  "it_state (text_str t x) = it_state x" "it_state (add_error e x) = it_state x" "it_state (emit k x) = it_state x"
  "it_state (flush_text x) = it_state x"
  by (simp_all add: primitive_defs)

lemma raw_next_state_script: "raw_next_state n b s \<in> running_text_states"
  by (simp add: raw_next_state_def script_sets)

lemma step_attribute_effect:
  assumes "text_ok d" "it_state d \<in> attribute_states"
  shows "same_effect d (step_attribute p r)"
proof -
  have n: "no_text d"
    by (rule no_text_markup [OF assms(1)]) (use assms(2) in \<open>auto simp: attribute_states_def script_sets\<close>)
  show ?thesis using assms(2) n unfolding attribute_states_def same_effect_def
    by (elim insertE emptyE; simp add: step_attribute_def Let_def acts_rules text_ok_no_text)
qed

lemma step_comment_effect:
  assumes "text_ok d" "it_state d \<in> comment_states"
  shows "same_effect d (step_comment p r)"
proof -
  have n: "no_text d"
    by (rule no_text_markup [OF assms(1)]) (use assms(2) in \<open>auto simp: comment_states_def script_sets\<close>)
  show ?thesis using assms(2) n unfolding comment_states_def same_effect_def
    by (elim insertE emptyE; simp add: step_comment_def acts_rules text_ok_no_text)
qed

lemma step_markup_declaration_effect:
  assumes "text_ok d" "it_state d = MarkupDeclarationOpen"
  shows "same_effect d (step_markup_declaration p r)"
proof -
  have n: "no_text d"
    by (rule no_text_markup [OF assms(1)]) (use assms(2) in \<open>auto simp: script_sets\<close>)
  show ?thesis using assms(2) n unfolding same_effect_def
    by (simp add: step_markup_declaration_def Let_def acts_rules text_ok_no_text)
qed

lemma step_doctype_effect:
  assumes "text_ok d" "it_state d \<in> doctype_states"
  shows "same_effect d (step_doctype_state p r)"
proof -
  have n: "no_text d"
    by (rule no_text_markup [OF assms(1)]) (use assms(2) in \<open>auto simp: doctype_states_def script_sets\<close>)
  show ?thesis using assms(2) n unfolding doctype_states_def same_effect_def
    by (elim insertE emptyE; simp add: step_doctype_state_def after_doctype_name_def Let_def case_prod_unfold acts_rules
        text_ok_no_text)
qed

lemma pi_consume_effect:
  assumes "no_text d"
  shows "acts d (fst (pi_consume r d)) (fst (pi_consume r (core d))) \<and> snd (pi_consume r (core d)) = snd (pi_consume r d)
         \<and> no_text (fst (pi_consume r d))"
proof -
  have b: "acts d (fst (pi_after_target t r d)) (fst (pi_after_target t r (core d)))
           \<and> snd (pi_after_target t r (core d)) = snd (pi_after_target t r d) \<and> no_text (fst (pi_after_target t r d))"
    for t r
    using assms unfolding pi_after_target_def
    by (cases r; cases "pi_data text_buffer_default (dropWhile (\<lambda>p. is_html_whitespace (scalar_view p)) r)";
        cases "fst (pi_data text_buffer_default (dropWhile (\<lambda>p. is_html_whitespace (scalar_view p)) r))";
        simp add: Let_def acts_rules case_prod_unfold del: dropWhile.simps)
  show ?thesis
    using assms b unfolding pi_consume_def
    by (cases r; simp add: Let_def acts_rules case_prod_unfold del: dropWhile.simps takeWhile.simps)
qed

lemma step_content_effect:
  assumes "text_ok d" "it_state d \<in> content_states"
  shows "same_effect d (step_content p r)"
proof -
  have n: "it_state d \<in> {TagOpen, EndTagOpen, TagName} \<Longrightarrow> no_text d"
    by (rule no_text_markup [OF assms(1)]) (auto simp: script_sets)
  show ?thesis
  proof (cases "it_state d \<in> {TagOpen, EndTagOpen, TagName}")
    case True
    then show ?thesis using n [OF True] pi_consume_effect [OF n [OF True], of r] unfolding same_effect_def
      by (elim insertE emptyE; simp add: step_content_def Let_def acts_rules text_ok_no_text text_ok_state script_sets
          apfst_def map_prod_def case_prod_unfold)
  next
    case False
    then have "it_state d \<in> {Data, PlainText}" using assms(2) by (auto simp: content_states_def)
    then show ?thesis unfolding same_effect_def
      by (elim insertE emptyE; simp add: step_content_def Let_def acts_rules text_ok_no_text text_ok_state script_sets)
  qed
qed


lemma begin_end_tag_effect:
  "acts d (begin_end_tag s d) (begin_end_tag s (core d))" "no_text (begin_end_tag s d)"
  by (simp_all add: begin_end_tag_def acts_rules)

lemma raw_pieces_effect:
  assumes "base \<in> running_text_states" "it_state d \<in> running_text_states"
  shows "open \<in> running_text_states \<Longrightarrow> same_effect d (raw_less_than open base p r)"
    and "name \<in> running_text_states \<Longrightarrow> same_effect d (raw_end_tag_open name base p r)"
    and "same_effect d (raw_end_tag_name base p r)"
    and "yes \<in> running_text_states \<Longrightarrow> no \<in> running_text_states \<Longrightarrow> same_effect d (double_escape_name yes no base p r)"
  using assms unfolding same_effect_def
  by (simp_all add: raw_less_than_def raw_end_tag_open_def raw_end_tag_name_def raw_end_tag_name_step_def
      double_escape_name_def Let_def acts_rules begin_end_tag_effect text_ok_no_text text_ok_state)

lemmas raw_pieces = raw_pieces_effect [unfolded same_effect_def, THEN conjunct1]
  raw_pieces_effect [unfolded same_effect_def, THEN conjunct2, THEN conjunct1, symmetric]
  raw_pieces_effect [unfolded same_effect_def, THEN conjunct2, THEN conjunct2]

lemma step_raw_effect:
  assumes "it_state d \<in> raw_states"
  shows "same_effect d (step_raw p r)"
  using assms unfolding raw_states_def
  by (elim insertE emptyE; simp add: same_effect_def step_raw_def raw_pieces acts_rules
      text_ok_state script_sets)

lemma step_script_effect:
  assumes "it_state d \<in> script_states"
  shows "same_effect d (step_script p r)"
  using assms unfolding script_states_def
  by (elim insertE emptyE; simp add: same_effect_def step_script_def raw_pieces acts_rules
      text_ok_state script_sets)

lemma html_step_effect:
  assumes "text_ok d"
  shows "same_effect d (html_step p r)"
  using state_partition [of "it_state d"] step_content_effect [OF assms] step_attribute_effect [OF assms]
    step_markup_declaration_effect [OF assms] step_comment_effect [OF assms] step_doctype_effect [OF assms]
    step_raw_effect [of d] step_script_effect [of d]
  by (auto simp: html_step_def same_effect_def Let_def)

end
