(* ===== verification/HtmlChunks.thy ===== *)
theory HtmlChunks
  imports HtmlOutput
begin

text \<open>
  Feeding the tokenizer in pieces: the tokens, errors and script positions of an input do not depend on how the
  input is cut into writes, nor on where the parser interrupts the tokenizer at script end tags.  Text may be cut into
  different \<open>Character\<close> tokens; what is compared is the text itself, as UTF-16, between the other
  tokens.
\<close>

section \<open>Two runs side by side\<close>

text \<open>\<open>x\<close> is ahead of \<open>y\<close> by output that has been delivered before.\<close>

definition ahead ::
  "(u16 + Token) list \<Rightarrow> HtmlParseError list \<Rightarrow> SourcePosition list \<Rightarrow> Drain \<Rightarrow> Drain \<Rightarrow> bool" where
  "ahead ts es ps x y \<longleftrightarrow>
     core x = core y \<and> view x = ts @ view y \<and> dr_errors x = es @ dr_errors y
     \<and> map snd (it_script_source_positions x) = ps @ map snd (it_script_source_positions y)
     \<and> text_ok x \<and> text_ok y"

lemma acts_new_script:
  assumes "acts d x y"
  shows "length (dr_tokens d) < length (dr_tokens x) \<and> is_script_start (last (dr_tokens x)) \<longleftrightarrow>
      (case news (dr_tokens y) of None \<Rightarrow> False | Some t \<Rightarrow> is_script_start t)"
    and "length (dr_tokens d) < length (dr_tokens x) \<and> is_script_end (last (dr_tokens x)) \<longleftrightarrow>
      (case news (dr_tokens y) of None \<Rightarrow> False | Some t \<Rightarrow> is_script_end t)"
proof -
  obtain ts where ts: "dr_tokens x = dr_tokens d @ ts" "news ts = news (dr_tokens y)"
    using assms by (auto simp: acts_def)
  show "length (dr_tokens d) < length (dr_tokens x) \<and> is_script_start (last (dr_tokens x)) \<longleftrightarrow>
      (case news (dr_tokens y) of None \<Rightarrow> False | Some t \<Rightarrow> is_script_start t)"
    unfolding ts(2) [symmetric] using ts(1) script_no_text [of "last ts"] by (auto simp: news_def)
  show "length (dr_tokens d) < length (dr_tokens x) \<and> is_script_end (last (dr_tokens x)) \<longleftrightarrow>
      (case news (dr_tokens y) of None \<Rightarrow> False | Some t \<Rightarrow> is_script_end t)"
    unfolding ts(2) [symmetric] using ts(1) script_no_text [of "last ts"] by (auto simp: news_def)
qed

lemma record_position_view [simp]:
  "view (record_position c n d) = view d" "dr_errors (record_position c n d) = dr_errors d"
  "text_ok (record_position c n d) = text_ok d" "dr_tokens (record_position c n d) = dr_tokens d"
  by (simp_all add: record_position_def Let_def view_def text_ok_def)

lemma core_record_position:
  "core (record_position c n d) = (core d)\<lparr>it_source_position := fold sp_advance c (it_source_position d)\<rparr>"
  by (simp add: record_position_def Let_def core_def)

lemma positions_record_position:
  "map snd (it_script_source_positions (record_position c n d)) =
     map snd (it_script_source_positions d) @
     (if n < length (dr_tokens d) \<and> is_script_start (last (dr_tokens d))
      then [fold sp_advance c (it_source_position d)] else [])"
  by (simp add: record_position_def Let_def)

lemma step_and_record_unfold:
  "step_and_record p r d =
     (record_position (take (length (p # r) - length (snd (html_step p r d))) (p # r)) (length (dr_tokens d))
        (fst (html_step p r d)), snd (html_step p r d))"
  by (simp add: step_and_record_def case_prod_unfold Let_def)

lemma ahead_step:
  assumes "ahead ts es ps x y"
  shows "ahead ts es ps (fst (step_and_record p r x)) (fst (step_and_record p r y))
         \<and> snd (step_and_record p r x) = snd (step_and_record p r y)
         \<and> (length (dr_tokens x) < length (dr_tokens (fst (step_and_record p r x)))
             \<and> is_script_end (last (dr_tokens (fst (step_and_record p r x)))) \<longleftrightarrow>
            length (dr_tokens y) < length (dr_tokens (fst (step_and_record p r y)))
             \<and> is_script_end (last (dr_tokens (fst (step_and_record p r y)))))"
proof -
  let ?c = "html_step p r (core x)"
  have eq: "core x = core y" "view x = ts @ view y" "dr_errors x = es @ dr_errors y"
    "map snd (it_script_source_positions x) = ps @ map snd (it_script_source_positions y)"
    and ok: "text_ok x" "text_ok y"
    using assms by (simp_all add: ahead_def)
  have x: "acts x (fst (html_step p r x)) (fst ?c)" "snd (html_step p r x) = snd ?c" "text_ok (fst (html_step p r x))"
    using html_step_effect [OF ok(1), of p r] by (simp_all add: same_effect_def)
  have y: "acts y (fst (html_step p r y)) (fst ?c)" "snd (html_step p r y) = snd ?c" "text_ok (fst (html_step p r y))"
    using html_step_effect [OF ok(2), of p r] by (simp_all add: same_effect_def eq(1))
  have c: "core (fst (html_step p r x)) = core (fst (html_step p r y))"
    using x(1) y(1) by (simp add: acts_def)
  have "view (fst (html_step p r x)) = ts @ view (fst (html_step p r y))"
    "dr_errors (fst (html_step p r x)) = es @ dr_errors (fst (html_step p r y))"
    "map snd (it_script_source_positions (fst (html_step p r x))) =
       ps @ map snd (it_script_source_positions (fst (html_step p r y)))"
    using x(1) y(1) by (simp_all add: acts_def eq)
  then show ?thesis
    using x(2,3) y(2,3) acts_new_script [OF x(1)] acts_new_script [OF y(1)] core_eqD(1,3) [OF c] eq(1) core_eqD(3) [OF eq(1)]
    by (simp add: ahead_def step_and_record_unfold core_record_position positions_record_position c)
qed

lemma drain_loop_end: "snd (drain_loop True False rest d) = []"
  by (induction True False rest d rule: drain_loop.induct) (auto split: prod.split)

lemma ahead_loop:
  assumes "ahead ts es ps x y"
  shows "ahead ts es ps (fst (drain_loop eof stop rest x)) (fst (drain_loop eof stop rest y))
         \<and> snd (drain_loop eof stop rest x) = snd (drain_loop eof stop rest y)"
  using assms
proof (induction eof stop rest x arbitrary: y rule: drain_loop.induct)
  case (1 eof stop d)
  then show ?case by simp
next
  case (2 eof stop p r d)
  obtain x' r' where x: "step_and_record p r d = (x', r')" by fastforce
  obtain y' r'' where y: "step_and_record p r y = (y', r'')" by fastforce
  have st: "it_state y = it_state d" using 2(2) core_eqD(3) [of d y] by (simp add: ahead_def)
  from ahead_step [OF 2(2), of p r] have a: "ahead ts es ps x' y'" "r'' = r'"
    and b: "length (dr_tokens d) < length (dr_tokens x') \<and> is_script_end (last (dr_tokens x')) \<longleftrightarrow>
            length (dr_tokens y) < length (dr_tokens y') \<and> is_script_end (last (dr_tokens y'))"
    by (simp_all add: x y)
  show ?case
  proof (cases "(\<not> eof \<and> needs_more_input (it_state d) p r) \<or>
      (stop \<and> length (dr_tokens d) < length (dr_tokens x') \<and> is_script_end (last (dr_tokens x')))")
    case True
    then show ?thesis using 2(2) a b st by (auto simp: x y)
  next
    case False
    then have "ahead ts es ps (fst (drain_loop eof stop r' x')) (fst (drain_loop eof stop r' y')) \<and>
        snd (drain_loop eof stop r' x') = snd (drain_loop eof stop r' y')"
      using 2(1) [OF _ x [symmetric] refl] a(1) by blast
    then show ?thesis using False a(2) b st by (auto simp: x y)
  qed
qed

section \<open>More input behind\<close>

abbreviation more :: "InputCodePoint list \<Rightarrow> 'a \<times> InputCodePoint list \<Rightarrow> 'a \<times> InputCodePoint list" where
  "more s \<equiv> apsnd (\<lambda>r. r @ s)"

lemma more_pair: "x = more s y \<longleftrightarrow> fst x = fst y \<and> snd x = snd y @ s"
  by (cases x; cases y) auto

lemma scan_entity_append:
  "\<not> list_all (\<lambda>q. sc_alphanumeric (scalar_view q) \<or> scalar_view q = asc CHR ''#'') r \<Longrightarrow>
   scan_entity (r @ s) = map_option (more s) (scan_entity r)"
  by (induction r) (auto simp: Let_def option.map_comp comp_def apfst_def apsnd_def map_prod_def case_prod_unfold)

lemma character_reference_append:
  assumes "\<not> list_all (\<lambda>q. sc_alphanumeric (scalar_view q) \<or> scalar_view q = asc CHR ''#'') r"
  shows "consume_character_reference (r @ s) = more s (consume_character_reference r)"
  unfolding consume_character_reference_def scan_entity_append [OF assms]
  by (auto split: option.splits)

lemma reference_append:
  assumes "\<not> list_all (\<lambda>q. sc_alphanumeric (scalar_view q) \<or> scalar_view q = asc CHR ''#'') r"
  shows "text_reference (r @ s) d = more s (text_reference r d)" "attr_reference (r @ s) d = more s (attr_reference r d)"
  unfolding text_reference_def attr_reference_def character_reference_append [OF assms]
  by (auto split: prod.splits sum.splits)

definition closes :: "InputCodePoint list \<Rightarrow> bool" where
  "closes r \<longleftrightarrow> PtScalar (asc CHR ''>'') \<in> set r"

lemma closes_simps [simp]: "\<not> closes []" "closes (p # r) \<longleftrightarrow> p = PtScalar (asc CHR ''>'') \<or> closes r"
  by (auto simp: closes_def)

lemma view_gt: "scalar_view p = asc CHR ''>'' \<longleftrightarrow> p = PtScalar (asc CHR ''>'')"
  by (cases p) (auto simp: asc_def)

lemma pi_bogus_data_append: "closes r \<Longrightarrow> pi_bogus_data data (r @ s) = more s (pi_bogus_data data r)"
  by (induction r arbitrary: data) (auto simp: view_gt)

lemma pi_bogus_comment_append: "closes r \<Longrightarrow> pi_bogus_comment (r @ s) t = more s (pi_bogus_comment r t)"
  by (simp add: pi_bogus_comment_def pi_bogus_data_append case_prod_unfold Let_def)

lemma pi_data_append: "closes r \<Longrightarrow> pi_data data (r @ s) = more s (pi_data data r)"
proof (induction r arbitrary: data)
  case Nil
  then show ?case by simp
next
  case (Cons p r)
  show ?case
  proof (cases "p = PtScalar (asc CHR ''>'')")
    case True
    then show ?thesis by simp
  next
    case False
    then have "closes r" using Cons.prems by simp
    then show ?thesis using Cons.IH [of "push_code_point p data"] False
      by (cases r) (auto simp: Let_def view_gt)
  qed
qed

lemma closes_dropWhile:
  assumes "closes r" "\<not> P (PtScalar (asc CHR ''>''))"
  shows "closes (dropWhile P r)" "dropWhile P (r @ s) = dropWhile P r @ s" "takeWhile P (r @ s) = takeWhile P r"
  using assms by (induction r) auto

lemma gt_no_name [simp]: "\<not> pi_name_char (asc CHR ''>'')" "\<not> is_html_whitespace (asc CHR ''>'')"
  by (simp_all add: pi_name_char_def is_html_whitespace_def sc_alphanumeric_def sc_digit_def sc_alphabetic_def asc_def)

lemma pi_after_target_append:
  assumes "closes r"
  shows "pi_after_target t (r @ s) d = more s (pi_after_target t r d)"
proof -
  let ?P = "\<lambda>p. is_html_whitespace (scalar_view p)"
  have "pi_data text_buffer_default (dropWhile ?P (r @ s)) = more s (pi_data text_buffer_default (dropWhile ?P r))"
    using closes_dropWhile [OF assms, where P = ?P] by (simp add: pi_data_append)
  moreover obtain q r' where "r = q # r'" using assms by (cases r) auto
  ultimately show ?thesis
    using pi_bogus_comment_append [OF assms, of s t] unfolding pi_after_target_def
    by (simp add: case_prod_unfold Let_def del: dropWhile.simps split: option.split)
qed

lemma pi_consume_append:
  assumes "closes r"
  shows "pi_consume (r @ s) d = more s (pi_consume r d)"
proof -
  let ?P = "\<lambda>p. pi_name_char (scalar_view p)"
  have a: "pi_after_target (map scalar_view (takeWhile ?P (r @ s))) (dropWhile ?P (r @ s)) d =
        more s (pi_after_target (map scalar_view (takeWhile ?P r)) (dropWhile ?P r) d)"
    using closes_dropWhile [OF assms, where P = ?P] by (simp add: pi_after_target_append)
  obtain q r' where r: "r = q # r'" using assms by (cases r) auto
  show ?thesis
    using a pi_bogus_comment_append [OF assms, of s "[]"] unfolding pi_consume_def r
    by (simp add: case_prod_unfold Let_def del: dropWhile.simps takeWhile.simps)
qed

lemma scan_keyword_append:
  "snd (scan_keyword n r) \<noteq> [] \<or> n + length r \<ge> 6 \<Longrightarrow> scan_keyword n (r @ s) = more s (scan_keyword n r)"
proof (induction r arbitrary: n)
  case Nil
  then show ?case by (cases s) simp_all
next
  case (Cons p r)
  then show ?case by (auto simp: apfst_def apsnd_def map_prod_def case_prod_unfold)
qed

lemma scan_keyword_all:
  assumes "snd (scan_keyword n r) = []"
  shows "\<forall>q\<in>set r. sc_alphabetic (scalar_view q)"
  using assms by (induction r arbitrary: n) (auto split: if_splits)

lemma scan_keyword_letters: "\<exists>k. r = k @ snd (scan_keyword n r) \<and> (\<forall>q\<in>set k. sc_alphabetic (scalar_view q))"
proof (induction r arbitrary: n)
  case Nil
  then show ?case by simp
next
  case (Cons p r)
  obtain k where k: "r = k @ snd (scan_keyword (n + 1) r)" "\<forall>q\<in>set k. sc_alphabetic (scalar_view q)"
    using Cons by blast
  show ?case
  proof (cases "n < 6 \<and> sc_alphabetic (scalar_view p)")
    case True
    then show ?thesis using k by (intro exI [of _ "p # k"]) simp
  next
    case False
    then show ?thesis by (intro exI [of _ "[]"]) auto
  qed
qed


lemma needed_reference_append:
  assumes "\<not> needs_more_input (it_state d) p r"
    and "it_state d \<in> {Data, RcData, AttributeValueDoubleQuoted, AttributeValueSingleQuoted, AttributeValueUnquoted}"
  shows "scalar_view p = asc CHR ''&'' \<Longrightarrow> text_reference (r @ s) d = more s (text_reference r d)"
    and "scalar_view p = asc CHR ''&'' \<Longrightarrow> attr_reference (r @ s) d = more s (attr_reference r d)"
  using assms by (simp_all add: needs_more_input_def Let_def reference_append del: insert_iff)

lemma script_step_append:
  "raw_less_than open base p (r @ s) d = more s (raw_less_than open base p r d)"
  "raw_end_tag_open name base p (r @ s) d = more s (raw_end_tag_open name base p r d)"
  "raw_end_tag_name base p (r @ s) d = more s (raw_end_tag_name base p r d)"
  "double_escape_name yes no base p (r @ s) d = more s (double_escape_name yes no base p r d)"
  by (simp_all add: raw_less_than_def raw_end_tag_open_def raw_end_tag_name_def double_escape_name_def Let_def
      split: prod.split bool.split)

lemma step_script_append: "it_state d \<in> script_states \<Longrightarrow> step_script p (r @ s) d = more s (step_script p r d)"
  unfolding script_states_def by (elim insertE emptyE; simp add: step_script_def script_step_append)

lemma step_raw_append:
  assumes "it_state d \<in> raw_states" "\<not> needs_more_input (it_state d) p r"
  shows "step_raw p (r @ s) d = more s (step_raw p r d)"
  using assms(1) needed_reference_append [OF assms(2), of s] unfolding raw_states_def
  by (elim insertE emptyE; simp add: step_raw_def script_step_append point_is_def)

lemma step_comment_append: "it_state d \<in> comment_states \<Longrightarrow> step_comment p (r @ s) d = more s (step_comment p r d)"
  unfolding comment_states_def by (elim insertE emptyE; simp add: step_comment_def)

lemma step_attribute_append:
  assumes "it_state d \<in> attribute_states" "\<not> needs_more_input (it_state d) p r"
  shows "step_attribute p (r @ s) d = more s (step_attribute p r d)"
  using assms(1) needed_reference_append [OF assms(2), of s] unfolding attribute_states_def
  by (elim insertE emptyE; simp add: step_attribute_def Let_def)

lemma step_content_append:
  assumes "it_state d \<in> content_states" "\<not> needs_more_input (it_state d) p r"
  shows "step_content p (r @ s) d = more s (step_content p r d)"
proof (cases "it_state d = TagOpen \<and> scalar_view p = asc CHR ''?''")
  case True
  then have "closes r" using assms(2) by (auto simp: needs_more_input_def Let_def closes_def asc_def)
  then show ?thesis using True
    by (simp add: step_content_def Let_def pi_consume_append apfst_def apsnd_def map_prod_def case_prod_unfold asc_def)
next
  case False
  then show ?thesis using assms(1) needed_reference_append [OF assms(2), of s] unfolding content_states_def
    by (elim insertE emptyE; simp add: step_content_def Let_def)
qed

lemma step_markup_declaration_append:
  assumes "it_state d = MarkupDeclarationOpen" "\<not> needs_more_input (it_state d) p r"
  shows "step_markup_declaration p (r @ s) d = more s (step_markup_declaration p r d)"
proof (cases "scalar_view p = asc CHR ''-''")
  case True
  then obtain q r' where "r = q # r'" using assms by (cases r) (auto simp: needs_more_input_def Let_def asc_def)
  then show ?thesis using True by (simp add: step_markup_declaration_def point_is_def Let_def asc_def sc_lower_def)
next
  case False
  show ?thesis
  proof (cases "sc_lower (scalar_view p) = asc CHR ''d''")
    case True
    have "6 \<le> length r"
      using assms True False by (auto simp: needs_more_input_def Let_def asc_def split: if_splits)
    then show ?thesis using True False by (simp add: step_markup_declaration_def point_is_def Let_def)
  next
    case F: False
    then show ?thesis using False by (simp add: step_markup_declaration_def point_is_def Let_def)
  qed
qed

text \<open>A letter after a malformed keyword may still be taken with the keyword or be skipped afterwards.\<close>

definition absorbs :: "Drain \<Rightarrow> InputCodePoint list \<Rightarrow> Drain \<times> InputCodePoint list \<Rightarrow> Drain \<times> InputCodePoint list \<Rightarrow> bool" where
  "absorbs d s x y \<longleftrightarrow>
     dr_tokens (fst x) = dr_tokens d \<and> fst y = fst x \<and> snd x = [] \<and> it_state (fst x) = BogusDoctype
     \<and> (\<exists>k. s = k @ snd y \<and> (\<forall>q\<in>set k. sc_alphabetic (scalar_view q)))"

lemma keyword_first:
  "sc_eq_ignore_case (c # cs) (lit ''public'') \<Longrightarrow> sc_alphabetic c"
  "sc_eq_ignore_case (c # cs) (lit ''system'') \<Longrightarrow> sc_alphabetic c"
  by (auto simp: sc_eq_ignore_case_def lit_def asc_def sc_lower_def sc_alphabetic_def split: if_splits)

lemma scan_keyword_through:
  "snd (scan_keyword n r) = [] \<Longrightarrow>
   \<exists>k. s = k @ snd (scan_keyword n (r @ s)) \<and> (\<forall>q\<in>set k. sc_alphabetic (scalar_view q))"
proof (induction r arbitrary: n)
  case Nil
  then show ?case using scan_keyword_letters by simp
next
  case (Cons p r)
  then show ?case by (auto split: if_splits)
qed

lemma after_doctype_name_append:
  assumes "length (p # r) \<ge> 6 \<or> \<not> list_all (\<lambda>q. sc_alphabetic (scalar_view q)) (p # r)"
  shows "after_doctype_name (scalar_view p) (r @ s) d = more s (after_doctype_name (scalar_view p) r d)
         \<or> absorbs d s (after_doctype_name (scalar_view p) r d) (after_doctype_name (scalar_view p) (r @ s) d)"
proof (cases "snd (scan_keyword (len_utf8 (scalar_view p)) r) \<noteq> [] \<or> len_utf8 (scalar_view p) + length r \<ge> 6")
  case True
  from scan_keyword_append [OF this, of s] show ?thesis
    by (simp add: after_doctype_name_def case_prod_unfold Let_def)
next
  case False
  then have n: "snd (scan_keyword (len_utf8 (scalar_view p)) r) = []" by simp
  have "1 \<le> len_utf8 (scalar_view p)" by (simp add: len_utf8_def)
  with False have "length (p # r) < 6" by simp
  then have a: "\<not> sc_alphabetic (scalar_view p)"
    using assms scan_keyword_all [OF n] by (auto simp: list_all_iff)
  have bogus: "after_doctype_name (scalar_view p) r' d =
      (goto BogusDoctype (force_quirks d), snd (scan_keyword (len_utf8 (scalar_view p)) r'))" for r'
    using a keyword_first by (auto simp: after_doctype_name_def case_prod_unfold Let_def)
  obtain k where "s = k @ snd (scan_keyword (len_utf8 (scalar_view p)) (r @ s))" "\<forall>q\<in>set k. sc_alphabetic (scalar_view q)"
    using scan_keyword_through [OF n, of s] by blast
  then show ?thesis by (auto simp: absorbs_def bogus n primitive_defs)
qed

lemma step_doctype_append:
  assumes "it_state d \<in> doctype_states" "\<not> needs_more_input (it_state d) p r"
  shows "step_doctype_state p (r @ s) d = more s (step_doctype_state p r d)
         \<or> absorbs d s (step_doctype_state p r d) (step_doctype_state p (r @ s) d)"
proof (cases "it_state d = AfterDoctypeName \<and> \<not> is_html_whitespace (scalar_view p) \<and> scalar_view p \<noteq> asc CHR ''>''")
  case True
  then have "length (p # r) \<ge> 6 \<or> \<not> list_all (\<lambda>q. sc_alphabetic (scalar_view q)) (p # r)"
    using assms(2) by (auto simp: needs_more_input_def Let_def asc_def not_less split: if_splits)
  then show ?thesis using after_doctype_name_append [of p r s d] True by (simp add: step_doctype_state_def Let_def)
next
  case False
  then show ?thesis using assms(1) unfolding doctype_states_def
    by (elim insertE emptyE; simp add: step_doctype_state_def Let_def; blast)
qed

lemma html_step_append:
  assumes "\<not> needs_more_input (it_state d) p r"
  shows "html_step p (r @ s) d = more s (html_step p r d) \<or> absorbs d s (html_step p r d) (html_step p (r @ s) d)"
  using state_partition [of "it_state d"] step_script_append step_raw_append [OF _ assms] step_comment_append
    step_attribute_append [OF _ assms] step_content_append [OF _ assms] step_markup_declaration_append [OF _ assms]
    step_doctype_append [OF _ assms]
  by (auto simp: html_step_def Let_def)


lemma step_and_record_append:
  assumes "html_step p (r @ s) d = more s (html_step p r d)"
  shows "step_and_record p (r @ s) d = more s (step_and_record p r d)"
proof -
  obtain d1 r1 where h: "html_step p r d = (d1, r1)" by fastforce
  have "take n (p # r @ s) = take n (p # r)" if "n \<le> Suc (length r)" for n
    using that by (cases n) simp_all
  then show ?thesis using assms h by (simp add: step_and_record_def)
qed

lemma skip_bogus_doctype:
  assumes "it_state d = BogusDoctype" "\<forall>q\<in>set k. sc_alphabetic (scalar_view q)"
  shows "drain_loop True False (k @ s) d =
         drain_loop True False s (d\<lparr>it_source_position := fold sp_advance k (it_source_position d)\<rparr>)"
  using assms
proof (induction k arbitrary: d)
  case Nil
  then show ?case by simp
next
  case (Cons q k)
  have "scalar_view q \<noteq> asc CHR ''>''"
    using Cons.prems(2) by (auto simp: sc_alphabetic_def asc_def)
  then have "html_step q (k @ s) d = (d, k @ s)"
    using Cons.prems(1) by (simp add: html_step_def state_sets step_doctype_state_def Let_def)
  then have "step_and_record q (k @ s) d =
      (d\<lparr>it_source_position := sp_advance q (it_source_position d)\<rparr>, k @ s)"
    by (simp add: step_and_record_def record_position_def Let_def)
  then show ?case using Cons.IH [of "d\<lparr>it_source_position := sp_advance q (it_source_position d)\<rparr>"] Cons.prems
    by simp
qed

lemma drain_loop_append:
  assumes "drain_loop False stop rest d = (d', r')"
  shows "drain_loop True False (rest @ s) d = drain_loop True False (r' @ s) d'"
  using assms
proof (induction False stop rest d arbitrary: d' r' rule: drain_loop.induct)
  case (1 stop d)
  then show ?case by simp
next
  case (2 stop p r d)
  show ?case
  proof (cases "needs_more_input (it_state d) p r")
    case True
    then show ?thesis using 2(2) by simp
  next
    case False
    obtain d1 r1 where s1: "step_and_record p r d = (d1, r1)" by fastforce
    from html_step_append [OF False, of s] show ?thesis
    proof
      assume "html_step p (r @ s) d = more s (html_step p r d)"
      from step_and_record_append [OF this] have s2: "step_and_record p (r @ s) d = (d1, r1 @ s)"
        by (simp add: s1)
      show ?thesis
      proof (cases "stop \<and> length (dr_tokens d1) > length (dr_tokens d) \<and> is_script_end (last (dr_tokens d1))")
        case True
        then have "d' = d1 \<and> r' = r1" using 2(2) False by (simp add: s1)
        then show ?thesis by (simp add: s2)
      next
        case F: False
        then have "drain_loop False stop r1 d1 = (d', r')" using 2(2) False by (auto simp: s1 split: if_splits)
        with F False 2(1) [OF _ s1 [symmetric] refl] show ?thesis by (simp add: s2)
      qed
    next
      assume "absorbs d s (html_step p r d) (html_step p (r @ s) d)"
      then obtain h k s' where h: "html_step p r d = (h, [])" "html_step p (r @ s) d = (h, s')" "s = k @ s'"
        "dr_tokens h = dr_tokens d" "it_state h = BogusDoctype" "\<forall>q\<in>set k. sc_alphabetic (scalar_view q)"
        unfolding absorbs_def by (metis prod.collapse)
      have s1: "step_and_record p r d = (record_position (p # r) (length (dr_tokens d)) h, [])"
        by (simp add: step_and_record_def h(1))
      have s2: "step_and_record p (r @ s) d = (record_position (p # r @ k) (length (dr_tokens d)) h, s')"
        using h(2) unfolding h(3) by (simp add: step_and_record_def)
      have "d' = record_position (p # r) (length (dr_tokens d)) h" "r' = []"
        using 2(2) False by (auto simp: s1 split: if_splits)
      moreover have "record_position (p # r @ k) (length (dr_tokens d)) h =
        (record_position (p # r) (length (dr_tokens d)) h)
          \<lparr>it_source_position := fold sp_advance k
             (it_source_position (record_position (p # r) (length (dr_tokens d)) h))\<rparr>"
        by (simp add: record_position_def h(4))
      ultimately show ?thesis
        using skip_bogus_doctype [of "record_position (p # r) (length (dr_tokens d)) h" k s'] h(5,6)
        by (simp add: s2 [unfolded h(3)] h(3))
    qed
  qed
qed


section \<open>Writes\<close>

lemma push_unit_out:
  "decoder_push_unit u (d, out) =
     (fst (decoder_push_unit u (d, [])), out @ snd (decoder_push_unit u (d, [])))"
  by (simp add: decoder_push_unit_def decoder_unit_def Let_def split: option.split)

lemma push_out: "decoder_push us (d, out) = (fst (decoder_push us (d, [])), out @ snd (decoder_push us (d, [])))"
proof (induction us arbitrary: d out)
  case Nil
  then show ?case by (simp add: decoder_push_def)
next
  case (Cons u us)
  obtain d' o' where u: "decoder_push_unit u (d, []) = (d', o')" by fastforce
  then have "decoder_push_unit u (d, out) = (d', out @ o')" by (subst push_unit_out) simp
  then show ?case using Cons.IH [of d' "out @ o'"] Cons.IH [of d' o'] by (simp add: decoder_push_def u)
qed

lemma finish_out: "decoder_finish (d, out) = (fst (decoder_finish (d, [])), out @ snd (decoder_finish (d, [])))"
  by (simp add: decoder_finish_def split: option.split)

lemma push_append: "decoder_push (us @ vs) x = decoder_push vs (decoder_push us x)"
  by (simp add: decoder_push_def)

lemma u16_small: "n < 65536 \<Longrightarrow> unat (word_of_nat n :: u16) = n"
  by (simp add: unat_of_nat)

text \<open>A string is written as its UTF-16 encoding would be.\<close>

lemma push_scalar:
  assumes "is_scalar_value c"
  shows "decoder_push (encode_utf16 c) (d, out) = (d\<lparr>pending_high := None\<rparr>, snd (decoder_finish (d, out)) @ [PtScalar c])"
proof (cases "c < 0x10000")
  case True
  then have u: "unat (word_of_nat c :: u16) = c" by (simp add: unat_of_nat)
  then have "\<not> is_high (word_of_nat c)" "\<not> is_low (word_of_nat c)"
    using assms by (auto simp: is_high_def is_low_def is_scalar_value_def)
  then show ?thesis using True u
    by (cases d) (simp add: encode_utf16_def decoder_push_def decoder_push_unit_def decoder_unit_def decoder_finish_def
        split: option.split)
next
  case False
  let ?a = "(c - 0x10000) div 0x400" and ?b = "(c - 0x10000) mod 0x400"
  have "c - 0x10000 < 0x400 * 0x400" using assms False by (auto simp: is_scalar_value_def)
  then have a: "?a < 0x400" by (simp add: less_mult_imp_div_less)
  have b: "?b < 0x400" by simp
  have h: "unat (word_of_nat (0xD800 + ?a) :: u16) = 0xD800 + ?a"
    and l: "unat (word_of_nat (0xDC00 + ?b) :: u16) = 0xDC00 + ?b"
    by (rule u16_small, use a b in linarith)+
  have "is_high (word_of_nat (0xD800 + ?a))" "is_low (word_of_nat (0xDC00 + ?b))" "\<not> is_low (word_of_nat (0xD800 + ?a))"
    unfolding is_high_def is_low_def h l using a b by linarith+
  moreover have "surrogate_pair (word_of_nat (0xD800 + ?a)) (word_of_nat (0xDC00 + ?b)) = c"
  proof -
    have "?a * 0x400 + ?b = c - 0x10000" by (rule div_mult_mod_eq)
    moreover have "surrogate_pair (word_of_nat (0xD800 + ?a)) (word_of_nat (0xDC00 + ?b)) = 0x10000 + (?a * 0x400 + ?b)"
      unfolding surrogate_pair_def h l by (simp only: diff_add_inverse add.assoc)
    ultimately show ?thesis using False by simp
  qed
  moreover have "encode_utf16 c = [word_of_nat (0xD800 + ?a), word_of_nat (0xDC00 + ?b)]"
    using False by (simp only: encode_utf16_def if_False)
  ultimately obtain hi lo where "encode_utf16 c = [hi, lo]" "is_high hi" "is_low lo" "\<not> is_low hi" "surrogate_pair hi lo = c"
    by blast
  then show ?thesis
    by (cases d) (simp add: decoder_push_def decoder_push_unit_def decoder_unit_def decoder_finish_def split: option.split)
qed

lemma push_text:
  assumes "\<forall>c\<in>set s. is_scalar_value c"
  shows "decoder_push (encode_text s) (d, out) = decoder_push_str s (d, out)"
  using assms
proof (induction s arbitrary: d out)
  case Nil
  then show ?case by (simp add: decoder_push_str_def decoder_push_def)
next
  case (Cons c s)
  then have c: "is_scalar_value c" by simp
  have n: "decoder_finish (d\<lparr>pending_high := None\<rparr>, o') = (d\<lparr>pending_high := None\<rparr>, o')" for o'
    by (simp add: decoder_finish_def)
  have f: "fst (decoder_finish (d, out)) = d\<lparr>pending_high := None\<rparr>"
    by (cases d) (simp add: decoder_finish_def split: option.split)
  show ?case
    using Cons f n unfolding encode_text_Cons push_append push_scalar [OF c]
    by (simp add: decoder_push_str_def case_prod_unfold Let_def)
qed

text \<open>What a decoder will deliver for the rest of the input.\<close>

definition points_of :: "InputDecoder \<Rightarrow> u16 list \<Rightarrow> InputCodePoint list" where
  "points_of d us = snd (decoder_finish (decoder_push us (d, [])))"

lemma points_of_push:
  "points_of d (us @ vs) = snd (decoder_push us (d, [])) @ points_of (fst (decoder_push us (d, []))) vs"
proof -
  obtain d' o' where u: "decoder_push us (d, []) = (d', o')" by fastforce
  obtain d2 o2 where v: "decoder_push vs (d', []) = (d2, o2)" by fastforce
  have "decoder_push vs (d', o') = (d2, o' @ o2)" using push_out [of vs d' o'] by (simp add: v)
  then show ?thesis
    using finish_out [of d2 "o' @ o2"] finish_out [of d2 o2] by (simp add: points_of_def push_append u v)
qed

section \<open>Schedules of writes and drains\<close>

datatype Feed = FeedUnits "u16 list" | FeedText "scalar list" | FeedDrain bool

fun feed_units :: "Feed list \<Rightarrow> u16 list" where
  "feed_units [] = []"
| "feed_units (FeedUnits us # fs) = us @ feed_units fs"
| "feed_units (FeedText s # fs) = encode_text s @ feed_units fs"
| "feed_units (FeedDrain _ # fs) = feed_units fs"

text \<open>The tokens, errors and script positions of all drains, the last of which sees the end of the input.\<close>

fun feed :: "Feed list \<Rightarrow> IncrementalTokenizer \<Rightarrow> Token list \<times> HtmlParseError list \<times> SourcePosition list" where
  "feed [] t =
     (let ((ts, es), t') = drain True False t in (ts, es, map snd (it_script_source_positions t')))"
| "feed (FeedUnits us # fs) t = feed fs (push_input_utf16 us t)"
| "feed (FeedText s # fs) t = feed fs (push_input s t)"
| "feed (FeedDrain stop # fs) t =
     (let ((ts, es), t') = drain False stop t; (ts', es', ps') = feed fs t'
      in (ts @ ts', es @ es', map snd (it_script_source_positions t') @ ps'))"

definition final_flow :: "Drain \<Rightarrow> (u16 + Token) list" where
  "final_flow d =
     view d @ (if it_state d = BogusComment then [Inr (comment_token (it_current_comment d))] else []) @ [Inr EofTok]"

definition final_errors :: "Drain \<Rightarrow> HtmlParseError list" where
  "final_errors d = dr_errors d @ (if it_state d \<in> unexpected_eof_states then [UnexpectedEof] else [])"

lemma flow_comment [simp]: "token_flow (comment_token b) = [Inr (comment_token b)]"
  by (simp add: comment_token_def split: DomString.split)

lemma view_flush: "flow (dr_tokens (flush_text d)) = view d"
  by (simp add: flush_text_def view_def)

lemma pending_finish: "it_pending (finish_input_chunk t) = it_pending t @ points_of (it_input_decoder t) []"
  using finish_out [of "it_input_decoder t" "it_pending t"]
  by (simp add: finish_input_chunk_def points_of_def decoder_push_def case_prod_unfold Let_def)

lemma flush_text_fields [simp]:
  "it_state (flush_text d) = it_state d" "dr_errors (flush_text d) = dr_errors d"
  "it_current_comment (flush_text d) = it_current_comment d"
  "it_script_source_positions (flush_text d) = it_script_source_positions d"
  "it_input_decoder (flush_text d) = it_input_decoder d"
  by (simp_all add: flush_text_def)

lemma drain_final:
  assumes "drain_loop True False (it_pending t @ points_of (it_input_decoder t) []) (drain_start True t) = (d, r)"
    and "drain True False t = ((ts, es), t')"
  shows "flow ts = final_flow d \<and> es = final_errors d \<and> it_script_source_positions t' = it_script_source_positions d"
proof -
  have r: "r = []" using drain_loop_end [of "it_pending t @ points_of (it_input_decoder t) []" "drain_start True t"] assms(1)
    by simp
  show ?thesis using assms(2)
    by (cases "it_state d = BogusComment")
      (auto simp: drain_def Let_def pending_finish assms(1) r final_flow_def final_errors_def view_flush
        IncrementalTokenizer.defs)
qed

lemma drain_inner:
  assumes "drain_loop False stop (it_pending t) (drain_start False t) = (d, r)"
  shows "drain False stop t =
     ((dr_tokens (flush_text d), dr_errors d), IncrementalTokenizer.truncate ((flush_text d)\<lparr>it_pending := r\<rparr>))"
  by (simp add: drain_def assms)

lemma ahead_start_eof: "ahead ts es ps x (drain_start True t) = ahead ts es ps x (drain_start False t)"
  by (simp add: ahead_def drain_start_def finish_input_chunk_def core_def view_def text_ok_def Let_def case_prod_unfold
      IncrementalTokenizer.defs Drain.defs)

lemma drain_start_upd:
  "drain_start False (t\<lparr>it_input_decoder := a, it_pending := b\<rparr>) = (drain_start False t)\<lparr>it_input_decoder := a\<rparr>"
  by (simp add: drain_start_def Let_def IncrementalTokenizer.defs)

lemma ahead_push:
  "ahead ts es ps x (drain_start False (t\<lparr>it_input_decoder := a, it_pending := b\<rparr>)) =
   ahead ts es ps x (drain_start False t)"
  unfolding drain_start_upd by (simp add: ahead_def core_def view_def text_ok_def)

lemma ahead_drained:
  assumes "ahead ts es ps x d"
  shows "ahead (ts @ flow (dr_tokens (flush_text d))) (es @ dr_errors d) (ps @ map snd (it_script_source_positions d)) x
     (drain_start False (IncrementalTokenizer.truncate ((flush_text d)\<lparr>it_pending := r\<rparr>)))"
proof -
  let ?t = "IncrementalTokenizer.truncate ((flush_text d)\<lparr>it_pending := r\<rparr>)"
  have "core (drain_start False ?t) = core d" "view (drain_start False ?t) = []"
    "dr_errors (drain_start False ?t) = []" "it_script_source_positions (drain_start False ?t) = []"
    "text_ok (drain_start False ?t)"
    by (simp_all add: drain_start_def Let_def IncrementalTokenizer.defs Drain.defs core_def view_def text_ok_def
        flush_text_def)
  then show ?thesis using assms by (simp add: ahead_def view_flush)
qed

lemma drain_loop_decoder:
  assumes "text_ok d"
  shows "it_input_decoder (fst (drain_loop eof stop rest d)) = it_input_decoder d"
  using assms
proof (induction eof stop rest d rule: drain_loop.induct)
  case (1 eof stop d)
  then show ?case by simp
next
  case (2 eof stop p r d)
  obtain d' r' where s: "step_and_record p r d = (d', r')" by fastforce
  have "text_ok (fst (step_and_record p r d))" "it_input_decoder (fst (step_and_record p r d)) = it_input_decoder d"
    using html_step_effect [OF 2(2), of p r]
    by (simp_all add: step_and_record_unfold same_effect_def acts_def record_position_def Let_def text_ok_def)
  then show ?case using 2(1) [OF _ s [symmetric] refl] by (auto simp: s)
qed

lemma start_decoder: "it_input_decoder (drain_start False t) = it_input_decoder t"
  by (simp add: drain_start_def IncrementalTokenizer.defs)

lemma feed_whole:
  assumes "\<forall>s. FeedText s \<in> set fs \<longrightarrow> (\<forall>c\<in>set s. is_scalar_value c)"
    and "ahead ts es ps x (drain_start False t)"
    and "drain_loop True False (it_pending t @ points_of (it_input_decoder t) (feed_units fs)) x = (d, r)"
    and "feed fs t = (ts', es', ps')"
  shows "final_flow d = ts @ flow ts' \<and> final_errors d = es @ es' \<and> map snd (it_script_source_positions d) = ps @ ps'"
  using assms
proof (induction fs t arbitrary: ts es ps x ts' es' ps' rule: feed.induct)
  case (1 t)
  let ?in = "it_pending t @ points_of (it_input_decoder t) []"
  obtain y r' where y: "drain_loop True False ?in (drain_start True t) = (y, r')" by fastforce
  have a: "ahead ts es ps d y"
    using ahead_loop [of ts es ps x "drain_start True t" True False ?in] 1(2,3) by (simp add: ahead_start_eof y)
  then have "core d = core y" by (simp add: ahead_def)
  from core_eqD(3,10) [OF this] a show ?case
    using 1(4) drain_final [OF y] by (auto simp: ahead_def final_flow_def final_errors_def split: prod.splits)
next
  case (2 us fs t)
  obtain dec o' where p: "decoder_push us (it_input_decoder t, []) = (dec, o')" by fastforce
  then have q: "push_input_utf16 us t = t\<lparr>it_input_decoder := dec, it_pending := it_pending t @ o'\<rparr>"
    using push_out [of us "it_input_decoder t" "it_pending t"] by (simp add: push_input_utf16_def)
  show ?case
    by (rule "2.IH") (use "2.prems" in \<open>auto simp: q ahead_push points_of_push p\<close>)
next
  case (3 s fs t)
  have s: "\<forall>c\<in>set s. is_scalar_value c" using "3.prems"(1) by auto
  obtain dec o' where p: "decoder_push (encode_text s) (it_input_decoder t, []) = (dec, o')" by fastforce
  then have q: "push_input s t = t\<lparr>it_input_decoder := dec, it_pending := it_pending t @ o'\<rparr>"
    using push_out [of "encode_text s" "it_input_decoder t" "it_pending t"]
    by (simp add: push_input_def push_text [OF s, symmetric])
  show ?case
    by (rule "3.IH") (use "3.prems" in \<open>auto simp: q ahead_push points_of_push p\<close>)
next
  case (4 stop fs t)
  obtain y rest where y: "drain_loop False stop (it_pending t) (drain_start False t) = (y, rest)" by fastforce
  let ?t = "IncrementalTokenizer.truncate ((flush_text y)\<lparr>it_pending := rest\<rparr>)"
  obtain x' where x': "drain_loop False stop (it_pending t) x = (x', rest)" and a: "ahead ts es ps x' y"
    using ahead_loop [OF "4.prems"(2), of False stop "it_pending t"] y
    by (cases "drain_loop False stop (it_pending t) x") auto
  have dec: "it_input_decoder y = it_input_decoder t"
  proof -
    have "text_ok (drain_start False t)" using "4.prems"(2) by (simp add: ahead_def)
    from drain_loop_decoder [OF this, of False stop "it_pending t"] show ?thesis
      by (simp add: y start_decoder)
  qed
  obtain ts2 es2 ps2 where f: "feed fs ?t = (ts2, es2, ps2)" by (cases "feed fs ?t") auto
  have out: "ts' = dr_tokens (flush_text y) @ ts2" "es' = dr_errors y @ es2"
    "ps' = map snd (it_script_source_positions y) @ ps2"
    using "4.prems"(4) drain_inner [OF y] f by (auto simp: IncrementalTokenizer.defs)
  have "final_flow d = (ts @ flow (dr_tokens (flush_text y))) @ flow ts2 \<and> final_errors d = (es @ dr_errors y) @ es2
      \<and> map snd (it_script_source_positions d) = (ps @ map snd (it_script_source_positions y)) @ ps2"
  proof (rule "4.IH" [OF drain_inner [OF y, symmetric] refl refl])
    show "\<forall>s. FeedText s \<in> set fs \<longrightarrow> (\<forall>c\<in>set s. is_scalar_value c)" using "4.prems"(1) by auto
    show "ahead (ts @ flow (dr_tokens (flush_text y))) (es @ dr_errors y)
        (ps @ map snd (it_script_source_positions y)) x' (drain_start False ?t)"
      by (rule ahead_drained [OF a])
    show "drain_loop True False (it_pending ?t @ points_of (it_input_decoder ?t) (feed_units fs)) x' = (d, r)"
      using drain_loop_append [OF x'] "4.prems"(3) by (simp add: IncrementalTokenizer.defs dec)
  qed (rule f)
  then show ?case by (simp add: out)
qed


lemma ahead_new: "ahead [] [] [] (drain_start False t) (drain_start False t)" if "buf_units (it_text_buffer t) = []"
  using that by (simp add: ahead_def text_ok_def drain_start_def IncrementalTokenizer.defs Drain.defs)

lemma feed_one:
  "feed [FeedUnits us] t =
     (let ((tokens, errors), t') = drain True False (push_input_utf16 us t)
      in (tokens, errors, map snd (it_script_source_positions t')))"
  by simp

text \<open>C22: the tokenizer's output does not depend on the schedule: however the input is cut into UTF-16 and string
  writes, wherever the tokenizer is drained between them and whether or not the drains stop at script end tags,
  the markup tokens, the text between them, the parse errors and the positions of the script start tags are those of
  one pass over the whole input.\<close>

theorem html_write_boundaries:
  assumes "\<forall>s. FeedText s \<in> set fs \<longrightarrow> (\<forall>c\<in>set s. is_scalar_value c)"
  shows "let (ts, es, ps) = feed fs (incremental_tokenizer_new\<lparr>it_scripting_enabled := scripting\<rparr>);
             (ts', es', ps') = tokenize_with_script_positions
               (with_scripting scripting (tokenizer_from_utf16 (feed_units fs)))
         in flow ts = flow ts' \<and> es = es' \<and> ps = map snd ps'"
proof -
  let ?t = "incremental_tokenizer_new\<lparr>it_scripting_enabled := scripting\<rparr>"
  have a: "ahead [] [] [] (drain_start False ?t) (drain_start False ?t)"
    by (rule ahead_new) (simp add: incremental_tokenizer_new_def)
  obtain d r where d: "drain_loop True False (it_pending ?t @ points_of (it_input_decoder ?t) (feed_units fs))
      (drain_start False ?t) = (d, r)" by fastforce
  obtain ts es ps where f: "feed fs ?t = (ts, es, ps)" by (cases "feed fs ?t") auto
  obtain ts' es' t' where w: "drain True False (push_input_utf16 (feed_units fs) ?t) = ((ts', es'), t')"
    by (metis prod.collapse)
  have "feed [FeedUnits (feed_units fs)] ?t = (ts', es', map snd (it_script_source_positions t'))"
    unfolding feed_one w by simp
  from feed_whole [OF _ a _ this, of d r] feed_whole [OF assms a d f] d
  have "flow ts = flow ts' \<and> es = es' \<and> ps = map snd (it_script_source_positions t')" by simp
  moreover have "tokenize_with_script_positions (with_scripting scripting (tokenizer_from_utf16 (feed_units fs))) =
      (ts', es', it_script_source_positions t')"
    using w by (simp add: tokenize_with_script_positions_def with_scripting_def tokenizer_from_utf16_def push_source_def)
  ultimately show ?thesis by (simp add: f)
qed

lemma html_write_boundaries_witness:
  "let fs = [FeedText (lit ''<b>a&am''), FeedDrain True, FeedUnits [0x70, 0x3B, 0xD83D], FeedDrain False,
             FeedUnits [0xDE00]]
   in flow (fst (feed fs (incremental_tokenizer_new\<lparr>it_scripting_enabled := True\<rparr>))) =
      flow (fst (tokenize_with_script_positions (with_scripting True (tokenizer_from_utf16 (feed_units fs)))))"
proof -
  let ?fs = "[FeedText (lit ''<b>a&am''), FeedDrain True, FeedUnits [0x70, 0x3B, 0xD83D], FeedDrain False,
             FeedUnits [0xDE00]]"
  have "\<forall>s. FeedText s \<in> set ?fs \<longrightarrow> (\<forall>c\<in>set s. is_scalar_value c)"
    by (simp add: lit_def asc_def is_scalar_value_def)
  from html_write_boundaries [OF this, of True] show ?thesis
    unfolding Let_def case_prod_unfold by blast
qed

end
