(* ===== verification/HtmlRoundTrip.thy ===== *)
theory HtmlRoundTrip
  imports HtmlChunks
begin

text \<open>
  Printed markup reads back as what was printed.  The tokenizer's loop is treated with Hoare triples: \<open>hoare P w Q\<close>
  says that from a state with \<open>P\<close> the loop reads exactly the text \<open>w\<close>, whatever follows, and is then in a state with \<open>Q\<close>.
\<close>

section \<open>Triples\<close>

definition scalars :: "scalar list \<Rightarrow> InputCodePoint list" where
  "scalars w = map PtScalar w"

lemma scalars_simps [simp]:
  "scalars [] = []" "scalars (c # w) = PtScalar c # scalars w" "scalars (v @ w) = scalars v @ scalars w"
  by (simp_all add: scalars_def)

definition hoare :: "(Drain \<Rightarrow> bool) \<Rightarrow> scalar list \<Rightarrow> (Drain \<Rightarrow> bool) \<Rightarrow> bool" where
  "hoare P w Q \<longleftrightarrow>
     (\<forall>d. P d \<longrightarrow>
       (\<exists>d'. Q d' \<and> (\<forall>rest. drain_loop True False (scalars w @ rest) d = drain_loop True False rest d')))"

text \<open>The positions are no part of the assertions.\<close>

definition stable :: "(Drain \<Rightarrow> bool) \<Rightarrow> bool" where
  "stable Q \<longleftrightarrow> (\<forall>d p ps. Q d \<longrightarrow> Q (d\<lparr>it_source_position := p, it_script_source_positions := ps\<rparr>))"

lemma hoare_nil: "(\<And>d. P d \<Longrightarrow> Q d) \<Longrightarrow> hoare P [] Q"
  by (auto simp: hoare_def)

lemma hoare_append: "hoare P v Q \<Longrightarrow> hoare Q w R \<Longrightarrow> hoare P (v @ w) R"
  unfolding hoare_def by (metis append.assoc scalars_simps(3))

lemma hoare_cons: "hoare P [c] Q \<Longrightarrow> hoare Q w R \<Longrightarrow> hoare P (c # w) R"
  using hoare_append [of P "[c]" Q w R] by simp

lemma hoare_weaken: "hoare P w Q \<Longrightarrow> (\<And>d. P' d \<Longrightarrow> P d) \<Longrightarrow> (\<And>d. Q d \<Longrightarrow> Q' d) \<Longrightarrow> hoare P' w Q'"
  unfolding hoare_def by blast

lemma record_position_stable:
  assumes "stable Q" "Q d"
  shows "Q (record_position c n d)"
proof -
  have "record_position c n d =
      d\<lparr>it_source_position := it_source_position (record_position c n d),
        it_script_source_positions := it_script_source_positions (record_position c n d)\<rparr>"
    by (simp add: record_position_def Let_def)
  then show ?thesis using assms unfolding stable_def by metis
qed

lemma hoare_step:
  assumes "stable Q"
    and step: "\<And>d. P d \<Longrightarrow> \<exists>d'. (\<forall>r. html_step (PtScalar c) (scalars w @ r) d = (d', r)) \<and> Q d'"
  shows "hoare P (c # w) Q"
  unfolding hoare_def
proof (intro allI impI)
  fix d assume P: "P d"
  obtain d1 where d1: "\<And>r. html_step (PtScalar c) (scalars w @ r) d = (d1, r)" "Q d1" using step [OF P] by blast
  let ?d' = "record_position (scalars (c # w)) (length (dr_tokens d)) d1"
  have "drain_loop True False (scalars (c # w) @ rest) d = drain_loop True False rest ?d'" for rest
    by (simp add: step_and_record_def d1(1))
  moreover have "Q ?d'" by (rule record_position_stable [OF assms(1) d1(2)])
  ultimately show "\<exists>d'. Q d' \<and> (\<forall>rest. drain_loop True False (scalars (c # w) @ rest) d = drain_loop True False rest d')"
    by blast
qed

text \<open>A state that gives the code point back.\<close>

lemma hoare_back:
  assumes "stable Q" and "hoare Q (c # w) R"
    and step: "\<And>d. P d \<Longrightarrow> \<exists>d'. (\<forall>r. html_step (PtScalar c) r d = (d', PtScalar c # r)) \<and> Q d'"
  shows "hoare P (c # w) R"
  unfolding hoare_def
proof (intro allI impI)
  fix d assume P: "P d"
  obtain d1 where d1: "\<And>r. html_step (PtScalar c) r d = (d1, PtScalar c # r)" "Q d1" using step [OF P] by blast
  let ?d' = "record_position [] (length (dr_tokens d)) d1"
  have "Q ?d'" by (rule record_position_stable [OF assms(1) d1(2)])
  then obtain d2 where "R d2" and d2: "\<And>rest. drain_loop True False (scalars (c # w) @ rest) ?d' = drain_loop True False rest d2"
    using assms(2) unfolding hoare_def by blast
  have "drain_loop True False (scalars (c # w) @ rest) d = drain_loop True False (scalars (c # w) @ rest) ?d'" for rest
    by (simp add: step_and_record_def d1(1))
  then show "\<exists>d'. R d' \<and> (\<forall>rest. drain_loop True False (scalars (c # w) @ rest) d = drain_loop True False rest d')"
    using \<open>R d2\<close> d2 by metis
qed

section \<open>Assertions\<close>

text \<open>In state \<open>s\<close>, \<open>v\<close> has been put out and no error has occurred.\<close>

definition at :: "State \<Rightarrow> (u16 + Token) list \<Rightarrow> Drain \<Rightarrow> bool" where
  "at s v d \<longleftrightarrow> it_state d = s \<and> view d = v \<and> dr_errors d = [] \<and> it_current_end_tag_name d = [] \<and> text_ok d"

definition in_tag :: "State \<Rightarrow> (u16 + Token) list \<Rightarrow> scalar list \<Rightarrow> Attribute list \<Rightarrow> bool \<Rightarrow> Drain \<Rightarrow> bool" where
  "in_tag s v n as self d \<longleftrightarrow>
     at s v d \<and> it_current_tag_name d = n \<and> it_current_attributes d = as \<and> it_current_self_closing d = self"

definition in_attr ::
  "State \<Rightarrow> (u16 + Token) list \<Rightarrow> scalar list \<Rightarrow> Attribute list \<Rightarrow> scalar list \<Rightarrow> scalar list \<Rightarrow> Drain \<Rightarrow> bool" where
  "in_attr s v n as an av d \<longleftrightarrow>
     in_tag s v n as False d \<and> it_current_attr_name d = an \<and> it_current_attr_value d = DomScalar av"

definition in_end_tag :: "(u16 + Token) list \<Rightarrow> scalar list \<Rightarrow> Drain \<Rightarrow> bool" where
  "in_end_tag v n d \<longleftrightarrow>
     it_state d = TagName \<and> view d = v \<and> dr_errors d = [] \<and> no_text d \<and> it_current_end_tag_name d = n \<and> n \<noteq> []"

definition in_comment :: "State \<Rightarrow> (u16 + Token) list \<Rightarrow> scalar list \<Rightarrow> Drain \<Rightarrow> bool" where
  "in_comment s v c d \<longleftrightarrow> at s v d \<and> it_current_comment d = DomScalar c"

definition in_doctype ::
  "State \<Rightarrow> (u16 + Token) list \<Rightarrow> scalar list \<Rightarrow> scalar list option \<Rightarrow> scalar list option \<Rightarrow> Drain \<Rightarrow> bool" where
  "in_doctype s v n pub sys d \<longleftrightarrow>
     at s v d \<and> it_doctype_name d = n \<and> it_doctype_public_id d = pub \<and> it_doctype_system_id d = sys
     \<and> \<not> it_doctype_force_quirks d"

definition in_raw :: "State \<Rightarrow> (u16 + Token) list \<Rightarrow> scalar list \<Rightarrow> scalar list \<Rightarrow> Drain \<Rightarrow> bool" where
  "in_raw s v n tmp d \<longleftrightarrow> at s v d \<and> it_last_start_tag_name d = n \<and> it_temp_buffer d = tmp"

lemma stable_assertions [simp, intro]:
  "stable (at s v)" "stable (in_tag s v n as self)" "stable (in_attr s v n as an av)" "stable (in_end_tag v n)"
  "stable (in_comment s v n)" "stable (in_doctype s v n pub sys)" "stable (in_raw s v n tmp)"
  by (auto simp: stable_def at_def in_tag_def in_attr_def in_end_tag_def in_comment_def in_doctype_def in_raw_def
      view_def text_ok_def no_text_def)

lemma at_no_text: "at s v d \<Longrightarrow> s \<notin> running_text_states \<Longrightarrow> buf_units (it_text_buffer d) = []"
  by (simp add: at_def text_ok_def)

section \<open>Printing\<close>

definition esc_text :: "scalar list \<Rightarrow> scalar list" where
  "esc_text s = concat (map (\<lambda>c. if c = asc CHR ''&'' then lit ''&amp;'' else if c = asc CHR ''<'' then lit ''&lt;'' else [c]) s)"

definition esc_attr :: "scalar list \<Rightarrow> scalar list" where
  "esc_attr s = concat (map (\<lambda>c. if c = asc CHR ''&'' then lit ''&amp;'' else if c = asc CHR 0x22 then lit ''&quot;'' else [c]) s)"

definition quoted :: "scalar list \<Rightarrow> scalar list" where
  "quoted s = asc CHR 0x22 # s @ [asc CHR 0x22]"

datatype Markup =
    MText "scalar list"
  | MOpen "scalar list" "(scalar list \<times> scalar list) list" bool
  | MClose "scalar list"
  | MComment "scalar list"
  | MDoctype "scalar list" "scalar list option" "scalar list option"
  | MRaw "scalar list" "(scalar list \<times> scalar list) list" "scalar list"
  | MRcData "scalar list" "(scalar list \<times> scalar list) list" "scalar list"

definition print_attrs :: "(scalar list \<times> scalar list) list \<Rightarrow> scalar list" where
  "print_attrs as = concat (map (\<lambda>(n, v). lit '' '' @ n @ lit ''='' @ quoted (esc_attr v)) as)"

definition print_open :: "scalar list \<Rightarrow> (scalar list \<times> scalar list) list \<Rightarrow> scalar list" where
  "print_open n as = lit ''<'' @ n @ print_attrs as"

definition print_close :: "scalar list \<Rightarrow> scalar list" where
  "print_close n = lit ''</'' @ n @ lit ''>''"

fun print_markup :: "Markup \<Rightarrow> scalar list" where
  "print_markup (MText s) = esc_text s"
| "print_markup (MOpen n as self) = print_open n as @ (if self then lit ''/>'' else lit ''>'')"
| "print_markup (MClose n) = print_close n"
| "print_markup (MComment s) = lit ''<!--'' @ s @ lit ''-->''"
| "print_markup (MDoctype n pub sys) =
     lit ''<!DOCTYPE '' @ n @
     (case pub of
        Some p \<Rightarrow> lit '' PUBLIC '' @ quoted p @ (case sys of Some y \<Rightarrow> lit '' '' @ quoted y | None \<Rightarrow> [])
      | None \<Rightarrow> (case sys of Some y \<Rightarrow> lit '' SYSTEM '' @ quoted y | None \<Rightarrow> [])) @ lit ''>''"
| "print_markup (MRaw n as s) = print_open n as @ lit ''>'' @ s @ print_close n"
| "print_markup (MRcData n as s) = print_open n as @ lit ''>'' @ esc_text s @ print_close n"

definition attr_of :: "scalar list \<times> scalar list \<Rightarrow> Attribute" where
  "attr_of = (\<lambda>(n, v). \<lparr>at_name = n, at_utf16 = None, at_value = v\<rparr>)"

definition text_flow :: "scalar list \<Rightarrow> (u16 + Token) list" where
  "text_flow s = map Inl (encode_text s)"

fun markup_flow :: "Markup \<Rightarrow> (u16 + Token) list" where
  "markup_flow (MText s) = text_flow s"
| "markup_flow (MOpen n as self) = [Inr (StartTag n (map attr_of as) self)]"
| "markup_flow (MClose n) = [Inr (EndTag n)]"
| "markup_flow (MComment s) = [Inr (CommentTok s)]"
| "markup_flow (MDoctype n pub sys) =
     [Inr (DoctypeTok \<lparr>dt_name = Some n, dt_public_id = pub, dt_system_id = sys, dt_force_quirks = False\<rparr>)]"
| "markup_flow (MRaw n as s) = Inr (StartTag n (map attr_of as) False) # text_flow s @ [Inr (EndTag n)]"
| "markup_flow (MRcData n as s) = Inr (StartTag n (map attr_of as) False) # text_flow s @ [Inr (EndTag n)]"

definition name_char :: "scalar \<Rightarrow> bool" where
  "name_char c \<longleftrightarrow> \<not> is_html_whitespace c \<and> c \<noteq> asc CHR ''/'' \<and> c \<noteq> asc CHR ''>'' \<and> sc_lower c = c"

definition tag_name_ok :: "scalar list \<Rightarrow> bool" where
  "tag_name_ok n \<longleftrightarrow> n \<noteq> [] \<and> sc_alphabetic (hd n) \<and> list_all name_char n"

definition attr_ok :: "scalar list \<times> scalar list \<Rightarrow> bool" where
  "attr_ok = (\<lambda>(n, v). n \<noteq> [] \<and> list_all name_char n \<and> asc CHR ''='' \<notin> set (tl n))"

fun no_double_dash :: "scalar list \<Rightarrow> bool" where
  "no_double_dash (c # d # s) = (\<not> (c = asc CHR ''-'' \<and> d = asc CHR ''-'') \<and> no_double_dash (d # s))"
| "no_double_dash _ = True"

definition comment_ok :: "scalar list \<Rightarrow> bool" where
  "comment_ok s \<longleftrightarrow>
     no_double_dash s \<and> (s \<noteq> [] \<longrightarrow> hd s \<notin> {asc CHR ''-'', asc CHR ''>''} \<and> last s \<noteq> asc CHR ''-'')"

definition doctype_id_ok :: "scalar list option \<Rightarrow> bool" where
  "doctype_id_ok i \<longleftrightarrow> (case i of None \<Rightarrow> True | Some s \<Rightarrow> asc CHR 0x22 \<notin> set s \<and> asc CHR ''>'' \<notin> set s)"

text \<open>No \<open></\<close> and no \<open><!\<close>.\<close>

fun raw_ok :: "scalar list \<Rightarrow> bool" where
  "raw_ok (c # d # s) = ((c = asc CHR ''<'' \<longrightarrow> d \<noteq> asc CHR ''/'' \<and> d \<noteq> asc CHR ''!'') \<and> raw_ok (d # s))"
| "raw_ok _ = True"

definition raw_names :: "scalar list list" where
  "raw_names = map lit [''script'', ''style'', ''xmp'', ''noembed'', ''noframes'']"

definition rcdata_names :: "scalar list list" where
  "rcdata_names = map lit [''title'', ''textarea'']"

fun markup_ok :: "Markup \<Rightarrow> bool" where
  "markup_ok (MText s) = True"
| "markup_ok (MOpen n as self) =
     (tag_name_ok n \<and> list_all attr_ok as
      \<and> (self \<or> n \<notin> set raw_names \<union> set rcdata_names \<union> {lit ''noscript'', lit ''plaintext''}))"
| "markup_ok (MClose n) = tag_name_ok n"
| "markup_ok (MComment s) = comment_ok s"
| "markup_ok (MDoctype n pub sys) =
     (n \<noteq> [] \<and> list_all (\<lambda>c. \<not> is_html_whitespace c \<and> c \<noteq> asc CHR ''>'' \<and> sc_lower c = c) n
      \<and> doctype_id_ok pub \<and> doctype_id_ok sys)"
| "markup_ok (MRaw n as s) = (n \<in> set raw_names \<and> list_all attr_ok as \<and> raw_ok s)"
| "markup_ok (MRcData n as s) = (n \<in> set rcdata_names \<and> list_all attr_ok as)"


section \<open>Start and end tags\<close>

lemma view_ops [simp]:
  "view (goto s d) = view d" "view (flush_text d) = view d"
  "view (text_point p d) = view d @ map Inl (point_units p)"
  "view (text_push c d) = view d @ map Inl (encode_utf16 (asc c))"
  "view (text_str t d) = view d @ map Inl (encode_text t)"
  "view (attr_point p d) = view d" "view (comment_point p d) = view d" "view (comment_str t d) = view d"
  "view (attr_name_push k d) = view d" "view (attr_clear d) = view d" "view (name_push k d) = view d"
  "view (public_push k d) = view d" "view (system_push k d) = view d" "view (public_double d) = view d"
  "view (system_double d) = view d" "view (push_attribute d) = view d"
  by (simp_all add: view_def primitive_defs)

lemma view_upd [simp]:
  "view (d\<lparr>it_current_tag_name := a\<rparr>) = view d" "view (d\<lparr>it_current_end_tag_name := a\<rparr>) = view d"
  "view (d\<lparr>it_current_attributes := as\<rparr>) = view d" "view (d\<lparr>it_current_self_closing := b\<rparr>) = view d"
  "view (d\<lparr>it_current_comment := c\<rparr>) = view d" "view (d\<lparr>it_current_attr_value := c\<rparr>) = view d"
  "view (d\<lparr>it_doctype_name := a\<rparr>) = view d" "view (d\<lparr>it_doctype_public_id := o1\<rparr>) = view d"
  "view (d\<lparr>it_doctype_system_id := o1\<rparr>) = view d" "view (d\<lparr>it_doctype_force_quirks := b\<rparr>) = view d"
  "view (d\<lparr>it_temp_buffer := a\<rparr>) = view d" "view (d\<lparr>it_last_start_tag_name := a\<rparr>) = view d"
  by (simp_all add: view_def)

lemma view_emit: "no_text d \<Longrightarrow> view (emit t d) = view d @ token_flow t"
  by (simp add: view_def emit_def no_text_def)

lemma asc_eq [simp]: "asc a = asc b \<longleftrightarrow> a = b"
  by (simp add: asc_def)

lemma asc_space [simp]: "is_html_whitespace (asc CHR '' '')"
  by (simp add: asc_def is_html_whitespace_def)

lemma asc_no_space [simp]:
  "\<not> is_html_whitespace (asc CHR ''/'')" "\<not> is_html_whitespace (asc CHR ''='')"
  "\<not> is_html_whitespace (asc CHR 0x22)"
  by (simp_all add: asc_def is_html_whitespace_def)

lemma asc_no_letter [simp]: "\<not> sc_alphabetic (asc CHR ''<'')" "\<not> sc_alphabetic (asc CHR ''>'')"
  "\<not> sc_alphabetic (asc CHR ''/'')"
  by (simp_all add: asc_def sc_alphabetic_def)

lemma letter_cases:
  assumes "sc_alphabetic c"
  shows "c \<noteq> asc CHR ''/''" "c \<noteq> asc CHR ''!''" "c \<noteq> asc CHR ''?''" "c \<noteq> asc CHR ''>''" "c \<noteq> asc CHR ''<''"
    "\<not> is_html_whitespace c"
  using assms by (auto simp: sc_alphabetic_def asc_def is_html_whitespace_def)

lemmas step_eval = html_step_def state_sets Let_def point_is_def

lemmas fields_eval = primitive_defs text_ok_def no_text_def

text \<open>The proof of a step: evaluate it, then compare the fields.\<close>

lemma no_text_at: "at s v d \<Longrightarrow> s \<notin> running_text_states \<Longrightarrow> no_text d"
  by (simp add: at_def text_ok_def no_text_def)

lemma tag_open: "hoare (at Data v) (lit ''<'') (at TagOpen v)"
proof -
  have "at Data v d \<Longrightarrow> at TagOpen v (goto TagOpen (flush_text d))" for d
    by (simp add: at_def text_ok_no_text) (simp add: primitive_defs)
  then show ?thesis unfolding lit_def list.map
    by (intro hoare_step) (auto simp: at_def step_eval step_content_def)
qed

text \<open>A step outside the content of elements, where no text is in progress.\<close>

lemma markup_step:
  assumes "\<And>d. P d \<Longrightarrow> text_ok d \<and> it_state d \<notin> running_text_states" and "stable Q"
    and "\<And>d. P d \<Longrightarrow> no_text d \<Longrightarrow>
         \<exists>d'. (\<forall>r. html_step (PtScalar c) (scalars w @ r) d = (d', r)) \<and> Q d'"
  shows "hoare P (c # w) Q"
  using assms(2)
proof (rule hoare_step)
  fix d assume P: "P d"
  show "\<exists>d'. (\<forall>r. html_step (PtScalar c) (scalars w @ r) d = (d', r)) \<and> Q d'"
    by (rule assms(3) [OF P]) (use assms(1) [OF P] in \<open>simp add: text_ok_def no_text_def\<close>)
qed

lemma tag_first:
  assumes "sc_alphabetic c" "name_char c"
  shows "hoare (at TagOpen v) [c] (in_tag TagName v [c] [] False)"
proof (rule hoare_step)
  fix d assume d: "at TagOpen v d"
  have "no_text d" by (rule no_text_at [OF d]) (simp add: script_sets)
  with d letter_cases [OF assms(1)] assms
  show "\<exists>d'. (\<forall>r. html_step (PtScalar c) (scalars [] @ r) d = (d', r)) \<and> in_tag TagName v [c] [] False d'"
    by (simp add: at_def step_eval step_content_def is_tag_name_start_def name_char_def in_tag_def text_ok_no_text)
      (simp add: primitive_defs)
qed simp


lemmas assertion_defs = at_def in_tag_def in_attr_def in_end_tag_def in_comment_def in_doctype_def in_raw_def

lemma tag_name:
  assumes "list_all name_char m"
  shows "hoare (in_tag TagName v n [] False) m (in_tag TagName v (n @ m) [] False)"
  using assms
proof (induction m arbitrary: n)
  case Nil
  then show ?case by (simp add: hoare_nil)
next
  case (Cons c m)
  have "hoare (in_tag TagName v n [] False) [c] (in_tag TagName v (n @ [c]) [] False)"
  proof (rule markup_step)
    fix d assume "in_tag TagName v n [] False d" "no_text d"
    then show "\<exists>d'. (\<forall>r. html_step (PtScalar c) (scalars [] @ r) d = (d', r)) \<and> in_tag TagName v (n @ [c]) [] False d'"
      using Cons.prems by (simp add: step_eval step_content_def assertion_defs name_char_def text_ok_no_text)
  qed (simp_all add: script_sets assertion_defs)
  from hoare_cons [OF this Cons.IH [of "n @ [c]"]] Cons.prems show ?case by simp
qed

text \<open>The places where an attribute may begin.\<close>

lemma attr_space:
  assumes "s \<in> {TagName, AfterAttributeValueQuoted}"
  shows "hoare (in_tag s v n as False) (lit '' '') (in_tag BeforeAttributeName v n as False)"
  unfolding lit_def list.map
proof (rule markup_step)
  fix d assume "in_tag s v n as False d" "no_text d"
  then show "\<exists>d'. (\<forall>r. html_step (PtScalar (asc CHR '' '')) (scalars [] @ r) d = (d', r)) \<and>
      in_tag BeforeAttributeName v n as False d'"
    using assms by (elim insertE emptyE; simp add: step_eval step_content_def step_attribute_def assertion_defs
        text_ok_no_text; simp add: primitive_defs)
qed (use assms in \<open>auto simp: script_sets assertion_defs\<close>)

lemma attr_first:
  assumes "name_char c"
  shows "hoare (in_tag BeforeAttributeName v n as False) [c] (in_attr AttributeName v n as [c] [])"
proof (rule markup_step)
  fix d assume "in_tag BeforeAttributeName v n as False d" "no_text d"
  then show "\<exists>d'. (\<forall>r. html_step (PtScalar c) (scalars [] @ r) d = (d', r)) \<and> in_attr AttributeName v n as [c] [] d'"
    using assms by (simp add: step_eval step_attribute_def assertion_defs name_char_def text_ok_no_text)
      (simp add: primitive_defs text_buffer_default_def)
qed (simp_all add: script_sets assertion_defs)

lemma attr_name:
  assumes "list_all name_char m" "asc CHR ''='' \<notin> set m"
  shows "hoare (in_attr AttributeName v n as a []) m (in_attr AttributeName v n as (a @ m) [])"
  using assms
proof (induction m arbitrary: a)
  case Nil
  then show ?case by (simp add: hoare_nil)
next
  case (Cons c m)
  have "hoare (in_attr AttributeName v n as a []) [c] (in_attr AttributeName v n as (a @ [c]) [])"
  proof (rule markup_step)
    fix d assume "in_attr AttributeName v n as a [] d" "no_text d"
    then show "\<exists>d'. (\<forall>r. html_step (PtScalar c) (scalars [] @ r) d = (d', r)) \<and> in_attr AttributeName v n as (a @ [c]) [] d'"
      using Cons.prems by (simp add: step_eval step_attribute_def assertion_defs name_char_def text_ok_no_text)
        (simp add: primitive_defs)
  qed (simp_all add: script_sets assertion_defs)
  from hoare_cons [OF this Cons.IH [of "a @ [c]"]] Cons.prems show ?case by simp
qed

lemma attr_equals:
  "hoare (in_attr AttributeName v n as a []) (lit ''='') (in_attr BeforeAttributeValue v n as a [])"
  unfolding lit_def list.map
proof (rule markup_step)
  fix d assume "in_attr AttributeName v n as a [] d" "no_text d"
  then show "\<exists>d'. (\<forall>r. html_step (PtScalar (asc CHR ''='')) (scalars [] @ r) d = (d', r)) \<and>
      in_attr BeforeAttributeValue v n as a [] d'"
    by (simp add: step_eval step_attribute_def assertion_defs text_ok_no_text) (simp add: primitive_defs)
qed (simp_all add: script_sets assertion_defs)

lemma attr_quote:
  "hoare (in_attr BeforeAttributeValue v n as a []) [asc CHR 0x22] (in_attr AttributeValueDoubleQuoted v n as a [])"
proof (rule markup_step)
  fix d assume "in_attr BeforeAttributeValue v n as a [] d" "no_text d"
  then show "\<exists>d'. (\<forall>r. html_step (PtScalar (asc CHR 0x22)) (scalars [] @ r) d = (d', r)) \<and>
      in_attr AttributeValueDoubleQuoted v n as a [] d'"
    by (simp add: step_eval step_attribute_def assertion_defs text_ok_no_text) (simp add: primitive_defs)
qed (simp_all add: script_sets assertion_defs)


lemma known_references:
  "consume_character_reference (scalars (lit ''amp;'') @ r) = (Inr (lit ''&''), r)"
  "consume_character_reference (scalars (lit ''lt;'') @ r) = (Inr (lit ''<''), r)"
  "consume_character_reference (scalars (lit ''quot;'') @ r) = (Inr (lit [CHR 0x22]), r)"
  by (simp_all add: consume_character_reference_def lit_def entity_value_def sc_alphanumeric_def sc_digit_def
      sc_alphabetic_def asc_def)

lemma lit_Cons: "lit (c # s) = asc c # lit s"
  by (simp add: lit_def)

lemma hoare_concat:
  assumes "\<And>c x. hoare (P x) (f c) (P (x @ [c]))"
  shows "hoare (P x) (concat (map f s)) (P (x @ s))"
proof (induction s arbitrary: x)
  case Nil
  then show ?case by (simp add: hoare_nil)
next
  case (Cons c s)
  from hoare_append [OF assms Cons.IH [of "x @ [c]"]] show ?case by simp
qed

lemma attr_value:
  "hoare (in_attr AttributeValueDoubleQuoted v n as a av) (esc_attr s) (in_attr AttributeValueDoubleQuoted v n as a (av @ s))"
  unfolding esc_attr_def
proof (rule hoare_concat)
  fix c x
  let ?P = "in_attr AttributeValueDoubleQuoted v n as a"
  have r: "hoare (?P x) (asc CHR ''&'' # lit w) (?P (x @ [c]))"
    if "\<And>r. consume_character_reference (scalars (lit w) @ r) = (Inr [c], r)" for w
  proof (rule markup_step)
    fix d assume "?P x d" "no_text d"
    then show "\<exists>d'. (\<forall>r. html_step (PtScalar (asc CHR ''&'')) (scalars (lit w) @ r) d = (d', r)) \<and> ?P (x @ [c]) d'"
      by (simp add: step_eval step_attribute_def assertion_defs attr_reference_def that text_ok_no_text)
  qed (simp_all add: script_sets assertion_defs)
  show "hoare (?P x) (if c = asc CHR ''&'' then lit ''&amp;'' else if c = asc CHR 0x22 then lit ''&quot;'' else [c]) (?P (x @ [c]))"
  proof (cases "c = asc CHR ''&'' \<or> c = asc CHR 0x22")
    case True
    then show ?thesis
      using r [of "''amp;''"] r [of "''quot;''"] known_references(1,3)
      by (auto simp: lit_Cons [of "CHR ''&''"]) (simp_all add: lit_def)
  next
    case False
    have "hoare (?P x) [c] (?P (x @ [c]))"
    proof (rule markup_step)
      fix d assume "?P x d" "no_text d"
      then show "\<exists>d'. (\<forall>r. html_step (PtScalar c) (scalars [] @ r) d = (d', r)) \<and> ?P (x @ [c]) d'"
        using False by (simp add: step_eval step_attribute_def assertion_defs text_ok_no_text) (simp add: primitive_defs)
    qed (simp_all add: script_sets assertion_defs)
    with False show ?thesis by simp
  qed
qed

lemma attr_end:
  assumes "a \<noteq> []"
  shows "hoare (in_attr AttributeValueDoubleQuoted v n as a av) [asc CHR 0x22]
    (in_tag AfterAttributeValueQuoted v n (as @ [attr_of (a, av)]) False)"
proof (rule markup_step)
  fix d assume "in_attr AttributeValueDoubleQuoted v n as a av d" "no_text d"
  then show "\<exists>d'. (\<forall>r. html_step (PtScalar (asc CHR 0x22)) (scalars [] @ r) d = (d', r)) \<and>
      in_tag AfterAttributeValueQuoted v n (as @ [attr_of (a, av)]) False d'"
    using assms by (simp add: step_eval step_attribute_def assertion_defs text_ok_no_text)
      (simp add: primitive_defs attr_of_def attribute_from_owned_def taken_or_empty_def buf_take_def split: if_split)
qed (simp_all add: script_sets assertion_defs)

lemma attribute:
  assumes "attr_ok (a, av)" and "s \<in> {TagName, AfterAttributeValueQuoted}"
  shows "hoare (in_tag s v n as False) (lit '' '' @ a @ lit ''='' @ quoted (esc_attr av))
    (in_tag AfterAttributeValueQuoted v n (as @ [attr_of (a, av)]) False)"
proof -
  obtain c m where a: "a = c # m" and ok: "name_char c" "list_all name_char m" "asc CHR ''='' \<notin> set m"
    using assms(1) by (cases a) (auto simp: attr_ok_def)
  show ?thesis
    unfolding quoted_def a
    using hoare_append [OF attr_space [OF assms(2)] hoare_cons [OF attr_first [OF ok(1)] hoare_append [OF
        attr_name [OF ok(2,3)] hoare_append [OF attr_equals hoare_cons [OF attr_quote hoare_append [OF attr_value
        attr_end]]]]]]
    by simp
qed

lemma attributes:
  assumes "list_all attr_ok bs" and "s \<in> {TagName, AfterAttributeValueQuoted}"
  shows "hoare (in_tag s v n as False) (print_attrs bs)
    (\<lambda>d. \<exists>s' \<in> {TagName, AfterAttributeValueQuoted}. in_tag s' v n (as @ map attr_of bs) False d)"
  using assms
proof (induction bs arbitrary: s as)
  case Nil
  then show ?case by (auto simp: print_attrs_def intro: hoare_nil)
next
  case (Cons b bs)
  obtain a av where b: "b = (a, av)" by fastforce
  with Cons.prems have "attr_ok (a, av)" by simp
  from hoare_append [OF attribute [OF this Cons.prems(2)] Cons.IH] Cons.prems(1) show ?case
    by (simp add: print_attrs_def b)
qed

lemma open_tag:
  assumes "tag_name_ok n" "list_all attr_ok bs"
  shows "hoare (at Data v) (print_open n bs)
    (\<lambda>d. \<exists>s' \<in> {TagName, AfterAttributeValueQuoted}. in_tag s' v n (map attr_of bs) False d)"
proof -
  obtain c m where n: "n = c # m" and ok: "sc_alphabetic c" "name_char c" "list_all name_char m"
    using assms(1) by (cases n) (auto simp: tag_name_ok_def)
  show ?thesis
    unfolding print_open_def n
    using hoare_append [OF tag_open hoare_cons [OF tag_first [OF ok(1,2)] hoare_append [OF tag_name [OF ok(3)] attributes
        [OF assms(2)]]]]
    by simp
qed


lemma close_tag_step:
  assumes "in_tag s v n as self d" "no_text d" "n \<noteq> []"
  shows "it_state (close_current_tag d) = raw_next_state n self (it_scripting_enabled d)"
    and "view (close_current_tag d) = v @ [Inr (StartTag n as self)]"
    and "dr_errors (close_current_tag d) = []" and "it_current_end_tag_name (close_current_tag d) = []"
    and "raw_next_state n self (it_scripting_enabled d) \<noteq> Data \<Longrightarrow> it_last_start_tag_name (close_current_tag d) = n"
  using assms by (simp_all add: close_current_tag_def emit_tag_def Let_def assertion_defs view_emit)
    (simp_all add: primitive_defs)

definition plain_name :: "scalar list \<Rightarrow> bool" where
  "plain_name n \<longleftrightarrow> n \<notin> set raw_names \<union> set rcdata_names \<union> {lit ''noscript'', lit ''plaintext''}"

lemma plain_next_state: "plain_name n \<Longrightarrow> raw_next_state n False b = Data"
  by (simp add: plain_name_def raw_names_def rcdata_names_def raw_next_state_def)

lemma self_closing_next_state: "raw_next_state n True b = Data"
  by (simp add: raw_next_state_def)

text \<open>Inside an element whose content is text.\<close>

definition in_content :: "State \<Rightarrow> (u16 + Token) list \<Rightarrow> scalar list \<Rightarrow> Drain \<Rightarrow> bool" where
  "in_content s v n d \<longleftrightarrow> at s v d \<and> it_last_start_tag_name d = n"

lemma stable_in_content [simp, intro]: "stable (in_content s v n)"
  using stable_assertions(1) by (simp add: stable_def in_content_def)

lemma close_plain:
  assumes "n \<noteq> []" "plain_name n" "s \<in> {TagName, AfterAttributeValueQuoted}"
  shows "hoare (in_tag s v n as False) (lit ''>'') (at Data (v @ [Inr (StartTag n as False)]))"
  unfolding lit_def list.map
proof (rule markup_step)
  fix d assume d: "in_tag s v n as False d" "no_text d"
  show "\<exists>d'. (\<forall>r. html_step (PtScalar (asc CHR ''>'')) (scalars [] @ r) d = (d', r)) \<and>
      at Data (v @ [Inr (StartTag n as False)]) d'"
    using assms(3,1) d plain_next_state [OF assms(2)] close_tag_step [OF d assms(1)]
    by (elim insertE emptyE; simp add: step_eval step_content_def step_attribute_def assertion_defs text_ok_no_text)
qed (use assms(3) in \<open>auto simp: script_sets assertion_defs\<close>)

lemma close_content:
  assumes "n \<noteq> []" "\<And>b. raw_next_state n False b = t" "t \<noteq> Data" "s \<in> {TagName, AfterAttributeValueQuoted}"
  shows "hoare (in_tag s v n as False) (lit ''>'') (in_content t (v @ [Inr (StartTag n as False)]) n)"
  unfolding lit_def list.map
proof (rule markup_step)
  fix d assume d: "in_tag s v n as False d" "no_text d"
  show "\<exists>d'. (\<forall>r. html_step (PtScalar (asc CHR ''>'')) (scalars [] @ r) d = (d', r)) \<and>
      in_content t (v @ [Inr (StartTag n as False)]) n d'"
    using assms(4,1,3) d assms(2) close_tag_step [OF d assms(1)]
    by (elim insertE emptyE; simp add: step_eval step_content_def step_attribute_def assertion_defs in_content_def
        text_ok_no_text)
qed (use assms(4) in \<open>auto simp: script_sets assertion_defs\<close>)

lemma close_self:
  assumes "n \<noteq> []" "s \<in> {TagName, AfterAttributeValueQuoted}"
  shows "hoare (in_tag s v n as False) (lit ''/>'') (at Data (v @ [Inr (StartTag n as True)]))"
proof -
  have 1: "hoare (in_tag s v n as False) (lit ''/'') (in_tag SelfClosingStartTag v n as False)"
    unfolding lit_def list.map
  proof (rule markup_step)
    fix d assume d: "in_tag s v n as False d" "no_text d"
    then show "\<exists>d'. (\<forall>r. html_step (PtScalar (asc CHR ''/'')) (scalars [] @ r) d = (d', r)) \<and>
        in_tag SelfClosingStartTag v n as False d'"
      using assms(2) by (elim insertE emptyE; simp add: step_eval step_content_def step_attribute_def assertion_defs
          text_ok_no_text; simp add: primitive_defs)
  qed (use assms(2) in \<open>auto simp: script_sets assertion_defs\<close>)
  have 2: "hoare (in_tag SelfClosingStartTag v n as False) (lit ''>'') (at Data (v @ [Inr (StartTag n as True)]))"
    unfolding lit_def list.map
  proof (rule markup_step)
    fix d assume d: "in_tag SelfClosingStartTag v n as False d" "no_text d"
    let ?d = "d\<lparr>it_current_self_closing := True\<rparr>"
    have "in_tag SelfClosingStartTag v n as True ?d" "no_text ?d"
      using d by (simp_all add: assertion_defs text_ok_no_text)
    from close_tag_step [OF this assms(1)] d
    show "\<exists>d'. (\<forall>r. html_step (PtScalar (asc CHR ''>'')) (scalars [] @ r) d = (d', r)) \<and>
        at Data (v @ [Inr (StartTag n as True)]) d'"
      by (simp add: step_eval step_attribute_def assertion_defs text_ok_no_text self_closing_next_state)
  qed (simp_all add: script_sets assertion_defs)
  from hoare_append [OF 1 2] show ?thesis by (simp add: lit_def)
qed

lemma end_tag_open:
  assumes "sc_alphabetic c" "name_char c"
  shows "hoare (at Data v) (lit ''</'' @ [c]) (in_end_tag v [c])"
proof -
  have 1: "hoare (at TagOpen v) (lit ''/'') (at EndTagOpen v)"
    unfolding lit_def list.map
  proof (rule markup_step)
    fix d assume "at TagOpen v d" "no_text d"
    then show "\<exists>d'. (\<forall>r. html_step (PtScalar (asc CHR ''/'')) (scalars [] @ r) d = (d', r)) \<and> at EndTagOpen v d'"
      by (simp add: step_eval step_content_def assertion_defs text_ok_no_text) (simp add: primitive_defs)
  qed (simp_all add: script_sets assertion_defs)
  have 2: "hoare (at EndTagOpen v) [c] (in_end_tag v [c])"
  proof (rule markup_step)
    fix d assume "at EndTagOpen v d" "no_text d"
    then show "\<exists>d'. (\<forall>r. html_step (PtScalar c) (scalars [] @ r) d = (d', r)) \<and> in_end_tag v [c] d'"
      using assms by (simp add: step_eval step_content_def assertion_defs is_tag_name_start_def name_char_def)
        (simp add: primitive_defs)
  qed (simp_all add: script_sets assertion_defs)
  from hoare_append [OF tag_open hoare_append [OF 1 2]] show ?thesis by (simp add: lit_def)
qed

lemma end_tag_name:
  assumes "list_all name_char m"
  shows "hoare (in_end_tag v n) m (in_end_tag v (n @ m))"
  using assms
proof (induction m arbitrary: n)
  case Nil
  then show ?case by (simp add: hoare_nil)
next
  case (Cons c m)
  have "hoare (in_end_tag v n) [c] (in_end_tag v (n @ [c]))"
  proof (rule markup_step)
    fix d assume "in_end_tag v n d" "no_text d"
    then show "\<exists>d'. (\<forall>r. html_step (PtScalar c) (scalars [] @ r) d = (d', r)) \<and> in_end_tag v (n @ [c]) d'"
      using Cons.prems by (auto simp: step_eval step_content_def assertion_defs name_char_def)
  qed (auto simp: script_sets assertion_defs text_ok_no_text)
  from hoare_cons [OF this Cons.IH [of "n @ [c]"]] Cons.prems show ?case by simp
qed

lemma end_tag_close: "hoare (in_end_tag v n) (lit ''>'') (at Data (v @ [Inr (EndTag n)]))"
  unfolding lit_def list.map
proof (rule markup_step)
  fix d assume "in_end_tag v n d" "no_text d"
  then show "\<exists>d'. (\<forall>r. html_step (PtScalar (asc CHR ''>'')) (scalars [] @ r) d = (d', r)) \<and>
      at Data (v @ [Inr (EndTag n)]) d'"
    by (simp add: step_eval step_content_def assertion_defs close_current_tag_def emit_tag_def view_emit text_ok_no_text)
      (simp add: primitive_defs)
qed (auto simp: script_sets assertion_defs text_ok_no_text)

lemma close_tag:
  assumes "tag_name_ok n"
  shows "hoare (at Data v) (print_close n) (at Data (v @ [Inr (EndTag n)]))"
proof -
  obtain c m where n: "n = c # m" and ok: "sc_alphabetic c" "name_char c" "list_all name_char m"
    using assms by (cases n) (auto simp: tag_name_ok_def)
  from hoare_append [OF end_tag_open [OF ok(1,2)] hoare_append [OF end_tag_name [OF ok(3)] end_tag_close]]
  show ?thesis by (simp add: print_close_def n)
qed

section \<open>Text\<close>

lemma text_piece:
  assumes "s \<in> {Data, RcData}"
  shows "hoare (in_content s v n) (esc_text t) (in_content s (v @ text_flow t) n)"
proof -
  let ?P = "\<lambda>x. in_content s (v @ text_flow x) n"
  have r: "hoare (?P x) (asc CHR ''&'' # lit w) (?P (x @ [c]))"
    if "\<And>r. consume_character_reference (scalars (lit w) @ r) = (Inr [c], r)" for w c x
  proof (rule hoare_step)
    fix d assume "?P x d"
    then show "\<exists>d'. (\<forall>r. html_step (PtScalar (asc CHR ''&'')) (scalars (lit w) @ r) d = (d', r)) \<and> ?P (x @ [c]) d'"
      using assms by (elim insertE emptyE; simp add: step_eval step_content_def step_raw_def at_def in_content_def
          text_reference_def that text_flow_def text_ok_state script_sets; simp add: primitive_defs)
  qed simp
  have "hoare (?P x) (if c = asc CHR ''&'' then lit ''&amp;'' else if c = asc CHR ''<'' then lit ''&lt;'' else [c]) (?P (x @ [c]))"
    for c x
  proof (cases "c = asc CHR ''&'' \<or> c = asc CHR ''<''")
    case True
    then show ?thesis
      using r [of "''amp;''" "asc CHR ''&''" x] r [of "''lt;''" "asc CHR ''<''" x] known_references(1,2)
      by (auto simp: lit_Cons [of "CHR ''&''"]) (simp_all add: lit_def)
  next
    case False
    have "hoare (?P x) [c] (?P (x @ [c]))"
    proof (rule hoare_step)
      fix d assume "?P x d"
      then show "\<exists>d'. (\<forall>r. html_step (PtScalar c) (scalars [] @ r) d = (d', r)) \<and> ?P (x @ [c]) d'"
        using assms False by (elim insertE emptyE; simp add: step_eval step_content_def step_raw_def at_def in_content_def
            text_flow_def text_ok_state script_sets; simp add: primitive_defs)
    qed simp
    with False show ?thesis by simp
  qed
  from hoare_concat [OF this, of "[]" t] show ?thesis by (simp add: esc_text_def text_flow_def)
qed


lemma data_text: "hoare (at Data v) (esc_text t) (at Data (v @ text_flow t))"
  unfolding hoare_def
proof (intro allI impI)
  fix d assume "at Data v d"
  then have "in_content Data v (it_last_start_tag_name d) d" by (simp add: in_content_def)
  then obtain d' where "in_content Data (v @ text_flow t) (it_last_start_tag_name d) d'"
    and r: "\<forall>rest. drain_loop True False (scalars (esc_text t) @ rest) d = drain_loop True False rest d'"
    using text_piece [of Data v "it_last_start_tag_name d" t] unfolding hoare_def by blast
  then show "\<exists>d'. at Data (v @ text_flow t) d' \<and>
      (\<forall>rest. drain_loop True False (scalars (esc_text t) @ rest) d = drain_loop True False rest d')"
    by (auto simp: in_content_def)
qed

section \<open>Comments\<close>

lemma declaration_open: "hoare (at TagOpen v) (lit ''!'') (at MarkupDeclarationOpen v)"
  unfolding lit_def list.map
proof (rule markup_step)
  fix d assume "at TagOpen v d" "no_text d"
  then show "\<exists>d'. (\<forall>r. html_step (PtScalar (asc CHR ''!'')) (scalars [] @ r) d = (d', r)) \<and> at MarkupDeclarationOpen v d'"
    by (simp add: step_eval step_content_def assertion_defs text_ok_no_text) (simp add: primitive_defs)
qed (simp_all add: script_sets assertion_defs)

lemma comment_open: "hoare (at MarkupDeclarationOpen v) (lit ''--'') (in_comment CommentStart v [])"
  unfolding lit_def list.map
proof (rule markup_step)
  fix d assume "at MarkupDeclarationOpen v d" "no_text d"
  then show "\<exists>d'. (\<forall>r. html_step (PtScalar (asc CHR ''-'')) (scalars [asc CHR ''-''] @ r) d = (d', r)) \<and>
      in_comment CommentStart v [] d'"
    by (simp add: step_eval step_markup_declaration_def assertion_defs text_ok_no_text)
      (simp add: primitive_defs text_buffer_default_def)
qed (simp_all add: script_sets assertion_defs)

text \<open>The steps inside a comment: what the state \<open>s\<close> has read but not stored is \<open>p\<close>.\<close>

lemma comment_step:
  assumes "(s, p, c, s', x) \<in>
     {(CommentStart, [], c, Comment, [c]), (Comment, [], c, Comment, [c]),
      (CommentEndDash, lit ''-'', c, Comment, lit ''-'' @ [c])} \<and> c \<noteq> asc CHR ''-'' \<and> (s = CommentStart \<longrightarrow> c \<noteq> asc CHR ''>'')
   \<or> (s, c, s', x) \<in>
     {(CommentStart, asc CHR ''-'', CommentStartDash, []), (CommentStartDash, asc CHR ''-'', CommentEnd, []),
      (Comment, asc CHR ''-'', CommentEndDash, []), (CommentEndDash, asc CHR ''-'', CommentEnd, [])}"
  shows "hoare (in_comment s v y) [c] (in_comment s' v (y @ x))"
proof (rule markup_step)
  fix d assume "in_comment s v y d" "no_text d"
  then show "\<exists>d'. (\<forall>r. html_step (PtScalar c) (scalars [] @ r) d = (d', r)) \<and> in_comment s' v (y @ x) d'"
    using assms
    by (elim disjE conjE insertE emptyE Pair_inject; simp add: step_eval step_comment_def assertion_defs text_ok_no_text;
        simp add: primitive_defs lit_def)
qed (use assms in \<open>auto simp: script_sets assertion_defs\<close>)

lemma comment_body:
  "no_double_dash m \<Longrightarrow> (m \<noteq> [] \<longrightarrow> last m \<noteq> asc CHR ''-'') \<Longrightarrow>
     hoare (in_comment Comment v y) m (in_comment Comment v (y @ m))"
  "no_double_dash (asc CHR ''-'' # m) \<Longrightarrow> m \<noteq> [] \<Longrightarrow> last m \<noteq> asc CHR ''-'' \<Longrightarrow>
     hoare (in_comment CommentEndDash v y) m (in_comment Comment v (y @ asc CHR ''-'' # m))"
proof (induction m arbitrary: y)
  case Nil
  {
    case 1
    then show ?case by (simp add: hoare_nil)
  next
    case 2
    then show ?case by simp
  }
next
  case (Cons c m)
  have tl: "no_double_dash m" "m \<noteq> [] \<longrightarrow> last m \<noteq> asc CHR ''-''"
    if "no_double_dash (c # m)" "last (c # m) \<noteq> asc CHR ''-''"
    using that by (cases m; simp)+
  {
    case 1
    show ?case
    proof (cases "c = asc CHR ''-''")
      case True
      then have "m \<noteq> []" "last m \<noteq> asc CHR ''-''" using 1 by (auto split: if_splits)
      from Cons.IH(2) [OF _ this, of y] 1 True show ?thesis
        using hoare_cons [OF comment_step [of Comment "[]" c CommentEndDash "[]" v y]] by simp
    next
      case False
      from hoare_cons [OF comment_step [of Comment "[]" c Comment "[c]" v y] Cons.IH(1) [OF tl, of "y @ [c]"]] 1 False
      show ?thesis by simp
    qed
  next
    case 2
    then have "c \<noteq> asc CHR ''-''" by simp
    from hoare_cons [OF comment_step [of CommentEndDash "lit ''-''" c Comment "lit ''-'' @ [c]" v y]
        Cons.IH(1) [OF tl, of "y @ lit ''-'' @ [c]"]] 2 this
    show ?case by (simp add: lit_def)
  }
qed

lemma comment_close: "hoare (in_comment CommentEnd v y) (lit ''>'') (at Data (v @ [Inr (CommentTok y)]))"
  unfolding lit_def list.map
proof (rule markup_step)
  fix d assume "in_comment CommentEnd v y d" "no_text d"
  then show "\<exists>d'. (\<forall>r. html_step (PtScalar (asc CHR ''>'')) (scalars [] @ r) d = (d', r)) \<and>
      at Data (v @ [Inr (CommentTok y)]) d'"
    by (simp add: step_eval step_comment_def assertion_defs text_ok_no_text emit_comment_def view_emit comment_token_def
        taken_or_empty_def buf_take_def)
      (auto simp: primitive_defs)
qed (simp_all add: script_sets assertion_defs)

lemma comment:
  assumes "comment_ok s"
  shows "hoare (at Data v) (lit ''<!--'' @ s @ lit ''-->'') (at Data (v @ [Inr (CommentTok s)]))"
proof -
  have start: "hoare (at Data v) (lit ''<!--'') (in_comment CommentStart v [])"
    using hoare_append [OF tag_open hoare_append [OF declaration_open comment_open]] by (simp add: lit_def)
  have "hoare (in_comment CommentStart v []) (s @ lit ''--'') (in_comment CommentEnd v s)"
  proof (cases s)
    case Nil
    then show ?thesis
      using hoare_cons [OF comment_step [of CommentStart "[]" "asc CHR ''-''" CommentStartDash "[]" v "[]"]
          comment_step [of CommentStartDash "[]" "asc CHR ''-''" CommentEnd "[]" v]] by (simp add: lit_def)
  next
    case (Cons c m)
    then have c: "c \<noteq> asc CHR ''-''" "c \<noteq> asc CHR ''>''" and m: "no_double_dash m" "m \<noteq> [] \<longrightarrow> last m \<noteq> asc CHR ''-''"
      using assms by (cases m; auto simp: comment_ok_def)+
    from hoare_append [OF hoare_cons [OF comment_step [of CommentStart "[]" c Comment "[c]" v "[]"]
          comment_body(1) [OF m, of v "[] @ [c]"]]
        hoare_cons [OF comment_step [of Comment "[]" "asc CHR ''-''" CommentEndDash "[]" v]
          comment_step [of CommentEndDash "lit ''-''" "asc CHR ''-''" CommentEnd "[]" v]]] c
    show ?thesis by (simp add: Cons lit_def)
  qed
  from hoare_append [OF start hoare_append [OF this comment_close]] show ?thesis by (simp add: lit_def)
qed


section \<open>DOCTYPE\<close>

lemma doctype_open:
  "hoare (at Data v) (lit ''<!DOCTYPE'') (in_doctype Doctype v [] None None)"
proof -
  have e1: "sc_lower (asc CHR ''D'') = asc CHR ''d''" by (simp add: asc_def sc_lower_def)
  have e2: "sc_eq_ignore_case [asc CHR ''D'', asc CHR ''O'', asc CHR ''C'', asc CHR ''T'', asc CHR ''Y'', asc CHR ''P'',
      asc CHR ''E''] (lit ''doctype'')"
    by (simp add: asc_def sc_lower_def lit_def sc_eq_ignore_case_def)
  have "hoare (at MarkupDeclarationOpen v) (lit ''DOCTYPE'') (in_doctype Doctype v [] None None)"
    unfolding lit_def list.map
  proof (rule markup_step)
    fix d assume "at MarkupDeclarationOpen v d" "no_text d"
    then show "\<exists>d'. (\<forall>r. html_step (PtScalar (asc CHR ''D''))
          (scalars [asc CHR ''O'', asc CHR ''C'', asc CHR ''T'', asc CHR ''Y'', asc CHR ''P'', asc CHR ''E''] @ r) d =
          (d', r)) \<and> in_doctype Doctype v [] None None d'"
      using e1 e2
      by (simp add: step_eval step_markup_declaration_def assertion_defs text_ok_no_text) (simp add: primitive_defs)
  qed (simp_all add: script_sets assertion_defs)
  from hoare_append [OF tag_open hoare_append [OF declaration_open this]] show ?thesis by (simp add: lit_def)
qed

lemma doctype_space:
  assumes "(s, s') \<in>
    {(Doctype, BeforeDoctypeName), (DoctypeName, AfterDoctypeName),
     (AfterDoctypePublicKeyword, BeforeDoctypePublicIdentifier),
     (AfterDoctypePublicIdentifier, BetweenDoctypePublicAndSystemIdentifiers),
     (AfterDoctypeSystemKeyword, BeforeDoctypeSystemIdentifier)}"
  shows "hoare (in_doctype s v n pub sys) (lit '' '') (in_doctype s' v n pub sys)"
  unfolding lit_def list.map
proof (rule markup_step)
  fix d assume "in_doctype s v n pub sys d" "no_text d"
  then show "\<exists>d'. (\<forall>r. html_step (PtScalar (asc CHR '' '')) (scalars [] @ r) d = (d', r)) \<and> in_doctype s' v n pub sys d'"
    using assms by (elim insertE emptyE Pair_inject; simp add: step_eval step_doctype_state_def assertion_defs
        text_ok_no_text; simp add: primitive_defs)
qed (use assms in \<open>auto simp: script_sets assertion_defs\<close>)

lemma doctype_name_char:
  assumes "\<not> is_html_whitespace c" "c \<noteq> asc CHR ''>''" "sc_lower c = c" "s = DoctypeName \<or> s = BeforeDoctypeName \<and> n = []"
  shows "hoare (in_doctype s v n pub sys) [c] (in_doctype DoctypeName v (n @ [c]) pub sys)"
proof (rule markup_step)
  fix d assume "in_doctype s v n pub sys d" "no_text d"
  then show "\<exists>d'. (\<forall>r. html_step (PtScalar c) (scalars [] @ r) d = (d', r)) \<and> in_doctype DoctypeName v (n @ [c]) pub sys d'"
    using assms by (elim disjE conjE; simp add: step_eval step_doctype_state_def assertion_defs text_ok_no_text;
        simp add: primitive_defs)
qed (use assms in \<open>auto simp: script_sets assertion_defs\<close>)

lemma doctype_name:
  assumes "list_all (\<lambda>c. \<not> is_html_whitespace c \<and> c \<noteq> asc CHR ''>'' \<and> sc_lower c = c) m"
  shows "hoare (in_doctype DoctypeName v n pub sys) m (in_doctype DoctypeName v (n @ m) pub sys)"
  using assms
proof (induction m arbitrary: n)
  case Nil
  then show ?case by (simp add: hoare_nil)
next
  case (Cons c m)
  then show ?case
    using hoare_cons [OF doctype_name_char [of c DoctypeName n v pub sys] Cons.IH [of "n @ [c]"]] by simp
qed

lemma doctype_keyword:
  "hoare (in_doctype AfterDoctypeName v n pub sys) (lit ''PUBLIC'') (in_doctype AfterDoctypePublicKeyword v n pub sys)"
  "hoare (in_doctype AfterDoctypeName v n pub sys) (lit ''SYSTEM'') (in_doctype AfterDoctypeSystemKeyword v n pub sys)"
proof -
  have p: "scan_keyword 1 (scalars (lit w) @ r) = (lit w, r)" if "w = ''UBLIC'' \<or> w = ''YSTEM''" for w r
    using that by (cases r) (auto simp: lit_def sc_alphabetic_def asc_def)
  show "hoare (in_doctype AfterDoctypeName v n pub sys) (lit ''PUBLIC'') (in_doctype AfterDoctypePublicKeyword v n pub sys)"
    unfolding lit_Cons [of "CHR ''P''"]
  proof (rule markup_step)
    fix d assume "in_doctype AfterDoctypeName v n pub sys d" "no_text d"
    then show "\<exists>d'. (\<forall>r. html_step (PtScalar (asc CHR ''P'')) (scalars (lit ''UBLIC'') @ r) d = (d', r)) \<and>
        in_doctype AfterDoctypePublicKeyword v n pub sys d'"
      using p [of "''UBLIC''"]
      by (simp add: step_eval step_doctype_state_def after_doctype_name_def assertion_defs text_ok_no_text
          is_html_whitespace_def asc_def len_utf8_def sc_eq_ignore_case_def lit_def sc_lower_def)
        (simp add: primitive_defs)
  qed (simp_all add: script_sets assertion_defs)
  show "hoare (in_doctype AfterDoctypeName v n pub sys) (lit ''SYSTEM'') (in_doctype AfterDoctypeSystemKeyword v n pub sys)"
    unfolding lit_Cons [of "CHR ''S''"]
  proof (rule markup_step)
    fix d assume "in_doctype AfterDoctypeName v n pub sys d" "no_text d"
    then show "\<exists>d'. (\<forall>r. html_step (PtScalar (asc CHR ''S'')) (scalars (lit ''YSTEM'') @ r) d = (d', r)) \<and>
        in_doctype AfterDoctypeSystemKeyword v n pub sys d'"
      using p [of "''YSTEM''"]
      by (simp add: step_eval step_doctype_state_def after_doctype_name_def assertion_defs text_ok_no_text
          is_html_whitespace_def asc_def len_utf8_def sc_eq_ignore_case_def lit_def sc_lower_def)
        (simp add: primitive_defs)
  qed (simp_all add: script_sets assertion_defs)
qed

lemma doctype_public_open:
  "hoare (in_doctype BeforeDoctypePublicIdentifier v n pub sys) [asc CHR 0x22]
     (in_doctype DoctypePublicIdentifierDoubleQuoted v n (Some []) sys)"
proof (rule markup_step)
  fix d assume "in_doctype BeforeDoctypePublicIdentifier v n pub sys d" "no_text d"
  then show "\<exists>d'. (\<forall>r. html_step (PtScalar (asc CHR 0x22)) (scalars [] @ r) d = (d', r)) \<and>
      in_doctype DoctypePublicIdentifierDoubleQuoted v n (Some []) sys d'"
    by (simp add: step_eval step_doctype_state_def assertion_defs text_ok_no_text; simp add: primitive_defs)
qed (simp_all add: script_sets assertion_defs)

lemma doctype_system_open:
  assumes "s \<in> {BeforeDoctypeSystemIdentifier, BetweenDoctypePublicAndSystemIdentifiers}"
  shows "hoare (in_doctype s v n pub sys) [asc CHR 0x22] (in_doctype DoctypeSystemIdentifierDoubleQuoted v n pub (Some []))"
proof (rule markup_step)
  fix d assume "in_doctype s v n pub sys d" "no_text d"
  then show "\<exists>d'. (\<forall>r. html_step (PtScalar (asc CHR 0x22)) (scalars [] @ r) d = (d', r)) \<and>
      in_doctype DoctypeSystemIdentifierDoubleQuoted v n pub (Some []) d'"
    using assms by (elim insertE emptyE; simp add: step_eval step_doctype_state_def assertion_defs text_ok_no_text;
        simp add: primitive_defs)
qed (use assms in \<open>auto simp: script_sets assertion_defs\<close>)

lemma doctype_id_chars:
  assumes "asc CHR 0x22 \<notin> set m" "asc CHR ''>'' \<notin> set m"
  shows "hoare (in_doctype DoctypePublicIdentifierDoubleQuoted v n (Some i) sys) m
      (in_doctype DoctypePublicIdentifierDoubleQuoted v n (Some (i @ m)) sys)"
    and "hoare (in_doctype DoctypeSystemIdentifierDoubleQuoted v n pub (Some i)) m
      (in_doctype DoctypeSystemIdentifierDoubleQuoted v n pub (Some (i @ m)))"
  using assms
proof (induction m arbitrary: i)
  case Nil
  {
    case 1 then show ?case by (simp add: hoare_nil)
  next
    case 2 then show ?case by (simp add: hoare_nil)
  }
next
  case (Cons c m)
  {
    case 1
    have "hoare (in_doctype DoctypePublicIdentifierDoubleQuoted v n (Some i) sys) [c]
        (in_doctype DoctypePublicIdentifierDoubleQuoted v n (Some (i @ [c])) sys)"
    proof (rule markup_step)
      fix d assume "in_doctype DoctypePublicIdentifierDoubleQuoted v n (Some i) sys d" "no_text d"
      then show "\<exists>d'. (\<forall>r. html_step (PtScalar c) (scalars [] @ r) d = (d', r)) \<and>
          in_doctype DoctypePublicIdentifierDoubleQuoted v n (Some (i @ [c])) sys d'"
        using 1 by (simp add: step_eval step_doctype_state_def assertion_defs text_ok_no_text)
          (simp add: primitive_defs)
    qed (simp_all add: script_sets assertion_defs)
    from hoare_cons [OF this Cons.IH(1) [of "i @ [c]"]] 1 show ?case by simp
  next
    case 2
    have "hoare (in_doctype DoctypeSystemIdentifierDoubleQuoted v n pub (Some i)) [c]
        (in_doctype DoctypeSystemIdentifierDoubleQuoted v n pub (Some (i @ [c])))"
    proof (rule markup_step)
      fix d assume "in_doctype DoctypeSystemIdentifierDoubleQuoted v n pub (Some i) d" "no_text d"
      then show "\<exists>d'. (\<forall>r. html_step (PtScalar c) (scalars [] @ r) d = (d', r)) \<and>
          in_doctype DoctypeSystemIdentifierDoubleQuoted v n pub (Some (i @ [c])) d'"
        using 2 by (simp add: step_eval step_doctype_state_def assertion_defs text_ok_no_text)
          (simp add: primitive_defs)
    qed (simp_all add: script_sets assertion_defs)
    from hoare_cons [OF this Cons.IH(2) [of "i @ [c]"]] 2 show ?case by simp
  }
qed

lemma doctype_id_close:
  assumes "(s, s') \<in>
    {(DoctypePublicIdentifierDoubleQuoted, AfterDoctypePublicIdentifier),
     (DoctypeSystemIdentifierDoubleQuoted, AfterDoctypeSystemIdentifier)}"
  shows "hoare (in_doctype s v n pub sys) [asc CHR 0x22] (in_doctype s' v n pub sys)"
proof (rule markup_step)
  fix d assume "in_doctype s v n pub sys d" "no_text d"
  then show "\<exists>d'. (\<forall>r. html_step (PtScalar (asc CHR 0x22)) (scalars [] @ r) d = (d', r)) \<and> in_doctype s' v n pub sys d'"
    using assms by (elim insertE emptyE Pair_inject; simp add: step_eval step_doctype_state_def assertion_defs
        text_ok_no_text; simp add: primitive_defs)
qed (use assms in \<open>auto simp: script_sets assertion_defs\<close>)

lemma doctype_close:
  assumes "s \<in> {DoctypeName, AfterDoctypePublicIdentifier, AfterDoctypeSystemIdentifier}"
  shows "hoare (in_doctype s v n pub sys) (lit ''>'') (at Data (v @ markup_flow (MDoctype n pub sys)))"
  unfolding lit_def list.map
proof (rule markup_step)
  fix d assume "in_doctype s v n pub sys d" "no_text d"
  then show "\<exists>d'. (\<forall>r. html_step (PtScalar (asc CHR ''>'')) (scalars [] @ r) d = (d', r)) \<and>
      at Data (v @ markup_flow (MDoctype n pub sys)) d'"
    using assms by (elim insertE emptyE; simp add: step_eval step_doctype_state_def assertion_defs text_ok_no_text
        emit_doctype_def view_emit; simp add: primitive_defs)
qed (use assms in \<open>auto simp: script_sets assertion_defs\<close>)

lemma doctype_public:
  assumes "doctype_id_ok (Some p)"
  shows "hoare (in_doctype DoctypeName v n None sys) (lit '' PUBLIC '' @ quoted p)
    (in_doctype AfterDoctypePublicIdentifier v n (Some p) sys)"
proof -
  have "asc CHR 0x22 \<notin> set p" "asc CHR ''>'' \<notin> set p" using assms by (simp_all add: doctype_id_ok_def)
  from hoare_append [OF doctype_space hoare_append [OF doctype_keyword(1) hoare_append [OF doctype_space
      hoare_cons [OF doctype_public_open hoare_append [OF doctype_id_chars(1) [OF this, of v n "[]"] doctype_id_close]]]]]
  show ?thesis by (simp add: quoted_def lit_def)
qed

lemma doctype_system:
  assumes "doctype_id_ok (Some y)"
  shows "hoare (in_doctype DoctypeName v n pub None) (lit '' SYSTEM '' @ quoted y)
    (in_doctype AfterDoctypeSystemIdentifier v n pub (Some y))"
    and "hoare (in_doctype AfterDoctypePublicIdentifier v n pub None) (lit '' '' @ quoted y)
    (in_doctype AfterDoctypeSystemIdentifier v n pub (Some y))"
proof -
  have ok: "asc CHR 0x22 \<notin> set y" "asc CHR ''>'' \<notin> set y" using assms by (simp_all add: doctype_id_ok_def)
  from hoare_append [OF doctype_space hoare_append [OF doctype_keyword(2) hoare_append [OF doctype_space
      hoare_cons [OF doctype_system_open hoare_append [OF doctype_id_chars(2) [OF ok, of v n pub "[]"] doctype_id_close]]]]]
  show "hoare (in_doctype DoctypeName v n pub None) (lit '' SYSTEM '' @ quoted y)
    (in_doctype AfterDoctypeSystemIdentifier v n pub (Some y))" by (simp add: quoted_def lit_def)
  from hoare_append [OF doctype_space hoare_cons [OF doctype_system_open hoare_append [OF
      doctype_id_chars(2) [OF ok, of v n pub "[]"] doctype_id_close]]]
  show "hoare (in_doctype AfterDoctypePublicIdentifier v n pub None) (lit '' '' @ quoted y)
    (in_doctype AfterDoctypeSystemIdentifier v n pub (Some y))" by (simp add: quoted_def lit_def)
qed


section \<open>Raw text and script data\<close>

text \<open>A content state, its state behind \<open><\<close>, behind \<open></\<close> and inside the name of the end tag.\<close>

definition raw_tuples :: "(State \<times> State \<times> State \<times> State) set" where
  "raw_tuples =
     {(RawText, RawTextLessThanSign, RawTextEndTagOpen, RawTextEndTagName),
      (ScriptData, ScriptDataLessThanSign, ScriptDataEndTagOpen, ScriptDataEndTagName),
      (RcData, RcDataLessThanSign, RcDataEndTagOpen, RcDataEndTagName)}"

lemma raw_char:
  assumes "s \<in> {RawText, ScriptData}" "c \<noteq> asc CHR ''<''"
  shows "hoare (in_content s v n) [c] (in_content s (v @ text_flow [c]) n)"
proof (rule hoare_step)
  fix d assume "in_content s v n d"
  then show "\<exists>d'. (\<forall>r. html_step (PtScalar c) (scalars [] @ r) d = (d', r)) \<and> in_content s (v @ text_flow [c]) n d'"
    using assms by (elim insertE emptyE; simp add: step_eval step_raw_def step_script_def script_sets in_content_def at_def
        text_flow_def text_ok_state; simp add: primitive_defs)
qed simp

lemma raw_lt:
  assumes "(s, l, e, m) \<in> raw_tuples"
  shows "hoare (in_content s v n) (lit ''<'') (in_content l v n)"
  unfolding lit_def list.map
proof (rule hoare_step)
  fix d assume "in_content s v n d"
  then show "\<exists>d'. (\<forall>r. html_step (PtScalar (asc CHR ''<'')) (scalars [] @ r) d = (d', r)) \<and> in_content l v n d'"
    using assms unfolding raw_tuples_def
    by (elim insertE emptyE Pair_inject; simp add: step_eval step_raw_def step_script_def script_sets in_content_def at_def
        text_ok_state; simp add: primitive_defs)
qed simp

lemma raw_slash:
  assumes "(s, l, e, m) \<in> raw_tuples"
  shows "hoare (in_content l v n) (lit ''/'') (in_raw e v n [])"
  unfolding lit_def list.map
proof (rule hoare_step)
  fix d assume "in_content l v n d"
  then show "\<exists>d'. (\<forall>r. html_step (PtScalar (asc CHR ''/'')) (scalars [] @ r) d = (d', r)) \<and> in_raw e v n [] d'"
    using assms unfolding raw_tuples_def
    by (elim insertE emptyE Pair_inject; simp add: step_eval step_raw_def step_script_def raw_less_than_def script_sets
        in_content_def in_raw_def at_def text_ok_state; simp add: primitive_defs)
qed simp

lemma raw_back:
  assumes "(s, l, e, m) \<in> raw_tuples" "c \<noteq> asc CHR ''/''" "c \<noteq> asc CHR ''!''"
    and "hoare (in_content s (v @ text_flow (lit ''<'')) n) (c # w) R"
  shows "hoare (in_content l v n) (c # w) R"
proof (rule hoare_back)
  fix d assume "in_content l v n d"
  then show "\<exists>d'. (\<forall>r. html_step (PtScalar c) r d = (d', PtScalar c # r)) \<and>
      in_content s (v @ text_flow (lit ''<'')) n d'"
    using assms(1-3) unfolding raw_tuples_def
    by (elim insertE emptyE Pair_inject; simp add: step_eval step_raw_def step_script_def raw_less_than_def script_sets
        in_content_def at_def text_ok_state text_flow_def lit_def; simp add: primitive_defs)
qed (use assms in simp_all)

lemma text_flow_append: "text_flow (s @ t) = text_flow s @ text_flow t"
  by (simp add: text_flow_def)

lemma raw_content:
  assumes "(s, l, e, m) \<in> raw_tuples" "s \<noteq> RcData"
  shows "raw_ok t \<Longrightarrow> hoare (in_content s v n) (t @ lit ''</'') (in_raw e (v @ text_flow t) n [])"
    and "raw_ok (asc CHR ''<'' # t) \<Longrightarrow>
      hoare (in_content l v n) (t @ lit ''</'') (in_raw e (v @ text_flow (asc CHR ''<'' # t)) n [])"
proof (induction t arbitrary: v)
  have s: "s \<in> {RawText, ScriptData}" using assms by (auto simp: raw_tuples_def)
  have fin: "hoare (in_content s v n) (lit ''</'') (in_raw e v n [])" for v
    using hoare_append [OF raw_lt raw_slash] assms(1) by (simp add: lit_def)
  case Nil
  {
    case 1 then show ?case using fin by (simp add: text_flow_def)
  next
    case 2
    then show ?case
      using raw_back [OF assms(1), of "asc CHR ''<''" v n "lit ''/''"] fin by (simp add: lit_def)
  }
next
  have s: "s \<in> {RawText, ScriptData}" using assms by (auto simp: raw_tuples_def)
  case (Cons c t)
  have A: "hoare (in_content s v n) ((c # t) @ lit ''</'') (in_raw e (v @ text_flow (c # t)) n [])" if "raw_ok (c # t)" for v
  proof (cases "c = asc CHR ''<''")
    case True
    then show ?thesis using hoare_cons [OF raw_lt [OF assms(1), unfolded lit_def, simplified] Cons.IH(2)] that by simp
  next
    case False
    have "raw_ok t" using that by (cases t) auto
    from hoare_cons [OF raw_char [OF s False] Cons.IH(1) [OF this]] show ?thesis
      by (simp add: text_flow_def)
  qed
  {
    case 1 then show ?case by (rule A)
  next
    case 2
    then have c: "c \<noteq> asc CHR ''/''" "c \<noteq> asc CHR ''!''" and ok: "raw_ok (c # t)" by simp_all
    show ?case
      using raw_back [OF assms(1) c] A [OF ok, of "v @ text_flow (lit ''<'')"] by (simp add: text_flow_def lit_def)
  }
qed

definition raw_name_ok :: "scalar list \<Rightarrow> bool" where
  "raw_name_ok n \<longleftrightarrow> n \<noteq> [] \<and> list_all sc_alphabetic n \<and> map sc_lower n = n"

lemma raw_end_letters:
  assumes "(s, l, e, m) \<in> raw_tuples" "list_all sc_alphabetic w"
  shows "hoare (in_raw m v n x) w (in_raw m v n (x @ w))"
  using assms(2)
proof (induction w arbitrary: x)
  case Nil
  then show ?case by (simp add: hoare_nil)
next
  case (Cons c w)
  then have c: "sc_alphabetic c" by simp
  have "hoare (in_raw m v n x) [c] (in_raw m v n (x @ [c]))"
  proof (rule hoare_step)
    fix d assume "in_raw m v n x d"
    then show "\<exists>d'. (\<forall>r. html_step (PtScalar c) (scalars [] @ r) d = (d', r)) \<and> in_raw m v n (x @ [c]) d'"
      using assms(1) c letter_cases [OF c] unfolding raw_tuples_def
      by (elim insertE emptyE Pair_inject; simp add: step_eval step_raw_def step_script_def raw_end_tag_name_def
          raw_end_tag_name_step_def script_sets in_raw_def at_def text_ok_state)
  qed simp
  from hoare_cons [OF this Cons.IH [of "x @ [c]"]] Cons.prems show ?case by simp
qed

lemma raw_end_close:
  assumes "(s, l, e, m) \<in> raw_tuples" "map sc_lower n = n"
  shows "hoare (in_raw m v n n) (lit ''>'') (at Data (v @ [Inr (EndTag n)]))"
  unfolding lit_def list.map
proof (rule hoare_step)
  fix d assume "in_raw m v n n d"
  then show "\<exists>d'. (\<forall>r. html_step (PtScalar (asc CHR ''>'')) (scalars [] @ r) d = (d', r)) \<and>
      at Data (v @ [Inr (EndTag n)]) d'"
    using assms unfolding raw_tuples_def
    by (elim insertE emptyE Pair_inject; simp add: step_eval step_raw_def step_script_def raw_end_tag_name_def
        raw_end_tag_name_step_def script_sets in_raw_def at_def text_ok_no_text view_emit sc_eq_ignore_case_def;
        simp add: primitive_defs)
qed simp

lemma raw_end_tag:
  assumes "(s, l, e, m) \<in> raw_tuples" "raw_name_ok n"
  shows "hoare (in_raw e v n []) (n @ lit ''>'') (at Data (v @ [Inr (EndTag n)]))"
proof -
  obtain c w where n: "n = c # w" and c: "sc_alphabetic c" using assms(2) by (cases n) (auto simp: raw_name_ok_def)
  have "hoare (in_raw m v n []) (n @ lit ''>'') (at Data (v @ [Inr (EndTag n)]))"
    using hoare_append [OF raw_end_letters [OF assms(1), of n v n "[]", unfolded append_Nil] raw_end_close [OF assms(1)]] assms(2)
    by (simp add: raw_name_ok_def)
  then have "hoare (in_raw m v n []) (c # w @ lit ''>'') (at Data (v @ [Inr (EndTag n)]))" by (simp add: n)
  then have "hoare (in_raw e v n []) (c # w @ lit ''>'') (at Data (v @ [Inr (EndTag n)]))"
  proof (rule hoare_back [rotated])
    fix d assume "in_raw e v n [] d"
    then show "\<exists>d'. (\<forall>r. html_step (PtScalar c) r d = (d', PtScalar c # r)) \<and> in_raw m v n [] d'"
      using assms(1) c unfolding raw_tuples_def
      by (elim insertE emptyE Pair_inject; simp add: step_eval step_raw_def step_script_def raw_end_tag_open_def script_sets
          in_raw_def at_def text_ok_state; simp add: primitive_defs)
  qed simp
  then show ?thesis by (simp add: n)
qed


section \<open>The round trip\<close>

lemma hoare_ex: "(\<And>s. s \<in> A \<Longrightarrow> hoare (P s) w Q) \<Longrightarrow> hoare (\<lambda>d. \<exists>s\<in>A. P s d) w Q"
  unfolding hoare_def by blast

lemma raw_name_facts:
  assumes "n \<in> set raw_names \<union> set rcdata_names"
  shows "tag_name_ok n" "raw_name_ok n" "n \<noteq> []"
  using assms
  by (auto simp: raw_names_def rcdata_names_def tag_name_ok_def raw_name_ok_def name_char_def lit_def asc_def
      sc_alphabetic_def sc_lower_def is_html_whitespace_def)

lemma raw_states_of_names:
  "n \<in> set raw_names \<Longrightarrow> \<exists>s\<in>{RawText, ScriptData}. \<forall>b. raw_next_state n False b = s"
  "n \<in> set rcdata_names \<Longrightarrow> raw_next_state n False b = RcData"
  by (auto simp: raw_names_def rcdata_names_def raw_next_state_def lit_def)

lemma content_element:
  assumes "n \<in> set raw_names \<union> set rcdata_names" "list_all attr_ok as" "(s, l, e, m) \<in> raw_tuples"
    and "\<And>b. raw_next_state n False b = s"
    and "\<And>v. hoare (in_content s v n) (t @ lit ''</'') (in_raw e (v @ text_flow u) n [])"
  shows "hoare (at Data v) (print_open n as @ lit ''>'' @ t @ print_close n)
    (at Data (v @ Inr (StartTag n (map attr_of as) False) # text_flow u @ [Inr (EndTag n)]))"
proof -
  note n = raw_name_facts [OF assms(1)]
  have s: "s \<noteq> Data" using assms(3) by (auto simp: raw_tuples_def)
  have "hoare (\<lambda>d. \<exists>s'\<in>{TagName, AfterAttributeValueQuoted}. in_tag s' v n (map attr_of as) False d) (lit ''>'')
      (in_content s (v @ [Inr (StartTag n (map attr_of as) False)]) n)"
    by (rule hoare_ex, rule close_content [OF n(3) assms(4) s])
  from hoare_append [OF open_tag [OF n(1) assms(2)] hoare_append [OF this hoare_append [OF assms(5)
      raw_end_tag [OF assms(3) n(2)]]]]
  show ?thesis by (simp add: print_close_def)
qed

lemma rcdata_content:
  "hoare (in_content RcData v n) (esc_text t @ lit ''</'') (in_raw RcDataEndTagOpen (v @ text_flow t) n [])"
proof -
  have "(RcData, RcDataLessThanSign, RcDataEndTagOpen, RcDataEndTagName) \<in> raw_tuples" by (simp add: raw_tuples_def)
  from hoare_append [OF text_piece [of RcData v n t] hoare_append [OF raw_lt [OF this] raw_slash [OF this]]]
  show ?thesis by (simp add: lit_def)
qed

lemma hoare_exI: "hoare Q w (P s) \<Longrightarrow> s \<in> A \<Longrightarrow> hoare Q w (\<lambda>d. \<exists>s\<in>A. P s d)"
  unfolding hoare_def by blast

lemma doctype_ids:
  assumes "doctype_id_ok pub" "doctype_id_ok sys"
  shows "hoare (in_doctype DoctypeName v n None None)
      (case pub of
         Some p \<Rightarrow> lit '' PUBLIC '' @ quoted p @ (case sys of Some y \<Rightarrow> lit '' '' @ quoted y | None \<Rightarrow> [])
       | None \<Rightarrow> (case sys of Some y \<Rightarrow> lit '' SYSTEM '' @ quoted y | None \<Rightarrow> []))
      (\<lambda>d. \<exists>s\<in>{DoctypeName, AfterDoctypePublicIdentifier, AfterDoctypeSystemIdentifier}. in_doctype s v n pub sys d)"
proof (cases pub)
  case None
  show ?thesis
  proof (cases sys)
    case None
    show ?thesis unfolding \<open>pub = None\<close> None option.case by (rule hoare_exI [of _ _ _ DoctypeName], rule hoare_nil) simp_all
  next
    case (Some y)
    show ?thesis unfolding None Some option.case
      by (rule hoare_exI, rule doctype_system(1)) (use assms Some in simp_all)
  qed
next
  case (Some p)
  then have p: "doctype_id_ok (Some p)" using assms by simp
  show ?thesis
  proof (cases sys)
    case None
    show ?thesis unfolding Some None option.case append_Nil2
      by (rule hoare_exI, rule doctype_public [OF p]) simp
  next
    case (Some y)
    then have "doctype_id_ok (Some y)" using assms by simp
    from hoare_append [OF doctype_public [OF p] doctype_system(2) [OF this]] show ?thesis
      unfolding \<open>pub = Some p\<close> Some option.case append.assoc by (rule hoare_exI) simp
  qed
qed

lemma markup_item:
  assumes "markup_ok m"
  shows "hoare (at Data v) (print_markup m) (at Data (v @ markup_flow m))"
proof (cases m)
  case (MText s)
  then show ?thesis using data_text by simp
next
  case (MOpen n as self)
  then have ok: "tag_name_ok n" "list_all attr_ok as" "self \<or> plain_name n" "n \<noteq> []"
    using assms by (auto simp: plain_name_def tag_name_ok_def)
  have "hoare (\<lambda>d. \<exists>s'\<in>{TagName, AfterAttributeValueQuoted}. in_tag s' v n (map attr_of as) False d)
      (if self then lit ''/>'' else lit ''>'') (at Data (v @ markup_flow m))"
    by (rule hoare_ex) (use ok close_self close_plain MOpen in auto)
  from hoare_append [OF open_tag [OF ok(1,2)] this] show ?thesis by (simp add: MOpen)
next
  case (MClose n)
  then show ?thesis using close_tag assms by simp
next
  case (MComment s)
  then show ?thesis using comment assms by simp
next
  case (MDoctype n pub sys)
  then obtain c k where n: "n = c # k"
    and c: "\<not> is_html_whitespace c" "c \<noteq> asc CHR ''>''" "sc_lower c = c"
    and k: "list_all (\<lambda>c. \<not> is_html_whitespace c \<and> c \<noteq> asc CHR ''>'' \<and> sc_lower c = c) k"
    and ids: "doctype_id_ok pub" "doctype_id_ok sys"
    using assms by (cases n) auto
  have 1: "hoare (at Data v) (lit ''<!DOCTYPE '' @ n) (in_doctype DoctypeName v n None None)"
    using hoare_append [OF doctype_open hoare_append [OF doctype_space hoare_cons [OF
        doctype_name_char [OF c, of BeforeDoctypeName "[]"] doctype_name [OF k]]]]
    by (simp add: n lit_def)
  have 3: "hoare (\<lambda>d. \<exists>s\<in>{DoctypeName, AfterDoctypePublicIdentifier, AfterDoctypeSystemIdentifier}.
      in_doctype s v n pub sys d) (lit ''>'') (at Data (v @ markup_flow (MDoctype n pub sys)))"
    by (rule hoare_ex, rule doctype_close)
  from hoare_append [OF 1 hoare_append [OF doctype_ids [OF ids, of v n] 3]] show ?thesis
    by (simp only: MDoctype print_markup.simps append.assoc)
next
  case (MRaw n as s)
  then obtain b where b: "b \<in> {RawText, ScriptData}" "\<And>x. raw_next_state n False x = b"
    using assms raw_states_of_names(1) [of n] by auto
  then obtain l e t where r: "(b, l, e, t) \<in> raw_tuples" "b \<noteq> RcData" by (auto simp: raw_tuples_def)
  have c: "hoare (in_content b x n) (s @ lit ''</'') (in_raw e (x @ text_flow s) n [])" for x
    by (rule raw_content(1) [OF r]) (use assms MRaw in simp)
  show ?thesis using content_element [OF _ _ r(1) b(2) c, of as v] assms by (simp add: MRaw)
next
  case (MRcData n as s)
  then have n: "n \<in> set rcdata_names" "list_all attr_ok as" using assms by simp_all
  have r: "(RcData, RcDataLessThanSign, RcDataEndTagOpen, RcDataEndTagName) \<in> raw_tuples" by (simp add: raw_tuples_def)
  show ?thesis
    using content_element [OF _ n(2) r raw_states_of_names(2) [OF n(1)] rcdata_content, of v s] n(1) by (simp add: MRcData)
qed

lemma markup_list:
  "list_all markup_ok ms \<Longrightarrow>
   hoare (at Data v) (concat (map print_markup ms)) (at Data (v @ concat (map markup_flow ms)))"
proof (induction ms arbitrary: v)
  case Nil
  then show ?case by (simp add: hoare_nil)
next
  case (Cons m ms)
  then show ?case using hoare_append [OF markup_item Cons.IH] by simp
qed

text \<open>C23: markup that has been printed with its text and attribute values escaped reads back as itself: the start tags with exactly
  their attributes, end tags, comments, DOCTYPEs with their identifiers and the text between them, without a parse
  error; in particular no text and no attribute value can open or close a tag.  Raw text elements and scripts give their
  content back verbatim as long as it holds neither \<open></\<close> nor \<open><!\<close>.\<close>

theorem html_print_roundtrip:
  assumes "list_all markup_ok ms"
  shows "flow (fst (tokenize_with_errors (tokenizer_new (concat (map print_markup ms))))) =
           concat (map markup_flow ms) @ [Inr EofTok]
         \<and> snd (tokenize_with_errors (tokenizer_new (concat (map print_markup ms)))) = []"
proof -
  let ?w = "concat (map print_markup ms)"
  let ?t = "push_input ?w (incremental_tokenizer_new\<lparr>it_scripting_enabled := True\<rparr>)"
  have t: "it_pending ?t = scalars ?w" "it_input_decoder ?t = \<lparr>pending_high = None\<rparr>"
    by (simp_all add: push_input_def decoder_push_str_def decoder_finish_def incremental_tokenizer_new_def scalars_def)
  have "at Data [] (drain_start True ?t)"
    by (simp add: at_def drain_start_def finish_input_chunk_def decoder_finish_def t push_input_def decoder_push_str_def
        incremental_tokenizer_new_def IncrementalTokenizer.defs Drain.defs view_def text_ok_def)
  from markup_list [OF assms, of "[]"] this obtain d
    where d: "at Data (concat (map markup_flow ms)) d"
      and l: "\<forall>rest. drain_loop True False (scalars ?w @ rest) (drain_start True ?t) = drain_loop True False rest d"
    unfolding hoare_def by auto
  from l [rule_format, of "[]"] have "drain_loop True False (it_pending ?t @ points_of (it_input_decoder ?t) []) (drain_start True ?t) = (d, [])"
    by (simp add: t points_of_def decoder_push_def decoder_finish_def)
  moreover obtain ts es t' where "drain True False ?t = ((ts, es), t')" by (metis prod.collapse)
  ultimately show ?thesis
    using drain_final [of ?t d "[]" ts es t'] d
    by (simp add: tokenize_with_errors_def tokenize_with_script_positions_def tokenizer_new_def push_source_def at_def
        final_flow_def final_errors_def unexpected_eof_states_def state_sets)
qed

lemma html_print_roundtrip_witness:
  "snd (tokenize_with_errors (tokenizer_new (concat (map print_markup
     [MDoctype (lit ''html'') None None, MOpen (lit ''p'') [(lit ''a'', lit ''x&y'')] False, MText (lit ''1<2''),
      MComment (lit ''c''), MRaw (lit ''style'') [] (lit ''a>b''), MClose (lit ''p'')])))) = []"
proof -
  have "list_all markup_ok
     [MDoctype (lit ''html'') None None, MOpen (lit ''p'') [(lit ''a'', lit ''x&y'')] False, MText (lit ''1<2''),
      MComment (lit ''c''), MRaw (lit ''style'') [] (lit ''a>b''), MClose (lit ''p'')]"
    by (simp add: lit_def asc_def is_html_whitespace_def sc_lower_def tag_name_ok_def sc_alphabetic_def name_char_def
        attr_ok_def raw_names_def rcdata_names_def comment_ok_def doctype_id_ok_def)
  from html_print_roundtrip [OF this] show ?thesis by blast
qed

end
