(* ===== verification/HtmlProps.thy ===== *)
theory HtmlProps
  imports HtmlRoundTrip
begin

text \<open>
  Two more facts on the HTML tokenizer: undelivered input is kept unit by unit, and a stray \<open><\<close> takes the
  following character with it.
\<close>

section \<open>Pending input\<close>

definition pending_units :: "InputDecoder \<Rightarrow> u16 list" where
  "pending_units d = (case pending_high d of None \<Rightarrow> [] | Some u \<Rightarrow> [u])"

text \<open>The invariant of the decoder: what is pending is a high surrogate.\<close>

definition decoder_ok :: "InputDecoder \<Rightarrow> bool" where
  "decoder_ok d \<longleftrightarrow> (case pending_high d of None \<Rightarrow> True | Some u \<Rightarrow> is_high u)"

definition points_units :: "InputCodePoint list \<Rightarrow> u16 list" where
  "points_units ps = concat (map point_units ps)"

lemma points_units_simps [simp]:
  "points_units [] = []" "points_units (p # ps) = point_units p @ points_units ps"
  "points_units (ps @ qs) = points_units ps @ points_units qs"
  by (simp_all add: points_units_def)

lemma decoder_unit_lossless:
  "decoder_unit u (\<lparr>pending_high = None\<rparr>, out) = (d', out') \<Longrightarrow>
   points_units out' @ pending_units d' = points_units out @ [u] \<and> decoder_ok d'"
  by (auto simp: decoder_unit_def pending_units_def decoder_ok_def split: if_splits)

lemma decoder_push_unit_lossless:
  assumes "decoder_ok d" "decoder_push_unit u (d, out) = (d', out')"
  shows "points_units out' @ pending_units d' = points_units out @ pending_units d @ [u] \<and> decoder_ok d'"
proof (cases "pending_high d")
  case None
  then have "d = \<lparr>pending_high = None\<rparr>" by (cases d) simp
  then show ?thesis using assms(2) decoder_unit_lossless [of u out d' out']
    by (simp add: decoder_push_unit_def pending_units_def)
next
  case (Some high)
  then have d: "d\<lparr>pending_high := None\<rparr> = \<lparr>pending_high = None\<rparr>" and h: "is_high high"
    using assms(1) by (cases d; simp add: decoder_ok_def)+
  show ?thesis
  proof (cases "is_low u")
    case True
    then show ?thesis using assms(2) Some h d encode_pair [OF h True]
      by (auto simp: decoder_push_unit_def pending_units_def decoder_ok_def Let_def)
  next
    case False
    then show ?thesis using assms(2) Some d decoder_unit_lossless [of u "out @ [PtSurrogate high]" d' out']
      by (simp add: decoder_push_unit_def pending_units_def Let_def)
  qed
qed

lemma decoder_push_lossless:
  assumes "decoder_ok d" "decoder_push us (d, out) = (d', out')"
  shows "points_units out' @ pending_units d' = points_units out @ pending_units d @ us \<and> decoder_ok d'"
  using assms
proof (induction us arbitrary: d out)
  case Nil
  then show ?case by (simp add: decoder_push_def)
next
  case (Cons u us)
  obtain d1 out1 where u: "decoder_push_unit u (d, out) = (d1, out1)" by fastforce
  from decoder_push_unit_lossless [OF Cons.prems(1) u] Cons.IH [of d1 out1] Cons.prems(2) show ?case
    by (simp add: decoder_push_def u)
qed

text \<open>The writes of a schedule, without its drains.\<close>

fun write_all :: "Feed list \<Rightarrow> IncrementalTokenizer \<Rightarrow> IncrementalTokenizer" where
  "write_all [] t = t"
| "write_all (FeedUnits us # fs) t = write_all fs (push_input_utf16 us t)"
| "write_all (FeedText s # fs) t = write_all fs (push_input s t)"
| "write_all (FeedDrain _ # fs) t = write_all fs t"

lemma push_units_lossless:
  assumes "decoder_ok (it_input_decoder t)"
  shows "points_units (it_pending (push_input_utf16 us t)) @ pending_units (it_input_decoder (push_input_utf16 us t)) =
           points_units (it_pending t) @ pending_units (it_input_decoder t) @ us
         \<and> decoder_ok (it_input_decoder (push_input_utf16 us t))"
proof -
  obtain d' out' where p: "decoder_push us (it_input_decoder t, it_pending t) = (d', out')" by fastforce
  from decoder_push_lossless [OF assms p] show ?thesis by (simp add: push_input_utf16_def p)
qed

lemma write_all_lossless:
  assumes "\<forall>s. FeedText s \<in> set fs \<longrightarrow> (\<forall>c\<in>set s. is_scalar_value c)" "decoder_ok (it_input_decoder t)"
  shows "points_units (it_pending (write_all fs t)) @ pending_units (it_input_decoder (write_all fs t)) =
           points_units (it_pending t) @ pending_units (it_input_decoder t) @ feed_units fs
         \<and> decoder_ok (it_input_decoder (write_all fs t))"
  using assms
proof (induction fs t rule: write_all.induct)
  case (3 s fs t)
  have s: "\<forall>c\<in>set s. is_scalar_value c" using 3(2) by auto
  have "push_input s t = push_input_utf16 (encode_text s) t"
    by (simp add: push_input_def push_input_utf16_def push_text [OF s])
  with 3 push_units_lossless [OF 3(3), of "encode_text s"] show ?case by simp
qed (use push_units_lossless in auto)

lemma buffer_units: "buf_units (fold push_code_point ps b) = buf_units b @ points_units ps"
  by (induction ps arbitrary: b) simp_all

lemma units_taken_or_empty: "buf_units (taken_or_empty b) = buf_units b"
  by (auto simp: taken_or_empty_def buf_take_def dom_string_from_utf16_def split: DomString.splits option.splits
      dest: string_from_utf16_units)

text \<open>C34: what has been written and not yet consumed can be taken back without loss: whatever strings and UTF-16 pieces were
  written to a fresh tokenizer, even with surrogate pairs cut in two or surrogates without a partner, the pending input is exactly
  the code units written.\<close>

theorem html_pending_input_lossless:
  assumes "\<forall>s. FeedText s \<in> set fs \<longrightarrow> (\<forall>c\<in>set s. is_scalar_value c)"
  shows "buf_units (fst (take_pending_input_owned (write_all fs incremental_tokenizer_new))) = feed_units fs"
proof -
  let ?t = "write_all fs incremental_tokenizer_new"
  have "points_units (it_pending ?t) @ pending_units (it_input_decoder ?t) = feed_units fs"
    using write_all_lossless [OF assms, of incremental_tokenizer_new]
    by (simp add: incremental_tokenizer_new_def decoder_ok_def pending_units_def)
  moreover have "points_units (it_pending (finish_input_chunk ?t)) =
      points_units (it_pending ?t) @ pending_units (it_input_decoder ?t)"
    by (simp add: finish_input_chunk_def decoder_finish_def pending_units_def split: option.split)
  ultimately show ?thesis
    by (simp add: Let_def take_pending_input_owned_def units_taken_or_empty buffer_units)
qed

lemma html_pending_input_lossless_witness:
  "buf_units (fst (take_pending_input_owned
     (write_all [FeedUnits [0xD83D], FeedUnits [0xDE00, 0xDC00], FeedText [0x1F600]] incremental_tokenizer_new))) =
   [0xD83D, 0xDE00, 0xDC00, 0xD83D, 0xDE00]"
proof -
  have "\<forall>s. FeedText s \<in> set [FeedUnits [0xD83D], FeedUnits [0xDE00, 0xDC00], FeedText [0x1F600]] \<longrightarrow>
      (\<forall>c\<in>set s. is_scalar_value c)"
    by (simp add: is_scalar_value_def)
  from html_pending_input_lossless [OF this] show ?thesis by (simp add: encode_utf16_def)
qed

section \<open>A stray less-than sign\<close>

definition text_at :: "HtmlParseError list \<Rightarrow> (u16 + Token) list \<Rightarrow> Drain \<Rightarrow> bool" where
  "text_at es v d \<longleftrightarrow> it_state d = Data \<and> view d = v \<and> dr_errors d = es"

lemma stable_text_at [simp, intro]: "stable (text_at es v)"
  by (simp add: stable_def text_at_def view_def)

lemma plain_text:
  assumes "asc CHR ''<'' \<notin> set s" "asc CHR ''&'' \<notin> set s"
  shows "hoare (text_at es v) s (text_at es (v @ text_flow s))"
  using assms
proof (induction s arbitrary: v)
  case Nil
  then show ?case by (simp add: hoare_nil text_flow_def)
next
  case (Cons c s)
  have "hoare (text_at es v) [c] (text_at es (v @ text_flow [c]))"
  proof (rule hoare_step)
    fix d assume "text_at es v d"
    then show "\<exists>d'. (\<forall>r. html_step (PtScalar c) (scalars [] @ r) d = (d', r)) \<and> text_at es (v @ text_flow [c]) d'"
      using Cons.prems by (simp add: step_eval step_content_def text_at_def text_flow_def) (simp add: primitive_defs)
  qed simp
  from hoare_cons [OF this Cons.IH] Cons.prems show ?case by (simp add: text_flow_def)
qed

lemma stray_less_than:
  assumes "\<not> sc_alphabetic c" "c \<notin> asc ` set ''/!?''"
  shows "hoare (at TagOpen v) [c] (text_at [MissingTagName] (v @ text_flow (asc CHR ''<'' # [c])))"
proof (rule markup_step)
  fix d assume "at TagOpen v d" "no_text d"
  then show "\<exists>d'. (\<forall>r. html_step (PtScalar c) (scalars [] @ r) d = (d', r)) \<and>
      text_at [MissingTagName] (v @ text_flow (asc CHR ''<'' # [c])) d'"
    using assms by (simp add: step_eval step_content_def at_def text_at_def text_flow_def is_tag_name_start_def)
      (simp add: primitive_defs view_def)
qed (simp_all add: script_sets assertion_defs)

text \<open>C35: behind a \<open><\<close> that opens no tag the tokenizer does not look at the next character again: a second \<open><\<close> or a \<open>&\<close> there is text,
  so the tag or the character reference that it begins is lost.  The HTML standard reconsumes the character in the data state.\<close>

theorem html_stray_less_than_hides_markup:
  assumes "c \<in> {asc CHR ''<'', asc CHR ''&''}" and "asc CHR ''<'' \<notin> set s" "asc CHR ''&'' \<notin> set s"
  shows "flow (fst (tokenize_with_errors (tokenizer_new (asc CHR ''<'' # c # s)))) =
           text_flow (asc CHR ''<'' # c # s) @ [Inr EofTok]
         \<and> snd (tokenize_with_errors (tokenizer_new (asc CHR ''<'' # c # s))) = [MissingTagName]"
proof -
  let ?w = "asc CHR ''<'' # c # s"
  let ?t = "push_input ?w (incremental_tokenizer_new\<lparr>it_scripting_enabled := True\<rparr>)"
  have c: "\<not> sc_alphabetic c" "c \<notin> asc ` set ''/!?''"
    using assms(1) by (auto simp: sc_alphabetic_def asc_def)
  have t: "it_pending ?t = scalars ?w" "it_input_decoder ?t = \<lparr>pending_high = None\<rparr>"
    by (simp_all add: push_input_def decoder_push_str_def decoder_finish_def incremental_tokenizer_new_def scalars_def)
  have "at Data [] (drain_start True ?t)"
    by (simp add: at_def drain_start_def finish_input_chunk_def decoder_finish_def t push_input_def decoder_push_str_def
        incremental_tokenizer_new_def IncrementalTokenizer.defs Drain.defs view_def text_ok_def)
  moreover have "hoare (at Data []) ?w (text_at [MissingTagName] (text_flow ?w))"
    using hoare_append [OF tag_open hoare_cons [OF stray_less_than [OF c] plain_text [OF assms(2,3)]], of "[]"]
    by (simp add: lit_def text_flow_def)
  ultimately obtain d where d: "text_at [MissingTagName] (text_flow ?w) d"
    and l: "\<forall>rest. drain_loop True False (scalars ?w @ rest) (drain_start True ?t) = drain_loop True False rest d"
    unfolding hoare_def by blast
  from l [rule_format, of "[]"]
  have "drain_loop True False (it_pending ?t @ points_of (it_input_decoder ?t) []) (drain_start True ?t) = (d, [])"
    by (simp add: t points_of_def decoder_push_def decoder_finish_def)
  moreover obtain ts es t' where "drain True False ?t = ((ts, es), t')" by (metis prod.collapse)
  ultimately show ?thesis
    using drain_final [of ?t d "[]" ts es t'] d
    by (simp add: tokenize_with_errors_def tokenize_with_script_positions_def tokenizer_new_def push_source_def text_at_def
        final_flow_def final_errors_def unexpected_eof_states_def state_sets)
qed

lemma html_stray_less_than_hides_markup_witness:
  "snd (tokenize_with_errors (tokenizer_new (asc CHR ''<'' # asc CHR ''<'' # lit ''b>bold''))) = [MissingTagName]"
  using html_stray_less_than_hides_markup [of "asc CHR ''<''" "lit ''b>bold''"] by (simp add: lit_def)

end
