(* ===== verification/Spec2Isabelle.thy ===== *)
theory Spec2Isabelle
  imports CorsProps DomProps ResourceProps Http2Props WebLockProps WebStorageProps CspProps EventLoopProps HtmlProps
begin

text \<open>
  Omoikane is a headless browser.  Its own code lies under \<open>src/src/\<close> (the JavaScript engine under \<open>src/engine\<close> is
  third-party).  This development models the parts that carry the security and state
  logic of the browser: the network stack, the tree of the DOM, the pool of resource workers, storage, content
  security policies, the event loop and the HTML tokenizer.

  \<^bold>\<open>How the parts interact.\<close>  A document asks the fetch layer (\<open>http/cors.rs\<close>, \<open>http/corp.rs\<close>) for a resource.  The fetch layer
  builds requests (\<open>http/request.rs\<close>), asks for permission with preflights, and hands single exchanges
  to the client (\<open>http/client.rs\<close>), which attaches cookies from the jar (\<open>http/cookie.rs\<close>), stores the cookies of the response, computes the
  referrer (\<open>http/referrer.rs\<close>) and follows redirects.  Requests are printed and responses parsed over a byte stream (\<open>http/response.rs\<close>,
  \<open>http/http2.rs\<close>).  Changes of the jar wake subscribers (\<open>http/cookie/changes.rs\<close>).  The fetches and decodings of a document run
  on the worker pool (\<open>resource_worker.rs\<close>); what they deliver ends up in the DOM (\<open>dom/mod.rs\<close>, \<open>dom/children.rs\<close>).  Whether a reference may be fetched or a script may run is decided by the
  policies of the document (\<open>js/csp.rs\<close>), whose reports go to the endpoints that its response declared
  (\<open>js/security_reporting/endpoints.rs\<close>).  The markup of a document, whether it arrives from
  the network or is written by a script in pieces, passes the tokenizer (\<open>html/tokenizer.rs\<close>), which stops at the end tag of each script so that the
  script can run before the rest is read.  Scripts keep data in the storage manager (\<open>js/storage.rs\<close>), and all work they cause is
  ordered by the event loop (\<open>js/event_loop.rs\<close>).

  \<^bold>\<open>Theories and sources.\<close>
  \<^item> \<open>Prelude\<close>, \<open>RustStd\<close>, \<open>WireText\<close>: results and the \<open>?\<close> operator, the contract of self-delimiting codecs (locale \<open>codec\<close>), Rust's strings as byte
    lists, integer parsing, UTF-8, addresses, and lemmas on printed text.
  \<^item> \<open>HttpUrl\<close> (\<open>http/url.rs\<close>, \<open>http/site.rs\<close>): URLs, origins and schemeful sites over the parser of the \<open>url\<close> crate and the
    public suffix list, which are parameters.
  \<^item> \<open>Cookie\<close>, \<open>CookieDate\<close>, \<open>CookieJar\<close>, \<open>CookieChanges\<close> (\<open>http/cookie.rs\<close>, \<open>http/cookie/changes.rs\<close>): parsing, dates, storage policy, the
    jar with its change log and registrations, selection, and the wakeups of subscribers.
    \<open>JarInvariant\<close> shows that every sequence of operations keeps the jar well formed (unique keys, bounded log, increasing
    sequence numbers) and what each operation leaves alone; \<open>JarSecurity\<close> derives the access policies: scripts and \<open>HttpOnly\<close>,
    insecure origins and \<open>Secure\<close>, partitions, \<open>SameSite\<close>, ordering, expiry and polling.
  \<^item> \<open>Request\<close>, \<open>Language\<close>, \<open>Referrer\<close>, \<open>Response\<close>: construction and printing of requests, language preferences, referrer policies, and
    the response parser with interim responses, chunking, content codings and limits.  Round trips show that nothing can be
    smuggled into the printed form; the bounds hold for every accepted body.
  \<^item> \<open>Client\<close>, \<open>ClientProps\<close> (\<open>http/client.rs\<close>): the redirect loop with its cookies, header filters and observers over a network that is a
    state-passing parameter and may change shared jars.
  \<^item> \<open>Corp\<close>, \<open>Cors\<close>, \<open>CorsProps\<close> (\<open>http/corp.rs\<close>, \<open>http/cors.rs\<close>): origins, resource and embedder policies, preflights and their cache, the fetch
    loop and the filtering of response headers.
  \<^item> \<open>Http2\<close>, \<open>Http2Props\<close> (\<open>http/http2.rs\<close>): frames, the HPACK subset, flow-control counters with 32-bit wrap-around and the exchange of one request.  Frames and
    header fields instantiate \<open>codec\<close>.
  \<^item> \<open>DomChildren\<close> (\<open>dom/children.rs\<close>): the slot storage of the children of one node with its free list and double-ended iterator, refined to a plain list
    (locale \<open>sibling_store\<close>).
  \<^item> \<open>DomTree\<close> (\<open>dom/mod.rs\<close>): nodes, creation, shadow roots, sibling and ancestor queries, top-layer and scroll state, and the moves of nodes;
    with \<open>declare_shadow_root\<close>, what the parser (\<open>html/tree_builder.rs\<close>) does with a template that declares a shadow root: the root becomes the contents
    of the template, which leaves the tree.
    \<open>DomInvariant\<close> relates child storage and parent links; \<open>DomWalk\<close> treats the recursive walks over a detached
    subtree once (locale \<open>subtree_walk\<close>) and \<open>DomResets\<close> interprets it for both walks; \<open>DomReach\<close> has the step relation and the
    invariants of all reachable states; \<open>DomReturns\<close> shows that moves return; \<open>DomProps\<close> states the properties.  The steps insert neither contents
    fragments and shadow roots themselves nor a template whose contents are a shadow root: the last is a guard
    that the node operations do not check, and \<open>DomReturns\<close> shows that the walks may diverge without it.
  \<^item> \<open>ResourceWorker\<close>, \<open>ResourceProps\<close> (\<open>resource_worker.rs\<close>): submission, the priority queue (locale \<open>priority_queue\<close>), worker threads with their condition
    variable, cancellation and shutdown as interleaved steps; one outcome per job, no lost wakeup, order of dispatch.
  \<^item> \<open>StorageState\<close>, \<open>WebLocks\<close>, \<open>Opfs\<close>, \<open>WebStorage\<close> (\<open>js/storage.rs\<close>): the state of the storage manager; the queues of web locks; the
    private file system with quota, locks, moves and its file on disk; storage areas, visited links and
    caches.  \<open>WebLockProps\<close> has mutual exclusion and the absence of forgotten waiters over all interleavings, \<open>OpfsProps\<close> the refinement to
    flat maps on success and on failure, the round trip of writes, durability of the trees under faults and a move that loses its file, \<open>WebStorageProps\<close> the refinement to
    maps and the contract of caches.
  \<^item> \<open>Csp\<close>, \<open>CspProps\<close> (\<open>js/csp.rs\<close>): parsing of policies, matching of URLs, redirects, inline code, nonces and hashes, trusted types and
    reports.  The round trip of policies, the agreement of reports with decisions (for references that are not
    names of inline source), and the inline check against the algorithm of the standard, from which it differs for scripts that
    scripts create.
  \<^item> \<open>ReportingEndpoints\<close> (\<open>js/security_reporting/endpoints.rs\<close>): the structured-field dictionary of \<open>Reporting-Endpoints\<close> and
    what makes a URL an endpoint.  \<open>DataUri\<close> (\<open>http/data_uri.rs\<close>): decoding
    of data URLs, with a round trip.
  \<^item> \<open>EventLoop\<close>, \<open>EventLoopProps\<close> (\<open>js/event_loop.rs\<close>): task queues by source, timers on the virtual clock, animation frames, cancellation and garbage
    collection roots.  The queues refine one list of tasks; timers fire in the order of their deadlines; the delay
    reported to the embedder is exact; after the teardown of a document nothing recorded for it runs (timers, lock grants, violation events, frame
    callbacks; messages to its window, navigations of windows it opened and worker messages are not cancelled by the code); all
    retained values are traced.
  \<^item> \<open>HtmlInput\<close>, \<open>HtmlTokenizer\<close> (\<open>html/tokenizer.rs\<close>, \<open>html/tokenizer/*.rs\<close>, \<open>dom/string.rs\<close>): code points of UTF-16 and string writes, text
    buffers, source positions, all states of the tokenizer and the drain loop.  The cursor of the code is the consumed code point and the list behind
    it, and reconsuming puts the point back; the local variables of \<open>drain\<close> are the fields of the tokenizer extended by the tokens and errors of the call.
    \<open>HtmlOutput\<close> says what a step may do to the output and \<open>HtmlChunks\<close> that the output does not depend on where the input is cut
    or drained; \<open>HtmlRoundTrip\<close> has Hoare triples for stretches of input and the round trip of printed markup; \<open>HtmlProps\<close> treats input
    taken back and a deviation from the standard.  Outputs are compared as \<open>flow\<close>: markup tokens and the UTF-16
    units of the text between them.

  \<^bold>\<open>Conventions.\<close>  Errors are the left values of a sum; a panic or a recursion that does not end is \<open>None\<close>.  Records have the fields of the
  structs, operations take and return the state they change.  Clock readings, the operating
  system's answers and thread scheduling are arguments or nondeterministic steps.  Integers are words or numbers with their bounds
  written out; overflow is that of a release build, or a checked failure where the code checks.

  \<^bold>\<open>Parameters.\<close>  The \<open>url\<close> crate, the public suffix list (\<open>psl\<close>), gzip decoding, the network behind the client, observers of redirects, thread creation and
  the results of jobs; base64 and the SHA-2 hashes; the encoding of the profile file (\<open>serde_json\<close>) and the faults of the
  file system below it; values and realms of the JavaScript engine.

  \<^bold>\<open>Bounds and fuel.\<close>  The response parser reads at most sixteen responses as the code does; the redirect loops recur on the code's own limits;
  readers recur on the bytes left.  The ancestor loop has fuel for one more than all identities ever
  issued, which suffices because ancestry has no cycle.  The walks over a detached subtree have the number of issued
  identities as depth; \<open>DomReturns\<close> shows that this is enough in every reachable state.  The tokenizer's loop ends because every step consumes a code point or
  hands it to a state of lower rank.  Insertion into child storage needs room
  for one more slot (a vector never has \<open>usize::MAX\<close> elements), and the theorem that moves return needs counters that are not
  within six steps of \<open>u64::MAX\<close>.  Node identities and top-layer orders are unbounded numbers.  Theorems
  on the event loop need as many free task identities below \<open>u64::MAX\<close> as tasks are to be queued: at the bound identities
  repeat.

  \<^bold>\<open>Not modelled.\<close>  Sockets, TLS, connection pooling and ALPN (\<open>http/connection.rs\<close> and the sessions of \<open>http/http2.rs\<close>): operating-system I/O and libraries.
  Attributes, text data, form controls, slot assignment and ARIA references of the DOM, HTML tree construction, CSS, layout, painting, fonts, SVG, XML, the
  JavaScript bindings, the DevTools protocol: they either rest on libraries that are not part of the sources (fonts, images, the
  engine) or are bodies of rules whose model is left for a further development, first the tokenizer of CSS and the
  attributes and slots of the DOM, on which tree construction rests.
\<close>

end
